(* ===== verification/Prelude.thy ===== *)
theory Prelude
  imports Main "HOL-Library.Word" "HOL-Library.AList" "HOL-Library.Sublist" "HOL-Library.Multiset"
begin

text \<open>
  What every component theory shares: the server's error type (src/server/src/error.rs) and its
  result type, the saturating integers of the source, ordered maps (Rust's BTreeMap) as strictly
  sorted association lists, and the interface locales (state machines, emitters, simulations, stores of histories)
  that the components interpret on their own operations.

  Conventions: an Instant is a nat count of nanoseconds, so that natural subtraction is
  \<open>saturating_duration_since\<close>; identifiers and texts are HOL strings (byte sequences); a fallible
  function returns \<open>error + 'a\<close>, Inl the error.
\<close>

named_theorems model_defs \<open>definitions of the operations of the modelled components\<close>
named_theorems inv_intros \<open>preservation of the components' invariants\<close>


section \<open>Errors (src/server/src/error.rs)\<close>

text \<open>The variants that wrap a foreign error carry its text.\<close>

datatype error =
    Config string
  | Protocol string
  | Provider string
  | Store string
  | Cancelled
  | RunNotFound string
  | Database string
  | Migration string
  | MigrationTimeout string nat
  | Http string
  | Decode string
  | Encode string
  | Json string
  | Io string

type_synonym 'a result = "error + 'a"

fun is_ok :: "'e + 'a \<Rightarrow> bool" where
  "is_ok (Inl _) = False"
| "is_ok (Inr _) = True"

fun rbind :: "'e + 'a \<Rightarrow> ('a \<Rightarrow> 'e + 'b) \<Rightarrow> 'e + 'b" where
  "rbind (Inl e) f = Inl e"
| "rbind (Inr x) f = f x"

lemma rbind_Inr_iff [simp]: "rbind r f = Inr y \<longleftrightarrow> (\<exists>x. r = Inr x \<and> f x = Inr y)"
  by (cases r) auto

lemma rbind_Inl_iff: "rbind r f = Inl e \<longleftrightarrow> r = Inl e \<or> (\<exists>x. r = Inr x \<and> f x = Inl e)"
  by (cases r) auto

lemma rbind_cong [fundef_cong]:
  "r = r' \<Longrightarrow> (\<And>x. r' = Inr x \<Longrightarrow> f x = f' x) \<Longrightarrow> rbind r f = rbind r' f'"
  by (cases r') auto

definition ok_or :: "'e \<Rightarrow> 'a option \<Rightarrow> 'e + 'a" where
  "ok_or e x = (case x of None \<Rightarrow> Inl e | Some v \<Rightarrow> Inr v)"

lemma ok_or_simps [simp]: "ok_or e None = Inl e" "ok_or e (Some v) = Inr v"
  by (simp_all add: ok_or_def)

text \<open>The HTTP status and the code word of an error response.\<close>

fun error_status :: "error \<Rightarrow> nat" where
  "error_status (Config _) = 400"
| "error_status (Protocol _) = 400"
| "error_status (Decode _) = 400"
| "error_status (Json _) = 400"
| "error_status (RunNotFound _) = 404"
| "error_status (Provider _) = 502"
| "error_status (Http _) = 502"
| "error_status Cancelled = 409"
| "error_status (Store _) = 500"
| "error_status (Database _) = 500"
| "error_status (Migration _) = 500"
| "error_status (MigrationTimeout _ _) = 500"
| "error_status (Encode _) = 500"
| "error_status (Io _) = 500"

definition status_code :: "nat \<Rightarrow> string" where
  "status_code s =
     (if s = 400 then ''invalid_argument'' else if s = 404 then ''not_found''
      else if s = 409 then ''aborted'' else if s = 502 then ''unavailable'' else ''internal'')"

definition error_response :: "error \<Rightarrow> nat \<times> string" where
  "error_response e = (error_status e, status_code (error_status e))"


section \<open>Machine integers kept as nat or int\<close>

definition u64_max :: nat where "u64_max = 2 ^ 64 - 1"
definition i64_max :: int where "i64_max = 2 ^ 63 - 1"
definition i64_min :: int where "i64_min = - (2 ^ 63)"

definition sat_add_u64 :: "nat \<Rightarrow> nat \<Rightarrow> nat" where
  "sat_add_u64 a b = min (a + b) u64_max"

definition sat_add_i64 :: "int \<Rightarrow> int \<Rightarrow> int" where
  "sat_add_i64 a b = max i64_min (min i64_max (a + b))"

lemma sat_add_u64_le [simp]: "sat_add_u64 a b \<le> u64_max"
  by (simp add: sat_add_u64_def)

lemma sat_add_u64_exact: "a + b \<le> u64_max \<Longrightarrow> sat_add_u64 a b = a + b"
  by (simp add: sat_add_u64_def)

lemma sat_add_u64_mono: "a \<le> u64_max \<Longrightarrow> a \<le> sat_add_u64 a b"
  by (simp add: sat_add_u64_def)

lemma sat_add_i64_exact: "i64_min \<le> a + b \<Longrightarrow> a + b \<le> i64_max \<Longrightarrow> sat_add_i64 a b = a + b"
  by (simp add: sat_add_i64_def)

lemma sat_add_i64_le [simp]: "sat_add_i64 a b \<le> i64_max"
  by (simp add: sat_add_i64_def i64_min_def i64_max_def)

definition secs :: "nat \<Rightarrow> nat" where "secs n = n * 1000000000"


text \<open>The decimal digits of a natural number, as \<open>format!\<close> prints them.\<close>

fun show_nat :: "nat \<Rightarrow> string" where
  "show_nat n = (if n < 10 then [char_of (48 + n)] else show_nat (n div 10) @ [char_of (48 + n mod 10)])"

declare show_nat.simps [simp del]

definition show_int :: "int \<Rightarrow> string" where
  "show_int i = (if i < 0 then CHR ''-'' # show_nat (nat (- i)) else show_nat (nat i))"


section \<open>Ordered maps (BTreeMap) as strictly sorted association lists\<close>

definition smap_ok :: "('k::linorder \<times> 'v) list \<Rightarrow> bool" where
  "smap_ok m = sorted_wrt (<) (map fst m)"

fun smap_put :: "'k::linorder \<Rightarrow> 'v \<Rightarrow> ('k \<times> 'v) list \<Rightarrow> ('k \<times> 'v) list" where
  "smap_put k v [] = [(k, v)]"
| "smap_put k v ((k', v') # m) =
     (if k < k' then (k, v) # (k', v') # m
      else if k = k' then (k, v) # m
      else (k', v') # smap_put k v m)"

definition smap_del :: "'k::linorder \<Rightarrow> ('k \<times> 'v) list \<Rightarrow> ('k \<times> 'v) list" where
  "smap_del k m = filter (\<lambda>e. fst e \<noteq> k) m"

lemma smap_put_keys: "fst ` set (smap_put k v m) = insert k (fst ` set m)"
  by (induction k v m rule: smap_put.induct) auto

lemma smap_ok_Nil [simp]: "smap_ok []"
  by (simp add: smap_ok_def)

lemma smap_ok_Cons: "smap_ok (e # m) \<longleftrightarrow> (\<forall>x\<in>set m. fst e < fst x) \<and> smap_ok m"
  by (auto simp: smap_ok_def)

lemma smap_ok_put [intro, simp]: "smap_ok m \<Longrightarrow> smap_ok (smap_put k v m)"
proof (induction k v m rule: smap_put.induct)
  case (2 k v k' v' m)
  have "\<forall>x\<in>set (smap_put k v m). k' < fst x" if "k' < k"
  proof
    fix x assume "x \<in> set (smap_put k v m)"
    then have "fst x \<in> insert k (fst ` set m)"
      using smap_put_keys by (metis image_eqI)
    then show "k' < fst x" using that 2 by (auto simp: smap_ok_Cons)
  qed
  then show ?case using 2 by (auto simp: smap_ok_Cons)
qed (simp add: smap_ok_def)

lemma smap_ok_del [intro, simp]: "smap_ok m \<Longrightarrow> smap_ok (smap_del k m)"
  by (induction m) (auto simp: smap_del_def smap_ok_Cons)

lemma smap_ok_distinct: "smap_ok m \<Longrightarrow> distinct (map fst m)"
  by (simp add: smap_ok_def strict_sorted_iff)

lemma smap_get_put [simp]: "smap_ok m \<Longrightarrow> map_of (smap_put k v m) = (map_of m)(k \<mapsto> v)"
proof (induction k v m rule: smap_put.induct)
  case (2 k v k' v' m)
  then show ?case by (auto simp: smap_ok_Cons)
qed simp

lemma smap_get_del [simp]: "map_of (smap_del k m) = (map_of m)(k := None)"
  by (induction m) (auto simp: smap_del_def)

lemma smap_del_absent: "k \<notin> fst ` set m \<Longrightarrow> smap_del k m = m"
  unfolding smap_del_def by (rule filter_True) (auto intro: imageI)

lemma smap_del_keys [simp]: "fst ` set (smap_del k m) = fst ` set m - {k}"
  by (auto simp: smap_del_def)

lemma smap_del_length: "map_of m k = Some v \<Longrightarrow> length (smap_del k m) < length m"
  unfolding smap_del_def
  by (metis (mono_tags, lifting) fst_conv length_filter_less map_of_SomeD)

lemma smap_del_length_le: "length (smap_del k m) \<le> length m"
  by (simp add: smap_del_def)

lemma smap_put_length: "length (smap_put k v m) \<le> Suc (length m)"
  by (induction k v m rule: smap_put.induct) auto

lemma smap_put_length_new:
  "smap_ok m \<Longrightarrow> k \<notin> fst ` set m \<Longrightarrow> length (smap_put k v m) = Suc (length m)"
  by (induction k v m rule: smap_put.induct) (auto simp: smap_ok_Cons)

lemma smap_put_hd: "m \<noteq> [] \<Longrightarrow> fst (hd (smap_put k v m)) = min k (fst (hd m))"
  by (induction k v m rule: smap_put.induct) auto

lemma smap_put_set:
  "smap_ok m \<Longrightarrow> set (smap_put k v m) = insert (k, v) (set (smap_del k m))"
proof (induction k v m rule: smap_put.induct)
  case (2 k v k' v' m)
  have "smap_del k m = m" if "k = k'"
    using 2(2) that by (intro smap_del_absent) (auto simp: smap_ok_Cons)
  moreover have "smap_del k ((k', v') # m) = (k', v') # m" if "k < k'"
    using 2(2) that by (intro smap_del_absent) (auto simp: smap_ok_Cons)
  ultimately show ?case using 2 by (auto simp: smap_ok_Cons smap_del_def)
qed (simp add: smap_del_def)

lemma smap_put_neq_Nil [simp]: "smap_put k v m \<noteq> []"
  by (cases "(k, v, m)" rule: smap_put.cases) auto

lemma smap_ok_map_of_mem: "smap_ok m \<Longrightarrow> map_of m k = Some v \<longleftrightarrow> (k, v) \<in> set m"
  using map_of_eq_Some_iff[OF smap_ok_distinct] by metis


section \<open>Lists and folds\<close>

lemma fold_invariant_all:
  assumes "P s" "\<And>x s. x \<in> set xs \<Longrightarrow> P s \<Longrightarrow> P (f x s)"
  shows "P (fold f xs s)"
  using assms by (induction xs arbitrary: s) auto

lemma find_SomeD: "find P xs = Some x \<Longrightarrow> x \<in> set xs \<and> P x"
  by (auto simp: find_Some_iff)

lemma find_NoneD: "find P xs = None \<Longrightarrow> x \<in> set xs \<Longrightarrow> \<not> P x"
  by (simp add: find_None_iff)

lemma find_append_old: "find P t = Some x \<Longrightarrow> find P (t @ u) = Some x"
  by (induction t) auto

lemma find_append_none: "find P t = None \<Longrightarrow> find P (t @ u) = find P u"
  by (induction t) auto

lemma find_unique:
  "distinct (map f xs) \<Longrightarrow> x \<in> set xs \<Longrightarrow> find (\<lambda>y. f y = f x) xs = Some x"
  by (induction xs) (auto simp: image_iff)

lemma sort_key_sorted_id: "sorted (map f xs) \<Longrightarrow> sort_key f xs = xs"
proof (induction xs)
  case (Cons x xs)
  then show ?case by (cases xs) auto
qed simp

lemma map_of_filter_in: "map_of m k = Some v \<Longrightarrow> P (k, v) \<Longrightarrow> map_of (filter P m) k = Some v"
  by (induction m) (auto split: if_splits)

lemma map_of_filter_key:
  "map_of (filter (\<lambda>e. P (fst e)) m) k = (if P k then map_of m k else None)"
  by (induction m) auto

definition take_last :: "nat \<Rightarrow> 'a list \<Rightarrow> 'a list" where
  "take_last n xs = drop (length xs - n) xs"

lemma take_last_id [simp]: "length xs \<le> n \<Longrightarrow> take_last n xs = xs"
  by (simp add: take_last_def)

lemma take_last_tl: "n < length xs \<Longrightarrow> take_last n (tl xs) = take_last n xs"
  by (simp add: take_last_def drop_Suc[symmetric] Suc_diff_Suc Suc_diff_le)

lemma take_last_snoc: "take_last n (take_last n xs @ [x]) = take_last n (xs @ [x])"
  by (cases "length xs \<le> n") (auto simp: take_last_def Suc_diff_le)

lemma take_last_set: "set (take_last n xs) \<subseteq> set xs"
  by (simp add: take_last_def set_drop_subset)

lemma take_last_length [simp]: "length (take_last n xs) = min n (length xs)"
  by (simp add: take_last_def)

text \<open>
  Folding a fallible operation over a list: stop at the first error (the question mark of the
  source inside a for loop).
\<close>

fun fold_ok :: "('x \<Rightarrow> 's \<Rightarrow> 'e + 's) \<Rightarrow> 'x list \<Rightarrow> 's \<Rightarrow> 'e + 's" where
  "fold_ok f [] s = Inr s"
| "fold_ok f (x # xs) s = (case f x s of Inl e \<Rightarrow> Inl e | Inr s' \<Rightarrow> fold_ok f xs s')"

lemma fold_ok_append:
  "fold_ok f (xs @ ys) s =
     (case fold_ok f xs s of Inl e \<Rightarrow> Inl e | Inr s' \<Rightarrow> fold_ok f ys s')"
  by (induction xs arbitrary: s) (auto split: sum.splits)

lemma fold_ok_invariant:
  assumes "fold_ok f xs s = Inr s'" "P s"
    and "\<And>x s s'. x \<in> set xs \<Longrightarrow> P s \<Longrightarrow> f x s = Inr s' \<Longrightarrow> P s'"
  shows "P s'"
  using assms
proof (induction xs arbitrary: s)
  case (Cons x xs)
  then obtain t where t: "f x s = Inr t" "fold_ok f xs t = Inr s'"
    by (auto split: sum.splits)
  have "P t" by (rule Cons.prems(3)[OF _ Cons.prems(2) t(1)]) simp
  then show ?case by (rule Cons.IH[OF t(2)]) (rule Cons.prems(3), auto)
qed simp


section \<open>Interfaces\<close>

text \<open>A state machine whose steps keep an invariant, and what its runs keep.\<close>

locale state_machine =
  fixes step :: "'e \<Rightarrow> 's \<Rightarrow> 's" and inv :: "'s \<Rightarrow> bool"
  assumes step_inv: "inv s \<Longrightarrow> inv (step e s)"
begin

lemma run_inv: "inv s \<Longrightarrow> inv (fold step es s)"
  by (induction es arbitrary: s) (simp_all add: step_inv)

end

text \<open>A machine whose steps also climb in a preorder: runs climb in it too.\<close>

locale climbing_machine = state_machine step inv
  for step :: "'e \<Rightarrow> 's \<Rightarrow> 's" and inv :: "'s \<Rightarrow> bool" +
  fixes below :: "'s \<Rightarrow> 's \<Rightarrow> bool"
  assumes below_refl: "below s s"
    and below_trans: "below a b \<Longrightarrow> below b c \<Longrightarrow> below a c"
    and step_climbs: "inv s \<Longrightarrow> below s (step e s)"
begin

lemma run_climbs: "inv s \<Longrightarrow> below s (fold step es s)"
proof (induction es arbitrary: s)
  case (Cons e es)
  have "below (step e s) (fold step es (step e s))"
    by (rule Cons.IH) (rule step_inv[OF Cons.prems])
  then show ?case
    using below_trans[OF step_climbs[OF Cons.prems]] by simp
qed (simp add: below_refl)

end

text \<open>A machine whose steps emit outputs.\<close>

fun run_out :: "('e \<Rightarrow> 's \<Rightarrow> 'o list \<times> 's) \<Rightarrow> 'e list \<Rightarrow> 's \<Rightarrow> 'o list \<times> 's" where
  "run_out step [] s = ([], s)"
| "run_out step (e # es) s =
     (let (out, s') = step e s; (rest, s'') = run_out step es s' in (out @ rest, s''))"

lemma run_out_append:
  "run_out step (xs @ ys) s =
     (let (a, s') = run_out step xs s; (b, s'') = run_out step ys s' in (a @ b, s''))"
  by (induction xs arbitrary: s) (auto simp: Let_def split: prod.splits)

text \<open>
  An emitter keeps a watermark: the keys of what a step emits are strictly increasing, none below
  the watermark it started from, all below the one it leaves.
\<close>

locale emitter =
  fixes step :: "'e \<Rightarrow> 's \<Rightarrow> 'o list \<times> 's"
    and legal :: "'e \<Rightarrow> bool"
    and inv :: "'s \<Rightarrow> bool"
    and mark :: "'s \<Rightarrow> 'k::linorder"
    and key :: "'o \<Rightarrow> 'k"
  assumes emit_inv: "legal e \<Longrightarrow> inv s \<Longrightarrow> step e s = (out, s') \<Longrightarrow> inv s'"
    and emit_sorted: "legal e \<Longrightarrow> inv s \<Longrightarrow> step e s = (out, s') \<Longrightarrow> sorted_wrt (<) (map key out)"
    and emit_above: "legal e \<Longrightarrow> inv s \<Longrightarrow> step e s = (out, s') \<Longrightarrow> x \<in> set out \<Longrightarrow> mark s \<le> key x"
    and emit_below: "legal e \<Longrightarrow> inv s \<Longrightarrow> step e s = (out, s') \<Longrightarrow> x \<in> set out \<Longrightarrow> key x < mark s'"
    and mark_mono: "legal e \<Longrightarrow> inv s \<Longrightarrow> step e s = (out, s') \<Longrightarrow> mark s \<le> mark s'"
begin

lemma run_emits:
  assumes "list_all legal es" "inv s" "run_out step es s = (out, s')"
  shows "inv s' \<and> sorted_wrt (<) (map key out) \<and> (\<forall>x\<in>set out. mark s \<le> key x)
    \<and> mark s \<le> mark s'"
  using assms
proof (induction es arbitrary: s out s')
  case (Cons e es)
  obtain o1 s1 where 1: "step e s = (o1, s1)" by force
  obtain o2 s2 where 2: "run_out step es s1 = (o2, s2)" by force
  have e: "legal e" and es: "list_all legal es" using Cons.prems(1) by auto
  have out: "out = o1 @ o2" "s' = s2" using Cons.prems(3) 1 2 by auto
  have IH: "inv s2 \<and> sorted_wrt (<) (map key o2) \<and> (\<forall>x\<in>set o2. mark s1 \<le> key x)
    \<and> mark s1 \<le> mark s2"
    using Cons.IH[OF es emit_inv[OF e Cons.prems(2) 1] 2] .
  have "\<forall>x\<in>set o1. \<forall>y\<in>set o2. key x < key y"
    using emit_below[OF e Cons.prems(2) 1] IH by force
  moreover have "\<forall>x\<in>set o2. mark s \<le> key x"
    using mark_mono[OF e Cons.prems(2) 1] IH by force
  ultimately show ?case
    using out IH emit_sorted[OF e Cons.prems(2) 1] emit_above[OF e Cons.prems(2) 1]
      mark_mono[OF e Cons.prems(2) 1]
    by (auto simp: sorted_wrt_append)
qed simp

end

text \<open>
  A machine that implements another: related states emit the same for every legal event and stay related.
\<close>

fun legal_run :: "('e \<Rightarrow> 'a \<Rightarrow> 'o list \<times> 'a) \<Rightarrow> ('e \<Rightarrow> 'a \<Rightarrow> bool) \<Rightarrow> 'e list \<Rightarrow> 'a \<Rightarrow> bool" where
  "legal_run step legal [] a = True"
| "legal_run step legal (e # es) a = (legal e a \<and> legal_run step legal es (snd (step e a)))"

locale simulation =
  fixes concrete_step :: "'e \<Rightarrow> 'c \<Rightarrow> 'o list \<times> 'c"
    and abstract_step :: "'e \<Rightarrow> 'a \<Rightarrow> 'o list \<times> 'a"
    and legal :: "'e \<Rightarrow> 'a \<Rightarrow> bool"
    and related :: "'c \<Rightarrow> 'a \<Rightarrow> bool"
  assumes same_output: "related c a \<Longrightarrow> legal e a \<Longrightarrow> fst (concrete_step e c) = fst (abstract_step e a)"
    and stays_related: "related c a \<Longrightarrow> legal e a \<Longrightarrow> related (snd (concrete_step e c)) (snd (abstract_step e a))"
begin

lemma run_refines:
  "related c a \<Longrightarrow> legal_run abstract_step legal es a
   \<Longrightarrow> fst (run_out concrete_step es c) = fst (run_out abstract_step es a)
     \<and> related (snd (run_out concrete_step es c)) (snd (run_out abstract_step es a))"
proof (induction es arbitrary: c a)
  case (Cons e es)
  obtain o1 c1 where c: "concrete_step e c = (o1, c1)" by (cases "concrete_step e c")
  obtain o2 a1 where a: "abstract_step e a = (o2, a1)" by (cases "abstract_step e a")
  have "o1 = o2" "related c1 a1" "legal_run abstract_step legal es a1"
    using same_output[of c a e] stays_related[of c a e] Cons.prems c a by auto
  then show ?case using Cons.IH[of c1 a1] c a by (simp add: Let_def split_beta)
qed simp

end

text \<open>
  A store of histories that only grow: appending to a history gives a new one, its handle, and leaves
  every valid one as it was. A client's chain of appends then accumulates.
\<close>

fun append_all :: "('h \<Rightarrow> 'm list \<Rightarrow> 's \<Rightarrow> 'e + 'h \<times> 's) \<Rightarrow> 'm list list \<Rightarrow> 'h \<Rightarrow> 's \<Rightarrow> 'e + 'h \<times> 's" where
  "append_all f [] h s = Inr (h, s)"
| "append_all f (ms # mss) h s = rbind (f h ms s) (\<lambda>(h', s'). append_all f mss h' s')"

locale history_store =
  fixes append :: "'h \<Rightarrow> 'm list \<Rightarrow> 's \<Rightarrow> 'e + 'h \<times> 's"
    and hist :: "'s \<Rightarrow> 'h \<Rightarrow> 'm list"
    and inv :: "'s \<Rightarrow> bool"
    and valid :: "'s \<Rightarrow> 'h \<Rightarrow> bool"
    and stored :: "'m \<Rightarrow> 'm"
  assumes append_inv: "inv s \<Longrightarrow> valid s h \<Longrightarrow> append h ms s = Inr (h', s') \<Longrightarrow> inv s' \<and> valid s' h'"
    and append_hist: "inv s \<Longrightarrow> valid s h \<Longrightarrow> append h ms s = Inr (h', s') \<Longrightarrow> hist s' h' = hist s h @ map stored ms"
    and append_keeps: "inv s \<Longrightarrow> valid s h \<Longrightarrow> append h ms s = Inr (h', s') \<Longrightarrow> valid s k \<Longrightarrow>
      valid s' k \<and> hist s' k = hist s k"
begin

lemma append_all_spec:
  "inv s \<Longrightarrow> valid s h \<Longrightarrow> append_all append mss h s = Inr (h', s') \<Longrightarrow>
   inv s' \<and> valid s' h' \<and> hist s' h' = hist s h @ map stored (concat mss)
   \<and> (\<forall>k. valid s k \<longrightarrow> valid s' k \<and> hist s' k = hist s k)"
proof (induction mss arbitrary: h s)
  case (Cons ms mss)
  then obtain h1 s1 where 1: "append h ms s = Inr (h1, s1)" "append_all append mss h1 s1 = Inr (h', s')" by auto
  note i = append_inv[OF Cons.prems(1,2) 1(1)]
  have "inv s' \<and> valid s' h' \<and> hist s' h' = hist s1 h1 @ map stored (concat mss)
    \<and> (\<forall>k. valid s1 k \<longrightarrow> valid s' k \<and> hist s' k = hist s1 k)"
    using Cons.IH[OF _ _ 1(2)] i by blast
  then show ?case
    using append_hist[OF Cons.prems(1,2) 1(1)] append_keeps[OF Cons.prems(1,2) 1(1)] by simp
qed simp

end

end
