(* ===== verification/Lifecycle.thy ===== *)
theory Lifecycle
  imports Prelude
begin

text \<open>
  Append admission and transport shutdown (src/server/src/cursor/transport/lifecycle.rs). Each method
  of the source runs under one lock, so it is one function on the locked state; the two Notify objects
  are the signals a method raises after it releases the lock. An admission is a guard that a caller
  holds while its append is in progress; dropping it is the operation \<open>drop_admission\<close>. The two waiting
  methods are modelled with their interleavings: arm the notification, check the state, park.
\<close>

datatype transport_state = Open | Closing | Draining | Closed

record lifecycle =
  lc_state :: transport_state
  admissions :: nat

datatype signal = AdmissionsDrained | ClosedSignal

definition lifecycle_new :: lifecycle where
  "lifecycle_new = \<lparr>lc_state = Open, admissions = 0\<rparr>"

definition is_open :: "lifecycle \<Rightarrow> bool" where
  "is_open s = (lc_state s = Open)"

text \<open>True: an admission guard was handed out.\<close>

definition admit :: "lifecycle \<Rightarrow> bool \<times> lifecycle" where
  "admit s = (if lc_state s \<noteq> Open then (False, s) else (True, s\<lparr>admissions := admissions s + 1\<rparr>))"

definition begin_close :: "lifecycle \<Rightarrow> signal list \<times> lifecycle" where
  "begin_close s =
     (if lc_state s \<noteq> Open then ([], s)
      else (if admissions s = 0 then [AdmissionsDrained] else [], s\<lparr>lc_state := Closing\<rparr>))"

definition admissions_drained :: "lifecycle \<Rightarrow> bool" where
  "admissions_drained s = (admissions s = 0)"

definition mark_draining :: "lifecycle \<Rightarrow> lifecycle" where
  "mark_draining s =
     (if lc_state s = Closing \<and> admissions s = 0 then s\<lparr>lc_state := Draining\<rparr> else s)"

definition reopen :: "lifecycle \<Rightarrow> lifecycle" where
  "reopen s =
     (case lc_state s of
        Closing \<Rightarrow> s\<lparr>lc_state := Open\<rparr>
      | Draining \<Rightarrow> s\<lparr>lc_state := Open\<rparr>
      | _ \<Rightarrow> s)"

definition close :: "lifecycle \<Rightarrow> signal list \<times> lifecycle" where
  "close s = (if lc_state s = Closed then ([], s) else ([ClosedSignal], s\<lparr>lc_state := Closed\<rparr>))"

definition drop_admission :: "lifecycle \<Rightarrow> signal list \<times> lifecycle" where
  "drop_admission s =
     (let s' = s\<lparr>admissions := admissions s - 1\<rparr>
      in (if lc_state s' = Closing \<and> admissions s' = 0 then [AdmissionsDrained] else [], s'))"

lemmas lifecycle_ops =
  lifecycle_new_def is_open_def admit_def begin_close_def admissions_drained_def mark_draining_def
  reopen_def close_def drop_admission_def


section \<open>The waiting methods\<close>

text \<open>
  \<open>wait_admissions_drained\<close> and \<open>wait_closed\<close> are loops: arm the notification (from then on a signal
  reaches this waiter), check the state under the lock, return or park until the signal comes. The
  bool is whether the signal came since the waiter was armed.
\<close>

datatype waiter = Idle | Armed bool | Parked bool | Returned

fun wake :: "waiter \<Rightarrow> waiter" where
  "wake Idle = Idle"
| "wake (Armed b) = Armed True"
| "wake (Parked b) = Parked True"
| "wake Returned = Returned"

text \<open>One turn of a waiter's loop; \<open>ready\<close> is the condition it checks under the lock.\<close>

fun waiter_turn :: "bool \<Rightarrow> waiter \<Rightarrow> waiter" where
  "waiter_turn ready Idle = Armed False"
| "waiter_turn ready (Armed b) = (if ready then Returned else Parked b)"
| "waiter_turn ready (Parked b) = (if b then Idle else Parked b)"
| "waiter_turn ready Returned = Returned"

definition wait_admissions_drained_turn :: "lifecycle \<Rightarrow> waiter \<Rightarrow> waiter" where
  "wait_admissions_drained_turn s w = waiter_turn (admissions s = 0) w"

definition wait_closed_turn :: "lifecycle \<Rightarrow> waiter \<Rightarrow> waiter" where
  "wait_closed_turn s w = waiter_turn (lc_state s = Closed) w"

text \<open>A transport with its lifecycle, the guards callers hold and one waiter of each kind.\<close>

record transport_sys =
  sys_lc :: lifecycle
  guards :: nat
  drain_waiter :: waiter
  close_waiter :: waiter

datatype action =
    Admit | DropGuard | BeginClose | MarkDraining | Reopen | Close | DrainWaiter | CloseWaiter

definition raise_signals :: "signal list \<Rightarrow> transport_sys \<Rightarrow> transport_sys" where
  "raise_signals sigs t =
     t\<lparr>drain_waiter := (if AdmissionsDrained \<in> set sigs then wake (drain_waiter t) else drain_waiter t),
       close_waiter := (if ClosedSignal \<in> set sigs then wake (close_waiter t) else close_waiter t)\<rparr>"

fun act :: "action \<Rightarrow> transport_sys \<Rightarrow> transport_sys" where
  "act Admit t =
     (case admit (sys_lc t) of (ok, s) \<Rightarrow>
        t\<lparr>sys_lc := s, guards := (if ok then guards t + 1 else guards t)\<rparr>)"
| "act DropGuard t =
     (if guards t = 0 then t
      else case drop_admission (sys_lc t) of (sigs, s) \<Rightarrow>
        raise_signals sigs (t\<lparr>sys_lc := s, guards := guards t - 1\<rparr>))"
| "act BeginClose t =
     (case begin_close (sys_lc t) of (sigs, s) \<Rightarrow> raise_signals sigs (t\<lparr>sys_lc := s\<rparr>))"
| "act MarkDraining t = t\<lparr>sys_lc := mark_draining (sys_lc t)\<rparr>"
| "act Reopen t = t\<lparr>sys_lc := reopen (sys_lc t)\<rparr>"
| "act Close t =
     (case close (sys_lc t) of (sigs, s) \<Rightarrow> raise_signals sigs (t\<lparr>sys_lc := s\<rparr>))"
| "act DrainWaiter t =
     t\<lparr>drain_waiter := wait_admissions_drained_turn (sys_lc t) (drain_waiter t)\<rparr>"
| "act CloseWaiter t = t\<lparr>close_waiter := wait_closed_turn (sys_lc t) (close_waiter t)\<rparr>"

definition transport_start :: transport_sys where
  "transport_start =
     \<lparr>sys_lc = lifecycle_new, guards = 0, drain_waiter = Idle, close_waiter = Idle\<rparr>"


section \<open>Invariant\<close>

definition transport_inv :: "transport_sys \<Rightarrow> bool" where
  "transport_inv t \<longleftrightarrow>
     admissions (sys_lc t) = guards t
     \<and> (lc_state (sys_lc t) = Draining \<longrightarrow> guards t = 0)
     \<and> (drain_waiter t = Parked False \<and> guards t = 0 \<longrightarrow> lc_state (sys_lc t) \<in> {Open, Closed})
     \<and> (close_waiter t = Parked False \<longrightarrow> lc_state (sys_lc t) \<noteq> Closed)"

definition stays_closed :: "transport_sys \<Rightarrow> transport_sys \<Rightarrow> bool" where
  "stays_closed t t' \<longleftrightarrow>
     (lc_state (sys_lc t) = Closed \<longrightarrow> lc_state (sys_lc t') = Closed \<and> guards t' \<le> guards t)"

lemma wake_not_parked [simp]: "wake w \<noteq> Parked False"
  by (cases w) auto

lemma waiter_turn_parked: "waiter_turn r w = Parked False \<longleftrightarrow> \<not> r \<and> w = Armed False \<or> w = Parked False"
  by (cases "(r, w)" rule: waiter_turn.cases) auto

lemma act_inv: "transport_inv t \<Longrightarrow> transport_inv (act a t)"
  by (cases a; cases "lc_state (sys_lc t)")
     (auto simp: transport_inv_def lifecycle_ops raise_signals_def Let_def waiter_turn_parked
        wait_admissions_drained_turn_def wait_closed_turn_def)

lemma act_stays_closed: "stays_closed t (act a t)"
  by (cases a; cases "lc_state (sys_lc t)")
     (auto simp: stays_closed_def lifecycle_ops raise_signals_def Let_def)

interpretation transport: climbing_machine act transport_inv stays_closed
  by unfold_locales (use act_stays_closed in \<open>auto simp: act_inv\<close>, auto simp: stays_closed_def)

lemma transport_start_inv: "transport_inv transport_start"
  by (simp add: transport_inv_def transport_start_def lifecycle_new_def)


section \<open>Properties\<close>

text \<open>
  C33: under every interleaving of appends, shutdown steps and waiters, the admission count is exactly
  the number of guards still held, a draining transport has none, and no waiter is left parked with
  its signal missed: one parked on the drain while nothing is admitted implies the transport is
  open again or closed, one parked on the close implies it is not closed.
\<close>
theorem transport_lifecycle_safe:
  "let t = fold act acts transport_start in
     admissions (sys_lc t) = guards t
     \<and> \<not> (lc_state (sys_lc t) = Draining \<and> guards t \<noteq> 0)
     \<and> \<not> (drain_waiter t = Parked False \<and> guards t = 0 \<and> lc_state (sys_lc t) \<in> {Closing, Draining})
     \<and> \<not> (close_waiter t = Parked False \<and> lc_state (sys_lc t) = Closed)"
  using transport.run_inv[OF transport_start_inv, of acts]
  by (auto simp: transport_inv_def Let_def)

lemma close_is_final:
  "lc_state (sys_lc (fold act as transport_start)) = Closed
   \<Longrightarrow> lc_state (sys_lc (fold act (as @ bs) transport_start)) = Closed
     \<and> guards (fold act (as @ bs) transport_start) \<le> guards (fold act as transport_start)"
  using transport.run_climbs[OF transport.run_inv[OF transport_start_inv], of as bs]
  by (simp add: stays_closed_def)

lemma drops_while_closing:
  "lc_state (sys_lc t) = Closing \<Longrightarrow> admissions (sys_lc t) = guards t \<Longrightarrow>
   lc_state (sys_lc (fold act (replicate (guards t) DropGuard) t)) = Closing
   \<and> admissions (sys_lc (fold act (replicate (guards t) DropGuard) t)) = 0"
proof (induction "guards t" arbitrary: t)
  case (Suc n)
  let ?u = "act DropGuard t"
  have u: "guards ?u = n" "lc_state (sys_lc ?u) = Closing" "admissions (sys_lc ?u) = guards ?u"
    using Suc.hyps(2)[symmetric] Suc.prems by (auto simp: lifecycle_ops raise_signals_def Let_def)
  show ?case
    using Suc.hyps(1)[OF u(1)[symmetric] u(2,3)] u(1) Suc.hyps(2)[symmetric]
    by (simp add: u(1) del: act.simps)
qed simp

lemma drops_wake:
  "guards v = m \<Longrightarrow> admissions (sys_lc v) = m \<Longrightarrow> lc_state (sys_lc v) = Closing
   \<Longrightarrow> drain_waiter v = Parked (m = 0)
   \<Longrightarrow> drain_waiter (fold act (replicate m DropGuard) v) = Parked True"
proof (induction m arbitrary: v)
  case (Suc m)
  let ?v = "act DropGuard v"
  have "guards ?v = m \<and> admissions (sys_lc ?v) = m \<and> lc_state (sys_lc ?v) = Closing
      \<and> drain_waiter ?v = Parked (m = 0)"
    using Suc.prems by (simp add: drop_admission_def raise_signals_def Let_def)
  then have "drain_waiter (fold act (replicate m DropGuard) ?v) = Parked True"
    by (intro Suc.IH) auto
  then show ?case by simp
qed simp

text \<open>
  Shutdown goes through. From an open transport with any number n of appends in progress, closing
  begins and refuses a further append; a waiter for the drain that starts then returns at once when n
  is 0 and otherwise parks, and once the n guards are dropped it has been signalled and the transport
  can be marked draining.
\<close>
theorem transport_shutdown_drains:
  "let t = fold act (replicate n Admit @ [BeginClose, Admit, DrainWaiter, DrainWaiter]) transport_start;
       u = fold act (replicate n DropGuard) t
   in guards t = n \<and> lc_state (sys_lc (act MarkDraining u)) = Draining
      \<and> drain_waiter u = (if n = 0 then Returned else Parked True)"
proof -
  have adm: "fold act (replicate n Admit) (transport_start\<lparr>sys_lc := \<lparr>lc_state = Open, admissions = k\<rparr>, guards := k\<rparr>)
      = transport_start\<lparr>sys_lc := \<lparr>lc_state = Open, admissions = k + n\<rparr>, guards := k + n\<rparr>" for k
    by (induction n arbitrary: k) (simp_all add: lifecycle_ops)
  define t where
    "t = fold act (replicate n Admit @ [BeginClose, Admit, DrainWaiter, DrainWaiter]) transport_start"
  have t: "guards t = n" "lc_state (sys_lc t) = Closing" "admissions (sys_lc t) = n"
      "drain_waiter t = (if n = 0 then Returned else Parked False)"
    using adm[of 0] unfolding t_def
    by (auto simp: transport_start_def lifecycle_new_def lifecycle_ops raise_signals_def
        wait_admissions_drained_turn_def)
  have mark: "lc_state (sys_lc (act MarkDraining (fold act (replicate n DropGuard) t))) = Draining"
    using drops_while_closing[of t] t by (simp add: mark_draining_def)
  have "drain_waiter (fold act (replicate n DropGuard) t) = (if n = 0 then Returned else Parked True)"
    using drops_wake[of t n] t by (cases n) simp_all
  then show ?thesis using t(1) mark unfolding t_def[symmetric] Let_def by simp
qed

end
