(* ===== verification/Output.thy ===== *)
theory Output
  imports Prelude
begin

text \<open>
  The downstream output of a transport (src/server/src/cursor/transport/output.rs): every frame is
  kept in a history, sent to each subscriber's bounded queue, and replayed to a subscriber that comes
  later. The bounded channel is tokio's: it is a parameter (\<open>channel_ops\<close>), with what the hub relies
  on stated by \<open>channel_laws\<close>. Channels live in a heap, since a receiver outlives its place among the
  subscribers; readers act on them between the hub's operations.
\<close>

type_synonym frame = "8 word list"

definition subscriber_queue_frames :: nat where "subscriber_queue_frames = 1024"

datatype send_outcome = SendOk | SendFull | SendClosed

text \<open>
  The channel interface: make one of a capacity, try to send, and, to state the laws, the frames it
  has accepted so far, its free room and whether its receiver is alive.
\<close>

record 'c channel_ops =
  mk_channel :: "nat \<Rightarrow> 'c"
  try_send :: "'c \<Rightarrow> frame \<Rightarrow> send_outcome \<times> 'c"
  accepted :: "'c \<Rightarrow> frame list"
  room :: "'c \<Rightarrow> nat"
  alive :: "'c \<Rightarrow> bool"

definition channel_laws :: "'c channel_ops \<Rightarrow> bool" where
  "channel_laws ops \<longleftrightarrow>
     (\<forall>n. accepted ops (mk_channel ops n) = [] \<and> room ops (mk_channel ops n) = n
          \<and> alive ops (mk_channel ops n))
     \<and> (\<forall>c f r c'. try_send ops c f = (r, c') \<longrightarrow>
          (if r = SendOk
           then accepted ops c' = accepted ops c @ [f] \<and> Suc (room ops c') = room ops c
                \<and> alive ops c' = alive ops c
           else accepted ops c' = accepted ops c))
     \<and> (\<forall>c f. alive ops c \<and> 0 < room ops c \<longrightarrow> fst (try_send ops c f) = SendOk)"

record output_state =
  history :: "frame list"
  subscribers :: "nat list"
  out_closed :: bool

text \<open>The hub with the channels it made, numbered from 0.\<close>

record 'c hub =
  hub_state :: output_state
  channels :: "nat \<Rightarrow> 'c"
  channel_count :: nat

definition output_empty :: output_state where
  "output_empty = \<lparr>history = [], subscribers = [], out_closed = False\<rparr>"

text \<open>\<open>retain\<close> over the subscribers: a channel that does not take the frame is dropped.\<close>

fun send_all :: "'c channel_ops \<Rightarrow> frame \<Rightarrow> nat list \<Rightarrow> (nat \<Rightarrow> 'c) \<Rightarrow> nat list \<times> (nat \<Rightarrow> 'c)" where
  "send_all ops f [] h = ([], h)"
| "send_all ops f (i # is) h =
     (case try_send ops (h i) f of (r, c) \<Rightarrow>
      (case send_all ops f is (h(i := c)) of (kept, h') \<Rightarrow>
        (if r = SendOk then i # kept else kept, h')))"

definition emit :: "'c channel_ops \<Rightarrow> frame \<Rightarrow> 'c hub \<Rightarrow> bool \<times> 'c hub" where
  "emit ops f t =
     (let s = hub_state t
      in if out_closed s then (False, t)
         else (case send_all ops f (subscribers s) (channels t) of (kept, h) \<Rightarrow>
           (True, t\<lparr>hub_state := s\<lparr>history := history s @ [f], subscribers := kept\<rparr>,
                    channels := h\<rparr>)))"

fun replay :: "'c channel_ops \<Rightarrow> frame list \<Rightarrow> 'c \<Rightarrow> 'c" where
  "replay ops [] c = c"
| "replay ops (f # fs) c = replay ops fs (snd (try_send ops c f))"

text \<open>The new receiver is the channel numbered by the count before the call.\<close>

definition subscribe :: "'c channel_ops \<Rightarrow> 'c hub \<Rightarrow> nat \<times> 'c hub" where
  "subscribe ops t =
     (let s = hub_state t; i = channel_count t;
          c = replay ops (history s) (mk_channel ops (max subscriber_queue_frames (length (history s))))
      in (i, t\<lparr>hub_state := (if out_closed s then s else s\<lparr>subscribers := subscribers s @ [i]\<rparr>),
               channels := (channels t)(i := c), channel_count := Suc i\<rparr>))"

definition close_output :: "'c hub \<Rightarrow> bool \<times> 'c hub" where
  "close_output t =
     (let s = hub_state t
      in if out_closed s then (False, t)
         else (True, t\<lparr>hub_state := s\<lparr>out_closed := True, subscribers := []\<rparr>\<rparr>))"

text \<open>
  What may happen to a hub: its operations, and readers. A reader may take frames out of a channel or
  go away; it never changes what the channel has accepted.
\<close>

datatype 'c hub_event = Emit frame | Subscribe | CloseOutput | Reader nat 'c

fun hub_step :: "'c channel_ops \<Rightarrow> 'c hub_event \<Rightarrow> 'c hub \<Rightarrow> 'c hub" where
  "hub_step ops (Emit f) t = snd (emit ops f t)"
| "hub_step ops Subscribe t = snd (subscribe ops t)"
| "hub_step ops CloseOutput t = snd (close_output t)"
| "hub_step ops (Reader i c) t =
     (if accepted ops c = accepted ops (channels t i) then t\<lparr>channels := (channels t)(i := c)\<rparr> else t)"

definition hub_start :: "(nat \<Rightarrow> 'c) \<Rightarrow> 'c hub" where
  "hub_start h = \<lparr>hub_state = output_empty, channels = h, channel_count = 0\<rparr>"


section \<open>Lemmas\<close>

lemma try_send_cases:
  assumes "channel_laws ops" "try_send ops c f = (r, c')"
  obtains "r = SendOk" "accepted ops c' = accepted ops c @ [f]" "Suc (room ops c') = room ops c"
      "alive ops c' = alive ops c"
  | "r \<noteq> SendOk" "accepted ops c' = accepted ops c"
proof -
  have "if r = SendOk
        then accepted ops c' = accepted ops c @ [f] \<and> Suc (room ops c') = room ops c
             \<and> alive ops c' = alive ops c
        else accepted ops c' = accepted ops c"
    using assms unfolding channel_laws_def by blast
  then show thesis using that by (cases "r = SendOk") auto
qed

lemma replay_lossless:
  assumes "channel_laws ops" "alive ops c" "length fs \<le> room ops c"
  shows "accepted ops (replay ops fs c) = accepted ops c @ fs"
  using assms(2,3)
proof (induction fs arbitrary: c)
  case (Cons f fs)
  obtain r c' where rc: "try_send ops c f = (r, c')" by force
  have "fst (try_send ops c f) = SendOk" using assms(1) Cons.prems by (auto simp: channel_laws_def)
  then have "accepted ops c' = accepted ops c @ [f]" "Suc (room ops c') = room ops c"
      "alive ops c' = alive ops c"
    using try_send_cases[OF assms(1) rc] rc by auto
  then show ?case using Cons.IH[of c'] Cons.prems rc by simp
qed simp

lemma send_all_kept: "send_all ops f is h = (kept, h') \<Longrightarrow> set kept \<subseteq> set is"
  by (induction "is" arbitrary: h kept h') (fastforce split: prod.splits if_splits)+

lemma send_all_accepted:
  assumes "channel_laws ops" "distinct is" "send_all ops f is h = (kept, h')"
  shows "accepted ops (h' i) = accepted ops (h i) @ (if i \<in> set kept then [f] else [])"
    and "distinct kept"
proof -
  have "(\<forall>i. accepted ops (h' i) = accepted ops (h i) @ (if i \<in> set kept then [f] else []))
    \<and> distinct kept"
    using assms(2,3)
  proof (induction "is" arbitrary: h kept h')
    case (Cons j js)
    obtain r c where rc: "try_send ops (h j) f = (r, c)" by force
    obtain k2 h2 where rec: "send_all ops f js (h(j := c)) = (k2, h2)" by force
    have IH: "\<forall>i. accepted ops (h2 i) = accepted ops ((h(j := c)) i) @ (if i \<in> set k2 then [f] else [])"
        "distinct k2"
      using Cons.IH[OF _ rec] Cons.prems(1) by auto
    have "j \<notin> set k2" using send_all_kept[OF rec] Cons.prems(1) by auto
    then show ?case
      using IH Cons.prems(2) rc rec by (cases rule: try_send_cases[OF assms(1) rc]) auto
  qed auto
  then show "accepted ops (h' i) = accepted ops (h i) @ (if i \<in> set kept then [f] else [])"
    "distinct kept" by auto
qed

text \<open>
  The contract: a channel has accepted a prefix of the history, a live subscriber's all of it.
\<close>

definition hub_inv :: "'c channel_ops \<Rightarrow> 'c hub \<Rightarrow> bool" where
  "hub_inv ops t \<longleftrightarrow>
     channel_laws ops
     \<and> distinct (subscribers (hub_state t))
     \<and> (\<forall>i\<in>set (subscribers (hub_state t)). i < channel_count t
            \<and> accepted ops (channels t i) = history (hub_state t))
     \<and> (\<forall>i<channel_count t. prefix (accepted ops (channels t i)) (history (hub_state t)))
     \<and> (out_closed (hub_state t) \<longrightarrow> subscribers (hub_state t) = [])"

lemma emit_inv: "hub_inv ops t \<Longrightarrow> hub_inv ops (snd (emit ops f t))"
proof -
  assume inv: "hub_inv ops t"
  obtain kept h' where s: "send_all ops f (subscribers (hub_state t)) (channels t) = (kept, h')"
    by force
  have laws: "channel_laws ops" and d: "distinct (subscribers (hub_state t))"
    using inv by (auto simp: hub_inv_def)
  note acc = send_all_accepted[OF laws d s]
  have "set kept \<subseteq> set (subscribers (hub_state t))" by (rule send_all_kept[OF s])
  then show ?thesis
    using inv s acc by (auto simp: hub_inv_def emit_def Let_def)
qed

lemma subscribe_channel:
  "channel_laws ops \<Longrightarrow> accepted ops (channels (snd (subscribe ops t)) (channel_count t)) = history (hub_state t)"
  by (auto simp: subscribe_def Let_def channel_laws_def intro!: trans[OF replay_lossless])

lemma subscribe_inv: "hub_inv ops t \<Longrightarrow> hub_inv ops (snd (subscribe ops t))"
  using subscribe_channel[of ops t]
  by (auto simp: hub_inv_def subscribe_def Let_def less_Suc_eq)

lemma hub_step_inv: "hub_inv ops t \<Longrightarrow> hub_inv ops (hub_step ops e t)"
proof (cases e)
  case CloseOutput
  then show "hub_inv ops t \<Longrightarrow> ?thesis" by (auto simp: hub_inv_def close_output_def Let_def)
next
  case (Reader i c)
  then show "hub_inv ops t \<Longrightarrow> ?thesis" by (auto simp: hub_inv_def)
qed (auto simp: emit_inv subscribe_inv)

definition hub_grows :: "'c hub \<Rightarrow> 'c hub \<Rightarrow> bool" where
  "hub_grows t t' \<longleftrightarrow> prefix (history (hub_state t)) (history (hub_state t'))
     \<and> (out_closed (hub_state t) \<longrightarrow> hub_state t' = hub_state t)"

lemma hub_step_grows: "hub_grows t (hub_step ops e t)"
  by (cases e) (auto simp: hub_grows_def emit_def subscribe_def close_output_def Let_def split: prod.splits)

interpretation downstream: climbing_machine "hub_step ops" "hub_inv ops" hub_grows for ops :: "'c channel_ops"
  by unfold_locales
     (auto simp: hub_step_inv hub_step_grows, auto simp: hub_grows_def)

lemma hub_start_inv: "channel_laws ops \<Longrightarrow> hub_inv ops (hub_start h)"
  by (simp add: hub_inv_def hub_start_def output_empty_def)


section \<open>Properties\<close>

text \<open>
  C34: whatever the hub's operations and the readers do, every channel has received a prefix of the
  frames emitted, and every subscriber still connected has received all of them, in order; once the
  output is closed nothing changes any more.
\<close>
theorem output_reaches_subscribers:
  assumes "channel_laws ops"
  shows "let t = fold (hub_step ops) es (hub_start h); s = hub_state t
    in (\<forall>i<channel_count t. prefix (accepted ops (channels t i)) (history s))
       \<and> (\<forall>i\<in>set (subscribers s). accepted ops (channels t i) = history s)
       \<and> (out_closed s \<longrightarrow> hub_state (fold (hub_step ops) es' t) = s)"
proof -
  let ?t = "fold (hub_step ops) es (hub_start h)"
  have inv: "hub_inv ops ?t" by (rule downstream.run_inv[OF hub_start_inv[OF assms]])
  have "hub_grows ?t (fold (hub_step ops) es' ?t)" by (rule downstream.run_climbs[OF inv])
  then show ?thesis using inv by (auto simp: hub_inv_def hub_grows_def Let_def)
qed

text \<open>
  Replay is lossless: a subscriber gets the whole history however long it is and also after the
  output was closed, while emitting to a closed output is refused and leaves no trace.
\<close>
theorem subscribe_replays_history:
  assumes "channel_laws ops"
  shows "case subscribe ops t of (i, t') \<Rightarrow>
      accepted ops (channels t' i) = history (hub_state t)
      \<and> history (hub_state t') = history (hub_state t)
      \<and> (out_closed (hub_state t) \<longrightarrow> hub_state t' = hub_state t \<and> emit ops f t' = (False, t'))"
  using subscribe_channel[OF assms, of t]
  by (auto simp: subscribe_def emit_def Let_def)

text \<open>A concrete bounded channel: capacity, frames accepted, frames read, receiver alive.\<close>

type_synonym list_channel = "nat \<times> frame list \<times> nat \<times> bool"

definition list_channel_ops :: "list_channel channel_ops" where
  "list_channel_ops =
     \<lparr>mk_channel = (\<lambda>n. (n, [], 0, True)),
      try_send = (\<lambda>(n, fs, k, a) f.
        if \<not> a then (SendClosed, (n, fs, k, a))
        else if length fs - k < n then (SendOk, (n, fs @ [f], min k (length fs), a))
        else (SendFull, (n, fs, k, a))),
      accepted = (\<lambda>(n, fs, k, a). fs),
      room = (\<lambda>(n, fs, k, a). n - (length fs - k)),
      alive = (\<lambda>(n, fs, k, a). a)\<rparr>"

lemma list_channel_laws: "channel_laws list_channel_ops"
  by (auto simp: channel_laws_def list_channel_ops_def split: if_splits)

lemma output_reaches_subscribers_witness:
  "let t = fold (hub_step list_channel_ops) [Emit [1], Subscribe, Emit [2]] (hub_start (\<lambda>_. (0, [], 0, False)))
   in subscribers (hub_state t) = [0] \<and> accepted list_channel_ops (channels t 0) = [[1], [2]]"
  using output_reaches_subscribers[OF list_channel_laws,
      of "[Emit [1], Subscribe, Emit [2]]" "\<lambda>_. (0, [], 0, False)" "[]"]
  by (simp add: hub_start_def output_empty_def emit_def subscribe_def list_channel_ops_def Let_def
      subscriber_queue_frames_def)

lemma subscribe_replays_history_witness:
  "accepted list_channel_ops
     (channels (snd (subscribe list_channel_ops
        \<lparr>hub_state = \<lparr>history = [[1], [2]], subscribers = [], out_closed = True\<rparr>,
         channels = (\<lambda>_. (0, [], 0, False)), channel_count = 3\<rparr>)) 3) = [[1], [2]]"
  using subscribe_replays_history[OF list_channel_laws,
      of "\<lparr>hub_state = \<lparr>history = [[1], [2]], subscribers = [], out_closed = True\<rparr>,
         channels = (\<lambda>_. (0, [], 0, False)), channel_count = 3\<rparr>" "[]"]
  by (simp add: subscribe_def Let_def)

end
