(* ===== verification/Handle.thy ===== *)
theory Handle
  imports Lifecycle Output
begin

text \<open>
  The request-scoped handle of a transport (src/server/src/cursor/transport/handle.rs): write-once
  conversation and parent identities, the append admission, the output, and the command queue. The
  queue is tokio's channel: whether a send succeeds is an argument, as is the encoding of a message.
\<close>

record transport_parent =
  parent_request_id :: "string option"
  parent_tool_call_id :: "string option"

record transport_handle =
  request_id :: string
  conversation_slot :: "string option"
  parent_slot :: "transport_parent option"
  handle_lc :: lifecycle
  disconnected :: bool

definition handle_new :: "string \<Rightarrow> transport_handle" where
  "handle_new rid =
     \<lparr>request_id = rid, conversation_slot = None, parent_slot = None,
      handle_lc = lifecycle_new, disconnected = False\<rparr>"

text \<open>
  \<open>OnceLock::set\<close> fills an empty slot and fails on a full one; \<open>bind_once\<close> then compares with what
  the slot really holds.
\<close>

definition once_set :: "'a \<Rightarrow> 'a option \<Rightarrow> bool \<times> 'a option" where
  "once_set v slot = (case slot of None \<Rightarrow> (True, Some v) | Some w \<Rightarrow> (False, Some w))"

definition bind_once :: "'a \<Rightarrow> 'a option \<Rightarrow> bool \<times> 'a option" where
  "bind_once v slot =
     (case once_set v slot of (ok, slot') \<Rightarrow> if ok then (True, slot') else (slot' = Some v, slot'))"

definition set_conversation_id :: "string \<Rightarrow> transport_handle \<Rightarrow> unit result \<times> transport_handle" where
  "set_conversation_id c h =
     (if c = [] then (Inl (Protocol ''Cursor conversation id is required''), h)
      else case bind_once c (conversation_slot h) of (ok, slot) \<Rightarrow>
        (if ok then Inr ()
         else Inl (Protocol (''conflicting conversation ids for request '' @ request_id h)),
         h\<lparr>conversation_slot := slot\<rparr>))"

definition set_parent :: "transport_parent \<Rightarrow> transport_handle \<Rightarrow> unit result \<times> transport_handle" where
  "set_parent p h =
     (if (parent_request_id p = None \<and> parent_tool_call_id p = None)
         \<or> parent_request_id p = Some [] \<or> parent_tool_call_id p = Some []
      then (Inl (Protocol ''Cursor parent ids must not be empty''), h)
      else case bind_once p (parent_slot h) of (ok, slot) \<Rightarrow>
        (if ok then Inr ()
         else Inl (Protocol (''conflicting parent ids for request '' @ request_id h)),
         h\<lparr>parent_slot := slot\<rparr>))"

definition handle_command :: "bool \<Rightarrow> transport_handle \<Rightarrow> unit result" where
  "handle_command sent h = (if sent then Inr () else Inl (RunNotFound (request_id h)))"

definition handle_emit ::
    "'c channel_ops \<Rightarrow> frame result \<Rightarrow> transport_handle \<Rightarrow> 'c hub \<Rightarrow> unit result \<times> 'c hub" where
  "handle_emit ops encoded h t =
     (case encoded of
        Inl e \<Rightarrow> (Inl e, t)
      | Inr f \<Rightarrow> (case emit ops f t of (ok, t') \<Rightarrow>
          (if ok then Inr () else Inl (RunNotFound (request_id h)), t')))"

definition accepting_appends :: "transport_handle \<Rightarrow> bool" where
  "accepting_appends h = is_open (handle_lc h)"

definition handle_admit :: "transport_handle \<Rightarrow> unit result \<times> transport_handle" where
  "handle_admit h =
     (case admit (handle_lc h) of (ok, lc) \<Rightarrow>
        (if ok then Inr () else Inl (RunNotFound (request_id h)), h\<lparr>handle_lc := lc\<rparr>))"

definition close_transport :: "transport_handle \<Rightarrow> transport_handle" where
  "close_transport h = h\<lparr>handle_lc := snd (close (handle_lc h))\<rparr>"

definition mark_disconnected :: "transport_handle \<Rightarrow> transport_handle" where
  "mark_disconnected h = h\<lparr>disconnected := True\<rparr>"


section \<open>Write-once identities\<close>

text \<open>
  The calls that bind an identity, in the order their atomic set ran, with the answer each got.
\<close>

datatype bind_call = SetConversation string | SetParent transport_parent

fun bind :: "bind_call \<Rightarrow> transport_handle \<Rightarrow> unit result \<times> transport_handle" where
  "bind (SetConversation c) h = set_conversation_id c h"
| "bind (SetParent p) h = set_parent p h"

fun binds :: "bind_call list \<Rightarrow> transport_handle \<Rightarrow> (bind_call \<times> unit result) list \<times> transport_handle" where
  "binds [] h = ([], h)"
| "binds (b # bs) h =
     (case bind b h of (r, h') \<Rightarrow> case binds bs h' of (rs, h'') \<Rightarrow> ((b, r) # rs, h''))"

lemma bind_keeps:
  "bind b h = (r, h') \<Longrightarrow>
   (conversation_slot h \<noteq> None \<longrightarrow> conversation_slot h' = conversation_slot h)
   \<and> (parent_slot h \<noteq> None \<longrightarrow> parent_slot h' = parent_slot h)
   \<and> request_id h' = request_id h
   \<and> (case b of SetConversation c \<Rightarrow> (r = Inr () \<longrightarrow> c \<noteq> [] \<and> conversation_slot h' = Some c)
        \<and> (r \<noteq> Inr () \<and> c \<noteq> [] \<longrightarrow> conversation_slot h' \<noteq> Some c \<and> conversation_slot h' \<noteq> None)
      | SetParent p \<Rightarrow> r = Inr () \<longrightarrow> parent_slot h' = Some p)"
  by (cases b; cases "conversation_slot h"; cases "parent_slot h")
     (auto simp: set_conversation_id_def set_parent_def bind_once_def once_set_def split: if_splits)

lemma binds_keep:
  "binds bs h = (rs, h') \<Longrightarrow>
   (conversation_slot h \<noteq> None \<longrightarrow> conversation_slot h' = conversation_slot h)
   \<and> (parent_slot h \<noteq> None \<longrightarrow> parent_slot h' = parent_slot h)"
proof (induction bs arbitrary: h rs h')
  case (Cons b bs)
  obtain r h1 where 1: "bind b h = (r, h1)" by force
  obtain rs2 h2 where 2: "binds bs h1 = (rs2, h2)" by force
  show ?case using bind_keeps[OF 1] Cons.IH[OF 2] Cons.prems 1 2 by auto
qed simp

text \<open>
  Identities bind once. Whatever bind calls are made on a handle, in whatever order, every call
  that was answered with success carried the very value the slot holds at the end: two successful
  callers never disagree.
\<close>
theorem identities_bind_once:
  "case binds bs (handle_new rid) of (rs, h) \<Rightarrow>
     (\<forall>c. (SetConversation c, Inr ()) \<in> set rs \<longrightarrow> conversation_slot h = Some c)
     \<and> (\<forall>p. (SetParent p, Inr ()) \<in> set rs \<longrightarrow> parent_slot h = Some p)"
proof -
  have "binds bs h = (rs, h') \<Longrightarrow>
     (\<forall>c. (SetConversation c, Inr ()) \<in> set rs \<longrightarrow> conversation_slot h' = Some c)
     \<and> (\<forall>p. (SetParent p, Inr ()) \<in> set rs \<longrightarrow> parent_slot h' = Some p)" for h rs h'
  proof (induction bs arbitrary: h rs h')
    case (Cons b bs)
    obtain r h1 where 1: "bind b h = (r, h1)" by force
    obtain rs2 h2 where 2: "binds bs h1 = (rs2, h2)" by force
    show ?case
      using bind_keeps[OF 1] binds_keep[OF 2] Cons.IH[OF 2] Cons.prems 1 2
      by (cases b) auto
  qed simp
  then show ?thesis by (fastforce split: prod.splits)
qed

lemma identities_bind_once_witness:
  "case binds [SetConversation ''a'', SetConversation ''b'', SetConversation ''a''] (handle_new ''r'') of
     (rs, h) \<Rightarrow> map (is_ok \<circ> snd) rs = [True, False, True] \<and> conversation_slot h = Some ''a''"
  using identities_bind_once[of "[SetConversation ''a'', SetConversation ''b'', SetConversation ''a'']" "''r''"]
  by (simp add: set_conversation_id_def bind_once_def once_set_def handle_new_def)

end
