(* ===== verification/TransportRegistry.thy ===== *)
theory TransportRegistry
  imports Handle
begin

text \<open>
  Routing of request ids to transports (src/server/src/cursor/transport/registry.rs). A local
  transport is a handle shared by everyone who holds it, so handles live in a heap, addressed by the
  generation the registry gave them; an upstream mark pins a request id to the official upstream. The
  clock is the argument \<open>now\<close>; the store's pruning and the conversations' state are arguments.
\<close>

definition route_wait_timeout :: nat where "route_wait_timeout = secs 30"
definition upstream_mark_ttl :: nat where "upstream_mark_ttl = secs (30 * 60)"

record upstream_mark =
  mark_generation :: nat
  last_used :: nat

record transport_registry =
  local_map :: "(string \<times> nat) list"
  next_local_generation :: nat
  upstream_map :: "(string \<times> upstream_mark) list"
  handles :: "nat \<Rightarrow> transport_handle"

datatype transport_route = Local | Upstream nat

definition registry_new :: transport_registry where
  "registry_new =
     \<lparr>local_map = [], next_local_generation = 1, upstream_map = [], handles = (\<lambda>_. handle_new [])\<rparr>"

definition get_or_create_for_append ::
    "string \<Rightarrow> bool \<Rightarrow> transport_registry \<Rightarrow> nat \<times> transport_registry" where
  "get_or_create_for_append rid replace_closing r =
     (case map_of (local_map r) rid of
        Some g \<Rightarrow>
          (if accepting_appends (handles r g) \<or> \<not> replace_closing then (g, r)
           else let g' = next_local_generation r in
             (g', r\<lparr>local_map := (rid, g') # AList.delete rid (local_map r),
                    next_local_generation := g' + 1, handles := (handles r)(g' := handle_new rid)\<rparr>))
      | None \<Rightarrow>
          (let g' = next_local_generation r in
             (g', r\<lparr>local_map := (rid, g') # AList.delete rid (local_map r),
                    next_local_generation := g' + 1, handles := (handles r)(g' := handle_new rid)\<rparr>)))"

definition get_or_create :: "string \<Rightarrow> transport_registry \<Rightarrow> nat \<times> transport_registry" where
  "get_or_create rid r = get_or_create_for_append rid False r"

text \<open>The task spawned for a transport: once it is closed, remove the entry of that generation.\<close>

definition reap_local :: "string \<Rightarrow> nat \<Rightarrow> transport_registry \<Rightarrow> transport_registry" where
  "reap_local rid g r =
     (if lc_state (handle_lc (handles r g)) = Closed \<and> map_of (local_map r) rid = Some g
      then r\<lparr>local_map := AList.delete rid (local_map r)\<rparr> else r)"

definition local :: "string \<Rightarrow> transport_registry \<Rightarrow> nat option" where
  "local rid r = map_of (local_map r) rid"

text \<open>The generation of the new mark, the dropped local handle (closed, to be disconnected).\<close>

definition mark_upstream :: "nat \<Rightarrow> string \<Rightarrow> transport_registry \<Rightarrow> nat \<times> nat option \<times> transport_registry" where
  "mark_upstream now rid r =
     (let g = (case map_of (upstream_map r) rid of None \<Rightarrow> 1 | Some m \<Rightarrow> mark_generation m + 1);
          dropped = map_of (local_map r) rid;
          r' = r\<lparr>upstream_map := AList.update rid \<lparr>mark_generation = g, last_used = now\<rparr> (upstream_map r),
                 local_map := AList.delete rid (local_map r)\<rparr>
      in (g, dropped,
          case dropped of None \<Rightarrow> r'
          | Some h \<Rightarrow> r'\<lparr>handles := (handles r')(h := close_transport (handles r' h))\<rparr>))"

definition touch_upstream :: "nat \<Rightarrow> string \<Rightarrow> transport_registry \<Rightarrow> transport_registry" where
  "touch_upstream now rid r =
     (case map_of (upstream_map r) rid of
        None \<Rightarrow> r
      | Some m \<Rightarrow> r\<lparr>upstream_map := AList.update rid (m\<lparr>last_used := now\<rparr>) (upstream_map r)\<rparr>)"

definition upstream :: "nat \<Rightarrow> string \<Rightarrow> transport_registry \<Rightarrow> bool \<times> transport_registry" where
  "upstream now rid r =
     (case map_of (upstream_map r) rid of
        Some m \<Rightarrow> (True, touch_upstream now rid r)
      | None \<Rightarrow> (False, r))"

definition mark_stale :: "nat \<Rightarrow> upstream_mark \<Rightarrow> bool" where
  "mark_stale now m = (now - last_used m \<ge> upstream_mark_ttl)"

definition expire_stale_upstream_at :: "nat \<Rightarrow> transport_registry \<Rightarrow> nat \<times> transport_registry" where
  "expire_stale_upstream_at now r =
     (let stale = map fst (filter (\<lambda>e. mark_stale now (snd e)) (upstream_map r))
      in (length stale, r\<lparr>upstream_map := fold AList.delete stale (upstream_map r)\<rparr>))"

text \<open>One turn of the loop of \<open>wait_route\<close>: local first, then the upstream mark, which is renewed.\<close>

definition wait_route_turn ::
    "nat \<Rightarrow> string \<Rightarrow> transport_registry \<Rightarrow> transport_route option \<times> transport_registry" where
  "wait_route_turn now rid r =
     (if map_of (local_map r) rid \<noteq> None then (Some Local, r)
      else case map_of (upstream_map r) rid of
        Some m \<Rightarrow> (Some (Upstream (mark_generation m)), touch_upstream now rid r)
      | None \<Rightarrow> (None, r))"

text \<open>
  The whole wait: it checks at each wake-up, the registry having been changed meanwhile by others;
  the list ends when the timeout fires.
\<close>

fun wait_route ::
    "string \<Rightarrow> (nat \<times> (transport_registry \<Rightarrow> transport_registry)) list \<Rightarrow> transport_registry
     \<Rightarrow> transport_route result \<times> transport_registry" where
  "wait_route rid [] r =
     (Inl (RunNotFound (''no transport for request '' @ rid @ '' within 30s'')), r)"
| "wait_route rid ((now, others) # turns) r =
     (case wait_route_turn now rid (others r) of
        (Some route, r') \<Rightarrow> (Inr route, r')
      | (None, r') \<Rightarrow> wait_route rid turns r')"

definition finish_upstream :: "string \<Rightarrow> nat \<Rightarrow> transport_registry \<Rightarrow> transport_registry" where
  "finish_upstream rid g r =
     (case map_of (upstream_map r) rid of
        Some m \<Rightarrow> (if mark_generation m = g
                   then r\<lparr>upstream_map := AList.delete rid (upstream_map r)\<rparr> else r)
      | None \<Rightarrow> r)"

text \<open>Shutdown empties both maps; the handles it returns are disconnected and waited for.\<close>

definition registry_shutdown :: "transport_registry \<Rightarrow> nat list \<times> transport_registry" where
  "registry_shutdown r = (map snd (local_map r), r\<lparr>local_map := [], upstream_map := []\<rparr>)"

datatype maintenance = PruneInactiveStorage | PruneArtifactFiles

text \<open>
  The storage maintenance of one tick: what is pruned, given whether conversations run and how the
  first pruning ends.
\<close>

definition maintain_storage_if_idle ::
    "nat \<Rightarrow> bool \<Rightarrow> unit result \<Rightarrow> transport_registry \<Rightarrow> maintenance list \<times> transport_registry" where
  "maintain_storage_if_idle now active_runs pruned r =
     (let r' = snd (expire_stale_upstream_at now r)
      in if local_map r' = [] \<and> upstream_map r' = [] \<and> \<not> active_runs
         then (if is_ok pruned then [PruneInactiveStorage, PruneArtifactFiles] else [PruneInactiveStorage], r')
         else ([], r'))"


section \<open>Invariant\<close>

text \<open>Request ids are unique in both maps and every local generation is one already given out.\<close>

definition registry_inv :: "transport_registry \<Rightarrow> bool" where
  "registry_inv r \<longleftrightarrow>
     distinct (map fst (local_map r)) \<and> distinct (map fst (upstream_map r))
     \<and> distinct (map snd (local_map r))
     \<and> (\<forall>e\<in>set (local_map r). snd e < next_local_generation r)"

datatype registry_event =
    GetOrCreate string bool
  | ReapLocal string nat
  | MarkUpstream nat string
  | ReadUpstream nat string
  | ExpireUpstream nat
  | WaitRoute nat string
  | FinishUpstream string nat
  | HandleStep nat "transport_handle \<Rightarrow> transport_handle"
  | Shutdown

fun registry_step :: "registry_event \<Rightarrow> transport_registry \<Rightarrow> transport_registry" where
  "registry_step (GetOrCreate rid b) r = snd (get_or_create_for_append rid b r)"
| "registry_step (ReapLocal rid g) r = reap_local rid g r"
| "registry_step (MarkUpstream now rid) r = snd (snd (mark_upstream now rid r))"
| "registry_step (ReadUpstream now rid) r = snd (upstream now rid r)"
| "registry_step (ExpireUpstream now) r = snd (expire_stale_upstream_at now r)"
| "registry_step (WaitRoute now rid) r = snd (wait_route_turn now rid r)"
| "registry_step (FinishUpstream rid g) r = finish_upstream rid g r"
| "registry_step (HandleStep g f) r = r\<lparr>handles := (handles r)(g := f (handles r g))\<rparr>"
| "registry_step Shutdown r = snd (registry_shutdown r)"

lemma delete_subset: "set (AList.delete k m) \<subseteq> set m"
  by (simp add: AList.delete_eq)

lemma distinct_snd_delete: "distinct (map snd m) \<Longrightarrow> distinct (map snd (AList.delete k m))"
  by (simp add: AList.delete_eq distinct_map_filter)

lemma distinct_fold_delete: "distinct (map fst m) \<Longrightarrow> distinct (map fst (fold AList.delete ks m))"
  by (induction ks arbitrary: m) (simp_all add: distinct_delete)

lemma registry_step_inv: "registry_inv r \<Longrightarrow> registry_inv (registry_step e r)"
proof (cases e)
  case (GetOrCreate rid b)
  assume inv: "registry_inv r"
  have "\<forall>g\<in>snd ` set (AList.delete rid (local_map r)). g < next_local_generation r"
    using inv delete_subset[of rid "local_map r"] by (fastforce simp: registry_inv_def)
  then show ?thesis
    using inv GetOrCreate delete_subset[of rid "local_map r"]
    by (auto simp: registry_inv_def get_or_create_for_append_def Let_def distinct_delete
        distinct_snd_delete delete_keys distinct_removeAll less_Suc_eq split: option.splits dest: order_less_imp_not_eq)
qed (auto simp: registry_inv_def reap_local_def mark_upstream_def upstream_def touch_upstream_def
      expire_stale_upstream_at_def wait_route_turn_def finish_upstream_def registry_shutdown_def Let_def
      distinct_delete distinct_update distinct_snd_delete distinct_fold_delete
      split: option.splits dest: subsetD[OF delete_subset])

definition generations_grow :: "transport_registry \<Rightarrow> transport_registry \<Rightarrow> bool" where
  "generations_grow r r' \<longleftrightarrow>
     next_local_generation r \<le> next_local_generation r'
     \<and> (\<forall>rid g. map_of (local_map r') rid = Some g \<and> g < next_local_generation r
          \<longrightarrow> map_of (local_map r) rid = Some g)"

lemma registry_step_grows: "generations_grow r (registry_step e r)"
  by (cases e)
     (auto simp: generations_grow_def reap_local_def mark_upstream_def upstream_def touch_upstream_def
        expire_stale_upstream_at_def wait_route_turn_def finish_upstream_def registry_shutdown_def Let_def
        get_or_create_for_append_def delete_conv' split: option.splits if_splits)

interpretation registry: climbing_machine registry_step registry_inv generations_grow
proof unfold_locales
  fix a b c assume "generations_grow a b" "generations_grow b c"
  then show "generations_grow a c" by (auto simp: generations_grow_def)
qed (auto simp: registry_step_inv registry_step_grows, simp add: generations_grow_def)

lemma registry_new_inv: "registry_inv registry_new"
  by (simp add: registry_inv_def registry_new_def)

lemma registry_reachable: "registry_inv (fold registry_step es registry_new)"
  by (rule registry.run_inv[OF registry_new_inv])


section \<open>Properties\<close>

text \<open>The events that end the local route of a request whose transport has generation g.\<close>

fun ends_local :: "string \<Rightarrow> nat \<Rightarrow> registry_event \<Rightarrow> bool" where
  "ends_local rid g (ReapLocal rid' g') = (rid' = rid \<and> g' = g)"
| "ends_local rid g (MarkUpstream _ rid') = (rid' = rid)"
| "ends_local rid g (GetOrCreate rid' b) = (rid' = rid \<and> b)"
| "ends_local rid g Shutdown = True"
| "ends_local rid g _ = False"

lemma registry_step_keeps_local:
  "map_of (local_map r) rid = Some g \<Longrightarrow> \<not> ends_local rid g e
   \<Longrightarrow> map_of (local_map (registry_step e r)) rid = Some g"
  by (cases e)
     (auto simp: reap_local_def mark_upstream_def upstream_def touch_upstream_def
        expire_stale_upstream_at_def wait_route_turn_def finish_upstream_def
        get_or_create_for_append_def delete_conv' Let_def split: option.splits)

text \<open>
  A transport stays routed. Once a request has a local transport of generation g, every other
  event of the registry, the late cleanup of an earlier generation included, leaves the request on it;
  only its own cleanup, an upstream mark, a replacing append or shutdown ends the route. And no two
  requests share a transport.
\<close>
theorem local_route_stays:
  assumes "r = fold registry_step es registry_new" "local rid r = Some g"
    and "\<forall>e\<in>set later. \<not> ends_local rid g e"
  shows "local rid (fold registry_step later r) = Some g
    \<and> (rid' = rid \<or> local rid' r \<noteq> Some g)"
proof
  show "local rid (fold registry_step later r) = Some g"
    unfolding local_def
    by (rule fold_invariant_all) (use assms in \<open>auto simp: local_def registry_step_keeps_local\<close>)
  have "distinct (map snd (local_map r))"
    using registry_reachable[of es] assms(1) by (simp add: registry_inv_def)
  then show "rid' = rid \<or> local rid' r \<noteq> Some g"
    using assms(2) map_of_SomeD[of "local_map r" rid g] map_of_SomeD[of "local_map r" rid' g]
    unfolding local_def distinct_map inj_on_def by fastforce
qed

lemma local_route_stays_witness:
  "let r = fold registry_step [GetOrCreate ''q'' False, HandleStep 1 close_transport, GetOrCreate ''q'' True]
             registry_new
   in local ''q'' (registry_step (ReapLocal ''q'' 1) r) = Some 2"
  using local_route_stays[OF refl, where rid = "''q''" and g = 2 and later = "[ReapLocal ''q'' 1]"
      and es = "[GetOrCreate ''q'' False, HandleStep 1 close_transport, GetOrCreate ''q'' True]"]
  by (simp add: registry_new_def get_or_create_for_append_def local_def accepting_appends_def
      is_open_def close_transport_def close_def handle_new_def lifecycle_new_def Let_def)

text \<open>
  Marking a request upstream takes its route over at once: the local transport is gone and takes
  no more appends, the next route check answers with this very mark, and a finish that belongs to
  another generation of the mark changes nothing.
\<close>
theorem mark_upstream_takes_over:
  "case mark_upstream now rid r of (g, dropped, r') \<Rightarrow>
     local rid r' = None
     \<and> dropped = local rid r
     \<and> (case dropped of None \<Rightarrow> True | Some h \<Rightarrow> \<not> accepting_appends (handles r' h))
     \<and> (case wait_route rid [(later, id)] r' of (route, r'') \<Rightarrow>
          route = Inr (Upstream g) \<and> (case upstream later rid r' of (b, r2) \<Rightarrow> b \<and> r2 = r''))
     \<and> (g' = g \<or> finish_upstream rid g' r' = r')"
  by (auto simp: mark_upstream_def local_def wait_route_turn_def upstream_def finish_upstream_def
      accepting_appends_def is_open_def close_transport_def close_def Let_def delete_conv' update_conv'
      split: option.splits)

lemma map_of_fold_delete: "map_of (fold AList.delete ks m) k = (if k \<in> set ks then None else map_of m k)"
  by (induction ks arbitrary: m) (auto simp: delete_conv')

lemma stale_marks:
  assumes "distinct (map fst m)"
  shows "k \<in> fst ` set (filter (\<lambda>e. P (snd e)) m) \<longleftrightarrow> (\<exists>v. map_of m k = Some v \<and> P v)"
  using assms by (force simp: image_iff)

lemma fold_delete_Nil: "fold AList.delete ks m = [] \<longleftrightarrow> fst ` set m \<subseteq> set ks"
proof -
  have "fold AList.delete ks m = [] \<longleftrightarrow> (\<forall>k. map_of (fold AList.delete ks m) k = None)"
    by (metis empty_iff list.set(1) map_of_eq_None_iff image_empty neq_Nil_conv list.set_intros(1) image_eqI)
  also have "\<dots> \<longleftrightarrow> fst ` set m \<subseteq> set ks"
    by (auto simp: map_of_fold_delete map_of_eq_None_iff)
  finally show ?thesis .
qed

lemma keys_covered:
  assumes "distinct (map fst m)"
  shows "fst ` set m \<subseteq> fst ` set (filter P m) \<longleftrightarrow> (\<forall>e\<in>set m. P e)"
proof
  assume sub: "fst ` set m \<subseteq> fst ` set (filter P m)"
  show "\<forall>e\<in>set m. P e"
  proof
    fix e assume e: "e \<in> set m"
    then obtain e' where "e' \<in> set m" "P e'" "fst e' = fst e" using sub by force
    then show "P e" using e assms by (metis distinct_map inj_onD)
  qed
qed simp

text \<open>
  Upstream marks expire after thirty minutes without use and not before, and storage is pruned
  exactly when no request has a local transport, every mark has expired and no conversation runs.
\<close>
theorem maintenance_only_when_idle:
  assumes "r = fold registry_step es registry_new"
    and "maintain_storage_if_idle now active pruned r = (todo, r')"
  shows "map_of (upstream_map r') rid =
      (case map_of (upstream_map r) rid of
         None \<Rightarrow> None
       | Some m \<Rightarrow> if now < last_used m + secs 1800 then Some m else None)
    \<and> (PruneInactiveStorage \<in> set todo \<longleftrightarrow>
      local_map r = [] \<and> \<not> active \<and> (\<forall>e\<in>set (upstream_map r). last_used (snd e) + secs 1800 \<le> now))"
proof (intro conjI)
  have d: "distinct (map fst (upstream_map r))"
    using registry_reachable[of es] assms(1) by (simp add: registry_inv_def)
  have stale: "mark_stale now m \<longleftrightarrow> \<not> now < last_used m + secs 1800" for m
    by (auto simp: mark_stale_def upstream_mark_ttl_def secs_def)
  have r': "r' = snd (expire_stale_upstream_at now r)"
    using assms(2) by (auto simp: maintain_storage_if_idle_def Let_def split: if_splits)
  show "map_of (upstream_map r') rid =
      (case map_of (upstream_map r) rid of
         None \<Rightarrow> None
       | Some m \<Rightarrow> if now < last_used m + secs 1800 then Some m else None)"
  proof -
    have "map_of (upstream_map r') rid =
        (if \<exists>v. map_of (upstream_map r) rid = Some v \<and> mark_stale now v then None
         else map_of (upstream_map r) rid)"
      using stale_marks[OF d, of rid "mark_stale now"] unfolding r'
      by (simp add: expire_stale_upstream_at_def Let_def map_of_fold_delete)
    then show ?thesis using stale by (simp split: option.splits)
  qed
  have "upstream_map r' = [] \<longleftrightarrow> (\<forall>e\<in>set (upstream_map r). mark_stale now (snd e))"
    using keys_covered[OF d, of "\<lambda>e. mark_stale now (snd e)"] unfolding r'
    by (simp add: expire_stale_upstream_at_def Let_def fold_delete_Nil)
  then show "PruneInactiveStorage \<in> set todo \<longleftrightarrow>
      local_map r = [] \<and> \<not> active \<and> (\<forall>e\<in>set (upstream_map r). last_used (snd e) + secs 1800 \<le> now)"
    using assms(2) r' stale
    by (auto simp: maintain_storage_if_idle_def expire_stale_upstream_at_def Let_def not_less
        split: if_splits)
qed

lemma maintenance_only_when_idle_witness:
  "let r = fold registry_step [MarkUpstream 5 ''q''] registry_new
   in PruneInactiveStorage \<in> set (fst (maintain_storage_if_idle (5 + secs 1800) False (Inr ()) r))"
proof -
  let ?r = "fold registry_step [MarkUpstream 5 ''q''] registry_new"
  show ?thesis
    using maintenance_only_when_idle[OF refl prod.collapse[symmetric],
        where es = "[MarkUpstream 5 ''q'']" and now = "5 + secs 1800" and active = False
          and pruned = "Inr ()"]
    by (simp add: registry_new_def mark_upstream_def Let_def)
qed

text \<open>
  The generation of an upstream mark starts again at 1 once the mark has been cleared. So after a
  mark, its finish and a new mark, a second finish that still belongs to the first mark clears the new
  one: the generation does not tell marks of one request apart across a clear.
\<close>
theorem upstream_generation_restarts:
  "case mark_upstream t1 rid registry_new of (g1, _, r1) \<Rightarrow>
   case mark_upstream t2 rid (finish_upstream rid g1 r1) of (g2, _, r2) \<Rightarrow>
     g2 = g1 \<and> fst (upstream t3 rid r2) \<and> \<not> fst (upstream t3 rid (finish_upstream rid g1 r2))"
  by (simp add: mark_upstream_def registry_new_def finish_upstream_def upstream_def Let_def)

end
