(* ===== verification/Inbox.thy ===== *)
theory Inbox
  imports Prelude
begin

text \<open>
  The ordered inbox of a Cursor transport (src/server/src/cursor/transport/inbox.rs): appends may
  arrive reordered or not at all; the inbox hands them on in sequence order, and gives up a gap that
  stays open for ten seconds or lets more than 1024 messages pile up. The reading of the clock is the
  argument \<open>now\<close>; sequence numbers are i64 values, kept as int with the source's saturating increment.
\<close>

definition gap_timeout :: nat where "gap_timeout = secs 10"
definition pending_limit :: nat where "pending_limit = 1024"

record 'a inbox =
  inbox_next :: int
  inbox_pending :: "(int \<times> 'a) list"
  gap_since :: "nat option"

definition starting_at :: "int \<Rightarrow> 'a inbox" where
  "starting_at n = \<lparr>inbox_next = n, inbox_pending = [], gap_since = None\<rparr>"

text \<open>The loop of \<open>drain_contiguous\<close>: each turn removes an entry of the pending map.\<close>

function drain_loop :: "int \<Rightarrow> (int \<times> 'a) list \<Rightarrow> (int \<times> 'a) list \<times> int \<times> (int \<times> 'a) list" where
  "drain_loop n p =
     (case map_of p n of
        None \<Rightarrow> ([], n, p)
      | Some v \<Rightarrow>
          (let (ready, n', p') = drain_loop (sat_add_i64 n 1) (smap_del n p) in ((n, v) # ready, n', p')))"
  by pat_completeness auto
termination by (relation "measure (\<lambda>(n, p). length p)") (auto dest: smap_del_length)

declare drain_loop.simps [simp del]

definition drain_contiguous :: "'a inbox \<Rightarrow> (int \<times> 'a) list \<times> 'a inbox" where
  "drain_contiguous s =
     (let (ready, n, p) = drain_loop (inbox_next s) (inbox_pending s);
          since = (if p = [] then None else gap_since s)
      in (ready, s\<lparr>inbox_next := n, inbox_pending := p, gap_since := since\<rparr>))"

definition skip_gap :: "'a inbox \<Rightarrow> (int \<times> 'a) list \<times> 'a inbox" where
  "skip_gap s =
     (case inbox_pending s of
        [] \<Rightarrow> ([], s\<lparr>gap_since := None\<rparr>)
      | (oldest, _) # _ \<Rightarrow> drain_contiguous (s\<lparr>inbox_next := oldest, gap_since := None\<rparr>))"

text \<open>
  The statements of \<open>push_at\<close> that store the message (the first append sets the start) and that
  note since when the gap is open.
\<close>

definition store_append :: "int \<Rightarrow> 'a \<Rightarrow> 'a inbox \<Rightarrow> 'a inbox" where
  "store_append seqno value s =
     (let s1 = (if inbox_next s = 0 \<and> inbox_pending s = [] \<and> seqno > 0
                then s\<lparr>inbox_next := seqno\<rparr> else s)
      in s1\<lparr>inbox_pending := smap_put seqno value (inbox_pending s1)\<rparr>)"

definition gap_start :: "nat \<Rightarrow> 'a inbox \<Rightarrow> nat" where
  "gap_start now s = (case gap_since s of Some t \<Rightarrow> t | None \<Rightarrow> now)"

definition push_at :: "nat \<Rightarrow> int \<Rightarrow> 'a \<Rightarrow> 'a inbox \<Rightarrow> (int \<times> 'a) list \<times> 'a inbox" where
  "push_at now seqno value s =
     (if seqno < inbox_next s \<or> map_of (inbox_pending s) seqno \<noteq> None then ([], s)
      else
        let (ready, s3) = drain_contiguous (store_append seqno value s)
        in if ready \<noteq> [] then (ready, s3)
           else
             let since = gap_start now s3; s4 = s3\<lparr>gap_since := Some since\<rparr>
             in if length (inbox_pending s4) > pending_limit then skip_gap s4
                else if now - since < gap_timeout then ([], s4)
                else skip_gap s4)"

text \<open>An append as the transport sees it: when, its number, its message.\<close>

type_synonym 'a append = "nat \<times> int \<times> 'a"

definition push :: "'a append \<Rightarrow> 'a inbox \<Rightarrow> (int \<times> 'a) list \<times> 'a inbox" where
  "push e s = (case e of (now, seqno, value) \<Rightarrow> push_at now seqno value s)"

text \<open>
  The representation invariant: pending is a map ordered by number, holds nothing below \<open>next\<close>,
  nothing at \<open>next\<close> itself, and at most the limit.
\<close>

definition inbox_ok :: "'a inbox \<Rightarrow> bool" where
  "inbox_ok s \<longleftrightarrow>
     smap_ok (inbox_pending s)
     \<and> (\<forall>e\<in>set (inbox_pending s). inbox_next s < fst e \<and> fst e < i64_max)
     \<and> length (inbox_pending s) \<le> pending_limit
     \<and> (inbox_pending s = [] \<longrightarrow> gap_since s = None)
     \<and> i64_min \<le> inbox_next s \<and> inbox_next s \<le> i64_max"

definition seqno_ok :: "'a append \<Rightarrow> bool" where
  "seqno_ok e \<longleftrightarrow> i64_min \<le> fst (snd e) \<and> fst (snd e) < i64_max"


section \<open>Draining\<close>

lemma smap_del_length_mem:
  "smap_ok p \<Longrightarrow> map_of p n = Some v \<Longrightarrow> length p = Suc (length (smap_del n p))"
proof (induction p)
  case (Cons a p)
  show ?case
  proof (cases "fst a = n")
    case True
    then have "smap_del n p = p"
      using Cons.prems(1) by (intro smap_del_absent) (auto simp: smap_ok_Cons)
    then show ?thesis using True by (simp add: smap_del_def)
  next
    case False
    then show ?thesis using Cons by (auto simp: smap_del_def smap_ok_Cons split: if_splits)
  qed
qed simp

lemma drain_loop_spec:
  assumes "smap_ok p" "\<forall>e\<in>set p. n \<le> fst e \<and> fst e < i64_max" "i64_min \<le> n" "n \<le> i64_max"
    "drain_loop n p = (ready, n', p')"
  shows "map fst ready = [n..n' - 1] \<and> n \<le> n' \<and> n' \<le> i64_max \<and> smap_ok p'
    \<and> (\<forall>e\<in>set p'. n' < fst e) \<and> set p = set ready \<union> set p'
    \<and> length ready + length p' = length p"
  using assms
proof (induction n p arbitrary: ready n' p' rule: drain_loop.induct)
  case (1 n p)
  show ?case
  proof (cases "map_of p n")
    case None
    then have "\<forall>e\<in>set p. fst e \<noteq> n" by (force simp: map_of_eq_None_iff)
    then have "\<forall>e\<in>set p. n < fst e" using 1(3) by (auto simp: order_less_le)
    then show ?thesis using 1 None by (auto simp: drain_loop.simps)
  next
    case (Some v)
    obtain r m q where rec: "drain_loop (sat_add_i64 n 1) (smap_del n p) = (r, m, q)"
      by (metis prod_cases3)
    have mem: "(n, v) \<in> set p" using Some by (rule map_of_SomeD)
    then have lt: "n < i64_max" using 1(3) by auto
    then have sat: "sat_add_i64 n 1 = n + 1"
      using 1(4) by (intro sat_add_i64_exact) auto
    have del: "\<forall>e\<in>set (smap_del n p). n + 1 \<le> fst e \<and> fst e < i64_max"
      using 1(3) by (force simp: smap_del_def)
    have IH: "map fst r = [n + 1..m - 1] \<and> n + 1 \<le> m \<and> m \<le> i64_max \<and> smap_ok q
      \<and> (\<forall>e\<in>set q. m < fst e) \<and> set (smap_del n p) = set r \<union> set q
      \<and> length r + length q = length (smap_del n p)"
      using 1(1)[OF Some _ _ _ _ rec] 1(2,4) del lt sat by simp
    have out: "ready = (n, v) # r" "n' = m" "p' = q"
      using 1(6) Some rec by (auto simp: drain_loop.simps[of n p])
    have "set p = insert (n, v) (set (smap_del n p))"
    proof -
      have "\<forall>x\<in>set p. fst x = n \<longrightarrow> x = (n, v)"
        using Some smap_ok_map_of_mem[OF 1(2)] by (metis option.inject prod.collapse)
      moreover have "set (smap_del n p) = {x \<in> set p. fst x \<noteq> n}" by (simp add: smap_del_def)
      ultimately show ?thesis using mem by blast
    qed
    moreover have "map fst ready = [n..n' - 1]"
    proof -
      have "[n..m - 1] = n # [n + 1..m - 1]" using IH by (intro upto_rec1) linarith
      then show ?thesis using IH out by simp
    qed
    moreover have "n \<le> n'" using IH out(2) by linarith
    moreover have "length ready + length p' = length p"
      using IH smap_del_length_mem[OF 1(2) Some] unfolding out by (metis add_Suc length_Cons)
    ultimately show ?thesis using IH out by (metis Un_insert_left list.set(2))
  qed
qed

text \<open>What a drain needs and leaves, on the inbox.\<close>

definition drainable :: "'a inbox \<Rightarrow> bool" where
  "drainable s \<longleftrightarrow>
     smap_ok (inbox_pending s)
     \<and> (\<forall>e\<in>set (inbox_pending s). inbox_next s \<le> fst e \<and> fst e < i64_max)
     \<and> i64_min \<le> inbox_next s \<and> inbox_next s \<le> i64_max"

lemma drain_contiguous_spec:
  assumes "drainable s" "drain_contiguous s = (ready, s')"
  shows "map fst ready = [inbox_next s..inbox_next s' - 1]
    \<and> inbox_next s \<le> inbox_next s' \<and> inbox_next s' \<le> i64_max
    \<and> smap_ok (inbox_pending s') \<and> (\<forall>e\<in>set (inbox_pending s'). inbox_next s' < fst e)
    \<and> set (inbox_pending s) = set ready \<union> set (inbox_pending s')
    \<and> length ready + length (inbox_pending s') = length (inbox_pending s)
    \<and> gap_since s' = (if inbox_pending s' = [] then None else gap_since s)"
proof -
  obtain n' p' where d: "drain_loop (inbox_next s) (inbox_pending s) = (ready, n', p')"
    and s': "s' = s\<lparr>inbox_next := n', inbox_pending := p',
                   gap_since := (if p' = [] then None else gap_since s)\<rparr>"
    using assms(2) by (auto simp: drain_contiguous_def Let_def split: prod.splits)
  show ?thesis
    using drain_loop_spec[OF _ _ _ _ d] assms(1) s' by (auto simp: drainable_def)
qed

lemma skip_gap_spec:
  assumes "drainable s" "skip_gap s = (ready, s')" "inbox_pending s \<noteq> []"
  shows "ready \<noteq> [] \<and> map fst ready = [fst (hd (inbox_pending s))..inbox_next s' - 1]
    \<and> inbox_next s \<le> fst (hd (inbox_pending s))
    \<and> inbox_next s' \<le> i64_max \<and> inbox_next s \<le> inbox_next s'
    \<and> smap_ok (inbox_pending s') \<and> (\<forall>e\<in>set (inbox_pending s'). inbox_next s' < fst e)
    \<and> set (inbox_pending s) = set ready \<union> set (inbox_pending s')
    \<and> length (inbox_pending s') < length (inbox_pending s)
    \<and> gap_since s' = None"
proof -
  obtain k v p where p: "inbox_pending s = (k, v) # p"
    using assms(3) by (metis list.exhaust surj_pair)
  let ?t = "s\<lparr>inbox_next := k, gap_since := None\<rparr>"
  have d: "drain_contiguous ?t = (ready, s')"
    using assms(2) p by (simp add: skip_gap_def)
  have t: "drainable ?t"
    using assms(1) p by (auto simp: drainable_def smap_ok_Cons)
  note spec = drain_contiguous_spec[OF t d]
  have "ready \<noteq> []"
  proof
    assume "ready = []"
    then have "\<forall>e\<in>set (inbox_pending ?t). inbox_next s' < fst e" "inbox_next s' \<ge> k"
      using spec by auto
    then show False using p by force
  qed
  moreover have "inbox_next s \<le> k" using assms(1) p by (auto simp: drainable_def)
  ultimately show ?thesis using spec p by (cases ready) auto
qed

lemma inbox_ok_starting_at: "i64_min \<le> n \<Longrightarrow> n \<le> i64_max \<Longrightarrow> inbox_ok (starting_at n)"
  by (simp add: inbox_ok_def starting_at_def)


section \<open>One append\<close>

text \<open>
  One append in full: what it delivers is a run of consecutive numbers, never below \<open>next\<close> and
  ending just below the new one; nothing is invented, and nothing is lost except when stale.
\<close>

lemma push_spec:
  assumes e: "seqno_ok e" and s: "inbox_ok s" and p: "push e s = (out, s')"
  shows "inbox_ok s' \<and> inbox_next s \<le> inbox_next s'
    \<and> (\<exists>a\<ge>inbox_next s. map fst out = [a..inbox_next s' - 1])
    \<and> set out \<union> set (inbox_pending s') \<subseteq> insert (snd e) (set (inbox_pending s))
    \<and> set (inbox_pending s) \<subseteq> set out \<union> set (inbox_pending s')
    \<and> (inbox_next s \<le> fst (snd e) \<and> map_of (inbox_pending s) (fst (snd e)) = None
        \<longrightarrow> snd e \<in> set out \<union> set (inbox_pending s'))"
proof -
  obtain now q v where ev: "e = (now, q, v)" by (metis prod_cases3)
  show ?thesis
  proof (cases "q < inbox_next s \<or> map_of (inbox_pending s) q \<noteq> None")
    case True
    then have "out = []" "s' = s" using p ev by (auto simp: push_def push_at_def)
    then show ?thesis using s True ev by (auto intro!: exI[of _ "inbox_next s"])
  next
    case False
    define s1 where "s1 = (if inbox_next s = 0 \<and> inbox_pending s = [] \<and> q > 0
                           then s\<lparr>inbox_next := q\<rparr> else s)"
    define s2 where "s2 = store_append q v s"
    have s2': "s2 = s1\<lparr>inbox_pending := smap_put q v (inbox_pending s1)\<rparr>"
      by (simp add: s2_def s1_def store_append_def Let_def)
    obtain ready s3 where d: "drain_contiguous s2 = (ready, s3)" by force
    have q: "inbox_next s \<le> q" "q < i64_max" "i64_min \<le> q"
      using False e ev by (auto simp: seqno_ok_def)
    have s1: "inbox_pending s1 = inbox_pending s" "gap_since s1 = gap_since s"
      "inbox_next s \<le> inbox_next s1" "inbox_next s1 \<le> q"
      using q by (auto simp: s1_def)
    have absent: "q \<notin> fst ` set (inbox_pending s)"
      using False by (auto simp: map_of_eq_None_iff)
    have set2: "set (inbox_pending s2) = insert (q, v) (set (inbox_pending s))"
      using s absent s1 by (simp add: s2' smap_put_set inbox_ok_def smap_del_absent)
    have len2: "length (inbox_pending s2) = Suc (length (inbox_pending s))"
      using s absent s1 by (simp add: s2' smap_put_length_new inbox_ok_def)
    have nb: "inbox_next s1 \<le> fst x" if "x \<in> set (inbox_pending s)" for x
      using that s s1 by (auto simp: s1_def inbox_ok_def)
    have dr2: "drainable s2"
      using s q s1 set2 nb by (auto simp: drainable_def s2' inbox_ok_def)
    note spec = drain_contiguous_spec[OF dr2 d]
    have n2: "inbox_next s2 = inbox_next s1" by (simp add: s2')
    show ?thesis
    proof (cases "ready = []")
      case False': False
      then have "out = ready" "s' = s3"
        using p ev False d False' by (auto simp: push_def push_at_def s2_def)
      moreover have "length (inbox_pending s3) \<le> pending_limit"
        using spec len2 False' s by (cases ready) (auto simp: inbox_ok_def)
      moreover have "\<forall>x\<in>set (inbox_pending s3). fst x < i64_max"
        using spec dr2 by (auto simp: drainable_def)
      moreover have "i64_min \<le> inbox_next s" using s by (simp add: inbox_ok_def)
      ultimately show ?thesis
        using spec set2 ev n2 s1 by (auto simp: inbox_ok_def intro!: exI[of _ "inbox_next s1"])
    next
      case True
      define s4 where "s4 = s3\<lparr>gap_since := Some (gap_start now s3)\<rparr>"
      have s3: "inbox_next s2 \<le> inbox_next s3" "set (inbox_pending s3) = set (inbox_pending s2)"
        "length (inbox_pending s3) = length (inbox_pending s2)" using spec True by auto
      have "push e s = (if length (inbox_pending s4) > pending_limit then skip_gap s4
          else if now - gap_start now s3 < gap_timeout then ([], s4) else skip_gap s4)"
        using ev False d[unfolded s2_def True] unfolding s4_def
        by (simp add: push_def push_at_def Let_def)
      then have res: "(out, s') = (if length (inbox_pending s4) > pending_limit then skip_gap s4
          else if now - gap_start now s3 < gap_timeout then ([], s4) else skip_gap s4)"
        using p by (rule trans[OF sym, rotated])
      have dr4: "drainable s4"
      proof -
        have "smap_ok (inbox_pending s3)" "inbox_next s3 \<le> i64_max"
          "\<forall>x\<in>set (inbox_pending s3). inbox_next s3 < fst x"
          using spec by blast+
        then show ?thesis
          using dr2 s3(1,2) unfolding drainable_def s4_def by (auto simp: order_less_imp_le)
      qed
      have ne: "inbox_pending s4 \<noteq> []" using s3 len2 by (auto simp: s4_def)
      show ?thesis
      proof (cases "skip_gap s4 = (out, s')")
        case skip: True
        note sk = skip_gap_spec[OF dr4 skip ne]
        have "length (inbox_pending s') \<le> pending_limit"
          using sk s3 len2 s by (auto simp: s4_def inbox_ok_def)
        moreover have "\<forall>x\<in>set (inbox_pending s'). fst x < i64_max"
          using sk dr4 by (auto simp: drainable_def)
        moreover have "inbox_next s \<le> inbox_next s4" "i64_min \<le> inbox_next s"
          using s3 s1 n2 s by (auto simp: s4_def inbox_ok_def)
        moreover have "set (inbox_pending s4) = insert (q, v) (set (inbox_pending s))"
          using s3 set2 by (simp add: s4_def)
        ultimately show ?thesis
          using sk ev unfolding inbox_ok_def
          by (auto intro!: exI[of _ "fst (hd (inbox_pending s4))"])
      next
        case False
        then have o: "out = []" "s' = s4" "length (inbox_pending s4) \<le> pending_limit"
          using res by (auto split: if_splits)
        have n4: "inbox_next s4 = inbox_next s3" "inbox_pending s4 = inbox_pending s3"
          by (simp_all add: s4_def)
        have le: "inbox_next s \<le> inbox_next s3" using s3(1) s1 n2 by linarith
        have "\<forall>x\<in>set (inbox_pending s4). inbox_next s4 < fst x" using spec n4 by metis
        then have "inbox_ok s4"
          using dr4 ne o(3) unfolding inbox_ok_def drainable_def by blast
        moreover have "map fst out = [inbox_next s4..inbox_next s' - 1]" using o by simp
        ultimately show ?thesis using o le n4 s3 set2 ev by auto
      qed
    qed
  qed
qed


section \<open>Runs of appends\<close>

interpretation ordered: emitter push seqno_ok inbox_ok inbox_next fst
proof unfold_locales
  fix e :: "'a append" and s s' :: "'a inbox" and out :: "(int \<times> 'a) list" and x
  assume a: "seqno_ok e" "inbox_ok s" "push e s = (out, s')"
  note spec = push_spec[OF a]
  then obtain b where b: "inbox_next s \<le> b" "map fst out = [b..inbox_next s' - 1]" by blast
  show "inbox_ok s'" "inbox_next s \<le> inbox_next s'" using spec by blast+
  show "sorted_wrt (<) (map fst out)" using b by simp
  assume "x \<in> set out"
  then have "fst x \<in> set [b..inbox_next s' - 1]" unfolding b(2)[symmetric] by simp
  then show "inbox_next s \<le> fst x" "fst x < inbox_next s'" using b(1) by auto
qed

lemma run_push_sources:
  assumes "list_all seqno_ok es" "inbox_ok s" "run_out push es s = (out, s')"
  shows "set out \<union> set (inbox_pending s') \<subseteq> snd ` set es \<union> set (inbox_pending s)"
  using assms
proof (induction es arbitrary: s out s')
  case (Cons e es)
  obtain o1 s1 where 1: "push e s = (o1, s1)" by force
  obtain o2 s2 where 2: "run_out push es s1 = (o2, s2)" by force
  have e: "seqno_ok e" and es: "list_all seqno_ok es" using Cons.prems(1) by auto
  note spec = push_spec[OF e Cons.prems(2) 1]
  have "set o2 \<union> set (inbox_pending s2) \<subseteq> snd ` set es \<union> set (inbox_pending s1)"
    using Cons.IH[OF es _ 2] spec by blast
  moreover have "set o1 \<union> set (inbox_pending s1) \<subseteq> insert (snd e) (set (inbox_pending s))"
    using spec by blast
  moreover have "out = o1 @ o2" "s' = s2" using Cons.prems(3) 1 2 by auto
  ultimately show ?case by auto
qed simp

text \<open>
  An append that finds no open gap older than the timeout and room below the limit skips nothing:
  delivery goes on exactly at \<open>next\<close>.
\<close>

lemma push_no_skip:
  assumes e: "seqno_ok e" and s: "inbox_ok s" and p: "push e s = (out, s')"
    and room: "length (inbox_pending s) < pending_limit"
    and young: "\<forall>t. gap_since s = Some t \<longrightarrow> fst e - t < gap_timeout"
    and start: "inbox_next s \<noteq> 0 \<or> fst (snd e) \<le> 0"
  shows "map fst out = [inbox_next s..inbox_next s' - 1]"
    and "gap_since s' = None \<or> gap_since s' = gap_since s \<or> gap_since s' = Some (fst e)"
proof -
  obtain now q v where ev: "e = (now, q, v)" by (metis prod_cases3)
  have "map fst out = [inbox_next s..inbox_next s' - 1]
    \<and> (gap_since s' = None \<or> gap_since s' = gap_since s \<or> gap_since s' = Some now)"
  proof (cases "q < inbox_next s \<or> map_of (inbox_pending s) q \<noteq> None")
    case True
    then show ?thesis using p ev by (auto simp: push_def push_at_def)
  next
    case False
    have st: "store_append q v s = s\<lparr>inbox_pending := smap_put q v (inbox_pending s)\<rparr>"
      using start ev by (auto simp: store_append_def Let_def)
    let ?s2 = "s\<lparr>inbox_pending := smap_put q v (inbox_pending s)\<rparr>"
    obtain ready s3 where d: "drain_contiguous ?s2 = (ready, s3)" by force
    have absent: "q \<notin> fst ` set (inbox_pending s)" using False by (auto simp: map_of_eq_None_iff)
    have sets: "set (inbox_pending ?s2) = insert (q, v) (set (inbox_pending s))"
      using s absent by (simp add: smap_put_set inbox_ok_def smap_del_absent)
    have dr: "drainable ?s2"
      using s sets False e ev by (auto simp: drainable_def inbox_ok_def seqno_ok_def)
    note spec = drain_contiguous_spec[OF dr d]
    have len: "length (inbox_pending s3) \<le> pending_limit"
      using spec room smap_put_length[of q v "inbox_pending s"] by simp
    have "now - gap_start now s3 < gap_timeout"
      using young ev spec
      by (auto simp: gap_start_def gap_timeout_def secs_def split: option.splits if_splits)
    then have "push e s = (if ready \<noteq> [] then (ready, s3)
        else ([], s3\<lparr>gap_since := Some (gap_start now s3)\<rparr>))"
      using False d len st ev by (auto simp: push_def push_at_def Let_def)
    then have r: "(out, s') = (if ready \<noteq> [] then (ready, s3)
        else ([], s3\<lparr>gap_since := Some (gap_start now s3)\<rparr>))" using p by simp
    have "gap_since s3 = None \<or> gap_since s3 = gap_since s" using spec by (auto split: if_splits)
    then show ?thesis
      using r spec by (auto simp: gap_start_def split: if_splits option.splits)
  qed
  then show "map fst out = [inbox_next s..inbox_next s' - 1]"
    "gap_since s' = None \<or> gap_since s' = gap_since s \<or> gap_since s' = Some (fst e)"
    using ev by auto
qed

lemma upto_join: "a \<le> b \<Longrightarrow> b \<le> c \<Longrightarrow> [a..c - 1] = [a..b - 1] @ [b..c - 1]" for a b c :: int
  using upto_split1[of a b "c - 1"] by (cases "b = c") auto

lemma run_no_skip:
  assumes "list_all seqno_ok es" "inbox_ok s" "run_out push es s = (out, s')" "0 < inbox_next s"
    and "length (inbox_pending s) + length es \<le> pending_limit"
    and "\<forall>e\<in>set es. t0 \<le> fst e \<and> fst e < t0 + gap_timeout"
    and "\<forall>t. gap_since s = Some t \<longrightarrow> t0 \<le> t"
    and "distinct (map (fst \<circ> snd) es)"
    and "\<forall>e\<in>set es. inbox_next s \<le> fst (snd e) \<and> map_of (inbox_pending s) (fst (snd e)) = None"
  shows "map fst out = [inbox_next s..inbox_next s' - 1]"
    and "set out \<union> set (inbox_pending s') = snd ` set es \<union> set (inbox_pending s)"
proof -
  have "map fst out = [inbox_next s..inbox_next s' - 1] \<and> inbox_next s \<le> inbox_next s'
    \<and> set out \<union> set (inbox_pending s') = snd ` set es \<union> set (inbox_pending s)"
    using assms
  proof (induction es arbitrary: s out s')
    case (Cons e es)
    obtain o1 s1 where 1: "push e s = (o1, s1)" by force
    obtain o2 s2 where 2: "run_out push es s1 = (o2, s2)" by force
    have out: "out = o1 @ o2" "s' = s2" using Cons.prems(3) 1 2 by auto
    have e: "seqno_ok e" and es: "list_all seqno_ok es" using Cons.prems(1) by auto
    note spec = push_spec[OF e Cons.prems(2) 1]
    have young: "\<forall>t. gap_since s = Some t \<longrightarrow> fst e - t < gap_timeout"
      using Cons.prems(6,7) by (auto simp: gap_timeout_def secs_def)
    have room: "length (inbox_pending s) < pending_limit" using Cons.prems(5) by simp
    note quiet = push_no_skip[OF e Cons.prems(2) 1 room young disjI1]
    have n: "inbox_next s \<noteq> 0" using Cons.prems(4) by simp
    have keys1: "map fst o1 = [inbox_next s..inbox_next s1 - 1]" by (rule quiet(1)[OF n])
    have set1: "set o1 \<union> set (inbox_pending s1) = insert (snd e) (set (inbox_pending s))"
      using spec Cons.prems(9) by auto
    have since1: "\<forall>t. gap_since s1 = Some t \<longrightarrow> t0 \<le> t"
      using quiet(2)[OF n] Cons.prems(6,7) by auto
    have fresh1: "inbox_next s1 \<le> fst (snd x) \<and> map_of (inbox_pending s1) (fst (snd x)) = None"
      if "x \<in> set es" for x
    proof -
      have ne: "fst (snd x) \<noteq> fst (snd e)" using Cons.prems(8) that
        by (auto simp: image_iff)
      have "fst (snd x) \<notin> fst ` set (inbox_pending s)"
        using Cons.prems(9) that by (auto simp: map_of_eq_None_iff)
      then have out1: "fst (snd x) \<notin> fst ` (set o1 \<union> set (inbox_pending s1))"
        using set1 ne by auto
      have "fst (snd x) \<notin> set [inbox_next s..inbox_next s1 - 1]"
        using out1 unfolding keys1[symmetric] by auto
      then show ?thesis using out1 Cons.prems(9) that by (auto simp: map_of_eq_None_iff)
    qed
    have len1: "length (inbox_pending s1) + length es \<le> pending_limit"
    proof -
      have "length (inbox_pending s1) = card (set (inbox_pending s1))"
        using spec by (metis distinct_card distinct_map inbox_ok_def smap_ok_distinct)
      also have "\<dots> \<le> card (insert (snd e) (set (inbox_pending s)))"
        using set1 by (intro card_mono) auto
      also have "\<dots> \<le> Suc (length (inbox_pending s))"
        by (metis card_length length_Cons list.set(2))
      finally show ?thesis using Cons.prems(5) by simp
    qed
    have IH: "map fst o2 = [inbox_next s1..inbox_next s2 - 1] \<and> inbox_next s1 \<le> inbox_next s2
      \<and> set o2 \<union> set (inbox_pending s2) = snd ` set es \<union> set (inbox_pending s1)"
      using Cons.IH[OF es _ 2 _ len1 _ since1] spec Cons.prems(4,6,8) fresh1 by auto
    have "[inbox_next s..inbox_next s2 - 1]
        = [inbox_next s..inbox_next s1 - 1] @ [inbox_next s1..inbox_next s2 - 1]"
      by (rule upto_join) (use spec IH in blast)+
    then show ?case using keys1 IH out set1 spec by auto
  qed auto
  then show "map fst out = [inbox_next s..inbox_next s' - 1]"
    "set out \<union> set (inbox_pending s') = snd ` set es \<union> set (inbox_pending s)" by auto
qed

lemma hd_upto: "[a..b] \<noteq> [] \<Longrightarrow> hd [a..b] = a" for a b :: int
  by (cases "a \<le> b") (simp_all add: upto_rec1)

lemma sorted_by_number:
  assumes "sorted_wrt (<) (map fst (xs :: (int \<times> 'a) list))" "distinct (map fst ys)"
    "set xs = set ys"
  shows "xs = sort_key fst ys"
proof (rule map_sorted_distinct_set_unique[of fst])
  show "inj_on fst (set xs \<union> set (sort_key fst ys))"
    using assms(2,3) by (simp add: distinct_map)
  show "sorted (map fst xs)" "distinct (map fst xs)"
    using assms(1) by (simp_all add: strict_sorted_iff)
  show "distinct (map fst (sort_key fst ys))"
    using assms(2) by (simp add: distinct_map distinct_sort)
qed (simp_all add: assms(3))


section \<open>Properties\<close>

text \<open>
  C18: whatever order the appends of a transport arrive in, stale, repeated or with gaps, the inbox
  hands on messages with strictly increasing sequence numbers (so none twice), all at or above the
  starting number, each of them a message that was appended; and it never holds more than 1024.
\<close>
theorem inbox_delivers_in_order:
  assumes "i64_min \<le> n" "n \<le> i64_max" "list_all seqno_ok es"
    and "run_out push es (starting_at n) = (out, s')"
  shows "sorted_wrt (<) (map fst out) \<and> (\<forall>m\<in>set out. n \<le> fst m \<and> m \<in> snd ` set es)
    \<and> length (inbox_pending s') \<le> 1024"
proof -
  have ok: "inbox_ok (starting_at n)" using assms(1,2) by (rule inbox_ok_starting_at)
  have "inbox_ok s' \<and> sorted_wrt (<) (map fst out) \<and> (\<forall>x\<in>set out. n \<le> fst x)"
    using ordered.run_emits[OF assms(3) ok assms(4)] by (simp add: starting_at_def)
  moreover have "set out \<subseteq> snd ` set es"
    using run_push_sources[OF assms(3) ok assms(4)] by (auto simp: starting_at_def)
  ultimately show ?thesis by (auto simp: inbox_ok_def pending_limit_def)
qed

lemma inbox_delivers_in_order_witness:
  "sorted_wrt (<) (map fst (fst (run_out push [(0, 6, 1), (1, 5, 2), (2, 5, 3 :: nat)] (starting_at 5))))
   \<and> fst (run_out push [(0, 6, 1), (1, 5, 2), (2, 5, 3 :: nat)] (starting_at 5)) = [(5, 2), (6, 1)]"
  using inbox_delivers_in_order[of 5 "[(0, 6, 1), (1, 5, 2), (2, 5, 3 :: nat)]",
      OF _ _ _ prod.collapse[symmetric]]
  by (simp add: i64_min_def i64_max_def seqno_ok_def push_def push_at_def starting_at_def
      store_append_def drain_contiguous_def drain_loop.simps sat_add_i64_def smap_del_def
      gap_start_def pending_limit_def gap_timeout_def secs_def)

text \<open>
  Appends that arrive reordered but complete within the gap timeout, at most 1024 of them, are
  all delivered, in order, and nothing stays behind.
\<close>
theorem inbox_reorders_completely:
  assumes "0 < n" "n + int (length es) \<le> i64_max" "length es \<le> 1024"
    and perm: "distinct (map (fst \<circ> snd) es)" "set (map (fst \<circ> snd) es) = {n..<n + int (length es)}"
    and soon: "\<forall>e\<in>set es. t0 \<le> fst e \<and> fst e < t0 + gap_timeout"
  shows "\<exists>s'. run_out push es (starting_at n) = (sort_key fst (map snd es), s') \<and> inbox_pending s' = []"
proof -
  obtain out s' where r: "run_out push es (starting_at n) = (out, s')" by force
  have ok: "inbox_ok (starting_at n)"
    using assms(1,2) by (intro inbox_ok_starting_at) (auto simp: i64_min_def)
  have range: "n \<le> fst (snd e) \<and> fst (snd e) < n + int (length es)" if "e \<in> set es" for e
    using that perm(2) by fastforce
  then have legal: "list_all seqno_ok es"
    using assms(1,2) by (fastforce simp: list_all_iff seqno_ok_def i64_min_def)
  have runs: "map fst out = [n..inbox_next s' - 1]" "set out \<union> set (inbox_pending s') = snd ` set es"
    using run_no_skip[OF legal ok r _ _ soon _ perm(1)] assms(1,3) range
    by (auto simp: starting_at_def pending_limit_def)
  have ok': "inbox_ok s'" using ordered.run_emits[OF legal ok r] by blast
  have "inbox_pending s' = []"
  proof (rule ccontr)
    assume "inbox_pending s' \<noteq> []"
    then obtain x where x: "x \<in> set (inbox_pending s')" by (meson last_in_set)
    have "inbox_next s' < fst x" using ok' x by (auto simp: inbox_ok_def)
    moreover have "x \<in> snd ` set es" using x runs(2) by blast
    ultimately have "inbox_next s' \<in> {n..<n + int (length es)}"
      using range ordered.run_emits[OF legal ok r]
      by (fastforce simp: starting_at_def)
    then have "inbox_next s' \<in> fst ` (set out \<union> set (inbox_pending s'))"
      using perm(2) runs(2) by (force simp: image_image)
    then have "inbox_next s' \<in> set [n..inbox_next s' - 1] \<or> inbox_next s' \<in> fst ` set (inbox_pending s')"
      unfolding runs(1)[symmetric] by auto
    then show False using ok' by (auto simp: inbox_ok_def)
  qed
  then have "set out = set (map snd es)" using runs(2) by simp
  then have "out = sort_key fst (map snd es)"
    using perm(1) runs(1) by (intro sorted_by_number) (simp_all add: comp_def)
  then show ?thesis using r \<open>inbox_pending s' = []\<close> by blast
qed

text \<open>
  A gap does not stall the run for ever: once it has been open for ten seconds, the next append
  the inbox accepts releases the backlog, starting with the oldest message it holds.
\<close>
theorem inbox_gives_up_gap:
  assumes "inbox_ok s" "seqno_ok (now, q, v)" "gap_since s = Some t" "t + gap_timeout \<le> now"
    and "inbox_next s \<le> q" "map_of (inbox_pending s) q = None"
  shows "\<exists>out s'. push_at now q v s = (out, s') \<and> out \<noteq> []
    \<and> fst (hd out) = (if q = inbox_next s then q else min q (fst (hd (inbox_pending s))))"
proof -
  let ?s2 = "s\<lparr>inbox_pending := smap_put q v (inbox_pending s)\<rparr>"
  obtain ready s3 where d: "drain_contiguous ?s2 = (ready, s3)" by force
  have ne: "inbox_pending s \<noteq> []" and ok: "smap_ok (inbox_pending s)"
    using assms(1,3) by (auto simp: inbox_ok_def)
  have st: "store_append q v s = ?s2" using ne by (simp add: store_append_def)
  have sets: "set (inbox_pending ?s2) = insert (q, v) (set (inbox_pending s))"
    using ok assms(6) by (simp add: smap_put_set smap_del_absent map_of_eq_None_iff)
  have dr: "drainable ?s2"
    using assms(1,2,5) sets by (auto simp: drainable_def inbox_ok_def seqno_ok_def)
  show ?thesis
  proof (cases "q = inbox_next s")
    case True
    then have "drain_loop q (smap_put q v (inbox_pending s)) = (case drain_loop (sat_add_i64 q 1)
        (smap_del q (smap_put q v (inbox_pending s))) of (r, n', p') \<Rightarrow> ((q, v) # r, n', p'))"
      using ok by (subst drain_loop.simps) simp
    then have "ready \<noteq> []" "fst (hd ready) = q"
      using d True by (auto simp: drain_contiguous_def Let_def split: prod.splits)
    then show ?thesis using assms(5,6) d st True by (auto simp: push_at_def)
  next
    case False
    have "map_of (smap_put q v (inbox_pending s)) (inbox_next s) = None"
      using False ok assms(1) by (auto simp: inbox_ok_def map_of_eq_None_iff)
    then have "ready = []" "s3 = ?s2"
      using d by (auto simp: drain_contiguous_def drain_loop.simps)
    then have "push_at now q v s = skip_gap (?s2\<lparr>gap_since := Some t\<rparr>)"
      using assms(3-6) d st by (auto simp: push_at_def gap_start_def Let_def)
    moreover obtain out s' where sk: "skip_gap (?s2\<lparr>gap_since := Some t\<rparr>) = (out, s')" by force
    have "out \<noteq> [] \<and> map fst out = [min q (fst (hd (inbox_pending s)))..inbox_next s' - 1]"
      using skip_gap_spec[OF _ sk] dr ne by (simp add: drainable_def smap_put_hd)
    then have "out \<noteq> []" "fst (hd out) = min q (fst (hd (inbox_pending s)))"
      using hd_map[of out fst] hd_upto by (metis, metis list.map_disc_iff)
    ultimately show ?thesis using sk False by auto
  qed
qed

lemma inbox_reorders_completely_witness:
  "\<exists>s'. run_out push [(0, 7, ''b''), (3, 5, ''a''), (9, 6, ''c'')] (starting_at 5)
         = ([(5, ''a''), (6, ''c''), (7, ''b'')], s') \<and> inbox_pending s' = []"
proof -
  have "{7, 5, 6} = {5..<8 :: int}" by auto
  then show ?thesis
    using inbox_reorders_completely[of 5 "[(0, 7, ''b''), (3, 5, ''a''), (9, 6, ''c'')]" 0]
    by (simp add: i64_max_def gap_timeout_def secs_def del: run_out.simps)
qed

lemma inbox_gives_up_gap_witness:
  "\<exists>out s'. push_at (secs 20) 9 True
       \<lparr>inbox_next = 5, inbox_pending = [(7, False)], gap_since = Some (secs 10)\<rparr> = (out, s')
     \<and> out \<noteq> [] \<and> fst (hd out) = 7"
  using inbox_gives_up_gap[of "\<lparr>inbox_next = 5, inbox_pending = [(7, False)], gap_since = Some (secs 10)\<rparr>"
      "secs 20" 9 True "secs 10"]
  by (simp add: inbox_ok_def seqno_ok_def smap_ok_def i64_min_def i64_max_def gap_timeout_def secs_def
      pending_limit_def)

end
