(* ===== verification/Model.thy ===== *)
theory Model
  imports Prelude
begin

text \<open>
  The canonical messages of a conversation and their projection into model input
  (src/server/src/model/message.rs, tool.rs, projection.rs, inference.rs, run/history.rs). Texts are
  byte strings holding valid UTF-8; where the source walks over characters, a character is a byte that
  is not a continuation byte, with the continuation bytes that follow it.
\<close>

section \<open>Values and messages\<close>

text \<open>serde_json's Value; a number keeps its text.\<close>

datatype json = JNull | JBool bool | JNum string | JStr string | JArr "json list" | JObj "(string \<times> json) list"

datatype role = RSystem | RUser | RAssistant | RTool
datatype origin = OPrompt | OUser | ORuntime | OAssistant | OTool

record tool_call_content =
  tc_index :: nat
  tc_call_id :: string
  tc_name :: string
  tc_arguments :: json

record tool_image_reference =
  img_blob_id :: string
  img_mime_type :: string
  img_path :: string

datatype content_part = PText string | PImage string "8 word list"

record tool_result_content =
  tr_call_id :: string
  tr_name :: string
  tr_content :: string
  tr_is_error :: bool
  tr_image :: "tool_image_reference option"
  tr_provider_parts :: "content_part list"

record provider_replay_state =
  rp_provider_kind :: string
  rp_value :: json

datatype message_content =
    Parts "content_part list"
  | Assistant (asst_text: string) (asst_thinking: string) (asst_round: "string option")
      (asst_replay: "provider_replay_state option") (asst_calls: "tool_call_content list")
  | ToolResult tool_result_content

record message =
  message_id :: string
  msg_role :: role
  msg_origin :: origin
  msg_content :: message_content
  runtime_event_id :: "string option"

definition text_message :: "string \<Rightarrow> role \<Rightarrow> origin \<Rightarrow> string \<Rightarrow> message" where
  "text_message mid r org t =
     \<lparr>message_id = mid, msg_role = r, msg_origin = org, msg_content = Parts [PText t],
      runtime_event_id = None\<rparr>"

definition parts_message :: "string \<Rightarrow> role \<Rightarrow> origin \<Rightarrow> content_part list \<Rightarrow> message" where
  "parts_message mid r org ps =
     \<lparr>message_id = mid, msg_role = r, msg_origin = org, msg_content = Parts ps, runtime_event_id = None\<rparr>"

definition runtime_message :: "string \<Rightarrow> string \<Rightarrow> message" where
  "runtime_message event_id t =
     \<lparr>message_id = ''runtime:'' @ event_id, msg_role = RUser, msg_origin = ORuntime,
      msg_content = Parts [PText t], runtime_event_id = Some event_id\<rparr>"

record tool_call =
  call_index :: nat
  call_id :: string
  model_call_id :: string
  call_name :: string
  arguments_text :: string
  call_arguments :: json
  argument_error :: "string option"

record tool_result =
  result_call_id :: string
  result_content :: string
  result_is_error :: bool
  result_image :: "tool_image_reference option"

record tool_round_assistant =
  ra_text :: string
  ra_thinking :: string
  ra_model_call_id :: string
  ra_replay_state :: "provider_replay_state option"


section \<open>Identities and prepared runs (model/checkpoint.rs, conversation.rs, run.rs)\<close>

text \<open>A checkpoint id is a database row id with the order of the integers.\<close>

datatype checkpoint_id = CheckpointId (checkpoint_int: int)

instantiation checkpoint_id :: linorder
begin

definition less_eq_checkpoint_id :: "checkpoint_id \<Rightarrow> checkpoint_id \<Rightarrow> bool" where
  "less_eq_checkpoint_id a b = (checkpoint_int a \<le> checkpoint_int b)"

definition less_checkpoint_id :: "checkpoint_id \<Rightarrow> checkpoint_id \<Rightarrow> bool" where
  "less_checkpoint_id a b = (checkpoint_int a < checkpoint_int b)"

instance
  by standard (auto simp: less_eq_checkpoint_id_def less_checkpoint_id_def checkpoint_id.expand)

end

datatype subagent_kind = GeneralPurpose | Named string

datatype run_kind =
    RootRun
  | SubagentRun (parent_run: "string option") (parent_call: "string option") (sub_kind: subagent_kind)

record recovered_tool_round =
  rec_assistant :: tool_round_assistant
  rec_calls :: "tool_call list"
  rec_started_at_ms :: nat

datatype run_action =
    StartAction
  | CompactAction
  | ResumeAction "recovered_tool_round option"
  | BackgroundCompletionAction

text \<open>A prepared run, without the prompt it sends.\<close>

record reasoning_spec =
  rs_enabled :: "bool option"
  rs_effort :: "string option"
  rs_thinking_budget :: "nat option"

record model_spec =
  ms_model_id :: string
  ms_display_name :: "string option"
  ms_reasoning :: reasoning_spec
  ms_max_output_tokens :: "nat option"
  ms_context_window_tokens :: "nat option"

record prepared_run =
  pr_run_id :: string
  pr_cursor_request_id :: "string option"
  pr_conversation_id :: string
  pr_kind :: run_kind
  pr_model :: model_spec
  pr_initial_messages :: "message list"
  pr_action :: run_action
  pr_base_checkpoint :: checkpoint_id


section \<open>Characters of a byte string\<close>

definition is_continuation :: "char \<Rightarrow> bool" where
  "is_continuation c = (128 \<le> (of_char c :: nat) \<and> (of_char c :: nat) < 192)"

definition ascii_alphanumeric :: "char \<Rightarrow> bool" where
  "ascii_alphanumeric c =
     (let n = (of_char c :: nat) in (48 \<le> n \<and> n \<le> 57) \<or> (65 \<le> n \<and> n \<le> 90) \<or> (97 \<le> n \<and> n \<le> 122))"

definition name_char :: "char \<Rightarrow> bool" where
  "name_char c = (ascii_alphanumeric c \<or> c = CHR ''_'' \<or> c = CHR ''-'')"

definition normalize_tool_name :: "string \<Rightarrow> string" where
  "normalize_tool_name name =
     (let normalized = map (\<lambda>c. if name_char c then c else CHR ''_'')
                           (filter (\<lambda>c. \<not> is_continuation c) name)
      in if normalized = [] then ''_'' else normalized)"

text \<open>The prefix of the first n characters; the continuation bytes of the last one are kept.\<close>

fun take_chars :: "nat \<Rightarrow> string \<Rightarrow> string" where
  "take_chars n [] = []"
| "take_chars n (c # cs) =
     (if is_continuation c then c # take_chars n cs
      else case n of 0 \<Rightarrow> [] | Suc m \<Rightarrow> c # take_chars m cs)"

definition char_count :: "string \<Rightarrow> nat" where
  "char_count s = length (filter (\<lambda>c. \<not> is_continuation c) s)"

lemma name_char_facts: "name_char c \<Longrightarrow> \<not> is_continuation c"
  by (auto simp: name_char_def ascii_alphanumeric_def is_continuation_def Let_def)

lemma normalize_tool_name_chars: "list_all name_char (normalize_tool_name s) \<and> normalize_tool_name s \<noteq> []"
  by (auto simp: normalize_tool_name_def Let_def list_all_iff name_char_def)

lemma normalize_tool_name_id: "list_all name_char s \<Longrightarrow> s \<noteq> [] \<Longrightarrow> normalize_tool_name s = s"
proof -
  assume a: "list_all name_char s" "s \<noteq> []"
  then have "filter (\<lambda>c. \<not> is_continuation c) s = s"
    by (auto simp: list_all_iff name_char_facts intro!: filter_True)
  moreover have "map (\<lambda>c. if name_char c then c else CHR ''_'') s = s"
    using a(1) by (auto simp: list_all_iff intro: map_idI)
  ultimately show ?thesis using a(2) by (simp add: normalize_tool_name_def)
qed

lemma take_chars_prefix: "prefix (take_chars n s) s"
  by (induction n s rule: take_chars.induct) (auto split: nat.splits)

lemma take_chars_count: "char_count (take_chars n s) = min n (char_count s)"
  by (induction n s rule: take_chars.induct) (auto simp: char_count_def split: nat.splits)


section \<open>Projection (model/projection.rs)\<close>

datatype projected_content =
    ProjParts "content_part list"
  | ProjAssistant (pa_text: string) (pa_thinking: string)
      (pa_replay: "provider_replay_state option") (pa_calls: "tool_call_content list")
  | ProjToolResult tool_result_content

record projected =
  pm_id :: string
  pm_role :: role
  pm_content :: projected_content

definition normalized_tool_call :: "tool_call_content \<Rightarrow> tool_call_content" where
  "normalized_tool_call c = c\<lparr>tc_name := normalize_tool_name (tc_name c)\<rparr>"

definition normalized_tool_result :: "tool_result_content \<Rightarrow> tool_result_content" where
  "normalized_tool_result r = r\<lparr>tr_name := normalize_tool_name (tr_name r)\<rparr>"

definition project_message :: "message \<Rightarrow> projected" where
  "project_message m =
     \<lparr>pm_id = message_id m, pm_role = msg_role m,
      pm_content =
        (case msg_content m of
           Parts ps \<Rightarrow> ProjParts ps
         | Assistant t th _ rp cs \<Rightarrow> ProjAssistant t th rp (map normalized_tool_call cs)
         | ToolResult r \<Rightarrow> ProjToolResult (normalized_tool_result r))\<rparr>"

text \<open>
  What the loop over a tool round has collected: text, thinking, replay state, calls, results with
  their message ids.
\<close>

record round_acc =
  acc_text :: string
  acc_thinking :: string
  acc_replay :: "provider_replay_state option"
  acc_calls :: "tool_call_content list"
  acc_results :: "(string \<times> tool_result_content) list"

definition round_acc_empty :: round_acc where
  "round_acc_empty =
     \<lparr>acc_text = [], acc_thinking = [], acc_replay = None, acc_calls = [], acc_results = []\<rparr>"

definition result_ids :: "round_acc \<Rightarrow> string list" where
  "result_ids a = map (\<lambda>e. tr_call_id (snd e)) (acc_results a)"

definition duplicate_result_error :: "string \<Rightarrow> error" where
  "duplicate_result_error c = Protocol (''duplicate tool result call_id: '' @ c)"

definition missing_result_error :: "string \<Rightarrow> error" where
  "missing_result_error c = Protocol (''assistant tool call has no result call_id: '' @ c)"

definition repeated_replay_error :: error where
  "repeated_replay_error = Protocol ''tool round repeats provider replay state''"

text \<open>The inner loop: results of calls already seen, until something else comes.\<close>

fun take_results :: "message list \<Rightarrow> round_acc \<Rightarrow> (round_acc \<times> message list) result" where
  "take_results [] a = Inr (a, [])"
| "take_results (m # ms) a =
     (case msg_content m of
        ToolResult r \<Rightarrow>
          (if \<not> list_ex (\<lambda>c. tc_call_id c = tr_call_id r) (acc_calls a) then Inr (a, m # ms)
           else if tr_call_id r \<in> set (result_ids a) then Inl (duplicate_result_error (tr_call_id r))
           else take_results ms (a\<lparr>acc_results := acc_results a @ [(message_id m, r)]\<rparr>))
      | _ \<Rightarrow> Inr (a, m # ms))"

lemma take_results_length: "take_results ms a = Inr (a', rest) \<Longrightarrow> length rest \<le> length ms"
  by (induction ms a rule: take_results.induct)
     (auto split: message_content.splits if_splits)

text \<open>The outer loop: the assistant parts of one round, each followed by its results.\<close>

function round_loop :: "string \<Rightarrow> message list \<Rightarrow> round_acc \<Rightarrow> (round_acc \<times> message list) result" where
  "round_loop gid [] a = Inr (a, [])"
| "round_loop gid (m # ms) a =
     (case msg_content m of
        Assistant t th (Some g) rp cs \<Rightarrow>
          (if g \<noteq> gid \<or> cs = [] then Inr (a, m # ms)
           else if acc_replay a \<noteq> None \<and> rp \<noteq> None then Inl repeated_replay_error
           else
             (case take_results ms
                 (a\<lparr>acc_text := acc_text a @ t, acc_thinking := acc_thinking a @ th,
                   acc_replay := (if acc_replay a = None then rp else acc_replay a),
                   acc_calls := acc_calls a @ map normalized_tool_call cs\<rparr>) of
                Inl e \<Rightarrow> Inl e
              | Inr (a', rest) \<Rightarrow> round_loop gid rest a'))
      | _ \<Rightarrow> Inr (a, m # ms))"
  by pat_completeness auto
termination
  by (relation "measure (\<lambda>(g, ms, a). length ms)") (auto dest: take_results_length)

definition project_tool_round :: "message list \<Rightarrow> (projected list \<times> message list) option result" where
  "project_tool_round ms =
     (case ms of
        [] \<Rightarrow> Inr None
      | m # _ \<Rightarrow>
        (case msg_content m of
           Assistant _ _ (Some gid) _ cs \<Rightarrow>
             (if cs = [] then Inr None
              else
                (case round_loop gid ms round_acc_empty of
                   Inl e \<Rightarrow> Inl e
                 | Inr (a, rest) \<Rightarrow>
                     (let calls = sort_key tc_index (acc_calls a)
                      in case filter (\<lambda>c. tc_call_id c \<notin> set (result_ids a)) calls of
                           c # _ \<Rightarrow> Inl (missing_result_error (tc_call_id c))
                         | [] \<Rightarrow>
                             Inr (Some
                               (\<lparr>pm_id = message_id m, pm_role = RAssistant,
                                 pm_content = ProjAssistant (acc_text a) (acc_thinking a) (acc_replay a) calls\<rparr>
                                # map (\<lambda>(mid, r). \<lparr>pm_id = mid, pm_role = RTool,
                                         pm_content = ProjToolResult (normalized_tool_result r)\<rparr>)
                                      (acc_results a), rest)))))
         | _ \<Rightarrow> Inr None))"

lemma round_loop_length: "round_loop gid ms a = Inr (a', rest) \<Longrightarrow> length rest \<le> length ms"
proof (induction gid ms a arbitrary: a' rest rule: round_loop.induct)
  case (2 gid m ms a)
  then show ?case
    by (auto split: message_content.splits option.splits if_splits sum.splits prod.splits
        dest!: take_results_length) (meson le_SucI le_trans)+
qed simp

lemma project_tool_round_progress:
  "project_tool_round ms = Inr (Some (grp, rest)) \<Longrightarrow> length rest < length ms"
proof -
  assume a: "project_tool_round ms = Inr (Some (grp, rest))"
  then obtain m ms' t th gid rp cs where m: "ms = m # ms'" "msg_content m = Assistant t th (Some gid) rp cs" "cs \<noteq> []"
    by (auto simp: project_tool_round_def split: list.splits message_content.splits option.splits if_splits)
  then obtain acc where "round_loop gid ms round_acc_empty = Inr (acc, rest)"
    using a by (auto simp: project_tool_round_def Let_def split: sum.splits prod.splits list.splits)
  then show "length rest < length ms"
    using m by (auto simp: round_acc_empty_def split: sum.splits prod.splits
        dest!: take_results_length round_loop_length)
qed

function project_messages :: "message list \<Rightarrow> projected list result" where
  "project_messages [] = Inr []"
| "project_messages (m # ms) =
     (case project_tool_round (m # ms) of
        Inl e \<Rightarrow> Inl e
      | Inr (Some (grp, rest)) \<Rightarrow> rbind (project_messages rest) (\<lambda>ps. Inr (grp @ ps))
      | Inr None \<Rightarrow> rbind (project_messages ms) (\<lambda>ps. Inr (project_message m # ps)))"
  by pat_completeness auto
termination
  by (relation "measure length") (auto dest: project_tool_round_progress)


section \<open>What the projection keeps\<close>

text \<open>The streams of a message list: assistant text, thinking, calls, tool results, prompt parts.\<close>

fun m_text :: "message_content \<Rightarrow> string" where
  "m_text (Assistant t _ _ _ _) = t" | "m_text _ = []"

fun m_thinking :: "message_content \<Rightarrow> string" where
  "m_thinking (Assistant _ th _ _ _) = th" | "m_thinking _ = []"

fun m_calls :: "message_content \<Rightarrow> tool_call_content list" where
  "m_calls (Assistant _ _ _ _ cs) = map normalized_tool_call cs" | "m_calls _ = []"

fun m_result :: "message_content \<Rightarrow> tool_result_content list" where
  "m_result (ToolResult r) = [normalized_tool_result r]" | "m_result _ = []"

fun m_parts :: "message_content \<Rightarrow> content_part list" where
  "m_parts (Parts ps) = ps" | "m_parts _ = []"

fun p_text :: "projected_content \<Rightarrow> string" where
  "p_text (ProjAssistant t _ _ _) = t" | "p_text _ = []"

fun p_thinking :: "projected_content \<Rightarrow> string" where
  "p_thinking (ProjAssistant _ th _ _) = th" | "p_thinking _ = []"

fun p_calls :: "projected_content \<Rightarrow> tool_call_content list" where
  "p_calls (ProjAssistant _ _ _ cs) = cs" | "p_calls _ = []"

fun p_result :: "projected_content \<Rightarrow> tool_result_content list" where
  "p_result (ProjToolResult r) = [r]" | "p_result _ = []"

fun p_parts :: "projected_content \<Rightarrow> content_part list" where
  "p_parts (ProjParts ps) = ps" | "p_parts _ = []"

definition stream :: "('c \<Rightarrow> 'x list) \<Rightarrow> ('m \<Rightarrow> 'c) \<Rightarrow> 'm list \<Rightarrow> 'x list" where
  "stream f g ms = concat (map (\<lambda>m. f (g m)) ms)"

lemma stream_simps [simp]:
  "stream f g [] = []" "stream f g (m # ms) = f (g m) @ stream f g ms"
  "stream f g (xs @ ys) = stream f g xs @ stream f g ys"
  by (simp_all add: stream_def)

definition results_of :: "round_acc \<Rightarrow> tool_result_content list" where
  "results_of a = map (\<lambda>e. normalized_tool_result (snd e)) (acc_results a)"

definition acc_ok :: "round_acc \<Rightarrow> bool" where
  "acc_ok a \<longleftrightarrow> distinct (result_ids a) \<and> set (result_ids a) \<subseteq> tc_call_id ` set (acc_calls a)"

lemma take_results_spec:
  assumes "take_results ms a = Inr (a', rest)"
  shows "\<exists>taken. ms = taken @ rest \<and> stream m_text msg_content taken = []
    \<and> stream m_thinking msg_content taken = [] \<and> stream m_calls msg_content taken = []
    \<and> stream m_parts msg_content taken = []
    \<and> results_of a' = results_of a @ stream m_result msg_content taken
    \<and> a' = a\<lparr>acc_results := acc_results a'\<rparr> \<and> (acc_ok a \<longrightarrow> acc_ok a')"
  using assms
proof (induction ms a arbitrary: a' rest rule: take_results.induct)
  case (2 m ms a)
  show ?case
  proof (cases "\<exists>r. msg_content m = ToolResult r \<and> list_ex (\<lambda>c. tc_call_id c = tr_call_id r) (acc_calls a)")
    case True
    then obtain r where r: "msg_content m = ToolResult r"
      "list_ex (\<lambda>c. tc_call_id c = tr_call_id r) (acc_calls a)" by blast
    let ?a = "a\<lparr>acc_results := acc_results a @ [(message_id m, r)]\<rparr>"
    have fresh: "tr_call_id r \<notin> set (result_ids a)" and rec: "take_results ms ?a = Inr (a', rest)"
      using 2(2) r by (auto split: if_splits)
    obtain taken where t: "ms = taken @ rest" "stream m_text msg_content taken = []"
        "stream m_thinking msg_content taken = []" "stream m_calls msg_content taken = []"
        "stream m_parts msg_content taken = []"
        "results_of a' = results_of ?a @ stream m_result msg_content taken"
        "a' = ?a\<lparr>acc_results := acc_results a'\<rparr>" "acc_ok ?a \<longrightarrow> acc_ok a'"
      using 2(1)[OF r(1) _ fresh rec] r(2) by blast
    have "acc_ok a \<Longrightarrow> acc_ok ?a"
      using r(2) fresh by (auto simp: acc_ok_def result_ids_def list_ex_iff image_iff) metis
    then show ?thesis
      using t r by (intro exI[of _ "m # taken"]) (auto simp: results_of_def)
  next
    case False
    then have "a' = a" "rest = m # ms"
      using 2(2) by (auto split: message_content.splits if_splits)
    then show ?thesis by (intro exI[of _ "[]"]) simp
  qed
qed (auto intro: exI[of _ "[]"])

lemma round_loop_spec:
  assumes "round_loop gid ms a = Inr (a', rest)"
  shows "\<exists>taken. ms = taken @ rest
    \<and> acc_text a' = acc_text a @ stream m_text msg_content taken
    \<and> acc_thinking a' = acc_thinking a @ stream m_thinking msg_content taken
    \<and> acc_calls a' = acc_calls a @ stream m_calls msg_content taken
    \<and> results_of a' = results_of a @ stream m_result msg_content taken
    \<and> stream m_parts msg_content taken = [] \<and> (acc_ok a \<longrightarrow> acc_ok a')"
  using assms
proof (induction gid ms a arbitrary: a' rest rule: round_loop.induct)
  case (2 gid m ms a)
  show ?case
  proof (cases "\<exists>t th rp cs. msg_content m = Assistant t th (Some gid) rp cs \<and> cs \<noteq> []")
    case True
    then obtain t th rp cs where m: "msg_content m = Assistant t th (Some gid) rp cs" "cs \<noteq> []"
      by blast
    let ?a = "a\<lparr>acc_text := acc_text a @ t, acc_thinking := acc_thinking a @ th,
                acc_replay := (if acc_replay a = None then rp else acc_replay a),
                acc_calls := acc_calls a @ map normalized_tool_call cs\<rparr>"
    have nr: "\<not> (acc_replay a \<noteq> None \<and> rp \<noteq> None)"
      using 2(2) m by (auto split: if_splits)
    obtain a1 mid where tk: "take_results ms ?a = Inr (a1, mid)"
      and rec: "round_loop gid mid a1 = Inr (a', rest)"
      using 2(2) m nr by (auto split: sum.splits if_splits)
    obtain t1 where t1: "ms = t1 @ mid" "stream m_text msg_content t1 = []"
        "stream m_thinking msg_content t1 = []" "stream m_calls msg_content t1 = []"
        "stream m_parts msg_content t1 = []"
        "results_of a1 = results_of ?a @ stream m_result msg_content t1"
        "a1 = ?a\<lparr>acc_results := acc_results a1\<rparr>" "acc_ok ?a \<longrightarrow> acc_ok a1"
      using take_results_spec[OF tk] by blast
    have fields: "acc_text a1 = acc_text a @ t" "acc_thinking a1 = acc_thinking a @ th"
        "acc_calls a1 = acc_calls a @ map normalized_tool_call cs"
      by (subst t1(7), simp)+
    have IH: "\<exists>taken. mid = taken @ rest
      \<and> acc_text a' = acc_text a1 @ stream m_text msg_content taken
      \<and> acc_thinking a' = acc_thinking a1 @ stream m_thinking msg_content taken
      \<and> acc_calls a' = acc_calls a1 @ stream m_calls msg_content taken
      \<and> results_of a' = results_of a1 @ stream m_result msg_content taken
      \<and> stream m_parts msg_content taken = [] \<and> (acc_ok a1 \<longrightarrow> acc_ok a')"
      using 2(1)[OF m(1) refl _ _ tk _ rec] m(2) nr by auto
    then obtain t2 where t2: "mid = t2 @ rest"
      "acc_text a' = acc_text a1 @ stream m_text msg_content t2"
      "acc_thinking a' = acc_thinking a1 @ stream m_thinking msg_content t2"
      "acc_calls a' = acc_calls a1 @ stream m_calls msg_content t2"
      "results_of a' = results_of a1 @ stream m_result msg_content t2"
      "stream m_parts msg_content t2 = []" "acc_ok a1 \<longrightarrow> acc_ok a'" by blast
    have "acc_ok a \<Longrightarrow> acc_ok ?a" by (auto simp: acc_ok_def result_ids_def)
    moreover have "results_of ?a = results_of a" by (simp add: results_of_def)
    ultimately show ?thesis
      using t1 t2 m fields by (intro exI[of _ "m # t1 @ t2"]) simp
  next
    case False
    then have "a' = a" "rest = m # ms"
      using 2(2) by (auto split: message_content.splits option.splits if_splits)
    then show ?thesis by (intro exI[of _ "[]"]) simp
  qed
qed (auto intro: exI[of _ "[]"])


lemma project_tool_round_spec:
  assumes "project_tool_round ms = Inr (Some (grp, rest))"
  obtains taken and m :: message and t th rp cs rs where "ms = taken @ rest"
    "grp = \<lparr>pm_id = message_id m, pm_role = RAssistant, pm_content = ProjAssistant t th rp cs\<rparr> # rs"
    "t = stream m_text msg_content taken" "th = stream m_thinking msg_content taken"
    "sorted (map tc_index cs)" "mset cs = mset (stream m_calls msg_content taken)"
    "stream p_result pm_content rs = stream m_result msg_content taken"
    "\<forall>p\<in>set rs. \<exists>r. pm_content p = ProjToolResult r \<and> pm_role p = RTool"
    "stream m_parts msg_content taken = []"
    "distinct (map tr_call_id (stream p_result pm_content rs))"
    "set (map tr_call_id (stream p_result pm_content rs)) = tc_call_id ` set cs"
proof -
  obtain m ms' gid where m: "ms = m # ms'" "\<exists>t th rp cs. msg_content m = Assistant t th (Some gid) rp cs \<and> cs \<noteq> []"
    using assms
    by (auto simp: project_tool_round_def split: list.splits message_content.splits option.splits if_splits)
  then obtain a where loop: "round_loop gid ms round_acc_empty = Inr (a, rest)"
    and calls: "filter (\<lambda>c. tc_call_id c \<notin> set (result_ids a)) (sort_key tc_index (acc_calls a)) = []"
    and grp: "grp = \<lparr>pm_id = message_id m, pm_role = RAssistant,
        pm_content = ProjAssistant (acc_text a) (acc_thinking a) (acc_replay a) (sort_key tc_index (acc_calls a))\<rparr>
      # map (\<lambda>(mid, r). \<lparr>pm_id = mid, pm_role = RTool,
                          pm_content = ProjToolResult (normalized_tool_result r)\<rparr>) (acc_results a)"
    using assms by (auto simp: project_tool_round_def Let_def split: sum.splits prod.splits list.splits)
  obtain taken where t: "ms = taken @ rest"
      "acc_text a = stream m_text msg_content taken" "acc_thinking a = stream m_thinking msg_content taken"
      "acc_calls a = stream m_calls msg_content taken"
      "results_of a = stream m_result msg_content taken" "stream m_parts msg_content taken = []"
      "acc_ok a"
    using round_loop_spec[OF loop]
    by (auto simp: round_acc_empty_def results_of_def acc_ok_def result_ids_def)
  let ?rs = "map (\<lambda>(mid, r). \<lparr>pm_id = mid, pm_role = RTool,
                   pm_content = ProjToolResult (normalized_tool_result r)\<rparr>) (acc_results a)"
  have rs: "stream p_result pm_content ?rs = results_of a"
    unfolding results_of_def by (induction "acc_results a" rule: rev_induct) (auto simp: stream_def comp_def case_prod_unfold)
  have ids: "map tr_call_id (results_of a) = result_ids a"
    by (simp add: results_of_def result_ids_def normalized_tool_result_def)
  have "set (result_ids a) = tc_call_id ` set (acc_calls a)"
    using calls t(7) by (auto simp: acc_ok_def filter_empty_conv)
  then have set_ids: "set (map tr_call_id (stream p_result pm_content ?rs))
      = tc_call_id ` set (sort_key tc_index (acc_calls a))"
    unfolding rs ids by simp
  have dist: "distinct (map tr_call_id (stream p_result pm_content ?rs))"
    unfolding rs ids using t(7) by (simp add: acc_ok_def)
  have tools: "\<forall>p\<in>set ?rs. \<exists>r. pm_content p = ProjToolResult r \<and> pm_role p = RTool" by auto
  have mc: "mset (sort_key tc_index (acc_calls a)) = mset (stream m_calls msg_content taken)"
    using t(4) by simp
  show thesis
  proof (rule that)
    show "ms = taken @ rest" by (rule t(1))
    show "grp = \<lparr>pm_id = message_id m, pm_role = RAssistant,
        pm_content = ProjAssistant (acc_text a) (acc_thinking a) (acc_replay a) (sort_key tc_index (acc_calls a))\<rparr>
      # ?rs" by (rule grp)
    show "stream p_result pm_content ?rs = stream m_result msg_content taken"
      using rs t(5) by (rule trans)
  qed (fact t(2) t(3) t(6) mc tools dist set_ids | simp)+
qed

lemma project_message_streams:
  "stream m_text msg_content [m] = p_text (pm_content (project_message m))"
  "stream m_thinking msg_content [m] = p_thinking (pm_content (project_message m))"
  "stream m_calls msg_content [m] = p_calls (pm_content (project_message m))"
  "stream m_result msg_content [m] = p_result (pm_content (project_message m))"
  "stream m_parts msg_content [m] = p_parts (pm_content (project_message m))"
  by (cases "msg_content m"; simp add: project_message_def)+

lemma tool_results_streams:
  assumes "\<forall>p\<in>set rs. \<exists>r. pm_content p = ProjToolResult r \<and> pm_role p = RTool"
  shows "stream p_text pm_content rs = []" "stream p_thinking pm_content rs = []"
    "stream p_calls pm_content rs = []" "stream p_parts pm_content rs = []"
  using assms by (induction rs) auto


section \<open>Requests (model/inference.rs, run/history.rs)\<close>

definition provider_tool_call_id_max_chars :: nat where "provider_tool_call_id_max_chars = 64"

definition truncate_tool_call_id :: "string \<Rightarrow> string" where
  "truncate_tool_call_id s = take_chars provider_tool_call_id_max_chars s"

definition normalize_content_ids :: "projected_content \<Rightarrow> projected_content" where
  "normalize_content_ids c =
     (case c of
        ProjAssistant t th rp cs \<Rightarrow>
          ProjAssistant t th rp (map (\<lambda>k. k\<lparr>tc_call_id := truncate_tool_call_id (tc_call_id k)\<rparr>) cs)
      | ProjToolResult r \<Rightarrow> ProjToolResult (r\<lparr>tr_call_id := truncate_tool_call_id (tr_call_id r)\<rparr>)
      | ProjParts ps \<Rightarrow> ProjParts ps)"

definition normalize_provider_tool_call_ids :: "projected list \<Rightarrow> projected list" where
  "normalize_provider_tool_call_ids history =
     map (\<lambda>m. m\<lparr>pm_content := normalize_content_ids (pm_content m)\<rparr>) history"

definition continue_tail_message_id :: string where
  "continue_tail_message_id = ''runtime:continue''"

definition compaction_tail_message_id :: string where
  "compaction_tail_message_id = ''compaction:instruction''"

definition persisted_message_count :: "projected list \<Rightarrow> nat" where
  "persisted_message_count history =
     (let transient = history \<noteq> []
          \<and> pm_id (last history) \<in> {continue_tail_message_id, compaction_tail_message_id}
      in length history - (if transient then 1 else 0))"

definition user_terminated :: "projected list \<Rightarrow> string \<Rightarrow> string \<Rightarrow> projected list" where
  "user_terminated history mid t =
     (if history = [] \<or> pm_role (last history) \<noteq> RAssistant then history
      else history @ [\<lparr>pm_id = mid, pm_role = RUser, pm_content = ProjParts [PText t]\<rparr>])"


section \<open>Properties\<close>

text \<open>
  C35: a tool round is projected into a request every provider accepts: one assistant message with the
  round's calls in index order and all its text and thinking, then exactly one result for each call,
  no result without a call and no call without a result; the messages taken are a non-empty prefix.
\<close>
theorem projected_round_is_paired:
  assumes "project_tool_round ms = Inr (Some (grp, rest))"
  shows "\<exists>taken. ms = taken @ rest \<and> taken \<noteq> []
    \<and> pm_role (hd grp) = RAssistant
    \<and> p_text (pm_content (hd grp)) = stream m_text msg_content taken
    \<and> sorted (map tc_index (p_calls (pm_content (hd grp))))
    \<and> mset (p_calls (pm_content (hd grp))) = mset (stream m_calls msg_content taken)
    \<and> distinct (map tr_call_id (stream p_result pm_content (tl grp)))
    \<and> set (map tr_call_id (stream p_result pm_content (tl grp))) = tc_call_id ` set (p_calls (pm_content (hd grp)))"
proof -
  obtain taken and m :: message and t th rp cs rs where
    t: "ms = taken @ rest"
      "grp = \<lparr>pm_id = message_id m, pm_role = RAssistant, pm_content = ProjAssistant t th rp cs\<rparr> # rs"
      "t = stream m_text msg_content taken" "sorted (map tc_index cs)"
      "mset cs = mset (stream m_calls msg_content taken)"
      "distinct (map tr_call_id (stream p_result pm_content rs))"
      "set (map tr_call_id (stream p_result pm_content rs)) = tc_call_id ` set cs"
    by (rule project_tool_round_spec[OF assms]) (rule that)
  have "taken \<noteq> []" using project_tool_round_progress[OF assms] t(1) by auto
  then show ?thesis using t by auto
qed

text \<open>
  Projecting a history loses and reorders nothing: the assistant text, the thinking, the tool
  results and the prompt parts of the projection are those of the messages, in the same order, and the
  calls are the same calls.
\<close>
theorem projection_keeps_streams:
  assumes "project_messages ms = Inr ps"
  shows "stream p_text pm_content ps = stream m_text msg_content ms
    \<and> stream p_thinking pm_content ps = stream m_thinking msg_content ms
    \<and> stream p_result pm_content ps = stream m_result msg_content ms
    \<and> stream p_parts pm_content ps = stream m_parts msg_content ms
    \<and> mset (stream p_calls pm_content ps) = mset (stream m_calls msg_content ms)"
  using assms
proof (induction ms arbitrary: ps rule: project_messages.induct)
  case (2 m ms)
  show ?case
  proof (cases "project_tool_round (m # ms)")
    case (Inr r)
    show ?thesis
    proof (cases r)
      case None
      then obtain ps' where "project_messages ms = Inr ps'" "ps = project_message m # ps'"
        using 2(3) Inr by auto
      then show ?thesis using 2(1)[OF Inr None] project_message_streams[of m] by simp
    next
      case (Some g)
      then obtain grp rest ps' where g: "g = (grp, rest)" "project_messages rest = Inr ps'" "ps = grp @ ps'"
        using 2(3) Inr by (auto split: prod.splits)
      note IH = 2(2)[OF Inr Some g(1)[symmetric] g(2)]
      obtain taken and m' :: message and t th rp cs rs where
        t: "m # ms = taken @ rest"
          "grp = \<lparr>pm_id = message_id m', pm_role = RAssistant, pm_content = ProjAssistant t th rp cs\<rparr> # rs"
          "t = stream m_text msg_content taken" "th = stream m_thinking msg_content taken"
          "mset cs = mset (stream m_calls msg_content taken)"
          "stream p_result pm_content rs = stream m_result msg_content taken"
          "\<forall>p\<in>set rs. \<exists>r. pm_content p = ProjToolResult r \<and> pm_role p = RTool"
          "stream m_parts msg_content taken = []"
        by (rule project_tool_round_spec[of "m # ms" grp rest]) (use Inr Some g(1) in simp, rule that)
      show ?thesis unfolding t(1) using IH t(2-8) g(3) tool_results_streams[OF t(7)] by simp
    qed
  qed (use 2(3) in simp)
qed simp

text \<open>
  Shortening the tool call ids for a provider keeps calls and results matched, changes nothing
  else, and leaves every id at most 64 characters long.
\<close>
theorem normalized_ids_stay_matched:
  assumes "pm_content a = ProjAssistant t th rp cs" "pm_content b = ProjToolResult r"
    and "c \<in> set cs" "tr_call_id r = tc_call_id c" "a \<in> set h" "b \<in> set h"
  shows "\<exists>a' b' cs' r' c'. a' \<in> set (normalize_provider_tool_call_ids h)
    \<and> b' \<in> set (normalize_provider_tool_call_ids h)
    \<and> pm_content a' = ProjAssistant t th rp cs' \<and> pm_content b' = ProjToolResult r'
    \<and> c' \<in> set cs' \<and> tr_call_id r' = tc_call_id c'
    \<and> prefix (tc_call_id c') (tc_call_id c) \<and> char_count (tc_call_id c') = min 64 (char_count (tc_call_id c))
    \<and> tc_arguments c' = tc_arguments c \<and> tr_content r' = tr_content r"
proof -
  let ?n = "\<lambda>m. m\<lparr>pm_content := normalize_content_ids (pm_content m)\<rparr>"
  let ?k = "\<lambda>k. k\<lparr>tc_call_id := truncate_tool_call_id (tc_call_id k)\<rparr>"
  have "?n a \<in> set (normalize_provider_tool_call_ids h)" "?n b \<in> set (normalize_provider_tool_call_ids h)"
    using assms(5,6) by (auto simp: normalize_provider_tool_call_ids_def)
  moreover have "?k c \<in> set (map ?k cs)" using assms(3) by auto
  ultimately show ?thesis
    using assms(1,2,4) take_chars_prefix take_chars_count
    by (intro exI[of _ "?n a"] exI[of _ "?n b"] exI[of _ "map ?k cs"]
        exI[of _ "r\<lparr>tr_call_id := truncate_tool_call_id (tr_call_id r)\<rparr>"] exI[of _ "?k c"])
       (simp add: normalize_content_ids_def truncate_tool_call_id_def provider_tool_call_id_max_chars_def)
qed

text \<open>
  A request never ends with an assistant message, and the message added for that is not counted
  as history: what the observability anchor counts is exactly the messages that are stored.
\<close>
theorem user_terminated_counts_stored:
  assumes "\<forall>m\<in>set history. pm_id m \<notin> {continue_tail_message_id, compaction_tail_message_id}"
    and "mid \<in> {continue_tail_message_id, compaction_tail_message_id}"
  shows "persisted_message_count (user_terminated history mid t) = length history
    \<and> (history = [] \<or> pm_role (last (user_terminated history mid t)) \<noteq> RAssistant)
    \<and> take (length history) (user_terminated history mid t) = history"
  using assms by (auto simp: user_terminated_def persisted_message_count_def Let_def)

text \<open>A round of one call with its result, to apply the properties to.\<close>

definition demo_round :: "message list" where
  "demo_round =
     [\<lparr>message_id = ''a1'', msg_role = RAssistant, msg_origin = OAssistant,
       msg_content = Assistant ''hi'' [] (Some ''g'') None
         [\<lparr>tc_index = 0, tc_call_id = ''c'', tc_name = ''Read'', tc_arguments = JNull\<rparr>],
       runtime_event_id = None\<rparr>,
      \<lparr>message_id = ''t1'', msg_role = RTool, msg_origin = OTool,
       msg_content = ToolResult \<lparr>tr_call_id = ''c'', tr_name = ''Read'', tr_content = ''ok'',
         tr_is_error = False, tr_image = None, tr_provider_parts = []\<rparr>,
       runtime_event_id = None\<rparr>]"

lemma demo_round_projected: "\<exists>grp. project_tool_round demo_round = Inr (Some (grp, []))"
  by (simp add: project_tool_round_def demo_round_def round_acc_empty_def normalized_tool_call_def
      result_ids_def Let_def)

lemma projected_round_is_paired_witness:
  "\<exists>grp. project_tool_round demo_round = Inr (Some (grp, []))
     \<and> set (map tr_call_id (stream p_result pm_content (tl grp))) = tc_call_id ` set (p_calls (pm_content (hd grp)))"
proof -
  obtain grp where g: "project_tool_round demo_round = Inr (Some (grp, []))"
    using demo_round_projected by blast
  show ?thesis using projected_round_is_paired[OF g] g by blast
qed

lemma projection_keeps_streams_witness:
  "\<exists>ps. project_messages demo_round = Inr ps \<and> stream p_text pm_content ps = ''hi''"
proof -
  obtain grp where g: "project_tool_round demo_round = Inr (Some (grp, []))"
    using demo_round_projected by blast
  then have "project_messages demo_round = Inr grp"
    unfolding demo_round_def by simp
  then show ?thesis
    using projection_keeps_streams[of demo_round grp] by (simp add: demo_round_def)
qed

definition demo_call :: tool_call_content where
  "demo_call = \<lparr>tc_index = 0, tc_call_id = replicate 70 CHR ''c'', tc_name = ''Read'', tc_arguments = JNull\<rparr>"

definition demo_result :: tool_result_content where
  "demo_result = \<lparr>tr_call_id = replicate 70 CHR ''c'', tr_name = ''Read'', tr_content = ''ok'',
     tr_is_error = False, tr_image = None, tr_provider_parts = []\<rparr>"

lemma normalized_ids_stay_matched_witness:
  "let h = [\<lparr>pm_id = ''a'', pm_role = RAssistant, pm_content = ProjAssistant [] [] None [demo_call]\<rparr>,
            \<lparr>pm_id = ''t'', pm_role = RTool, pm_content = ProjToolResult demo_result\<rparr>]
   in \<exists>b' r'. b' \<in> set (normalize_provider_tool_call_ids h)
    \<and> pm_content b' = ProjToolResult r' \<and> tr_content r' = ''ok''"
proof -
  let ?a = "\<lparr>pm_id = ''a'', pm_role = RAssistant, pm_content = ProjAssistant [] [] None [demo_call]\<rparr>"
  let ?b = "\<lparr>pm_id = ''t'', pm_role = RTool, pm_content = ProjToolResult demo_result\<rparr>"
  have "tr_content demo_result = ''ok''" "tr_call_id demo_result = tc_call_id demo_call"
    by (simp_all add: demo_result_def demo_call_def)
  then show ?thesis
    using normalized_ids_stay_matched[of ?a "[]" "[]" None "[demo_call]" ?b demo_result demo_call "[?a, ?b]"]
    unfolding Let_def by (metis list.set_intros projected.select_convs(3))
qed

lemma user_terminated_counts_stored_witness:
  "persisted_message_count (user_terminated
     [\<lparr>pm_id = ''a'', pm_role = RAssistant, pm_content = ProjAssistant ''x'' [] None []\<rparr>]
     ''runtime:continue'' ''go on'') = 1"
  using user_terminated_counts_stored[of
      "[\<lparr>pm_id = ''a'', pm_role = RAssistant, pm_content = ProjAssistant ''x'' [] None []\<rparr>]"
      "''runtime:continue''" "''go on''"]
  by (simp add: continue_tail_message_id_def compaction_tail_message_id_def)

end
