(* ===== verification/RunHandle.thy ===== *)
theory RunHandle
  imports Model
begin

text \<open>
  The handle of an active run (src/server/src/run/handle.rs, command.rs), the outcomes and failures
  of a run (run/event.rs) and the retry policy of one model call (run/model_retry.rs). The command
  queue is an unbounded channel: a send succeeds while its receiver is alive. The phase lock makes the
  phase check and the send one step, so a submission is one function.
\<close>

section \<open>Outcomes (run/event.rs)\<close>

datatype run_failure =
    FProtocol string
  | FProvider string
  | FTruncated string
  | FStore string
  | FClient string

fun category :: "run_failure \<Rightarrow> string" where
  "category (FProtocol _) = ''protocol''"
| "category (FProvider _) = ''provider''"
| "category (FTruncated _) = ''provider''"
| "category (FStore _) = ''store''"
| "category (FClient _) = ''client''"

fun failure_of_error :: "error \<Rightarrow> run_failure" where
  "failure_of_error (Protocol m) = FProtocol m"
| "failure_of_error (Config m) = FProtocol m"
| "failure_of_error (Provider m) = FProvider m"
| "failure_of_error (Store m) = FStore m"
| "failure_of_error Cancelled = FClient ''run was cancelled''"
| "failure_of_error (Http m) = FProvider m"
| "failure_of_error (Database m) = FStore m"
| "failure_of_error (Migration m) = FStore m"
| "failure_of_error (MigrationTimeout stage n) =
     FStore (''database migration stage '' @ [CHR 0x27] @ stage @ [CHR 0x27] @ '' timed out after ''
             @ show_nat n @ '' seconds'')"
| "failure_of_error (Io m) = FStore m"
| "failure_of_error (Decode m) = FProtocol m"
| "failure_of_error (Encode m) = FProtocol m"
| "failure_of_error (Json m) = FProtocol m"
| "failure_of_error (RunNotFound r) = FStore (''run not found: '' @ r)"

datatype run_outcome = Completed | CancelledRun | Failed run_failure

text \<open>What a commit was made for.\<close>

datatype commit_cause =
    InitialMessages
  | ToolRoundStarted string
  | ToolResultCause string bool
  | FinalTurn
  | Compaction string string
  | RuntimeEventCause string

text \<open>A barrier is absent, or waits for the client; the outcome it was completed with, if any.\<close>

datatype commit_barrier = NoBarrier | BeforeContinue "(string + unit) option"

fun barrier_required :: "commit_barrier \<Rightarrow> bool" where
  "barrier_required NoBarrier = False"
| "barrier_required (BeforeContinue _) = True"

fun barrier_complete :: "string + unit \<Rightarrow> commit_barrier \<Rightarrow> commit_barrier" where
  "barrier_complete r NoBarrier = NoBarrier"
| "barrier_complete r (BeforeContinue _) = BeforeContinue (Some r)"


section \<open>Retry policy (run/model_retry.rs)\<close>

record cycle_failure =
  cf_failure :: run_failure
  retryable :: bool

definition max_model_retries :: nat where "max_model_retries = 8"
definition max_protocol_retries :: nat where "max_protocol_retries = 1"

definition should_retry :: "cycle_failure \<Rightarrow> nat \<Rightarrow> bool" where
  "should_retry f retries =
     (if \<not> retryable f then False
      else if (case cf_failure f of FProtocol _ \<Rightarrow> True | _ \<Rightarrow> False) then retries < max_protocol_retries
      else retries < max_model_retries)"


section \<open>Phases and commands (run/handle.rs, run/command.rs)\<close>

datatype run_phase = Running | Finalizing | Ended

datatype command_result = Applied | Duplicate | RunClosing | RunEnded | Suppressed | StaleTarget

datatype run_command =
    InsertMessages (batch_event: string) (batch_messages: "message list")
  | BreakMessages (batch_event: string) (batch_messages: "message list")
  | ToolResultCommand tool_result
  | CancelCommand

record run_handle =
  rh_run_id :: string
  rh_phase :: run_phase
  rh_commands :: "run_command list"
  rh_receiver :: bool
  rh_cancelled :: bool

definition run_handle_new :: "string \<Rightarrow> run_handle" where
  "run_handle_new r =
     \<lparr>rh_run_id = r, rh_phase = Running, rh_commands = [], rh_receiver = True, rh_cancelled = False\<rparr>"

definition begin_finalizing :: "run_handle \<Rightarrow> run_handle" where
  "begin_finalizing h = (if rh_phase h = Running then h\<lparr>rh_phase := Finalizing\<rparr> else h)"

definition resume_running :: "run_handle \<Rightarrow> run_handle" where
  "resume_running h = (if rh_phase h = Finalizing then h\<lparr>rh_phase := Running\<rparr> else h)"

definition finish_phase :: "run_handle \<Rightarrow> run_handle" where
  "finish_phase h = h\<lparr>rh_phase := Ended\<rparr>"

definition send_command :: "run_command \<Rightarrow> run_handle \<Rightarrow> bool \<times> run_handle" where
  "send_command c h =
     (if rh_receiver h then (True, h\<lparr>rh_commands := rh_commands h @ [c]\<rparr>) else (False, h))"

text \<open>The closure run under the phase lock by \<open>submit_messages\<close> and \<open>tool_result\<close>.\<close>

definition send_in_phase :: "run_command \<Rightarrow> run_handle \<Rightarrow> command_result \<times> run_handle" where
  "send_in_phase c h =
     (case rh_phase h of
        Running \<Rightarrow> (case send_command c h of (ok, h') \<Rightarrow> (if ok then (Applied, h') else (RunEnded, h')))
      | Ended \<Rightarrow> (RunEnded, h)
      | Finalizing \<Rightarrow> (RunClosing, h))"

definition message_command :: "string \<Rightarrow> message list \<Rightarrow> bool \<Rightarrow> run_command" where
  "message_command event_id ms should_break =
     (if should_break then BreakMessages event_id ms else InsertMessages event_id ms)"

text \<open>
  \<open>submit_messages\<close>: the first part sends; the second, later, takes the engine's reply, or, when the
  engine dropped the batch without one, the phase the run is in by then.
\<close>

definition await_delivery :: "command_result option \<Rightarrow> run_phase \<Rightarrow> command_result" where
  "await_delivery reply phase =
     (case reply of
        Some r \<Rightarrow> r
      | None \<Rightarrow> (case phase of Running \<Rightarrow> RunEnded | Finalizing \<Rightarrow> RunClosing | Ended \<Rightarrow> RunEnded))"

definition submit_messages ::
    "string \<Rightarrow> message list \<Rightarrow> bool \<Rightarrow> command_result option \<Rightarrow> run_phase \<Rightarrow> run_handle
     \<Rightarrow> command_result \<times> run_handle" where
  "submit_messages event_id ms should_break reply phase_then h =
     (case send_in_phase (message_command event_id ms should_break) h of (sent, h') \<Rightarrow>
        (if sent = Applied then await_delivery reply phase_then else sent, h'))"

definition insert_messages where
  "insert_messages event_id ms = submit_messages event_id ms False"

definition break_messages where
  "break_messages event_id ms = submit_messages event_id ms True"

definition tool_result_command :: "tool_result \<Rightarrow> run_handle \<Rightarrow> command_result \<times> run_handle" where
  "tool_result_command r h = send_in_phase (ToolResultCommand r) h"

definition cancel :: "run_handle \<Rightarrow> run_handle" where
  "cancel h = snd (send_command CancelCommand (h\<lparr>rh_cancelled := True\<rparr>))"


section \<open>Interleavings\<close>

text \<open>
  A run's handle shared by its clients and its engine: beside the handle itself, the commands that the engine
  has taken from the queue, those that were lost with the receiver, and what became of the batches, by their place
  in the order of sending: nothing yet, dropped without a reply, or answered by the engine.
\<close>

record handle_session =
  hs_handle :: run_handle
  hs_taken :: "run_command list"
  hs_lost :: "run_command list"
  hs_replies :: "nat \<Rightarrow> command_result option option"

definition handle_session_new :: "string \<Rightarrow> handle_session" where
  "handle_session_new r = \<lparr>hs_handle = run_handle_new r, hs_taken = [], hs_lost = [], hs_replies = Map.empty\<rparr>"

text \<open>All commands that were sent, oldest first.\<close>

definition sent_commands :: "handle_session \<Rightarrow> run_command list" where
  "sent_commands s = hs_taken s @ rh_commands (hs_handle s) @ hs_lost s"

definition on_handle :: "(run_handle \<Rightarrow> run_handle) \<Rightarrow> handle_session \<Rightarrow> handle_session" where
  "on_handle f s = s\<lparr>hs_handle := f (hs_handle s)\<rparr>"

text \<open>The engine's receiver takes the next command, or goes away with what is queued.\<close>

definition take_command :: "handle_session \<Rightarrow> handle_session" where
  "take_command s =
     (case rh_commands (hs_handle s) of
        [] \<Rightarrow> s
      | c # cs \<Rightarrow> s\<lparr>hs_handle := (hs_handle s)\<lparr>rh_commands := cs\<rparr>, hs_taken := hs_taken s @ [c]\<rparr>)"

definition drop_receiver :: "handle_session \<Rightarrow> handle_session" where
  "drop_receiver s =
     (let queued = rh_commands (hs_handle s); n = length (hs_taken s)
      in s\<lparr>hs_handle := (hs_handle s)\<lparr>rh_commands := [], rh_receiver := False\<rparr>,
           hs_lost := queued @ hs_lost s,
           hs_replies := (\<lambda>i. if n \<le> i \<and> i < n + length queued then Some None else hs_replies s i)\<rparr>)"

text \<open>\<open>MessageBatch::complete\<close>, or dropping a batch that was taken.\<close>

definition settle_batch :: "nat \<Rightarrow> command_result option \<Rightarrow> handle_session \<Rightarrow> handle_session" where
  "settle_batch i r s = s\<lparr>hs_replies := (hs_replies s)(i \<mapsto> r)\<rparr>"

fun is_batch :: "run_command \<Rightarrow> bool" where
  "is_batch (InsertMessages _ _) = True"
| "is_batch (BreakMessages _ _) = True"
| "is_batch _ = False"

text \<open>
  The steps: a client submits a command and is answered at once when it is refused (or is a tool result); the client
  of the i-th command, a batch that was accepted, gets its answer; or something internal.
\<close>

datatype label = Sent run_command command_result | Answered nat command_result | Internal

inductive handle_step :: "handle_session \<Rightarrow> label \<Rightarrow> handle_session \<Rightarrow> bool" where
  Submit: "c \<noteq> CancelCommand \<Longrightarrow> send_in_phase c (hs_handle s) = (r, h') \<Longrightarrow> handle_step s (Sent c r) (s\<lparr>hs_handle := h'\<rparr>)"
| Answer: "i < length (sent_commands s) \<Longrightarrow> is_batch (sent_commands s ! i) \<Longrightarrow> hs_replies s i = Some reply \<Longrightarrow>
     handle_step s (Answered i (await_delivery reply (rh_phase (hs_handle s)))) s"
| CancelStep: "handle_step s Internal (on_handle cancel s)"
| BeginFinalizing: "handle_step s Internal (on_handle begin_finalizing s)"
| ResumeRunning: "handle_step s Internal (on_handle resume_running s)"
| Finish: "handle_step s Internal (on_handle finish_phase s)"
| Take: "handle_step s Internal (take_command s)"
| Settle: "i < length (hs_taken s) \<Longrightarrow> is_batch (hs_taken s ! i) \<Longrightarrow> hs_replies s i = None \<Longrightarrow>
     handle_step s Internal (settle_batch i r s)"
| DropReceiver: "handle_step s Internal (drop_receiver s)"

inductive_cases handle_stepE: "handle_step s l s'"
inductive_simps handle_step_sent: "handle_step s (Sent c r) s'"
inductive_simps handle_step_answered: "handle_step s (Answered i r) s'"

inductive handle_run :: "handle_session \<Rightarrow> label list \<Rightarrow> handle_session \<Rightarrow> bool" where
  handle_run_Nil: "handle_run s [] s"
| handle_run_snoc: "handle_run s ls s1 \<Longrightarrow> handle_step s1 l s2 \<Longrightarrow> handle_run s (ls @ [l]) s2"

lemmas handle_ops = send_in_phase_def send_command_def cancel_def begin_finalizing_def
  resume_running_def finish_phase_def on_handle_def take_command_def drop_receiver_def settle_batch_def

text \<open>The commands that were accepted.\<close>

fun applied_commands :: "label list \<Rightarrow> run_command list" where
  "applied_commands [] = []"
| "applied_commands (Sent c Applied # ls) = c # applied_commands ls"
| "applied_commands (_ # ls) = applied_commands ls"

lemma applied_commands_append: "applied_commands (xs @ ys) = applied_commands xs @ applied_commands ys"
  by (induction xs rule: applied_commands.induct) auto

definition not_cancel :: "run_command \<Rightarrow> bool" where
  "not_cancel c = (c \<noteq> CancelCommand)"

text \<open>
  Without a receiver nothing is queued; nothing is lost while there is one; only a batch that was taken has a reply of
  the engine.
\<close>

definition session_ok :: "handle_session \<Rightarrow> bool" where
  "session_ok s \<longleftrightarrow> (rh_receiver (hs_handle s) \<longrightarrow> hs_lost s = [])
     \<and> (\<not> rh_receiver (hs_handle s) \<longrightarrow> rh_commands (hs_handle s) = [])
     \<and> (\<forall>i r. hs_replies s i = Some (Some r) \<longrightarrow> i < length (hs_taken s) \<and> is_batch (hs_taken s ! i))"

lemma session_new_ok: "session_ok (handle_session_new r)"
  by (simp add: session_ok_def handle_session_new_def run_handle_new_def)

lemma session_step:
  "handle_step s l s' \<Longrightarrow> session_ok s \<Longrightarrow> session_ok s'
     \<and> filter not_cancel (sent_commands s') = filter not_cancel (sent_commands s) @ applied_commands [l]
     \<and> prefix (hs_taken s) (hs_taken s')
     \<and> (rh_phase (hs_handle s) = Ended \<longrightarrow> rh_phase (hs_handle s') = Ended \<and> applied_commands [l] = [])"
  by (erule handle_stepE)
     (auto simp: handle_ops not_cancel_def sent_commands_def session_ok_def Let_def nth_append
       split: run_phase.splits if_splits list.splits)

lemma session_run:
  "handle_run s ls s' \<Longrightarrow> session_ok s \<Longrightarrow> session_ok s'
     \<and> filter not_cancel (sent_commands s') = filter not_cancel (sent_commands s) @ applied_commands ls
     \<and> prefix (hs_taken s) (hs_taken s')
     \<and> (rh_phase (hs_handle s) = Ended \<longrightarrow> rh_phase (hs_handle s') = Ended \<and> applied_commands ls = [])"
proof (induction rule: handle_run.induct)
  case (handle_run_snoc s ls s1 l s2)
  then show ?case using session_step[OF handle_run_snoc.hyps(2)]
    by (auto simp: applied_commands_append intro: prefix_order.trans)
qed simp

lemma submission_answer:
  "handle_step s (Sent c r) s' \<Longrightarrow>
   r = (case rh_phase (hs_handle s) of
          Running \<Rightarrow> if rh_receiver (hs_handle s) then Applied else RunEnded
        | Finalizing \<Rightarrow> RunClosing
        | Ended \<Rightarrow> RunEnded)"
  by (auto simp: handle_step_sent handle_ops split: run_phase.splits if_splits)

lemma delivery_answer:
  "handle_step s (Answered i r) s' \<Longrightarrow> session_ok s \<Longrightarrow> r \<notin> {RunClosing, RunEnded} \<Longrightarrow>
     i < length (hs_taken s) \<and> is_batch (hs_taken s ! i) \<and> hs_replies s i = Some (Some r)"
  by (auto simp: handle_step_answered await_delivery_def session_ok_def split: option.splits run_phase.splits)


section \<open>Properties\<close>

text \<open>
  C13: the answers clients get are the truth about the queue. In every interleaving of submissions with the engine's
  taking, answering and dropping of commands, its phase changes, cancellations and the loss of its receiver: the
  commands that were accepted are exactly those the engine has taken, has queued, or has lost with its receiver,
  in the order of sending, and what was taken stays taken. A submission is accepted exactly when the run is in its
  running phase and its receiver is alive, and told that the run is closing exactly in the finalizing phase; an answer
  to an accepted batch other than closing or ended is the engine's own reply to that batch, which it has taken. Once
  the run has ended no submission is accepted again.
\<close>
theorem answers_match_queue:
  assumes "handle_run (handle_session_new r) before s" "handle_step s l s'" "handle_run s' after s''"
  shows "filter not_cancel (sent_commands s'') = applied_commands (before @ l # after)
    \<and> (rh_receiver (hs_handle s'') \<longrightarrow> hs_lost s'' = []) \<and> prefix (hs_taken s) (hs_taken s'')
    \<and> (case l of
         Sent c answer \<Rightarrow>
           (answer = Applied \<longleftrightarrow> rh_phase (hs_handle s) = Running \<and> rh_receiver (hs_handle s))
           \<and> (answer = RunClosing \<longleftrightarrow> rh_phase (hs_handle s) = Finalizing)
           \<and> answer \<in> {Applied, RunClosing, RunEnded}
       | Answered i answer \<Rightarrow>
           answer \<in> {RunClosing, RunEnded}
           \<or> i < length (hs_taken s) \<and> is_batch (hs_taken s ! i) \<and> hs_replies s i = Some (Some answer)
       | Internal \<Rightarrow> True)
    \<and> (rh_phase (hs_handle s) = Ended \<longrightarrow> rh_phase (hs_handle s'') = Ended \<and> applied_commands (l # after) = [])"
proof -
  note s = session_run[OF assms(1) session_new_ok]
  note s' = session_step[OF assms(2)]
  have ok: "session_ok s" "session_ok s'" using s s' by blast+
  note s'' = session_run[OF assms(3) ok(2)]
  have sent: "filter not_cancel (sent_commands s'') = applied_commands (before @ l # after)"
    using s s'[OF ok(1)] s'' applied_commands_append[of before "[l] @ after"] applied_commands_append[of "[l]" after]
    by (simp add: sent_commands_def handle_session_new_def run_handle_new_def)
  have "applied_commands (l # after) = applied_commands [l] @ applied_commands after"
    using applied_commands_append[of "[l]" after] by simp
  moreover have "case l of
         Sent c answer \<Rightarrow>
           (answer = Applied \<longleftrightarrow> rh_phase (hs_handle s) = Running \<and> rh_receiver (hs_handle s))
           \<and> (answer = RunClosing \<longleftrightarrow> rh_phase (hs_handle s) = Finalizing)
           \<and> answer \<in> {Applied, RunClosing, RunEnded}
       | Answered i answer \<Rightarrow>
           answer \<in> {RunClosing, RunEnded}
           \<or> i < length (hs_taken s) \<and> is_batch (hs_taken s ! i) \<and> hs_replies s i = Some (Some answer)
       | Internal \<Rightarrow> True"
  proof (cases l)
    case (Sent c answer)
    then show ?thesis using submission_answer assms(2) by (fastforce split: run_phase.splits if_splits)
  next
    case (Answered i answer)
    then show ?thesis using delivery_answer[OF _ ok(1)] assms(2) by auto
  qed simp
  ultimately show ?thesis
    using sent s'[OF ok(1)] s'' by (auto simp: session_ok_def intro: prefix_order.trans)
qed

lemma answers_match_queue_witness:
  "\<exists>s s'. handle_run (handle_session_new ''r'') [Sent (InsertMessages ''e'' []) Applied, Internal, Internal] s
     \<and> handle_step s (Answered 0 Duplicate) s'
     \<and> hs_taken s = [InsertMessages ''e'' []] \<and> hs_replies s 0 = Some (Some Duplicate)"
proof -
  let ?c = "InsertMessages ''e'' []" and ?s0 = "handle_session_new ''r''"
  let ?s1 = "on_handle (\<lambda>h. h\<lparr>rh_commands := [?c]\<rparr>) ?s0"
  let ?s3 = "settle_batch 0 (Some Duplicate) (take_command ?s1)"
  note ops = handle_ops handle_session_new_def run_handle_new_def
  have 1: "handle_run ?s0 [Sent ?c Applied] ?s1"
    using handle_run_snoc[OF handle_run_Nil Submit, of ?c ?s0 Applied "(run_handle_new ''r'')\<lparr>rh_commands := [?c]\<rparr>"]
    by (simp add: ops)
  have 2: "handle_run ?s0 [Sent ?c Applied, Internal] (take_command ?s1)"
    using handle_run_snoc[OF 1 Take] by simp
  have 3: "handle_run ?s0 [Sent ?c Applied, Internal, Internal] ?s3"
    using handle_run_snoc[OF 2 Settle, of 0 "Some Duplicate"] by (simp add: ops)
  have 4: "handle_step ?s3 (Answered 0 Duplicate) ?s3"
    using Answer[of 0 ?s3 "Some Duplicate"] by (simp add: ops sent_commands_def await_delivery_def)
  show ?thesis
    using answers_match_queue[OF 3 4 handle_run_Nil] 3 4
    by (intro exI[of _ ?s3]) (simp add: ops)
qed

end
