(* ===== verification/Text.thy ===== *)
theory Text
  imports Prelude
begin

text \<open>
  What the source uses of Rust's \<open>str\<close>: ASCII case, search, trimming and splitting. Texts are the bytes of
  their UTF-8 encoding, so that the white space recognised here is the ASCII one.
\<close>

definition ascii_lower :: "char \<Rightarrow> char" where
  "ascii_lower c =
     (let n = (of_char c :: nat) in if 65 \<le> n \<and> n \<le> 90 then char_of (n + 32) else c)"

definition to_ascii_lowercase :: "string \<Rightarrow> string" where
  "to_ascii_lowercase s = map ascii_lower s"

text \<open>\<open>str::find\<close>: the text from the first occurrence on.\<close>

fun find_from :: "string \<Rightarrow> string \<Rightarrow> string option" where
  "find_from [] pat = (if pat = [] then Some [] else None)"
| "find_from (c # cs) pat =
     (if take (length pat) (c # cs) = pat then Some (c # cs) else find_from cs pat)"

definition contains :: "string \<Rightarrow> string \<Rightarrow> bool" where
  "contains s pat = (find_from s pat \<noteq> None)"

definition is_space :: "char \<Rightarrow> bool" where
  "is_space c = (let n = (of_char c :: nat) in 9 \<le> n \<and> n \<le> 13 \<or> n = 32)"

definition trim :: "string \<Rightarrow> string" where
  "trim s = rev (dropWhile is_space (rev (dropWhile is_space s)))"

text \<open>\<open>str::split\<close> on a character: always at least one piece.\<close>

fun split_on :: "char \<Rightarrow> string \<Rightarrow> string list" where
  "split_on d [] = [[]]"
| "split_on d (c # cs) =
     (if c = d then [] # split_on d cs
      else (case split_on d cs of [] \<Rightarrow> [[c]] | w # ws \<Rightarrow> (c # w) # ws))"

text \<open>\<open>strip_prefix\<close> and \<open>strip_suffix\<close>, keeping the text where there is nothing to strip; joining with a separator.\<close>

definition starts_with :: "string \<Rightarrow> string \<Rightarrow> bool" where
  "starts_with s pat \<longleftrightarrow> take (length pat) s = pat"

definition strip_prefix :: "string \<Rightarrow> string \<Rightarrow> string" where
  "strip_prefix pat s = (if starts_with s pat then drop (length pat) s else s)"

definition strip_suffix :: "string \<Rightarrow> string \<Rightarrow> string" where
  "strip_suffix pat s = rev (strip_prefix (rev pat) (rev s))"

fun join_with :: "string \<Rightarrow> string list \<Rightarrow> string" where
  "join_with sep [] = []"
| "join_with sep [w] = w"
| "join_with sep (w # ws) = w @ sep @ join_with sep ws"

definition nl :: string where "nl = [CHR 0x0A]"

end
