(* ===== verification/EnginePolicy.thy ===== *)
theory EnginePolicy
  imports RunHandle Text
begin

text \<open>
  The decisions the run engine takes around model calls (src/server/src/run/engine.rs, the overflow
  classification of run/compaction.rs, and the usage counters of model/observability.rs): when a failed
  call is retried, when it is answered by a compaction, when the parent stops waiting for background
  subagents, and what a summary call asks for. The engine's loop itself is not here.
\<close>

section \<open>Usage counters (model/observability.rs)\<close>

record usage =
  input_tokens :: "nat option"
  context_input_tokens :: "nat option"
  output_tokens :: "nat option"
  total_tokens :: "nat option"
  cache_read_tokens :: "nat option"
  cache_write_tokens :: "nat option"
  reasoning_tokens :: "nat option"

definition usage_sum :: "nat option \<Rightarrow> nat option \<Rightarrow> nat option" where
  "usage_sum l r =
     (if l = None \<and> r = None then None
      else Some (sat_add_u64 (case l of None \<Rightarrow> 0 | Some n \<Rightarrow> n) (case r of None \<Rightarrow> 0 | Some n \<Rightarrow> n)))"

definition usage_add :: "usage \<Rightarrow> usage \<Rightarrow> usage" where
  "usage_add a b =
     \<lparr>input_tokens = usage_sum (input_tokens a) (input_tokens b),
      context_input_tokens = usage_sum (context_input_tokens a) (context_input_tokens b),
      output_tokens = usage_sum (output_tokens a) (output_tokens b),
      total_tokens = usage_sum (total_tokens a) (total_tokens b),
      cache_read_tokens = usage_sum (cache_read_tokens a) (cache_read_tokens b),
      cache_write_tokens = usage_sum (cache_write_tokens a) (cache_write_tokens b),
      reasoning_tokens = usage_sum (reasoning_tokens a) (reasoning_tokens b)\<rparr>"

definition accumulate_usage :: "usage option \<Rightarrow> usage \<Rightarrow> usage option" where
  "accumulate_usage acc u = (case acc of Some t \<Rightarrow> Some (usage_add t u) | None \<Rightarrow> Some u)"

definition context_usage_snapshot :: "nat \<Rightarrow> usage" where
  "context_usage_snapshot t =
     \<lparr>input_tokens = Some t, context_input_tokens = Some t, output_tokens = Some 0,
      total_tokens = Some t, cache_read_tokens = Some 0, cache_write_tokens = Some 0,
      reasoning_tokens = Some 0\<rparr>"

record usage_anchor =
  anchor_tokens :: nat
  anchor_messages :: nat

definition update_context_usage_anchor :: "usage_anchor option \<Rightarrow> usage \<Rightarrow> nat \<Rightarrow> usage_anchor option" where
  "update_context_usage_anchor anchor u n =
     (case context_input_tokens u of
        Some t \<Rightarrow> Some \<lparr>anchor_tokens = t, anchor_messages = n\<rparr>
      | None \<Rightarrow> anchor)"


section \<open>Waiting for background subagents\<close>

text \<open>Durations in milliseconds; instants as i64 milliseconds.\<close>

record background_wait_policy =
  bw_poll :: nat
  bw_completion_grace :: nat
  bw_idle_timeout :: nat
  bw_ceiling :: nat
  bw_heartbeat :: nat
  bw_progress_log :: nat

definition background_wait_default :: background_wait_policy where
  "background_wait_default =
     \<lparr>bw_poll = 5 * 1000, bw_completion_grace = 2 * 1000, bw_idle_timeout = 45 * 60 * 1000,
      bw_ceiling = 6 * 60 * 60 * 1000, bw_heartbeat = 45 * 1000, bw_progress_log = 5 * 60 * 1000\<rparr>"

definition duration_ms :: "nat \<Rightarrow> int" where
  "duration_ms d = min (int d) i64_max"

definition sat_sub_i64 :: "int \<Rightarrow> int \<Rightarrow> int" where
  "sat_sub_i64 a b = max i64_min (min i64_max (a - b))"

definition background_wait_expired :: "background_wait_policy \<Rightarrow> int \<Rightarrow> int \<Rightarrow> int \<Rightarrow> bool" where
  "background_wait_expired policy now last_activity started =
     (let idle_since = max last_activity started
      in sat_sub_i64 now idle_since \<ge> duration_ms (bw_idle_timeout policy)
         \<or> sat_sub_i64 now started \<ge> duration_ms (bw_ceiling policy))"


section \<open>The overflow ladder\<close>

datatype retention = Window | NoRetention

text \<open>The compactions of the current overflow episode, a u8.\<close>

type_synonym overflow_episode = nat

definition overflow_retention :: "overflow_episode \<Rightarrow> retention option" where
  "overflow_retention c = (if c = 0 then Some Window else if c = 1 then Some NoRetention else None)"

definition model_call_succeeded :: "overflow_episode \<Rightarrow> overflow_episode" where
  "model_call_succeeded c = 0"

definition provider_refused :: "overflow_episode \<Rightarrow> overflow_episode" where
  "provider_refused c = min (c + 1) 255"

definition preflight_compacted :: "overflow_episode \<Rightarrow> overflow_episode" where
  "preflight_compacted c = max c 1"

definition already_compacted :: "overflow_episode \<Rightarrow> bool" where
  "already_compacted c = (c > 0)"


section \<open>Reading the provider's refusal (run/compaction.rs)\<close>

definition is_ascii_digit :: "char \<Rightarrow> bool" where
  "is_ascii_digit c = (48 \<le> (of_char c :: nat) \<and> (of_char c :: nat) \<le> 57)"

definition digit_value :: "char \<Rightarrow> nat" where
  "digit_value c = of_char c - 48"

definition digits_value :: "string \<Rightarrow> nat" where
  "digits_value ds = foldl (\<lambda>n c. n * 10 + digit_value c) 0 ds"

definition parse_u64 :: "string \<Rightarrow> nat option" where
  "parse_u64 ds =
     (if ds = [] \<or> \<not> list_all is_ascii_digit ds \<or> digits_value ds > u64_max then None
      else Some (digits_value ds))"

text \<open>The loop of \<open>first_number\<close>: skip to the first digit, then take digits and drop commas.\<close>

fun collect_digits :: "string \<Rightarrow> string" where
  "collect_digits [] = []"
| "collect_digits (c # cs) =
     (if is_ascii_digit c then c # collect_digits cs
      else if c = CHR '','' then collect_digits cs else [])"

definition first_number :: "string \<Rightarrow> nat option" where
  "first_number s = parse_u64 (collect_digits (dropWhile (\<lambda>c. \<not> is_ascii_digit c) s))"

definition first_number_after :: "string \<Rightarrow> string \<Rightarrow> nat option" where
  "first_number_after s marker =
     (case find_from s marker of None \<Rightarrow> None | Some rest \<Rightarrow> first_number (drop (length marker) rest))"

definition output_cap_markers :: "string list" where
  "output_cap_markers =
     [''max_tokens'', ''max output'', ''max_output'', ''max_completion'', ''max completion'', ''output tokens'']"

definition context_limit_markers :: "string list" where
  "context_limit_markers =
     [''maximum context length is'', ''maximum context window is'', ''maximum context length of'',
      ''context window is'', ''context length is'', ''token limit is'']"

definition plausible_limit :: "nat option \<Rightarrow> nat option" where
  "plausible_limit n = (case n of Some l \<Rightarrow> (if l \<ge> 1000 then Some l else None) | None \<Rightarrow> None)"

fun first_some :: "('a \<Rightarrow> 'b option) \<Rightarrow> 'a list \<Rightarrow> 'b option" where
  "first_some f [] = None"
| "first_some f (x # xs) = (case f x of Some y \<Rightarrow> Some y | None \<Rightarrow> first_some f xs)"

definition provider_context_limit :: "string \<Rightarrow> nat option" where
  "provider_context_limit message =
     (let lowered = to_ascii_lowercase message
      in if list_ex (contains lowered) output_cap_markers then None
         else
           case plausible_limit (first_number_after lowered ''> '') of
             Some l \<Rightarrow> Some l
           | None \<Rightarrow> first_some (\<lambda>m. plausible_limit (first_number_after lowered m)) context_limit_markers)"

definition mentions_request_context :: "string \<Rightarrow> bool" where
  "mentions_request_context s \<longleftrightarrow> contains s ''context'' \<or> contains s ''request'' \<or> contains s ''window''"

definition input_length_overflow :: "string \<Rightarrow> bool" where
  "input_length_overflow s =
     (case find_from s ''input length'' of
        None \<Rightarrow> False
      | Some rest \<Rightarrow> list_ex (contains rest) [''too long'', ''too large'', ''exceed'', ''limit'', ''maximum''])"

definition is_context_overflow :: "string \<Rightarrow> bool" where
  "is_context_overflow message \<longleftrightarrow>
     (let s = to_ascii_lowercase message
      in list_ex (contains s)
           [''prompt is too long'', ''context window exceeded'', ''context_length_exceeded'',
            ''context length exceeded'', ''model_context_window_exceeded'', ''maximum context length'',
            ''exceeds the maximum context'', ''exceeds the maximum number of tokens'',
            ''reduce the length of the'']
         \<or> (contains s ''too many tokens'' \<and> mentions_request_context s)
         \<or> (contains s ''token limit exceeded'' \<and> mentions_request_context s)
         \<or> ((contains s ''request is too large'' \<or> contains s ''request too large'') \<and> contains s ''context'')
         \<or> (contains s ''input length'' \<and> input_length_overflow s))"

definition context_budget_with :: "nat \<Rightarrow> nat \<Rightarrow> nat" where
  "context_budget_with window reserve_percent =
     window - (window * reserve_percent div 100) mod 2 ^ 64"

text \<open>\<open>input_budget\<close> on the window, the output cap and the reserve percentage it reads.\<close>

definition input_budget :: "nat option \<Rightarrow> nat option \<Rightarrow> nat \<Rightarrow> nat option" where
  "input_budget window max_output reserve_percent =
     (case window of
        None \<Rightarrow> None
      | Some w \<Rightarrow>
          (if w = 0 then None
           else let budget = context_budget_with w reserve_percent - (case max_output of None \<Rightarrow> 0 | Some m \<Rightarrow> m)
                in if budget > 0 then Some budget else None))"

definition reported_input :: "usage option \<Rightarrow> nat option" where
  "reported_input u =
     (case u of None \<Rightarrow> None
      | Some v \<Rightarrow> (case context_input_tokens v of Some t \<Rightarrow> Some t | None \<Rightarrow> input_tokens v))"

definition exhausted_context_window :: "run_failure \<Rightarrow> usage option \<Rightarrow> nat option \<Rightarrow> bool" where
  "exhausted_context_window failure u budget =
     (case failure of
        FTruncated _ \<Rightarrow>
          (case (u, budget) of
             (Some v, Some b) \<Rightarrow> (case reported_input (Some v) of Some t \<Rightarrow> t \<ge> b | None \<Rightarrow> False)
           | _ \<Rightarrow> False)
      | _ \<Rightarrow> False)"

definition usage_exhausted :: "run_failure \<Rightarrow> usage option \<Rightarrow> nat option \<Rightarrow> bool" where
  "usage_exhausted failure u budget =
     (case failure of
        FProvider _ \<Rightarrow>
          (case reported_input u of
             Some t \<Rightarrow> (case budget of Some b \<Rightarrow> t \<ge> b | None \<Rightarrow> False)
           | None \<Rightarrow> False)
      | _ \<Rightarrow> False)"

definition provider_refusal :: "run_failure \<Rightarrow> bool" where
  "provider_refusal failure = (case failure of FProvider m \<Rightarrow> is_context_overflow m | _ \<Rightarrow> False)"

definition overflow_refusal :: "bool \<Rightarrow> run_failure \<Rightarrow> usage option \<Rightarrow> nat option \<Rightarrow> bool" where
  "overflow_refusal compact_action failure u budget \<longleftrightarrow>
     \<not> compact_action
     \<and> (exhausted_context_window failure u budget \<or> provider_refusal failure \<or> usage_exhausted failure u budget)"

definition learn_provider_window :: "nat option \<Rightarrow> bool \<Rightarrow> run_failure \<Rightarrow> nat option" where
  "learn_provider_window window refusal failure =
     (if \<not> refusal then window
      else case failure of
        FProvider m \<Rightarrow>
          (case provider_context_limit m of
             None \<Rightarrow> window
           | Some l \<Rightarrow> (if window = Some l then window else Some l))
      | _ \<Rightarrow> window)"

definition failure_message :: "run_failure \<Rightarrow> string" where
  "failure_message f =
     (case f of FProtocol m \<Rightarrow> m | FProvider m \<Rightarrow> m | FTruncated m \<Rightarrow> m | FStore m \<Rightarrow> m | FClient m \<Rightarrow> m)"

definition late_tool_result :: "tool_result \<Rightarrow> string set \<Rightarrow> bool" where
  "late_tool_result r accounted \<longleftrightarrow> result_call_id r \<in> accounted"


section \<open>What a failed call leads to\<close>

datatype decision = CompactAndRetry retention | RetryAfterDelay | GiveUp

text \<open>
  The engine's answer to a failed attempt: a refusal for length goes down the overflow ladder while it
  has a step left; anything else is retried under the retry policy.
\<close>

record failed_attempt =
  fa_failure :: cycle_failure
  fa_refusal :: bool

definition decide :: "overflow_episode \<Rightarrow> nat \<Rightarrow> failed_attempt \<Rightarrow> decision" where
  "decide episode retries f =
     (case (if fa_refusal f then overflow_retention episode else None) of
        Some r \<Rightarrow> CompactAndRetry r
      | None \<Rightarrow> (if should_retry (fa_failure f) retries then RetryAfterDelay else GiveUp))"


section \<open>Summary calls\<close>

definition summary_model :: "model_spec \<Rightarrow> nat \<Rightarrow> model_spec" where
  "summary_model m out =
     m\<lparr>ms_max_output_tokens := Some out,
       ms_reasoning := (ms_reasoning m)\<lparr>rs_enabled := Some False, rs_effort := None, rs_thinking_budget := None\<rparr>\<rparr>"

definition cycle_model :: "run_action \<Rightarrow> model_spec \<Rightarrow> nat \<Rightarrow> model_spec" where
  "cycle_model action m out = (case action of CompactAction \<Rightarrow> summary_model m out | _ \<Rightarrow> m)"

definition summary_default_output_tokens :: nat where "summary_default_output_tokens = 8192"

text \<open>The configured summary model's own output cap, if one is configured and declares it.\<close>

definition summary_output_tokens :: "nat option \<Rightarrow> nat option option \<Rightarrow> nat option \<Rightarrow> nat" where
  "summary_output_tokens setting configured run_limit =
     (let requested = (case setting of Some n \<Rightarrow> n | None \<Rightarrow> summary_default_output_tokens);
          clamp = (\<lambda>limit. case limit of Some l \<Rightarrow> min requested l | None \<Rightarrow> requested)
      in case configured of Some model_limit \<Rightarrow> clamp model_limit | None \<Rightarrow> clamp run_limit)"

text \<open>How the client answers a commit barrier: the reply, a dropped sender, or cancellation first.\<close>

datatype ready_signal = ReadyOk | ReadyErr string | ReadyDropped | ReadyCancelled

definition client_failure :: run_outcome where
  "client_failure = Failed (FClient ''client event channel closed'')"

fun wait_for_state_ready :: "ready_signal \<Rightarrow> run_outcome + unit" where
  "wait_for_state_ready ReadyOk = Inr ()"
| "wait_for_state_ready (ReadyErr e) = Inl (Failed (FClient e))"
| "wait_for_state_ready ReadyDropped = Inl client_failure"
| "wait_for_state_ready ReadyCancelled = Inl CancelledRun"


section \<open>Properties\<close>

lemma should_retry_limit: "should_retry f n \<Longrightarrow> n < 8"
  by (auto simp: should_retry_def max_model_retries_def max_protocol_retries_def
      split: if_splits run_failure.splits)

lemma decide_cases:
  "decide e n f = CompactAndRetry r \<longleftrightarrow> fa_refusal f \<and> overflow_retention e = Some r"
  "decide e n f = RetryAfterDelay \<longleftrightarrow> \<not> (fa_refusal f \<and> e < 2) \<and> should_retry (fa_failure f) n"
  by (auto simp: decide_def overflow_retention_def)

lemma plausible_limit_Some: "plausible_limit n = Some l \<Longrightarrow> 1000 \<le> l"
  by (auto simp: plausible_limit_def split: option.splits if_splits)

lemma first_some_Some: "first_some f xs = Some y \<Longrightarrow> \<exists>x\<in>set xs. f x = Some y"
  by (induction xs) (auto split: option.splits)

lemma parse_u64_bound: "parse_u64 s = Some n \<Longrightarrow> n \<le> u64_max"
  by (auto simp: parse_u64_def split: if_splits)

lemma plausible_number: "plausible_limit (first_number_after s m) = Some l \<Longrightarrow> 1000 \<le> l \<and> l \<le> u64_max"
  by (auto simp: plausible_limit_def first_number_after_def first_number_def
      split: option.splits if_splits dest: parse_u64_bound)

text \<open>
  The context window is only ever relearned from a refusal of a prompt for its length, from the
  provider's own words, never from a message about an output cap, and never as less than 1000 tokens;
  otherwise it stays what it was.
\<close>
theorem learned_window_is_plausible:
  assumes "learn_provider_window window (overflow_refusal compact failure u budget) failure = window'"
  shows "window' = window
    \<or> (\<not> compact \<and> (\<exists>m l. failure = FProvider m \<and> window' = Some l \<and> 1000 \<le> l \<and> l \<le> u64_max
         \<and> (is_context_overflow m \<or> usage_exhausted failure u budget)
         \<and> list_all (\<lambda>k. \<not> contains (to_ascii_lowercase m) k) output_cap_markers))"
proof (cases "window' = window")
  case False
  then obtain m l where m: "failure = FProvider m" "provider_context_limit m = Some l" "window' = Some l"
    and r: "overflow_refusal compact failure u budget"
  proof -
    have r: "overflow_refusal compact failure u budget"
      using assms False by (auto simp: learn_provider_window_def split: if_splits)
    obtain m where f: "failure = FProvider m"
      using assms False r by (cases failure) (auto simp: learn_provider_window_def)
    obtain l where "provider_context_limit m = Some l"
      using assms False r f by (cases "provider_context_limit m") (auto simp: learn_provider_window_def)
    then show thesis
      using that[OF f _ _ r] assms False r f by (auto simp: learn_provider_window_def split: if_splits)
  qed
  have "\<not> list_ex (contains (to_ascii_lowercase m)) output_cap_markers"
    using m(2) by (auto simp: provider_context_limit_def Let_def split: if_splits)
  then have caps: "list_all (\<lambda>k. \<not> contains (to_ascii_lowercase m) k) output_cap_markers"
    by (simp add: list_ex_iff list_all_iff)
  have l: "1000 \<le> l \<and> l \<le> u64_max"
    using m(2) by (auto simp: provider_context_limit_def Let_def split: if_splits option.splits
        dest!: first_some_Some plausible_number)
  show ?thesis
    using m r caps l by (auto simp: overflow_refusal_def exhausted_context_window_def provider_refusal_def)
qed simp

lemma learned_window_is_plausible_witness:
  "learn_provider_window None
     (overflow_refusal False (FProvider ''9 > 2,000'') (Some (context_usage_snapshot 9)) (Some 5))
     (FProvider ''9 > 2,000'') = Some 2000
   \<and> usage_exhausted (FProvider ''9 > 2,000'') (Some (context_usage_snapshot 9)) (Some 5)"
proof -
  let ?f = "FProvider ''9 > 2,000''"
  let ?u = "Some (context_usage_snapshot 9)"
  have u: "usage_exhausted ?f ?u (Some 5)"
    by (simp add: usage_exhausted_def reported_input_def context_usage_snapshot_def)
  have "provider_context_limit ''9 > 2,000'' = Some 2000"
    by (simp add: provider_context_limit_def output_cap_markers_def contains_def to_ascii_lowercase_def
        ascii_lower_def first_number_after_def first_number_def is_ascii_digit_def parse_u64_def
        digits_value_def digit_value_def u64_max_def plausible_limit_def Let_def)
  then have w: "learn_provider_window None (overflow_refusal False ?f ?u (Some 5)) ?f = Some 2000"
    using u by (simp add: learn_provider_window_def overflow_refusal_def)
  show ?thesis using learned_window_is_plausible[OF w] w u by auto
qed

end
