(* ===== verification/Conversations.thy ===== *)
theory Conversations
  imports RunHandle
begin

text \<open>
  Messages waiting for a run and the registry of active runs (src/server/src/cursor/conversation/
  pending.rs, registry.rs, subagents.rs). Active runs are run handles in a heap, since a handle is
  shared; clock readings are arguments. The three maps of the registry have their own locks, so each
  operation on one of them is a step; \<open>deliver\<close> is two steps, with whatever others do in between.
\<close>

section \<open>Compiled messages\<close>

datatype delivery = Ignore | Insert | Break

record compiled =
  cm_event_id :: string
  cm_target_run :: "string option"
  cm_messages :: "message list"
  cm_delivery :: delivery


section \<open>Pending messages (pending.rs)\<close>

definition max_pending_messages :: nat where "max_pending_messages = 256"

record pending =
  queued :: "compiled list"
  event_ids :: "string list"

definition pending_empty :: pending where
  "pending_empty = \<lparr>queued = [], event_ids = []\<rparr>"

text \<open>The loop that drops the oldest messages over the limit.\<close>

function trim_pending :: "pending \<Rightarrow> pending" where
  "trim_pending p =
     (if length (queued p) > max_pending_messages
      then trim_pending (p\<lparr>queued := tl (queued p),
                          event_ids := removeAll (cm_event_id (hd (queued p))) (event_ids p)\<rparr>)
      else p)"
  by pat_completeness auto
termination by (relation "measure (\<lambda>p. length (queued p))") (auto simp: max_pending_messages_def)

declare trim_pending.simps [simp del]

definition push_pending :: "compiled \<Rightarrow> pending \<Rightarrow> bool \<times> pending" where
  "push_pending m p =
     (if cm_event_id m \<in> set (event_ids p) then (False, p)
      else (True, trim_pending (p\<lparr>event_ids := cm_event_id m # event_ids p, queued := queued p @ [m]\<rparr>)))"

definition drain_pending :: "pending \<Rightarrow> compiled list \<times> pending" where
  "drain_pending p = (queued p, \<lparr>queued = [], event_ids = []\<rparr>)"

text \<open>
  What a mailbox promises its clients: a bounded queue in order of arrival, in which an identity
  already waiting is not queued again, and which is emptied at once.
\<close>

locale mailbox =
  fixes push :: "'m \<Rightarrow> 'q \<Rightarrow> bool \<times> 'q"
    and drain :: "'q \<Rightarrow> 'm list \<times> 'q"
    and waiting :: "'q \<Rightarrow> 'm list"
    and key :: "'m \<Rightarrow> 'k"
    and cap :: nat
    and ok :: "'q \<Rightarrow> bool"
  assumes push_ok: "ok q \<Longrightarrow> ok (snd (push m q))"
    and push_dup: "ok q \<Longrightarrow> key m \<in> key ` set (waiting q) \<Longrightarrow> push m q = (False, q)"
    and push_new: "ok q \<Longrightarrow> key m \<notin> key ` set (waiting q) \<Longrightarrow>
      fst (push m q) \<and> waiting (snd (push m q)) = take_last cap (waiting q @ [m])"
    and drain_all: "ok q \<Longrightarrow> fst (drain q) = waiting q \<and> waiting (snd (drain q)) = [] \<and> ok (snd (drain q))"
begin

text \<open>Distinct messages come out as they went in; beyond the capacity the newest are kept.\<close>

lemma keeps_newest:
  assumes "ok q" "waiting q = take_last cap ks" "distinct (map key (ks @ ms))"
  shows "waiting (fold (\<lambda>m q. snd (push m q)) ms q) = take_last cap (ks @ ms)
    \<and> ok (fold (\<lambda>m q. snd (push m q)) ms q)"
  using assms
proof (induction ms arbitrary: q ks)
  case (Cons m ms)
  have "key m \<notin> key ` set ks" using Cons.prems(3) by auto
  then have "key m \<notin> key ` set (waiting q)"
    using Cons.prems(2) take_last_set[of cap ks] by auto
  then have "waiting (snd (push m q)) = take_last cap (ks @ [m])"
    using push_new[OF Cons.prems(1), of m] Cons.prems(2) take_last_snoc[of cap ks m] by simp
  then show ?case using Cons.IH[OF push_ok[OF Cons.prems(1)], of m "ks @ [m]"] Cons.prems(3) by simp
qed simp

lemma drained_newest:
  assumes "ok q" "waiting q = []" "distinct (map key ms)"
  shows "fst (drain (fold (\<lambda>m q. snd (push m q)) ms q)) = take_last cap ms"
  using keeps_newest[of q "[]" ms] drain_all assms by simp

text \<open>A message just pushed waits, whatever was there.\<close>

lemma pushed_waits:
  assumes "ok q" "0 < cap"
  shows "key m \<in> key ` set (waiting (snd (push m q)))"
proof (cases "key m \<in> key ` set (waiting q)")
  case True
  then show ?thesis using push_dup[OF assms(1) True] by simp
next
  case False
  then have "waiting (snd (push m q)) = take_last cap (waiting q @ [m])"
    using push_new[OF assms(1) False] by simp
  moreover have "m \<in> set (take_last cap (waiting q @ [m]))"
    using assms(2) by (cases "length (waiting q) < cap") (auto simp: take_last_def)
  ultimately show ?thesis by auto
qed

end

definition pending_ok :: "pending \<Rightarrow> bool" where
  "pending_ok p \<longleftrightarrow>
     distinct (map cm_event_id (queued p))
     \<and> set (event_ids p) = cm_event_id ` set (queued p)
     \<and> length (queued p) \<le> max_pending_messages"

lemma trim_pending_spec:
  assumes "distinct (map cm_event_id (queued p))" "set (event_ids p) = cm_event_id ` set (queued p)"
  shows "queued (trim_pending p) = take_last max_pending_messages (queued p) \<and> pending_ok (trim_pending p)"
  using assms
proof (induction p rule: trim_pending.induct)
  case (1 p)
  show ?case
  proof (cases "length (queued p) > max_pending_messages")
    case True
    then obtain m ms where q: "queued p = m # ms" by (cases "queued p") auto
    let ?p = "p\<lparr>queued := ms, event_ids := removeAll (cm_event_id m) (event_ids p)\<rparr>"
    have "trim_pending p = trim_pending ?p" using True q by (subst trim_pending.simps) simp
    moreover have "queued (trim_pending ?p) = take_last max_pending_messages ms \<and> pending_ok (trim_pending ?p)"
      using 1(1)[OF True] 1(2,3) q by auto
    moreover have "take_last max_pending_messages ms = take_last max_pending_messages (queued p)"
      using take_last_tl[of max_pending_messages "queued p"] True q by simp
    ultimately show ?thesis by simp
  next
    case False
    then show ?thesis using 1(2,3) by (simp add: trim_pending.simps[of p] pending_ok_def)
  qed
qed

interpretation pending_box: mailbox push_pending drain_pending queued cm_event_id max_pending_messages pending_ok
proof unfold_locales
  fix p m assume ok: "pending_ok p"
  let ?p = "p\<lparr>event_ids := cm_event_id m # event_ids p, queued := queued p @ [m]\<rparr>"
  have pre: "distinct (map cm_event_id (queued ?p))" "set (event_ids ?p) = cm_event_id ` set (queued ?p)"
    if "cm_event_id m \<notin> set (event_ids p)"
    using ok that by (auto simp: pending_ok_def)
  have push: "push_pending m p = (True, trim_pending ?p)" if "cm_event_id m \<notin> set (event_ids p)"
    using that by (simp add: push_pending_def)
  show "pending_ok (snd (push_pending m p))"
    using ok push trim_pending_spec[OF pre] by (cases "cm_event_id m \<in> set (event_ids p)") (auto simp: push_pending_def)
  show "cm_event_id m \<in> cm_event_id ` set (queued p) \<Longrightarrow> push_pending m p = (False, p)"
    using ok by (simp add: push_pending_def pending_ok_def)
  assume "cm_event_id m \<notin> cm_event_id ` set (queued p)"
  then have new: "cm_event_id m \<notin> set (event_ids p)" using ok by (simp add: pending_ok_def)
  show "fst (push_pending m p) \<and> queued (snd (push_pending m p)) = take_last max_pending_messages (queued p @ [m])"
    using push[OF new] trim_pending_spec[OF pre[OF new]] by simp
qed (simp_all add: drain_pending_def pending_ok_def)


section \<open>The registry (registry.rs)\<close>

definition max_pending_conversations :: nat where "max_pending_conversations = 64"
definition stopped_ttl :: nat where "stopped_ttl = secs (24 * 60 * 60)"

record active_run =
  ar_run_id :: string
  ar_handle :: nat

record conversations =
  current :: "(string \<times> active_run) list"
  pending_map :: "(string \<times> nat \<times> pending) list"
  stopped :: "(string \<times> nat) list"
  run_handles :: "nat \<Rightarrow> run_handle"

definition has_active_runs :: "conversations \<Rightarrow> bool" where
  "has_active_runs s = (current s \<noteq> [])"

definition cancel_handle :: "nat \<Rightarrow> conversations \<Rightarrow> conversations" where
  "cancel_handle h s = s\<lparr>run_handles := (run_handles s)(h := cancel (run_handles s h))\<rparr>"

definition activate :: "string \<Rightarrow> string \<Rightarrow> nat \<Rightarrow> conversations \<Rightarrow> conversations" where
  "activate conv run h s =
     (let previous = map_of (current s) conv;
          s' = s\<lparr>current := AList.update conv \<lparr>ar_run_id = run, ar_handle = h\<rparr> (current s)\<rparr>
      in case previous of
           Some p \<Rightarrow> (if ar_run_id p \<noteq> run then cancel_handle (ar_handle p) s' else s')
         | None \<Rightarrow> s')"

definition mark_stopped :: "nat \<Rightarrow> string \<Rightarrow> conversations \<Rightarrow> conversations" where
  "mark_stopped now conv s =
     s\<lparr>stopped := AList.update conv now (filter (\<lambda>e. now - snd e < stopped_ttl) (stopped s))\<rparr>"

definition clear_stopped :: "string \<Rightarrow> conversations \<Rightarrow> conversations" where
  "clear_stopped conv s = s\<lparr>stopped := AList.delete conv (stopped s)\<rparr>"

definition is_stopped :: "nat \<Rightarrow> string \<Rightarrow> conversations \<Rightarrow> bool \<times> conversations" where
  "is_stopped now conv s =
     (case map_of (stopped s) conv of
        Some at \<Rightarrow> (if now - at < stopped_ttl then (True, s)
                   else (False, s\<lparr>stopped := AList.delete conv (stopped s)\<rparr>))
      | None \<Rightarrow> (False, s))"

text \<open>\<open>min_by_key\<close> over the pending map: the first entry with the least time.\<close>

fun longest_waiting :: "(string \<times> nat \<times> pending) list \<Rightarrow> (string \<times> nat \<times> pending) option" where
  "longest_waiting [] = None"
| "longest_waiting (e # es) =
     (case longest_waiting es of
        None \<Rightarrow> Some e
      | Some m \<Rightarrow> (if fst (snd e) \<le> fst (snd m) then Some e else Some m))"

definition make_room :: "string \<Rightarrow> (string \<times> nat \<times> pending) list \<Rightarrow> (string \<times> nat \<times> pending) list" where
  "make_room conv m =
     (if map_of m conv = None \<and> length m \<ge> max_pending_conversations
      then (case longest_waiting m of Some e \<Rightarrow> AList.delete (fst e) m | None \<Rightarrow> m)
      else m)"

definition queue_pending :: "nat \<Rightarrow> string \<Rightarrow> compiled \<Rightarrow> conversations \<Rightarrow> conversations" where
  "queue_pending now conv c s =
     (let m = make_room conv (pending_map s);
          entry = (case map_of m conv of Some e \<Rightarrow> e | None \<Rightarrow> (now, pending_empty))
      in s\<lparr>pending_map := AList.update conv (fst entry, snd (push_pending c (snd entry))) m\<rparr>)"

text \<open>
  \<open>deliver\<close>. The reply of the engine and the phase of the run when it was dropped unanswered are
  arguments of the run handle; \<open>others\<close> is what happened to the registry while waiting for it.
\<close>

definition deliver ::
    "nat \<Rightarrow> string \<Rightarrow> compiled \<Rightarrow> command_result option \<Rightarrow> run_phase \<Rightarrow> (conversations \<Rightarrow> conversations)
     \<Rightarrow> conversations \<Rightarrow> command_result \<times> conversations" where
  "deliver now conv c reply phase_then others s =
     (if cm_delivery c = Ignore then (Applied, s)
      else case map_of (current s) conv of
        None \<Rightarrow> (RunEnded, queue_pending now conv c s)
      | Some active \<Rightarrow>
          (if (case cm_target_run c of Some target \<Rightarrow> target \<noteq> ar_run_id active | None \<Rightarrow> False)
           then (StaleTarget, s)
           else
             let submit = (if cm_delivery c = Insert then insert_messages else break_messages);
                 (r, h) = submit (cm_event_id c) (cm_messages c) reply phase_then
                                 (run_handles s (ar_handle active));
                 s' = others (s\<lparr>run_handles := (run_handles s)(ar_handle active := h)\<rparr>)
             in (r, if r = RunClosing \<or> r = RunEnded then queue_pending now conv c s' else s')))"

definition deliver_wake ::
    "nat \<Rightarrow> string \<Rightarrow> compiled \<Rightarrow> command_result option \<Rightarrow> run_phase \<Rightarrow> (conversations \<Rightarrow> conversations)
     \<Rightarrow> conversations \<Rightarrow> command_result \<times> conversations" where
  "deliver_wake now conv c reply phase_then others s =
     (case is_stopped now conv s of (st, s') \<Rightarrow>
        if st then (Suppressed, s') else deliver now conv c reply phase_then others s')"

definition release :: "string \<Rightarrow> string \<Rightarrow> conversations \<Rightarrow> conversations" where
  "release conv run s =
     (case map_of (current s) conv of
        Some a \<Rightarrow> (if ar_run_id a = run then s\<lparr>current := AList.delete conv (current s)\<rparr> else s)
      | None \<Rightarrow> s)"

definition take_pending :: "string \<Rightarrow> conversations \<Rightarrow> compiled list \<times> conversations" where
  "take_pending conv s =
     (case map_of (pending_map s) conv of
        None \<Rightarrow> ([], s)
      | Some e \<Rightarrow> (fst (drain_pending (snd e)), s\<lparr>pending_map := AList.delete conv (pending_map s)\<rparr>))"

definition conversations_shutdown :: "conversations \<Rightarrow> conversations" where
  "conversations_shutdown s =
     fold (\<lambda>e. cancel_handle (ar_handle (snd e))) (current s) (s\<lparr>current := []\<rparr>)"


section \<open>Subagent completions (subagents.rs)\<close>

definition notified_ttl :: nat where "notified_ttl = secs (6 * 60 * 60)"
definition notified_prune_at :: nat where "notified_prune_at = 4096"
definition notified_limit :: nat where "notified_limit = 8192"

type_synonym ledger = "(string \<times> nat) list"

definition prune_ledger :: "nat \<Rightarrow> ledger \<Rightarrow> ledger" where
  "prune_ledger now l =
     (if length l \<ge> notified_prune_at
      then let l' = filter (\<lambda>e. now - snd e < notified_ttl) l
           in if length l' \<ge> notified_limit then [] else l'
      else l)"

definition already_notified :: "nat \<Rightarrow> string \<Rightarrow> ledger \<Rightarrow> bool \<times> ledger" where
  "already_notified now event_id l =
     (let l' = prune_ledger now l
      in case map_of l' event_id of
           Some at \<Rightarrow> (if now - at < notified_ttl then (True, l') else (False, AList.update event_id now l'))
         | None \<Rightarrow> (False, AList.update event_id now l'))"

datatype transport_finish = FinishSuccess | FinishFailed string | FinishCancelled

datatype background_status = StatusSuccess | StatusError | StatusAborted

fun completion_status :: "transport_finish \<Rightarrow> background_status" where
  "completion_status FinishSuccess = StatusSuccess"
| "completion_status (FinishFailed _) = StatusError"
| "completion_status FinishCancelled = StatusAborted"

text \<open>The trimming of \<open>str::trim\<close> is an argument: it follows Unicode's White_Space property.\<close>

definition final_text :: "(string \<Rightarrow> string) \<Rightarrow> message list \<Rightarrow> string option" where
  "final_text trim ms =
     (case filter (\<lambda>m. case msg_content m of Assistant t _ _ _ _ \<Rightarrow> trim t \<noteq> [] | _ \<Rightarrow> False) (rev ms) of
        [] \<Rightarrow> None
      | m # _ \<Rightarrow> Some (trim (asst_text (msg_content m))))"


section \<open>Invariant\<close>

definition conversations_ok :: "conversations \<Rightarrow> bool" where
  "conversations_ok s \<longleftrightarrow>
     distinct (map fst (current s)) \<and> distinct (map fst (stopped s))
     \<and> distinct (map fst (pending_map s))
     \<and> length (pending_map s) \<le> max_pending_conversations
     \<and> (\<forall>e\<in>set (pending_map s). pending_ok (snd (snd e)))"

definition conversations_new :: "(nat \<Rightarrow> run_handle) \<Rightarrow> conversations" where
  "conversations_new h = \<lparr>current = [], pending_map = [], stopped = [], run_handles = h\<rparr>"

datatype conversation_event =
    Activate string string nat
  | MarkStopped nat string
  | ClearStopped string
  | CheckStopped nat string
  | QueuePending nat string compiled
  | Deliver nat string compiled "command_result option" run_phase
  | Release string string
  | TakePending string
  | RunStep nat "run_handle \<Rightarrow> run_handle"
  | ShutdownConversations

fun conversation_step :: "conversation_event \<Rightarrow> conversations \<Rightarrow> conversations" where
  "conversation_step (Activate c r h) s = activate c r h s"
| "conversation_step (MarkStopped t c) s = mark_stopped t c s"
| "conversation_step (ClearStopped c) s = clear_stopped c s"
| "conversation_step (CheckStopped t c) s = snd (is_stopped t c s)"
| "conversation_step (QueuePending t c m) s = queue_pending t c m s"
| "conversation_step (Deliver t c m reply ph) s = snd (deliver t c m reply ph id s)"
| "conversation_step (Release c r) s = release c r s"
| "conversation_step (TakePending c) s = snd (take_pending c s)"
| "conversation_step (RunStep h f) s = s\<lparr>run_handles := (run_handles s)(h := f (run_handles s h))\<rparr>"
| "conversation_step ShutdownConversations s = conversations_shutdown s"

lemma longest_waiting_mem: "longest_waiting m = Some e \<Longrightarrow> e \<in> set m"
  by (induction m arbitrary: e) (auto split: option.splits if_splits)

lemma longest_waiting_Some: "m \<noteq> [] \<Longrightarrow> \<exists>e. longest_waiting m = Some e"
  by (cases m) (auto split: option.splits)

lemma delete_length_mem: "k \<in> fst ` set m \<Longrightarrow> length (AList.delete k m) < length m"
  by (metis impossible_Cons length_delete_le linorder_neqE_nat not_less delete_keys
      length_map length_removeAll_less list.set_map)

lemma update_length: "length (AList.update k v m) = (if k \<in> fst ` set m then length m else Suc (length m))"
  by (induction m) auto

lemma update_values: "set (AList.update k v m) \<subseteq> insert (k, v) (set m)"
  by (induction m) auto

lemma delete_values: "set (AList.delete k m) \<subseteq> set m"
  by (simp add: AList.delete_eq)

lemma make_room_spec:
  assumes "distinct (map fst m)" "length m \<le> max_pending_conversations"
  shows "distinct (map fst (make_room c m)) \<and> set (make_room c m) \<subseteq> set m
    \<and> length (make_room c m) + (if c \<in> fst ` set (make_room c m) then 0 else 1) \<le> max_pending_conversations
    \<and> map_of (make_room c m) c = map_of m c"
proof (cases "map_of m c = None \<and> length m \<ge> max_pending_conversations")
  case True
  then have "m \<noteq> []" by (auto simp: max_pending_conversations_def)
  then obtain e where e: "longest_waiting m = Some e" "e \<in> set m"
    using longest_waiting_Some longest_waiting_mem by blast
  have "length (AList.delete (fst e) m) < length m"
    using e(2) by (intro delete_length_mem) auto
  then show ?thesis
    using True e assms delete_values[of "fst e" m]
    by (auto simp: make_room_def distinct_delete delete_conv')
next
  case False
  then have "make_room c m = m" by (auto simp: make_room_def)
  then show ?thesis using assms False by (auto simp: map_of_eq_None_iff)
qed

lemma queue_pending_ok: "conversations_ok s \<Longrightarrow> conversations_ok (queue_pending t c m s)"
proof -
  assume ok: "conversations_ok s"
  let ?m = "make_room c (pending_map s)"
  let ?e = "case map_of ?m c of Some e \<Rightarrow> e | None \<Rightarrow> (t, pending_empty)"
  have room: "distinct (map fst ?m)" "set ?m \<subseteq> set (pending_map s)"
      "length ?m + (if c \<in> fst ` set ?m then 0 else 1) \<le> max_pending_conversations"
    using make_room_spec[of "pending_map s" c] ok by (auto simp: conversations_ok_def)
  have "pending_ok (snd ?e)"
    using ok room(2) by (auto simp: conversations_ok_def pending_ok_def pending_empty_def
        split: option.split dest!: map_of_SomeD) force+
  then have new: "pending_ok (snd (push_pending m (snd ?e)))" by (rule pending_box.push_ok)
  define p where "p = (fst ?e, snd (push_pending m (snd ?e)))"
  have "\<forall>x\<in>set (AList.update c p ?m). pending_ok (snd (snd x))"
  proof
    fix x assume "x \<in> set (AList.update c p ?m)"
    then have "x = (c, p) \<or> x \<in> set (pending_map s)" using update_values[of c p ?m] room(2) by auto
    then show "pending_ok (snd (snd x))" using new ok by (auto simp: p_def conversations_ok_def)
  qed
  moreover have "queue_pending t c m s = s\<lparr>pending_map := AList.update c p ?m\<rparr>"
    by (simp add: queue_pending_def Let_def p_def)
  ultimately show ?thesis
    using ok room by (auto simp: conversations_ok_def distinct_update update_length)
qed

lemma cancel_handle_fields:
  "current (cancel_handle h s) = current s" "pending_map (cancel_handle h s) = pending_map s"
  "stopped (cancel_handle h s) = stopped s"
  by (simp_all add: cancel_handle_def)

lemma cancel_all_fields:
  "current (fold (\<lambda>e. cancel_handle (ar_handle (snd e))) es t) = current t
   \<and> pending_map (fold (\<lambda>e. cancel_handle (ar_handle (snd e))) es t) = pending_map t
   \<and> stopped (fold (\<lambda>e. cancel_handle (ar_handle (snd e))) es t) = stopped t"
  by (induction es arbitrary: t) (simp_all add: cancel_handle_fields)

lemma shutdown_fields:
  "current (conversations_shutdown s) = []" "pending_map (conversations_shutdown s) = pending_map s"
  "stopped (conversations_shutdown s) = stopped s"
  by (simp_all add: conversations_shutdown_def cancel_all_fields)

lemma conversations_ok_handles [simp]:
  "conversations_ok (s\<lparr>run_handles := h\<rparr>) = conversations_ok s"
  by (simp add: conversations_ok_def)

lemma conversation_step_ok: "conversations_ok s \<Longrightarrow> conversations_ok (conversation_step e s)"
proof (cases e)
  case (Deliver t c m reply ph)
  then show "conversations_ok s \<Longrightarrow> ?thesis"
    by (auto simp: deliver_def Let_def queue_pending_ok split: option.splits prod.splits)
next
  case (TakePending c)
  then show "conversations_ok s \<Longrightarrow> ?thesis"
    using length_delete_le[of c "pending_map s"] delete_values[of c "pending_map s"]
    by (auto simp: conversations_ok_def take_pending_def distinct_delete split: option.splits)
next
  case (MarkStopped t c)
  then show "conversations_ok s \<Longrightarrow> ?thesis"
    by (auto simp: conversations_ok_def mark_stopped_def distinct_update distinct_map_filter)
next
  case (QueuePending t c m)
  then show "conversations_ok s \<Longrightarrow> ?thesis" by (simp add: queue_pending_ok)
qed (auto simp: conversations_ok_def activate_def clear_stopped_def is_stopped_def
      release_def cancel_handle_fields shutdown_fields Let_def distinct_update distinct_delete
      split: option.splits)

interpretation conversation_registry: state_machine conversation_step conversations_ok
  by unfold_locales (rule conversation_step_ok)

lemma conversations_reachable: "conversations_ok (fold conversation_step es (conversations_new h))"
  by (rule conversation_registry.run_inv) (simp add: conversations_ok_def conversations_new_def)


section \<open>Properties\<close>

text \<open>
  Messages with distinct identities, pushed one by one, come out of the mailbox in the order they
  went in; when there are more than 256, exactly the newest 256 do; an identity already waiting is
  refused.
\<close>
theorem pending_keeps_newest:
  assumes "distinct (map cm_event_id ms)"
  shows "let p = fold (\<lambda>m p. snd (push_pending m p)) ms pending_empty in
     fst (drain_pending p) = take_last 256 ms
     \<and> queued (snd (drain_pending p)) = []
     \<and> (\<forall>m\<in>set (take_last 256 ms). push_pending m p = (False, p))"
proof -
  have empty: "pending_ok pending_empty" "queued pending_empty = []"
    by (simp_all add: pending_ok_def pending_empty_def)
  let ?p = "fold (\<lambda>m p. snd (push_pending m p)) ms pending_empty"
  have p: "queued ?p = take_last max_pending_messages ms" "pending_ok ?p"
    using pending_box.keeps_newest[of pending_empty "[]" ms] empty assms by simp_all
  then show ?thesis
    using pending_box.push_dup[OF p(2)] by (simp add: drain_pending_def max_pending_messages_def Let_def)
qed

lemma pending_keeps_newest_witness:
  "let ms = map (\<lambda>e. \<lparr>cm_event_id = e, cm_target_run = None, cm_messages = [], cm_delivery = Insert\<rparr>)
              [''a'', ''b'']
   in fst (drain_pending (fold (\<lambda>m p. snd (push_pending m p)) ms pending_empty)) = ms"
  using pending_keeps_newest[of "map (\<lambda>e. \<lparr>cm_event_id = e, cm_target_run = None, cm_messages = [],
      cm_delivery = Insert\<rparr>) [''a'', ''b'']"]
  by (simp add: Let_def)

lemma queue_pending_holds:
  assumes "conversations_ok s"
  shows "\<exists>t p. map_of (pending_map (queue_pending now conv c s)) conv = Some (t, p)
    \<and> cm_event_id c \<in> cm_event_id ` set (queued p)"
proof -
  let ?m = "make_room conv (pending_map s)"
  let ?e = "case map_of ?m conv of Some e \<Rightarrow> e | None \<Rightarrow> (now, pending_empty)"
  have "set ?m \<subseteq> set (pending_map s)"
    using make_room_spec[of "pending_map s" conv] assms by (auto simp: conversations_ok_def)
  then have "pending_ok (snd ?e)"
    using assms by (auto simp: conversations_ok_def pending_ok_def pending_empty_def
        split: option.split dest!: map_of_SomeD) force+
  then have "cm_event_id c \<in> cm_event_id ` set (queued (snd (push_pending c (snd ?e))))"
    by (rule pending_box.pushed_waits) (simp add: max_pending_messages_def)
  then show ?thesis by (auto simp: queue_pending_def Let_def update_conv')
qed

text \<open>
  Delivering a message to a conversation accounts for it. Without an active run, or when the run is
  closing or ended, it waits in the conversation's mailbox for the next run; when the run took it, it
  is the last command in that run's queue; when it was meant for another run, nothing changes.
\<close>
theorem deliver_accounts_for_message:
  assumes "s = fold conversation_step es (conversations_new h)" "cm_delivery c \<noteq> Ignore"
    and "deliver now conv c reply phase id s = (r, s')"
  shows "(r \<in> {RunEnded, RunClosing} \<longrightarrow>
      (\<exists>t p. map_of (pending_map s') conv = Some (t, p) \<and> cm_event_id c \<in> cm_event_id ` set (queued p)))
    \<and> (map_of (current s) conv = None \<longrightarrow> r = RunEnded)
    \<and> (\<forall>a. map_of (current s) conv = Some a \<longrightarrow>
        (cm_target_run c \<noteq> None \<and> cm_target_run c \<noteq> Some (ar_run_id a) \<longrightarrow> r = StaleTarget \<and> s' = s)
        \<and> (r = Applied \<longrightarrow> last (rh_commands (run_handles s' (ar_handle a)))
              = message_command (cm_event_id c) (cm_messages c) (cm_delivery c = Break)))"
proof (cases "map_of (current s) conv")
  case None
  then have "(r, s') = (RunEnded, queue_pending now conv c s)"
    using assms(2,3) by (simp add: deliver_def)
  then show ?thesis using None queue_pending_holds[OF conversations_reachable] assms(1) by auto
next
  case (Some a)
  show ?thesis
  proof (cases "case cm_target_run c of Some target \<Rightarrow> target \<noteq> ar_run_id a | None \<Rightarrow> False")
    case True
    then show ?thesis using assms(2,3) Some by (auto simp: deliver_def split: option.splits)
  next
    case False
    let ?msg = "message_command (cm_event_id c) (cm_messages c) (cm_delivery c = Break)"
    obtain r1 h1 where sub: "submit_messages (cm_event_id c) (cm_messages c) (cm_delivery c = Break) reply phase
        (run_handles s (ar_handle a)) = (r1, h1)" by force
    let ?s = "s\<lparr>run_handles := (run_handles s)(ar_handle a := h1)\<rparr>"
    have "(if cm_delivery c = Insert then insert_messages else break_messages) (cm_event_id c) (cm_messages c)
        reply phase (run_handles s (ar_handle a)) = (r1, h1)"
      using sub assms(2) by (cases "cm_delivery c") (auto simp: insert_messages_def break_messages_def)
    then have res: "r = r1" "s' = (if r1 = RunClosing \<or> r1 = RunEnded then queue_pending now conv c ?s else ?s)"
      using assms(2,3) Some False by (auto simp: deliver_def Let_def)
    have "conversations_ok ?s" using conversations_reachable assms(1) by simp
    note holds = queue_pending_holds[OF this, of now conv c]
    have "r1 = Applied \<Longrightarrow> last (rh_commands h1) = ?msg"
      using sub by (auto simp: submit_messages_def send_in_phase_def send_command_def
          split: run_phase.splits if_splits)
    then show ?thesis using res holds Some False by (auto split: if_splits option.splits)
  qed
qed

lemma deliver_accounts_for_message_witness:
  "let c = \<lparr>cm_event_id = ''e'', cm_target_run = None, cm_messages = [], cm_delivery = Insert\<rparr>;
       (r, s') = deliver 7 ''conv'' c None Running id (conversations_new (\<lambda>_. run_handle_new ''r''))
   in r = RunEnded \<and> (\<exists>t p. map_of (pending_map s') ''conv'' = Some (t, p) \<and> ''e'' \<in> cm_event_id ` set (queued p))"
  using deliver_accounts_for_message[where es = "[]" and h = "\<lambda>_. run_handle_new ''r''"
      and c = "\<lparr>cm_event_id = ''e'', cm_target_run = None, cm_messages = [], cm_delivery = Insert\<rparr>"
      and now = 7 and conv = "''conv''" and reply = None and phase = Running, OF refl _ prod.collapse[symmetric]]
  by (simp add: conversations_new_def case_prod_unfold Let_def)

text \<open>The events after which a stop mark may no longer hold: a clear or a new mark of the conversation, and checks so late that it has expired.\<close>

fun lifts_stop :: "nat \<Rightarrow> string \<Rightarrow> conversation_event \<Rightarrow> bool" where
  "lifts_stop t conv (ClearStopped c) = (c = conv)"
| "lifts_stop t conv (MarkStopped t' c) = (c = conv \<or> t + stopped_ttl \<le> t')"
| "lifts_stop t conv (CheckStopped t' c) = (t + stopped_ttl \<le> t')"
| "lifts_stop t conv _ = False"

lemma stop_mark_stays:
  "map_of (stopped s) conv = Some t \<Longrightarrow> \<not> lifts_stop t conv e
   \<Longrightarrow> map_of (stopped (conversation_step e s)) conv = Some t"
proof (cases e)
  case (MarkStopped t' c)
  assume "map_of (stopped s) conv = Some t" "\<not> lifts_stop t conv e"
  then show ?thesis
    using MarkStopped
    by (auto simp: mark_stopped_def update_conv' map_of_filter_in stopped_ttl_def secs_def)
qed (auto simp: activate_def clear_stopped_def is_stopped_def queue_pending_def deliver_def release_def
      take_pending_def cancel_handle_def shutdown_fields delete_conv' Let_def stopped_ttl_def secs_def
      split: option.splits prod.splits)

text \<open>
  A conversation the user stopped stays asleep: until it is cleared or a day has passed, whatever
  else happens, a subagent's wake-up is suppressed and changes nothing; cleared, it is delivered.
\<close>
theorem stopped_conversation_stays_asleep:
  assumes "\<forall>e\<in>set es. \<not> lifts_stop t conv e" "now < t + secs 86400"
  shows "let s = fold conversation_step es (mark_stopped t conv s0) in
     deliver_wake now conv c reply phase others s = (Suppressed, s)
     \<and> deliver_wake now conv c reply phase others (clear_stopped conv s)
         = deliver now conv c reply phase others (clear_stopped conv s)"
proof -
  let ?s = "fold conversation_step es (mark_stopped t conv s0)"
  have "map_of (stopped ?s) conv = Some t"
    by (rule fold_invariant_all)
       (use assms(1) in \<open>auto simp: mark_stopped_def update_conv' stop_mark_stays\<close>)
  moreover have "now - t < stopped_ttl"
    using assms(2) by (auto simp: stopped_ttl_def secs_def)
  ultimately show ?thesis
    by (simp add: deliver_wake_def is_stopped_def clear_stopped_def delete_conv' Let_def)
qed

lemma stopped_conversation_stays_asleep_witness:
  "let s = fold conversation_step [Release ''c'' ''r'']
             (mark_stopped 5 ''c'' (conversations_new (\<lambda>_. run_handle_new ''r'')));
       m = \<lparr>cm_event_id = ''e'', cm_target_run = None, cm_messages = [], cm_delivery = Insert\<rparr>
   in deliver_wake 9 ''c'' m None Running id s = (Suppressed, s)"
  using stopped_conversation_stays_asleep[of "[Release ''c'' ''r'']" 5 "''c''" 9
      "conversations_new (\<lambda>_. run_handle_new ''r'')"
      "\<lparr>cm_event_id = ''e'', cm_target_run = None, cm_messages = [], cm_delivery = Insert\<rparr>" None Running id]
  by (simp add: secs_def Let_def)

lemma prune_ledger_bounds:
  "length l \<le> notified_limit \<Longrightarrow> length (prune_ledger now l) < notified_limit"
  using length_filter_le[of "\<lambda>e. now - snd e < notified_ttl" l]
  by (auto simp: prune_ledger_def Let_def notified_limit_def notified_prune_at_def)

lemma already_notified_length: "length l \<le> notified_limit \<Longrightarrow> length (snd (already_notified now e l)) \<le> notified_limit"
  using prune_ledger_bounds[of l now]
  by (auto simp: already_notified_def Let_def update_length split: option.splits)

fun notify_all :: "(nat \<times> string) list \<Rightarrow> ledger \<Rightarrow> ledger" where
  "notify_all [] l = l"
| "notify_all ((now, e) # ns) l = notify_all ns (snd (already_notified now e l))"

lemma prune_keeps:
  assumes "distinct (map fst l)" "map_of l e = Some t" "now - t < notified_ttl" "length l < notified_limit"
  shows "map_of (prune_ledger now l) e = Some t"
    and "distinct (map fst (prune_ledger now l))" and "length (prune_ledger now l) \<le> length l"
proof -
  have "length (filter (\<lambda>e. now - snd e < notified_ttl) l) < notified_limit"
    using assms(4) length_filter_le le_less_trans by blast
  then show "map_of (prune_ledger now l) e = Some t"
    "distinct (map fst (prune_ledger now l))" "length (prune_ledger now l) \<le> length l"
    using assms by (auto simp: prune_ledger_def Let_def map_of_filter_in distinct_map_filter)
qed

lemma notify_all_keeps:
  assumes "distinct (map fst l)" "map_of l e = Some t" "\<forall>n\<in>set ns. fst n - t < notified_ttl"
    "length l + length ns \<le> notified_limit"
  shows "map_of (notify_all ns l) e = Some t \<and> length (notify_all ns l) \<le> length l + length ns
    \<and> distinct (map fst (notify_all ns l))"
  using assms
proof (induction ns arbitrary: l)
  case (Cons n ns)
  obtain now k where n: "n = (now, k)" by force
  have young: "now - t < notified_ttl" and room: "length l < notified_limit"
    using Cons.prems(3,4) n by auto
  note pr = prune_keeps[OF Cons.prems(1,2) young room]
  let ?l = "snd (already_notified now k l)"
  have "distinct (map fst ?l) \<and> map_of ?l e = Some t \<and> length ?l \<le> Suc (length l)"
    using pr young
    by (cases "k = e") (auto simp: already_notified_def Let_def distinct_update update_length update_conv'
        simp del: map_of_eq_Some_iff split: option.splits)
  then show ?case using Cons.IH[of ?l] Cons.prems(3,4) n by auto
qed auto

text \<open>
  A finished subagent is announced once. After an identity was first notified, every later query
  within six hours answers that it was, with any other notifications in between as long as the ledger
  does not overflow; and the ledger never holds more than 8192 identities.
\<close>
theorem notified_once:
  assumes "distinct (map fst l)" "already_notified t e l = (False, l')"
    and "\<forall>n\<in>set ns. fst n < t + secs 21600" "now < t + secs 21600"
    and "length l' + length ns < 8192"
  shows "fst (already_notified now e (notify_all ns l'))
    \<and> length (snd (already_notified now e (notify_all ns l'))) \<le> 8192"
proof -
  have ttl: "x < t + secs 21600 \<Longrightarrow> x - t < notified_ttl" for x
    by (auto simp: notified_ttl_def secs_def)
  have d0: "distinct (map fst (prune_ledger t l))"
    using assms(1) by (auto simp: prune_ledger_def Let_def distinct_map_filter)
  have l': "map_of l' e = Some t" "distinct (map fst l')"
    using assms(2) d0 by (auto simp: already_notified_def Let_def update_conv' distinct_update
        split: option.splits if_splits)
  have k: "map_of (notify_all ns l') e = Some t" "length (notify_all ns l') \<le> length l' + length ns"
      "distinct (map fst (notify_all ns l'))"
    using notify_all_keeps[OF l'(2,1), of ns] assms(3,5) ttl by (auto simp: notified_limit_def)
  have "length (notify_all ns l') < notified_limit" using k(2) assms(5) by (simp add: notified_limit_def)
  then have "map_of (prune_ledger now (notify_all ns l')) e = Some t"
    using prune_keeps(1)[OF k(3,1) ttl[OF assms(4)]] by simp
  then show ?thesis
    using ttl[OF assms(4)] already_notified_length[of "notify_all ns l'" now e] k(2) assms(5)
    by (simp add: already_notified_def Let_def notified_limit_def)
qed

lemma notified_once_witness:
  "fst (already_notified 9 ''e'' (notify_all [(8, ''f'')] [(''e'', 5)]))"
  using notified_once[of "[]" 5 "''e''" "[(''e'', 5)]" "[(8, ''f'')]" 9]
  by (simp add: already_notified_def prune_ledger_def notified_prune_at_def secs_def)

end
