(* ===== verification/Bytes.thy ===== *)
theory Bytes
  imports Prelude
begin

text \<open>
  Byte sequences, big-endian lengths, and the interface of a codec of consecutive items: what a decoder of
  one item must promise for the loop over a whole input to give back the items written.
\<close>

unbundle bit_operations_syntax

type_synonym bytes = "8 word list"


section \<open>Big-endian lengths\<close>

text \<open>\<open>u32::to_be_bytes\<close> and \<open>u32::from_be_bytes\<close>.\<close>

definition be32 :: "nat \<Rightarrow> bytes" where
  "be32 n = [word_of_nat (n div 2 ^ 24), word_of_nat (n div 2 ^ 16), word_of_nat (n div 2 ^ 8), word_of_nat n]"

definition read_be32 :: "bytes \<Rightarrow> nat" where
  "read_be32 b = unat (b ! 0) * 2 ^ 24 + unat (b ! 1) * 2 ^ 16 + unat (b ! 2) * 2 ^ 8 + unat (b ! 3)"

definition u32_max :: nat where "u32_max = 2 ^ 32 - 1"

lemma be32_length [simp]: "length (be32 n) = 4"
  by (simp add: be32_def)

lemma read_be32_append [simp]: "length a = 4 \<Longrightarrow> read_be32 (a @ b) = read_be32 a"
  by (simp add: read_be32_def nth_append)

lemma read_be32_take: "read_be32 (take 4 b) = read_be32 b" if "4 \<le> length b"
  using that by (simp add: read_be32_def)

lemma read_be32_Horner:
  "read_be32 b = ((unat (b ! 0) * 256 + unat (b ! 1)) * 256 + unat (b ! 2)) * 256 + unat (b ! 3)"
  by (simp add: read_be32_def)

lemma byte_less: "unat (w :: 8 word) < 256"
  using unsigned_less[of w] by simp

lemma word_of_nat_byte [simp]: "(word_of_nat (x * 256 + unat w) :: 8 word) = w"
proof -
  have "(256 :: 8 word) = 0" by (rule word_unat_eq_iff[THEN iffD2]) (simp add: unat_of_nat)
  moreover have "(word_of_nat (x * 256 + unat w) :: 8 word) = word_of_nat x * 256 + w" by simp
  ultimately show ?thesis by (simp only: mult_zero_right add_0)
qed

lemma read_be32_be32: "n \<le> u32_max \<Longrightarrow> read_be32 (be32 n) = n"
proof -
  assume n: "n \<le> u32_max"
  have d: "n div 2 ^ 16 = n div 2 ^ 8 div 256" "n div 2 ^ 24 = n div 2 ^ 8 div 256 div 256"
    by (simp_all add: div_mult2_eq[symmetric])
  have "n div 2 ^ 8 div 256 div 256 < 256" using n by (simp add: u32_max_def div_mult2_eq[symmetric])
  then show ?thesis
    unfolding read_be32_Horner be32_def by (simp add: unat_of_nat d[simplified])
qed

lemma be32_read_be32: "length b = 4 \<Longrightarrow> be32 (read_be32 b) = b"
proof -
  assume l: "length b = 4"
  let ?h = "unat (b ! 0)" let ?i = "?h * 256 + unat (b ! 1)" let ?j = "?i * 256 + unat (b ! 2)"
  have "read_be32 b = ?j * 256 + unat (b ! 3)" by (simp add: read_be32_Horner)
  moreover from this have "read_be32 b div 2 ^ 8 = ?j" using byte_less[of "b ! 3"] by simp
  moreover from this have "read_be32 b div 2 ^ 16 = ?i"
    using byte_less[of "b ! 2"] div_mult2_eq[of "read_be32 b" "2 ^ 8" 256] by simp
  moreover from this have "read_be32 b div 2 ^ 24 = ?h"
    using byte_less[of "b ! 1"] div_mult2_eq[of "read_be32 b" "2 ^ 16" 256] by simp
  ultimately have "be32 (read_be32 b) = [b ! 0, b ! 1, b ! 2, b ! 3]"
    unfolding be32_def by (simp only: word_of_nat_byte) simp
  also have "\<dots> = b" using l by (intro nth_equalityI) (auto simp: less_Suc_eq numeral_eq_Suc)
  finally show ?thesis .
qed

lemma read_be32_le: "read_be32 b \<le> u32_max"
  using byte_less[of "b ! 0"] byte_less[of "b ! 1"] byte_less[of "b ! 2"] byte_less[of "b ! 3"]
  unfolding read_be32_Horner u32_max_def by simp


section \<open>Codecs of consecutive items\<close>

text \<open>
  A decoder reads one item off what its cursor has left; a loop repeats it until nothing is left. When the
  decoder inverts the encoding of a good item whatever follows it, the loop inverts a concatenation.
\<close>

locale stream_codec =
  fixes enc :: "'x \<Rightarrow> bytes" and good :: "'x \<Rightarrow> bool"
    and dec :: "'s \<Rightarrow> 'e + 'x \<times> 's" and left :: "'s \<Rightarrow> bytes" and ok :: "'s \<Rightarrow> bool"
    and loop :: "'s \<Rightarrow> 'e + 'x list"
  assumes loop_unfold: "ok s \<Longrightarrow> loop s =
      (if left s = [] then Inr [] else rbind (dec s) (\<lambda>(x, s'). rbind (loop s') (\<lambda>xs. Inr (x # xs))))"
    and enc_nonempty: "good x \<Longrightarrow> enc x \<noteq> []"
    and dec_enc: "ok s \<Longrightarrow> good x \<Longrightarrow> left s = enc x @ q \<Longrightarrow> \<exists>s'. dec s = Inr (x, s') \<and> left s' = q \<and> ok s'"
begin

lemma loop_enc: "ok s \<Longrightarrow> list_all good xs \<Longrightarrow> left s = concat (map enc xs) \<Longrightarrow> loop s = Inr xs"
proof (induction xs arbitrary: s)
  case Nil
  then show ?case by (simp add: loop_unfold)
next
  case (Cons x xs)
  then obtain s' where s': "dec s = Inr (x, s')" "left s' = concat (map enc xs)" "ok s'"
    using dec_enc[of s x "concat (map enc xs)"] by auto
  then have "loop s' = Inr xs" using Cons.IH Cons.prems(2) by simp
  then show ?case using s' Cons.prems enc_nonempty[of x] by (simp add: loop_unfold)
qed

end

text \<open>A decoder whose items are good and never shorter in the input than in their encoding.\<close>

locale sized_codec = stream_codec enc good dec left ok loop
  for enc :: "'x \<Rightarrow> bytes" and good :: "'x \<Rightarrow> bool"
    and dec :: "'s \<Rightarrow> 'e + 'x \<times> 's" and left :: "'s \<Rightarrow> bytes" and ok :: "'s \<Rightarrow> bool"
    and loop :: "'s \<Rightarrow> 'e + 'x list" +
  assumes dec_sized: "ok s \<Longrightarrow> left s \<noteq> [] \<Longrightarrow> dec s = Inr (x, s') \<Longrightarrow>
      good x \<and> ok s' \<and> length (enc x) + length (left s') \<le> length (left s)"
begin

lemma loop_sized:
  "ok s \<Longrightarrow> loop s = Inr xs \<Longrightarrow> list_all good xs \<and> length (concat (map enc xs)) \<le> length (left s)"
proof (induction xs arbitrary: s)
  case (Cons x xs)
  then have "left s \<noteq> []" by (auto simp: loop_unfold)
  then obtain s' where s': "dec s = Inr (x, s')" "loop s' = Inr xs"
    using Cons.prems by (auto simp: loop_unfold)
  then show ?case
    using dec_sized[OF Cons.prems(1) \<open>left s \<noteq> []\<close> s'(1)] Cons.IH[of s'] by auto
qed simp

end

text \<open>A decoder that accepts nothing but encodings of good items.\<close>

locale exact_codec = stream_codec enc good dec left ok loop
  for enc :: "'x \<Rightarrow> bytes" and good :: "'x \<Rightarrow> bool"
    and dec :: "'s \<Rightarrow> 'e + 'x \<times> 's" and left :: "'s \<Rightarrow> bytes" and ok :: "'s \<Rightarrow> bool"
    and loop :: "'s \<Rightarrow> 'e + 'x list" +
  assumes dec_exact: "ok s \<Longrightarrow> left s \<noteq> [] \<Longrightarrow> dec s = Inr (x, s') \<Longrightarrow>
      good x \<and> ok s' \<and> left s = enc x @ left s'"

sublocale exact_codec \<subseteq> sized_codec
  by unfold_locales (use dec_exact in force)

context exact_codec
begin

lemma loop_exact:
  "ok s \<Longrightarrow> loop s = Inr xs \<longleftrightarrow> list_all good xs \<and> left s = concat (map enc xs)"
proof
  show "ok s \<Longrightarrow> loop s = Inr xs \<Longrightarrow> list_all good xs \<and> left s = concat (map enc xs)"
  proof (induction xs arbitrary: s)
    case Nil
    then show ?case by (auto simp: loop_unfold split: if_splits)
  next
    case (Cons x xs)
    then have "left s \<noteq> []" by (auto simp: loop_unfold)
    then obtain s' where s': "dec s = Inr (x, s')" "loop s' = Inr xs"
      using Cons.prems by (auto simp: loop_unfold)
    then show ?case
      using dec_exact[OF Cons.prems(1) \<open>left s \<noteq> []\<close> s'(1)] Cons.IH[of s'] by auto
  qed
qed (use loop_enc in blast)

end

end
