(* ===== verification/Db.thy ===== *)
theory Db
  imports Model Bytes
begin

text \<open>
  The part of the SQLite database that conversations live in (src/server/src/store/conversations.rs,
  messages.rs; schema in server/migrations). Tables are lists of rows in insertion order; a query is a
  filter or a find, an UPDATE a map. A transaction is a function from the database to an error or a
  value with the new database: an error leaves the database as it was (rollback). Column timestamps
  are kept where a query reads them. The store's codec (serde_json and SHA-256) is a parameter.
\<close>

section \<open>Codec\<close>

record codec =
  ser :: "message \<Rightarrow> bytes"
  de :: "bytes \<Rightarrow> message option"
  sha :: "bytes \<Rightarrow> bytes"

text \<open>
  The provider parts of a tool result are not serialized (serde's skip): what comes back is the message
  without them.
\<close>

definition skip_parts :: "message \<Rightarrow> message" where
  "skip_parts m =
     (case msg_content m of
        ToolResult r \<Rightarrow> m\<lparr>msg_content := ToolResult (r\<lparr>tr_provider_parts := []\<rparr>)\<rparr>
      | _ \<Rightarrow> m)"

definition codec_ok :: "codec \<Rightarrow> bool" where
  "codec_ok c \<longleftrightarrow> (\<forall>m. de c (ser c m) = Some (skip_parts m))"

lemma skip_parts_ids [simp]:
  "message_id (skip_parts m) = message_id m" "runtime_event_id (skip_parts m) = runtime_event_id m"
  by (auto simp: skip_parts_def split: message_content.splits)

lemma skip_parts_idem [simp]: "skip_parts (skip_parts m) = skip_parts m"
  by (auto simp: skip_parts_def split: message_content.splits)

lemma ser_ids:
  "codec_ok c \<Longrightarrow> ser c m = ser c m' \<Longrightarrow> skip_parts m = skip_parts m'"
  by (metis codec_ok_def option.inject)


section \<open>Rows\<close>

record conversation_row =
  cv_id :: string
  cv_current :: "int option"
  cv_active_run :: "string option"

record checkpoint_row =
  cp_id :: int
  cp_conversation :: string
  cp_parent :: "int option"
  cp_digest :: bytes

record message_row =
  mr_conversation :: string
  mr_id :: string
  mr_role :: role
  mr_origin :: origin
  mr_payload :: bytes
  mr_event :: "string option"

record checkpoint_message_row =
  cm_checkpoint :: int
  cm_ordinal :: nat
  cm_conversation :: string
  cm_message :: string

datatype run_status = RunRunning | RunCompleted | RunCancelled | RunFailed

record run_row =
  run_id :: string
  run_request :: "string option"
  run_conversation :: string
  run_base :: int
  run_head :: int
  run_parent_run :: "string option"
  run_parent_call :: "string option"
  run_is_subagent :: bool
  run_subagent_kind :: "string option"
  run_status :: run_status
  run_call_index :: int
  run_failure_category :: "string option"
  run_failure_summary :: "string option"
  run_created :: int
  run_updated :: int

datatype call_state = CallPending | CallCompleted

record round_row =
  rd_id :: string
  rd_run :: string
  rd_base :: int
  rd_assistant :: tool_round_assistant
  rd_settled :: bool
  rd_version :: int
  rd_next_seq :: int
  rd_created :: int

record round_call_row =
  rc_round :: string
  rc_index :: nat
  rc_call_id :: string
  rc_model_call_id :: string
  rc_name :: string
  rc_arguments :: json
  rc_argument_error :: "string option"
  rc_state :: call_state
  rc_seq :: "int option"
  rc_content :: "string option"
  rc_is_error :: "bool option"
  rc_committed :: "int option"
  rc_completed_at :: "int option"

datatype llm_status = LlmRunning | LlmCancelled | LlmError | LlmCompleted

record llm_call_row =
  llm_run :: string
  llm_status :: llm_status
  llm_created :: int
  llm_finished :: "int option"
  llm_duration :: "int option"
  llm_error_kind :: "string option"
  llm_error_message :: "string option"

record trace_row =
  trace_running :: bool
  trace_received :: int
  trace_error :: "string option"

record db =
  conversations_t :: "conversation_row list"
  checkpoints_t :: "checkpoint_row list"
  next_checkpoint :: int
  messages_t :: "message_row list"
  checkpoint_messages_t :: "checkpoint_message_row list"
  image_blobs_t :: "(string \<times> string) list"
  runs_t :: "run_row list"
  rounds_t :: "round_row list"
  round_calls_t :: "round_call_row list"
  llm_calls_t :: "llm_call_row list"
  traces_t :: "trace_row list"

definition db_empty :: db where
  "db_empty =
     \<lparr>conversations_t = [], checkpoints_t = [], next_checkpoint = 1, messages_t = [],
      checkpoint_messages_t = [], image_blobs_t = [], runs_t = [], rounds_t = [], round_calls_t = [],
      llm_calls_t = [], traces_t = []\<rparr>"

type_synonym 'a tx = "db \<Rightarrow> ('a \<times> db) result"

text \<open>UPDATE ... WHERE: the rows that match are changed; the count of them is what the source checks.\<close>

definition update_where :: "('r \<Rightarrow> bool) \<Rightarrow> ('r \<Rightarrow> 'r) \<Rightarrow> 'r list \<Rightarrow> 'r list" where
  "update_where p f rows = map (\<lambda>r. if p r then f r else r) rows"

definition count_where :: "('r \<Rightarrow> bool) \<Rightarrow> 'r list \<Rightarrow> nat" where
  "count_where p rows = length (filter p rows)"

lemma update_where_simps [simp]:
  "update_where p f [] = []"
  "update_where p f (r # rs) = (if p r then f r else r) # update_where p f rs"
  "length (update_where p f rows) = length rows"
  by (simp_all add: update_where_def)

lemma set_update_where: "set (update_where p f rows) = (\<lambda>r. if p r then f r else r) ` set rows"
  by (simp add: update_where_def)

lemma map_update_where: "(\<And>r. g (f r) = g r) \<Longrightarrow> map g (update_where p f rows) = map g rows"
  by (simp add: update_where_def)

lemma count_where_pos: "0 < count_where p rows \<longleftrightarrow> (\<exists>r\<in>set rows. p r)"
  by (auto simp: count_where_def filter_empty_conv)


section \<open>Conversations (conversations.rs)\<close>

definition find_conversation :: "string \<Rightarrow> db \<Rightarrow> conversation_row option" where
  "find_conversation conv s = find (\<lambda>r. cv_id r = conv) (conversations_t s)"

text \<open>\<open>Store::conversation\<close>; a row always has a checkpoint once its creation committed.\<close>

definition conversation :: "string \<Rightarrow> db \<Rightarrow> (string \<times> int option \<times> string option) option" where
  "conversation conv s = map_option (\<lambda>r. (conv, cv_current r, cv_active_run r)) (find_conversation conv s)"

definition root_digest :: "codec \<Rightarrow> bytes" where
  "root_digest c = sha c []"

definition has_digest :: "string \<Rightarrow> bytes \<Rightarrow> db \<Rightarrow> int option" where
  "has_digest conv d s =
     map_option cp_id (find (\<lambda>r. cp_conversation r = conv \<and> cp_digest r = d) (checkpoints_t s))"

definition unique_violation :: error where
  "unique_violation = Database ''UNIQUE constraint failed''"

text \<open>INSERT INTO conversation_checkpoints: the new row id; a digest is unique in its conversation.\<close>

definition insert_checkpoint_row :: "string \<Rightarrow> int option \<Rightarrow> bytes \<Rightarrow> int tx" where
  "insert_checkpoint_row conv parent d s =
     (if has_digest conv d s \<noteq> None then Inl unique_violation
      else Inr (next_checkpoint s,
                s\<lparr>checkpoints_t := checkpoints_t s @
                    [\<lparr>cp_id = next_checkpoint s, cp_conversation = conv, cp_parent = parent, cp_digest = d\<rparr>],
                  next_checkpoint := next_checkpoint s + 1\<rparr>))"

definition ensure_conversation_tx :: "codec \<Rightarrow> string \<Rightarrow> checkpoint_id tx" where
  "ensure_conversation_tx c conv s =
     (let s1 = (if find_conversation conv s = None
                then s\<lparr>conversations_t := conversations_t s @
                         [\<lparr>cv_id = conv, cv_current = None, cv_active_run = None\<rparr>]\<rparr> else s)
      in case find_conversation conv s1 of
           None \<Rightarrow> Inl (Database ''no rows returned'')
         | Some r \<Rightarrow>
             (case cv_current r of
                Some cur \<Rightarrow> Inr (CheckpointId cur, s1)
              | None \<Rightarrow>
                  rbind (insert_checkpoint_row conv None (root_digest c) s1) (\<lambda>(root, s2).
                    Inr (CheckpointId root,
                         s2\<lparr>conversations_t := update_where (\<lambda>r. cv_id r = conv \<and> cv_current r = None)
                              (\<lambda>r. r\<lparr>cv_current := Some root\<rparr>) (conversations_t s2)\<rparr>))))"

definition ownership_error :: "string \<Rightarrow> string \<Rightarrow> checkpoint_id \<Rightarrow> error" where
  "ownership_error run conv expected =
     Store (''run '' @ run @ '' no longer owns conversation '' @ conv @ '' at checkpoint ''
            @ show_int (checkpoint_int expected))"

definition require_active_head_tx :: "string \<Rightarrow> string \<Rightarrow> checkpoint_id \<Rightarrow> unit tx" where
  "require_active_head_tx conv run expected s =
     (case find_conversation conv s of
        Some r \<Rightarrow>
          (if cv_current r = Some (checkpoint_int expected) \<and> cv_active_run r = Some run
           then Inr ((), s) else Inl (ownership_error run conv expected))
      | None \<Rightarrow> Inl (ownership_error run conv expected))"


section \<open>Messages (messages.rs)\<close>

definition message_image_blob_id :: "message \<Rightarrow> string option" where
  "message_image_blob_id m =
     (case msg_content m of
        ToolResult r \<Rightarrow> map_option img_blob_id (tr_image r)
      | Parts _ \<Rightarrow> None
      | Assistant _ _ _ _ _ \<Rightarrow> None)"

definition register_message_image_tx :: "string \<Rightarrow> message \<Rightarrow> unit tx" where
  "register_message_image_tx conv m s =
     (case message_image_blob_id m of
        None \<Rightarrow> Inr ((), s)
      | Some b \<Rightarrow>
          Inr ((), if (conv, b) \<in> set (image_blobs_t s) then s
                   else s\<lparr>image_blobs_t := image_blobs_t s @ [(conv, b)]\<rparr>))"

text \<open>
  The row the message conflicts with on insert: same id, or same runtime event, which is what the
  SELECT of the conflict branch looks for, too (a NULL event matches nothing).
\<close>

definition conflicting_row :: "string \<Rightarrow> message \<Rightarrow> db \<Rightarrow> message_row option" where
  "conflicting_row conv m s =
     find (\<lambda>r. mr_conversation r = conv
               \<and> (mr_id r = message_id m \<or> (runtime_event_id m \<noteq> None \<and> mr_event r = runtime_event_id m)))
          (messages_t s)"

definition reused_error :: "message \<Rightarrow> error" where
  "reused_error m = Store (''message id or runtime event reused with different content: '' @ message_id m)"

definition put_message_tx :: "codec \<Rightarrow> string \<Rightarrow> message \<Rightarrow> unit tx" where
  "put_message_tx c conv m s =
     (case conflicting_row conv m s of
        None \<Rightarrow>
          register_message_image_tx conv m
            (s\<lparr>messages_t := messages_t s @
                 [\<lparr>mr_conversation = conv, mr_id = message_id m, mr_role = msg_role m,
                   mr_origin = msg_origin m, mr_payload = ser c m, mr_event = runtime_event_id m\<rparr>]\<rparr>)
      | Some r \<Rightarrow> (if mr_payload r = ser c m then Inr ((), s) else Inl (reused_error m)))"

definition find_message :: "string \<Rightarrow> string \<Rightarrow> db \<Rightarrow> message_row option" where
  "find_message conv mid s = find (\<lambda>r. mr_conversation r = conv \<and> mr_id r = mid) (messages_t s)"

definition json_error :: error where "json_error = Json ''invalid payload''"

definition decode_payload :: "codec \<Rightarrow> bytes \<Rightarrow> message result" where
  "decode_payload c b = (case de c b of Some m \<Rightarrow> Inr m | None \<Rightarrow> Inl json_error)"

definition stored_message :: "codec \<Rightarrow> string \<Rightarrow> string \<Rightarrow> db \<Rightarrow> message option result" where
  "stored_message c conv mid s =
     (case find_message conv mid s of
        None \<Rightarrow> Inr None
      | Some r \<Rightarrow> rbind (decode_payload c (mr_payload r)) (\<lambda>m. Inr (Some m)))"

text \<open>
  The recursive lineage of a checkpoint, root first: each row found by the parent id of the one after
  it. The fuel bounds the recursion, one turn per row; \<open>lineage\<close> gives it the number of rows.
\<close>

fun ancestry :: "nat \<Rightarrow> checkpoint_row list \<Rightarrow> int option \<Rightarrow> checkpoint_row list" where
  "ancestry 0 t i = []"
| "ancestry (Suc n) t None = []"
| "ancestry (Suc n) t (Some i) =
     (case find (\<lambda>r. cp_id r = i) t of
        None \<Rightarrow> []
      | Some r \<Rightarrow> ancestry n t (cp_parent r) @ [r])"

definition lineage :: "db \<Rightarrow> int \<Rightarrow> checkpoint_row list" where
  "lineage s i = ancestry (length (checkpoints_t s)) (checkpoints_t s) (Some i)"

definition checkpoint_own_rows :: "db \<Rightarrow> int \<Rightarrow> checkpoint_message_row list" where
  "checkpoint_own_rows s i =
     sort_key cm_ordinal (filter (\<lambda>r. cm_checkpoint r = i) (checkpoint_messages_t s))"

definition joined_messages :: "db \<Rightarrow> checkpoint_message_row list \<Rightarrow> message_row list" where
  "joined_messages s rows =
     concat (map (\<lambda>r. case find_message (cm_conversation r) (cm_message r) s of
                        Some m \<Rightarrow> [m] | None \<Rightarrow> []) rows)"

definition checkpoint_rows :: "db \<Rightarrow> int \<Rightarrow> message_row list" where
  "checkpoint_rows s i =
     concat (map (\<lambda>r. joined_messages s (checkpoint_own_rows s (cp_id r))) (lineage s i))"

fun decode_all :: "codec \<Rightarrow> message_row list \<Rightarrow> message list result" where
  "decode_all c [] = Inr []"
| "decode_all c (r # rs) =
     rbind (decode_payload c (mr_payload r)) (\<lambda>m. rbind (decode_all c rs) (\<lambda>ms. Inr (m # ms)))"

definition load_checkpoint_messages :: "codec \<Rightarrow> checkpoint_id \<Rightarrow> db \<Rightarrow> message list result" where
  "load_checkpoint_messages c cp s = decode_all c (checkpoint_rows s (checkpoint_int cp))"

end
