(* ===== verification/Checkpoints.thy ===== *)
theory Checkpoints
  imports Db
begin

text \<open>
  Immutable checkpoints of a conversation (src/server/src/store/checkpoints.rs): each holds the messages
  it adds to its parent, a digest chained over its ancestry, and a conversation has one current one.
  What is read before a transaction takes the write lock (the identities of a chain) is read in the
  transaction here: it belongs to an immutable checkpoint, whose currency the transaction checks.
\<close>

section \<open>Digests\<close>

text \<open>\<open>u64::to_be_bytes\<close>\<close>

definition be64 :: "nat \<Rightarrow> bytes" where
  "be64 n = map (\<lambda>i. word_of_nat (n div 256 ^ (7 - i))) [0..<8]"

definition update_digest :: "codec \<Rightarrow> message list \<Rightarrow> bytes" where
  "update_digest c ms = concat (map (\<lambda>m. be64 (length (ser c m)) @ ser c m) ms)"

definition chained_digest :: "codec \<Rightarrow> bytes \<Rightarrow> message list \<Rightarrow> bytes" where
  "chained_digest c parent additions = sha c (parent @ update_digest c additions)"

definition find_checkpoint :: "int \<Rightarrow> db \<Rightarrow> checkpoint_row option" where
  "find_checkpoint i s = find (\<lambda>r. cp_id r = i) (checkpoints_t s)"

definition checkpoint_digest :: "checkpoint_id \<Rightarrow> db \<Rightarrow> bytes result" where
  "checkpoint_digest cp s =
     ok_or (Store (''checkpoint '' @ show_int (checkpoint_int cp)
                   @ '' is missing while computing its parent digest''))
           (map_option cp_digest (find_checkpoint (checkpoint_int cp) s))"


section \<open>Reading\<close>

definition checkpoint_parent :: "checkpoint_id \<Rightarrow> db \<Rightarrow> checkpoint_id option" where
  "checkpoint_parent cp s =
     (case find_checkpoint (checkpoint_int cp) s of
        None \<Rightarrow> None
      | Some r \<Rightarrow> map_option CheckpointId (cp_parent r))"

definition load_current_messages :: "codec \<Rightarrow> string \<Rightarrow> db \<Rightarrow> message list result" where
  "load_current_messages c conv s =
     (case find_conversation conv s of
        None \<Rightarrow> Inr []
      | Some r \<Rightarrow> (case cv_current r of
            None \<Rightarrow> Inl (Database ''unexpected NULL'')
          | Some i \<Rightarrow> load_checkpoint_messages c (CheckpointId i) s))"

fun match_prefix_loop ::
    "codec \<Rightarrow> string \<Rightarrow> db \<Rightarrow> message list \<Rightarrow> nat \<Rightarrow> int \<Rightarrow> bytes \<Rightarrow> checkpoint_id \<times> nat" where
  "match_prefix_loop c conv s [] k cp d = (CheckpointId cp, k)"
| "match_prefix_loop c conv s (m # ms) k cp d =
     (let d' = chained_digest c d [m]
      in case find (\<lambda>r. cp_conversation r = conv \<and> cp_parent r = Some cp \<and> cp_digest r = d') (checkpoints_t s) of
           None \<Rightarrow> (CheckpointId cp, k)
         | Some r \<Rightarrow> match_prefix_loop c conv s ms (Suc k) (cp_id r) d')"

definition match_checkpoint_prefix ::
    "codec \<Rightarrow> string \<Rightarrow> checkpoint_id \<Rightarrow> message list \<Rightarrow> db \<Rightarrow> (checkpoint_id \<times> nat) result" where
  "match_checkpoint_prefix c conv base additions s =
     rbind (checkpoint_digest base s) (\<lambda>d.
       Inr (match_prefix_loop c conv s additions 0 (checkpoint_int base) d))"

definition conversation_root_tx :: "string \<Rightarrow> db \<Rightarrow> checkpoint_id result" where
  "conversation_root_tx conv s =
     ok_or (Store (''conversation '' @ conv @ '' has no root checkpoint''))
       (map_option CheckpointId
         (case sort (map cp_id (filter (\<lambda>r. cp_conversation r = conv \<and> cp_parent r = None) (checkpoints_t s))) of
            [] \<Rightarrow> None | i # _ \<Rightarrow> Some i))"

text \<open>Contents and not identities decide whether the client's history extends ours.\<close>

definition same_content :: "message \<Rightarrow> message \<Rightarrow> bool" where
  "same_content a b \<longleftrightarrow>
     msg_role a = msg_role b \<and> msg_origin a = msg_origin b \<and> msg_content a = msg_content b
     \<and> runtime_event_id a = runtime_event_id b"

definition extends_prefix :: "message list \<Rightarrow> message list \<Rightarrow> bool" where
  "extends_prefix stored incoming \<longleftrightarrow>
     length stored \<le> length incoming \<and> list_all (\<lambda>(a, b). same_content a b) (zip stored incoming)"


section \<open>Writing\<close>

definition put_messages :: "codec \<Rightarrow> string \<Rightarrow> message list \<Rightarrow> db \<Rightarrow> db result" where
  "put_messages c conv ms s =
     fold_ok (\<lambda>m s. rbind (put_message_tx c conv m s) (\<lambda>(_, s'). Inr s')) ms s"

definition own_rows :: "int \<Rightarrow> string \<Rightarrow> message list \<Rightarrow> checkpoint_message_row list" where
  "own_rows cp conv ms =
     map (\<lambda>(k, m). \<lparr>cm_checkpoint = cp, cm_ordinal = k, cm_conversation = conv, cm_message = message_id m\<rparr>)
         (zip [0..<length ms] ms)"

definition insert_checkpoint_tx ::
    "codec \<Rightarrow> string \<Rightarrow> checkpoint_id \<Rightarrow> message list \<Rightarrow> bytes \<Rightarrow> checkpoint_id tx" where
  "insert_checkpoint_tx c conv parent additions d s =
     rbind (put_messages c conv additions s) (\<lambda>s1.
     rbind (insert_checkpoint_row conv (Some (checkpoint_int parent)) d s1) (\<lambda>(i, s2).
       if distinct (map message_id additions)
       then Inr (CheckpointId i,
                 s2\<lparr>checkpoint_messages_t := checkpoint_messages_t s2 @ own_rows i conv additions\<rparr>)
       else Inl unique_violation))"

definition lost_ownership :: "string \<Rightarrow> string \<Rightarrow> error" where
  "lost_ownership verb run =
     Store (''lost active ownership while '' @ verb @ '' checkpoint for run '' @ run)"

text \<open>The two UPDATEs that make a checkpoint current and the head of its run.\<close>

definition advance_head ::
    "string \<Rightarrow> string \<Rightarrow> string \<Rightarrow> checkpoint_id \<Rightarrow> checkpoint_id \<Rightarrow> unit tx" where
  "advance_head verb conv run expected head s =
     (let p = (\<lambda>r. cv_id r = conv \<and> cv_current r = Some (checkpoint_int expected) \<and> cv_active_run r = Some run)
      in if count_where p (conversations_t s) \<noteq> 1 then Inl (lost_ownership verb run)
         else Inr ((), s\<lparr>conversations_t := update_where p (\<lambda>r. r\<lparr>cv_current := Some (checkpoint_int head)\<rparr>)
                                             (conversations_t s),
                         runs_t := update_where (\<lambda>r. run_id r = run)
                                     (\<lambda>r. r\<lparr>run_head := checkpoint_int head\<rparr>) (runs_t s)\<rparr>))"

definition reuse_checkpoint_error :: error where
  "reuse_checkpoint_error =
     Store ''active append would reuse an existing checkpoint instead of creating a child''"

definition append_checkpoint_with_digest_tx ::
    "codec \<Rightarrow> string \<Rightarrow> string \<Rightarrow> checkpoint_id \<Rightarrow> message list \<Rightarrow> bytes \<Rightarrow> checkpoint_id tx" where
  "append_checkpoint_with_digest_tx c conv run expected additions d s =
     rbind (require_active_head_tx conv run expected s) (\<lambda>_.
       if has_digest conv d s \<noteq> None then Inl reuse_checkpoint_error
       else
         rbind (insert_checkpoint_tx c conv expected additions d s) (\<lambda>(cp, s1).
         rbind (advance_head ''appending'' conv run expected cp s1) (\<lambda>(_, s2). Inr (cp, s2))))"

definition append_checkpoint_tx ::
    "codec \<Rightarrow> string \<Rightarrow> string \<Rightarrow> checkpoint_id \<Rightarrow> message list \<Rightarrow> checkpoint_id tx" where
  "append_checkpoint_tx c conv run expected additions s =
     rbind (checkpoint_digest expected s) (\<lambda>d.
       append_checkpoint_with_digest_tx c conv run expected additions (chained_digest c d additions) s)"

definition append_checkpoint ::
    "codec \<Rightarrow> string \<Rightarrow> string \<Rightarrow> checkpoint_id \<Rightarrow> message list \<Rightarrow> checkpoint_id tx" where
  "append_checkpoint c conv run expected additions s =
     (if additions = [] then Inr (expected, s) else append_checkpoint_tx c conv run expected additions s)"

definition replace_checkpoint ::
    "codec \<Rightarrow> string \<Rightarrow> string \<Rightarrow> checkpoint_id \<Rightarrow> message list \<Rightarrow> checkpoint_id tx" where
  "replace_checkpoint c conv run expected ms s =
     rbind (require_active_head_tx conv run expected s) (\<lambda>_.
     rbind (conversation_root_tx conv s) (\<lambda>root.
     rbind (checkpoint_digest root s) (\<lambda>d.
     rbind (insert_checkpoint_tx c conv root ms (chained_digest c d ms) s) (\<lambda>(cp, s1).
     rbind (advance_head ''replacing'' conv run expected cp s1) (\<lambda>(_, s2). Inr (cp, s2))))))"

definition import_checkpoint :: "codec \<Rightarrow> string \<Rightarrow> message list \<Rightarrow> checkpoint_id tx" where
  "import_checkpoint c conv ms s =
     rbind (ensure_conversation_tx c conv s) (\<lambda>(current, s1).
     rbind (load_checkpoint_messages c current s1) (\<lambda>current_messages.
     rbind (if extends_prefix current_messages ms
            then Inr (current, drop (length current_messages) ms)
            else rbind (conversation_root_tx conv s1) (\<lambda>root. Inr (root, ms))) (\<lambda>(parent, additions).
       if additions = [] \<and> parent = current then Inr (current, s1)
       else
         rbind (checkpoint_digest parent s1) (\<lambda>d.
           let d' = chained_digest c d additions
           in case has_digest conv d' s1 of
                Some existing \<Rightarrow> Inr (CheckpointId existing, s1)
              | None \<Rightarrow> insert_checkpoint_tx c conv parent additions d' s1))))"

definition ensure_conversation :: "codec \<Rightarrow> string \<Rightarrow> checkpoint_id tx" where
  "ensure_conversation c conv s = ensure_conversation_tx c conv s"


section \<open>Idempotent batches\<close>

record chain_identity =
  ci_message :: string
  ci_event :: "string option"
  ci_body :: "message option"

definition identity_matches :: "message \<Rightarrow> chain_identity \<Rightarrow> bool" where
  "identity_matches m k \<longleftrightarrow>
     ci_message k = message_id m \<or> (runtime_event_id m \<noteq> None \<and> ci_event k = runtime_event_id m)"

definition chain_identities :: "string \<Rightarrow> checkpoint_id \<Rightarrow> db \<Rightarrow> chain_identity list" where
  "chain_identities conv cp s =
     (let chain = (case find_checkpoint (checkpoint_int cp) s of
                     Some r \<Rightarrow> (if cp_conversation r = conv then lineage s (checkpoint_int cp) else [])
                   | None \<Rightarrow> []);
          rows = sort_key cm_checkpoint (concat (map (\<lambda>r. checkpoint_own_rows s (cp_id r)) chain))
      in map (\<lambda>m. \<lparr>ci_message = mr_id m, ci_event = mr_event m, ci_body = None\<rparr>) (joined_messages s rows))"

record batch_state =
  bs_db :: db
  bs_known :: "chain_identity list"
  bs_digest :: bytes
  bs_head :: checkpoint_id
  bs_appended :: "(checkpoint_id \<times> bool) list"

text \<open>Whether what is stored under the identity is the message itself.\<close>

definition same_as_stored :: "codec \<Rightarrow> string \<Rightarrow> message \<Rightarrow> chain_identity \<Rightarrow> db \<Rightarrow> bool result" where
  "same_as_stored c conv m k s =
     (case ci_body k of
        Some stored \<Rightarrow> Inr (stored = m)
      | None \<Rightarrow> rbind (stored_message c conv (message_id m) s) (\<lambda>stored. Inr (stored = Some m)))"

definition append_once_step :: "codec \<Rightarrow> string \<Rightarrow> message \<Rightarrow> batch_state \<Rightarrow> batch_state result" where
  "append_once_step c conv m b =
     (case find (identity_matches m) (bs_known b) of
        Some k \<Rightarrow>
          rbind (same_as_stored c conv m k (bs_db b)) (\<lambda>same.
            if \<not> same then Inl (reused_error m)
            else Inr (b\<lparr>bs_appended := bs_appended b @ [(bs_head b, False)]\<rparr>))
      | None \<Rightarrow>
          (let d = chained_digest c (bs_digest b) [m]
           in if has_digest conv d (bs_db b) \<noteq> None then Inl reuse_checkpoint_error
              else
                rbind (insert_checkpoint_tx c conv (bs_head b) [m] d (bs_db b)) (\<lambda>(cp, s).
                  Inr \<lparr>bs_db = s,
                       bs_known = bs_known b @
                         [\<lparr>ci_message = message_id m, ci_event = runtime_event_id m, ci_body = Some m\<rparr>],
                       bs_digest = d, bs_head = cp,
                       bs_appended = bs_appended b @ [(cp, True)]\<rparr>)))"

definition append_messages_once ::
    "codec \<Rightarrow> string \<Rightarrow> string \<Rightarrow> checkpoint_id \<Rightarrow> message list \<Rightarrow> (checkpoint_id \<times> bool) list tx" where
  "append_messages_once c conv run expected ms s =
     (if ms = [] then Inr ([], s)
      else
        rbind (require_active_head_tx conv run expected s) (\<lambda>_.
        rbind (checkpoint_digest expected s) (\<lambda>d.
        rbind (fold_ok (append_once_step c conv) ms
                 \<lparr>bs_db = s, bs_known = chain_identities conv expected s, bs_digest = d,
                  bs_head = expected, bs_appended = []\<rparr>) (\<lambda>b.
          if bs_head b = expected then Inr (bs_appended b, bs_db b)
          else rbind (advance_head ''appending'' conv run expected (bs_head b) (bs_db b)) (\<lambda>(_, s').
            Inr (bs_appended b, s'))))))"

definition append_message_once ::
    "codec \<Rightarrow> string \<Rightarrow> string \<Rightarrow> checkpoint_id \<Rightarrow> message \<Rightarrow> (checkpoint_id \<times> bool) tx" where
  "append_message_once c conv run expected m s =
     rbind (append_messages_once c conv run expected [m] s) (\<lambda>(appended, s'). Inr (last appended, s'))"

end
