(* ===== verification/CheckpointLemmas.thy ===== *)
theory CheckpointLemmas
  imports Checkpoints
begin

text \<open>
  The invariant of the checkpoint tables and what each transaction of Checkpoints does to it and to the
  stored histories.
\<close>

section \<open>Invariant\<close>

definition ids_ok :: "db \<Rightarrow> bool" where
  "ids_ok s \<longleftrightarrow>
     sorted_wrt (<) (map cp_id (checkpoints_t s))
     \<and> (\<forall>r\<in>set (checkpoints_t s). cp_id r < next_checkpoint s)
     \<and> (\<forall>r\<in>set (checkpoints_t s). \<forall>p. cp_parent r = Some p \<longrightarrow>
          p < cp_id r \<and> (\<exists>q\<in>set (checkpoints_t s). cp_id q = p \<and> cp_conversation q = cp_conversation r))"

definition message_rows_ok :: "codec \<Rightarrow> db \<Rightarrow> bool" where
  "message_rows_ok c s \<longleftrightarrow>
     distinct (map (\<lambda>r. (mr_conversation r, mr_id r)) (messages_t s))
     \<and> (\<forall>r\<in>set (messages_t s). \<exists>m. mr_payload r = ser c m \<and> message_id m = mr_id r
                                   \<and> runtime_event_id m = mr_event r)"

definition links_ok :: "db \<Rightarrow> bool" where
  "links_ok s \<longleftrightarrow>
     (\<forall>r\<in>set (checkpoint_messages_t s).
        (\<exists>q\<in>set (checkpoints_t s). cp_id q = cm_checkpoint r \<and> cp_conversation q = cm_conversation r)
        \<and> find_message (cm_conversation r) (cm_message r) s \<noteq> None)"

text \<open>The bytes of the messages a checkpoint itself adds.\<close>

definition own_payloads :: "db \<Rightarrow> int \<Rightarrow> bytes list" where
  "own_payloads s i = map mr_payload (joined_messages s (checkpoint_own_rows s i))"

definition payload_digest :: "codec \<Rightarrow> bytes \<Rightarrow> bytes list \<Rightarrow> bytes" where
  "payload_digest c parent ps = sha c (parent @ concat (map (\<lambda>p. be64 (length p) @ p) ps))"

text \<open>Every digest is the one rebuilt from the parent's digest and the checkpoint's own messages.\<close>

definition digests_ok :: "codec \<Rightarrow> db \<Rightarrow> bool" where
  "digests_ok c s \<longleftrightarrow>
     (\<forall>r\<in>set (checkpoints_t s).
        case cp_parent r of
          None \<Rightarrow> cp_digest r = root_digest c \<and> own_payloads s (cp_id r) = []
        | Some p \<Rightarrow> (\<exists>q\<in>set (checkpoints_t s). cp_id q = p
                      \<and> cp_digest r = payload_digest c (cp_digest q) (own_payloads s (cp_id r))))"

definition checkpoints_ok :: "codec \<Rightarrow> db \<Rightarrow> bool" where
  "checkpoints_ok c s \<longleftrightarrow> ids_ok s \<and> message_rows_ok c s \<and> links_ok s \<and> digests_ok c s"

text \<open>The history of a checkpoint, as stored bytes.\<close>

definition history_bytes :: "db \<Rightarrow> int \<Rightarrow> bytes list" where
  "history_bytes s i = map mr_payload (checkpoint_rows s i)"

text \<open>Older checkpoints keep their rows and histories.\<close>

definition extends_db :: "db \<Rightarrow> db \<Rightarrow> bool" where
  "extends_db s s' \<longleftrightarrow>
     (\<forall>i r. find_checkpoint i s = Some r \<longrightarrow> find_checkpoint i s' = Some r
        \<and> history_bytes s' i = history_bytes s i)"


section \<open>Lineage\<close>

definition rank :: "checkpoint_row list \<Rightarrow> int \<Rightarrow> nat" where
  "rank t i = length (filter (\<lambda>r. cp_id r \<le> i) t)"

definition parents_below :: "checkpoint_row list \<Rightarrow> bool" where
  "parents_below t \<longleftrightarrow> (\<forall>r\<in>set t. \<forall>p. cp_parent r = Some p \<longrightarrow> p < cp_id r)"

lemma rank_less:
  assumes "r \<in> set t" "p < cp_id r"
  shows "rank t p < rank t (cp_id r)"
proof -
  have "filter (\<lambda>x. cp_id x \<le> p) t = filter (\<lambda>x. cp_id x \<le> p) (filter (\<lambda>x. cp_id x \<le> cp_id r) t)"
    using assms(2) by (auto simp: conj_commute intro!: filter_cong)
  moreover have "length (filter (\<lambda>x. cp_id x \<le> p) (filter (\<lambda>x. cp_id x \<le> cp_id r) t))
      < length (filter (\<lambda>x. cp_id x \<le> cp_id r) t)"
    using assms by (intro length_filter_less[of r]) auto
  ultimately show ?thesis by (simp add: rank_def)
qed

text \<open>More fuel than the rank changes nothing.\<close>

lemma ancestry_fuel:
  assumes "parents_below t" "rank t i \<le> n" "rank t i \<le> m"
  shows "ancestry n t (Some i) = ancestry m t (Some i)"
  using assms(2,3)
proof (induction n arbitrary: i m)
  case 0
  then have "filter (\<lambda>r. cp_id r \<le> i) t = []" by (simp add: rank_def)
  then have "find (\<lambda>r. cp_id r = i) t = None"
    by (auto simp: find_None_iff filter_empty_conv)
  then show ?case by (cases m) auto
next
  case (Suc n)
  show ?case
  proof (cases "find (\<lambda>r. cp_id r = i) t")
    case None
    then show ?thesis by (cases m) auto
  next
    case (Some r)
    then have r: "r \<in> set t" "cp_id r = i" by (auto simp: find_Some_iff)
    then have "0 < rank t i" by (auto simp: rank_def filter_empty_conv)
    then obtain m' where m: "m = Suc m'" using Suc.prems(2) by (cases m) auto
    have "ancestry n t (cp_parent r) = ancestry m' t (cp_parent r)"
    proof (cases "cp_parent r")
      case None
      then show ?thesis by (cases n; cases m') auto
    next
      case p: (Some p)
      then have "rank t p < rank t i" using rank_less[OF r(1)] r assms(1) by (auto simp: parents_below_def)
      then show ?thesis using Suc.IH[of p m'] Suc.prems m p by simp
    qed
    then show ?thesis using Some m by simp
  qed
qed

lemma rank_le: "rank t i \<le> length t"
  by (simp add: rank_def)

lemma find_append_new: "cp_id r \<noteq> i \<Longrightarrow> find (\<lambda>x. cp_id x = i) (t @ [r]) = find (\<lambda>x. cp_id x = i) t"
  by (induction t) auto

lemma ancestry_append:
  assumes "parents_below t" "i < cp_id r"
  shows "ancestry n (t @ [r]) (Some i) = ancestry n t (Some i)"
  using assms(2)
proof (induction n arbitrary: i)
  case (Suc n)
  show ?case
  proof (cases "find (\<lambda>x. cp_id x = i) t")
    case None
    then show ?thesis using Suc.prems by (simp add: find_append_new)
  next
    case (Some q)
    then have q: "q \<in> set t" "cp_id q = i" by (auto simp: find_Some_iff)
    have "ancestry n (t @ [r]) (cp_parent q) = ancestry n t (cp_parent q)"
    proof (cases "cp_parent q")
      case None
      then show ?thesis by (cases n) auto
    next
      case p: (Some p)
      then have "p < i" using assms(1) q by (auto simp: parents_below_def)
      then show ?thesis using Suc.IH[of p] Suc.prems p by simp
    qed
    then show ?thesis using Some Suc.prems by (simp add: find_append_new)
  qed
qed simp

lemma ids_ok_parents: "ids_ok s \<Longrightarrow> parents_below (checkpoints_t s)"
  by (auto simp: ids_ok_def parents_below_def)

text \<open>The lineage over a table with a new row: old ones unchanged, the new one after its parent's.\<close>

lemma lineage_old:
  assumes "ids_ok s" "checkpoints_t s' = checkpoints_t s @ [r]" "i < cp_id r"
  shows "lineage s' i = lineage s i"
proof -
  let ?t = "checkpoints_t s"
  have "ancestry (Suc (length ?t)) ?t (Some i) = ancestry (length ?t) ?t (Some i)"
    by (rule ancestry_fuel[OF ids_ok_parents[OF assms(1)]]) (use rank_le le_SucI in blast)+
  then show ?thesis
    using ancestry_append[OF ids_ok_parents[OF assms(1)] assms(3), of "Suc (length ?t)"] assms(2)
    by (simp add: lineage_def)
qed

lemma lineage_new:
  assumes "ids_ok s" "checkpoints_t s' = checkpoints_t s @ [r]" "\<forall>q\<in>set (checkpoints_t s). cp_id q < cp_id r"
  shows "lineage s' (cp_id r) = (case cp_parent r of None \<Rightarrow> [] | Some p \<Rightarrow> if p < cp_id r then lineage s p else
            ancestry (length (checkpoints_t s)) (checkpoints_t s') (Some p)) @ [r]"
proof -
  let ?t = "checkpoints_t s"
  have "find (\<lambda>x. cp_id x = cp_id r) ?t = None" using assms(3) by (force simp: find_None_iff)
  then have f: "find (\<lambda>x. cp_id x = cp_id r) (?t @ [r]) = Some r" by (simp add: find_append_none)
  show ?thesis
  proof (cases "cp_parent r")
    case None
    then show ?thesis using f assms(2) by (cases "length ?t") (simp_all add: lineage_def)
  next
    case (Some p)
    then show ?thesis
      using f assms(2) ancestry_append[OF ids_ok_parents[OF assms(1)], of p r "length ?t"]
      by (simp add: lineage_def)
  qed
qed

lemma lineage_exists:
  assumes "ids_ok s" "r \<in> set (lineage s i)"
  shows "r \<in> set (checkpoints_t s)"
proof -
  have "set (ancestry n t j) \<subseteq> set t" for n t j
  proof (induction n t j rule: ancestry.induct)
    case (3 n t i)
    then show ?case by (cases "find (\<lambda>r. cp_id r = i) t") (auto dest: find_SomeD)
  qed auto
  then show ?thesis using assms(2) by (auto simp: lineage_def)
qed



section \<open>Writing messages\<close>

text \<open>What storing a message leaves: the same tables but for the message, now found with its bytes.\<close>

definition message_stored :: "db \<Rightarrow> db \<Rightarrow> bool" where
  "message_stored s s' \<longleftrightarrow>
     checkpoints_t s' = checkpoints_t s \<and> next_checkpoint s' = next_checkpoint s
     \<and> checkpoint_messages_t s' = checkpoint_messages_t s
     \<and> conversations_t s' = conversations_t s \<and> runs_t s' = runs_t s
     \<and> rounds_t s' = rounds_t s \<and> round_calls_t s' = round_calls_t s
     \<and> llm_calls_t s' = llm_calls_t s \<and> traces_t s' = traces_t s
     \<and> (\<forall>cv mid r. find_message cv mid s = Some r \<longrightarrow> find_message cv mid s' = Some r)"

lemma message_stored_refl [simp]: "message_stored s s"
  by (simp add: message_stored_def)

lemma message_stored_trans: "message_stored a b \<Longrightarrow> message_stored b c \<Longrightarrow> message_stored a c"
  by (simp add: message_stored_def)

lemma find_message_unique:
  "message_rows_ok c s \<Longrightarrow> r \<in> set (messages_t s) \<Longrightarrow> find_message (mr_conversation r) (mr_id r) s = Some r"
  using find_unique[of "\<lambda>r. (mr_conversation r, mr_id r)" "messages_t s" r]
  by (simp add: find_message_def message_rows_ok_def)

lemma put_message_spec:
  assumes c: "codec_ok c" and ok: "message_rows_ok c s" and put: "put_message_tx c conv m s = Inr ((), s')"
  shows "message_rows_ok c s' \<and> message_stored s s'
    \<and> (\<exists>r. find_message conv (message_id m) s' = Some r \<and> mr_payload r = ser c m)"
proof (cases "conflicting_row conv m s")
  case None
  let ?row = "\<lparr>mr_conversation = conv, mr_id = message_id m, mr_role = msg_role m,
               mr_origin = msg_origin m, mr_payload = ser c m, mr_event = runtime_event_id m\<rparr>"
  have new: "\<forall>r\<in>set (messages_t s). \<not> (mr_conversation r = conv \<and> mr_id r = message_id m)"
    using None by (auto simp: conflicting_row_def find_None_iff)
  have s': "messages_t s' = messages_t s @ [?row]" "checkpoints_t s' = checkpoints_t s"
      "next_checkpoint s' = next_checkpoint s" "checkpoint_messages_t s' = checkpoint_messages_t s"
      "conversations_t s' = conversations_t s" "runs_t s' = runs_t s" "rounds_t s' = rounds_t s"
      "round_calls_t s' = round_calls_t s" "llm_calls_t s' = llm_calls_t s" "traces_t s' = traces_t s"
    using put None by (auto simp: put_message_tx_def register_message_image_tx_def split: option.splits)
  have "find_message conv (message_id m) s = None"
    using new by (auto simp: find_message_def find_None_iff)
  then have "find_message conv (message_id m) s' = Some ?row"
    unfolding find_message_def s'(1) by (simp add: find_append_none)
  moreover have "message_rows_ok c s'"
    using ok new s'(1) by (auto simp: message_rows_ok_def)
  moreover have "message_stored s s'"
    using s' by (auto simp: message_stored_def find_message_def find_append_old)
  ultimately show ?thesis by auto
next
  case (Some r)
  then have r: "r \<in> set (messages_t s)" "mr_conversation r = conv"
    using find_SomeD[of _ "messages_t s" r] by (auto simp: conflicting_row_def)
  have pay: "mr_payload r = ser c m" "s' = s"
    using put Some by (auto simp: put_message_tx_def split: if_splits)
  obtain m0 where m0: "mr_payload r = ser c m0" "message_id m0 = mr_id r"
    using ok r(1) by (auto simp: message_rows_ok_def)
  have "message_id m = mr_id r"
    using ser_ids[OF c, of m m0] pay(1) m0 by (metis skip_parts_ids(1))
  then show ?thesis
    using ok pay find_message_unique[OF ok r(1)] r(2) by auto
qed

lemma put_messages_spec:
  assumes c: "codec_ok c" and ok: "message_rows_ok c s" and put: "put_messages c conv ms s = Inr s'"
  shows "message_rows_ok c s' \<and> message_stored s s'
    \<and> (\<forall>m\<in>set ms. \<exists>r. find_message conv (message_id m) s' = Some r \<and> mr_payload r = ser c m)"
  using ok put
proof (induction ms arbitrary: s)
  case (Cons m ms)
  then obtain s1 where 1: "put_message_tx c conv m s = Inr ((), s1)" "put_messages c conv ms s1 = Inr s'"
    by (auto simp: put_messages_def split: sum.splits)
  note p = put_message_spec[OF c Cons.prems(1) 1(1)]
  have IH: "message_rows_ok c s' \<and> message_stored s1 s'
    \<and> (\<forall>m\<in>set ms. \<exists>r. find_message conv (message_id m) s' = Some r \<and> mr_payload r = ser c m)"
    using Cons.IH[OF _ 1(2)] p by blast
  then have "\<exists>r. find_message conv (message_id m) s' = Some r \<and> mr_payload r = ser c m"
    using p by (auto simp: message_stored_def)
  then show ?case using IH p message_stored_trans by auto
qed (simp add: put_messages_def)



section \<open>Inserting a checkpoint\<close>

lemma joined_payloads:
  "map cm_message l = map message_id ms \<Longrightarrow> \<forall>r\<in>set l. cm_conversation r = conv
   \<Longrightarrow> \<forall>m\<in>set ms. \<exists>r. find_message conv (message_id m) s = Some r \<and> mr_payload r = ser c m
   \<Longrightarrow> map mr_payload (joined_messages s l) = map (ser c) ms"
proof (induction l arbitrary: ms)
  case (Cons r l)
  then obtain m ms' where ms: "ms = m # ms'" "cm_message r = message_id m" "map cm_message l = map message_id ms'"
    by (cases ms) auto
  then obtain x where "find_message conv (message_id m) s = Some x" "mr_payload x = ser c m"
    using Cons.prems(3) by auto
  then show ?case using Cons.IH[OF ms(3)] Cons.prems(2,3) ms by (auto simp: joined_messages_def)
qed (simp add: joined_messages_def)

lemma own_rows_simps:
  "map cm_message (own_rows i conv ms) = map message_id ms"
  "map cm_ordinal (own_rows i conv ms) = [0..<length ms]"
  "\<forall>r\<in>set (own_rows i conv ms). cm_checkpoint r = i \<and> cm_conversation r = conv"
  by (auto simp: own_rows_def comp_def case_prod_unfold map_fst_zip[unfolded comp_def]
      intro!: nth_equalityI)

lemma own_rows_sorted: "sort_key cm_ordinal (own_rows i conv ms) = own_rows i conv ms"
  by (rule sort_key_sorted_id) (simp add: own_rows_simps)

lemma joined_same:
  assumes "\<forall>r\<in>set l. find_message (cm_conversation r) (cm_message r) s \<noteq> None"
    and "\<forall>cv mid r. find_message cv mid s = Some r \<longrightarrow> find_message cv mid s' = Some r"
  shows "joined_messages s' l = joined_messages s l"
proof -
  have "find_message (cm_conversation r) (cm_message r) s' = find_message (cm_conversation r) (cm_message r) s"
    if "r \<in> set l" for r
    using assms that by (metis not_None_eq)
  then show ?thesis by (simp add: joined_messages_def cong: map_cong)
qed

lemma own_rows_linked:
  "links_ok s \<Longrightarrow> r \<in> set (checkpoint_own_rows s i) \<Longrightarrow>
   find_message (cm_conversation r) (cm_message r) s \<noteq> None"
  by (auto simp: links_ok_def checkpoint_own_rows_def)

lemma find_checkpoint_mem: "find_checkpoint i s = Some r \<Longrightarrow> r \<in> set (checkpoints_t s) \<and> cp_id r = i"
  by (auto simp: find_checkpoint_def dest: find_SomeD)

lemma find_checkpoint_unique: "ids_ok s \<Longrightarrow> r \<in> set (checkpoints_t s) \<Longrightarrow> find_checkpoint (cp_id r) s = Some r"
  using find_unique[of cp_id "checkpoints_t s" r]
  by (simp add: find_checkpoint_def ids_ok_def strict_sorted_iff)

text \<open>The tables that checkpoint insertion leaves alone.\<close>

definition same_runs :: "db \<Rightarrow> db \<Rightarrow> bool" where
  "same_runs s s' \<longleftrightarrow> conversations_t s' = conversations_t s \<and> runs_t s' = runs_t s
     \<and> rounds_t s' = rounds_t s \<and> round_calls_t s' = round_calls_t s
     \<and> llm_calls_t s' = llm_calls_t s \<and> traces_t s' = traces_t s"

lemma same_runs_trans: "same_runs a b \<Longrightarrow> same_runs b c \<Longrightarrow> same_runs a c"
  by (simp add: same_runs_def)

lemma insert_checkpoint_tables:
  assumes c: "codec_ok c" and ok: "checkpoints_ok c s"
    and ins: "insert_checkpoint_tx c conv (CheckpointId p) ms d s = Inr (cp, s')"
  defines "row \<equiv> \<lparr>cp_id = next_checkpoint s, cp_conversation = conv, cp_parent = Some p, cp_digest = d\<rparr>"
  shows "cp = CheckpointId (next_checkpoint s)" "checkpoints_t s' = checkpoints_t s @ [row]"
    "next_checkpoint s' = next_checkpoint s + 1"
    "checkpoint_messages_t s' = checkpoint_messages_t s @ own_rows (next_checkpoint s) conv ms"
    "message_rows_ok c s'" "same_runs s s'" "has_digest conv d s = None" "distinct (map message_id ms)"
    "\<forall>cv mid r. find_message cv mid s = Some r \<longrightarrow> find_message cv mid s' = Some r"
    "\<forall>m\<in>set ms. \<exists>r. find_message conv (message_id m) s' = Some r \<and> mr_payload r = ser c m"
proof -
  obtain s1 i s2 where 1: "put_messages c conv ms s = Inr s1"
    and 2: "insert_checkpoint_row conv (Some p) d s1 = Inr (i, s2)"
    and 3: "distinct (map message_id ms)" "cp = CheckpointId i"
      "s' = s2\<lparr>checkpoint_messages_t := checkpoint_messages_t s2 @ own_rows i conv ms\<rparr>"
    using ins by (auto simp: insert_checkpoint_tx_def split: if_splits prod.splits)
  have "message_rows_ok c s" using ok by (simp add: checkpoints_ok_def)
  note put = put_messages_spec[OF c this 1]
  have s1: "checkpoints_t s1 = checkpoints_t s" "next_checkpoint s1 = next_checkpoint s"
      "checkpoint_messages_t s1 = checkpoint_messages_t s"
    using put by (auto simp: message_stored_def)
  have hd: "has_digest conv d s1 = None" "i = next_checkpoint s1"
    and s2: "s2 = s1\<lparr>checkpoints_t := checkpoints_t s1 @ [\<lparr>cp_id = next_checkpoint s1, cp_conversation = conv,
               cp_parent = Some p, cp_digest = d\<rparr>], next_checkpoint := next_checkpoint s1 + 1\<rparr>"
    using 2 by (auto simp: insert_checkpoint_row_def split: if_splits)
  have fm: "find_message cv mid s' = find_message cv mid s1" for cv mid
    using 3(3) s2 by (simp add: find_message_def)
  show "cp = CheckpointId (next_checkpoint s)" "checkpoints_t s' = checkpoints_t s @ [row]"
    "next_checkpoint s' = next_checkpoint s + 1"
    "checkpoint_messages_t s' = checkpoint_messages_t s @ own_rows (next_checkpoint s) conv ms"
    "distinct (map message_id ms)"
    using 3 s2 s1 hd(2) by (simp_all add: row_def)
  show "has_digest conv d s = None" using hd(1) s1(1) by (simp add: has_digest_def)
  show "message_rows_ok c s'" using put 3(3) s2 by (simp add: message_rows_ok_def)
  show "same_runs s s'" using put 3(3) s2 by (simp add: same_runs_def message_stored_def)
  show "\<forall>cv mid r. find_message cv mid s = Some r \<longrightarrow> find_message cv mid s' = Some r"
    using put fm by (simp add: message_stored_def)
  show "\<forall>m\<in>set ms. \<exists>r. find_message conv (message_id m) s' = Some r \<and> mr_payload r = ser c m"
    using put fm by simp
qed

text \<open>A state with one more checkpoint row, the youngest, and its own message rows.\<close>

definition adds_checkpoint :: "checkpoint_row \<Rightarrow> checkpoint_message_row list \<Rightarrow> db \<Rightarrow> db \<Rightarrow> bool" where
  "adds_checkpoint row l s s' \<longleftrightarrow>
     checkpoints_t s' = checkpoints_t s @ [row] \<and> next_checkpoint s' = next_checkpoint s + 1
     \<and> cp_id row = next_checkpoint s \<and> checkpoint_messages_t s' = checkpoint_messages_t s @ l
     \<and> sorted (map cm_ordinal l)
     \<and> (\<forall>r\<in>set l. cm_checkpoint r = cp_id row \<and> cm_conversation r = cp_conversation row)
     \<and> (\<forall>cv mid r. find_message cv mid s = Some r \<longrightarrow> find_message cv mid s' = Some r)"

lemma own_rows_below:
  "ids_ok s \<Longrightarrow> links_ok s \<Longrightarrow> r \<in> set (checkpoint_messages_t s) \<Longrightarrow> cm_checkpoint r < next_checkpoint s"
  by (force simp: ids_ok_def links_ok_def)

lemma adds_own_rows:
  assumes "ids_ok s" "links_ok s" "adds_checkpoint row l s s'"
  shows "checkpoint_own_rows s' i = (if i = cp_id row then l else checkpoint_own_rows s i)"
proof (cases "i = cp_id row")
  case True
  have "filter (\<lambda>r. cm_checkpoint r = i) (checkpoint_messages_t s) = []"
    using own_rows_below[OF assms(1,2)] assms(3) True by (force simp: filter_empty_conv adds_checkpoint_def)
  moreover have "filter (\<lambda>r. cm_checkpoint r = i) l = l"
    using assms(3) True by (intro filter_True) (auto simp: adds_checkpoint_def)
  ultimately show ?thesis
    using assms(3) True by (simp add: checkpoint_own_rows_def adds_checkpoint_def sort_key_sorted_id)
next
  case False
  then have "filter (\<lambda>r. cm_checkpoint r = i) l = []"
    using assms(3) by (auto simp: filter_empty_conv adds_checkpoint_def)
  then show ?thesis using assms(3) False by (simp add: checkpoint_own_rows_def adds_checkpoint_def)
qed

lemma adds_joined_old:
  assumes "ids_ok s" "links_ok s" "adds_checkpoint row l s s'" "i < cp_id row"
  shows "joined_messages s' (checkpoint_own_rows s' i) = joined_messages s (checkpoint_own_rows s i)"
  using adds_own_rows[OF assms(1,2,3), of i] assms(4)
    joined_same[of "checkpoint_own_rows s i" s s'] own_rows_linked[OF assms(2), of _ i] assms(3)
  by (auto simp: adds_checkpoint_def)

lemma adds_below: "ids_ok s \<Longrightarrow> adds_checkpoint row l s s' \<Longrightarrow> \<forall>q\<in>set (checkpoints_t s). cp_id q < cp_id row"
  by (simp add: ids_ok_def adds_checkpoint_def)

lemma adds_history_old:
  assumes "ids_ok s" "links_ok s" "adds_checkpoint row l s s'" "i < cp_id row"
  shows "history_bytes s' i = history_bytes s i"
proof -
  have lin: "lineage s' i = lineage s i"
    using lineage_old[OF assms(1)] assms(3,4) by (simp add: adds_checkpoint_def)
  have "cp_id r < cp_id row" if "r \<in> set (lineage s i)" for r
    using lineage_exists[OF assms(1) that] adds_below[OF assms(1,3)] by blast
  then show ?thesis
    unfolding history_bytes_def checkpoint_rows_def lin
    by (simp add: adds_joined_old[OF assms(1,2,3)] cong: map_cong)
qed

lemma adds_history_new:
  assumes "ids_ok s" "links_ok s" "adds_checkpoint row l s s'"
    and "\<And>p. cp_parent row = Some p \<Longrightarrow> p < cp_id row"
  shows "history_bytes s' (cp_id row) =
    (case cp_parent row of None \<Rightarrow> [] | Some p \<Rightarrow> history_bytes s p) @ map mr_payload (joined_messages s' l)"
proof -
  have own: "checkpoint_own_rows s' (cp_id row) = l" using adds_own_rows[OF assms(1,2,3)] by simp
  have lin: "lineage s' (cp_id row) = (case cp_parent row of None \<Rightarrow> [] | Some p \<Rightarrow> lineage s p) @ [row]"
    using lineage_new[OF assms(1) _ adds_below[OF assms(1,3)]] assms(3,4)
    by (auto simp: adds_checkpoint_def split: option.splits)
  have "map (\<lambda>r. joined_messages s' (checkpoint_own_rows s' (cp_id r))) (lineage s p)
      = map (\<lambda>r. joined_messages s (checkpoint_own_rows s (cp_id r))) (lineage s p)" for p
    using lineage_exists[OF assms(1)] adds_below[OF assms(1,3)] adds_joined_old[OF assms(1,2,3)]
    by (auto intro!: map_cong)
  then show ?thesis
    using own by (auto simp: history_bytes_def checkpoint_rows_def lin split: option.splits
        simp del: map_eq_conv map_concat)
qed

lemma adds_find:
  assumes "ids_ok s" "adds_checkpoint row l s s'"
  shows "find_checkpoint i s' = (if i = cp_id row then Some row else find_checkpoint i s)"
proof -
  have "find (\<lambda>r. cp_id r = cp_id row) (checkpoints_t s) = None"
    using adds_below[OF assms] by (force simp: find_None_iff)
  then show ?thesis
    using assms(2) find_append_new[of row i "checkpoints_t s"]
    by (auto simp: find_checkpoint_def adds_checkpoint_def find_append_none)
qed

lemma adds_extends:
  assumes "ids_ok s" "links_ok s" "adds_checkpoint row l s s'"
  shows "extends_db s s'"
proof -
  have "find_checkpoint i s = Some r \<Longrightarrow> i < cp_id row" for i r
    using adds_below[OF assms(1,3)] find_checkpoint_mem by blast
  then show ?thesis
    using adds_find[OF assms(1,3)] adds_history_old[OF assms] by (fastforce simp: extends_db_def)
qed

lemma adds_ids_ok:
  assumes "ids_ok s" "adds_checkpoint row l s s'"
    and "\<And>p. cp_parent row = Some p \<Longrightarrow>
           \<exists>q\<in>set (checkpoints_t s). cp_id q = p \<and> cp_conversation q = cp_conversation row"
  shows "ids_ok s'"
proof -
  have "p < cp_id row" if "cp_parent row = Some p" for p
    using assms(3)[OF that] adds_below[OF assms(1,2)] by auto
  then show ?thesis
    using assms(1,3) adds_below[OF assms(1,2)] assms(2)
    unfolding ids_ok_def adds_checkpoint_def by (fastforce simp: sorted_wrt_append)
qed

lemma adds_links_ok:
  assumes "links_ok s" "adds_checkpoint row l s s'"
    and "\<forall>r\<in>set l. find_message (cp_conversation row) (cm_message r) s' \<noteq> None"
  shows "links_ok s'"
proof -
  have "find_message (cm_conversation r) (cm_message r) s' \<noteq> None" if "r \<in> set (checkpoint_messages_t s)" for r
    using assms(1,2) that by (metis links_ok_def adds_checkpoint_def not_None_eq)
  then show ?thesis
    using assms unfolding links_ok_def adds_checkpoint_def by fastforce
qed

lemma adds_digests_ok:
  assumes "ids_ok s" "links_ok s" "digests_ok c s" "adds_checkpoint row l s s'"
    and "case cp_parent row of
           None \<Rightarrow> cp_digest row = root_digest c \<and> joined_messages s' l = []
         | Some p \<Rightarrow> (\<exists>q\<in>set (checkpoints_t s). cp_id q = p
             \<and> cp_digest row = payload_digest c (cp_digest q) (map mr_payload (joined_messages s' l)))"
  shows "digests_ok c s'"
proof -
  have "own_payloads s' (cp_id row) = map mr_payload (joined_messages s' l)"
    using adds_own_rows[OF assms(1,2,4)] by (simp add: own_payloads_def)
  moreover have "own_payloads s' (cp_id r) = own_payloads s (cp_id r)" if "r \<in> set (checkpoints_t s)" for r
    using adds_joined_old[OF assms(1,2,4)] adds_below[OF assms(1,4)] that by (simp add: own_payloads_def)
  moreover have "checkpoints_t s' = checkpoints_t s @ [row]" using assms(4) by (simp add: adds_checkpoint_def)
  ultimately show ?thesis
    using assms(3,5) unfolding digests_ok_def by (auto split: option.splits)
qed

lemma insert_checkpoint_spec:
  assumes c: "codec_ok c" and ok: "checkpoints_ok c s" and q: "find_checkpoint p s = Some q"
    and conv: "cp_conversation q = conv"
    and ins: "insert_checkpoint_tx c conv (CheckpointId p) ms (chained_digest c (cp_digest q) ms) s = Inr (cp, s')"
  shows "checkpoints_ok c s' \<and> extends_db s s' \<and> same_runs s s'
    \<and> cp = CheckpointId (next_checkpoint s) \<and> next_checkpoint s' = next_checkpoint s + 1
    \<and> find_checkpoint (next_checkpoint s) s' = Some \<lparr>cp_id = next_checkpoint s, cp_conversation = conv,
         cp_parent = Some p, cp_digest = chained_digest c (cp_digest q) ms\<rparr>
    \<and> history_bytes s' (next_checkpoint s) = history_bytes s p @ map (ser c) ms"
proof -
  let ?n = "next_checkpoint s"
  let ?row = "\<lparr>cp_id = ?n, cp_conversation = conv, cp_parent = Some p,
               cp_digest = chained_digest c (cp_digest q) ms\<rparr>"
  let ?l = "own_rows ?n conv ms"
  note tab = insert_checkpoint_tables[OF c ok ins]
  have ids: "ids_ok s" and links: "links_ok s" and digs: "digests_ok c s"
    using ok by (auto simp: checkpoints_ok_def)
  have qm: "q \<in> set (checkpoints_t s)" "cp_id q = p" using find_checkpoint_mem[OF q] by auto
  have adds: "adds_checkpoint ?row ?l s s'"
    using tab own_rows_simps[of ?n conv ms] by (simp add: adds_checkpoint_def)
  have below: "p < ?n" using qm adds_below[OF ids adds] by auto
  have payloads: "map mr_payload (joined_messages s' ?l) = map (ser c) ms"
    by (rule joined_payloads) (use own_rows_simps tab(10) in auto)
  have "find_message conv (cm_message r) s' \<noteq> None" if "r \<in> set ?l" for r
  proof -
    have "cm_message r \<in> set (map cm_message ?l)" using that by simp
    then show ?thesis using tab(10) by (auto simp: own_rows_simps)
  qed
  then have "links_ok s'" using adds_links_ok[OF links adds] by simp
  moreover have "ids_ok s'" using adds_ids_ok[OF ids adds] qm conv by auto
  moreover have "digests_ok c s'"
    using adds_digests_ok[OF ids links digs adds] payloads qm
    by (auto simp: chained_digest_def payload_digest_def update_digest_def comp_def)
  moreover have "history_bytes s' ?n = history_bytes s p @ map (ser c) ms"
    using adds_history_new[OF ids links adds] payloads below by simp
  ultimately show ?thesis
    using tab(1,3,5,6) adds_find[OF ids adds, of ?n] adds_extends[OF ids links adds]
    by (simp add: checkpoints_ok_def)
qed

text \<open>The root of a new conversation: no parent, no messages.\<close>

lemma insert_root_spec:
  assumes ok: "checkpoints_ok c s" and ins: "insert_checkpoint_row conv None (root_digest c) s = Inr (i, s')"
  shows "checkpoints_ok c s' \<and> extends_db s s' \<and> same_runs s s' \<and> i = next_checkpoint s
    \<and> find_checkpoint i s' = Some \<lparr>cp_id = i, cp_conversation = conv, cp_parent = None, cp_digest = root_digest c\<rparr>
    \<and> history_bytes s' i = []"
proof -
  let ?row = "\<lparr>cp_id = next_checkpoint s, cp_conversation = conv, cp_parent = None, cp_digest = root_digest c\<rparr>"
  have ids: "ids_ok s" and links: "links_ok s" and digs: "digests_ok c s"
    using ok by (auto simp: checkpoints_ok_def)
  have s': "i = next_checkpoint s" "s' = s\<lparr>checkpoints_t := checkpoints_t s @ [?row], next_checkpoint := next_checkpoint s + 1\<rparr>"
    using ins by (auto simp: insert_checkpoint_row_def split: if_splits)
  have adds: "adds_checkpoint ?row [] s s'" using s' by (simp add: adds_checkpoint_def find_message_def)
  have "message_rows_ok c s'" "same_runs s s'"
    using ok s' by (auto simp: checkpoints_ok_def message_rows_ok_def same_runs_def)
  then show ?thesis
    using adds_ids_ok[OF ids adds] adds_links_ok[OF links adds] adds_digests_ok[OF ids links digs adds]
      adds_find[OF ids adds, of i] adds_extends[OF ids links adds] adds_history_new[OF ids links adds] s'
    by (simp add: checkpoints_ok_def joined_messages_def)
qed

end
