(* ===== verification/Runs.thy ===== *)
theory Runs
  imports Checkpoints EnginePolicy
begin

text \<open>
  Run ownership and status (src/server/src/store/runs.rs). The clock reading of a transaction is the
  argument \<open>now\<close>. Usage is stored as opaque text by the source and read only by statistics; it is left
  out of the rows.
\<close>

definition interrupted_by_process_exit :: string where
  "interrupted_by_process_exit = ''interrupted by process exit''"

record claimed_run =
  cl_run :: string
  cl_conversation :: string
  cl_head :: checkpoint_id
  cl_replaced :: "string option"

definition run_kind_columns :: "run_kind \<Rightarrow> string option \<times> string option \<times> bool \<times> string option" where
  "run_kind_columns k =
     (case k of
        RootRun \<Rightarrow> (None, None, False, None)
      | SubagentRun p call sk \<Rightarrow>
          (p, call, True, Some (case sk of GeneralPurpose \<Rightarrow> ''generalPurpose'' | Named n \<Rightarrow> n)))"

definition find_run :: "string \<Rightarrow> db \<Rightarrow> run_row option" where
  "find_run r s = find (\<lambda>x. run_id x = r) (runs_t s)"

text \<open>UPDATE llm_calls: the running calls of a run reach a terminal state.\<close>

definition finish_llm_calls ::
    "int \<Rightarrow> (llm_call_row \<Rightarrow> bool) \<Rightarrow> llm_status \<Rightarrow> string option \<Rightarrow> string option \<Rightarrow> db \<Rightarrow> db" where
  "finish_llm_calls now p st kind msg s =
     s\<lparr>llm_calls_t := update_where (\<lambda>r. p r \<and> llm_status r = LlmRunning)
        (\<lambda>r. r\<lparr>llm_status := st, llm_finished := Some now, llm_duration := Some (max 0 (now - llm_created r)),
              llm_error_kind := kind, llm_error_message := msg\<rparr>) (llm_calls_t s)\<rparr>"

text \<open>The same UPDATE without the error columns, as the replacement of a run issues it.\<close>

definition cancel_llm_calls :: "int \<Rightarrow> string \<Rightarrow> db \<Rightarrow> db" where
  "cancel_llm_calls now run s =
     s\<lparr>llm_calls_t := update_where (\<lambda>r. llm_run r = run \<and> llm_status r = LlmRunning)
        (\<lambda>r. r\<lparr>llm_status := LlmCancelled, llm_finished := Some now,
              llm_duration := Some (max 0 (now - llm_created r))\<rparr>) (llm_calls_t s)\<rparr>"

definition belongs :: "checkpoint_id \<Rightarrow> string \<Rightarrow> db \<Rightarrow> bool" where
  "belongs cp conv s = list_ex (\<lambda>r. cp_id r = checkpoint_int cp \<and> cp_conversation r = conv) (checkpoints_t s)"

text \<open>The run that owned the conversation is cancelled, unless it is the claiming run itself.\<close>

definition cancel_replaced :: "int \<Rightarrow> string option \<Rightarrow> string \<Rightarrow> db \<Rightarrow> db" where
  "cancel_replaced now replaced run s =
     (case replaced of
        Some r \<Rightarrow>
          (if r \<noteq> run
           then cancel_llm_calls now r
                  (s\<lparr>runs_t := update_where (\<lambda>x. run_id x = r \<and> run_status x = RunRunning)
                       (\<lambda>x. x\<lparr>run_status := RunCancelled, run_updated := now\<rparr>) (runs_t s)\<rparr>)
           else s)
      | None \<Rightarrow> s)"

definition new_run_row :: "int \<Rightarrow> prepared_run \<Rightarrow> run_row" where
  "new_run_row now p =
     (case run_kind_columns (pr_kind p) of (parent, call, sub, sk) \<Rightarrow>
        \<lparr>run_id = pr_run_id p, run_request = pr_cursor_request_id p,
         run_conversation = pr_conversation_id p, run_base = checkpoint_int (pr_base_checkpoint p),
         run_head = checkpoint_int (pr_base_checkpoint p), run_parent_run = parent,
         run_parent_call = call, run_is_subagent = sub, run_subagent_kind = sk,
         run_status = RunRunning, run_call_index = -1, run_failure_category = None,
         run_failure_summary = None, run_created = now, run_updated = now\<rparr>)"

definition claim_run :: "codec \<Rightarrow> int \<Rightarrow> prepared_run \<Rightarrow> claimed_run tx" where
  "claim_run c now p s =
     rbind (ensure_conversation_tx c (pr_conversation_id p) s) (\<lambda>(_, s1).
       if \<not> belongs (pr_base_checkpoint p) (pr_conversation_id p) s1
       then Inl (Store (''base checkpoint '' @ show_int (checkpoint_int (pr_base_checkpoint p))
                        @ '' does not belong to conversation '' @ pr_conversation_id p))
       else
         let replaced = Option.bind (find_conversation (pr_conversation_id p) s1) cv_active_run;
             s2 = cancel_replaced now replaced (pr_run_id p) s1
         in if find_run (pr_run_id p) s2 \<noteq> None then Inl unique_violation
            else
              let s3 = s2\<lparr>runs_t := runs_t s2 @ [new_run_row now p],
                          conversations_t := update_where (\<lambda>r. cv_id r = pr_conversation_id p)
                            (\<lambda>r. r\<lparr>cv_current := Some (checkpoint_int (pr_base_checkpoint p)),
                                  cv_active_run := Some (pr_run_id p)\<rparr>) (conversations_t s2)\<rparr>
              in Inr (\<lparr>cl_run = pr_run_id p, cl_conversation = pr_conversation_id p,
                       cl_head = pr_base_checkpoint p,
                       cl_replaced = (case replaced of Some r \<Rightarrow> (if r \<noteq> pr_run_id p then Some r else None)
                                      | None \<Rightarrow> None)\<rparr>, s3))"

text \<open>ORDER BY a time DESC LIMIT 1: one of the rows with the greatest time; the first inserted here.\<close>

fun newest :: "('r \<Rightarrow> int) \<Rightarrow> 'r list \<Rightarrow> 'r option" where
  "newest f [] = None"
| "newest f (r # rs) =
     (case newest f rs of None \<Rightarrow> Some r | Some m \<Rightarrow> (if f r \<ge> f m then Some r else Some m))"

definition active_run_for_cursor_request :: "string \<Rightarrow> db \<Rightarrow> string option" where
  "active_run_for_cursor_request req s =
     map_option run_id
       (newest run_created (filter (\<lambda>r. run_request r = Some req \<and> run_status r = RunRunning) (runs_t s)))"

text \<open>A running child whose spawning tool call already has its result: a background subagent.\<close>

definition background_child :: "string \<Rightarrow> db \<Rightarrow> run_row \<Rightarrow> bool" where
  "background_child run s child \<longleftrightarrow>
     run_parent_run child = Some run \<and> run_status child = RunRunning
     \<and> list_ex (\<lambda>call. Some (rc_call_id call) = run_parent_call child \<and> rc_state call = CallCompleted)
               (round_calls_t s)"

definition has_running_background_subagents :: "string \<Rightarrow> db \<Rightarrow> bool" where
  "has_running_background_subagents run s = list_ex (background_child run s) (runs_t s)"

text \<open>
  The task a call spawned: the conversation of its run and the title in its arguments, when the call is
  completed. The arguments are kept parsed.
\<close>

definition description_of :: "json \<Rightarrow> string option" where
  "description_of j =
     (case j of
        JObj kvs \<Rightarrow>
          (case map_of kvs ''description'' of
             Some (JStr d) \<Rightarrow> (if d = [] then None else Some d)
           | _ \<Rightarrow> None)
      | _ \<Rightarrow> None)"

definition background_task :: "string \<Rightarrow> db \<Rightarrow> (string \<times> string) option" where
  "background_task call s =
     (let joined = concat (map (\<lambda>k.
            (case find (\<lambda>rd. rd_id rd = rc_round k) (rounds_t s) of
               None \<Rightarrow> []
             | Some rd \<Rightarrow> (case find_run (rd_run rd) s of None \<Rightarrow> [] | Some r \<Rightarrow> [(k, r)])))
          (filter (\<lambda>k. rc_call_id k = call \<and> rc_state k = CallCompleted) (round_calls_t s)))
      in case newest (\<lambda>(k, r). case rc_completed_at k of Some t \<Rightarrow> t | None \<Rightarrow> i64_min - 1) joined of
           None \<Rightarrow> None
         | Some (k, r) \<Rightarrow> map_option (\<lambda>d. (run_conversation r, d)) (description_of (rc_arguments k)))"

definition finished_status :: "run_status \<Rightarrow> bool" where
  "finished_status st \<longleftrightarrow> st = RunCompleted \<or> st = RunFailed \<or> st = RunCancelled"

definition finished_child_runs :: "string list \<Rightarrow> db \<Rightarrow> (string \<times> run_status \<times> nat) list" where
  "finished_child_runs calls s =
     concat (map (\<lambda>call.
       (case newest run_updated
          (filter (\<lambda>r. run_parent_call r = Some call \<and> run_is_subagent r \<and> finished_status (run_status r))
             (runs_t s)) of
          None \<Rightarrow> []
        | Some r \<Rightarrow> [(call, run_status r, nat (max 0 (run_updated r)))])) (remdups calls))"

definition begin_provider_call :: "int \<Rightarrow> string \<Rightarrow> nat tx" where
  "begin_provider_call now run s =
     (let p = (\<lambda>r. run_id r = run \<and> run_status r = RunRunning);
          s' = s\<lparr>runs_t := update_where p
                   (\<lambda>r. r\<lparr>run_call_index := run_call_index r + 1, run_updated := now\<rparr>) (runs_t s)\<rparr>
      in case find p (runs_t s') of
           Some r \<Rightarrow> Inr (nat (run_call_index r), s')
         | None \<Rightarrow> Inl (Store (''run is not active: '' @ run)))"

definition finish_run :: "int \<Rightarrow> string \<Rightarrow> run_status \<Rightarrow> (string \<times> string) option \<Rightarrow> bool tx" where
  "finish_run now run status failure s =
     (case find_run run s of
        None \<Rightarrow> Inl (RunNotFound run)
      | Some row \<Rightarrow>
          (let running = (run_status row = RunRunning);
               terminal = (if running then status else run_status row);
               cat = (if running then map_option fst failure else run_failure_category row);
               summary = (if running then map_option snd failure else run_failure_summary row);
               s1 = s\<lparr>runs_t := update_where (\<lambda>r. run_id r = run \<and> run_status r = RunRunning)
                        (\<lambda>r. r\<lparr>run_status := status, run_failure_category := cat,
                              run_failure_summary := summary, run_updated := now\<rparr>) (runs_t s)\<rparr>;
               release = (\<lambda>s2.
                 let p = (\<lambda>r. cv_id r = run_conversation row \<and> cv_active_run r = Some run)
                 in (count_where p (conversations_t s2) = 1,
                     s2\<lparr>conversations_t := update_where p (\<lambda>r. r\<lparr>cv_active_run := None\<rparr>) (conversations_t s2)\<rparr>))
           in case terminal of
                RunCancelled \<Rightarrow> Inr (release (finish_llm_calls now (\<lambda>r. llm_run r = run) LlmCancelled None None s1))
              | RunFailed \<Rightarrow> Inr (release (finish_llm_calls now (\<lambda>r. llm_run r = run) LlmError cat summary s1))
              | RunCompleted \<Rightarrow>
                  Inr (release (finish_llm_calls now (\<lambda>r. llm_run r = run) LlmError (Some ''internal'')
                         (Some ''Run completed before LLM call reached a terminal state'') s1))
              | RunRunning \<Rightarrow> Inl (Store ''cannot finish LLM calls for non-terminal Run status: running'')))"

definition reconcile_interrupted_runs :: "int \<Rightarrow> int \<Rightarrow> nat tx" where
  "reconcile_interrupted_runs now started s =
     (let old = (\<lambda>r. run_status r = RunRunning \<and> run_created r < started);
          old_call = (\<lambda>r. llm_status r = LlmRunning \<and> llm_created r < started);
          old_trace = (\<lambda>r. trace_running r \<and> trace_received r < started);
          s1 = s\<lparr>conversations_t := update_where
                   (\<lambda>r. case cv_active_run r of Some a \<Rightarrow> list_ex (\<lambda>x. old x \<and> run_id x = a) (runs_t s) | None \<Rightarrow> False)
                   (\<lambda>r. r\<lparr>cv_active_run := None\<rparr>) (conversations_t s)\<rparr>;
          s2 = s1\<lparr>runs_t := update_where old
                   (\<lambda>r. r\<lparr>run_status := RunFailed, run_failure_category := Some ''interrupted'',
                         run_failure_summary := Some interrupted_by_process_exit, run_updated := now\<rparr>) (runs_t s1)\<rparr>;
          s3 = finish_llm_calls now (\<lambda>r. llm_created r < started) LlmError (Some ''interrupted'')
                 (Some interrupted_by_process_exit) s2;
          s4 = s3\<lparr>traces_t := update_where old_trace
                   (\<lambda>r. r\<lparr>trace_running := False, trace_error := Some interrupted_by_process_exit\<rparr>) (traces_t s3)\<rparr>
      in Inr (count_where old (runs_t s) + count_where old_call (llm_calls_t s) + count_where old_trace (traces_t s),
              s4))"

end
