(* ===== verification/ToolRounds.thy ===== *)
theory ToolRounds
  imports Runs
begin

text \<open>
  Tool rounds and their settlement (src/server/src/store/tool_rounds.rs). A call's arguments are kept
  parsed: the source stores their JSON text and parses it back. A timestamp that does not fit an i64 is
  the protocol error of the source.
\<close>

datatype round_status = RoundPending | RoundSettled

record round_snapshot =
  snap_round :: string
  snap_run :: string
  snap_base :: checkpoint_id
  snap_assistant :: tool_round_assistant
  snap_calls :: "tool_call list"
  snap_completed :: "string list"
  snap_status :: round_status
  snap_version :: nat
  snap_created :: nat

record tool_commit =
  tcm_checkpoint :: checkpoint_id
  tcm_version :: nat
  tcm_seq :: nat
  tcm_settled :: bool

definition find_round :: "string \<Rightarrow> db \<Rightarrow> round_row option" where
  "find_round r s = find (\<lambda>x. rd_id x = r) (rounds_t s)"

definition owns_head :: "string \<Rightarrow> checkpoint_id \<Rightarrow> db \<Rightarrow> bool" where
  "owns_head run base s =
     list_ex (\<lambda>r. run_id r = run \<and> run_head r = checkpoint_int base \<and> run_status r = RunRunning
               \<and> list_ex (\<lambda>v. cv_id v = run_conversation r \<and> cv_active_run v = Some run
                            \<and> cv_current v = Some (run_head r)) (conversations_t s))
             (runs_t s)"

definition new_call_row :: "string \<Rightarrow> tool_call \<Rightarrow> round_call_row" where
  "new_call_row rid k =
     \<lparr>rc_round = rid, rc_index = call_index k, rc_call_id = call_id k, rc_model_call_id = model_call_id k,
      rc_name = call_name k, rc_arguments = call_arguments k, rc_argument_error = argument_error k,
      rc_state = CallPending, rc_seq = None, rc_content = None, rc_is_error = None,
      rc_committed = None, rc_completed_at = None\<rparr>"

definition create_tool_round ::
    "int \<Rightarrow> string \<Rightarrow> string \<Rightarrow> checkpoint_id \<Rightarrow> tool_round_assistant \<Rightarrow> tool_call list \<Rightarrow> nat option \<Rightarrow> unit tx" where
  "create_tool_round now rid run base assistant calls created s =
     (if calls = [] then Inl (Store ''cannot persist an empty tool round'')
      else if \<not> owns_head run base s
      then Inl (Store (''run '' @ run @ '' cannot start tool round at checkpoint ''
                       @ show_int (checkpoint_int base)))
      else if (case created of Some t \<Rightarrow> int t > i64_max | None \<Rightarrow> False)
      then Inl (Protocol ''tool round timestamp exceeds SQLite INTEGER'')
      else if find_round rid s \<noteq> None \<or> \<not> distinct (map call_index calls) \<or> \<not> distinct (map call_id calls)
      then Inl unique_violation
      else Inr ((), s\<lparr>rounds_t := rounds_t s @
             [\<lparr>rd_id = rid, rd_run = run, rd_base = checkpoint_int base, rd_assistant = assistant,
               rd_settled = False, rd_version = 0, rd_next_seq = 0,
               rd_created = (case created of Some t \<Rightarrow> int t | None \<Rightarrow> now)\<rparr>],
           round_calls_t := round_calls_t s @ map (new_call_row rid) calls\<rparr>))"

definition find_call :: "string \<Rightarrow> string \<Rightarrow> db \<Rightarrow> round_call_row option" where
  "find_call rid cid s = find (\<lambda>k. rc_round k = rid \<and> rc_call_id k = cid) (round_calls_t s)"

text \<open>The two messages a result is committed as: the first of a round carries the assistant's text.\<close>

definition round_assistant_message :: "string \<Rightarrow> round_row \<Rightarrow> round_call_row \<Rightarrow> message" where
  "round_assistant_message rid rd k =
     (let first = (rd_next_seq rd = 0); a = rd_assistant rd
      in \<lparr>message_id = rid @ '':'' @ rc_call_id k @ '':assistant'', msg_role = RAssistant,
          msg_origin = OAssistant,
          msg_content = Assistant (if first then ra_text a else []) (if first then ra_thinking a else [])
            (Some rid) (if first then ra_replay_state a else None)
            [\<lparr>tc_index = rc_index k, tc_call_id = rc_call_id k, tc_name = rc_name k,
              tc_arguments = rc_arguments k\<rparr>],
          runtime_event_id = None\<rparr>)"

definition round_result_message :: "string \<Rightarrow> round_call_row \<Rightarrow> tool_result \<Rightarrow> message" where
  "round_result_message rid k r =
     \<lparr>message_id = rid @ '':'' @ result_call_id r @ '':result'', msg_role = RTool, msg_origin = OTool,
      msg_content = ToolResult \<lparr>tr_call_id = result_call_id r, tr_name = rc_name k,
        tr_content = result_content r, tr_is_error = result_is_error r, tr_image = result_image r,
        tr_provider_parts = []\<rparr>,
      runtime_event_id = None\<rparr>"

definition pending_calls :: "string \<Rightarrow> db \<Rightarrow> round_call_row list" where
  "pending_calls rid s = filter (\<lambda>k. rc_round k = rid \<and> rc_state k = CallPending) (round_calls_t s)"

definition complete_call :: "int \<Rightarrow> string \<Rightarrow> int \<Rightarrow> checkpoint_id \<Rightarrow> tool_result \<Rightarrow> db \<Rightarrow> db" where
  "complete_call now rid seq cp r s =
     s\<lparr>round_calls_t := update_where
         (\<lambda>k. rc_round k = rid \<and> rc_call_id k = result_call_id r \<and> rc_state k = CallPending)
         (\<lambda>k. k\<lparr>rc_state := CallCompleted, rc_seq := Some seq, rc_content := Some (result_content r),
               rc_is_error := Some (result_is_error r), rc_committed := Some (checkpoint_int cp),
               rc_completed_at := Some now\<rparr>) (round_calls_t s)\<rparr>"

definition commit_tool_result ::
    "codec \<Rightarrow> int \<Rightarrow> string \<Rightarrow> string \<Rightarrow> string \<Rightarrow> tool_result \<Rightarrow> tool_commit tx" where
  "commit_tool_result c now conv run rid r s =
     (case find (\<lambda>x. rd_id x = rid \<and> rd_run x = run) (rounds_t s) of
        None \<Rightarrow> Inl (Store (''unknown tool round: '' @ rid))
      | Some rd \<Rightarrow>
          (if rd_settled rd then Inl (Store (''tool round is already settled: '' @ rid))
           else case find_call rid (result_call_id r) s of
             None \<Rightarrow> Inl (Protocol (''unknown tool result call_id: '' @ result_call_id r))
           | Some k \<Rightarrow>
               (if rc_state k \<noteq> CallPending
                then Inl (Protocol (''duplicate tool result call_id: '' @ result_call_id r))
                else case find_run run s of
                  None \<Rightarrow> Inl (Database ''no rows returned'')
                | Some run_row \<Rightarrow>
                    rbind (append_checkpoint_tx c conv run (CheckpointId (run_head run_row))
                             [round_assistant_message rid rd k, round_result_message rid k r] s) (\<lambda>(cp, s1).
                      let s2 = complete_call now rid (rd_next_seq rd) cp r s1;
                          settled = (pending_calls rid s2 = []);
                          s3 = s2\<lparr>rounds_t := update_where (\<lambda>x. rd_id x = rid)
                                 (\<lambda>x. x\<lparr>rd_settled := settled, rd_version := rd_version rd + 1,
                                       rd_next_seq := rd_next_seq rd + 1\<rparr>) (rounds_t s2)\<rparr>
                      in Inr (\<lparr>tcm_checkpoint = cp, tcm_version = nat (rd_version rd + 1),
                               tcm_seq = nat (rd_next_seq rd), tcm_settled = settled\<rparr>, s3)))))"

definition call_of_row :: "(json \<Rightarrow> string) \<Rightarrow> round_call_row \<Rightarrow> tool_call" where
  "call_of_row show_json k =
     \<lparr>call_index = rc_index k, call_id = rc_call_id k, model_call_id = rc_model_call_id k,
      call_name = rc_name k, arguments_text = show_json (rc_arguments k), call_arguments = rc_arguments k,
      argument_error = rc_argument_error k\<rparr>"

definition tool_round :: "(json \<Rightarrow> string) \<Rightarrow> string \<Rightarrow> db \<Rightarrow> round_snapshot option" where
  "tool_round show_json rid s =
     (case find_round rid s of
        None \<Rightarrow> None
      | Some rd \<Rightarrow>
          (let rows = sort_key rc_index (filter (\<lambda>k. rc_round k = rid) (round_calls_t s))
           in Some \<lparr>snap_round = rid, snap_run = rd_run rd, snap_base = CheckpointId (rd_base rd),
                    snap_assistant = rd_assistant rd, snap_calls = map (call_of_row show_json) rows,
                    snap_completed = map rc_call_id (filter (\<lambda>k. rc_state k = CallCompleted) rows),
                    snap_status = (if rd_settled rd then RoundSettled else RoundPending),
                    snap_version = nat (rd_version rd), snap_created = nat (rd_created rd)\<rparr>))"

end
