(* ===== verification/StoreLaws.thy ===== *)
theory StoreLaws
  imports CheckpointLemmas ToolRounds
begin

text \<open>
  The invariant of the whole store (checkpoints, heads, run ownership, tool rounds), each transaction's
  preservation of it, and the store as a machine over its transactions.
\<close>

section \<open>Invariant\<close>

text \<open>Every conversation has a current checkpoint of its own.\<close>

definition heads_ok :: "db \<Rightarrow> bool" where
  "heads_ok s \<longleftrightarrow>
     distinct (map cv_id (conversations_t s))
     \<and> (\<forall>v\<in>set (conversations_t s). \<exists>i q. cv_current v = Some i \<and> find_checkpoint i s = Some q
          \<and> cp_conversation q = cv_id v)"

text \<open>A conversation is owned by a running run of its own whose head is the current checkpoint.\<close>

definition owners_ok :: "db \<Rightarrow> bool" where
  "owners_ok s \<longleftrightarrow>
     distinct (map run_id (runs_t s))
     \<and> (\<forall>v\<in>set (conversations_t s). \<forall>a. cv_active_run v = Some a \<longrightarrow>
          (\<exists>x\<in>set (runs_t s). run_id x = a \<and> run_conversation x = cv_id v \<and> run_status x = RunRunning
             \<and> cv_current v = Some (run_head x)))"

definition completed_calls :: "string \<Rightarrow> db \<Rightarrow> round_call_row list" where
  "completed_calls rid s = filter (\<lambda>k. rc_round k = rid \<and> rc_state k = CallCompleted) (round_calls_t s)"

text \<open>
  A round is settled exactly when no call of it is pending, its version and its next sequence number
  count the completed calls, and every call belongs to a round and is in it once.
\<close>

definition rounds_ok :: "db \<Rightarrow> bool" where
  "rounds_ok s \<longleftrightarrow>
     distinct (map rd_id (rounds_t s))
     \<and> distinct (map (\<lambda>k. (rc_round k, rc_call_id k)) (round_calls_t s))
     \<and> (\<forall>k\<in>set (round_calls_t s). rc_round k \<in> rd_id ` set (rounds_t s))
     \<and> (\<forall>d\<in>set (rounds_t s).
          (rd_settled d \<longleftrightarrow> pending_calls (rd_id d) s = [])
          \<and> rd_version d = int (length (completed_calls (rd_id d) s))
          \<and> rd_next_seq d = int (length (completed_calls (rd_id d) s)))"

definition store_ok :: "codec \<Rightarrow> db \<Rightarrow> bool" where
  "store_ok c s \<longleftrightarrow> checkpoints_ok c s \<and> heads_ok s \<and> owners_ok s \<and> rounds_ok s"


section \<open>Frames\<close>

lemma extends_db_refl [simp]: "extends_db s s"
  by (simp add: extends_db_def)

lemma extends_db_trans: "extends_db a b \<Longrightarrow> extends_db b d \<Longrightarrow> extends_db a d"
  by (simp add: extends_db_def)

text \<open>A change of the other tables only.\<close>

definition same_checkpoints :: "db \<Rightarrow> db \<Rightarrow> bool" where
  "same_checkpoints s s' \<longleftrightarrow>
     checkpoints_t s' = checkpoints_t s \<and> next_checkpoint s' = next_checkpoint s
     \<and> messages_t s' = messages_t s \<and> checkpoint_messages_t s' = checkpoint_messages_t s"

lemma same_checkpoints_refl [simp]: "same_checkpoints s s"
  by (simp add: same_checkpoints_def)

lemma same_checkpoints_trans: "same_checkpoints a b \<Longrightarrow> same_checkpoints b d \<Longrightarrow> same_checkpoints a d"
  by (simp add: same_checkpoints_def)

lemma same_checkpoints_reads:
  assumes "same_checkpoints s s'"
  shows "find_checkpoint i s' = find_checkpoint i s" "find_message cv mid s' = find_message cv mid s"
    "checkpoint_own_rows s' i = checkpoint_own_rows s i" "joined_messages s' l = joined_messages s l"
    "lineage s' i = lineage s i" "checkpoint_rows s' i = checkpoint_rows s i"
    "history_bytes s' i = history_bytes s i" "own_payloads s' i = own_payloads s i"
proof -
  show 1: "find_checkpoint i s' = find_checkpoint i s" "find_message cv mid s' = find_message cv mid s"
    "checkpoint_own_rows s' i = checkpoint_own_rows s i" "joined_messages s' l = joined_messages s l"
    "lineage s' i = lineage s i" for i cv mid l
    using assms
    by (simp_all add: same_checkpoints_def find_checkpoint_def find_message_def checkpoint_own_rows_def
        lineage_def joined_messages_def)
  show "checkpoint_rows s' i = checkpoint_rows s i" by (simp add: checkpoint_rows_def 1)
  then show "history_bytes s' i = history_bytes s i" by (simp add: history_bytes_def)
  show "own_payloads s' i = own_payloads s i" by (simp add: own_payloads_def 1)
qed

lemma same_checkpoints_ok: "same_checkpoints s s' \<Longrightarrow> checkpoints_ok c s' = checkpoints_ok c s"
proof -
  assume a: "same_checkpoints s s'"
  show ?thesis
    using a[unfolded same_checkpoints_def]
    unfolding checkpoints_ok_def ids_ok_def message_rows_ok_def links_ok_def digests_ok_def
      same_checkpoints_reads[OF a] by (simp cong: option.case_cong)
qed

lemma same_checkpoints_extends: "same_checkpoints s s' \<Longrightarrow> extends_db s s'"
  by (simp add: extends_db_def same_checkpoints_reads)

text \<open>Heads and owners survive a growth of the checkpoints.\<close>

lemma heads_ok_extends: "heads_ok s \<Longrightarrow> extends_db s s' \<Longrightarrow> conversations_t s' = conversations_t s \<Longrightarrow> heads_ok s'"
  unfolding heads_ok_def extends_db_def by metis

lemma owners_ok_same: "owners_ok s \<Longrightarrow> conversations_t s' = conversations_t s \<Longrightarrow> runs_t s' = runs_t s \<Longrightarrow> owners_ok s'"
  by (simp add: owners_ok_def)

lemma rounds_ok_same: "rounds_ok s \<Longrightarrow> rounds_t s' = rounds_t s \<Longrightarrow> round_calls_t s' = round_calls_t s \<Longrightarrow> rounds_ok s'"
  by (simp add: rounds_ok_def pending_calls_def completed_calls_def)

lemma grown_store_ok:
  "store_ok c s \<Longrightarrow> checkpoints_ok c s' \<Longrightarrow> extends_db s s' \<Longrightarrow> same_runs s s' \<Longrightarrow> store_ok c s'"
  by (auto simp: store_ok_def same_runs_def intro: heads_ok_extends owners_ok_same rounds_ok_same)

lemma find_conversation_mem:
  "find_conversation conv s = Some v \<Longrightarrow> v \<in> set (conversations_t s) \<and> cv_id v = conv"
  by (auto simp: find_conversation_def dest: find_SomeD)

lemma find_conversation_unique:
  "heads_ok s \<Longrightarrow> v \<in> set (conversations_t s) \<Longrightarrow> find_conversation (cv_id v) s = Some v"
  using find_unique[of cv_id "conversations_t s" v] by (simp add: find_conversation_def heads_ok_def)

lemma find_run_mem: "find_run r s = Some x \<Longrightarrow> x \<in> set (runs_t s) \<and> run_id x = r"
  by (auto simp: find_run_def dest: find_SomeD)

lemma find_run_unique: "owners_ok s \<Longrightarrow> x \<in> set (runs_t s) \<Longrightarrow> find_run (run_id x) s = Some x"
  using find_unique[of run_id "runs_t s" x] by (simp add: find_run_def owners_ok_def)

lemma distinct_id_eq: "distinct (map f xs) \<Longrightarrow> x \<in> set xs \<Longrightarrow> y \<in> set xs \<Longrightarrow> f x = f y \<Longrightarrow> x = y"
  by (auto simp: distinct_map inj_on_def)

lemma owner_run:
  "owners_ok s \<Longrightarrow> v \<in> set (conversations_t s) \<Longrightarrow> cv_active_run v = Some a \<Longrightarrow>
   \<exists>x\<in>set (runs_t s). run_id x = a \<and> run_conversation x = cv_id v \<and> run_status x = RunRunning
     \<and> cv_current v = Some (run_head x)"
  by (simp add: owners_ok_def)

text \<open>A run owns one conversation.\<close>

lemma owner_unique:
  assumes "owners_ok s" "heads_ok s" "v \<in> set (conversations_t s)" "w \<in> set (conversations_t s)"
    "cv_active_run v = Some a" "cv_active_run w = Some a"
  shows "v = w"
proof -
  obtain x y where "x \<in> set (runs_t s)" "run_id x = a" "run_conversation x = cv_id v"
      "y \<in> set (runs_t s)" "run_id y = a" "run_conversation y = cv_id w"
    using owner_run[OF assms(1,3,5)] owner_run[OF assms(1,4,6)] by auto
  then have "cv_id v = cv_id w"
    using distinct_id_eq[of run_id "runs_t s" x y] assms(1) by (auto simp: owners_ok_def)
  then show ?thesis using distinct_id_eq[of cv_id "conversations_t s" v w] assms(2-4) by (auto simp: heads_ok_def)
qed


lemma update_where_none: "\<forall>r\<in>set rows. \<not> p r \<Longrightarrow> update_where p f rows = rows"
  by (induction rows) auto

lemma update_where_append: "update_where p f (xs @ ys) = update_where p f xs @ update_where p f ys"
  by (simp add: update_where_def)

lemma update_where_distinct:
  "(\<And>r. g (f r) = g r) \<Longrightarrow> distinct (map g (update_where p f rows)) = distinct (map g rows)"
  by (simp add: map_update_where)

lemma find_update_where:
  "(\<And>r. g (f r) = g r) \<Longrightarrow>
   find (\<lambda>r. g r = k) (update_where p f rows)
     = map_option (\<lambda>r. if p r then f r else r) (find (\<lambda>r. g r = k) rows)"
  by (induction rows) auto


section \<open>Conversations and checkpoints\<close>

lemma ensure_conversation_spec:
  assumes ok: "store_ok c s" and e: "ensure_conversation_tx c conv s = Inr (CheckpointId i, s')"
  shows "store_ok c s' \<and> extends_db s s' \<and> runs_t s' = runs_t s
    \<and> (\<exists>v. find_conversation conv s' = Some v \<and> cv_current v = Some i
         \<and> cv_active_run v = Option.bind (find_conversation conv s) cv_active_run)
    \<and> (find_conversation conv s \<noteq> None \<longrightarrow> s' = s)
    \<and> (find_conversation conv s = None \<longrightarrow> history_bytes s' i = [])
    \<and> (\<forall>k. k \<noteq> conv \<longrightarrow> find_conversation k s' = find_conversation k s)"
proof (cases "find_conversation conv s")
  case (Some v)
  then have "\<exists>j. cv_current v = Some j"
    using ok find_conversation_mem[OF Some] by (auto simp: store_ok_def heads_ok_def)
  then have "s' = s \<and> cv_current v = Some i"
    using e Some by (auto simp: ensure_conversation_tx_def)
  then show ?thesis using ok Some by simp
next
  case None
  let ?new = "\<lparr>cv_id = conv, cv_current = None, cv_active_run = None\<rparr>"
  let ?s1 = "s\<lparr>conversations_t := conversations_t s @ [?new]\<rparr>"
  let ?made = "?new\<lparr>cv_current := Some i\<rparr>"
  have heads: "heads_ok s" and owners: "owners_ok s" using ok by (auto simp: store_ok_def)
  have f1: "find_conversation conv ?s1 = Some ?new"
    using None by (simp add: find_conversation_def find_append_none)
  obtain s2 where ins: "insert_checkpoint_row conv None (root_digest c) ?s1 = Inr (i, s2)"
    and s': "s' = s2\<lparr>conversations_t := update_where (\<lambda>r. cv_id r = conv \<and> cv_current r = None)
               (\<lambda>r. r\<lparr>cv_current := Some i\<rparr>) (conversations_t s2)\<rparr>"
    using e None f1 by (auto simp: ensure_conversation_tx_def)
  have ok1: "checkpoints_ok c ?s1"
    using ok same_checkpoints_ok[of s ?s1 c] by (simp add: store_ok_def same_checkpoints_def)
  note root = insert_root_spec[OF ok1 ins]
  have s1e: "extends_db s ?s1" by (rule same_checkpoints_extends) (simp add: same_checkpoints_def)
  have s2e: "same_checkpoints s2 s'" using s' by (simp add: same_checkpoints_def)
  have ext: "extends_db s s'"
    using extends_db_trans[OF s1e] extends_db_trans[of ?s1 s2 s'] root same_checkpoints_extends[OF s2e] by blast
  have conv': "conversations_t s' = conversations_t s @ [?made]"
  proof -
    have "\<forall>r\<in>set (conversations_t s). \<not> (cv_id r = conv \<and> cv_current r = None)"
      using heads by (auto simp: heads_ok_def)
    then show ?thesis using s' root by (simp add: same_runs_def update_where_append update_where_none)
  qed
  have cp_i: "find_checkpoint i s' = Some \<lparr>cp_id = i, cp_conversation = conv, cp_parent = None, cp_digest = root_digest c\<rparr>"
    using root same_checkpoints_reads(1)[OF s2e] by metis
  have runs': "runs_t s' = runs_t s" "rounds_t s' = rounds_t s" "round_calls_t s' = round_calls_t s"
    using root s' by (simp_all add: same_runs_def)
  have fresh: "\<forall>r\<in>set (conversations_t s). cv_id r \<noteq> conv"
    using None by (auto simp: find_conversation_def find_None_iff)
  have "heads_ok s'"
    using heads fresh cp_i ext unfolding heads_ok_def conv' extends_db_def by fastforce
  moreover have "owners_ok s'"
    using owners unfolding owners_ok_def conv' runs' by auto
  moreover have "rounds_ok s'" using ok runs' rounds_ok_same by (auto simp: store_ok_def)
  moreover have "checkpoints_ok c s'" using root same_checkpoints_ok[OF s2e] by simp
  moreover have "find_conversation conv s' = Some ?made"
    using fresh conv' by (auto simp: find_conversation_def find_append_none find_None_iff)
  moreover have "find_conversation k s' = find_conversation k s" if "k \<noteq> conv" for k
    using that conv' by (cases "find_conversation k s") (auto simp: find_conversation_def find_append_old find_append_none)
  moreover have "history_bytes s' i = []" using root same_checkpoints_reads(7)[OF s2e] by metis
  ultimately show ?thesis using ext runs' None by (simp add: store_ok_def)
qed

lemma require_active_head_iff:
  "require_active_head_tx conv run (CheckpointId i) s = Inr (u, s') \<longleftrightarrow>
     s' = s \<and> (\<exists>v. find_conversation conv s = Some v \<and> cv_current v = Some i \<and> cv_active_run v = Some run)"
  by (auto simp: require_active_head_tx_def split: option.splits)

text \<open>Moving the head: only this conversation's row and this run's head change.\<close>

lemma advance_head_spec:
  assumes ok: "store_ok c s" and adv: "advance_head verb conv run (CheckpointId i) (CheckpointId j) s = Inr (u, s')"
    and q: "find_checkpoint j s = Some q" "cp_conversation q = conv"
  shows "store_ok c s' \<and> same_checkpoints s s'
    \<and> (\<exists>v. find_conversation conv s = Some v \<and> cv_active_run v = Some run
         \<and> find_conversation conv s' = Some (v\<lparr>cv_current := Some j\<rparr>))
    \<and> (\<forall>k. k \<noteq> conv \<longrightarrow> find_conversation k s' = find_conversation k s)
    \<and> rounds_t s' = rounds_t s \<and> round_calls_t s' = round_calls_t s"
proof -
  let ?p = "\<lambda>r. cv_id r = conv \<and> cv_current r = Some i \<and> cv_active_run r = Some run"
  let ?f = "\<lambda>r. r\<lparr>cv_current := Some j\<rparr>"
  have heads: "heads_ok s" and owners: "owners_ok s" using ok by (auto simp: store_ok_def)
  have cnt: "count_where ?p (conversations_t s) = 1"
    and s': "s' = s\<lparr>conversations_t := update_where ?p ?f (conversations_t s),
        runs_t := update_where (\<lambda>r. run_id r = run) (\<lambda>r. r\<lparr>run_head := j\<rparr>) (runs_t s)\<rparr>"
    using adv by (auto simp: advance_head_def Let_def split: if_splits)
  obtain v where v: "v \<in> set (conversations_t s)" "?p v"
    using cnt count_where_pos[of ?p "conversations_t s"] by auto
  have fv: "find_conversation conv s = Some v" using find_conversation_unique[OF heads v(1)] v(2) by simp
  have fc: "find_conversation k s' = map_option (\<lambda>r. if ?p r then ?f r else r) (find_conversation k s)" for k
    using find_update_where[of cv_id ?f k ?p "conversations_t s"] s' by (simp add: find_conversation_def)
  have frame: "find_conversation k s' = find_conversation k s" if "k \<noteq> conv" for k
    using fc[of k] that find_conversation_mem[of k s] by (cases "find_conversation k s") auto
  have same: "same_checkpoints s s'" using s' by (simp add: same_checkpoints_def)
  have "heads_ok s'"
  proof -
    have "\<exists>i q. cv_current w = Some i \<and> find_checkpoint i s' = Some q \<and> cp_conversation q = cv_id w"
      if w: "w \<in> set (conversations_t s')" for w
    proof -
      obtain w0 where w0: "w0 \<in> set (conversations_t s)" "w = (if ?p w0 then ?f w0 else w0)"
        using w s' by (auto simp: set_update_where)
      then show ?thesis using heads q same_checkpoints_reads(1)[OF same] by (auto simp: heads_ok_def)
    qed
    moreover have "distinct (map cv_id (conversations_t s'))"
      using heads s' by (simp add: heads_ok_def update_where_distinct)
    ultimately show ?thesis by (simp add: heads_ok_def)
  qed
  moreover have "owners_ok s'"
  proof -
    have "\<exists>x\<in>set (runs_t s'). run_id x = a \<and> run_conversation x = cv_id w \<and> run_status x = RunRunning
        \<and> cv_current w = Some (run_head x)"
      if w: "w \<in> set (conversations_t s')" "cv_active_run w = Some a" for w a
    proof -
      obtain w0 where w0: "w0 \<in> set (conversations_t s)" "w = (if ?p w0 then ?f w0 else w0)"
        using w(1) s' by (auto simp: set_update_where)
      then have act: "cv_active_run w0 = Some a" using w(2) by (auto split: if_splits)
      obtain x where x: "x \<in> set (runs_t s)" "run_id x = a" "run_conversation x = cv_id w0"
          "run_status x = RunRunning" "cv_current w0 = Some (run_head x)"
        using owner_run[OF owners w0(1) act] by auto
      have run: "?p w0 \<longleftrightarrow> a = run"
        using owner_unique[OF owners heads w0(1) v(1) act] v(2) act by auto
      let ?x = "if run_id x = run then x\<lparr>run_head := j\<rparr> else x"
      have "?x \<in> set (runs_t s')" using x(1) s' by (auto simp: set_update_where)
      moreover have "cv_current w = Some (run_head ?x)" using run x(2,5) w0(2) by (cases "a = run") auto
      moreover have "cv_id w = cv_id w0" using w0(2) by simp
      ultimately show ?thesis using x(2-4) by (intro bexI[of _ ?x]) auto
    qed
    moreover have "distinct (map run_id (runs_t s'))"
      using owners s' by (simp add: owners_ok_def update_where_distinct)
    ultimately show ?thesis by (simp add: owners_ok_def)
  qed
  moreover have "rounds_ok s'" using ok s' rounds_ok_same[of s s'] by (simp add: store_ok_def)
  moreover have "checkpoints_ok c s'" using ok same_checkpoints_ok[OF same] by (simp add: store_ok_def)
  ultimately show ?thesis
    using same frame fc[of conv] fv v(2) s' by (simp add: store_ok_def)
qed

text \<open>A checkpoint inserted under a stored one, then made current.\<close>

lemma insert_keeps_store:
  assumes "codec_ok c" "store_ok c s" "find_checkpoint p s = Some q" "cp_conversation q = conv"
    and "insert_checkpoint_tx c conv (CheckpointId p) ms (chained_digest c (cp_digest q) ms) s = Inr (cp, s')"
  shows "store_ok c s' \<and> extends_db s s' \<and> same_runs s s' \<and> cp = CheckpointId (next_checkpoint s)
    \<and> find_checkpoint (next_checkpoint s) s' = Some \<lparr>cp_id = next_checkpoint s, cp_conversation = conv,
         cp_parent = Some p, cp_digest = chained_digest c (cp_digest q) ms\<rparr>
    \<and> history_bytes s' (next_checkpoint s) = history_bytes s p @ map (ser c) ms"
proof -
  have "checkpoints_ok c s" using assms(2) by (simp add: store_ok_def)
  from insert_checkpoint_spec[OF assms(1) this assms(3,4,5)] show ?thesis
    using grown_store_ok[OF assms(2)] by auto
qed

definition moved_head :: "string \<Rightarrow> string \<Rightarrow> int \<Rightarrow> db \<Rightarrow> db \<Rightarrow> bool" where
  "moved_head conv run j s s' \<longleftrightarrow>
     (\<exists>v. find_conversation conv s = Some v \<and> cv_active_run v = Some run
        \<and> find_conversation conv s' = Some (v\<lparr>cv_current := Some j\<rparr>))
     \<and> (\<forall>k. k \<noteq> conv \<longrightarrow> find_conversation k s' = find_conversation k s)
     \<and> rounds_t s' = rounds_t s \<and> round_calls_t s' = round_calls_t s"

lemma insert_advance_spec:
  assumes c: "codec_ok c" and ok: "store_ok c s" and q: "find_checkpoint p s = Some q" "cp_conversation q = conv"
    and ins: "insert_checkpoint_tx c conv (CheckpointId p) ms (chained_digest c (cp_digest q) ms) s = Inr (cp, s1)"
    and adv: "advance_head verb conv run (CheckpointId i) cp s1 = Inr (u, s')"
  shows "store_ok c s' \<and> extends_db s s' \<and> cp = CheckpointId (next_checkpoint s)
    \<and> history_bytes s' (next_checkpoint s) = history_bytes s p @ map (ser c) ms
    \<and> moved_head conv run (next_checkpoint s) s s'"
proof -
  note i = insert_keeps_store[OF c ok q ins]
  then have cp: "cp = CheckpointId (next_checkpoint s)" and ok1: "store_ok c s1" by auto
  have row: "find_checkpoint (next_checkpoint s) s1 = Some \<lparr>cp_id = next_checkpoint s, cp_conversation = conv,
         cp_parent = Some p, cp_digest = chained_digest c (cp_digest q) ms\<rparr>" using i by blast
  note a = advance_head_spec[OF ok1 adv[unfolded cp] row, simplified]
  have sc: "same_checkpoints s1 s'" using a by blast
  have "extends_db s s'" using i extends_db_trans same_checkpoints_extends[OF sc] by blast
  moreover have "history_bytes s' (next_checkpoint s) = history_bytes s p @ map (ser c) ms"
    using i same_checkpoints_reads(7)[OF sc] by metis
  moreover have "moved_head conv run (next_checkpoint s) s s'"
    using a i by (simp add: moved_head_def same_runs_def find_conversation_def)
  ultimately show ?thesis using a cp by blast
qed

lemma current_checkpoint:
  assumes "store_ok c s" "find_conversation conv s = Some v" "cv_current v = Some i"
  shows "\<exists>q. find_checkpoint i s = Some q \<and> cp_conversation q = conv"
  using assms find_conversation_mem[OF assms(2)] by (fastforce simp: store_ok_def heads_ok_def)

lemma checkpoint_digest_iff: "checkpoint_digest (CheckpointId i) s = Inr d \<longleftrightarrow> (\<exists>q. find_checkpoint i s = Some q \<and> cp_digest q = d)"
  by (auto simp: checkpoint_digest_def ok_or_def split: option.splits)

text \<open>What a successful append leaves.\<close>

lemma append_checkpoint_tx_spec:
  assumes c: "codec_ok c" and ok: "store_ok c s"
    and app: "append_checkpoint_tx c conv run (CheckpointId i) ms s = Inr (cp, s')"
  shows "store_ok c s' \<and> extends_db s s' \<and> cp = CheckpointId (next_checkpoint s)
    \<and> history_bytes s' (next_checkpoint s) = history_bytes s i @ map (ser c) ms
    \<and> moved_head conv run (next_checkpoint s) s s'
    \<and> (\<exists>v. find_conversation conv s = Some v \<and> cv_current v = Some i)"
proof -
  obtain d s1 u where d: "checkpoint_digest (CheckpointId i) s = Inr d"
    and req: "require_active_head_tx conv run (CheckpointId i) s = Inr ((), s)"
    and ins: "insert_checkpoint_tx c conv (CheckpointId i) ms (chained_digest c d ms) s = Inr (cp, s1)"
    and adv: "advance_head ''appending'' conv run (CheckpointId i) cp s1 = Inr (u, s')"
    using app require_active_head_iff
    by (fastforce simp: append_checkpoint_tx_def append_checkpoint_with_digest_tx_def split: if_splits)
  obtain v where v: "find_conversation conv s = Some v" "cv_current v = Some i"
    using req require_active_head_iff by blast
  obtain q where q: "find_checkpoint i s = Some q" "cp_conversation q = conv"
    using current_checkpoint[OF ok v] by blast
  then have "cp_digest q = d" using d checkpoint_digest_iff by auto
  then show ?thesis using insert_advance_spec[OF c ok q _ adv] ins v by auto
qed

lemma ancestry_None [simp]: "ancestry n t None = []"
  by (cases n) auto

lemma conversation_root_spec:
  assumes ok: "store_ok c s" and r: "conversation_root_tx conv s = Inr root"
  shows "\<exists>q. root = CheckpointId (cp_id q) \<and> find_checkpoint (cp_id q) s = Some q \<and> cp_conversation q = conv
    \<and> history_bytes s (cp_id q) = []"
proof -
  let ?l = "sort (map cp_id (filter (\<lambda>r. cp_conversation r = conv \<and> cp_parent r = None) (checkpoints_t s)))"
  obtain i l where l: "?l = i # l" "root = CheckpointId i"
    using r by (auto simp: conversation_root_tx_def ok_or_def split: option.splits list.splits)
  have "i \<in> set ?l" using l(1) by simp
  then obtain q where q: "q \<in> set (checkpoints_t s)" "cp_conversation q = conv" "cp_parent q = None" "cp_id q = i"
    by auto
  have ck: "ids_ok s" "digests_ok c s" using ok by (auto simp: store_ok_def checkpoints_ok_def)
  have f: "find_checkpoint (cp_id q) s = Some q" by (rule find_checkpoint_unique[OF ck(1) q(1)])
  then have "lineage s (cp_id q) = [q]"
    using q(1,3) by (cases "checkpoints_t s") (auto simp: lineage_def find_checkpoint_def)
  moreover have "own_payloads s (cp_id q) = []" using ck(2) q(1,3) by (auto simp: digests_ok_def)
  ultimately have "history_bytes s (cp_id q) = []"
    by (simp add: history_bytes_def checkpoint_rows_def own_payloads_def)
  then show ?thesis using f q l(2) by auto
qed

lemma replace_checkpoint_spec:
  assumes c: "codec_ok c" and ok: "store_ok c s"
    and rep: "replace_checkpoint c conv run expected ms s = Inr (cp, s')"
  shows "store_ok c s' \<and> extends_db s s' \<and> cp = CheckpointId (next_checkpoint s)
    \<and> history_bytes s' (next_checkpoint s) = map (ser c) ms \<and> moved_head conv run (next_checkpoint s) s s'"
proof -
  obtain root d s1 u where root: "conversation_root_tx conv s = Inr root" and d: "checkpoint_digest root s = Inr d"
    and ins: "insert_checkpoint_tx c conv root ms (chained_digest c d ms) s = Inr (cp, s1)"
    and adv: "advance_head ''replacing'' conv run expected cp s1 = Inr (u, s')"
    using rep by (auto simp: replace_checkpoint_def)
  obtain q where q: "root = CheckpointId (cp_id q)" "find_checkpoint (cp_id q) s = Some q" "cp_conversation q = conv"
      "history_bytes s (cp_id q) = []"
    using conversation_root_spec[OF ok root] by auto
  have "cp_digest q = d" using d q(1,2) checkpoint_digest_iff by auto
  then show ?thesis
    using insert_advance_spec[OF c ok q(2,3), of ms cp s1 "''replacing''" run "checkpoint_int expected"] ins adv q(1,4)
    by auto
qed


section \<open>Stored histories as messages\<close>

definition decoded :: "codec \<Rightarrow> bytes \<Rightarrow> message" where
  "decoded c b = the (de c b)"

definition history :: "codec \<Rightarrow> db \<Rightarrow> int \<Rightarrow> message list" where
  "history c s i = map (decoded c) (history_bytes s i)"

lemma decoded_ser [simp]: "codec_ok c \<Longrightarrow> decoded c (ser c m) = skip_parts m"
  by (simp add: decoded_def codec_ok_def)

lemma joined_mem: "r \<in> set (joined_messages s l) \<Longrightarrow> r \<in> set (messages_t s)"
  by (auto simp: joined_messages_def find_message_def split: option.splits dest: find_SomeD[OF sym])

lemma row_decodes:
  assumes "codec_ok c" "message_rows_ok c s" "r \<in> set (messages_t s)"
  shows "de c (mr_payload r) = Some (decoded c (mr_payload r))"
    "message_id (decoded c (mr_payload r)) = mr_id r" "runtime_event_id (decoded c (mr_payload r)) = mr_event r"
proof -
  obtain m where "mr_payload r = ser c m" "message_id m = mr_id r" "runtime_event_id m = mr_event r"
    using assms(2,3) by (auto simp: message_rows_ok_def)
  then show "de c (mr_payload r) = Some (decoded c (mr_payload r))"
    "message_id (decoded c (mr_payload r)) = mr_id r" "runtime_event_id (decoded c (mr_payload r)) = mr_event r"
    using assms(1) by (auto simp: codec_ok_def decoded_def)
qed

lemma load_history:
  assumes "codec_ok c" "checkpoints_ok c s"
  shows "load_checkpoint_messages c (CheckpointId i) s = Inr (history c s i)"
proof -
  have m: "message_rows_ok c s" using assms(2) by (simp add: checkpoints_ok_def)
  have "decode_all c l = Inr (map (\<lambda>r. decoded c (mr_payload r)) l)" if "set l \<subseteq> set (messages_t s)" for l
    using that by (induction l) (auto simp: decode_payload_def row_decodes(1)[OF assms(1) m])
  moreover have "set (checkpoint_rows s i) \<subseteq> set (messages_t s)"
    by (auto simp: checkpoint_rows_def dest: joined_mem)
  ultimately show ?thesis
    by (simp add: load_checkpoint_messages_def history_def history_bytes_def comp_def)
qed

lemma history_extends: "extends_db s s' \<Longrightarrow> find_checkpoint i s = Some r \<Longrightarrow> history c s' i = history c s i"
  by (simp add: history_def extends_db_def)

text \<open>The identities of a chain are those of its history.\<close>

definition identity_of :: "message \<Rightarrow> chain_identity" where
  "identity_of m = \<lparr>ci_message = message_id m, ci_event = runtime_event_id m, ci_body = None\<rparr>"

lemma ancestry_sorted:
  assumes "parents_below t"
  shows "sorted_wrt (<) (map cp_id (ancestry n t i)) \<and> (\<forall>j. i = Some j \<longrightarrow> (\<forall>r\<in>set (ancestry n t i). cp_id r \<le> j))"
  using assms
proof (induction n t i rule: ancestry.induct)
  case (3 n t i)
  show ?case
  proof (cases "find (\<lambda>r. cp_id r = i) t")
    case (Some r)
    then have r: "r \<in> set t" "cp_id r = i" by (auto simp: find_Some_iff)
    have IH: "sorted_wrt (<) (map cp_id (ancestry n t (cp_parent r)))
      \<and> (\<forall>j. cp_parent r = Some j \<longrightarrow> (\<forall>x\<in>set (ancestry n t (cp_parent r)). cp_id x \<le> j))"
      using 3 Some by blast
    have "\<forall>x\<in>set (ancestry n t (cp_parent r)). cp_id x < i"
    proof (cases "cp_parent r")
      case (Some p)
      then have "p < i" using 3(2) r by (auto simp: parents_below_def)
      then show ?thesis using IH Some by force
    qed simp
    then show ?thesis using Some r IH by (force simp: sorted_wrt_append less_imp_le)
  qed simp
qed simp_all

lemma sort_key_blocks:
  "sorted (map f xs) \<Longrightarrow> \<forall>x\<in>set xs. \<forall>y\<in>set (g x). h y = f x \<Longrightarrow> sort_key h (concat (map g xs)) = concat (map g xs)"
proof (rule sort_key_sorted_id)
  assume "sorted (map f xs)" "\<forall>x\<in>set xs. \<forall>y\<in>set (g x). h y = f x"
  then show "sorted (map h (concat (map g xs)))"
  proof (induction xs)
    case (Cons x xs)
    have "map h (g x) = map (\<lambda>_. f x) (g x)" using Cons.prems(2) by auto
    then have "sorted (map h (g x))" by (simp add: map_replicate_const)
    then show ?case using Cons by (auto simp: sorted_append)
  qed simp
qed

lemma joined_concat: "joined_messages s (concat (map g xs)) = concat (map (\<lambda>x. joined_messages s (g x)) xs)"
  by (induction xs) (auto simp: joined_messages_def)

lemma chain_identities_history:
  assumes "codec_ok c" "checkpoints_ok c s" "find_checkpoint i s = Some q" "cp_conversation q = conv"
  shows "chain_identities conv (CheckpointId i) s = map identity_of (history c s i)"
proof -
  have ck: "ids_ok s" "message_rows_ok c s" using assms(2) by (auto simp: checkpoints_ok_def)
  let ?g = "\<lambda>r. checkpoint_own_rows s (cp_id r)"
  have "sort_key cm_checkpoint (concat (map ?g (lineage s i))) = concat (map ?g (lineage s i))"
    using strict_sorted_imp_sorted[OF conjunct1[OF ancestry_sorted[OF ids_ok_parents[OF ck(1)]]]]
    by (intro sort_key_blocks[where f=cp_id]) (auto simp: lineage_def checkpoint_own_rows_def)
  then have "chain_identities conv (CheckpointId i) s
      = map (\<lambda>m. \<lparr>ci_message = mr_id m, ci_event = mr_event m, ci_body = None\<rparr>) (checkpoint_rows s i)"
    using assms(3,4) by (simp add: chain_identities_def Let_def checkpoint_rows_def joined_concat)
  also have "\<dots> = map (\<lambda>r. identity_of (decoded c (mr_payload r))) (checkpoint_rows s i)"
  proof (rule map_cong[OF refl])
    fix r assume "r \<in> set (checkpoint_rows s i)"
    then have "r \<in> set (messages_t s)" by (auto simp: checkpoint_rows_def dest: joined_mem)
    then show "\<lparr>ci_message = mr_id r, ci_event = mr_event r, ci_body = None\<rparr> = identity_of (decoded c (mr_payload r))"
      using row_decodes[OF assms(1) ck(2)] by (simp add: identity_of_def)
  qed
  finally show ?thesis by (simp add: history_def history_bytes_def comp_def)
qed

end
