(* ===== verification/BatchLaws.thy ===== *)
theory BatchLaws
  imports StoreLaws
begin

text \<open>
  Idempotent batches (Store::append_messages_once): what a batch leaves of the history, and that the
  same batch again changes nothing.
\<close>

section \<open>One message of a batch\<close>

text \<open>The messages of a batch that were new, by the flags of the answer.\<close>

definition fresh :: "message list \<Rightarrow> (checkpoint_id \<times> bool) list \<Rightarrow> message list" where
  "fresh ms out = concat (map (\<lambda>(m, _, new). if new then [m] else []) (zip ms out))"

lemma fresh_simps [simp]: "fresh [] out = []"
  by (simp add: fresh_def)

lemma fresh_snoc:
  "length ms = length out \<Longrightarrow> fresh (ms @ [m]) (out @ [(cp, new)]) = fresh ms out @ (if new then [m] else [])"
  by (simp add: fresh_def)

definition kept_as :: "codec \<Rightarrow> string \<Rightarrow> db \<Rightarrow> message \<Rightarrow> bool" where
  "kept_as c conv s m \<longleftrightarrow> stored_message c conv (message_id m) s = Inr (Some (skip_parts m))"

lemma kept_as_row:
  "codec_ok c \<Longrightarrow> find_message conv (message_id m) s = Some r \<Longrightarrow> mr_payload r = ser c m \<Longrightarrow> kept_as c conv s m"
  by (simp add: kept_as_def stored_message_def decode_payload_def codec_ok_def)

lemma kept_as_mono:
  "kept_as c conv s m \<Longrightarrow> \<forall>cv mid r. find_message cv mid s = Some r \<longrightarrow> find_message cv mid s' = Some r
   \<Longrightarrow> kept_as c conv s' m"
  by (auto simp: kept_as_def stored_message_def split: option.splits)

lemma stored_is_kept:
  assumes "codec_ok c" "message_rows_ok c s" "stored_message c conv (message_id m) s = Inr (Some m)"
  shows "kept_as c conv s m" "skip_parts m = m"
proof -
  obtain r where r: "find_message conv (message_id m) s = Some r" "decode_payload c (mr_payload r) = Inr m"
    using assms(3) by (auto simp: stored_message_def split: option.splits)
  then have "r \<in> set (messages_t s)" by (auto simp: find_message_def dest: find_SomeD)
  then obtain m0 where "mr_payload r = ser c m0" using assms(2) by (auto simp: message_rows_ok_def)
  then have "m = skip_parts m0" using r(2) assms(1) by (simp add: decode_payload_def codec_ok_def)
  then show "skip_parts m = m" by simp
  then show "kept_as c conv s m" using assms(3) by (simp add: kept_as_def)
qed

definition bare :: "chain_identity \<Rightarrow> chain_identity" where
  "bare k = k\<lparr>ci_body := None\<rparr>"

lemma identity_matches_bare [simp]: "identity_matches m (bare k) = identity_matches m k"
  by (simp add: identity_matches_def bare_def)

lemma identity_of_skip [simp]: "identity_of (skip_parts m) = identity_of m"
  by (simp add: identity_of_def)

lemma identity_matches_self [simp]: "identity_matches m (identity_of m)"
  by (simp add: identity_matches_def identity_of_def)

text \<open>
  A batch in progress: the messages \<open>ms\<close> are done, over the history \<open>old\<close> of checkpoint \<open>i\<close> in the
  state \<open>s0\<close> the batch started from.
\<close>

definition batch_ok :: "codec \<Rightarrow> string \<Rightarrow> db \<Rightarrow> int \<Rightarrow> message list \<Rightarrow> batch_state \<Rightarrow> bool" where
  "batch_ok c conv s0 i ms b \<longleftrightarrow>
     store_ok c (bs_db b) \<and> extends_db s0 (bs_db b) \<and> same_runs s0 (bs_db b)
     \<and> next_checkpoint s0 \<le> next_checkpoint (bs_db b)
     \<and> (\<exists>q. find_checkpoint (checkpoint_int (bs_head b)) (bs_db b) = Some q
          \<and> cp_conversation q = conv \<and> cp_digest q = bs_digest b)
     \<and> length ms = length (bs_appended b)
     \<and> history c (bs_db b) (checkpoint_int (bs_head b)) = history c s0 i @ map skip_parts (fresh ms (bs_appended b))
     \<and> (if fresh ms (bs_appended b) = [] then bs_head b = CheckpointId i \<and> bs_db b = s0
        else next_checkpoint s0 \<le> checkpoint_int (bs_head b))
     \<and> map bare (bs_known b) = map identity_of (history c (bs_db b) (checkpoint_int (bs_head b)))
     \<and> (\<forall>k\<in>set (bs_known b). \<forall>m. ci_body k = Some m \<longrightarrow> kept_as c conv (bs_db b) m)
     \<and> (\<forall>m\<in>set ms. kept_as c conv (bs_db b) m \<and> list_ex (identity_matches m) (bs_known b))"

lemma append_once_known:
  assumes c: "codec_ok c" and ok: "batch_ok c conv s0 i ms b"
    and f: "find (identity_matches m) (bs_known b) = Some k" and st: "append_once_step c conv m b = Inr b'"
  shows "batch_ok c conv s0 i (ms @ [m]) b'"
proof -
  have same: "same_as_stored c conv m k (bs_db b) = Inr True"
    and b': "b' = b\<lparr>bs_appended := bs_appended b @ [(bs_head b, False)]\<rparr>"
    using st f by (auto simp: append_once_step_def split: if_splits)
  have k: "k \<in> set (bs_known b)" "identity_matches m k" using find_SomeD[OF f] by auto
  have rows: "message_rows_ok c (bs_db b)" using ok by (simp add: batch_ok_def store_ok_def checkpoints_ok_def)
  have "kept_as c conv (bs_db b) m"
  proof (cases "ci_body k")
    case None
    then have "stored_message c conv (message_id m) (bs_db b) = Inr (Some m)"
      using same by (auto simp: same_as_stored_def)
    then show ?thesis using stored_is_kept[OF c rows] by blast
  next
    case (Some m')
    then show ?thesis using same k(1) ok by (auto simp: same_as_stored_def batch_ok_def)
  qed
  moreover have "list_ex (identity_matches m) (bs_known b)" using k by (auto simp: list_ex_iff)
  ultimately show ?thesis
    using ok b' by (simp add: batch_ok_def fresh_snoc)
qed

lemma append_once_new:
  assumes c: "codec_ok c" and ok: "batch_ok c conv s0 i ms b"
    and f: "find (identity_matches m) (bs_known b) = None" and st: "append_once_step c conv m b = Inr b'"
  shows "batch_ok c conv s0 i (ms @ [m]) b'"
proof -
  let ?h = "checkpoint_int (bs_head b)" and ?n = "next_checkpoint (bs_db b)"
  obtain q where q: "find_checkpoint ?h (bs_db b) = Some q" "cp_conversation q = conv" "cp_digest q = bs_digest b"
    using ok by (auto simp: batch_ok_def)
  have sok: "store_ok c (bs_db b)" and cok: "checkpoints_ok c (bs_db b)"
    using ok by (auto simp: batch_ok_def store_ok_def)
  obtain cp s where ins: "insert_checkpoint_tx c conv (CheckpointId ?h) [m] (chained_digest c (cp_digest q) [m]) (bs_db b)
      = Inr (cp, s)"
    and b': "b' = \<lparr>bs_db = s, bs_known = bs_known b @
                  [\<lparr>ci_message = message_id m, ci_event = runtime_event_id m, ci_body = Some m\<rparr>],
                bs_digest = chained_digest c (cp_digest q) [m], bs_head = cp,
                bs_appended = bs_appended b @ [(cp, True)]\<rparr>"
    using st f q(3) by (auto simp: append_once_step_def Let_def split: if_splits)
  note i = insert_keeps_store[OF c sok q(1,2) ins]
  note tab = insert_checkpoint_tables[OF c cok ins]
  have hist: "history c s ?n = history c (bs_db b) ?h @ [skip_parts m]"
    using i c by (simp add: history_def)
  have kept: "kept_as c conv s m" using tab(10) kept_as_row[OF c] by fastforce
  have mono: "kept_as c conv (bs_db b) x \<Longrightarrow> kept_as c conv s x" for x
    using kept_as_mono[OF _ tab(9)] .
  have len: "length ms = length (bs_appended b)" using ok by (simp add: batch_ok_def)
  have "map bare (bs_known b') = map identity_of (history c s ?n)"
    using ok hist b' by (simp add: batch_ok_def bare_def identity_of_def)
  moreover have "\<forall>k\<in>set (bs_known b'). \<forall>x. ci_body k = Some x \<longrightarrow> kept_as c conv s x"
    using ok mono kept b' by (auto simp: batch_ok_def)
  moreover have "list_ex (identity_matches m) (bs_known b')"
    using b' by (simp add: identity_matches_def)
  moreover have "\<forall>x\<in>set ms. kept_as c conv s x \<and> list_ex (identity_matches x) (bs_known b')"
    using ok mono b' by (auto simp: batch_ok_def)
  moreover have "history c s ?n = history c s0 i @ map skip_parts (fresh (ms @ [m]) (bs_appended b'))"
    using ok hist len b' by (simp add: batch_ok_def fresh_snoc)
  moreover have "extends_db s0 s"
  proof (rule extends_db_trans)
    show "extends_db s0 (bs_db b)" using ok unfolding batch_ok_def by blast
    show "extends_db (bs_db b) s" using i by blast
  qed
  moreover have "same_runs s0 s"
  proof (rule same_runs_trans)
    show "same_runs s0 (bs_db b)" using ok unfolding batch_ok_def by blast
    show "same_runs (bs_db b) s" using i by blast
  qed
  moreover have "next_checkpoint s0 \<le> ?n" using ok unfolding batch_ok_def by blast
  moreover have "store_ok c s" "cp = CheckpointId ?n" using i by blast+
  moreover have "\<exists>r. find_checkpoint ?n s = Some r \<and> cp_conversation r = conv \<and> cp_digest r = bs_digest b'"
    using i b' by simp
  ultimately show ?thesis
    using tab(3) kept len b' by (simp add: batch_ok_def fresh_snoc)
qed

lemma append_once_step_ok:
  "codec_ok c \<Longrightarrow> batch_ok c conv s0 i ms b \<Longrightarrow> append_once_step c conv m b = Inr b'
   \<Longrightarrow> batch_ok c conv s0 i (ms @ [m]) b'"
  using append_once_known append_once_new by (cases "find (identity_matches m) (bs_known b)") blast+

lemma batch_fold:
  assumes "codec_ok c" "batch_ok c conv s0 i xs b" "fold_ok (append_once_step c conv) ms b = Inr b'"
  shows "batch_ok c conv s0 i (xs @ ms) b'"
  using assms(2,3)
proof (induction ms arbitrary: xs b)
  case (Cons m ms)
  then obtain b1 where 1: "append_once_step c conv m b = Inr b1" "fold_ok (append_once_step c conv) ms b1 = Inr b'"
    by (auto split: sum.splits)
  show ?case using Cons.IH[OF append_once_step_ok[OF assms(1) Cons.prems(1) 1(1)] 1(2)] by simp
qed simp


section \<open>Whole batches\<close>

definition batch_start :: "string \<Rightarrow> int \<Rightarrow> bytes \<Rightarrow> db \<Rightarrow> batch_state" where
  "batch_start conv i d s =
     \<lparr>bs_db = s, bs_known = chain_identities conv (CheckpointId i) s, bs_digest = d,
      bs_head = CheckpointId i, bs_appended = []\<rparr>"

lemma batch_start_ok:
  assumes "codec_ok c" "store_ok c s" "find_checkpoint i s = Some q" "cp_conversation q = conv"
  shows "batch_ok c conv s i [] (batch_start conv i (cp_digest q) s)"
proof -
  have "checkpoints_ok c s" using assms(2) by (simp add: store_ok_def)
  note k = chain_identities_history[OF assms(1) this assms(3,4)]
  show ?thesis
    using assms by (auto simp: batch_ok_def batch_start_def k same_runs_def bare_def identity_of_def)
qed

text \<open>What a batch left: the owner's head holds the old history and the fresh messages.\<close>

definition batch_left :: "codec \<Rightarrow> string \<Rightarrow> string \<Rightarrow> int \<Rightarrow> message list \<Rightarrow> message list \<Rightarrow> db \<Rightarrow> bool" where
  "batch_left c conv run j ms hist s \<longleftrightarrow>
     (\<exists>v. find_conversation conv s = Some v \<and> cv_current v = Some j \<and> cv_active_run v = Some run)
     \<and> history c s j = hist
     \<and> (\<forall>m\<in>set ms. kept_as c conv s m \<and> list_ex (identity_matches m) (map identity_of hist))"

lemma batch_ok_left:
  assumes "batch_ok c conv s0 i ms b" "m \<in> set ms"
  shows "kept_as c conv (bs_db b) m"
    "list_ex (identity_matches m) (map identity_of (history c (bs_db b) (checkpoint_int (bs_head b))))"
proof -
  show "kept_as c conv (bs_db b) m" using assms by (simp add: batch_ok_def)
  have "list_ex (identity_matches m) (bs_known b)" using assms unfolding batch_ok_def by blast
  then have "list_ex (identity_matches m) (map bare (bs_known b))" by (auto simp: list_ex_iff)
  moreover have "map bare (bs_known b) = map identity_of (history c (bs_db b) (checkpoint_int (bs_head b)))"
    using assms(1) unfolding batch_ok_def by blast
  ultimately show "list_ex (identity_matches m) (map identity_of (history c (bs_db b) (checkpoint_int (bs_head b))))"
    by simp
qed

lemma kept_as_same: "same_checkpoints s s' \<Longrightarrow> kept_as c conv s m \<Longrightarrow> kept_as c conv s' m"
  using same_checkpoints_reads(2)[of s s'] by (auto intro: kept_as_mono)

lemma append_once_last:
  "fold_ok (append_once_step c conv) ms b = Inr b' \<Longrightarrow> ms \<noteq> [] \<Longrightarrow> fst (last (bs_appended b')) = bs_head b'"
proof (induction ms arbitrary: b)
  case (Cons m ms)
  then obtain b1 where b1: "append_once_step c conv m b = Inr b1" "fold_ok (append_once_step c conv) ms b1 = Inr b'"
    by (auto split: sum.splits)
  show ?case
  proof (cases "ms = []")
    case True
    then show ?thesis using b1 by (auto simp: append_once_step_def Let_def split: option.splits if_splits)
  qed (use Cons.IH[OF b1(2)] in simp)
qed simp

lemma append_messages_once_spec:
  assumes c: "codec_ok c" and ok: "store_ok c s" and ne: "ms \<noteq> []"
    and app: "append_messages_once c conv run (CheckpointId i) ms s = Inr (out, s')"
  shows "store_ok c s' \<and> extends_db s s' \<and> length out = length ms
    \<and> (\<forall>k. k \<noteq> conv \<longrightarrow> find_conversation k s' = find_conversation k s)
    \<and> rounds_t s' = rounds_t s \<and> round_calls_t s' = round_calls_t s
    \<and> batch_left c conv run (checkpoint_int (fst (last out))) ms (history c s i @ map skip_parts (fresh ms out)) s'"
proof -
  obtain d b where req: "require_active_head_tx conv run (CheckpointId i) s = Inr ((), s)"
    and d: "checkpoint_digest (CheckpointId i) s = Inr d"
    and b: "fold_ok (append_once_step c conv) ms (batch_start conv i d s) = Inr b"
    and last: "if bs_head b = CheckpointId i then (out, s') = (bs_appended b, bs_db b)
      else out = bs_appended b \<and> (\<exists>u. advance_head ''appending'' conv run (CheckpointId i) (bs_head b) (bs_db b) = Inr (u, s'))"
    using app ne require_active_head_iff
    by (fastforce simp: append_messages_once_def batch_start_def split: if_splits)
  obtain v where v: "find_conversation conv s = Some v" "cv_current v = Some i" "cv_active_run v = Some run"
    using req require_active_head_iff by blast
  obtain q where q: "find_checkpoint i s = Some q" "cp_conversation q = conv"
    using current_checkpoint[OF ok v(1,2)] by blast
  then have "d = cp_digest q" using d checkpoint_digest_iff by auto
  then have bo: "batch_ok c conv s i ms b"
    using batch_fold[OF c batch_start_ok[OF c ok q]] b by fastforce
  let ?h = "checkpoint_int (bs_head b)"
  have out: "out = bs_appended b" using last by (auto split: if_splits)
  have head: "fst (last out) = bs_head b" using append_once_last[OF b ne] out by simp
  have hist: "history c (bs_db b) ?h = history c s i @ map skip_parts (fresh ms out)"
    and bstore: "store_ok c (bs_db b)" "extends_db s (bs_db b)" "same_runs s (bs_db b)" "length out = length ms"
    and brow: "\<exists>r. find_checkpoint ?h (bs_db b) = Some r \<and> cp_conversation r = conv"
    using bo out unfolding batch_ok_def by auto
  show ?thesis
  proof (cases "bs_head b = CheckpointId i")
    case True
    then have "s' = bs_db b" using last by simp
    moreover have "find_conversation k (bs_db b) = find_conversation k s" for k using bstore(3)
      by (simp add: same_runs_def find_conversation_def)
    ultimately show ?thesis
      using True bstore hist v batch_ok_left[OF bo] head unfolding batch_left_def by (fastforce simp: same_runs_def)
  next
    case False
    then obtain u where adv: "advance_head ''appending'' conv run (CheckpointId i) (CheckpointId ?h) (bs_db b) = Inr (u, s')"
      using last by auto
    obtain r where r: "find_checkpoint ?h (bs_db b) = Some r" "cp_conversation r = conv" using brow by blast
    note a = advance_head_spec[OF bstore(1) adv r]
    then have sc: "same_checkpoints (bs_db b) s'" by blast
    have "history c s' ?h = history c (bs_db b) ?h" by (simp add: history_def same_checkpoints_reads(7)[OF sc])
    moreover have "extends_db s s'" using bstore(2) same_checkpoints_extends[OF sc] extends_db_trans by blast
    moreover have "find_conversation k (bs_db b) = find_conversation k s" for k using bstore(3)
      by (simp add: same_runs_def find_conversation_def)
    ultimately have "batch_left c conv run ?h ms (history c s i @ map skip_parts (fresh ms out)) s'"
      using a hist batch_ok_left[OF bo] kept_as_same[OF sc] unfolding batch_left_def by fastforce
    moreover have "find_conversation k s' = find_conversation k s" if "k \<noteq> conv" for k
      using a that bstore(3) by (simp add: same_runs_def find_conversation_def)
    moreover have "rounds_t s' = rounds_t s" "round_calls_t s' = round_calls_t s"
      using a bstore(3) by (simp_all add: same_runs_def)
    ultimately show ?thesis using a bstore(4) \<open>extends_db s s'\<close> head by simp
  qed
qed

lemma repeat_fold:
  "\<forall>m\<in>set ms. list_ex (identity_matches m) (bs_known b) \<and> kept_as c conv (bs_db b) m \<and> skip_parts m = m
   \<Longrightarrow> \<forall>k\<in>set (bs_known b). ci_body k = None
   \<Longrightarrow> fold_ok (append_once_step c conv) ms b
         = Inr (b\<lparr>bs_appended := bs_appended b @ map (\<lambda>_. (bs_head b, False)) ms\<rparr>)"
proof (induction ms arbitrary: b)
  case (Cons m ms)
  obtain k where k: "find (identity_matches m) (bs_known b) = Some k"
    using Cons.prems(1) by (cases "find (identity_matches m) (bs_known b)") (auto simp: find_None_iff list_ex_iff)
  then have "ci_body k = None" using Cons.prems(2) find_SomeD[OF k] by blast
  then have "append_once_step c conv m b = Inr (b\<lparr>bs_appended := bs_appended b @ [(bs_head b, False)]\<rparr>)"
    using k Cons.prems(1) by (simp add: append_once_step_def same_as_stored_def kept_as_def)
  then show ?case using Cons by simp
qed simp

lemma append_messages_once_again:
  assumes c: "codec_ok c" and ok: "store_ok c s" and left: "batch_left c conv run j ms hist s"
    and plain: "\<forall>m\<in>set ms. skip_parts m = m"
  shows "append_messages_once c conv run (CheckpointId j) ms s = Inr (map (\<lambda>_. (CheckpointId j, False)) ms, s)"
proof (cases "ms = []")
  case False
  obtain v where v: "find_conversation conv s = Some v" "cv_current v = Some j" "cv_active_run v = Some run"
    using left by (auto simp: batch_left_def)
  obtain q where q: "find_checkpoint j s = Some q" "cp_conversation q = conv"
    using current_checkpoint[OF ok v(1,2)] by blast
  have "checkpoints_ok c s" using ok by (simp add: store_ok_def)
  note ids = chain_identities_history[OF c this q]
  let ?b = "batch_start conv j (cp_digest q) s"
  have known: "bs_known ?b = map identity_of hist"
    using ids left by (simp add: batch_start_def batch_left_def)
  have "fold_ok (append_once_step c conv) ms ?b
      = Inr (?b\<lparr>bs_appended := map (\<lambda>_. (CheckpointId j, False)) ms\<rparr>)"
    using repeat_fold[of ms ?b c conv] left plain known
    by (auto simp: batch_left_def batch_start_def identity_of_def)
  moreover have "require_active_head_tx conv run (CheckpointId j) s = Inr ((), s)"
    using v by (simp add: require_active_head_tx_def)
  moreover have "checkpoint_digest (CheckpointId j) s = Inr (cp_digest q)" using q checkpoint_digest_iff by blast
  ultimately show ?thesis using False by (simp add: append_messages_once_def batch_start_def)
qed (simp add: append_messages_once_def)

end
