(* ===== verification/DigestLaws.thy ===== *)
theory DigestLaws
  imports StoreLaws
begin

text \<open>
  What a digest identifies. Short of a collision of the hash among the inputs the store digested, a
  checkpoint's digest names its whole history; on that rest the lookup of a child by digest
  (match_checkpoint_prefix) and the reuse of a checkpoint on import.
\<close>

section \<open>Length-prefixed framing\<close>

definition framed :: "bytes list \<Rightarrow> bytes" where
  "framed ps = concat (map (\<lambda>p. be64 (length p) @ p) ps)"

lemma framed_simps [simp]: "framed [] = []" "framed (p # ps) = be64 (length p) @ p @ framed ps"
  by (simp_all add: framed_def)

lemma be64_length [simp]: "length (be64 n) = 8"
  by (simp add: be64_def)

lemma be64_not_Nil [simp]: "be64 n \<noteq> []"
  using be64_length[of n] by (metis list.size(3) zero_neq_numeral)

lemma digits_eq_mod:
  fixes n m :: nat
  assumes "\<And>k. k < K \<Longrightarrow> (n div b ^ k) mod b = (m div b ^ k) mod b"
  shows "n mod b ^ K = m mod b ^ K"
  using assms
proof (induction K)
  case (Suc K)
  have "n mod b ^ K = m mod b ^ K" "(n div b ^ K) mod b = (m div b ^ K) mod b" using Suc by simp_all
  then show ?case by (simp add: mod_mult2_eq power_Suc2 del: power_Suc)
qed simp

lemma be64_inj:
  assumes "n < 2 ^ 64" "m < 2 ^ 64" "be64 n = be64 m"
  shows "n = m"
proof -
  have "(n div 256 ^ k) mod 256 = (m div 256 ^ k) mod 256" if "k < 8" for k
  proof -
    have "be64 n ! (7 - k) = be64 m ! (7 - k)" using assms(3) by simp
    then have "(word_of_nat (n div 256 ^ k) :: 8 word) = word_of_nat (m div 256 ^ k)"
      using that nth_upt[of 0 "7 - k" 8] by (simp add: be64_def)
    then have "unat (word_of_nat (n div 256 ^ k) :: 8 word) = unat (word_of_nat (m div 256 ^ k) :: 8 word)" by simp
    then show ?thesis by (simp add: unat_of_nat)
  qed
  then have "n mod 256 ^ 8 = m mod 256 ^ 8" by (rule digits_eq_mod)
  then show ?thesis using assms(1,2) by simp
qed

lemma framed_inj:
  "\<forall>p\<in>set ps \<union> set qs. length p < 2 ^ 64 \<Longrightarrow> framed ps = framed qs \<Longrightarrow> ps = qs"
proof (induction ps arbitrary: qs)
  case Nil
  then show ?case by (cases qs) (auto dest: arg_cong[where f=length])
next
  case (Cons p ps)
  obtain q qs' where qs: "qs = q # qs'"
    using Cons.prems(2) by (cases qs) (auto dest: arg_cong[where f=length])
  then have "be64 (length p) = be64 (length q)" "p @ framed ps = q @ framed qs'"
    using Cons.prems(2) by (auto simp: append_eq_append_conv)
  moreover have "length p < 2 ^ 64" "length q < 2 ^ 64" using Cons.prems(1) qs by auto
  ultimately have "length p = length q" "p @ framed ps = q @ framed qs'" using be64_inj by blast+
  then show ?case using Cons.IH[of qs'] Cons.prems(1) qs by auto
qed


section \<open>Digests and histories\<close>

lemma history_parent:
  assumes "ids_ok s" "r \<in> set (checkpoints_t s)"
  shows "history_bytes s (cp_id r) =
    (case cp_parent r of None \<Rightarrow> [] | Some p \<Rightarrow> history_bytes s p) @ own_payloads s (cp_id r)"
proof -
  let ?t = "checkpoints_t s"
  obtain n where n: "length ?t = Suc n" using assms(2) by (cases ?t) auto
  have f: "find (\<lambda>x. cp_id x = cp_id r) ?t = Some r"
    using find_checkpoint_unique[OF assms] by (simp add: find_checkpoint_def)
  have "ancestry n ?t (cp_parent r) = (case cp_parent r of None \<Rightarrow> [] | Some p \<Rightarrow> lineage s p)"
  proof (cases "cp_parent r")
    case (Some p)
    then have "p < cp_id r" using assms by (auto simp: ids_ok_def)
    then have "rank ?t p < length ?t" using rank_less[OF assms(2)] rank_le[of ?t "cp_id r"] by fastforce
    then show ?thesis
      using ancestry_fuel[OF ids_ok_parents[OF assms(1)], of p n "length ?t"] Some n by (simp add: lineage_def)
  qed simp
  then have "lineage s (cp_id r) = (case cp_parent r of None \<Rightarrow> [] | Some p \<Rightarrow> lineage s p) @ [r]"
    using f n by (simp add: lineage_def split: option.splits)
  then show ?thesis
    by (auto simp: history_bytes_def checkpoint_rows_def own_payloads_def split: option.splits
        simp del: map_concat)
qed

text \<open>The byte sequences the store hashed, and what the hash and the payloads are assumed to satisfy.\<close>

definition digest_inputs :: "db \<Rightarrow> bytes set" where
  "digest_inputs s = insert []
     {cp_digest q @ framed (own_payloads s (cp_id r)) | q r.
        q \<in> set (checkpoints_t s) \<and> r \<in> set (checkpoints_t s) \<and> cp_parent r = Some (cp_id q)}"

definition sha256_like :: "codec \<Rightarrow> bool" where
  "sha256_like c \<longleftrightarrow> (\<forall>b. length (sha c b) = 32)"

definition payloads_fit :: "db \<Rightarrow> bool" where
  "payloads_fit s \<longleftrightarrow> (\<forall>r\<in>set (messages_t s). length (mr_payload r) < 2 ^ 64)"

lemma row_digest:
  assumes "digests_ok c s" "ids_ok s" "r \<in> set (checkpoints_t s)"
  shows "\<exists>b\<in>digest_inputs s. cp_digest r = sha c b
    \<and> (case cp_parent r of None \<Rightarrow> b = [] \<and> own_payloads s (cp_id r) = []
       | Some p \<Rightarrow> \<exists>q\<in>set (checkpoints_t s). cp_id q = p \<and> b = cp_digest q @ framed (own_payloads s (cp_id r)))"
proof (cases "cp_parent r")
  case None
  then show ?thesis using assms by (intro bexI[of _ "[]"]) (auto simp: digests_ok_def root_digest_def digest_inputs_def)
next
  case (Some p)
  then obtain q where q: "q \<in> set (checkpoints_t s)" "cp_id q = p"
      "cp_digest r = payload_digest c (cp_digest q) (own_payloads s (cp_id r))"
    using assms by (fastforce simp: digests_ok_def)
  let ?b = "cp_digest q @ framed (own_payloads s (cp_id r))"
  have "?b \<in> digest_inputs s" using q Some assms(3) by (auto simp: digest_inputs_def)
  moreover have "cp_digest r = sha c ?b" using q(3) by (simp add: payload_digest_def framed_def)
  ultimately show ?thesis using Some q by (intro bexI[of _ ?b]) auto
qed

lemma own_payloads_fit: "payloads_fit s \<Longrightarrow> p \<in> set (own_payloads s i) \<Longrightarrow> length p < 2 ^ 64"
  by (auto simp: own_payloads_def payloads_fit_def dest: joined_mem)

lemma digest_split:
  assumes "sha256_like c" "digests_ok c s" "ids_ok s" "q \<in> set (checkpoints_t s)" "q' \<in> set (checkpoints_t s)"
    and "cp_digest q @ x = cp_digest q' @ y"
  shows "cp_digest q = cp_digest q' \<and> x = y"
proof -
  have "length (cp_digest r) = 32" if "r \<in> set (checkpoints_t s)" for r
    using row_digest[OF assms(2,3) that] assms(1) by (auto simp: sha256_like_def)
  then show ?thesis using assms(4-6) by auto
qed

lemma digest_not_root:
  assumes "sha256_like c" "digests_ok c s" "ids_ok s" "q \<in> set (checkpoints_t s)"
  shows "cp_digest q @ x \<noteq> []"
  using row_digest[OF assms(2-4)] assms(1) by (auto simp: sha256_like_def dest: arg_cong[where f=length])

text \<open>Equal digests, equal histories.\<close>

lemma equal_digests:
  assumes s: "sha256_like c" "payloads_fit s" "inj_on (sha c) (digest_inputs s)" "digests_ok c s" "ids_ok s"
    and "q \<in> set (checkpoints_t s)" "r \<in> set (checkpoints_t s)" "cp_digest q = cp_digest r"
  shows "history_bytes s (cp_id q) = history_bytes s (cp_id r)"
  using assms(6-8)
proof (induction "rank (checkpoints_t s) (cp_id q)" arbitrary: q r rule: less_induct)
  case less
  obtain b where b: "b \<in> digest_inputs s" "cp_digest q = sha c b"
    and qb: "case cp_parent q of None \<Rightarrow> b = [] \<and> own_payloads s (cp_id q) = []
       | Some p \<Rightarrow> \<exists>x\<in>set (checkpoints_t s). cp_id x = p \<and> b = cp_digest x @ framed (own_payloads s (cp_id q))"
    using row_digest[OF s(4,5) less.prems(1)] by blast
  obtain b' where b': "b' \<in> digest_inputs s" "cp_digest r = sha c b'"
    and rb: "case cp_parent r of None \<Rightarrow> b' = [] \<and> own_payloads s (cp_id r) = []
       | Some p \<Rightarrow> \<exists>x\<in>set (checkpoints_t s). cp_id x = p \<and> b' = cp_digest x @ framed (own_payloads s (cp_id r))"
    using row_digest[OF s(4,5) less.prems(2)] by blast
  have eq: "b = b'" using s(3) b b' less.prems(3) by (auto dest: inj_onD)
  note hp = history_parent[OF s(5) less.prems(1)] history_parent[OF s(5) less.prems(2)]
  show ?case
  proof (cases "cp_parent q")
    case None
    then have "b = []" using qb by simp
    then have "cp_parent r = None"
      using rb eq digest_not_root[OF s(1,4,5)] by (cases "cp_parent r") auto
    then show ?thesis using None qb rb hp by simp
  next
    case (Some p)
    then obtain x where x: "x \<in> set (checkpoints_t s)" "cp_id x = p" "b = cp_digest x @ framed (own_payloads s (cp_id q))"
      using qb by auto
    then obtain p' where p': "cp_parent r = Some p'"
      using rb eq digest_not_root[OF s(1,4,5) x(1)] by (cases "cp_parent r") auto
    then obtain y where y: "y \<in> set (checkpoints_t s)" "cp_id y = p'" "b' = cp_digest y @ framed (own_payloads s (cp_id r))"
      using rb by auto
    have "cp_digest x = cp_digest y" and fr: "framed (own_payloads s (cp_id q)) = framed (own_payloads s (cp_id r))"
      using digest_split[OF s(1,4,5) x(1) y(1)] x(3) y(3) eq by blast+
    moreover have "own_payloads s (cp_id q) = own_payloads s (cp_id r)"
      using framed_inj[OF _ fr] own_payloads_fit[OF s(2)] by blast
    moreover have "p < cp_id q" using s(5) less.prems(1) Some by (auto simp: ids_ok_def)
    then have "rank (checkpoints_t s) (cp_id x) < rank (checkpoints_t s) (cp_id q)"
      using rank_less[OF less.prems(1)] x(2) by simp
    ultimately show ?thesis using less.hyps[OF _ x(1) y(1)] hp Some p' x(2) y(2) by simp
  qed
qed

text \<open>A checkpoint found by the digest of an extension holds that extension.\<close>

definition no_collision :: "codec \<Rightarrow> db \<Rightarrow> message list set \<Rightarrow> bool" where
  "no_collision c s A \<longleftrightarrow>
     sha256_like c \<and> payloads_fit s \<and> (\<forall>l\<in>A. \<forall>m\<in>set l. length (ser c m) < 2 ^ 64)
     \<and> inj_on (sha c) (digest_inputs s \<union>
         {cp_digest q @ framed (map (ser c) l) | q l. q \<in> set (checkpoints_t s) \<and> l \<in> A})"

lemma extension_history:
  assumes h: "no_collision c s A" and ok: "checkpoints_ok c s" and l: "ms \<in> A"
    and q: "q \<in> set (checkpoints_t s)" and r: "r \<in> set (checkpoints_t s)"
    and d: "cp_digest r = chained_digest c (cp_digest q) ms"
  shows "history_bytes s (cp_id r) = history_bytes s (cp_id q) @ map (ser c) ms"
proof -
  have s: "sha256_like c" "payloads_fit s" "digests_ok c s" "ids_ok s"
    and inj: "inj_on (sha c) (digest_inputs s)"
    using h ok by (auto simp: no_collision_def checkpoints_ok_def intro: inj_on_subset)
  let ?in = "cp_digest q @ framed (map (ser c) ms)"
  have dr: "cp_digest r = sha c ?in"
    using d by (simp add: chained_digest_def update_digest_def framed_def comp_def)
  obtain b where b: "b \<in> digest_inputs s" "cp_digest r = sha c b"
    and rb: "case cp_parent r of None \<Rightarrow> b = [] \<and> own_payloads s (cp_id r) = []
       | Some p \<Rightarrow> \<exists>x\<in>set (checkpoints_t s). cp_id x = p \<and> b = cp_digest x @ framed (own_payloads s (cp_id r))"
    using row_digest[OF s(3,4) r] by blast
  have "b = ?in"
  proof (rule inj_onD[OF conjunct2[OF conjunct2[OF conjunct2[OF h[unfolded no_collision_def]]]]])
    show "sha c b = sha c ?in" using b(2) dr by simp
    show "b \<in> digest_inputs s \<union> {cp_digest q @ framed (map (ser c) l) | q l. q \<in> set (checkpoints_t s) \<and> l \<in> A}"
      using b(1) by blast
    show "?in \<in> digest_inputs s \<union> {cp_digest q @ framed (map (ser c) l) | q l. q \<in> set (checkpoints_t s) \<and> l \<in> A}"
      using q l by blast
  qed
  then obtain p x where p: "cp_parent r = Some p" "x \<in> set (checkpoints_t s)" "cp_id x = p"
      "?in = cp_digest x @ framed (own_payloads s (cp_id r))"
    using rb digest_not_root[OF s(1,3,4) q] by (cases "cp_parent r") auto
  then have dx: "cp_digest q = cp_digest x" "framed (map (ser c) ms) = framed (own_payloads s (cp_id r))"
    using digest_split[OF s(1,3,4) q p(2)] by blast+
  have "own_payloads s (cp_id r) = map (ser c) ms"
    using framed_inj[OF _ dx(2)[symmetric]] own_payloads_fit[OF s(2)] h l by (auto simp: no_collision_def)
  moreover have "history_bytes s (cp_id q) = history_bytes s (cp_id x)"
    by (rule equal_digests[OF s(1,2) inj s(3,4) q p(2) dx(1)])
  ultimately show ?thesis using history_parent[OF s(4) r] p by simp
qed

text \<open>Prefix matching: the checkpoint returned holds the matched additions over the base.\<close>

lemma match_prefix_loop_spec:
  assumes h: "no_collision c s {[m] |m. m \<in> set ms}" and ok: "checkpoints_ok c s"
    and q: "q \<in> set (checkpoints_t s)" "cp_conversation q = conv"
    and m: "match_prefix_loop c conv s ms k (cp_id q) (cp_digest q) = (CheckpointId i, n)"
  shows "\<exists>j r. n = k + j \<and> j \<le> length ms \<and> r \<in> set (checkpoints_t s) \<and> cp_id r = i \<and> cp_conversation r = conv
    \<and> history_bytes s i = history_bytes s (cp_id q) @ map (ser c) (take j ms)"
  using assms
proof (induction ms arbitrary: k q)
  case Nil
  then show ?case by auto
next
  case (Cons a ms)
  let ?d = "chained_digest c (cp_digest q) [a]"
  let ?f = "find (\<lambda>r. cp_conversation r = conv \<and> cp_parent r = Some (cp_id q) \<and> cp_digest r = ?d) (checkpoints_t s)"
  show ?case
  proof (cases ?f)
    case None
    then have "i = cp_id q" "n = k" using Cons.prems(5) by (simp_all add: Let_def)
    then show ?thesis using Cons.prems(3,4) by (intro exI[of _ 0] exI[of _ q]) simp
  next
    case (Some r)
    then have r: "r \<in> set (checkpoints_t s)" "cp_conversation r = conv" "cp_digest r = ?d" using find_SomeD by fastforce+
    have "history_bytes s (cp_id r) = history_bytes s (cp_id q) @ map (ser c) [a]"
      by (rule extension_history[OF Cons.prems(1,2) _ Cons.prems(3) r(1) r(3)]) simp
    moreover have "no_collision c s {[m] |m. m \<in> set ms}"
      using Cons.prems(1) unfolding no_collision_def by (auto elim!: inj_on_subset)
    moreover have "match_prefix_loop c conv s ms (Suc k) (cp_id r) (cp_digest r) = (CheckpointId i, n)"
      using Cons.prems(5) Some r(3) by (simp add: Let_def)
    ultimately obtain j x where "n = Suc k + j" "j \<le> length ms" "x \<in> set (checkpoints_t s)" "cp_id x = i"
        "cp_conversation x = conv" "history_bytes s i = history_bytes s (cp_id q) @ ser c a # map (ser c) (take j ms)"
      using Cons.IH[OF _ Cons.prems(2) r(1,2)] by fastforce
    then show ?thesis by (intro exI[of _ "Suc j"] exI[of _ x]) simp
  qed
qed


section \<open>Import\<close>

lemma ids_row: "ids_ok s \<Longrightarrow> find_checkpoint i s = Some q \<longleftrightarrow> q \<in> set (checkpoints_t s) \<and> cp_id q = i"
  using find_checkpoint_unique find_checkpoint_mem by blast

text \<open>Content comparison ignores the message's own id.\<close>

lemma same_content_skip: "same_content a b \<Longrightarrow> skip_parts a = a \<Longrightarrow> same_content a (skip_parts b)"
proof -
  assume a: "same_content a b" "skip_parts a = a"
  have "msg_content (skip_parts b) = msg_content (skip_parts a)"
    using a(1) by (cases "msg_content b") (auto simp: same_content_def skip_parts_def)
  moreover have "msg_role (skip_parts b) = msg_role b" "msg_origin (skip_parts b) = msg_origin b"
    by (auto simp: skip_parts_def split: message_content.splits)
  ultimately show ?thesis using a by (simp add: same_content_def)
qed

lemma same_content_refl [simp]: "same_content a a"
  by (simp add: same_content_def)

lemma extends_prefix_all2:
  "extends_prefix xs ys \<Longrightarrow> list_all2 same_content xs (take (length xs) ys)"
  by (auto simp: extends_prefix_def list_all2_conv_all_nth list_all_length)

lemma history_plain:
  assumes "codec_ok c" "checkpoints_ok c s" "m \<in> set (history c s i)"
  shows "skip_parts m = m"
proof -
  obtain r where r: "r \<in> set (messages_t s)" "m = decoded c (mr_payload r)"
    using assms(3) by (auto simp: history_def history_bytes_def checkpoint_rows_def dest: joined_mem)
  then obtain m0 where "mr_payload r = ser c m0" using assms(2) by (auto simp: checkpoints_ok_def message_rows_ok_def)
  then show ?thesis using r(2) assms(1) by simp
qed

text \<open>The parent an import extends and what it adds to it.\<close>

definition import_base :: "codec \<Rightarrow> string \<Rightarrow> message list \<Rightarrow> db \<Rightarrow> checkpoint_row \<Rightarrow> message list \<Rightarrow> bool" where
  "import_base c conv ms s q additions \<longleftrightarrow>
     find_checkpoint (cp_id q) s = Some q \<and> cp_conversation q = conv \<and> suffix additions ms
     \<and> list_all2 (\<lambda>a b. same_content a (skip_parts b)) (history c s (cp_id q) @ map skip_parts additions) ms"

lemma import_parts:
  assumes c: "codec_ok c" and ok: "store_ok c s" and im: "import_checkpoint c conv ms s = Inr (cp, s')"
  shows "\<exists>s1 q additions. store_ok c s1 \<and> extends_db s s1 \<and> runs_t s1 = runs_t s
    \<and> (\<forall>k v. find_conversation k s = Some v \<longrightarrow> find_conversation k s1 = Some v) \<and> import_base c conv ms s1 q additions
    \<and> (cp = CheckpointId (cp_id q) \<and> s' = s1 \<and> additions = []
       \<or> (\<exists>r\<in>set (checkpoints_t s1). cp = CheckpointId (cp_id r) \<and> s' = s1 \<and> cp_conversation r = conv
            \<and> cp_digest r = chained_digest c (cp_digest q) additions)
       \<or> insert_checkpoint_tx c conv (CheckpointId (cp_id q)) additions
            (chained_digest c (cp_digest q) additions) s1 = Inr (cp, s'))"
proof -
  obtain i s1 where e: "ensure_conversation_tx c conv s = Inr (CheckpointId i, s1)"
    using im by (cases "ensure_conversation_tx c conv s") (auto simp: import_checkpoint_def, metis checkpoint_id.exhaust)
  note ens = ensure_conversation_spec[OF ok e]
  then have ok1: "store_ok c s1" and cok: "checkpoints_ok c s1" and ids: "ids_ok s1"
    by (auto simp: store_ok_def checkpoints_ok_def)
  have fc: "\<forall>k v. find_conversation k s = Some v \<longrightarrow> find_conversation k s1 = Some v" using ens by force
  obtain v where v: "find_conversation conv s1 = Some v" "cv_current v = Some i" using ens by blast
  obtain q0 where q0: "find_checkpoint i s1 = Some q0" "cp_conversation q0 = conv"
    using current_checkpoint[OF ok1 v] by blast
  let ?cur = "history c s1 i"
  let ?rest = "\<lambda>parent additions. if additions = [] \<and> parent = CheckpointId i then Inr (CheckpointId i, s1)
       else rbind (checkpoint_digest parent s1) (\<lambda>d.
           let d' = chained_digest c d additions
           in case has_digest conv d' s1 of
                Some existing \<Rightarrow> Inr (CheckpointId existing, s1)
              | None \<Rightarrow> insert_checkpoint_tx c conv parent additions d' s1)"
  have "\<exists>q additions. import_base c conv ms s1 q additions \<and> ?rest (CheckpointId (cp_id q)) additions = Inr (cp, s')"
  proof (cases "extends_prefix ?cur ms")
    case True
    let ?add = "drop (length ?cur) ms"
    have "list_all2 (\<lambda>a b. same_content a (skip_parts b)) ?cur (take (length ?cur) ms)"
      by (rule list.rel_mono_strong[OF extends_prefix_all2[OF True]])
        (use history_plain[OF c cok] same_content_skip in blast)
    then have "list_all2 (\<lambda>a b. same_content a (skip_parts b)) (?cur @ map skip_parts ?add) (take (length ?cur) ms @ ?add)"
      by (intro list_all2_appendI) (auto simp: list_all2_conv_all_nth)
    then have "import_base c conv ms s1 q0 ?add"
      using q0 find_checkpoint_mem[OF q0(1)] by (auto simp: import_base_def suffix_drop)
    moreover have r: "?rest (CheckpointId i) ?add = Inr (cp, s')"
      using im e True load_history[OF c cok] by (simp add: import_checkpoint_def)
    have id0: "cp_id q0 = i" using find_checkpoint_mem[OF q0(1)] by simp
    have "?rest (CheckpointId (cp_id q0)) ?add = Inr (cp, s')" unfolding id0 by (rule r)
    ultimately show ?thesis by blast
  next
    case False
    then obtain root where root: "conversation_root_tx conv s1 = Inr root" and rest: "?rest root ms = Inr (cp, s')"
      using im e load_history[OF c cok] by (auto simp: import_checkpoint_def)
    obtain q where q: "root = CheckpointId (cp_id q)" "find_checkpoint (cp_id q) s1 = Some q" "cp_conversation q = conv"
        "history_bytes s1 (cp_id q) = []"
      using conversation_root_spec[OF ok1 root] by blast
    have "import_base c conv ms s1 q ms"
      using q by (auto simp: import_base_def history_def list_all2_conv_all_nth)
    then show ?thesis using rest q(1) by blast
  qed
  then obtain q additions where b: "import_base c conv ms s1 q additions"
    and rest: "?rest (CheckpointId (cp_id q)) additions = Inr (cp, s')" by blast
  have qm: "find_checkpoint (cp_id q) s1 = Some q" using b by (simp add: import_base_def)
  then have d: "checkpoint_digest (CheckpointId (cp_id q)) s1 = Inr (cp_digest q)" using checkpoint_digest_iff by blast
  show ?thesis
  proof (cases "additions = [] \<and> cp_id q = i")
    case True
    then have "cp = CheckpointId (cp_id q) \<and> s' = s1 \<and> additions = []" using rest by simp
    then show ?thesis using ok1 ens fc b by blast
  next
    case False
    show ?thesis
    proof (cases "has_digest conv (chained_digest c (cp_digest q) additions) s1")
      case None
      then have "insert_checkpoint_tx c conv (CheckpointId (cp_id q)) additions
          (chained_digest c (cp_digest q) additions) s1 = Inr (cp, s')"
        using rest d False by (auto simp: Let_def split: if_splits)
      then show ?thesis using ok1 ens fc b by blast
    next
      case (Some j)
      then obtain r where r: "r \<in> set (checkpoints_t s1)" "cp_id r = j" "cp_conversation r = conv"
          "cp_digest r = chained_digest c (cp_digest q) additions"
        by (auto simp: has_digest_def dest: find_SomeD)
      have "cp = CheckpointId (cp_id r) \<and> s' = s1"
        using rest d False Some r(2) by (auto simp: Let_def split: if_splits)
      then show ?thesis using ok1 ens fc b r by blast
    qed
  qed
qed

lemma import_checkpoint_spec:
  assumes c: "codec_ok c" and ok: "store_ok c s" and im: "import_checkpoint c conv ms s = Inr (CheckpointId i, s')"
  shows "store_ok c s' \<and> extends_db s s' \<and> runs_t s' = runs_t s
    \<and> (\<forall>k v. find_conversation k s = Some v \<longrightarrow> find_conversation k s' = Some v)
    \<and> (\<exists>r. find_checkpoint i s' = Some r \<and> cp_conversation r = conv)
    \<and> (no_collision c s' {l. suffix l ms} \<longrightarrow>
         list_all2 (\<lambda>a b. same_content a (skip_parts b)) (history c s' i) ms)"
proof -
  obtain s1 q additions where ok1: "store_ok c s1" and ext: "extends_db s s1" "runs_t s1 = runs_t s"
    and fc: "\<forall>k v. find_conversation k s = Some v \<longrightarrow> find_conversation k s1 = Some v"
    and b: "import_base c conv ms s1 q additions"
    and cases: "CheckpointId i = CheckpointId (cp_id q) \<and> s' = s1 \<and> additions = []
       \<or> (\<exists>r\<in>set (checkpoints_t s1). CheckpointId i = CheckpointId (cp_id r) \<and> s' = s1 \<and> cp_conversation r = conv
            \<and> cp_digest r = chained_digest c (cp_digest q) additions)
       \<or> insert_checkpoint_tx c conv (CheckpointId (cp_id q)) additions
            (chained_digest c (cp_digest q) additions) s1 = Inr (CheckpointId i, s')"
    using import_parts[OF c ok im] by blast
  have cok: "checkpoints_ok c s1" and ids: "ids_ok s1" using ok1 by (auto simp: store_ok_def checkpoints_ok_def)
  have q: "find_checkpoint (cp_id q) s1 = Some q" "cp_conversation q = conv" "suffix additions ms"
    and content: "list_all2 (\<lambda>a b. same_content a (skip_parts b)) (history c s1 (cp_id q) @ map skip_parts additions) ms"
    using b by (auto simp: import_base_def)
  from cases consider (current) "i = cp_id q" "s' = s1" "additions = []"
    | (reused) r where "r \<in> set (checkpoints_t s1)" "i = cp_id r" "s' = s1" "cp_conversation r = conv"
        "cp_digest r = chained_digest c (cp_digest q) additions"
    | (inserted) "insert_checkpoint_tx c conv (CheckpointId (cp_id q)) additions
            (chained_digest c (cp_digest q) additions) s1 = Inr (CheckpointId i, s')"
    by blast
  then show ?thesis
  proof cases
    case current
    then show ?thesis using ok1 ext fc q content by simp
  next
    case reused
    have "history c s1 (cp_id r) = history c s1 (cp_id q) @ map skip_parts additions"
      if h: "no_collision c s1 {l. suffix l ms}"
      using extension_history[OF h cok _ _ reused(1,5)] q(3) find_checkpoint_mem[OF q(1)] c
      by (simp add: history_def)
    then show ?thesis using ok1 ext fc content reused(2-4) find_checkpoint_unique[OF ids reused(1)] by auto
  next
    case inserted
    note ins = insert_keeps_store[OF c ok1 q(1,2) inserted]
    then have "history c s' i = history c s1 (cp_id q) @ map skip_parts additions"
      using c by (auto simp: history_def)
    then show ?thesis using ins ext fc content extends_db_trans[OF ext(1)]
      by (auto simp: same_runs_def find_conversation_def)
  qed
qed

end
