(* ===== verification/RunLaws.thy ===== *)
theory RunLaws
  imports StoreLaws
begin

text \<open>
  What the transactions on runs do to the store's invariant and to the ownership of conversations.
\<close>

section \<open>Transfer of the invariant\<close>

text \<open>An update that keeps the identity columns of the rows it changes keeps the run's role.\<close>

definition same_role :: "run_row \<Rightarrow> run_row \<Rightarrow> bool" where
  "same_role x y \<longleftrightarrow> run_id y = run_id x \<and> run_conversation y = run_conversation x
     \<and> run_status y = run_status x \<and> run_head y = run_head x"

lemma owners_transfer:
  assumes ok: "owners_ok s" and dist: "distinct (map run_id (runs_t s'))"
    and conv: "\<And>w a. w \<in> set (conversations_t s') \<Longrightarrow> cv_active_run w = Some a \<Longrightarrow>
      \<exists>w0\<in>set (conversations_t s). cv_id w0 = cv_id w \<and> cv_active_run w0 = Some a \<and> cv_current w0 = cv_current w
        \<and> (\<forall>x\<in>set (runs_t s). run_id x = a \<longrightarrow> (\<exists>y\<in>set (runs_t s'). same_role x y))"
  shows "owners_ok s'"
proof -
  have "\<exists>y\<in>set (runs_t s'). run_id y = a \<and> run_conversation y = cv_id w \<and> run_status y = RunRunning
      \<and> cv_current w = Some (run_head y)"
    if w: "w \<in> set (conversations_t s')" "cv_active_run w = Some a" for w a
  proof -
    obtain w0 where w0: "w0 \<in> set (conversations_t s)" "cv_id w0 = cv_id w" "cv_active_run w0 = Some a"
        "cv_current w0 = cv_current w" "\<forall>x\<in>set (runs_t s). run_id x = a \<longrightarrow> (\<exists>y\<in>set (runs_t s'). same_role x y)"
      using conv[OF w] by blast
    obtain x where x: "x \<in> set (runs_t s)" "run_id x = a" "run_conversation x = cv_id w0" "run_status x = RunRunning"
        "cv_current w0 = Some (run_head x)"
      using owner_run[OF ok w0(1,3)] by blast
    then obtain y where "y \<in> set (runs_t s')" "same_role x y" using w0(5) by blast
    then show ?thesis using x w0 by (auto simp: same_role_def)
  qed
  then show ?thesis using dist by (simp add: owners_ok_def)
qed

lemma same_role_refl [simp]: "same_role x x"
  by (simp add: same_role_def)

lemma updated_run:
  "x \<in> set (runs_t s) \<Longrightarrow> runs_t s' = update_where p f (runs_t s) \<Longrightarrow> \<not> p x \<or> same_role x (f x)
   \<Longrightarrow> \<exists>y\<in>set (runs_t s'). same_role x y"
proof -
  assume a: "x \<in> set (runs_t s)" "runs_t s' = update_where p f (runs_t s)" "\<not> p x \<or> same_role x (f x)"
  then have "(if p x then f x else x) \<in> set (runs_t s')" by (auto simp: set_update_where)
  then show ?thesis using a(3) by (intro bexI) auto
qed

lemma filter_one:
  "distinct (map f xs) \<Longrightarrow> v \<in> set xs \<Longrightarrow> P v \<Longrightarrow> (\<And>x. x \<in> set xs \<Longrightarrow> P x \<Longrightarrow> f x = f v) \<Longrightarrow> filter P xs = [v]"
proof (induction xs)
  case (Cons y xs)
  show ?case
  proof (cases "y = v")
    case True
    have "\<not> P x" if x: "x \<in> set xs" for x
    proof
      assume "P x"
      then have "f x = f v" using Cons.prems(4) x by simp
      then have "f v \<in> f ` set xs" using x by (metis imageI)
      then show False using Cons.prems(1) True by simp
    qed
    then show ?thesis using True Cons.prems(3) by (simp add: filter_empty_conv)
  next
    case False
    then have v: "v \<in> set xs" using Cons.prems(2) by simp
    have "\<not> P y"
    proof
      assume "P y"
      then have "f y = f v" using Cons.prems(4) by simp
      then show False using Cons.prems(1) v by simp
    qed
    moreover have "filter P xs = [v]"
    proof (rule Cons.IH[OF _ v Cons.prems(3)])
      show "distinct (map f xs)" using Cons.prems(1) by simp
      show "f x = f v" if "x \<in> set xs" "P x" for x by (rule Cons.prems(4)) (simp_all add: that)
    qed
    ultimately show ?thesis by simp
  qed
qed simp

lemma same_checkpoints_heads:
  assumes "heads_ok s" "same_checkpoints s s'"
    and "conversations_t s' = update_where p f (conversations_t s)" "\<And>r. cv_id (f r) = cv_id r"
    and "\<And>r. cv_current (f r) = cv_current r"
  shows "heads_ok s'"
  using assms(1) same_checkpoints_reads(1)[OF assms(2)] assms(3-5)
  by (auto simp: heads_ok_def set_update_where update_where_distinct split: if_splits)

text \<open>A run-status change of every table but the checkpoints and rounds.\<close>

lemma store_ok_runs_change:
  assumes "store_ok c s" "same_checkpoints s s'" "rounds_t s' = rounds_t s" "round_calls_t s' = round_calls_t s"
    "heads_ok s'" "owners_ok s'"
  shows "store_ok c s'"
  using assms same_checkpoints_ok[OF assms(2)] rounds_ok_same[of s s'] by (simp add: store_ok_def)

lemma finish_llm_calls_frame [simp]:
  "conversations_t (finish_llm_calls now p st k m s) = conversations_t s"
  "runs_t (finish_llm_calls now p st k m s) = runs_t s"
  "rounds_t (finish_llm_calls now p st k m s) = rounds_t s"
  "round_calls_t (finish_llm_calls now p st k m s) = round_calls_t s"
  "traces_t (finish_llm_calls now p st k m s) = traces_t s"
  "same_checkpoints s' (finish_llm_calls now p st k m s) = same_checkpoints s' s"
  by (simp_all add: finish_llm_calls_def same_checkpoints_def)

lemma cancel_llm_calls_frame [simp]:
  "conversations_t (cancel_llm_calls now r s) = conversations_t s"
  "runs_t (cancel_llm_calls now r s) = runs_t s"
  "rounds_t (cancel_llm_calls now r s) = rounds_t s"
  "round_calls_t (cancel_llm_calls now r s) = round_calls_t s"
  "same_checkpoints s' (cancel_llm_calls now r s) = same_checkpoints s' s"
  by (simp_all add: cancel_llm_calls_def same_checkpoints_def)


section \<open>Provider calls\<close>

lemma begin_provider_call_spec:
  assumes ok: "store_ok c s" and b: "begin_provider_call now run s = Inr (n, s')"
  shows "store_ok c s' \<and> same_checkpoints s s'"
proof -
  let ?p = "\<lambda>r. run_id r = run \<and> run_status r = RunRunning"
  let ?f = "\<lambda>r. r\<lparr>run_call_index := run_call_index r + 1, run_updated := now\<rparr>"
  have s': "s' = s\<lparr>runs_t := update_where ?p ?f (runs_t s)\<rparr>"
    using b by (auto simp: begin_provider_call_def Let_def split: option.splits)
  have sc: "same_checkpoints s s'" using s' by (simp add: same_checkpoints_def)
  have heads: "heads_ok s" and owners: "owners_ok s" using ok by (auto simp: store_ok_def)
  have "owners_ok s'"
  proof (rule owners_transfer[OF owners])
    show "distinct (map run_id (runs_t s'))" using owners s' by (simp add: owners_ok_def update_where_distinct)
    fix w a assume "w \<in> set (conversations_t s')" "cv_active_run w = Some a"
    then show "\<exists>w0\<in>set (conversations_t s). cv_id w0 = cv_id w \<and> cv_active_run w0 = Some a \<and> cv_current w0 = cv_current w
        \<and> (\<forall>x\<in>set (runs_t s). run_id x = a \<longrightarrow> (\<exists>y\<in>set (runs_t s'). same_role x y))"
      using updated_run[of _ s s' ?p ?f] s' by (intro bexI[of _ w]) (auto simp: same_role_def)
  qed
  moreover have "heads_ok s'"
    using heads_ok_extends[OF heads same_checkpoints_extends[OF sc]] s' by simp
  ultimately show ?thesis using store_ok_runs_change[OF ok sc] s' sc by simp
qed


section \<open>Finishing\<close>

text \<open>The conversation is released when the finishing run owned it, and only then.\<close>

definition released :: "string \<Rightarrow> db \<Rightarrow> db \<Rightarrow> bool" where
  "released run s s' \<longleftrightarrow>
     (\<forall>k. find_conversation k s' =
        map_option (\<lambda>v. if cv_active_run v = Some run then v\<lparr>cv_active_run := None\<rparr> else v) (find_conversation k s))"

lemma finish_run_spec:
  assumes ok: "store_ok c s" and fin: "finish_run now run status failure s = Inr (b, s')"
  shows "store_ok c s' \<and> same_checkpoints s s' \<and> released run s s'
    \<and> (\<exists>row. find_run run s = Some row \<and>
         find_run run s' = Some (if run_status row = RunRunning
           then row\<lparr>run_status := status, run_failure_category := map_option fst failure,
                  run_failure_summary := map_option snd failure, run_updated := now\<rparr> else row))
    \<and> (\<forall>k. k \<noteq> run \<longrightarrow> find_run k s' = find_run k s)
    \<and> (b \<longleftrightarrow> (\<exists>v\<in>set (conversations_t s). cv_active_run v = Some run))"
proof -
  have heads: "heads_ok s" and owners: "owners_ok s" using ok by (auto simp: store_ok_def)
  obtain row where row: "find_run run s = Some row" using fin by (auto simp: finish_run_def split: option.splits)
  let ?q = "\<lambda>r. run_id r = run \<and> run_status r = RunRunning"
  let ?g = "\<lambda>r. r\<lparr>run_status := status,
      run_failure_category := if run_status row = RunRunning then map_option fst failure else run_failure_category row,
      run_failure_summary := if run_status row = RunRunning then map_option snd failure else run_failure_summary row,
      run_updated := now\<rparr>"
  let ?p = "\<lambda>r. cv_id r = run_conversation row \<and> cv_active_run r = Some run"
  let ?f = "\<lambda>r. r\<lparr>cv_active_run := None\<rparr>"
  have s': "runs_t s' = update_where ?q ?g (runs_t s)" "conversations_t s' = update_where ?p ?f (conversations_t s)"
      "rounds_t s' = rounds_t s" "round_calls_t s' = round_calls_t s" "same_checkpoints s s'"
    and b: "b = (count_where ?p (conversations_t s) = 1)"
    using fin row by (auto simp: finish_run_def Let_def finish_llm_calls_def same_checkpoints_def
        split: run_status.splits if_splits)
  have mine: "?p v" if v: "v \<in> set (conversations_t s)" "cv_active_run v = Some run" for v
  proof -
    obtain x where "x \<in> set (runs_t s)" "run_id x = run" "run_conversation x = cv_id v"
      using owner_run[OF owners v] by blast
    then show ?thesis using find_run_unique[OF owners, of x] row v(2) by simp
  qed
  have own: "owners_ok s'"
  proof (rule owners_transfer[OF owners])
    show "distinct (map run_id (runs_t s'))" using owners s' by (simp add: owners_ok_def update_where_distinct)
    fix w a assume w: "w \<in> set (conversations_t s')" "cv_active_run w = Some a"
    then have w0: "w \<in> set (conversations_t s)" "\<not> ?p w"
      using s'(2) by (auto simp: set_update_where split: if_splits)
    then have "a \<noteq> run" using mine[OF w0(1)] w(2) by auto
    then show "\<exists>w0\<in>set (conversations_t s). cv_id w0 = cv_id w \<and> cv_active_run w0 = Some a \<and> cv_current w0 = cv_current w
        \<and> (\<forall>x\<in>set (runs_t s). run_id x = a \<longrightarrow> (\<exists>y\<in>set (runs_t s'). same_role x y))"
      using updated_run[OF _ s'(1)] w(2) w0(1) by (intro bexI[of _ w]) auto
  qed
  have hd: "heads_ok s'" by (rule same_checkpoints_heads[OF heads s'(5) s'(2)]) auto
  have "released run s s'"
    unfolding released_def
  proof
    fix k
    have "find_conversation k s' = map_option (\<lambda>r. if ?p r then ?f r else r) (find_conversation k s)"
      using find_update_where[of cv_id ?f k ?p "conversations_t s"] s'(2) by (simp add: find_conversation_def)
    moreover have "?p v \<longleftrightarrow> cv_active_run v = Some run" if "find_conversation k s = Some v" for v
      using mine find_conversation_mem[OF that] by auto
    ultimately show "find_conversation k s' = map_option
        (\<lambda>v. if cv_active_run v = Some run then v\<lparr>cv_active_run := None\<rparr> else v) (find_conversation k s)"
      by (cases "find_conversation k s") auto
  qed
  moreover have runs: "find_run k s' = map_option (\<lambda>r. if ?q r then ?g r else r) (find_run k s)" for k
    using find_update_where[of run_id ?g k ?q "runs_t s"] s'(1) by (simp add: find_run_def)
  moreover have "find_run k s' = find_run k s" if "k \<noteq> run" for k
    using runs[of k] that find_run_mem[of k s] by (cases "find_run k s") auto
  moreover have "b \<longleftrightarrow> (\<exists>v\<in>set (conversations_t s). cv_active_run v = Some run)"
  proof
    assume b
    then show "\<exists>v\<in>set (conversations_t s). cv_active_run v = Some run"
      using b count_where_pos[of ?p "conversations_t s"] by auto
  next
    assume "\<exists>v\<in>set (conversations_t s). cv_active_run v = Some run"
    then obtain v where v: "v \<in> set (conversations_t s)" "?p v" using mine by blast
    have "filter ?p (conversations_t s) = [v]"
      by (rule filter_one[of cv_id]) (use heads v in \<open>auto simp: heads_ok_def\<close>)
    then show b using b by (simp add: count_where_def)
  qed
  ultimately show ?thesis
    using store_ok_runs_change[OF ok s'(5) s'(3,4) hd own] s'(5) row runs[of run] find_run_mem[OF row] by auto
qed


section \<open>Claiming\<close>

lemma cancel_replaced_frame:
  "conversations_t (cancel_replaced now o' run s) = conversations_t s"
  "rounds_t (cancel_replaced now o' run s) = rounds_t s"
  "round_calls_t (cancel_replaced now o' run s) = round_calls_t s"
  "same_checkpoints s (cancel_replaced now o' run s)"
  "runs_t (cancel_replaced now o' run s) =
     update_where (\<lambda>x. o' = Some (run_id x) \<and> run_status x = RunRunning \<and> o' \<noteq> Some run)
       (\<lambda>x. x\<lparr>run_status := RunCancelled, run_updated := now\<rparr>) (runs_t s)"
proof -
  show "conversations_t (cancel_replaced now o' run s) = conversations_t s"
    "rounds_t (cancel_replaced now o' run s) = rounds_t s"
    "round_calls_t (cancel_replaced now o' run s) = round_calls_t s"
    "same_checkpoints s (cancel_replaced now o' run s)"
    by (auto simp: cancel_replaced_def cancel_llm_calls_def same_checkpoints_def split: option.splits)
  show "runs_t (cancel_replaced now o' run s) =
     update_where (\<lambda>x. o' = Some (run_id x) \<and> run_status x = RunRunning \<and> o' \<noteq> Some run)
       (\<lambda>x. x\<lparr>run_status := RunCancelled, run_updated := now\<rparr>) (runs_t s)"
    by (cases o') (auto simp: cancel_replaced_def update_where_def)
qed

text \<open>The part of a claim after its conversation exists, with the run it replaces.\<close>

definition claims :: "int \<Rightarrow> prepared_run \<Rightarrow> string option \<Rightarrow> db \<Rightarrow> db \<Rightarrow> bool" where
  "claims now p rep s s' \<longleftrightarrow>
     rep = Option.bind (find_conversation (pr_conversation_id p) s) cv_active_run
     \<and> belongs (pr_base_checkpoint p) (pr_conversation_id p) s
     \<and> find_run (pr_run_id p) s = None
     \<and> same_checkpoints s s' \<and> rounds_t s' = rounds_t s \<and> round_calls_t s' = round_calls_t s
     \<and> runs_t s' = update_where (\<lambda>x. rep = Some (run_id x) \<and> run_status x = RunRunning)
          (\<lambda>x. x\<lparr>run_status := RunCancelled, run_updated := now\<rparr>) (runs_t s) @ [new_run_row now p]
     \<and> conversations_t s' = update_where (\<lambda>r. cv_id r = pr_conversation_id p)
          (\<lambda>r. r\<lparr>cv_current := Some (checkpoint_int (pr_base_checkpoint p)), cv_active_run := Some (pr_run_id p)\<rparr>)
          (conversations_t s)"

lemma new_run_row_fields [simp]:
  "run_id (new_run_row now p) = pr_run_id p" "run_conversation (new_run_row now p) = pr_conversation_id p"
  "run_status (new_run_row now p) = RunRunning" "run_head (new_run_row now p) = checkpoint_int (pr_base_checkpoint p)"
  by (auto simp: new_run_row_def split: prod.splits)

lemma active_run_exists:
  assumes "store_ok c s" "Option.bind (find_conversation conv s) cv_active_run = Some r"
  shows "\<exists>x. find_run r s = Some x \<and> x \<in> set (runs_t s) \<and> run_conversation x = conv \<and> run_status x = RunRunning"
proof -
  have owners: "owners_ok s" using assms(1) by (simp add: store_ok_def)
  obtain v where v: "find_conversation conv s = Some v" "cv_active_run v = Some r"
    using assms(2) by (auto simp: bind_eq_Some_conv)
  then obtain x where "x \<in> set (runs_t s)" "run_id x = r" "run_conversation x = cv_id v" "run_status x = RunRunning"
    using owner_run[OF owners] find_conversation_mem by blast
  then show ?thesis using find_run_unique[OF owners, of x] find_conversation_mem[OF v(1)] by auto
qed

lemma claim_run_parts:
  assumes ok: "store_ok c s" and cl: "claim_run c now p s = Inr (cl, s')"
  shows "\<exists>i s1. ensure_conversation_tx c (pr_conversation_id p) s = Inr (CheckpointId i, s1)
    \<and> claims now p (cl_replaced cl) s1 s'"
proof -
  let ?conv = "pr_conversation_id p" and ?run = "pr_run_id p"
  obtain cp s1 where e: "ensure_conversation_tx c ?conv s = Inr (cp, s1)"
    using cl by (cases "ensure_conversation_tx c ?conv s") (auto simp: claim_run_def)
  define rep where "rep = Option.bind (find_conversation ?conv s1) cv_active_run"
  define s2 where "s2 = cancel_replaced now rep ?run s1"
  have b: "belongs (pr_base_checkpoint p) ?conv s1" and new: "find_run ?run s2 = None"
    and s': "s' = s2\<lparr>runs_t := runs_t s2 @ [new_run_row now p],
            conversations_t := update_where (\<lambda>r. cv_id r = ?conv)
              (\<lambda>r. r\<lparr>cv_current := Some (checkpoint_int (pr_base_checkpoint p)), cv_active_run := Some ?run\<rparr>)
              (conversations_t s2)\<rparr>"
    and clr: "cl_replaced cl = (case rep of Some r \<Rightarrow> (if r \<noteq> ?run then Some r else None) | None \<Rightarrow> None)"
    using cl e unfolding rep_def s2_def by (auto simp: claim_run_def Let_def split: if_splits)
  have ok1: "store_ok c s1" using ensure_conversation_spec[OF ok, of ?conv "checkpoint_int cp" s1] e by simp
  note fr = cancel_replaced_frame[where now=now and o'=rep and run="?run" and s=s1, folded s2_def]
  have absent: "find_run ?run s1 = None"
    using new find_update_where[of run_id _ ?run _ "runs_t s1"] fr(5) by (simp add: find_run_def)
  then have "rep \<noteq> Some ?run" using active_run_exists[OF ok1, of ?conv ?run] by (auto simp: rep_def)
  then have "claims now p rep s1 s'"
    using b absent fr s' unfolding claims_def rep_def[symmetric] by (auto simp: same_checkpoints_def)
  moreover have "cl_replaced cl = rep" using clr \<open>rep \<noteq> Some ?run\<close> by (auto split: option.splits)
  ultimately show ?thesis using e by (cases cp) auto
qed

lemma claims_owners:
  assumes ok: "store_ok c s" and cl: "claims now p rep s s'"
  shows "owners_ok s'"
proof -
  have heads: "heads_ok s" and owners: "owners_ok s" using ok by (auto simp: store_ok_def)
  have dist: "distinct (map run_id (runs_t s'))"
    using owners cl by (auto simp: claims_def owners_ok_def update_where_distinct find_run_def find_None_iff
        set_update_where)
  let ?f = "\<lambda>r. r\<lparr>cv_current := Some (checkpoint_int (pr_base_checkpoint p)), cv_active_run := Some (pr_run_id p)\<rparr>"
  have convs: "conversations_t s' = update_where (\<lambda>r. cv_id r = pr_conversation_id p) ?f (conversations_t s)"
    using cl by (simp add: claims_def)
  have "\<exists>y\<in>set (runs_t s'). run_id y = a \<and> run_conversation y = cv_id w \<and> run_status y = RunRunning
      \<and> cv_current w = Some (run_head y)"
    if w: "w \<in> set (conversations_t s')" "cv_active_run w = Some a" for w a
  proof -
    obtain w1 where w1: "w1 \<in> set (conversations_t s)"
        "w = (if cv_id w1 = pr_conversation_id p then ?f w1 else w1)"
      using w(1) unfolding convs set_update_where by blast
    show ?thesis
    proof (cases "cv_id w1 = pr_conversation_id p")
      case True
      moreover have "new_run_row now p \<in> set (runs_t s')" using cl by (simp add: claims_def)
      ultimately show ?thesis using w1(2) w(2) by (intro bexI[of _ "new_run_row now p"]) auto
    next
      case False
      then have "w = w1" using w1(2) by simp
      then have old: "w \<in> set (conversations_t s)" using w1(1) by simp
      obtain x where x: "x \<in> set (runs_t s)" "run_id x = a" "run_conversation x = cv_id w"
          "run_status x = RunRunning" "cv_current w = Some (run_head x)"
        using owner_run[OF owners old w(2)] by blast
      have "rep \<noteq> Some a"
      proof
        assume "rep = Some a"
        then have "Option.bind (find_conversation (pr_conversation_id p) s) cv_active_run = Some a"
          using cl by (simp add: claims_def)
        then obtain y where "find_run a s = Some y" "run_conversation y = pr_conversation_id p"
          using active_run_exists[OF ok] by blast
        then show False using find_run_unique[OF owners x(1)] x(2,3) False \<open>w = w1\<close> by simp
      qed
      then have "x \<in> set (runs_t s')" using x(1,2) cl by (auto simp: claims_def set_update_where)
      then show ?thesis using x by blast
    qed
  qed
  then show ?thesis using dist by (simp add: owners_ok_def)
qed

lemma claims_store:
  assumes ok: "store_ok c s" and cl: "claims now p rep s s'"
  shows "store_ok c s'"
proof -
  have sc: "same_checkpoints s s'" using cl by (simp add: claims_def)
  have heads: "heads_ok s" using ok by (simp add: store_ok_def)
  obtain row where "find_checkpoint (checkpoint_int (pr_base_checkpoint p)) s = Some row"
      "cp_conversation row = pr_conversation_id p"
    using cl find_checkpoint_unique[of s] ok
    by (fastforce simp: claims_def belongs_def list_ex_iff store_ok_def checkpoints_ok_def)
  then have "heads_ok s'"
    using heads cl same_checkpoints_reads(1)[OF sc]
    by (auto simp: heads_ok_def claims_def set_update_where update_where_distinct)
  then show ?thesis
    using store_ok_runs_change[OF ok sc _ _ _ claims_owners[OF ok cl]] cl by (simp add: claims_def)
qed

text \<open>What a claim leaves: the conversation is owned by the run at its base checkpoint.\<close>

lemma claim_run_spec:
  assumes ok: "store_ok c s" and cl: "claim_run c now p s = Inr (cl, s')"
  defines "conv \<equiv> pr_conversation_id p" and "run \<equiv> pr_run_id p"
  shows "store_ok c s' \<and> extends_db s s' \<and> find_run run s = None \<and> find_run run s' = Some (new_run_row now p)
    \<and> (\<exists>v. find_conversation conv s' = Some v \<and> cv_current v = Some (checkpoint_int (pr_base_checkpoint p))
         \<and> cv_active_run v = Some run)
    \<and> (\<forall>k. k \<noteq> conv \<longrightarrow> find_conversation k s' = find_conversation k s)
    \<and> cl_replaced cl = Option.bind (find_conversation conv s) cv_active_run
    \<and> (\<forall>r. cl_replaced cl = Some r \<longrightarrow> (\<exists>x. find_run r s' = Some x \<and> run_status x = RunCancelled))
    \<and> (\<forall>r. r \<noteq> run \<longrightarrow> cl_replaced cl \<noteq> Some r \<longrightarrow> find_run r s' = find_run r s)"
proof -
  obtain i s1 where e: "ensure_conversation_tx c conv s = Inr (CheckpointId i, s1)"
    and c1: "claims now p (cl_replaced cl) s1 s'"
    using claim_run_parts[OF ok cl] unfolding conv_def by blast
  note ens = ensure_conversation_spec[OF ok e]
  have ok1: "store_ok c s1" and runs1: "find_run k s1 = find_run k s" for k
    using ens by (auto simp: find_run_def)
  have sc: "same_checkpoints s1 s'" using c1 by (simp add: claims_def)
  let ?q = "\<lambda>x. cl_replaced cl = Some (run_id x) \<and> run_status x = RunRunning"
  let ?g = "\<lambda>x. x\<lparr>run_status := RunCancelled, run_updated := now\<rparr>"
  let ?f = "\<lambda>r. r\<lparr>cv_current := Some (checkpoint_int (pr_base_checkpoint p)), cv_active_run := Some run\<rparr>"
  have absent: "find_run run s1 = None" using c1 by (simp add: claims_def run_def)
  have fc: "find_conversation k s' = map_option (\<lambda>r. if cv_id r = conv then ?f r else r) (find_conversation k s1)" for k
    using find_update_where[of cv_id ?f k "\<lambda>r. cv_id r = conv" "conversations_t s1"] c1
    by (simp add: find_conversation_def claims_def conv_def run_def)
  have upd: "find (\<lambda>r. run_id r = k) (update_where ?q ?g (runs_t s1)) = map_option (\<lambda>r. if ?q r then ?g r else r) (find_run k s1)"
    for k using find_update_where[of run_id ?g k ?q "runs_t s1"] by (simp add: find_run_def)
  have fr: "find_run k s' = (if k = run then Some (new_run_row now p) else map_option (\<lambda>r. if ?q r then ?g r else r) (find_run k s1))" for k
    using upd[of k] c1 absent
    by (cases "find_run k s1") (auto simp: find_run_def claims_def run_def find_append_none find_append_old)
  obtain v where "find_conversation conv s1 = Some v" using ens by blast
  then have own: "find_conversation conv s' = Some (?f v)" using fc[of conv] find_conversation_mem by fastforce
  have rep: "cl_replaced cl = Option.bind (find_conversation conv s1) cv_active_run"
    using c1 by (simp add: claims_def conv_def)
  have "\<exists>x. find_run r s' = Some x \<and> run_status x = RunCancelled" if r: "cl_replaced cl = Some r" for r
  proof -
    obtain x where x: "find_run r s1 = Some x" "run_status x = RunRunning"
      using active_run_exists[OF ok1, of conv r] rep r by auto
    then have "r \<noteq> run" "run_id x = r" using absent find_run_mem by auto
    with x show ?thesis using fr[of r] r by auto
  qed
  moreover have "find_run r s' = find_run r s" if "r \<noteq> run" "cl_replaced cl \<noteq> Some r" for r
  proof -
    have "find_run r s' = find_run r s1"
      using fr[of r] that find_run_mem[of r s1] by (cases "find_run r s1") auto
    then show ?thesis by (simp add: runs1)
  qed
  moreover have "find_conversation k s' = find_conversation k s" if "k \<noteq> conv" for k
    using that fc[of k] ens find_conversation_mem[of k s1] by (cases "find_conversation k s1") auto
  moreover have "cl_replaced cl = Option.bind (find_conversation conv s) cv_active_run" using rep ens by force
  ultimately show ?thesis
    using claims_store[OF ok1 c1] extends_db_trans[OF _ same_checkpoints_extends[OF sc]] ens absent runs1 fr[of run] own
    by simp
qed


section \<open>Reconciliation at start-up\<close>

definition interrupted_before :: "int \<Rightarrow> run_row \<Rightarrow> bool" where
  "interrupted_before started r \<longleftrightarrow> run_status r = RunRunning \<and> run_created r < started"

lemma reconcile_spec:
  assumes ok: "store_ok c s" and rec: "reconcile_interrupted_runs now started s = Inr (n, s')"
  shows "store_ok c s' \<and> same_checkpoints s s'
    \<and> (\<forall>k. find_run k s' = map_option (\<lambda>r. if interrupted_before started r
         then r\<lparr>run_status := RunFailed, run_failure_category := Some ''interrupted'',
                run_failure_summary := Some interrupted_by_process_exit, run_updated := now\<rparr> else r) (find_run k s))
    \<and> (\<forall>k. find_conversation k s' = map_option (\<lambda>v.
         if (\<exists>x. Option.bind (cv_active_run v) (\<lambda>a. find_run a s) = Some x \<and> interrupted_before started x)
         then v\<lparr>cv_active_run := None\<rparr> else v) (find_conversation k s))"
proof -
  have heads: "heads_ok s" and owners: "owners_ok s" using ok by (auto simp: store_ok_def)
  let ?old = "\<lambda>r. run_status r = RunRunning \<and> run_created r < started"
  let ?g = "\<lambda>r. r\<lparr>run_status := RunFailed, run_failure_category := Some ''interrupted'',
                run_failure_summary := Some interrupted_by_process_exit, run_updated := now\<rparr>"
  let ?p = "\<lambda>r. case cv_active_run r of Some a \<Rightarrow> list_ex (\<lambda>x. ?old x \<and> run_id x = a) (runs_t s) | None \<Rightarrow> False"
  let ?f = "\<lambda>r. r\<lparr>cv_active_run := None\<rparr>"
  have s': "runs_t s' = update_where ?old ?g (runs_t s)" "conversations_t s' = update_where ?p ?f (conversations_t s)"
      "rounds_t s' = rounds_t s" "round_calls_t s' = round_calls_t s" "same_checkpoints s s'"
    using rec by (auto simp: reconcile_interrupted_runs_def Let_def finish_llm_calls_def same_checkpoints_def)
  have p_iff: "?p v \<longleftrightarrow> (\<exists>x. Option.bind (cv_active_run v) (\<lambda>a. find_run a s) = Some x \<and> interrupted_before started x)" for v
    using find_run_unique[OF owners] find_run_mem
    by (fastforce simp: list_ex_iff interrupted_before_def bind_eq_Some_conv split: option.splits)
  have "owners_ok s'"
  proof (rule owners_transfer[OF owners])
    show "distinct (map run_id (runs_t s'))" using owners s'(1) by (simp add: owners_ok_def update_where_distinct)
    fix w a assume w: "w \<in> set (conversations_t s')" "cv_active_run w = Some a"
    then have w0: "w \<in> set (conversations_t s)" "\<not> ?p w"
      using s'(2) by (auto simp: set_update_where split: if_splits)
    then show "\<exists>w0\<in>set (conversations_t s). cv_id w0 = cv_id w \<and> cv_active_run w0 = Some a \<and> cv_current w0 = cv_current w
        \<and> (\<forall>x\<in>set (runs_t s). run_id x = a \<longrightarrow> (\<exists>y\<in>set (runs_t s'). same_role x y))"
      using updated_run[OF _ s'(1)] w(2) by (intro bexI[of _ w]) (auto simp: list_ex_iff)
  qed
  moreover have "heads_ok s'" by (rule same_checkpoints_heads[OF heads s'(5) s'(2)]) auto
  ultimately have "store_ok c s'" using store_ok_runs_change[OF ok s'(5,3,4)] by blast
  moreover have "find_run k s' = map_option (\<lambda>r. if interrupted_before started r then ?g r else r) (find_run k s)" for k
    using find_update_where[of run_id ?g k ?old "runs_t s"] s'(1) by (simp add: find_run_def interrupted_before_def)
  moreover have "find_conversation k s' = map_option (\<lambda>r. if ?p r then ?f r else r) (find_conversation k s)" for k
    using find_update_where[of cv_id ?f k ?p "conversations_t s"] s'(2) by (simp add: find_conversation_def)
  ultimately show ?thesis using s'(5) unfolding p_iff by blast
qed

end
