(* ===== verification/RoundLaws.thy ===== *)
theory RoundLaws
  imports StoreLaws
begin

text \<open>
  Tool rounds: creation and the commit of one result keep the store's invariant, and what a commit does.
\<close>

section \<open>Creation\<close>

lemma new_calls_facts:
  "filter (\<lambda>k. rc_round k = rid \<and> rc_state k = CallPending) (map (new_call_row rid) calls) = map (new_call_row rid) calls"
  "filter (\<lambda>k. rc_round k = rid \<and> rc_state k = CallCompleted) (map (new_call_row rid) calls) = []"
  "d \<noteq> rid \<Longrightarrow> filter (\<lambda>k. rc_round k = d \<and> P k) (map (new_call_row rid) calls) = []"
  "map (\<lambda>k. (rc_round k, rc_call_id k)) (map (new_call_row rid) calls) = map (\<lambda>k. (rid, call_id k)) calls"
  by (auto simp: new_call_row_def filter_empty_conv intro!: filter_True)

lemma no_calls_of_new_round:
  "rounds_ok s \<Longrightarrow> find_round rid s = None \<Longrightarrow> k \<in> set (round_calls_t s) \<Longrightarrow> rc_round k \<noteq> rid"
  unfolding rounds_ok_def find_round_def find_None_iff by (metis imageE)

lemma create_tool_round_ok:
  assumes ok: "store_ok c s" and cr: "create_tool_round now rid run base asst calls created s = Inr (u, s')"
  shows "store_ok c s' \<and> same_checkpoints s s'"
proof -
  let ?new = "\<lparr>rd_id = rid, rd_run = run, rd_base = checkpoint_int base, rd_assistant = asst,
               rd_settled = False, rd_version = 0, rd_next_seq = 0,
               rd_created = (case created of Some t \<Rightarrow> int t | None \<Rightarrow> now)\<rparr>"
  have fresh: "find_round rid s = None" and calls: "calls \<noteq> []" "distinct (map call_id calls)"
    and s': "s' = s\<lparr>rounds_t := rounds_t s @ [?new], round_calls_t := round_calls_t s @ map (new_call_row rid) calls\<rparr>"
    using cr by (auto simp: create_tool_round_def split: if_splits)
  have rok: "rounds_ok s" using ok by (simp add: store_ok_def)
  have old: "filter (\<lambda>k. rc_round k = rid \<and> P k) (round_calls_t s) = []" for P
    using no_calls_of_new_round[OF rok fresh] by (auto simp: filter_empty_conv)
  have pend: "pending_calls d s' = (if d = rid then map (new_call_row rid) calls else pending_calls d s)" for d
    using s' new_calls_facts(1)[of rid] new_calls_facts(3)[of d rid] old by (simp add: pending_calls_def)
  have comp: "completed_calls d s' = (if d = rid then [] else completed_calls d s)" for d
    using s' new_calls_facts(2)[of rid] new_calls_facts(3)[of d rid] old by (simp add: completed_calls_def)
  have "\<forall>d\<in>set (rounds_t s). rd_id d \<noteq> rid" using fresh by (auto simp: find_round_def find_None_iff)
  moreover have "distinct (map (\<lambda>k. (rc_round k, rc_call_id k)) (round_calls_t s'))"
    using rok s' calls(2) no_calls_of_new_round[OF rok fresh] new_calls_facts(4)[of rid calls]
    by (auto simp: rounds_ok_def distinct_map inj_on_def new_call_row_def)
  ultimately have "rounds_ok s'"
    using rok pend comp s' calls(1) unfolding rounds_ok_def
    by (auto simp: new_call_row_def)
  moreover have sc: "same_checkpoints s s'" using s' by (simp add: same_checkpoints_def)
  moreover have "heads_ok s'"
    using heads_ok_extends[OF _ same_checkpoints_extends[OF sc]] ok s' by (simp add: store_ok_def)
  moreover have "owners_ok s'" using ok s' owners_ok_same[of s s'] by (simp add: store_ok_def)
  ultimately show ?thesis using ok same_checkpoints_ok[OF sc] by (simp add: store_ok_def)
qed


section \<open>Commit of a result\<close>

lemma update_one:
  assumes "distinct (map f (xs @ k # ys))" "p k" "\<And>x. p x \<Longrightarrow> f x = f k"
  shows "update_where p g (xs @ k # ys) = xs @ g k # ys"
proof -
  have "f k \<notin> f ` (set xs \<union> set ys)" using assms(1) by auto
  then have "\<not> p x" if "x \<in> set xs \<or> x \<in> set ys" for x
    using assms(3)[of x] that by (metis Un_iff image_eqI)
  then show ?thesis
    using assms(2) update_where_none[of xs p g] update_where_none[of ys p g] by (auto simp: update_where_append)
qed

text \<open>Completing a pending call: it leaves the pending ones and joins the completed.\<close>

lemma complete_call_spec:
  assumes rok: "rounds_ok s" and k: "find_call rid (result_call_id r) s = Some k" "rc_state k = CallPending"
  shows "map (\<lambda>k. (rc_round k, rc_call_id k)) (round_calls_t (complete_call now rid seq cp r s))
      = map (\<lambda>k. (rc_round k, rc_call_id k)) (round_calls_t s)"
    and "pending_calls rid (complete_call now rid seq cp r s)
      = filter (\<lambda>x. rc_call_id x \<noteq> result_call_id r) (pending_calls rid s)"
    and "length (completed_calls rid (complete_call now rid seq cp r s)) = Suc (length (completed_calls rid s))"
    and "d \<noteq> rid \<Longrightarrow> pending_calls d (complete_call now rid seq cp r s) = pending_calls d s
      \<and> completed_calls d (complete_call now rid seq cp r s) = completed_calls d s"
    and "\<exists>x. find_call rid (result_call_id r) (complete_call now rid seq cp r s) = Some x
      \<and> rc_state x = CallCompleted \<and> rc_seq x = Some seq \<and> rc_content x = Some (result_content r)
      \<and> rc_is_error x = Some (result_is_error r) \<and> rc_committed x = Some (checkpoint_int cp)"
proof -
  let ?p = "\<lambda>k. rc_round k = rid \<and> rc_call_id k = result_call_id r \<and> rc_state k = CallPending"
  let ?g = "\<lambda>k. k\<lparr>rc_state := CallCompleted, rc_seq := Some seq, rc_content := Some (result_content r),
               rc_is_error := Some (result_is_error r), rc_committed := Some (checkpoint_int cp),
               rc_completed_at := Some now\<rparr>"
  let ?key = "\<lambda>k. (rc_round k, rc_call_id k)"
  have km: "k \<in> set (round_calls_t s)" "rc_round k = rid" "rc_call_id k = result_call_id r"
    using find_SomeD[OF k(1)[unfolded find_call_def]] by auto
  then obtain xs ys where t: "round_calls_t s = xs @ k # ys" by (meson split_list)
  have d: "distinct (map ?key (xs @ k # ys))" using rok t by (simp add: rounds_ok_def)
  have upd: "round_calls_t (complete_call now rid seq cp r s) = xs @ ?g k # ys"
    using update_one[OF d, of ?p ?g] km k(2) t by (simp add: complete_call_def)
  have other: "x \<in> set xs \<or> x \<in> set ys \<Longrightarrow> rc_round x = rid \<Longrightarrow> rc_call_id x \<noteq> result_call_id r" for x
    using d km(2,3) by force
  show "map ?key (round_calls_t (complete_call now rid seq cp r s)) = map ?key (round_calls_t s)"
    by (simp add: upd t)
  have keep: "filter (\<lambda>x. rc_call_id x \<noteq> result_call_id r) (filter (\<lambda>k. rc_round k = rid \<and> rc_state k = CallPending) zs)
      = filter (\<lambda>k. rc_round k = rid \<and> rc_state k = CallPending) zs" if "set zs \<subseteq> set xs \<union> set ys" for zs
    using other that by (intro filter_True) auto
  show "pending_calls rid (complete_call now rid seq cp r s)
      = filter (\<lambda>x. rc_call_id x \<noteq> result_call_id r) (pending_calls rid s)"
    using km k(2) keep[of xs] keep[of ys] by (simp add: pending_calls_def upd t)
  show "length (completed_calls rid (complete_call now rid seq cp r s)) = Suc (length (completed_calls rid s))"
    using km k(2) by (simp add: completed_calls_def upd t)
  show "d \<noteq> rid \<Longrightarrow> pending_calls d (complete_call now rid seq cp r s) = pending_calls d s
      \<and> completed_calls d (complete_call now rid seq cp r s) = completed_calls d s"
    using km by (simp add: pending_calls_def completed_calls_def upd t)
  have "find (\<lambda>k. rc_round k = rid \<and> rc_call_id k = result_call_id r) xs = None"
    using other by (auto simp: find_None_iff)
  then show "\<exists>x. find_call rid (result_call_id r) (complete_call now rid seq cp r s) = Some x
      \<and> rc_state x = CallCompleted \<and> rc_seq x = Some seq \<and> rc_content x = Some (result_content r)
      \<and> rc_is_error x = Some (result_is_error r) \<and> rc_committed x = Some (checkpoint_int cp)"
    using km by (simp add: find_call_def upd find_append_none)
qed

text \<open>What a successful commit did, from the state before it to the one after it.\<close>

definition committed ::
    "codec \<Rightarrow> string \<Rightarrow> string \<Rightarrow> string \<Rightarrow> tool_result \<Rightarrow> tool_commit \<Rightarrow> db \<Rightarrow> db \<Rightarrow> bool" where
  "committed c conv run rid r tc s s' \<longleftrightarrow>
     (\<exists>rd k x v. find_round rid s = Some rd \<and> rd_run rd = run \<and> \<not> rd_settled rd
        \<and> find_call rid (result_call_id r) s = Some k \<and> rc_state k = CallPending
        \<and> find_run run s = Some x
        \<and> find_conversation conv s = Some v \<and> cv_active_run v = Some run \<and> cv_current v = Some (run_head x)
        \<and> find_conversation conv s' = Some (v\<lparr>cv_current := Some (checkpoint_int (tcm_checkpoint tc))\<rparr>)
        \<and> history c s' (checkpoint_int (tcm_checkpoint tc))
            = history c s (run_head x) @ [round_assistant_message rid rd k, round_result_message rid k r]
        \<and> int (tcm_seq tc) = rd_next_seq rd \<and> tcm_version tc = Suc (tcm_seq tc)
        \<and> find_round rid s' = Some (rd\<lparr>rd_settled := tcm_settled tc, rd_version := rd_version rd + 1,
                                       rd_next_seq := rd_next_seq rd + 1\<rparr>))
     \<and> pending_calls rid s' = filter (\<lambda>k. rc_call_id k \<noteq> result_call_id r) (pending_calls rid s)
     \<and> (tcm_settled tc \<longleftrightarrow> pending_calls rid s' = [])
     \<and> (\<exists>k. find_call rid (result_call_id r) s' = Some k \<and> rc_state k = CallCompleted
          \<and> rc_seq k = Some (int (tcm_seq tc)) \<and> rc_content k = Some (result_content r)
          \<and> rc_is_error k = Some (result_is_error r)
          \<and> rc_committed k = Some (checkpoint_int (tcm_checkpoint tc)))"

lemma round_messages_plain:
  "skip_parts (round_assistant_message rid rd k) = round_assistant_message rid rd k"
  "skip_parts (round_result_message rid k r) = round_result_message rid k r"
  by (simp_all add: skip_parts_def round_assistant_message_def round_result_message_def Let_def)

lemma find_round_iff:
  assumes "rounds_ok s"
  shows "find (\<lambda>x. rd_id x = rid \<and> rd_run x = run) (rounds_t s) = Some rd \<longleftrightarrow> find_round rid s = Some rd \<and> rd_run rd = run"
proof -
  let ?both = "find (\<lambda>x. rd_id x = rid \<and> rd_run x = run) (rounds_t s)"
  have d: "distinct (map rd_id (rounds_t s))" using assms by (simp add: rounds_ok_def)
  show ?thesis
  proof
    assume "?both = Some rd"
    then have "rd \<in> set (rounds_t s) \<and> rd_id rd = rid \<and> rd_run rd = run" using find_SomeD by fastforce
    then show "find_round rid s = Some rd \<and> rd_run rd = run"
      using find_unique[OF d] by (auto simp: find_round_def)
  next
    assume a: "find_round rid s = Some rd \<and> rd_run rd = run"
    then have rd: "rd \<in> set (rounds_t s)" "rd_id rd = rid" using find_SomeD by (fastforce simp: find_round_def)+
    then obtain y where y: "?both = Some y" using a by (cases ?both) (auto simp: find_None_iff)
    then have "y \<in> set (rounds_t s)" "rd_id y = rid" using find_SomeD by fastforce+
    then show "?both = Some rd" using y distinct_id_eq[OF d _ rd(1)] rd(2) by simp
  qed
qed

lemma settle_round_ok:
  assumes rok: "rounds_ok s" and rd: "find_round rid s = Some rd"
    and k: "find_call rid (result_call_id r) s = Some k" "rc_state k = CallPending"
    and calls: "round_calls_t s' = round_calls_t (complete_call now rid (rd_next_seq rd) cp r s)"
    and rounds: "rounds_t s' = update_where (\<lambda>x. rd_id x = rid)
        (\<lambda>x. x\<lparr>rd_settled := (pending_calls rid s' = []), rd_version := rd_version rd + 1, rd_next_seq := rd_next_seq rd + 1\<rparr>)
        (rounds_t s)"
  shows "rounds_ok s'"
proof -
  let ?f = "\<lambda>x. x\<lparr>rd_settled := (pending_calls rid s' = []), rd_version := rd_version rd + 1, rd_next_seq := rd_next_seq rd + 1\<rparr>"
  note comp = complete_call_spec[OF rok k, where now=now and seq="rd_next_seq rd" and cp=cp]
  have pend: "pending_calls d s' = pending_calls d (complete_call now rid (rd_next_seq rd) cp r s)"
    and compl: "completed_calls d s' = completed_calls d (complete_call now rid (rd_next_seq rd) cp r s)" for d
    using calls by (simp_all add: pending_calls_def completed_calls_def)
  have mem: "rd \<in> set (rounds_t s)" "rd_id rd = rid" using find_SomeD[OF rd[unfolded find_round_def]] by auto
  have "(rd_settled d \<longleftrightarrow> pending_calls (rd_id d) s' = [])
      \<and> rd_version d = int (length (completed_calls (rd_id d) s'))
      \<and> rd_next_seq d = int (length (completed_calls (rd_id d) s'))" if d: "d \<in> set (rounds_t s')" for d
  proof -
    obtain e where e: "e \<in> set (rounds_t s)" "d = (if rd_id e = rid then ?f e else e)"
      using d unfolding rounds set_update_where by blast
    show ?thesis
    proof (cases "rd_id e = rid")
      case True
      have "rd_version rd = int (length (completed_calls rid s)) \<and> rd_next_seq rd = int (length (completed_calls rid s))"
        using rok mem by (auto simp: rounds_ok_def)
      then show ?thesis using True e(2) compl[of rid] comp(3) by simp
    next
      case False
      then show ?thesis using e rok pend[of "rd_id e"] compl[of "rd_id e"] comp(4)[of "rd_id e"]
        by (auto simp: rounds_ok_def)
    qed
  qed
  moreover have ids: "map rd_id (rounds_t s') = map rd_id (rounds_t s)"
    unfolding rounds by (rule map_update_where) simp
  moreover have keys: "map (\<lambda>k. (rc_round k, rc_call_id k)) (round_calls_t s') = map (\<lambda>k. (rc_round k, rc_call_id k)) (round_calls_t s)"
    using comp(1) calls by simp
  moreover have "rc_round ` set (round_calls_t s') \<subseteq> rd_id ` set (rounds_t s')"
  proof -
    have "map rc_round (round_calls_t s') = map rc_round (round_calls_t s)"
      using arg_cong[OF keys, of "map fst"] by (simp add: comp_def)
    then have "rc_round ` set (round_calls_t s') = rc_round ` set (round_calls_t s)"
      by (metis list.set_map)
    moreover have "rd_id ` set (rounds_t s') = rd_id ` set (rounds_t s)" by (metis ids list.set_map)
    ultimately show ?thesis using rok by (auto simp: rounds_ok_def)
  qed
  ultimately show ?thesis using rok unfolding rounds_ok_def by auto
qed

lemma complete_call_frame [simp]:
  "same_checkpoints s (complete_call now rid seq cp r s)"
  "conversations_t (complete_call now rid seq cp r s) = conversations_t s"
  "runs_t (complete_call now rid seq cp r s) = runs_t s"
  "rounds_t (complete_call now rid seq cp r s) = rounds_t s"
  by (simp_all add: complete_call_def same_checkpoints_def)

text \<open>The steps of a successful commit: the append, then the settlement of the call and its round.\<close>

lemma commit_tool_result_parts:
  assumes rok: "rounds_ok s" and cm: "commit_tool_result c now conv run rid r s = Inr (tc, s')"
  shows "\<exists>rd k x cp s1. find_round rid s = Some rd \<and> rd_run rd = run \<and> \<not> rd_settled rd
    \<and> find_call rid (result_call_id r) s = Some k \<and> rc_state k = CallPending \<and> find_run run s = Some x
    \<and> append_checkpoint_tx c conv run (CheckpointId (run_head x))
        [round_assistant_message rid rd k, round_result_message rid k r] s = Inr (cp, s1)
    \<and> round_calls_t s' = round_calls_t (complete_call now rid (rd_next_seq rd) cp r s1)
    \<and> rounds_t s' = update_where (\<lambda>x. rd_id x = rid) (\<lambda>x. x\<lparr>rd_settled := (pending_calls rid s' = []),
        rd_version := rd_version rd + 1, rd_next_seq := rd_next_seq rd + 1\<rparr>) (rounds_t s1)
    \<and> same_checkpoints s1 s' \<and> conversations_t s' = conversations_t s1 \<and> runs_t s' = runs_t s1
    \<and> tc = \<lparr>tcm_checkpoint = cp, tcm_version = nat (rd_version rd + 1), tcm_seq = nat (rd_next_seq rd),
            tcm_settled = (pending_calls rid s' = [])\<rparr>"
proof -
  obtain rd k x cp s1 where rd: "find (\<lambda>x. rd_id x = rid \<and> rd_run x = run) (rounds_t s) = Some rd" "\<not> rd_settled rd"
    and k: "find_call rid (result_call_id r) s = Some k" "rc_state k = CallPending" "find_run run s = Some x"
    and ap: "append_checkpoint_tx c conv run (CheckpointId (run_head x))
        [round_assistant_message rid rd k, round_result_message rid k r] s = Inr (cp, s1)"
    and tc: "(let s2 = complete_call now rid (rd_next_seq rd) cp r s1; settled = (pending_calls rid s2 = []) in
        (\<lparr>tcm_checkpoint = cp, tcm_version = nat (rd_version rd + 1), tcm_seq = nat (rd_next_seq rd), tcm_settled = settled\<rparr>,
         s2\<lparr>rounds_t := update_where (\<lambda>x. rd_id x = rid)
           (\<lambda>x. x\<lparr>rd_settled := settled, rd_version := rd_version rd + 1, rd_next_seq := rd_next_seq rd + 1\<rparr>) (rounds_t s2)\<rparr>))
       = (tc, s')"
    using cm by (fastforce simp: commit_tool_result_def Let_def split: option.splits if_splits prod.splits)
  let ?s2 = "complete_call now rid (rd_next_seq rd) cp r s1"
  have s': "s' = ?s2\<lparr>rounds_t := update_where (\<lambda>x. rd_id x = rid)
           (\<lambda>x. x\<lparr>rd_settled := (pending_calls rid ?s2 = []), rd_version := rd_version rd + 1,
                 rd_next_seq := rd_next_seq rd + 1\<rparr>) (rounds_t ?s2)\<rparr>"
    and tc': "tc = \<lparr>tcm_checkpoint = cp, tcm_version = nat (rd_version rd + 1), tcm_seq = nat (rd_next_seq rd),
            tcm_settled = (pending_calls rid ?s2 = [])\<rparr>"
    using tc by (simp_all add: Let_def)
  have p: "pending_calls rid s' = pending_calls rid ?s2" by (simp add: s' pending_calls_def)
  have "same_checkpoints s1 s'"
    by (rule same_checkpoints_trans[OF complete_call_frame(1)]) (simp add: s' same_checkpoints_def)
  moreover have "round_calls_t s' = round_calls_t ?s2" "conversations_t s' = conversations_t s1" "runs_t s' = runs_t s1"
    by (simp_all add: s')
  moreover have "rounds_t s' = update_where (\<lambda>x. rd_id x = rid) (\<lambda>x. x\<lparr>rd_settled := (pending_calls rid s' = []),
        rd_version := rd_version rd + 1, rd_next_seq := rd_next_seq rd + 1\<rparr>) (rounds_t s1)"
    unfolding p by (simp add: s')
  ultimately show ?thesis
    using rd k ap tc'[folded p] find_round_iff[OF rok] by blast
qed

lemma commit_tool_result_spec:
  assumes c: "codec_ok c" and ok: "store_ok c s" and cm: "commit_tool_result c now conv run rid r s = Inr (tc, s')"
  shows "store_ok c s' \<and> extends_db s s' \<and> committed c conv run rid r tc s s'"
proof -
  have rok: "rounds_ok s" using ok by (simp add: store_ok_def)
  obtain rd k x cp s1 where rd: "find_round rid s = Some rd" "rd_run rd = run" "\<not> rd_settled rd"
    and k: "find_call rid (result_call_id r) s = Some k" "rc_state k = CallPending" "find_run run s = Some x"
    and ap: "append_checkpoint_tx c conv run (CheckpointId (run_head x))
        [round_assistant_message rid rd k, round_result_message rid k r] s = Inr (cp, s1)"
    and calls: "round_calls_t s' = round_calls_t (complete_call now rid (rd_next_seq rd) cp r s1)"
    and rounds: "rounds_t s' = update_where (\<lambda>x. rd_id x = rid) (\<lambda>x. x\<lparr>rd_settled := (pending_calls rid s' = []),
        rd_version := rd_version rd + 1, rd_next_seq := rd_next_seq rd + 1\<rparr>) (rounds_t s1)"
    and fr: "same_checkpoints s1 s'" "conversations_t s' = conversations_t s1" "runs_t s' = runs_t s1"
    and tc: "tc = \<lparr>tcm_checkpoint = cp, tcm_version = nat (rd_version rd + 1), tcm_seq = nat (rd_next_seq rd),
            tcm_settled = (pending_calls rid s' = [])\<rparr>"
    using commit_tool_result_parts[OF rok cm] by blast
  note app = append_checkpoint_tx_spec[OF c ok ap]
  have ok1: "store_ok c s1" and mv: "moved_head conv run (next_checkpoint s) s s1" and cp: "cp = CheckpointId (next_checkpoint s)"
    using app by blast+
  have same: "rounds_t s1 = rounds_t s" "round_calls_t s1 = round_calls_t s" using mv by (simp_all add: moved_head_def)
  have rok1: "rounds_ok s1" using ok1 by (simp add: store_ok_def)
  have f1: "find_round rid s1 = Some rd" "find_call rid (result_call_id r) s1 = Some k"
    using rd(1) k(1) same by (simp_all add: find_round_def find_call_def)
  have "rounds_ok s'" by (rule settle_round_ok[OF rok1 f1 k(2) calls rounds])
  moreover have "heads_ok s'" "owners_ok s'" "checkpoints_ok c s'"
    using ok1 fr heads_ok_extends[OF _ same_checkpoints_extends[OF fr(1)]] owners_ok_same[of s1 s'] same_checkpoints_ok[OF fr(1)]
    by (simp_all add: store_ok_def)
  moreover have "extends_db s s'" using app same_checkpoints_extends[OF fr(1)] extends_db_trans by blast
  moreover have "committed c conv run rid r tc s s'"
  proof -
    note comp = complete_call_spec[OF rok1 f1(2) k(2), where now=now and seq="rd_next_seq rd" and cp=cp]
    have pend: "pending_calls rid s' = filter (\<lambda>k. rc_call_id k \<noteq> result_call_id r) (pending_calls rid s)"
      using comp(2) calls same(2) by (simp add: pending_calls_def)
    have call': "\<exists>k. find_call rid (result_call_id r) s' = Some k \<and> rc_state k = CallCompleted
        \<and> rc_seq k = Some (rd_next_seq rd) \<and> rc_content k = Some (result_content r)
        \<and> rc_is_error k = Some (result_is_error r) \<and> rc_committed k = Some (checkpoint_int cp)"
      using comp(5) calls by (simp add: find_call_def)
    have hist: "history c s' (next_checkpoint s) = history c s (run_head x)
        @ [round_assistant_message rid rd k, round_result_message rid k r]"
      using app same_checkpoints_reads(7)[OF fr(1)] c by (simp add: history_def round_messages_plain)
    have "rd \<in> set (rounds_t s)" "rd_id rd = rid" using find_SomeD[OF rd(1)[unfolded find_round_def]] by auto
    then have num: "rd_version rd = rd_next_seq rd" "0 \<le> rd_next_seq rd" using rok by (auto simp: rounds_ok_def)
    have round': "find_round rid s' = Some (rd\<lparr>rd_settled := (pending_calls rid s' = []),
        rd_version := rd_version rd + 1, rd_next_seq := rd_next_seq rd + 1\<rparr>)"
      using find_update_where[of rd_id _ rid "\<lambda>x. rd_id x = rid" "rounds_t s1"] f1(1) \<open>rd_id rd = rid\<close>
      unfolding find_round_def rounds by simp
    obtain v where v: "find_conversation conv s = Some v" "cv_active_run v = Some run"
        "find_conversation conv s1 = Some (v\<lparr>cv_current := Some (next_checkpoint s)\<rparr>)"
      using mv by (auto simp: moved_head_def)
    moreover have "cv_current v = Some (run_head x)" using app v(1) by auto
    moreover have "find_conversation conv s' = find_conversation conv s1" using fr(2) by (simp add: find_conversation_def)
    ultimately have conv': "find_conversation conv s' = Some (v\<lparr>cv_current := Some (next_checkpoint s)\<rparr>)"
      and cur: "cv_current v = Some (run_head x)" by simp_all
    show ?thesis
      unfolding committed_def
    proof (rule conjI, goal_cases)
      case 1
      show ?case
        by (intro exI[of _ rd] exI[of _ k] exI[of _ x] exI[of _ v] conjI)
          (use rd k hist num round' tc cp v(1,2) conv' cur in simp_all)
    next
      case 2
      show ?case using pend call' tc cp num by simp
    qed
  qed
  ultimately show ?thesis by (simp add: store_ok_def)
qed

end
