(* ===== verification/Codec.thy ===== *)
theory Codec
  imports Db "HOL-Library.Countable"
begin

text \<open>
  A codec that meets the law the store relies on. Messages are countable, so each has a number; the
  unary codec writes the number as a run of that many zero bytes. The digest of a byte sequence is the
  sequence itself, so that no two inputs share one.
\<close>

instance json :: countable
  by countable_datatype

instance role :: countable
  by countable_datatype

instance origin :: countable
  by countable_datatype

instance content_part :: countable
  by countable_datatype

instance tool_call_content_ext :: (countable) countable
proof (rule countable_classI[of "\<lambda>r. to_nat (tc_index r, tc_call_id r, tc_name r, tc_arguments r,
    tool_call_content.more r)"])
  fix x y :: "'a tool_call_content_scheme"
  assume "to_nat (tc_index x, tc_call_id x, tc_name x, tc_arguments x, tool_call_content.more x)
    = to_nat (tc_index y, tc_call_id y, tc_name y, tc_arguments y, tool_call_content.more y)"
  then show "x = y" by simp
qed

instance tool_image_reference_ext :: (countable) countable
proof (rule countable_classI[of "\<lambda>r. to_nat (img_blob_id r, img_mime_type r, img_path r,
    tool_image_reference.more r)"])
  fix x y :: "'a tool_image_reference_scheme"
  assume "to_nat (img_blob_id x, img_mime_type x, img_path x, tool_image_reference.more x)
    = to_nat (img_blob_id y, img_mime_type y, img_path y, tool_image_reference.more y)"
  then show "x = y" by simp
qed

instance tool_result_content_ext :: (countable) countable
proof (rule countable_classI[of "\<lambda>r. to_nat (tr_call_id r, tr_name r, tr_content r, tr_is_error r, tr_image r,
    tr_provider_parts r, tool_result_content.more r)"])
  fix x y :: "'a tool_result_content_scheme"
  assume "to_nat (tr_call_id x, tr_name x, tr_content x, tr_is_error x, tr_image x, tr_provider_parts x,
      tool_result_content.more x)
    = to_nat (tr_call_id y, tr_name y, tr_content y, tr_is_error y, tr_image y, tr_provider_parts y,
      tool_result_content.more y)"
  then show "x = y" by simp
qed

instance provider_replay_state_ext :: (countable) countable
proof (rule countable_classI[of "\<lambda>r. to_nat (rp_provider_kind r, rp_value r, provider_replay_state.more r)"])
  fix x y :: "'a provider_replay_state_scheme"
  assume "to_nat (rp_provider_kind x, rp_value x, provider_replay_state.more x)
    = to_nat (rp_provider_kind y, rp_value y, provider_replay_state.more y)"
  then show "x = y" by simp
qed

instance message_content :: countable
  by countable_datatype

instance message_ext :: (countable) countable
proof (rule countable_classI[of "\<lambda>r. to_nat (message_id r, msg_role r, msg_origin r, msg_content r,
    runtime_event_id r, message.more r)"])
  fix x y :: "'a message_scheme"
  assume "to_nat (message_id x, msg_role x, msg_origin x, msg_content x, runtime_event_id x, message.more x)
    = to_nat (message_id y, msg_role y, msg_origin y, msg_content y, runtime_event_id y, message.more y)"
  then show "x = y" by simp
qed

definition unary_codec :: codec where
  "unary_codec =
     \<lparr>ser = \<lambda>m. replicate (to_nat (skip_parts m)) 0, de = \<lambda>b. Some (from_nat (length b)), sha = \<lambda>b. b\<rparr>"

lemma unary_codec_ok: "codec_ok unary_codec"
  by (simp add: codec_ok_def unary_codec_def)

lemma unary_ser: "ser unary_codec m = ser unary_codec m' \<longleftrightarrow> skip_parts m = skip_parts m'"
  by (auto simp: unary_codec_def dest: replicate_eq_replicate[THEN iffD1])

lemma unary_sha [simp]: "sha unary_codec b = b"
  by (simp add: unary_codec_def)

text \<open>
  A second one, with a digest of 32 bytes that tells a few inputs apart and an empty encoding of one chosen
  message, so that lengths can be computed.
\<close>

fun tagged_hash :: "bytes \<Rightarrow> bytes" where
  "tagged_hash [] = replicate 32 0"
| "tagged_hash (x # xs) = (if length xs = 31 then 1 else 2) # (x + 1) # replicate 30 0"

definition short_codec :: "message \<Rightarrow> codec" where
  "short_codec m0 =
     \<lparr>ser = \<lambda>m. if skip_parts m = skip_parts m0 then [] else replicate (Suc (to_nat (skip_parts m))) 0,
      de = \<lambda>b. Some (if b = [] then skip_parts m0 else from_nat (length b - 1)), sha = tagged_hash\<rparr>"

lemma short_codec_ok: "codec_ok (short_codec m0)"
  by (simp add: codec_ok_def short_codec_def)

lemma short_codec_simps [simp]:
  "sha (short_codec m0) = tagged_hash" "ser (short_codec m0) m0 = []"
  by (simp_all add: short_codec_def)

lemma tagged_hash_length [simp]: "length (tagged_hash b) = 32"
  by (cases b rule: tagged_hash.cases) auto

end
