(* ===== verification/StoreMachine.thy ===== *)
theory StoreMachine
  imports BatchLaws DigestLaws RunLaws RoundLaws Codec
begin

text \<open>
  The store as a machine over its transactions, its invariant and frame facts by interpretation, and
  what the transactions guarantee to the run engine.
\<close>

section \<open>Transactions as events\<close>

datatype store_event =
    EnsureConversation string
  | ImportCheckpoint string "message list"
  | AppendCheckpoint string string checkpoint_id "message list"
  | ReplaceCheckpoint string string checkpoint_id "message list"
  | AppendOnce string string checkpoint_id "message list"
  | ClaimRun int prepared_run
  | BeginCall int string
  | FinishRun int string run_status "(string \<times> string) option"
  | ReconcileRuns int int
  | CreateRound int string string checkpoint_id tool_round_assistant "tool_call list" "nat option"
  | CommitResult int string string string tool_result

definition state_of :: "('a \<times> db) result \<Rightarrow> db \<Rightarrow> db" where
  "state_of r s = (case r of Inl _ \<Rightarrow> s | Inr (_, s') \<Rightarrow> s')"

fun store_step :: "codec \<Rightarrow> store_event \<Rightarrow> db \<Rightarrow> db" where
  "store_step c (EnsureConversation conv) s = state_of (ensure_conversation c conv s) s"
| "store_step c (ImportCheckpoint conv ms) s = state_of (import_checkpoint c conv ms s) s"
| "store_step c (AppendCheckpoint conv run cp ms) s = state_of (append_checkpoint c conv run cp ms s) s"
| "store_step c (ReplaceCheckpoint conv run cp ms) s = state_of (replace_checkpoint c conv run cp ms s) s"
| "store_step c (AppendOnce conv run cp ms) s = state_of (append_messages_once c conv run cp ms s) s"
| "store_step c (ClaimRun now p) s = state_of (claim_run c now p s) s"
| "store_step c (BeginCall now run) s = state_of (begin_provider_call now run s) s"
| "store_step c (FinishRun now run st f) s = state_of (finish_run now run st f s) s"
| "store_step c (ReconcileRuns now started) s = state_of (reconcile_interrupted_runs now started s) s"
| "store_step c (CreateRound now rid run cp a calls created) s = state_of (create_tool_round now rid run cp a calls created s) s"
| "store_step c (CommitResult now conv run rid r) s = state_of (commit_tool_result c now conv run rid r s) s"

lemma state_of_simps [simp]: "state_of (Inl e) s = s" "state_of (Inr (a, s')) s = s'"
  by (simp_all add: state_of_def)

lemma state_of_cases:
  "(\<And>a s'. r = Inr (a, s') \<Longrightarrow> P s') \<Longrightarrow> P s \<Longrightarrow> P (state_of r s)"
  by (auto simp: state_of_def split: sum.splits)

lemma append_checkpoint_spec:
  assumes "codec_ok c" "store_ok c s" "append_checkpoint c conv run (CheckpointId i) ms s = Inr (cp, s')"
  shows "store_ok c s' \<and> extends_db s s'"
  using assms append_checkpoint_tx_spec[OF assms(1,2)]
  by (auto simp: append_checkpoint_def split: if_splits)

lemma store_step_ok:
  assumes c: "codec_ok c" and ok: "store_ok c s"
  shows "store_ok c (store_step c e s) \<and> extends_db s (store_step c e s)"
proof (cases e)
  case (EnsureConversation conv)
  show ?thesis unfolding EnsureConversation store_step.simps ensure_conversation_def
  proof (rule state_of_cases)
    fix a s' assume "ensure_conversation_tx c conv s = Inr (a, s')"
    then show "store_ok c s' \<and> extends_db s s'" using ensure_conversation_spec[OF ok] by (cases a) blast
  qed (simp add: ok)
next
  case (ImportCheckpoint conv ms)
  show ?thesis unfolding ImportCheckpoint store_step.simps
  proof (rule state_of_cases)
    fix a s' assume "import_checkpoint c conv ms s = Inr (a, s')"
    then show "store_ok c s' \<and> extends_db s s'" using import_checkpoint_spec[OF c ok] by (cases a) blast
  qed (simp add: ok)
next
  case (AppendCheckpoint conv run cp ms)
  show ?thesis unfolding AppendCheckpoint store_step.simps
    by (rule state_of_cases) (use append_checkpoint_spec[OF c ok] ok in \<open>cases cp, auto\<close>)
next
  case (ReplaceCheckpoint conv run cp ms)
  show ?thesis unfolding ReplaceCheckpoint store_step.simps
    by (rule state_of_cases) (use replace_checkpoint_spec[OF c ok] ok in auto)
next
  case (AppendOnce conv run cp ms)
  show ?thesis unfolding AppendOnce store_step.simps
  proof (rule state_of_cases)
    fix a s' assume a: "append_messages_once c conv run cp ms s = Inr (a, s')"
    show "store_ok c s' \<and> extends_db s s'"
      using append_messages_once_spec[OF c ok] a ok
      by (cases cp; cases "ms = []") (auto simp: append_messages_once_def)
  qed (simp add: ok)
next
  case (ClaimRun now p)
  show ?thesis unfolding ClaimRun store_step.simps
    by (rule state_of_cases) (use claim_run_spec[OF ok] ok in auto)
next
  case (BeginCall now run)
  show ?thesis unfolding BeginCall store_step.simps
    by (rule state_of_cases) (use begin_provider_call_spec[OF ok] same_checkpoints_extends ok in auto)
next
  case (FinishRun now run st f)
  show ?thesis unfolding FinishRun store_step.simps
    by (rule state_of_cases) (use finish_run_spec[OF ok] same_checkpoints_extends ok in auto)
next
  case (ReconcileRuns now started)
  show ?thesis unfolding ReconcileRuns store_step.simps
    by (rule state_of_cases) (use reconcile_spec[OF ok] same_checkpoints_extends ok in auto)
next
  case (CreateRound now rid run cp a calls created)
  show ?thesis unfolding CreateRound store_step.simps
    by (rule state_of_cases) (use create_tool_round_ok[OF ok] same_checkpoints_extends ok in auto)
next
  case (CommitResult now conv run rid r)
  show ?thesis unfolding CommitResult store_step.simps
    by (rule state_of_cases) (use commit_tool_result_spec[OF c ok] ok in auto)
qed

interpretation store: climbing_machine "store_step c" "\<lambda>s. codec_ok c \<and> store_ok c s" extends_db
  for c
proof
  show "codec_ok c \<and> store_ok c s \<Longrightarrow> codec_ok c \<and> store_ok c (store_step c e s)" for s e
    using store_step_ok by blast
  show "extends_db s s" for s by simp
  show "extends_db a b \<Longrightarrow> extends_db b d \<Longrightarrow> extends_db a d" for a b d by (rule extends_db_trans)
  show "codec_ok c \<and> store_ok c s \<Longrightarrow> extends_db s (store_step c e s)" for s e
    using store_step_ok by blast
qed

lemma db_empty_ok: "store_ok c db_empty"
  by (simp add: store_ok_def db_empty_def checkpoints_ok_def ids_ok_def message_rows_ok_def links_ok_def
      digests_ok_def heads_ok_def owners_ok_def rounds_ok_def)


section \<open>Histories\<close>

lemma append_checkpoint_history:
  assumes c: "codec_ok c" and ok: "store_ok c s" and f: "find_checkpoint i s = Some r"
    and a: "append_checkpoint c conv run (CheckpointId i) ms s = Inr (CheckpointId j, s')"
  shows "(\<exists>q. find_checkpoint j s' = Some q) \<and> history c s' j = history c s i @ map skip_parts ms"
proof (cases "ms = []")
  case True
  then show ?thesis using a f by (simp add: append_checkpoint_def)
next
  case False
  then have t: "append_checkpoint_tx c conv run (CheckpointId i) ms s = Inr (CheckpointId j, s')"
    using a by (simp add: append_checkpoint_def)
  note sp = append_checkpoint_tx_spec[OF c ok t]
  then obtain v where "find_conversation conv s' = Some v" "cv_current v = Some j" by (auto simp: moved_head_def)
  then have "\<exists>q. find_checkpoint j s' = Some q" using current_checkpoint sp by blast
  then show ?thesis using sp c by (simp add: history_def)
qed

text \<open>Histories as a store of growing histories, for a codec that meets its law.\<close>

definition writer_of :: "codec \<Rightarrow> string \<Rightarrow> string \<Rightarrow> checkpoint_id \<Rightarrow> message list \<Rightarrow> checkpoint_id tx" where
  "writer_of c conv run h ms = append_checkpoint c conv run h ms"

interpretation owned: history_store "writer_of c conv run" "\<lambda>s h. history c s (checkpoint_int h)"
    "\<lambda>s. codec_ok c \<and> store_ok c s" "\<lambda>s h. find_checkpoint (checkpoint_int h) s \<noteq> None" skip_parts
  for c conv run
proof
  fix s h ms h' s' k
  assume i: "codec_ok c \<and> store_ok c s" "find_checkpoint (checkpoint_int h) s \<noteq> None"
    and a: "writer_of c conv run h ms s = Inr (h', s')"
  have a': "append_checkpoint c conv run (CheckpointId (checkpoint_int h)) ms s
      = Inr (CheckpointId (checkpoint_int h'), s')"
    using a by (simp add: writer_of_def)
  have sp: "store_ok c s' \<and> extends_db s s'" using append_checkpoint_spec[OF _ _ a'] i(1) by blast
  obtain r where "find_checkpoint (checkpoint_int h) s = Some r" using i(2) by blast
  note hist = append_checkpoint_history[OF _ _ this a']
  show "(codec_ok c \<and> store_ok c s') \<and> find_checkpoint (checkpoint_int h') s' \<noteq> None"
    using i(1) sp hist by auto
  show "history c s' (checkpoint_int h') = history c s (checkpoint_int h) @ map skip_parts ms"
    using hist i(1) by blast
  show "find_checkpoint (checkpoint_int k) s' \<noteq> None \<and> history c s' (checkpoint_int k) = history c s (checkpoint_int k)"
    if k: "find_checkpoint (checkpoint_int k) s \<noteq> None"
  proof -
    obtain x where x: "find_checkpoint (checkpoint_int k) s = Some x" using k by blast
    have "find_checkpoint (checkpoint_int k) s' = Some x" using sp x unfolding extends_db_def by blast
    then show ?thesis using history_extends[OF conjunct2[OF sp] x] by simp
  qed
qed


section \<open>A small store\<close>

text \<open>A conversation with one claimed run, as the witnesses below use it.\<close>

definition start_run :: "string \<Rightarrow> string \<Rightarrow> int \<Rightarrow> prepared_run" where
  "start_run run conv base =
     \<lparr>pr_run_id = run, pr_cursor_request_id = None, pr_conversation_id = conv, pr_kind = RootRun,
      pr_model = \<lparr>ms_model_id = ''m'', ms_display_name = None,
        ms_reasoning = \<lparr>rs_enabled = None, rs_effort = None, rs_thinking_budget = None\<rparr>,
        ms_max_output_tokens = None, ms_context_window_tokens = None\<rparr>,
      pr_initial_messages = [], pr_action = StartAction, pr_base_checkpoint = CheckpointId base\<rparr>"

definition claimed_db :: db where
  "claimed_db = fold (store_step unary_codec) [EnsureConversation ''c'', ClaimRun 5 (start_run ''r'' ''c'' 1)] db_empty"

lemmas store_eval = ensure_conversation_def ensure_conversation_tx_def find_conversation_def insert_checkpoint_row_def
  has_digest_def root_digest_def claim_run_def belongs_def cancel_replaced_def find_run_def new_run_row_def
  run_kind_columns_def start_run_def append_checkpoint_def append_checkpoint_tx_def checkpoint_digest_def
  find_checkpoint_def append_checkpoint_with_digest_tx_def require_active_head_tx_def insert_checkpoint_tx_def
  chained_digest_def update_digest_def put_messages_def put_message_tx_def conflicting_row_def
  register_message_image_tx_def message_image_blob_id_def text_message_def advance_head_def count_where_def own_rows_def

lemma claimed_db_value:
  "claimed_db = \<lparr>conversations_t = [\<lparr>cv_id = ''c'', cv_current = Some 1, cv_active_run = Some ''r''\<rparr>],
     checkpoints_t = [\<lparr>cp_id = 1, cp_conversation = ''c'', cp_parent = None, cp_digest = []\<rparr>],
     next_checkpoint = 2, messages_t = [], checkpoint_messages_t = [], image_blobs_t = [],
     runs_t = [new_run_row 5 (start_run ''r'' ''c'' 1)], rounds_t = [], round_calls_t = [], llm_calls_t = [], traces_t = []\<rparr>"
  by (simp add: claimed_db_def db_empty_def store_eval Let_def)

lemma claimed_db_ok: "store_ok unary_codec claimed_db"
  unfolding claimed_db_def using store.run_inv[of unary_codec db_empty] db_empty_ok unary_codec_ok by blast

end
