(* ===== verification/StoreProperties.thy ===== *)
theory StoreProperties
  imports StoreMachine
begin

text \<open>
  What the store's transactions guarantee to the run engine: consistency, histories, batches, ownership,
  settlement of tool rounds, import.
\<close>

section \<open>Properties\<close>

text \<open>
  C1: whatever transactions are issued, in any order and with any arguments, from an empty database the
  store's invariant holds: every digest is the hash of its parent's digest and its own messages, every
  conversation's current checkpoint is its own, an owned conversation is owned by one running run of
  its own whose head is the current checkpoint, and a tool round is settled exactly when no call of it
  is pending; and a transaction never changes the history of a checkpoint that existed before it.
\<close>
theorem store_stays_consistent:
  assumes "codec_ok c"
  shows "let s = fold (store_step c) es db_empty; s' = fold (store_step c) es' s in
     store_ok c s' \<and> (\<forall>i. find_checkpoint i s = None \<or> (find_checkpoint i s' = find_checkpoint i s
        \<and> load_checkpoint_messages c (CheckpointId i) s' = load_checkpoint_messages c (CheckpointId i) s))"
proof -
  let ?s = "fold (store_step c) es db_empty"
  let ?s' = "fold (store_step c) es' ?s"
  have i: "store_ok c ?s" using store.run_inv[of c db_empty] db_empty_ok assms by blast
  have i': "store_ok c ?s'" using store.run_inv[of c ?s] i assms by blast
  have "extends_db ?s ?s'" using store.run_climbs[of c ?s] i assms by blast
  then have "find_checkpoint j ?s = None \<or> (find_checkpoint j ?s' = find_checkpoint j ?s
        \<and> load_checkpoint_messages c (CheckpointId j) ?s' = load_checkpoint_messages c (CheckpointId j) ?s)" for j
    using load_history[OF assms] i i' history_extends[of ?s ?s']
    by (cases "find_checkpoint j ?s") (auto simp: store_ok_def extends_db_def)
  then show ?thesis using i' by (simp add: Let_def)
qed

lemma store_stays_consistent_witness:
  "store_ok unary_codec (fold (store_step unary_codec)
     [EnsureConversation ''c'', ClaimRun 5 (start_run ''r'' ''c'' 1),
      AppendCheckpoint ''c'' ''r'' (CheckpointId 1) [text_message ''m'' RUser OUser ''hi'']] db_empty)"
  using store_stays_consistent[OF unary_codec_ok, of "[EnsureConversation ''c'', ClaimRun 5 (start_run ''r'' ''c'' 1),
      AppendCheckpoint ''c'' ''r'' (CheckpointId 1) [text_message ''m'' RUser OUser ''hi'']]" "[]"]
  by (simp only: Let_def fold_simps)



section \<open>Histories\<close>

lemma append_checkpoint_current:
  assumes "codec_ok c" "store_ok c s" "find_conversation conv s = Some v" "cv_current v = Some (checkpoint_int h)"
    and "append_checkpoint c conv run h ms s = Inr (h', s')"
  shows "\<exists>v'. find_conversation conv s' = Some v' \<and> cv_current v' = Some (checkpoint_int h')"
proof (cases "ms = []")
  case True
  then show ?thesis using assms by (simp add: append_checkpoint_def)
next
  case False
  then have "append_checkpoint_tx c conv run (CheckpointId (checkpoint_int h)) ms s = Inr (h', s')"
    using assms(5) by (simp add: append_checkpoint_def)
  from append_checkpoint_tx_spec[OF assms(1,2) this] show ?thesis by (auto simp: moved_head_def)
qed

lemma append_all_current:
  assumes "codec_ok c"
  shows "store_ok c s \<Longrightarrow> find_conversation conv s = Some v \<Longrightarrow> cv_current v = Some (checkpoint_int h) \<Longrightarrow>
    append_all (writer_of c conv run) mss h s = Inr (h', s') \<Longrightarrow>
    \<exists>v'. find_conversation conv s' = Some v' \<and> cv_current v' = Some (checkpoint_int h')"
proof (induction mss arbitrary: h s v)
  case (Cons ms mss)
  then obtain h1 s1 where w: "writer_of c conv run h ms s = Inr (h1, s1)"
      and rest: "append_all (writer_of c conv run) mss h1 s1 = Inr (h', s')"
    by auto
  have 1: "append_checkpoint c conv run h ms s = Inr (h1, s1)" using w by (simp add: writer_of_def)
  have "store_ok c s1"
    using append_checkpoint_spec[OF assms Cons.prems(1), of conv run "checkpoint_int h"] 1 by simp
  then show ?case
    using append_checkpoint_current[OF assms Cons.prems(1-3) 1] Cons.IH[OF _ _ _ rest] by blast
qed auto

lemma load_current_iff:
  assumes "codec_ok c" "store_ok c s" "find_conversation conv s = Some v" "cv_current v = Some i"
  shows "load_current_messages c conv s = Inr (history c s i)"
  using assms load_history[OF assms(1)] by (simp add: load_current_messages_def store_ok_def)

text \<open>
  C9: a run's appends accumulate. After any sequence of successful batches the conversation's current
  history is the old one followed by all the batches in order (without the provider parts, which are
  not stored), and the history that was current before is still readable under its checkpoint.
\<close>
theorem appends_accumulate:
  assumes "codec_ok c" "store_ok c s" "find_conversation conv s = Some v" "cv_current v = Some i"
    and "append_all (writer_of c conv run) batches (CheckpointId i) s = Inr (cp, s')"
    and "load_current_messages c conv s = Inr old"
  shows "load_current_messages c conv s' = Inr (old @ map skip_parts (concat batches))
    \<and> load_checkpoint_messages c (CheckpointId i) s' = Inr old"
proof -
  obtain q where q: "find_checkpoint i s = Some q" using current_checkpoint[OF assms(2-4)] by blast
  have old: "old = history c s i" using load_current_iff[OF assms(1-4)] assms(6) by simp
  have "codec_ok c \<and> store_ok c s" "find_checkpoint (checkpoint_int (CheckpointId i)) s \<noteq> None"
    using assms(1,2) q by simp_all
  note all = owned.append_all_spec[OF this assms(5)]
  then have keeps: "\<forall>k. find_checkpoint (checkpoint_int k) s \<noteq> None \<longrightarrow>
      history c s' (checkpoint_int k) = history c s (checkpoint_int k)" by blast
  have s': "store_ok c s'" "history c s' (checkpoint_int cp) = old @ map skip_parts (concat batches)"
      "history c s' i = old"
    using all old q spec[OF keeps, of "CheckpointId i"] by simp_all
  obtain v' where "find_conversation conv s' = Some v'" "cv_current v' = Some (checkpoint_int cp)"
    using append_all_current[OF assms(1,2,3) _ assms(5)] assms(4) by auto
  then show ?thesis
    using load_current_iff[OF assms(1) s'(1)] load_history[OF assms(1), of s' i] s' by (simp add: store_ok_def)
qed

lemma appends_accumulate_witness:
  "\<exists>cp s'. append_all (writer_of unary_codec ''c'' ''r'') [[text_message ''m'' RUser OUser ''hi'']] (CheckpointId 1) claimed_db
       = Inr (cp, s')
     \<and> load_current_messages unary_codec ''c'' s' = Inr [text_message ''m'' RUser OUser ''hi'']"
proof -
  let ?m = "text_message ''m'' RUser OUser ''hi''"
  obtain cp s' where a: "append_all (writer_of unary_codec ''c'' ''r'') [[?m]] (CheckpointId 1) claimed_db = Inr (cp, s')"
    by (simp add: claimed_db_value store_eval writer_of_def Let_def)
  have f: "find_conversation ''c'' claimed_db = Some \<lparr>cv_id = ''c'', cv_current = Some 1, cv_active_run = Some ''r''\<rparr>"
    by (simp add: claimed_db_value find_conversation_def)
  have "load_current_messages unary_codec ''c'' claimed_db = Inr []"
    by (simp add: claimed_db_value load_current_messages_def find_conversation_def load_checkpoint_messages_def
        checkpoint_rows_def lineage_def checkpoint_own_rows_def joined_messages_def)
  then have "load_current_messages unary_codec ''c'' s' = Inr ([] @ map skip_parts (concat [[?m]]))"
    using appends_accumulate[OF unary_codec_ok claimed_db_ok f _ a] by simp
  then show ?thesis using a by (simp add: skip_parts_def text_message_def)
qed

text \<open>
  A replacement (the commit of a compaction) makes the given messages the whole current history,
  and leaves every earlier checkpoint readable as it was, so that nothing is lost by compacting.
\<close>
theorem replacement_is_exact:
  assumes "codec_ok c" "store_ok c s" "replace_checkpoint c conv run expected ms s = Inr (cp, s')"
  shows "load_current_messages c conv s' = Inr (map skip_parts ms)
    \<and> (\<forall>i. find_checkpoint i s = None
         \<or> load_checkpoint_messages c (CheckpointId i) s' = load_checkpoint_messages c (CheckpointId i) s)"
proof -
  note r = replace_checkpoint_spec[OF assms]
  then obtain v where v: "find_conversation conv s' = Some v" "cv_current v = Some (next_checkpoint s)"
    by (auto simp: moved_head_def)
  have "load_current_messages c conv s' = Inr (map skip_parts ms)"
    using load_current_iff[OF assms(1) _ v] r assms(1) by (simp add: history_def)
  moreover have "find_checkpoint i s = None
      \<or> load_checkpoint_messages c (CheckpointId i) s' = load_checkpoint_messages c (CheckpointId i) s" for i
    using load_history[OF assms(1)] r assms(2) history_extends[of s s' i _ c]
    by (cases "find_checkpoint i s") (auto simp: store_ok_def)
  ultimately show ?thesis by blast
qed

lemma replacement_is_exact_witness:
  "\<exists>cp s'. replace_checkpoint unary_codec ''c'' ''r'' (CheckpointId 1) [text_message ''m'' RUser OUser ''hi''] claimed_db
       = Inr (cp, s')
     \<and> load_current_messages unary_codec ''c'' s' = Inr [text_message ''m'' RUser OUser ''hi'']"
proof -
  let ?m = "text_message ''m'' RUser OUser ''hi''"
  have root: "conversation_root_tx ''c'' claimed_db = Inr (CheckpointId 1)"
    by (simp add: claimed_db_value conversation_root_tx_def)
  obtain cp s' where a: "replace_checkpoint unary_codec ''c'' ''r'' (CheckpointId 1) [?m] claimed_db = Inr (cp, s')"
    by (simp add: replace_checkpoint_def root) (simp add: claimed_db_value store_eval Let_def)
  then have "load_current_messages unary_codec ''c'' s' = Inr (map skip_parts [?m])"
    using replacement_is_exact[OF unary_codec_ok claimed_db_ok a] by simp
  then show ?thesis using a by (simp add: skip_parts_def text_message_def)
qed

text \<open>
  C10: a batch is applied once. A successful batch appends exactly the messages it reports as new, in
  order; sent again by the run at the new head it changes nothing and reports no message as new,
  whatever identities the messages share (among messages that are stored in full).
\<close>
theorem batch_applies_once:
  assumes "codec_ok c" "store_ok c s" "ms \<noteq> []" "\<forall>m\<in>set ms. skip_parts m = m"
    and "append_messages_once c conv run (CheckpointId i) ms s = Inr (out, s')"
  shows "\<exists>j. load_current_messages c conv s' = Inr (history c s i @ fresh ms out)
    \<and> load_checkpoint_messages c (CheckpointId j) s' = load_current_messages c conv s'
    \<and> append_messages_once c conv run (CheckpointId j) ms s' = Inr (map (\<lambda>_. (CheckpointId j, False)) ms, s')"
proof -
  obtain j where ok: "store_ok c s'" and left: "batch_left c conv run j ms (history c s i @ map skip_parts (fresh ms out)) s'"
    using append_messages_once_spec[OF assms(1-3,5)] by blast
  obtain v where v: "find_conversation conv s' = Some v" "cv_current v = Some j"
      and h: "history c s' j = history c s i @ map skip_parts (fresh ms out)"
    using left by (auto simp: batch_left_def)
  have "map skip_parts (fresh ms out) = fresh ms out"
    using assms(4) by (intro map_idI) (auto simp: fresh_def dest: set_zip_leftD split: if_splits)
  then show ?thesis
    using load_current_iff[OF assms(1) ok v] h load_history[OF assms(1), of s' j] ok
      append_messages_once_again[OF assms(1) ok left assms(4)]
    by (intro exI[of _ j]) (simp add: store_ok_def)
qed

lemma batch_applies_once_witness:
  "\<exists>out s' j. append_messages_once unary_codec ''c'' ''r'' (CheckpointId 1)
        [text_message ''m'' RUser OUser ''hi'', text_message ''m'' RUser OUser ''hi''] claimed_db = Inr (out, s')
     \<and> map snd out = [True, False]
     \<and> append_messages_once unary_codec ''c'' ''r'' (CheckpointId j)
        [text_message ''m'' RUser OUser ''hi'', text_message ''m'' RUser OUser ''hi''] s'
        = Inr ([(CheckpointId j, False), (CheckpointId j, False)], s')"
proof -
  let ?m = "text_message ''m'' RUser OUser ''hi''"
  obtain out s' where a: "append_messages_once unary_codec ''c'' ''r'' (CheckpointId 1) [?m, ?m] claimed_db = Inr (out, s')"
      "map snd out = [True, False]"
    by (simp add: claimed_db_value store_eval append_messages_once_def append_once_step_def chain_identities_def
        identity_matches_def same_as_stored_def lineage_def checkpoint_own_rows_def joined_messages_def Let_def)
  then show ?thesis
    using batch_applies_once[OF unary_codec_ok claimed_db_ok _ _ a(1)] by (fastforce simp: skip_parts_def text_message_def)
qed


section \<open>Ownership\<close>

text \<open>The transactions that end a run's ownership of a conversation.\<close>

fun ends_ownership :: "string \<Rightarrow> string \<Rightarrow> store_event \<Rightarrow> bool" where
  "ends_ownership conv run (ClaimRun now p) \<longleftrightarrow> pr_conversation_id p = conv"
| "ends_ownership conv run (FinishRun now r st f) \<longleftrightarrow> r = run"
| "ends_ownership conv run (ReconcileRuns now started) \<longleftrightarrow> True"
| "ends_ownership conv run e \<longleftrightarrow> False"

definition owns :: "string \<Rightarrow> string \<Rightarrow> db \<Rightarrow> bool" where
  "owns conv run s \<longleftrightarrow> (\<exists>v. find_conversation conv s = Some v \<and> cv_active_run v = Some run)"

lemma moved_head_owns: "moved_head k r j s s' \<Longrightarrow> owns conv run s \<Longrightarrow> owns conv run s'"
  by (cases "k = conv") (auto simp: moved_head_def owns_def)

lemma released_owns:
  assumes "released r s s'" "r \<noteq> run" "owns conv run s"
  shows "owns conv run s'"
proof -
  obtain v where v: "find_conversation conv s = Some v" "cv_active_run v = Some run" using assms(3) by (auto simp: owns_def)
  have "find_conversation conv s' = map_option
      (\<lambda>v. if cv_active_run v = Some r then v\<lparr>cv_active_run := None\<rparr> else v) (find_conversation conv s)"
    using assms(1) unfolding released_def by blast
  then show ?thesis using v assms(2) by (simp add: owns_def)
qed

lemma same_conversations_owns: "conversations_t s' = conversations_t s \<Longrightarrow> owns conv run s \<Longrightarrow> owns conv run s'"
  by (simp add: owns_def find_conversation_def)

lemma batch_owns:
  assumes "codec_ok c" "store_ok c s" "append_messages_once c k r (CheckpointId i) ms s = Inr (out, s')" "owns conv run s"
  shows "owns conv run s'"
proof (cases "ms = []")
  case True
  then show ?thesis using assms by (simp add: append_messages_once_def)
next
  case False
  note b = append_messages_once_spec[OF assms(1,2) False assms(3)]
  show ?thesis
  proof (cases "k = conv")
    case True
    have "require_active_head_tx k r (CheckpointId i) s = Inr ((), s)"
      using assms(3) False require_active_head_iff by (fastforce simp: append_messages_once_def)
    then have "run = r" using assms(4) True require_active_head_iff by (fastforce simp: owns_def)
    then show ?thesis using b True by (auto simp: batch_left_def owns_def)
  next
    case False
    then show ?thesis using b assms(4) by (auto simp: owns_def)
  qed
qed

lemma owns_step:
  "(\<And>a s'. r = Inr (a, s') \<Longrightarrow> owns conv run s \<Longrightarrow> owns conv run s') \<Longrightarrow> owns conv run s
   \<Longrightarrow> owns conv run (state_of r s)"
  by (auto simp: state_of_def split: sum.splits)

lemma owner_kept:
  assumes c: "codec_ok c" and ok: "store_ok c s" and o: "owns conv run s" and e: "\<not> ends_ownership conv run e"
  shows "owns conv run (store_step c e s)"
proof (cases e)
  case (EnsureConversation k)
  show ?thesis unfolding EnsureConversation store_step.simps ensure_conversation_def
  proof (rule owns_step[OF _ o])
    fix a s' assume "ensure_conversation_tx c k s = Inr (a, s')" "owns conv run s"
    then show "owns conv run s'" using ensure_conversation_spec[OF ok, of k "checkpoint_int a" s']
      by (cases "k = conv") (auto simp: owns_def)
  qed
next
  case (ImportCheckpoint k ms)
  show ?thesis unfolding ImportCheckpoint store_step.simps
  proof (rule owns_step[OF _ o])
    fix a s' assume "import_checkpoint c k ms s = Inr (a, s')" "owns conv run s"
    then show "owns conv run s'" using import_checkpoint_spec[OF c ok, of k ms "checkpoint_int a" s']
      by (auto simp: owns_def)
  qed
next
  case (AppendCheckpoint k r cp ms)
  show ?thesis unfolding AppendCheckpoint store_step.simps
  proof (rule owns_step[OF _ o])
    fix a s' assume "append_checkpoint c k r cp ms s = Inr (a, s')" "owns conv run s"
    then show "owns conv run s'"
      using append_checkpoint_tx_spec[OF c ok, of k r "checkpoint_int cp" ms a s'] moved_head_owns
      by (auto simp: append_checkpoint_def split: if_splits)
  qed
next
  case (ReplaceCheckpoint k r cp ms)
  show ?thesis unfolding ReplaceCheckpoint store_step.simps
    by (rule owns_step[OF _ o]) (use replace_checkpoint_spec[OF c ok] moved_head_owns in blast)
next
  case (AppendOnce k r cp ms)
  show ?thesis unfolding AppendOnce store_step.simps
    by (rule owns_step[OF _ o]) (use batch_owns[OF c ok] in \<open>cases cp, blast\<close>)
next
  case (ClaimRun now p)
  show ?thesis unfolding ClaimRun store_step.simps
    by (rule owns_step[OF _ o]) (use claim_run_spec[OF ok] e ClaimRun in \<open>auto simp: owns_def\<close>)
next
  case (BeginCall now r)
  show ?thesis unfolding BeginCall store_step.simps
    by (rule owns_step[OF _ o])
      (auto simp: begin_provider_call_def Let_def owns_def find_conversation_def split: option.splits)
next
  case (FinishRun now r st f)
  show ?thesis unfolding FinishRun store_step.simps
  proof (rule owns_step[OF _ o])
    fix a s' assume a: "finish_run now r st f s = Inr (a, s')" "owns conv run s"
    have "released r s s'" using finish_run_spec[OF ok a(1)] by blast
    then show "owns conv run s'" using released_owns a(2) e FinishRun by simp
  qed
next
  case (ReconcileRuns now started)
  then show ?thesis using e by simp
next
  case (CreateRound now rid r cp a calls created)
  show ?thesis unfolding CreateRound store_step.simps
    by (rule owns_step[OF _ o])
      (auto simp: create_tool_round_def owns_def find_conversation_def split: if_splits)
next
  case (CommitResult now k r rid res)
  show ?thesis unfolding CommitResult store_step.simps
  proof (rule owns_step[OF _ o])
    fix a s' assume a: "commit_tool_result c now k r rid res s = Inr (a, s')" "owns conv run s"
    have "rounds_ok s" using ok by (simp add: store_ok_def)
    then obtain s1 where s1: "conversations_t s' = conversations_t s1" "\<exists>h ms cp. append_checkpoint_tx c k r (CheckpointId h) ms s = Inr (cp, s1)"
      using commit_tool_result_parts[OF _ a(1)] by blast
    then have "owns conv run s1" using append_checkpoint_tx_spec[OF c ok] moved_head_owns a(2) by blast
    then show "owns conv run s'" using s1(1) same_conversations_owns by blast
  qed
qed

lemma owner_kept_run:
  "codec_ok c \<Longrightarrow> store_ok c s \<Longrightarrow> owns conv run s \<Longrightarrow> \<forall>e\<in>set es. \<not> ends_ownership conv run e
   \<Longrightarrow> owns conv run (fold (store_step c) es s)"
proof (induction es arbitrary: s)
  case (Cons e es)
  have "owns conv run (store_step c e s)" "store_ok c (store_step c e s)"
    using owner_kept[of c s conv run e] store_step_ok[of c s e] Cons.prems by auto
  then show ?case using Cons.IH[of "store_step c e s"] Cons.prems by simp
qed simp

lemma not_owner_refused:
  assumes "owns conv run s" "r \<noteq> run"
  shows "\<not> is_ok (append_checkpoint_tx c conv r cp ms s)" "\<not> is_ok (replace_checkpoint c conv r cp ms s)"
    "ms \<noteq> [] \<Longrightarrow> \<not> is_ok (append_messages_once c conv r cp ms s)"
proof -
  have no: "require_active_head_tx conv r cp s = Inl (ownership_error r conv cp)"
    using assms by (auto simp: owns_def require_active_head_tx_def)
  show "\<not> is_ok (append_checkpoint_tx c conv r cp ms s)"
    by (cases "checkpoint_digest cp s") (simp_all add: append_checkpoint_tx_def append_checkpoint_with_digest_tx_def no)
  show "\<not> is_ok (replace_checkpoint c conv r cp ms s)" by (simp add: replace_checkpoint_def no)
  show "ms \<noteq> [] \<Longrightarrow> \<not> is_ok (append_messages_once c conv r cp ms s)"
    by (simp add: append_messages_once_def no)
qed

lemma not_owner_commits_no_result:
  assumes "owns conv run s" "r \<noteq> run"
  shows "\<not> is_ok (commit_tool_result c now conv r rid result s)"
proof (cases "commit_tool_result c now conv r rid result s")
  case (Inr x)
  then obtain cp ms y where "append_checkpoint_tx c conv r cp ms s = Inr y"
    by (auto simp: commit_tool_result_def Let_def split: option.splits if_splits)
  then show ?thesis using not_owner_refused(1)[OF assms, of c cp ms] by simp
qed simp

text \<open>
  C7: a claim takes the conversation over and holds it. The run that owned it until then, if one did, is reported
  and stored as cancelled, the new run is stored as running and starts at its base checkpoint; and whatever
  transactions follow, until the run finishes, the conversation is claimed again or the process restarts, no other run
  can write it: its appends, replacements, batches and tool results are refused.
\<close>
theorem claim_takes_over:
  assumes "codec_ok c" "store_ok c s" "claim_run c now p s = Inr (cl, s')"
    and "\<forall>e\<in>set es. \<not> ends_ownership (pr_conversation_id p) (pr_run_id p) e"
    and "r \<noteq> pr_run_id p" "ms \<noteq> []"
  shows "load_current_messages c (pr_conversation_id p) s' = load_checkpoint_messages c (pr_base_checkpoint p) s'
    \<and> cl_replaced cl = Option.bind (find_conversation (pr_conversation_id p) s) cv_active_run
    \<and> (case cl_replaced cl of None \<Rightarrow> True | Some old \<Rightarrow> map_option run_status (find_run old s') = Some RunCancelled)
    \<and> map_option run_status (find_run (pr_run_id p) s') = Some RunRunning
    \<and> (let s'' = fold (store_step c) es s' in
         \<not> is_ok (append_checkpoint c (pr_conversation_id p) r cp ms s'')
         \<and> \<not> is_ok (replace_checkpoint c (pr_conversation_id p) r cp ms s'')
         \<and> \<not> is_ok (append_messages_once c (pr_conversation_id p) r cp ms s'')
         \<and> \<not> is_ok (commit_tool_result c now' (pr_conversation_id p) r rid result s''))"
proof -
  note cl = claim_run_spec[OF assms(2,3)]
  then obtain v where v: "find_conversation (pr_conversation_id p) s' = Some v"
      "cv_current v = Some (checkpoint_int (pr_base_checkpoint p))" "cv_active_run v = Some (pr_run_id p)" by blast
  then have "owns (pr_conversation_id p) (pr_run_id p) s'" by (simp add: owns_def)
  then have o: "owns (pr_conversation_id p) (pr_run_id p) (fold (store_step c) es s')"
    using owner_kept_run[OF assms(1) _ _ assms(4)] cl by blast
  note refused = not_owner_refused[OF o assms(5), where c=c and cp=cp and ms=ms]
  have "load_current_messages c (pr_conversation_id p) s' = load_checkpoint_messages c (pr_base_checkpoint p) s'"
    using v(1,2) by (simp add: load_current_messages_def)
  moreover have "case cl_replaced cl of None \<Rightarrow> True | Some old \<Rightarrow> map_option run_status (find_run old s') = Some RunCancelled"
    using cl by (auto split: option.splits)
  moreover have "map_option run_status (find_run (pr_run_id p) s') = Some RunRunning"
    "cl_replaced cl = Option.bind (find_conversation (pr_conversation_id p) s) cv_active_run"
    using cl by (simp_all add: new_run_row_def split: prod.split)
  ultimately show ?thesis
    using refused assms(6) not_owner_commits_no_result[OF o assms(5)] by (simp add: append_checkpoint_def Let_def)
qed

lemma claim_takes_over_witness:
  "\<exists>cl s'. claim_run unary_codec 9 (start_run ''q'' ''c'' 1) claimed_db = Inr (cl, s') \<and> cl_replaced cl = Some ''r''
     \<and> map_option run_status (find_run ''r'' s') = Some RunCancelled
     \<and> \<not> is_ok (append_checkpoint unary_codec ''c'' ''r'' (CheckpointId 1) [text_message ''m'' RUser OUser ''hi''] s')"
proof -
  obtain cl s' where a: "claim_run unary_codec 9 (start_run ''q'' ''c'' 1) claimed_db = Inr (cl, s')" "cl_replaced cl = Some ''r''"
    by (simp add: claimed_db_value store_eval Let_def)
  have "pr_conversation_id (start_run ''q'' ''c'' 1) = ''c''" "pr_run_id (start_run ''q'' ''c'' 1) = ''q''"
    by (simp_all add: start_run_def)
  then show ?thesis
    using claim_takes_over[OF unary_codec_ok claimed_db_ok a(1), of "[]" "''r''" "[text_message ''m'' RUser OUser ''hi'']" "CheckpointId 1"] a
    by (simp add: Let_def)
qed

end
