(* ===== verification/RunProperties.thy ===== *)
theory RunProperties
  imports StoreProperties
begin

text \<open>
  How runs end and how tool rounds settle, on the store.
\<close>

section \<open>Ends of runs\<close>

lemma finish_run_terminal:
  assumes "store_ok c s" "finish_run now run st f s = Inr (owned, s')"
  shows "\<exists>row. find_run run s' = Some row \<and> run_status row \<noteq> RunRunning"
    and "\<forall>k\<in>set (llm_calls_t s'). llm_run k = run \<longrightarrow> llm_status k \<noteq> LlmRunning"
proof -
  obtain row where row: "find_run run s = Some row"
    and row': "find_run run s' = Some (if run_status row = RunRunning
           then row\<lparr>run_status := st, run_failure_category := map_option fst f,
                  run_failure_summary := map_option snd f, run_updated := now\<rparr> else row)"
    using finish_run_spec[OF assms] by blast
  have "run_status row = RunRunning \<longrightarrow> st \<noteq> RunRunning"
    using assms(2) row by (auto simp: finish_run_def Let_def)
  then show "\<exists>row. find_run run s' = Some row \<and> run_status row \<noteq> RunRunning" using row' by auto
  have "\<exists>st' k m. st' \<noteq> LlmRunning \<and> llm_calls_t s' = llm_calls_t (finish_llm_calls now (\<lambda>r. llm_run r = run) st' k m s)"
  proof (cases "if run_status row = RunRunning then st else run_status row")
    case RunRunning
    then show ?thesis using assms(2) row by (auto simp: finish_run_def Let_def split: if_splits)
  next
    case RunCompleted
    then have "llm_calls_t s' = llm_calls_t (finish_llm_calls now (\<lambda>r. llm_run r = run) LlmError (Some ''internal'')
        (Some ''Run completed before LLM call reached a terminal state'') s)"
      using assms(2) row by (auto simp: finish_run_def Let_def finish_llm_calls_def)
    then show ?thesis by blast
  next
    case RunCancelled
    then have "llm_calls_t s' = llm_calls_t (finish_llm_calls now (\<lambda>r. llm_run r = run) LlmCancelled None None s)"
      using assms(2) row by (auto simp: finish_run_def Let_def finish_llm_calls_def)
    then show ?thesis by blast
  next
    case RunFailed
    then have "\<exists>k m. llm_calls_t s' = llm_calls_t (finish_llm_calls now (\<lambda>r. llm_run r = run) LlmError k m s)"
      using assms(2) row
      by (auto simp: finish_run_def Let_def finish_llm_calls_def) (rule exI, rule exI, rule refl)+
    then show ?thesis by blast
  qed
  then obtain st' kd m where e: "st' \<noteq> LlmRunning"
      "llm_calls_t s' = llm_calls_t (finish_llm_calls now (\<lambda>r. llm_run r = run) st' kd m s)" by blast
  show "\<forall>k\<in>set (llm_calls_t s'). llm_run k = run \<longrightarrow> llm_status k \<noteq> LlmRunning"
    unfolding e(2) finish_llm_calls_def by (simp add: set_update_where ball_Un e(1))
qed

lemma released_none: "released run s s' \<Longrightarrow> \<not> owns k run s'"
proof
  assume r: "released run s s'" and o: "owns k run s'"
  obtain v where v: "find_conversation k s' = Some v" "cv_active_run v = Some run" using o by (auto simp: owns_def)
  have "find_conversation k s' = map_option
      (\<lambda>v. if cv_active_run v = Some run then v\<lparr>cv_active_run := None\<rparr> else v) (find_conversation k s)"
    using r unfolding released_def by blast
  then show False using v by (cases "find_conversation k s") (auto split: if_splits)
qed

lemma released_same:
  assumes "released run s s'" "\<not> owns k run s"
  shows "find_conversation k s' = find_conversation k s"
proof -
  have "find_conversation k s' = map_option
      (\<lambda>v. if cv_active_run v = Some run then v\<lparr>cv_active_run := None\<rparr> else v) (find_conversation k s)"
    using assms(1) unfolding released_def by blast
  then show ?thesis using assms(2) by (cases "find_conversation k s") (auto simp: owns_def)
qed

text \<open>
  C36: the first end of a run is its end. After a run was finished it has a terminal status, none of its
  model calls is left running and it owns no conversation; finishing it again, with any other status,
  changes neither its row nor any conversation and reports that nothing was released.
\<close>
theorem first_end_wins:
  assumes "store_ok c s" "finish_run now run st f s = Inr (owned, s')"
    and "finish_run later run st' f' s' = Inr (owned', s'')"
  shows "find_run run s'' = find_run run s' \<and> map_option run_status (find_run run s') \<noteq> Some RunRunning
    \<and> (\<forall>k\<in>set (llm_calls_t s'). llm_run k \<noteq> run \<or> llm_status k \<noteq> LlmRunning)
    \<and> \<not> owned' \<and> (\<forall>k. find_conversation k s'' = find_conversation k s' \<and> \<not> owns k run s')"
proof -
  note f1 = finish_run_spec[OF assms(1,2)]
  then have ok': "store_ok c s'" by blast
  note f2 = finish_run_spec[OF ok' assms(3)]
  obtain row where row: "find_run run s' = Some row" "run_status row \<noteq> RunRunning"
    using finish_run_terminal(1)[OF assms(1,2)] by blast
  have none: "\<not> owns k run s'" for k using f1 released_none by blast
  have "\<not> owned'"
    using f2 none ok' find_conversation_unique unfolding owns_def store_ok_def by blast
  moreover have "find_conversation k s'' = find_conversation k s'" for k
    using f2 none released_same by blast
  moreover have "find_run run s'' = find_run run s'" using f2 row by auto
  ultimately show ?thesis using row none finish_run_terminal(2)[OF assms(1,2)] by auto
qed

lemma first_end_wins_witness:
  "\<exists>s' s''. finish_run 7 ''r'' RunCompleted None claimed_db = Inr (True, s')
     \<and> finish_run 8 ''r'' RunFailed (Some (''store'', ''late'')) s' = Inr (False, s'')
     \<and> find_run ''r'' s'' = find_run ''r'' s'"
proof -
  obtain s' s'' where a: "finish_run 7 ''r'' RunCompleted None claimed_db = Inr (True, s')"
      "finish_run 8 ''r'' RunFailed (Some (''store'', ''late'')) s' = Inr (False, s'')"
    by (simp add: claimed_db_value finish_run_def find_run_def new_run_row_def start_run_def run_kind_columns_def
        finish_llm_calls_def count_where_def Let_def)
  then show ?thesis using first_end_wins[OF claimed_db_ok a] by blast
qed

text \<open>
  Start-up clears what a dead process left and only that. After reconciliation no run created
  before the process started is running and no conversation is owned by one; a run created since is
  as it was and keeps its conversation; and reconciling again finds nothing.
\<close>
theorem reconcile_clears_the_dead:
  assumes "store_ok c s" "reconcile_interrupted_runs now started s = Inr (n, s')"
  shows "(\<forall>r. case find_run r s' of None \<Rightarrow> True | Some x \<Rightarrow> run_status x \<noteq> RunRunning \<or> started \<le> run_created x)
    \<and> (\<forall>k r. \<not> owns k r s' \<or> (owns k r s \<and> find_run r s' = find_run r s))
    \<and> (\<forall>k r. \<not> owns k r s \<or> (case find_run r s of None \<Rightarrow> False | Some x \<Rightarrow> run_created x < started \<or> owns k r s'))
    \<and> reconcile_interrupted_runs later started s' = Inr (0, s')"
proof -
  note r = reconcile_spec[OF assms]
  then have run: "find_run a s' = map_option (\<lambda>r. if interrupted_before started r
         then r\<lparr>run_status := RunFailed, run_failure_category := Some ''interrupted'',
                run_failure_summary := Some interrupted_by_process_exit, run_updated := now\<rparr> else r) (find_run a s)"
    and conv: "find_conversation k s' = map_option (\<lambda>v.
         if (\<exists>x. Option.bind (cv_active_run v) (\<lambda>a. find_run a s) = Some x \<and> interrupted_before started x)
         then v\<lparr>cv_active_run := None\<rparr> else v) (find_conversation k s)" for a k
    by blast+
  have 1: "case find_run a s' of None \<Rightarrow> True | Some x \<Rightarrow> run_status x \<noteq> RunRunning \<or> started \<le> run_created x" for a
    unfolding run by (cases "find_run a s") (auto simp: interrupted_before_def)
  have exists: "\<exists>x. find_run a s = Some x \<and> run_status x = RunRunning" if "owns k a s" for k a
  proof -
    have "Option.bind (find_conversation k s) cv_active_run = Some a" using that by (auto simp: owns_def)
    then show ?thesis using active_run_exists[OF assms(1)] by blast
  qed
  have 2: "\<not> owns k a s' \<or> (owns k a s \<and> find_run a s' = find_run a s)" for k a
  proof (cases "owns k a s'")
    case True
    then obtain w where w: "find_conversation k s' = Some w" "cv_active_run w = Some a" by (auto simp: owns_def)
    then obtain v where v: "find_conversation k s = Some v" using conv[of k] by (cases "find_conversation k s") auto
    have "w = v \<and> \<not> (\<exists>x. Option.bind (cv_active_run v) (\<lambda>a. find_run a s) = Some x \<and> interrupted_before started x)"
      using conv[of k] w v by (auto split: if_splits)
    then show ?thesis using w(2) v unfolding run by (cases "find_run a s") (auto simp: owns_def)
  qed simp
  have 3: "\<not> owns k a s \<or> (case find_run a s of None \<Rightarrow> False | Some x \<Rightarrow> run_created x < started \<or> owns k a s')" for k a
  proof (cases "owns k a s")
    case True
    then obtain x where x: "find_run a s = Some x" "run_status x = RunRunning" using exists by blast
    obtain v where v: "find_conversation k s = Some v" "cv_active_run v = Some a" using True by (auto simp: owns_def)
    then show ?thesis using x conv[of k] by (auto simp: owns_def interrupted_before_def)
  qed simp
  have "reconcile_interrupted_runs later started s' = Inr (0, s')"
  proof -
    have none: "\<forall>x\<in>set (runs_t s'). \<not> (run_status x = RunRunning \<and> run_created x < started)"
      "\<forall>x\<in>set (llm_calls_t s'). \<not> (llm_created x < started \<and> llm_status x = LlmRunning)"
      "\<forall>x\<in>set (traces_t s'). \<not> (trace_running x \<and> trace_received x < started)"
      using assms(2) by (auto simp: reconcile_interrupted_runs_def Let_def finish_llm_calls_def set_update_where)
    then have cnt: "count_where (\<lambda>r. run_status r = RunRunning \<and> run_created r < started) (runs_t s') = 0"
      "count_where (\<lambda>r. llm_status r = LlmRunning \<and> llm_created r < started) (llm_calls_t s') = 0"
      "count_where (\<lambda>r. trace_running r \<and> trace_received r < started) (traces_t s') = 0"
      by (auto simp: count_where_def filter_empty_conv)
    have "\<forall>v\<in>set (conversations_t s'). \<not> (case cv_active_run v of
        Some a \<Rightarrow> list_ex (\<lambda>x. (run_status x = RunRunning \<and> run_created x < started) \<and> run_id x = a) (runs_t s') | None \<Rightarrow> False)"
      using none(1) by (auto simp: list_ex_iff split: option.splits)
    then show ?thesis
      using cnt none by (simp add: reconcile_interrupted_runs_def Let_def finish_llm_calls_def update_where_none)
  qed
  then show ?thesis using 1 2 3 by blast
qed

lemma reconcile_clears_the_dead_witness:
  "\<exists>n s'. reconcile_interrupted_runs 20 10 claimed_db = Inr (n, s') \<and> n = 1
     \<and> reconcile_interrupted_runs 30 10 s' = Inr (0, s')"
proof -
  obtain n s' where a: "reconcile_interrupted_runs 20 10 claimed_db = Inr (n, s')" "n = 1"
    by (simp add: claimed_db_value reconcile_interrupted_runs_def new_run_row_def start_run_def run_kind_columns_def
        finish_llm_calls_def count_where_def Let_def)
  then show ?thesis using reconcile_clears_the_dead[OF claimed_db_ok a(1), of 30] by blast
qed


section \<open>Tool results\<close>

lemma commit_again_refused:
  assumes "committed c conv run rid r tc s s'" "result_call_id r' = result_call_id r" "rounds_ok s'"
  shows "\<not> is_ok (commit_tool_result c' now conv' run' rid r' s')"
proof -
  obtain k where k: "find_call rid (result_call_id r') s' = Some k" "rc_state k = CallCompleted"
    using assms(1,2) by (auto simp: committed_def)
  then show ?thesis
    by (auto simp: commit_tool_result_def split: option.splits)
qed

text \<open>
  C8: a tool result is committed exactly once and settles the round exactly when it is the last one. A
  successful commit was for a pending call of an unsettled round; it appends the assistant's call and the
  result to the run's history, makes that checkpoint current, gives the result the round's next sequence
  number and settles the round exactly when no other call of it is pending; any later result for the
  same call, by whatever run, is refused.
\<close>
theorem tool_result_commits_once:
  assumes "codec_ok c" "store_ok c s" "commit_tool_result c now conv run rid r s = Inr (tc, s')"
  shows "\<exists>rd k old. find_round rid s = Some rd \<and> rd_run rd = run \<and> \<not> rd_settled rd
      \<and> find_call rid (result_call_id r) s = Some k \<and> rc_state k = CallPending
      \<and> load_current_messages c conv s = Inr old
      \<and> load_current_messages c conv s' = Inr (old @ [round_assistant_message rid rd k, round_result_message rid k r])
      \<and> int (tcm_seq tc) = int (length (completed_calls rid s))
      \<and> (tcm_settled tc \<longleftrightarrow> filter (\<lambda>x. rc_call_id x \<noteq> result_call_id r) (pending_calls rid s) = [])
      \<and> map_option rd_settled (find_round rid s') = Some (tcm_settled tc)
      \<and> (\<forall>c' now' conv' run' r'. result_call_id r' \<noteq> result_call_id r
           \<or> \<not> is_ok (commit_tool_result c' now' conv' run' rid r' s'))"
proof -
  have sp: "store_ok c s'" "committed c conv run rid r tc s s'" using commit_tool_result_spec[OF assms] by blast+
  obtain rd k x v where "find_round rid s = Some rd \<and> rd_run rd = run \<and> \<not> rd_settled rd
      \<and> find_call rid (result_call_id r) s = Some k \<and> rc_state k = CallPending
      \<and> find_run run s = Some x
      \<and> find_conversation conv s = Some v \<and> cv_active_run v = Some run \<and> cv_current v = Some (run_head x)
      \<and> find_conversation conv s' = Some (v\<lparr>cv_current := Some (checkpoint_int (tcm_checkpoint tc))\<rparr>)
      \<and> history c s' (checkpoint_int (tcm_checkpoint tc))
          = history c s (run_head x) @ [round_assistant_message rid rd k, round_result_message rid k r]
      \<and> int (tcm_seq tc) = rd_next_seq rd \<and> tcm_version tc = Suc (tcm_seq tc)
      \<and> find_round rid s' = Some (rd\<lparr>rd_settled := tcm_settled tc, rd_version := rd_version rd + 1,
                                     rd_next_seq := rd_next_seq rd + 1\<rparr>)"
    using conjunct1[OF sp(2)[unfolded committed_def]] by (elim exE)
  then have p: "find_round rid s = Some rd" "rd_run rd = run" "\<not> rd_settled rd"
      "find_call rid (result_call_id r) s = Some k" "rc_state k = CallPending"
      "find_conversation conv s = Some v" "cv_current v = Some (run_head x)"
      "find_conversation conv s' = Some (v\<lparr>cv_current := Some (checkpoint_int (tcm_checkpoint tc))\<rparr>)"
      "history c s' (checkpoint_int (tcm_checkpoint tc))
         = history c s (run_head x) @ [round_assistant_message rid rd k, round_result_message rid k r]"
      "int (tcm_seq tc) = rd_next_seq rd"
      "find_round rid s' = Some (rd\<lparr>rd_settled := tcm_settled tc, rd_version := rd_version rd + 1,
                                       rd_next_seq := rd_next_seq rd + 1\<rparr>)"
    by blast+
  have "rd_next_seq rd = int (length (completed_calls rid s))"
    using assms(2) find_SomeD[OF p(1)[unfolded find_round_def]] by (auto simp: store_ok_def rounds_ok_def)
  moreover have "pending_calls rid s' = filter (\<lambda>x. rc_call_id x \<noteq> result_call_id r) (pending_calls rid s)"
      "tcm_settled tc \<longleftrightarrow> pending_calls rid s' = []"
    using sp(2) by (auto simp: committed_def)
  moreover have "result_call_id r' \<noteq> result_call_id r \<or> \<not> is_ok (commit_tool_result c' now' conv' run' rid r' s')"
    for c' now' conv' run' r'
    using commit_again_refused[OF sp(2)] sp(1) by (auto simp: store_ok_def)
  moreover have "load_current_messages c conv s = Inr (history c s (run_head x))"
    by (rule load_current_iff[OF assms(1,2) p(6,7)])
  moreover have "load_current_messages c conv s' = Inr (history c s' (checkpoint_int (tcm_checkpoint tc)))"
    by (rule load_current_iff[OF assms(1) sp(1) p(8)]) simp
  ultimately show ?thesis
    using p(1-5,9-11) by (intro exI[of _ rd] exI[of _ k] exI[of _ "history c s (run_head x)"]) simp
qed

definition demo_tool_call :: tool_call where
  "demo_tool_call = \<lparr>call_index = 0, call_id = ''k'', model_call_id = ''k'', call_name = ''read'',
     arguments_text = ''{}'', call_arguments = JObj [], argument_error = None\<rparr>"

definition demo_tool_result :: tool_result where
  "demo_tool_result = \<lparr>result_call_id = ''k'', result_content = ''ok'', result_is_error = False, result_image = None\<rparr>"

definition demo_assistant :: tool_round_assistant where
  "demo_assistant = \<lparr>ra_text = ''t'', ra_thinking = [], ra_model_call_id = ''m'', ra_replay_state = None\<rparr>"

definition round_db :: db where
  "round_db = store_step unary_codec
     (CreateRound 6 ''t'' ''r'' (CheckpointId 1) demo_assistant [demo_tool_call] None) claimed_db"

lemma round_db_ok: "store_ok unary_codec round_db"
  unfolding round_db_def by (rule conjunct1[OF store_step_ok[OF unary_codec_ok claimed_db_ok]])

lemma round_db_value:
  "round_db = claimed_db\<lparr>rounds_t := [\<lparr>rd_id = ''t'', rd_run = ''r'', rd_base = 1, rd_assistant = demo_assistant,
       rd_settled = False, rd_version = 0, rd_next_seq = 0, rd_created = 6\<rparr>],
     round_calls_t := [new_call_row ''t'' demo_tool_call]\<rparr>"
  by (simp add: round_db_def claimed_db_value create_tool_round_def owns_head_def find_round_def demo_tool_call_def
      new_run_row_def start_run_def run_kind_columns_def)

lemma tool_result_commits_once_witness:
  "\<exists>tc s'. commit_tool_result unary_codec 7 ''c'' ''r'' ''t'' demo_tool_result round_db = Inr (tc, s') \<and> tcm_settled tc
     \<and> \<not> is_ok (commit_tool_result unary_codec 8 ''c'' ''r'' ''t'' demo_tool_result s')"
proof -
  obtain tc s' where a: "commit_tool_result unary_codec 7 ''c'' ''r'' ''t'' demo_tool_result round_db = Inr (tc, s')" "tcm_settled tc"
    by (simp add: round_db_value claimed_db_value commit_tool_result_def store_eval find_call_def demo_tool_result_def
        demo_tool_call_def new_call_row_def round_assistant_message_def round_result_message_def complete_call_def
        pending_calls_def demo_assistant_def Let_def)
  then show ?thesis using tool_result_commits_once[OF unary_codec_ok round_db_ok a(1)] by blast
qed

end
