(* ===== verification/ImportProperties.thy ===== *)
theory ImportProperties
  imports StoreProperties
begin

text \<open>
  What an import of a client's history and a prefix match return, and what a digest says of the history
  below it. The hypotheses on the hash (no two of the inputs at hand collide) are met by an example store
  with two conversations that hold the same message.
\<close>

section \<open>Import and prefix matching\<close>

text \<open>
  C20: importing a client's history returns a checkpoint of the conversation whose content is that
  history, message by message (role, origin, content and event; the ids may be those stored before),
  without touching any stored history or any run's ownership, unless the hash of the store collides.
\<close>
theorem import_returns_history:
  assumes "codec_ok c" "store_ok c s" "import_checkpoint c conv ms s = Inr (CheckpointId i, s')"
    and "no_collision c s' {l. suffix l ms}"
  shows "(\<exists>stored. load_checkpoint_messages c (CheckpointId i) s' = Inr stored
       \<and> list_all2 (\<lambda>a b. same_content a (skip_parts b)) stored ms)
    \<and> (\<exists>r. find_checkpoint i s' = Some r \<and> cp_conversation r = conv)
    \<and> extends_db s s' \<and> (\<forall>k r. \<not> owns k r s \<or> owns k r s')"
proof -
  note sp = import_checkpoint_spec[OF assms(1-3)]
  have "load_checkpoint_messages c (CheckpointId i) s' = Inr (history c s' i)"
    using load_history[OF assms(1)] sp by (simp add: store_ok_def)
  then show ?thesis using sp assms(4) by (auto simp: owns_def)
qed

text \<open>
  C21: a digest names a history. Short of a collision, two checkpoints with the same digest, of the same
  conversation or not, hold the same messages.
\<close>
theorem digest_names_history:
  assumes "codec_ok c" "store_ok c s" "sha256_like c" "payloads_fit s" "inj_on (sha c) (digest_inputs s)"
    and "find_checkpoint i s = Some q" "find_checkpoint j s = Some r" "cp_digest q = cp_digest r"
  shows "load_checkpoint_messages c (CheckpointId i) s = load_checkpoint_messages c (CheckpointId j) s"
proof -
  have ok: "checkpoints_ok c s" "digests_ok c s" "ids_ok s" using assms(2) by (auto simp: store_ok_def checkpoints_ok_def)
  have "history_bytes s i = history_bytes s j"
    using equal_digests[OF assms(3-5) ok(2,3), of q r] assms(6-8) find_checkpoint_mem by blast
  then show ?thesis by (simp add: load_history[OF assms(1) ok(1)] history_def)
qed

text \<open>
  Prefix matching finds what is stored. The checkpoint returned holds the base's history followed by
  exactly the first additions counted, no more of them than there are.
\<close>
theorem prefix_match_is_exact:
  assumes "codec_ok c" "store_ok c s" "find_checkpoint i s = Some q" "cp_conversation q = conv"
    and "match_checkpoint_prefix c conv (CheckpointId i) ms s = Inr (CheckpointId j, n)"
    and "no_collision c s {[m] |m. m \<in> set ms}" "load_checkpoint_messages c (CheckpointId i) s = Inr old"
  shows "n \<le> length ms \<and> load_checkpoint_messages c (CheckpointId j) s = Inr (old @ map skip_parts (take n ms))"
proof -
  have ok: "checkpoints_ok c s" using assms(2) by (simp add: store_ok_def)
  have q: "q \<in> set (checkpoints_t s)" "cp_id q = i" using find_checkpoint_mem[OF assms(3)] by auto
  have "checkpoint_digest (CheckpointId i) s = Inr (cp_digest q)" using checkpoint_digest_iff assms(3) by blast
  then have m: "match_prefix_loop c conv s ms 0 (cp_id q) (cp_digest q) = (CheckpointId j, n)"
    using assms(5) q(2) by (simp add: match_checkpoint_prefix_def)
  have "n \<le> length ms \<and> history_bytes s j = history_bytes s i @ map (ser c) (take n ms)"
    using match_prefix_loop_spec[OF assms(6) ok q(1) assms(4) m] q(2) by auto
  moreover have "old = history c s i" using assms(7) load_history[OF assms(1) ok] by simp
  ultimately show ?thesis using load_history[OF assms(1) ok, of j] assms(1) by (simp add: history_def)
qed

section \<open>An example store\<close>

definition hello :: message where
  "hello = text_message ''m'' RUser OUser ''hi''"

lemma hello_simps [simp]:
  "message_id hello = ''m''" "msg_role hello = RUser" "msg_origin hello = OUser"
  "msg_content hello = Parts [PText ''hi'']" "runtime_event_id hello = None" "skip_parts hello = hello"
  by (simp_all add: hello_def text_message_def skip_parts_def)

definition imported_db :: db where
  "imported_db = \<lparr>conversations_t = [\<lparr>cv_id = ''c'', cv_current = Some 1, cv_active_run = None\<rparr>],
     checkpoints_t = [\<lparr>cp_id = 1, cp_conversation = ''c'', cp_parent = None, cp_digest = tagged_hash []\<rparr>,
       \<lparr>cp_id = 2, cp_conversation = ''c'', cp_parent = Some 1,
        cp_digest = tagged_hash (tagged_hash [] @ replicate 8 0)\<rparr>],
     next_checkpoint = 3,
     messages_t = [\<lparr>mr_conversation = ''c'', mr_id = ''m'', mr_role = RUser, mr_origin = OUser,
       mr_payload = [], mr_event = None\<rparr>],
     checkpoint_messages_t = [\<lparr>cm_checkpoint = 2, cm_ordinal = 0, cm_conversation = ''c'', cm_message = ''m''\<rparr>],
     image_blobs_t = [], runs_t = [], rounds_t = [], round_calls_t = [], llm_calls_t = [], traces_t = []\<rparr>"

lemma be64_zero: "be64 0 = replicate 8 0" by (simp add: be64_def numeral_eq_Suc)

lemma imported_db_value: "import_checkpoint (short_codec hello) ''c'' [hello] db_empty = Inr (CheckpointId 2, imported_db)"
  by (simp add: db_empty_def imported_db_def import_checkpoint_def store_eval Let_def extends_prefix_def load_checkpoint_messages_def checkpoint_rows_def lineage_def
     checkpoint_own_rows_def joined_messages_def be64_zero numeral_eq_Suc)

lemma imported_db_ok: "store_ok (short_codec hello) imported_db"
  using import_checkpoint_spec[OF short_codec_ok db_empty_ok imported_db_value] by blast

lemma imported_own_payloads: "own_payloads imported_db i = (if i = 2 then [[]] else [])"
  by (simp add: own_payloads_def imported_db_def checkpoint_own_rows_def joined_messages_def find_message_def)

lemma imported_digest_inputs: "digest_inputs imported_db \<subseteq> {[], tagged_hash [] @ replicate 8 0}"
proof -
  have "checkpoints_t imported_db = [\<lparr>cp_id = 1, cp_conversation = ''c'', cp_parent = None, cp_digest = tagged_hash []\<rparr>,
       \<lparr>cp_id = 2, cp_conversation = ''c'', cp_parent = Some 1, cp_digest = tagged_hash (tagged_hash [] @ replicate 8 0)\<rparr>]"
    by (simp add: imported_db_def)
  then show ?thesis by (auto simp: digest_inputs_def imported_own_payloads be64_zero simp del: tagged_hash.simps)
qed

lemma imported_no_collision:
  "no_collision (short_codec hello) imported_db A" if "A \<subseteq> {[], [hello]}"
proof -
  have f: "sha256_like (short_codec hello) \<and> payloads_fit imported_db"
    by (simp add: sha256_like_def payloads_fit_def imported_db_def)
  let ?d1 = "tagged_hash []" and ?d2 = "tagged_hash (tagged_hash [] @ replicate 8 0)"
  have q: "cp_digest ` set (checkpoints_t imported_db) = {?d1, ?d2}"
    by (simp add: imported_db_def del: tagged_hash.simps)
  have l: "framed (map (ser (short_codec hello)) l) \<in> {[], replicate 8 0}" if "l \<in> A" for l
    using that \<open>A \<subseteq> _\<close> by (auto simp: be64_zero)
  have "{cp_digest q @ framed (map (ser (short_codec hello)) l) | q l. q \<in> set (checkpoints_t imported_db) \<and> l \<in> A}
      \<subseteq> {?d1, ?d1 @ replicate 8 0, ?d2, ?d2 @ replicate 8 0}"
    using l q by fastforce
  moreover have "inj_on tagged_hash {[], ?d1, ?d1 @ replicate 8 0, ?d2, ?d2 @ replicate 8 0}"
    by (simp add: numeral_eq_Suc)
  ultimately have "inj_on tagged_hash (digest_inputs imported_db \<union>
     {cp_digest q @ framed (map (ser (short_codec hello)) l) | q l. q \<in> set (checkpoints_t imported_db) \<and> l \<in> A})"
    using imported_digest_inputs by (elim inj_on_subset) blast
  then show ?thesis using f that by (auto simp: no_collision_def)
qed
lemma imported_load: "load_checkpoint_messages (short_codec hello) (CheckpointId 2) imported_db = Inr [hello]"
  by (simp add: imported_db_def load_checkpoint_messages_def checkpoint_rows_def lineage_def numeral_eq_Suc find_message_def
     checkpoint_own_rows_def joined_messages_def decode_payload_def short_codec_def)

lemma imported_load_root: "load_checkpoint_messages (short_codec hello) (CheckpointId 1) imported_db = Inr []"
  by (simp add: imported_db_def load_checkpoint_messages_def checkpoint_rows_def lineage_def numeral_eq_Suc find_message_def
     checkpoint_own_rows_def joined_messages_def decode_payload_def short_codec_def)

lemma import_returns_history_witness:
  "\<exists>i s'. import_checkpoint (short_codec hello) ''c'' [hello] db_empty = Inr (CheckpointId i, s')
     \<and> (\<exists>m. load_checkpoint_messages (short_codec hello) (CheckpointId i) s' = Inr [m] \<and> same_content m hello)"
  using import_returns_history[OF short_codec_ok db_empty_ok imported_db_value imported_no_collision]
    imported_db_value by (auto simp: suffix_Cons list_all2_Cons2)

definition copied_db :: db where
  "copied_db = imported_db\<lparr>conversations_t := conversations_t imported_db @
       [\<lparr>cv_id = ''d'', cv_current = Some 3, cv_active_run = None\<rparr>],
     checkpoints_t := checkpoints_t imported_db @
       [\<lparr>cp_id = 3, cp_conversation = ''d'', cp_parent = None, cp_digest = tagged_hash []\<rparr>,
        \<lparr>cp_id = 4, cp_conversation = ''d'', cp_parent = Some 3,
         cp_digest = tagged_hash (tagged_hash [] @ replicate 8 0)\<rparr>],
     next_checkpoint := 5,
     messages_t := messages_t imported_db @ [\<lparr>mr_conversation = ''d'', mr_id = ''m'', mr_role = RUser,
       mr_origin = OUser, mr_payload = [], mr_event = None\<rparr>],
     checkpoint_messages_t := checkpoint_messages_t imported_db @
       [\<lparr>cm_checkpoint = 4, cm_ordinal = 0, cm_conversation = ''d'', cm_message = ''m''\<rparr>]\<rparr>"

lemma copied_db_value: "import_checkpoint (short_codec hello) ''d'' [hello] imported_db = Inr (CheckpointId 4, copied_db)"
  by (simp add: copied_db_def imported_db_def import_checkpoint_def store_eval Let_def extends_prefix_def
     load_checkpoint_messages_def checkpoint_rows_def lineage_def checkpoint_own_rows_def joined_messages_def
     be64_zero numeral_eq_Suc)

lemma copied_db_ok: "store_ok (short_codec hello) copied_db"
  using import_checkpoint_spec[OF short_codec_ok imported_db_ok copied_db_value] by blast

lemma copied_own_payloads: "own_payloads copied_db i = (if i = 2 \<or> i = 4 then [[]] else [])"
  by (simp add: own_payloads_def copied_db_def imported_db_def checkpoint_own_rows_def joined_messages_def find_message_def)

lemma copied_checkpoints: "checkpoints_t copied_db = [\<lparr>cp_id = 1, cp_conversation = ''c'', cp_parent = None, cp_digest = tagged_hash []\<rparr>,
       \<lparr>cp_id = 2, cp_conversation = ''c'', cp_parent = Some 1, cp_digest = tagged_hash (tagged_hash [] @ replicate 8 0)\<rparr>,
       \<lparr>cp_id = 3, cp_conversation = ''d'', cp_parent = None, cp_digest = tagged_hash []\<rparr>,
        \<lparr>cp_id = 4, cp_conversation = ''d'', cp_parent = Some 3,
         cp_digest = tagged_hash (tagged_hash [] @ replicate 8 0)\<rparr>]"
    by (simp add: imported_db_def copied_db_def)

lemma digest_names_history_witness:
  "load_checkpoint_messages (short_codec hello) (CheckpointId 2) copied_db
    = load_checkpoint_messages (short_codec hello) (CheckpointId 4) copied_db"
proof -
  have "digest_inputs copied_db \<subseteq> {[], tagged_hash [] @ replicate 8 0}"
    by (auto simp: digest_inputs_def copied_own_payloads copied_checkpoints be64_zero simp del: tagged_hash.simps)
  moreover have "inj_on tagged_hash {[], tagged_hash [] @ replicate 8 0}" by (simp add: numeral_eq_Suc)
  ultimately have inj: "inj_on (sha (short_codec hello)) (digest_inputs copied_db)" by (metis inj_on_subset short_codec_simps(1))
  have fit: "sha256_like (short_codec hello)" "payloads_fit copied_db"
    by (simp_all add: sha256_like_def payloads_fit_def copied_db_def imported_db_def)
  have "\<exists>q. find_checkpoint i copied_db = Some q \<and> cp_digest q = tagged_hash (tagged_hash [] @ replicate 8 0)"
    if "i = 2 \<or> i = 4" for i
    using that by (auto simp: find_checkpoint_def copied_checkpoints simp del: tagged_hash.simps)
  then show ?thesis using digest_names_history[OF short_codec_ok copied_db_ok fit inj] by metis
qed

lemma prefix_match_value:
  "match_checkpoint_prefix (short_codec hello) ''c'' (CheckpointId 1) [hello, hello] imported_db = Inr (CheckpointId 2, 1)"
  by (simp add: match_checkpoint_prefix_def checkpoint_digest_def find_checkpoint_def imported_db_def Let_def chained_digest_def
     update_digest_def be64_zero)

lemma prefix_match_is_exact_witness:
  "\<exists>j n. match_checkpoint_prefix (short_codec hello) ''c'' (CheckpointId 1) [hello, hello] imported_db
      = Inr (CheckpointId j, n) \<and> n = 1
     \<and> load_checkpoint_messages (short_codec hello) (CheckpointId j) imported_db = Inr [hello]"
proof -
  have "find_checkpoint 1 imported_db = Some \<lparr>cp_id = 1, cp_conversation = ''c'', cp_parent = None, cp_digest = tagged_hash []\<rparr>"
    by (simp add: find_checkpoint_def imported_db_def)
  from prefix_match_is_exact[OF short_codec_ok imported_db_ok this _ prefix_match_value _ imported_load_root]
  show ?thesis using prefix_match_value imported_no_collision[of "{[hello]}"] by simp
qed
end
