(* ===== verification/Connect.thy ===== *)
theory Connect
  imports Bytes Model
begin

text \<open>
  Connect protocol frames (src/server/src/cursor/protocol/connect.rs): a flag byte, the payload's length
  in four bytes and the payload. A protobuf message is its encoded bytes (prost), decoding and JSON
  rendering are arguments.
\<close>

definition end_stream_flag :: "8 word" where "end_stream_flag = 2"

datatype connect_code = Canceled | InvalidArgument | NotFound | Unavailable | Internal

fun connect_code_str :: "connect_code \<Rightarrow> string" where
  "connect_code_str Canceled = ''canceled''"
| "connect_code_str InvalidArgument = ''invalid_argument''"
| "connect_code_str NotFound = ''not_found''"
| "connect_code_str Unavailable = ''unavailable''"
| "connect_code_str Internal = ''internal''"

record connect_error_detail =
  detail_type :: string
  detail_value :: string

record connect_stream_error =
  ce_code :: connect_code
  ce_message :: string
  ce_details :: "connect_error_detail list"

definition detail_json :: "connect_error_detail \<Rightarrow> json" where
  "detail_json d = JObj [(''type'', JStr (detail_type d)), (''value'', JStr (detail_value d))]"

text \<open>The serialized error: empty messages and details are left out.\<close>

definition end_stream_json :: "connect_stream_error \<Rightarrow> json" where
  "end_stream_json e =
     JObj [(''error'', JObj
       ([(''code'', JStr (connect_code_str (ce_code e)))]
        @ (if ce_message e = [] then [] else [(''message'', JStr (ce_message e))])
        @ (if ce_details e = [] then [] else [(''details'', JArr (map detail_json (ce_details e)))])))]"

definition frame_bytes :: "8 word \<times> bytes \<Rightarrow> bytes" where
  "frame_bytes f = fst f # be32 (length (snd f)) @ snd f"

definition encode_message :: "bytes \<Rightarrow> bytes" where
  "encode_message message = frame_bytes (0, message)"

definition encode_end_stream_payload :: "bytes \<Rightarrow> bytes" where
  "encode_end_stream_payload payload = frame_bytes (end_stream_flag, payload)"

definition encode_end_stream :: bytes where
  "encode_end_stream = encode_end_stream_payload [0x7b, 0x7d]"

definition encode_error_end_stream :: "(json \<Rightarrow> bytes) \<Rightarrow> connect_stream_error \<Rightarrow> bytes" where
  "encode_error_end_stream to_vec e = encode_end_stream_payload (to_vec (end_stream_json e))"

definition declared_length :: "bytes \<Rightarrow> nat" where
  "declared_length body = read_be32 (take 4 (drop 1 body))"

definition decode_unary :: "(bytes \<Rightarrow> 'm result) \<Rightarrow> bytes \<Rightarrow> 'm result" where
  "decode_unary decode body =
     (if 5 \<le> length body \<and> (body ! 0) AND end_stream_flag = 0 \<and> declared_length body = length body - 5
      then decode (drop 5 body) else decode body)"

text \<open>One turn of the loop of \<open>decode_frames\<close>: the frame and what is left of the body.\<close>

definition decode_frame :: "bytes \<Rightarrow> ((8 word \<times> bytes) \<times> bytes) result" where
  "decode_frame body =
     (if length body < 5 then Inl (Protocol ''truncated Connect envelope'')
      else
        (let flags = body ! 0; n = declared_length body; rest = drop 5 body
         in if length rest < n then Inl (Protocol ''truncated Connect payload'')
            else Inr ((flags, take n rest), drop n rest)))"

function decode_frames :: "bytes \<Rightarrow> (8 word \<times> bytes) list result" where
  "decode_frames body =
     (if body = [] then Inr []
      else rbind (decode_frame body) (\<lambda>(f, rest). rbind (decode_frames rest) (\<lambda>fs. Inr (f # fs))))"
  by pat_completeness auto

lemma decode_frame_shrinks: "decode_frame body = Inr (f, rest) \<Longrightarrow> length rest < length body"
  by (auto simp: decode_frame_def Let_def split: if_splits)

termination decode_frames
  by (relation "measure length") (auto dest: decode_frame_shrinks)

declare decode_frames.simps [simp del]


section \<open>Frames and bodies\<close>

definition frame_fits :: "8 word \<times> bytes \<Rightarrow> bool" where
  "frame_fits f \<longleftrightarrow> length (snd f) \<le> u32_max"

lemma declared_length_frame [simp]:
  "frame_fits f \<Longrightarrow> declared_length (frame_bytes f @ q) = length (snd f)"
  by (simp add: declared_length_def frame_bytes_def frame_fits_def read_be32_be32)

interpretation frames: exact_codec frame_bytes frame_fits decode_frame "\<lambda>b. b" "\<lambda>_. True" decode_frames
proof
  fix s :: bytes
  show "decode_frames s = (if s = [] then Inr [] else rbind (decode_frame s) (\<lambda>(x, s').
      rbind (decode_frames s') (\<lambda>xs. Inr (x # xs))))"
    by (rule decode_frames.simps)
next
  fix x :: "8 word \<times> bytes"
  show "frame_bytes x \<noteq> []" by (simp add: frame_bytes_def)
next
  fix s q :: bytes and x :: "8 word \<times> bytes"
  assume x: "frame_fits x" and s: "s = frame_bytes x @ q"
  have "declared_length s = length (snd x)" using x s by simp
  moreover have "drop 5 s = snd x @ q" "5 \<le> length s" "s ! 0 = fst x"
    using s by (simp_all add: frame_bytes_def)
  ultimately show "\<exists>s'. decode_frame s = Inr (x, s') \<and> s' = q \<and> True"
    by (simp add: decode_frame_def Let_def)
next
  fix s s' :: bytes and x :: "8 word \<times> bytes"
  assume d: "decode_frame s = Inr (x, s')"
  then have l: "5 \<le> length s" "declared_length s \<le> length (drop 5 s)"
      "x = (s ! 0, take (declared_length s) (drop 5 s))" "s' = drop (declared_length s) (drop 5 s)"
    by (auto simp: decode_frame_def Let_def split: if_splits)
  have "be32 (declared_length s) = take 4 (drop 1 s)"
    unfolding declared_length_def using l(1) by (intro be32_read_be32) simp
  moreover have "s = (s ! 0) # take 4 (drop 1 s) @ drop 5 s"
  proof -
    have "s = (s ! 0) # drop 1 s" using l(1) by (cases s) auto
    moreover have "drop 5 s = drop 4 (drop 1 s)" by simp
    ultimately show ?thesis by (metis append_take_drop_id)
  qed
  moreover have "frame_bytes x = (s ! 0) # be32 (declared_length s) @ take (declared_length s) (drop 5 s)"
    using l(2,3) by (simp add: frame_bytes_def min_def)
  moreover have "drop 5 s = take (declared_length s) (drop 5 s) @ s'" using l(4) by (metis append_take_drop_id)
  ultimately have "s = frame_bytes x @ s'" by simp
  moreover have "frame_fits x"
    using l(2,3) read_be32_le[of "take 4 (drop 1 s)"] by (simp add: frame_fits_def declared_length_def)
  ultimately show "frame_fits x \<and> True \<and> s = frame_bytes x @ s'" by simp
qed

text \<open>
  C37: frames are decoded exactly. A body decodes to a list of frames precisely when it is the
  concatenation of their encodings and every payload's length fits its four bytes; anything else,
  trailing or truncated bytes included, is an error.
\<close>
theorem frames_decode_exactly:
  "decode_frames body = Inr fs \<longleftrightarrow> list_all (\<lambda>f. length (snd f) \<le> u32_max) fs \<and> body = concat (map frame_bytes fs)"
  using frames.loop_exact[of body fs] by (auto simp: list_all_iff frame_fits_def)

text \<open>A unary body is read through its envelope.\<close>

lemma unary_envelope: "length p \<le> u32_max \<Longrightarrow> decode_unary decode (encode_message p) = decode p"
  using declared_length_frame[of "(0, p)" "[]"]
  by (simp add: decode_unary_def encode_message_def frame_fits_def frame_bytes_def end_stream_flag_def)

end
