(* ===== verification/Wire.thy ===== *)
theory Wire
  imports Bytes Text
begin

text \<open>
  The Devin wire format (src/server/src/devin/wire.rs): protobuf fields, Connect envelopes, gzip. A usize
  has 64 bits, so that conversions from u64 cannot fail. The gzip streams are arguments: \<open>inflate n b\<close> is
  what reading at most n bytes of the decompressed b gives, \<open>deflate b\<close> the compressed bytes.
\<close>

definition max_body_size :: nat where "max_body_size = 24 * 1024 * 1024"
definition usize_max :: nat where "usize_max = 2 ^ 64 - 1"

section \<open>Varints\<close>

lemma unat_drop_7: "unat (drop_bit 7 (v :: 64 word)) = unat v div 128"
  using unat_drop_bit_eq[of 7 v] by (simp add: drop_bit_eq_div)

function encode_varint :: "64 word \<Rightarrow> bytes" where
  "encode_varint v =
     (if 0x80 \<le> v then ((ucast v AND 0x7f) OR 0x80) # encode_varint (drop_bit 7 v) else [ucast v])"
  by pat_completeness auto
termination encode_varint
proof (relation "measure unat")
  fix v :: "64 word"
  assume "0x80 \<le> v"
  then have "128 \<le> unat v" by (simp add: word_le_nat_alt)
  then show "(drop_bit 7 v, v) \<in> measure unat" by (simp add: unat_drop_7)
qed simp

declare encode_varint.simps [simp del]

text \<open>The loop of \<open>decode_varint\<close>, n turns of the ten left, v what was read so far.\<close>

fun varint_loop :: "nat \<Rightarrow> bytes \<Rightarrow> nat \<Rightarrow> 64 word \<Rightarrow> (64 word \<times> nat) result" where
  "varint_loop 0 p off v = Inl (Protocol ''unterminated Devin protobuf varint'')"
| "varint_loop (Suc n) p off v =
     (let index = 9 - n
      in if length p \<le> off then Inl (Protocol ''truncated Devin protobuf varint'')
         else
           (let byte = p ! off
            in if index = 9 \<and> byte > 1 then Inl (Protocol ''Devin protobuf varint overflow'')
               else
                 (let v' = v OR push_bit (index * 7) (ucast (byte AND 0x7f))
                  in if byte AND 0x80 = 0 then Inr (v', off + 1) else varint_loop n p (off + 1) v')))"

lemmas varint_loop_numeral = varint_loop.simps(2)[of "pred_numeral k" for k, unfolded numeral_eq_Suc[symmetric]]

definition decode_varint :: "bytes \<Rightarrow> nat \<Rightarrow> (64 word \<times> nat) result" where
  "decode_varint p off = varint_loop 10 p off 0"


section \<open>Fields\<close>

datatype field_value = FVarint "64 word" | FFixed64 bytes | FBytes bytes | FFixed32 bytes

record field =
  field_number :: "32 word"
  field_value :: field_value

definition read_array :: "nat \<Rightarrow> bytes \<Rightarrow> nat \<Rightarrow> (bytes \<times> nat) result" where
  "read_array n p off =
     (if off + n > usize_max then Inl (Protocol ''Devin protobuf offset overflow'')
      else if off + n > length p then Inl (Protocol ''truncated Devin protobuf fixed field'')
      else Inr (take n (drop off p), off + n))"

text \<open>The match on the wire type: a value and the offset behind it.\<close>

definition parse_value :: "64 word \<Rightarrow> bytes \<Rightarrow> nat \<Rightarrow> (field_value \<times> nat) result" where
  "parse_value wt p off =
     (if wt = 0 then rbind (decode_varint p off) (\<lambda>(v, o2). Inr (FVarint v, o2))
      else if wt = 1 then rbind (read_array 8 p off) (\<lambda>(v, o2). Inr (FFixed64 v, o2))
      else if wt = 2 then
        rbind (decode_varint p off) (\<lambda>(len, o2).
          if o2 + unat len > usize_max then Inl (Protocol ''Devin protobuf length arithmetic overflow'')
          else if o2 + unat len > length p then Inl (Protocol ''truncated Devin protobuf bytes field'')
          else Inr (FBytes (take (unat len) (drop o2 p)), o2 + unat len))
      else if wt = 5 then rbind (read_array 4 p off) (\<lambda>(v, o2). Inr (FFixed32 v, o2))
      else Inl (Protocol (''unsupported Devin protobuf wire type '' @ show_nat (unat wt))))"

text \<open>One turn of the loop of \<open>parse_fields\<close>: the field at the offset and the offset behind it.\<close>

definition parse_field :: "bytes \<Rightarrow> nat \<Rightarrow> (field \<times> nat) result" where
  "parse_field p off =
     rbind (decode_varint p off) (\<lambda>(head, o1).
       if unat (drop_bit 3 head) > u32_max then Inl (Protocol ''Devin protobuf field number overflow'')
       else
         (let number = ucast (drop_bit 3 head)
          in if number = 0 then Inl (Protocol ''Devin protobuf field number is zero'')
             else rbind (parse_value (head AND 7) p o1) (\<lambda>(v, o2).
               Inr (\<lparr>field_number = number, field_value = v\<rparr>, o2))))"

lemma varint_loop_advances:
  "varint_loop n p off v = Inr (x, off') \<Longrightarrow> off < off' \<and> off' \<le> length p \<and> off' \<le> off + n"
  by (induction n p off v rule: varint_loop.induct) (fastforce simp: Let_def split: if_splits)+

lemma decode_varint_advances: "decode_varint p off = Inr (x, off') \<Longrightarrow> off < off' \<and> off' \<le> length p"
  using varint_loop_advances by (fastforce simp: decode_varint_def)

lemma read_array_advances: "read_array n p off = Inr (x, off') \<Longrightarrow> off' = off + n \<and> off' \<le> length p \<and> x = take n (drop off p)"
  by (auto simp: read_array_def split: if_splits)

lemma parse_value_advances: "parse_value wt p off = Inr (v, off') \<Longrightarrow> off \<le> off' \<and> off' \<le> length p"
  by (auto simp: parse_value_def dest!: decode_varint_advances read_array_advances split: if_splits)

lemma parse_field_advances: "parse_field p off = Inr (f, off') \<Longrightarrow> off < off' \<and> off' \<le> length p"
  by (auto simp: parse_field_def Let_def dest!: decode_varint_advances parse_value_advances split: if_splits)

function parse_loop :: "bytes \<Rightarrow> nat \<Rightarrow> field list result" where
  "parse_loop p off =
     (if length p \<le> off then Inr []
      else rbind (parse_field p off) (\<lambda>(f, off'). rbind (parse_loop p off') (\<lambda>fs. Inr (f # fs))))"
  by pat_completeness auto
termination parse_loop
  by (relation "measure (\<lambda>(p, off). length p - off)") (auto dest: parse_field_advances)

declare parse_loop.simps [simp del]

definition parse_fields :: "bytes \<Rightarrow> field list result" where
  "parse_fields payload = parse_loop payload 0"

fun wire_type :: "field_value \<Rightarrow> 64 word" where
  "wire_type (FVarint _) = 0"
| "wire_type (FFixed64 _) = 1"
| "wire_type (FBytes _) = 2"
| "wire_type (FFixed32 _) = 5"

fun encode_value :: "field_value \<Rightarrow> bytes" where
  "encode_value (FVarint v) = encode_varint v"
| "encode_value (FFixed64 b) = b"
| "encode_value (FBytes b) = encode_varint (word_of_nat (length b)) @ b"
| "encode_value (FFixed32 b) = b"

definition encode_field :: "field \<Rightarrow> bytes" where
  "encode_field f =
     encode_varint (push_bit 3 (ucast (field_number f)) OR wire_type (field_value f)) @ encode_value (field_value f)"

fun serialize_fields :: "field list \<Rightarrow> bytes result" where
  "serialize_fields [] = Inr []"
| "serialize_fields (f # fs) =
     (if field_number f = 0 then Inl (Protocol ''Devin protobuf field number is zero'')
      else rbind (serialize_fields fs) (\<lambda>out. Inr (encode_field f @ out)))"

definition first_field :: "field list \<Rightarrow> 32 word \<Rightarrow> field option" where
  "first_field fs n = find (\<lambda>f. field_number f = n) fs"

definition all_fields :: "field list \<Rightarrow> 32 word \<Rightarrow> field list" where
  "all_fields fs n = filter (\<lambda>f. field_number f = n) fs"


section \<open>Varints read back\<close>

lemma byte_masks:
  "(0x7f :: 8 word) = mask 7" "(0x80 :: 8 word) = push_bit 7 1" "(0x7f :: 64 word) = mask 7"
  "(0x80 :: 64 word) = push_bit 7 1" "(7 :: 64 word) = mask 3"
  by (simp_all add: mask_eq_exp_minus_1)

lemma bit_0x80 [simp]: "bit (0x80 :: 8 word) n \<longleftrightarrow> n = 7"
  using bit_exp_iff[of 7 n, where 'a="8 word"] by auto

lemma bit_0x80_int [simp]: "bit (0x80 :: int) n \<longleftrightarrow> n = 7"
  using bit_exp_iff[of 7 n, where 'a=int] by auto

lemma low_bits: "unat (v :: 64 word) < 2 ^ k \<Longrightarrow> bit v n \<Longrightarrow> n < k"
proof -
  assume "unat v < 2 ^ k" "bit v n"
  then have "take_bit k v = v" by (simp add: word_unat_eq_iff unsigned_take_bit_eq take_bit_nat_eq_self)
  then show "n < k" using \<open>bit v n\<close> by (metis bit_take_bit_iff)
qed

lemma varint_byte_bits:
  "((ucast v AND 0x7f) OR 0x80 :: 8 word) AND 0x80 \<noteq> 0"
  "(ucast (((ucast v AND 0x7f) OR 0x80 :: 8 word) AND 0x7f) :: 64 word) = (v :: 64 word) AND 0x7f"
proof -
  have "bit (((ucast v AND 0x7f) OR 0x80 :: 8 word) AND 0x80) 7" by (simp add: bit_simps)
  then show "((ucast v AND 0x7f) OR 0x80 :: 8 word) AND 0x80 \<noteq> 0" by auto
  show "(ucast (((ucast v AND 0x7f) OR 0x80 :: 8 word) AND 0x7f) :: 64 word) = (v :: 64 word) AND 0x7f"
    unfolding byte_masks(1,3) by (rule bit_word_eqI) (auto simp: bit_simps)
qed

lemma varint_small_bits:
  assumes "\<not> 0x80 \<le> (v :: 64 word)"
  shows "(ucast v :: 8 word) AND 0x80 = 0" "(ucast ((ucast v :: 8 word) AND 0x7f) :: 64 word) = v"
proof -
  have "unat v < 2 ^ 7" using assms by (simp add: word_le_nat_alt)
  then have "bit v n \<Longrightarrow> n < 7" for n using low_bits by blast
  then have b: "bit v n \<Longrightarrow> n < 8 \<and> n < 7" for n by force
  show "(ucast v :: 8 word) AND 0x80 = 0"
    by (rule bit_word_eqI) (use b in \<open>auto simp: bit_simps\<close>)
  show "(ucast ((ucast v :: 8 word) AND 0x7f) :: 64 word) = v"
    unfolding byte_masks(1) by (rule bit_word_eqI) (use b in \<open>auto simp: bit_simps\<close>)
qed

lemma drop_eq_Cons: "drop n xs = y # ys \<Longrightarrow> n < length xs \<and> xs ! n = y \<and> drop (Suc n) xs = ys"
  by (metis Cons_nth_drop_Suc drop_all linorder_not_le list.distinct(1) list.inject)

lemma drop_varint_rest: "drop off p = a # w @ q \<Longrightarrow> drop (Suc off) p = w @ q"
  by (simp add: drop_eq_Cons)

lemma split_low_bits:
  "push_bit i (v AND 0x7f) OR push_bit (i + 7) (drop_bit 7 v) = push_bit i (v :: 64 word)"
proof (rule bit_word_eqI)
  fix n assume "n < LENGTH(64)"
  moreover have "7 + (n - (i + 7)) = n - i" if "\<not> n - i < 7" using that by simp
  ultimately show "bit (push_bit i (v AND 0x7f) OR push_bit (i + 7) (drop_bit 7 v)) n \<longleftrightarrow> bit (push_bit i v) n"
    unfolding byte_masks(3) by (cases "n - i < 7") (auto simp: bit_simps)
qed

lemma varint_loop_encode:
  assumes "drop off p = encode_varint w @ q" "index \<le> 9" "unat w < 2 ^ (64 - 7 * index)"
  shows "varint_loop (10 - index) p off v = Inr (v OR push_bit (7 * index) w, off + length (encode_varint w))"
  using assms
proof (induction w arbitrary: off v index rule: encode_varint.induct)
  case (1 w)
  have n: "10 - index = Suc (9 - index)" "9 - (9 - index) = index" using 1(3) by auto
  show ?case
  proof (cases "0x80 \<le> w")
    case big: True
    then have e: "encode_varint w = ((ucast w AND 0x7f) OR 0x80) # encode_varint (drop_bit 7 w)"
      by (simp add: encode_varint.simps[of w])
    then have p: "off < length p" "p ! off = (ucast w AND 0x7f) OR 0x80" "drop (Suc off) p = encode_varint (drop_bit 7 w) @ q"
      using drop_eq_Cons[of off p] 1(2) by auto
    have w: "128 \<le> unat w" using big by (simp add: word_le_nat_alt)
    have "7 * index < 57"
    proof (rule ccontr)
      assume "\<not> 7 * index < 57"
      then have "(2::nat) ^ (64 - 7 * index) \<le> 2 ^ 7" by (intro power_increasing) auto
      then show False using w 1(4) by simp
    qed
    then have i: "Suc index \<le> 9" "64 - 7 * index = 7 + (64 - 7 * Suc index)" by auto
    have "unat (drop_bit 7 w) < 2 ^ (64 - 7 * Suc index)"
      using 1(4) unfolding unat_drop_7 i(2) power_add by (simp add: less_mult_imp_div_less mult.commute)
    then have "varint_loop (10 - Suc index) p (Suc off) (v OR push_bit (7 * index) (w AND 0x7f))
        = Inr ((v OR push_bit (7 * index) (w AND 0x7f)) OR push_bit (7 * Suc index) (drop_bit 7 w),
               Suc off + length (encode_varint (drop_bit 7 w)))"
      by (rule 1(1)[OF big p(3) i(1)])
    moreover have "push_bit (7 * index) (w AND 0x7f) OR push_bit (7 * Suc index) (drop_bit 7 w) = push_bit (7 * index) w"
      using split_low_bits[of "7 * index" w] by (simp add: add.commute)
    ultimately show ?thesis
      unfolding n(1) using p(1) i(1) n(2) e
      by (simp add: p(2) varint_byte_bits mult.commute or.assoc Let_def)
  next
    case small: False
    then have e: "encode_varint w = [ucast w]" by (simp add: encode_varint.simps[of w])
    then have p: "off < length p" "p ! off = ucast w" using drop_eq_Cons[of off p] 1(2) by auto
    have "\<not> (ucast w :: 8 word) > 1" if "index = 9"
      using 1(4) that by (simp add: word_less_nat_alt unsigned_ucast_eq take_bit_eq_mod)
    then show ?thesis
      unfolding n(1) using p(1) n(2) e by (simp add: p(2) varint_small_bits[OF small] mult.commute Let_def)
  qed
qed

lemma decode_encode_varint:
  "drop off p = encode_varint w @ q \<Longrightarrow> decode_varint p off = Inr (w, off + length (encode_varint w))"
  using varint_loop_encode[of off p w q 0 0] unsigned_less[of w] by (simp add: decode_varint_def)


text \<open>What a varint holds is bounded by the bytes it took, so its shortest encoding is no longer than it was.\<close>

lemma varint_loop_bits:
  "varint_loop n p off v = Inr (x, off') \<Longrightarrow> n \<le> 10 \<Longrightarrow> bit x j \<Longrightarrow>
     bit v j \<or> j < (10 - n) * 7 + 7 * (off' - off)"
proof (induction n p off v rule: varint_loop.induct)
  case (2 n p off v)
  let ?b = "p ! off" let ?v = "v OR push_bit ((9 - n) * 7) (ucast (?b AND 0x7f))"
  have new: "bit ?v j \<Longrightarrow> bit v j \<or> j < (9 - n) * 7 + 7"
    unfolding byte_masks(1) by (auto simp: bit_simps)
  have off: "off < length p" and ok: "\<not> (9 - n = 9 \<and> ?b > 1)"
    using 2(2) by (auto simp: Let_def split: if_splits)
  show ?case
  proof (cases "?b AND 0x80 = 0")
    case True
    then have "x = ?v" "off' = Suc off" using 2(2) off ok by (auto simp: Let_def)
    then show ?thesis using new 2(3,4) by auto
  next
    case False
    then have r: "varint_loop n p (off + 1) ?v = Inr (x, off')" using 2(2) off ok by (auto simp: Let_def)
    then have "bit ?v j \<or> j < (10 - n) * 7 + 7 * (off' - (off + 1))"
      using 2(1)[OF refl _ refl ok refl False] off 2(3,4) by auto
    moreover have "off + 1 < off'" using varint_loop_advances[OF r] by simp
    ultimately show ?thesis using new 2(3) by auto
  qed
qed simp

lemma encode_varint_length: "unat w < 2 ^ (7 * k) \<Longrightarrow> 0 < k \<Longrightarrow> length (encode_varint w) \<le> k"
proof (induction w arbitrary: k rule: encode_varint.induct)
  case (1 w)
  show ?case
  proof (cases "0x80 \<le> w")
    case True
    then have "128 \<le> unat w" by (simp add: word_le_nat_alt)
    then obtain k' where k: "k = Suc k'" "0 < k'" using 1(2,3) by (cases k; cases "k - 1") auto
    then have "unat (drop_bit 7 w) < 2 ^ (7 * k')"
      using 1(2) by (simp add: unat_drop_7 less_mult_imp_div_less power_add mult.commute)
    then show ?thesis using 1(1)[OF True _ k(2)] k True by (simp add: encode_varint.simps[of w])
  qed (use 1(3) in \<open>simp add: encode_varint.simps[of w]\<close>)
qed

lemma bits_below: "(\<And>j. bit (x :: 64 word) j \<Longrightarrow> j < k) \<Longrightarrow> unat x < 2 ^ k"
proof -
  assume "\<And>j. bit x j \<Longrightarrow> j < k"
  then have "take_bit k x = x" by (intro bit_word_eqI) (auto simp: bit_simps)
  then have "take_bit k (unat x) = unat x" by (metis unsigned_take_bit_eq)
  then show ?thesis by (metis take_bit_nat_less_exp)
qed

lemma decode_varint_sized:
  assumes "decode_varint p off = Inr (x, off')"
  shows "length (encode_varint x) \<le> off' - off"
proof -
  have "bit x j \<Longrightarrow> j < 7 * (off' - off)" for j
    using varint_loop_bits[OF assms[unfolded decode_varint_def], of j] by simp
  then show ?thesis using encode_varint_length[OF bits_below] decode_varint_advances[OF assms] by simp
qed


section \<open>Fields read back\<close>

fun value_ok :: "field_value \<Rightarrow> bool" where
  "value_ok (FVarint _) \<longleftrightarrow> True"
| "value_ok (FFixed64 b) \<longleftrightarrow> length b = 8"
| "value_ok (FBytes b) \<longleftrightarrow> length b \<le> usize_max"
| "value_ok (FFixed32 b) \<longleftrightarrow> length b = 4"

definition field_ok :: "field \<Rightarrow> bool" where
  "field_ok f \<longleftrightarrow> field_number f \<noteq> 0 \<and> value_ok (field_value f)"

definition header :: "field \<Rightarrow> 64 word" where
  "header f = push_bit 3 (ucast (field_number f)) OR wire_type (field_value f)"

lemma wire_type_bits: "wire_type v AND 7 = wire_type v" "drop_bit 3 (wire_type v) = 0"
  by (cases v; simp)+

lemma header_parts:
  "drop_bit 3 (header f) = ucast (field_number f)" "header f AND 7 = wire_type (field_value f)"
proof -
  show "drop_bit 3 (header f) = ucast (field_number f)"
    unfolding header_def drop_bit_or wire_type_bits(2)
    by (rule bit_word_eqI) (auto simp: bit_simps dest: bit_imp_le_length)
  have "push_bit 3 (ucast (field_number f) :: 64 word) AND 7 = 0"
    unfolding byte_masks(5) by (rule bit_word_eqI) (auto simp: bit_simps)
  then show "header f AND 7 = wire_type (field_value f)"
    by (simp add: header_def bit.conj_disj_distrib2 wire_type_bits(1))
qed

lemma number_fits: "\<not> u32_max < unat (ucast (n :: 32 word) :: 64 word)" "ucast (ucast n :: 64 word) = n"
proof -
  have "unat n < 2 ^ 32" using unsigned_less[of n] by simp
  then show "\<not> u32_max < unat (ucast n :: 64 word)"
    by (simp add: unsigned_ucast_eq u32_max_def take_bit_nat_eq_self)
  show "ucast (ucast n :: 64 word) = n" by (rule bit_word_eqI) (auto simp: bit_simps)
qed

lemma drop_append_next: "drop off p = a @ b \<Longrightarrow> drop (off + length a) p = b \<and> off + length a \<le> max off (length p)"
proof -
  assume a: "drop off p = a @ b"
  have "drop (off + length a) p = drop (length a) (drop off p)" by (simp add: add.commute)
  moreover have "length p - off = length a + length b" using arg_cong[OF a, of length] by simp
  ultimately show ?thesis using a by simp
qed

lemma read_array_append:
  "drop off p = b @ q \<Longrightarrow> off \<le> length p \<Longrightarrow> length p \<le> usize_max \<Longrightarrow> length b = n \<Longrightarrow>
   read_array n p off = Inr (b, off + n)"
  using drop_append_next[of off p b q] by (auto simp: read_array_def)

lemma parse_encode_value:
  assumes f: "value_ok v" and p: "drop off p = encode_value v @ q" "off \<le> length p" "length p \<le> usize_max"
  shows "parse_value (wire_type v) p off = Inr (v, off + length (encode_value v))"
proof (cases v)
  case (FVarint w)
  then show ?thesis using decode_encode_varint[of off p w q] p(1) by (simp add: parse_value_def)
next
  case (FFixed64 b)
  then show ?thesis using read_array_append[OF _ p(2,3), of b q 8] p(1) f by (simp add: parse_value_def)
next
  case (FBytes b)
  let ?l = "encode_varint (word_of_nat (length b))"
  have l: "unat (word_of_nat (length b) :: 64 word) = length b"
    using f FBytes by (simp add: usize_max_def unat_of_nat)
  have r: "drop off p = ?l @ b @ q" using p(1) FBytes by simp
  have "drop (off + length ?l) p = b @ q" "off + length ?l + length b \<le> length p"
    using drop_append_next[OF r] p(2) drop_append_next[of "off + length ?l" p b q] by simp_all
  then show ?thesis
    using decode_encode_varint[OF r] p(3) FBytes by (simp add: parse_value_def l)
next
  case (FFixed32 b)
  then show ?thesis using read_array_append[OF _ p(2,3), of b q 4] p(1) f by (simp add: parse_value_def)
qed

lemma parse_encode_field:
  assumes f: "field_ok f" and p: "drop off p = encode_field f @ q" "off \<le> length p" "length p \<le> usize_max"
  shows "parse_field p off = Inr (f, off + length (encode_field f))"
proof -
  let ?v = "field_value f" let ?h = "encode_varint (header f)"
  have e: "encode_field f = ?h @ encode_value ?v" by (simp add: encode_field_def header_def)
  have h: "decode_varint p off = Inr (header f, off + length ?h)"
    using p(1) e by (intro decode_encode_varint) simp
  have "drop (off + length ?h) p = encode_value ?v @ q" "off + length ?h \<le> length p"
    using drop_append_next[of off p ?h "encode_value ?v @ q"] p e by simp_all
  then have "parse_value (wire_type ?v) p (off + length ?h) = Inr (?v, off + length ?h + length (encode_value ?v))"
    using f p(3) by (intro parse_encode_value) (simp_all add: field_ok_def)
  then show ?thesis
    using f number_fits by (simp add: parse_field_def h Let_def header_parts field_ok_def e add.assoc)
qed

lemma header_of:
  assumes "\<not> u32_max < unat (drop_bit 3 (h :: 64 word))"
  shows "push_bit 3 (ucast (ucast (drop_bit 3 h) :: 32 word)) OR (h AND 7) = h"
proof -
  have "unat (drop_bit 3 h) < 2 ^ 32" using assms by (simp add: u32_max_def)
  then have b: "bit h (n + 3) \<Longrightarrow> n < 32" for n
    using low_bits[of "drop_bit 3 h" 32 n] by (simp add: bit_simps add.commute)
  show ?thesis
  proof (rule bit_word_eqI)
    fix n
    show "bit (push_bit 3 (ucast (ucast (drop_bit 3 h) :: 32 word)) OR (h AND 7)) n \<longleftrightarrow> bit h n" if "n < LENGTH(64)"
      unfolding byte_masks(5) using b[of "n - 3"] that by (cases "n < 3") (auto simp: bit_simps)
  qed
qed

lemma parse_value_sized:
  assumes "parse_value wt p off = Inr (v, off')" "length p \<le> usize_max"
  shows "wire_type v = wt \<and> value_ok v \<and> length (encode_value v) + off \<le> off'"
proof -
  consider w o2 where "wt = 0" "decode_varint p off = Inr (w, o2)" "v = FVarint w" "off' = o2"
    | b where "wt = 1" "read_array 8 p off = Inr (b, off')" "v = FFixed64 b"
    | w o2 where "wt = 2" "decode_varint p off = Inr (w, o2)" "o2 + unat w \<le> length p"
        "v = FBytes (take (unat w) (drop o2 p))" "off' = o2 + unat w"
    | b where "wt = 5" "read_array 4 p off = Inr (b, off')" "v = FFixed32 b"
    using assms(1) by (auto simp: parse_value_def split: if_splits)
  then show ?thesis
  proof cases
    case 1
    then show ?thesis using decode_varint_sized[OF 1(2)] decode_varint_advances[OF 1(2)] by auto
  next
    case 3
    then obtain b where b: "v = FBytes b" "length b = unat w" by simp
    then show ?thesis
      using 3 decode_varint_sized[OF 3(2)] decode_varint_advances[OF 3(2)] assms(2) by auto
  qed (use read_array_advances in \<open>fastforce+\<close>)
qed

lemma parse_field_sized:
  assumes "parse_field p off = Inr (f, off')" "length p \<le> usize_max"
  shows "field_ok f \<and> length (encode_field f) \<le> off' - off"
proof -
  obtain h o1 where h: "decode_varint p off = Inr (h, o1)" "\<not> u32_max < unat (drop_bit 3 h)"
      "field_number f \<noteq> 0" "field_number f = ucast (drop_bit 3 h)"
    and v: "parse_value (h AND 7) p o1 = Inr (field_value f, off')"
    using assms(1) by (auto simp: parse_field_def Let_def split: if_splits)
  note s = parse_value_sized[OF v assms(2)]
  have "header f = h" using s h(4) header_of[OF h(2)] by (simp add: header_def)
  then have "length (encode_field f) = length (encode_varint h) + length (encode_value (field_value f))"
    by (simp add: encode_field_def header_def)
  then show ?thesis
    using s decode_varint_sized[OF h(1)] decode_varint_advances[OF h(1)] h(3) by (auto simp: field_ok_def)
qed

interpretation fields: sized_codec encode_field field_ok
  "\<lambda>(p, off). rbind (parse_field p off) (\<lambda>(f, off'). Inr (f, p, off'))" "\<lambda>(p, off). drop off p"
  "\<lambda>(p, off). off \<le> length p \<and> length p \<le> usize_max" "\<lambda>(p, off). parse_loop p off"
proof
  fix s :: "bytes \<times> nat"
  show "(case s of (p, off) \<Rightarrow> parse_loop p off) =
      (if (case s of (p, off) \<Rightarrow> drop off p) = [] then Inr []
       else rbind (case s of (p, off) \<Rightarrow> rbind (parse_field p off) (\<lambda>(f, off'). Inr (f, p, off'))) (\<lambda>(x, s').
         rbind (case s' of (p, off) \<Rightarrow> parse_loop p off) (\<lambda>xs. Inr (x # xs))))"
    by (cases s; cases "parse_field (fst s) (snd s)") (auto simp: parse_loop.simps)
next
  fix x assume "field_ok x"
  show "encode_field x \<noteq> []" by (simp add: encode_field_def encode_varint.simps)
next
  fix s :: "bytes \<times> nat" and x q
  assume "case s of (p, off) \<Rightarrow> off \<le> length p \<and> length p \<le> usize_max" "field_ok x"
    "(case s of (p, off) \<Rightarrow> drop off p) = encode_field x @ q"
  then show "\<exists>s'. (case s of (p, off) \<Rightarrow> rbind (parse_field p off) (\<lambda>(f, off'). Inr (f, p, off'))) = Inr (x, s')
      \<and> (case s' of (p, off) \<Rightarrow> drop off p) = q \<and> (case s' of (p, off) \<Rightarrow> off \<le> length p \<and> length p \<le> usize_max)"
    using parse_encode_field[of x "snd s" "fst s" q] drop_append_next[of "snd s" "fst s" "encode_field x" q]
    by (cases s) auto
next
  fix s s' :: "bytes \<times> nat" and x
  assume "case s of (p, off) \<Rightarrow> off \<le> length p \<and> length p \<le> usize_max"
    "(case s of (p, off) \<Rightarrow> rbind (parse_field p off) (\<lambda>(f, off'). Inr (f, p, off'))) = Inr (x, s')"
  then show "field_ok x \<and> (case s' of (p, off) \<Rightarrow> off \<le> length p \<and> length p \<le> usize_max)
      \<and> length (encode_field x) + length (case s' of (p, off) \<Rightarrow> drop off p) \<le> length (case s of (p, off) \<Rightarrow> drop off p)"
    using parse_field_sized[of "fst s" "snd s" x "snd s'"] parse_field_advances[of "fst s" "snd s" x "snd s'"]
    by (cases s) auto
qed

lemma serialize_fields_iff:
  "serialize_fields fs = Inr out \<longleftrightarrow> (\<forall>f\<in>set fs. field_number f \<noteq> 0) \<and> out = concat (map encode_field fs)"
  by (induction fs arbitrary: out) auto

text \<open>
  C19: protobuf fields read back. What \<open>serialize_fields\<close> writes, \<open>parse_fields\<close> reads as the same fields
  (fixed values having their width, everything fitting the address space).
\<close>
theorem fields_roundtrip:
  assumes "serialize_fields fs = Inr out" "\<forall>f\<in>set fs. value_ok (field_value f)" "length out \<le> usize_max"
  shows "parse_fields out = Inr fs"
proof -
  have "list_all field_ok fs" "out = concat (map encode_field fs)"
    using assms(1,2) by (auto simp: serialize_fields_iff list_all_iff field_ok_def)
  then show ?thesis using fields.loop_enc[of "(out, 0)" fs] assms(3) by (simp add: parse_fields_def)
qed

lemma fields_roundtrip_witness:
  "\<exists>out. serialize_fields [\<lparr>field_number = 3, field_value = FVarint 300\<rparr>, \<lparr>field_number = 1, field_value = FBytes [7, 8]\<rparr>]
       = Inr out \<and> out = [0x18, 0xAC, 0x02, 0x0A, 0x02, 7, 8]
     \<and> parse_fields out = Inr [\<lparr>field_number = 3, field_value = FVarint 300\<rparr>, \<lparr>field_number = 1, field_value = FBytes [7, 8]\<rparr>]"
proof -
  let ?fs = "[\<lparr>field_number = 3, field_value = FVarint 300\<rparr>, \<lparr>field_number = 1, field_value = FBytes [7, 8]\<rparr>]"
  have s: "serialize_fields ?fs = Inr [0x18, 0xAC, 0x02, 0x0A, 0x02, 7, 8]"
    by (simp add: encode_field_def encode_varint.simps)
  then show ?thesis using fields_roundtrip[OF s] by (simp add: usize_max_def)
qed

text \<open>
  The parser bounds what it accepts. Every field parsed has a positive number and a value of its width, and
  written again the fields take no more bytes than they were read from (varints may have been padded)
  and read back as the same fields.
\<close>
theorem parsed_fields_are_bounded:
  assumes "parse_fields p = Inr fs" "length p \<le> usize_max"
  shows "\<exists>out. serialize_fields fs = Inr out \<and> length out \<le> length p \<and> parse_fields out = Inr fs
    \<and> list_all (\<lambda>f. field_number f \<noteq> 0 \<and> value_ok (field_value f)) fs"
proof -
  have l: "list_all field_ok fs" "length (concat (map encode_field fs)) \<le> length p"
    using fields.loop_sized[of "(p, 0)" fs] assms by (simp_all add: parse_fields_def)
  then have "serialize_fields fs = Inr (concat (map encode_field fs))"
    by (auto simp: serialize_fields_iff list_all_iff field_ok_def)
  moreover have "parse_fields (concat (map encode_field fs)) = Inr fs"
    using fields.loop_enc[of "(concat (map encode_field fs), 0)" fs] l assms(2) by (simp add: parse_fields_def)
  moreover have "list_all (\<lambda>f. field_number f \<noteq> 0 \<and> value_ok (field_value f)) fs"
    using l(1) by (auto simp: list_all_iff field_ok_def)
  ultimately show ?thesis using l(2) by blast
qed

lemma parsed_fields_are_bounded_witness:
  "\<exists>fs out. parse_fields [0x98, 0x00, 0x05] = Inr fs \<and> serialize_fields fs = Inr out \<and> length out \<le> 3"
proof -
  have p: "parse_fields [0x98, 0x00, 0x05] = Inr [\<lparr>field_number = 3, field_value = FVarint 5\<rparr>]"
  proof -
    have "parse_field [0x98, 0x00, 0x05] 0 = Inr (\<lparr>field_number = 3, field_value = FVarint 5\<rparr>, 3)"
      by (simp add: parse_field_def parse_value_def decode_varint_def varint_loop_numeral u32_max_def)
    then show ?thesis unfolding parse_fields_def parse_loop.simps[of _ 0] by (simp add: parse_loop.simps[of _ 3])
  qed
  have "length [0x98, 0x00, 0x05 :: 8 word] \<le> usize_max" by (simp add: usize_max_def)
  from parsed_fields_are_bounded[OF p this] obtain out where
    "serialize_fields [\<lparr>field_number = 3, field_value = FVarint 5\<rparr>] = Inr out \<and> length out \<le> length [0x98, 0x00, 0x05 :: 8 word]"
    by blast
  then show ?thesis using p by (intro exI conjI) auto
qed


section \<open>Envelopes\<close>

record connect_error =
  wire_code :: string
  wire_message :: string

record unwrapped_request =
  uw_payload :: bytes
  uw_enveloped :: bool

definition gunzip :: "(nat \<Rightarrow> bytes \<Rightarrow> string + bytes) \<Rightarrow> bytes \<Rightarrow> bytes result" where
  "gunzip inflate payload =
     (case inflate (max_body_size + 1) payload of
        Inl e \<Rightarrow> Inl (Protocol (''invalid Devin gzip payload: '' @ e))
      | Inr out \<Rightarrow>
          (if length out > max_body_size then Inl (Protocol ''Devin gzip payload exceeds 24 MiB'') else Inr out))"

definition gzip :: "(bytes \<Rightarrow> string + bytes) \<Rightarrow> bytes \<Rightarrow> bytes result" where
  "gzip deflate payload = (case deflate payload of Inl e \<Rightarrow> Inl (Io e) | Inr out \<Rightarrow> Inr out)"

definition encoding_has_gzip :: "string option \<Rightarrow> bool" where
  "encoding_has_gzip value =
     list_ex (\<lambda>e. to_ascii_lowercase (trim e) = ''gzip'')
       (split_on (CHR '','') (case value of Some v \<Rightarrow> v | None \<Rightarrow> []))"

definition frame_length :: "bytes \<Rightarrow> nat" where
  "frame_length b = read_be32 (take 4 (drop 1 b))"

definition request_too_large :: error where
  "request_too_large = Protocol ''Devin request body exceeds 24 MiB''"

definition unwrap_request ::
    "(nat \<Rightarrow> bytes \<Rightarrow> string + bytes) \<Rightarrow> bytes \<Rightarrow> string option \<Rightarrow> string option \<Rightarrow> unwrapped_request result" where
  "unwrap_request inflate body http_encoding connect_encoding =
     (if length body > max_body_size + 5 then Inl request_too_large
      else
        rbind (if encoding_has_gzip http_encoding then gunzip inflate body else Inr body) (\<lambda>buffer.
          if length buffer > max_body_size + 5 then Inl request_too_large
          else
            (let framed = 5 \<le> length buffer \<and> frame_length buffer = length buffer - 5; flags = buffer ! 0
             in if framed \<and> flags \<le> 1 then
                  rbind (if flags = 1 then gunzip inflate (drop 5 buffer) else Inr (drop 5 buffer)) (\<lambda>payload.
                    if length payload > max_body_size then Inl request_too_large
                    else Inr \<lparr>uw_payload = payload, uw_enveloped = True\<rparr>)
                else if framed \<and> flags = 2 then Inl (Protocol ''Devin end frame is not valid as a request'')
                else
                  rbind (if encoding_has_gzip connect_encoding then gunzip inflate buffer else Inr buffer) (\<lambda>buffer.
                    if length buffer > max_body_size then Inl request_too_large
                    else Inr \<lparr>uw_payload = buffer, uw_enveloped = False\<rparr>))))"

definition is_connect_envelope :: "bytes \<Rightarrow> bool" where
  "is_connect_envelope body \<longleftrightarrow>
     \<not> length body < 5 \<and> frame_length body = length body - 5 \<and> body ! 0 \<le> 1"

definition framed_payload :: "8 word \<Rightarrow> bytes \<Rightarrow> bytes result" where
  "framed_payload flags payload =
     (if length payload > u32_max then Inl (Protocol ''Devin frame payload exceeds u32 length'')
      else Inr (flags # be32 (length payload) @ payload))"

definition frame :: "(bytes \<Rightarrow> string + bytes) \<Rightarrow> bytes \<Rightarrow> bool \<Rightarrow> bytes result" where
  "frame deflate payload compress =
     (if length payload > max_body_size then Inl (Protocol ''Devin response body exceeds 24 MiB'')
      else rbind (if compress then gzip deflate payload else Inr payload) (\<lambda>p.
        framed_payload (if compress then 1 else 0) p))"

text \<open>The JSON text of the error is an argument; the length of the frame always fits in the source.\<close>

definition end_frame :: "(connect_error option \<Rightarrow> bytes) \<Rightarrow> connect_error option \<Rightarrow> bytes result" where
  "end_frame to_vec e = framed_payload 2 (to_vec e)"

text \<open>What a gzip implementation promises: decompressing what it compressed gives it back.\<close>

definition gzip_inverts :: "(nat \<Rightarrow> bytes \<Rightarrow> string + bytes) \<Rightarrow> (bytes \<Rightarrow> string + bytes) \<Rightarrow> bool" where
  "gzip_inverts inflate deflate \<longleftrightarrow> (\<forall>p z n. deflate p = Inr z \<longrightarrow> inflate n z = Inr (take n p))"

lemma gunzip_gzip:
  assumes "gzip_inverts inflate deflate" "gzip deflate p = Inr z" "length p \<le> max_body_size"
  shows "gunzip inflate z = Inr p"
proof -
  have "deflate p = Inr z" using assms(2) by (auto simp: gzip_def split: sum.splits)
  then have "inflate (max_body_size + 1) z = Inr (take (max_body_size + 1) p)"
    using assms(1) unfolding gzip_inverts_def by blast
  then show ?thesis using assms(3) by (simp add: gunzip_def)
qed

lemma frame_parts:
  assumes "framed_payload flags p = Inr b"
  shows "5 \<le> length b \<and> frame_length b = length b - 5 \<and> b ! 0 = flags \<and> drop 5 b = p"
  using assms by (auto simp: framed_payload_def frame_length_def read_be32_be32 split: if_splits)

text \<open>
  An envelope is opened once. A framed payload, compressed or not, is recognised as an envelope and
  unwrapped to the payload, whatever the Connect encoding header says, and also when the whole
  body is gzip-encoded for HTTP.
\<close>
theorem envelope_opens_once:
  assumes "gzip_inverts inflate deflate" "frame deflate p compress = Inr b" "length b \<le> max_body_size"
    and "if encoding_has_gzip http then gzip deflate b = Inr body \<and> length body \<le> max_body_size + 5 else body = b"
  shows "is_connect_envelope b \<and> unwrap_request inflate body http connect = Inr \<lparr>uw_payload = p, uw_enveloped = True\<rparr>"
proof -
  obtain q where q: "(if compress then gzip deflate p else Inr p) = Inr q" "length p \<le> max_body_size"
      "framed_payload (if compress then 1 else 0) q = Inr b"
    using assms(2) by (auto simp: frame_def split: if_splits)
  note f = frame_parts[OF q(3)]
  have "(if encoding_has_gzip http then gunzip inflate body else Inr body) = Inr b"
    using assms(1,3,4) gunzip_gzip by (auto split: if_splits)
  moreover have "(if b ! 0 = 1 then gunzip inflate (drop 5 b) else Inr (drop 5 b)) = Inr p"
    using f q(1,2) gunzip_gzip[OF assms(1) _ q(2)] by (auto split: if_splits)
  moreover have "length body \<le> max_body_size + 5" using assms(3,4) by (auto split: if_splits)
  ultimately show ?thesis
    using f assms(3) q(2) by (simp add: unwrap_request_def Let_def is_connect_envelope_def)
qed

lemma envelope_opens_once_witness:
  "unwrap_request (\<lambda>n b. Inr (take n (rev b))) [8, 9, 2, 0, 0, 0, 1] (Some ''br, GZIP'') (Some ''gzip'')
     = Inr \<lparr>uw_payload = [8, 9], uw_enveloped = True\<rparr>"
proof -
  let ?inflate = "\<lambda>n b. Inr (take n (rev b))" and ?deflate = "\<lambda>b. Inr (rev b)"
  have g: "gzip_inverts ?inflate ?deflate" by (simp add: gzip_inverts_def)
  have f: "frame ?deflate [8, 9] True = Inr [1, 0, 0, 0, 2, 9, 8]"
    by (simp add: frame_def gzip_def framed_payload_def be32_def max_body_size_def u32_max_def)
  have "encoding_has_gzip (Some ''br, GZIP'')"
    by code_simp
  then have "if encoding_has_gzip (Some ''br, GZIP'')
      then gzip ?deflate [1, 0, 0, 0, 2, 9, 8] = Inr [8, 9, 2, 0, 0, 0, 1]
        \<and> length [8, 9, 2, 0, 0, 0, 1 :: 8 word] \<le> max_body_size + 5
      else [8, 9, 2, 0, 0, 0, 1] = [1, 0, 0, 0, 2, 9, 8 :: 8 word]"
    by (simp add: gzip_def max_body_size_def)
  from conjunct2[OF envelope_opens_once[OF g f _ this, of "Some ''gzip''"]] show ?thesis
    by (simp add: max_body_size_def)
qed

lemma gunzip_errors: "gunzip inflate b = Inl e \<Longrightarrow> (\<exists>m. e = Protocol m)"
  by (auto simp: gunzip_def request_too_large_def split: sum.splits if_splits)

text \<open>
  What is unwrapped is bounded. A request body is accepted only up to 24 MiB and five bytes, and what is
  unwrapped never exceeds 24 MiB, whatever was compressed, inside or out; a client's
  end frame is refused, and every refusal is a protocol error.
\<close>
theorem unwrapped_is_bounded:
  "(case unwrap_request inflate body http connect of
      Inl e \<Rightarrow> (\<exists>m. e = Protocol m)
    | Inr r \<Rightarrow> length (uw_payload r) \<le> max_body_size \<and> length body \<le> max_body_size + 5
        \<and> \<not> (\<not> encoding_has_gzip http \<and> 5 \<le> length body \<and> frame_length body = length body - 5 \<and> body ! 0 = 2))"
proof (cases "unwrap_request inflate body http connect")
  case (Inr r)
  then show ?thesis
    by (auto simp: unwrap_request_def Let_def word_le_nat_alt split: if_splits)
next
  case (Inl e)
  then show ?thesis
    by (auto simp: unwrap_request_def Let_def request_too_large_def rbind_Inl_iff split: if_splits
             dest: gunzip_errors)
qed

end
