(* ===== verification/Utf8.thy ===== *)
theory Utf8
  imports Text Model
begin

text \<open>
  Characters of the UTF-8 texts that strings hold (Rust's \<open>char\<close> and \<open>str::chars\<close>): a character is a byte that
  is not a continuation byte with the continuation bytes behind it, and has a code point.
\<close>

section \<open>Code points\<close>

type_synonym code = nat

definition utf8_len :: "code \<Rightarrow> nat" where
  "utf8_len c = (if c < 0x80 then 1 else if c < 0x800 then 2 else if c < 0x10000 then 3 else 4)"

text \<open>\<open>char::is_whitespace\<close>\<close>

definition is_whitespace :: "code \<Rightarrow> bool" where
  "is_whitespace c \<longleftrightarrow>
     9 \<le> c \<and> c \<le> 13 \<or> c = 32 \<or> c = 0x85 \<or> c = 0xA0 \<or> c = 0x1680 \<or> 0x2000 \<le> c \<and> c \<le> 0x200A
     \<or> c = 0x2028 \<or> c = 0x2029 \<or> c = 0x202F \<or> c = 0x205F \<or> c = 0x3000"


section \<open>Characters\<close>

function chars :: "string \<Rightarrow> string list" where
  "chars [] = []"
| "chars (c # cs) = (c # takeWhile is_continuation cs) # chars (dropWhile is_continuation cs)"
  by pat_completeness auto
termination by (relation "measure length") (simp_all add: length_dropWhile_le less_Suc_eq_le)

lemma chars_concat [simp]: "concat (chars s) = s"
  by (induction s rule: chars.induct) auto

lemma chars_not_empty: "c \<in> set (chars s) \<Longrightarrow> c \<noteq> []"
  by (induction s rule: chars.induct) auto

lemma chars_empty_iff [simp]: "chars s = [] \<longleftrightarrow> s = []"
  by (cases s) auto

definition code_of :: "string \<Rightarrow> code" where
  "code_of bs =
     (case map (\<lambda>b. of_char b :: nat) bs of
        [a] \<Rightarrow> a
      | [a, b] \<Rightarrow> (a mod 32) * 64 + b mod 64
      | [a, b, c] \<Rightarrow> (a mod 16) * 4096 + (b mod 64) * 64 + c mod 64
      | a # b # c # d # _ \<Rightarrow> (a mod 8) * 262144 + (b mod 64) * 4096 + (c mod 64) * 64 + d mod 64
      | _ \<Rightarrow> 0)"

definition white :: "string \<Rightarrow> bool" where
  "white c \<longleftrightarrow> is_whitespace (code_of c)"

definition trim_chars :: "string list \<Rightarrow> string list" where
  "trim_chars cs = rev (dropWhile white (rev (dropWhile white cs)))"

text \<open>\<open>str::trim\<close> and \<open>str::split_whitespace\<close>, with the white space of Unicode.\<close>

definition trim_text :: "string \<Rightarrow> string" where
  "trim_text s = concat (trim_chars (chars s))"

fun words_of :: "string list \<Rightarrow> string list" where
  "words_of [] = []"
| "words_of (c # cs) =
     (if white c then words_of cs
      else (case cs of
              [] \<Rightarrow> [c]
            | d # _ \<Rightarrow> (if white d then c # words_of cs
                       else (case words_of cs of [] \<Rightarrow> [c] | w # ws \<Rightarrow> (c @ w) # ws))))"

text \<open>The first and the last n characters.\<close>

definition first_chars :: "nat \<Rightarrow> string \<Rightarrow> string" where
  "first_chars n s = concat (take n (chars s))"

definition skip_chars :: "nat \<Rightarrow> string \<Rightarrow> string" where
  "skip_chars n s = concat (drop n (chars s))"

text \<open>\<open>is_char_boundary\<close>, and the longest prefix and suffix of at most n bytes between boundaries.\<close>

definition char_boundary :: "string \<Rightarrow> nat \<Rightarrow> bool" where
  "char_boundary s i \<longleftrightarrow> i = 0 \<or> i = length s \<or> i < length s \<and> \<not> is_continuation (s ! i)"

fun boundary_below :: "string \<Rightarrow> nat \<Rightarrow> nat" where
  "boundary_below s 0 = 0"
| "boundary_below s (Suc i) = (if char_boundary s (Suc i) then Suc i else boundary_below s i)"

function boundary_above :: "string \<Rightarrow> nat \<Rightarrow> nat" where
  "boundary_above s i = (if i < length s \<and> \<not> char_boundary s i then boundary_above s (Suc i) else i)"
  by pat_completeness auto
termination by (relation "measure (\<lambda>(s, i). length s - i)") auto

declare boundary_above.simps [simp del]

lemma boundary_below_le: "boundary_below s i \<le> i"
  by (induction s i rule: boundary_below.induct) auto

lemma boundary_above_ge: "i \<le> boundary_above s i"
  by (induction s i rule: boundary_above.induct) (subst boundary_above.simps, auto)

lemma boundary_above_le: "i \<le> length s \<Longrightarrow> boundary_above s i \<le> length s"
  by (induction s i rule: boundary_above.induct) (subst boundary_above.simps, auto)

definition utf8_prefix :: "string \<Rightarrow> nat \<Rightarrow> string" where
  "utf8_prefix s n = take (boundary_below s (min n (length s))) s"

definition utf8_suffix :: "string \<Rightarrow> nat \<Rightarrow> string" where
  "utf8_suffix s n = drop (boundary_above s (length s - n)) s"

lemma utf8_prefix_length: "length (utf8_prefix s n) \<le> n"
  using boundary_below_le[of s "min n (length s)"] by (simp add: utf8_prefix_def)

lemma utf8_suffix_length: "length (utf8_suffix s n) \<le> n"
  using boundary_above_ge[of "length s - n" s] by (simp add: utf8_suffix_def)

lemma chars_plain: "list_all (\<lambda>c. \<not> is_continuation c) s \<Longrightarrow> chars s = map (\<lambda>c. [c]) s"
proof (induction s)
  case (Cons c cs)
  have "takeWhile is_continuation cs = [] \<and> dropWhile is_continuation cs = cs"
    using Cons.prems by (cases cs) auto
  then show ?case using Cons by simp
qed simp

lemma chars_length: "length (chars s) \<le> length s"
proof (induction s rule: chars.induct)
  case (2 c cs)
  then show ?case using length_dropWhile_le[of is_continuation cs] by simp
qed simp

lemma trim_chars_length: "length (trim_chars cs) \<le> length cs"
  using length_dropWhile_le[of white "rev (dropWhile white cs)"] length_dropWhile_le[of white cs]
  by (simp add: trim_chars_def)

end
