(* ===== verification/JsonStream.thy ===== *)
theory JsonStream
  imports Utf8
begin

text \<open>
  The streaming reader of a tool call's arguments (src/server/src/cursor/protocol/json_stream.rs): it is fed
  pieces of a JSON object as they arrive and reports the text of its string fields. A character is its
  Unicode code point. Decoding a complete escape (serde_json) is an argument.
\<close>

section \<open>Characters\<close>

definition is_hex :: "code \<Rightarrow> bool" where
  "is_hex c \<longleftrightarrow> 48 \<le> c \<and> c \<le> 57 \<or> 65 \<le> c \<and> c \<le> 70 \<or> 97 \<le> c \<and> c \<le> 102"

definition hex_value :: "code \<Rightarrow> nat" where
  "hex_value c = (if c \<le> 57 then c - 48 else if c \<le> 70 then c - 55 else c - 87)"

definition hex_number :: "code list \<Rightarrow> nat" where
  "hex_number cs = fold (\<lambda>c n. n * 16 + hex_value c) cs 0"

definition quote :: code where "quote = 34"
definition backslash :: code where "backslash = 92"
definition comma :: code where "comma = 44"
definition colon :: code where "colon = 58"
definition lbrace :: code where "lbrace = 123"
definition rbrace :: code where "rbrace = 125"
definition lbracket :: code where "lbracket = 91"
definition rbracket :: code where "rbracket = 93"

lemmas code_defs = quote_def backslash_def comma_def colon_def lbrace_def rbrace_def lbracket_def rbracket_def


section \<open>Strings\<close>

datatype string_step = StepText "code list" | StepEnd | StepPending

text \<open>
  Whether the escape collected so far is complete. The source matches on bytes; a character beyond
  ASCII is longer than one, so that the length tests count bytes.
\<close>

definition simple_escapes :: "code list" where
  "simple_escapes = [34, 92, 47, 98, 102, 110, 114, 116]"

definition escape_complete :: "code list \<Rightarrow> bool result" where
  "escape_complete e =
     (let n = sum_list (map utf8_len e); u = (take 2 e = [backslash, 117])
      in if u \<and> length e = 6 \<and> list_all is_hex (drop 2 e)
         then (let code = hex_number (drop 2 e) in Inr (\<not> (0xD800 \<le> code \<and> code \<le> 0xDBFF)))
         else if u \<and> n < 6 then Inr False
         else if u \<and> length e = 12 \<and> list_all is_hex (take 4 (drop 2 e)) \<and> take 2 (drop 6 e) = [backslash, 117]
           \<and> list_all is_hex (drop 8 e) then Inr True
         else if u \<and> n < 12 then Inr False
         else if length e = 2 \<and> e ! 0 = backslash \<and> e ! 1 \<in> set simple_escapes then Inr True
         else if e = [backslash] then Inr False
         else Inl (Protocol ''invalid JSON string escape''))"

text \<open>\<open>JsonString::push\<close> on the escape collected so far.\<close>

definition string_push ::
    "(code list \<Rightarrow> string + code list) \<Rightarrow> code \<Rightarrow> code list \<Rightarrow> (string_step \<times> code list) result" where
  "string_push unescape c escape =
     (if escape = [] then
        (if c = quote then Inr (StepEnd, escape)
         else if c = backslash then Inr (StepPending, [c])
         else if c < 0x20 then Inl (Protocol ''control character in JSON string'')
         else Inr (StepText [c], escape))
      else
        (let e = escape @ [c]
         in rbind (escape_complete e) (\<lambda>complete.
              if \<not> complete then Inr (StepPending, e)
              else case unescape e of
                Inl m \<Rightarrow> Inl (Protocol (''invalid JSON string escape: '' @ m))
              | Inr t \<Rightarrow> Inr (StepText t, []))))"


section \<open>Skipped values\<close>

record skipped_value =
  sk_depth :: nat
  sk_string :: bool
  sk_escaped :: bool

definition skip_observe :: "code \<Rightarrow> skipped_value \<Rightarrow> skipped_value" where
  "skip_observe c s =
     (if sk_string s then
        (if sk_escaped s then s\<lparr>sk_escaped := False\<rparr>
         else if c = backslash then s\<lparr>sk_escaped := True\<rparr>
         else if c = quote then s\<lparr>sk_string := False\<rparr> else s)
      else if c = quote then s\<lparr>sk_string := True\<rparr>
      else if c = lbrace \<or> c = lbracket then s\<lparr>sk_depth := sk_depth s + 1\<rparr>
      else if c = rbrace \<or> c = rbracket then s\<lparr>sk_depth := sk_depth s - 1\<rparr>
      else s)"

definition skip_empty :: skipped_value where
  "skip_empty = \<lparr>sk_depth = 0, sk_string = False, sk_escaped = False\<rparr>"

definition skip_start :: "code \<Rightarrow> skipped_value" where
  "skip_start c = skip_observe c skip_empty"

definition skip_push :: "code \<Rightarrow> skipped_value \<Rightarrow> code option \<times> skipped_value" where
  "skip_push c s =
     (if \<not> sk_string s \<and> sk_depth s = 0 \<and> (c = comma \<or> c = rbrace) then (Some c, s)
      else (None, skip_observe c s))"


section \<open>Fields\<close>

datatype field_event = FieldDelta "code list" "code list" | FieldEnd "code list"

datatype parse_state =
  AtObject | AtKey | InKey | AtColon | AtValue | InValue | InSkipped | AfterValue | AtDone

record json_fields =
  jf_state :: parse_state
  jf_key :: "code list"
  jf_escape :: "code list"
  jf_skipped :: skipped_value

definition json_fields_new :: json_fields where
  "json_fields_new = \<lparr>jf_state = AtObject, jf_key = [], jf_escape = [], jf_skipped = skip_empty\<rparr>"

text \<open>A delta of the field the last one was of is added to it.\<close>

definition push_delta :: "code list \<Rightarrow> code list \<Rightarrow> field_event list \<Rightarrow> field_event list" where
  "push_delta name text events =
     (if events \<noteq> [] then
        (case last events of
           FieldDelta n t \<Rightarrow>
             (if n = name then butlast events @ [FieldDelta n (t @ text)] else events @ [FieldDelta name text])
         | FieldEnd n \<Rightarrow> events @ [FieldDelta name text])
      else events @ [FieldDelta name text])"

definition json_err :: "string \<Rightarrow> (json_fields \<times> field_event list) result" where
  "json_err m = Inl (Protocol m)"

definition consume ::
    "(code list \<Rightarrow> string + code list) \<Rightarrow> code \<Rightarrow> json_fields \<times> field_event list
     \<Rightarrow> (json_fields \<times> field_event list) result" where
  "consume unescape c = (\<lambda>(s, ev).
     (case jf_state s of
        AtObject \<Rightarrow>
          (if c = lbrace then Inr (s\<lparr>jf_state := AtKey\<rparr>, ev)
           else if is_whitespace c then Inr (s, ev)
           else json_err ''tool arguments must start with an object'')
      | AtKey \<Rightarrow>
          (if c = quote then Inr (s\<lparr>jf_state := InKey, jf_key := [], jf_escape := []\<rparr>, ev)
           else if c = rbrace then Inr (s\<lparr>jf_state := AtDone\<rparr>, ev)
           else if is_whitespace c then Inr (s, ev)
           else json_err ''expected a tool argument name'')
      | InKey \<Rightarrow>
          rbind (string_push unescape c (jf_escape s)) (\<lambda>(st, e).
            case st of
              StepText t \<Rightarrow> Inr (s\<lparr>jf_escape := e, jf_key := jf_key s @ t\<rparr>, ev)
            | StepEnd \<Rightarrow> Inr (s\<lparr>jf_escape := e, jf_state := AtColon\<rparr>, ev)
            | StepPending \<Rightarrow> Inr (s\<lparr>jf_escape := e\<rparr>, ev))
      | AtColon \<Rightarrow>
          (if c = colon then Inr (s\<lparr>jf_state := AtValue\<rparr>, ev)
           else if is_whitespace c then Inr (s, ev)
           else json_err ''expected ':' after tool argument name'')
      | AtValue \<Rightarrow>
          (if c = quote then Inr (s\<lparr>jf_state := InValue, jf_escape := []\<rparr>, ev)
           else if is_whitespace c then Inr (s, ev)
           else Inr (s\<lparr>jf_skipped := skip_start c, jf_state := InSkipped\<rparr>, ev))
      | InValue \<Rightarrow>
          rbind (string_push unescape c (jf_escape s)) (\<lambda>(st, e).
            case st of
              StepText t \<Rightarrow> Inr (s\<lparr>jf_escape := e\<rparr>, push_delta (jf_key s) t ev)
            | StepEnd \<Rightarrow> Inr (s\<lparr>jf_escape := e, jf_state := AfterValue\<rparr>, ev @ [FieldEnd (jf_key s)])
            | StepPending \<Rightarrow> Inr (s\<lparr>jf_escape := e\<rparr>, ev))
      | InSkipped \<Rightarrow>
          (case skip_push c (jf_skipped s) of
             (None, k) \<Rightarrow> Inr (s\<lparr>jf_skipped := k\<rparr>, ev)
           | (Some t, k) \<Rightarrow>
               (if t = comma then Inr (s\<lparr>jf_skipped := k, jf_state := AtKey\<rparr>, ev)
                else if t = rbrace then Inr (s\<lparr>jf_skipped := k, jf_state := AtDone\<rparr>, ev)
                else json_err ''invalid skipped JSON value terminator''))
      | AfterValue \<Rightarrow>
          (if c = comma then Inr (s\<lparr>jf_state := AtKey\<rparr>, ev)
           else if c = rbrace then Inr (s\<lparr>jf_state := AtDone\<rparr>, ev)
           else if is_whitespace c then Inr (s, ev)
           else json_err ''expected ',' after tool argument value'')
      | AtDone \<Rightarrow>
          (if is_whitespace c then Inr (s, ev) else json_err ''data after tool arguments object'')))"

definition push_fields ::
    "(code list \<Rightarrow> string + code list) \<Rightarrow> code list \<Rightarrow> json_fields \<Rightarrow> (json_fields \<times> field_event list) result" where
  "push_fields unescape input s = fold_ok (consume unescape) input (s, [])"

end
