(* ===== verification/JsonStreamLaws.thy ===== *)
theory JsonStreamLaws
  imports JsonStream
begin

text \<open>
  What the streaming reader reports: the same whatever pieces the text arrives in, and for the text of an
  object its string fields, decoded, in order.
\<close>

section \<open>Events by character\<close>

text \<open>The events as a stream of characters of a field and ends of fields, which merging deltas does not change.\<close>

fun flat :: "field_event \<Rightarrow> (code list \<times> code option) list" where
  "flat (FieldDelta n t) = map (\<lambda>c. (n, Some c)) t"
| "flat (FieldEnd n) = [(n, None)]"

definition flats :: "field_event list \<Rightarrow> (code list \<times> code option) list" where
  "flats ev = concat (map flat ev)"

lemma flats_simps [simp]: "flats [] = []" "flats (a @ b) = flats a @ flats b" "flats (e # a) = flat e @ flats a"
  by (simp_all add: flats_def)

lemma flats_push_delta [simp]: "flats (push_delta n t ev) = flats ev @ map (\<lambda>c. (n, Some c)) t"
proof (cases ev rule: rev_cases)
  case (snoc ys y)
  then show ?thesis by (cases y) (auto simp: push_delta_def)
qed (simp add: push_delta_def)

definition view :: "(json_fields \<times> field_event list) result \<Rightarrow> (json_fields \<times> (code list \<times> code option) list) result" where
  "view r = rbind r (\<lambda>(s, ev). Inr (s, flats ev))"

definition after :: "(code list \<times> code option) list \<Rightarrow> (json_fields \<times> (code list \<times> code option) list) result
    \<Rightarrow> (json_fields \<times> (code list \<times> code option) list) result" where
  "after f r = rbind r (\<lambda>(s, g). Inr (s, f @ g))"

lemma after_simps [simp]:
  "after f (Inl e) = Inl e" "after f (Inr (s, g)) = Inr (s, f @ g)" "view (Inl e) = Inl e" "view (Inr (s, ev)) = Inr (s, flats ev)"
  by (simp_all add: after_def view_def)

lemma after_after [simp]: "after f (after g r) = after (f @ g) r"
  by (cases r) (auto simp: after_def)

lemma consume_view: "view (consume u c (s, ev)) = after (flats ev) (view (consume u c (s, [])))"
proof (cases "jf_state s")
  case InKey
  then show ?thesis by (cases "string_push u c (jf_escape s)") (auto simp: consume_def split: string_step.splits)
next
  case InValue
  then show ?thesis by (cases "string_push u c (jf_escape s)") (auto simp: consume_def split: string_step.splits)
next
  case InSkipped
  then show ?thesis by (cases "skip_push c (jf_skipped s)") (auto simp: consume_def json_err_def split: option.splits)
qed (auto simp: consume_def json_err_def)

lemma fold_view: "view (fold_ok (consume u) cs (s, ev)) = after (flats ev) (view (fold_ok (consume u) cs (s, [])))"
proof (induction cs arbitrary: s ev)
  case (Cons c cs)
  show ?case
  proof (cases "consume u c (s, ev)")
    case (Inl e)
    then have "view (consume u c (s, [])) = Inl e"
      using consume_view[of u c s ev] by (cases "consume u c (s, [])") (auto simp: view_def after_def)
    then have "consume u c (s, []) = Inl e" by (cases "consume u c (s, [])") (auto simp: view_def)
    then show ?thesis using Inl by simp
  next
    case (Inr r)
    obtain s' ev' where r: "r = (s', ev')" by force
    obtain d where d: "consume u c (s, []) = Inr (s', d)" "flats ev' = flats ev @ flats d"
      using consume_view[of u c s ev] Inr r by (cases "consume u c (s, [])") auto
    show ?thesis using Inr r d Cons.IH[of s' ev'] Cons.IH[of s' d] by simp
  qed
qed simp

text \<open>The pieces a text arrives in, each pushed in turn.\<close>

fun push_chunks ::
    "(code list \<Rightarrow> string + code list) \<Rightarrow> code list list \<Rightarrow> json_fields \<Rightarrow> (json_fields \<times> field_event list) result" where
  "push_chunks u [] s = Inr (s, [])"
| "push_chunks u (x # xs) s =
     rbind (push_fields u x s) (\<lambda>(s', ev). rbind (push_chunks u xs s') (\<lambda>(s'', ev'). Inr (s'', ev @ ev')))"

lemma push_chunks_view:
  "view (push_chunks u chunks s) = view (push_fields u (concat chunks) s)"
proof (induction chunks arbitrary: s)
  case (Cons x xs)
  show ?case
  proof (cases "push_fields u x s")
    case (Inr r)
    obtain s' ev where r: "r = (s', ev)" by force
    have "view (push_chunks u (x # xs) s) = after (flats ev) (view (push_chunks u xs s'))"
      using Inr r by (cases "push_chunks u xs s'") auto
    also have "\<dots> = after (flats ev) (view (fold_ok (consume u) (concat xs) (s', [])))"
      by (simp add: Cons.IH push_fields_def)
    also have "\<dots> = view (push_fields u (concat (x # xs)) s)"
      using Inr r fold_view[of u "concat xs" s' ev] by (simp add: push_fields_def fold_ok_append)
    finally show ?thesis .
  qed (simp add: push_fields_def fold_ok_append)
qed (simp add: push_fields_def)

text \<open>
  C38: how the text is cut does not matter. Pushing the pieces of a text one by one fails exactly when
  pushing the whole text does, with the same error, and otherwise ends in the same state having
  reported the same characters of the same fields and the same ends, in the same order.
\<close>
theorem chunks_do_not_matter:
  "view (push_chunks u chunks s) = view (push_fields u (concat chunks) s)"
  by (rule push_chunks_view)



section \<open>The text of an object\<close>

text \<open>
  The grammar of what is read: strings are pieces (plain characters and the escapes of JSON), a value is
  a string or a raw text whose brackets match, a member has white space where JSON allows it.
\<close>

datatype piece = Plain code | Simple code | Unicode "code list" | Surrogates "code list" "code list"

fun piece_src :: "piece \<Rightarrow> code list" where
  "piece_src (Plain c) = [c]"
| "piece_src (Simple c) = [backslash, c]"
| "piece_src (Unicode h) = [backslash, 117] @ h"
| "piece_src (Surrogates h l) = [backslash, 117] @ h @ [backslash, 117] @ l"

definition hex4 :: "code list \<Rightarrow> bool" where
  "hex4 h \<longleftrightarrow> length h = 4 \<and> list_all is_hex h"

definition is_high :: "code list \<Rightarrow> bool" where
  "is_high h \<longleftrightarrow> 0xD800 \<le> hex_number h \<and> hex_number h \<le> 0xDBFF"

fun piece_form :: "piece \<Rightarrow> bool" where
  "piece_form (Plain c) \<longleftrightarrow> 0x20 \<le> c \<and> c \<noteq> quote \<and> c \<noteq> backslash"
| "piece_form (Simple c) \<longleftrightarrow> c \<in> set simple_escapes"
| "piece_form (Unicode h) \<longleftrightarrow> hex4 h \<and> \<not> is_high h"
| "piece_form (Surrogates h l) \<longleftrightarrow> hex4 h \<and> is_high h \<and> hex4 l"

fun piece_text :: "(code list \<Rightarrow> string + code list) \<Rightarrow> piece \<Rightarrow> code list option" where
  "piece_text u (Plain c) = Some [c]"
| "piece_text u p = (case u (piece_src p) of Inl e \<Rightarrow> None | Inr t \<Rightarrow> Some t)"

definition piece_ok :: "(code list \<Rightarrow> string + code list) \<Rightarrow> piece \<Rightarrow> bool" where
  "piece_ok u p \<longleftrightarrow> piece_form p \<and> piece_text u p \<noteq> None"

definition pieces_text :: "(code list \<Rightarrow> string + code list) \<Rightarrow> piece list \<Rightarrow> code list" where
  "pieces_text u ps = concat (map (\<lambda>p. the (piece_text u p)) ps)"

definition string_src :: "piece list \<Rightarrow> code list" where
  "string_src ps = quote # concat (map piece_src ps) @ [quote]"

datatype raw = Atom "code list" | Str "piece list" | Group bool "raw list"

fun raw_src :: "raw \<Rightarrow> code list" where
  "raw_src (Atom cs) = cs"
| "raw_src (Str ps) = string_src ps"
| "raw_src (Group b rs) =
     (if b then lbrace else lbracket) # concat (map raw_src rs) @ [if b then rbrace else rbracket]"

definition plain_atom :: "code list \<Rightarrow> bool" where
  "plain_atom cs \<longleftrightarrow> (\<forall>c\<in>set cs. c \<notin> {quote, lbrace, lbracket, rbrace, rbracket})"

fun raw_form :: "raw \<Rightarrow> bool" where
  "raw_form (Atom cs) \<longleftrightarrow> plain_atom cs"
| "raw_form (Str ps) \<longleftrightarrow> list_all piece_form ps"
| "raw_form (Group b rs) \<longleftrightarrow> list_all raw_form rs"

text \<open>A raw value of a member: an atom without commas that does not start with white space, or a group.\<close>

fun value_form :: "raw \<Rightarrow> bool" where
  "value_form (Atom cs) \<longleftrightarrow> plain_atom cs \<and> comma \<notin> set cs \<and> cs \<noteq> [] \<and> \<not> is_whitespace (hd cs)"
| "value_form (Str ps) \<longleftrightarrow> False"
| "value_form (Group b rs) \<longleftrightarrow> list_all raw_form rs"

datatype member_value = VString "piece list" | VRaw raw

record member =
  mb_spaces :: "code list \<times> code list \<times> code list \<times> code list"
  mb_key :: "piece list"
  mb_value :: member_value

fun value_src :: "member_value \<Rightarrow> code list" where
  "value_src (VString ps) = string_src ps"
| "value_src (VRaw r) = raw_src r"

definition member_src :: "member \<Rightarrow> code list" where
  "member_src m = (case mb_spaces m of (w1, w2, w3, w4) \<Rightarrow>
     w1 @ string_src (mb_key m) @ w2 @ [colon] @ w3 @ value_src (mb_value m) @ w4)"

fun members_src :: "member list \<Rightarrow> code list" where
  "members_src [] = []"
| "members_src [m] = member_src m"
| "members_src (m # ms) = member_src m @ [comma] @ members_src ms"

definition object_src :: "member list \<Rightarrow> code list" where
  "object_src ms = [lbrace] @ members_src ms @ [rbrace]"

definition member_ok :: "(code list \<Rightarrow> string + code list) \<Rightarrow> member \<Rightarrow> bool" where
  "member_ok u m \<longleftrightarrow> (case mb_spaces m of (w1, w2, w3, w4) \<Rightarrow> list_all is_whitespace (w1 @ w2 @ w3 @ w4))
     \<and> list_all (piece_ok u) (mb_key m)
     \<and> (case mb_value m of VString ps \<Rightarrow> list_all (piece_ok u) ps | VRaw r \<Rightarrow> value_form r)"

text \<open>What is to be reported for a member.\<close>

definition member_flat :: "(code list \<Rightarrow> string + code list) \<Rightarrow> member \<Rightarrow> (code list \<times> code option) list" where
  "member_flat u m = (let k = pieces_text u (mb_key m) in
     case mb_value m of
       VString ps \<Rightarrow> map (\<lambda>c. (k, Some c)) (pieces_text u ps) @ [(k, None)]
     | VRaw r \<Rightarrow> [])"


section \<open>Strings\<close>

lemma is_hex_len: "is_hex c \<Longrightarrow> utf8_len c = 1"
  by (auto simp: is_hex_def utf8_len_def)

lemma hex4_cases: "hex4 h \<Longrightarrow> \<exists>a b c d. h = [a, b, c, d] \<and> is_hex a \<and> is_hex b \<and> is_hex c \<and> is_hex d"
  by (auto simp: hex4_def numeral_eq_Suc length_Suc_conv)

lemma escape_prefixes:
  assumes "is_hex a" "is_hex b" "is_hex c" "is_hex d"
  shows "escape_complete [backslash, 117] = Inr False"
    "escape_complete [backslash, 117, a] = Inr False" "escape_complete [backslash, 117, a, b] = Inr False"
    "escape_complete [backslash, 117, a, b, c] = Inr False"
    "escape_complete [backslash, 117, a, b, c, d] = Inr (\<not> is_high [a, b, c, d])"
  using assms is_hex_len by (simp_all add: escape_complete_def Let_def backslash_def utf8_len_def[of 92] utf8_len_def[of 117] is_high_def)

lemma escape_surrogates:
  assumes "is_hex a" "is_hex b" "is_hex c" "is_hex d" "is_hex e" "is_hex f" "is_hex g" "is_hex h"
  shows "escape_complete [backslash, 117, a, b, c, d, backslash] = Inr False"
    "escape_complete [backslash, 117, a, b, c, d, backslash, 117] = Inr False"
    "escape_complete [backslash, 117, a, b, c, d, backslash, 117, e] = Inr False"
    "escape_complete [backslash, 117, a, b, c, d, backslash, 117, e, f] = Inr False"
    "escape_complete [backslash, 117, a, b, c, d, backslash, 117, e, f, g] = Inr False"
    "escape_complete [backslash, 117, a, b, c, d, backslash, 117, e, f, g, h] = Inr True"
  using assms is_hex_len by (simp_all add: escape_complete_def Let_def backslash_def utf8_len_def[of 92] utf8_len_def[of 117])

lemma escape_simple: "c \<in> set simple_escapes \<Longrightarrow> escape_complete [backslash, c] = Inr True"
  by (auto simp: escape_complete_def Let_def simple_escapes_def backslash_def)


definition in_string :: "json_fields \<Rightarrow> bool" where
  "in_string s \<longleftrightarrow> jf_state s = InKey \<or> jf_state s = InValue"

definition absorb :: "code list \<Rightarrow> json_fields \<times> field_event list \<Rightarrow> json_fields \<times> field_event list" where
  "absorb t = (\<lambda>(s, ev).
     if jf_state s = InKey then (s\<lparr>jf_key := jf_key s @ t\<rparr>, ev) else (s, push_delta (jf_key s) t ev))"

lemma consume_pending:
  "in_string s \<Longrightarrow> string_push u c (jf_escape s) = Inr (StepPending, e) \<Longrightarrow> consume u c (s, ev) = Inr (s\<lparr>jf_escape := e\<rparr>, ev)"
  by (cases "jf_state s") (simp_all add: consume_def in_string_def)

lemma consume_text:
  "in_string s \<Longrightarrow> string_push u c (jf_escape s) = Inr (StepText t, e) \<Longrightarrow>
   consume u c (s, ev) = Inr (absorb t (s\<lparr>jf_escape := e\<rparr>, ev))"
  by (cases "jf_state s") (simp_all add: consume_def in_string_def absorb_def)

lemma absorb_in_string [simp]:
  "in_string s \<Longrightarrow> in_string (fst (absorb t (s, ev)))" "jf_escape (fst (absorb t (s, ev))) = jf_escape s"
  "jf_state (fst (absorb t (s, ev))) = jf_state s"
  by (auto simp: absorb_def in_string_def)

lemma in_string_escape [simp]: "in_string (s\<lparr>jf_escape := e\<rparr>) = in_string s"
  by (simp add: in_string_def)

lemma pending_push: "e \<noteq> [] \<Longrightarrow> escape_complete (e @ [c]) = Inr False \<Longrightarrow> string_push u c e = Inr (StepPending, e @ [c])"
  by (simp add: string_push_def)

lemma complete_push:
  "e \<noteq> [] \<Longrightarrow> escape_complete (e @ [c]) = Inr True \<Longrightarrow> u (e @ [c]) = Inr t \<Longrightarrow> string_push u c e = Inr (StepText t, [])"
  by (simp add: string_push_def)

text \<open>A run of an escape: every character but the last leaves it pending.\<close>

fun stays_pending :: "code list \<Rightarrow> code list \<Rightarrow> bool" where
  "stays_pending e [] \<longleftrightarrow> True"
| "stays_pending e (c # cs) \<longleftrightarrow> escape_complete (e @ [c]) = Inr False \<and> stays_pending (e @ [c]) cs"

lemma escape_run:
  assumes "in_string s" "jf_escape s \<noteq> []" "u (jf_escape s @ cs @ [c]) = Inr t"
    and "stays_pending (jf_escape s) cs"
    and "escape_complete (jf_escape s @ cs @ [c]) = Inr True"
  shows "fold_ok (consume u) (cs @ [c]) (s, ev) = Inr (absorb t (s\<lparr>jf_escape := []\<rparr>, ev))"
  using assms
proof (induction cs arbitrary: s)
  case Nil
  then show ?case by (simp add: consume_text complete_push)
next
  case (Cons x cs)
  have 1: "consume u x (s, ev) = Inr (s\<lparr>jf_escape := jf_escape s @ [x]\<rparr>, ev)"
    using Cons.prems(1,2,4) by (intro consume_pending pending_push) auto
  then show ?case using Cons.IH[of "s\<lparr>jf_escape := jf_escape s @ [x]\<rparr>"] Cons.prems by simp
qed

lemma backslash_pending: "string_push u backslash [] = Inr (StepPending, [backslash])"
  by (simp add: string_push_def code_defs)

lemma piece_read:
  assumes "in_string s" "jf_escape s = []" "piece_ok u p"
  shows "fold_ok (consume u) (piece_src p) (s, ev) = Inr (absorb (the (piece_text u p)) (s, ev))"
proof -
  have s: "s\<lparr>jf_escape := []\<rparr> = s" using assms(2) by simp
  let ?s = "s\<lparr>jf_escape := [backslash]\<rparr>"
  have first: "consume u backslash (s, ev) = Inr (?s, ev)"
    using assms(1,2) backslash_pending by (intro consume_pending) simp_all
  have esc: "fold_ok (consume u) (backslash # cs @ [c]) (s, ev) = Inr (absorb t (s, ev))"
    if "u (backslash # cs @ [c]) = Inr t" "stays_pending [backslash] cs"
      "escape_complete (backslash # cs @ [c]) = Inr True" for cs c t
    using escape_run[of ?s u cs c t ev] first assms(1) s that by simp
  show ?thesis
  proof (cases p)
    case (Plain c)
    then have "string_push u c (jf_escape s) = Inr (StepText [c], [])"
      using assms(2,3) by (auto simp: piece_ok_def string_push_def)
    then show ?thesis using consume_text[OF assms(1)] Plain s by simp
  next
    case (Simple c)
    then obtain t where "u [backslash, c] = Inr t" using assms(3) by (auto simp: piece_ok_def split: sum.splits)
    then show ?thesis using esc[of "[]" c t] Simple assms(3) escape_simple by (simp add: piece_ok_def)
  next
    case (Unicode h)
    then obtain a b c d where h: "h = [a, b, c, d]" "is_hex a" "is_hex b" "is_hex c" "is_hex d" "\<not> is_high h"
      using assms(3) hex4_cases[of h] by (auto simp: piece_ok_def)
    obtain t where t: "u [backslash, 117, a, b, c, d] = Inr t"
      using assms(3) Unicode h(1) by (auto simp: piece_ok_def split: sum.splits)
    show ?thesis
      using esc[of "[117, a, b, c]" d t] t h escape_prefixes[OF h(2-5)] Unicode
      by simp
  next
    case (Surrogates h l)
    then have hl: "hex4 h" "is_high h" "hex4 l" using assms(3) by (auto simp: piece_ok_def)
    obtain a b c d where h: "h = [a, b, c, d]" "is_hex a" "is_hex b" "is_hex c" "is_hex d" "is_high h"
      using hex4_cases[OF hl(1)] hl(2) by blast
    obtain e f g k where l: "l = [e, f, g, k]" "is_hex e" "is_hex f" "is_hex g" "is_hex k"
      using hex4_cases[OF hl(3)] by blast
    obtain t where t: "u [backslash, 117, a, b, c, d, backslash, 117, e, f, g, k] = Inr t"
      using assms(3) Surrogates h(1) l(1) by (auto simp: piece_ok_def split: sum.splits)
    show ?thesis
      using esc[of "[117, a, b, c, d, backslash, 117, e, f, g]" k t] t h l
        escape_prefixes[OF h(2-5)] escape_surrogates[OF h(2-5) l(2-5)] Surrogates
      by simp
  qed
qed


section \<open>Reading a text\<close>

text \<open>From one state the reader gets through a text into another, reporting these characters.\<close>

definition reads ::
    "(code list \<Rightarrow> string + code list) \<Rightarrow> json_fields \<Rightarrow> code list \<Rightarrow> (code list \<times> code option) list \<Rightarrow> json_fields \<Rightarrow> bool" where
  "reads u s cs g s' \<longleftrightarrow> view (fold_ok (consume u) cs (s, [])) = Inr (s', g)"

lemma reads_Nil [simp]: "reads u s [] [] s"
  by (simp add: reads_def)

lemma reads_append: "reads u s a g s1 \<Longrightarrow> reads u s1 b h s2 \<Longrightarrow> reads u s (a @ b) (g @ h) s2"
proof -
  assume a: "reads u s a g s1" and b: "reads u s1 b h s2"
  obtain ev where ev: "fold_ok (consume u) a (s, []) = Inr (s1, ev)" "flats ev = g"
    using a by (cases "fold_ok (consume u) a (s, [])") (auto simp: reads_def view_def)
  then show ?thesis using b fold_view[of u b s1 ev] by (simp add: reads_def fold_ok_append)
qed

lemma reads_Cons: "reads u s [c] g s1 \<Longrightarrow> reads u s1 b h s2 \<Longrightarrow> reads u s (c # b) (g @ h) s2"
  using reads_append[of u s "[c]"] by simp

lemma reads_one: "consume u c (s, []) = Inr (s', ev) \<Longrightarrow> flats ev = g \<Longrightarrow> reads u s [c] g s'"
  by (simp add: reads_def)

lemma reads_spaces:
  assumes "list_all is_whitespace w" "jf_state s \<in> {AtKey, AtColon, AtValue, AfterValue}"
  shows "reads u s w [] s"
  using assms(1)
proof (induction w)
  case (Cons c w)
  then have "c \<noteq> quote" "c \<noteq> colon" "c \<noteq> comma" "c \<noteq> rbrace" "is_whitespace c"
    by (auto simp: is_whitespace_def code_defs)
  then have "consume u c (s, []) = Inr (s, [])" using assms(2) by (auto simp: consume_def)
  then have "reads u s [c] [] s" by (intro reads_one[where ev = "[]"]) simp_all
  then show ?case using reads_Cons[of u s c "[]" s w "[]" s] Cons by simp
qed simp

lemma reads_piece:
  assumes "jf_escape s = []" "piece_ok u p"
  shows "jf_state s = InValue \<Longrightarrow> reads u s (piece_src p) (map (\<lambda>c. (jf_key s, Some c)) (the (piece_text u p))) s"
    and "jf_state s = InKey \<Longrightarrow> reads u s (piece_src p) [] (s\<lparr>jf_key := jf_key s @ the (piece_text u p)\<rparr>)"
  using piece_read[OF _ assms, of "[]"] by (simp_all add: reads_def in_string_def absorb_def)

lemma reads_pieces_value:
  assumes "jf_escape s = []" "jf_state s = InValue" "list_all (piece_ok u) ps"
  shows "reads u s (concat (map piece_src ps)) (map (\<lambda>c. (jf_key s, Some c)) (pieces_text u ps)) s"
  using assms(3)
proof (induction ps)
  case (Cons p ps)
  then show ?case
    using reads_append[OF reads_piece(1)[OF assms(1) _ assms(2)]] by (simp add: pieces_text_def)
qed (simp add: pieces_text_def)

lemma reads_pieces_key:
  assumes "jf_escape s = []" "jf_state s = InKey" "list_all (piece_ok u) ps"
  shows "reads u s (concat (map piece_src ps)) [] (s\<lparr>jf_key := jf_key s @ pieces_text u ps\<rparr>)"
  using assms
proof (induction ps arbitrary: s)
  case (Cons p ps)
  let ?s = "s\<lparr>jf_key := jf_key s @ the (piece_text u p)\<rparr>"
  have "reads u s (piece_src p) [] ?s" using Cons.prems by (intro reads_piece(2)) simp_all
  moreover have "reads u ?s (concat (map piece_src ps)) [] (?s\<lparr>jf_key := jf_key ?s @ pieces_text u ps\<rparr>)"
    using Cons.prems by (intro Cons.IH) simp_all
  ultimately show ?case using reads_append by (fastforce simp: pieces_text_def)
qed (simp add: pieces_text_def)

lemma reads_key:
  assumes "jf_state s = AtKey" "list_all (piece_ok u) ps"
  shows "reads u s (string_src ps) [] (s\<lparr>jf_key := pieces_text u ps, jf_escape := [], jf_state := AtColon\<rparr>)"
proof -
  let ?s1 = "s\<lparr>jf_state := InKey, jf_key := [], jf_escape := []\<rparr>"
  let ?s2 = "?s1\<lparr>jf_key := pieces_text u ps\<rparr>"
  have 1: "reads u s [quote] [] ?s1"
    by (rule reads_one[where ev = "[]"]) (simp_all add: consume_def assms(1))
  have 2: "reads u ?s1 (concat (map piece_src ps)) [] ?s2"
    using reads_pieces_key[of ?s1 u ps] assms(2) by simp
  have 3: "reads u ?s2 [quote] [] (?s2\<lparr>jf_escape := [], jf_state := AtColon\<rparr>)"
    by (rule reads_one[where ev = "[]"]) (simp_all add: consume_def string_push_def)
  show ?thesis using reads_append[OF 1 reads_append[OF 2 3]] by (simp add: string_src_def)
qed

lemma reads_string_value:
  assumes "jf_state s = AtValue" "list_all (piece_ok u) ps"
  shows "reads u s (string_src ps) (map (\<lambda>c. (jf_key s, Some c)) (pieces_text u ps) @ [(jf_key s, None)])
    (s\<lparr>jf_escape := [], jf_state := AfterValue\<rparr>)"
proof -
  let ?s1 = "s\<lparr>jf_state := InValue, jf_escape := []\<rparr>"
  have 1: "reads u s [quote] [] ?s1"
    by (rule reads_one[where ev = "[]"]) (simp_all add: consume_def assms(1))
  have 2: "reads u ?s1 (concat (map piece_src ps)) (map (\<lambda>c. (jf_key s, Some c)) (pieces_text u ps)) ?s1"
    using reads_pieces_value[of ?s1 u ps] assms(2) by simp
  have 3: "reads u ?s1 [quote] [(jf_key s, None)] (?s1\<lparr>jf_escape := [], jf_state := AfterValue\<rparr>)"
    by (rule reads_one[where ev = "[FieldEnd (jf_key s)]"]) (simp_all add: consume_def string_push_def)
  show ?thesis using reads_append[OF 1 reads_append[OF 2 3]] by (simp add: string_src_def)
qed


section \<open>Skipped values\<close>

definition quiet :: "skipped_value \<Rightarrow> bool" where
  "quiet k \<longleftrightarrow> \<not> sk_string k \<and> \<not> sk_escaped k"

text \<open>A text the skipping goes through without ending the value, and what it leaves.\<close>

definition skips ::
    "skipped_value \<Rightarrow> code list \<Rightarrow> skipped_value \<Rightarrow> bool" where
  "skips k cs k' \<longleftrightarrow> (\<forall>u s. jf_state s = InSkipped \<longrightarrow> jf_skipped s = k \<longrightarrow> reads u s cs [] (s\<lparr>jf_skipped := k'\<rparr>))"

lemma skips_Nil [simp]: "skips k [] k"
  by (auto simp: skips_def)

lemma skips_append: "skips k a k' \<Longrightarrow> skips k' b k'' \<Longrightarrow> skips k (a @ b) k''"
  unfolding skips_def
proof (intro allI impI)
  fix u and s :: json_fields
  assume a: "\<forall>u s. jf_state s = InSkipped \<longrightarrow> jf_skipped s = k \<longrightarrow> reads u s a [] (s\<lparr>jf_skipped := k'\<rparr>)"
    and b: "\<forall>u s. jf_state s = InSkipped \<longrightarrow> jf_skipped s = k' \<longrightarrow> reads u s b [] (s\<lparr>jf_skipped := k''\<rparr>)"
    and s: "jf_state s = InSkipped" "jf_skipped s = k"
  have "reads u s a [] (s\<lparr>jf_skipped := k'\<rparr>)" using a s by blast
  moreover have "reads u (s\<lparr>jf_skipped := k'\<rparr>) b [] (s\<lparr>jf_skipped := k'\<rparr>\<lparr>jf_skipped := k''\<rparr>)"
    using b[rule_format, of "s\<lparr>jf_skipped := k'\<rparr>" u] s by simp
  ultimately show "reads u s (a @ b) [] (s\<lparr>jf_skipped := k''\<rparr>)" using reads_append[of u s a "[]"] by fastforce
qed

lemma skips_one:
  "sk_string k \<or> 0 < sk_depth k \<or> c \<noteq> comma \<and> c \<noteq> rbrace \<Longrightarrow> skips k [c] (skip_observe c k)"
  unfolding skips_def by (auto intro!: reads_one[where ev = "[]"] simp: consume_def skip_push_def)

lemma skips_Cons:
  "sk_string k \<or> 0 < sk_depth k \<or> c \<noteq> comma \<and> c \<noteq> rbrace \<Longrightarrow> skips (skip_observe c k) cs k' \<Longrightarrow> skips k (c # cs) k'"
  using skips_append[OF skips_one, of k c cs k'] by simp

lemma skipped_same:
  "\<not> sk_string k \<Longrightarrow> k\<lparr>sk_string := False\<rparr> = k" "\<not> sk_escaped k \<Longrightarrow> k\<lparr>sk_escaped := False\<rparr> = k"
  for k :: skipped_value
  by (cases k; simp)+

text \<open>Inside a string only an unescaped quote counts.\<close>

lemma hex_plain: "is_hex c \<Longrightarrow> c \<noteq> quote \<and> c \<noteq> backslash"
  by (auto simp: is_hex_def code_defs)

lemma skips_plain:
  "sk_string k \<Longrightarrow> \<not> sk_escaped k \<Longrightarrow> \<forall>c\<in>set cs. c \<noteq> quote \<and> c \<noteq> backslash \<Longrightarrow> skips k cs k"
  by (induction cs) (auto intro!: skips_Cons simp: skip_observe_def)

lemma skips_escape:
  assumes "sk_string k" "\<not> sk_escaped k" "\<forall>c\<in>set cs. c \<noteq> quote \<and> c \<noteq> backslash"
  shows "skips k (backslash # c # cs) k"
proof (rule skips_Cons)
  show "skips (skip_observe backslash k) (c # cs) k"
    by (rule skips_Cons) (use assms skips_plain[OF assms] in \<open>simp_all add: skip_observe_def skipped_same\<close>)
qed (use assms in simp)

lemma skips_piece:
  assumes "sk_string k" "\<not> sk_escaped k" "piece_form p"
  shows "skips k (piece_src p) k"
proof (cases p)
  case (Plain c)
  then show ?thesis using assms skips_plain[OF assms(1,2), of "[c]"] by simp
next
  case (Simple c)
  then show ?thesis using skips_escape[OF assms(1,2), of "[]" c] by simp
next
  case (Unicode h)
  then have "\<forall>c\<in>set h. c \<noteq> quote \<and> c \<noteq> backslash" using assms(3) hex_plain by (auto simp: hex4_def list_all_iff)
  then show ?thesis using skips_escape[OF assms(1,2), of h 117] Unicode by simp
next
  case (Surrogates h l)
  then have "\<forall>c\<in>set h. c \<noteq> quote \<and> c \<noteq> backslash" "\<forall>c\<in>set l. c \<noteq> quote \<and> c \<noteq> backslash"
    using assms(3) hex_plain by (auto simp: hex4_def list_all_iff)
  then show ?thesis
    using skips_append[OF skips_escape[OF assms(1,2), of h 117] skips_escape[OF assms(1,2), of l 117]] Surrogates by simp
qed

lemma skips_string:
  assumes "quiet k" "list_all piece_form ps"
  shows "skips k (string_src ps) k"
proof -
  let ?k = "k\<lparr>sk_string := True\<rparr>"
  have "skips ?k (concat (map piece_src ps)) ?k"
    using assms(2) by (induction ps) (use assms(1) in \<open>auto intro!: skips_append skips_piece simp: quiet_def\<close>)
  moreover have "skips ?k [quote] k"
    using skips_one[of ?k quote] assms(1) by (simp add: skip_observe_def quiet_def code_defs skipped_same)
  ultimately have "skips ?k (concat (map piece_src ps) @ [quote]) k" by (rule skips_append)
  then show ?thesis
    unfolding string_src_def using assms(1) by (intro skips_Cons) (simp_all add: skip_observe_def quiet_def code_defs)
qed

lemma observe_plain: "quiet k \<Longrightarrow> c \<notin> {quote, lbrace, lbracket, rbrace, rbracket} \<Longrightarrow> skip_observe c k = k"
  by (simp add: skip_observe_def quiet_def)

lemma skips_atom: "plain_atom cs \<Longrightarrow> quiet k \<Longrightarrow> 0 < sk_depth k \<or> comma \<notin> set cs \<Longrightarrow> skips k cs k"
proof (induction cs)
  case (Cons c cs)
  then show ?case
    using skips_Cons[of k c cs k] observe_plain[of k c] by (auto simp: plain_atom_def)
qed simp

lemma observe_bracket:
  "quiet k \<Longrightarrow> skip_observe (if b then lbrace else lbracket) k = k\<lparr>sk_depth := sk_depth k + 1\<rparr>"
  "quiet k \<Longrightarrow> skip_observe (if b then rbrace else rbracket) k = k\<lparr>sk_depth := sk_depth k - 1\<rparr>"
  by (simp_all add: skip_observe_def quiet_def code_defs)

lemma skips_raw:
  "raw_form r \<Longrightarrow> quiet k \<Longrightarrow> 0 < sk_depth k \<Longrightarrow> skips k (raw_src r) k"
proof (induction r arbitrary: k)
  case (Atom cs)
  then show ?case by (simp add: skips_atom)
next
  case (Str ps)
  then show ?case by (simp add: skips_string)
next
  case (Group b rs)
  let ?k = "k\<lparr>sk_depth := sk_depth k + 1\<rparr>"
  have "\<forall>r\<in>set rs. skips ?k (raw_src r) ?k" using Group by (auto simp: list_all_iff quiet_def)
  then have "skips ?k (concat (map raw_src rs)) ?k" by (induction rs) (auto intro!: skips_append)
  moreover have "skips ?k [if b then rbrace else rbracket] k"
    using skips_one[of ?k "if b then rbrace else rbracket"] Group.prems(2) observe_bracket(2)[of ?k b]
    by (simp add: quiet_def)
  ultimately have "skips ?k (concat (map raw_src rs) @ [if b then rbrace else rbracket]) k" by (rule skips_append)
  then have "skips k ((if b then lbrace else lbracket) # concat (map raw_src rs) @ [if b then rbrace else rbracket]) k"
    using Group.prems(2,3) observe_bracket(1)[of k b] by (intro skips_Cons) simp_all
  then show ?case by simp
qed


section \<open>Objects\<close>

lemma skips_reads:
  "skips k cs k' \<Longrightarrow> jf_state s = InSkipped \<Longrightarrow> jf_skipped s = k \<Longrightarrow> reads u s cs [] (s\<lparr>jf_skipped := k'\<rparr>)"
  by (simp add: skips_def)

lemma quiet_empty [simp]: "quiet skip_empty" "sk_depth skip_empty = 0"
  by (simp_all add: quiet_def skip_empty_def)

lemma reads_skipped:
  assumes "jf_state s = AtValue" "c \<noteq> quote" "\<not> is_whitespace c" "skips (skip_observe c skip_empty) cs skip_empty"
  shows "reads u s (c # cs) [] (s\<lparr>jf_state := InSkipped, jf_skipped := skip_empty\<rparr>)"
proof -
  let ?s = "s\<lparr>jf_skipped := skip_observe c skip_empty, jf_state := InSkipped\<rparr>"
  have "reads u s [c] [] ?s"
    by (rule reads_one[where ev = "[]"]) (simp_all add: consume_def skip_start_def assms(1-3))
  moreover have "reads u ?s cs [] (?s\<lparr>jf_skipped := skip_empty\<rparr>)" using skips_reads[OF assms(4), of ?s u] by simp
  ultimately show ?thesis using reads_Cons[of u s c "[]" ?s cs "[]"] by simp
qed

lemma reads_raw_value:
  assumes "jf_state s = AtValue" "value_form r"
  shows "reads u s (raw_src r) [] (s\<lparr>jf_state := InSkipped, jf_skipped := skip_empty\<rparr>)"
proof (cases r)
  case (Atom cs)
  then obtain c cs' where c: "cs = c # cs'" using assms(2) by (cases cs) auto
  then have "plain_atom cs'" "comma \<notin> set cs'" "c \<noteq> quote" "\<not> is_whitespace c" "skip_observe c skip_empty = skip_empty"
    using assms(2) Atom observe_plain[of skip_empty c] by (auto simp: plain_atom_def)
  then show ?thesis using reads_skipped[OF assms(1), of c cs'] skips_atom[of cs' skip_empty] Atom c by simp
next
  case (Group b rs)
  let ?k = "skip_empty\<lparr>sk_depth := 1\<rparr>" and ?o = "if b then lbrace else lbracket" and ?c = "if b then rbrace else rbracket"
  have "\<forall>r\<in>set rs. skips ?k (raw_src r) ?k"
    using Group assms(2) skips_raw[of _ ?k] by (auto simp: list_all_iff quiet_def skip_empty_def)
  then have "skips ?k (concat (map raw_src rs)) ?k" by (induction rs) (auto intro!: skips_append)
  moreover have "skips ?k [?c] skip_empty"
    using skips_one[of ?k ?c] observe_bracket(2)[of ?k b] by (simp add: quiet_def skip_empty_def)
  ultimately have "skips ?k (concat (map raw_src rs) @ [?c]) skip_empty" by (rule skips_append)
  moreover have "?o \<noteq> quote" "\<not> is_whitespace ?o" by (auto simp: code_defs is_whitespace_def)
  ultimately have "reads u s (?o # concat (map raw_src rs) @ [?c]) [] (s\<lparr>jf_state := InSkipped, jf_skipped := skip_empty\<rparr>)"
    using observe_bracket(1)[of skip_empty b] by (intro reads_skipped[OF assms(1)]) simp_all
  then show ?thesis using Group by simp
qed (use assms(2) in simp)

definition at_end :: "json_fields \<Rightarrow> bool" where
  "at_end s \<longleftrightarrow> jf_state s = AfterValue \<or> jf_state s = InSkipped \<and> jf_skipped s = skip_empty"

lemma reads_value:
  assumes "jf_state s = AtValue" "case v of VString ps \<Rightarrow> list_all (piece_ok u) ps | VRaw r \<Rightarrow> value_form r" "jf_key s = k"
  shows "\<exists>s'. at_end s' \<and> reads u s (value_src v)
    (case v of VString ps \<Rightarrow> map (\<lambda>c. (k, Some c)) (pieces_text u ps) @ [(k, None)] | VRaw r \<Rightarrow> []) s'"
proof (cases v)
  case (VString ps)
  then show ?thesis using reads_string_value[OF assms(1), of u ps] assms(2,3) by (intro exI conjI) (auto simp: at_end_def)
next
  case (VRaw r)
  then show ?thesis using reads_raw_value[OF assms(1), of r u] assms(2) by (intro exI conjI) (auto simp: at_end_def)
qed

lemma space_plain: "is_whitespace c \<Longrightarrow> c \<notin> {quote, lbrace, lbracket, rbrace, rbracket, comma}"
  by (auto simp: is_whitespace_def code_defs)

lemma skipped_kept: "jf_skipped s = k \<Longrightarrow> s\<lparr>jf_skipped := k\<rparr> = s" for s :: json_fields
  by (cases s) simp

lemma reads_trailing: "at_end s \<Longrightarrow> list_all is_whitespace w \<Longrightarrow> reads u s w [] s"
proof -
  assume a: "at_end s" "list_all is_whitespace w"
  then have "skips skip_empty w skip_empty"
    using space_plain by (intro skips_atom) (auto simp: plain_atom_def list_all_iff)
  then show ?thesis
    using a reads_spaces[of w s u] skips_reads[of skip_empty w skip_empty s u] by (auto simp: at_end_def skipped_kept)
qed

lemma reads_member:
  assumes "jf_state s = AtKey" "member_ok u m"
  shows "\<exists>s'. at_end s' \<and> reads u s (member_src m) (member_flat u m) s'"
proof -
  obtain w1 w2 w3 w4 where w: "mb_spaces m = (w1, w2, w3, w4)" by (cases "mb_spaces m")
  let ?k = "pieces_text u (mb_key m)" and ?v = "mb_value m"
  have ws: "list_all is_whitespace w1" "list_all is_whitespace w2" "list_all is_whitespace w3" "list_all is_whitespace w4"
    and ok: "list_all (piece_ok u) (mb_key m)" "case ?v of VString ps \<Rightarrow> list_all (piece_ok u) ps | VRaw r \<Rightarrow> value_form r"
    using assms(2) w by (simp_all add: member_ok_def)
  let ?s1 = "s\<lparr>jf_key := ?k, jf_escape := [], jf_state := AtColon\<rparr>" let ?s2 = "?s1\<lparr>jf_state := AtValue\<rparr>"
  have c: "reads u ?s1 [colon] [] ?s2" by (rule reads_one[where ev = "[]"]) (simp_all add: consume_def)
  obtain s' where s': "at_end s'" "reads u ?s2 (value_src ?v)
      (case ?v of VString ps \<Rightarrow> map (\<lambda>c. (?k, Some c)) (pieces_text u ps) @ [(?k, None)] | VRaw r \<Rightarrow> []) s'"
    using reads_value[of ?s2 u ?v ?k, OF _ ok(2)] by auto
  have "reads u s (w1 @ string_src (mb_key m) @ w2 @ [colon] @ w3 @ value_src ?v @ w4)
      ([] @ [] @ [] @ [] @ [] @ (case ?v of VString ps \<Rightarrow> map (\<lambda>c. (?k, Some c)) (pieces_text u ps) @ [(?k, None)]
        | VRaw r \<Rightarrow> []) @ []) s'"
    by (intro reads_append[OF reads_spaces[OF ws(1)]] reads_append[OF reads_key[OF assms(1) ok(1)]]
        reads_append[OF reads_spaces[OF ws(2)]] reads_append[OF c] reads_append[OF reads_spaces[OF ws(3)]]
        reads_append[OF s'(2)] reads_trailing[OF s'(1) ws(4)]) (use assms(1) in simp_all)
  then show ?thesis using s'(1) w by (auto simp: member_src_def member_flat_def Let_def)
qed

lemma at_end_next:
  assumes "at_end s"
  shows "\<exists>s'. jf_state s' = AtKey \<and> reads u s [comma] [] s'" "\<exists>s'. jf_state s' = AtDone \<and> reads u s [rbrace] [] s'"
  using assms
  by (auto simp: at_end_def reads_def consume_def skip_push_def skip_empty_def view_def code_defs)

lemma reads_members:
  "jf_state s = AtKey \<Longrightarrow> list_all (member_ok u) ms \<Longrightarrow>
   \<exists>s'. jf_state s' = AtDone \<and> reads u s (members_src ms @ [rbrace]) (concat (map (member_flat u) ms)) s'"
proof (induction ms arbitrary: s rule: members_src.induct)
  case 1
  have "reads u s [rbrace] [] (s\<lparr>jf_state := AtDone\<rparr>)"
    by (rule reads_one[where ev = "[]"]) (use 1 in \<open>simp_all add: consume_def code_defs\<close>)
  then show ?case by (intro exI[of _ "s\<lparr>jf_state := AtDone\<rparr>"]) simp
next
  case (2 m)
  then obtain s1 where s1: "at_end s1" "reads u s (member_src m) (member_flat u m) s1" using reads_member by fastforce
  obtain s2 where "jf_state s2 = AtDone" "reads u s1 [rbrace] [] s2" using at_end_next(2)[OF s1(1)] by blast
  then show ?case using reads_append[OF s1(2)] by fastforce
next
  case (3 m m' ms)
  obtain s1 where s1: "at_end s1" "reads u s (member_src m) (member_flat u m) s1" using reads_member 3 by fastforce
  obtain s2 where s2: "jf_state s2 = AtKey" "reads u s1 [comma] [] s2" using at_end_next(1)[OF s1(1)] by blast
  obtain s3 where s3: "jf_state s3 = AtDone"
      "reads u s2 (members_src (m' # ms) @ [rbrace]) (concat (map (member_flat u) (m' # ms))) s3"
    using 3(1)[OF s2(1)] 3(3) by auto
  show ?case using s3(1) reads_append[OF s1(2) reads_append[OF s2(2) s3(2)]] by auto
qed

lemma object_flats:
  assumes "list_all (member_ok u) ms" "concat chunks = object_src ms"
  shows "\<exists>s ev. push_chunks u chunks json_fields_new = Inr (s, ev) \<and> jf_state s = AtDone
    \<and> flats ev = concat (map (member_flat u) ms)"
proof -
  let ?s = "json_fields_new\<lparr>jf_state := AtKey\<rparr>"
  have "reads u json_fields_new [lbrace] [] ?s"
    by (rule reads_one[where ev = "[]"]) (simp_all add: consume_def json_fields_new_def)
  moreover obtain s where s: "jf_state s = AtDone" "reads u ?s (members_src ms @ [rbrace]) (concat (map (member_flat u) ms)) s"
    using reads_members[of ?s u ms] assms(1) by auto
  ultimately have "reads u json_fields_new (object_src ms) (concat (map (member_flat u) ms)) s"
    unfolding object_src_def using reads_append by fastforce
  then have "view (push_chunks u chunks json_fields_new) = Inr (s, concat (map (member_flat u) ms))"
    using push_chunks_view[of u chunks json_fields_new] assms(2) by (simp add: reads_def push_fields_def)
  then show ?thesis using s(1) by (cases "push_chunks u chunks json_fields_new") (auto simp: view_def)
qed

text \<open>
  C39: the strings of an object are streamed exactly. However the JSON text of an object is cut into pieces,
  the reader gets through it to its end and reports, for every member with a string value, in order,
  its name with each character of the decoded value and then its end, and nothing for the other
  values, however they are nested.
\<close>
theorem object_strings_are_streamed:
  assumes "list_all (member_ok u) ms" "concat chunks = object_src ms"
  shows "\<exists>s ev. push_chunks u chunks json_fields_new = Inr (s, ev) \<and> jf_state s = AtDone
    \<and> flats ev = concat (map (member_flat u) ms)"
  using object_flats[OF assms] .


lemma object_strings_are_streamed_witness:
  "\<exists>s ev. push_chunks (\<lambda>e. Inr [10]) [[123, 34, 97, 34, 58, 32, 34, 98, 92], [110, 34, 44, 34, 107, 34, 58, 91, 49, 44, 50, 93, 125]]
       json_fields_new = Inr (s, ev)
     \<and> jf_state s = AtDone \<and> flats ev = [([97], Some 98), ([97], Some 10), ([97], None)]"
proof -
  let ?u = "\<lambda>e :: code list. Inr [10] :: string + code list"
  let ?ms = "[\<lparr>mb_spaces = ([], [], [32], []), mb_key = [Plain 97], mb_value = VString [Plain 98, Simple 110]\<rparr>,
      \<lparr>mb_spaces = ([], [], [], []), mb_key = [Plain 107], mb_value = VRaw (Group False [Atom [49, 44, 50]])\<rparr>]"
  let ?chunks = "[[123, 34, 97, 34, 58, 32, 34, 98, 92], [110, 34, 44, 34, 107, 34, 58, 91, 49, 44, 50, 93, 125]]"
  have m: "list_all (member_ok ?u) ?ms"
    by (simp add: member_ok_def piece_ok_def is_whitespace_def code_defs simple_escapes_def plain_atom_def)
  have s: "concat ?chunks = object_src ?ms"
    by (simp add: object_src_def member_src_def string_src_def code_defs)
  show ?thesis
    using object_strings_are_streamed[OF m s] by (simp del: push_chunks.simps add: member_flat_def pieces_text_def Let_def)
qed

end
