(* ===== verification/RunEvents.thy ===== *)
theory RunEvents
  imports EnginePolicy
begin

text \<open>
  The events a run sends its client (src/server/src/run/event.rs) and the events a provider stream
  yields (src/server/src/provider/event.rs).
\<close>

record messages_committed =
  mc_checkpoint :: checkpoint_id
  mc_round_version :: nat
  mc_cause :: commit_cause
  mc_barrier :: commit_barrier

datatype run_event =
    AutoCompactionStarted
  | AutoCompactionCompleted
  | CycleInterrupted
  | Heartbeat
  | ModelAttemptFailed nat string
  | RTextStart
  | RTextDelta string
  | RTextEnd
  | RThinkingStart
  | RThinkingDelta string
  | RThinkingEnd nat
  | RToolCallStart nat string string string
  | RToolCallArgumentsDelta nat string
  | RToolCallEnd nat
  | RUsageSnapshot usage
  | RUsage usage
  | ExecuteToolRound string "tool_call list"
  | MessagesCommitted messages_committed
  | RunEndedEvent run_outcome

datatype finish_reason = FStop | FLength | FToolUse

datatype model_event =
    EStart string
  | ETextStart
  | ETextDelta string
  | ETextEnd
  | EThinkingStart
  | EThinkingDelta string
  | EThinkingSignature string
  | EThinkingEnd
  | EToolCallStart nat string string
  | EToolCallArgumentsDelta nat string
  | EToolCallEnd nat
  | EReplayState provider_replay_state
  | EUsage usage
  | EStopSequence string
  | EDone finish_reason

fun is_valid_response_event :: "model_event \<Rightarrow> bool" where
  "is_valid_response_event (ETextDelta _) = True"
| "is_valid_response_event EThinkingStart = True"
| "is_valid_response_event (EThinkingDelta _) = True"
| "is_valid_response_event EThinkingEnd = True"
| "is_valid_response_event (EToolCallStart _ _ _) = True"
| "is_valid_response_event (EToolCallArgumentsDelta _ _) = True"
| "is_valid_response_event (EToolCallEnd _) = True"
| "is_valid_response_event _ = False"

end
