(* ===== verification/ModelCycle.thy ===== *)
theory ModelCycle
  imports RunEvents
begin

text \<open>
  One streaming provider call consumed (src/server/src/run/model_cycle.rs). What the loop waits for is its
  input: the next item of the provider's stream, the end of the stream, or the cancellation, each with
  the reading of the clock and whether the client's channel still takes events. JSON parsing (serde_json)
  is an argument.
\<close>

section \<open>State and results\<close>

record model_cycle_result =
  cr_model_call_id :: string
  cr_text :: string
  cr_reasoning :: string
  cr_replay :: "provider_replay_state option"
  cr_calls :: "tool_call list"
  cr_usage :: "usage option"
  cr_finish :: finish_reason

record model_cycle_failure = cycle_failure +
  partial_text :: string
  partial_reasoning :: string
  failed_replay :: "provider_replay_state option"
  failed_usage :: "usage option"

record open_tool =
  ot_call :: tool_call
  ot_ended :: bool

record cycle_state =
  cy_id :: "string option"
  cy_text :: string
  cy_reasoning :: string
  cy_text_open :: bool
  cy_thinking :: "nat option"
  cy_tools :: "(nat \<times> open_tool) list"
  cy_call_ids :: "string set"
  cy_replay :: "provider_replay_state option"
  cy_usage :: "usage option"
  cy_finish :: "finish_reason option"
  cy_sent :: "run_event list"

definition cycle_new :: cycle_state where
  "cycle_new =
     \<lparr>cy_id = None, cy_text = [], cy_reasoning = [], cy_text_open = False, cy_thinking = None, cy_tools = [],
      cy_call_ids = {}, cy_replay = None, cy_usage = None, cy_finish = None, cy_sent = []\<rparr>"

datatype cycle_input = CItem "error + model_event" | CEnd bool | CCancel

text \<open>A reading: the input, the time, whether the channel takes events; the client, if there is one.\<close>

record reading =
  rd_input :: cycle_input
  rd_now :: nat
  rd_open :: bool


section \<open>Failures\<close>

text \<open>\<open>split_once(": ")\<close>: the part before it, the whole text when there is none.\<close>

fun before_colon :: "string \<Rightarrow> string" where
  "before_colon [] = []"
| "before_colon [c] = [c]"
| "before_colon (c # d # cs) = (if c = CHR '':'' \<and> d = CHR '' '' then [] else c # before_colon (d # cs))"

fun split_whitespace :: "string \<Rightarrow> string list" where
  "split_whitespace [] = []"
| "split_whitespace (c # cs) =
     (if is_space c then split_whitespace cs
      else (case cs of
              [] \<Rightarrow> [[c]]
            | d # _ \<Rightarrow> (if is_space d then [c] # split_whitespace cs
                       else (case split_whitespace cs of [] \<Rightarrow> [[c]] | w # ws \<Rightarrow> (c # w) # ws))))"

definition is_rejected_request :: "string \<Rightarrow> bool" where
  "is_rejected_request message =
     list_ex (\<lambda>token. length token = 3 \<and> hd token = CHR ''4'' \<and> list_all is_ascii_digit token
                \<and> token \<notin> {''408'', ''425'', ''429''})
       (split_whitespace (before_colon message))"

definition failure_retryable :: "run_failure \<Rightarrow> bool" where
  "failure_retryable f =
     (case f of
        FProtocol _ \<Rightarrow> True
      | FProvider m \<Rightarrow> \<not> is_rejected_request m
      | FTruncated _ \<Rightarrow> False
      | FStore _ \<Rightarrow> False
      | FClient _ \<Rightarrow> False)"

definition failure :: "run_failure \<Rightarrow> cycle_state \<Rightarrow> model_cycle_failure" where
  "failure f s =
     \<lparr>cf_failure = f, retryable = failure_retryable f, partial_text = cy_text s,
      partial_reasoning = cy_reasoning s, failed_replay = None, failed_usage = cy_usage s\<rparr>"

definition terminal_failure :: "run_failure \<Rightarrow> cycle_state \<Rightarrow> model_cycle_failure" where
  "terminal_failure f s =
     \<lparr>cf_failure = f, retryable = False, partial_text = cy_text s,
      partial_reasoning = cy_reasoning s, failed_replay = None, failed_usage = cy_usage s\<rparr>"


section \<open>Events\<close>

text \<open>Sending to the client: without one nothing is sent and nothing fails.\<close>

definition send :: "bool \<Rightarrow> bool \<Rightarrow> run_event \<Rightarrow> cycle_state \<Rightarrow> (string + unit) \<times> cycle_state" where
  "send client open e s =
     (if \<not> client then (Inr (), s)
      else if open then (Inr (), s\<lparr>cy_sent := cy_sent s @ [e]\<rparr>)
      else (Inl ''client event channel closed'', s))"

definition interrupt_cycle :: "bool \<Rightarrow> bool \<Rightarrow> nat \<Rightarrow> cycle_state \<Rightarrow> cycle_state" where
  "interrupt_cycle client open now s =
     (let s1 = (if cy_text_open s then snd (send client open RTextEnd s) else s)
      in case cy_thinking s of
           None \<Rightarrow> s1
         | Some started \<Rightarrow> snd (send client open (RThinkingEnd (now - started)) (s1\<lparr>cy_thinking := None\<rparr>)))"

definition parsed_arguments ::
    "(string \<Rightarrow> string + json) \<Rightarrow> tool_call \<Rightarrow> tool_call" where
  "parsed_arguments parse k =
     (case (if trim (arguments_text k) = [] then Inr (JObj []) else parse (arguments_text k)) of
        Inr v \<Rightarrow>
          (case v of
             JObj _ \<Rightarrow> k\<lparr>call_arguments := v\<rparr>
           | _ \<Rightarrow> k\<lparr>call_arguments := JObj [],
                  argument_error := Some (call_name k @ '' arguments must be a JSON object'')\<rparr>)
      | Inl e \<Rightarrow> k\<lparr>call_arguments := JObj [],
                 argument_error := Some (call_name k @ '' arguments are not valid JSON: '' @ e)\<rparr>)"

definition no_start :: string where "no_start = ''provider emitted content before Start''"

text \<open>
  The match on an event: Inl carries the message of a protocol failure. The match on \<open>Usage\<close> returns a
  client failure of its own when the channel is closed.
\<close>

definition on_event ::
    "(string \<Rightarrow> string + json) \<Rightarrow> bool \<Rightarrow> bool \<Rightarrow> nat \<Rightarrow> model_event \<Rightarrow> cycle_state
     \<Rightarrow> (run_failure + unit) \<times> cycle_state" where
  "on_event parse client open now e s =
     (let bad = (\<lambda>m s. (Inl (FProtocol m), s));
          fwd = (\<lambda>e s. case send client open e s of (Inl m, s') \<Rightarrow> (Inl (FProtocol m), s') | (Inr _, s') \<Rightarrow> (Inr (), s'))
      in case e of
        EStart i \<Rightarrow>
          (let s' = s\<lparr>cy_id := Some i\<rparr>
           in if cy_id s \<noteq> None then bad ''provider emitted duplicate Start'' s' else (Inr (), s'))
      | ETextStart \<Rightarrow>
          (if cy_id s = None then bad no_start s
           else if cy_text_open s then bad ''provider emitted duplicate TextStart'' s
           else fwd RTextStart (s\<lparr>cy_text_open := True\<rparr>))
      | ETextDelta d \<Rightarrow>
          (if \<not> cy_text_open s then bad ''provider emitted TextDelta before TextStart'' s
           else fwd (RTextDelta d) (s\<lparr>cy_text := cy_text s @ d\<rparr>))
      | ETextEnd \<Rightarrow>
          (if \<not> cy_text_open s then bad ''provider emitted TextEnd before TextStart'' s
           else fwd RTextEnd (s\<lparr>cy_text_open := False\<rparr>))
      | EThinkingStart \<Rightarrow>
          (if cy_id s = None then bad no_start s
           else
             (let s' = s\<lparr>cy_thinking := Some now\<rparr>
              in if cy_thinking s \<noteq> None then bad ''provider emitted duplicate ThinkingStart'' s'
                 else fwd RThinkingStart s'))
      | EThinkingDelta d \<Rightarrow>
          (if cy_thinking s = None then bad ''provider emitted ThinkingDelta before ThinkingStart'' s
           else fwd (RThinkingDelta d) (s\<lparr>cy_reasoning := cy_reasoning s @ d\<rparr>))
      | EThinkingSignature _ \<Rightarrow> (Inr (), s)
      | EStopSequence _ \<Rightarrow> (Inr (), s)
      | EThinkingEnd \<Rightarrow>
          (case cy_thinking s of
             None \<Rightarrow> bad ''provider emitted ThinkingEnd before ThinkingStart'' s
           | Some started \<Rightarrow> fwd (RThinkingEnd (now - started)) (s\<lparr>cy_thinking := None\<rparr>))
      | EToolCallStart index cid raw_name \<Rightarrow>
          (let name = normalize_tool_name raw_name
           in case cy_id s of
                None \<Rightarrow> bad no_start s
              | Some mid \<Rightarrow>
                  (if map_of (cy_tools s) index \<noteq> None then bad ''provider reused a tool index'' s
                   else if cid \<in> cy_call_ids s then bad ''provider reused a tool call_id'' s
                   else
                     fwd (RToolCallStart index cid name mid)
                       (s\<lparr>cy_call_ids := insert cid (cy_call_ids s),
                          cy_tools := smap_put index
                            \<lparr>ot_call = \<lparr>call_index = index, call_id = cid, model_call_id = mid, call_name = name,
                               arguments_text = [], call_arguments = JNull, argument_error = None\<rparr>,
                             ot_ended = False\<rparr> (cy_tools s)\<rparr>)))
      | EToolCallArgumentsDelta index d \<Rightarrow>
          (case map_of (cy_tools s) index of
             None \<Rightarrow> bad ''provider emitted tool arguments for an unknown index'' s
           | Some t \<Rightarrow>
               (if ot_ended t then bad ''provider emitted tool arguments after ToolCallEnd'' s
                else
                  fwd (RToolCallArgumentsDelta index d)
                    (s\<lparr>cy_tools := smap_put index
                        (t\<lparr>ot_call := (ot_call t)\<lparr>arguments_text := arguments_text (ot_call t) @ d\<rparr>\<rparr>) (cy_tools s)\<rparr>)))
      | EToolCallEnd index \<Rightarrow>
          (case map_of (cy_tools s) index of
             None \<Rightarrow> bad ''provider ended an unknown tool index'' s
           | Some t \<Rightarrow>
               (if ot_ended t then bad ''provider emitted duplicate ToolCallEnd'' s
                else
                  fwd (RToolCallEnd index)
                    (s\<lparr>cy_tools := smap_put index
                        (t\<lparr>ot_call := parsed_arguments parse (ot_call t), ot_ended := True\<rparr>) (cy_tools s)\<rparr>)))
      | EReplayState r \<Rightarrow>
          (let s' = s\<lparr>cy_replay := Some r\<rparr>
           in if cy_replay s \<noteq> None then bad ''provider emitted duplicate ProviderReplayState'' s' else (Inr (), s'))
      | EUsage u \<Rightarrow>
          (let s' = s\<lparr>cy_usage := Some u\<rparr>
           in if cy_usage s \<noteq> None then bad ''provider emitted duplicate Usage'' s'
              else case send client open (RUsage u) s' of
                (Inl m, s'') \<Rightarrow> (Inl (FClient ''client event channel closed''), s'')
              | (Inr _, s'') \<Rightarrow> (Inr (), s''))
      | EDone r \<Rightarrow>
          (if cy_id s = None then bad no_start s
           else if cy_text_open s \<or> cy_thinking s \<noteq> None \<or> (\<exists>t\<in>set (cy_tools s). \<not> ot_ended (snd t))
           then bad ''provider emitted Done with an open content block'' s
           else (Inr (), s\<lparr>cy_finish := Some r\<rparr>)))"


section \<open>The loop\<close>

definition cancelled_cycle :: "cycle_state \<Rightarrow> model_cycle_failure" where
  "cancelled_cycle s = failure (FClient ''run was cancelled'') s"

text \<open>What is done once the stream has ended.\<close>

definition finish_cycle :: "cycle_state \<Rightarrow> model_cycle_failure + model_cycle_result" where
  "finish_cycle s =
     (case cy_finish s of
        None \<Rightarrow> Inl (failure (FProvider ''provider stream reached EOF before Done'') s)
      | Some reason \<Rightarrow>
          (let calls = map (\<lambda>e. ot_call (snd e)) (cy_tools s)
           in if reason = FLength
              then Inl ((terminal_failure (FTruncated ''model stopped before completing the response'') s)
                          \<lparr>failed_replay := cy_replay s\<rparr>)
              else if (reason = FToolUse) \<noteq> (calls \<noteq> [])
              then Inl (failure (FProtocol ''finish reason and tool calls disagree'') s)
              else case cy_id s of
                None \<Rightarrow> Inl (failure (FProtocol ''provider completed without Start'') s)
              | Some i \<Rightarrow>
                  Inr \<lparr>cr_model_call_id = i, cr_text = cy_text s, cr_reasoning = cy_reasoning s,
                       cr_replay = cy_replay s, cr_calls = calls, cr_usage = cy_usage s, cr_finish = reason\<rparr>))"

text \<open>One turn: a result ends the loop.\<close>

definition cycle_turn ::
    "(string \<Rightarrow> string + json) \<Rightarrow> bool \<Rightarrow> reading \<Rightarrow> cycle_state
     \<Rightarrow> (model_cycle_failure + model_cycle_result) option \<times> cycle_state" where
  "cycle_turn parse client i s =
     (case rd_input i of
        CCancel \<Rightarrow> (Some (Inl (cancelled_cycle s)), interrupt_cycle client (rd_open i) (rd_now i) s)
      | CEnd cancelled \<Rightarrow>
          (if cancelled then (Some (Inl (cancelled_cycle s)), interrupt_cycle client (rd_open i) (rd_now i) s)
           else (Some (finish_cycle s), s))
      | CItem (Inl e) \<Rightarrow> (Some (Inl (failure (failure_of_error e) s)), s)
      | CItem (Inr e) \<Rightarrow>
          (if cy_finish s \<noteq> None then (Some (Inl (failure (FProtocol ''provider emitted an event after Done'') s)), s)
           else case on_event parse client (rd_open i) (rd_now i) e s of
             (Inl f, s') \<Rightarrow> (Some (Inl (failure f s')), s')
           | (Inr _, s') \<Rightarrow> (None, s')))"

text \<open>The whole call on the inputs it meets; None while it waits for more.\<close>

fun consume_model_cycle ::
    "(string \<Rightarrow> string + json) \<Rightarrow> bool \<Rightarrow> reading list \<Rightarrow> cycle_state
     \<Rightarrow> (model_cycle_failure + model_cycle_result) option \<times> cycle_state" where
  "consume_model_cycle parse client [] s = (None, s)"
| "consume_model_cycle parse client (i # is) s =
     (case cycle_turn parse client i s of
        (Some r, s') \<Rightarrow> (Some r, s')
      | (None, s') \<Rightarrow> consume_model_cycle parse client is s')"

end
