(* ===== verification/ModelCycleLaws.thy ===== *)
theory ModelCycleLaws
  imports ModelCycle
begin

text \<open>
  What a consumed provider call guarantees: its result says what the stream said, the client saw the same
  events and no block is left open, and a well-formed stream yields a result.
\<close>

section \<open>What a stream says\<close>

fun text_of :: "model_event \<Rightarrow> string" where
  "text_of (ETextDelta d) = d"
| "text_of _ = []"

fun reasoning_of :: "model_event \<Rightarrow> string" where
  "reasoning_of (EThinkingDelta d) = d"
| "reasoning_of _ = []"

fun arguments_of :: "nat \<Rightarrow> model_event \<Rightarrow> string" where
  "arguments_of i (EToolCallArgumentsDelta j d) = (if i = j then d else [])"
| "arguments_of i _ = []"

definition said :: "(model_event \<Rightarrow> string) \<Rightarrow> model_event list \<Rightarrow> string" where
  "said f es = concat (map f es)"

lemma said_simps [simp]: "said f [] = []" "said f (es @ [e]) = said f es @ f e"
  by (simp_all add: said_def)

text \<open>The events a client is shown, with the names as they are passed on; and the same read off what was sent.\<close>

fun visible :: "model_event \<Rightarrow> model_event list" where
  "visible (EStart _) = []"
| "visible (EThinkingSignature _) = []"
| "visible (EReplayState _) = []"
| "visible (EStopSequence _) = []"
| "visible (EDone _) = []"
| "visible (EToolCallStart i c n) = [EToolCallStart i c (normalize_tool_name n)]"
| "visible e = [e]"

fun echo :: "run_event \<Rightarrow> model_event list" where
  "echo RTextStart = [ETextStart]"
| "echo (RTextDelta d) = [ETextDelta d]"
| "echo RTextEnd = [ETextEnd]"
| "echo RThinkingStart = [EThinkingStart]"
| "echo (RThinkingDelta d) = [EThinkingDelta d]"
| "echo (RThinkingEnd _) = [EThinkingEnd]"
| "echo (RToolCallStart i c n m) = [EToolCallStart i c n]"
| "echo (RToolCallArgumentsDelta i d) = [EToolCallArgumentsDelta i d]"
| "echo (RToolCallEnd i) = [EToolCallEnd i]"
| "echo (RUsage u) = [EUsage u]"
| "echo _ = []"

text \<open>Whether the text and the thinking block are open after the events a client saw.\<close>

fun text_open_after :: "run_event list \<Rightarrow> bool \<Rightarrow> bool" where
  "text_open_after [] b = b"
| "text_open_after (e # es) b = text_open_after es (if e = RTextStart then True else if e = RTextEnd then False else b)"

fun is_thinking_end :: "run_event \<Rightarrow> bool" where
  "is_thinking_end (RThinkingEnd _) = True"
| "is_thinking_end _ = False"

fun thinking_open_after :: "run_event list \<Rightarrow> bool \<Rightarrow> bool" where
  "thinking_open_after [] b = b"
| "thinking_open_after (e # es) b =
     thinking_open_after es (if e = RThinkingStart then True else if is_thinking_end e then False else b)"

lemma open_after_append [simp]:
  "text_open_after (xs @ ys) b = text_open_after ys (text_open_after xs b)"
  "thinking_open_after (xs @ ys) b = thinking_open_after ys (thinking_open_after xs b)"
  by (induction xs arbitrary: b) auto


section \<open>The invariant of the loop\<close>

definition tool_ok :: "model_event list \<Rightarrow> cycle_state \<Rightarrow> nat \<times> open_tool \<Rightarrow> bool" where
  "tool_ok es s = (\<lambda>(i, t). call_index (ot_call t) = i \<and> call_id (ot_call t) \<in> cy_call_ids s
     \<and> arguments_text (ot_call t) = said (arguments_of i) es
     \<and> cy_id s = Some (model_call_id (ot_call t))
     \<and> (ot_ended t \<longrightarrow> (\<exists>m. call_arguments (ot_call t) = JObj m)))"

definition tools_inv :: "model_event list \<Rightarrow> cycle_state \<Rightarrow> bool" where
  "tools_inv es s \<longleftrightarrow> smap_ok (cy_tools s) \<and> (\<forall>x\<in>set (cy_tools s). tool_ok es s x)
     \<and> distinct (map (\<lambda>x. call_id (ot_call (snd x))) (cy_tools s))
     \<and> (\<forall>i. map_of (cy_tools s) i = None \<longrightarrow> said (arguments_of i) es = [])"

definition blocks_inv :: "bool \<Rightarrow> cycle_state \<Rightarrow> bool" where
  "blocks_inv client s \<longleftrightarrow>
     (cy_finish s \<noteq> None \<longrightarrow> \<not> cy_text_open s \<and> cy_thinking s = None \<and> (\<forall>x\<in>set (cy_tools s). ot_ended (snd x)))
     \<and> (client \<longrightarrow> text_open_after (cy_sent s) False = cy_text_open s
          \<and> thinking_open_after (cy_sent s) False = (cy_thinking s \<noteq> None))
     \<and> (\<not> client \<longrightarrow> cy_sent s = [])"

definition said_inv :: "bool \<Rightarrow> model_event list \<Rightarrow> cycle_state \<Rightarrow> bool" where
  "said_inv client es s \<longleftrightarrow> cy_text s = said text_of es \<and> cy_reasoning s = said reasoning_of es
     \<and> (client \<longrightarrow> concat (map echo (cy_sent s)) = concat (map visible es))
     \<and> (\<forall>r. cy_finish s = Some r \<longrightarrow> es \<noteq> [] \<and> last es = EDone r)"

lemma send_ok: "send client open e s = (Inr u, s') \<Longrightarrow> s' = (if client then s\<lparr>cy_sent := cy_sent s @ [e]\<rparr> else s)"
  by (auto simp: send_def split: if_splits)

lemma on_event_said:
  assumes "on_event parse client open now e s = (Inr u, s')" "said_inv client es s" "cy_finish s = None"
  shows "said_inv client (es @ [e]) s'"
  using assms
  by (cases e) (auto simp: on_event_def said_inv_def Let_def split: if_splits sum.splits option.splits prod.splits dest!: send_ok)

lemma on_event_blocks:
  assumes "on_event parse client open now e s = (Inr u, s')" "blocks_inv client s" "cy_finish s = None"
  shows "blocks_inv client s'"
  using assms
  by (cases e) (auto simp: on_event_def blocks_inv_def Let_def split: if_splits sum.splits option.splits prod.splits dest!: send_ok)


lemma parsed_arguments_simps [simp]:
  "call_index (parsed_arguments parse k) = call_index k" "call_id (parsed_arguments parse k) = call_id k"
  "model_call_id (parsed_arguments parse k) = model_call_id k" "arguments_text (parsed_arguments parse k) = arguments_text k"
  "\<exists>m. call_arguments (parsed_arguments parse k) = JObj m"
  by (auto simp: parsed_arguments_def split: sum.splits json.splits)

lemma tools_inv_other:
  assumes "tools_inv es s" "\<And>i. arguments_of i e = []" "cy_tools s' = cy_tools s" "cy_call_ids s' = cy_call_ids s"
    and "cy_id s' = cy_id s \<or> cy_id s = None"
  shows "tools_inv (es @ [e]) s'"
  using assms by (auto simp: tools_inv_def tool_ok_def)

lemma map_snd_put:
  assumes "smap_ok m" "map_of m i = Some t" "f t' = f t"
  shows "map (\<lambda>x. f (snd x)) (smap_put i t' m) = map (\<lambda>x. f (snd x)) m"
  using assms
proof (induction i t' m rule: smap_put.induct)
  case (2 k v k' v' m)
  then have "\<forall>x\<in>set m. k' < fst x" by (simp add: smap_ok_Cons)
  then have "k \<noteq> k' \<Longrightarrow> k' < k" using 2(3) map_of_SomeD[of m k t] by force
  then show ?case using 2 by (auto simp: smap_ok_Cons)
qed simp

lemma set_put: "smap_ok m \<Longrightarrow> x \<in> set (smap_put i t m) \<longleftrightarrow> x = (i, t) \<or> x \<in> set m \<and> fst x \<noteq> i"
  by (auto simp: smap_put_set smap_del_def)

lemma tools_inv_update:
  assumes inv: "tools_inv es s" and t: "map_of (cy_tools s) i = Some t"
    and s': "cy_tools s' = smap_put i t' (cy_tools s)" "cy_call_ids s' = cy_call_ids s" "cy_id s' = cy_id s"
    and t': "tool_ok (es @ [e]) s' (i, t')" "call_id (ot_call t') = call_id (ot_call t)"
    and e: "\<And>j. j \<noteq> i \<Longrightarrow> arguments_of j e = []"
  shows "tools_inv (es @ [e]) s'"
proof -
  have ok: "smap_ok (cy_tools s)" using inv by (simp add: tools_inv_def)
  have "tool_ok (es @ [e]) s' x" if "x \<in> set (cy_tools s)" "fst x \<noteq> i" for x
    using inv that e s' by (auto simp: tools_inv_def tool_ok_def)
  moreover have "map (\<lambda>x. call_id (ot_call (snd x))) (cy_tools s') = map (\<lambda>x. call_id (ot_call (snd x))) (cy_tools s)"
    unfolding s'(1) using map_snd_put[OF ok t, of "\<lambda>t. call_id (ot_call t)"] t'(2) by simp
  ultimately show ?thesis
    using inv t t'(1) ok e unfolding tools_inv_def s'(1) by (auto simp: set_put)
qed

lemma mset_put_new: "map_of m i = None \<Longrightarrow> mset (smap_put i t m) = add_mset (i, t) (mset m)"
  by (induction i t m rule: smap_put.induct) (auto split: if_splits)

lemma tools_inv_start:
  assumes inv: "tools_inv es s" and i: "map_of (cy_tools s) i = None" "cid \<notin> cy_call_ids s"
    and s': "cy_tools s' = smap_put i t (cy_tools s)" "cy_call_ids s' = insert cid (cy_call_ids s)" "cy_id s' = cy_id s"
    and t: "ot_call t = \<lparr>call_index = i, call_id = cid, model_call_id = mid, call_name = n, arguments_text = [],
      call_arguments = JNull, argument_error = None\<rparr>" "\<not> ot_ended t" "cy_id s = Some mid"
    and e: "\<And>j. arguments_of j e = []"
  shows "tools_inv (es @ [e]) s'"
proof -
  let ?f = "\<lambda>x. call_id (ot_call (snd x))"
  have ok: "smap_ok (cy_tools s)" using inv by (simp add: tools_inv_def)
  have old: "tool_ok (es @ [e]) s' x \<and> call_id (ot_call (snd x)) \<noteq> cid" if "x \<in> set (cy_tools s)" for x
    using inv that e s' i(2) by (auto simp: tools_inv_def tool_ok_def)
  have "tool_ok (es @ [e]) s' (i, t)" using inv i(1) t s' e by (auto simp: tools_inv_def tool_ok_def)
  moreover have "distinct (map ?f (cy_tools s'))"
  proof -
    have "mset (map ?f (cy_tools s')) = mset (cid # map ?f (cy_tools s))"
      unfolding s'(1) mset_map mset_put_new[OF i(1)] using t(1) by simp
    moreover have "distinct (cid # map ?f (cy_tools s))" using inv old by (auto simp: tools_inv_def)
    ultimately show ?thesis using mset_eq_imp_distinct_iff by blast
  qed
  moreover have "map_of (cy_tools s') j = None \<Longrightarrow> said (arguments_of j) (es @ [e]) = []" for j
    using inv e ok by (auto simp: tools_inv_def s'(1) split: if_splits)
  moreover have "\<forall>x\<in>set (cy_tools s'). tool_ok (es @ [e]) s' x"
    using old \<open>tool_ok (es @ [e]) s' (i, t)\<close> ok by (auto simp: s'(1) set_put)
  ultimately show ?thesis using ok unfolding tools_inv_def by (simp add: s'(1))
qed

lemma on_event_tools:
  assumes "on_event parse client open now e s = (Inr u, s')" "tools_inv es s"
  shows "tools_inv (es @ [e]) s'"
proof (cases e)
  case (EToolCallStart i cid n)
  then show ?thesis
    using assms by (auto simp: on_event_def Let_def split: if_splits sum.splits option.splits prod.splits dest!: send_ok
        intro!: tools_inv_start)
next
  case (EToolCallArgumentsDelta i d)
  then obtain t where t: "map_of (cy_tools s) i = Some t" "\<not> ot_ended t"
    and s': "cy_tools s' = smap_put i (t\<lparr>ot_call := (ot_call t)\<lparr>arguments_text := arguments_text (ot_call t) @ d\<rparr>\<rparr>) (cy_tools s)"
      "cy_call_ids s' = cy_call_ids s" "cy_id s' = cy_id s"
    using assms(1)
    by (auto simp: on_event_def Let_def split: if_splits sum.splits option.splits prod.splits dest!: send_ok)
  have "tool_ok es s (i, t)" using assms(2) t(1) by (auto simp: tools_inv_def dest!: map_of_SomeD)
  then show ?thesis
    by (intro tools_inv_update[OF assms(2) t(1) s']) (use EToolCallArgumentsDelta t(2) s' in \<open>auto simp: tool_ok_def\<close>)
next
  case (EToolCallEnd i)
  then obtain t where t: "map_of (cy_tools s) i = Some t"
    and s': "cy_tools s' = smap_put i (t\<lparr>ot_call := parsed_arguments parse (ot_call t), ot_ended := True\<rparr>) (cy_tools s)"
      "cy_call_ids s' = cy_call_ids s" "cy_id s' = cy_id s"
    using assms(1)
    by (auto simp: on_event_def Let_def split: if_splits sum.splits option.splits prod.splits dest!: send_ok)
  have "tool_ok es s (i, t)" using assms(2) t(1) by (auto simp: tools_inv_def dest!: map_of_SomeD)
  then show ?thesis
    by (intro tools_inv_update[OF assms(2) t(1) s']) (use EToolCallEnd s' in \<open>auto simp: tool_ok_def\<close>)
qed (rule tools_inv_other[OF assms(2)]; use assms(1) in
    \<open>auto simp: on_event_def Let_def split: if_splits sum.splits option.splits prod.splits dest!: send_ok\<close>)+


section \<open>Whole calls\<close>

definition cycle_inv :: "bool \<Rightarrow> model_event list \<Rightarrow> cycle_state \<Rightarrow> bool" where
  "cycle_inv client es s \<longleftrightarrow> said_inv client es s \<and> blocks_inv client s \<and> tools_inv es s"

lemma cycle_inv_new: "cycle_inv client [] cycle_new"
  by (simp add: cycle_inv_def said_inv_def blocks_inv_def tools_inv_def cycle_new_def smap_ok_def)

lemma cycle_turn_on_event:
  assumes "cycle_turn parse client i s = (None, s')"
  obtains e where "rd_input i = CItem (Inr e)" "cy_finish s = None"
    "on_event parse client (rd_open i) (rd_now i) e s = (Inr (), s')"
  using assms by (auto simp: cycle_turn_def split: cycle_input.splits sum.splits if_splits prod.splits)

lemma cycle_turn_none:
  assumes "cycle_turn parse client i s = (None, s')" "cycle_inv client es s"
  shows "\<exists>e. rd_input i = CItem (Inr e) \<and> cycle_inv client (es @ [e]) s'"
proof -
  obtain e where e: "rd_input i = CItem (Inr e)" "cy_finish s = None"
      "on_event parse client (rd_open i) (rd_now i) e s = (Inr (), s')"
    using cycle_turn_on_event[OF assms(1)] .
  have "said_inv client (es @ [e]) s'" "blocks_inv client s'" "tools_inv (es @ [e]) s'"
    using assms(2) on_event_said[OF e(3) _ e(2)] on_event_blocks[OF e(3) _ e(2)] on_event_tools[OF e(3)]
    by (auto simp: cycle_inv_def)
  then show ?thesis using e(1) by (auto simp: cycle_inv_def)
qed

lemma consume_run:
  assumes "consume_model_cycle parse client is s = (Some r, s')" "I es s"
    and step: "\<And>i s s' es. cycle_turn parse client i s = (None, s') \<Longrightarrow> I es s \<Longrightarrow>
      \<exists>e. rd_input i = CItem (Inr e) \<and> I (es @ [e]) s'"
  shows "\<exists>is1 i is2 es' s1. is = is1 @ i # is2 \<and> map rd_input is1 = map (\<lambda>e. CItem (Inr e)) es'
    \<and> I (es @ es') s1 \<and> cycle_turn parse client i s1 = (Some r, s')"
  using assms(1,2)
proof (induction "is" arbitrary: s es)
  case (Cons i "is")
  show ?case
  proof (cases "cycle_turn parse client i s")
    case (Pair o1 s1)
    show ?thesis
    proof (cases o1)
      case None
      then obtain e where e: "rd_input i = CItem (Inr e)" "I (es @ [e]) s1"
        using step Pair Cons.prems(2) by blast
      have "consume_model_cycle parse client is s1 = (Some r, s')" using Cons.prems(1) Pair None by simp
      from Cons.IH[OF this e(2)] obtain is1 j is2 es' s2 where
        "is = is1 @ j # is2" "map rd_input is1 = map (\<lambda>e. CItem (Inr e)) es'"
        "I ((es @ [e]) @ es') s2" "cycle_turn parse client j s2 = (Some r, s')" by blast
      then show ?thesis using e(1)
        by (intro exI[of _ "i # is1"] exI[of _ j] exI[of _ is2] exI[of _ "e # es'"] exI[of _ s2]) simp
    next
      case (Some r')
      then show ?thesis using Cons.prems Pair
        by (intro exI[of _ "[]"] exI[of _ i] exI[of _ "is"] exI[of _ "[]"] exI[of _ s]) simp
    qed
  qed
qed simp

lemma finish_cycle_Inr:
  assumes "finish_cycle s = Inr r"
  shows "cy_finish s = Some (cr_finish r) \<and> cr_finish r \<noteq> FLength
    \<and> cr_calls r = map (\<lambda>x. ot_call (snd x)) (cy_tools s) \<and> (cr_finish r = FToolUse \<longleftrightarrow> cr_calls r \<noteq> [])
    \<and> cy_id s = Some (cr_model_call_id r) \<and> cr_text r = cy_text s \<and> cr_reasoning r = cy_reasoning s
    \<and> cr_replay r = cy_replay s \<and> cr_usage r = cy_usage s"
  using assms by (auto simp: finish_cycle_def Let_def split: option.splits if_splits)

section \<open>What comes once, and the tool calls\<close>

fun call_id_said :: "model_event \<Rightarrow> string list" where
  "call_id_said (EStart i) = [i]"
| "call_id_said _ = []"

fun replay_said :: "model_event \<Rightarrow> provider_replay_state list" where
  "replay_said (EReplayState p) = [p]"
| "replay_said _ = []"

fun usage_said :: "model_event \<Rightarrow> usage list" where
  "usage_said (EUsage u) = [u]"
| "usage_said _ = []"

fun tool_said :: "model_event \<Rightarrow> (nat \<times> string \<times> string) list" where
  "tool_said (EToolCallStart i c n) = [(i, c, normalize_tool_name n)]"
| "tool_said _ = []"

definition option_list :: "'a option \<Rightarrow> 'a list" where
  "option_list x = (case x of None \<Rightarrow> [] | Some y \<Rightarrow> [y])"

lemma option_list_simps [simp]: "option_list None = []" "option_list (Some y) = [y]"
  by (simp_all add: option_list_def)

text \<open>A call as it is while its arguments come in, and the call that a started tool becomes.\<close>

definition open_call :: "model_event list \<Rightarrow> string \<Rightarrow> nat \<times> string \<times> string \<Rightarrow> tool_call" where
  "open_call es mid = (\<lambda>(i, c, n).
     \<lparr>call_index = i, call_id = c, model_call_id = mid, call_name = n, arguments_text = said (arguments_of i) es,
      call_arguments = JNull, argument_error = None\<rparr>)"

definition call_said ::
    "(string \<Rightarrow> string + json) \<Rightarrow> model_event list \<Rightarrow> string \<Rightarrow> nat \<times> string \<times> string \<Rightarrow> tool_call" where
  "call_said parse es mid = (\<lambda>(i, c, n).
     let text = said (arguments_of i) es;
         value = (if trim text = [] then Inr (JObj []) else parse text)
     in \<lparr>call_index = i, call_id = c, model_call_id = mid, call_name = n, arguments_text = text,
         call_arguments = (case value of Inr (JObj kvs) \<Rightarrow> JObj kvs | _ \<Rightarrow> JObj []),
         argument_error = (case value of
             Inr (JObj kvs) \<Rightarrow> None
           | Inr _ \<Rightarrow> Some (n @ '' arguments must be a JSON object'')
           | Inl err \<Rightarrow> Some (n @ '' arguments are not valid JSON: '' @ err))\<rparr>)"

lemma parsed_open_call: "parsed_arguments parse (open_call es mid tool) = call_said parse es mid tool"
  by (cases tool) (auto simp: parsed_arguments_def open_call_def call_said_def Let_def split: sum.splits json.splits)

definition tool_key :: "tool_call \<Rightarrow> nat \<times> string \<times> string" where
  "tool_key k = (call_index k, call_id k, call_name k)"

definition heard_tool :: "(string \<Rightarrow> string + json) \<Rightarrow> model_event list \<Rightarrow> nat \<times> open_tool \<Rightarrow> bool" where
  "heard_tool parse es = (\<lambda>(i, t). ot_call t =
     (if ot_ended t then call_said parse else open_call) es (model_call_id (ot_call t)) (tool_key (ot_call t)))"

definition heard_inv :: "(string \<Rightarrow> string + json) \<Rightarrow> model_event list \<Rightarrow> cycle_state \<Rightarrow> bool" where
  "heard_inv parse es s \<longleftrightarrow> option_list (cy_id s) = concat (map call_id_said es)
     \<and> option_list (cy_replay s) = concat (map replay_said es) \<and> option_list (cy_usage s) = concat (map usage_said es)
     \<and> mset (map (\<lambda>x. tool_key (ot_call (snd x))) (cy_tools s)) = mset (concat (map tool_said es))
     \<and> list_all (heard_tool parse es) (cy_tools s)"

lemma tool_keys [simp]:
  "tool_key (open_call es mid k) = k" "tool_key (call_said parse es mid k) = k"
  "model_call_id (open_call es mid k) = mid" "model_call_id (call_said parse es mid k) = mid"
  "tool_key (k'\<lparr>arguments_text := t\<rparr>) = tool_key k'" "tool_key (parsed_arguments parse k') = tool_key k'"
  by (cases k; simp add: tool_key_def open_call_def call_said_def Let_def parsed_arguments_def split: sum.split json.split)+

lemma said_unchanged:
  assumes "arguments_of (fst k) e = []"
  shows "open_call (es @ [e]) mid k = open_call es mid k" "call_said parse (es @ [e]) mid k = call_said parse es mid k"
  using assms by (cases k; simp add: open_call_def call_said_def)+

lemma heard_unchanged:
  assumes "tools_inv es s" "list_all (heard_tool parse es) (cy_tools s)" "\<And>j. j \<noteq> i \<Longrightarrow> arguments_of j e = []"
    and "x \<in> set (cy_tools s)" "fst x \<noteq> i"
  shows "heard_tool parse (es @ [e]) x"
proof -
  have "call_index (ot_call (snd x)) = fst x" using assms(1,4) by (auto simp: tools_inv_def tool_ok_def)
  then have "arguments_of (fst (tool_key (ot_call (snd x)))) e = []" using assms(3,5) by (simp add: tool_key_def)
  note u = said_unchanged[OF this]
  have "heard_tool parse es x" using assms(2,4) by (simp add: list_all_iff)
  then have "ot_call (snd x) = (if ot_ended (snd x) then call_said parse else open_call) es
      (model_call_id (ot_call (snd x))) (tool_key (ot_call (snd x)))"
    by (cases x) (simp add: heard_tool_def)
  then have "ot_call (snd x) = (if ot_ended (snd x) then call_said parse else open_call) (es @ [e])
      (model_call_id (ot_call (snd x))) (tool_key (ot_call (snd x)))"
    unfolding u if_distrib[where f = "\<lambda>g. g _ _ _"] by (cases "ot_ended (snd x)") (simp_all only: if_True if_False u)
  then show ?thesis by (cases x) (simp add: heard_tool_def)
qed

lemma heard_update:
  assumes inv: "tools_inv es s" "heard_inv parse es s" and t: "map_of (cy_tools s) i = Some t"
    and s': "cy_tools s' = smap_put i t' (cy_tools s)" "cy_id s' = cy_id s" "cy_replay s' = cy_replay s" "cy_usage s' = cy_usage s"
    and t': "heard_tool parse (es @ [e]) (i, t')" "tool_key (ot_call t') = tool_key (ot_call t)"
    and e: "\<And>j. j \<noteq> i \<Longrightarrow> arguments_of j e = []" "call_id_said e = []" "replay_said e = []" "usage_said e = []" "tool_said e = []"
  shows "heard_inv parse (es @ [e]) s'"
proof -
  have ok: "smap_ok (cy_tools s)" "list_all (heard_tool parse es) (cy_tools s)"
    using inv by (auto simp: tools_inv_def heard_inv_def)
  have "heard_tool parse (es @ [e]) x" if "x \<in> set (cy_tools s')" for x
    using that t'(1) heard_unchanged[OF inv(1) ok(2), of i e x] e(1) ok(1)
    by (cases "x = (i, t')") (simp_all add: s'(1) set_put)
  moreover have "map (\<lambda>x. tool_key (ot_call (snd x))) (cy_tools s') = map (\<lambda>x. tool_key (ot_call (snd x))) (cy_tools s)"
    unfolding s'(1) using map_snd_put[OF ok(1) t, of "\<lambda>t. tool_key (ot_call t)"] t'(2) by simp
  ultimately show ?thesis using inv(2) s' e by (simp add: heard_inv_def list_all_iff)
qed

lemma heard_start:
  assumes inv: "tools_inv es s" "heard_inv parse es s" and i: "map_of (cy_tools s) i = None" and mid: "cy_id s = Some mid"
    and s': "cy_tools s' = smap_put i \<lparr>ot_call = open_call es mid (i, c, normalize_tool_name n), ot_ended = False\<rparr> (cy_tools s)"
      "cy_id s' = cy_id s" "cy_replay s' = cy_replay s" "cy_usage s' = cy_usage s"
  shows "heard_inv parse (es @ [EToolCallStart i c n]) s'"
proof -
  let ?e = "EToolCallStart i c n" and ?t = "\<lparr>ot_call = open_call es mid (i, c, normalize_tool_name n), ot_ended = False\<rparr>"
  have ok: "smap_ok (cy_tools s)" "list_all (heard_tool parse es) (cy_tools s)"
    using inv by (auto simp: tools_inv_def heard_inv_def)
  have "heard_tool parse (es @ [?e]) (i, ?t)" by (simp add: heard_tool_def said_unchanged)
  then have "heard_tool parse (es @ [?e]) x" if "x \<in> set (cy_tools s')" for x
    using that heard_unchanged[OF inv(1) ok(2), of i ?e x] ok(1)
    by (cases "x = (i, ?t)") (simp_all add: s'(1) set_put)
  then show ?thesis
    using inv(2) s' by (simp add: heard_inv_def list_all_iff mset_put_new[OF i])
qed

lemma heard_other:
  assumes "tools_inv es s" "heard_inv parse es s" "\<And>j. arguments_of j e = []"
    and "cy_tools s' = cy_tools s" "tool_said e = []"
    and "option_list (cy_id s') = option_list (cy_id s) @ call_id_said e"
    and "option_list (cy_replay s') = option_list (cy_replay s) @ replay_said e"
    and "option_list (cy_usage s') = option_list (cy_usage s) @ usage_said e"
  shows "heard_inv parse (es @ [e]) s'"
proof -
  have "heard_tool parse (es @ [e]) x" if "x \<in> set (cy_tools s)" for x
    using heard_unchanged[OF assms(1), of parse "Suc (fst x)" e x] assms(2,3) that by (simp add: heard_inv_def)
  then show ?thesis using assms(2,4-) by (simp add: heard_inv_def list_all_iff)
qed

lemma on_event_heard:
  assumes ev: "on_event parse client open now e s = (Inr u, s')" and inv: "tools_inv es s" "heard_inv parse es s"
  shows "heard_inv parse (es @ [e]) s'"
proof (cases e)
  case (EToolCallStart i c n)
  then obtain mid where i: "map_of (cy_tools s) i = None" "cy_id s = Some mid"
    and s': "cy_tools s' = smap_put i \<lparr>ot_call = \<lparr>call_index = i, call_id = c, model_call_id = mid, call_name = normalize_tool_name n,
        arguments_text = [], call_arguments = JNull, argument_error = None\<rparr>, ot_ended = False\<rparr> (cy_tools s)"
      "cy_id s' = cy_id s" "cy_replay s' = cy_replay s" "cy_usage s' = cy_usage s"
    using ev by (auto simp: on_event_def Let_def split: if_splits sum.splits option.splits prod.splits dest!: send_ok)
  have "said (arguments_of i) es = []" using inv(1) i(1) by (simp add: tools_inv_def)
  then show ?thesis
    using heard_start[OF inv i, of s' c n] s' EToolCallStart by (simp add: open_call_def)
next
  case (EToolCallArgumentsDelta i d)
  then obtain t where t: "map_of (cy_tools s) i = Some t" "\<not> ot_ended t"
    and s': "cy_tools s' = smap_put i (t\<lparr>ot_call := (ot_call t)\<lparr>arguments_text := arguments_text (ot_call t) @ d\<rparr>\<rparr>) (cy_tools s)"
      "cy_id s' = cy_id s" "cy_replay s' = cy_replay s" "cy_usage s' = cy_usage s"
    using ev by (auto simp: on_event_def Let_def split: if_splits sum.splits option.splits prod.splits dest!: send_ok)
  have m: "(i, t) \<in> set (cy_tools s)" by (rule map_of_SomeD[OF t(1)])
  have k: "ot_call t = open_call es (model_call_id (ot_call t)) (tool_key (ot_call t))" "call_index (ot_call t) = i"
    using inv m t(2) by (auto simp: heard_inv_def list_all_iff heard_tool_def tools_inv_def tool_ok_def)
  have "open_call (es @ [e]) mid k' = (open_call es mid k')\<lparr>arguments_text := arguments_text (open_call es mid k') @ d\<rparr>"
    if "fst k' = i" for mid k'
    using that EToolCallArgumentsDelta by (cases k') (simp add: open_call_def)
  from this[of "tool_key (ot_call t)" "model_call_id (ot_call t)"]
  have "heard_tool parse (es @ [e]) (i, t\<lparr>ot_call := (ot_call t)\<lparr>arguments_text := arguments_text (ot_call t) @ d\<rparr>\<rparr>)"
    using k t(2) by (simp add: heard_tool_def tool_key_def)
  then show ?thesis
    by (rule heard_update[OF inv t(1) s']) (use EToolCallArgumentsDelta in simp_all)
next
  case (EToolCallEnd i)
  then obtain t where t: "map_of (cy_tools s) i = Some t" "\<not> ot_ended t"
    and s': "cy_tools s' = smap_put i (t\<lparr>ot_call := parsed_arguments parse (ot_call t), ot_ended := True\<rparr>) (cy_tools s)"
      "cy_id s' = cy_id s" "cy_replay s' = cy_replay s" "cy_usage s' = cy_usage s"
    using ev by (auto simp: on_event_def Let_def split: if_splits sum.splits option.splits prod.splits dest!: send_ok)
  have "(i, t) \<in> set (cy_tools s)" by (rule map_of_SomeD[OF t(1)])
  then have "ot_call t = open_call es (model_call_id (ot_call t)) (tool_key (ot_call t))"
    using inv t(2) by (auto simp: heard_inv_def list_all_iff heard_tool_def)
  then have "parsed_arguments parse (ot_call t) = call_said parse (es @ [e]) (model_call_id (ot_call t)) (tool_key (ot_call t))"
    using parsed_open_call EToolCallEnd by (metis said_unchanged(2) arguments_of.simps(11))
  then have "heard_tool parse (es @ [e]) (i, t\<lparr>ot_call := parsed_arguments parse (ot_call t), ot_ended := True\<rparr>)"
    by (simp add: heard_tool_def)
  then show ?thesis
    by (rule heard_update[OF inv t(1) s']) (use EToolCallEnd in simp_all)
qed (rule heard_other[OF inv]; use ev in
    \<open>auto simp: on_event_def Let_def split: if_splits sum.splits option.splits prod.splits dest!: send_ok\<close>)+

lemma heard_inv_new: "heard_inv parse [] cycle_new"
  by (simp add: heard_inv_def cycle_new_def)

text \<open>A call that succeeds has read the events of its stream up to the end, and its result is the state it left.\<close>

lemma result_run:
  assumes "consume_model_cycle parse client readings cycle_new = (Some (Inr r), s)"
  shows "\<exists>es rest. map rd_input readings = map (\<lambda>e. CItem (Inr e)) es @ CEnd False # rest
    \<and> cycle_inv client es s \<and> heard_inv parse es s \<and> finish_cycle s = Inr r"
proof -
  let ?I = "\<lambda>es s. cycle_inv client es s \<and> heard_inv parse es s"
  have step: "\<exists>e. rd_input i = CItem (Inr e) \<and> ?I (es @ [e]) s'" if "cycle_turn parse client i s = (None, s')" "?I es s" for i s s' es
  proof -
    from that(1) obtain e where e: "rd_input i = CItem (Inr e)" "on_event parse client (rd_open i) (rd_now i) e s = (Inr (), s')"
      by (rule cycle_turn_on_event)
    then show ?thesis
      using cycle_turn_none[OF that(1)] on_event_heard[OF e(2)] that(2) by (auto simp: cycle_inv_def)
  qed
  have new: "?I [] cycle_new" using cycle_inv_new heard_inv_new by blast
  from consume_run[where I = ?I, OF assms new] step
  obtain is1 i is2 es s1 where run: "readings = is1 @ i # is2" "map rd_input is1 = map (\<lambda>e. CItem (Inr e)) es"
      "cycle_inv client es s1" "heard_inv parse es s1" "cycle_turn parse client i s1 = (Some (Inr r), s)"
    by (metis append_Nil)
  then have f: "rd_input i = CEnd False" "finish_cycle s1 = Inr r" "s = s1"
    by (auto simp: cycle_turn_def cancelled_cycle_def split: cycle_input.splits sum.splits if_splits prod.splits)
  then show ?thesis
    using run by (intro exI[of _ es] exI[of _ "map rd_input is2"]) simp
qed

lemma heard_calls:
  assumes "cycle_inv client es s" "heard_inv parse es s" "finish_cycle s = Inr r"
  shows "cr_calls r = map (call_said parse es (cr_model_call_id r)) (sort_key fst (concat (map tool_said es)))"
    "sorted_wrt (<) (map call_index (cr_calls r))" "distinct (map call_id (cr_calls r))"
proof -
  note r = finish_cycle_Inr[OF assms(3)]
  have inv: "blocks_inv client s" "tools_inv es s" using assms(1) by (auto simp: cycle_inv_def)
  have ended: "\<forall>x\<in>set (cy_tools s). ot_ended (snd x)" using inv(1) r by (auto simp: blocks_inv_def)
  have "map call_index (cr_calls r) = map fst (cy_tools s)" using r inv(2) by (auto simp: tools_inv_def tool_ok_def)
  then show sorted: "sorted_wrt (<) (map call_index (cr_calls r))" using inv(2) by (simp add: tools_inv_def smap_ok_def)
  show "distinct (map call_id (cr_calls r))" using r inv(2) by (simp add: tools_inv_def comp_def)
  have keys: "map tool_key (cr_calls r) = sort_key fst (concat (map tool_said es))"
  proof (rule sort_key_inj_key_eq[symmetric])
    show m: "mset (concat (map tool_said es)) = mset (map tool_key (cr_calls r))"
      using r assms(2) by (simp add: heard_inv_def comp_def)
    have k: "map fst (map tool_key (cr_calls r)) = map call_index (cr_calls r)" by (simp add: tool_key_def)
    then show "sorted (map fst (map tool_key (cr_calls r)))" using sorted by (metis strict_sorted_imp_sorted)
    have "distinct (map fst (map tool_key (cr_calls r)))" using k sorted by (metis strict_sorted_iff)
    then show "inj_on fst (set (concat (map tool_said es)))" using m by (metis distinct_map mset_eq_setD)
  qed
  have "k = call_said parse es (cr_model_call_id r) (tool_key k)" if "k \<in> set (cr_calls r)" for k
    using that r inv(2) assms(2) ended by (fastforce simp: tools_inv_def tool_ok_def heard_inv_def heard_tool_def list_all_iff)
  then have "cr_calls r = map (call_said parse es (cr_model_call_id r)) (map tool_key (cr_calls r))"
    by (simp add: map_idI comp_def)
  then show "cr_calls r = map (call_said parse es (cr_model_call_id r)) (sort_key fst (concat (map tool_said es)))"
    unfolding keys .
qed

text \<open>
  C11: a model call's result is what its stream said, no more and no less. When a call succeeds the stream ended after a
  final \<open>Done\<close> that the result carries; its id, its replay state and its usage are those the stream announced,
  if it did; text and reasoning are the deltas in order; the tool calls are exactly those the stream started, in the order
  of their distinct indices and under distinct ids, each under its own id and name with all its argument deltas,
  parsed to an object or marked with the error of parsing; there are calls exactly when the reason is tool use; and the
  client, if there is one, was sent exactly the stream's visible events, with every text and thinking block closed.
\<close>
theorem cycle_result_is_faithful:
  assumes "consume_model_cycle parse client readings cycle_new = (Some (Inr r), s)"
  shows "\<exists>es rest. map rd_input readings = map (\<lambda>e. CItem (Inr e)) es @ CEnd False # rest
    \<and> es \<noteq> [] \<and> last es = EDone (cr_finish r) \<and> cr_finish r \<noteq> FLength
    \<and> [cr_model_call_id r] = concat (map call_id_said es)
    \<and> option_list (cr_replay r) = concat (map replay_said es) \<and> option_list (cr_usage r) = concat (map usage_said es)
    \<and> cr_text r = said text_of es \<and> cr_reasoning r = said reasoning_of es
    \<and> cr_calls r = map (call_said parse es (cr_model_call_id r)) (sort_key fst (concat (map tool_said es)))
    \<and> sorted_wrt (<) (map call_index (cr_calls r)) \<and> distinct (map call_id (cr_calls r))
    \<and> (cr_finish r = FToolUse \<longleftrightarrow> cr_calls r \<noteq> [])
    \<and> concat (map echo (cy_sent s)) = (if client then concat (map visible es) else [])
    \<and> \<not> text_open_after (cy_sent s) False \<and> \<not> thinking_open_after (cy_sent s) False"
proof -
  obtain es rest where run: "map rd_input readings = map (\<lambda>e. CItem (Inr e)) es @ CEnd False # rest"
      "cycle_inv client es s" "heard_inv parse es s" "finish_cycle s = Inr r"
    using result_run[OF assms] by blast
  note r = finish_cycle_Inr[OF run(4)] and calls = heard_calls[OF run(2,3,4)]
  have inv: "said_inv client es s" "blocks_inv client s" using run(2) by (auto simp: cycle_inv_def)
  have ended: "\<not> cy_text_open s" "cy_thinking s = None" using inv(2) r by (auto simp: blocks_inv_def)
  have once: "[cr_model_call_id r] = concat (map call_id_said es)"
    "option_list (cr_replay r) = concat (map replay_said es)" "option_list (cr_usage r) = concat (map usage_said es)"
    using r run(3) by (auto simp: heard_inv_def)
  show ?thesis
    using r inv ended calls once run(1) unfolding said_inv_def blocks_inv_def
    by (intro exI[of _ es] exI[of _ rest]) (cases client; auto)
qed


lemma consume_append:
  "consume_model_cycle parse client (a @ b) s =
     (case consume_model_cycle parse client a s of
        (Some r, s') \<Rightarrow> (Some r, s') | (None, s') \<Rightarrow> consume_model_cycle parse client b s')"
  by (induction a arbitrary: s) (auto split: prod.splits option.splits)

lemma consume_waiting:
  "consume_model_cycle parse client is s = (None, s') \<Longrightarrow> cycle_inv client es s \<Longrightarrow>
   \<exists>es'. map rd_input is = map (\<lambda>e. CItem (Inr e)) es' \<and> cycle_inv client (es @ es') s'"
proof (induction "is" arbitrary: s es)
  case (Cons i "is")
  then obtain s1 where s1: "cycle_turn parse client i s = (None, s1)" "consume_model_cycle parse client is s1 = (None, s')"
    by (auto split: prod.splits option.splits)
  then obtain e where e: "rd_input i = CItem (Inr e)" "cycle_inv client (es @ [e]) s1"
    using cycle_turn_none Cons.prems(2) by blast
  then obtain es' where "map rd_input is = map (\<lambda>e. CItem (Inr e)) es'" "cycle_inv client ((es @ [e]) @ es') s'"
    using Cons.IH[OF s1(2)] by blast
  then show ?case using e(1) by (intro exI[of _ "e # es'"]) simp
qed (auto intro: exI[of _ "[]"])

lemma interrupt_closes:
  assumes "blocks_inv client s" "s' = interrupt_cycle client True t s"
  shows "\<not> text_open_after (cy_sent s') False \<and> \<not> thinking_open_after (cy_sent s') False"
  using assms
  by (cases client) (auto simp: blocks_inv_def interrupt_cycle_def send_def Let_def split: option.splits)

lemma interrupt_sends:
  assumes "cycle_inv client es s"
  shows "\<exists>closings. concat (map echo (cy_sent (interrupt_cycle client True t s))) = (if client then concat (map visible es) @ closings else [])
    \<and> set closings \<subseteq> {ETextEnd, EThinkingEnd}"
  using assms
  by (cases client; cases "cy_text_open s"; cases "cy_thinking s")
    (auto simp: cycle_inv_def said_inv_def blocks_inv_def interrupt_cycle_def send_def Let_def intro: exI[of _ "[]"])

lemma cycle_result_is_faithful_witness:
  "\<exists>r s. consume_model_cycle (\<lambda>t. Inl t) True
       (map (\<lambda>x. \<lparr>rd_input = x, rd_now = 7, rd_open = True\<rparr>)
         (map (\<lambda>e. CItem (Inr e)) [EStart ''m'', ETextStart, ETextDelta ''hi'', ETextEnd, EDone FStop] @ [CEnd False])) cycle_new
       = (Some (Inr r), s)
     \<and> cr_finish r = FStop \<and> cr_calls r = [] \<and> \<not> text_open_after (cy_sent s) False"
proof -
  let ?rs = "map (\<lambda>x. \<lparr>rd_input = x, rd_now = 7 :: nat, rd_open = True\<rparr>)
    (map (\<lambda>e. CItem (Inr e)) [EStart ''m'', ETextStart, ETextDelta ''hi'', ETextEnd, EDone FStop] @ [CEnd False])"
  obtain r s where r: "consume_model_cycle (\<lambda>t. Inl t) True ?rs cycle_new = (Some (Inr r), s)" "cr_finish r = FStop"
    by (simp add: cycle_turn_def on_event_def send_def cycle_new_def Let_def finish_cycle_def)
  then show ?thesis using cycle_result_is_faithful[OF r(1)] by (metis finish_reason.distinct(3))
qed



end
