(* ===== verification/ModelCycleStreams.thy ===== *)
theory ModelCycleStreams
  imports ModelCycleLaws
begin

text \<open>
  A well-formed provider stream yields a result: what the provider adapters are to send, and that the
  consumer takes it to the end.
\<close>

section \<open>Well-formed streams\<close>

text \<open>A stream as the provider adapters are to yield it: a start, blocks, a final Done.\<close>

datatype block =
    TextBlock "string list"
  | ThinkBlock "string list" "string list"
  | ToolBlock nat string string "string list"
  | ReplayBlock provider_replay_state
  | UsageBlock usage
  | StopBlock string

fun block_events :: "block \<Rightarrow> model_event list" where
  "block_events (TextBlock ds) = ETextStart # map ETextDelta ds @ [ETextEnd]"
| "block_events (ThinkBlock ds gs) = EThinkingStart # map EThinkingDelta ds @ map EThinkingSignature gs @ [EThinkingEnd]"
| "block_events (ToolBlock i c n ds) = EToolCallStart i c n # map (EToolCallArgumentsDelta i) ds @ [EToolCallEnd i]"
| "block_events (ReplayBlock r) = [EReplayState r]"
| "block_events (UsageBlock u) = [EUsage u]"
| "block_events (StopBlock t) = [EStopSequence t]"

fun tool_of :: "block \<Rightarrow> (nat \<times> string) list" where
  "tool_of (ToolBlock i c n ds) = [(i, c)]"
| "tool_of _ = []"

fun is_replay :: "block \<Rightarrow> bool" where
  "is_replay (ReplayBlock _) = True"
| "is_replay _ = False"

fun is_usage :: "block \<Rightarrow> bool" where
  "is_usage (UsageBlock _) = True"
| "is_usage _ = False"

definition stream_ok :: "block list \<Rightarrow> finish_reason \<Rightarrow> bool" where
  "stream_ok bs reason \<longleftrightarrow> distinct (map fst (concat (map tool_of bs))) \<and> distinct (map snd (concat (map tool_of bs)))
     \<and> length (filter is_replay bs) \<le> 1 \<and> length (filter is_usage bs) \<le> 1 \<and> reason \<noteq> FLength
     \<and> (reason = FToolUse \<longleftrightarrow> concat (map tool_of bs) \<noteq> [])"

definition stream_events :: "string \<Rightarrow> block list \<Rightarrow> finish_reason \<Rightarrow> model_event list" where
  "stream_events i bs reason = EStart i # concat (map block_events bs) @ [EDone reason]"

text \<open>From a state, any readings of these events while the channel takes events lead to a state of this kind.\<close>

definition steps ::
    "(string \<Rightarrow> string + json) \<Rightarrow> bool \<Rightarrow> cycle_state \<Rightarrow> model_event list \<Rightarrow> (cycle_state \<Rightarrow> bool) \<Rightarrow> bool" where
  "steps parse client s es P \<longleftrightarrow>
     (\<forall>rs. map rd_input rs = map (\<lambda>e. CItem (Inr e)) es \<longrightarrow> list_all rd_open rs \<longrightarrow>
        (\<exists>s'. consume_model_cycle parse client rs s = (None, s') \<and> P s'))"

lemma steps_Nil: "P s \<Longrightarrow> steps parse client s [] P"
  by (simp add: steps_def)

lemma steps_append:
  assumes "steps parse client s es P" "\<And>s'. P s' \<Longrightarrow> steps parse client s' es' Q"
  shows "steps parse client s (es @ es') Q"
  unfolding steps_def
proof (intro allI impI)
  fix rs :: "reading list" assume rs: "map rd_input rs = map (\<lambda>e. CItem (Inr e)) (es @ es')" "list_all rd_open rs"
  let ?a = "take (length es) rs" and ?b = "drop (length es) rs"
  have "map rd_input ?a = map (\<lambda>e. CItem (Inr e)) es" "map rd_input ?b = map (\<lambda>e. CItem (Inr e)) es'"
    using rs(1) by (simp_all add: take_map[symmetric] drop_map[symmetric])
  moreover have "list_all rd_open ?a" "list_all rd_open ?b"
    using rs(2) by (auto simp: list_all_iff dest: in_set_takeD in_set_dropD)
  ultimately show "\<exists>s'. consume_model_cycle parse client rs s = (None, s') \<and> Q s'"
    using assms consume_append[of parse client ?a ?b s] unfolding steps_def by fastforce
qed

lemma steps_one:
  assumes "cy_finish s = None" "\<And>now. \<exists>s'. on_event parse client True now e s = (Inr (), s') \<and> P s'"
  shows "steps parse client s [e] P"
  unfolding steps_def
proof (intro allI impI)
  fix rs :: "reading list" assume "map rd_input rs = map (\<lambda>e. CItem (Inr e)) [e]" "list_all rd_open rs"
  then obtain r where r: "rs = [r]" "rd_input r = CItem (Inr e)" "rd_open r" by (auto simp: Cons_eq_map_conv)
  obtain s' where "on_event parse client True (rd_now r) e s = (Inr (), s')" "P s'" using assms(2) by blast
  then show "\<exists>s'. consume_model_cycle parse client rs s = (None, s') \<and> P s'"
    using r assms(1) by (auto simp: cycle_turn_def)
qed

lemma steps_Cons:
  "steps parse client s [e] P \<Longrightarrow> (\<And>s'. P s' \<Longrightarrow> steps parse client s' es Q) \<Longrightarrow> steps parse client s (e # es) Q"
  using steps_append[of parse client s "[e]" P es Q] by simp

text \<open>Events that keep a property of the state can be repeated.\<close>

lemma steps_many:
  assumes "P s" "\<And>s e. e \<in> set es \<Longrightarrow> P s \<Longrightarrow> steps parse client s [e] P"
  shows "steps parse client s es P"
  using assms
proof (induction es arbitrary: s)
  case (Cons e es)
  show ?case
    by (rule steps_Cons[where P = P]) (use Cons.prems Cons.IH in auto)
qed (rule steps_Nil)


section \<open>Through a block\<close>

text \<open>Which blocks are open, which indices and ids were used, which once-only events were seen.\<close>

definition tools_shape :: "nat option \<Rightarrow> nat set \<Rightarrow> (nat \<times> open_tool) list \<Rightarrow> bool" where
  "tools_shape opn U m \<longleftrightarrow> smap_ok m \<and> fst ` set m = U
     \<and> (\<forall>x\<in>set m. ot_ended (snd x) \<longleftrightarrow> opn \<noteq> Some (fst x)) \<and> (\<forall>i. opn = Some i \<longrightarrow> i \<in> U)"

definition shape :: "bool \<Rightarrow> bool \<Rightarrow> nat option \<Rightarrow> nat set \<Rightarrow> string set \<Rightarrow> bool \<Rightarrow> bool \<Rightarrow> cycle_state \<Rightarrow> bool" where
  "shape tx th opn U I r u s \<longleftrightarrow>
     cy_id s \<noteq> None \<and> cy_text_open s = tx \<and> (cy_thinking s \<noteq> None) = th \<and> cy_finish s = None
     \<and> tools_shape opn U (cy_tools s) \<and> cy_call_ids s = I
     \<and> (r \<or> cy_replay s = None) \<and> (u \<or> cy_usage s = None)"

lemma tools_unused: "tools_shape opn U m \<Longrightarrow> i \<notin> U \<Longrightarrow> map_of m i = None"
  unfolding tools_shape_def map_of_eq_None_iff by blast

lemma ball_put:
  "smap_ok m \<Longrightarrow> (\<forall>x\<in>set (smap_put i t m). P x) \<longleftrightarrow> P (i, t) \<and> (\<forall>x\<in>set m. fst x \<noteq> i \<longrightarrow> P x)"
  by (auto simp: set_put)

lemma tools_start:
  assumes "tools_shape None U m" "i \<notin> U" "\<not> ot_ended t"
  shows "tools_shape (Some i) (insert i U) (smap_put i t m)"
proof -
  have m: "smap_ok m" "fst ` set m = U" "\<forall>x\<in>set m. ot_ended (snd x)" using assms(1) by (simp_all add: tools_shape_def)
  then show ?thesis using assms(3) by (simp add: tools_shape_def smap_put_keys ball_put)
qed

lemma tools_open:
  assumes "tools_shape (Some i) U m"
  shows "\<exists>t. map_of m i = Some t \<and> \<not> ot_ended t"
proof -
  have "i \<in> fst ` set m" and e: "\<forall>x\<in>set m. ot_ended (snd x) \<longleftrightarrow> Some i \<noteq> Some (fst x)"
    using assms unfolding tools_shape_def by blast+
  then obtain t where t: "map_of m i = Some t" by (metis map_of_eq_None_iff not_Some_eq)
  then show ?thesis using e map_of_SomeD[OF t] by force
qed

lemma tools_more:
  assumes "tools_shape (Some i) U m"
  shows "tools_shape (if ot_ended t then None else Some i) U (smap_put i t m)"
proof -
  have m: "smap_ok m" "fst ` set m = U" "i \<in> U" and e: "\<forall>x\<in>set m. ot_ended (snd x) \<longleftrightarrow> Some i \<noteq> Some (fst x)"
    using assms unfolding tools_shape_def by blast+
  have "\<forall>x\<in>set (smap_put i t m). ot_ended (snd x) \<longleftrightarrow> (if ot_ended t then None else Some i) \<noteq> Some (fst x)"
    unfolding ball_put[OF m(1)] using e by (cases "ot_ended t") fastforce+
  then show ?thesis unfolding tools_shape_def using m by (simp add: smap_put_keys insert_absorb)
qed

lemma steps_shape:
  assumes "shape tx th opn U I r u s" "\<And>now. \<exists>s'. on_event parse client True now e s = (Inr (), s') \<and> P s'"
  shows "steps parse client s [e] P"
  using assms by (intro steps_one) (simp_all add: shape_def)

lemma on_text:
  assumes "shape tx th None U I r u s"
  shows "\<not> tx \<Longrightarrow> steps parse client s [ETextStart] (shape True th None U I r u)"
    and "tx \<Longrightarrow> steps parse client s [ETextDelta d] (shape True th None U I r u)"
    and "tx \<Longrightarrow> steps parse client s [ETextEnd] (shape False th None U I r u)"
  by (rule steps_shape[OF assms]; use assms in \<open>cases client; simp add: on_event_def shape_def send_def Let_def\<close>)+

lemma on_thinking:
  assumes "shape tx th None U I r u s"
  shows "\<not> th \<Longrightarrow> steps parse client s [EThinkingStart] (shape tx True None U I r u)"
    and "th \<Longrightarrow> steps parse client s [EThinkingDelta d] (shape tx True None U I r u)"
    and "steps parse client s [EThinkingSignature g] (shape tx th None U I r u)"
    and "th \<Longrightarrow> steps parse client s [EThinkingEnd] (shape tx False None U I r u)"
  by (rule steps_shape[OF assms]; use assms in \<open>cases client; cases "cy_thinking s"; simp add: on_event_def shape_def send_def Let_def\<close>)+

lemma on_once:
  assumes "shape tx th None U I r u s"
  shows "\<not> r \<Longrightarrow> steps parse client s [EReplayState rp] (shape tx th None U I True u)"
    and "\<not> u \<Longrightarrow> steps parse client s [EUsage us] (shape tx th None U I r True)"
    and "steps parse client s [EStopSequence t] (shape tx th None U I r u)"
  by (rule steps_shape[OF assms]; use assms in \<open>cases client; simp add: on_event_def shape_def send_def Let_def\<close>)+

lemma on_tool_start:
  assumes "shape tx th None U I r u s" "i \<notin> U" "c \<notin> I"
  shows "steps parse client s [EToolCallStart i c n] (shape tx th (Some i) (insert i U) (insert c I) r u)"
proof (rule steps_shape[OF assms(1)])
  fix now
  have m: "tools_shape None U (cy_tools s)" "cy_call_ids s = I" "cy_id s \<noteq> None" using assms(1) by (simp_all add: shape_def)
  obtain mid where mid: "cy_id s = Some mid" using m(3) by blast
  show "\<exists>s'. on_event parse client True now (EToolCallStart i c n) s = (Inr (), s')
      \<and> shape tx th (Some i) (insert i U) (insert c I) r u s'"
    using assms m mid tools_start[OF m(1) assms(2)] tools_unused[OF m(1) assms(2)]
    by (cases client; simp add: on_event_def shape_def send_def Let_def)
qed

lemma on_tool_open:
  assumes "shape tx th (Some i) U I r u s"
  shows "steps parse client s [EToolCallArgumentsDelta i d] (shape tx th (Some i) U I r u)"
    and "steps parse client s [EToolCallEnd i] (shape tx th None U I r u)"
proof -
  have m: "tools_shape (Some i) U (cy_tools s)" using assms by (simp add: shape_def)
  obtain t where t: "map_of (cy_tools s) i = Some t" "\<not> ot_ended t" using tools_open[OF m] by blast
  have u: "tools_shape (if ot_ended t' then None else Some i) U (smap_put i t' (cy_tools s))" for t'
    by (rule tools_more[OF m])
  show "steps parse client s [EToolCallArgumentsDelta i d] (shape tx th (Some i) U I r u)"
    using u[of "t\<lparr>ot_call := (ot_call t)\<lparr>arguments_text := arguments_text (ot_call t) @ d\<rparr>\<rparr>"] t assms
    by (intro steps_shape[OF assms]) (cases client; simp add: on_event_def shape_def send_def Let_def)
  show "steps parse client s [EToolCallEnd i] (shape tx th None U I r u)"
    using u[of "t\<lparr>ot_call := parsed_arguments parse (ot_call t), ot_ended := True\<rparr>"] t assms
    by (intro steps_shape[OF assms]) (cases client; simp add: on_event_def shape_def send_def Let_def)
qed

definition fresh_block :: "block \<Rightarrow> nat set \<Rightarrow> string set \<Rightarrow> bool \<Rightarrow> bool \<Rightarrow> bool" where
  "fresh_block b U I r u \<longleftrightarrow> (\<forall>(i, c)\<in>set (tool_of b). i \<notin> U \<and> c \<notin> I)
     \<and> \<not> (is_replay b \<and> r) \<and> \<not> (is_usage b \<and> u)"

abbreviation closed :: "nat set \<Rightarrow> string set \<Rightarrow> bool \<Rightarrow> bool \<Rightarrow> cycle_state \<Rightarrow> bool" where
  "closed \<equiv> shape False False None"

lemma on_block:
  assumes s: "closed U I r u s" and b: "fresh_block b U I r u"
  shows "steps parse client s (block_events b)
    (closed (fst ` set (tool_of b) \<union> U) (snd ` set (tool_of b) \<union> I) (is_replay b \<or> r) (is_usage b \<or> u))"
proof (cases b)
  case (TextBlock ds)
  have "steps parse client s (ETextStart # map ETextDelta ds @ [ETextEnd]) (closed U I r u)"
    by (intro steps_Cons[OF on_text(1)[OF s]] steps_append[OF steps_many[where P = "shape True False None U I r u"]])
      (auto intro: on_text)
  then show ?thesis using TextBlock by simp
next
  case (ThinkBlock ds gs)
  have "steps parse client s (EThinkingStart # map EThinkingDelta ds @ map EThinkingSignature gs @ [EThinkingEnd]) (closed U I r u)"
    by (intro steps_Cons[OF on_thinking(1)[OF s]] steps_append[OF steps_many[where P = "shape False True None U I r u"]])
      (auto intro: on_thinking)
  then show ?thesis using ThinkBlock by simp
next
  case (ToolBlock i c n ds)
  then have "i \<notin> U" "c \<notin> I" using b by (auto simp: fresh_block_def)
  then have "steps parse client s (EToolCallStart i c n # map (EToolCallArgumentsDelta i) ds @ [EToolCallEnd i])
      (closed (insert i U) (insert c I) r u)"
    by (intro steps_Cons[OF on_tool_start[OF s]]
        steps_append[OF steps_many[where P = "shape False False (Some i) (insert i U) (insert c I) r u"]])
      (auto intro: on_tool_open)
  then show ?thesis using ToolBlock by simp
qed (use b in \<open>auto intro: on_once[OF s] simp: fresh_block_def\<close>)


section \<open>Through a stream\<close>

definition blocks_fresh :: "block list \<Rightarrow> nat set \<Rightarrow> string set \<Rightarrow> bool \<Rightarrow> bool \<Rightarrow> bool" where
  "blocks_fresh bs U I r u \<longleftrightarrow>
     (let ts = concat (map tool_of bs) in distinct (map fst ts) \<and> distinct (map snd ts)
        \<and> fst ` set ts \<inter> U = {} \<and> snd ` set ts \<inter> I = {})
     \<and> length (filter is_replay bs) + (if r then 1 else 0) \<le> 1 \<and> length (filter is_usage bs) + (if u then 1 else 0) \<le> 1"

lemma blocks_fresh_Cons:
  "blocks_fresh (b # bs) U I r u \<Longrightarrow> fresh_block b U I r u
    \<and> blocks_fresh bs (fst ` set (tool_of b) \<union> U) (snd ` set (tool_of b) \<union> I) (is_replay b \<or> r) (is_usage b \<or> u)"
  by (cases b) (auto simp: blocks_fresh_def fresh_block_def Let_def)

lemma on_blocks:
  assumes "closed U I r u s" "blocks_fresh bs U I r u"
  shows "steps parse client s (concat (map block_events bs))
    (\<lambda>s'. \<exists>I' r' u'. closed (fst ` set (concat (map tool_of bs)) \<union> U) I' r' u' s')"
  using assms
proof (induction bs arbitrary: U I r u s)
  case Nil
  then show ?case by (auto simp: steps_def)
next
  case (Cons b bs)
  note f = blocks_fresh_Cons[OF Cons.prems(2)]
  have "steps parse client s (block_events b @ concat (map block_events bs))
      (\<lambda>s'. \<exists>I' r' u'. closed (fst ` set (concat (map tool_of bs)) \<union> (fst ` set (tool_of b) \<union> U)) I' r' u' s')"
    by (rule steps_append[OF on_block[OF Cons.prems(1) conjunct1[OF f]] Cons.IH[OF _ conjunct2[OF f]]])
  then show ?case by (simp add: image_Un Un_ac)
qed

lemma on_done:
  assumes "closed U I r u s"
  shows "steps parse client s [EDone reason] (\<lambda>s'. cy_finish s' = Some reason \<and> cy_id s' \<noteq> None \<and> fst ` set (cy_tools s') = U)"
proof (rule steps_shape[OF assms])
  fix now
  have "\<forall>t\<in>set (cy_tools s). ot_ended (snd t)" "fst ` set (cy_tools s) = U"
    using assms by (simp_all add: shape_def tools_shape_def)
  then show "\<exists>s'. on_event parse client True now (EDone reason) s = (Inr (), s')
      \<and> cy_finish s' = Some reason \<and> cy_id s' \<noteq> None \<and> fst ` set (cy_tools s') = U"
    using assms by (simp add: on_event_def shape_def Let_def)
qed

lemma on_stream:
  assumes "stream_ok bs reason"
  shows "steps parse client cycle_new (stream_events i bs reason)
    (\<lambda>s. cy_finish s = Some reason \<and> cy_id s \<noteq> None \<and> fst ` set (cy_tools s) = fst ` set (concat (map tool_of bs)))"
proof -
  have fresh: "blocks_fresh bs {} {} False False" using assms by (simp add: stream_ok_def blocks_fresh_def Let_def)
  have "steps parse client cycle_new [EStart i] (closed {} {} False False)"
    by (intro steps_one) (simp_all add: cycle_new_def on_event_def shape_def tools_shape_def Let_def)
  then show ?thesis
    unfolding stream_events_def
  proof (rule steps_Cons)
    fix s assume "closed {} {} False False s"
    then show "steps parse client s (concat (map block_events bs) @ [EDone reason]) (\<lambda>s. cy_finish s = Some reason
        \<and> cy_id s \<noteq> None \<and> fst ` set (cy_tools s) = fst ` set (concat (map tool_of bs)))"
      by (rule steps_append[OF on_blocks[OF _ fresh]]) (use on_done in fastforce)
  qed
qed

text \<open>What the blocks say.\<close>

fun block_text :: "block \<Rightarrow> string" where
  "block_text (TextBlock ds) = concat ds"
| "block_text _ = []"

fun block_reasoning :: "block \<Rightarrow> string" where
  "block_reasoning (ThinkBlock ds gs) = concat ds"
| "block_reasoning _ = []"

lemma said_append [simp]: "said f (xs @ ys) = said f xs @ said f ys" "said f (e # xs) = f e @ said f xs"
  by (simp_all add: said_def)

lemma said_map:
  "said text_of (map ETextDelta ds) = concat ds" "said reasoning_of (map ETextDelta ds) = []"
  "said text_of (map EThinkingDelta ds) = []" "said reasoning_of (map EThinkingDelta ds) = concat ds"
  "said text_of (map EThinkingSignature gs) = []" "said reasoning_of (map EThinkingSignature gs) = []"
  "said text_of (map (EToolCallArgumentsDelta i) ds) = []" "said reasoning_of (map (EToolCallArgumentsDelta i) ds) = []"
  by (induction ds; simp; fail | induction gs; simp)+

lemma said_block: "said text_of (block_events b) = block_text b" "said reasoning_of (block_events b) = block_reasoning b"
  by (cases b; simp add: said_map; simp add: said_def)+

lemma said_stream:
  "said text_of (stream_events i bs reason) = concat (map block_text bs)"
  "said reasoning_of (stream_events i bs reason) = concat (map block_reasoning bs)"
proof -
  have "said text_of (concat (map block_events bs)) = concat (map block_text bs)"
    "said reasoning_of (concat (map block_events bs)) = concat (map block_reasoning bs)"
    by (induction bs) (simp_all add: said_block)
  then show "said text_of (stream_events i bs reason) = concat (map block_text bs)"
    "said reasoning_of (stream_events i bs reason) = concat (map block_reasoning bs)"
    by (simp_all add: stream_events_def)
qed

text \<open>
  C12: a well-formed stream succeeds. A start, blocks each opened, filled and closed in turn, tool calls under
  fresh indices and ids, at most one usage and one replay state, and a final Done whose reason agrees with
  the tool calls: the call then returns a result, with the text and the reasoning of the blocks, the given
  reason and one call per tool block, however the events are spread over time.
\<close>
theorem well_formed_stream_succeeds:
  assumes "stream_ok bs reason" "list_all rd_open readings"
    and "map rd_input readings = map (\<lambda>e. CItem (Inr e)) (stream_events i bs reason) @ [CEnd False]"
  shows "\<exists>r s. consume_model_cycle parse client readings cycle_new = (Some (Inr r), s) \<and> cr_finish r = reason
    \<and> cr_text r = concat (map block_text bs) \<and> cr_reasoning r = concat (map block_reasoning bs)
    \<and> set (map call_index (cr_calls r)) = fst ` set (concat (map tool_of bs))"
proof -
  obtain rs e where rs: "readings = rs @ [e]" "map rd_input rs = map (\<lambda>e. CItem (Inr e)) (stream_events i bs reason)"
      "rd_input e = CEnd False"
    using assms(3) by (cases readings rule: rev_cases) auto
  obtain s where s: "consume_model_cycle parse client rs cycle_new = (None, s)" "cy_finish s = Some reason" "cy_id s \<noteq> None"
      "fst ` set (cy_tools s) = fst ` set (concat (map tool_of bs))"
  proof -
    have "list_all rd_open rs" using assms(2) rs(1) by simp
    from on_stream[OF assms(1), of parse client i, unfolded steps_def, rule_format, OF rs(2) this] that show thesis
      by blast
  qed
  obtain es where es: "map (\<lambda>e. CItem (Inr e)) (stream_events i bs reason) = map (\<lambda>e. CItem (Inr e)) es" "cycle_inv client es s"
    using consume_waiting[OF s(1) cycle_inv_new] rs(2) by auto
  have "es = stream_events i bs reason" using es(1) by (simp add: inj_map_eq_map inj_def)
  then have said: "cy_text s = concat (map block_text bs)" "cy_reasoning s = concat (map block_reasoning bs)"
    using es(2) said_stream by (simp_all add: cycle_inv_def said_inv_def)
  have idx: "call_index (ot_call (snd x)) = fst x" if "x \<in> set (cy_tools s)" for x
    using es(2) that by (auto simp: cycle_inv_def tools_inv_def tool_ok_def)
  have "cy_tools s = [] \<longleftrightarrow> fst ` set (concat (map tool_of bs)) = {}" unfolding s(4)[symmetric] by simp
  then have "reason \<noteq> FLength" "(reason = FToolUse) = (cy_tools s \<noteq> [])"
    using assms(1) unfolding stream_ok_def by simp_all
  then obtain r where r: "finish_cycle s = Inr r" using s(2,3) by (auto simp: finish_cycle_def Let_def)
  have "consume_model_cycle parse client readings cycle_new = (Some (Inr r), s)"
    using s(1) rs(1,3) r by (simp add: consume_append cycle_turn_def)
  moreover have "set (map call_index (cr_calls r)) = fst ` set (cy_tools s)"
    using finish_cycle_Inr[OF r] idx by (force simp: image_iff)
  moreover have "cr_finish r = reason" "cr_text r = cy_text s" "cr_reasoning r = cy_reasoning s"
    using finish_cycle_Inr[OF r] s(2) by simp_all
  ultimately show ?thesis using said s(4) by (intro exI[of _ r] exI[of _ s]) (simp only: simp_thms)
qed


definition reading_of :: "cycle_input \<Rightarrow> reading" where
  "reading_of x = \<lparr>rd_input = x, rd_now = 7, rd_open = True\<rparr>"

definition demo_blocks :: "block list" where
  "demo_blocks = [ThinkBlock [''t''] [''sig''], TextBlock [''a'', ''b''], ToolBlock 0 ''k'' ''read'' [''{'', ''}'']]"

lemma well_formed_stream_succeeds_witness:
  "\<exists>r s. consume_model_cycle (\<lambda>t. Inr (JObj [])) True
       (map reading_of (map (\<lambda>e. CItem (Inr e)) (stream_events ''m'' demo_blocks FToolUse) @ [CEnd False])) cycle_new
       = (Some (Inr r), s)
     \<and> cr_text r = ''ab'' \<and> cr_reasoning r = ''t'' \<and> set (map call_index (cr_calls r)) = {0}"
proof -
  let ?rs = "map reading_of (map (\<lambda>e. CItem (Inr e)) (stream_events ''m'' demo_blocks FToolUse) @ [CEnd False])"
  have "stream_ok demo_blocks FToolUse" by (simp add: stream_ok_def demo_blocks_def)
  moreover have "list_all rd_open ?rs" by (simp add: list_all_iff reading_of_def)
  moreover have "map rd_input ?rs = map (\<lambda>e. CItem (Inr e)) (stream_events ''m'' demo_blocks FToolUse) @ [CEnd False]"
    by (simp add: reading_of_def)
  moreover have "concat (map block_text demo_blocks) = ''ab''" "concat (map block_reasoning demo_blocks) = ''t''"
    "fst ` set (concat (map tool_of demo_blocks)) = {0}"
    by (simp_all add: demo_blocks_def)
  ultimately show ?thesis
    using well_formed_stream_succeeds[of demo_blocks FToolUse ?rs "''m''" "\<lambda>t. Inr (JObj [])" True] by metis
qed

end
