(* ===== verification/RoundExec.thy ===== *)
theory RoundExec
  imports RunEvents ToolRounds
begin

text \<open>
  One tool round executed (src/server/src/run/tool_round.rs) and runtime messages committed
  (src/server/src/run/messages.rs) over the modelled store. An action runs on the state below and ends
  waiting for an input that has not come, stopping the run, or with a value. The inputs are explicit: what
  each turn of the select loop finds, the answers to the barriers waited on, the clock, when the client's
  channel closes. No other writer acts between two store operations of the round.
\<close>

section \<open>Actions\<close>

datatype 'a progress = Waiting | Stop run_outcome | Done 'a

text \<open>An action on a state: where it got, and the state it left.\<close>

type_synonym ('s, 'a) action = "'s \<Rightarrow> 'a progress \<times> 's"

definition areturn :: "'a \<Rightarrow> ('s, 'a) action" where
  "areturn a x = (Done a, x)"

definition astop :: "run_outcome \<Rightarrow> ('s, 'a) action" where
  "astop r x = (Stop r, x)"

definition awaiting :: "('s, 'a) action" where
  "awaiting x = (Waiting, x)"

definition abind :: "('s, 'a) action \<Rightarrow> ('a \<Rightarrow> ('s, 'b) action) \<Rightarrow> ('s, 'b) action" where
  "abind m f x =
     (case m x of (Waiting, y) \<Rightarrow> (Waiting, y) | (Stop r, y) \<Rightarrow> (Stop r, y) | (Done a, y) \<Rightarrow> f a y)"

record exec =
  x_db :: db
  x_sent :: "run_event list"
  x_closes :: "nat option"
  x_ready :: "ready_signal list"
  x_replies :: "(string \<times> command_result) list"
  x_accounted :: "string set"

type_synonym 'a act = "(exec, 'a) action"

text \<open>Sending waits for room in the channel, which comes or the receiver is gone: after \<open>x_closes\<close> more events.\<close>

definition emit_event :: "run_event \<Rightarrow> unit act" where
  "emit_event e x =
     (case x_closes x of
        None \<Rightarrow> (Done (), x\<lparr>x_sent := x_sent x @ [e]\<rparr>)
      | Some 0 \<Rightarrow> (Stop client_failure, x)
      | Some (Suc n) \<Rightarrow> (Done (), x\<lparr>x_sent := x_sent x @ [e], x_closes := Some n\<rparr>))"

definition failed :: "error \<Rightarrow> run_outcome" where
  "failed e = Failed (failure_of_error e)"

text \<open>A transaction, at the time the clock shows after the events sent so far.\<close>

definition in_store :: "(nat \<Rightarrow> int) \<Rightarrow> (int \<Rightarrow> 'a tx) \<Rightarrow> 'a act" where
  "in_store clock f x =
     (case f (clock (length (x_sent x))) (x_db x) of
        Inl e \<Rightarrow> (Stop (failed e), x)
      | Inr (a, s) \<Rightarrow> (Done a, x\<lparr>x_db := s\<rparr>))"

text \<open>Waiting for the client to acknowledge a commit.\<close>

definition wait_ready :: "unit act" where
  "wait_ready x =
     (case x_ready x of
        [] \<Rightarrow> (Waiting, x)
      | r # rs \<Rightarrow>
          (case wait_for_state_ready r of
             Inl out \<Rightarrow> (Stop out, x\<lparr>x_ready := rs\<rparr>)
           | Inr _ \<Rightarrow> (Done (), x\<lparr>x_ready := rs\<rparr>)))"

definition account :: "string \<Rightarrow> unit act" where
  "account cid x = (Done (), x\<lparr>x_accounted := insert cid (x_accounted x)\<rparr>)"

definition reply :: "string \<Rightarrow> command_result \<Rightarrow> unit act" where
  "reply ev r x = (Done (), x\<lparr>x_replies := x_replies x @ [(ev, r)]\<rparr>)"

definition commit_event :: "checkpoint_id \<Rightarrow> nat \<Rightarrow> commit_cause \<Rightarrow> bool \<Rightarrow> run_event" where
  "commit_event cp version cause required =
     MessagesCommitted \<lparr>mc_checkpoint = cp, mc_round_version = version, mc_cause = cause,
       mc_barrier = (if required then BeforeContinue None else NoBarrier)\<rparr>"


section \<open>Runtime messages\<close>

type_synonym batch = "string \<times> message list"

text \<open>The events of the messages a batch inserted; only the last of them is waited for.\<close>

fun announce :: "(message \<times> checkpoint_id \<times> bool) list \<Rightarrow> unit act" where
  "announce [] = areturn ()"
| "announce ((m, cp, inserted) # rest) =
     (if \<not> inserted then announce rest
      else
        abind (emit_event (commit_event cp 0 (RuntimeEventCause (the (runtime_event_id m))) True)) (\<lambda>_.
        abind (if list_ex (\<lambda>(_, _, i). i) rest then areturn () else wait_ready) (\<lambda>_.
        announce rest)))"

definition append_batch ::
    "codec \<Rightarrow> (nat \<Rightarrow> int) \<Rightarrow> string \<Rightarrow> string \<Rightarrow> checkpoint_id \<Rightarrow> batch \<Rightarrow> (checkpoint_id \<times> bool) act" where
  "append_batch c clock conv run cp b =
     (if \<exists>m\<in>set (snd b). runtime_event_id m = None
      then astop (Failed (FProtocol ''runtime message has no event identity''))
      else
        abind (in_store clock (\<lambda>_. append_messages_once c conv run cp (snd b))) (\<lambda>out.
          let inserted = list_ex snd out
          in abind (announce (zip (snd b) out)) (\<lambda>_.
             abind (reply (fst b) (if inserted then Applied else Duplicate)) (\<lambda>_.
             areturn (if out = [] then cp else fst (last out), inserted)))))"

fun append_batches ::
    "codec \<Rightarrow> (nat \<Rightarrow> int) \<Rightarrow> string \<Rightarrow> string \<Rightarrow> checkpoint_id \<Rightarrow> batch list \<Rightarrow> (checkpoint_id \<times> bool) act" where
  "append_batches c clock conv run cp [] = areturn (cp, False)"
| "append_batches c clock conv run cp (b # bs) =
     abind (append_batch c clock conv run cp b) (\<lambda>(cp', inserted).
     abind (append_batches c clock conv run cp' bs) (\<lambda>(cp'', any). areturn (cp'', inserted \<or> any)))"

text \<open>What is queued already: the batches to append, the first Cancel or a closed queue ending it.\<close>

fun drain_accepted :: "run_command list \<Rightarrow> bool \<Rightarrow> run_outcome + batch list" where
  "drain_accepted [] connected = (if connected then Inr [] else Inl client_failure)"
| "drain_accepted (InsertMessages ev ms # cs) connected =
     rbind (drain_accepted cs connected) (\<lambda>bs. Inr ((ev, ms) # bs))"
| "drain_accepted (BreakMessages ev ms # cs) connected =
     rbind (drain_accepted cs connected) (\<lambda>bs. Inr ((ev, ms) # bs))"
| "drain_accepted (CancelCommand # cs) connected = Inl CancelledRun"
| "drain_accepted (ToolResultCommand _ # cs) connected = drain_accepted cs connected"


section \<open>Tool rounds\<close>

text \<open>Seconds.\<close>

definition tool_round_timeout :: nat where "tool_round_timeout = 30 * 60"

record exec_round =
  er_id :: string
  er_assistant :: tool_round_assistant
  er_calls :: "tool_call list"
  er_started :: "nat option"

text \<open>What one turn of the loop finds: the token, the time, and what the queue of commands holds.\<close>

datatype queued = QueueEmpty | QueueClosed | Queued run_command

record turn_reading =
  tn_cancelled :: bool
  tn_time :: nat
  tn_queue :: queued

record await_state =
  rl_checkpoint :: checkpoint_id
  rl_completed :: "string list"
  rl_remaining :: nat
  rl_pending :: "batch list"

text \<open>A result committed, announced and, when it settles the round, acknowledged.\<close>

definition commit_result ::
    "codec \<Rightarrow> (nat \<Rightarrow> int) \<Rightarrow> string \<Rightarrow> string \<Rightarrow> string \<Rightarrow> bool \<Rightarrow> tool_result \<Rightarrow> checkpoint_id act" where
  "commit_result c clock conv run rid interrupted r =
     abind (in_store clock (\<lambda>now. commit_tool_result c now conv run rid r)) (\<lambda>tc.
     abind (account (result_call_id r)) (\<lambda>_.
     abind (emit_event (commit_event (tcm_checkpoint tc) (tcm_version tc)
              (ToolResultCause (result_call_id r) interrupted) (tcm_settled tc))) (\<lambda>_.
     abind (if tcm_settled tc then wait_ready else areturn ()) (\<lambda>_.
     areturn (tcm_checkpoint tc)))))"

fun await_results ::
    "codec \<Rightarrow> (nat \<Rightarrow> int) \<Rightarrow> string \<Rightarrow> string \<Rightarrow> string \<Rightarrow> nat \<Rightarrow> turn_reading list \<Rightarrow> await_state
     \<Rightarrow> (bool \<times> batch option \<times> await_state) act" where
  "await_results c clock conv run rid deadline [] l = awaiting"
| "await_results c clock conv run rid deadline (t # ts) l =
     (if tn_cancelled t then astop CancelledRun
      else if deadline \<le> tn_time t then areturn (True, None, l)
      else case tn_queue t of
        QueueEmpty \<Rightarrow> await_results c clock conv run rid deadline ts l
      | QueueClosed \<Rightarrow> astop client_failure
      | Queued (ToolResultCommand r) \<Rightarrow>
          (if result_call_id r \<in> set (rl_completed l) then await_results c clock conv run rid deadline ts l
           else
             abind (commit_result c clock conv run rid False r) (\<lambda>cp.
               let l' = l\<lparr>rl_checkpoint := cp, rl_completed := result_call_id r # rl_completed l,
                          rl_remaining := rl_remaining l - 1\<rparr>
               in if rl_remaining l' = 0 then areturn (False, None, l')
                  else await_results c clock conv run rid deadline ts l'))
      | Queued (BreakMessages ev ms) \<Rightarrow> areturn (False, Some (ev, ms), l)
      | Queued (InsertMessages ev ms) \<Rightarrow>
          await_results c clock conv run rid deadline ts (l\<lparr>rl_pending := rl_pending l @ [(ev, ms)]\<rparr>)
      | Queued CancelCommand \<Rightarrow> astop CancelledRun)"

definition interrupted_result :: "string \<Rightarrow> string \<Rightarrow> tool_result" where
  "interrupted_result reason cid =
     \<lparr>result_call_id = cid, result_content = reason, result_is_error = True, result_image = None\<rparr>"

fun interrupt_calls ::
    "codec \<Rightarrow> (nat \<Rightarrow> int) \<Rightarrow> string \<Rightarrow> string \<Rightarrow> string \<Rightarrow> string \<Rightarrow> tool_call list \<Rightarrow> checkpoint_id
     \<Rightarrow> checkpoint_id act" where
  "interrupt_calls c clock conv run rid reason [] cp = areturn cp"
| "interrupt_calls c clock conv run rid reason (k # ks) cp =
     abind (commit_result c clock conv run rid True (interrupted_result reason (call_id k)))
       (interrupt_calls c clock conv run rid reason ks)"

definition interrupt_remaining where
  "interrupt_remaining c clock conv run rid reason calls completed cp =
     interrupt_calls c clock conv run rid reason (filter (\<lambda>k. call_id k \<notin> set completed) calls) cp"

definition interrupt_reason :: "bool \<Rightarrow> string" where
  "interrupt_reason late =
     (if late then ''Tool execution did not report a result in time.''
      else ''Tool execution was interrupted by a newer user message.'')"

definition start_round :: "(nat \<Rightarrow> int) \<Rightarrow> string \<Rightarrow> checkpoint_id \<Rightarrow> exec_round \<Rightarrow> unit act" where
  "start_round clock run base rd =
     abind (in_store clock (\<lambda>now. create_tool_round now (er_id rd) run base (er_assistant rd) (er_calls rd) (er_started rd)))
       (\<lambda>_.
     abind (emit_event (commit_event base 0 (ToolRoundStarted (er_id rd)) False)) (\<lambda>_.
     emit_event (ExecuteToolRound (er_id rd) (er_calls rd))))"

definition execute ::
    "codec \<Rightarrow> (nat \<Rightarrow> int) \<Rightarrow> string \<Rightarrow> string \<Rightarrow> checkpoint_id \<Rightarrow> exec_round \<Rightarrow> batch list \<Rightarrow> nat \<Rightarrow> turn_reading list
     \<Rightarrow> checkpoint_id act" where
  "execute c clock conv run base rd insertions start ts =
     abind (start_round clock run base rd) (\<lambda>_.
     abind (await_results c clock conv run (er_id rd) (start + tool_round_timeout) ts
              \<lparr>rl_checkpoint = base, rl_completed = [], rl_remaining = length (er_calls rd), rl_pending = insertions\<rparr>)
       (\<lambda>(late, brk, l).
     abind (interrupt_remaining c clock conv run (er_id rd) (interrupt_reason late) (er_calls rd)
              (rl_completed l) (rl_checkpoint l)) (\<lambda>cp.
     abind (append_batches c clock conv run cp (rl_pending l)) (\<lambda>(cp, _).
       case brk of
         None \<Rightarrow> areturn cp
       | Some b \<Rightarrow> abind (append_batches c clock conv run cp [b]) (\<lambda>(cp, _). areturn cp)))))"

end
