(* ===== verification/RoundExecLaws.thy ===== *)
theory RoundExecLaws
  imports RoundExec RunProperties
begin

text \<open>
  What a tool round leaves behind when it returns: the invariant of the round under way, what each phase adds to
  the store, to the history and to what the client has been told, and the round's contract.
\<close>

section \<open>What actions did\<close>

lemma abind_Done [simp]: "abind m f x = (Done b, y) \<longleftrightarrow> (\<exists>a z. m x = (Done a, z) \<and> f a z = (Done b, y))"
  by (auto simp: abind_def split: prod.splits progress.splits)

lemma areturn_Done [simp]: "areturn a x = (Done b, y) \<longleftrightarrow> b = a \<and> y = x"
  by (auto simp: areturn_def)

lemma astop_Done [simp]: "astop r x \<noteq> (Done b, y)" "awaiting x \<noteq> (Done b, y)"
  by (simp_all add: astop_def awaiting_def)

lemma emit_event_Done: "emit_event e x = (Done u, y) \<Longrightarrow>
    x_sent y = x_sent x @ [e] \<and> x_db y = x_db x \<and> x_accounted y = x_accounted x \<and> x_replies y = x_replies x"
  by (auto simp: emit_event_def split: option.splits nat.splits)

lemma wait_ready_Done: "wait_ready x = (Done u, y) \<Longrightarrow> y = x\<lparr>x_ready := x_ready y\<rparr>"
  by (auto simp: wait_ready_def split: list.splits sum.splits)

lemma in_store_Done [simp]: "in_store clock f x = (Done a, y) \<longleftrightarrow>
    (\<exists>s. f (clock (length (x_sent x))) (x_db x) = Inr (a, s) \<and> y = x\<lparr>x_db := s\<rparr>)"
  by (auto simp: in_store_def split: sum.splits)


section \<open>What the client sees\<close>

datatype shown = ShownStart string | ShownRound string nat | ShownResult string bool | ShownMessage string bool | ShownOther

fun show_event :: "run_event \<Rightarrow> shown" where
  "show_event (ExecuteToolRound rid calls) = ShownRound rid (length calls)"
| "show_event (MessagesCommitted m) =
     (case mc_cause m of
        ToolRoundStarted rid \<Rightarrow> ShownStart rid
      | ToolResultCause cid _ \<Rightarrow> ShownResult cid (barrier_required (mc_barrier m))
      | RuntimeEventCause ev \<Rightarrow> ShownMessage ev (barrier_required (mc_barrier m))
      | _ \<Rightarrow> ShownOther)"
| "show_event _ = ShownOther"

lemma show_commit_event [simp]:
  "show_event (commit_event cp v (ToolResultCause cid i) b) = ShownResult cid b"
  "show_event (commit_event cp v (RuntimeEventCause ev) b) = ShownMessage ev b"
  "show_event (commit_event cp v (ToolRoundStarted rid) b) = ShownStart rid"
  by (simp_all add: commit_event_def)


section \<open>What a round leaves in the history\<close>

definition call_message :: "string \<Rightarrow> tool_round_assistant \<Rightarrow> bool \<Rightarrow> tool_call \<Rightarrow> message" where
  "call_message rid a first k =
     \<lparr>message_id = rid @ '':'' @ call_id k @ '':assistant'', msg_role = RAssistant, msg_origin = OAssistant,
      msg_content = Assistant (if first then ra_text a else []) (if first then ra_thinking a else []) (Some rid)
        (if first then ra_replay_state a else None)
        [\<lparr>tc_index = call_index k, tc_call_id = call_id k, tc_name = call_name k, tc_arguments = call_arguments k\<rparr>],
      runtime_event_id = None\<rparr>"

definition result_message :: "string \<Rightarrow> tool_call \<Rightarrow> tool_result \<Rightarrow> message" where
  "result_message rid k r =
     \<lparr>message_id = rid @ '':'' @ result_call_id r @ '':result'', msg_role = RTool, msg_origin = OTool,
      msg_content = ToolResult \<lparr>tr_call_id = result_call_id r, tr_name = call_name k, tr_content = result_content r,
        tr_is_error = result_is_error r, tr_image = result_image r, tr_provider_parts = []\<rparr>,
      runtime_event_id = None\<rparr>"

fun round_pairs :: "string \<Rightarrow> tool_round_assistant \<Rightarrow> tool_call list \<Rightarrow> bool \<Rightarrow> tool_result list \<Rightarrow> message list" where
  "round_pairs rid a calls first [] = []"
| "round_pairs rid a calls first (r # rs) =
     concat (map (\<lambda>k. [call_message rid a first k, result_message rid k r]) (filter (\<lambda>k. call_id k = result_call_id r) calls))
     @ round_pairs rid a calls False rs"

lemma round_pairs_append:
  "round_pairs rid a calls first (rs @ rs') = round_pairs rid a calls first rs @ round_pairs rid a calls (first \<and> rs = []) rs'"
  by (induction rs arbitrary: first) auto

lemma round_message_rows:
  "rd_assistant rd = a \<Longrightarrow> round_assistant_message rid rd (new_call_row rid k) = call_message rid a (rd_next_seq rd = 0) k"
  "round_result_message rid (new_call_row rid k) r = result_message rid k r"
  by (simp_all add: round_assistant_message_def round_result_message_def call_message_def result_message_def
      new_call_row_def Let_def)

lemma one_call: "distinct (map call_id calls) \<Longrightarrow> k \<in> set calls \<Longrightarrow> filter (\<lambda>x. call_id x = call_id k) calls = [k]"
  by (induction calls) (auto simp: filter_empty_conv, metis image_eqI)


section \<open>The round under way\<close>

definition round_at ::
    "codec \<Rightarrow> string \<Rightarrow> string \<Rightarrow> exec_round \<Rightarrow> message list \<Rightarrow> exec \<Rightarrow> checkpoint_id \<Rightarrow> tool_result list \<Rightarrow> exec \<Rightarrow> bool" where
  "round_at c conv run rd hist x0 cp rs x \<longleftrightarrow>
     store_ok c (x_db x)
     \<and> (\<exists>v. find_conversation conv (x_db x) = Some v \<and> cv_active_run v = Some run \<and> cv_current v = Some (checkpoint_int cp))
     \<and> (\<exists>d. find_round (er_id rd) (x_db x) = Some d \<and> rd_assistant d = er_assistant rd \<and> rd_next_seq d = int (length rs))
     \<and> pending_calls (er_id rd) (x_db x)
         = map (new_call_row (er_id rd)) (filter (\<lambda>k. call_id k \<notin> result_call_id ` set rs) (er_calls rd))
     \<and> distinct (map result_call_id rs) \<and> result_call_id ` set rs \<subseteq> call_id ` set (er_calls rd)
     \<and> history c (x_db x) (checkpoint_int cp) = hist @ round_pairs (er_id rd) (er_assistant rd) (er_calls rd) True rs
     \<and> x_accounted x = x_accounted x0 \<union> result_call_id ` set rs
     \<and> map show_event (x_sent x) = map show_event (x_sent x0)
         @ map (\<lambda>(n, r). ShownResult (result_call_id r) (n = length (er_calls rd))) (enumerate 1 rs)"

lemma rest_empty_iff:
  assumes "distinct (map call_id calls)" "distinct (map result_call_id rs)" "result_call_id ` set rs \<subseteq> call_id ` set calls"
  shows "filter (\<lambda>k. call_id k \<notin> result_call_id ` set rs) calls = [] \<longleftrightarrow> length rs = length calls"
proof -
  have "length rs = length calls \<longleftrightarrow> card (result_call_id ` set rs) = card (call_id ` set calls)"
    using assms(1,2) by (metis distinct_card length_map set_map)
  also have "\<dots> \<longleftrightarrow> result_call_id ` set rs = call_id ` set calls"
    using assms(3) by (metis card_subset_eq finite_imageI finite_set)
  also have "\<dots> \<longleftrightarrow> (\<forall>k\<in>set calls. call_id k \<in> result_call_id ` set rs)" using assms(3) by auto
  finally show ?thesis by (auto simp: filter_empty_conv)
qed

lemma commit_result_Done:
  assumes "commit_result c clock conv run rid i r x = (Done cp, y)"
  shows "\<exists>tc s now. commit_tool_result c now conv run rid r (x_db x) = Inr (tc, s) \<and> cp = tcm_checkpoint tc
    \<and> x_db y = s \<and> x_accounted y = insert (result_call_id r) (x_accounted x) \<and> x_replies y = x_replies x
    \<and> x_sent y = x_sent x @ [commit_event cp (tcm_version tc) (ToolResultCause (result_call_id r) i) (tcm_settled tc)]"
proof -
  obtain tc s u z where a: "commit_tool_result c (clock (length (x_sent x))) conv run rid r (x_db x) = Inr (tc, s)"
      "cp = tcm_checkpoint tc"
      "emit_event (commit_event (tcm_checkpoint tc) (tcm_version tc) (ToolResultCause (result_call_id r) i) (tcm_settled tc))
        (x\<lparr>x_db := s, x_accounted := insert (result_call_id r) (x_accounted x)\<rparr>) = (Done u, z)"
      "(if tcm_settled tc then wait_ready else areturn ()) z = (Done (), y)"
    using assms by (auto simp: commit_result_def account_def)
  have "y = z\<lparr>x_ready := x_ready y\<rparr>" using a(4) wait_ready_Done by (auto split: if_splits)
  then have "x_db y = x_db z \<and> x_accounted y = x_accounted z \<and> x_replies y = x_replies z \<and> x_sent y = x_sent z"
    by (cases y; cases z) simp
  then show ?thesis using a(1,2) emit_event_Done[OF a(3)] by (intro exI[of _ tc] exI[of _ s] exI) auto
qed

lemma commit_result_round:
  assumes c: "codec_ok c" and at: "round_at c conv run rd hist x0 cp rs x" and d: "distinct (map call_id (er_calls rd))"
    and cm: "commit_result c clock conv run (er_id rd) i r x = (Done cp', y)"
  shows "round_at c conv run rd hist x0 cp' (rs @ [r]) y \<and> result_call_id r \<notin> result_call_id ` set rs"
proof -
  let ?rid = "er_id rd"
  obtain tc s now where a: "commit_tool_result c now conv run ?rid r (x_db x) = Inr (tc, s)" "cp' = tcm_checkpoint tc"
      "x_db y = s" "x_accounted y = insert (result_call_id r) (x_accounted x)"
      "x_sent y = x_sent x @ [commit_event cp' (tcm_version tc) (ToolResultCause (result_call_id r) i) (tcm_settled tc)]"
    using commit_result_Done[OF cm] by blast
  have ok: "store_ok c (x_db x)" using at by (simp add: round_at_def)
  note sp = commit_tool_result_spec[OF c ok a(1)]
  note com = conjunct2[OF conjunct2[OF sp], unfolded committed_def]
  obtain d k row v where ex: "find_round ?rid (x_db x) = Some d \<and> rd_run d = run \<and> \<not> rd_settled d
      \<and> find_call ?rid (result_call_id r) (x_db x) = Some k \<and> rc_state k = CallPending \<and> find_run run (x_db x) = Some row
      \<and> find_conversation conv (x_db x) = Some v \<and> cv_active_run v = Some run \<and> cv_current v = Some (run_head row)
      \<and> find_conversation conv s = Some (v\<lparr>cv_current := Some (checkpoint_int (tcm_checkpoint tc))\<rparr>)
      \<and> history c s (checkpoint_int (tcm_checkpoint tc))
          = history c (x_db x) (run_head row) @ [round_assistant_message ?rid d k, round_result_message ?rid k r]
      \<and> int (tcm_seq tc) = rd_next_seq d \<and> tcm_version tc = Suc (tcm_seq tc)
      \<and> find_round ?rid s = Some (d\<lparr>rd_settled := tcm_settled tc, rd_version := rd_version d + 1, rd_next_seq := rd_next_seq d + 1\<rparr>)"
    using conjunct1[OF com] by (elim exE)
  then have k: "find_round ?rid (x_db x) = Some d" "find_call ?rid (result_call_id r) (x_db x) = Some k"
      "rc_state k = CallPending" "find_conversation conv (x_db x) = Some v" "cv_active_run v = Some run" "cv_current v = Some (run_head row)"
      "find_conversation conv s = Some (v\<lparr>cv_current := Some (checkpoint_int cp')\<rparr>)"
      "history c s (checkpoint_int cp') = history c (x_db x) (run_head row) @ [round_assistant_message ?rid d k, round_result_message ?rid k r]"
      "find_round ?rid s = Some (d\<lparr>rd_settled := tcm_settled tc, rd_version := rd_version d + 1, rd_next_seq := rd_next_seq d + 1\<rparr>)"
    using a(2) by simp_all
  have p: "pending_calls ?rid s = filter (\<lambda>k. rc_call_id k \<noteq> result_call_id r) (pending_calls ?rid (x_db x))"
      "tcm_settled tc \<longleftrightarrow> pending_calls ?rid s = []"
    using com by blast+
  have head: "run_head row = checkpoint_int cp" using at k(4,6) by (auto simp: round_at_def)
  have kp: "k \<in> set (pending_calls ?rid (x_db x))" "rc_call_id k = result_call_id r"
    using find_SomeD[OF k(2)[unfolded find_call_def]] k(3) by (auto simp: pending_calls_def)
  then obtain k' where k': "k = new_call_row ?rid k'" "k' \<in> set (er_calls rd)" "call_id k' \<notin> result_call_id ` set rs"
    using at by (auto simp: round_at_def)
  have id: "call_id k' = result_call_id r" using k'(1) kp(2) by (simp add: new_call_row_def)
  have pend: "pending_calls ?rid s = map (new_call_row ?rid) (filter (\<lambda>k. call_id k \<notin> result_call_id ` set (rs @ [r])) (er_calls rd))"
    using p(1) at by (simp add: round_at_def filter_map o_def new_call_row_def conj_commute)
  have rs: "distinct (map result_call_id (rs @ [r]))" "result_call_id ` set (rs @ [r]) \<subseteq> call_id ` set (er_calls rd)"
    using at k'(3) id imageI[OF k'(2), of call_id] by (auto simp: round_at_def)
  have settled: "tcm_settled tc \<longleftrightarrow> Suc (length rs) = length (er_calls rd)"
    using p(2) pend rest_empty_iff[OF d rs] by simp
  have pairs: "history c s (checkpoint_int cp') = hist @ round_pairs ?rid (er_assistant rd) (er_calls rd) True (rs @ [r])"
    using k(8) at head k' id one_call[OF d k'(2)] k(1)
    by (auto simp: round_at_def round_pairs_append round_message_rows)
  show ?thesis
    using sp a(3,4,5) k(1,5,7,9) pend rs settled pairs at k'(3) id
    by (auto simp: round_at_def enumerate_append_eq)
qed



section \<open>The phases of a round\<close>

lemma head_of_owner:
  assumes "store_ok c s" "owns conv run s" "owns_head run base s"
  shows "\<exists>v. find_conversation conv s = Some v \<and> cv_active_run v = Some run \<and> cv_current v = Some (checkpoint_int base)"
proof -
  obtain v where v: "find_conversation conv s = Some v" "cv_active_run v = Some run" using assms(2) by (auto simp: owns_def)
  obtain w where w: "w \<in> set (conversations_t s)" "cv_active_run w = Some run" "cv_current w = Some (checkpoint_int base)"
    using assms(3) by (auto simp: owns_head_def list_ex_iff)
  have "v \<in> set (conversations_t s)" using find_conversation_mem[OF v(1)] by blast
  then have "v = w" using owner_unique[of s v w run] assms(1) v(2) w by (simp add: store_ok_def)
  then show ?thesis using v w by blast
qed

lemma start_round_Done:
  assumes ok: "store_ok c (x_db x)" and own: "owns conv run (x_db x)" and cur: "load_current_messages c conv (x_db x) = Inr hist"
    and c: "codec_ok c" and st: "start_round clock run base rd x = (Done u, y)"
  shows "round_at c conv run rd hist y base [] y \<and> distinct (map call_id (er_calls rd)) \<and> er_calls rd \<noteq> []
    \<and> map show_event (x_sent y) = map show_event (x_sent x) @ [ShownStart (er_id rd), ShownRound (er_id rd) (length (er_calls rd))]
    \<and> x_accounted y = x_accounted x \<and> x_replies y = x_replies x"
proof -
  obtain s now z where a: "create_tool_round now (er_id rd) run base (er_assistant rd) (er_calls rd) (er_started rd) (x_db x) = Inr ((), s)"
      "emit_event (commit_event base 0 (ToolRoundStarted (er_id rd)) False) (x\<lparr>x_db := s\<rparr>) = (Done (), z)"
      "emit_event (ExecuteToolRound (er_id rd) (er_calls rd)) z = (Done u, y)"
    using st by (auto simp: start_round_def)
  have y: "x_db y = s" "x_accounted y = x_accounted x" "x_replies y = x_replies x"
      "map show_event (x_sent y) = map show_event (x_sent x) @ [ShownStart (er_id rd), ShownRound (er_id rd) (length (er_calls rd))]"
    using emit_event_Done[OF a(2)] emit_event_Done[OF a(3)] by simp_all
  note cr = create_tool_round_ok[OF ok a(1)]
  define new where "new = \<lparr>rd_id = er_id rd, rd_run = run, rd_base = checkpoint_int base, rd_assistant = er_assistant rd,
      rd_settled = False, rd_version = 0, rd_next_seq = 0,
      rd_created = (case er_started rd of Some t \<Rightarrow> int t | None \<Rightarrow> now)\<rparr>"
  have s: "owns_head run base (x_db x)" "find_round (er_id rd) (x_db x) = None" "distinct (map call_id (er_calls rd))"
      "er_calls rd \<noteq> []" "rd_assistant new = er_assistant rd" "rd_next_seq new = 0" "rd_id new = er_id rd"
      "s = (x_db x)\<lparr>rounds_t := rounds_t (x_db x) @ [new], round_calls_t := round_calls_t (x_db x) @ map (new_call_row (er_id rd)) (er_calls rd)\<rparr>"
    using a(1) by (auto simp: create_tool_round_def new_def split: if_splits)
  obtain v where v: "find_conversation conv (x_db x) = Some v" "cv_active_run v = Some run" "cv_current v = Some (checkpoint_int base)"
    using head_of_owner[OF ok own s(1)] by blast
  have "filter (\<lambda>k. rc_round k = er_id rd \<and> rc_state k = CallPending) (round_calls_t (x_db x)) = []"
    using no_calls_of_new_round[OF _ s(2)] ok by (auto simp: filter_empty_conv store_ok_def)
  then have "pending_calls (er_id rd) s = map (new_call_row (er_id rd)) (er_calls rd)"
    using new_calls_facts(1) by (simp add: pending_calls_def s(8))
  moreover have "find_round (er_id rd) s = Some new" using s(2,7) by (simp add: find_round_def s(8) find_append_none)
  moreover have "find_conversation conv s = Some v" using v(1) by (simp add: find_conversation_def s(8))
  moreover have "history c s (checkpoint_int base) = hist"
    using load_current_iff[OF c ok v(1,3)] cur same_checkpoints_reads(7)[of "x_db x" s] cr
    by (simp add: history_def)
  ultimately show ?thesis using y v(2,3) s(3-6) cr by (auto simp: round_at_def)
qed


text \<open>The results a round commits are those the client sent or errors of its own making.\<close>

definition result_source :: "turn_reading list \<Rightarrow> tool_result \<Rightarrow> bool" where
  "result_source ts r \<longleftrightarrow> Queued (ToolResultCommand r) \<in> tn_queue ` set ts
     \<or> (\<exists>late. r = interrupted_result (interrupt_reason late) (result_call_id r))"

definition loop_at :: "exec_round \<Rightarrow> tool_result list \<Rightarrow> await_state \<Rightarrow> bool" where
  "loop_at rd rs l \<longleftrightarrow> set (rl_completed l) = result_call_id ` set rs
     \<and> rl_remaining l = length (er_calls rd) - length rs"

lemma await_results_Done:
  assumes c: "codec_ok c" and d: "distinct (map call_id (er_calls rd))"
  shows "await_results c clock conv run (er_id rd) deadline ts l x = (Done (late, brk, l'), y) \<Longrightarrow>
    round_at c conv run rd hist x0 (rl_checkpoint l) rs x \<Longrightarrow> loop_at rd rs l \<Longrightarrow>
    \<exists>rs'. round_at c conv run rd hist x0 (rl_checkpoint l') (rs @ rs') y \<and> loop_at rd (rs @ rs') l'
      \<and> list_all (result_source ts) rs' \<and> x_replies y = x_replies x"
proof (induction ts arbitrary: l x rs)
  case (Cons t ts)
  have more: "result_source ts r \<Longrightarrow> result_source (t # ts) r" for r by (auto simp: result_source_def)
  have later: "\<exists>rs'. round_at c conv run rd hist x0 (rl_checkpoint l') (rs @ rs') y \<and> loop_at rd (rs @ rs') l'
      \<and> list_all (result_source (t # ts)) rs' \<and> x_replies y = x_replies x"
    if "await_results c clock conv run (er_id rd) deadline ts k x = (Done (late, brk, l'), y)"
      "rl_checkpoint k = rl_checkpoint l" "loop_at rd rs k" for k
    using Cons.IH[OF that(1) _ that(3)] Cons.prems(2) that(2) more by (fastforce simp: list_all_iff)
  have stay: ?case if "(late, brk, l') = (b, m, l)" "y = x" for b m
    using Cons.prems(2,3) that by (intro exI[of _ "[]"]) simp
  show ?case
  proof (cases "tn_cancelled t \<or> deadline \<le> tn_time t")
    case True
    then show ?thesis using Cons.prems(1) stay by (auto split: if_splits)
  next
    case False
    show ?thesis
    proof (cases "tn_queue t")
      case (Queued cmd)
      show ?thesis
      proof (cases cmd)
        case (ToolResultCommand r)
        show ?thesis
        proof (cases "result_call_id r \<in> set (rl_completed l)")
          case True
          then show ?thesis using later[of l] Cons.prems(1,3) False Queued ToolResultCommand by simp
        next
          case new: False
          let ?l = "\<lambda>cp. l\<lparr>rl_checkpoint := cp, rl_completed := result_call_id r # rl_completed l,
                        rl_remaining := rl_remaining l - Suc 0\<rparr>"
          obtain cp z where z: "commit_result c clock conv run (er_id rd) False r x = (Done cp, z)"
              "(if rl_remaining l \<le> Suc 0 then areturn (False, None, ?l cp)
                else await_results c clock conv run (er_id rd) deadline ts (?l cp)) z = (Done (late, brk, l'), y)"
            using Cons.prems(1) False Queued ToolResultCommand new by (auto simp: Let_def)
          have at: "round_at c conv run rd hist x0 cp (rs @ [r]) z" "loop_at rd (rs @ [r]) (?l cp)"
            using commit_result_round[OF c Cons.prems(2) d z(1)] Cons.prems(3) by (auto simp: loop_at_def)
          have src: "result_source (t # ts) r" using Queued ToolResultCommand by (force simp: result_source_def)
          have replies: "x_replies z = x_replies x" using commit_result_Done[OF z(1)] by auto
          show ?thesis
          proof (cases "rl_remaining l \<le> Suc 0")
            case True
            then show ?thesis using z(2) at src replies by (intro exI[of _ "[r]"]) auto
          next
            case go: False
            obtain rs' where "round_at c conv run rd hist x0 (rl_checkpoint l') ((rs @ [r]) @ rs') y"
                "loop_at rd ((rs @ [r]) @ rs') l'" "list_all (result_source ts) rs'" "x_replies y = x_replies z"
              using Cons.IH[of "?l cp" z "rs @ [r]"] z(2) go at by auto
            then show ?thesis using src more replies by (intro exI[of _ "r # rs'"]) (auto simp: list_all_iff)
          qed
        qed
      next
        case (InsertMessages ev ms)
        then show ?thesis
          using later[of "l\<lparr>rl_pending := rl_pending l @ [(ev, ms)]\<rparr>"] Cons.prems(1,3) False Queued by (simp add: loop_at_def)
      qed (use Cons.prems(1) stay False Queued in auto)
    qed (use Cons.prems(1,3) later[of l] False in simp_all)
  qed
qed simp

lemma interrupt_calls_Done:
  assumes c: "codec_ok c" and d: "distinct (map call_id (er_calls rd))"
  shows "interrupt_calls c clock conv run (er_id rd) (interrupt_reason late) ks cp x = (Done cp', y) \<Longrightarrow>
    round_at c conv run rd hist x0 cp rs x \<Longrightarrow> ks = filter (\<lambda>k. call_id k \<notin> result_call_id ` set rs) (er_calls rd) \<Longrightarrow>
    \<exists>rs'. round_at c conv run rd hist x0 cp' (rs @ rs') y \<and> length (rs @ rs') = length (er_calls rd)
      \<and> list_all (result_source ts) rs' \<and> x_replies y = x_replies x"
proof (induction ks arbitrary: cp x rs)
  case Nil
  have "length rs = length (er_calls rd)"
    using rest_empty_iff[OF d, of rs] Nil(2,3) by (simp add: round_at_def)
  then show ?case using Nil by (intro exI[of _ "[]"]) simp
next
  case (Cons k ks)
  let ?r = "interrupted_result (interrupt_reason late) (call_id k)"
  obtain cp1 z where z: "commit_result c clock conv run (er_id rd) True ?r x = (Done cp1, z)"
      "interrupt_calls c clock conv run (er_id rd) (interrupt_reason late) ks cp1 z = (Done cp', y)"
    using Cons.prems(1) by auto
  have at: "round_at c conv run rd hist x0 cp1 (rs @ [?r]) z" "x_replies z = x_replies x"
    using commit_result_round[OF c Cons.prems(2) d z(1)] commit_result_Done[OF z(1)] by auto
  have "distinct (map call_id (k # ks))" using d Cons.prems(3) by (metis distinct_map_filter)
  then have "ks = filter (\<lambda>x. call_id x \<noteq> call_id k) (k # ks)" by (auto intro!: filter_True[symmetric], metis image_eqI)
  also have "\<dots> = filter (\<lambda>x. call_id x \<notin> result_call_id ` set (rs @ [?r])) (er_calls rd)"
    unfolding Cons.prems(3) by (simp add: interrupted_result_def conj_commute)
  finally obtain rs' where "round_at c conv run rd hist x0 cp' ((rs @ [?r]) @ rs') y"
      "length ((rs @ [?r]) @ rs') = length (er_calls rd)" "list_all (result_source ts) rs'" "x_replies y = x_replies z"
    using Cons.IH[OF z(2) at(1)] by blast
  moreover have "result_source ts ?r" by (auto simp: result_source_def interrupted_result_def)
  ultimately show ?case using at(2) by (intro exI[of _ "?r # rs'"]) simp
qed



section \<open>Runtime messages\<close>

definition event_of :: "message \<Rightarrow> string" where
  "event_of m = the (runtime_event_id m)"

lemma announce_Done:
  "announce zs x = (Done u, y) \<Longrightarrow>
   map show_event (x_sent y) = map show_event (x_sent x)
       @ map (\<lambda>(m, _). ShownMessage (event_of m) True) (filter (\<lambda>(_, _, i). i) zs)
   \<and> x_db y = x_db x \<and> x_accounted y = x_accounted x \<and> x_replies y = x_replies x"
proof (induction zs arbitrary: x)
  case (Cons a zs)
  obtain m cp i where a: "a = (m, cp, i)" by (cases a) auto
  show ?case
  proof (cases i)
    case True
    let ?last = "\<not> list_ex (\<lambda>(_, _, i). i) zs"
    obtain v z w where z: "emit_event (commit_event cp 0 (RuntimeEventCause (event_of m)) True) x = (Done v, z)"
        "(if ?last then wait_ready else areturn ()) z = (Done (), w)" "announce zs w = (Done u, y)"
      using Cons.prems True a by (auto simp: event_of_def split: if_splits)
    have "w = z\<lparr>x_ready := x_ready w\<rparr>" using z(2) wait_ready_Done by (auto split: if_splits)
    then have "x_sent w = x_sent z \<and> x_db w = x_db z \<and> x_accounted w = x_accounted z \<and> x_replies w = x_replies z"
      by (cases w; cases z) simp
    then show ?thesis using Cons.IH[OF z(3)] emit_event_Done[OF z(1)] True a by simp
  next
    case False
    then show ?thesis using Cons a by simp
  qed
qed simp

text \<open>Where a conversation stands: owned by the run, its current checkpoint holding the history.\<close>

definition stands :: "codec \<Rightarrow> string \<Rightarrow> string \<Rightarrow> checkpoint_id \<Rightarrow> message list \<Rightarrow> db \<Rightarrow> bool" where
  "stands c conv run cp hist s \<longleftrightarrow> store_ok c s \<and> history c s (checkpoint_int cp) = hist
     \<and> (\<exists>v. find_conversation conv s = Some v \<and> cv_active_run v = Some run \<and> cv_current v = Some (checkpoint_int cp))"

text \<open>What runtime messages leave: the history and the events grow by the same messages, the rounds stay.\<close>

definition messages_added ::
    "codec \<Rightarrow> string \<Rightarrow> string \<Rightarrow> message list \<Rightarrow> exec \<Rightarrow> checkpoint_id \<Rightarrow> exec \<Rightarrow> message list \<Rightarrow> bool" where
  "messages_added c conv run hist x cp y ms \<longleftrightarrow> stands c conv run cp (hist @ map skip_parts ms) (x_db y)
     \<and> map show_event (x_sent y) = map show_event (x_sent x) @ map (\<lambda>m. ShownMessage (event_of m) True) ms
     \<and> rounds_t (x_db y) = rounds_t (x_db x) \<and> round_calls_t (x_db y) = round_calls_t (x_db x)
     \<and> x_accounted y = x_accounted x"

lemma messages_added_refl: "stands c conv run cp hist (x_db x) \<Longrightarrow> messages_added c conv run hist x cp x []"
  by (simp add: messages_added_def)

lemma messages_added_trans:
  "messages_added c conv run hist x cp y ms \<Longrightarrow> messages_added c conv run (hist @ map skip_parts ms) y cp' z ms' \<Longrightarrow>
   messages_added c conv run hist x cp' z (ms @ ms')"
  by (simp add: messages_added_def)

lemma fresh_zip: "length ms = length out \<Longrightarrow>
    map (\<lambda>(m, _). f m) (filter (\<lambda>(_, _, i). i) (zip ms out)) = map f (fresh ms out)"
  by (induction ms out rule: list_induct2) (auto simp: fresh_def)

lemma fresh_subset: "set (fresh ms out) \<subseteq> set ms"
  by (auto simp: fresh_def dest: set_zip_leftD split: if_splits)

lemma fresh_some: "length ms = length out \<Longrightarrow> list_ex snd out \<longleftrightarrow> fresh ms out \<noteq> []"
  by (induction ms out rule: list_induct2) (auto simp: fresh_def)

lemma append_batch_Done:
  assumes c: "codec_ok c" and st: "stands c conv run cp hist (x_db x)"
    and ap: "append_batch c clock conv run cp b x = (Done (cp', ins), y)"
  shows "\<exists>ms. messages_added c conv run hist x cp' y ms \<and> set ms \<subseteq> set (snd b) \<and> (ins \<longleftrightarrow> ms \<noteq> [])
    \<and> x_replies y = x_replies x @ [(fst b, if ms = [] then Duplicate else Applied)]"
proof -
  obtain s out z u where a: "append_messages_once c conv run cp (snd b) (x_db x) = Inr (out, s)"
      "announce (zip (snd b) out) (x\<lparr>x_db := s\<rparr>) = (Done u, z)"
      "y = z\<lparr>x_replies := x_replies z @ [(fst b, if list_ex snd out then Applied else Duplicate)]\<rparr>"
      "cp' = (if out = [] then cp else fst (last out))" "ins = list_ex snd out"
    using ap by (auto simp: append_batch_def reply_def Let_def split: if_splits)
  note an = announce_Done[OF a(2)]
  show ?thesis
  proof (cases "snd b = []")
    case True
    then have "out = []" "s = x_db x" using a(1) by (auto simp: append_messages_once_def)
    then show ?thesis using True an a(3-5) st by (intro exI[of _ "[]"]) (simp add: messages_added_def)
  next
    case False
    obtain i where i: "cp = CheckpointId i" by (cases cp)
    have ok: "store_ok c (x_db x)" and h: "history c (x_db x) i = hist" using st i by (auto simp: stands_def)
    note sp = append_messages_once_spec[OF c ok False a(1)[unfolded i]]
    then have len: "length out = length (snd b)" by blast
    then have ne: "out \<noteq> []" using False by auto
    have "stands c conv run cp' (hist @ map skip_parts (fresh (snd b) out)) s"
      using sp ne a(4) h by (auto simp: stands_def batch_left_def)
    then show ?thesis
      using an a(3,5) sp fresh_zip[OF len[symmetric], of "\<lambda>m. ShownMessage (event_of m) True"] fresh_subset
      by (intro exI[of _ "fresh (snd b) out"]) (simp add: messages_added_def fresh_some[OF len[symmetric]])
  qed
qed

lemma append_batches_Done:
  assumes c: "codec_ok c"
  shows "append_batches c clock conv run cp bs x = (Done (cp', any), y) \<Longrightarrow> stands c conv run cp hist (x_db x) \<Longrightarrow>
    \<exists>ms. messages_added c conv run hist x cp' y ms \<and> set ms \<subseteq> set (concat (map snd bs)) \<and> (any \<longleftrightarrow> ms \<noteq> [])
      \<and> map fst (x_replies y) = map fst (x_replies x) @ map fst bs"
proof (induction bs arbitrary: cp x hist any)
  case Nil
  then show ?case by (intro exI[of _ "[]"]) (simp add: messages_added_refl)
next
  case (Cons b bs)
  obtain cp1 i z more where z: "append_batch c clock conv run cp b x = (Done (cp1, i), z)"
      "append_batches c clock conv run cp1 bs z = (Done (cp', more), y)" "any = (i \<or> more)"
    using Cons.prems(1) by auto
  obtain ms where ms: "messages_added c conv run hist x cp1 z ms" "set ms \<subseteq> set (snd b)" "i \<longleftrightarrow> ms \<noteq> []"
      "map fst (x_replies z) = map fst (x_replies x) @ [fst b]"
    using append_batch_Done[OF c Cons.prems(2) z(1)] by auto
  then have "stands c conv run cp1 (hist @ map skip_parts ms) (x_db z)" by (simp add: messages_added_def)
  then obtain ms' where "messages_added c conv run (hist @ map skip_parts ms) z cp' y ms'"
      "set ms' \<subseteq> set (concat (map snd bs))" "more \<longleftrightarrow> ms' \<noteq> []" "map fst (x_replies y) = map fst (x_replies z) @ map fst bs"
    using Cons.IH[OF z(2)] by blast
  then show ?case using ms z(3) messages_added_trans[OF ms(1)] by (intro exI[of _ "ms @ ms'"]) auto
qed


lemma round_at_parts:
  assumes at: "round_at c conv run rd hist x0 cp rs x" and all: "length rs = length (er_calls rd)"
    and d: "distinct (map call_id (er_calls rd))"
  shows "stands c conv run cp (hist @ round_pairs (er_id rd) (er_assistant rd) (er_calls rd) True rs) (x_db x)"
    and "result_call_id ` set rs = call_id ` set (er_calls rd)" "pending_calls (er_id rd) (x_db x) = []"
proof -
  show "stands c conv run cp (hist @ round_pairs (er_id rd) (er_assistant rd) (er_calls rd) True rs) (x_db x)"
    using at by (simp add: round_at_def stands_def)
  have "filter (\<lambda>k. call_id k \<notin> result_call_id ` set rs) (er_calls rd) = []"
    using rest_empty_iff[OF d, of rs] at all by (simp add: round_at_def)
  then show "result_call_id ` set rs = call_id ` set (er_calls rd)" "pending_calls (er_id rd) (x_db x) = []"
    using at by (auto simp: round_at_def filter_empty_conv)
qed

lemma execute_Done:
  assumes "codec_ok c" "store_ok c (x_db x)" "owns conv run (x_db x)" "load_current_messages c conv (x_db x) = Inr hist"
    and "execute c clock conv run base rd insertions start ts x = (Done cp, y)"
  shows "\<exists>rs ms x0 z cp1. round_at c conv run rd hist x0 cp1 rs z \<and> length rs = length (er_calls rd)
    \<and> distinct (map call_id (er_calls rd)) \<and> er_calls rd \<noteq> [] \<and> list_all (result_source ts) rs
    \<and> x_accounted x0 = x_accounted x
    \<and> map show_event (x_sent x0) = map show_event (x_sent x) @ [ShownStart (er_id rd), ShownRound (er_id rd) (length (er_calls rd))]
    \<and> messages_added c conv run (hist @ round_pairs (er_id rd) (er_assistant rd) (er_calls rd) True rs) z cp y ms"
proof -
  let ?rid = "er_id rd"
  let ?l = "\<lparr>rl_checkpoint = base, rl_completed = [], rl_remaining = length (er_calls rd), rl_pending = insertions\<rparr>"
  let ?last = "\<lambda>brk cp. case brk of None \<Rightarrow> areturn cp
      | Some b \<Rightarrow> abind (append_batches c clock conv run cp [b]) (\<lambda>(cp, _). areturn cp)"
  obtain x0 late brk l x1 cp1 x2 cp2 i x3 where s: "start_round clock run base rd x = (Done (), x0)"
      "await_results c clock conv run ?rid (start + tool_round_timeout) ts ?l x0 = (Done (late, brk, l), x1)"
      "interrupt_calls c clock conv run ?rid (interrupt_reason late)
         (filter (\<lambda>k. call_id k \<notin> set (rl_completed l)) (er_calls rd)) (rl_checkpoint l) x1 = (Done cp1, x2)"
      "append_batches c clock conv run cp1 (rl_pending l) x2 = (Done (cp2, i), x3)" "?last brk cp2 x3 = (Done cp, y)"
    using assms(5) by (auto simp: execute_def interrupt_remaining_def)
  have st: "round_at c conv run rd hist x0 base [] x0" "distinct (map call_id (er_calls rd))" "er_calls rd \<noteq> []"
      "map show_event (x_sent x0) = map show_event (x_sent x) @ [ShownStart ?rid, ShownRound ?rid (length (er_calls rd))]"
      "x_accounted x0 = x_accounted x"
    using start_round_Done[OF assms(2-4,1) s(1)] by auto
  obtain rs1 where r1: "round_at c conv run rd hist x0 (rl_checkpoint l) rs1 x1" "loop_at rd rs1 l" "list_all (result_source ts) rs1"
    using await_results_Done[OF assms(1) st(2) s(2), of hist x0 "[]"] st(1) by (auto simp: loop_at_def)
  obtain rs2 where r2: "round_at c conv run rd hist x0 cp1 (rs1 @ rs2) x2" "length (rs1 @ rs2) = length (er_calls rd)"
      "list_all (result_source ts) rs2"
  proof -
    have "set (rl_completed l) = result_call_id ` set rs1" using r1(2) by (simp add: loop_at_def)
    then show thesis using interrupt_calls_Done[OF assms(1) st(2) s(3) r1(1), of ts] that by auto
  qed
  let ?h = "hist @ round_pairs ?rid (er_assistant rd) (er_calls rd) True (rs1 @ rs2)"
  obtain ms1 where m1: "messages_added c conv run ?h x2 cp2 x3 ms1"
    using append_batches_Done[OF assms(1) s(4) round_at_parts(1)[OF r2(1,2) st(2)]] by blast
  have "\<exists>ms2. messages_added c conv run (?h @ map skip_parts ms1) x3 cp y ms2"
  proof (cases brk)
    case None
    then show ?thesis using s(5) m1 messages_added_refl by (fastforce simp: messages_added_def)
  next
    case (Some b)
    then show ?thesis
      using s(5) m1 append_batches_Done[OF assms(1), of clock conv run cp2 "[b]" x3 cp _ y "?h @ map skip_parts ms1"]
      by (auto simp: messages_added_def)
  qed
  then obtain ms2 where "messages_added c conv run ?h x2 cp y (ms1 @ ms2)" using messages_added_trans[OF m1] by blast
  then show ?thesis using r1(3) r2 st
    by (intro exI[of _ "rs1 @ rs2"] exI[of _ "ms1 @ ms2"] exI[of _ x0] exI[of _ x2] exI[of _ cp1]) simp
qed

text \<open>
  C5: a tool round ends with every call answered. When it returns, each call has exactly one result, sent by the
  client or made up for it; the history is the old one followed by the call and result messages in
  the order of completion, the assistant's text in the first, and then the messages inserted meanwhile; the
  round is settled, its calls accounted for; and the client has been told of the round, of every
  result, asked to acknowledge only the last, and of every message.
\<close>
theorem round_answers_every_call:
  assumes "codec_ok c" "store_ok c (x_db x)" "owns conv run (x_db x)" "load_current_messages c conv (x_db x) = Inr hist"
    and "execute c clock conv run base rd insertions start ts x = (Done cp, y)"
  shows "\<exists>rs ms. distinct (map result_call_id rs) \<and> result_call_id ` set rs = call_id ` set (er_calls rd)
    \<and> list_all (result_source ts) rs \<and> store_ok c (x_db y)
    \<and> load_current_messages c conv (x_db y)
        = Inr (hist @ round_pairs (er_id rd) (er_assistant rd) (er_calls rd) True rs @ map skip_parts ms)
    \<and> load_checkpoint_messages c cp (x_db y) = load_current_messages c conv (x_db y)
    \<and> map_option rd_settled (find_round (er_id rd) (x_db y)) = Some True
    \<and> x_accounted y = x_accounted x \<union> call_id ` set (er_calls rd)
    \<and> map show_event (x_sent y) = map show_event (x_sent x)
        @ [ShownStart (er_id rd), ShownRound (er_id rd) (length (er_calls rd))]
        @ map (\<lambda>(n, r). ShownResult (result_call_id r) (n = length (er_calls rd))) (enumerate 1 rs)
        @ map (\<lambda>m. ShownMessage (event_of m) True) ms"
proof -
  obtain rs ms x0 z cp1 where e: "round_at c conv run rd hist x0 cp1 rs z" "length rs = length (er_calls rd)"
      "distinct (map call_id (er_calls rd))" "list_all (result_source ts) rs" "x_accounted x0 = x_accounted x"
      "map show_event (x_sent x0) = map show_event (x_sent x) @ [ShownStart (er_id rd), ShownRound (er_id rd) (length (er_calls rd))]"
      "messages_added c conv run (hist @ round_pairs (er_id rd) (er_assistant rd) (er_calls rd) True rs) z cp y ms"
    using execute_Done[OF assms] by blast
  note p = round_at_parts[OF e(1-3)]
  obtain v where v: "store_ok c (x_db y)" "find_conversation conv (x_db y) = Some v" "cv_current v = Some (checkpoint_int cp)"
      "history c (x_db y) (checkpoint_int cp)
         = hist @ round_pairs (er_id rd) (er_assistant rd) (er_calls rd) True rs @ map skip_parts ms"
    using e(7) by (auto simp: messages_added_def stands_def)
  have same: "rounds_t (x_db y) = rounds_t (x_db z)" "round_calls_t (x_db y) = round_calls_t (x_db z)"
      "x_accounted y = x_accounted z"
    using e(7) by (auto simp: messages_added_def)
  obtain d where d: "find_round (er_id rd) (x_db y) = Some d" using e(1) same(1) by (auto simp: round_at_def find_round_def)
  then have "rd_settled d"
    using find_SomeD[OF d[unfolded find_round_def]] v(1) p(3) same(2)
    by (simp add: store_ok_def rounds_ok_def pending_calls_def)
  then have settled: "map_option rd_settled (find_round (er_id rd) (x_db y)) = Some True" using d by simp
  have loads: "load_checkpoint_messages c cp (x_db y) = load_current_messages c conv (x_db y)"
    using load_current_iff[OF assms(1) v(1-3)] load_history[OF assms(1), of "x_db y" "checkpoint_int cp"] v(1)
    by (cases cp) (simp add: store_ok_def)
  show ?thesis
    using e loads settled p(2) v same load_current_iff[OF assms(1) v(1-3)]
    by (intro exI[of _ rs] exI[of _ ms]) (simp add: round_at_def messages_added_def)
qed


definition demo_round :: exec_round where
  "demo_round = \<lparr>er_id = ''t'', er_assistant = demo_assistant, er_calls = [demo_tool_call], er_started = None\<rparr>"

definition demo_exec :: exec where
  "demo_exec = \<lparr>x_db = claimed_db, x_sent = [], x_closes = None, x_ready = [ReadyOk], x_replies = [], x_accounted = {}\<rparr>"

definition demo_reading :: turn_reading where
  "demo_reading = \<lparr>tn_cancelled = False, tn_time = 1, tn_queue = Queued (ToolResultCommand demo_tool_result)\<rparr>"

definition demo_clock :: "nat \<Rightarrow> int" where
  "demo_clock n = (if n = 0 then 6 else 7)"

lemmas act_defs = abind_def areturn_def astop_def awaiting_def in_store_def emit_event_def account_def reply_def wait_ready_def

lemma demo_execute:
  "\<exists>cp y. execute unary_codec demo_clock ''c'' ''r'' (CheckpointId 1) demo_round [] 0 [demo_reading] demo_exec = (Done cp, y)"
proof -
  obtain tc s' where a: "commit_tool_result unary_codec 7 ''c'' ''r'' ''t'' demo_tool_result round_db = Inr (tc, s')" "tcm_settled tc"
    by (simp add: round_db_value claimed_db_value commit_tool_result_def store_eval find_call_def demo_tool_result_def
        demo_tool_call_def new_call_row_def round_assistant_message_def round_result_message_def complete_call_def
        pending_calls_def demo_assistant_def Let_def)
  have cr: "create_tool_round 6 ''t'' ''r'' (CheckpointId 1) demo_assistant [demo_tool_call] None claimed_db = Inr ((), round_db)"
    by (simp add: round_db_def claimed_db_value create_tool_round_def owns_head_def find_round_def demo_tool_call_def
        new_run_row_def start_run_def run_kind_columns_def)
  have id: "call_id demo_tool_call = ''k''" "result_call_id demo_tool_result = ''k''"
    by (simp_all add: demo_tool_call_def demo_tool_result_def)
  show ?thesis
    by (simp add: execute_def id start_round_def commit_result_def interrupt_remaining_def act_defs demo_round_def demo_exec_def
        demo_reading_def demo_clock_def cr a tool_round_timeout_def)
qed


lemma demo_exec_stands:
  "owns ''c'' ''r'' (x_db demo_exec)" "load_current_messages unary_codec ''c'' (x_db demo_exec) = Inr []"
  by (simp_all add: demo_exec_def claimed_db_value owns_def load_current_messages_def store_eval load_checkpoint_messages_def
      checkpoint_rows_def lineage_def joined_messages_def checkpoint_own_rows_def)

lemma round_answers_every_call_witness:
  "\<exists>cp y. execute unary_codec demo_clock ''c'' ''r'' (CheckpointId 1) demo_round [] 0 [demo_reading] demo_exec = (Done cp, y)
     \<and> x_accounted y = {''k''} \<and> map_option rd_settled (find_round ''t'' (x_db y)) = Some True"
proof -
  obtain cp y where y: "execute unary_codec demo_clock ''c'' ''r'' (CheckpointId 1) demo_round [] 0 [demo_reading] demo_exec = (Done cp, y)"
    using demo_execute by blast
  have db: "store_ok unary_codec (x_db demo_exec)" by (simp add: demo_exec_def claimed_db_ok)
  have "x_accounted y = x_accounted demo_exec \<union> call_id ` set (er_calls demo_round)
      \<and> map_option rd_settled (find_round (er_id demo_round) (x_db y)) = Some True"
    using round_answers_every_call[OF unary_codec_ok db demo_exec_stands y] by blast
  then show ?thesis using y by (simp add: demo_round_def demo_exec_def demo_tool_call_def)
qed

end
