(* ===== verification/RoundProgress.thy ===== *)
theory RoundProgress
  imports RoundExecLaws
begin

text \<open>A tool round ends: every action uses a bounded number of the answers it waits for.\<close>

section \<open>No round waits for ever\<close>

text \<open>
  An action that ends having used at most n of the answers to barriers, its value satisfying Q, or waits at a barrier
  when fewer than n answers come.
\<close>

definition within :: "nat \<Rightarrow> 'a act \<Rightarrow> ('a \<Rightarrow> bool) \<Rightarrow> bool" where
  "within n m Q \<longleftrightarrow> (\<forall>x.
     case m x of
        (Waiting, y) \<Rightarrow> length (x_ready x) < n \<and> x_ready y = []
      | (Stop r, y) \<Rightarrow> True
      | (Done a, y) \<Rightarrow> length (x_ready x) \<le> length (x_ready y) + n \<and> Q a)"

lemma within_bind:
  assumes "within n m P" "\<And>a. P a \<Longrightarrow> within k (f a) Q"
  shows "within (n + k) (abind m f) Q"
  unfolding within_def
proof (rule allI)
  fix x :: exec
  show "case abind m f x of (Waiting, y) \<Rightarrow> length (x_ready x) < n + k \<and> x_ready y = [] | (Stop r, y) \<Rightarrow> True
      | (Done a, y) \<Rightarrow> length (x_ready x) \<le> length (x_ready y) + (n + k) \<and> Q a"
  proof (cases "m x")
    case (Pair p y)
    show ?thesis
    proof (cases p)
      case (Done a)
      then have "P a" and y: "length (x_ready x) \<le> length (x_ready y) + n"
        using assms(1)[unfolded within_def, rule_format, of x] Pair by auto
      then show ?thesis
        using assms(2)[of a, unfolded within_def, rule_format, of y] Pair Done
        by (auto simp: abind_def split: progress.splits prod.splits)
    qed (use assms(1)[unfolded within_def, rule_format, of x] Pair in \<open>auto simp: abind_def\<close>)
  qed
qed

lemma within_mono:
  assumes "within n m P" "n \<le> k" "\<And>a. P a \<Longrightarrow> Q a"
  shows "within k m Q"
  using assms unfolding within_def by (fastforce split: prod.splits progress.splits)

lemma within_act [simp]: "within n (areturn a) Q \<longleftrightarrow> Q a" "within n (astop r) Q"
  by (simp_all add: within_def areturn_def astop_def)

lemma within_basic:
  "within 0 (in_store clock g) (\<lambda>_. True)" "within 0 (emit_event e) (\<lambda>_. True)" "within 1 wait_ready (\<lambda>_. True)"
  "within 0 (account cid) (\<lambda>_. True)" "within 0 (reply ev r) (\<lambda>_. True)"
  by (auto simp: within_def in_store_def emit_event_def wait_ready_def account_def reply_def
      split: sum.splits option.splits nat.splits list.splits)

lemma within_then: "within n m (\<lambda>_. True) \<Longrightarrow> (\<And>a. within k (f a) Q) \<Longrightarrow> within (n + k) (abind m f) Q"
  by (rule within_bind)

lemma within_commit_result: "within 1 (commit_result c clock conv run rid i r) (\<lambda>_. True)"
proof -
  have w: "within 1 (if b then wait_ready else areturn ()) (\<lambda>_. True)" for b using within_basic(3) by simp
  have "within (0 + (0 + (0 + (1 + 0)))) (commit_result c clock conv run rid i r) (\<lambda>_. True)"
    unfolding commit_result_def by (intro within_then within_basic w) simp
  then show ?thesis by simp
qed

lemma within_announce: "within 1 (announce zs) (\<lambda>_. True)"
proof -
  have "within (if list_ex (\<lambda>(_, _, i). i) zs then 1 else 0) (announce zs) (\<lambda>_. True)"
  proof (induction zs)
    case (Cons a zs)
    obtain m cp i where a: "a = (m, cp, i)" by (cases a) auto
    let ?rest = "list_ex (\<lambda>(_, _, i). i) zs"
    have "within (if ?rest then 0 else 1) (if ?rest then areturn () else wait_ready) (\<lambda>_. True)"
      using within_basic(3) by simp
    then have "within (0 + ((if ?rest then 0 else 1) + (if ?rest then 1 else 0))) (announce ((m, cp, True) # zs)) (\<lambda>_. True)"
      using Cons.IH by (simp only: announce.simps not_True_eq_False if_False) (intro within_then within_basic)
    then show ?case using Cons.IH a by (cases i) auto
  qed simp
  then show ?thesis by (rule within_mono) auto
qed

lemma within_append_batch: "within 1 (append_batch c clock conv run cp b) (\<lambda>_. True)"
proof -
  have "within (0 + (1 + (0 + 0))) (abind (in_store clock (\<lambda>_. append_messages_once c conv run cp (snd b))) (\<lambda>out.
          let inserted = list_ex snd out
          in abind (announce (zip (snd b) out)) (\<lambda>_.
             abind (reply (fst b) (if inserted then Applied else Duplicate)) (\<lambda>_.
             areturn (if out = [] then cp else fst (last out), inserted))))) (\<lambda>_. True)"
    unfolding Let_def by (intro within_then within_basic within_announce) simp
  then show ?thesis by (simp add: append_batch_def)
qed

lemma within_append_batches: "within (length bs) (append_batches c clock conv run cp bs) (\<lambda>_. True)"
proof (induction bs arbitrary: cp)
  case (Cons b bs)
  have "within (1 + (length bs + 0)) (append_batches c clock conv run cp (b # bs)) (\<lambda>_. True)"
    unfolding append_batches.simps split_def by (intro within_then within_append_batch Cons.IH) simp
  then show ?case by simp
qed simp

lemma within_await:
  "\<exists>t\<in>set ts. tn_cancelled t \<or> deadline \<le> tn_time t \<Longrightarrow>
   within (length ts) (await_results c clock conv run rid deadline ts l)
     (\<lambda>(late, brk, l'). length (rl_pending l') \<le> length (rl_pending l) + length ts)"
proof (induction ts arbitrary: l)
  case (Cons t ts)
  show ?case
  proof (cases "tn_cancelled t \<or> deadline \<le> tn_time t")
    case False
    then have ex: "\<exists>t\<in>set ts. tn_cancelled t \<or> deadline \<le> tn_time t" using Cons.prems by auto
    have further: "within (length (t # ts)) (await_results c clock conv run rid deadline ts k)
        (\<lambda>(late, brk, l'). length (rl_pending l') \<le> length (rl_pending l) + length (t # ts))"
      if "length (rl_pending k) \<le> Suc (length (rl_pending l))" for k
      by (rule within_mono[OF Cons.IH[OF ex, of k]]) (use that in auto)
    show ?thesis
    proof (cases "tn_queue t")
      case (Queued cmd)
      show ?thesis
      proof (cases cmd)
        case (ToolResultCommand r)
        let ?k = "\<lambda>cp. l\<lparr>rl_checkpoint := cp, rl_completed := result_call_id r # rl_completed l, rl_remaining := rl_remaining l - Suc 0\<rparr>"
        have "within (1 + length ts) (abind (commit_result c clock conv run rid False r) (\<lambda>cp.
            if rl_remaining l \<le> Suc 0 then areturn (False, None, ?k cp)
            else await_results c clock conv run rid deadline ts (?k cp)))
            (\<lambda>(late, brk, l'). length (rl_pending l') \<le> length (rl_pending l) + length (t # ts))"
        proof (rule within_then[OF within_commit_result])
          fix cp
          show "within (length ts) (if rl_remaining l \<le> Suc 0 then areturn (False, None, ?k cp)
            else await_results c clock conv run rid deadline ts (?k cp))
            (\<lambda>(late, brk, l'). length (rl_pending l') \<le> length (rl_pending l) + length (t # ts))"
            using within_mono[OF Cons.IH[OF ex, of "?k cp"] order_refl] by (auto elim!: within_mono)
        qed
        then show ?thesis using False Queued ToolResultCommand further[of l] by (simp add: Let_def)
      qed (use False Queued further in auto)
    qed (use False further in auto)
  qed (use Cons.prems in auto)
qed simp


lemma within_interrupt_calls: "within (length ks) (interrupt_calls c clock conv run rid reason ks cp) (\<lambda>_. True)"
proof (induction ks arbitrary: cp)
  case (Cons k ks)
  have "within (1 + length ks) (interrupt_calls c clock conv run rid reason (k # ks) cp) (\<lambda>_. True)"
    unfolding interrupt_calls.simps by (intro within_then within_commit_result Cons.IH)
  then show ?case by simp
qed simp

lemma within_start_round: "within 0 (start_round clock run base rd) (\<lambda>_. True)"
proof -
  have "within (0 + (0 + 0)) (start_round clock run base rd) (\<lambda>_. True)"
    unfolding start_round_def by (intro within_then within_basic)
  then show ?thesis by simp
qed

lemma within_execute:
  assumes "\<exists>t\<in>set ts. tn_cancelled t \<or> start + tool_round_timeout \<le> tn_time t"
  shows "within (length (er_calls rd) + length insertions + 2 * length ts + 1)
    (execute c clock conv run base rd insertions start ts) (\<lambda>_. True)"
proof -
  let ?n = "length (er_calls rd)" and ?m = "length insertions + length ts"
  have interrupt: "within ?n (interrupt_remaining c clock conv run (er_id rd) reason (er_calls rd) ids cp) (\<lambda>_. True)"
    for reason ids cp
    unfolding interrupt_remaining_def by (rule within_mono[OF within_interrupt_calls]) simp_all
  have tail: "within (?n + (?m + (1 + 0)))
      (abind (interrupt_remaining c clock conv run (er_id rd) reason (er_calls rd) ids cp) (\<lambda>cp.
       abind (append_batches c clock conv run cp bs) (\<lambda>(cp, _).
         case brk of None \<Rightarrow> areturn cp
         | Some b \<Rightarrow> abind (append_batches c clock conv run cp [b]) (\<lambda>(cp, _). areturn cp)))) (\<lambda>_. True)"
    if "length bs \<le> ?m" for reason ids cp bs brk
  proof (intro within_then interrupt)
    show "within ?m (append_batches c clock conv run cp bs) (\<lambda>_. True)" for cp
      by (rule within_mono[OF within_append_batches that]) simp
    have "within (1 + 0) (abind (append_batches c clock conv run cp [b]) (\<lambda>(cp, _). areturn cp)) (\<lambda>_. True)" for cp b
      using within_append_batches[of "[b]"] by (intro within_then) (simp_all add: split_def)
    then show "within (1 + 0) (case a of (cp, _) \<Rightarrow> (case brk of None \<Rightarrow> areturn cp
         | Some b \<Rightarrow> abind (append_batches c clock conv run cp [b]) (\<lambda>(cp, _). areturn cp))) (\<lambda>_. True)" for a
      by (cases a; cases brk) auto
  qed
  have "within (0 + (length ts + (?n + (?m + (1 + 0))))) (execute c clock conv run base rd insertions start ts) (\<lambda>_. True)"
    unfolding execute_def
  proof (rule within_then[OF within_start_round], rule within_bind[OF within_await[OF assms]])
    fix a :: "bool \<times> batch option \<times> await_state"
    obtain late brk l where a: "a = (late, brk, l)" by (cases a) auto
    assume "case a of (late, brk, l') \<Rightarrow> length (rl_pending l')
      \<le> length (rl_pending \<lparr>rl_checkpoint = base, rl_completed = [], rl_remaining = ?n, rl_pending = insertions\<rparr>) + length ts"
    then have "length (rl_pending l) \<le> ?m" using a by simp
    from tail[OF this] show "within (?n + (?m + (1 + 0))) (case a of (late, brk, l) \<Rightarrow>
      abind (interrupt_remaining c clock conv run (er_id rd) (interrupt_reason late) (er_calls rd)
              (rl_completed l) (rl_checkpoint l)) (\<lambda>cp.
      abind (append_batches c clock conv run cp (rl_pending l)) (\<lambda>(cp, _).
       case brk of None \<Rightarrow> areturn cp
       | Some b \<Rightarrow> abind (append_batches c clock conv run cp [b]) (\<lambda>(cp, _). areturn cp)))) (\<lambda>_. True)"
      by (simp add: a)
  qed
  then show ?thesis by (rule within_mono) simp_all
qed

text \<open>
  C6: results that never come do not keep a round. Once the loop finds the token cancelled or the thirty minutes over, the
  round ends, with a checkpoint or a reason to stop the run, or it waits at a barrier of a commit that is not answered:
  then every answer that came was used, and fewer came than the round has calls and messages to commit. (The
  barriers have no deadline of their own: the client, its absence or the cancellation answers them.)
\<close>
theorem round_ends_by_its_deadline:
  assumes "\<exists>t\<in>set ts. tn_cancelled t \<or> start + tool_round_timeout \<le> tn_time t"
  shows "case execute c clock conv run base rd insertions start ts x of
      (Waiting, y) \<Rightarrow> x_ready y = [] \<and> length (x_ready x) < length (er_calls rd) + length insertions + 2 * length ts + 1
    | (Stop r, y) \<Rightarrow> True
    | (Done cp, y) \<Rightarrow> True"
  using within_execute[OF assms, of rd insertions c clock conv run base, unfolded within_def, rule_format, of x]
  by (auto split: prod.splits progress.splits)

lemma round_ends_by_its_deadline_witness:
  "fst (execute unary_codec demo_clock ''c'' ''r'' (CheckpointId 1) demo_round [] 0
     [\<lparr>tn_cancelled = False, tn_time = 1800, tn_queue = QueueEmpty\<rparr>] (demo_exec\<lparr>x_ready := replicate 4 ReadyOk\<rparr>)) \<noteq> Waiting"
proof -
  let ?ts = "[\<lparr>tn_cancelled = False, tn_time = 1800, tn_queue = QueueEmpty\<rparr>]"
  have "\<exists>t\<in>set ?ts. tn_cancelled t \<or> 0 + tool_round_timeout \<le> tn_time t" by (simp add: tool_round_timeout_def)
  from round_ends_by_its_deadline[OF this, where c=unary_codec and clock=demo_clock and conv="''c''" and run="''r''" and base="CheckpointId 1"
      and rd=demo_round and insertions="[]" and x="demo_exec\<lparr>x_ready := replicate 4 ReadyOk\<rparr>"]
  show ?thesis by (auto simp: demo_round_def split: prod.splits progress.splits)
qed

end
