(* ===== verification/TurnSteps.thy ===== *)
theory TurnSteps
  imports Model
begin

text \<open>
  How many steps the current turn takes in the projected conversation
  (src/server/src/cursor/tools/turn_steps.rs): counted from the history once, then advanced round by round.
\<close>

definition round_steps :: "string \<Rightarrow> string \<Rightarrow> nat \<Rightarrow> nat" where
  "round_steps thinking text calls = of_bool (thinking \<noteq> []) + of_bool (text \<noteq> []) + calls"

definition first_tool_index :: "nat \<Rightarrow> string \<Rightarrow> string \<Rightarrow> nat" where
  "first_tool_index steps thinking text = steps + round_steps thinking text 0 + 1"

text \<open>What follows the last user message; the whole history when there is none.\<close>

definition turn_messages :: "message list \<Rightarrow> message list" where
  "turn_messages ms = rev (takeWhile (\<lambda>m. msg_role m \<noteq> RUser) (rev ms))"

fun message_steps :: "message \<Rightarrow> nat" where
  "message_steps m =
     (case msg_content m of
        Assistant text thinking _ _ calls \<Rightarrow> round_steps thinking text (length calls)
      | _ \<Rightarrow> 0)"

definition turn_step_count :: "message list \<Rightarrow> nat" where
  "turn_step_count ms = sum_list (map message_steps (turn_messages ms))"

datatype turn_steps = StepsUnknown | StepsKnown nat

fun steps_known :: "turn_steps \<Rightarrow> nat option" where
  "steps_known StepsUnknown = None"
| "steps_known (StepsKnown n) = Some n"

definition steps_remember :: "nat \<Rightarrow> turn_steps \<Rightarrow> turn_steps" where
  "steps_remember n t = StepsKnown n"

definition steps_invalidate :: "turn_steps \<Rightarrow> turn_steps" where
  "steps_invalidate t = StepsUnknown"

fun steps_advance :: "string \<Rightarrow> string \<Rightarrow> nat \<Rightarrow> turn_steps \<Rightarrow> turn_steps" where
  "steps_advance thinking text calls (StepsKnown n) = StepsKnown (n + round_steps thinking text calls)"
| "steps_advance thinking text calls StepsUnknown = StepsUnknown"

text \<open>Messages of the assistant and of tools belong to the turn they are appended to.\<close>

lemma turn_step_count_append:
  assumes "list_all (\<lambda>m. msg_role m \<noteq> RUser) ms"
  shows "turn_step_count (hist @ ms) = turn_step_count hist + sum_list (map message_steps ms)"
proof -
  have "takeWhile (\<lambda>m. msg_role m \<noteq> RUser) (rev ms @ rev hist)
      = rev ms @ takeWhile (\<lambda>m. msg_role m \<noteq> RUser) (rev hist)"
    using assms by (subst takeWhile_append2) (auto simp: list_all_iff)
  then show ?thesis by (simp add: turn_step_count_def turn_messages_def)
qed

end
