(* ===== verification/StepTracking.thy ===== *)
theory StepTracking
  imports RoundExecLaws TurnSteps
begin

text \<open>
  The client's side of a run follows the steps of the current turn (\<open>current_turn_steps\<close> and the events that
  change the count in src/server/src/cursor/conversation/output.rs) over the events a round sends.
\<close>

section \<open>The client's count of steps\<close>

definition current_turn_steps :: "codec \<Rightarrow> string \<Rightarrow> db \<Rightarrow> turn_steps \<Rightarrow> (nat \<times> turn_steps) result" where
  "current_turn_steps c conv s t =
     (case steps_known t of
        Some n \<Rightarrow> Inr (n, t)
      | None \<Rightarrow> rbind (load_current_messages c conv s) (\<lambda>ms.
          Inr (turn_step_count ms, steps_remember (turn_step_count ms) t)))"

text \<open>How the client's side of a run keeps the count, event by event, with the store as it then is.\<close>

fun track_steps ::
    "codec \<Rightarrow> (json \<Rightarrow> string) \<Rightarrow> string \<Rightarrow> db \<Rightarrow> run_event \<Rightarrow> turn_steps \<Rightarrow> turn_steps result" where
  "track_steps c show_json conv s (ExecuteToolRound rid calls) t =
     rbind (current_turn_steps c conv s t) (\<lambda>(_, t').
       Inr (case tool_round show_json rid s of
              Some r \<Rightarrow> steps_advance (ra_thinking (snap_assistant r)) (ra_text (snap_assistant r)) (length (snap_calls r)) t'
            | None \<Rightarrow> steps_invalidate t'))"
| "track_steps c show_json conv s (MessagesCommitted m) t =
     Inr (case mc_cause m of
            InitialMessages \<Rightarrow> steps_invalidate t
          | Compaction _ _ \<Rightarrow> steps_invalidate t
          | RuntimeEventCause _ \<Rightarrow> steps_invalidate t
          | _ \<Rightarrow> t)"
| "track_steps c show_json conv s e t = Inr t"


lemma track_shown:
  "show_event e = ShownStart r \<Longrightarrow> track_steps c sj conv s e t = Inr t"
  "show_event e = ShownResult i b \<Longrightarrow> track_steps c sj conv s e t = Inr t"
  "show_event e = ShownMessage m b \<Longrightarrow> track_steps c sj conv s e t = Inr StepsUnknown"
  by (cases e; auto simp: steps_invalidate_def split: commit_cause.splits)+

lemma track_round:
  assumes "show_event e = ShownRound rid n" "tool_round sj rid s = Some r"
  shows "track_steps c sj conv s e (StepsKnown k)
    = Inr (StepsKnown (k + round_steps (ra_thinking (snap_assistant r)) (ra_text (snap_assistant r)) (length (snap_calls r))))"
proof -
  obtain calls where "e = ExecuteToolRound rid calls" using assms(1) by (cases e) (auto split: commit_cause.splits)
  then show ?thesis using assms(2) by (simp add: current_turn_steps_def)
qed

lemma track_results:
  "map show_event es = map (\<lambda>(n, r). ShownResult (f r) (g n)) rs \<Longrightarrow> fold_ok (track_steps c sj conv s) es t = Inr t"
  by (induction es arbitrary: rs) (auto simp: Cons_eq_map_conv track_shown(2))

lemma track_messages:
  "map show_event es = map (\<lambda>m. ShownMessage (f m) True) ms \<Longrightarrow>
   fold_ok (track_steps c sj conv s) es t = Inr (if ms = [] then t else StepsUnknown)"
proof (induction es arbitrary: ms t)
  case (Cons e es)
  then obtain m ms' where "ms = m # ms'" "show_event e = ShownMessage (f m) True" "map show_event es = map (\<lambda>m. ShownMessage (f m) True) ms'"
    by (auto simp: Cons_eq_map_conv)
  then show ?case using Cons.IH[of ms'] by (simp add: track_shown(3))
qed simp

lemma round_pairs_steps:
  assumes "distinct (map call_id calls)"
  shows "result_call_id ` set rs \<subseteq> call_id ` set calls \<Longrightarrow>
    sum_list (map message_steps (round_pairs rid a calls first rs))
      = (if first \<and> rs \<noteq> [] then round_steps (ra_thinking a) (ra_text a) 0 else 0) + length rs"
proof (induction rs arbitrary: first)
  case (Cons r rs)
  then obtain k where "k \<in> set calls" "call_id k = result_call_id r" by auto
  then have "filter (\<lambda>k. call_id k = result_call_id r) calls = [k]" using one_call[OF assms, of k] by simp
  then show ?case
    using Cons by (auto simp: call_message_def result_message_def round_steps_def)
qed simp

lemma round_pairs_roles: "list_all (\<lambda>m. msg_role m \<noteq> RUser) (round_pairs rid a calls first rs)"
  by (induction rs arbitrary: first) (auto simp: call_message_def result_message_def list_all_iff)

lemma calls_split:
  "length (filter (\<lambda>k. rc_round k = rid) xs) = length (filter (\<lambda>k. rc_round k = rid \<and> rc_state k = CallPending) xs)
     + length (filter (\<lambda>k. rc_round k = rid \<and> rc_state k = CallCompleted) xs)"
proof (induction xs)
  case (Cons k xs)
  then show ?case by (cases "rc_state k") auto
qed simp

lemma settled_snapshot:
  assumes ok: "rounds_ok s" and d: "find_round rid s = Some d" "rd_assistant d = a" "rd_next_seq d = int n" "pending_calls rid s = []"
  shows "\<exists>r. tool_round sj rid s = Some r \<and> snap_assistant r = a \<and> length (snap_calls r) = n"
proof -
  have "length (completed_calls rid s) = n"
    using ok find_SomeD[OF d(1)[unfolded find_round_def]] d(3) by (auto simp: rounds_ok_def)
  then have "length (filter (\<lambda>k. rc_round k = rid) (round_calls_t s)) = n"
    using calls_split[of rid "round_calls_t s"] d(4) by (simp add: pending_calls_def completed_calls_def)
  then show ?thesis using d(1,2) by (simp add: tool_round_def Let_def)
qed

text \<open>
  The client's count of steps stays true. When it is what the history said before a round and the client follows
  the round's events, advancing by what the store says of the round and forgetting the count at inserted messages, then
  after the round it is unknown or again what the whole history says.
\<close>
theorem step_count_follows_rounds:
  assumes "codec_ok c" "store_ok c (x_db x)" "owns conv run (x_db x)" "load_current_messages c conv (x_db x) = Inr hist"
    and "execute c clock conv run base rd insertions start ts x = (Done cp, y)"
  shows "\<exists>hist' t. load_current_messages c conv (x_db y) = Inr hist'
    \<and> fold_ok (track_steps c sj conv (x_db y)) (drop (length (x_sent x)) (x_sent y)) (StepsKnown (turn_step_count hist)) = Inr t
    \<and> t \<in> {StepsUnknown, StepsKnown (turn_step_count hist')}"
proof -
  let ?rid = "er_id rd" and ?n = "length (er_calls rd)"
  obtain rs ms x0 z cp1 where e: "round_at c conv run rd hist x0 cp1 rs z" "length rs = ?n" "distinct (map call_id (er_calls rd))"
      "er_calls rd \<noteq> []" "map show_event (x_sent x0) = map show_event (x_sent x) @ [ShownStart ?rid, ShownRound ?rid ?n]"
      "messages_added c conv run (hist @ round_pairs ?rid (er_assistant rd) (er_calls rd) True rs) z cp y ms"
    using execute_Done[OF assms] by blast
  note p = round_at_parts[OF e(1-3)]
  let ?res = "map (\<lambda>(n, r). ShownResult (result_call_id r) (n = ?n)) (enumerate 1 rs)"
  let ?msg = "map (\<lambda>m. ShownMessage (event_of m) True) ms"
  have "map show_event (x_sent y) = map show_event (x_sent x) @ ([ShownStart ?rid, ShownRound ?rid ?n] @ ?res @ ?msg)"
    using e(1,5,6) by (simp add: round_at_def messages_added_def)
  then have "map show_event (drop (length (x_sent x)) (x_sent y)) = [ShownStart ?rid, ShownRound ?rid ?n] @ ?res @ ?msg"
    by (simp add: drop_map[symmetric])
  then obtain e1 e2 es1 es2 where es: "drop (length (x_sent x)) (x_sent y) = e1 # e2 # es1 @ es2" "show_event e1 = ShownStart ?rid"
      "show_event e2 = ShownRound ?rid ?n" "map show_event es1 = ?res" "map show_event es2 = ?msg"
    by (auto simp: map_eq_Cons_conv map_eq_append_conv)
  obtain d where d: "find_round ?rid (x_db y) = Some d" "rd_assistant d = er_assistant rd" "rd_next_seq d = int ?n"
    using e(1,2,6) by (auto simp: round_at_def messages_added_def find_round_def)
  have ok: "store_ok c (x_db y)" and pend: "pending_calls ?rid (x_db y) = []"
    using e(6) p(3) by (auto simp: messages_added_def stands_def pending_calls_def)
  obtain r where r: "tool_round sj ?rid (x_db y) = Some r" "snap_assistant r = er_assistant rd" "length (snap_calls r) = ?n"
    using settled_snapshot[OF _ d pend] ok by (auto simp: store_ok_def)
  let ?k = "turn_step_count hist + round_steps (ra_thinking (er_assistant rd)) (ra_text (er_assistant rd)) ?n"
  have fold: "fold_ok (track_steps c sj conv (x_db y)) (drop (length (x_sent x)) (x_sent y)) (StepsKnown (turn_step_count hist))
      = Inr (if ms = [] then StepsKnown ?k else StepsUnknown)"
    using track_shown(1)[OF es(2)] track_round[OF es(3) r(1)] r(2,3) track_results[OF es(4)] track_messages[OF es(5)]
    by (simp add: es(1) fold_ok_append)
  obtain v where v: "find_conversation conv (x_db y) = Some v" "cv_current v = Some (checkpoint_int cp)"
      "history c (x_db y) (checkpoint_int cp) = hist @ round_pairs ?rid (er_assistant rd) (er_calls rd) True rs @ map skip_parts ms"
    using e(6) by (auto simp: messages_added_def stands_def)
  have "rs \<noteq> []" using e(2,4) by auto
  then have "turn_step_count (hist @ round_pairs ?rid (er_assistant rd) (er_calls rd) True rs) = ?k"
    using turn_step_count_append[OF round_pairs_roles] round_pairs_steps[OF e(3), of rs ?rid "er_assistant rd" True] p(2) e(2)
    by (simp add: round_steps_def)
  then show ?thesis using fold load_current_iff[OF assms(1) ok v(1,2)] v(3) by (cases "ms = []") auto
qed

lemma step_count_follows_rounds_witness:
  "\<exists>cp y hist' t. execute unary_codec demo_clock ''c'' ''r'' (CheckpointId 1) demo_round [] 0 [demo_reading] demo_exec = (Done cp, y)
     \<and> load_current_messages unary_codec ''c'' (x_db y) = Inr hist'
     \<and> fold_ok (track_steps unary_codec (\<lambda>_. ''{}'') ''c'' (x_db y)) (x_sent y) (StepsKnown 0) = Inr t
     \<and> t \<in> {StepsUnknown, StepsKnown (turn_step_count hist')}"
proof -
  obtain cp y where y: "execute unary_codec demo_clock ''c'' ''r'' (CheckpointId 1) demo_round [] 0 [demo_reading] demo_exec = (Done cp, y)"
    using demo_execute by blast
  have db: "store_ok unary_codec (x_db demo_exec)" by (simp add: demo_exec_def claimed_db_ok)
  have "turn_step_count [] = 0" "x_sent demo_exec = []" by (simp_all add: turn_step_count_def turn_messages_def demo_exec_def)
  then show ?thesis
    using step_count_follows_rounds[OF unary_codec_ok db demo_exec_stands y, of "\<lambda>_. ''{}''"] y by auto
qed

end
