(* ===== verification/TokenCount.thy ===== *)
theory TokenCount
  imports Utf8 EnginePolicy
begin

text \<open>
  The estimate of how many tokens a request takes (src/server/src/model/token_count.rs): texts priced by
  script, images by their dimensions. The JSON text of a value (serde_json) is an argument; the counts are
  u64 with the source's saturating additions.
\<close>

definition tokens_per_message_overhead :: nat where "tokens_per_message_overhead = 8"
definition tokens_per_tool_call_overhead :: nat where "tokens_per_tool_call_overhead = 6"
definition tokens_per_image :: nat where "tokens_per_image = 1024"

record tool_definition =
  td_name :: string
  td_description :: string
  td_parameters :: json

record prompt_spec =
  ps_instructions :: string
  ps_tools :: "tool_definition list"

definition tool_json :: "tool_definition \<Rightarrow> json" where
  "tool_json t =
     JObj [(''name'', JStr (td_name t)), (''description'', JStr (td_description t)), (''parameters'', td_parameters t)]"

definition sat_mul_u64 :: "nat \<Rightarrow> nat \<Rightarrow> nat" where
  "sat_mul_u64 a b = min (a * b) u64_max"

definition div_ceil :: "nat \<Rightarrow> nat \<Rightarrow> nat" where
  "div_ceil a b = (a + b - 1) div b"

definition sat_sum :: "('a \<Rightarrow> nat) \<Rightarrow> 'a list \<Rightarrow> nat" where
  "sat_sum f xs = foldl (\<lambda>n x. sat_add_u64 n (f x)) 0 xs"


section \<open>Texts\<close>

definition is_cjk :: "code \<Rightarrow> bool" where
  "is_cjk c \<longleftrightarrow>
     0x2E80 \<le> c \<and> c \<le> 0x2FFF \<or> 0x3000 \<le> c \<and> c \<le> 0x303F \<or> 0x3040 \<le> c \<and> c \<le> 0x30FF \<or> 0x3100 \<le> c \<and> c \<le> 0x312F
     \<or> 0x3400 \<le> c \<and> c \<le> 0x4DBF \<or> 0x4E00 \<le> c \<and> c \<le> 0x9FFF \<or> 0xA960 \<le> c \<and> c \<le> 0xA97F \<or> 0xAC00 \<le> c \<and> c \<le> 0xD7AF
     \<or> 0xF900 \<le> c \<and> c \<le> 0xFAFF \<or> 0xFE10 \<le> c \<and> c \<le> 0xFE1F \<or> 0xFE30 \<le> c \<and> c \<le> 0xFE4F \<or> 0xFF00 \<le> c \<and> c \<le> 0xFFEF
     \<or> 0x20000 \<le> c \<and> c \<le> 0x2FA1F"

definition estimate_text_tokens :: "string \<Rightarrow> nat" where
  "estimate_text_tokens text =
     (let codes = map code_of (trim_chars (chars text));
          ascii = length (filter (\<lambda>c. c < 128) codes);
          cjk = length (filter (\<lambda>c. \<not> c < 128 \<and> is_cjk c) codes);
          other = length (filter (\<lambda>c. \<not> c < 128 \<and> \<not> is_cjk c) codes);
          newlines = length (filter (\<lambda>c. c = 10) codes)
      in if codes = [] then 0
         else max 1 (sat_add_u64 (sat_add_u64 (sat_add_u64 (div_ceil ascii 4) (div_ceil cjk 2)) (div_ceil other 2)) newlines))"

definition estimate_json_tokens :: "(json \<Rightarrow> string) \<Rightarrow> json \<Rightarrow> nat" where
  "estimate_json_tokens render v = estimate_text_tokens (render v)"


section \<open>Images\<close>

definition nat_of_bytes :: "8 word list \<Rightarrow> nat" where
  "nat_of_bytes bs = foldl (\<lambda>n b. n * 256 + unat b) 0 bs"

definition be_at :: "nat \<Rightarrow> nat \<Rightarrow> 8 word list \<Rightarrow> nat" where
  "be_at i n data = nat_of_bytes (take n (drop i data))"

definition le_at :: "nat \<Rightarrow> nat \<Rightarrow> 8 word list \<Rightarrow> nat" where
  "le_at i n data = nat_of_bytes (rev (take n (drop i data)))"

definition positive_size :: "nat \<Rightarrow> nat \<Rightarrow> (nat \<times> nat) option" where
  "positive_size w h = (if w > 0 \<and> h > 0 then Some (w, h) else None)"

definition png_dimensions :: "8 word list \<Rightarrow> (nat \<times> nat) option" where
  "png_dimensions data =
     (if length data < 24 \<or> take 4 (drop 12 data) \<noteq> [0x49, 0x48, 0x44, 0x52] then None
      else positive_size (be_at 16 4 data) (be_at 20 4 data))"

definition gif_dimensions :: "8 word list \<Rightarrow> (nat \<times> nat) option" where
  "gif_dimensions data =
     (if length data < 10 then None else positive_size (le_at 6 2 data) (le_at 8 2 data))"

definition start_of_frame :: "8 word list" where
  "start_of_frame = [0xC0, 0xC1, 0xC2, 0xC3, 0xC5, 0xC6, 0xC7, 0xC9, 0xCA, 0xCB, 0xCD, 0xCE, 0xCF]"

definition standalone_markers :: "8 word list" where
  "standalone_markers = [0xD8, 0xD9, 0x01, 0xD0, 0xD1, 0xD2, 0xD3, 0xD4, 0xD5, 0xD6, 0xD7]"

function jpeg_scan :: "8 word list \<Rightarrow> nat \<Rightarrow> (nat \<times> nat) option" where
  "jpeg_scan data index =
     (if \<not> index + 9 \<le> length data then None
      else if data ! index \<noteq> 0xFF then jpeg_scan data (index + 1)
      else if data ! (index + 1) \<in> set start_of_frame
      then positive_size (be_at (index + 7) 2 data) (be_at (index + 5) 2 data)
      else if data ! (index + 1) \<in> set standalone_markers then jpeg_scan data (index + 2)
      else if be_at (index + 2) 2 data < 2 then None
      else jpeg_scan data (index + (2 + be_at (index + 2) 2 data)))"
  by pat_completeness auto
termination by (relation "measure (\<lambda>(data, i). length data - i)") auto

declare jpeg_scan.simps [simp del]

definition jpeg_dimensions :: "8 word list \<Rightarrow> (nat \<times> nat) option" where
  "jpeg_dimensions data = jpeg_scan data 2"

definition image_dimensions :: "string \<Rightarrow> 8 word list \<Rightarrow> (nat \<times> nat) option" where
  "image_dimensions mime_type data =
     (let mime = to_ascii_lowercase mime_type
      in if contains mime ''png'' \<or> take 4 data = [0x89, 0x50, 0x4E, 0x47] then png_dimensions data
         else if contains mime ''gif'' \<or> take 3 data = [0x47, 0x49, 0x46] then gif_dimensions data
         else if contains mime ''jpeg'' \<or> contains mime ''jpg'' \<or> take 2 data = [0xFF, 0xD8] then jpeg_dimensions data
         else None)"

definition estimate_image_tokens :: "string \<Rightarrow> 8 word list \<Rightarrow> nat" where
  "estimate_image_tokens mime_type data =
     (case image_dimensions mime_type data of
        None \<Rightarrow> tokens_per_image
      | Some (width, height) \<Rightarrow>
          (let pixels = sat_mul_u64 width height;
               anthropic = max (div_ceil pixels 750) 200;
               tiles = sat_mul_u64 (div_ceil width 512) (div_ceil height 512);
               openai = sat_add_u64 85 (sat_mul_u64 170 tiles)
           in min (max anthropic openai) 20000))"


section \<open>Messages and requests\<close>

fun part_tokens :: "content_part \<Rightarrow> nat" where
  "part_tokens (PText text) = estimate_text_tokens text"
| "part_tokens (PImage mime_type data) = sat_add_u64 (estimate_image_tokens mime_type data) (estimate_text_tokens mime_type)"

definition estimate_parts_tokens :: "content_part list \<Rightarrow> nat" where
  "estimate_parts_tokens parts = sat_sum part_tokens parts"

definition call_tokens :: "(json \<Rightarrow> string) \<Rightarrow> nat \<Rightarrow> tool_call_content \<Rightarrow> nat" where
  "call_tokens render n c =
     sat_add_u64 (sat_add_u64 (sat_add_u64 (sat_add_u64 n tokens_per_tool_call_overhead)
       (estimate_text_tokens (tc_call_id c))) (estimate_text_tokens (tc_name c))) (estimate_json_tokens render (tc_arguments c))"

definition content_tokens :: "(json \<Rightarrow> string) \<Rightarrow> projected_content \<Rightarrow> nat" where
  "content_tokens render content =
     (case content of
        ProjParts parts \<Rightarrow> estimate_parts_tokens parts
      | ProjAssistant text thinking _ calls \<Rightarrow>
          sat_add_u64 (sat_add_u64 (estimate_text_tokens text) (estimate_text_tokens thinking))
            (foldl (call_tokens render) 0 calls)
      | ProjToolResult r \<Rightarrow>
          sat_add_u64 (sat_add_u64 (estimate_text_tokens (tr_call_id r)) (estimate_text_tokens (tr_name r)))
            (if tr_provider_parts r = [] then
               sat_add_u64 (estimate_text_tokens (tr_content r))
                 (case tr_image r of None \<Rightarrow> 0
                  | Some i \<Rightarrow> sat_add_u64 tokens_per_image (estimate_text_tokens (img_mime_type i)))
             else estimate_parts_tokens (tr_provider_parts r)))"

definition estimate_message_tokens :: "(json \<Rightarrow> string) \<Rightarrow> projected \<Rightarrow> nat" where
  "estimate_message_tokens render m = sat_add_u64 tokens_per_message_overhead (content_tokens render (pm_content m))"

definition estimate_projected_messages_tokens :: "(json \<Rightarrow> string) \<Rightarrow> projected list \<Rightarrow> nat" where
  "estimate_projected_messages_tokens render messages = sat_sum (estimate_message_tokens render) messages"

definition estimate_context_tokens :: "(json \<Rightarrow> string) \<Rightarrow> prompt_spec \<Rightarrow> projected list \<Rightarrow> nat" where
  "estimate_context_tokens render prompt messages =
     sat_add_u64 (sat_add_u64 (estimate_text_tokens (ps_instructions prompt))
       (sat_sum (\<lambda>t. estimate_json_tokens render (tool_json t)) (ps_tools prompt)))
       (estimate_projected_messages_tokens render messages)"


section \<open>Configured counts\<close>

definition parse_unsigned :: "string \<Rightarrow> nat option" where
  "parse_unsigned s = (case s of c # cs \<Rightarrow> if c = CHR ''+'' then parse_u64 cs else parse_u64 s | [] \<Rightarrow> None)"

definition checked_mul_u64 :: "nat \<Rightarrow> nat \<Rightarrow> nat option" where
  "checked_mul_u64 a b = (if a * b \<le> u64_max then Some (a * b) else None)"

definition parse_token_count :: "string \<Rightarrow> nat option" where
  "parse_token_count value =
     (let v = to_ascii_lowercase (trim_text value)
      in if v = [] then None
         else
           (let (number, multiplier) =
                  (if last v = CHR ''k'' then (butlast v, 1000)
                   else if last v = CHR ''m'' then (butlast v, 1000000) else (v, 1))
            in case parse_unsigned number of None \<Rightarrow> None | Some n \<Rightarrow> checked_mul_u64 n multiplier))"

definition format_token_count :: "nat \<Rightarrow> string" where
  "format_token_count tokens =
     (if 1000000 \<le> tokens \<and> tokens mod 1000000 = 0 then show_nat (tokens div 1000000) @ ''M''
      else if 1000 \<le> tokens \<and> tokens mod 1000 = 0 then show_nat (tokens div 1000) @ ''K''
      else show_nat tokens)"


section \<open>The estimate is a saturating sum\<close>

lemma sat_add_0 [simp]: "sat_add_u64 0 b = min b u64_max" "sat_add_u64 a 0 = min a u64_max"
  by (simp_all add: sat_add_u64_def)

lemma sat_sum_eq: "sat_sum f xs = min (sum_list (map f xs)) u64_max"
proof -
  have "n \<le> u64_max \<Longrightarrow> foldl (\<lambda>n x. sat_add_u64 n (f x)) n xs = min (n + sum_list (map f xs)) u64_max" for n
    by (induction xs arbitrary: n) (auto simp: sat_add_u64_def add.assoc)
  then show ?thesis by (simp add: sat_sum_def)
qed

lemma sat_sum_append: "sat_sum f (xs @ ys) = sat_add_u64 (sat_sum f xs) (sat_sum f ys)"
  by (auto simp: sat_sum_eq sat_add_u64_def)

lemma messages_tokens_append:
  "estimate_projected_messages_tokens render (xs @ ys)
     = sat_add_u64 (estimate_projected_messages_tokens render xs) (estimate_projected_messages_tokens render ys)"
  by (simp add: estimate_projected_messages_tokens_def sat_sum_append)

lemma messages_tokens_le [simp]: "estimate_projected_messages_tokens render xs \<le> u64_max"
  by (simp add: estimate_projected_messages_tokens_def sat_sum_eq)

lemma messages_tokens_Nil [simp]: "estimate_projected_messages_tokens render [] = 0"
  by (simp add: estimate_projected_messages_tokens_def sat_sum_def)

lemma sat_add_assoc: "sat_add_u64 (sat_add_u64 a b) c = sat_add_u64 a (sat_add_u64 b c)"
  by (auto simp: sat_add_u64_def)

lemma context_tokens_split:
  "estimate_context_tokens render p ms
     = sat_add_u64 (estimate_context_tokens render p []) (estimate_projected_messages_tokens render ms)"
  by (auto simp: estimate_context_tokens_def sat_add_u64_def)

lemma text_tokens_bound: "estimate_text_tokens s \<le> 2 * length s"
proof -
  define codes where "codes = map code_of (trim_chars (chars s))"
  have n: "length codes \<le> length s"
    using trim_chars_length[of "chars s"] chars_length[of s] by (simp add: codes_def)
  have parts: "length (filter (\<lambda>c. c < 128) codes) + length (filter (\<lambda>c. \<not> c < 128 \<and> is_cjk c) codes)
      + length (filter (\<lambda>c. \<not> c < 128 \<and> \<not> is_cjk c) codes) = length codes"
    by (induction codes) auto
  have half: "div_ceil a 4 \<le> a" "div_ceil a 2 \<le> a" for a by (auto simp: div_ceil_def)
  have sat: "sat_add_u64 a b \<le> a + b" for a b by (simp add: sat_add_u64_def)
  define a where "a = length (filter (\<lambda>c. c < 128) codes)"
  define b where "b = length (filter (\<lambda>c. \<not> c < 128 \<and> is_cjk c) codes)"
  define c where "c = length (filter (\<lambda>c. \<not> c < 128 \<and> \<not> is_cjk c) codes)"
  define d where "d = length (filter (\<lambda>c. c = 10) codes)"
  have "d \<le> length codes" by (simp add: d_def)
  moreover have "sat_add_u64 (sat_add_u64 (sat_add_u64 (div_ceil a 4) (div_ceil b 2)) (div_ceil c 2)) d \<le> a + b + c + d"
    using sat half by (meson add_mono order.trans order_refl)
  moreover have "codes = [] \<or> 1 \<le> length codes" by (cases codes) auto
  ultimately show ?thesis
    using n parts
    by (simp add: estimate_text_tokens_def Let_def flip: codes_def a_def b_def c_def d_def) linarith
qed
end
