(* ===== verification/Compaction.thy ===== *)
theory Compaction
  imports TokenCount Complex_Main
begin

text \<open>
  Compaction of a conversation (src/server/src/run/compaction.rs, its settings in store/settings.rs): when the
  context is too large, what the summary call replays, which recent turns stay, and how the summary slot is
  assembled and bounded. The JSON text of a value is an argument.
\<close>

section \<open>Numbers of the estimate\<close>

text \<open>
  A double (f64) is the rational it stands for, rounded to 53 significant bits, ties to even. The values here
  are quotients and products of u64 values, far from the exponent's limits.
\<close>

fun bit_len :: "nat \<Rightarrow> nat" where
  "bit_len n = (if n = 0 then 0 else Suc (bit_len (n div 2)))"

declare bit_len.simps [simp del]

definition pow2 :: "int \<Rightarrow> rat" where
  "pow2 e = (if 0 \<le> e then 2 ^ nat e else 1 / 2 ^ nat (- e))"

definition round_even :: "rat \<Rightarrow> int" where
  "round_even y =
     (let f = \<lfloor>y\<rfloor>; d = y - of_int f
      in if d < 1 / 2 then f else if d > 1 / 2 then f + 1 else if even f then f else f + 1)"

definition f64 :: "rat \<Rightarrow> rat" where
  "f64 x =
     (if x \<le> 0 then 0
      else
        (let (a, b) = quotient_of x;
             k = int (bit_len (nat a)) - int (bit_len (nat b));
             e = (if pow2 k \<le> x then k - 52 else k - 53)
         in of_int (round_even (x / pow2 e)) * pow2 e))"

text \<open>Conversion back to u64 saturates.\<close>

definition u64_of :: "int \<Rightarrow> nat" where
  "u64_of i = min (nat i) u64_max"

definition calibrate_budget :: "nat \<Rightarrow> rat \<Rightarrow> nat" where
  "calibrate_budget tokens calibration = u64_of \<lfloor>f64 (f64 (of_nat tokens) / calibration)\<rfloor>"

definition clamp :: "'a::linorder \<Rightarrow> 'a \<Rightarrow> 'a \<Rightarrow> 'a" where
  "clamp lo hi x = max lo (min hi x)"


section \<open>Settings (store/settings.rs)\<close>

record compaction_settings =
  cs_auto :: bool
  cs_summary_model_hash :: string
  cs_summary_output_tokens :: "nat option"
  cs_reserve_percent :: "nat option"
  cs_retention_percent :: "nat option"
  cs_max_retained_tokens :: "nat option"

definition compaction_defaults :: compaction_settings where
  "compaction_defaults =
     \<lparr>cs_auto = True, cs_summary_model_hash = [], cs_summary_output_tokens = None, cs_reserve_percent = None,
      cs_retention_percent = None, cs_max_retained_tokens = None\<rparr>"

definition reserve_percent :: "compaction_settings \<Rightarrow> nat" where
  "reserve_percent s = (case cs_reserve_percent s of Some p \<Rightarrow> p | None \<Rightarrow> 10)"

definition retention_percent :: "compaction_settings \<Rightarrow> nat" where
  "retention_percent s = (case cs_retention_percent s of Some p \<Rightarrow> p | None \<Rightarrow> 20)"

definition config_check :: "bool \<Rightarrow> string \<Rightarrow> unit result" where
  "config_check refused text = (if refused then Inl (Config text) else Inr ())"

definition option_check :: "nat option \<Rightarrow> (nat \<Rightarrow> bool) \<Rightarrow> string \<Rightarrow> unit result" where
  "option_check v refused text = config_check (case v of Some n \<Rightarrow> refused n | None \<Rightarrow> False) text"

definition compaction_settings_validate :: "compaction_settings \<Rightarrow> unit result" where
  "compaction_settings_validate s =
     rbind (option_check (cs_summary_output_tokens s) (\<lambda>n. n = 0)
       ''compaction.summary_output_tokens must be positive'') (\<lambda>_.
     rbind (option_check (cs_summary_output_tokens s) (\<lambda>n. n > 32768)
       ''compaction.summary_output_tokens must be at most 32768 tokens'') (\<lambda>_.
     rbind (config_check (length (cs_summary_model_hash s) > 256)
       ''compaction.summary_model_hash is too long'') (\<lambda>_.
     rbind (option_check (cs_reserve_percent s) (\<lambda>n. \<not> (1 \<le> n \<and> n \<le> 50))
       ''compaction.reserve_percent must be between 1 and 50'') (\<lambda>_.
     rbind (option_check (cs_retention_percent s) (\<lambda>n. \<not> (1 \<le> n \<and> n \<le> 50))
       ''compaction.retention_percent must be between 1 and 50'') (\<lambda>_.
     rbind (option_check (cs_max_retained_tokens s) (\<lambda>n. n = 0)
       ''compaction.max_retained_tokens must be positive'') (\<lambda>_.
     rbind (option_check (cs_max_retained_tokens s) (\<lambda>n. n > 1000000)
       ''compaction.max_retained_tokens must be at most 1000000 tokens'') (\<lambda>_.
     config_check (reserve_percent s + retention_percent s > 80)
       (''compaction.reserve_percent + compaction.retention_percent must be at most 80 (effective values: reserve ''
        @ show_nat (reserve_percent s) @ ''%, retention '' @ show_nat (retention_percent s)
        @ ''%; unset fields use 10% and 20%)''))))))))"

text \<open>A prepared run with the prompt it sends.\<close>

record prompted_run = prepared_run +
  pr_prompt :: prompt_spec

definition run_budget :: "prompted_run \<Rightarrow> compaction_settings \<Rightarrow> nat option" where
  "run_budget prepared settings =
     input_budget (ms_context_window_tokens (pr_model prepared)) (ms_max_output_tokens (pr_model prepared))
       (reserve_percent settings)"


section \<open>The history a summary call replays\<close>

record summary_input =
  si_context_window :: "nat option"
  si_output_tokens :: nat
  si_prompt_tokens :: nat
  si_calibration :: rat

definition summary_tail_instruction :: string where
  "summary_tail_instruction =
     ''Produce the complete engineering handover now, following the system instructions exactly.''"

definition summary_input_budget :: "summary_input \<Rightarrow> compaction_settings \<Rightarrow> nat \<Rightarrow> nat option" where
  "summary_input_budget input settings percent =
     (let window = (case si_context_window input of Some w \<Rightarrow> (if w > 0 then w else 32000) | None \<Rightarrow> 32000);
          whole = context_budget_with window (reserve_percent settings);
          output = min (si_output_tokens input) (whole div 2);
          room = calibrate_budget (whole - output) (si_calibration input) - si_prompt_tokens input;
          usable = sat_mul_u64 room percent div 100
      in if usable > 0 then Some usable else None)"

definition is_turn_boundary :: "projected \<Rightarrow> bool" where
  "is_turn_boundary m \<longleftrightarrow> pm_role m = RUser \<and> (case pm_content m of ProjParts _ \<Rightarrow> True | _ \<Rightarrow> False)"

text \<open>The loop of \<open>truncate_middle\<close>: it looks for a notice that states the size of what is shown.\<close>

definition pruned_notice :: "string \<Rightarrow> nat \<Rightarrow> nat \<Rightarrow> string" where
  "pruned_notice tool shown original =
     nl @ nl @ ''[old '' @ tool @ '' result pruned for the summary: showing '' @ show_nat shown @ '' of ''
     @ show_nat original @ '' bytes]'' @ nl @ nl"

definition shown_ends :: "string \<Rightarrow> nat \<Rightarrow> string \<times> string" where
  "shown_ends content available =
     (let head = utf8_prefix content (available div 2)
      in (head, utf8_suffix content (available - length head)))"

partial_function (option) truncate_loop :: "string \<Rightarrow> nat \<Rightarrow> string \<Rightarrow> nat \<Rightarrow> string option" where
  "truncate_loop content limit tool shown =
     (let notice = pruned_notice tool shown (length content);
          (head, tail) = shown_ends content (limit - length notice);
          next_shown = length head + length tail
      in if next_shown = shown then Some (head @ notice @ tail)
         else truncate_loop content limit tool next_shown)"

definition truncate_middle :: "string \<Rightarrow> nat \<Rightarrow> string \<Rightarrow> string option" where
  "truncate_middle content limit tool =
     (if length content \<le> limit then Some content else truncate_loop content limit tool limit)"

definition summary_recent_tool_results :: nat where "summary_recent_tool_results = 2"
definition summary_tool_result_limit :: nat where "summary_tool_result_limit = 8 * 1024"

text \<open>From the newest message back; the count is of the tool results met.\<close>

fun prune_back :: "nat \<Rightarrow> projected list \<Rightarrow> projected list option" where
  "prune_back seen [] = Some []"
| "prune_back seen (m # ms) =
     (case pm_content m of
        ProjToolResult r \<Rightarrow>
          (if seen < summary_recent_tool_results then map_option (\<lambda>rest. m # rest) (prune_back (seen + 1) ms)
           else
             (case (if length (tr_content r) > summary_tool_result_limit
                    then truncate_middle (tr_content r) summary_tool_result_limit (tr_name r)
                    else Some (tr_content r)) of
                None \<Rightarrow> None
              | Some c \<Rightarrow> map_option (\<lambda>rest. m\<lparr>pm_content := ProjToolResult (r\<lparr>tr_content := c\<rparr>)\<rparr> # rest)
                            (prune_back (seen + 1) ms)))
      | _ \<Rightarrow> map_option (\<lambda>rest. m # rest) (prune_back seen ms))"

definition prune_replayed_tool_results :: "projected list \<Rightarrow> projected list option" where
  "prune_replayed_tool_results history = map_option rev (prune_back 0 (rev history))"

text \<open>The walk back over the turn boundaries: the oldest one from which the rest fits.\<close>

fun oldest_fitting :: "(nat \<Rightarrow> nat) \<Rightarrow> nat \<Rightarrow> nat list \<Rightarrow> nat option \<Rightarrow> nat option" where
  "oldest_fitting cost budget [] kept = kept"
| "oldest_fitting cost budget (i # is) kept =
     (if cost i > budget then kept else oldest_fitting cost budget is (Some i))"

definition turn_boundaries :: "projected list \<Rightarrow> nat list" where
  "turn_boundaries history = filter (\<lambda>i. is_turn_boundary (history ! i)) [0..<length history]"

definition cut_to_turns :: "(json \<Rightarrow> string) \<Rightarrow> nat \<Rightarrow> projected list \<Rightarrow> projected list" where
  "cut_to_turns render budget history =
     (let newest_first = rev (turn_boundaries history)
      in case oldest_fitting (\<lambda>i. estimate_projected_messages_tokens render (drop i history)) budget newest_first None of
           Some start \<Rightarrow> drop start history
         | None \<Rightarrow> drop (case newest_first of [] \<Rightarrow> 0 | i # _ \<Rightarrow> i) history)"

definition trim_to_context :: "(json \<Rightarrow> string) \<Rightarrow> projected list \<Rightarrow> nat option \<Rightarrow> projected list option" where
  "trim_to_context render history budget =
     (case budget of
        None \<Rightarrow> Some history
      | Some b \<Rightarrow>
          (if estimate_projected_messages_tokens render history \<le> b then Some history
           else
             (case prune_replayed_tool_results history of
                None \<Rightarrow> None
              | Some pruned \<Rightarrow>
                  Some (if estimate_projected_messages_tokens render pruned \<le> b then pruned
                        else cut_to_turns render b pruned))))"

definition compact_history_at ::
  "(json \<Rightarrow> string) \<Rightarrow> projected list \<Rightarrow> summary_input \<Rightarrow> compaction_settings \<Rightarrow> nat \<Rightarrow> projected list option" where
  "compact_history_at render history input settings percent =
     map_option (\<lambda>h. user_terminated h compaction_tail_message_id summary_tail_instruction)
       (trim_to_context render history (summary_input_budget input settings percent))"

definition compaction_history ::
  "(json \<Rightarrow> string) \<Rightarrow> projected list \<Rightarrow> summary_input \<Rightarrow> compaction_settings \<Rightarrow> projected list option" where
  "compaction_history render history input settings = compact_history_at render history input settings 90"

definition compaction_history_tight ::
  "(json \<Rightarrow> string) \<Rightarrow> projected list \<Rightarrow> summary_input \<Rightarrow> compaction_settings \<Rightarrow> projected list option" where
  "compaction_history_tight render history input settings = compact_history_at render history input settings 55"


section \<open>The decision to compact\<close>

definition estimate_calibration ::
  "(json \<Rightarrow> string) \<Rightarrow> prompted_run \<Rightarrow> projected list \<Rightarrow> usage_anchor option \<Rightarrow> rat" where
  "estimate_calibration render prepared messages anchor =
     (case anchor of
        None \<Rightarrow> 1
      | Some a \<Rightarrow>
          (if \<not> (anchor_messages a > 0 \<and> anchor_messages a \<le> length messages) \<or> anchor_tokens a = 0 then 1
           else clamp (1 / 2) 4
             (f64 (f64 (of_nat (anchor_tokens a))
               / f64 (of_nat (max 1 (estimate_context_tokens render (pr_prompt prepared)
                                      (take (anchor_messages a) messages))))))))"

definition estimated_tokens ::
  "(json \<Rightarrow> string) \<Rightarrow> prompted_run \<Rightarrow> projected list \<Rightarrow> usage_anchor option \<Rightarrow> nat" where
  "estimated_tokens render prepared messages anchor =
     (case anchor of
        None \<Rightarrow> estimate_context_tokens render (pr_prompt prepared) messages
      | Some a \<Rightarrow>
          (if anchor_messages a \<le> length messages then
             sat_add_u64 (anchor_tokens a)
               (u64_of \<lceil>f64 (f64 (of_nat (estimate_projected_messages_tokens render (drop (anchor_messages a) messages)))
                            * estimate_calibration render prepared messages (Some a))\<rceil>)
           else estimate_context_tokens render (pr_prompt prepared) messages))"

record compaction_estimate_result =
  ce_tokens :: nat
  ce_calibration :: rat

definition compaction_estimate ::
  "(json \<Rightarrow> string) \<Rightarrow> prompted_run \<Rightarrow> projected list \<Rightarrow> usage_anchor option \<Rightarrow> compaction_settings
   \<Rightarrow> compaction_estimate_result option" where
  "compaction_estimate render prepared messages anchor settings =
     (case run_budget prepared settings of
        None \<Rightarrow> None
      | Some budget \<Rightarrow>
          (let tokens = estimated_tokens render prepared messages anchor
           in if tokens > budget
              then Some \<lparr>ce_tokens = tokens, ce_calibration = estimate_calibration render prepared messages anchor\<rparr>
              else None))"

definition overflow_after_compaction :: "nat \<Rightarrow> nat \<Rightarrow> string" where
  "overflow_after_compaction estimated budget =
     ''context overflow after compaction: estimated input '' @ show_nat estimated @ '' tokens exceeds budget ''
     @ show_nat budget @ '' tokens''"

definition validate_compacted ::
  "(json \<Rightarrow> string) \<Rightarrow> prompted_run \<Rightarrow> projected list \<Rightarrow> rat \<Rightarrow> compaction_settings \<Rightarrow> string + nat" where
  "validate_compacted render prepared messages calibration settings =
     (let estimated = estimate_context_tokens render (pr_prompt prepared) messages
      in case run_budget prepared settings of
           None \<Rightarrow> Inr estimated
         | Some b \<Rightarrow>
             (let budget = calibrate_budget b calibration
              in if estimated \<le> budget then Inr estimated else Inl (overflow_after_compaction estimated budget)))"


section \<open>What a compaction keeps\<close>

definition is_superseded_summary :: "message \<Rightarrow> bool" where
  "is_superseded_summary m =
     (case runtime_event_id m of Some e \<Rightarrow> starts_with e ''summary:'' | None \<Rightarrow> False)"

definition is_turn_start :: "message \<Rightarrow> bool" where
  "is_turn_start m \<longleftrightarrow> msg_role m = RUser \<and> msg_origin m \<noteq> OPrompt \<and> \<not> is_superseded_summary m"

definition dropped_from_tail :: "message \<Rightarrow> bool" where
  "dropped_from_tail m \<longleftrightarrow> msg_role m = RUser \<and> msg_origin m = OPrompt \<or> is_superseded_summary m"

definition positions :: "('a \<Rightarrow> bool) \<Rightarrow> 'a list \<Rightarrow> nat list" where
  "positions P xs = filter (\<lambda>i. P (xs ! i)) [0..<length xs]"

definition turn_starts :: "message list \<Rightarrow> nat list" where
  "turn_starts ms = positions is_turn_start ms"

text \<open>\<open>partition\<close>: the messages a summary covers, and the latest request context.\<close>

definition compaction_partition :: "message list \<Rightarrow> string set \<Rightarrow> message list \<times> message option" where
  "compaction_partition messages current_ids =
     (let contexts = positions (\<lambda>m. starts_with (message_id m) ''request-context:'') messages;
          latest = (if contexts = [] then None else Some (last contexts))
      in (map (\<lambda>i. messages ! i)
            (filter (\<lambda>i. Some i \<noteq> latest \<and> message_id (messages ! i) \<notin> current_ids) [0..<length messages]),
          (case latest of
             None \<Rightarrow> None
           | Some i \<Rightarrow> (if message_id (messages ! i) \<in> current_ids then None else Some (messages ! i)))))"

record retention_budget_limits =
  soft_limit :: nat
  hard_limit :: nat

definition projected_tokens :: "(json \<Rightarrow> string) \<Rightarrow> message list \<Rightarrow> nat result" where
  "projected_tokens render ms =
     rbind (project_messages ms) (\<lambda>ps. Inr (estimate_projected_messages_tokens render ps))"

definition capped :: "nat option \<Rightarrow> rat \<Rightarrow> nat \<Rightarrow> nat" where
  "capped cap calibration n = (case cap of Some c \<Rightarrow> min n (calibrate_budget c calibration) | None \<Rightarrow> n)"

definition retention_budget ::
  "(json \<Rightarrow> string) \<Rightarrow> prompted_run \<Rightarrow> message list \<Rightarrow> message list \<Rightarrow> rat \<Rightarrow> compaction_settings
   \<Rightarrow> retention_budget_limits option result" where
  "retention_budget render prepared head after calibration settings =
     (case (ms_context_window_tokens (pr_model prepared), run_budget prepared settings) of
        (Some window, Some budget) \<Rightarrow>
          rbind (projected_tokens render head) (\<lambda>head_tokens.
          let share = (calibrate_budget window calibration * retention_percent settings div 100) mod 2 ^ 64;
              soft = capped (cs_max_retained_tokens settings) calibration (share - head_tokens)
          in rbind (projected_tokens render after) (\<lambda>after_tokens.
             Inr (Some \<lparr>soft_limit = soft,
               hard_limit = capped (cs_max_retained_tokens settings) calibration
                 (calibrate_budget budget calibration - estimate_context_tokens render (pr_prompt prepared) []
                  - head_tokens - after_tokens)\<rparr>)))
      | _ \<Rightarrow> Inr None)"

text \<open>The turns from the newest back, each as its first message and the start of the next turn.\<close>

definition turn_spans :: "message list \<Rightarrow> nat list \<Rightarrow> (nat \<times> nat) list" where
  "turn_spans ms starts = rev (zip starts (tl starts @ [length ms]))"

fun keep_turns ::
  "(json \<Rightarrow> string) \<Rightarrow> message list \<Rightarrow> nat \<Rightarrow> (nat \<times> nat) list \<Rightarrow> nat \<Rightarrow> nat option \<Rightarrow> nat option result" where
  "keep_turns render ms target [] spent kept = Inr kept"
| "keep_turns render ms target ((start, stop) # spans) spent kept =
     rbind (projected_tokens render (drop start (take stop ms))) (\<lambda>tokens.
       if sat_add_u64 spent tokens > target then Inr kept
       else keep_turns render ms target spans (sat_add_u64 spent tokens) (Some start))"

definition retained_starts :: "message list \<Rightarrow> nat list" where
  "retained_starts ms =
     (if turn_starts ms = [] then take 1 (positions (\<lambda>m. \<not> dropped_from_tail m) ms) else turn_starts ms)"

definition retained_from ::
  "(json \<Rightarrow> string) \<Rightarrow> message list \<Rightarrow> retention_budget_limits \<Rightarrow> nat list \<Rightarrow> nat option result" where
  "retained_from render ms budget starts =
     rbind (keep_turns render ms (min (soft_limit budget) (hard_limit budget)) (turn_spans ms starts) 0 None) (\<lambda>kept.
       case kept of
         Some start \<Rightarrow> Inr (Some start)
       | None \<Rightarrow>
           rbind (projected_tokens render (drop (last starts) ms)) (\<lambda>tokens.
             Inr (if tokens \<le> hard_limit budget then Some (last starts) else None)))"

definition retained_tail ::
  "(json \<Rightarrow> string) \<Rightarrow> message list \<Rightarrow> retention_budget_limits \<Rightarrow> message list result" where
  "retained_tail render ms budget =
     rbind (projected_tokens render ms) (\<lambda>all.
       if all \<le> soft_limit budget then Inr []
       else
         (case retained_starts ms of
            [] \<Rightarrow> Inr []
          | starts \<Rightarrow>
              rbind (retained_from render ms budget starts) (\<lambda>from.
                Inr (case from of
                       None \<Rightarrow> []
                     | Some start \<Rightarrow> filter (\<lambda>m. \<not> dropped_from_tail m) (drop start ms)))))"

text \<open>Images of the retained tail, from the newest message and the newest part back.\<close>

definition is_image :: "content_part \<Rightarrow> bool" where
  "is_image p = (case p of PImage _ _ \<Rightarrow> True | PText _ \<Rightarrow> False)"

definition count_images :: "content_part list \<Rightarrow> nat" where
  "count_images ps = length (filter is_image ps)"

fun offload_back :: "content_part list \<Rightarrow> nat \<Rightarrow> content_part list \<times> nat" where
  "offload_back [] remaining = ([], remaining)"
| "offload_back (p # ps) remaining =
     (if \<not> is_image p then (case offload_back ps remaining of (qs, r) \<Rightarrow> (p # qs, r))
      else if remaining > 0 then (case offload_back ps (remaining - 1) of (qs, r) \<Rightarrow> (p # qs, r))
      else (case offload_back ps remaining of (qs, r) \<Rightarrow> (PText ''[image omitted during compaction]'' # qs, r)))"

definition offload_parts :: "content_part list \<Rightarrow> nat \<Rightarrow> content_part list \<times> nat" where
  "offload_parts ps remaining = (case offload_back (rev ps) remaining of (qs, r) \<Rightarrow> (rev qs, r))"

definition offload_message :: "message \<Rightarrow> nat \<Rightarrow> message \<times> nat" where
  "offload_message m remaining =
     (case msg_content m of
        Parts ps \<Rightarrow> (m, remaining - count_images ps)
      | ToolResult r \<Rightarrow>
          (case offload_parts (tr_provider_parts r) (remaining - (if tr_image r \<noteq> None then 1 else 0)) of
             (ps, left) \<Rightarrow> (m\<lparr>msg_content := ToolResult (r\<lparr>tr_provider_parts := ps\<rparr>)\<rparr>, left))
      | Assistant _ _ _ _ _ \<Rightarrow> (m, remaining))"

fun offload_newest_first :: "message list \<Rightarrow> nat \<Rightarrow> message list" where
  "offload_newest_first [] remaining = []"
| "offload_newest_first (m # ms) remaining =
     (case offload_message m remaining of (m', left) \<Rightarrow> m' # offload_newest_first ms left)"

definition max_retained_images :: nat where "max_retained_images = 2"

definition offload_old_tail_images :: "message list \<Rightarrow> message list" where
  "offload_old_tail_images ms = rev (offload_newest_first (rev ms) max_retained_images)"

definition compaction_head :: "message option \<Rightarrow> message \<Rightarrow> message list" where
  "compaction_head context summary = (case context of Some m \<Rightarrow> [m, summary] | None \<Rightarrow> [summary])"

definition replacement ::
  "(json \<Rightarrow> string) \<Rightarrow> prompted_run \<Rightarrow> message list \<Rightarrow> message \<Rightarrow> retention \<Rightarrow> rat \<Rightarrow> compaction_settings
   \<Rightarrow> message list result" where
  "replacement render prepared messages summary retention calibration settings =
     (let (compactable, context) = compaction_partition messages (message_id ` set (pr_initial_messages prepared));
          head = compaction_head context summary
      in case retention of
           NoRetention \<Rightarrow> Inr (head @ pr_initial_messages prepared)
         | Window \<Rightarrow>
             rbind (retention_budget render prepared head (pr_initial_messages prepared) calibration settings) (\<lambda>budget.
             rbind (case budget of Some b \<Rightarrow> retained_tail render compactable b | None \<Rightarrow> Inr []) (\<lambda>tail.
               Inr (head @ offload_old_tail_images tail @ pr_initial_messages prepared))))"


section \<open>The summary slot\<close>

definition open_tag :: string where "open_tag = ''<conversation_summary>''"
definition close_tag :: string where "close_tag = ''</conversation_summary>''"

definition summary_message :: "string \<Rightarrow> string \<Rightarrow> message" where
  "summary_message event_id summary =
     \<lparr>message_id = ''runtime:'' @ event_id, msg_role = RUser, msg_origin = ORuntime,
      msg_content = Parts [PText (open_tag @ nl @ summary @ nl @ close_tag)], runtime_event_id = Some event_id\<rparr>"

definition part_text :: "content_part \<Rightarrow> string" where
  "part_text p = (case p of PText t \<Rightarrow> t | PImage _ _ \<Rightarrow> [])"

definition summary_text :: "message \<Rightarrow> string option" where
  "summary_text m =
     (case msg_content m of
        Parts ps \<Rightarrow>
          (let text = trim_text (strip_suffix close_tag (strip_prefix open_tag (trim_text (concat (map part_text ps)))))
           in if text = [] then None else Some text)
      | _ \<Rightarrow> None)"

definition latest_summary_message :: "message list \<Rightarrow> message option" where
  "latest_summary_message ms = find is_superseded_summary (rev ms)"

definition tokens_or_zero :: "(json \<Rightarrow> string) \<Rightarrow> message list \<Rightarrow> nat" where
  "tokens_or_zero render ms = (case projected_tokens render ms of Inr n \<Rightarrow> n | Inl _ \<Rightarrow> 0)"

definition minimum_summary_chars :: "(json \<Rightarrow> string) \<Rightarrow> message list \<Rightarrow> nat" where
  "minimum_summary_chars render compactable =
     (let tokens = tokens_or_zero render compactable
      in if length compactable < 40 \<and> tokens < 16000 then 0
         else clamp 1200 12000 (max (clamp 1200 12000 (sat_mul_u64 (length compactable) 6))
                                    (clamp 1200 12000 (tokens div 10))))"

definition summary_needs_expansion :: "string \<Rightarrow> nat \<Rightarrow> bool" where
  "summary_needs_expansion summary minimum_chars \<longleftrightarrow>
     minimum_chars > 0 \<and> length (trim_chars (chars summary)) < minimum_chars"

definition detail_retry_instructions :: "nat \<Rightarrow> string" where
  "detail_retry_instructions minimum_chars =
     nl @ nl @ ''## Detail Retry'' @ nl @ ''The previous handover was too short for this history. Regenerate it from scratch and return at least ''
     @ show_nat minimum_chars @ '' characters. Preserve every still-true requirement, correction, decision, path, command, identifier, number, error, and unfinished item. Do not describe the retry itself.''"

definition carried_summary_limit_chars :: nat where "carried_summary_limit_chars = 64000"

definition carried_notice :: "nat \<Rightarrow> string" where
  "carried_notice omitted =
     ''[Earlier handover text omitted from the active slot after the '' @ show_nat carried_summary_limit_chars
     @ ''-character limit; recover older detail from the Archived History paths below. Omitted characters: ''
     @ show_nat omitted @ ''.]'' @ nl @ nl"

definition bound_carried_summary :: "string \<Rightarrow> string" where
  "bound_carried_summary summary =
     (let total = length (chars summary)
      in if total \<le> carried_summary_limit_chars then summary
         else
           (let notice = carried_notice (total - carried_summary_limit_chars);
                keep = carried_summary_limit_chars - length (chars notice)
            in notice @ skip_chars (total - keep) summary))"

definition earlier_section :: "string \<Rightarrow> string" where
  "earlier_section previous =
     ''## Earlier Compacted Context (Historical)'' @ nl
     @ ''Status, Next Action, and In Flight entries in this section may be obsolete.'' @ nl @ previous"

definition current_section :: "string \<Rightarrow> string" where
  "current_section current =
     ''## Current Compacted Context (Authoritative)'' @ nl
     @ ''This newest section supersedes earlier status and next-action entries.'' @ nl @ current"

definition carry_forward_summary :: "string option \<Rightarrow> string \<Rightarrow> string" where
  "carry_forward_summary previous current =
     (let current = trim_text current
      in case previous of
           None \<Rightarrow> current
         | Some p \<Rightarrow>
             (let previous = trim_text p
              in if previous = [] \<or> previous = current then current
                 else bound_carried_summary (earlier_section previous @ nl @ nl @ current_section current)))"

definition summary_slot_max_tokens :: nat where "summary_slot_max_tokens = 16000"

definition summary_slot_token_budget :: "(json \<Rightarrow> string) \<Rightarrow> prompted_run \<Rightarrow> rat \<Rightarrow> compaction_settings \<Rightarrow> nat" where
  "summary_slot_token_budget render prepared calibration settings =
     (case run_budget prepared settings of
        None \<Rightarrow> summary_slot_max_tokens
      | Some budget \<Rightarrow>
          (let fixed = sat_add_u64 (estimate_context_tokens render (pr_prompt prepared) [])
                         (tokens_or_zero render (pr_initial_messages prepared));
               available = calibrate_budget budget calibration - fixed
           in min ((available * 33) mod 2 ^ 64 div 100) summary_slot_max_tokens))"

definition summary_slot_tokens :: "(json \<Rightarrow> string) \<Rightarrow> string \<Rightarrow> nat" where
  "summary_slot_tokens render summary =
     (case projected_tokens render [summary_message ''summary:budget'' summary] of Inr n \<Rightarrow> n | Inl _ \<Rightarrow> u64_max)"

definition bounded_summary_tail :: "string \<Rightarrow> nat \<Rightarrow> string" where
  "bounded_summary_tail summary keep =
     (let omitted = length (chars summary) - keep
      in ''[Earlier handover text omitted to fit the active context window; recover older detail from the Archived History paths below. Omitted characters: ''
         @ show_nat omitted @ ''.]'' @ nl @ nl @ skip_chars omitted summary)"

text \<open>The binary search for the number of characters to keep.\<close>

function search_keep :: "(nat \<Rightarrow> bool) \<Rightarrow> nat \<Rightarrow> nat \<Rightarrow> nat" where
  "search_keep fits low high =
     (if low < high then
        (let keep = div_ceil (low + high) 2
         in if fits keep then search_keep fits keep high else search_keep fits low (keep - 1))
      else low)"
  by pat_completeness auto
termination by (relation "measure (\<lambda>(_, low, high). high - low)") (auto simp: div_ceil_def)

declare search_keep.simps [simp del]

definition fit_summary_slot_to_tokens :: "(json \<Rightarrow> string) \<Rightarrow> string \<Rightarrow> nat \<Rightarrow> string" where
  "fit_summary_slot_to_tokens render summary max_tokens =
     (if trim_text summary = [] \<or> summary_slot_tokens render summary \<le> max_tokens then summary
      else bounded_summary_tail summary
        (search_keep (\<lambda>keep. summary_slot_tokens render (bounded_summary_tail summary keep) \<le> max_tokens)
           0 (length (chars summary))))"


section \<open>What the slot keeps of the dropped history\<close>

definition message_text :: "message \<Rightarrow> string" where
  "message_text m =
     (case msg_content m of
        Parts ps \<Rightarrow> join_with nl (map part_text (filter (\<lambda>p. \<not> is_image p) ps))
      | Assistant text _ _ _ _ \<Rightarrow> text
      | ToolResult r \<Rightarrow> tr_content r)"

definition truncate_chars_middle :: "string \<Rightarrow> nat \<Rightarrow> string" where
  "truncate_chars_middle text limit =
     (let cs = chars text
      in if length cs \<le> limit then text
         else
           (let head = take (limit * 2 div 3) cs;
                tail_count = limit - (length head + 1)
            in concat head @ [CHR 0xE2, CHR 0x80, CHR 0xA6] @ concat (rev (take tail_count (rev cs)))))"

definition digest_label :: "message \<Rightarrow> string option" where
  "digest_label m =
     (case msg_role m of
        RUser \<Rightarrow> (if msg_origin m \<noteq> OPrompt then Some ''User'' else None)
      | RAssistant \<Rightarrow> Some ''Assistant''
      | _ \<Rightarrow> None)"

definition collapsed_text :: "message \<Rightarrow> string" where
  "collapsed_text m = join_with '' '' (words_of (chars (message_text m)))"

fun digest_back :: "nat \<Rightarrow> nat \<Rightarrow> message list \<Rightarrow> string list \<Rightarrow> string list" where
  "digest_back max_entries max_chars [] digest = digest"
| "digest_back max_entries max_chars (m # ms) digest =
     (if is_superseded_summary m then digest_back max_entries max_chars ms digest
      else
        (case digest_label m of
           None \<Rightarrow> digest_back max_entries max_chars ms digest
         | Some label \<Rightarrow>
             (if length digest \<ge> max_entries then digest
              else if collapsed_text m = [] then digest_back max_entries max_chars ms digest
              else digest_back max_entries max_chars ms
                     (digest @ [''- '' @ label @ '': '' @ truncate_chars_middle (collapsed_text m) max_chars]))))"

definition digest_of_with_limits :: "message list \<Rightarrow> nat \<Rightarrow> nat \<Rightarrow> string option" where
  "digest_of_with_limits compactable max_entries max_chars =
     (let digest = digest_back max_entries max_chars (rev compactable) []
      in if digest = [] then None else Some (join_with nl (rev digest)))"

definition digest_of :: "message list \<Rightarrow> string option" where
  "digest_of compactable = digest_of_with_limits compactable 3 400"

definition short_summary_addendum :: "string \<Rightarrow> message list \<Rightarrow> string" where
  "short_summary_addendum summary compactable =
     (case digest_of_with_limits compactable 12 800 of
        Some digest \<Rightarrow>
          trim_text summary @ nl @ nl @ ''## Recent Exact Entries'' @ nl
          @ ''- These exact entries are retained in addition to the handover:'' @ nl @ digest
      | None \<Rightarrow> summary)"

definition fallback_summary_text :: string where
  "fallback_summary_text =
     ''This conversation was compacted because the context window was full, and the summary call failed. Older history was dropped; the turns below are kept verbatim. Continue the current task from this state.''"

definition fallback_summary :: "message list \<Rightarrow> string" where
  "fallback_summary compactable =
     (case digest_of compactable of
        Some digest \<Rightarrow>
          fallback_summary_text @ nl @ nl @ ''Deterministic digest of the dropped history:'' @ nl @ digest
      | None \<Rightarrow> fallback_summary_text)"

text \<open>Deterministic file anchors.\<close>

definition is_file_tool :: "string \<Rightarrow> bool" where
  "is_file_tool name \<longleftrightarrow>
     map ascii_lower (filter ascii_alphanumeric name) \<in> set
       [''read'', ''readfile'', ''edit'', ''write'', ''strreplace'', ''patchedit'', ''patcheditlines'',
        ''patcheditspan'', ''editnotebook'', ''applypatch'', ''multiedit'', ''createfile'']"

definition string_member :: "json \<Rightarrow> string \<Rightarrow> string option" where
  "string_member v key =
     (case v of
        JObj kvs \<Rightarrow> (case map_of kvs key of Some (JStr s) \<Rightarrow> (if s = [] then None else Some s) | _ \<Rightarrow> None)
      | _ \<Rightarrow> None)"

definition anchor_path :: "string \<Rightarrow> json \<Rightarrow> string option" where
  "anchor_path name arguments =
     (if \<not> is_file_tool name then None
      else first_some (string_member arguments)
             [''path'', ''file_path'', ''target_file'', ''absolute_path'', ''filename'', ''file''])"

definition max_anchor_files :: nat where "max_anchor_files = 12"

fun anchor_calls :: "tool_call_content list \<Rightarrow> string list \<Rightarrow> string list" where
  "anchor_calls [] files = files"
| "anchor_calls (c # cs) files =
     (case anchor_path (tc_name c) (tc_arguments c) of
        None \<Rightarrow> anchor_calls cs files
      | Some path \<Rightarrow>
          (if path \<in> set files then anchor_calls cs files
           else if length files + 1 \<ge> max_anchor_files then files @ [path]
           else anchor_calls cs (files @ [path])))"

fun anchor_scan :: "message list \<Rightarrow> string list \<Rightarrow> string list" where
  "anchor_scan [] files = files"
| "anchor_scan (m # ms) files =
     (case msg_content m of
        Assistant _ _ _ _ calls \<Rightarrow>
          (let found = anchor_calls (rev calls) files
           in if length found \<ge> max_anchor_files then found else anchor_scan ms found)
      | _ \<Rightarrow> anchor_scan ms files)"

definition context_anchor_paths :: "message list \<Rightarrow> string list" where
  "context_anchor_paths messages = rev (anchor_scan (rev messages) [])"

definition with_context_anchors :: "string \<Rightarrow> message list \<Rightarrow> string" where
  "with_context_anchors summary messages =
     (let additions = filter (\<lambda>path. \<not> contains summary path) (context_anchor_paths messages);
          files = join_with '', '' additions
      in if additions = [] then summary
         else if contains summary ''## Context Anchors'' then
           summary @ nl @ ''- Additional recently referenced files (re-read them if the handover is not enough): '' @ files
         else
           summary @ nl @ nl @ ''## Context Anchors'' @ nl
           @ ''- Recently referenced files (re-read them if the handover is not enough): '' @ files)"

text \<open>The archive path as text is an argument.\<close>

definition with_archive_anchor :: "string \<Rightarrow> string option \<Rightarrow> string" where
  "with_archive_anchor summary archive =
     (case archive of
        None \<Rightarrow> summary
      | Some path \<Rightarrow>
          (let hint = '' (use Shell grep/read to recover details the summary omitted)''
           in if contains summary ''## Archived History'' then
                (if contains summary path then summary
                 else summary @ nl @ ''- Additional archived span: '' @ path @ hint)
              else summary @ nl @ nl @ ''## Archived History'' @ nl @ ''- Full pre-compaction messages: '' @ path @ hint))"

end
