(* ===== verification/CompactionLaws.thy ===== *)
theory CompactionLaws
  imports Compaction
begin

text \<open>
  The history a compaction leaves: the projection of a message list splits at a message of parts, filtering out
  prompt context and old summaries keeps it valid, offloading images only makes it smaller, and so the turns
  retained under the budget fit the check that follows.
\<close>

section \<open>The projection splits at a message of parts\<close>

definition is_parts :: "message \<Rightarrow> bool" where
  "is_parts m \<longleftrightarrow> (case msg_content m of Parts _ \<Rightarrow> True | _ \<Rightarrow> False)"

definition rjoin :: "'a list result \<Rightarrow> 'a list result \<Rightarrow> 'a list result" where
  "rjoin r s = rbind r (\<lambda>a. rbind s (\<lambda>b. Inr (a @ b)))"

definition rest_append :: "message list \<Rightarrow> ('a \<times> message list) result \<Rightarrow> ('a \<times> message list) result" where
  "rest_append ys r = rbind r (\<lambda>(a, rest). Inr (a, rest @ ys))"

lemma is_parts_iff: "is_parts m \<longleftrightarrow> (\<exists>ps. msg_content m = Parts ps)"
  by (auto simp: is_parts_def split: message_content.splits)

lemma take_results_stop:
  assumes p: "is_parts p"
  shows "take_results (xs @ p # ys) a = rest_append (p # ys) (take_results xs a)"
  using p by (induction xs a rule: take_results.induct)
    (auto simp: is_parts_iff rest_append_def split: message_content.splits)

lemma round_loop_stop:
  assumes p: "is_parts p"
  shows "round_loop gid (xs @ p # ys) a = rest_append (p # ys) (round_loop gid xs a)"
  using p
proof (induction gid xs a rule: round_loop.induct)
  case (1 gid a)
  then show ?case by (auto simp: is_parts_iff rest_append_def)
next
  case (2 gid m ms a)
  show ?case
    using 2(1)[OF _ _ _ _ _ _ 2(2)] take_results_stop[OF 2(2), of ms ys]
    by (auto simp: rest_append_def split: message_content.splits option.splits sum.splits prod.splits)
qed

lemma project_tool_round_stop:
  assumes p: "is_parts p" and xs: "xs \<noteq> []"
  shows "project_tool_round (xs @ p # ys)
    = rbind (project_tool_round xs) (\<lambda>g. Inr (map_option (\<lambda>(grp, rest). (grp, rest @ p # ys)) g))"
proof -
  obtain m ms where m: "xs = m # ms" using xs by (cases xs) auto
  have "round_loop g (m # ms @ p # ys) round_acc_empty = rest_append (p # ys) (round_loop g xs round_acc_empty)" for g
    using round_loop_stop[OF p, of g "m # ms" ys] m by simp
  then show ?thesis
    by (auto simp: m project_tool_round_def rest_append_def Let_def simp del: round_loop.simps
        split: message_content.splits option.splits sum.splits prod.splits list.splits)
qed

lemma project_tool_round_parts: "is_parts p \<Longrightarrow> project_tool_round (p # ys) = Inr None"
  by (auto simp: project_tool_round_def is_parts_iff)

lemma project_parts: "is_parts p \<Longrightarrow> project_messages (p # ys) = rbind (project_messages ys) (\<lambda>b. Inr (project_message p # b))"
  by (simp add: project_tool_round_parts)

lemma rjoin_simps:
  "rjoin (Inr []) s = s" "rjoin (Inl e) s = Inl e"
  "rjoin (rbind r (\<lambda>a. Inr (g @ a))) s = rbind (rjoin r s) (\<lambda>b. Inr (g @ b))"
  "rjoin (rbind r (\<lambda>a. Inr (x # a))) s = rbind (rjoin r s) (\<lambda>b. Inr (x # b))"
  by (cases r; cases s; simp add: rjoin_def)+

lemma project_stop:
  assumes p: "is_parts p"
  shows "project_messages (xs @ p # ys) = rjoin (project_messages xs) (project_messages (p # ys))"
proof (induction xs rule: project_messages.induct)
  case 1
  then show ?case by (simp add: rjoin_simps del: project_messages.simps(2))
next
  case (2 m ms)
  have round: "project_tool_round (m # (ms @ p # ys))
      = rbind (project_tool_round (m # ms)) (\<lambda>g. Inr (map_option (\<lambda>(grp, rest). (grp, rest @ p # ys)) g))"
    using project_tool_round_stop[OF p, of "m # ms" ys] by simp
  show ?case
  proof (cases "project_tool_round (m # ms)")
    case (Inl e)
    then show ?thesis by (simp add: round rjoin_simps)
  next
    case (Inr g)
    then show ?thesis
      using 2 round project_messages.simps(2)[of m ms] project_messages.simps(2)[of m "ms @ p # ys"]
      by (cases g) (auto simp: rjoin_simps simp del: project_messages.simps(2))
  qed
qed

definition starts_parts :: "message list \<Rightarrow> bool" where
  "starts_parts ms \<longleftrightarrow> ms = [] \<or> is_parts (hd ms)"

definition ends_parts :: "message list \<Rightarrow> bool" where
  "ends_parts ms \<longleftrightarrow> ms = [] \<or> is_parts (last ms)"

lemma project_append:
  assumes "ends_parts xs \<or> starts_parts ys"
  shows "project_messages (xs @ ys) = rjoin (project_messages xs) (project_messages ys)"
proof -
  have r0: "rjoin r (Inr []) = r" for r :: "projected list result" by (cases r) (simp_all add: rjoin_def)
  have assoc: "rjoin (rjoin a b) c = rjoin a (rjoin b c)" for a b c :: "projected list result"
    by (cases a; cases b; cases c; simp add: rjoin_def)
  show ?thesis
  proof (cases "starts_parts ys")
    case True
    then show ?thesis using project_stop[of "hd ys" xs "tl ys"] by (cases ys) (auto simp: starts_parts_def r0)
  next
    case False
    then consider "xs = []" | zs p where "xs = zs @ [p]" "is_parts p"
      using assms by (cases xs rule: rev_cases) (auto simp: ends_parts_def)
    then show ?thesis
    proof cases
      case 2
      have "project_messages (p # ys) = rjoin (project_messages [p]) (project_messages ys)"
        using 2 by (cases "project_messages ys") (simp_all add: project_parts rjoin_def del: project_messages.simps(2))
      then show ?thesis
        using 2 project_stop[of p zs ys] project_stop[of p zs "[]"] by (simp add: assoc del: project_messages.simps(2))
    qed (simp add: rjoin_simps)
  qed
qed


section \<open>What the tail drops\<close>

abbreviation kept_in_tail :: "message list \<Rightarrow> message list" where
  "kept_in_tail ms \<equiv> filter (\<lambda>m. \<not> dropped_from_tail m) ms"

definition rounds_whole :: "message list \<Rightarrow> bool" where
  "rounds_whole ms \<longleftrightarrow>
     list_all (\<lambda>i. dropped_from_tail (ms ! i) \<longrightarrow>
       is_parts (ms ! i) \<and> (ends_parts (kept_in_tail (take i ms)) \<or> starts_parts (kept_in_tail (drop (Suc i) ms))))
     [0..<length ms]"

lemma rounds_whole_split:
  assumes "rounds_whole (xs @ d # ys)" "dropped_from_tail d"
  shows "is_parts d \<and> (ends_parts (kept_in_tail xs) \<or> starts_parts (kept_in_tail ys))"
  using assms(1)[unfolded rounds_whole_def list_all_iff, THEN bspec, of "length xs"] assms(2) by simp

lemma ends_parts_append: "ends_parts (xs @ ys) \<Longrightarrow> ends_parts ys"
  by (cases "ys = []") (auto simp: ends_parts_def)

lemma rounds_whole_suffix: "rounds_whole (xs @ ys) \<Longrightarrow> rounds_whole ys"
  unfolding rounds_whole_def list_all_iff
proof (intro ballI impI)
  fix i
  assume a: "\<forall>i\<in>set [0..<length (xs @ ys)]. dropped_from_tail ((xs @ ys) ! i) \<longrightarrow>
       is_parts ((xs @ ys) ! i) \<and> (ends_parts (kept_in_tail (take i (xs @ ys))) \<or> starts_parts (kept_in_tail (drop (Suc i) (xs @ ys))))"
    and i: "i \<in> set [0..<length ys]" and d: "dropped_from_tail (ys ! i)"
  show "is_parts (ys ! i) \<and> (ends_parts (kept_in_tail (take i ys)) \<or> starts_parts (kept_in_tail (drop (Suc i) ys)))"
    using a[THEN bspec, of "length xs + i"] i d by (auto simp: nth_append dest: ends_parts_append)
qed

lemma project_kept:
  "rounds_whole ms \<Longrightarrow> project_messages ms = Inr ps
   \<Longrightarrow> \<exists>ps'. project_messages (kept_in_tail ms) = Inr ps'
         \<and> estimate_projected_messages_tokens render ps' \<le> estimate_projected_messages_tokens render ps"
proof (induction "length ms" arbitrary: ms ps rule: less_induct)
  case less
  show ?case
  proof (cases "\<exists>m\<in>set ms. dropped_from_tail m")
    case False
    then show ?thesis using less.prems by (auto simp: filter_id_conv)
  next
    case True
    then obtain xs d ys where ms: "ms = xs @ d # ys" "dropped_from_tail d" "\<forall>m\<in>set xs. \<not> dropped_from_tail m"
      using split_list_first_prop[of ms dropped_from_tail] by auto
    have xs: "kept_in_tail xs = xs" using ms(3) by (auto simp: filter_id_conv)
    have d: "is_parts d" "ends_parts xs \<or> starts_parts (kept_in_tail ys)"
      using rounds_whole_split[of xs d ys] less.prems(1) ms(1,2) xs by auto
    obtain a b where ab: "project_messages xs = Inr a" "project_messages ys = Inr b" "ps = a @ project_message d # b"
      using less.prems(2) project_stop[OF d(1), of xs ys]
      by (auto simp: ms rjoin_def project_tool_round_parts[OF d(1)])
    obtain b' where b': "project_messages (kept_in_tail ys) = Inr b'"
        "estimate_projected_messages_tokens render b' \<le> estimate_projected_messages_tokens render b"
      using less.hyps[of ys b] rounds_whole_suffix[of "xs @ [d]" ys] less.prems(1) ab(2) by (auto simp: ms)
    have "project_messages (kept_in_tail ms) = Inr (a @ b')"
      using project_append[OF d(2)] ab(1) b'(1) ms(2) by (simp add: ms(1) xs rjoin_def)
    moreover have "estimate_projected_messages_tokens render (a @ b') \<le> estimate_projected_messages_tokens render ps"
      using b'(2) messages_tokens_append[of render "[project_message d]" b]
      by (simp add: ab(3) messages_tokens_append) (auto simp: sat_add_u64_def)
    ultimately show ?thesis by blast
  qed
qed

section \<open>Offloading images\<close>

definition result_shrinks :: "tool_result_content \<Rightarrow> tool_result_content \<Rightarrow> bool" where
  "result_shrinks r r' \<longleftrightarrow>
     r' = r\<lparr>tr_provider_parts := tr_provider_parts r'\<rparr>
     \<and> (tr_provider_parts r' = [] \<longleftrightarrow> tr_provider_parts r = [])
     \<and> estimate_parts_tokens (tr_provider_parts r') \<le> estimate_parts_tokens (tr_provider_parts r)"

definition message_shrinks :: "message \<Rightarrow> message \<Rightarrow> bool" where
  "message_shrinks m m' \<longleftrightarrow>
     m' = m \<or> (\<exists>r r'. msg_content m = ToolResult r \<and> m' = m\<lparr>msg_content := ToolResult r'\<rparr> \<and> result_shrinks r r')"

definition acc_shrinks :: "round_acc \<Rightarrow> round_acc \<Rightarrow> bool" where
  "acc_shrinks a a' \<longleftrightarrow>
     a' = a\<lparr>acc_results := acc_results a'\<rparr>
     \<and> list_all2 (rel_prod (=) result_shrinks) (acc_results a) (acc_results a')"

definition projected_shrinks :: "projected \<Rightarrow> projected \<Rightarrow> bool" where
  "projected_shrinks p p' \<longleftrightarrow>
     p' = p \<or> (\<exists>r r'. pm_content p = ProjToolResult r \<and> p' = p\<lparr>pm_content := ProjToolResult r'\<rparr> \<and> result_shrinks r r')"

lemma result_shrinks_refl [simp]: "result_shrinks r r" by (simp add: result_shrinks_def)
lemma message_shrinks_refl [simp]: "message_shrinks m m" by (simp add: message_shrinks_def)
lemma projected_shrinks_refl [simp]: "projected_shrinks m m" by (simp add: projected_shrinks_def)

lemma result_shrinks_same: "result_shrinks r r' \<Longrightarrow> tr_call_id r' = tr_call_id r \<and> tr_name r' = tr_name r \<and> tr_content r' = tr_content r \<and> tr_image r' = tr_image r"
  unfolding result_shrinks_def by (cases r; cases r') auto

lemma result_shrinks_normalized: "result_shrinks r r' \<Longrightarrow> result_shrinks (normalized_tool_result r) (normalized_tool_result r')"
  unfolding result_shrinks_def normalized_tool_result_def by (cases r; cases r') auto

lemma acc_shrinks_ids: "acc_shrinks a a' \<Longrightarrow> result_ids a' = result_ids a"
proof -
  assume "acc_shrinks a a'"
  then have "list_all2 (rel_prod (=) result_shrinks) (acc_results a) (acc_results a')" by (simp add: acc_shrinks_def)
  then have "map (\<lambda>e. tr_call_id (snd e)) (acc_results a') = map (\<lambda>e. tr_call_id (snd e)) (acc_results a)"
    by (induction rule: list_all2_induct) (auto dest!: result_shrinks_same)
  then show ?thesis by (simp add: result_ids_def)
qed

lemma acc_shrinks_add:
  "acc_shrinks a a' \<Longrightarrow> result_shrinks r r'
   \<Longrightarrow> acc_shrinks (a\<lparr>acc_results := acc_results a @ [(i, r)]\<rparr>) (a'\<lparr>acc_results := acc_results a' @ [(i, r')]\<rparr>)"
  unfolding acc_shrinks_def by (cases a; cases a') (auto intro: list_all2_appendI)

definition step_shrinks :: "(round_acc \<times> message list) result \<Rightarrow> (round_acc \<times> message list) result \<Rightarrow> bool" where
  "step_shrinks = rel_sum (=) (rel_prod acc_shrinks (list_all2 message_shrinks))"

lemma take_results_shrinks:
  "list_all2 message_shrinks ms ms' \<Longrightarrow> acc_shrinks a a' \<Longrightarrow> step_shrinks (take_results ms a) (take_results ms' a')"
proof (induction ms arbitrary: ms' a a')
  case (Cons m ms)
  obtain m' ns where ms': "ms' = m' # ns" "message_shrinks m m'" "list_all2 message_shrinks ms ns"
    using Cons.prems(1) by (auto simp: list_all2_Cons1)
  have calls: "acc_calls a' = acc_calls a" using Cons.prems(2) by (cases a; cases a') (auto simp: acc_shrinks_def)
  consider r r' where "msg_content m = ToolResult r" "m' = m\<lparr>msg_content := ToolResult r'\<rparr>" "result_shrinks r r'"
    | "m' = m" "\<forall>r. msg_content m \<noteq> ToolResult r"
    using ms'(2) by (cases "msg_content m"; cases m) (auto simp: message_shrinks_def)
  then show ?case
  proof cases
    case 1
    have ids: "tr_call_id r' = tr_call_id r" using result_shrinks_same[OF 1(3)] by simp
    show ?thesis
      using Cons.IH[OF ms'(3) acc_shrinks_add[OF Cons.prems(2) 1(3)], of "message_id m"] Cons.prems 1 ms'
      by (simp add: calls ids acc_shrinks_ids[OF Cons.prems(2)]) (auto simp: step_shrinks_def)
  next
    case 2
    then show ?thesis using Cons.prems by (cases "msg_content m") (auto simp: ms' step_shrinks_def)
  qed
qed (auto simp: step_shrinks_def)


lemma round_loop_shrinks:
  "list_all2 message_shrinks ms ms' \<Longrightarrow> acc_shrinks a a' \<Longrightarrow> step_shrinks (round_loop gid ms a) (round_loop gid ms' a')"
proof (induction gid ms a arbitrary: ms' a' rule: round_loop.induct)
  case (1 gid a)
  then show ?case by (auto simp: step_shrinks_def)
next
  case (2 gid m ms a)
  obtain m' ns where ms': "ms' = m' # ns" "message_shrinks m m'" "list_all2 message_shrinks ms ns"
    using 2(2) by (auto simp: list_all2_Cons1)
  show ?case
  proof (cases "\<exists>t th rp c cs. msg_content m = Assistant t th (Some gid) rp (c # cs)")
    case False
    have "step_shrinks (Inr (a, m # ms)) (Inr (a', m' # ns))" using 2(2,3) ms' by (simp add: step_shrinks_def)
    moreover have "round_loop gid (m # ms) a = Inr (a, m # ms)"
      using False by (cases "msg_content m") (auto split: option.splits list.splits simp: neq_Nil_conv)
    moreover have "round_loop gid (m' # ns) a' = Inr (a', m' # ns)"
      using False ms'(2) by (cases "msg_content m"; cases m)
        (auto simp: message_shrinks_def neq_Nil_conv split: option.splits)
    ultimately show ?thesis by (simp add: ms' del: round_loop.simps)
  next
    case True
    then obtain t th rp c cs where m: "msg_content m = Assistant t th (Some gid) rp (c # cs)" by blast
    then have m': "m' = m" using ms'(2) by (auto simp: message_shrinks_def)
    have replay: "acc_replay a' = acc_replay a" "acc_text a' = acc_text a" "acc_thinking a' = acc_thinking a" "acc_calls a' = acc_calls a"
      using 2(3) by (cases a; cases a'; auto simp: acc_shrinks_def)+
    let ?ext = "\<lambda>a. a\<lparr>acc_text := acc_text a @ t, acc_thinking := acc_thinking a @ th,
                   acc_replay := (if acc_replay a = None then rp else acc_replay a),
                   acc_calls := acc_calls a @ map normalized_tool_call (c # cs)\<rparr>"
    have ext: "acc_shrinks (?ext a) (?ext a')"
      using 2(3) by (cases a; cases a') (auto simp: acc_shrinks_def)
    have took: "step_shrinks (take_results ms (?ext a)) (take_results ns (?ext a'))"
      by (rule take_results_shrinks[OF ms'(3) ext])
    show ?thesis
    proof (cases "acc_replay a \<noteq> None \<and> rp \<noteq> None")
      case True
      then show ?thesis by (simp add: ms' m m' replay step_shrinks_def)
    next
      case False
      then have l: "round_loop gid (m # ms) a = rbind (take_results ms (?ext a)) (\<lambda>(a', rest). round_loop gid rest a')"
        "round_loop gid (m # ns) a' = rbind (take_results ns (?ext a')) (\<lambda>(a', rest). round_loop gid rest a')"
        using m replay by (auto split: sum.splits)
      show ?thesis
      proof (cases "take_results ms (?ext a)")
        case (Inl e)
        then show ?thesis using took l by (cases "take_results ns (?ext a')") (auto simp: step_shrinks_def ms' m')
      next
        case (Inr w)
        obtain a1 rest where w: "w = (a1, rest)" by (cases w)
        obtain a2 rest' where w': "take_results ns (?ext a') = Inr (a2, rest')" "acc_shrinks a1 a2" "list_all2 message_shrinks rest rest'"
          using took Inr w by (cases "take_results ns (?ext a')") (auto simp: step_shrinks_def)
        have "step_shrinks (round_loop gid rest a1) (round_loop gid rest' a2)"
          by (rule 2(1)[OF m refl _ False Inr[unfolded w] refl w'(3,2)]) simp_all
        then show ?thesis using l Inr w w'(1) by (simp add: ms' m' del: round_loop.simps)
      qed
    qed
  qed
qed

definition round_shrinks :: "(projected list \<times> message list) option result \<Rightarrow> (projected list \<times> message list) option result \<Rightarrow> bool" where
  "round_shrinks = rel_sum (=) (rel_option (rel_prod (list_all2 projected_shrinks) (list_all2 message_shrinks)))"

lemma project_tool_round_shrinks:
  assumes "list_all2 message_shrinks ms ms'"
  shows "round_shrinks (project_tool_round ms) (project_tool_round ms')"
proof (cases "\<exists>m ns t th gid rp cs. ms = m # ns \<and> msg_content m = Assistant t th (Some gid) rp cs \<and> cs \<noteq> []")
  case False
  have "project_tool_round ms = Inr None"
    using False by (auto simp: project_tool_round_def split: list.splits message_content.splits option.splits)
  moreover have "project_tool_round ms' = Inr None"
    using False assms by (cases ms; cases ms')
      (auto simp: project_tool_round_def message_shrinks_def split: message_content.splits option.splits)
  ultimately show ?thesis by (simp add: round_shrinks_def)
next
  case True
  then obtain m ns t th gid rp cs where ms: "ms = m # ns" "msg_content m = Assistant t th (Some gid) rp cs" "cs \<noteq> []" by blast
  then obtain ns' where ms': "ms' = m # ns'" using assms by (auto simp: list_all2_Cons1 message_shrinks_def)
  have loop: "step_shrinks (round_loop gid ms round_acc_empty) (round_loop gid ms' round_acc_empty)"
    by (rule round_loop_shrinks[OF assms]) (simp add: acc_shrinks_def round_acc_empty_def)
  show ?thesis
  proof (cases "round_loop gid ms round_acc_empty")
    case (Inl e)
    then show ?thesis using loop ms ms'
      by (cases "round_loop gid ms' round_acc_empty")
         (auto simp: step_shrinks_def project_tool_round_def round_shrinks_def simp del: round_loop.simps)
  next
    case (Inr w)
    obtain a rest where w: "w = (a, rest)" by (cases w)
    obtain a' rest' where w': "round_loop gid ms' round_acc_empty = Inr (a', rest')" "acc_shrinks a a'" "list_all2 message_shrinks rest rest'"
      using loop Inr w by (cases "round_loop gid ms' round_acc_empty") (auto simp: step_shrinks_def)
    have same: "acc_calls a' = acc_calls a" "acc_text a' = acc_text a" "acc_thinking a' = acc_thinking a" "acc_replay a' = acc_replay a"
      using w'(2) by (cases a; cases a'; auto simp: acc_shrinks_def)+
    have results: "list_all2 projected_shrinks
        (map (\<lambda>(mid, r). \<lparr>pm_id = mid, pm_role = RTool, pm_content = ProjToolResult (normalized_tool_result r)\<rparr>) (acc_results a))
        (map (\<lambda>(mid, r). \<lparr>pm_id = mid, pm_role = RTool, pm_content = ProjToolResult (normalized_tool_result r)\<rparr>) (acc_results a'))"
      unfolding list_all2_map1 list_all2_map2
      by (rule list_all2_mono[OF conjunct2[OF w'(2)[unfolded acc_shrinks_def]]])
         (auto simp: projected_shrinks_def dest: result_shrinks_normalized)
    show ?thesis
      using Inr w w'(1,3) ms ms' results
      by (simp add: project_tool_round_def round_shrinks_def same acc_shrinks_ids[OF w'(2)] Let_def split: list.split del: round_loop.simps)
  qed
qed

lemma project_shrinks:
  "list_all2 message_shrinks ms ms' \<Longrightarrow> project_messages ms = Inr ps
   \<Longrightarrow> \<exists>ps'. project_messages ms' = Inr ps' \<and> list_all2 projected_shrinks ps ps'"
proof (induction ms arbitrary: ms' ps rule: project_messages.induct)
  case (2 m ms)
  obtain m' ns where ms': "ms' = m' # ns" "message_shrinks m m'" "list_all2 message_shrinks ms ns"
    using 2(3) by (auto simp: list_all2_Cons1)
  have round: "round_shrinks (project_tool_round (m # ms)) (project_tool_round (m' # ns))"
    using project_tool_round_shrinks[OF 2(3)] by (simp add: ms'(1))
  show ?case
  proof (cases "project_tool_round (m # ms)")
    case (Inl e)
    then show ?thesis using 2(4) by simp
  next
    case (Inr g)
    show ?thesis
    proof (cases g)
      case None
      have "project_tool_round (m' # ns) = Inr None"
        using round Inr None by (cases "project_tool_round (m' # ns)") (auto simp: round_shrinks_def)
      moreover have "projected_shrinks (project_message m) (project_message m')"
        using ms'(2) result_shrinks_normalized by (auto simp: message_shrinks_def projected_shrinks_def project_message_def)
      ultimately show ?thesis using 2(1)[OF Inr None ms'(3)] 2(4) Inr None by (auto simp: ms'(1))
    next
      case (Some w)
      obtain grp rest where w: "w = (grp, rest)" by (cases w)
      obtain grp' rest' where r: "project_tool_round (m' # ns) = Inr (Some (grp', rest'))" "list_all2 projected_shrinks grp grp'" "list_all2 message_shrinks rest rest'"
        using round Inr Some w by (cases "project_tool_round (m' # ns)") (auto simp: round_shrinks_def rel_option_iff split: option.splits)
      then show ?thesis using 2(2)[OF Inr Some w[symmetric] r(3)] 2(4) Inr Some w
        by (auto simp: ms'(1)) (use list_all2_appendI in blast)
    qed
  qed
qed simp


section \<open>Offloading never costs tokens\<close>

lemma image_tokens_floor: "200 \<le> part_tokens (PImage mime data)"
  by (cases "image_dimensions mime data")
     (auto simp: estimate_image_tokens_def tokens_per_image_def sat_add_u64_def Let_def u64_max_def)

lemma placeholder_tokens: "part_tokens (PText ''[image omitted during compaction]'') \<le> 200"
  using text_tokens_bound[of "''[image omitted during compaction]''"] by simp

lemma offload_back_spec:
  "offload_back ps n = (qs, r) \<Longrightarrow> length qs = length ps \<and> sum_list (map part_tokens qs) \<le> sum_list (map part_tokens ps)"
proof (induction ps n arbitrary: qs r rule: offload_back.induct)
  case (2 p ps remaining)
  show ?case
  proof (cases "is_image p")
    case True
    then obtain mime data where p: "p = PImage mime data" by (cases p) (auto simp: is_image_def)
    show ?thesis
      using 2(2,3)[OF _ _] 2(4) True placeholder_tokens image_tokens_floor[of mime data] p
      by (auto split: if_splits prod.splits simp del: part_tokens.simps)
  next
    case False
    then show ?thesis using 2(1) 2(4) by (auto split: prod.splits)
  qed
qed simp

lemma offload_message_shrinks: "offload_message m n = (m', r) \<Longrightarrow> message_shrinks m m'"
proof -
  assume a: "offload_message m n = (m', r)"
  show "message_shrinks m m'"
  proof (cases "msg_content m")
    case (ToolResult t)
    obtain qs l where o: "offload_back (rev (tr_provider_parts t)) (n - (if tr_image t \<noteq> None then 1 else 0)) = (qs, l)"
      by (cases "offload_back (rev (tr_provider_parts t)) (n - (if tr_image t \<noteq> None then 1 else 0))")
    have s: "length qs = length (tr_provider_parts t)" "sum_list (map part_tokens qs) \<le> sum_list (map part_tokens (tr_provider_parts t))"
      using offload_back_spec[OF o] by (simp_all add: rev_map[symmetric])
    have "m' = m\<lparr>msg_content := ToolResult (t\<lparr>tr_provider_parts := rev qs\<rparr>)\<rparr>"
      using a o ToolResult by (auto simp: offload_message_def offload_parts_def split: if_splits)
    moreover have "result_shrinks t (t\<lparr>tr_provider_parts := rev qs\<rparr>)"
      using s by (auto simp: result_shrinks_def estimate_parts_tokens_def sat_sum_eq rev_map[symmetric])
    ultimately show ?thesis using ToolResult by (auto simp: message_shrinks_def)
  qed (use a in \<open>auto simp: offload_message_def\<close>)
qed

lemma offload_newest_shrinks: "list_all2 message_shrinks ms (offload_newest_first ms n)"
  by (induction ms arbitrary: n) (auto split: prod.splits dest: offload_message_shrinks)

lemma offload_shrinks: "list_all2 message_shrinks ms (offload_old_tail_images ms)"
  using offload_newest_shrinks[of "rev ms"] by (simp add: offload_old_tail_images_def list_all2_rev1)

lemma projected_shrinks_tokens: "projected_shrinks p p' \<Longrightarrow> estimate_message_tokens render p' \<le> estimate_message_tokens render p"
proof -
  have "content_tokens render (ProjToolResult r') \<le> content_tokens render (ProjToolResult r)"
    if r: "result_shrinks r r'" for r r'
    using r result_shrinks_same[OF r] by (auto simp: result_shrinks_def content_tokens_def sat_add_u64_def)
  then show "projected_shrinks p p' \<Longrightarrow> ?thesis"
    by (auto simp: projected_shrinks_def estimate_message_tokens_def sat_add_u64_def min.coboundedI1)
qed

lemma shrinks_tokens:
  "list_all2 projected_shrinks ps ps'
   \<Longrightarrow> estimate_projected_messages_tokens render ps' \<le> estimate_projected_messages_tokens render ps"
proof -
  assume "list_all2 projected_shrinks ps ps'"
  then have "sum_list (map (estimate_message_tokens render) ps') \<le> sum_list (map (estimate_message_tokens render) ps)"
    by (induction rule: list_all2_induct) (auto dest: projected_shrinks_tokens intro: add_mono)
  then show ?thesis by (simp add: estimate_projected_messages_tokens_def sat_sum_eq) 
qed

lemma offload_projects:
  assumes "project_messages ms = Inr ps"
  shows "\<exists>ps'. project_messages (offload_old_tail_images ms) = Inr ps'
    \<and> estimate_projected_messages_tokens render ps' \<le> estimate_projected_messages_tokens render ps"
  using project_shrinks[OF offload_shrinks assms] shrinks_tokens by blast


section \<open>The retained tail\<close>

definition turns_well_formed :: "message list \<Rightarrow> bool" where
  "turns_well_formed ms \<longleftrightarrow> rounds_whole ms \<and> list_all (\<lambda>m. is_turn_start m \<longrightarrow> is_parts m) ms"

fun chained :: "message list \<Rightarrow> nat \<Rightarrow> (nat \<times> nat) list \<Rightarrow> bool" where
  "chained ms cur [] = True"
| "chained ms cur ((start, stop) # spans) \<longleftrightarrow>
     stop = cur \<and> start \<le> stop \<and> stop \<le> length ms \<and> starts_parts (drop stop ms) \<and> chained ms start spans"

lemma chained_turns:
  "sorted (starts @ [n]) \<Longrightarrow> n \<le> length ms \<Longrightarrow> \<forall>e\<in>set (tl starts) \<union> {n}. starts_parts (drop e ms)
   \<Longrightarrow> chained ms n (rev (zip starts (tl starts @ [n])))"
proof (induction starts arbitrary: n rule: rev_induct)
  case (snoc x xs)
  have z: "zip (xs @ [x]) (tl (xs @ [x]) @ [n]) = zip xs (tl xs @ [x]) @ [(x, n)]"
  proof (cases xs)
    case (Cons a l)
    have "zip ((a # l) @ [x]) ((l @ [x]) @ [n]) = zip (a # l) (l @ [x]) @ zip [x] [n]" by (rule zip_append) simp
    then show ?thesis using Cons by simp
  qed simp
  have "chained ms x (rev (zip xs (tl xs @ [x])))"
  proof (cases "xs = []")
    case False
    then show ?thesis using snoc.prems by (intro snoc.IH) (auto simp: sorted_append)
  qed simp
  then show ?case using snoc.prems unfolding z by (auto simp: sorted_append)
qed simp

lemma projected_tokens_Inr:
  "projected_tokens render ms = Inr n \<longleftrightarrow> (\<exists>ps. project_messages ms = Inr ps \<and> n = estimate_projected_messages_tokens render ps)"
  by (auto simp: projected_tokens_def)

lemma projected_tokens_append:
  "starts_parts ys \<Longrightarrow> projected_tokens render xs = Inr a \<Longrightarrow> projected_tokens render ys = Inr b
   \<Longrightarrow> projected_tokens render (xs @ ys) = Inr (sat_add_u64 a b)"
  using project_append[of xs ys] by (auto simp: projected_tokens_def rjoin_def messages_tokens_append)

lemma sat_add_u64_commute: "sat_add_u64 a b = sat_add_u64 b a" by (simp add: sat_add_u64_def add.commute)

lemma keep_turns_fits:
  assumes "keep_turns render ms target spans spent kept = Inr (Some s)"
    and "chained ms cur spans" "starts_parts (drop cur ms)" "cur \<le> length ms"
    and "projected_tokens render (drop cur ms) = Inr spent" "spent \<le> target"
    and "kept = (if cur = length ms then None else Some cur) \<or> kept = Some cur"
  shows "s \<in> set (map fst spans) \<union> set_option kept \<and> (\<exists>n\<le>target. projected_tokens render (drop s ms) = Inr n)"
  using assms
proof (induction render ms target spans spent kept arbitrary: cur rule: keep_turns.induct)
  case (1 render ms target spent kept)
  then show ?case by (auto split: if_splits)
next
  case (2 render ms target start stop spans spent kept)
  obtain t where t: "projected_tokens render (drop start (take stop ms)) = Inr t"
      "(if sat_add_u64 spent t > target then Inr kept
        else keep_turns render ms target spans (sat_add_u64 spent t) (Some start)) = Inr (Some s)"
    using 2(2) by auto
  have c: "stop = cur" "start \<le> stop" "stop \<le> length ms" "chained ms start spans" using 2(3) by auto
  show ?case
  proof (cases "sat_add_u64 spent t > target")
    case True
    then have "kept = Some s" using t(2) by simp
    then show ?thesis using 2(6,7,8) by (auto split: if_splits)
  next
    case False
    have "drop start ms = drop start (take stop ms) @ drop stop ms"
      using c(2,3) by (metis append_take_drop_id drop_append drop_drop le_add_diff_inverse2 length_take
        min.absorb2 diff_is_0_eq drop_0)
    then have "projected_tokens render (drop start ms) = Inr (sat_add_u64 spent t)"
      using projected_tokens_append[of "drop stop ms" render "drop start (take stop ms)" t spent] 2(4,6) t(1) c(1)
      by (simp add: sat_add_u64_commute)
    then have r: "projected_tokens render (drop start ms) = Inr (sat_add_u64 spent t)" .
    show ?thesis
    proof (cases spans)
      case Nil
      then show ?thesis using t(2) False r by auto
    next
      case (Cons sp spans')
      have sp: "starts_parts (drop start ms)" using c(4) Cons by (cases sp) auto
      show ?thesis
        using 2(1)[OF t(1) False, of start] t(2) False c sp r 2(5) by auto
    qed
  qed
qed

lemma positions_sorted: "sorted (positions P xs)"
  by (auto simp: positions_def sorted_wrt_filter)

lemma positions_in: "i \<in> set (positions P xs) \<longleftrightarrow> i < length xs \<and> P (xs ! i)"
  by (auto simp: positions_def)

lemma retained_starts_ok:
  assumes w: "turns_well_formed ms"
  shows "chained ms (length ms) (turn_spans ms (retained_starts ms))"
    and "i \<in> set (retained_starts ms) \<Longrightarrow> i < length ms \<and> \<not> dropped_from_tail (ms ! i)"
proof -
  have start: "starts_parts (drop e ms)" if "e \<in> set (turn_starts ms)" for e
    using that w by (auto simp: turn_starts_def positions_in turns_well_formed_def list_all_length starts_parts_def hd_drop_conv_nth)
  show "chained ms (length ms) (turn_spans ms (retained_starts ms))"
    unfolding turn_spans_def
  proof (rule chained_turns)
    have s: "sorted (retained_starts ms)" by (auto simp: retained_starts_def turn_starts_def positions_sorted sorted_wrt_take)
    have le: "\<forall>i\<in>set (retained_starts ms). i \<le> length ms"
      by (auto simp: retained_starts_def turn_starts_def positions_in dest!: in_set_takeD)
    show "sorted (retained_starts ms @ [length ms])" using s le by (simp add: sorted_append)
    show "\<forall>e\<in>set (tl (retained_starts ms)) \<union> {length ms}. starts_parts (drop e ms)"
    proof
      fix e assume e: "e \<in> set (tl (retained_starts ms)) \<union> {length ms}"
      show "starts_parts (drop e ms)"
      proof (cases "turn_starts ms = []")
        case True
        then have "tl (retained_starts ms) = []"
          by (cases "positions (\<lambda>m. \<not> dropped_from_tail m) ms") (simp_all add: retained_starts_def)
        then show ?thesis using e by (simp add: starts_parts_def)
      next
        case False
        then have "e \<in> set (turn_starts ms) \<or> e = length ms"
          using e by (auto simp: retained_starts_def dest: list.set_sel(2))
        then show ?thesis using start by (auto simp: starts_parts_def)
      qed
    qed
  qed simp
  show "i \<in> set (retained_starts ms) \<Longrightarrow> i < length ms \<and> \<not> dropped_from_tail (ms ! i)"
    by (auto simp: retained_starts_def turn_starts_def positions_in is_turn_start_def dropped_from_tail_def
        dest!: in_set_takeD split: if_splits)
qed

lemma turn_spans_fst: "map fst (turn_spans ms starts) = rev starts"
  by (cases starts) (auto simp: turn_spans_def rev_map[symmetric])

lemma retained_tail_spec:
  assumes w: "turns_well_formed ms" and r: "retained_tail render ms b = Inr tail" and ne: "tail \<noteq> []"
  shows "\<exists>start n. start \<in> set (retained_starts ms) \<and> tail = kept_in_tail (drop start ms)
    \<and> projected_tokens render (drop start ms) = Inr n \<and> n \<le> hard_limit b"
proof -
  let ?starts = "retained_starts ms"
  obtain first where f: "retained_from render ms b ?starts = Inr (Some first)" "tail = kept_in_tail (drop first ms)" "?starts \<noteq> []"
    using r ne by (auto simp: retained_tail_def split: if_splits list.splits option.splits)
  have "first \<in> set ?starts \<and> (\<exists>n\<le>hard_limit b. projected_tokens render (drop first ms) = Inr n)"
  proof -
    obtain kept where k: "keep_turns render ms (min (soft_limit b) (hard_limit b)) (turn_spans ms ?starts) 0 None = Inr kept"
        "(case kept of Some s \<Rightarrow> Inr (Some s)
          | None \<Rightarrow> rbind (projected_tokens render (drop (last ?starts) ms)) (\<lambda>tokens.
              Inr (if tokens \<le> hard_limit b then Some (last ?starts) else None))) = Inr (Some first)"
      using f(1) unfolding retained_from_def by auto
    show ?thesis
    proof (cases kept)
      case None
      then show ?thesis using k(2) f(3) by (auto split: if_splits)
    next
      case (Some s)
      have "s \<in> set (map fst (turn_spans ms ?starts)) \<union> set_option None
          \<and> (\<exists>n\<le>min (soft_limit b) (hard_limit b). projected_tokens render (drop s ms) = Inr n)"
        by (rule keep_turns_fits[OF k(1)[unfolded Some] retained_starts_ok(1)[OF w]])
           (auto simp: starts_parts_def projected_tokens_def)
      then show ?thesis using k(2) Some by (auto simp: turn_spans_fst simp del: set_map)
    qed
  qed
  then show ?thesis using f(2) by blast
qed

lemma project_nonempty: "project_messages ms = Inr [] \<Longrightarrow> ms = []"
proof (cases ms)
  case (Cons m rest)
  assume a: "project_messages ms = Inr []"
  show ?thesis
    using a by (auto simp: Cons project_tool_round_def Let_def simp del: round_loop.simps
        split: sum.splits option.splits message_content.splits prod.splits if_splits list.splits)
qed simp


section \<open>The compacted input fits\<close>

lemma retention_budget_hard:
  assumes "retention_budget render prepared head after calibration settings = Inr (Some b)"
  shows "\<exists>budget h a. run_budget prepared settings = Some budget
    \<and> projected_tokens render head = Inr h \<and> projected_tokens render after = Inr a
    \<and> hard_limit b \<le> calibrate_budget budget calibration
        - estimate_context_tokens render (pr_prompt prepared) [] - h - a"
  using assms
  by (auto simp: retention_budget_def capped_def Let_def split: option.splits)

lemma replacement_window:
  assumes "replacement render prepared messages summary Window calibration settings = Inr rep"
    and "compaction_partition messages (message_id ` set (pr_initial_messages prepared)) = (compactable, ctx)"
  shows "rep = compaction_head ctx summary @ pr_initial_messages prepared
    \<or> (\<exists>b tail. retention_budget render prepared (compaction_head ctx summary) (pr_initial_messages prepared)
                    calibration settings = Inr (Some b)
        \<and> retained_tail render compactable b = Inr tail \<and> tail \<noteq> []
        \<and> rep = compaction_head ctx summary @ offload_old_tail_images tail @ pr_initial_messages prepared)"
proof -
  have o: "offload_old_tail_images [] = []" by (simp add: offload_old_tail_images_def)
  obtain budget tail where b: "retention_budget render prepared (compaction_head ctx summary) (pr_initial_messages prepared)
        calibration settings = Inr budget"
      "(case budget of Some b \<Rightarrow> retained_tail render compactable b | None \<Rightarrow> Inr []) = Inr tail"
      "rep = compaction_head ctx summary @ offload_old_tail_images tail @ pr_initial_messages prepared"
    using assms by (auto simp: replacement_def Let_def)
  then show ?thesis using o by (cases "tail = []"; cases budget) auto
qed

lemma ends_parts_head: "is_parts summary \<Longrightarrow> ends_parts (compaction_head ctx summary)"
  by (auto simp: compaction_head_def ends_parts_def split: option.splits)

lemma kept_suffix_projects:
  assumes w: "turns_well_formed ms" and t: "projected_tokens render (drop start ms) = Inr n"
  shows "\<exists>ps. project_messages (offload_old_tail_images (kept_in_tail (drop start ms))) = Inr ps
    \<and> estimate_projected_messages_tokens render ps \<le> n"
proof -
  have whole: "rounds_whole (drop start ms)"
    using w rounds_whole_suffix[of "take start ms" "drop start ms"] by (simp add: turns_well_formed_def)
  obtain ps where ps: "project_messages (drop start ms) = Inr ps" "n = estimate_projected_messages_tokens render ps"
    using t by (auto simp: projected_tokens_Inr)
  obtain ks where ks: "project_messages (kept_in_tail (drop start ms)) = Inr ks"
      "estimate_projected_messages_tokens render ks \<le> n"
    using project_kept[OF whole ps(1)] ps(2) by blast
  then show ?thesis using offload_projects[OF ks(1), of render] by (meson order.trans)
qed

text \<open>
  C14: keeping recent turns never makes a compaction fail. What is put between the summary slot and the run's
  own messages is a valid provider history, and with it the compacted input passes the check that follows the
  compaction (\<open>validate_compacted\<close>): its estimate is within the budget, the saturating arithmetic of the
  estimate included.
\<close>
theorem retained_turns_fit_the_budget:
  assumes "replacement render prepared messages summary Window calibration settings = Inr rep"
    and "replacement render prepared messages summary NoRetention calibration settings = Inr bare"
    and "turns_well_formed (fst (compaction_partition messages (message_id ` set (pr_initial_messages prepared))))"
    and "is_parts summary" "starts_parts (pr_initial_messages prepared)"
    and "rep \<noteq> bare"
  shows "\<exists>ps n. project_messages rep = Inr ps
    \<and> validate_compacted render prepared ps calibration settings = Inr n"
proof -
  let ?initial = "pr_initial_messages prepared"
  obtain compactable ctx where p: "compaction_partition messages (message_id ` set ?initial) = (compactable, ctx)"
    by (cases "compaction_partition messages (message_id ` set ?initial)")
  define head where "head = compaction_head ctx summary"
  have "bare = head @ ?initial" using assms(2) p by (simp add: replacement_def head_def)
  then obtain b tail where b: "retention_budget render prepared head ?initial calibration settings = Inr (Some b)"
      "retained_tail render compactable b = Inr tail" "tail \<noteq> []"
      "rep = head @ offload_old_tail_images tail @ ?initial"
    using replacement_window[OF assms(1) p] assms(6) unfolding head_def by blast
  obtain budget h i where lim: "run_budget prepared settings = Some budget"
      "projected_tokens render head = Inr h" "projected_tokens render ?initial = Inr i"
      "hard_limit b \<le> calibrate_budget budget calibration - estimate_context_tokens render (pr_prompt prepared) [] - h - i"
    using retention_budget_hard[OF b(1)] by blast
  have w: "turns_well_formed compactable" using assms(3) p by simp
  obtain start n where tail: "tail = kept_in_tail (drop start compactable)"
      "projected_tokens render (drop start compactable) = Inr n" "n \<le> hard_limit b"
    using retained_tail_spec[OF w b(2,3)] by blast
  obtain ts where ts: "project_messages (offload_old_tail_images tail) = Inr ts"
      "estimate_projected_messages_tokens render ts \<le> n"
    using kept_suffix_projects[OF w tail(2)] tail(1) by blast
  obtain hs ris where hs: "project_messages head = Inr hs" "h = estimate_projected_messages_tokens render hs"
      "project_messages ?initial = Inr ris" "i = estimate_projected_messages_tokens render ris"
    using lim(2,3) by (auto simp: projected_tokens_Inr)
  have rest: "project_messages (offload_old_tail_images tail @ ?initial) = Inr (ts @ ris)"
    using project_append[of "offload_old_tail_images tail" ?initial] assms(5) ts(1) hs(3) by (simp add: rjoin_def)
  have rep: "project_messages rep = Inr (hs @ ts @ ris)"
    using project_append[of head "offload_old_tail_images tail @ ?initial"] ends_parts_head[OF assms(4), of ctx]
      hs(1) rest by (simp add: b(4) rjoin_def head_def)
  have "offload_old_tail_images tail \<noteq> []" using offload_shrinks[of tail] b(3) by auto
  then have "ts \<noteq> []" using project_nonempty ts(1) by blast
  then have pos: "1 \<le> estimate_projected_messages_tokens render ts"
    by (cases ts) (simp_all add: estimate_projected_messages_tokens_def sat_sum_eq estimate_message_tokens_def
        tokens_per_message_overhead_def sat_add_u64_def u64_max_def)
  have "estimate_context_tokens render (pr_prompt prepared) (hs @ ts @ ris) \<le> calibrate_budget budget calibration"
    using lim(4) tail(3) ts(2) pos
    by (simp add: context_tokens_split[of render "pr_prompt prepared" "hs @ ts @ ris"] messages_tokens_append
        flip: hs(2,4)) (auto simp: sat_add_u64_def)
  then show ?thesis using rep lim(1) by (auto simp: validate_compacted_def Let_def)
qed

end
