(* ===== verification/SummaryLaws.thy ===== *)
theory SummaryLaws
  imports CompactionLaws
begin

text \<open>
  The texts of a compaction: the summary slot and the carried handover stay in their bounds, pruned tool results
  fit their limit and the search for their notice ends, and the summary call replays whole turns.
\<close>

section \<open>The summary slot\<close>

lemma search_keep_spec:
  "fits low \<Longrightarrow> low \<le> high \<Longrightarrow> fits (search_keep fits low high) \<and> low \<le> search_keep fits low high \<and> search_keep fits low high \<le> high"
proof (induction fits low high rule: search_keep.induct)
  case (1 fits low high)
  have keep: "low < high \<Longrightarrow> low < div_ceil (low + high) 2 \<and> div_ceil (low + high) 2 \<le> high"
    by (auto simp: div_ceil_def)
  show ?case
  proof (cases "low < high")
    case True
    let ?k = "div_ceil (low + high) 2"
    have u: "search_keep fits low high = (if fits ?k then search_keep fits ?k high else search_keep fits low (?k - 1))"
      by (subst search_keep.simps) (simp add: True Let_def)
    show ?thesis
    proof (cases "fits ?k")
      case True
      then show ?thesis using 1(1)[OF \<open>low < high\<close> refl True True] keep[OF \<open>low < high\<close>] u by simp
    next
      case False
      then have "low \<le> ?k - 1" using keep[OF \<open>low < high\<close>] by linarith
      then show ?thesis using 1(2)[OF \<open>low < high\<close> refl False 1(3)] keep[OF \<open>low < high\<close>] u False by auto
    qed
  next
    case False
    then have "search_keep fits low high = low" by (subst search_keep.simps) simp
    then show ?thesis using 1(3,4) by simp
  qed
qed

text \<open>
  C22: the summary slot is cut to its token budget. Whenever the notice that announces the cut fits the budget
  by itself, so does the slot that \<open>fit_summary_slot_to_tokens\<close> makes of any summary.
\<close>
theorem summary_slot_fits:
  assumes "trim_text summary \<noteq> []" "summary_slot_tokens render (bounded_summary_tail summary 0) \<le> max_tokens"
  shows "summary_slot_tokens render (fit_summary_slot_to_tokens render summary max_tokens) \<le> max_tokens"
  using assms search_keep_spec[of "\<lambda>keep. summary_slot_tokens render (bounded_summary_tail summary keep) \<le> max_tokens"
      0 "length (chars summary)"]
  by (auto simp: fit_summary_slot_to_tokens_def)

lemma chars_drop: "n > 0 \<Longrightarrow> chars (concat (drop n (chars s))) = drop n (chars s)"
proof (induction s arbitrary: n rule: chars.induct)
  case (2 b bs)
  then show ?case by (cases n; cases "n - 1") auto
qed simp

lemma chars_append_length: "length (chars (a @ b)) \<le> length (chars a) + length (chars b)"
proof (induction a rule: chars.induct)
  case (2 c cs)
  show ?case
  proof (cases "dropWhile is_continuation cs")
    case (Cons d ds)
    then have "dropWhile is_continuation (cs @ b) = dropWhile is_continuation cs @ b"
      by (metis dropWhile_append1 dropWhile_eq_Nil_conv list.distinct(1))
    then show ?thesis using 2 by simp
  next
    case Nil
    then have "dropWhile is_continuation (cs @ b) = dropWhile is_continuation b" by (simp add: dropWhile_append)
    moreover have "length (chars (dropWhile is_continuation b)) \<le> length (chars b)" by (cases b) auto
    ultimately show ?thesis using Nil by simp
  qed
qed simp


section \<open>The carried handover\<close>

lemma show_nat_length: "n < 10 ^ k \<Longrightarrow> 0 < k \<Longrightarrow> length (show_nat n) \<le> k"
proof (induction n arbitrary: k rule: show_nat.induct)
  case (1 n)
  show ?case
  proof (cases "n < 10")
    case False
    then obtain j where k: "k = Suc j" "0 < j" using 1(2,3) by (cases k; cases "k - 1") auto
    then have "n div 10 < 10 ^ j" using 1(2) by (simp add: less_mult_imp_div_less mult.commute)
    then show ?thesis using 1(1)[OF False, of j] k False by (subst show_nat.simps) simp
  qed (use 1 in \<open>subst show_nat.simps, simp\<close>)
qed

lemma chars_append: "\<not> is_continuation c \<Longrightarrow> chars (a @ c # b) = chars a @ chars (c # b)"
proof (induction a rule: chars.induct)
  case (2 d ds)
  show ?case
  proof (cases "dropWhile is_continuation ds")
    case Nil
    then have t: "takeWhile is_continuation ds = ds" by (metis Nil dropWhile_eq_Nil_conv takeWhile_eq_all_conv)
    have "takeWhile is_continuation (ds @ c # b) = ds" "dropWhile is_continuation (ds @ c # b) = c # b"
      using 2(2) Nil t by (simp_all add: takeWhile_append dropWhile_append)
    note t = t this
    show ?thesis by (simp only: append_Cons chars.simps t Nil append_Nil)
  next
    case (Cons e es)
    then obtain x where x: "x \<in> set ds" "\<not> is_continuation x"
      by (metis dropWhile_eq_Nil_conv list.distinct(1))
    then have "takeWhile is_continuation (ds @ c # b) = takeWhile is_continuation ds"
        "dropWhile is_continuation (ds @ c # b) = dropWhile is_continuation ds @ c # b"
      using x takeWhile_append1[of x ds is_continuation] dropWhile_append1[of x ds is_continuation] by simp_all
    then show ?thesis using 2 by (simp del: chars.simps(2) add: chars.simps(2)[of d])
  qed
qed simp

lemma carried_notice_length: "n < 2 ^ 64 \<Longrightarrow> length (chars (carried_notice n)) \<le> 300"
proof -
  assume "n < 2 ^ 64"
  then have "length (show_nat n) \<le> 20" by (intro show_nat_length) simp_all
  moreover have "length (show_nat carried_summary_limit_chars) \<le> 5"
    by (intro show_nat_length) (simp_all add: carried_summary_limit_chars_def)
  ultimately have "length (carried_notice n) \<le> 300" by (simp add: carried_notice_def nl_def)
  then show ?thesis using chars_length[of "carried_notice n"] by simp
qed

lemma bound_carried_short: "length (chars s) < 2 ^ 64 \<Longrightarrow> length (chars (bound_carried_summary s)) \<le> carried_summary_limit_chars"
proof (cases "length (chars s) \<le> carried_summary_limit_chars")
  case False
  assume s: "length (chars s) < 2 ^ 64"
  let ?total = "length (chars s)"
  let ?notice = "carried_notice (?total - carried_summary_limit_chars)"
  let ?skip = "?total - (carried_summary_limit_chars - length (chars ?notice))"
  have n: "length (chars ?notice) \<le> 300" using s by (intro carried_notice_length) simp
  then have "0 < ?skip" using False by (simp add: carried_summary_limit_chars_def)
  then have "length (chars (skip_chars ?skip s)) = ?total - ?skip" using chars_drop[of ?skip s] by (simp add: skip_chars_def)
  then show ?thesis
    using False n chars_append_length[of ?notice "skip_chars ?skip s"]
    by (simp add: bound_carried_summary_def Let_def carried_summary_limit_chars_def)
qed (simp add: bound_carried_summary_def)

lemma bound_carried_newest:
  assumes "length (a @ CHR ''#'' # b) < 2 ^ 64" "length (chars (CHR ''#'' # b)) \<le> 63000"
  defines "s \<equiv> a @ CHR ''#'' # b"
  shows "suffix (CHR ''#'' # b) (bound_carried_summary s)"
proof (cases "length (chars s) \<le> carried_summary_limit_chars")
  case False
  let ?total = "length (chars s)"
  let ?notice = "carried_notice (?total - carried_summary_limit_chars)"
  let ?skip = "?total - (carried_summary_limit_chars - length (chars ?notice))"
  have "?total < 2 ^ 64" using chars_length[of s] assms(1) by (simp add: s_def)
  then have n: "length (chars ?notice) \<le> 300" by (intro carried_notice_length) simp
  have parts: "chars s = chars a @ chars (CHR ''#'' # b)"
    unfolding s_def by (rule chars_append) (simp add: is_continuation_def)
  have "?skip \<le> length (chars a)"
    using False n assms(2) by (simp add: parts carried_summary_limit_chars_def del: chars.simps)
  then have "skip_chars ?skip s = concat (drop ?skip (chars a)) @ CHR ''#'' # b"
    by (simp add: skip_chars_def parts del: chars.simps)
  then show ?thesis using False by (simp add: bound_carried_summary_def Let_def suffix_def)
qed (simp add: bound_carried_summary_def s_def suffix_def)

lemma trim_text_length: "length (trim_text x) \<le> length x"
proof -
  have d: "length (concat (dropWhile white cs)) \<le> length (concat cs)" for cs by (induction cs) auto
  then have "length (concat (rev (dropWhile white (rev cs)))) \<le> length (concat cs)" for cs
    by (metis (no_types, lifting) length_concat rev_map sum_list_rev rev_rev_ident)
  then show ?thesis unfolding trim_text_def trim_chars_def by (metis chars_concat d order.trans)
qed

lemma current_section_length: "length (chars (current_section x)) \<le> length (chars x) + 2000"
proof -
  have "length (chars (y @ x)) \<le> length y + length (chars x)" for y
    using chars_append_length[of y x] chars_length[of y] by linarith
  from this[of "''## Current Compacted Context (Authoritative)'' @ nl
     @ ''This newest section supersedes earlier status and next-action entries.'' @ nl"]
  show ?thesis by (simp add: current_section_def nl_def del: chars.simps)
qed

text \<open>
  C23: what a compaction carries on. Without an earlier summary, or with an empty or equal one, the trimmed current
  summary is carried as it is. Appended to a different earlier one, the two together take at most 64000 characters; and
  if the current summary alone is at most 60000 characters long, the result ends with its complete section, so
  that only older text is cut. (A longer current section is cut itself.) Texts are shorter than 2^64 bytes.
\<close>
theorem carried_summary_keeps_the_newest:
  assumes "length current + (case previous of None \<Rightarrow> 0 | Some p \<Rightarrow> length p) + 1000 < 2 ^ 64"
  shows "case previous of
      None \<Rightarrow> carry_forward_summary previous current = trim_text current
    | Some p \<Rightarrow>
        if trim_text p \<in> {[], trim_text current} then carry_forward_summary previous current = trim_text current
        else length (chars (carry_forward_summary previous current)) \<le> 64000
          \<and> (length (chars (trim_text current)) \<le> 60000 \<longrightarrow>
               suffix (current_section (trim_text current)) (carry_forward_summary previous current))"
proof (cases previous)
  case (Some p)
  let ?a = "earlier_section (trim_text p) @ nl @ nl"
  obtain b where b: "current_section (trim_text current) = CHR ''#'' # b" by (simp add: current_section_def)
  have l: "length (?a @ current_section (trim_text current)) < 2 ^ 64"
    using trim_text_length[of p] trim_text_length[of current] assms Some
    by (simp add: earlier_section_def current_section_def nl_def)
  then have c: "length (chars (?a @ current_section (trim_text current))) < 2 ^ 64"
    using chars_length[of "?a @ current_section (trim_text current)"] by linarith
  show ?thesis
    using bound_carried_short[OF c] bound_carried_newest[OF l[unfolded b]] current_section_length[of "trim_text current"] Some
    by (auto simp: carry_forward_summary_def Let_def b carried_summary_limit_chars_def simp del: chars.simps)
qed (simp add: carry_forward_summary_def)


section \<open>Pruned tool results\<close>

text \<open>UTF-8 never has more than three continuation bytes in a row.\<close>

definition well_encoded :: "string \<Rightarrow> bool" where
  "well_encoded s \<longleftrightarrow>
     list_all (\<lambda>i. \<not> (is_continuation (s ! i) \<and> is_continuation (s ! (i + 1)) \<and> is_continuation (s ! (i + 2))
                       \<and> is_continuation (s ! (i + 3)))) [0..<length s - 3]"

lemma well_encodedD:
  "well_encoded s \<Longrightarrow> i + 3 < length s \<Longrightarrow> \<exists>j. i \<le> j \<and> j \<le> i + 3 \<and> char_boundary s j"
proof -
  assume w: "well_encoded s" and i: "i + 3 < length s"
  have "\<not> (is_continuation (s ! i) \<and> is_continuation (s ! (i + 1)) \<and> is_continuation (s ! (i + 2)) \<and> is_continuation (s ! (i + 3)))"
    using w i by (simp add: well_encoded_def list_all_iff)
  then consider "\<not> is_continuation (s ! i)" | "\<not> is_continuation (s ! (i + 1))" | "\<not> is_continuation (s ! (i + 2))"
    | "\<not> is_continuation (s ! (i + 3))" by blast
  then show ?thesis using i
    by cases (auto simp: char_boundary_def intro: exI[of _ i] exI[of _ "i + 1"] exI[of _ "i + 2"] exI[of _ "i + 3"])
qed

lemma boundary_above_min: "char_boundary s m \<Longrightarrow> i \<le> m \<Longrightarrow> boundary_above s i \<le> m"
proof (induction s i rule: boundary_above.induct)
  case (1 s i)
  show ?case
  proof (cases "i < length s \<and> \<not> char_boundary s i")
    case True
    then have "boundary_above s i = boundary_above s (Suc i)" by (subst boundary_above.simps) simp
    moreover have "Suc i \<le> m" using True 1(2,3) by (cases "i = m") auto
    ultimately show ?thesis using 1(1)[OF True 1(2)] by simp
  next
    case False
    then have "boundary_above s i = i" by (subst boundary_above.simps) auto
    then show ?thesis using 1(3) by simp
  qed
qed

lemma utf8_suffix_nearly: "well_encoded s \<Longrightarrow> n \<le> length s \<Longrightarrow> n - 3 \<le> length (utf8_suffix s n)"
proof -
  assume w: "well_encoded s" and n: "n \<le> length s"
  have "\<exists>j. length s - n \<le> j \<and> j \<le> length s - n + 3 \<and> char_boundary s j"
  proof (cases "length s - n + 3 < length s")
    case True
    then show ?thesis using well_encodedD[OF w True] by blast
  next
    case False
    then show ?thesis by (auto simp: char_boundary_def intro!: exI[of _ "length s"])
  qed
  then obtain j where j: "length s - n \<le> j" "j \<le> length s - n + 3" "char_boundary s j" by blast
  then have "boundary_above s (length s - n) \<le> length s - n + 3" using boundary_above_min[of s j "length s - n"] by simp
  then show ?thesis using n by (simp add: utf8_suffix_def)
qed

lemma show_nat_4: "1000 \<le> n \<Longrightarrow> n < 10000 \<Longrightarrow> length (show_nat n) = 4"
proof -
  assume n: "1000 \<le> n" "n < 10000"
  have r: "length (show_nat m) = Suc (length (show_nat (m div 10)))" if "10 \<le> m" for m
    using that by (simp add: show_nat.simps[of m])
  have "n div 10 div 10 div 10 < 10" "10 \<le> n div 10 div 10" "10 \<le> n div 10" using n by (auto simp: less_mult_imp_div_less)
  then show "length (show_nat n) = 4"
    using n r[of n] r[of "n div 10"] r[of "n div 10 div 10"] show_nat.simps[of "n div 10 div 10 div 10"] by simp
qed

lemma pruned_notice_length:
  "length (pruned_notice tool shown original) = 60 + length tool + length (show_nat shown) + length (show_nat original)"
  by (simp add: pruned_notice_def nl_def)

lemma shown_ends_length:
  assumes "well_encoded s" "n \<le> length s" "shown_ends s n = (head, tail)"
  shows "length head + length tail \<le> n" "n - 3 \<le> length head + length tail"
    "prefix head s" "suffix tail s"
proof -
  have h: "head = utf8_prefix s (n div 2)" "tail = utf8_suffix s (n - length head)"
    using assms(3) by (auto simp: shown_ends_def Let_def)
  have l: "length head \<le> n div 2" using h(1) utf8_prefix_length by simp
  show "length head + length tail \<le> n" using l utf8_suffix_length[of s "n - length head"] h(2) by simp
  show "n - 3 \<le> length head + length tail"
    using utf8_suffix_nearly[OF assms(1), of "n - length head"] assms(2) l unfolding h(2) by linarith
  show "prefix head s" "suffix tail s" by (simp_all add: h utf8_prefix_def utf8_suffix_def take_is_prefix suffix_drop)
qed




text \<open>
  Pruning an old tool result ends and fits. For a tool name of at most 7000 bytes the search for a notice
  that states its own size ends after at most two rounds, and what is replayed of the result is at most 8192
  bytes: the result itself, or its beginning, the notice with the exact number of bytes shown, and its end.
\<close>
theorem pruned_result_ends:
  assumes "well_encoded content" "length content < 10 ^ 20" "length tool \<le> 7000"
  shows "\<exists>r. truncate_middle content summary_tool_result_limit tool = Some r \<and> length r \<le> summary_tool_result_limit
    \<and> (r = content \<or> (\<exists>head tail. r = head @ pruned_notice tool (length head + length tail) (length content) @ tail
         \<and> prefix head content \<and> suffix tail content \<and> length head + length tail < length content))"
proof (cases "length content \<le> summary_tool_result_limit")
  case True
  then show ?thesis by (simp add: truncate_middle_def)
next
  case False
  let ?avail = "\<lambda>shown. summary_tool_result_limit - length (pruned_notice tool shown (length content))"
  have d: "length (show_nat (length content)) \<le> 20" using assms(2) by (intro show_nat_length) simp_all
  have avail: "?avail shown = ?avail 8192" "1003 \<le> ?avail shown" "?avail shown < 8192"
      "length (pruned_notice tool shown (length content)) + ?avail shown = 8192"
    if "1000 \<le> shown" "shown < 10000" for shown
    using d assms(3) show_nat_4[OF that] show_nat_4[of 8192]
    by (simp_all add: pruned_notice_length summary_tool_result_limit_def  )
  obtain head tail where e: "shown_ends content (?avail 8192) = (head, tail)" by (cases "shown_ends content (?avail 8192)")
  define shown where "shown = length head + length tail"
  have le: "?avail 8192 \<le> length content"
    using False avail(3)[of 8192] by (simp add: summary_tool_result_limit_def)
  have s: "shown \<le> ?avail 8192" "?avail 8192 - 3 \<le> shown" "prefix head content" "suffix tail content"
    using shown_ends_length[OF assms(1) le e] by (simp_all add: shown_def)
  have r: "1000 \<le> shown" "shown < 8192" using s(1,2) avail(2,3)[of 8192] by simp_all
  have e2: "shown_ends content (?avail shown) = (head, tail)" using avail(1)[of shown] r e by simp
  have last: "truncate_loop content summary_tool_result_limit tool shown = Some (head @ pruned_notice tool shown (length content) @ tail)"
    by (subst truncate_loop.simps) (simp add: e2 shown_def[symmetric] Let_def)
  have "truncate_loop content summary_tool_result_limit tool 8192 = truncate_loop content summary_tool_result_limit tool shown"
    by (subst truncate_loop.simps) (use r in \<open>simp add: e shown_def[symmetric] Let_def\<close>)
  then have t: "truncate_middle content summary_tool_result_limit tool = Some (head @ pruned_notice tool shown (length content) @ tail)"
    using False last by (simp add: truncate_middle_def) (simp add: summary_tool_result_limit_def)
  have "length (head @ pruned_notice tool shown (length content) @ tail) \<le> summary_tool_result_limit"
    using avail(1,4)[of shown] r s(1) by (simp add: summary_tool_result_limit_def) (simp add: shown_def)
  moreover have "shown < length content" using r(2) False by (simp add: summary_tool_result_limit_def)
  ultimately show ?thesis using t s(3,4) by (auto simp: shown_def)
qed


lemma pruned_result_ends_witness:
  "\<exists>r. truncate_middle (replicate 9000 CHR ''x'') summary_tool_result_limit ''read'' = Some r
    \<and> length r \<le> summary_tool_result_limit"
proof -
  have "well_encoded (replicate 9000 CHR ''x'')"
    by (simp add: well_encoded_def list_all_iff is_continuation_def del: upt_rec_numeral)
  then show ?thesis using pruned_result_ends[of "replicate 9000 CHR ''x''" "''read''"] by auto
qed

text \<open>Every position of an ASCII text is a boundary.\<close>

lemma plain_ends:
  assumes "list_all (\<lambda>c. \<not> is_continuation c) s"
  shows "utf8_prefix s n = take n s" "utf8_suffix s n = drop (length s - n) s"
proof -
  have b: "char_boundary s i" if "i \<le> length s" for i using that assms by (auto simp: char_boundary_def list_all_length)
  have "i \<le> length s \<Longrightarrow> boundary_below s i = i" for i by (cases i) (auto simp: b)
  then show "utf8_prefix s n = take n s" by (simp add: utf8_prefix_def min_def)
  show "utf8_suffix s n = drop (length s - n) s" by (simp add: utf8_suffix_def b boundary_above.simps)
qed

text \<open>
  Without the bound on the name the search need not end: for this name of 7125 bytes the notice that says 999
  bytes leaves room for 1000, and the one that says 1000 leaves room for 999.
\<close>

lemma prune_may_spin:
  "truncate_middle (replicate 9000 CHR ''x'') summary_tool_result_limit (replicate 7125 CHR ''t'') = None"
proof -
  let ?content = "replicate 9000 CHR ''x''" and ?tool = "replicate 7125 CHR ''t''"
  have plain: "list_all (\<lambda>c. \<not> is_continuation c) ?content" by (simp add: list_all_iff is_continuation_def)
  have ends: "length h + length t = n" if "shown_ends ?content n = (h, t)" "n \<le> 9000" for n h t
    using that by (auto simp: shown_ends_def Let_def plain_ends[OF plain])
  have d3: "length (show_nat 999) = 3" by (simp add: show_nat.simps)
  have room: "summary_tool_result_limit - length (pruned_notice ?tool 999 9000) = 1000"
      "summary_tool_result_limit - length (pruned_notice ?tool 1000 9000) = 999"
      "summary_tool_result_limit - length (pruned_notice ?tool 8192 9000) = 999"
    using show_nat_4[of 9000] show_nat_4[of 1000] show_nat_4[of 8192] d3
    by (simp_all add: pruned_notice_length summary_tool_result_limit_def)
  let ?P = "\<lambda>content limit tool shown (r::string). content = ?content \<longrightarrow> limit = summary_tool_result_limit
      \<longrightarrow> tool = ?tool \<longrightarrow> shown \<notin> {999, 1000, 8192::nat}"
  have "?P content limit tool shown r" if loop: "truncate_loop content limit tool shown = Some r" for content limit tool shown r
  proof (rule truncate_loop.raw_induct[where P = ?P, OF _ loop], intro impI notI)
    fix f content limit tool shown r
    assume ih: "\<And>content limit tool shown r. f content limit tool shown = Some r \<Longrightarrow> ?P content limit tool shown r"
      and body: "(let notice = pruned_notice tool shown (length content); (h, t) = shown_ends content (limit - length notice);
          next_shown = length h + length t
        in if next_shown = shown then Some (h @ notice @ t) else f content limit tool next_shown) = Some r"
      and a: "content = ?content" "limit = summary_tool_result_limit" "tool = ?tool" "shown \<in> {999, 1000, 8192}"
    let ?avail = "limit - length (pruned_notice tool shown (length content))"
    obtain h t where ht: "shown_ends content ?avail = (h, t)" by (cases "shown_ends content ?avail")
    have avail: "?avail = (if shown = 999 then 1000 else 999)" using a room by auto
    then have n: "length h + length t = (if shown = 999 then 1000 else 999)"
      using ends[of ?avail h t] ht a(1) by auto
    then have next_round: "f content limit tool (length h + length t) = Some r"
      using body ht by (auto simp: Let_def split: if_splits)
    have "length h + length t \<notin> {999, 1000, 8192}" using ih[OF next_round] a(1-3) by blast
    then show False using n by (simp split: if_splits)
  qed
  then have "truncate_loop ?content summary_tool_result_limit ?tool 8192 \<noteq> Some r" for r by blast
  then have "truncate_loop ?content summary_tool_result_limit ?tool 8192 = None" by (metis option.exhaust)
  then show ?thesis by (simp add: truncate_middle_def summary_tool_result_limit_def)
qed

section \<open>What the summary call replays\<close>

lemma oldest_fitting_spec:
  assumes "sorted_wrt (\<lambda>a b. b < a) js" "\<And>i j. i \<le> j \<Longrightarrow> cost j \<le> cost i"
  shows "oldest_fitting cost b js kept =
    (if filter (\<lambda>i. cost i \<le> b) js = [] then kept else Some (last (filter (\<lambda>i. cost i \<le> b) js)))"
  using assms(1)
proof (induction js arbitrary: kept)
  case (Cons j js)
  show ?case
  proof (cases "cost j \<le> b")
    case True
    then show ?thesis using Cons by simp
  next
    case False
    have "\<not> cost i \<le> b" if "i \<in> set js" for i
    proof -
      have "cost j \<le> cost i" using that Cons.prems by (intro assms(2)) auto
      then show ?thesis using False by simp
    qed
    then have "filter (\<lambda>i. cost i \<le> b) js = []" by (auto simp: filter_empty_conv)
    then show ?thesis using False by simp
  qed
qed simp

lemma suffix_tokens: "i \<le> j \<Longrightarrow> estimate_projected_messages_tokens render (drop j h) \<le> estimate_projected_messages_tokens render (drop i h)"
proof -
  assume "i \<le> j"
  then have "drop i h = take (j - i) (drop i h) @ drop j h"
    by (metis append_take_drop_id drop_drop le_add_diff_inverse2)
  then have "estimate_projected_messages_tokens render (drop i h)
      = sat_add_u64 (estimate_projected_messages_tokens render (take (j - i) (drop i h))) (estimate_projected_messages_tokens render (drop j h))"
    using messages_tokens_append by metis
  then show ?thesis using messages_tokens_le[of render "drop j h"] by (simp add: sat_add_u64_def)
qed

lemma turn_boundaries_facts:
  "sorted_wrt (<) (turn_boundaries h)"
  "i \<in> set (turn_boundaries h) \<longleftrightarrow> i < length h \<and> is_turn_boundary (h ! i)"
  by (auto simp: turn_boundaries_def sorted_wrt_filter)

lemma cut_to_turns_spec:
  fixes render :: "json \<Rightarrow> string"
  defines "cost \<equiv> \<lambda>h i. estimate_projected_messages_tokens render (drop i h)"
  assumes b: "turn_boundaries h \<noteq> []"
  shows "\<exists>i\<in>set (turn_boundaries h). cut_to_turns render budget h = drop i h
    \<and> (cost h i \<le> budget \<and> (\<forall>j\<in>set (turn_boundaries h). cost h j \<le> budget \<longrightarrow> i \<le> j)
       \<or> i = Max (set (turn_boundaries h)) \<and> (\<forall>j\<in>set (turn_boundaries h). cost h j > budget))"
proof -
  let ?bs = "turn_boundaries h"
  let ?fit = "filter (\<lambda>i. cost h i \<le> budget) (rev ?bs)"
  have sorted: "sorted_wrt (\<lambda>a b. b < a) (rev ?bs)"
    using turn_boundaries_facts(1)[of h] by (simp add: sorted_wrt_rev)
  have o: "oldest_fitting (cost h) budget (rev ?bs) None = (if ?fit = [] then None else Some (last ?fit))"
    by (rule oldest_fitting_spec[OF sorted]) (simp add: cost_def suffix_tokens)
  show ?thesis
  proof (cases "?fit = []")
    case True
    obtain i rest where r: "rev ?bs = i # rest" using b by (cases "rev ?bs") auto
    have "i \<in> set ?bs" using r by (metis list.set_intros(1) set_rev)
    moreover have "i = Max (set ?bs)"
    proof (rule Max_eqI[symmetric])
      show "j \<le> i" if "j \<in> set ?bs" for j
      proof -
        have "j \<in> set (i # rest)" using that r by (metis set_rev)
        then show ?thesis using sorted r by auto
      qed
    qed (simp_all add: \<open>i \<in> set ?bs\<close>)
    moreover have "\<forall>j\<in>set ?bs. cost h j > budget" using True by (auto simp: filter_empty_conv)
    moreover have "cut_to_turns render budget h = drop i h"
      using o True r by (simp add: cut_to_turns_def cost_def[abs_def])
    ultimately show ?thesis by blast
  next
    case False
    let ?i = "last ?fit"
    have i: "?i \<in> set ?fit" using False by (rule last_in_set)
    have "\<forall>j\<in>set ?fit. ?i \<le> j"
    proof -
      have "sorted_wrt (\<lambda>a b. b < a) ?fit" using sorted by (rule sorted_wrt_filter)
      moreover have "?fit = butlast ?fit @ [?i]" using False by simp
      ultimately have "\<forall>j\<in>set (butlast ?fit). ?i < j" by (metis list.set_intros(1) sorted_wrt_append)
      then show ?thesis using \<open>?fit = butlast ?fit @ [?i]\<close>
        by (metis Un_iff empty_iff insert_iff less_imp_le list.set(1) list.set(2) order_refl set_append)
    qed
    then have "\<forall>j\<in>set ?bs. cost h j \<le> budget \<longrightarrow> ?i \<le> j" by simp
    moreover have "cut_to_turns render budget h = drop ?i h"
      using o False by (simp add: cut_to_turns_def cost_def[abs_def])
    ultimately show ?thesis using i by auto
  qed
qed

text \<open>
  The summary call sees whole turns. An over-budget history is pruned and then cut so that it begins at a
  user turn, keeping every turn that fits: the rest from any earlier turn is too large. When not even the newest
  turn fits, the newest turn is sent; a history with a turn is never replayed empty.
\<close>
theorem summary_replay_keeps_whole_turns:
  assumes "estimate_projected_messages_tokens render history > budget"
    and "prune_replayed_tool_results history = Some pruned"
    and "estimate_projected_messages_tokens render pruned > budget"
    and "turn_boundaries pruned \<noteq> []"
  shows "\<exists>i\<in>set (turn_boundaries pruned).
    trim_to_context render history (Some budget) = Some (drop i pruned) \<and> is_turn_boundary (hd (drop i pruned))
    \<and> (estimate_projected_messages_tokens render (drop i pruned) \<le> budget
         \<and> (\<forall>j\<in>set (turn_boundaries pruned). j < i \<longrightarrow> estimate_projected_messages_tokens render (drop j pruned) > budget)
       \<or> i = Max (set (turn_boundaries pruned))
         \<and> (\<forall>j\<in>set (turn_boundaries pruned). estimate_projected_messages_tokens render (drop j pruned) > budget))"
proof -
  obtain i where i: "i \<in> set (turn_boundaries pruned)" "cut_to_turns render budget pruned = drop i pruned"
    "estimate_projected_messages_tokens render (drop i pruned) \<le> budget
         \<and> (\<forall>j\<in>set (turn_boundaries pruned). estimate_projected_messages_tokens render (drop j pruned) \<le> budget \<longrightarrow> i \<le> j)
       \<or> i = Max (set (turn_boundaries pruned))
         \<and> (\<forall>j\<in>set (turn_boundaries pruned). estimate_projected_messages_tokens render (drop j pruned) > budget)"
    using cut_to_turns_spec[OF assms(4), of render budget] by blast
  have "is_turn_boundary (hd (drop i pruned))" using i(1) by (simp add: turn_boundaries_facts(2) hd_drop_conv_nth)
  moreover have "trim_to_context render history (Some budget) = Some (drop i pruned)"
    using assms(1-3) i(2) by (simp add: trim_to_context_def)
  moreover have "estimate_projected_messages_tokens render (drop i pruned) \<le> budget
         \<and> (\<forall>j\<in>set (turn_boundaries pruned). j < i \<longrightarrow> estimate_projected_messages_tokens render (drop j pruned) > budget)
       \<or> i = Max (set (turn_boundaries pruned))
         \<and> (\<forall>j\<in>set (turn_boundaries pruned). estimate_projected_messages_tokens render (drop j pruned) > budget)"
    using i(3) by (meson not_le)
  ultimately show ?thesis using i(1) by blast
qed


text \<open>
  When the summary prompt alone uses up the room of the window there is no budget, and the history is replayed
  as it is, however long.
\<close>

lemma spent_budget_replays_everything:
  assumes "calibrate_budget (context_budget_with window (reserve_percent settings)) (si_calibration input) \<le> si_prompt_tokens input"
    and "si_context_window input = Some window" "window > 0" "si_output_tokens input = 0"
  shows "trim_to_context render history (summary_input_budget input settings percent) = Some history"
  using assms by (simp add: summary_input_budget_def trim_to_context_def sat_mul_u64_def)

text \<open>When no cut of a summary fits, all of it is dropped, its newest section included; only the notice stays.\<close>

lemma newest_section_may_be_dropped:
  assumes "trim_text summary \<noteq> []" "summary_slot_tokens render summary > max_tokens"
    and "\<forall>keep. summary_slot_tokens render (bounded_summary_tail summary keep) > max_tokens"
  shows "fit_summary_slot_to_tokens render summary max_tokens = bounded_summary_tail summary 0"
proof -
  have "search_keep (\<lambda>keep. False) 0 n = 0" for n
  proof (induction n rule: less_induct)
    case (less n)
    then show ?case by (subst search_keep.simps) (simp add: Let_def div_ceil_def)
  qed
  moreover have "(\<lambda>keep. summary_slot_tokens render (bounded_summary_tail summary keep) \<le> max_tokens) = (\<lambda>keep. False)"
    using assms(3) by (auto simp: fun_eq_iff not_le)
  ultimately show ?thesis using assms(1,2) by (simp add: fit_summary_slot_to_tokens_def)
qed

end
