(* ===== verification/TokenLaws.thy ===== *)
theory TokenLaws
  imports TokenCount
begin

text \<open>
  The estimate of plain (ASCII) texts, and the round trip of configured token counts.
\<close>

section \<open>Plain texts\<close>

definition plain_text :: "string \<Rightarrow> bool" where
  "plain_text s \<longleftrightarrow>
     list_all (\<lambda>c. (of_char c :: nat) < 128) s \<and> s \<noteq> []
     \<and> \<not> is_whitespace (of_char (hd s)) \<and> \<not> is_whitespace (of_char (last s))"

lemma plain_chars: "plain_text s \<Longrightarrow> chars s = map (\<lambda>c. [c]) s"
  by (rule chars_plain) (auto simp: plain_text_def list_all_iff is_continuation_def)

lemma plain_trim_chars: "plain_text s \<Longrightarrow> trim_chars (chars s) = map (\<lambda>c. [c]) s"
proof -
  assume p: "plain_text s"
  have edge: "dropWhile white (map (\<lambda>c. [c]) t) = map (\<lambda>c. [c]) t" if "t \<noteq> []" "\<not> is_whitespace (of_char (hd t))" for t
    using that by (cases t) (simp_all add: white_def code_of_def)
  have "dropWhile white (map (\<lambda>c. [c]) (rev s)) = map (\<lambda>c. [c]) (rev s)"
    using p by (intro edge) (simp_all add: plain_text_def hd_rev)
  moreover have "dropWhile white (map (\<lambda>c. [c]) s) = map (\<lambda>c. [c]) s"
    using p by (intro edge) (simp_all add: plain_text_def)
  ultimately show ?thesis by (simp add: trim_chars_def plain_chars[OF p] rev_map)
qed

lemma plain_trim: "plain_text s \<Longrightarrow> trim_text s = s"
proof -
  assume "plain_text s"
  then have "trim_text s = concat (map (\<lambda>c. [c]) s)" by (simp only: trim_text_def plain_trim_chars)
  also have "\<dots> = s" by (induction s) simp_all
  finally show ?thesis .
qed

lemma plain_tokens:
  assumes p: "plain_text s" and l: "length s \<le> 2 ^ 60"
  shows "estimate_text_tokens s = max 1 ((length s + 3) div 4 + length (filter (\<lambda>c. (of_char c :: nat) = 10) s))"
proof -
  have codes: "map code_of (trim_chars (chars s)) = map of_char s"
    by (simp add: plain_trim_chars[OF p] code_of_def)
  have low: "\<forall>c\<in>set s. (of_char c :: nat) < 128" using p by (simp add: plain_text_def list_all_iff)
  have f: "filter (\<lambda>c. c < 128) (map (of_char :: char \<Rightarrow> nat) s) = map of_char s"
    "filter (\<lambda>c. \<not> c < 128 \<and> is_cjk c) (map (of_char :: char \<Rightarrow> nat) s) = []"
    "filter (\<lambda>c. \<not> c < 128 \<and> \<not> is_cjk c) (map (of_char :: char \<Rightarrow> nat) s) = []"
    "length (filter (\<lambda>c. c = 10) (map (of_char :: char \<Rightarrow> nat) s)) = length (filter (\<lambda>c. (of_char c :: nat) = 10) s)"
    using low by (simp_all add: filter_map filter_id_conv filter_empty_conv comp_def) 
  have n: "length (filter (\<lambda>c. (of_char c :: nat) = 10) s) \<le> length s" by simp
  have "(length s + 3) div 4 + length (filter (\<lambda>c. (of_char c :: nat) = 10) s) \<le> length s + 3 + length s"
    by (intro add_mono n div_le_dividend)
  also have "\<dots> \<le> u64_max" using l by (simp add: u64_max_def)
  finally have m: "min ((length s + 3) div 4 + length (filter (\<lambda>c. (of_char c :: nat) = 10) s)) u64_max
      = (length s + 3) div 4 + length (filter (\<lambda>c. (of_char c :: nat) = 10) s)" by (rule min.absorb1)
  have "s \<noteq> []" using p by (simp add: plain_text_def)
  then show ?thesis
    using m
    by (simp add: estimate_text_tokens_def codes f Let_def div_ceil_def sat_add_u64_def comp_def add.commute)
qed

section \<open>Configured counts\<close>

lemma show_nat_digits: "list_all is_ascii_digit (show_nat n) \<and> show_nat n \<noteq> [] \<and> digits_value (show_nat n) = n"
proof (induction n rule: show_nat.induct)
  case (1 n)
  have d: "is_ascii_digit (char_of (48 + k))" "digit_value (char_of (48 + k)) = k" if "k < 10" for k :: nat
    using that by (auto simp: is_ascii_digit_def digit_value_def)
  show ?case
  proof (cases "n < 10")
    case True
    then show ?thesis by (simp add: show_nat.simps[of n] d digits_value_def)
  next
    case False
    then show ?thesis using 1[OF False] d[of "n mod 10"] by (simp add: show_nat.simps[of n] digits_value_def)
  qed
qed

lemma parse_unsigned_show: "n \<le> u64_max \<Longrightarrow> parse_unsigned (show_nat n) = Some n"
proof -
  assume n: "n \<le> u64_max"
  obtain c cs where s: "show_nat n = c # cs" using show_nat_digits[of n] by (cases "show_nat n") auto
  have "c \<noteq> CHR ''+''" using show_nat_digits[of n] s by (auto simp: is_ascii_digit_def)
  then show ?thesis using show_nat_digits[of n] n s by (simp add: parse_unsigned_def parse_u64_def)
qed

lemma digits_plain:
  assumes "list_all is_ascii_digit s" "s \<noteq> []" "list_all (\<lambda>c. 65 \<le> (of_char c :: nat) \<and> (of_char c :: nat) \<le> 90) u"
  shows "plain_text (s @ u)" "to_ascii_lowercase s = s"
proof -
  have all: "\<forall>c\<in>set (s @ u). 48 \<le> (of_char c :: nat) \<and> (of_char c :: nat) \<le> 90"
    using assms(1,3) by (auto simp: list_all_iff is_ascii_digit_def)
  have w: "\<not> is_whitespace n" if "48 \<le> n" "n \<le> 90" for n using that by (simp add: is_whitespace_def)
  have ends: "hd (s @ u) \<in> set (s @ u)" "last (s @ u) \<in> set (s @ u)"
    using assms(2) by (intro hd_in_set last_in_set; simp)+
  have "list_all (\<lambda>c. (of_char c :: nat) < 128) (s @ u)" unfolding list_all_iff
    using all by (auto intro: le_less_trans)
  moreover have "\<not> is_whitespace (of_char (hd (s @ u)))" "\<not> is_whitespace (of_char (last (s @ u)))"
    using all ends w by blast+
  ultimately show "plain_text (s @ u)" using assms(2) unfolding plain_text_def by blast
  show "to_ascii_lowercase s = s"
    unfolding to_ascii_lowercase_def
  proof (rule map_idI)
    fix c assume "c \<in> set s"
    then have "(of_char c :: nat) \<le> 57" using assms(1) by (simp add: list_all_iff is_ascii_digit_def)
    then show "ascii_lower c = c" by (simp add: ascii_lower_def Let_def)
  qed
qed

lemma ascii_lower_unit: "ascii_lower (CHR ''M'') = CHR ''m''" "ascii_lower (CHR ''K'') = CHR ''k''"
  by code_simp+

lemma lowercase_append: "to_ascii_lowercase (s @ u) = to_ascii_lowercase s @ to_ascii_lowercase u"
  by (simp add: to_ascii_lowercase_def)

lemma parse_with_unit:
  assumes n: "n * k \<le> u64_max" and k: "(u, v, k) \<in> {(CHR ''M'', CHR ''m'', 1000000), (CHR ''K'', CHR ''k'', 1000)}"
  shows "parse_token_count (show_nat n @ [u]) = Some (n * k)"
proof -
  have d: "list_all is_ascii_digit (show_nat n)" "show_nat n \<noteq> []" using show_nat_digits by auto
  have "1 \<le> k" using k by auto
  then have "n \<le> u64_max" using n mult_le_mono2[of 1 k n] by linarith
  moreover have "plain_text (show_nat n @ [u])" using k by (intro digits_plain(1)[OF d]) auto
  moreover have "to_ascii_lowercase (show_nat n @ [u]) = show_nat n @ [v]"
    using k digits_plain(2)[OF d, of "[]"] ascii_lower_unit by (auto simp: lowercase_append) (simp_all add: to_ascii_lowercase_def)
  ultimately show ?thesis
    using k n by (auto simp: parse_token_count_def plain_trim Let_def parse_unsigned_show checked_mul_u64_def)
qed

text \<open>
  A token count printed by \<open>format_token_count\<close> is read back by \<open>parse_token_count\<close> as the same number,
  whether it was printed in millions, in thousands or in full.
\<close>
theorem token_count_round_trip:
  assumes "n \<le> u64_max"
  shows "parse_token_count (format_token_count n) = Some n"
proof -
  consider "1000000 \<le> n \<and> n mod 1000000 = 0" | "\<not> (1000000 \<le> n \<and> n mod 1000000 = 0)" "1000 \<le> n \<and> n mod 1000 = 0"
    | "\<not> (1000000 \<le> n \<and> n mod 1000000 = 0)" "\<not> (1000 \<le> n \<and> n mod 1000 = 0)" by blast
  then show ?thesis
  proof cases
    case 1
    then have "n div 1000000 * 1000000 = n" by auto
    then show ?thesis using 1 assms parse_with_unit[of "n div 1000000" 1000000 "CHR ''M''" "CHR ''m''"]
      by (simp add: format_token_count_def)
  next
    case 2
    then have "n div 1000 * 1000 = n" by auto
    then show ?thesis using 2 assms parse_with_unit[of "n div 1000" 1000 "CHR ''K''" "CHR ''k''"]
      by (auto simp: format_token_count_def)
  next
    case 3
    have d: "list_all is_ascii_digit (show_nat n)" "show_nat n \<noteq> []" using show_nat_digits by auto
    then have "is_ascii_digit (last (show_nat n))" by (simp add: list_all_iff)
    then have "last (show_nat n) \<noteq> CHR ''k'' \<and> last (show_nat n) \<noteq> CHR ''m''" by (auto simp: is_ascii_digit_def)
    moreover have "format_token_count n = show_nat n" using 3 unfolding format_token_count_def by argo
    ultimately show ?thesis
      using d digits_plain[OF d, of "[]"] assms
      by (simp add: parse_token_count_def plain_trim Let_def parse_unsigned_show checked_mul_u64_def)
  qed
qed

lemma token_count_round_trip_witness: "parse_token_count (format_token_count 200000) = Some 200000"
  using token_count_round_trip[of 200000] by (simp add: u64_max_def)

end
