(* ===== verification/CompactionWitnesses.thy ===== *)
theory CompactionWitnesses
  imports SummaryLaws TokenLaws
begin

text \<open>
  A small compaction worked out: two turns in a window of 170 tokens, of which the newer one stays.
\<close>

section \<open>Witnesses\<close>

definition demo_run :: prompted_run where
  "demo_run =
     \<lparr>pr_run_id = ''r'', pr_cursor_request_id = None, pr_conversation_id = ''c'', pr_kind = RootRun,
      pr_model = \<lparr>ms_model_id = ''m'', ms_display_name = None,
        ms_reasoning = \<lparr>rs_enabled = None, rs_effort = None, rs_thinking_budget = None\<rparr>,
        ms_max_output_tokens = None, ms_context_window_tokens = Some 170\<rparr>,
      pr_initial_messages = [], pr_action = StartAction, pr_base_checkpoint = CheckpointId 0,
      pr_prompt = \<lparr>ps_instructions = [], ps_tools = []\<rparr>\<rparr>"

definition demo_reply :: message where
  "demo_reply = \<lparr>message_id = ''a1'', msg_role = RAssistant, msg_origin = OAssistant,
     msg_content = Assistant ''two'' [] None None [], runtime_event_id = None\<rparr>"

definition demo_history :: "message list" where
  "demo_history = [text_message ''u1'' RUser OUser ''one'', demo_reply, text_message ''u2'' RUser OUser ''three'']"

definition demo_slot :: message where "demo_slot = summary_message ''summary:1'' ''s''"

definition demo_slot_text :: string where "demo_slot_text = open_tag @ nl @ ''s'' @ nl @ close_tag"

lemma demo_texts:
  "estimate_text_tokens ''one'' = 1" "estimate_text_tokens ''two'' = 1" "estimate_text_tokens ''three'' = 2"
  "estimate_text_tokens [] = 0"
  "estimate_text_tokens demo_slot_text = 14"
  by (simp_all add: demo_slot_text_def plain_tokens plain_text_def is_whitespace_def open_tag_def close_tag_def nl_def)
     (simp add: estimate_text_tokens_def trim_chars_def)

lemma demo_projection:
  "project_messages (text_message i RUser org t # ms)
     = rbind (project_messages ms) (\<lambda>ps. Inr (\<lparr>pm_id = i, pm_role = RUser, pm_content = ProjParts [PText t]\<rparr> # ps))"
  "project_messages (demo_reply # ms)
     = rbind (project_messages ms) (\<lambda>ps. Inr (\<lparr>pm_id = ''a1'', pm_role = RAssistant, pm_content = ProjAssistant ''two'' [] None []\<rparr> # ps))"
  "project_messages (demo_slot # ms)
     = rbind (project_messages ms) (\<lambda>ps. Inr (\<lparr>pm_id = ''runtime:summary:1'', pm_role = RUser,
         pm_content = ProjParts [PText demo_slot_text]\<rparr> # ps))"
  by (simp_all add: project_tool_round_def project_message_def text_message_def demo_reply_def demo_slot_def summary_message_def demo_slot_text_def)

lemmas demo_costs = projected_tokens_def demo_projection estimate_projected_messages_tokens_def sat_sum_eq
  estimate_message_tokens_def content_tokens_def estimate_parts_tokens_def demo_texts tokens_per_message_overhead_def
  sat_add_u64_def u64_max_def

lemma demo_f64: "f64 170 = 170" "f64 153 = 153"
proof -
  have b: "bit_len 1 = 1" "bit_len 170 = 8" "bit_len 153 = 8" by (simp_all add: bit_len.simps)
  show "f64 170 = 170" "f64 153 = 153"
    by (simp_all add: f64_def quotient_of_number b pow2_def round_even_def)
qed

lemma demo_calibrated: "calibrate_budget 170 1 = 170" "calibrate_budget 153 1 = 153"
  by (simp_all add: calibrate_budget_def demo_f64 u64_of_def u64_max_def)

lemma demo_partition: "compaction_partition demo_history {} = (demo_history, None)"
  by (simp add: compaction_partition_def positions_def starts_with_def demo_history_def text_message_def demo_reply_def upt_rec numeral_eq_Suc)

lemma demo_budget: "run_budget demo_run compaction_defaults = Some 153"
  by (simp add: run_budget_def demo_run_def compaction_defaults_def input_budget_def context_budget_with_def reserve_percent_def)

lemma demo_retention:
  "retention_budget render demo_run [demo_slot] [] 1 compaction_defaults = Inr (Some \<lparr>soft_limit = 12, hard_limit = 131\<rparr>)"
  unfolding retention_budget_def demo_budget
  by (simp add: demo_run_def compaction_defaults_def retention_percent_def demo_calibrated estimate_context_tokens_def
      demo_costs capped_def del: project_messages.simps(2))

lemma demo_kinds:
  "is_turn_start (text_message i RUser OUser t)" "\<not> is_turn_start demo_reply"
  "\<not> dropped_from_tail (text_message i RUser OUser t)" "\<not> dropped_from_tail demo_reply"
  "is_parts (text_message i RUser OUser t)"
  by (simp_all add: is_turn_start_def dropped_from_tail_def is_superseded_summary_def text_message_def demo_reply_def is_parts_def)

lemma demo_tail:
  "retained_tail render demo_history \<lparr>soft_limit = 12, hard_limit = 131\<rparr> = Inr [text_message ''u2'' RUser OUser ''three'']"
proof -
  have "turn_starts demo_history = [0, 2]"
    by (simp add: turn_starts_def positions_def demo_history_def demo_kinds upt_rec numeral_eq_Suc)
  then show ?thesis
    by (simp add: retained_tail_def retained_from_def retained_starts_def turn_spans_def demo_history_def demo_costs demo_kinds
        del: project_messages.simps(2))
qed

lemma retained_turns_fit_the_budget_witness:
  "\<exists>rep ps n. replacement (\<lambda>_. []) demo_run demo_history demo_slot Window 1 compaction_defaults = Inr rep
    \<and> rep = [demo_slot, text_message ''u2'' RUser OUser ''three''] \<and> project_messages rep = Inr ps
    \<and> validate_compacted (\<lambda>_. []) demo_run ps 1 compaction_defaults = Inr n"
proof -
  have none: "pr_initial_messages demo_run = []" by (simp add: demo_run_def)
  have rep: "replacement (\<lambda>_. []) demo_run demo_history demo_slot Window 1 compaction_defaults
      = Inr [demo_slot, text_message ''u2'' RUser OUser ''three'']"
    by (simp add: replacement_def none demo_partition compaction_head_def demo_retention demo_tail
        offload_old_tail_images_def offload_message_def text_message_def)
  have bare: "replacement (\<lambda>_. []) demo_run demo_history demo_slot NoRetention 1 compaction_defaults = Inr [demo_slot]"
    by (simp add: replacement_def none demo_partition compaction_head_def)
  have wf: "turns_well_formed demo_history"
    by (simp add: turns_well_formed_def rounds_whole_def demo_history_def demo_kinds upt_rec numeral_eq_Suc)
  have slot: "is_parts demo_slot" by (simp add: is_parts_def demo_slot_def summary_message_def)
  show ?thesis
    using retained_turns_fit_the_budget[OF rep bare _ slot] rep
    by (simp add: none demo_partition wf starts_parts_def)
qed


text \<open>A summary of one word does not fit 90 tokens once the notice is put before it, so all of it is cut.\<close>

lemma notice_tokens:
  "summary_slot_tokens render (bounded_summary_tail ''word'' 0) = 62"
proof -
  let ?text = "open_tag @ nl @ bounded_summary_tail ''word'' 0 @ nl @ close_tag"
  have four: "chars ''word'' = map (\<lambda>c. [c]) ''word''" by (rule chars_plain) (simp add: is_continuation_def)
  have l: "length (chars ''word'') - 0 = 4" "skip_chars 4 ''word'' = []"
    by (simp_all add: four skip_chars_def del: chars.simps)
  have d: "show_nat 4 = ''4''" by code_simp
  have b: "bounded_summary_tail ''word'' 0 = ''[Earlier handover text omitted to fit the active context window; recover older detail from the Archived History paths below. Omitted characters: 4.]'' @ nl @ nl"
    by (simp only: bounded_summary_tail_def l Let_def d) simp
  have "estimate_text_tokens ?text = 54"
    unfolding b by (subst plain_tokens) (simp_all add: plain_text_def is_whitespace_def open_tag_def close_tag_def nl_def)
  then show ?thesis
    by (simp add: summary_slot_tokens_def projected_tokens_def summary_message_def project_tool_round_def project_message_def
        estimate_projected_messages_tokens_def sat_sum_eq estimate_message_tokens_def content_tokens_def
        estimate_parts_tokens_def tokens_per_message_overhead_def sat_add_u64_def u64_max_def)
qed

lemma summary_slot_fits_witness:
  "summary_slot_tokens (\<lambda>_. []) (fit_summary_slot_to_tokens (\<lambda>_. []) ''word'' 70) \<le> 70"
proof -
  have "trim_text ''word'' \<noteq> []" by (subst plain_trim) (simp_all add: plain_text_def is_whitespace_def)
  then show ?thesis using summary_slot_fits[of "''word''" "\<lambda>_. []" 70] notice_tokens[of "\<lambda>_. []"] by simp
qed

lemma carried_summary_keeps_the_newest_witness:
  "length (chars (carry_forward_summary (Some ''old'') ''new'')) \<le> 64000
   \<and> suffix (current_section ''new'') (carry_forward_summary (Some ''old'') ''new'')"
proof -
  have t: "trim_text ''old'' = ''old''" "trim_text ''new'' = ''new''"
    by (intro plain_trim; simp add: plain_text_def is_whitespace_def)+
  show ?thesis
    using carried_summary_keeps_the_newest[of "''new''" "Some ''old''"] chars_length[of "''new''"] by (simp add: t del: chars.simps)
qed

lemma summary_replay_keeps_whole_turns_witness:
  "\<exists>i\<in>{0, 2}. trim_to_context (\<lambda>_. [])
     [\<lparr>pm_id = ''u1'', pm_role = RUser, pm_content = ProjParts [PText ''one'']\<rparr>,
      \<lparr>pm_id = ''a1'', pm_role = RAssistant, pm_content = ProjAssistant ''two'' [] None []\<rparr>,
      \<lparr>pm_id = ''u2'', pm_role = RUser, pm_content = ProjParts [PText ''three'']\<rparr>] (Some 12)
   = Some (drop i
     [\<lparr>pm_id = ''u1'', pm_role = RUser, pm_content = ProjParts [PText ''one'']\<rparr>,
      \<lparr>pm_id = ''a1'', pm_role = RAssistant, pm_content = ProjAssistant ''two'' [] None []\<rparr>,
      \<lparr>pm_id = ''u2'', pm_role = RUser, pm_content = ProjParts [PText ''three'']\<rparr>])"
  (is "\<exists>i\<in>_. trim_to_context _ ?h _ = _")
proof -
  have cost: "estimate_projected_messages_tokens (\<lambda>_. []) ?h = 28" by (simp add: demo_costs)
  have p: "prune_replayed_tool_results ?h = Some ?h" by (simp add: prune_replayed_tool_results_def)
  have t: "turn_boundaries ?h = [0, 2]" by (simp add: turn_boundaries_def is_turn_boundary_def upt_rec numeral_eq_Suc)
  have "\<exists>i\<in>set (turn_boundaries ?h). trim_to_context (\<lambda>_. []) ?h (Some 12) = Some (drop i ?h)"
    using summary_replay_keeps_whole_turns[of 12 "\<lambda>_. []" ?h, OF _ p] cost t by auto
  then show ?thesis by (simp only: t) simp
qed

end
