(* ===== verification/EditTools.thy ===== *)
theory EditTools
  imports Utf8 EnginePolicy "HOL-Library.Char_ord" "HOL-Library.List_Lexorder"
begin

text \<open>
  What the editing tools compute (src/server/src/cursor/tools/edit.rs): the file an edit is queued under, the
  text after the edit, notebooks included. Parsing and printing of JSON (serde_json) are arguments, and so is
  the lower case of Unicode texts; the diff shown to the user (similar) is not modelled.
\<close>

section \<open>Replacing in texts\<close>

text \<open>\<open>str::replace\<close>, \<open>replacen\<close> and \<open>match_indices\<close> for a pattern that is not empty.\<close>

fun split_first :: "'a list \<Rightarrow> 'a list \<Rightarrow> ('a list \<times> 'a list) option" where
  "split_first pat [] = (if pat = [] then Some ([], []) else None)"
| "split_first pat (c # cs) =
     (if take (length pat) (c # cs) = pat then Some ([], drop (length pat) (c # cs))
      else map_option (\<lambda>(a, b). (c # a, b)) (split_first pat cs))"

lemma split_first_Some: "split_first pat s = Some (a, b) \<Longrightarrow> s = a @ pat @ b"
proof (induction pat s arbitrary: a b rule: split_first.induct)
  case (2 pat c cs)
  then show ?case
    by (auto split: if_splits) (metis append_take_drop_id drop_Cons' drop0 take_Cons' append_eq_conv_conj)+
qed (auto split: if_splits)

lemma split_first_shorter: "split_first pat s = Some (a, b) \<Longrightarrow> pat \<noteq> [] \<Longrightarrow> length b < length s"
  by (auto dest!: split_first_Some)

function matches :: "'a list \<Rightarrow> 'a list \<Rightarrow> nat" where
  "matches pat s =
     (if pat = [] then 0 else case split_first pat s of None \<Rightarrow> 0 | Some (a, b) \<Rightarrow> Suc (matches pat b))"
  by pat_completeness auto
termination by (relation "measure (\<lambda>(pat, s). length s)") (auto dest: split_first_shorter)

function replace_all :: "'a list \<Rightarrow> 'a list \<Rightarrow> 'a list \<Rightarrow> 'a list" where
  "replace_all pat new s =
     (if pat = [] then s
      else case split_first pat s of None \<Rightarrow> s | Some (a, b) \<Rightarrow> a @ new @ replace_all pat new b)"
  by pat_completeness auto
termination by (relation "measure (\<lambda>(pat, new, s). length s)") (auto dest: split_first_shorter)

declare matches.simps [simp del] replace_all.simps [simp del]

definition replace_once :: "'a list \<Rightarrow> 'a list \<Rightarrow> 'a list \<Rightarrow> 'a list" where
  "replace_once pat new s = (case split_first pat s of None \<Rightarrow> s | Some (a, b) \<Rightarrow> a @ new @ b)"

text \<open>Newlines as \<open>\n\<close>, for texts of bytes and of code points alike.\<close>

definition unify_newlines :: "'a \<Rightarrow> 'a \<Rightarrow> 'a list \<Rightarrow> 'a list" where
  "unify_newlines cr lf value = replace_all [cr] [lf] (replace_all [cr, lf] [lf] value)"

definition normalize_newlines :: "string \<Rightarrow> string" where
  "normalize_newlines value = unify_newlines (CHR 0x0D) (CHR 0x0A) value"


section \<open>Arguments of a call\<close>

definition normalized_name :: "string \<Rightarrow> string" where
  "normalized_name value = map ascii_lower (filter ascii_alphanumeric value)"

definition json_member :: "json \<Rightarrow> string \<Rightarrow> json option" where
  "json_member v key = (case v of JObj kvs \<Rightarrow> map_of kvs key | _ \<Rightarrow> None)"

definition string_arg :: "json \<Rightarrow> string \<Rightarrow> string option" where
  "string_arg v key = (case json_member v key of Some (JStr s) \<Rightarrow> Some s | _ \<Rightarrow> None)"

definition bool_arg :: "json \<Rightarrow> string \<Rightarrow> bool" where
  "bool_arg v key = (case json_member v key of Some (JBool b) \<Rightarrow> b | _ \<Rightarrow> False)"

definition u64_arg :: "json \<Rightarrow> string \<Rightarrow> nat option" where
  "u64_arg v key = (case json_member v key of Some (JNum t) \<Rightarrow> parse_u64 t | _ \<Rightarrow> None)"

definition string_any :: "tool_call \<Rightarrow> string list \<Rightarrow> string result" where
  "string_any call names =
     (case first_some (string_arg (call_arguments call)) names of
        Some s \<Rightarrow> Inr s
      | None \<Rightarrow> Inl (Protocol (call_name call @ '' is missing '' @ hd names)))"

definition path_fields :: "string list" where "path_fields = [''path'', ''file_path'', ''filePath'']"
definition notebook_path_fields :: "string list" where "notebook_path_fields = [''target_notebook'']"
definition content_fields :: "string list" where "content_fields = [''contents'', ''content'']"

definition edit_path :: "tool_call \<Rightarrow> string result" where
  "edit_path call =
     string_any call (if normalized_name (call_name call) = ''editnotebook'' then notebook_path_fields else path_fields)"


section \<open>The queue an edit belongs to\<close>

definition separator :: "char \<Rightarrow> bool" where
  "separator c \<longleftrightarrow> c = CHR ''/'' \<or> c = CHR 0x5C"

fun split_where :: "('a \<Rightarrow> bool) \<Rightarrow> 'a list \<Rightarrow> 'a list list" where
  "split_where P [] = [[]]"
| "split_where P (c # cs) =
     (if P c then [] # split_where P cs
      else case split_where P cs of [] \<Rightarrow> [[c]] | w # ws \<Rightarrow> (c # w) # ws)"

definition dot :: string where "dot = ''.''"
definition dotdot :: string where "dotdot = ''..''"

text \<open>The components seen so far, the newest first.\<close>

definition push_component :: "string list \<Rightarrow> string \<Rightarrow> string list" where
  "push_component acc component =
     (if component = [] \<or> component = dot then acc
      else if component = dotdot then
        (case acc of
           prev # rest \<Rightarrow> (if prev \<noteq> dotdot then rest else dotdot # acc)
         | [] \<Rightarrow> [dotdot])
      else component # acc)"

definition components :: "string \<Rightarrow> string list" where
  "components rooted = rev (foldl push_component [] (split_where separator rooted))"

text \<open>\<open>Path::is_absolute\<close>: on Windows a drive with a root, or a share with its server.\<close>

definition is_absolute :: "bool \<Rightarrow> string \<Rightarrow> bool" where
  "is_absolute windows p =
     (if windows then
        (case p of
           d # colon # s # _ \<Rightarrow>
             colon = CHR '':'' \<and> separator s \<and> ascii_alphanumeric d \<and> \<not> is_ascii_digit d
             \<or> separator d \<and> separator colon
               \<and> (case split_where separator (drop 2 p) of server # share # _ \<Rightarrow> server \<noteq> [] \<and> share \<noteq> [] | _ \<Rightarrow> False)
         | _ \<Rightarrow> False)
      else (case p of c # _ \<Rightarrow> c = CHR ''/'' | [] \<Rightarrow> False))"

fun join_slash :: "string list \<Rightarrow> string" where
  "join_slash [] = []"
| "join_slash [w] = w"
| "join_slash (w # ws) = w @ [CHR ''/''] @ join_slash ws"

definition rooted_path :: "bool \<Rightarrow> string \<Rightarrow> string list \<Rightarrow> string" where
  "rooted_path windows path workspace_paths =
     (case find (\<lambda>root. root \<noteq> []) (map trim_text workspace_paths) of
        Some root \<Rightarrow>
          (if \<not> is_absolute windows (trim_text path)
           then rev (dropWhile separator (rev root)) @ [CHR ''/''] @ trim_text path
           else trim_text path)
      | None \<Rightarrow> trim_text path)"

definition schedule_key :: "bool \<Rightarrow> (string \<Rightarrow> string) \<Rightarrow> string \<Rightarrow> string list \<Rightarrow> string" where
  "schedule_key windows to_lowercase path workspace_paths =
     (let key = join_slash (components (rooted_path windows path workspace_paths))
      in if windows then to_lowercase key else key)"

definition execution_path ::
  "bool \<Rightarrow> (string \<Rightarrow> string) \<Rightarrow> tool_call \<Rightarrow> string list \<Rightarrow> string option result" where
  "execution_path windows to_lowercase call workspace_paths =
     (if normalized_name (call_name call) \<in> {''write'', ''strreplace'', ''editnotebook''}
      then rbind (edit_path call) (\<lambda>path. Inr (Some (schedule_key windows to_lowercase path workspace_paths)))
      else Inr None)"


section \<open>The text after the edit\<close>

text \<open>\<open>Error::to_string\<close> for the protocol error that missing arguments give.\<close>

definition missing_text :: "error \<Rightarrow> string" where
  "missing_text e = (case e of Protocol m \<Rightarrow> ''protocol error: '' @ m | _ \<Rightarrow> [])"

definition text_arg :: "tool_call \<Rightarrow> string list \<Rightarrow> string + string" where
  "text_arg call names = (case string_any call names of Inr s \<Rightarrow> Inr (normalize_newlines s) | Inl e \<Rightarrow> Inl (missing_text e))"

definition replace_string :: "tool_call \<Rightarrow> string \<Rightarrow> string + string" where
  "replace_string call before =
     rbind (text_arg call [''old_string'']) (\<lambda>old.
     rbind (text_arg call [''new_string'']) (\<lambda>new.
       if old = [] then Inl ''old_string must not be empty''
       else if matches old before = 0 then Inl ''old_string was not found''
       else if bool_arg (call_arguments call) ''replace_all'' then Inr (replace_all old new before)
       else if matches old before = 1 then Inr (replace_once old new before)
       else Inl (''old_string is not unique; found '' @ show_nat (matches old before) @ '' occurrences'')))"

text \<open>\<open>split_inclusive\<close> on the newline; a notebook keeps a source as the list of its lines.\<close>

fun lines_inclusive :: "string \<Rightarrow> string list" where
  "lines_inclusive [] = []"
| "lines_inclusive (c # cs) =
     (if c = CHR 0x0A then [c] # lines_inclusive cs
      else (case lines_inclusive cs of [] \<Rightarrow> [[c]] | w # ws \<Rightarrow> (c # w) # ws))"

definition source_lines :: "string \<Rightarrow> json list" where
  "source_lines value = map JStr (lines_inclusive value)"

fun string_values :: "json list \<Rightarrow> string option" where
  "string_values [] = Some []"
| "string_values (v # vs) =
     (case v of JStr s \<Rightarrow> map_option (\<lambda>rest. s @ rest) (string_values vs) | _ \<Rightarrow> None)"

definition notebook_source :: "json \<Rightarrow> string + string" where
  "notebook_source v =
     (case v of
        JStr s \<Rightarrow> Inr (normalize_newlines s)
      | JArr lines \<Rightarrow>
          (case string_values lines of
             Some s \<Rightarrow> Inr (normalize_newlines s)
           | None \<Rightarrow> Inl ''notebook cell source contains a non-string'')
      | _ \<Rightarrow> Inl ''notebook cell source is not text'')"

text \<open>An object is a BTreeMap: its members are kept in the order of their keys.\<close>

definition set_member :: "string \<Rightarrow> json \<Rightarrow> json \<Rightarrow> json" where
  "set_member key v cell = (case cell of JObj kvs \<Rightarrow> JObj (smap_put key v kvs) | _ \<Rightarrow> cell)"

definition new_cell :: "string \<Rightarrow> string \<Rightarrow> json" where
  "new_cell language source =
     (let cell_type = (if language = ''markdown'' \<or> language = ''raw'' then language else ''code'');
          cell = JObj [(''cell_type'', JStr cell_type), (''metadata'', JObj []), (''source'', JArr (source_lines source))]
      in if cell_type = ''code'' then set_member ''outputs'' (JArr []) (set_member ''execution_count'' JNull cell) else cell)"

definition edited_cell :: "tool_call \<Rightarrow> string \<Rightarrow> json \<Rightarrow> string + json" where
  "edited_cell call new cell =
     rbind (case json_member cell ''source'' of Some v \<Rightarrow> notebook_source v | None \<Rightarrow> Inr []) (\<lambda>source.
     rbind (text_arg call [''old_string'']) (\<lambda>old.
       if old = [] then Inl ''old_string must not be empty''
       else if matches old source = 0 then Inl ''old_string was not found in the notebook cell''
       else if matches old source = 1
       then Inr (set_member ''source'' (JArr (source_lines (replace_once old new source))) cell)
       else Inl (''old_string is not unique in the notebook cell; found '' @ show_nat (matches old source) @ '' occurrences'')))"

definition edit_cells :: "tool_call \<Rightarrow> json list \<Rightarrow> string + json list" where
  "edit_cells call cells =
     (case u64_arg (call_arguments call) ''cell_idx'' of
        None \<Rightarrow> Inl ''EditNotebook is missing cell_idx''
      | Some index \<Rightarrow>
          rbind (text_arg call [''new_string'']) (\<lambda>new.
            if bool_arg (call_arguments call) ''is_new_cell'' then
              (if index > length cells then Inl (''cell_idx '' @ show_nat index @ '' is past the end of the notebook'')
               else
                 (case string_any call [''cell_language''] of
                    Inl e \<Rightarrow> Inl (missing_text e)
                  | Inr language \<Rightarrow> Inr (take index cells @ [new_cell language new] @ drop index cells)))
            else if index < length cells then rbind (edited_cell call new (cells ! index)) (\<lambda>cell. Inr (cells[index := cell]))
            else Inl (''cell_idx '' @ show_nat index @ '' does not exist'')))"

definition edit_notebook ::
  "(string \<Rightarrow> string + json) \<Rightarrow> (json \<Rightarrow> string + string) \<Rightarrow> tool_call \<Rightarrow> string \<Rightarrow> string + string" where
  "edit_notebook parse pretty call before =
     (case parse before of
        Inl e \<Rightarrow> Inl (''invalid notebook JSON: '' @ e)
      | Inr notebook \<Rightarrow>
          (case json_member notebook ''cells'' of
             Some (JArr cells) \<Rightarrow>
               rbind (edit_cells call cells) (\<lambda>cells'.
               rbind (pretty (set_member ''cells'' (JArr cells') notebook)) (\<lambda>text. Inr (text @ [CHR 0x0A])))
           | _ \<Rightarrow> Inl ''notebook has no cells array''))"

text \<open>What the client's Read answers (protobuf ReadResult).\<close>

datatype read_output = ReadContent string | ReadData
datatype read_result =
    ReadSuccess bool "read_output option" | ReadFileNotFound | ReadError string | ReadRejected string
  | ReadPermissionDenied | ReadInvalidFile string | ReadEmpty

record edit_write =
  ew_before :: string
  ew_after :: string

definition read_before :: "tool_call \<Rightarrow> read_result \<Rightarrow> string + string" where
  "read_before call r =
     (case r of
        ReadSuccess truncated output \<Rightarrow>
          (if truncated then Inl ''cannot edit a truncated Read result''
           else (case output of
                   Some (ReadContent content) \<Rightarrow> Inr (normalize_newlines content)
                 | Some ReadData \<Rightarrow> Inl ''cannot edit a binary file''
                 | None \<Rightarrow> Inl ''Read result has no file content''))
      | ReadFileNotFound \<Rightarrow> (if normalized_name (call_name call) = ''write'' then Inr [] else Inl ''file not found'')
      | ReadError e \<Rightarrow> Inl e
      | ReadRejected reason \<Rightarrow> Inl reason
      | ReadPermissionDenied \<Rightarrow> Inl ''read permission denied''
      | ReadInvalidFile reason \<Rightarrow> Inl reason
      | ReadEmpty \<Rightarrow> Inl ''Read result is empty'')"

definition after_read ::
  "(string \<Rightarrow> string + json) \<Rightarrow> (json \<Rightarrow> string + string) \<Rightarrow> tool_call \<Rightarrow> read_result \<Rightarrow> string + edit_write" where
  "after_read parse pretty call r =
     rbind (read_before call r) (\<lambda>before.
     rbind
       (let name = normalized_name (call_name call)
        in if name = ''write'' then text_arg call content_fields
           else if name = ''strreplace'' then replace_string call before
           else if name = ''editnotebook'' then edit_notebook parse pretty call before
           else Inl (call_name call @ '' is not an edit tool'')) (\<lambda>after.
       Inr \<lparr>ew_before = before, ew_after = after\<rparr>))"

end
