(* ===== verification/ToolStream.thy ===== *)
theory ToolStream
  imports EditTools JsonStream
begin

text \<open>
  The cards shown while the arguments of a tool call are still streaming
  (src/server/src/cursor/tools/stream.rs). The protobuf rendering of a card is not modelled; whether a tool
  has a placeholder card at all is an argument. Texts are code points, as the streaming reader reports them.
\<close>

definition codes :: "string \<Rightarrow> code list" where
  "codes s = map of_char s"

datatype 'd card_update =
    PlainArguments tool_call "code list"
  | McpArguments tool_call "code list" 'd
  | EditPathPartial tool_call "code list"
  | EditContentDelta tool_call "code list"
  | PlanPartial tool_call "code list" "code list" "code list"
  | TaskPartial tool_call "code list" "code list" "code list" "code list" "code list" "code list"

section \<open>Newlines of a text that comes in pieces\<close>

text \<open>The state is whether a carriage return is held back.\<close>

fun newline_chars :: "'a \<Rightarrow> 'a \<Rightarrow> bool \<Rightarrow> 'a list \<Rightarrow> 'a list \<times> bool" where
  "newline_chars cr lf pending [] = ([], pending)"
| "newline_chars cr lf pending (c # cs) =
     (let (rest, pending') =
            (if pending \<and> c = lf then newline_chars cr lf False cs
             else newline_chars cr lf (c = cr) cs);
          now = (if pending \<and> c = lf \<or> c = cr then [] else [c])
      in ((if pending then lf # now else now) @ rest, pending'))"

definition newline_push :: "'a \<Rightarrow> 'a \<Rightarrow> 'a list \<Rightarrow> bool \<Rightarrow> bool \<Rightarrow> 'a list \<times> bool" where
  "newline_push cr lf text finished pending =
     (case newline_chars cr lf pending text of
        (out, p) \<Rightarrow> if finished \<and> p then (out @ [lf], False) else (out, p))"

abbreviation content_push :: "code list \<Rightarrow> bool \<Rightarrow> bool \<Rightarrow> code list \<times> bool" where
  "content_push \<equiv> newline_push 13 10"


section \<open>Projections\<close>

record edit_projection =
  ep_fields :: json_fields
  ep_path_fields :: "code list list"
  ep_content_fields :: "code list list"
  ep_path :: "code list"
  ep_pending_cr :: bool

definition edit_projection_new :: "string list \<Rightarrow> string list \<Rightarrow> edit_projection" where
  "edit_projection_new paths contents =
     \<lparr>ep_fields = json_fields_new, ep_path_fields = map codes paths, ep_content_fields = map codes contents,
      ep_path = [], ep_pending_cr = False\<rparr>"

definition content_update :: "tool_call \<Rightarrow> code list \<Rightarrow> bool \<Rightarrow> edit_projection \<Rightarrow> 'd card_update list \<times> edit_projection" where
  "content_update call text finished e =
     (case content_push text finished (ep_pending_cr e) of
        (content, pending) \<Rightarrow>
          (if content = [] then [] else [EditContentDelta call content], e\<lparr>ep_pending_cr := pending\<rparr>))"

fun edit_event :: "tool_call \<Rightarrow> field_event \<Rightarrow> edit_projection \<Rightarrow> 'd card_update list \<times> edit_projection" where
  "edit_event call (FieldDelta name text) e =
     (if name \<in> set (ep_path_fields e) then ([], e\<lparr>ep_path := ep_path e @ text\<rparr>)
      else if name \<in> set (ep_content_fields e) then content_update call text False e
      else ([], e))"
| "edit_event call (FieldEnd name) e =
     (if name \<in> set (ep_path_fields e) then ([EditPathPartial call (ep_path e)], e)
      else if name \<in> set (ep_content_fields e) then content_update call [] True e
      else ([], e))"

definition edit_project ::
  "(code list \<Rightarrow> string + code list) \<Rightarrow> tool_call \<Rightarrow> code list \<Rightarrow> edit_projection
   \<Rightarrow> ('d card_update list \<times> edit_projection) result" where
  "edit_project unescape call raw_delta e =
     rbind (push_fields unescape raw_delta (ep_fields e)) (\<lambda>(fields, events).
       Inr (run_out (edit_event call) events (e\<lparr>ep_fields := fields\<rparr>)))"

text \<open>The plan and task cards: named texts, shown when one of the awaited fields is complete.\<close>

record named_texts =
  nt_fields :: json_fields
  nt_texts :: "(code list \<times> code list) list"

definition named_texts_new :: "string list \<Rightarrow> named_texts" where
  "named_texts_new names = \<lparr>nt_fields = json_fields_new, nt_texts = map (\<lambda>n. (codes n, [])) names\<rparr>"

definition plan_fields :: "string list" where "plan_fields = [''name'', ''plan'', ''overview'']"
definition task_fields :: "string list" where
  "task_fields = [''description'', ''prompt'', ''subagent_type'', ''model'', ''resume'', ''environment'']"

fun text_event :: "string list \<Rightarrow> field_event \<Rightarrow> bool \<times> named_texts \<Rightarrow> bool \<times> named_texts" where
  "text_event awaited (FieldDelta name text) (completed, t) =
     (completed, t\<lparr>nt_texts := map (\<lambda>(n, v). (n, if n = name then v @ text else v)) (nt_texts t)\<rparr>)"
| "text_event awaited (FieldEnd name) (completed, t) = (completed \<or> name \<in> codes ` set awaited, t)"

definition text_of :: "named_texts \<Rightarrow> string \<Rightarrow> code list" where
  "text_of t name = (case map_of (nt_texts t) (codes name) of Some v \<Rightarrow> v | None \<Rightarrow> [])"

definition text_project ::
  "(code list \<Rightarrow> string + code list) \<Rightarrow> string list \<Rightarrow> (named_texts \<Rightarrow> 'd card_update) \<Rightarrow> code list \<Rightarrow> named_texts
   \<Rightarrow> ('d card_update list \<times> named_texts) result" where
  "text_project unescape awaited show_card raw_delta t =
     rbind (push_fields unescape raw_delta (nt_fields t)) (\<lambda>(fields, events).
       case fold (text_event awaited) events (False, t\<lparr>nt_fields := fields\<rparr>) of
         (completed, t') \<Rightarrow> Inr (if completed then [show_card t'] else [], t'))"

definition plan_card :: "tool_call \<Rightarrow> named_texts \<Rightarrow> 'd card_update" where
  "plan_card call t = PlanPartial call (text_of t ''name'') (text_of t ''plan'') (text_of t ''overview'')"

definition task_card :: "tool_call \<Rightarrow> named_texts \<Rightarrow> 'd card_update" where
  "task_card call t =
     TaskPartial call (text_of t ''description'') (text_of t ''prompt'') (text_of t ''subagent_type'')
       (text_of t ''model'') (text_of t ''resume'') (text_of t ''environment'')"

datatype 'd presentation =
    PlainCard | DynamicMcp 'd | EditCard edit_projection | PlanCard named_texts | TaskCard named_texts

definition tool_call_stream_new :: "string \<Rightarrow> 'd option \<Rightarrow> 'd presentation" where
  "tool_call_stream_new name dynamic_mcp =
     (case dynamic_mcp of
        Some d \<Rightarrow> DynamicMcp d
      | None \<Rightarrow>
          (let n = normalized_name name
           in if n = ''write'' then EditCard (edit_projection_new path_fields content_fields)
              else if n = ''strreplace'' then EditCard (edit_projection_new path_fields [''new_string''])
              else if n = ''editnotebook'' then EditCard (edit_projection_new notebook_path_fields [''new_string''])
              else if n = ''createplan'' then PlanCard (named_texts_new plan_fields)
              else if n = ''task'' then TaskCard (named_texts_new task_fields)
              else PlainCard))"

definition stream_arguments_delta ::
  "(string \<Rightarrow> unit result) \<Rightarrow> (code list \<Rightarrow> string + code list) \<Rightarrow> tool_call \<Rightarrow> code list \<Rightarrow> 'd presentation
   \<Rightarrow> ('d card_update list \<times> 'd presentation) result" where
  "stream_arguments_delta placeholder unescape call raw_delta p =
     (case p of
        PlainCard \<Rightarrow> rbind (placeholder (call_name call)) (\<lambda>_. Inr ([PlainArguments call raw_delta], p))
      | DynamicMcp d \<Rightarrow> Inr ([McpArguments call raw_delta d], p)
      | EditCard e \<Rightarrow> rbind (edit_project unescape call raw_delta e) (\<lambda>(ms, e'). Inr (ms, EditCard e'))
      | PlanCard t \<Rightarrow> rbind (text_project unescape plan_fields (plan_card call) raw_delta t) (\<lambda>(ms, t'). Inr (ms, PlanCard t'))
      | TaskCard t \<Rightarrow> rbind (text_project unescape [''description''] (task_card call) raw_delta t) (\<lambda>(ms, t'). Inr (ms, TaskCard t')))"

end
