(* ===== verification/EditLaws.thy ===== *)
theory EditLaws
  imports ToolStream JsonStreamLaws TokenLaws
begin

text \<open>
  The editing tools: newlines of a text in pieces, what the card of a Write shows, what a replacement and a
  notebook edit change, and that the spellings of a file share a queue.
\<close>

section \<open>Newlines\<close>

text \<open>In one pass: every carriage return, with the line feed behind it if there is one, becomes a line feed.\<close>

fun one_pass :: "'a \<Rightarrow> 'a \<Rightarrow> 'a list \<Rightarrow> 'a list" where
  "one_pass cr lf [] = []"
| "one_pass cr lf [c] = [if c = cr then lf else c]"
| "one_pass cr lf (c # d # cs) =
     (if c = cr then lf # (if d = lf then one_pass cr lf cs else one_pass cr lf (d # cs))
      else c # one_pass cr lf (d # cs))"

lemma replace_all_Nil [simp]: "replace_all pat new [] = (if pat = [] then [] else [])"
  by (subst replace_all.simps) auto

lemma replace_all_Cons:
  "pat \<noteq> [] \<Longrightarrow> replace_all pat new (c # cs) =
     (if take (length pat) (c # cs) = pat then new @ replace_all pat new (drop (length pat) (c # cs))
      else c # replace_all pat new cs)"
  by (subst replace_all.simps, subst (2) replace_all.simps)
     (auto split: option.splits prod.splits)

lemma replace_one: "replace_all [cr] [lf] s = map (\<lambda>c. if c = cr then lf else c) s"
  by (induction s) (simp_all add: replace_all_Cons)

lemma unify_one_pass: "cr \<noteq> lf \<Longrightarrow> unify_newlines cr lf s = one_pass cr lf s"
  unfolding unify_newlines_def replace_one
  by (induction cr lf s rule: one_pass.induct) (auto simp: replace_all_Cons)

lemma newline_chars_append:
  "newline_chars cr lf p (a @ b) =
     (case newline_chars cr lf p a of (x, q) \<Rightarrow> case newline_chars cr lf q b of (y, r) \<Rightarrow> (x @ y, r))"
  by (induction cr lf p a rule: newline_chars.induct) (auto simp: Let_def split: prod.splits)

lemma newline_chars_one_pass:
  assumes "cr \<noteq> lf"
  shows "(case newline_chars cr lf False s of (out, p) \<Rightarrow> out @ (if p then [lf] else [])) = one_pass cr lf s
    \<and> (case newline_chars cr lf True s of (out, p) \<Rightarrow> out @ (if p then [lf] else []))
      = lf # (case s of c # cs \<Rightarrow> (if c = lf then one_pass cr lf cs else one_pass cr lf s) | [] \<Rightarrow> [])"
proof (induction s)
  case (Cons c s)
  show ?case
    using Cons assms
    by (cases s; cases "newline_chars cr lf False s"; cases "newline_chars cr lf True s") (auto simp: Let_def split: if_splits)
qed simp


section \<open>What an edit card shows\<close>

fun content_text :: "'d card_update \<Rightarrow> code list" where
  "content_text (EditContentDelta call text) = text"
| "content_text _ = []"

definition content_texts :: "'d card_update list \<Rightarrow> code list" where
  "content_texts us = concat (map content_text us)"

fun shown :: "code list list \<Rightarrow> bool \<Rightarrow> (code list \<times> code option) list \<Rightarrow> code list \<times> bool" where
  "shown names p [] = ([], p)"
| "shown names p ((k, x) # rest) =
     (let (now, q) =
            (if k \<notin> set names then ([], p)
             else case x of Some c \<Rightarrow> newline_chars 13 10 p [c] | None \<Rightarrow> (if p then [10] else [], False));
          (later, r) = shown names q rest
      in (now @ later, r))"

lemma shown_append:
  "shown names p (a @ b) = (case shown names p a of (x, q) \<Rightarrow> case shown names q b of (y, r) \<Rightarrow> (x @ y, r))"
  by (induction names p a rule: shown.induct) (auto simp: Let_def split: prod.splits)

lemma shown_text: "k \<in> set names \<Longrightarrow> shown names p (map (\<lambda>c. (k, Some c)) tx) = newline_chars 13 10 p tx"
proof (induction tx arbitrary: p)
  case (Cons c tx)
  then show ?case
    using newline_chars_append[of 13 10 p "[c]" tx] by (auto simp del: newline_chars.simps split: prod.splits)
qed simp

lemma shown_other: "k \<notin> set names \<Longrightarrow> shown names p (map (\<lambda>x. (k, f x)) tx) = ([], p)"
  by (induction tx) auto

definition disjoint_fields :: "edit_projection \<Rightarrow> bool" where
  "disjoint_fields e \<longleftrightarrow> set (ep_path_fields e) \<inter> set (ep_content_fields e) = {}"

definition follows :: "edit_projection \<Rightarrow> (code list \<times> code option) list \<Rightarrow> 'd card_update list \<Rightarrow> edit_projection \<Rightarrow> bool" where
  "follows e fl us e' \<longleftrightarrow>
     (content_texts us, ep_pending_cr e') = shown (ep_content_fields e) (ep_pending_cr e) fl
     \<and> ep_path_fields e' = ep_path_fields e \<and> ep_content_fields e' = ep_content_fields e"

lemma follows_append:
  "follows e a us e1 \<Longrightarrow> follows e1 b vs e2 \<Longrightarrow> follows e (a @ b) (us @ vs) e2"
  by (auto simp: follows_def shown_append content_texts_def split: prod.splits)

lemma content_update_follows:
  "content_update call text fin e = (us, e')
   \<Longrightarrow> content_texts us = fst (content_push text fin (ep_pending_cr e)) \<and> ep_pending_cr e' = snd (content_push text fin (ep_pending_cr e))
     \<and> e' = e\<lparr>ep_pending_cr := ep_pending_cr e'\<rparr>"
  by (auto simp: content_update_def content_texts_def split: prod.splits if_splits)

lemma edit_event_follows:
  assumes "disjoint_fields e" "edit_event call ev e = (us, e')"
  shows "follows e (flats [ev]) us e' \<and> ep_fields e' = ep_fields e"
proof (cases ev)
  case (FieldDelta k tx)
  consider "k \<in> set (ep_path_fields e)" | "k \<notin> set (ep_path_fields e)" "k \<in> set (ep_content_fields e)"
    | "k \<notin> set (ep_path_fields e)" "k \<notin> set (ep_content_fields e)" by blast
  then show ?thesis
  proof cases
    case 1
    then have "k \<notin> set (ep_content_fields e)" using assms(1) by (auto simp: disjoint_fields_def)
    then show ?thesis using 1 assms(2) FieldDelta by (auto simp: follows_def flats_def shown_other content_texts_def)
  next
    case 2
    then have "content_update call tx False e = (us, e')" using assms(2) FieldDelta by simp
    from content_update_follows[OF this] show ?thesis
      using 2 FieldDelta by (cases e; cases e') (auto simp: follows_def flats_def shown_text newline_push_def split: prod.splits)
  next
    case 3
    then show ?thesis using assms(2) FieldDelta by (auto simp: follows_def flats_def shown_other content_texts_def)
  qed
next
  case (FieldEnd k)
  consider "k \<in> set (ep_path_fields e)" | "k \<notin> set (ep_path_fields e)" "k \<in> set (ep_content_fields e)"
    | "k \<notin> set (ep_path_fields e)" "k \<notin> set (ep_content_fields e)" by blast
  then show ?thesis
  proof cases
    case 1
    then have "k \<notin> set (ep_content_fields e)" using assms(1) by (auto simp: disjoint_fields_def)
    then show ?thesis using 1 assms(2) FieldEnd by (auto simp: follows_def flats_def content_texts_def)
  next
    case 2
    then have "content_update call [] True e = (us, e')" using assms(2) FieldEnd by simp
    from content_update_follows[OF this] show ?thesis
      using 2 FieldEnd by (cases e; cases e') (auto simp: follows_def flats_def newline_push_def split: prod.splits if_splits)
  next
    case 3
    then show ?thesis using assms(2) FieldEnd by (auto simp: follows_def flats_def content_texts_def)
  qed
qed

lemma edit_events_follow:
  fixes us :: "'d card_update list"
  shows "disjoint_fields e \<Longrightarrow> run_out (edit_event call) evs e = (us, e') \<Longrightarrow> follows e (flats evs) us e' \<and> ep_fields e' = ep_fields e"
proof (induction evs arbitrary: e us)
  case Nil
  then show ?case by (auto simp: follows_def flats_def content_texts_def)
next
  case (Cons ev evs)
  obtain u1 :: "'d card_update list" and e1 where 1: "edit_event call ev e = (u1, e1)"
    by (cases "edit_event call ev e :: 'd card_update list \<times> edit_projection") blast
  obtain u2 where 2: "run_out (edit_event call) evs e1 = (u2, e')" "us = u1 @ u2"
    using Cons.prems(2) 1 by (auto simp: Let_def split: prod.splits)
  have f: "follows e (flats [ev]) u1 e1" "ep_fields e1 = ep_fields e" using edit_event_follows[OF Cons.prems(1) 1] by auto
  then have "disjoint_fields e1" using Cons.prems(1) by (simp add: follows_def disjoint_fields_def)
  then show ?case using Cons.IH[OF _ 2(1)] follows_append[OF f(1)] f(2) 2(2) by (force simp: flats_def)
qed

text \<open>The pieces of the arguments, each projected in turn.\<close>

fun stream_chunks ::
  "(string \<Rightarrow> unit result) \<Rightarrow> (code list \<Rightarrow> string + code list) \<Rightarrow> tool_call \<Rightarrow> code list list \<Rightarrow> 'd presentation
   \<Rightarrow> ('d card_update list \<times> 'd presentation) result" where
  "stream_chunks placeholder u call [] p = Inr ([], p)"
| "stream_chunks placeholder u call (x # xs) p =
     rbind (stream_arguments_delta placeholder u call x p) (\<lambda>(us, p').
     rbind (stream_chunks placeholder u call xs p') (\<lambda>(vs, p''). Inr (us @ vs, p'')))"

lemma edit_chunks_follow:
  "disjoint_fields e \<Longrightarrow> push_chunks u chunks (ep_fields e) = Inr (s, evs)
   \<Longrightarrow> \<exists>(us :: 'd card_update list) e'. stream_chunks placeholder u call chunks (EditCard e) = Inr (us, EditCard e') \<and> follows e (flats evs) us e'"
proof (induction chunks arbitrary: e evs)
  case Nil
  then show ?case by (auto simp: follows_def flats_def content_texts_def)
next
  case (Cons x xs)
  obtain s1 ev1 ev2 where 1: "push_fields u x (ep_fields e) = Inr (s1, ev1)" "push_chunks u xs s1 = Inr (s, ev2)" "evs = ev1 @ ev2"
    using Cons.prems(2) by (auto split: prod.splits)
  obtain us :: "'d card_update list" and e1 where 2: "run_out (edit_event call) ev1 (e\<lparr>ep_fields := s1\<rparr>) = (us, e1)"
    by (cases "run_out (edit_event call) ev1 (e\<lparr>ep_fields := s1\<rparr>) :: 'd card_update list \<times> edit_projection") blast
  have "disjoint_fields (e\<lparr>ep_fields := s1\<rparr>)" using Cons.prems(1) by (simp add: disjoint_fields_def)
  from edit_events_follow[OF this 2] have f: "follows e (flats ev1) us e1" "ep_fields e1 = s1" by (simp_all add: follows_def)
  have "disjoint_fields e1" using f(1) Cons.prems(1) by (simp add: follows_def disjoint_fields_def)
  then obtain vs :: "'d card_update list" and e2 where 3: "stream_chunks placeholder u call xs (EditCard e1) = Inr (vs, EditCard e2)" "follows e1 (flats ev2) vs e2"
    using Cons.IH[of e1 ev2] 1(2) f(2) by auto
  have "stream_chunks placeholder u call (x # xs) (EditCard e) = Inr (us @ vs, EditCard e2)"
    using 1(1) 2 3(1) by (simp add: stream_arguments_delta_def edit_project_def)
  moreover have "follows e (flats evs) (us @ vs) e2" using follows_append[OF f(1) 3(2)] 1(3) by (simp add: flats_def)
  ultimately show ?case by blast
qed

definition member_content :: "(code list \<Rightarrow> string + code list) \<Rightarrow> string list \<Rightarrow> member \<Rightarrow> code list" where
  "member_content u names m =
     (case mb_value m of
        VString ps \<Rightarrow> (if pieces_text u (mb_key m) \<in> codes ` set names then unify_newlines 13 10 (pieces_text u ps) else [])
      | VRaw r \<Rightarrow> [])"

lemma shown_member:
  "shown (map codes names) False (member_flat u m) = (member_content u names m, False)"
proof (cases "mb_value m")
  case (VString ps)
  let ?k = "pieces_text u (mb_key m)"
  show ?thesis
  proof (cases "?k \<in> set (map codes names)")
    case True
    have "(case newline_chars 13 10 False (pieces_text u ps) of (out, p) \<Rightarrow> out @ (if p then [10] else []))
        = unify_newlines 13 10 (pieces_text u ps)"
      using newline_chars_one_pass[of "13::nat" 10 "pieces_text u ps"] unify_one_pass[of "13::nat" 10] by simp
    then show ?thesis using True VString
      by (auto simp: member_flat_def member_content_def shown_append shown_text Let_def split: prod.splits)
  next
    case False
    then show ?thesis using VString
      by (auto simp: member_flat_def member_content_def shown_append shown_other Let_def split: prod.splits)
  qed
qed (simp add: member_flat_def member_content_def Let_def)

lemma shown_members:
  "shown (map codes names) False (concat (map (member_flat u) ms)) = (concat (map (member_content u names) ms), False)"
  by (induction ms) (simp_all add: shown_append shown_member)

lemma codes_eq [simp]: "codes a = codes b \<longleftrightarrow> a = b"
  by (simp add: codes_def inj_map_eq_map inj_def)

text \<open>
  C24: the card of a Write call shows the text that is written. However the JSON text of the arguments is cut
  into pieces, no piece is an error, and the contents shown one after the other are the string values of the
  content fields with every kind of newline turned into a line feed, exactly as the edit itself does it: a
  carriage return at the end of a piece is held back until it is known what follows.
\<close>
theorem streamed_content_is_the_edit:
  assumes "normalized_name name = ''write''" "list_all (member_ok u) ms" "concat chunks = object_src ms"
  shows "\<exists>(updates :: 'd card_update list) p. stream_chunks placeholder u call chunks (tool_call_stream_new name None) = Inr (updates, p)
    \<and> content_texts updates = concat (map (member_content u content_fields) ms)"
proof -
  let ?e = "edit_projection_new path_fields content_fields"
  have new: "(tool_call_stream_new name None :: 'd presentation) = EditCard ?e" using assms(1) by (simp add: tool_call_stream_new_def)
  obtain s ev where s: "push_chunks u chunks json_fields_new = Inr (s, ev)" "flats ev = concat (map (member_flat u) ms)"
    using object_flats[OF assms(2,3)] by blast
  have "disjoint_fields ?e" by (auto simp: disjoint_fields_def edit_projection_new_def path_fields_def content_fields_def)
  then obtain us :: "'d card_update list" and e' where "stream_chunks placeholder u call chunks (EditCard ?e) = Inr (us, EditCard e')" "follows ?e (flats ev) us e'"
    using edit_chunks_follow[where 'd = 'd, of ?e u chunks s ev placeholder call] s(1) by (auto simp: edit_projection_new_def)
  moreover have "content_texts us = concat (map (member_content u content_fields) ms)"
    using \<open>follows ?e (flats ev) us e'\<close> s(2) shown_members[of content_fields u ms]
    by (simp add: follows_def edit_projection_new_def)
  ultimately show ?thesis unfolding new by blast
qed


section \<open>Replacing\<close>

fun glue :: "'a list \<Rightarrow> 'a list list \<Rightarrow> 'a list" where
  "glue sep [] = []"
| "glue sep [p] = p"
| "glue sep (p # q # ps) = p @ sep @ glue sep (q # ps)"

definition occurs :: "'a list \<Rightarrow> 'a list \<Rightarrow> bool" where
  "occurs pat s \<longleftrightarrow> (\<exists>a b. s = a @ pat @ b)"

lemma split_first_None: "split_first pat s = None \<longleftrightarrow> \<not> occurs pat s"
proof (induction s)
  case Nil
  then show ?case by (auto simp: occurs_def)
next
  case (Cons c cs)
  show ?case
  proof (cases "take (length pat) (c # cs) = pat")
    case True
    then have "c # cs = [] @ pat @ drop (length pat) (c # cs)" by (metis append_Nil append_take_drop_id)
    then have "occurs pat (c # cs)" unfolding occurs_def by blast
    then show ?thesis using True by simp
  next
    case False
    have "occurs pat (c # cs) \<longleftrightarrow> occurs pat cs"
    proof
      assume "occurs pat (c # cs)"
      then obtain a b where ab: "c # cs = a @ pat @ b" by (auto simp: occurs_def)
      then have "a \<noteq> []" using False by (metis append_Nil append_eq_conv_conj)
      then obtain a' where "a = c # a'" "cs = a' @ pat @ b" using ab by (cases a) auto
      then show "occurs pat cs" by (auto simp: occurs_def)
    next
      assume "occurs pat cs"
      then obtain a b where "cs = a @ pat @ b" by (auto simp: occurs_def)
      then have "c # cs = (c # a) @ pat @ b" by simp
      then show "occurs pat (c # cs)" unfolding occurs_def by blast
    qed
    then show ?thesis using False Cons by simp
  qed
qed

lemma split_first_before: "split_first pat s = Some (a, b) \<Longrightarrow> pat \<noteq> [] \<Longrightarrow> \<not> occurs pat a"
proof (induction pat s arbitrary: a b rule: split_first.induct)
  case (2 pat c cs)
  show ?case
  proof (cases "take (length pat) (c # cs) = pat")
    case True
    then show ?thesis using 2(2,3) by (auto simp: occurs_def)
  next
    case False
    then obtain a' where a': "split_first pat cs = Some (a', b)" "a = c # a'"
      using 2(2) by (auto simp del: take_Cons)
    have rest: "c # cs = a @ pat @ b" using split_first_Some[OF 2(2)] .
    show ?thesis
    proof
      assume "occurs pat a"
      then obtain x y where xy: "a = x @ pat @ y" by (auto simp: occurs_def)
      have "x \<noteq> []"
      proof
        assume "x = []"
        then have "take (length pat) (c # cs) = pat" using rest xy by simp
        then show False using False by simp
      qed
      then obtain x' where "x = c # x'" using xy a'(2) by (cases x) auto
      then have "occurs pat a'" using xy a'(2) by (auto simp: occurs_def)
      then show False using 2(1)[OF False a'(1) 2(3)] by simp
    qed
  qed
qed (auto split: if_splits)

lemma glue_Cons: "ps \<noteq> [] \<Longrightarrow> glue sep (p # ps) = p @ sep @ glue sep ps"
  by (cases ps) auto

lemma replace_all_pieces:
  "pat \<noteq> [] \<Longrightarrow> \<exists>ps. s = glue pat ps \<and> replace_all pat new s = glue new ps \<and> length ps = Suc (matches pat s)
    \<and> (\<forall>p\<in>set ps. \<not> occurs pat p)"
proof (induction "length s" arbitrary: s rule: less_induct)
  case less
  show ?case
  proof (cases "split_first pat s")
    case None
    then have "s = glue pat [s] \<and> replace_all pat new s = glue new [s] \<and> length [s] = Suc (matches pat s) \<and> (\<forall>p\<in>set [s]. \<not> occurs pat p)"
      using less.prems None by (simp add: replace_all.simps[of pat new s] matches.simps[of pat s] None flip: split_first_None)
    then show ?thesis by blast
  next
    case (Some ab)
    obtain a b where ab: "ab = (a, b)" by (cases ab)
    have s: "s = a @ pat @ b" using split_first_Some Some ab by blast
    obtain ps where ps: "b = glue pat ps" "replace_all pat new b = glue new ps" "length ps = Suc (matches pat b)" "\<forall>p\<in>set ps. \<not> occurs pat p"
      using less.hyps[of b] split_first_shorter[of pat s a b] Some ab less.prems by auto
    have "ps \<noteq> []" using ps(3) by auto
    then have g: "glue sep (a # ps) = a @ sep @ glue sep ps" for sep by (rule glue_Cons)
    have r: "replace_all pat new s = a @ new @ replace_all pat new b" "matches pat s = Suc (matches pat b)"
      using Some ab less.prems by (simp_all add: replace_all.simps[of pat new s] matches.simps[of pat s])
    have "s = glue pat (a # ps)" "replace_all pat new s = glue new (a # ps)" "length (a # ps) = Suc (matches pat s)"
        "\<forall>p\<in>set (a # ps). \<not> occurs pat p"
      using s ps r split_first_before[of pat s a b] Some ab less.prems by (simp_all only: g list.size list.set) auto
    then show ?thesis by blast
  qed
qed

lemma replace_once_all: "pat \<noteq> [] \<Longrightarrow> matches pat s = 1 \<Longrightarrow> replace_once pat new s = replace_all pat new s"
proof -
  assume p: "pat \<noteq> []" "matches pat s = 1"
  then obtain a b where ab: "split_first pat s = Some (a, b)" "matches pat b = 0"
    by (subst (asm) matches.simps) (auto split: option.splits)
  have "split_first pat b = None" using ab(2) p(1) by (simp add: matches.simps[of pat b] split: option.splits prod.splits)
  then show ?thesis using ab(1) p(1) by (simp add: replace_once_def replace_all.simps[of pat new s] replace_all.simps[of pat new b])
qed

text \<open>
  C25: a StrReplace changes exactly the occurrences. Whenever it succeeds, the file was the old text between
  some pieces, none of which contains the old text, and the new file has the new text between the same pieces;
  without \<open>replace_all\<close> there was exactly one occurrence.
\<close>
theorem replacement_changes_occurrences:
  assumes "replace_string call before = Inr edited"
  shows "\<exists>old new ps. text_arg call [''old_string''] = Inr old \<and> text_arg call [''new_string''] = Inr new
    \<and> before = glue old ps \<and> edited = glue new ps \<and> (\<forall>p\<in>set ps. \<not> occurs old p) \<and> 2 \<le> length ps
    \<and> (bool_arg (call_arguments call) ''replace_all'' \<or> length ps = 2)"
proof -
  obtain old new where a: "text_arg call [''old_string''] = Inr old" "text_arg call [''new_string''] = Inr new" "old \<noteq> []"
      "matches old before \<noteq> 0" "bool_arg (call_arguments call) ''replace_all'' \<or> matches old before = 1"
      "edited = replace_all old new before"
    using assms by (auto simp: replace_string_def replace_once_all split: if_splits)
  obtain ps where "before = glue old ps" "replace_all old new before = glue new ps" "length ps = Suc (matches old before)"
      "\<forall>p\<in>set ps. \<not> occurs old p"
    using replace_all_pieces[OF a(3)] by blast
  then show ?thesis using a by auto
qed


section \<open>One queue per file\<close>

definition plain_component :: "string \<Rightarrow> bool" where
  "plain_component c \<longleftrightarrow> c \<noteq> [] \<and> c \<noteq> dot \<and> c \<noteq> dotdot \<and> \<not> list_ex separator c"

text \<open>A canonical path climbs first, if at all, and then only descends.\<close>

definition canonical :: "string list \<Rightarrow> bool" where
  "canonical cs \<longleftrightarrow> (\<exists>k rest. cs = replicate k dotdot @ rest \<and> list_all plain_component rest)"

lemma split_where_simps:
  "P c \<Longrightarrow> split_where P (a @ c # b) = split_where P a @ split_where P b"
proof (induction a)
  case (Cons x a)
  have "split_where P s \<noteq> []" for s by (induction s) (auto split: list.splits)
  then show ?case using Cons by (auto split: list.splits)
qed simp

lemma split_where_plain: "\<not> list_ex P w \<Longrightarrow> split_where P w = [w]"
  by (induction w) (auto split: list.splits)

lemma split_where_no_sep: "w \<in> set (split_where P s) \<Longrightarrow> \<not> list_ex P w"
proof (induction s arbitrary: w)
  case (Cons c s)
  then show ?case by (cases "split_where P s") (auto split: if_splits)
qed simp

lemma push_component_canonical:
  assumes "canonical (rev acc)" "\<not> list_ex separator c"
  shows "canonical (rev (push_component acc c))"
proof -
  obtain k rest where kr: "rev acc = replicate k dotdot @ rest" "list_all plain_component rest"
    using assms(1) by (auto simp: canonical_def)
  consider "c = [] \<or> c = dot" | "c = dotdot" | "plain_component c" using assms(2) by (auto simp: plain_component_def)
  then show ?thesis
  proof cases
    case 1
    then show ?thesis using assms(1) by (simp add: push_component_def)
  next
    case 2
    have c: "c \<noteq> [] \<and> c \<noteq> dot" using 2 by (simp add: dotdot_def dot_def)
    show ?thesis
    proof (cases rest rule: rev_cases)
      case Nil
      then have "acc = replicate k dotdot" using kr(1) by (metis append_Nil2 rev_replicate rev_rev_ident)
      then have "push_component acc c = replicate (Suc k) dotdot" using c 2 by (cases k) (simp_all add: push_component_def)
      then show ?thesis unfolding canonical_def by (intro exI[of _ "Suc k"] exI[of _ "[]"]) (simp add: replicate_append_same)
    next
      case (snoc r p)
      then have a: "acc = p # rev (replicate k dotdot @ r)" using kr(1) by (metis append_assoc rev_eq_Cons_iff rev_rev_ident)
      have "p \<noteq> dotdot" using kr(2) snoc by (simp add: plain_component_def)
      then have "rev (push_component acc c) = replicate k dotdot @ r" using c 2 a by (simp add: push_component_def)
      then show ?thesis using kr(2) snoc unfolding canonical_def by auto
    qed
  next
    case 3
    then have "rev (push_component acc c) = replicate k dotdot @ (rest @ [c])"
      using kr(1) by (auto simp: push_component_def plain_component_def)
    then show ?thesis using kr(2) 3 unfolding canonical_def by (intro exI[of _ k] exI[of _ "rest @ [c]"]) simp
  qed
qed

lemma components_canonical: "canonical (components s)"
proof -
  have "canonical (rev (foldl push_component acc ws))" if "canonical (rev acc)" "\<forall>w\<in>set ws. \<not> list_ex separator w" for acc ws
    using that by (induction ws arbitrary: acc) (auto intro: push_component_canonical)
  moreover have "canonical (rev [])" by (auto simp: canonical_def intro: exI[of _ 0])
  ultimately show ?thesis unfolding components_def using split_where_no_sep by metis
qed

lemma push_canonical: "canonical (rev acc @ [c]) \<Longrightarrow> push_component acc c = c # acc"
proof -
  assume "canonical (rev acc @ [c])"
  then obtain k rest where kr: "rev acc @ [c] = replicate k dotdot @ rest" "list_all plain_component rest"
    by (auto simp: canonical_def)
  show ?thesis
  proof (cases rest rule: rev_cases)
    case Nil
    then have r: "rev acc @ [c] = replicate k dotdot" using kr(1) by simp
    then have all: "\<forall>x\<in>set (rev acc @ [c]). x = dotdot" by (metis in_set_replicate)
    then show ?thesis by (cases acc) (auto simp: push_component_def dotdot_def dot_def)
  next
    case (snoc r p)
    then have "plain_component c" using kr by simp
    then show ?thesis by (auto simp: push_component_def plain_component_def)
  qed
qed

lemma canonical_prefix: "canonical (a @ b) \<Longrightarrow> canonical a"
proof -
  assume "canonical (a @ b)"
  then obtain k rest where kr: "a @ b = replicate k dotdot @ rest" "list_all plain_component rest" by (auto simp: canonical_def)
  show ?thesis
  proof (cases "length a \<le> k")
    case True
    then have "a = replicate (length a) dotdot @ []"
      using kr(1) by (metis append_Nil2 append_eq_append_conv_if append_eq_conv_conj length_replicate min.absorb1 take_replicate)
    then show ?thesis unfolding canonical_def by (intro exI[of _ "length a"] exI[of _ "[]"]) simp
  next
    case False
    then have "a = replicate k dotdot @ take (length a - k) rest"
      using kr(1) by (metis append_eq_conv_conj le_cases length_replicate take_all_iff take_append take_replicate min_def)
    moreover have "list_all plain_component (take (length a - k) rest)" using kr(2) by (auto simp: list_all_iff dest: in_set_takeD)
    ultimately show ?thesis unfolding canonical_def by blast
  qed
qed

lemma foldl_canonical: "canonical (rev acc @ cs) \<Longrightarrow> foldl push_component acc cs = rev cs @ acc"
proof (induction cs arbitrary: acc)
  case (Cons c cs)
  have "push_component acc c = c # acc" using push_canonical canonical_prefix[of "rev acc @ [c]" cs] Cons.prems by simp
  then show ?case using Cons.IH[of "c # acc"] Cons.prems by simp
qed simp

lemma canonical_pieces: "canonical cs \<Longrightarrow> c \<in> set cs \<Longrightarrow> \<not> list_ex separator c \<and> c \<noteq> []"
proof -
  assume c: "canonical cs" "c \<in> set cs"
  then obtain k rest where kr: "cs = replicate k dotdot @ rest" "list_all plain_component rest" by (auto simp: canonical_def)
  then consider "c = dotdot" | "plain_component c" using c(2) by (auto simp: list_all_iff split: if_splits)
  then show ?thesis by cases (simp_all add: plain_component_def dotdot_def separator_def)
qed

lemma split_join:
  "cs \<noteq> [] \<Longrightarrow> \<forall>c\<in>set cs. \<not> list_ex separator c \<Longrightarrow> split_where separator (join_slash cs) = cs"
proof (induction cs rule: join_slash.induct)
  case (3 w v ws)
  have "split_where separator (join_slash (v # ws)) = v # ws" using 3 by simp
  moreover have "split_where separator w = [w]" using 3(3) by (simp add: split_where_plain)
  moreover have "separator (CHR ''/'')" by (simp add: separator_def)
  ultimately show ?case using split_where_simps[of separator "CHR ''/''" w "join_slash (v # ws)"] by simp
qed (simp_all add: split_where_plain)

lemma components_join: "canonical cs \<Longrightarrow> components (join_slash cs) = cs"
proof -
  assume c: "canonical cs"
  show ?thesis
  proof (cases "cs = []")
    case False
    then have "split_where separator (join_slash cs) = cs" using split_join canonical_pieces[OF c] by blast
    then show ?thesis using foldl_canonical[of "[]" cs] c by (simp add: components_def)
  qed (simp add: components_def push_component_def)
qed

lemma components_cut:
  assumes "separator s" "separator t"
  shows "components (a @ s # b) = components (a @ t # b)"
    "components (a @ s # t # b) = components (a @ t # b)"
    "components (a @ s # dot @ t # b) = components (a @ t # b)"
    "plain_component w \<Longrightarrow> components (a @ s # w @ t # dotdot @ s # b) = components (a @ t # b)"
proof -
  have p: "push_component acc [] = acc" "push_component acc dot = acc" for acc by (simp_all add: push_component_def)
  have d: "split_where separator dot = [dot]" "split_where separator dotdot = [dotdot]"
    by (simp_all add: split_where_plain dot_def dotdot_def separator_def)
  have sp: "split_where separator (a @ c # b) = split_where separator a @ split_where separator b" if "separator c" for a c b
    using that by (rule split_where_simps)
  have e: "split_where separator (c # b) = [] # split_where separator b" if "separator c" for c b
    using sp[OF that, of "[]" b] by simp
  show "components (a @ s # b) = components (a @ t # b)" using assms by (simp add: components_def sp)
  show "components (a @ s # t # b) = components (a @ t # b)" using assms by (simp add: components_def sp e p)
  show "components (a @ s # dot @ t # b) = components (a @ t # b)" using assms by (simp add: components_def sp d p)
  assume w: "plain_component w"
  then have sw: "split_where separator w = [w]" by (simp add: plain_component_def split_where_plain)
  have "push_component (push_component acc w) dotdot = acc" for acc
    using w by (simp add: push_component_def plain_component_def dotdot_def dot_def)
  then show "components (a @ s # w @ t # dotdot @ s # b) = components (a @ t # b)"
    using assms by (simp add: components_def sp d sw)
qed

text \<open>
  However a file is spelled, its edits share a queue. Off Windows, the key of a path does not depend on
  whether \<open>/\<close> or a backslash separates its components, on doubled separators, on \<open>.\<close> components, or on a
  component that the next \<open>..\<close> leaves again; two paths have the same key exactly when these rules make them the
  same list of components.
\<close>
theorem spelling_does_not_matter:
  assumes "separator s" "separator t" "plain_component w"
  shows "(schedule_key False lower p roots = schedule_key False lower q roots)
      = (components (rooted_path False p roots) = components (rooted_path False q roots))
    \<and> components (a @ s # b) = components (a @ t # b)
    \<and> components (a @ s # t # b) = components (a @ t # b)
    \<and> components (a @ s # dot @ t # b) = components (a @ t # b)
    \<and> components (a @ s # w @ t # dotdot @ s # b) = components (a @ t # b)"
proof -
  have "(join_slash (components x) = join_slash (components y)) = (components x = components y)" for x y
    using components_join[OF components_canonical] by metis
  then show ?thesis using components_cut[OF assms(1,2)] assms(3) by (simp add: schedule_key_def)
qed

lemma spelling_does_not_matter_witness:
  "components (''src'' @ CHR ''/'' # ''x'' @ CHR 0x5C # dotdot @ CHR ''/'' # ''a.rs'') = components (''src'' @ CHR 0x5C # ''a.rs'')"
  using spelling_does_not_matter[of "CHR ''/''" "CHR 0x5C" "''x''" id "[]" "[]" "[]" "''src''" "''a.rs''"]
  by (simp add: separator_def plain_component_def dot_def dotdot_def)

text \<open>The root has no parent, so \<open>/../a\<close> is the file \<open>/a\<close>; the keys differ.\<close>

lemma parent_of_the_root:
  "schedule_key False lower ''/../a'' [] \<noteq> schedule_key False lower ''/a'' []"
proof -
  have t: "trim_text ''/../a'' = ''/../a''" "trim_text ''/a'' = ''/a''"
    by (intro plain_trim; simp add: plain_text_def is_whitespace_def)+
  show ?thesis
    by (simp add: schedule_key_def rooted_path_def t components_def separator_def push_component_def dot_def dotdot_def)
qed


section \<open>Notebooks\<close>

lemma lines_concat: "concat (lines_inclusive s) = s"
  by (induction s) (auto split: list.splits)

lemma string_values_lines: "string_values (map JStr ws) = Some (concat ws)"
  by (induction ws) auto

lemma unify_no_cr: "cr \<noteq> lf \<Longrightarrow> cr \<notin> set (unify_newlines cr lf s)"
proof -
  assume n: "cr \<noteq> lf"
  have "cr \<notin> set (one_pass cr lf s)" using n by (induction cr lf s rule: one_pass.induct) auto
  then show ?thesis using unify_one_pass[OF n] by simp
qed

lemma unify_id: "cr \<noteq> lf \<Longrightarrow> cr \<notin> set s \<Longrightarrow> unify_newlines cr lf s = s"
proof -
  assume n: "cr \<noteq> lf" "cr \<notin> set s"
  have "one_pass cr lf s = s" using n by (induction cr lf s rule: one_pass.induct) auto
  then show ?thesis using unify_one_pass[OF n(1)] by simp
qed

lemma normalized_no_cr: "CHR 0x0D \<notin> set (normalize_newlines s)"
  by (simp add: normalize_newlines_def unify_no_cr)

lemma normalize_id: "CHR 0x0D \<notin> set s \<Longrightarrow> normalize_newlines s = s"
  by (simp add: normalize_newlines_def unify_id)

lemma source_round_trip: "CHR 0x0D \<notin> set s \<Longrightarrow> notebook_source (JArr (source_lines s)) = Inr s"
  by (simp add: notebook_source_def source_lines_def string_values_lines lines_concat normalize_id)

lemma text_arg_no_cr: "text_arg call ns = Inr s \<Longrightarrow> CHR 0x0D \<notin> set s"
  by (auto simp: text_arg_def normalized_no_cr split: sum.splits)

lemma notebook_source_no_cr: "notebook_source v = Inr s \<Longrightarrow> CHR 0x0D \<notin> set s"
  by (auto simp: notebook_source_def normalized_no_cr split: json.splits option.splits)

lemma json_member_set: "smap_ok kvs \<Longrightarrow> json_member (set_member key v (JObj kvs)) k = (if k = key then Some v else map_of kvs k)"
  by (simp add: json_member_def set_member_def)

definition cell_source :: "json \<Rightarrow> string + string" where
  "cell_source cell = (case json_member cell ''source'' of Some v \<Rightarrow> notebook_source v | None \<Rightarrow> Inr [])"

text \<open>The members of an object are in the order of their keys, as in a BTreeMap.\<close>

definition ordered_object :: "json \<Rightarrow> bool" where
  "ordered_object v \<longleftrightarrow> (case v of JObj kvs \<Rightarrow> smap_ok kvs | _ \<Rightarrow> True)"

lemma edited_cell_spec:
  assumes "edited_cell call new cell = Inr cell'" "ordered_object cell" "CHR 0x0D \<notin> set new"
  shows "\<exists>old a b. text_arg call [''old_string''] = Inr old \<and> cell_source cell = Inr (a @ old @ b)
    \<and> matches old (a @ old @ b) = 1 \<and> cell_source cell' = Inr (a @ new @ b)
    \<and> (\<forall>k. k \<noteq> ''source'' \<longrightarrow> json_member cell' k = json_member cell k)"
proof -
  obtain source old where s: "cell_source cell = Inr source" "text_arg call [''old_string''] = Inr old" "old \<noteq> []"
      "matches old source = 1" "cell' = set_member ''source'' (JArr (source_lines (replace_once old new source))) cell"
    using assms(1) by (auto simp: edited_cell_def cell_source_def split: if_splits)
  obtain a b where ab: "split_first old source = Some (a, b)"
    using s(3,4) by (auto simp: matches.simps[of old source] split: option.splits)
  have src: "source = a @ old @ b" using split_first_Some[OF ab] .
  have "\<exists>kvs. cell = JObj kvs"
  proof (rule ccontr)
    assume "\<nexists>kvs. cell = JObj kvs"
    then have "source = []" using s(1) by (cases cell) (auto simp: cell_source_def json_member_def)
    then show False using src s(3) by simp
  qed
  then obtain kvs where kvs: "cell = JObj kvs" "smap_ok kvs" using assms(2) by (auto simp: ordered_object_def)
  have "CHR 0x0D \<notin> set source"
    using s(1) notebook_source_no_cr by (auto simp: cell_source_def split: option.splits)
  then have "CHR 0x0D \<notin> set (a @ new @ b)" using src assms(3) by simp
  moreover have "replace_once old new source = a @ new @ b" using ab by (simp add: replace_once_def)
  ultimately have "cell_source cell' = Inr (a @ new @ b)"
    using kvs s(5) by (simp add: cell_source_def json_member_set source_round_trip)
  moreover have "\<forall>k. k \<noteq> ''source'' \<longrightarrow> json_member cell' k = json_member cell k"
    using kvs s(5) by (auto simp: json_member_set) (simp_all add: json_member_def)
  ultimately show ?thesis using s(1,2,4) src by blast
qed

text \<open>
  An EditNotebook changes one cell. Editing an existing cell, when it succeeds, replaces the one
  occurrence of the old text in the source of the cell with the given index by the new text; the other members
  of the cell and all other cells stay as they were. A new cell is put at the index, and the others keep their
  order.
\<close>
theorem notebook_edit_changes_one_cell:
  assumes "edit_cells call cells = Inr cells'" "list_all ordered_object cells"
  shows "\<exists>i new. u64_arg (call_arguments call) ''cell_idx'' = Some i \<and> text_arg call [''new_string''] = Inr new \<and>
    (if bool_arg (call_arguments call) ''is_new_cell''
     then i \<le> length cells \<and> (\<exists>cell. cells' = take i cells @ [cell] @ drop i cells \<and> cell_source cell = Inr new)
     else i < length cells \<and> cells' = cells[i := cells' ! i]
       \<and> (\<forall>k. k \<noteq> ''source'' \<longrightarrow> json_member (cells' ! i) k = json_member (cells ! i) k)
       \<and> (\<exists>old a b. text_arg call [''old_string''] = Inr old \<and> matches old (a @ old @ b) = 1
            \<and> cell_source (cells ! i) = Inr (a @ old @ b) \<and> cell_source (cells' ! i) = Inr (a @ new @ b)))"
proof -
  obtain i new where i: "u64_arg (call_arguments call) ''cell_idx'' = Some i" "text_arg call [''new_string''] = Inr new"
    using assms(1) by (auto simp: edit_cells_def split: option.splits)
  have cr: "CHR 0x0D \<notin> set new" using text_arg_no_cr[OF i(2)] .
  show ?thesis
  proof (cases "bool_arg (call_arguments call) ''is_new_cell''")
    case True
    then obtain language where l: "i \<le> length cells" "cells' = take i cells @ [new_cell language new] @ drop i cells"
      using assms(1) i by (auto simp: edit_cells_def not_less split: if_splits sum.splits)
    have "json_member (new_cell language new) ''source'' = Some (JArr (source_lines new))"
      by (simp add: new_cell_def Let_def json_member_def set_member_def)
    then have "cell_source (new_cell language new) = Inr new" using cr by (simp add: cell_source_def source_round_trip)
    then show ?thesis using True i l by auto
  next
    case False
    then obtain cell where c: "i < length cells" "edited_cell call new (cells ! i) = Inr cell" "cells' = cells[i := cell]"
      using assms(1) i by (auto simp: edit_cells_def split: if_splits)
    have "ordered_object (cells ! i)" using assms(2) c(1) by (simp add: list_all_length)
    then obtain old a b where "text_arg call [''old_string''] = Inr old" "cell_source (cells ! i) = Inr (a @ old @ b)"
        "matches old (a @ old @ b) = 1" "cell_source cell = Inr (a @ new @ b)"
        "\<forall>k. k \<noteq> ''source'' \<longrightarrow> json_member cell k = json_member (cells ! i) k"
      using edited_cell_spec[OF c(2) _ cr] by blast
    then show ?thesis using False i c by auto
  qed
qed

definition edit_demo_call :: "string \<Rightarrow> (string \<times> json) list \<Rightarrow> tool_call" where
  "edit_demo_call name arguments =
     \<lparr>call_index = 0, call_id = ''call'', model_call_id = ''model'', call_name = name, arguments_text = [],
      call_arguments = JObj arguments, argument_error = None\<rparr>"

lemma demo_normalized: "CHR 0x0D \<notin> set s \<Longrightarrow> string_any call ns = Inr s \<Longrightarrow> text_arg call ns = Inr s"
  by (simp add: text_arg_def normalize_id)

lemma notebook_edit_changes_one_cell_witness:
  "\<exists>cells'. edit_cells (edit_demo_call ''EditNotebook'' [(''cell_idx'', JNum ''0''), (''old_string'', JStr ''b''), (''new_string'', JStr ''x'')])
       [JObj [(''source'', JStr ''abc'')]] = Inr cells'
     \<and> cell_source (cells' ! 0) = Inr ''axc''"
proof -
  let ?call = "edit_demo_call ''EditNotebook'' [(''cell_idx'', JNum ''0''), (''old_string'', JStr ''b''), (''new_string'', JStr ''x'')]"
  have m: "matches ''b'' ''abc'' = 1" "matches ''b'' ''c'' = 0" by (simp_all add: matches.simps)
  have args: "text_arg ?call [''old_string''] = Inr ''b''" "text_arg ?call [''new_string''] = Inr ''x''"
      "u64_arg (call_arguments ?call) ''cell_idx'' = Some 0" "\<not> bool_arg (call_arguments ?call) ''is_new_cell''"
    by (simp_all add: demo_normalized string_any_def string_arg_def json_member_def edit_demo_call_def u64_arg_def bool_arg_def
        parse_u64_def digits_value_def digit_value_def is_ascii_digit_def u64_max_def)
  have src: "notebook_source (JStr ''abc'') = Inr ''abc''" by (simp add: notebook_source_def normalize_id)
  obtain cells' where c: "edit_cells ?call [JObj [(''source'', JStr ''abc'')]] = Inr cells'"
    using m args src by (simp add: edit_cells_def edited_cell_def json_member_def)
  obtain old a b where o: "text_arg ?call [''old_string''] = Inr old" "Inr ''abc'' = (Inr (a @ old @ b) :: string + string)"
      "cell_source (cells' ! 0) = Inr (a @ ''x'' @ b)"
    using notebook_edit_changes_one_cell[OF c] args src
    by (auto simp: ordered_object_def cell_source_def[of "JObj _"] json_member_def smap_ok_def)
  then have "old = ''b''" "''abc'' = a @ old @ b" using args by auto
  then have "a = ''a'' \<and> b = ''c''" by (auto simp: Cons_eq_append_conv)
  then show ?thesis using c o(3) by simp
qed

lemma replacement_changes_occurrences_witness:
  "\<exists>ps. replace_string (edit_demo_call ''StrReplace'' [(''old_string'', JStr ''b''), (''new_string'', JStr ''x''), (''replace_all'', JBool True)]) ''abcb''
      = Inr ''axcx'' \<and> ''abcb'' = glue ''b'' ps \<and> ''axcx'' = glue ''x'' ps"
proof -
  let ?call = "edit_demo_call ''StrReplace'' [(''old_string'', JStr ''b''), (''new_string'', JStr ''x''), (''replace_all'', JBool True)]"
  have args: "text_arg ?call [''old_string''] = Inr ''b''" "text_arg ?call [''new_string''] = Inr ''x''" "bool_arg (call_arguments ?call) ''replace_all''"
    by (simp_all add: demo_normalized string_any_def string_arg_def json_member_def edit_demo_call_def bool_arg_def)
  have r: "replace_string ?call ''abcb'' = Inr ''axcx''"
    using args by (simp add: replace_string_def matches.simps replace_all.simps)
  show ?thesis using replacement_changes_occurrences[OF r] args r by auto
qed

lemma streamed_content_is_the_edit_witness:
  "\<exists>(updates :: unit card_update list) p.
     stream_chunks (\<lambda>_. Inr ()) (\<lambda>e. Inr [10]) (edit_demo_call ''Write'' [])
       [[123, 34, 99, 111, 110, 116, 101, 110, 116, 34, 58, 34, 97, 92], [110, 34, 125]] (tool_call_stream_new ''Write'' None)
       = Inr (updates, p)
     \<and> content_texts updates = [97, 10]"
proof -
  let ?u = "\<lambda>e :: code list. Inr [10] :: string + code list"
  let ?ms = "[\<lparr>mb_spaces = ([], [], [], []), mb_key = map Plain (codes ''content''), mb_value = VString [Plain 97, Simple 110]\<rparr>]"
  have ok: "list_all (member_ok ?u) ?ms"
    by (simp add: member_ok_def piece_ok_def simple_escapes_def codes_def quote_def backslash_def)
  have src: "concat [[123, 34, 99, 111, 110, 116, 101, 110, 116, 34, 58, 34, 97, 92], [110, 34, 125]] = object_src ?ms"
    by (simp add: object_src_def member_src_def string_src_def codes_def lbrace_def rbrace_def quote_def backslash_def colon_def)
  have w: "normalized_name ''Write'' = ''write''" by code_simp
  have k: "pieces_text ?u (map Plain (codes ''content'')) = codes ''content''"
    by (simp add: pieces_text_def codes_def)
  have "concat (map (member_content ?u content_fields) ?ms) = [97, 10]"
    using unify_id[of "13::nat" 10 "[97, 10]"] by (simp add: member_content_def k content_fields_def) (simp add: pieces_text_def)
  then show ?thesis
    using streamed_content_is_the_edit[OF w ok src, of "\<lambda>_. Inr ()" "edit_demo_call ''Write'' []"]
    by (simp del: stream_chunks.simps)
qed

end
