(* ===== verification/EditSchedule.thy ===== *)
theory EditSchedule
  imports Model
begin

text \<open>
  The queue of file edits (src/server/src/cursor/tools/schedule.rs): edits of one file run one at a time, in the
  order they came. The hash maps are partial functions; the execution context an edit carries is a parameter.
\<close>

section \<open>The schedule\<close>

record 'c deferred_edit =
  de_call :: tool_call
  de_message_index :: nat
  de_context :: 'c

abbreviation edit_id :: "'c deferred_edit \<Rightarrow> string" where
  "edit_id e \<equiv> call_id (de_call e)"

record 'c edit_path_queue =
  eq_active :: string
  eq_waiting :: "'c deferred_edit list"

record 'c edit_schedule =
  es_paths :: "string \<rightharpoonup> 'c edit_path_queue"
  es_active_paths :: "string \<rightharpoonup> string"

definition schedule_new :: "'c edit_schedule" where
  "schedule_new = \<lparr>es_paths = Map.empty, es_active_paths = Map.empty\<rparr>"

definition schedule_clear :: "'c edit_schedule \<Rightarrow> 'c edit_schedule" where
  "schedule_clear s = s\<lparr>es_paths := Map.empty, es_active_paths := Map.empty\<rparr>"

definition start_or_defer ::
  "string \<Rightarrow> 'c deferred_edit \<Rightarrow> 'c edit_schedule \<Rightarrow> 'c deferred_edit option \<times> 'c edit_schedule" where
  "start_or_defer path edit s =
     (case es_paths s path of
        Some q \<Rightarrow> (None, s\<lparr>es_paths := (es_paths s)(path \<mapsto> q\<lparr>eq_waiting := eq_waiting q @ [edit]\<rparr>)\<rparr>)
      | None \<Rightarrow>
          (Some edit,
           s\<lparr>es_active_paths := (es_active_paths s)(edit_id edit \<mapsto> path),
             es_paths := (es_paths s)(path \<mapsto> \<lparr>eq_active = edit_id edit, eq_waiting = []\<rparr>)\<rparr>))"

definition schedule_complete ::
  "string \<Rightarrow> 'c edit_schedule \<Rightarrow> 'c deferred_edit option result \<times> 'c edit_schedule" where
  "schedule_complete cid s =
     (case es_active_paths s cid of
        None \<Rightarrow> (Inr None, s)
      | Some path \<Rightarrow>
          (let s1 = s\<lparr>es_active_paths := (es_active_paths s)(cid := None)\<rparr>
           in case es_paths s1 path of
                None \<Rightarrow> (Inl (Protocol (''active edit path disappeared for call '' @ cid)), s1)
              | Some q \<Rightarrow>
                  (if eq_active q \<noteq> cid
                   then (Inl (Protocol (''edit path is active for '' @ eq_active q @ '', not '' @ cid)), s1)
                   else
                     (case eq_waiting q of
                        e # rest \<Rightarrow>
                          (Inr (Some e),
                           s1\<lparr>es_paths := (es_paths s1)(path \<mapsto> \<lparr>eq_active = edit_id e, eq_waiting = rest\<rparr>),
                              es_active_paths := (es_active_paths s1)(edit_id e \<mapsto> path)\<rparr>)
                      | [] \<Rightarrow> (Inr None, s1\<lparr>es_paths := (es_paths s1)(path := None)\<rparr>)))))"


section \<open>The specification: one log of unfinished edits\<close>

text \<open>
  The edits not yet finished, in the order they came, each with its file. An edit runs when no earlier one in
  the log is for the same file.
\<close>

type_synonym 'c edit_log = "(string \<times> 'c deferred_edit) list"

definition on_path :: "string \<Rightarrow> 'c edit_log \<Rightarrow> 'c deferred_edit list" where
  "on_path path log = map snd (filter (\<lambda>(p, e). p = path) log)"

definition running :: "'c edit_log \<Rightarrow> (string \<times> 'c deferred_edit) list" where
  "running log = filter (\<lambda>(p, e). hd (on_path p log) = e) log"

definition log_start :: "string \<Rightarrow> 'c deferred_edit \<Rightarrow> 'c edit_log \<Rightarrow> 'c deferred_edit option \<times> 'c edit_log" where
  "log_start path edit log = (if on_path path log = [] then Some edit else None, log @ [(path, edit)])"

definition log_complete :: "string \<Rightarrow> 'c edit_log \<Rightarrow> 'c deferred_edit option \<times> 'c edit_log" where
  "log_complete cid log =
     (case find (\<lambda>(p, e). edit_id e = cid) log of
        Some (path, e) \<Rightarrow>
          (if edit_id (hd (on_path path log)) = cid then
             (let log' = filter (\<lambda>(p, e). edit_id e \<noteq> cid) log
              in (case on_path path log' of [] \<Rightarrow> None | e # _ \<Rightarrow> Some e, log'))
           else (None, log))
      | None \<Rightarrow> (None, log))"


section \<open>The schedule implements the specification\<close>

definition log_distinct :: "'c edit_log \<Rightarrow> bool" where
  "log_distinct log \<longleftrightarrow> distinct (map (\<lambda>(p, e). edit_id e) log)"

definition queue_of :: "'c deferred_edit list \<Rightarrow> 'c edit_path_queue option" where
  "queue_of es = (case es of [] \<Rightarrow> None | e # rest \<Rightarrow> Some \<lparr>eq_active = edit_id e, eq_waiting = rest\<rparr>)"

definition schedule_of :: "'c edit_schedule \<Rightarrow> 'c edit_log \<Rightarrow> bool" where
  "schedule_of s log \<longleftrightarrow>
     log_distinct log
     \<and> (\<forall>p. es_paths s p = queue_of (on_path p log))
     \<and> (\<forall>i p. es_active_paths s i = Some p \<longleftrightarrow> (\<exists>e rest. on_path p log = e # rest \<and> edit_id e = i))"

lemma on_path_simps [simp]:
  "on_path p [] = []" "on_path p ((q, e) # log) = (if q = p then e # on_path p log else on_path p log)"
  "on_path p (l1 @ l2) = on_path p l1 @ on_path p l2"
  by (simp_all add: on_path_def)

lemma on_path_mem: "e \<in> set (on_path p log) \<longleftrightarrow> (p, e) \<in> set log"
  by (force simp: on_path_def)

lemma log_distinct_path: "log_distinct log \<Longrightarrow> (p, e) \<in> set log \<Longrightarrow> (q, d) \<in> set log \<Longrightarrow> edit_id e = edit_id d \<Longrightarrow> p = q \<and> e = d"
  by (force simp: log_distinct_def distinct_map inj_on_def)

lemma on_path_distinct: "log_distinct log \<Longrightarrow> distinct (map edit_id (on_path p log))"
  by (induction log) (auto simp: log_distinct_def on_path_def)

lemma on_path_remove:
  "on_path p (filter (\<lambda>(p, e). edit_id e \<noteq> cid) log) = filter (\<lambda>e. edit_id e \<noteq> cid) (on_path p log)"
  by (induction log) (auto split: if_split_asm)

lemma log_distinct_filter: "log_distinct log \<Longrightarrow> log_distinct (filter P log)"
  by (simp add: log_distinct_def distinct_map_filter)

lemma start_refines:
  assumes r: "schedule_of s log" and fresh: "edit_id edit \<notin> (\<lambda>(p, e). edit_id e) ` set log"
  shows "fst (start_or_defer path edit s) = fst (log_start path edit log)
    \<and> schedule_of (snd (start_or_defer path edit s)) (snd (log_start path edit log))"
proof -
  let ?log = "log @ [(path, edit)]"
  have d: "log_distinct ?log" using r fresh by (auto simp: schedule_of_def log_distinct_def)
  have paths: "es_paths s p = queue_of (on_path p log)" for p using r by (simp add: schedule_of_def)
  have active: "es_active_paths s i = Some p \<longleftrightarrow> (\<exists>e rest. on_path p log = e # rest \<and> edit_id e = i)" for i p
    using r by (simp add: schedule_of_def)
  have unused: "edit_id e \<noteq> edit_id edit" if "on_path p log = e # rest" for p e rest
    using that fresh on_path_mem[of e p log] by force
  show ?thesis
  proof (cases "on_path path log")
    case Nil
    then have "start_or_defer path edit s = (Some edit,
        s\<lparr>es_active_paths := (es_active_paths s)(edit_id edit \<mapsto> path),
          es_paths := (es_paths s)(path \<mapsto> \<lparr>eq_active = edit_id edit, eq_waiting = []\<rparr>)\<rparr>)"
      by (simp add: start_or_defer_def paths queue_of_def)
    moreover have "es_active_paths s (edit_id edit) = None"
      using active[of "edit_id edit"] unused by (metis option.exhaust)
    ultimately show ?thesis
      using Nil d unused by (auto simp: schedule_of_def log_start_def paths queue_of_def active)
  next
    case (Cons e rest)
    then show ?thesis
      using d by (auto simp: start_or_defer_def schedule_of_def log_start_def paths queue_of_def active append_eq_Cons_conv)
  qed
qed


lemma active_is_head:
  "schedule_of s log \<Longrightarrow> es_active_paths s cid = Some path \<Longrightarrow> \<exists>e rest. on_path path log = e # rest \<and> edit_id e = cid"
  by (simp add: schedule_of_def)

lemma complete_refines:
  assumes r: "schedule_of s log"
  shows "fst (schedule_complete cid s) = Inr (fst (log_complete cid log))
    \<and> schedule_of (snd (schedule_complete cid s)) (snd (log_complete cid log))"
proof (cases "es_active_paths s cid")
  case None
  have "log_complete cid log = (None, log)"
  proof (cases "find (\<lambda>(p, e). edit_id e = cid) log")
    case (Some x)
    obtain p e where x: "x = (p, e)" by (cases x)
    have m: "(p, e) \<in> set log" using find_SomeD[OF Some] x by auto
    then obtain h t where h: "on_path p log = h # t" using on_path_mem[of e p log] by (cases "on_path p log") auto
    have "es_active_paths s (edit_id h) = Some p" using r h by (simp add: schedule_of_def)
    then have "edit_id h \<noteq> cid" using None by auto
    then show ?thesis using Some x h by (simp add: log_complete_def)
  qed (simp add: log_complete_def)
  then show ?thesis using None r by (simp add: schedule_complete_def)
next
  case (Some path)
  have d: "log_distinct log" using r by (simp add: schedule_of_def)
  have paths: "es_paths s p = queue_of (on_path p log)" for p using r by (simp add: schedule_of_def)
  have active: "es_active_paths s i = Some p \<longleftrightarrow> (\<exists>e rest. on_path p log = e # rest \<and> edit_id e = i)" for i p
    using r by (simp add: schedule_of_def)
  obtain e rest where e: "on_path path log = e # rest" "edit_id e = cid" using active_is_head[OF r Some] by blast
  let ?log = "filter (\<lambda>(p, e). edit_id e \<noteq> cid) log"
  have m: "(path, e) \<in> set log" using on_path_mem[of e path log] e(1) by simp
  have others: "on_path p ?log = (if p = path then rest else on_path p log)" for p
  proof (cases "p = path")
    case True
    have "\<forall>x\<in>set rest. edit_id x \<noteq> cid" using on_path_distinct[OF d, of path] e by (auto simp: image_iff)
    then show ?thesis using True e by (simp add: on_path_remove filter_id_conv)
  next
    case False
    have "\<forall>x\<in>set (on_path p log). edit_id x \<noteq> cid"
      using log_distinct_path[OF d m] False e(2) by (auto simp: on_path_mem)
    then show ?thesis using False by (simp add: on_path_remove filter_id_conv)
  qed
  obtain q d' where f: "find (\<lambda>(p, e). edit_id e = cid) log = Some (q, d')"
    using m e(2) by (cases "find (\<lambda>(p, e). edit_id e = cid) log") (auto dest: find_NoneD)
  then have "q = path" using log_distinct_path[OF d m, of q d'] find_SomeD[OF f] e(2) by auto
  then have l: "log_complete cid log = (case rest of [] \<Rightarrow> None | x # _ \<Rightarrow> Some x, ?log)"
    using f e others[of path] by (simp add: log_complete_def Let_def)
  have unused: "edit_id x \<noteq> cid" if "on_path p log = x # xs" "p \<noteq> path" for p x xs
    using log_distinct_path[OF d m, of p x] that e(2) on_path_mem[of x p log] by auto
  have fresh: "edit_id y \<noteq> edit_id x" if "on_path p log = y # ys" "p \<noteq> path" "rest = x # xs" for p y ys x xs
    using log_distinct_path[OF d, of path x p y] that on_path_mem[of x path log] on_path_mem[of y p log] e(1) by auto
  have dd: "log_distinct ?log" by (rule log_distinct_filter[OF d])
  show ?thesis
  proof (cases rest)
    case Nil
    have c: "schedule_complete cid s = (Inr None, s\<lparr>es_active_paths := (es_active_paths s)(cid := None),
        es_paths := (es_paths s)(path := None)\<rparr>)"
      using Some e Nil by (simp add: schedule_complete_def paths queue_of_def)
    have "schedule_of (snd (schedule_complete cid s)) ?log"
      unfolding schedule_of_def others c using dd Nil unused active e by (auto simp: paths queue_of_def)
    then show ?thesis using Nil c l by simp
  next
    case (Cons x xs)
    have c: "schedule_complete cid s = (Inr (Some x), s\<lparr>es_active_paths := (es_active_paths s)(cid := None, edit_id x \<mapsto> path),
        es_paths := (es_paths s)(path \<mapsto> \<lparr>eq_active = edit_id x, eq_waiting = xs\<rparr>)\<rparr>)"
      using Some e Cons by (simp add: schedule_complete_def paths queue_of_def)
    have "edit_id x \<noteq> cid" using on_path_distinct[OF d, of path] e Cons by auto
    then have "schedule_of (snd (schedule_complete cid s)) ?log"
      unfolding schedule_of_def others c using dd Cons unused fresh active e by (auto simp: paths queue_of_def)
    then show ?thesis using Cons c l by simp
  qed
qed


section \<open>Sequences of operations\<close>

datatype 'c schedule_event = StartEdit string "'c deferred_edit" | CompleteEdit string | ClearEdits

fun schedule_step ::
  "'c schedule_event \<Rightarrow> 'c edit_schedule \<Rightarrow> 'c deferred_edit option result list \<times> 'c edit_schedule" where
  "schedule_step (StartEdit path edit) s = (case start_or_defer path edit s of (r, s') \<Rightarrow> ([Inr r], s'))"
| "schedule_step (CompleteEdit cid) s = (case schedule_complete cid s of (r, s') \<Rightarrow> ([r], s'))"
| "schedule_step ClearEdits s = ([], schedule_clear s)"

fun log_step ::
  "'c schedule_event \<Rightarrow> 'c edit_log \<Rightarrow> 'c deferred_edit option result list \<times> 'c edit_log" where
  "log_step (StartEdit path edit) log = (case log_start path edit log of (r, log') \<Rightarrow> ([Inr r], log'))"
| "log_step (CompleteEdit cid) log = (case log_complete cid log of (r, log') \<Rightarrow> ([Inr r], log'))"
| "log_step ClearEdits log = ([], [])"

text \<open>A new edit does not reuse the call id of an unfinished one.\<close>

fun fresh_event :: "'c schedule_event \<Rightarrow> 'c edit_log \<Rightarrow> bool" where
  "fresh_event (StartEdit path edit) log \<longleftrightarrow> edit_id edit \<notin> (\<lambda>(p, e). edit_id e) ` set log"
| "fresh_event _ log \<longleftrightarrow> True"

lemma new_is_empty: "schedule_of schedule_new []" "schedule_of (schedule_clear s) []"
  by (simp_all add: schedule_of_def schedule_new_def schedule_clear_def log_distinct_def queue_of_def)

lemma step_refines:
  assumes "schedule_of s log" "fresh_event e log"
  shows "fst (schedule_step e s) = fst (log_step e log) \<and> schedule_of (snd (schedule_step e s)) (snd (log_step e log))"
proof (cases e)
  case (StartEdit path edit)
  then show ?thesis using start_refines[OF assms(1), of edit path] assms(2) by (auto simp: split_beta)
next
  case (CompleteEdit cid)
  then show ?thesis using complete_refines[OF assms(1), of cid] by (auto simp: split_beta)
qed (simp add: new_is_empty)

interpretation edit_queue: simulation schedule_step log_step fresh_event schedule_of
  by unfold_locales (use step_refines in blast)+

lemma running_one_per_file: "log_distinct log \<Longrightarrow> distinct (map fst (running log))"
proof -
  assume d: "log_distinct log"
  have "distinct log" using d by (auto simp: log_distinct_def distinct_map)
  then have "distinct (running log)" by (simp add: running_def)
  moreover have "inj_on fst (set (running log))" by (auto simp: inj_on_def running_def)
  ultimately show ?thesis by (simp add: distinct_map)
qed

text \<open>
  C15: the edit schedule implements one log of unfinished edits. For any sequence of edits submitted, calls
  completed and interruptions, from an empty schedule, with no call id reused while its edit is unfinished, every
  answer is the one of the log: an edit starts at once exactly when no unfinished edit is for its file, and
  otherwise when the ones before it have finished, in the order they came; no internal error is ever reported,
  and at any time at most one edit of each file runs, exactly the ones the schedule holds as active.
\<close>
theorem schedule_refines_the_log:
  assumes "legal_run log_step fresh_event es []"
    and "run_out schedule_step es schedule_new = (answers, s)"
  shows "\<exists>log. run_out log_step es [] = (answers, log) \<and> Inl err \<notin> set answers
    \<and> distinct (map fst (running log))
    \<and> (\<forall>i p. es_active_paths s i = Some p \<longleftrightarrow> (\<exists>e. (p, e) \<in> set (running log) \<and> edit_id e = i))"
proof -
  obtain out log where l: "run_out log_step es [] = (out, log)" by (cases "run_out log_step es []")
  have r: "out = answers" "schedule_of s log"
    using edit_queue.run_refines[OF new_is_empty(1) assms(1)] assms(2) l by auto
  have "Inl err \<notin> set (fst (run_out log_step es log0))" for log0
  proof (induction es arbitrary: log0)
    case (Cons e es)
    have "Inl err \<notin> set (fst (log_step e log0))" by (cases e) (auto split: prod.splits)
    then show ?case using Cons.IH[of "snd (log_step e log0)"] by (auto simp: Let_def split: prod.splits)
  qed simp
  from this[of "[]"] have ok: "Inl err \<notin> set answers" using l r(1) by simp
  have "es_active_paths s i = Some p \<longleftrightarrow> (\<exists>e. (p, e) \<in> set (running log) \<and> edit_id e = i)" for i p
  proof -
    have "es_active_paths s i = Some p \<longleftrightarrow> (\<exists>e rest. on_path p log = e # rest \<and> edit_id e = i)"
      using r(2) by (simp add: schedule_of_def)
    also have "\<dots> \<longleftrightarrow> (\<exists>e. (p, e) \<in> set (running log) \<and> edit_id e = i)"
    proof
      assume "\<exists>e rest. on_path p log = e # rest \<and> edit_id e = i"
      then show "\<exists>e. (p, e) \<in> set (running log) \<and> edit_id e = i"
        using on_path_mem[of _ p log] by (force simp: running_def)
    next
      assume "\<exists>e. (p, e) \<in> set (running log) \<and> edit_id e = i"
      then obtain e where e: "(p, e) \<in> set log" "hd (on_path p log) = e" "edit_id e = i" by (auto simp: running_def)
      then have "on_path p log \<noteq> []" using on_path_mem[of e p log] by auto
      then show "\<exists>e rest. on_path p log = e # rest \<and> edit_id e = i" using e by (cases "on_path p log") auto
    qed
    finally show ?thesis .
  qed
  moreover have "distinct (map fst (running log))" using r(2) by (simp add: running_one_per_file schedule_of_def)
  ultimately show ?thesis using l r(1) ok by blast
qed

definition demo_edit :: "string \<Rightarrow> unit deferred_edit" where
  "demo_edit cid = \<lparr>de_call = \<lparr>call_index = 0, call_id = cid, model_call_id = ''m'', call_name = ''Write'',
      arguments_text = [], call_arguments = JNull, argument_error = None\<rparr>, de_message_index = 0, de_context = ()\<rparr>"

lemma schedule_refines_the_log_witness:
  "\<exists>s log. run_out schedule_step [StartEdit ''f'' (demo_edit ''a''), StartEdit ''f'' (demo_edit ''b''),
       StartEdit ''g'' (demo_edit ''c''), CompleteEdit ''a''] schedule_new
     = ([Inr (Some (demo_edit ''a'')), Inr None, Inr (Some (demo_edit ''c'')), Inr (Some (demo_edit ''b''))], s)
   \<and> run_out log_step [StartEdit ''f'' (demo_edit ''a''), StartEdit ''f'' (demo_edit ''b''),
       StartEdit ''g'' (demo_edit ''c''), CompleteEdit ''a''] []
     = ([Inr (Some (demo_edit ''a'')), Inr None, Inr (Some (demo_edit ''c'')), Inr (Some (demo_edit ''b''))], log)
   \<and> es_active_paths s ''b'' = Some ''f''"
proof -
  let ?es = "[StartEdit ''f'' (demo_edit ''a''), StartEdit ''f'' (demo_edit ''b''),
       StartEdit ''g'' (demo_edit ''c''), CompleteEdit ''a'']"
  let ?out = "[Inr (Some (demo_edit ''a'')), Inr None, Inr (Some (demo_edit ''c'')), Inr (Some (demo_edit ''b''))]"
  have legal: "legal_run log_step fresh_event ?es []" by (simp add: log_start_def demo_edit_def)
  obtain s where s: "run_out schedule_step ?es schedule_new = (?out, s)" "es_active_paths s ''b'' = Some ''f''"
    by (simp add: start_or_defer_def schedule_complete_def schedule_new_def demo_edit_def)
  show ?thesis using schedule_refines_the_log[OF legal s(1)] s by blast
qed

end
