(* ===== verification/ToolDispatch.thy ===== *)
theory ToolDispatch
  imports EditTools EditSchedule TurnSteps
begin

text \<open>
  Dispatching the calls of a tool round (src/server/src/cursor/tools/mod.rs): arguments that do not parse are
  answered at once, edits go through the schedule, everything else is started. Starting a call
  (\<open>prepare_call\<close>, the card, \<open>tool_call_dispatch::start\<close>) is an argument over the runtime's state \<open>'r\<close>;
  so is the platform.
\<close>

record ('c, 'd, 'r) dispatch_env =
  dx_windows :: bool
  dx_to_lowercase :: "string \<Rightarrow> string"
  dx_workspace :: "'c \<Rightarrow> string list"
  dx_start :: "tool_call \<Rightarrow> nat \<Rightarrow> string set \<Rightarrow> 'c \<Rightarrow> 'r \<Rightarrow> 'd result \<times> 'r"

text \<open>A dispatched call: started, or answered with a failure the model sees.\<close>

datatype 'd dispatched_tool = StartedTool (dispatched_call: tool_call) 'd | ValidationFailure (dispatched_call: tool_call) string

definition validation_failure :: "tool_call \<Rightarrow> string \<Rightarrow> 'd dispatched_tool" where
  "validation_failure call m = ValidationFailure call m"

text \<open>Errors of the call itself become its result; others end the run.\<close>

definition recover_validation_failure :: "tool_call \<Rightarrow> error \<Rightarrow> 'd dispatched_tool result" where
  "recover_validation_failure call e =
     (case e of Protocol m \<Rightarrow> Inr (validation_failure call m) | Json m \<Rightarrow> Inr (validation_failure call m) | _ \<Rightarrow> Inl e)"

definition start_tool ::
  "('c, 'd, 'r) dispatch_env \<Rightarrow> tool_call \<Rightarrow> nat \<Rightarrow> string set \<Rightarrow> 'c \<Rightarrow> 'r \<Rightarrow> 'd dispatched_tool result \<times> 'r" where
  "start_tool env call index dynamic ctx r =
     (case dx_start env call index dynamic ctx r of
        (Inr d, r') \<Rightarrow> (Inr (StartedTool call d), r')
      | (Inl e, r') \<Rightarrow> (recover_validation_failure call e, r'))"

text \<open>One call of the batch: nothing for a deferred edit.\<close>

definition dispatch_call ::
  "('c, 'd, 'r) dispatch_env \<Rightarrow> string set \<Rightarrow> 'c \<Rightarrow> tool_call \<Rightarrow> nat \<Rightarrow> 'c edit_schedule \<Rightarrow> 'r
   \<Rightarrow> 'd dispatched_tool list result \<times> 'c edit_schedule \<times> 'r" where
  "dispatch_call env dynamic ctx call index sched r =
     (case argument_error call of
        Some e \<Rightarrow> (Inr [validation_failure call e], sched, r)
      | None \<Rightarrow>
          (case (if call_name call \<in> dynamic then Inr None
                 else execution_path (dx_windows env) (dx_to_lowercase env) call (dx_workspace env ctx)) of
             Inl e \<Rightarrow> (map_sum id (\<lambda>d. [d]) (recover_validation_failure call e), sched, r)
           | Inr (Some path) \<Rightarrow>
               (case start_or_defer path \<lparr>de_call = call, de_message_index = index, de_context = ctx\<rparr> sched of
                  (None, sched') \<Rightarrow> (Inr [], sched', r)
                | (Some next_edit, sched') \<Rightarrow>
                    (case start_tool env (de_call next_edit) (de_message_index next_edit) dynamic (de_context next_edit) r of
                       (d, r') \<Rightarrow> (map_sum id (\<lambda>d. [d]) d, sched', r')))
           | Inr None \<Rightarrow>
               (case start_tool env call index dynamic ctx r of (d, r') \<Rightarrow> (map_sum id (\<lambda>d. [d]) d, sched, r'))))"

fun dispatch_calls ::
  "('c, 'd, 'r) dispatch_env \<Rightarrow> string set \<Rightarrow> 'c \<Rightarrow> string set \<Rightarrow> tool_call list \<Rightarrow> nat \<Rightarrow> 'c edit_schedule \<Rightarrow> 'r
   \<Rightarrow> 'd dispatched_tool list result \<times> 'c edit_schedule \<times> 'r" where
  "dispatch_calls env dynamic ctx completed [] index sched r = (Inr [], sched, r)"
| "dispatch_calls env dynamic ctx completed (call # calls) index sched r =
     (if call_id call \<in> completed then dispatch_calls env dynamic ctx completed calls (index + 1) sched r
      else
        (case dispatch_call env dynamic ctx call index sched r of
           (Inl e, sched', r') \<Rightarrow> (Inl e, sched', r')
         | (Inr ds, sched', r') \<Rightarrow>
             (case dispatch_calls env dynamic ctx completed calls (index + 1) sched' r' of
                (Inl e, sched'', r'') \<Rightarrow> (Inl e, sched'', r'')
              | (Inr ds', sched'', r'') \<Rightarrow> (Inr (ds @ ds'), sched'', r''))))"

definition start_batch ::
  "('c, 'd, 'r) dispatch_env \<Rightarrow> tool_call list \<Rightarrow> string set \<Rightarrow> string \<Rightarrow> string \<Rightarrow> nat \<Rightarrow> string set \<Rightarrow> 'c \<Rightarrow> 'c edit_schedule
   \<Rightarrow> 'r \<Rightarrow> 'd dispatched_tool list result \<times> 'c edit_schedule \<times> 'r" where
  "start_batch env calls completed response_text response_thinking steps dynamic ctx sched r =
     dispatch_calls env dynamic ctx completed calls (first_tool_index steps response_thinking response_text) sched r"

definition continue_after ::
  "('c, 'd, 'r) dispatch_env \<Rightarrow> string \<Rightarrow> 'c edit_schedule \<Rightarrow> 'r
   \<Rightarrow> 'd dispatched_tool option result \<times> 'c edit_schedule \<times> 'r" where
  "continue_after env cid sched r =
     (case schedule_complete cid sched of
        (Inl e, sched') \<Rightarrow> (Inl e, sched', r)
      | (Inr None, sched') \<Rightarrow> (Inr None, sched', r)
      | (Inr (Some edit), sched') \<Rightarrow>
          (case start_tool env (de_call edit) (de_message_index edit) {} (de_context edit) r of
             (d, r') \<Rightarrow> (map_sum id Some d, sched', r')))"

text \<open>A user message drops the deferred edits; the runtime interrupts its own calls.\<close>

definition interrupt_for_message ::
  "('r \<Rightarrow> nat list \<times> 'r) \<Rightarrow> 'c edit_schedule \<Rightarrow> 'r \<Rightarrow> nat list \<times> 'c edit_schedule \<times> 'r" where
  "interrupt_for_message runtime_interrupt sched r =
     (case runtime_interrupt r of (ids, r') \<Rightarrow> (ids, schedule_clear sched, r'))"


section \<open>Every call is answered or deferred\<close>

abbreviation log_ids :: "'c edit_log \<Rightarrow> string set" where
  "log_ids log \<equiv> (\<lambda>(p, e). edit_id e) ` set log"

definition waiting_calls :: "'c edit_log \<Rightarrow> tool_call list" where
  "waiting_calls log = map (\<lambda>(p, e). de_call e) (filter (\<lambda>(p, e). hd (on_path p log) \<noteq> e) log)"

lemma waiting_snoc:
  assumes "edit_id e \<notin> log_ids log"
  shows "waiting_calls (log @ [(p, e)]) = waiting_calls log @ (if on_path p log = [] then [] else [de_call e])"
proof -
  have e: "e \<notin> set (on_path p log)" using assms on_path_mem[of e p log] by force
  have "hd (on_path q (log @ [(p, e)])) = hd (on_path q log)" if "(q, d) \<in> set log" for q d
    using that on_path_mem[of d q log] by (cases "on_path q log") auto
  then have "filter (\<lambda>(q, d). hd (on_path q (log @ [(p, e)])) \<noteq> d) log = filter (\<lambda>(q, d). hd (on_path q log) \<noteq> d) log"
    by (intro filter_cong) auto
  moreover have "on_path p log \<noteq> [] \<Longrightarrow> hd (on_path p log) \<noteq> e" using e hd_in_set by metis
  ultimately show ?thesis by (auto simp: waiting_calls_def)
qed

lemma start_tool_call: "start_tool env call i dyn ctx r = (Inr d, r') \<Longrightarrow> dispatched_call d = call"
  by (auto simp: start_tool_def recover_validation_failure_def validation_failure_def
      split: prod.splits sum.splits error.splits)

lemma start_singleton:
  "start_tool env call i dyn ctx r = (x, r') \<Longrightarrow> map_sum id (\<lambda>d. [d]) x = Inr ds \<Longrightarrow> map dispatched_call ds = [call]"
  by (cases x) (auto dest: start_tool_call)

lemma dispatch_call_spec:
  assumes "schedule_of sched log" "call_id call \<notin> (\<lambda>(p, e). edit_id e) ` set log"
    and "dispatch_call env dyn ctx call i sched r = (Inr ds, sched', r')"
  shows "\<exists>log'. schedule_of sched' log' \<and> (\<lambda>(p, e). edit_id e) ` set log' \<subseteq> insert (call_id call) ((\<lambda>(p, e). edit_id e) ` set log)
    \<and> (map dispatched_call ds = [call] \<and> (log' = log \<or> (\<exists>p e. log' = log @ [(p, e)] \<and> on_path p log = [] \<and> de_call e = call))
       \<or> ds = [] \<and> (\<exists>p e. log' = log @ [(p, e)] \<and> on_path p log \<noteq> [] \<and> de_call e = call))"
proof -
  consider
      (answered) "map dispatched_call ds = [call]" "sched' = sched"
    | (edit) path where "call_name call \<notin> dyn" "argument_error call = None"
        "execution_path (dx_windows env) (dx_to_lowercase env) call (dx_workspace env ctx) = Inr (Some path)"
    using assms(3)
    by (auto simp: dispatch_call_def recover_validation_failure_def validation_failure_def
        dest!: start_singleton
        split: option.splits sum.splits if_splits prod.splits error.splits)
  then show ?thesis
  proof cases
    case answered
    then show ?thesis using assms(1) by (intro exI[of _ log]) auto
  next
    case edit
    let ?edit = "\<lparr>de_call = call, de_message_index = i, de_context = ctx\<rparr>"
    let ?log = "log @ [(path, ?edit)]"
    have l: "log_start path ?edit log = (if on_path path log = [] then Some ?edit else None, ?log)" by (simp add: log_start_def)
    obtain o1 s1 where o: "start_or_defer path ?edit sched = (o1, s1)" by (cases "start_or_defer path ?edit sched")
    have ref: "o1 = (if on_path path log = [] then Some ?edit else None)" "schedule_of s1 ?log"
      using start_refines[OF assms(1), of ?edit path] assms(2) o l by auto
    have ids: "(\<lambda>(p, e). edit_id e) ` set ?log \<subseteq> insert (call_id call) ((\<lambda>(p, e). edit_id e) ` set log)" by auto
    show ?thesis
    proof (cases "on_path path log = []")
      case True
      then have "map dispatched_call ds = [call]" "sched' = s1"
        using assms(3) edit o ref(1) by (auto simp: dispatch_call_def dest!: start_singleton split: prod.splits)
      then show ?thesis using ref(2) ids True by (intro exI[of _ ?log]) auto
    next
      case False
      then have "ds = []" "sched' = s1" using assms(3) edit o ref(1) by (auto simp: dispatch_call_def)
      then show ?thesis using ref(2) ids False by (intro exI[of _ ?log]) auto
    qed
  qed
qed


lemma disjoint_insert_subset: "L1 \<subseteq> insert x L \<Longrightarrow> x \<notin> A \<Longrightarrow> A \<inter> L = {} \<Longrightarrow> A \<inter> L1 = {}"
  by blast

lemma dispatch_calls_spec:
  assumes "schedule_of sched log" "distinct (map call_id calls)" "call_id ` set calls \<inter> log_ids log = {}"
    and "dispatch_calls env dyn ctx completed calls i sched r = (Inr ds, sched', r')"
  shows "\<exists>log' waits. schedule_of sched' log' \<and> log_ids log' \<subseteq> log_ids log \<union> call_id ` set calls
    \<and> waiting_calls log' = waiting_calls log @ waits \<and> set waits \<subseteq> set (filter (\<lambda>k. call_id k \<notin> completed) calls)
    \<and> map dispatched_call ds = filter (\<lambda>k. k \<notin> set waits) (filter (\<lambda>k. call_id k \<notin> completed) calls)"
  using assms
proof (induction calls arbitrary: i sched r log ds)
  case Nil
  then show ?case by (intro exI[of _ log] exI[of _ "[]"]) auto
next
  case (Cons k calls)
  show ?case
  proof (cases "call_id k \<in> completed")
    case True
    have run: "dispatch_calls env dyn ctx completed calls (i + 1) sched r = (Inr ds, sched', r')" using Cons.prems(4) True by simp
    have d: "distinct (map call_id calls)" "call_id ` set calls \<inter> log_ids log = {}" using Cons.prems(2,3) by auto
    obtain log' waits where l: "schedule_of sched' log' \<and> log_ids log' \<subseteq> log_ids log \<union> call_id ` set calls
        \<and> waiting_calls log' = waiting_calls log @ waits \<and> set waits \<subseteq> set (filter (\<lambda>k. call_id k \<notin> completed) calls)
        \<and> map dispatched_call ds = filter (\<lambda>k. k \<notin> set waits) (filter (\<lambda>k. call_id k \<notin> completed) calls)"
      using Cons.IH[OF Cons.prems(1) d run] by (elim exE)
    have "log_ids log' \<subseteq> log_ids log \<union> call_id ` set (k # calls)" using l by auto
    with l True show ?thesis by (intro exI[of _ log'] exI[of _ waits] conjI) simp_all
  next
    case False
    then obtain ds1 s1 r1 ds2 where 1: "dispatch_call env dyn ctx k i sched r = (Inr ds1, s1, r1)"
        "dispatch_calls env dyn ctx completed calls (i + 1) s1 r1 = (Inr ds2, sched', r')" "ds = ds1 @ ds2"
      using Cons.prems(4) by (auto split: prod.splits sum.splits)
    have fresh: "call_id k \<notin> log_ids log" using Cons.prems(3) by auto
    obtain log1 where l1': "schedule_of s1 log1 \<and> log_ids log1 \<subseteq> insert (call_id k) (log_ids log)
      \<and> (map dispatched_call ds1 = [k] \<and> (log1 = log \<or> (\<exists>p e. log1 = log @ [(p, e)] \<and> on_path p log = [] \<and> de_call e = k))
       \<or> ds1 = [] \<and> (\<exists>p e. log1 = log @ [(p, e)] \<and> on_path p log \<noteq> [] \<and> de_call e = k))"
      using dispatch_call_spec[OF Cons.prems(1) fresh 1(1)] by (elim exE)
    note l1 = l1'[THEN conjunct1] l1'[THEN conjunct2, THEN conjunct1] l1'[THEN conjunct2, THEN conjunct2]
    obtain w where w: "waiting_calls log1 = waiting_calls log @ w"
        "map dispatched_call ds1 = [k] \<and> w = [] \<or> ds1 = [] \<and> w = [k]"
      using l1(3) waiting_snoc[of _ log] fresh by fastforce
    have d: "distinct (map call_id calls)" "call_id k \<notin> call_id ` set calls" "call_id ` set calls \<inter> log_ids log = {}"
      using Cons.prems(2,3) by auto
    have apart: "call_id ` set calls \<inter> log_ids log1 = {}" using disjoint_insert_subset[OF l1(2) d(2,3)] .
    obtain log' ws where l2': "schedule_of sched' log' \<and> log_ids log' \<subseteq> log_ids log1 \<union> call_id ` set calls
        \<and> waiting_calls log' = waiting_calls log1 @ ws \<and> set ws \<subseteq> set (filter (\<lambda>k. call_id k \<notin> completed) calls)
        \<and> map dispatched_call ds2 = filter (\<lambda>k. k \<notin> set ws) (filter (\<lambda>k. call_id k \<notin> completed) calls)"
      using Cons.IH[OF l1(1) d(1) apart 1(2)] by (elim exE)
    then have l2: "schedule_of sched' log'" "log_ids log' \<subseteq> log_ids log1 \<union> call_id ` set calls"
        "waiting_calls log' = waiting_calls log1 @ ws" "set ws \<subseteq> set (filter (\<lambda>k. call_id k \<notin> completed) calls)"
        "map dispatched_call ds2 = filter (\<lambda>k. k \<notin> set ws) (filter (\<lambda>k. call_id k \<notin> completed) calls)"
      by blast+
    have k: "k \<notin> set ws" "k \<notin> set calls" using d(2) l2(4) by auto
    have same: "filter (\<lambda>x. x \<notin> set (w @ ws)) (filter (\<lambda>k. call_id k \<notin> completed) calls)
        = filter (\<lambda>x. x \<notin> set ws) (filter (\<lambda>k. call_id k \<notin> completed) calls)"
      using w(2) k(2) by (intro filter_cong) auto
    have "map dispatched_call ds = filter (\<lambda>x. x \<notin> set (w @ ws)) (filter (\<lambda>k. call_id k \<notin> completed) (k # calls))"
      using w(2) k False l2(5) 1(3) same by auto
    moreover have "set (w @ ws) \<subseteq> set (filter (\<lambda>k. call_id k \<notin> completed) (k # calls))" using w(2) l2(4) False by auto
    moreover have "waiting_calls log' = waiting_calls log @ (w @ ws)" using l2(3) w(1) by simp
    moreover have "log_ids log' \<subseteq> log_ids log \<union> call_id ` set (k # calls)" using l2(2) l1(2) by auto
    ultimately show ?thesis using l2(1) by (intro exI[of _ log'] exI[of _ "w @ ws"] conjI)
  qed
qed

text \<open>
  C26: dispatching a batch loses no call. With fresh call ids, every call that has no result yet is either
  dispatched, in the order of the calls (started, or answered with a failure the model sees), or put in the queue
  of its file behind an unfinished edit; and the schedule still implements the log of edits.
\<close>
theorem batch_accounts_for_every_call:
  assumes "schedule_of sched log" "distinct (map call_id calls)" "call_id ` set calls \<inter> log_ids log = {}"
    and "start_batch env calls completed response_text thinking steps dyn ctx sched r = (Inr ds, sched', r')"
  shows "\<exists>log' waits. schedule_of sched' log' \<and> waiting_calls log' = waiting_calls log @ waits
    \<and> map dispatched_call ds = filter (\<lambda>k. k \<notin> set waits) (filter (\<lambda>k. call_id k \<notin> completed) calls)"
  using dispatch_calls_spec[OF assms(1-3) assms(4)[unfolded start_batch_def]] by (elim exE conjE) (intro exI conjI)

definition demo_write :: "string \<Rightarrow> tool_call" where
  "demo_write cid = \<lparr>call_index = 0, call_id = cid, model_call_id = ''m'', call_name = ''Write'', arguments_text = [],
     call_arguments = JObj [(''path'', JStr ''/f'')], argument_error = None\<rparr>"

definition demo_env :: "(unit, unit, unit) dispatch_env" where
  "demo_env = \<lparr>dx_windows = False, dx_to_lowercase = id, dx_workspace = (\<lambda>_. []), dx_start = (\<lambda>_ _ _ _ _. (Inr (), ()))\<rparr>"

lemma batch_accounts_for_every_call_witness:
  "\<exists>sched' log' waits. start_batch demo_env [demo_write ''a'', demo_write ''b''] {} [] [] 0 {} () schedule_new ()
      = (Inr [StartedTool (demo_write ''a'') ()], sched', ())
    \<and> schedule_of sched' log' \<and> waiting_calls log' = waits
    \<and> [demo_write ''a''] = filter (\<lambda>k. k \<notin> set waits) [demo_write ''a'', demo_write ''b'']"
proof -
  let ?calls = "[demo_write ''a'', demo_write ''b'']"
  have w: "normalized_name ''Write'' = ''write''" by code_simp
  have p: "\<exists>key. \<forall>cid. execution_path False id (demo_write cid) [] = Inr (Some key)"
    by (simp add: execution_path_def demo_write_def w edit_path_def string_any_def path_fields_def string_arg_def json_member_def)
  obtain key where key: "\<And>cid. execution_path False id (demo_write cid) [] = Inr (Some key)" using p by blast
  have none: "argument_error (demo_write cid) = None" for cid by (simp add: demo_write_def)
  obtain sched' where run: "start_batch demo_env ?calls {} [] [] 0 {} () schedule_new ()
      = (Inr [StartedTool (demo_write ''a'') ()], sched', ())"
    using key none by (simp add: start_batch_def dispatch_call_def demo_env_def start_or_defer_def schedule_new_def start_tool_def)
  have "distinct (map call_id ?calls)" by (simp add: demo_write_def)
  from batch_accounts_for_every_call[OF new_is_empty(1) this _ run] run show ?thesis
    by (auto simp: waiting_calls_def[of "[]"])
qed

end
