(* ===== verification/ModelConfig.thy ===== *)
theory ModelConfig
  imports TokenLaws Bytes
begin

text \<open>
  Model configurations (src/server/src/model/configuration.rs): their normalization and validation, the URL a
  request goes to, the content fingerprint, and how a configuration completes the model a request asks for.
  The URL parser (the url crate), SHA-256 and hex are arguments. Credentials appear in no printed form of a
  configuration; printing is not modelled.
\<close>

section \<open>Configurations\<close>

datatype provider_type = OpenAiChatType | OpenAiResponsesType | AnthropicType | PluginType

fun provider_type_text :: "provider_type \<Rightarrow> string" where
  "provider_type_text OpenAiChatType = ''openai-chat''"
| "provider_type_text OpenAiResponsesType = ''openai-responses''"
| "provider_type_text AnthropicType = ''anthropic''"
| "provider_type_text PluginType = ''plugin''"

definition parse_provider_type :: "string \<Rightarrow> provider_type result" where
  "parse_provider_type v =
     (if v = ''openai-chat'' then Inr OpenAiChatType
      else if v = ''openai-responses'' then Inr OpenAiResponsesType
      else if v = ''anthropic'' then Inr AnthropicType
      else if v = ''plugin'' then Inr PluginType
      else Inl (Config (''unsupported provider type: '' @ v)))"

datatype model_type = OpenAiModel | AnthropicModel

fun model_type_text :: "model_type \<Rightarrow> string" where
  "model_type_text OpenAiModel = ''openai''"
| "model_type_text AnthropicModel = ''anthropic''"

definition parse_model_type :: "string \<Rightarrow> model_type result" where
  "parse_model_type v =
     (if v = ''openai'' then Inr OpenAiModel
      else if v = ''anthropic'' then Inr AnthropicModel
      else Inl (Config (''unsupported model type: '' @ v)))"

text \<open>What \<open>ModelConfigInput\<close> and \<open>ModelConfig\<close> have in common; the latter adds its identity and times.\<close>

record model_input =
  mi_sort_order :: int
  mi_display_name :: string
  mi_group_name :: "string option"
  mi_type :: model_type
  mi_base_url :: string
  mi_use_full_url :: bool
  mi_api_key :: string
  mi_tooltip :: string
  mi_model_id :: string
  mi_reasoning_effort :: "string option"
  mi_openai_endpoint :: string
  mi_openai_extra_enabled :: bool
  mi_openai_extra :: json
  mi_headers_enabled :: bool
  mi_headers :: json
  mi_anthropic_extra_enabled :: bool
  mi_anthropic_extra :: json
  mi_context_window :: "nat option"
  mi_max_completion :: "nat option"
  mi_anthropic_max :: "nat option"
  mi_anthropic_effort :: "string option"
  mi_thinking_budget :: "nat option"

record model_config = model_input +
  mc_model_hash :: string
  mc_created :: int
  mc_updated :: int

definition config_input :: "model_config \<Rightarrow> string \<Rightarrow> int \<Rightarrow> model_input" where
  "config_input m display_name sort_order =
     (model_input.truncate m)\<lparr>mi_display_name := display_name, mi_sort_order := sort_order\<rparr>"


section \<open>Values\<close>

definition config_required :: "string \<Rightarrow> string \<Rightarrow> string result" where
  "config_required v label =
     (let v = trim_text v in if v = [] then Inl (Config (label @ '' cannot be empty'')) else Inr v)"

definition config_positive :: "nat option \<Rightarrow> string \<Rightarrow> nat option result" where
  "config_positive v label =
     (if v = Some 0 then Inl (Config (label @ '' must be greater than zero'')) else Inr v)"

definition is_object :: "json \<Rightarrow> bool" where
  "is_object j = (case j of JObj _ \<Rightarrow> True | _ \<Rightarrow> False)"

definition validate_object :: "json \<Rightarrow> string \<Rightarrow> unit result" where
  "validate_object v label =
     (if is_object v then Inr () else Inl (Config (label @ '' must be a JSON object'')))"

definition validate_headers :: "json \<Rightarrow> unit result" where
  "validate_headers v =
     rbind (validate_object v ''custom headers'') (\<lambda>_.
       case v of
         JObj kvs \<Rightarrow>
           (if \<exists>(k, x)\<in>set kvs. trim_text k = [] \<or> (case x of JStr _ \<Rightarrow> False | _ \<Rightarrow> True)
            then Inl (Config ''custom headers must have non-empty names and string values'') else Inr ())
       | _ \<Rightarrow> Inr ())"

definition effort_levels :: "string list" where
  "effort_levels = [''low'', ''medium'', ''high'', ''xhigh'', ''max'']"

definition normalize_effort :: "string option \<Rightarrow> bool \<Rightarrow> string option result" where
  "normalize_effort v allow_empty =
     (let v = to_ascii_lowercase (trim_text (case v of Some x \<Rightarrow> x | None \<Rightarrow> []))
      in if v = [] \<and> allow_empty then Inr None
         else if v \<in> set effort_levels then Inr (Some v)
         else Inl (Config (''unsupported reasoning effort: '' @ v)))"

definition openai_responses_endpoint :: string where "openai_responses_endpoint = ''/v1/responses''"
definition openai_chat_endpoint :: string where "openai_chat_endpoint = ''/v1/chat/completions''"

definition normalize_openai_endpoint :: "string \<Rightarrow> string result" where
  "normalize_openai_endpoint v =
     (let v = trim_text v
      in if v = [] \<or> v = openai_responses_endpoint then Inr openai_responses_endpoint
         else if v = openai_chat_endpoint then Inr openai_chat_endpoint
         else Inl (Config (''unsupported OpenAI endpoint: '' @ v)))"

definition is_sensitive_header :: "string \<Rightarrow> bool" where
  "is_sensitive_header name \<longleftrightarrow>
     to_ascii_lowercase name \<in>
       {''authorization'', ''proxy-authorization'', ''x-api-key'', ''api-key'', ''cookie'', ''set-cookie''}"


section \<open>Request URLs\<close>

record 'u url_lib =
  url_parse :: "string \<Rightarrow> string + 'u"
  url_scheme :: "'u \<Rightarrow> string"
  url_host :: "'u \<Rightarrow> string option"
  url_fragment :: "'u \<Rightarrow> string option"
  url_path :: "'u \<Rightarrow> string"
  url_set_path :: "string \<Rightarrow> 'u \<Rightarrow> 'u"
  url_text :: "'u \<Rightarrow> string"

definition parsed_url :: "'u url_lib \<Rightarrow> string \<Rightarrow> string \<Rightarrow> 'u result" where
  "parsed_url lib what v =
     (case url_parse lib v of Inl e \<Rightarrow> Inl (Config (what @ e)) | Inr u \<Rightarrow> Inr u)"

definition normalize_request_url :: "'u url_lib \<Rightarrow> string \<Rightarrow> string result" where
  "normalize_request_url lib v =
     (let v = trim_text v
      in rbind (parsed_url lib ''invalid model request URL: '' v) (\<lambda>u.
           if url_scheme lib u \<notin> {''http'', ''https''} \<or> url_host lib u = None
           then Inl (Config ''model request URL must be an HTTP(S) URL with a host'')
           else if url_fragment lib u \<noteq> None then Inl (Config ''model request URL cannot contain a fragment'')
           else Inr v))"

definition trim_end_slashes :: "string \<Rightarrow> string" where
  "trim_end_slashes s = rev (dropWhile (\<lambda>c. c = CHR ''/'') (rev s))"

definition has_trailing_version :: "string \<Rightarrow> bool" where
  "has_trailing_version path =
     (case last (split_on (CHR ''/'') path) of
        [] \<Rightarrow> False
      | c # ds \<Rightarrow> c = CHR ''v'' \<and> ds \<noteq> [] \<and> list_all is_ascii_digit ds)"

definition append_standard_endpoint :: "'u url_lib \<Rightarrow> string \<Rightarrow> string \<Rightarrow> string result" where
  "append_standard_endpoint lib base endpoint =
     rbind (parsed_url lib ''invalid model server URL: '' base) (\<lambda>u.
       let base_path = trim_end_slashes (url_path lib u);
           endpoint' = (if has_trailing_version base_path then strip_prefix ''/v1'' endpoint else endpoint)
       in normalize_request_url lib (url_text lib (url_set_path lib (base_path @ endpoint') u)))"

definition resolve_request_url ::
    "'u url_lib \<Rightarrow> model_type \<Rightarrow> string \<Rightarrow> string \<Rightarrow> bool \<Rightarrow> string result" where
  "resolve_request_url lib ty base_url openai_endpoint use_full_url =
     rbind (normalize_request_url lib base_url) (\<lambda>base.
     rbind (case ty of OpenAiModel \<Rightarrow> normalize_openai_endpoint openai_endpoint
                     | AnthropicModel \<Rightarrow> Inr ''/v1/messages'') (\<lambda>endpoint.
       if use_full_url then Inr base else append_standard_endpoint lib base endpoint))"


section \<open>Normalization\<close>

text \<open>The effort of an Anthropic model has a default, so that it is never missing.\<close>

definition anthropic_effort :: "model_input \<Rightarrow> string option result" where
  "anthropic_effort i =
     (case mi_type i of
        AnthropicModel \<Rightarrow>
          normalize_effort (case mi_anthropic_effort i of Some e \<Rightarrow> Some e | None \<Rightarrow> Some ''xhigh'') False
      | OpenAiModel \<Rightarrow> Inr None)"

definition normalized_group :: "string option \<Rightarrow> string option" where
  "normalized_group g =
     (case g of None \<Rightarrow> None | Some v \<Rightarrow> (let v = trim_text v in if v = [] then None else Some v))"

definition normalize_model_input :: "'u url_lib \<Rightarrow> model_input \<Rightarrow> model_input result" where
  "normalize_model_input lib i =
     rbind (config_required (mi_display_name i) ''model display name'') (\<lambda>display_name.
     rbind (normalize_request_url lib (mi_base_url i)) (\<lambda>base_url.
     rbind (config_required (mi_api_key i) ''model API key'') (\<lambda>api_key.
     rbind (config_required (mi_tooltip i) ''model tooltip'') (\<lambda>tooltip.
     rbind (config_required (mi_model_id i) ''model id'') (\<lambda>model_id.
     rbind (normalize_effort (mi_reasoning_effort i) True) (\<lambda>reasoning_effort.
     rbind (anthropic_effort i) (\<lambda>thinking_effort.
     rbind (case mi_type i of OpenAiModel \<Rightarrow> normalize_openai_endpoint (mi_openai_endpoint i)
                            | AnthropicModel \<Rightarrow> Inr []) (\<lambda>endpoint.
     rbind (validate_object (mi_openai_extra i) ''OpenAI extra params'') (\<lambda>_.
     rbind (validate_object (mi_anthropic_extra i) ''Anthropic extra params'') (\<lambda>_.
     rbind (validate_headers (mi_headers i)) (\<lambda>_.
     rbind (config_positive (mi_context_window i) ''context window'') (\<lambda>context_window.
     rbind (config_positive (mi_max_completion i) ''max completion tokens'') (\<lambda>max_completion.
     rbind (config_positive (mi_anthropic_max i) ''Anthropic max tokens'') (\<lambda>anthropic_max.
     rbind (config_positive (mi_thinking_budget i) ''thinking budget'') (\<lambda>thinking_budget.
       let openai = (mi_type i = OpenAiModel);
           n = \<lparr>mi_sort_order = max 0 (mi_sort_order i), mi_display_name = display_name,
                mi_group_name = normalized_group (mi_group_name i), mi_type = mi_type i, mi_base_url = base_url,
                mi_use_full_url = mi_use_full_url i, mi_api_key = api_key, mi_tooltip = tooltip, mi_model_id = model_id,
                mi_reasoning_effort = (if openai then reasoning_effort else None),
                mi_openai_endpoint = endpoint,
                mi_openai_extra_enabled = (openai \<and> mi_openai_extra_enabled i),
                mi_openai_extra = (if openai then mi_openai_extra i else JObj []),
                mi_headers_enabled = mi_headers_enabled i, mi_headers = mi_headers i,
                mi_anthropic_extra_enabled = (\<not> openai \<and> mi_anthropic_extra_enabled i),
                mi_anthropic_extra = (if openai then JObj [] else mi_anthropic_extra i),
                mi_context_window = context_window, mi_max_completion = max_completion,
                mi_anthropic_max = anthropic_max, mi_anthropic_effort = thinking_effort,
                mi_thinking_budget = thinking_budget\<rparr>
       in rbind (resolve_request_url lib (mi_type n) (mi_base_url n) (mi_openai_endpoint n) (mi_use_full_url n))
            (\<lambda>_. Inr n))))))))))))))))"

text \<open>The first eight bytes of the hash of what makes two configurations the same, in hex.\<close>

definition fingerprint_parts :: "string \<Rightarrow> model_input \<Rightarrow> string list" where
  "fingerprint_parts url n =
     [url, mi_model_id n, mi_api_key n, mi_display_name n]
     @ (if mi_type n = OpenAiModel then [mi_openai_endpoint n] else [])"

definition model_fingerprint ::
    "'u url_lib \<Rightarrow> (string \<Rightarrow> bytes) \<Rightarrow> (bytes \<Rightarrow> string) \<Rightarrow> model_input \<Rightarrow> string result" where
  "model_fingerprint lib sha256 hex i =
     rbind (normalize_model_input lib i) (\<lambda>n.
     rbind (resolve_request_url lib (mi_type n) (mi_base_url n) (mi_openai_endpoint n) (mi_use_full_url n)) (\<lambda>url.
       Inr (hex (take 8 (sha256 (join_with nl (fingerprint_parts url n)))))))"


section \<open>Use\<close>

definition config_provider_type :: "model_config \<Rightarrow> provider_type" where
  "config_provider_type m =
     (case mi_type m of
        AnthropicModel \<Rightarrow> AnthropicType
      | OpenAiModel \<Rightarrow>
          (if mi_openai_endpoint m = openai_responses_endpoint then OpenAiResponsesType else OpenAiChatType))"

definition config_request_url :: "'u url_lib \<Rightarrow> model_config \<Rightarrow> string result" where
  "config_request_url lib m =
     resolve_request_url lib (mi_type m) (mi_base_url m) (mi_openai_endpoint m) (mi_use_full_url m)"

definition anthropic_limits :: "(string \<times> nat) list" where
  "anthropic_limits =
     [(''claude-sonnet-4'', 64000), (''claude-opus-4'', 32000), (''claude-3-7-sonnet'', 64000),
      (''claude-3-5-sonnet'', 8192), (''claude-3-5-haiku'', 8192)]"

definition known_anthropic_max_output_tokens :: "string \<Rightarrow> nat option" where
  "known_anthropic_max_output_tokens model_id =
     map_option snd (find (\<lambda>(p, _). starts_with (to_ascii_lowercase (trim_text model_id)) p) anthropic_limits)"

definition first_of :: "'a option \<Rightarrow> 'a option \<Rightarrow> 'a option" where
  "first_of a b = (case a of Some x \<Rightarrow> Some x | None \<Rightarrow> b)"

definition max_output_tokens :: "model_config \<Rightarrow> nat option" where
  "max_output_tokens m =
     (case mi_type m of
        OpenAiModel \<Rightarrow> mi_max_completion m
      | AnthropicModel \<Rightarrow>
          first_of (mi_anthropic_max m)
            (first_of (mi_max_completion m) (known_anthropic_max_output_tokens (mi_model_id m))))"

definition config_extra_params :: "model_config \<Rightarrow> json" where
  "config_extra_params m =
     (case mi_type m of
        OpenAiModel \<Rightarrow> (if mi_openai_extra_enabled m then mi_openai_extra m else JObj [])
      | AnthropicModel \<Rightarrow> (if mi_anthropic_extra_enabled m then mi_anthropic_extra m else JObj []))"

definition configure_effort :: "model_config \<Rightarrow> reasoning_spec \<Rightarrow> string option" where
  "configure_effort m r =
     (if rs_enabled r \<noteq> Some False \<and> rs_effort r = None
      then (case mi_type m of OpenAiModel \<Rightarrow> mi_reasoning_effort m | AnthropicModel \<Rightarrow> mi_anthropic_effort m)
      else rs_effort r)"

definition configure :: "model_config \<Rightarrow> model_spec \<Rightarrow> model_spec" where
  "configure m spec =
     (let r = ms_reasoning spec;
          effort = configure_effort m r
      in spec\<lparr>ms_display_name := Some (mi_display_name m),
              ms_context_window_tokens := first_of (ms_context_window_tokens spec) (mi_context_window m),
              ms_max_output_tokens := first_of (ms_max_output_tokens spec) (max_output_tokens m),
              ms_reasoning :=
                \<lparr>rs_enabled = Some (case rs_enabled r of Some b \<Rightarrow> b | None \<Rightarrow> effort \<noteq> None),
                 rs_effort = effort,
                 rs_thinking_budget = first_of (rs_thinking_budget r) (mi_thinking_budget m)\<rparr>\<rparr>)"

definition reasoning_is_enabled :: "reasoning_spec \<Rightarrow> bool" where
  "reasoning_is_enabled r \<longleftrightarrow> rs_enabled r = Some True"


section \<open>Properties\<close>

text \<open>Trimming twice is trimming once: what is left of the characters reads back as the same characters.\<close>

definition char_list :: "string list \<Rightarrow> bool" where
  "char_list cs \<longleftrightarrow> (\<forall>c\<in>set cs. c \<noteq> [] \<and> list_all is_continuation (tl c))
     \<and> (\<forall>c\<in>set (tl cs). \<not> is_continuation (hd c))"

lemma chars_of_char_list: "char_list cs \<Longrightarrow> chars (concat cs) = cs"
proof (induction cs)
  case (Cons c cs)
  then obtain b bs where c: "c = b # bs" "list_all is_continuation bs" by (cases c) (auto simp: char_list_def)
  have "char_list cs" using Cons.prems by (cases cs) (auto simp: char_list_def)
  moreover have "takeWhile is_continuation (bs @ concat cs) = bs \<and> dropWhile is_continuation (bs @ concat cs) = concat cs"
  proof -
    have "takeWhile is_continuation (concat cs) = [] \<and> dropWhile is_continuation (concat cs) = concat cs"
    proof (cases cs)
      case (Cons d ds)
      then obtain x xs where "d = x # xs" "\<not> is_continuation x" using Cons.prems c by (cases d) (auto simp: char_list_def)
      then show ?thesis using Cons by simp
    qed simp
    then show ?thesis using c(2) by (induction bs) auto
  qed
  ultimately show ?case using Cons.IH c by simp
qed simp

lemma all_from_hd_tl: "(xs \<noteq> [] \<Longrightarrow> P (hd xs)) \<Longrightarrow> \<forall>d\<in>set (tl xs). P d \<Longrightarrow> \<forall>d\<in>set xs. P d"
  by (cases xs) auto

lemma char_list_chars: "char_list (chars s)"
proof (induction s rule: chars.induct)
  case (2 c cs)
  let ?r = "dropWhile is_continuation cs"
  have first: "\<not> is_continuation (hd (hd (chars ?r)))" if "chars ?r \<noteq> []"
  proof (cases ?r)
    case (Cons x xs)
    then have "\<not> is_continuation x" using hd_dropWhile[of is_continuation cs] by simp
    then show ?thesis using Cons by simp
  qed (use that in simp)
  have "\<forall>d\<in>set (tl (chars ?r)). \<not> is_continuation (hd d)" using 2 unfolding char_list_def by blast
  then have "\<forall>d\<in>set (chars ?r). \<not> is_continuation (hd d)" using first all_from_hd_tl[where P = "\<lambda>d. \<not> is_continuation (hd d)" and xs = "chars ?r"] by blast
  then show ?case using 2 by (auto simp: char_list_def list_all_iff dest: set_takeWhileD)
qed (simp add: char_list_def)

lemma char_list_infix: "char_list (a @ cs @ b) \<Longrightarrow> char_list cs"
  by (cases a; cases cs) (auto simp: char_list_def)

lemma trim_chars_infix: "\<exists>a b. cs = a @ trim_chars cs @ b"
proof -
  obtain b where "dropWhile white cs = trim_chars cs @ b"
    using takeWhile_dropWhile_id[of white "rev (dropWhile white cs)"]
    by (metis trim_chars_def rev_append rev_rev_ident)
  then show ?thesis using takeWhile_dropWhile_id[of white cs] by metis
qed

lemma dropWhile_again: "dropWhile p (dropWhile p xs) = dropWhile p xs"
  by (induction xs) auto

lemma trim_chars_again: "trim_chars (trim_chars cs) = trim_chars cs"
proof -
  let ?d = "dropWhile white cs"
  obtain b where b: "?d = trim_chars cs @ b"
    using takeWhile_dropWhile_id[of white "rev ?d"] by (metis trim_chars_def rev_append rev_rev_ident)
  have "dropWhile white (trim_chars cs) = trim_chars cs"
  proof (cases "trim_chars cs")
    case (Cons x xs)
    then have "hd ?d = x" "?d \<noteq> []" using b by auto
    then show ?thesis using hd_dropWhile[of white cs] Cons by auto
  qed simp
  then show ?thesis by (simp add: trim_chars_def dropWhile_again)
qed

lemma trim_text_again [simp]: "trim_text (trim_text s) = trim_text s"
proof -
  obtain a b where "chars s = a @ trim_chars (chars s) @ b" using trim_chars_infix by blast
  then have "char_list (trim_chars (chars s))" using char_list_chars[of s] char_list_infix by metis
  then show ?thesis by (simp add: trim_text_def chars_of_char_list trim_chars_again)
qed

text \<open>Texts of small letters, digits, dashes and slashes are plain.\<close>

lemma effort_levels_plain: "v \<in> set effort_levels \<Longrightarrow> to_ascii_lowercase (trim_text v) = v"
  by (auto simp: effort_levels_def plain_trim plain_text_def is_continuation_def is_whitespace_def to_ascii_lowercase_def ascii_lower_def)

lemma endpoints_plain [simp]:
  "trim_text openai_responses_endpoint = openai_responses_endpoint" "trim_text openai_chat_endpoint = openai_chat_endpoint"
  "openai_responses_endpoint \<noteq> []" "openai_chat_endpoint \<noteq> []" "openai_chat_endpoint \<noteq> openai_responses_endpoint"
  by (simp_all add: openai_responses_endpoint_def openai_chat_endpoint_def plain_trim plain_text_def is_continuation_def
      is_whitespace_def)

lemma normalize_request_url_again: "normalize_request_url lib v = Inr w \<Longrightarrow> normalize_request_url lib w = Inr w"
  by (auto simp: normalize_request_url_def Let_def split: if_splits)

lemma normalized_group_again [simp]: "normalized_group (normalized_group g) = normalized_group g"
  by (auto simp: normalized_group_def Let_def split: option.splits if_splits)

lemma normalize_effort_none [simp]: "normalize_effort None True = Inr None"
  by (simp add: normalize_effort_def to_ascii_lowercase_def trim_text_def trim_chars_def)

text \<open>What a stored configuration is, beyond its types.\<close>

definition normal_input :: "'u url_lib \<Rightarrow> model_input \<Rightarrow> bool" where
  "normal_input lib n \<longleftrightarrow>
     0 \<le> mi_sort_order n
     \<and> (\<forall>v\<in>{mi_display_name n, mi_api_key n, mi_tooltip n, mi_model_id n}. trim_text v = v \<and> v \<noteq> [])
     \<and> normalized_group (mi_group_name n) = mi_group_name n
     \<and> normalize_request_url lib (mi_base_url n) = Inr (mi_base_url n)
     \<and> is_object (mi_openai_extra n) \<and> is_object (mi_anthropic_extra n) \<and> validate_headers (mi_headers n) = Inr ()
     \<and> Some 0 \<notin> {mi_context_window n, mi_max_completion n, mi_anthropic_max n, mi_thinking_budget n}
     \<and> (\<exists>url. resolve_request_url lib (mi_type n) (mi_base_url n) (mi_openai_endpoint n) (mi_use_full_url n) = Inr url)
     \<and> (case mi_type n of
          OpenAiModel \<Rightarrow>
            mi_openai_endpoint n \<in> {openai_responses_endpoint, openai_chat_endpoint} \<and> mi_anthropic_effort n = None
            \<and> (case mi_reasoning_effort n of None \<Rightarrow> True | Some e \<Rightarrow> e \<in> set effort_levels)
            \<and> \<not> mi_anthropic_extra_enabled n \<and> mi_anthropic_extra n = JObj []
        | AnthropicModel \<Rightarrow>
            mi_openai_endpoint n = [] \<and> mi_reasoning_effort n = None
            \<and> (case mi_anthropic_effort n of None \<Rightarrow> False | Some e \<Rightarrow> e \<in> set effort_levels)
            \<and> \<not> mi_openai_extra_enabled n \<and> mi_openai_extra n = JObj [])"

lemma config_required_Inr: "config_required v l = Inr w \<longleftrightarrow> w = trim_text v \<and> w \<noteq> []"
  by (auto simp: config_required_def Let_def)

lemma config_positive_Inr: "config_positive v l = Inr w \<longleftrightarrow> w = v \<and> v \<noteq> Some 0"
  by (auto simp: config_positive_def)

lemma validate_object_Inr: "validate_object v l = Inr u \<longleftrightarrow> is_object v"
  by (simp add: validate_object_def)

lemma normalize_effort_Inr: "normalize_effort v b = Inr w \<Longrightarrow> (w = None \<and> b) \<or> (\<exists>e\<in>set effort_levels. w = Some e)"
  by (auto simp: normalize_effort_def Let_def split: if_splits)

lemma normalize_effort_fixed: "e \<in> set effort_levels \<Longrightarrow> normalize_effort (Some e) b = Inr (Some e)"
  using effort_levels_plain[of e] by (auto simp: normalize_effort_def Let_def effort_levels_def)

lemma normalize_endpoint_Inr: "normalize_openai_endpoint v = Inr w \<Longrightarrow> w \<in> {openai_responses_endpoint, openai_chat_endpoint}"
  by (auto simp: normalize_openai_endpoint_def Let_def split: if_splits)

lemma normalize_endpoint_fixed: "v \<in> {openai_responses_endpoint, openai_chat_endpoint} \<Longrightarrow> normalize_openai_endpoint v = Inr v"
  by (auto simp: normalize_openai_endpoint_def)

lemmas config_checks = config_required_Inr config_positive_Inr validate_object_Inr

lemma normalized_is_normal:
  assumes "normalize_model_input lib i = Inr n"
  shows "normal_input lib n"
proof -
  obtain base eff teff ep url where v: "normalize_request_url lib (mi_base_url i) = Inr base"
      "normalize_effort (mi_reasoning_effort i) True = Inr eff" "anthropic_effort i = Inr teff"
      "(case mi_type i of OpenAiModel \<Rightarrow> normalize_openai_endpoint (mi_openai_endpoint i) | AnthropicModel \<Rightarrow> Inr []) = Inr ep"
      "resolve_request_url lib (mi_type n) (mi_base_url n) (mi_openai_endpoint n) (mi_use_full_url n) = Inr url"
      "mi_base_url n = base" "mi_reasoning_effort n = (if mi_type i = OpenAiModel then eff else None)"
      "mi_anthropic_effort n = teff" "mi_openai_endpoint n = ep" "mi_type n = mi_type i" "validate_headers (mi_headers n) = Inr ()"
    using assms by (simp add: normalize_model_input_def Let_def) (elim exE conjE, fastforce)
  have rest: "0 \<le> mi_sort_order n"
      "\<forall>v\<in>{mi_display_name n, mi_api_key n, mi_tooltip n, mi_model_id n}. trim_text v = v \<and> v \<noteq> []"
      "normalized_group (mi_group_name n) = mi_group_name n"
      "is_object (mi_openai_extra n) \<and> is_object (mi_anthropic_extra n)"
      "Some 0 \<notin> {mi_context_window n, mi_max_completion n, mi_anthropic_max n, mi_thinking_budget n}"
    using assms by (auto simp: normalize_model_input_def Let_def config_checks is_object_def)
  have "mi_type n = OpenAiModel \<Longrightarrow> \<not> mi_anthropic_extra_enabled n \<and> mi_anthropic_extra n = JObj []"
      "mi_type n = AnthropicModel \<Longrightarrow> \<not> mi_openai_extra_enabled n \<and> mi_openai_extra n = JObj []"
    using assms by (auto simp: normalize_model_input_def Let_def)
  then show ?thesis
    using v rest normalize_request_url_again[OF v(1)] normalize_effort_Inr[OF v(2)]
    by (cases "mi_type i") (auto simp: normal_input_def anthropic_effort_def dest!: normalize_effort_Inr normalize_endpoint_Inr)
qed

lemma normal_is_normalized:
  assumes "normal_input lib n"
  shows "normalize_model_input lib n = Inr n"
proof -
  have "config_required (mi_display_name n) l = Inr (mi_display_name n)" "config_required (mi_api_key n) l = Inr (mi_api_key n)"
      "config_required (mi_tooltip n) l = Inr (mi_tooltip n)" "config_required (mi_model_id n) l = Inr (mi_model_id n)" for l
    using assms by (auto simp: normal_input_def config_required_Inr)
  moreover have "config_positive (mi_context_window n) l = Inr (mi_context_window n)"
      "config_positive (mi_max_completion n) l = Inr (mi_max_completion n)"
      "config_positive (mi_anthropic_max n) l = Inr (mi_anthropic_max n)"
      "config_positive (mi_thinking_budget n) l = Inr (mi_thinking_budget n)" for l
    using assms by (auto simp: normal_input_def config_positive_Inr)
  moreover have "anthropic_effort n = Inr (mi_anthropic_effort n)" "normalize_effort (mi_reasoning_effort n) True = Inr (mi_reasoning_effort n)"
    using assms normalize_effort_fixed
    by (auto simp: normal_input_def anthropic_effort_def split: model_type.splits option.splits)
  moreover have "(case mi_type n of OpenAiModel \<Rightarrow> normalize_openai_endpoint (mi_openai_endpoint n) | AnthropicModel \<Rightarrow> Inr [])
      = Inr (mi_openai_endpoint n)"
    using assms normalize_endpoint_fixed by (auto simp: normal_input_def split: model_type.splits)
  moreover have "validate_object (mi_openai_extra n) l = Inr ()" "validate_object (mi_anthropic_extra n) l = Inr ()" for l
    using assms by (auto simp: normal_input_def validate_object_Inr)
  moreover obtain url where
      "resolve_request_url lib (mi_type n) (mi_base_url n) (mi_openai_endpoint n) (mi_use_full_url n) = Inr url"
    using assms by (auto simp: normal_input_def)
  moreover have "normalize_request_url lib (mi_base_url n) = Inr (mi_base_url n)" "validate_headers (mi_headers n) = Inr ()"
      "max 0 (mi_sort_order n) = mi_sort_order n" "normalized_group (mi_group_name n) = mi_group_name n"
    using assms by (auto simp: normal_input_def)
  moreover have "mi_type n = OpenAiModel \<Longrightarrow> \<not> mi_anthropic_extra_enabled n \<and> mi_anthropic_extra n = JObj []"
      "mi_type n = AnthropicModel \<Longrightarrow> \<not> mi_openai_extra_enabled n \<and> mi_openai_extra n = JObj [] \<and> mi_reasoning_effort n = None"
    using assms by (auto simp: normal_input_def)
  ultimately show ?thesis
    by (cases "mi_type n") (simp_all add: normalize_model_input_def Let_def)
qed

text \<open>
  C27: what is stored of a configuration is in normal form: normalizing it again changes nothing, it has the
  fingerprint of what was entered, a request URL, an effort the provider knows and no limit of zero.
\<close>
theorem stored_configuration_is_normal:
  assumes "normalize_model_input lib i = Inr n"
  shows "normal_input lib n \<and> normalize_model_input lib n = Inr n
    \<and> model_fingerprint lib sha256 hex n = model_fingerprint lib sha256 hex i"
  using assms normalized_is_normal[OF assms] normal_is_normalized[OF normalized_is_normal[OF assms]]
  by (simp add: model_fingerprint_def)

definition demo_urls :: "string url_lib" where
  "demo_urls =
     \<lparr>url_parse = (\<lambda>v. if starts_with v ''https:'' then Inr v else Inl ''relative URL without a base''),
      url_scheme = (\<lambda>_. ''https''), url_host = (\<lambda>_. Some ''api.example''), url_fragment = (\<lambda>_. None),
      url_path = (\<lambda>_. ''/v1''), url_set_path = (\<lambda>p _. ''https://api.example'' @ p), url_text = (\<lambda>u. u)\<rparr>"

definition demo_model :: model_input where
  "demo_model =
     \<lparr>mi_sort_order = -1, mi_display_name = '' Demo'', mi_group_name = None, mi_type = AnthropicModel,
      mi_base_url = ''https://api.example/v1'', mi_use_full_url = False, mi_api_key = ''k'', mi_tooltip = ''t'',
      mi_model_id = ''claude-sonnet-4'', mi_reasoning_effort = None, mi_openai_endpoint = [],
      mi_openai_extra_enabled = True, mi_openai_extra = JObj [], mi_headers_enabled = False, mi_headers = JObj [],
      mi_anthropic_extra_enabled = False, mi_anthropic_extra = JObj [], mi_context_window = Some 200000,
      mi_max_completion = None, mi_anthropic_max = None, mi_anthropic_effort = None, mi_thinking_budget = None\<rparr>"

lemma demo_trim: "trim_text '' Demo'' = ''Demo''"
proof -
  have "chars '' Demo'' = map (\<lambda>c. [c]) '' Demo''" by (rule chars_plain) (simp add: is_continuation_def)
  then show ?thesis by (simp add: trim_text_def trim_chars_def white_def code_of_def is_whitespace_def)
qed

lemma stored_configuration_is_normal_witness:
  "\<exists>n. normalize_model_input demo_urls demo_model = Inr n \<and> normal_input demo_urls n
     \<and> mi_sort_order n = 0 \<and> mi_display_name n = ''Demo'' \<and> mi_anthropic_effort n = Some ''xhigh''"
proof -
  have "trim_text v = v" if "v \<in> {''https://api.example/v1'', ''k'', ''t'', ''claude-sonnet-4'', ''xhigh'',
      ''https://api.example/v1/messages''}" for v
    using that by (auto simp: plain_trim plain_text_def is_whitespace_def)
  moreover have "normalize_effort (Some ''xhigh'') False = Inr (Some ''xhigh'')"
    by (rule normalize_effort_fixed) (simp add: effort_levels_def)
  ultimately obtain n where n: "normalize_model_input demo_urls demo_model = Inr n"
      "mi_sort_order n = 0" "mi_display_name n = ''Demo''" "mi_anthropic_effort n = Some ''xhigh''"
    by (simp add: normalize_model_input_def demo_model_def demo_trim config_required_def normalize_request_url_def demo_urls_def
        parsed_url_def starts_with_def anthropic_effort_def validate_object_def validate_headers_def is_object_def
        config_positive_def resolve_request_url_def append_standard_endpoint_def has_trailing_version_def trim_end_slashes_def
        strip_prefix_def normalized_group_def is_ascii_digit_def Let_def)
  then show ?thesis
    using stored_configuration_is_normal[OF n(1), of "\<lambda>_. []" "\<lambda>_. []"] by blast
qed

text \<open>
  A summary call stays a summary call: whatever the configuration of the model that runs it, completing the
  request leaves its thinking off, its effort unset and its output cap as the engine asked. A request that
  says nothing gets the configuration's values, and completing a completed request changes nothing.
\<close>
theorem configured_summary_does_not_think:
  "\<not> reasoning_is_enabled (ms_reasoning (configure m (summary_model spec out)))
   \<and> rs_effort (ms_reasoning (configure m (summary_model spec out))) = None
   \<and> ms_max_output_tokens (configure m (summary_model spec out)) = Some out
   \<and> configure m (configure m spec) = configure m spec"
  by (auto simp: configure_def configure_effort_def summary_model_def reasoning_is_enabled_def first_of_def Let_def
      split: option.splits model_type.splits)

end
