(* ===== verification/ImageCache.thy ===== *)
theory ImageCache
  imports Model Bytes
begin

text \<open>
  The images of tool results put into a request (ImageCache in src/server/src/run/engine.rs, BlobId in
  store/cas.rs): each tool result that names an image gets its text and the image as provider parts, the bytes
  read once per run. Base64 and the table of blobs are arguments.
\<close>

section \<open>Blob identities\<close>

definition blob_id_from_bytes :: "bytes \<Rightarrow> bytes result" where
  "blob_id_from_bytes b =
     (if length b = 32 then Inr b
      else Inl (Protocol (''BlobID must be 32 bytes, got '' @ show_nat (length b))))"

record blob_lib =
  decode64 :: "string \<Rightarrow> string + bytes"
  encode64 :: "bytes \<Rightarrow> string"
  get_blob :: "bytes \<Rightarrow> bytes option result"

definition blob_id_from_base64 :: "blob_lib \<Rightarrow> string \<Rightarrow> bytes result" where
  "blob_id_from_base64 lib v =
     (case decode64 lib v of
        Inl e \<Rightarrow> Inl (Protocol (''invalid BlobID base64: '' @ e))
      | Inr b \<Rightarrow> blob_id_from_bytes b)"


section \<open>The cache\<close>

type_synonym image_cache = "bytes \<rightharpoonup> bytes"

definition image_data :: "blob_lib \<Rightarrow> bytes \<Rightarrow> image_cache \<Rightarrow> bytes result \<times> image_cache" where
  "image_data lib i cache =
     (case cache i of
        Some d \<Rightarrow> (Inr d, cache)
      | None \<Rightarrow>
          (case get_blob lib i of
             Inl e \<Rightarrow> (Inl e, cache)
           | Inr None \<Rightarrow> (Inl (Protocol (''Read image Blob is missing: '' @ encode64 lib i)), cache)
           | Inr (Some d) \<Rightarrow> (Inr d, cache(i \<mapsto> d))))"

definition hydrate_message :: "blob_lib \<Rightarrow> projected \<Rightarrow> image_cache \<Rightarrow> projected result \<times> image_cache" where
  "hydrate_message lib m cache =
     (case pm_content m of
        ProjToolResult r \<Rightarrow>
          (case tr_image r of
             None \<Rightarrow> (Inr m, cache)
           | Some im \<Rightarrow>
               (case blob_id_from_base64 lib (img_blob_id im) of
                  Inl e \<Rightarrow> (Inl e, cache)
                | Inr i \<Rightarrow>
                    (case image_data lib i cache of
                       (Inl e, cache') \<Rightarrow> (Inl e, cache')
                     | (Inr d, cache') \<Rightarrow>
                         (Inr (m\<lparr>pm_content := ProjToolResult (r\<lparr>tr_provider_parts :=
                            [PText (tr_content r), PImage (img_mime_type im) d]\<rparr>)\<rparr>), cache'))))
      | _ \<Rightarrow> (Inr m, cache))"

fun hydrate :: "blob_lib \<Rightarrow> projected list \<Rightarrow> image_cache \<Rightarrow> projected list result \<times> image_cache" where
  "hydrate lib [] cache = (Inr [], cache)"
| "hydrate lib (m # ms) cache =
     (case hydrate_message lib m cache of
        (Inl e, cache') \<Rightarrow> (Inl e, cache')
      | (Inr m', cache') \<Rightarrow>
          (case hydrate lib ms cache' of
             (Inl e, cache'') \<Rightarrow> (Inl e, cache'')
           | (Inr ms', cache'') \<Rightarrow> (Inr (m' # ms'), cache'')))"


section \<open>Properties\<close>

text \<open>What the cache holds is what the table holds.\<close>

definition cache_ok :: "blob_lib \<Rightarrow> image_cache \<Rightarrow> bool" where
  "cache_ok lib cache \<longleftrightarrow> (\<forall>i d. cache i \<noteq> Some d \<or> get_blob lib i = Inr (Some d))"

lemma cache_ok_empty [simp]: "cache_ok lib Map.empty"
  by (simp add: cache_ok_def)

lemma image_data_cached:
  "cache_ok lib cache \<Longrightarrow> fst (image_data lib i cache) = fst (image_data lib i Map.empty)
     \<and> cache_ok lib (snd (image_data lib i cache))"
  by (auto simp: image_data_def cache_ok_def split: option.splits sum.splits)

lemma hydrate_message_cached:
  "cache_ok lib cache \<Longrightarrow> fst (hydrate_message lib m cache) = fst (hydrate_message lib m Map.empty)
     \<and> cache_ok lib (snd (hydrate_message lib m cache))"
  using image_data_cached[of lib cache]
  by (auto simp: hydrate_message_def split: projected_content.splits option.splits sum.splits prod.splits; metis prod.collapse fst_conv snd_conv sum.distinct(1) sum.inject)

lemma hydrate_cached:
  "cache_ok lib cache \<Longrightarrow> cache_ok lib cache' \<Longrightarrow> fst (hydrate lib ms cache) = fst (hydrate lib ms cache')
     \<and> cache_ok lib (snd (hydrate lib ms cache))"
proof (induction ms arbitrary: cache cache')
  case (Cons m ms)
  obtain r c1 r' c2 where h: "hydrate_message lib m cache = (r, c1)" "hydrate_message lib m cache' = (r', c2)"
    by (metis prod.exhaust)
  then have "r = r'" "cache_ok lib c1" "cache_ok lib c2"
    using hydrate_message_cached[OF Cons.prems(1), of m] hydrate_message_cached[OF Cons.prems(2), of m] by auto
  then show ?case using h Cons.IH[of c1 c2] by (auto split: sum.splits prod.splits)
qed simp

text \<open>A message as the provider sees it: the image of a tool result beside its text, everything else as it was.\<close>

definition hydrated :: "blob_lib \<Rightarrow> projected \<Rightarrow> projected \<Rightarrow> bool" where
  "hydrated lib m m' \<longleftrightarrow>
     (case pm_content m of
        ProjToolResult r \<Rightarrow>
          (case tr_image r of
             None \<Rightarrow> m' = m
           | Some im \<Rightarrow> (\<exists>i d. blob_id_from_base64 lib (img_blob_id im) = Inr i \<and> get_blob lib i = Inr (Some d)
               \<and> m' = m\<lparr>pm_content := ProjToolResult (r\<lparr>tr_provider_parts :=
                     [PText (tr_content r), PImage (img_mime_type im) d]\<rparr>)\<rparr>))
      | _ \<Rightarrow> m' = m)"

lemma image_data_empty: "image_data lib i Map.empty = (Inr d, c) \<Longrightarrow> get_blob lib i = Inr (Some d)"
  by (auto simp: image_data_def split: sum.splits option.splits)

lemma hydrate_message_hydrated: "hydrate_message lib m Map.empty = (Inr m', c) \<Longrightarrow> hydrated lib m m'"
  by (auto simp: hydrate_message_def hydrated_def dest: image_data_empty
      split: projected_content.splits option.splits sum.splits prod.splits)

lemma hydrate_hydrated: "fst (hydrate lib ms Map.empty) = Inr ms' \<Longrightarrow> list_all2 (hydrated lib) ms ms'"
proof (induction ms arbitrary: ms')
  case (Cons m ms)
  obtain m' c where m: "hydrate_message lib m Map.empty = (Inr m', c)"
    using Cons.prems by (auto split: prod.splits sum.splits)
  have "cache_ok lib c" using hydrate_message_cached[of lib Map.empty m] m by simp
  then have "fst (hydrate lib ms c) = fst (hydrate lib ms Map.empty)" using hydrate_cached cache_ok_empty by blast
  then show ?case using Cons m hydrate_message_hydrated[OF m] by (auto split: prod.splits sum.splits)
qed simp

text \<open>
  C28: the cache of images is not seen: a request gets the images the table holds, whatever was read before in the
  run; what the cache holds stays what the table holds; and a request that gets its images differs from
  the history in them only.
\<close>
theorem cached_images_are_the_stored_ones:
  assumes "cache_ok lib cache"
  shows "fst (hydrate lib ms cache) = fst (hydrate lib ms Map.empty)
    \<and> cache_ok lib (snd (hydrate lib ms cache))
    \<and> (case fst (hydrate lib ms cache) of Inl _ \<Rightarrow> True | Inr ms' \<Rightarrow> list_all2 (hydrated lib) ms ms')"
  using hydrate_cached[OF assms cache_ok_empty, of ms] hydrate_hydrated[of lib ms] by (auto split: sum.splits)

definition demo_blobs :: blob_lib where
  "demo_blobs =
     \<lparr>decode64 = (\<lambda>v. Inr (replicate 32 (word_of_nat (length v)))), encode64 = (\<lambda>_. ''A''),
      get_blob = (\<lambda>i. Inr (if i = replicate 32 1 then Some [7] else None))\<rparr>"

lemma cached_images_are_the_stored_ones_witness:
  "cache_ok demo_blobs [replicate 32 1 \<mapsto> [7]]
   \<and> cache_ok demo_blobs (snd (hydrate demo_blobs [] [replicate 32 1 \<mapsto> [7]]))"
proof -
  have "cache_ok demo_blobs [replicate 32 1 \<mapsto> [7]]" by (simp add: cache_ok_def demo_blobs_def)
  then show ?thesis using cached_images_are_the_stored_ones[of demo_blobs _ "[]"] by blast
qed

end
