(* ===== verification/EngineState.thy ===== *)
theory EngineState
  imports RoundExec Compaction ModelCycle ModelConfig ImageCache
begin

text \<open>
  What the run engine (src/server/src/run/engine.rs) works on: its state while it executes a run, the actions on
  it, one streaming call with the commands that arrive during it, the wait before a retry, and the model that a
  summary call goes to. What the engine waits for is explicit input: commands and stream items as they
  arrive, answers of barriers, readings of clocks. The texts the source reads from files, serde_json, base64, the blob
  table and the table of models are the fields of \<open>engine_env\<close>.
\<close>

section \<open>Requests\<close>

datatype call_purpose = ChatCall | CompactionSummaryCall

datatype call_client = CursorClient | DevinClient | CodexClient | ClaudeClient | InternalClient

record model_request =
  mq_prompt :: prompt_spec
  mq_model :: model_spec
  mq_history :: "projected list"

record model_invocation =
  mv_client :: call_client
  mv_call_id :: string
  mv_run :: string
  mv_conversation :: string
  mv_index :: nat
  mv_purpose :: call_purpose
  mv_request :: model_request


section \<open>State\<close>

record engine_env =
  ev_codec :: codec
  ev_clock :: "nat \<Rightarrow> int"
  ev_parse :: "string \<Rightarrow> string + json"
  ev_render :: "json \<Rightarrow> string"
  ev_instructions :: string
  ev_model :: "string \<Rightarrow> model_config option result"
  ev_blobs :: blob_lib
  ev_policy :: background_wait_policy

text \<open>
  The run's port (what was sent, the phase), the requests made, the image cache, and the variables of
  \<open>run_claimed\<close>; \<open>en_run\<close> is the copy of the prepared run whose window is learned from refusals.
\<close>

record engine =
  en_exec :: exec
  en_phase :: run_phase
  en_requests :: "model_invocation list"
  en_images :: image_cache
  en_checkpoint :: checkpoint_id
  en_usage :: "usage option"
  en_anchor :: "usage_anchor option"
  en_run :: prompted_run
  en_overflow :: overflow_episode
  en_detail_retry :: bool
  en_short_summary :: "string option"

type_synonym 'a eact = "(engine, 'a) action"


section \<open>Actions\<close>

definition lift_exec :: "'a act \<Rightarrow> 'a eact" where
  "lift_exec m e = (case m (en_exec e) of (r, x) \<Rightarrow> (r, e\<lparr>en_exec := x\<rparr>))"

definition gets :: "(engine \<Rightarrow> 'a) \<Rightarrow> 'a eact" where
  "gets f e = (Done (f e), e)"

definition modify :: "(engine \<Rightarrow> engine) \<Rightarrow> unit eact" where
  "modify f e = (Done (), f e)"

definition must :: "'a result \<Rightarrow> 'a eact" where
  "must r = (case r of Inl e \<Rightarrow> astop (failed e) | Inr a \<Rightarrow> areturn a)"

text \<open>A loop of the source that may never end: it waits for ever.\<close>

definition unless_it_spins :: "'a option \<Rightarrow> 'a eact" where
  "unless_it_spins r = (case r of None \<Rightarrow> awaiting | Some a \<Rightarrow> areturn a)"

definition query :: "(db \<Rightarrow> 'a result) \<Rightarrow> 'a eact" where
  "query f = abind (gets (\<lambda>e. f (x_db (en_exec e)))) must"

definition transact :: "engine_env \<Rightarrow> (int \<Rightarrow> 'a tx) \<Rightarrow> 'a eact" where
  "transact v f = lift_exec (in_store (ev_clock v) f)"

definition tell :: "run_event \<Rightarrow> unit eact" where
  "tell ev = lift_exec (emit_event ev)"

text \<open>Sending with the error ignored.\<close>

definition tell_quietly :: "run_event \<Rightarrow> unit eact" where
  "tell_quietly ev e = (Done (), snd (tell ev e))"

definition commit_and_wait :: "commit_cause \<Rightarrow> unit eact" where
  "commit_and_wait cause =
     abind (gets en_checkpoint) (\<lambda>cp.
     abind (tell (commit_event cp 0 cause True)) (\<lambda>_. lift_exec wait_ready))"

definition move_to :: "checkpoint_id \<Rightarrow> unit eact" where
  "move_to cp = modify (\<lambda>e. e\<lparr>en_checkpoint := cp\<rparr>)"

text \<open>Batches appended at the current checkpoint; whether anything was inserted.\<close>

definition insert_batches :: "engine_env \<Rightarrow> prompted_run \<Rightarrow> batch list \<Rightarrow> bool eact" where
  "insert_batches v p bs =
     abind (gets en_checkpoint) (\<lambda>cp.
     abind (lift_exec (append_batches (ev_codec v) (ev_clock v) (pr_conversation_id p) (pr_run_id p) cp bs)) (\<lambda>(cp', inserted).
     abind (move_to cp') (\<lambda>_. areturn inserted)))"

text \<open>The messages of the current checkpoint, and their projection.\<close>

definition current_messages :: "engine_env \<Rightarrow> message list eact" where
  "current_messages v =
     abind (gets en_checkpoint) (\<lambda>cp. query (load_checkpoint_messages (ev_codec v) cp))"

definition add_usage :: "usage option \<Rightarrow> unit eact" where
  "add_usage u =
     modify (\<lambda>e. case u of None \<Rightarrow> e | Some u \<Rightarrow> e\<lparr>en_usage := accumulate_usage (en_usage e) u\<rparr>)"

text \<open>What a call reported: the anchor for the messages it was asked with, and the sum.\<close>

definition report_usage :: "usage option \<Rightarrow> nat \<Rightarrow> unit eact" where
  "report_usage u n =
     abind (modify (\<lambda>e. case u of None \<Rightarrow> e
              | Some u \<Rightarrow> e\<lparr>en_anchor := update_context_usage_anchor (en_anchor e) u n\<rparr>))
       (\<lambda>_. add_usage u)"

text \<open>The phase shared with the run's handle (RunPhaseControl).\<close>

definition port_begin_finalizing :: "unit eact" where
  "port_begin_finalizing =
     modify (\<lambda>e. e\<lparr>en_phase := (if en_phase e = Running then Finalizing else en_phase e)\<rparr>)"

definition port_resume_running :: "unit eact" where
  "port_resume_running =
     modify (\<lambda>e. e\<lparr>en_phase := (if en_phase e = Finalizing then Running else en_phase e)\<rparr>)"

definition port_finish :: "unit eact" where
  "port_finish = modify (\<lambda>e. e\<lparr>en_phase := Ended\<rparr>)"

definition hydrate_request :: "engine_env \<Rightarrow> projected list \<Rightarrow> projected list eact" where
  "hydrate_request v history e =
     (case hydrate (ev_blobs v) history (en_images e) of (r, cache) \<Rightarrow> must r (e\<lparr>en_images := cache\<rparr>))"


section \<open>One call, with the commands that arrive during it\<close>

datatype call_reading = CommandArrives "run_command option" | ItemArrives reading

fun items_of :: "call_reading list \<Rightarrow> reading list" where
  "items_of [] = []"
| "items_of (CommandArrives _ # rs) = items_of rs"
| "items_of (ItemArrives i # rs) = i # items_of rs"

type_synonym cycle_outcome = "model_cycle_failure + model_cycle_result"

text \<open>How a call ends: by itself, broken by the user's messages, or because the run is over.\<close>

datatype call_end =
    CallOver cycle_outcome
  | CallBroken batch cycle_outcome
  | CallStopped run_outcome

text \<open>The token is cancelled and the call awaited: commands stay in the queue meanwhile.\<close>

definition await_cancelled ::
    "(string \<Rightarrow> string + json) \<Rightarrow> bool \<Rightarrow> call_reading list \<Rightarrow> cycle_state \<Rightarrow> (cycle_outcome \<Rightarrow> call_end)
     \<Rightarrow> batch list \<Rightarrow> call_end option \<times> cycle_state \<times> batch list" where
  "await_cancelled parse client rs s k pending =
     (case consume_model_cycle parse client (items_of rs) s of (r, s') \<Rightarrow> (map_option k r, s', pending))"

fun run_call ::
    "(string \<Rightarrow> string + json) \<Rightarrow> bool \<Rightarrow> string set \<Rightarrow> string \<Rightarrow> call_reading list \<Rightarrow> cycle_state \<Rightarrow> batch list
     \<Rightarrow> call_end option \<times> cycle_state \<times> batch list" where
  "run_call parse client accounted refusal [] s pending = (None, s, pending)"
| "run_call parse client accounted refusal (ItemArrives i # rs) s pending =
     (case cycle_turn parse client i s of
        (Some r, s') \<Rightarrow> (Some (CallOver r), s', pending)
      | (None, s') \<Rightarrow> run_call parse client accounted refusal rs s' pending)"
| "run_call parse client accounted refusal (CommandArrives c # rs) s pending =
     (case c of
        Some (InsertMessages ev ms) \<Rightarrow> run_call parse client accounted refusal rs s (pending @ [(ev, ms)])
      | Some (BreakMessages ev ms) \<Rightarrow> await_cancelled parse client rs s (CallBroken (ev, ms)) pending
      | Some CancelCommand \<Rightarrow> await_cancelled parse client rs s (\<lambda>_. CallStopped CancelledRun) pending
      | Some (ToolResultCommand r) \<Rightarrow>
          (if late_tool_result r accounted then run_call parse client accounted refusal rs s pending
           else await_cancelled parse client rs s (\<lambda>_. CallStopped (Failed (FProtocol refusal))) pending)
      | None \<Rightarrow> await_cancelled parse client rs s (\<lambda>_. CallStopped client_failure) pending)"

text \<open>The call made: its request is on record, its events are sent, what it collected of insertions is returned.\<close>

definition model_call ::
    "engine_env \<Rightarrow> bool \<Rightarrow> string \<Rightarrow> model_invocation \<Rightarrow> call_reading list \<Rightarrow> batch list \<Rightarrow> (call_end \<times> batch list) eact" where
  "model_call v client refusal call rs pending e =
     (case run_call (ev_parse v) client (x_accounted (en_exec e)) refusal rs cycle_new pending of
        (r, s, pending') \<Rightarrow>
          (let e' = e\<lparr>en_requests := en_requests e @ [call],
                      en_exec := (en_exec e)\<lparr>x_sent := x_sent (en_exec e) @ cy_sent s\<rparr>\<rparr>
           in case r of None \<Rightarrow> (Waiting, e') | Some k \<Rightarrow> (Done (k, pending'), e')))"

definition outcome_usage :: "cycle_outcome \<Rightarrow> usage option" where
  "outcome_usage r = (case r of Inl f \<Rightarrow> failed_usage f | Inr c \<Rightarrow> cr_usage c)"


section \<open>The wait before a retry\<close>

datatype delay_reading = DelayCommand "run_command option" | DelayCancelled | DelayOver

datatype delay_end = RetryNow | DelayBroken batch | DelayStopped bool run_outcome

definition retry_refusal :: string where
  "retry_refusal = ''received a tool result while waiting to retry the model''"

text \<open>None while the delay lasts; a stop says whether the client is told of the interruption.\<close>

fun retry_delay ::
    "string set \<Rightarrow> delay_reading list \<Rightarrow> batch list \<Rightarrow> (delay_end \<times> batch list) option" where
  "retry_delay accounted [] pending = None"
| "retry_delay accounted (DelayOver # rs) pending = Some (RetryNow, pending)"
| "retry_delay accounted (DelayCancelled # rs) pending = Some (DelayStopped True CancelledRun, pending)"
| "retry_delay accounted (DelayCommand c # rs) pending =
     (case c of
        Some (InsertMessages ev ms) \<Rightarrow> retry_delay accounted rs (pending @ [(ev, ms)])
      | Some (BreakMessages ev ms) \<Rightarrow> Some (DelayBroken (ev, ms), pending)
      | Some CancelCommand \<Rightarrow> Some (DelayStopped True CancelledRun, pending)
      | Some (ToolResultCommand r) \<Rightarrow>
          (if late_tool_result r accounted then retry_delay accounted rs pending
           else Some (DelayStopped False (Failed (FProtocol retry_refusal)), pending))
      | None \<Rightarrow> Some (DelayStopped False client_failure, pending))"


section \<open>The model of a summary call\<close>

record summary_target_spec =
  st_model :: model_spec
  st_context_window :: "nat option"
  st_output_tokens :: nat

definition configured_model :: "engine_env \<Rightarrow> string \<Rightarrow> model_config option" where
  "configured_model v hash =
     (let hash = trim_text hash
      in if hash = [] then None
         else case ev_model v hash of Inr m \<Rightarrow> m | Inl _ \<Rightarrow> None)"

definition smaller_window :: "nat option \<Rightarrow> nat option \<Rightarrow> nat option" where
  "smaller_window ours theirs =
     (case (ours, theirs) of
        (Some a, Some b) \<Rightarrow> Some (min a b)
      | _ \<Rightarrow> first_of theirs ours)"

definition summary_target :: "engine_env \<Rightarrow> prompted_run \<Rightarrow> compaction_settings \<Rightarrow> summary_target_spec" where
  "summary_target v prepared settings =
     (let configured = configured_model v (cs_summary_model_hash settings);
          run_limit = (case configured of
              Some _ \<Rightarrow> None
            | None \<Rightarrow>
                (case ev_model v (ms_model_id (pr_model prepared)) of
                   Inr (Some m) \<Rightarrow> max_output_tokens m
                 | _ \<Rightarrow> None));
          output = summary_output_tokens (cs_summary_output_tokens settings)
                     (map_option max_output_tokens configured) run_limit;
          model = summary_model (pr_model prepared) output;
          window = ms_context_window_tokens (pr_model prepared)
      in case configured of
           None \<Rightarrow> \<lparr>st_model = model, st_context_window = window, st_output_tokens = output\<rparr>
         | Some m \<Rightarrow>
             \<lparr>st_model = model\<lparr>ms_model_id := mc_model_hash m, ms_display_name := Some (mi_display_name m),
                ms_max_output_tokens := (case max_output_tokens m of
                   Some limit \<Rightarrow> Some (min output limit) | None \<Rightarrow> ms_max_output_tokens model)\<rparr>,
              st_context_window = smaller_window window (mi_context_window m),
              st_output_tokens = output\<rparr>)"

definition prompt_alone_tokens :: "engine_env \<Rightarrow> prompt_spec \<Rightarrow> nat" where
  "prompt_alone_tokens v prompt = estimate_context_tokens (ev_render v) prompt []"

definition summary_input_for :: "engine_env \<Rightarrow> summary_target_spec \<Rightarrow> prompt_spec \<Rightarrow> rat \<Rightarrow> summary_input" where
  "summary_input_for v target prompt calibration =
     \<lparr>si_context_window = st_context_window target, si_output_tokens = st_output_tokens target,
      si_prompt_tokens = prompt_alone_tokens v prompt, si_calibration = calibration\<rparr>"

definition plain_prompt :: "string \<Rightarrow> prompt_spec" where
  "plain_prompt instructions = \<lparr>ps_instructions = instructions, ps_tools = []\<rparr>"

definition engine_invocation ::
    "prompted_run \<Rightarrow> call_purpose \<Rightarrow> string \<Rightarrow> nat \<Rightarrow> model_request \<Rightarrow> model_invocation" where
  "engine_invocation p purpose cid index request =
     \<lparr>mv_client = CursorClient, mv_call_id = cid, mv_run = pr_run_id p, mv_conversation = pr_conversation_id p,
      mv_index = index, mv_purpose = purpose, mv_request = request\<rparr>"

end
