(* ===== verification/AutoCompact.thy ===== *)
theory AutoCompact
  imports EngineState
begin

text \<open>
  Automatic compaction (\<open>auto_compact\<close> in src/server/src/run/engine.rs): the summary of what the history holds
  besides the current request, from the model, from the summary in place, or without a model; the
  replacement of the history by it; and the announcement of both to the client. The summary calls' readings and the
  path of the archive file are inputs. The observation row written after the commit is left out.
\<close>

section \<open>Input\<close>

record compaction_input =
  ci_archive :: "string option"
  ci_calls :: "call_reading list list"

record compaction_request =
  cq_retention :: retention
  cq_calibration :: rat


section \<open>Asking for a summary\<close>

record summary_state =
  sm_prompt :: prompt_spec
  sm_input :: summary_input
  sm_usage :: "usage option"
  sm_index :: "nat option"
  sm_short :: "string option"
  sm_attempts :: nat
  sm_tighten :: bool
  sm_pending :: "batch list"
  sm_break :: "batch option"

text \<open>What an attempt leads to: another one, or the summary.\<close>

datatype summary_end = AskAgain summary_state | Summarized string summary_state

definition summary_refusal :: string where
  "summary_refusal = ''received a tool result while automatic compaction was running''"

definition with_usage :: "usage option \<Rightarrow> summary_state \<Rightarrow> summary_state" where
  "with_usage u s =
     (case u of None \<Rightarrow> s | Some u \<Rightarrow> s\<lparr>sm_usage := accumulate_usage (sm_usage s) u\<rparr>)"

text \<open>The summary made without the model: the short one it gave with exact entries, or the digest.\<close>

definition summary_without_model :: "message list \<Rightarrow> summary_state \<Rightarrow> string" where
  "summary_without_model compactable s =
     (case sm_short s of
        Some short \<Rightarrow> short_summary_addendum short compactable
      | None \<Rightarrow> fallback_summary compactable)"

definition detail_prompt :: "engine_env \<Rightarrow> nat \<Rightarrow> prompt_spec" where
  "detail_prompt v minimum = plain_prompt (ev_instructions v @ detail_retry_instructions minimum)"

text \<open>A text that came back: long enough, asked for again with more detail, or extended by exact entries.\<close>

definition accept_summary ::
    "engine_env \<Rightarrow> nat \<Rightarrow> message list \<Rightarrow> string \<Rightarrow> summary_state \<Rightarrow> summary_end" where
  "accept_summary v minimum compactable answer s =
     (let summary = trim_text answer
      in if summary_needs_expansion summary minimum then
           (let s' = s\<lparr>sm_short := Some summary\<rparr>
            in if sm_attempts s < 2 then
                 AskAgain (s'\<lparr>sm_prompt := detail_prompt v minimum,
                              sm_input := (sm_input s)\<lparr>si_prompt_tokens := prompt_alone_tokens v (detail_prompt v minimum)\<rparr>\<rparr>)
               else Summarized (short_summary_addendum summary compactable) s')
         else Summarized summary s)"

text \<open>A call that brought none: one more attempt where that can help, with a shorter replay when it was too long.\<close>

definition without_summary :: "message list \<Rightarrow> bool \<Rightarrow> bool \<Rightarrow> summary_state \<Rightarrow> summary_end" where
  "without_summary compactable again tighten s =
     (if sm_attempts s < 2 \<and> again then AskAgain (s\<lparr>sm_tighten := tighten\<rparr>)
      else Summarized (summary_without_model compactable s) s)"

definition failure_is_overflow :: "run_failure \<Rightarrow> bool" where
  "failure_is_overflow f = (case f of FProvider m \<Rightarrow> is_context_overflow m | _ \<Rightarrow> False)"

definition summary_answer ::
    "engine_env \<Rightarrow> nat \<Rightarrow> message list \<Rightarrow> cycle_outcome \<Rightarrow> summary_state \<Rightarrow> summary_end" where
  "summary_answer v minimum compactable r s0 =
     (let s = with_usage (outcome_usage r) s0
      in case r of
           Inr cycle \<Rightarrow>
             (if cr_calls cycle = [] \<and> trim_text (cr_text cycle) \<noteq> []
              then accept_summary v minimum compactable (cr_text cycle) s
              else without_summary compactable True False s)
         | Inl f \<Rightarrow>
             without_summary compactable (retryable f \<or> failure_is_overflow (cf_failure f))
               (failure_is_overflow (cf_failure f)) s)"

text \<open>One attempt of the loop.\<close>

definition summary_attempt ::
    "engine_env \<Rightarrow> prompted_run \<Rightarrow> compaction_settings \<Rightarrow> summary_target_spec \<Rightarrow> nat \<Rightarrow> message list
     \<Rightarrow> call_reading list \<Rightarrow> summary_state \<Rightarrow> summary_end eact" where
  "summary_attempt v prepared settings target minimum compactable rs s0 =
     abind (transact v (\<lambda>now. begin_provider_call now (pr_run_id prepared))) (\<lambda>index.
     let s = s0\<lparr>sm_attempts := sm_attempts s0 + 1,
                sm_index := (case sm_index s0 of None \<Rightarrow> Some index | Some i \<Rightarrow> Some i)\<rparr>
     in abind (must (project_messages compactable)) (\<lambda>projected.
        abind (unless_it_spins (if sm_tighten s
                 then compaction_history_tight (ev_render v) projected (sm_input s) settings
                 else compaction_history (ev_render v) projected (sm_input s) settings)) (\<lambda>history.
        abind (model_call v False summary_refusal
                 (engine_invocation prepared CompactionSummaryCall (pr_run_id prepared @ '':'' @ show_nat index) index
                    \<lparr>mq_prompt = sm_prompt s, mq_model = st_model target, mq_history = history\<rparr>)
                 rs (sm_pending s)) (\<lambda>(k, pending).
          let s = s\<lparr>sm_pending := pending\<rparr>
          in case k of
               CallStopped out \<Rightarrow> astop out
             | CallBroken b r \<Rightarrow>
                 (let s = with_usage (outcome_usage r) (s\<lparr>sm_break := Some b\<rparr>)
                  in areturn (Summarized (summary_without_model compactable s) s))
             | CallOver r \<Rightarrow> areturn (summary_answer v minimum compactable r s)))))"

fun summary_loop ::
    "engine_env \<Rightarrow> prompted_run \<Rightarrow> compaction_settings \<Rightarrow> summary_target_spec \<Rightarrow> nat \<Rightarrow> message list
     \<Rightarrow> call_reading list list \<Rightarrow> summary_state \<Rightarrow> (string \<times> summary_state) eact" where
  "summary_loop v prepared settings target minimum compactable [] s = awaiting"
| "summary_loop v prepared settings target minimum compactable (rs # rss) s =
     abind (summary_attempt v prepared settings target minimum compactable rs s) (\<lambda>r.
       case r of
         AskAgain s' \<Rightarrow> summary_loop v prepared settings target minimum compactable rss s'
       | Summarized summary s' \<Rightarrow> areturn (summary, s'))"

definition bounded_minimum :: "engine_env \<Rightarrow> summary_target_spec \<Rightarrow> message list \<Rightarrow> nat" where
  "bounded_minimum v target ms =
     min (minimum_summary_chars (ev_render v) ms) (sat_mul_u64 (st_output_tokens target) 4)"

definition summary_start :: "engine_env \<Rightarrow> summary_target_spec \<Rightarrow> rat \<Rightarrow> summary_state" where
  "summary_start v target calibration =
     \<lparr>sm_prompt = plain_prompt (ev_instructions v),
      sm_input = summary_input_for v target (plain_prompt (ev_instructions v)) calibration,
      sm_usage = None, sm_index = None, sm_short = None, sm_attempts = 0, sm_tighten = False,
      sm_pending = [], sm_break = None\<rparr>"

definition existing_summary :: "message list \<Rightarrow> string option" where
  "existing_summary ms = Option.bind (latest_summary_message ms) summary_text"

definition asked_summary ::
    "engine_env \<Rightarrow> prompted_run \<Rightarrow> compaction_settings \<Rightarrow> rat \<Rightarrow> message list \<Rightarrow> message list \<Rightarrow> call_reading list list
     \<Rightarrow> (string \<times> string \<times> summary_state) eact" where
  "asked_summary v prepared settings calibration messages compactable rss =
     (let target = summary_target v prepared settings;
          minimum = bounded_minimum v target compactable
      in abind (summary_loop v prepared settings target minimum compactable rss (summary_start v target calibration)) (\<lambda>(summary, s).
           areturn (carry_forward_summary (existing_summary messages) summary,
                    ''summary:auto:'' @ pr_run_id prepared @ '':'' @ show_nat (case sm_index s of Some i \<Rightarrow> i | None \<Rightarrow> 0),
                    s)))"


section \<open>Reusing the summary in place\<close>

definition reused_summary :: "retention \<Rightarrow> message list \<Rightarrow> string option" where
  "reused_summary retention messages = (case retention of NoRetention \<Rightarrow> existing_summary messages | Window \<Rightarrow> None)"

definition digest_after :: "string \<Rightarrow> message list \<Rightarrow> string" where
  "digest_after existing compactable =
     (case digest_of compactable of
        Some digest \<Rightarrow>
          existing @ nl @ nl @ ''Recent context dropped by the summary-only compaction:'' @ nl @ digest
      | None \<Rightarrow> existing)"

definition reuse_event_id :: "prompted_run \<Rightarrow> checkpoint_id \<Rightarrow> string" where
  "reuse_event_id prepared cp =
     ''summary:auto:'' @ pr_run_id prepared @ '':reuse:'' @ show_int (checkpoint_int cp)"


section \<open>The compaction\<close>

text \<open>What fills the slot: bounded, with the files and the archive named.\<close>

definition slot_summary ::
    "engine_env \<Rightarrow> prompted_run \<Rightarrow> compaction_settings \<Rightarrow> rat \<Rightarrow> message list \<Rightarrow> string option \<Rightarrow> string \<Rightarrow> string" where
  "slot_summary v prepared settings calibration messages archive summary =
     with_archive_anchor
       (with_context_anchors
          (fit_summary_slot_to_tokens (ev_render v) summary
             (summary_slot_token_budget (ev_render v) prepared calibration settings))
          messages)
       archive"

definition validated ::
    "engine_env \<Rightarrow> prompted_run \<Rightarrow> compaction_settings \<Rightarrow> rat \<Rightarrow> projected list \<Rightarrow> unit eact" where
  "validated v prepared settings calibration projected =
     (case validate_compacted (ev_render v) prepared projected calibration settings of
        Inl m \<Rightarrow> astop (Failed (FProtocol m))
      | Inr _ \<Rightarrow> areturn ())"

definition no_history_message :: string where
  "no_history_message = ''context overflow after compaction: no conversation history can be compacted''"

text \<open>Nothing to compact: the failure says why.\<close>

definition nothing_to_compact ::
    "engine_env \<Rightarrow> prompted_run \<Rightarrow> compaction_settings \<Rightarrow> rat \<Rightarrow> message list \<Rightarrow> 'a eact" where
  "nothing_to_compact v prepared settings calibration messages =
     abind (must (project_messages messages)) (\<lambda>projected.
       astop (Failed (FProtocol
         (case validate_compacted (ev_render v) prepared projected calibration settings of
            Inl m \<Rightarrow> m | Inr _ \<Rightarrow> no_history_message))))"

text \<open>The replacement made, checked to fit, and committed.\<close>

definition commit_compaction ::
    "engine_env \<Rightarrow> prompted_run \<Rightarrow> compaction_settings \<Rightarrow> compaction_request \<Rightarrow> message list \<Rightarrow> string \<Rightarrow> string
     \<Rightarrow> unit eact" where
  "commit_compaction v prepared settings q messages summary event_id =
     (let slot = summary_message event_id summary
      in abind (must (replacement (ev_render v) prepared messages slot (cq_retention q) (cq_calibration q) settings)) (\<lambda>ms.
         abind (must (project_messages ms)) (\<lambda>projected.
         abind (validated v prepared settings (cq_calibration q) projected) (\<lambda>_.
         abind (gets en_checkpoint) (\<lambda>cp.
         abind (transact v (\<lambda>_. replace_checkpoint (ev_codec v) (pr_conversation_id prepared) (pr_run_id prepared) cp ms)) (\<lambda>cp'.
         abind (move_to cp') (\<lambda>_.
         abind (commit_and_wait (Compaction summary (message_id slot))) (\<lambda>_.
         abind (tell AutoCompactionCompleted) (\<lambda>_.
         tell (RUsageSnapshot (context_usage_snapshot 0)))))))))))"

definition auto_compact ::
    "engine_env \<Rightarrow> prompted_run \<Rightarrow> compaction_settings \<Rightarrow> compaction_request \<Rightarrow> message list \<Rightarrow> compaction_input
     \<Rightarrow> usage option eact" where
  "auto_compact v prepared settings q messages inp =
     (let compactable = fst (compaction_partition messages (message_id ` set (pr_initial_messages prepared)))
      in if compactable = [] then nothing_to_compact v prepared settings (cq_calibration q) messages
         else
           abind (tell AutoCompactionStarted) (\<lambda>_.
           abind (gets en_checkpoint) (\<lambda>cp.
           abind (case reused_summary (cq_retention q) messages of
                    Some existing \<Rightarrow>
                      areturn (digest_after existing compactable, reuse_event_id prepared cp,
                               summary_start v (summary_target v prepared settings) (cq_calibration q))
                  | None \<Rightarrow>
                      asked_summary v prepared settings (cq_calibration q) messages compactable (ci_calls inp)) (\<lambda>(summary, event_id, s).
           abind (commit_compaction v prepared settings q messages
                    (slot_summary v prepared settings (cq_calibration q) messages (ci_archive inp) summary) event_id) (\<lambda>_.
           abind (insert_batches v prepared (sm_pending s)) (\<lambda>_.
           abind (case sm_break s of None \<Rightarrow> areturn False | Some b \<Rightarrow> insert_batches v prepared [b]) (\<lambda>_.
           areturn (sm_usage s))))))))"

end
