(* ===== verification/RunLoop.thy ===== *)
theory RunLoop
  imports AutoCompact Runs
begin

text \<open>
  The run engine (\<open>RunEngine::run\<close> and \<open>run_claimed\<close> in src/server/src/run/engine.rs): claim, the initial
  messages, a resumed tool round, then model turns until one ends the run, and the end put on record. An
  action that is Done goes on with the loop, one that stops carries the outcome. The inputs of a turn are what
  it meets at each place where it waits; a turn that runs out of inputs is still waiting there.
\<close>

section \<open>Inputs\<close>

datatype wait_event = WaitCancelled | WaitOver | WaitCommand "run_command option"

text \<open>
  One turn of the wait for background subagents: what the store answers about their activity (their rows are
  written by their own runs), the two clocks, and what ends the turn's sleep.
\<close>

record wait_reading =
  wt_activity :: "int option result"
  wt_now_ms :: int
  wt_now :: nat
  wt_event :: wait_event

record attempt_input =
  ai_call :: "call_reading list"
  ai_cancelled :: bool
  ai_compaction :: compaction_input
  ai_delay :: "delay_reading list"

record turn_input =
  ti_cancelled :: bool
  ti_preflight :: compaction_input
  ti_attempts :: "attempt_input list"
  ti_archive :: "string option"
  ti_children :: "bool result"
  ti_wait_start :: "int \<times> nat"
  ti_wait :: "wait_reading list"
  ti_drain :: "run_command list \<times> bool"
  ti_round :: "nat \<times> turn_reading list"


section \<open>Initial messages\<close>

text \<open>
  The messages to commit, and whether a background completion among them was delivered before: then what
  was collected up to it is all this run commits.
\<close>

fun collect_initial ::
    "engine_env \<Rightarrow> prompted_run \<Rightarrow> message list \<Rightarrow> message list \<Rightarrow> (bool \<times> message list) eact" where
  "collect_initial v p [] pending = areturn (False, pending)"
| "collect_initial v p (m # ms) pending =
     (if pr_action p = BackgroundCompletionAction then
        abind (query (stored_message (ev_codec v) (pr_conversation_id p) (message_id m))) (\<lambda>found.
          if found \<noteq> None then areturn (True, pending) else collect_initial v p ms (pending @ [m]))
      else collect_initial v p ms (pending @ [m]))"

definition append_initial :: "engine_env \<Rightarrow> prompted_run \<Rightarrow> message list \<Rightarrow> bool eact" where
  "append_initial v p pending =
     (if pending = [] then areturn False
      else
        abind (gets en_checkpoint) (\<lambda>cp.
        abind (transact v (\<lambda>_. append_messages_once (ev_codec v) (pr_conversation_id p) (pr_run_id p) cp pending)) (\<lambda>out.
        abind (move_to (if out = [] then cp else fst (last out))) (\<lambda>_. areturn (list_ex snd out)))))"

definition commit_initial :: "engine_env \<Rightarrow> prompted_run \<Rightarrow> unit eact" where
  "commit_initial v p =
     abind (collect_initial v p (pr_initial_messages p) []) (\<lambda>(delivered, pending).
     abind (append_initial v p pending) (\<lambda>changed.
       if delivered then abind (commit_and_wait InitialMessages) (\<lambda>_. astop Completed)
       else if changed then commit_and_wait InitialMessages else areturn ()))"

definition run_round ::
    "engine_env \<Rightarrow> prompted_run \<Rightarrow> exec_round \<Rightarrow> batch list \<Rightarrow> nat \<times> turn_reading list \<Rightarrow> unit eact" where
  "run_round v p rd insertions inp =
     abind (gets en_checkpoint) (\<lambda>cp.
     abind (lift_exec (execute (ev_codec v) (ev_clock v) (pr_conversation_id p) (pr_run_id p) cp rd insertions
              (fst inp) (snd inp))) move_to)"

definition resume_round :: "engine_env \<Rightarrow> prompted_run \<Rightarrow> nat \<times> turn_reading list \<Rightarrow> unit eact" where
  "resume_round v p inp =
     (case pr_action p of
        ResumeAction (Some r) \<Rightarrow>
          run_round v p
            \<lparr>er_id = pr_run_id p @ '':round:resume'', er_assistant = rec_assistant r, er_calls = rec_calls r,
             er_started = Some (rec_started_at_ms r)\<rparr> [] inp
      | _ \<Rightarrow> areturn ())"


section \<open>The attempts of a model call\<close>

text \<open>What a turn knows of its call: its index, the history it was made from, the summary it is to write.\<close>

record turn_frame =
  tf_index :: nat
  tf_messages :: "message list"
  tf_anchored :: nat
  tf_calibration :: rat
  tf_target :: "summary_target_spec option"
  tf_minimum :: nat

record attempt_state =
  as_retries :: nat
  as_sequence :: nat
  as_pending :: "batch list"
  as_request :: model_request

datatype attempt_end =
    TurnAgain
  | GotCycle model_cycle_result "batch list"
  | RetryCall attempt_state

definition u32_limit :: nat where "u32_limit = 2 ^ 32 - 1"

definition attempt_call_id :: "prompted_run \<Rightarrow> nat \<Rightarrow> nat \<Rightarrow> string" where
  "attempt_call_id p index sequence =
     (if sequence = 1 then pr_run_id p @ '':'' @ show_nat index
      else pr_run_id p @ '':'' @ show_nat index @ '':retry-'' @ show_nat (sequence - 1))"

definition running_refusal :: string where
  "running_refusal = ''received a tool result while the model was running''"

text \<open>A summary that is too short is asked for once more, from the history cut again to what fits.\<close>

definition ask_for_detail ::
    "engine_env \<Rightarrow> compaction_settings \<Rightarrow> turn_frame \<Rightarrow> model_cycle_result \<Rightarrow> attempt_state \<Rightarrow> attempt_end eact" where
  "ask_for_detail v settings f cycle st =
     (let prompt = detail_prompt v (tf_minimum f);
          history = mq_history (as_request st)
      in abind (report_usage (cr_usage cycle) (tf_anchored f)) (\<lambda>_.
         abind (modify (\<lambda>e. e\<lparr>en_short_summary := Some (trim_text (cr_text cycle)), en_detail_retry := True\<rparr>)) (\<lambda>_.
         abind (case tf_target f of
                  None \<Rightarrow> areturn history
                | Some target \<Rightarrow>
                    unless_it_spins (compaction_history (ev_render v) history
                      (summary_input_for v target prompt (tf_calibration f)) settings)) (\<lambda>history'.
         areturn (RetryCall (st\<lparr>as_request := (as_request st)\<lparr>mq_prompt :=
             (mq_prompt (as_request st))\<lparr>ps_instructions := ps_instructions prompt\<rparr>, mq_history := history'\<rparr>\<rparr>))))))"

definition call_succeeded ::
    "engine_env \<Rightarrow> prompted_run \<Rightarrow> compaction_settings \<Rightarrow> turn_frame \<Rightarrow> model_cycle_result \<Rightarrow> attempt_state
     \<Rightarrow> attempt_end eact" where
  "call_succeeded v p settings f cycle st =
     abind (modify (\<lambda>e. e\<lparr>en_overflow := model_call_succeeded (en_overflow e)\<rparr>)) (\<lambda>_.
     abind (gets en_detail_retry) (\<lambda>retried.
       if pr_action p = CompactAction \<and> cr_calls cycle = [] \<and> \<not> retried
          \<and> summary_needs_expansion (cr_text cycle) (tf_minimum f)
       then ask_for_detail v settings f cycle st
       else areturn (GotCycle cycle (as_pending st))))"

text \<open>The user's messages break in: the pending batches, then the messages that broke in.\<close>

definition break_in :: "engine_env \<Rightarrow> prompted_run \<Rightarrow> batch list \<Rightarrow> batch \<Rightarrow> attempt_end eact" where
  "break_in v p pending b =
     abind (tell CycleInterrupted) (\<lambda>_.
     abind (insert_batches v p pending) (\<lambda>_.
     abind (insert_batches v p [b]) (\<lambda>_. areturn TurnAgain)))"

definition compact_and_retry ::
    "engine_env \<Rightarrow> prompted_run \<Rightarrow> compaction_settings \<Rightarrow> retention \<Rightarrow> compaction_input \<Rightarrow> attempt_state
     \<Rightarrow> attempt_end eact" where
  "compact_and_retry v p settings retention inp st =
     abind (modify (\<lambda>e. e\<lparr>en_overflow := provider_refused (en_overflow e)\<rparr>)) (\<lambda>_.
     abind (insert_batches v p (as_pending st)) (\<lambda>_.
     abind (current_messages v) (\<lambda>messages.
     abind (must (project_messages messages)) (\<lambda>history.
     abind (gets (\<lambda>e. (en_run e, estimate_calibration (ev_render v) (en_run e) history (en_anchor e)))) (\<lambda>(r, calibration).
     abind (auto_compact v r settings \<lparr>cq_retention = retention, cq_calibration = calibration\<rparr> messages inp) (\<lambda>u.
     abind (modify (\<lambda>e. e\<lparr>en_anchor := None\<rparr>)) (\<lambda>_.
     abind (add_usage u) (\<lambda>_. areturn TurnAgain))))))))"

definition retry_after_delay ::
    "engine_env \<Rightarrow> prompted_run \<Rightarrow> run_failure \<Rightarrow> delay_reading list \<Rightarrow> attempt_state \<Rightarrow> attempt_end eact" where
  "retry_after_delay v p problem delay st =
     (let retries = as_retries st + 1
      in abind (tell (ModelAttemptFailed retries (failure_message problem))) (\<lambda>_.
         abind (gets (\<lambda>e. x_accounted (en_exec e))) (\<lambda>accounted.
           case retry_delay accounted delay (as_pending st) of
             None \<Rightarrow> awaiting
           | Some (RetryNow, pending) \<Rightarrow> areturn (RetryCall (st\<lparr>as_retries := retries, as_pending := pending\<rparr>))
           | Some (DelayBroken b, pending) \<Rightarrow> break_in v p pending b
           | Some (DelayStopped told out, _) \<Rightarrow>
               abind (if told then tell_quietly CycleInterrupted else areturn ()) (\<lambda>_. astop out))))"

definition assistant_message ::
    "prompted_run \<Rightarrow> nat \<Rightarrow> string \<Rightarrow> string \<Rightarrow> provider_replay_state option \<Rightarrow> message" where
  "assistant_message p index answer thinking replay =
     \<lparr>message_id = pr_run_id p @ '':assistant:'' @ show_nat index, msg_role = RAssistant, msg_origin = OAssistant,
      msg_content = Assistant answer thinking None replay [], runtime_event_id = None\<rparr>"

definition append_assistant :: "engine_env \<Rightarrow> prompted_run \<Rightarrow> message \<Rightarrow> unit eact" where
  "append_assistant v p m =
     abind (gets en_checkpoint) (\<lambda>cp.
     abind (transact v (\<lambda>_. append_checkpoint (ev_codec v) (pr_conversation_id p) (pr_run_id p) cp [m])) move_to)"

definition persist_truncated_assistant :: "engine_env \<Rightarrow> prompted_run \<Rightarrow> nat \<Rightarrow> model_cycle_failure \<Rightarrow> unit eact" where
  "persist_truncated_assistant v p index problem =
     abind (append_assistant v p
              (assistant_message p index (partial_text problem) (partial_reasoning problem) (failed_replay problem))) (\<lambda>_.
     commit_and_wait FinalTurn)"

definition is_truncated :: "run_failure \<Rightarrow> bool" where
  "is_truncated f = (case f of FTruncated _ \<Rightarrow> True | _ \<Rightarrow> False)"

definition is_provider :: "run_failure \<Rightarrow> bool" where
  "is_provider f = (case f of FProvider _ \<Rightarrow> True | _ \<Rightarrow> False)"

text \<open>The first, short summary stands in for one that could not be had in more detail.\<close>

definition first_summary_cycle :: "prompted_run \<Rightarrow> string \<Rightarrow> model_cycle_result" where
  "first_summary_cycle p short =
     \<lparr>cr_model_call_id = pr_run_id p @ '':summary-detail-fallback'', cr_text = short, cr_reasoning = [],
      cr_replay = None, cr_calls = [], cr_usage = None, cr_finish = FStop\<rparr>"

definition give_up ::
    "engine_env \<Rightarrow> prompted_run \<Rightarrow> turn_frame \<Rightarrow> model_cycle_failure \<Rightarrow> attempt_state \<Rightarrow> attempt_end eact" where
  "give_up v p f problem st =
     abind (gets en_short_summary) (\<lambda>short.
       if short \<noteq> None \<and> pr_action p = CompactAction \<and> (is_provider (cf_failure problem) \<or> is_truncated (cf_failure problem))
       then areturn (GotCycle (first_summary_cycle p (the short)) (as_pending st))
       else
         abind (if is_truncated (cf_failure problem) \<and> trim_text (partial_text problem) \<noteq> []
                then persist_truncated_assistant v p (tf_index f) problem else areturn ()) (\<lambda>_.
         astop (Failed (cf_failure problem))))"

definition learn_window :: "compaction_settings \<Rightarrow> bool \<Rightarrow> model_cycle_failure \<Rightarrow> engine \<Rightarrow> engine" where
  "learn_window settings refusal problem e =
     e\<lparr>en_run := (en_run e)\<lparr>pr_model := (pr_model (en_run e))\<lparr>ms_context_window_tokens :=
        learn_provider_window (ms_context_window_tokens (pr_model (en_run e))) refusal (cf_failure problem)\<rparr>\<rparr>\<rparr>"

definition failed_refusal :: "prompted_run \<Rightarrow> compaction_settings \<Rightarrow> model_cycle_failure \<Rightarrow> engine \<Rightarrow> bool" where
  "failed_refusal p settings problem e =
     overflow_refusal (pr_action p = CompactAction) (cf_failure problem) (failed_usage problem)
       (run_budget (en_run e) settings)"

definition call_failed ::
    "engine_env \<Rightarrow> prompted_run \<Rightarrow> compaction_settings \<Rightarrow> turn_frame \<Rightarrow> attempt_input \<Rightarrow> model_cycle_failure
     \<Rightarrow> attempt_state \<Rightarrow> attempt_end eact" where
  "call_failed v p settings f a problem st =
     abind (report_usage (failed_usage problem) (tf_anchored f)) (\<lambda>_.
       if ai_cancelled a then abind (tell_quietly CycleInterrupted) (\<lambda>_. astop CancelledRun)
       else
         abind (gets (failed_refusal p settings problem)) (\<lambda>refusal.
         abind (gets en_overflow) (\<lambda>episode.
         abind (modify (learn_window settings refusal problem)) (\<lambda>_.
           case decide episode (as_retries st)
                  \<lparr>fa_failure = cycle_failure.truncate problem, fa_refusal = refusal\<rparr> of
             CompactAndRetry retention \<Rightarrow> compact_and_retry v p settings retention (ai_compaction a) st
           | RetryAfterDelay \<Rightarrow> retry_after_delay v p (cf_failure problem) (ai_delay a) st
           | GiveUp \<Rightarrow> give_up v p f problem st))))"

definition attempt ::
    "engine_env \<Rightarrow> prompted_run \<Rightarrow> compaction_settings \<Rightarrow> turn_frame \<Rightarrow> attempt_input \<Rightarrow> attempt_state
     \<Rightarrow> attempt_end eact" where
  "attempt v p settings f a st0 =
     (let sequence = min (as_sequence st0 + 1) u32_limit;
          compact = (pr_action p = CompactAction);
          call = engine_invocation p (if compact then CompactionSummaryCall else ChatCall)
                   (attempt_call_id p (tf_index f) sequence) (tf_index f) (as_request st0)
      in abind (model_call v (\<not> compact) running_refusal call (ai_call a) (as_pending st0)) (\<lambda>(k, pending).
           let st = st0\<lparr>as_sequence := sequence, as_pending := pending\<rparr>
           in case k of
                CallStopped out \<Rightarrow> abind (tell_quietly CycleInterrupted) (\<lambda>_. astop out)
              | CallBroken b r \<Rightarrow>
                  abind (report_usage (outcome_usage r) (tf_anchored f)) (\<lambda>_. break_in v p pending b)
              | CallOver (Inr cycle) \<Rightarrow> call_succeeded v p settings f cycle st
              | CallOver (Inl problem) \<Rightarrow> call_failed v p settings f a problem st))"

fun attempts ::
    "engine_env \<Rightarrow> prompted_run \<Rightarrow> compaction_settings \<Rightarrow> turn_frame \<Rightarrow> attempt_input list \<Rightarrow> attempt_state
     \<Rightarrow> (model_cycle_result \<times> batch list) option eact" where
  "attempts v p settings f [] st = awaiting"
| "attempts v p settings f (a # as) st =
     abind (attempt v p settings f a st) (\<lambda>r.
       case r of
         TurnAgain \<Rightarrow> areturn None
       | GotCycle cycle pending \<Rightarrow> areturn (Some (cycle, pending))
       | RetryCall st' \<Rightarrow> attempts v p settings f as st')"


section \<open>The end of a turn\<close>

text \<open>Once no more is accepted: what was accepted before, or None when there was nothing.\<close>

definition closing_insertions :: "run_command list \<times> bool \<Rightarrow> batch list eact" where
  "closing_insertions drain =
     abind port_begin_finalizing (\<lambda>_.
       case drain_accepted (fst drain) (snd drain) of Inl out \<Rightarrow> astop out | Inr bs \<Rightarrow> areturn bs)"

definition insert_some :: "engine_env \<Rightarrow> prompted_run \<Rightarrow> batch list \<Rightarrow> bool eact" where
  "insert_some v p bs = (if bs = [] then areturn False else insert_batches v p bs)"

text \<open>The summary a manual compaction's call brought.\<close>

definition manual_summary :: "turn_frame \<Rightarrow> model_cycle_result \<Rightarrow> string eact" where
  "manual_summary f cycle =
     abind (gets en_short_summary) (\<lambda>short.
       let summary = trim_text (cr_text cycle)
       in case (if summary \<noteq> [] then Some summary else short) of
            None \<Rightarrow> astop (Failed (FProtocol ''compaction model returned an empty summary''))
          | Some s \<Rightarrow>
              areturn (if summary_needs_expansion s (tf_minimum f) then short_summary_addendum s (tf_messages f) else s))"

definition finish_compaction ::
    "engine_env \<Rightarrow> prompted_run \<Rightarrow> compaction_settings \<Rightarrow> turn_input \<Rightarrow> turn_frame \<Rightarrow> model_cycle_result \<Rightarrow> batch list
     \<Rightarrow> unit eact" where
  "finish_compaction v p settings ti f cycle pending =
     (if cr_calls cycle \<noteq> [] then astop (Failed (FProtocol ''compaction model returned tool calls''))
      else
        abind (manual_summary f cycle) (\<lambda>written.
        abind (tell (RTextDelta written)) (\<lambda>_.
        abind (gets en_run) (\<lambda>r.
        let summary = slot_summary v r settings (tf_calibration f) (tf_messages f) (ti_archive ti)
                        (carry_forward_summary (existing_summary (tf_messages f)) written);
            slot = summary_message (''summary:'' @ pr_run_id p) summary
        in abind (must (replacement (ev_render v) r (tf_messages f) slot Window (tf_calibration f) settings)) (\<lambda>ms.
           abind (gets en_checkpoint) (\<lambda>cp.
           abind (transact v (\<lambda>_. replace_checkpoint (ev_codec v) (pr_conversation_id p) (pr_run_id p) cp ms)) (\<lambda>cp'.
           abind (move_to cp') (\<lambda>_.
           abind (insert_some v p pending) (\<lambda>_.
           abind (closing_insertions (ti_drain ti)) (\<lambda>closing.
           abind (insert_some v p closing) (\<lambda>_.
           abind (commit_and_wait (Compaction summary (message_id slot))) (\<lambda>_.
           astop Completed))))))))))))"


section \<open>Waiting for background subagents\<close>

record wait_state =
  ws_pending :: "batch list"
  ws_heartbeat :: nat
  ws_drained :: "nat option"

text \<open>None when the wait is over; otherwise since when no subagent is running.\<close>

definition wait_check :: "background_wait_policy \<Rightarrow> int \<Rightarrow> wait_reading \<Rightarrow> nat option \<Rightarrow> nat option option" where
  "wait_check policy started t drained =
     (case wt_activity t of
        Inl _ \<Rightarrow> None
      | Inr (Some active) \<Rightarrow>
          (if background_wait_expired policy (wt_now_ms t) active started then None else Some None)
      | Inr None \<Rightarrow>
          (let since = (case drained of Some s \<Rightarrow> s | None \<Rightarrow> wt_now t)
           in if bw_completion_grace policy \<le> wt_now t - since then None else Some (Some since)))"

definition heartbeat_due :: "wait_reading \<Rightarrow> wait_state \<Rightarrow> bool" where
  "heartbeat_due t s \<longleftrightarrow> ws_heartbeat s \<le> wt_now t"

fun await_background ::
    "engine_env \<Rightarrow> prompted_run \<Rightarrow> int \<Rightarrow> wait_reading list \<Rightarrow> wait_state \<Rightarrow> bool eact" where
  "await_background v p started [] s = awaiting"
| "await_background v p started (t # ts) s =
     abind (insert_some v p (ws_pending s)) (\<lambda>inserted.
       if inserted then areturn True
       else case wait_check (ev_policy v) started t (ws_drained s) of
         None \<Rightarrow> areturn False
       | Some drained \<Rightarrow>
           abind (if heartbeat_due t s then tell Heartbeat else areturn ()) (\<lambda>_.
           let s' = \<lparr>ws_pending = [],
                     ws_heartbeat = (if heartbeat_due t s then wt_now t + bw_heartbeat (ev_policy v) else ws_heartbeat s),
                     ws_drained = drained\<rparr>;
               interrupted = abind (tell_quietly CycleInterrupted) (\<lambda>_. astop CancelledRun)
           in case wt_event t of
                WaitCancelled \<Rightarrow> interrupted
              | WaitOver \<Rightarrow> await_background v p started ts s'
              | WaitCommand None \<Rightarrow> astop client_failure
              | WaitCommand (Some (InsertMessages ev ms)) \<Rightarrow> await_background v p started ts (s'\<lparr>ws_pending := [(ev, ms)]\<rparr>)
              | WaitCommand (Some (BreakMessages ev ms)) \<Rightarrow> await_background v p started ts (s'\<lparr>ws_pending := [(ev, ms)]\<rparr>)
              | WaitCommand (Some CancelCommand) \<Rightarrow> interrupted
              | WaitCommand (Some (ToolResultCommand _)) \<Rightarrow> await_background v p started ts s'))"

definition wait_for_children :: "engine_env \<Rightarrow> prompted_run \<Rightarrow> turn_input \<Rightarrow> bool eact" where
  "wait_for_children v p ti =
     (if (case ti_children ti of Inr running \<Rightarrow> running | Inl _ \<Rightarrow> False)
      then await_background v p (fst (ti_wait_start ti)) (ti_wait ti)
             \<lparr>ws_pending = [], ws_heartbeat = snd (ti_wait_start ti) + bw_heartbeat (ev_policy v), ws_drained = None\<rparr>
      else areturn False)"

text \<open>An answer without tool calls: the run ends with it unless something came in meanwhile.\<close>

definition finish_turn ::
    "engine_env \<Rightarrow> prompted_run \<Rightarrow> turn_input \<Rightarrow> turn_frame \<Rightarrow> model_cycle_result \<Rightarrow> batch list \<Rightarrow> unit eact" where
  "finish_turn v p ti f cycle pending =
     abind (append_assistant v p (assistant_message p (tf_index f) (cr_text cycle) (cr_reasoning cycle) (cr_replay cycle))) (\<lambda>_.
     abind (insert_some v p pending) (\<lambda>inserted.
       if inserted then areturn ()
       else
         abind (wait_for_children v p ti) (\<lambda>continued.
           if continued then areturn ()
           else
             abind (closing_insertions (ti_drain ti)) (\<lambda>closing.
               if closing \<noteq> [] then abind (insert_some v p closing) (\<lambda>_. port_resume_running)
               else abind (commit_and_wait FinalTurn) (\<lambda>_. astop Completed)))))"


section \<open>A turn\<close>

definition continue_instruction :: string where
  "continue_instruction = ''Continue from where you left off.''"

text \<open>The estimate that asks for a compaction before the call.\<close>

definition preflight_estimate ::
    "engine_env \<Rightarrow> prompted_run \<Rightarrow> compaction_settings \<Rightarrow> projected list \<Rightarrow> engine \<Rightarrow> compaction_estimate_result option" where
  "preflight_estimate v p settings history e =
     (if pr_action p \<noteq> CompactAction \<and> cs_auto settings \<and> \<not> already_compacted (en_overflow e)
      then compaction_estimate (ev_render v) (en_run e) history (en_anchor e) settings
      else None)"

definition preflight_compact ::
    "engine_env \<Rightarrow> compaction_settings \<Rightarrow> compaction_estimate_result \<Rightarrow> message list \<Rightarrow> compaction_input \<Rightarrow> unit eact" where
  "preflight_compact v settings est messages inp =
     abind (tell (RUsageSnapshot (context_usage_snapshot (ce_tokens est)))) (\<lambda>_.
     abind (gets en_run) (\<lambda>r.
     abind (auto_compact v r settings \<lparr>cq_retention = Window, cq_calibration = ce_calibration est\<rparr> messages inp) (\<lambda>u.
     abind (modify (\<lambda>e. e\<lparr>en_anchor := None, en_overflow := preflight_compacted (en_overflow e)\<rparr>)) (\<lambda>_.
     add_usage u))))"

text \<open>The request of a turn, and what is known of it.\<close>

definition turn_request ::
    "engine_env \<Rightarrow> prompted_run \<Rightarrow> compaction_settings \<Rightarrow> message list \<Rightarrow> projected list \<Rightarrow> nat
     \<Rightarrow> (turn_frame \<times> model_request) eact" where
  "turn_request v p settings messages history index =
     abind (gets id) (\<lambda>e.
     let compact = (pr_action p = CompactAction);
         calibration = (if compact then estimate_calibration (ev_render v) (en_run e) history (en_anchor e) else 1);
         target = (if compact then Some (summary_target v (en_run e) settings) else None);
         minimum = (case target of Some t \<Rightarrow> bounded_minimum v t messages | None \<Rightarrow> 0);
         prompt = (if \<not> compact then pr_prompt p
                   else if en_detail_retry e then detail_prompt v minimum else plain_prompt (ev_instructions v))
     in abind (hydrate_request v history) (\<lambda>hydrated.
        abind (case target of
                 Some t \<Rightarrow> unless_it_spins
                   (compaction_history (ev_render v) hydrated (summary_input_for v t prompt calibration) settings)
               | None \<Rightarrow> areturn (user_terminated hydrated continue_tail_message_id continue_instruction)) (\<lambda>asked.
        areturn
          (\<lparr>tf_index = index, tf_messages = messages, tf_anchored = length hydrated, tf_calibration = calibration,
            tf_target = target, tf_minimum = minimum\<rparr>,
           \<lparr>mq_prompt = prompt,
            mq_model = (case target of Some t \<Rightarrow> st_model t
                        | None \<Rightarrow> cycle_model (pr_action p) (pr_model p) summary_default_output_tokens),
            mq_history = asked\<rparr>))))"

definition round_of_cycle :: "prompted_run \<Rightarrow> turn_frame \<Rightarrow> model_cycle_result \<Rightarrow> exec_round" where
  "round_of_cycle p f cycle =
     \<lparr>er_id = pr_run_id p @ '':round:'' @ show_nat (tf_index f),
      er_assistant = \<lparr>ra_text = cr_text cycle, ra_thinking = cr_reasoning cycle,
        ra_model_call_id = cr_model_call_id cycle, ra_replay_state = cr_replay cycle\<rparr>,
      er_calls = cr_calls cycle, er_started = None\<rparr>"

definition model_turn :: "engine_env \<Rightarrow> prompted_run \<Rightarrow> compaction_settings \<Rightarrow> turn_input \<Rightarrow> unit eact" where
  "model_turn v p settings ti =
     (if ti_cancelled ti then astop CancelledRun
      else
        abind (current_messages v) (\<lambda>messages.
        abind (must (project_messages messages)) (\<lambda>history.
        abind (gets (preflight_estimate v p settings history)) (\<lambda>estimate.
          case estimate of
            Some est \<Rightarrow> preflight_compact v settings est messages (ti_preflight ti)
          | None \<Rightarrow>
              abind (transact v (\<lambda>now. begin_provider_call now (pr_run_id p))) (\<lambda>index.
              abind (turn_request v p settings messages history index) (\<lambda>(f, request).
              abind (attempts v p settings f (ti_attempts ti)
                       \<lparr>as_retries = 0, as_sequence = 0, as_pending = [], as_request = request\<rparr>) (\<lambda>r.
                case r of
                  None \<Rightarrow> areturn ()
                | Some (cycle, pending) \<Rightarrow>
                    abind (report_usage (cr_usage cycle) (tf_anchored f)) (\<lambda>_.
                      if pr_action p = CompactAction then finish_compaction v p settings ti f cycle pending
                      else if cr_calls cycle = [] then finish_turn v p ti f cycle pending
                      else run_round v p (round_of_cycle p f cycle) pending (ti_round ti)))))))))"

fun model_loop :: "engine_env \<Rightarrow> prompted_run \<Rightarrow> compaction_settings \<Rightarrow> turn_input list \<Rightarrow> unit eact" where
  "model_loop v p settings [] = awaiting"
| "model_loop v p settings (ti # tis) = abind (model_turn v p settings ti) (\<lambda>_. model_loop v p settings tis)"


section \<open>A run\<close>

record run_input =
  ri_anchor :: "usage_anchor option result"
  ri_settings :: "compaction_settings result"
  ri_resume :: "nat \<times> turn_reading list"
  ri_turns :: "turn_input list"
  ri_write_fails :: "bool \<times> bool \<times> bool"

definition run_claimed :: "engine_env \<Rightarrow> prompted_run \<Rightarrow> run_input \<Rightarrow> unit eact" where
  "run_claimed v p inp =
     abind (must (ri_anchor inp)) (\<lambda>anchor.
     abind (modify (\<lambda>e. e\<lparr>en_anchor := anchor\<rparr>)) (\<lambda>_.
     abind (must (ri_settings inp)) (\<lambda>settings.
     abind (commit_initial v p) (\<lambda>_.
     abind (resume_round v p (ri_resume inp)) (\<lambda>_.
     model_loop v p settings (ri_turns inp))))))"

definition run_status_of :: "run_outcome \<Rightarrow> run_status" where
  "run_status_of out = (case out of Completed \<Rightarrow> RunCompleted | CancelledRun \<Rightarrow> RunCancelled | Failed _ \<Rightarrow> RunFailed)"

definition run_failure_of :: "run_outcome \<Rightarrow> (string \<times> string) option" where
  "run_failure_of out = (case out of Failed f \<Rightarrow> Some (category f, failure_message f) | _ \<Rightarrow> None)"

text \<open>A write of the outcome, which the database may refuse; None when it did not happen.\<close>

definition write_outcome ::
    "engine_env \<Rightarrow> prompted_run \<Rightarrow> run_status \<Rightarrow> (string \<times> string) option \<Rightarrow> bool \<Rightarrow> engine \<Rightarrow> engine option" where
  "write_outcome v p status problem refused e =
     (if refused then None
      else case finish_run (ev_clock v (length (x_sent (en_exec e)))) (pr_run_id p) status problem (x_db (en_exec e)) of
        Inl _ \<Rightarrow> None
      | Inr (_, s) \<Rightarrow> Some (e\<lparr>en_exec := (en_exec e)\<lparr>x_db := s\<rparr>\<rparr>))"

text \<open>Twice with the outcome, then with a bare failure.\<close>

definition record_outcome :: "engine_env \<Rightarrow> prompted_run \<Rightarrow> run_outcome \<Rightarrow> bool \<times> bool \<times> bool \<Rightarrow> engine \<Rightarrow> engine" where
  "record_outcome v p out fails e =
     (case write_outcome v p (run_status_of out) (run_failure_of out) (fst fails) e of
        Some e' \<Rightarrow> e'
      | None \<Rightarrow>
          (case write_outcome v p (run_status_of out) (run_failure_of out) (fst (snd fails)) e of
             Some e' \<Rightarrow> e'
           | None \<Rightarrow>
               (case write_outcome v p RunFailed None (snd (snd fails)) e of Some e' \<Rightarrow> e' | None \<Rightarrow> e)))"

definition end_run :: "run_outcome \<Rightarrow> run_outcome eact" where
  "end_run out =
     abind port_finish (\<lambda>_. abind (tell_quietly (RunEndedEvent out)) (\<lambda>_. areturn out))"

text \<open>The state a claimed run starts from.\<close>

definition engine_start :: "prompted_run \<Rightarrow> checkpoint_id \<Rightarrow> engine \<Rightarrow> engine" where
  "engine_start p head e =
     e\<lparr>en_checkpoint := head, en_usage := None, en_anchor := None, en_run := p, en_overflow := 0,
       en_detail_retry := False, en_short_summary := None, en_images := Map.empty,
       en_exec := (en_exec e)\<lparr>x_accounted := {}\<rparr>\<rparr>"

definition engine_run :: "engine_env \<Rightarrow> prompted_run \<Rightarrow> run_input \<Rightarrow> run_outcome eact" where
  "engine_run v p inp e =
     (case claim_run (ev_codec v) (ev_clock v (length (x_sent (en_exec e)))) (prepared_run.truncate p) (x_db (en_exec e)) of
        Inl err \<Rightarrow> end_run (failed err) e
      | Inr (claimed, s) \<Rightarrow>
          (case run_claimed v p inp (engine_start p (cl_head claimed) (e\<lparr>en_exec := (en_exec e)\<lparr>x_db := s\<rparr>\<rparr>)) of
             (Stop out, e') \<Rightarrow> end_run out (record_outcome v p out (ri_write_fails inp) e')
           | (_, e') \<Rightarrow> (Waiting, e')))"

end
