(* ===== verification/EngineEffects.thy ===== *)
theory EngineEffects
  imports RunLoop RoundExecLaws
begin

text \<open>
  What the engine's actions can do, whatever becomes of them: a relation between states that the elementary
  actions keep to is kept by a tool round (\<open>round_effect\<close>) and by a whole claimed run (\<open>run_effect\<close>).
\<close>

section \<open>Effects of actions\<close>

text \<open>Whatever becomes of the action, the state it leaves is in the relation to the state it found.\<close>

definition confined :: "('s \<Rightarrow> 's \<Rightarrow> bool) \<Rightarrow> ('s, 'a) action \<Rightarrow> bool" where
  "confined R m \<longleftrightarrow> (\<forall>x. R x (snd (m x)))"

lemma confined_if: "(b \<Longrightarrow> confined R m) \<Longrightarrow> (\<not> b \<Longrightarrow> confined R n) \<Longrightarrow> confined R (if b then m else n)"
  by simp

lemma confined_option:
  "(o' = None \<Longrightarrow> confined R m) \<Longrightarrow> (\<And>a. o' = Some a \<Longrightarrow> confined R (f a)) \<Longrightarrow> confined R (case o' of None \<Rightarrow> m | Some a \<Rightarrow> f a)"
  by (cases o') simp_all

lemma confined_sum:
  "(\<And>a. s = Inl a \<Longrightarrow> confined R (f a)) \<Longrightarrow> (\<And>b. s = Inr b \<Longrightarrow> confined R (g b)) \<Longrightarrow> confined R (case s of Inl a \<Rightarrow> f a | Inr b \<Rightarrow> g b)"
  by (cases s) simp_all

lemma confined_prod: "(\<And>a b. p = (a, b) \<Longrightarrow> confined R (f a b)) \<Longrightarrow> confined R (case p of (a, b) \<Rightarrow> f a b)"
  by (cases p) simp

lemmas confined_cases = confined_if confined_option confined_sum confined_prod

text \<open>For a preorder on states, the effect of an action is put together from those of its parts.\<close>

locale effect_order =
  fixes R :: "'s \<Rightarrow> 's \<Rightarrow> bool"
  assumes refl: "R x x" and trans: "R x y \<Longrightarrow> R y z \<Longrightarrow> R x z"
begin

lemma confined_areturn: "confined R (areturn a)"
  by (simp add: confined_def areturn_def refl)

lemma confined_astop: "confined R (astop out)"
  by (simp add: confined_def astop_def refl)

lemma confined_awaiting: "confined R awaiting"
  by (simp add: confined_def awaiting_def refl)

lemma confined_abind: "confined R m \<Longrightarrow> (\<And>a. confined R (f a)) \<Longrightarrow> confined R (abind m f)"
  unfolding confined_def
proof
  fix x assume m: "\<forall>x. R x (snd (m x))" and f: "\<And>a. \<forall>x. R x (snd (f a x))"
  obtain p y where my: "m x = (p, y)" by force
  have xy: "R x y" using spec[OF m, of x] my by simp
  show "R x (snd (abind m f x))"
  proof (cases p)
    case (Done a)
    have "R y (snd (f a y))" using f by blast
    then show ?thesis using trans[OF xy] my Done by (simp add: abind_def)
  qed (use my xy in \<open>simp_all add: abind_def\<close>)
qed

lemmas confined_basics = confined_areturn confined_astop confined_awaiting confined_abind

end

section \<open>Effects of a tool round\<close>

lemma frame_confined: "(\<And>x. R x (snd (m x))) \<Longrightarrow> confined R m"
  by (simp add: confined_def)

text \<open>
  A relation that the elementary actions of a tool round keep to: the transactions of the run on its conversation,
  events sent, barriers, accounted results, replies.
\<close>

locale round_effect = effect_order R for R :: "exec \<Rightarrow> exec \<Rightarrow> bool" +
  fixes c :: codec and clock :: "nat \<Rightarrow> int" and conv run :: string
  assumes emits: "confined R (emit_event ev)"
    and waits: "confined R wait_ready"
    and accounts: "confined R (account cid)"
    and replies: "confined R (reply i r)"
    and inserts: "confined R (in_store clock (\<lambda>_. append_messages_once c conv run cp ms))"
    and creates: "confined R (in_store clock (\<lambda>now. create_tool_round now rid run cp a calls created))"
    and results: "confined R (in_store clock (\<lambda>now. commit_tool_result c now conv run rid tr))"
begin

lemmas elements = confined_basics confined_cases emits waits accounts replies inserts creates results

lemma announce_effect: "confined R (announce ms)"
  by (induction ms rule: announce.induct) (auto intro!: elements)

lemma append_batch_effect: "confined R (append_batch c clock conv run cp b)"
  unfolding append_batch_def Let_def
  by (intro confined_cases elements announce_effect)

lemma append_batches_effect: "confined R (append_batches c clock conv run cp bs)"
proof (induction bs arbitrary: cp)
  case (Cons b bs)
  show ?case unfolding append_batches.simps
    by (intro elements confined_cases append_batch_effect Cons)
qed (simp add: elements)

lemma commit_result_effect: "confined R (commit_result c clock conv run rid i r)"
  unfolding commit_result_def by (intro elements confined_cases)

lemma await_results_effect: "confined R (await_results c clock conv run rid deadline ts l)"
proof (induction ts arbitrary: l)
  case (Cons t ts)
  show ?case unfolding await_results.simps Let_def
    by (cases "tn_queue t"; simp; (intro confined_cases elements Cons)?)
      (auto split: run_command.split intro!: confined_cases elements commit_result_effect Cons)
qed (simp add: elements)

lemma interrupt_calls_effect: "confined R (interrupt_calls c clock conv run rid reason ks cp)"
  by (induction ks arbitrary: cp) (auto intro!: elements commit_result_effect)

lemma execute_effect: "confined R (execute c clock conv run base rd insertions start ts)"
  unfolding execute_def start_round_def interrupt_remaining_def
  by (intro elements await_results_effect interrupt_calls_effect append_batches_effect confined_cases)

end

section \<open>Effects of the engine\<close>

definition same_run :: "prompted_run \<Rightarrow> prompted_run \<Rightarrow> bool" where
  "same_run p r \<longleftrightarrow> pr_run_id r = pr_run_id p \<and> pr_conversation_id r = pr_conversation_id p"

text \<open>The engine works for one run: the copy of it that learns a window stays that run.\<close>

definition held :: "prompted_run \<Rightarrow> (engine \<Rightarrow> engine \<Rightarrow> bool) \<Rightarrow> engine \<Rightarrow> engine \<Rightarrow> bool" where
  "held p R e e' \<longleftrightarrow> (same_run p (en_run e) \<longrightarrow> same_run p (en_run e') \<and> R e e')"

definition quiet :: "engine \<Rightarrow> engine \<Rightarrow> bool" where
  "quiet e e' \<longleftrightarrow> en_exec e' = en_exec e \<and> en_requests e' = en_requests e \<and> (en_phase e' = Ended \<longleftrightarrow> en_phase e = Ended)"

definition asks_summary :: "model_request \<Rightarrow> bool" where
  "asks_summary q \<longleftrightarrow> ps_tools (mq_prompt q) = [] \<and> rs_enabled (ms_reasoning (mq_model q)) = Some False"

definition asks_answer :: "prompted_run \<Rightarrow> model_request \<Rightarrow> bool" where
  "asks_answer p q \<longleftrightarrow> mq_prompt q = pr_prompt p \<and> mq_model q = pr_model p
     \<and> (mq_history q = [] \<or> pm_role (last (mq_history q)) \<noteq> RAssistant)"

definition purpose_of :: "prompted_run \<Rightarrow> call_purpose" where
  "purpose_of p = (if pr_action p = CompactAction then CompactionSummaryCall else ChatCall)"

text \<open>What a call of the run asks, by its purpose.\<close>

definition asks :: "prompted_run \<Rightarrow> call_purpose \<Rightarrow> model_request \<Rightarrow> bool" where
  "asks p purpose q \<longleftrightarrow> (case purpose of
     CompactionSummaryCall \<Rightarrow> asks_summary q
   | ChatCall \<Rightarrow> pr_action p \<noteq> CompactAction \<and> asks_answer p q)"

definition in_the_name_of :: "prompted_run \<Rightarrow> model_invocation \<Rightarrow> bool" where
  "in_the_name_of p call \<longleftrightarrow> mv_run call = pr_run_id p \<and> mv_conversation call = pr_conversation_id p
     \<and> asks p (mv_purpose call) (mv_request call)"

text \<open>
  A relation between the engine's states that its elementary actions keep to: then so does everything put
  together from them, up to the whole of a claimed run.
\<close>

locale run_effect = effect_order R for R :: "engine \<Rightarrow> engine \<Rightarrow> bool" +
  fixes v :: engine_env and p :: prompted_run
  assumes quiet: "quiet e e' \<Longrightarrow> R e e'"
    and tell: "confined R (tell ev)"
    and wait: "confined R (lift_exec wait_ready)"
    and batches: "confined R (lift_exec (append_batches (ev_codec v) (ev_clock v) (pr_conversation_id p) (pr_run_id p) cp bs))"
    and round: "confined R (lift_exec (execute (ev_codec v) (ev_clock v) (pr_conversation_id p) (pr_run_id p) cp rd bs start ts))"
    and starts: "confined R (transact v (\<lambda>now. begin_provider_call now (pr_run_id p)))"
    and appends: "confined R (transact v (\<lambda>_. append_checkpoint (ev_codec v) (pr_conversation_id p) (pr_run_id p) cp ms))"
    and replaces: "confined R (transact v (\<lambda>_. replace_checkpoint (ev_codec v) (pr_conversation_id p) (pr_run_id p) cp ms))"
    and inserts: "confined R (transact v (\<lambda>_. append_messages_once (ev_codec v) (pr_conversation_id p) (pr_run_id p) cp ms))"
    and calls: "in_the_name_of p call \<Longrightarrow>
      R e (e\<lparr>en_requests := en_requests e @ [call], en_exec := (en_exec e)\<lparr>x_sent := x_sent (en_exec e) @ l\<rparr>\<rparr>)"
begin

abbreviation H :: "engine \<Rightarrow> engine \<Rightarrow> bool" where "H \<equiv> held p R"

lemma held_refl: "H e e"
  by (simp add: held_def refl)

lemma held_trans: "H a b \<Longrightarrow> H b d \<Longrightarrow> H a d"
  using trans unfolding held_def by blast

end

sublocale run_effect \<subseteq> held: effect_order "held p R"
  by unfold_locales (auto intro: held_refl held_trans)

context run_effect begin

lemma held_quiet: "(\<And>e. quiet e (snd (m e)) \<and> en_run (snd (m e)) = en_run e) \<Longrightarrow> confined H m"
  by (simp add: confined_def held_def quiet)

lemma gets_held: "confined H (gets f)"
  by (rule held_quiet) (simp add: gets_def quiet_def)

lemma modify_held: "(\<And>e. quiet e (f e) \<and> same_run (en_run e) (en_run (f e))) \<Longrightarrow> confined H (modify f)"
  by (auto simp: confined_def held_def modify_def quiet same_run_def)

lemma must_held: "confined H (must r)"
  by (rule held_quiet) (simp add: must_def astop_def areturn_def quiet_def split: sum.split)

lemma spins_held: "confined H (unless_it_spins r)"
  by (rule held_quiet) (simp add: unless_it_spins_def awaiting_def areturn_def quiet_def split: option.split)

lemma query_held: "confined H (query f)"
  unfolding query_def by (intro held.confined_abind gets_held must_held)

lemma hydrate_held: "confined H (hydrate_request v h)"
  by (rule held_quiet) (auto simp: hydrate_request_def must_def astop_def areturn_def quiet_def split: prod.split sum.split)

lemma lift_held: "confined R (lift_exec m) \<Longrightarrow> confined H (lift_exec m)"
  by (auto simp: confined_def held_def lift_exec_def split: prod.split)

lemma transact_held: "confined R (transact v f) \<Longrightarrow> confined H (transact v f)"
  unfolding transact_def by (rule lift_held)

lemma tell_held: "confined H (tell ev)"
  using lift_held tell unfolding tell_def by blast

lemma tell_quietly_held: "confined H (tell_quietly ev)"
  using tell_held unfolding confined_def tell_quietly_def by simp

lemma modify_state_held:
  "confined H (move_to cp)" "confined H (add_usage u)" "confined H (report_usage u n)"
  "confined H port_begin_finalizing" "confined H port_resume_running"
  unfolding move_to_def add_usage_def report_usage_def port_begin_finalizing_def port_resume_running_def
  by (intro held.confined_abind modify_held; auto simp: quiet_def same_run_def split: option.split)+

lemmas basics = held.confined_basics confined_cases gets_held must_held spins_held query_held hydrate_held
  tell_held tell_quietly_held modify_state_held
  lift_held[OF wait] lift_held[OF batches] lift_held[OF round]
  transact_held[OF starts] transact_held[OF appends] transact_held[OF replaces] transact_held[OF inserts]

text \<open>What is read of the run's copy is that run.\<close>

lemma with_run: "(\<And>r. same_run p r \<Longrightarrow> confined H (f r)) \<Longrightarrow> confined H (abind (gets en_run) f)"
  by (auto simp: confined_def held_def abind_def gets_def)

lemma with_run_and:
  "(\<And>r a. same_run p r \<Longrightarrow> confined H (f (r, a))) \<Longrightarrow> confined H (abind (gets (\<lambda>e. (en_run e, g e))) f)"
  by (auto simp: confined_def held_def abind_def gets_def)

text \<open>A bind whose second action is confined for the values the first can return.\<close>

lemma bind_values:
  assumes "confined H m" "\<And>a x y. m x = (Done a, y) \<Longrightarrow> confined H (f a)"
  shows "confined H (abind m f)"
  unfolding confined_def
proof
  fix x
  obtain r y where m: "m x = (r, y)" by force
  then have xy: "H x y" using assms(1) unfolding confined_def by (metis snd_conv)
  show "H x (snd (abind m f x))"
  proof (cases r)
    case (Done a)
    then have "H y (snd (f a y))" using assms(2) m unfolding confined_def by blast
    then show ?thesis using held_trans[OF xy] m Done by (simp add: abind_def)
  qed (use m xy in \<open>simp_all add: abind_def\<close>)
qed

lemma model_call_held: "in_the_name_of p call \<Longrightarrow> confined H (model_call v client refusal call rs pending)"
  by (auto simp: confined_def held_def model_call_def Let_def calls split: prod.split option.split)

lemma commit_and_wait_held: "confined H (commit_and_wait cause)"
  unfolding commit_and_wait_def by (intro basics)

lemma insert_batches_held: "same_run p r \<Longrightarrow> confined H (insert_batches v r bs)"
  unfolding insert_batches_def same_run_def by (elim conjE; simp; intro basics)

lemma insert_some_held: "confined H (insert_some v p bs)"
  unfolding insert_some_def by (intro basics insert_batches_held) (simp add: same_run_def)

lemma current_messages_held: "confined H (current_messages v)"
  unfolding current_messages_def by (intro basics)

end


section \<open>Summary calls\<close>

lemma summary_target_quiet: "rs_enabled (ms_reasoning (st_model (summary_target v r settings))) = Some False"
  by (auto simp: summary_target_def Let_def summary_model_def split: option.split)

lemma plain_prompts: "ps_tools (plain_prompt i) = []" "ps_tools (detail_prompt v n) = []"
  by (simp_all add: plain_prompt_def detail_prompt_def)

lemma summary_attempt_prompt:
  assumes "summary_attempt v r settings target minimum ms rs s x = (Done (AskAgain s'), y)" "ps_tools (sm_prompt s) = []"
  shows "ps_tools (sm_prompt s') = []"
proof -
  have answer: "ps_tools (sm_prompt s') = []"
    if "summary_answer v minimum ms k t = AskAgain s'" "ps_tools (sm_prompt t) = []" for k t
    using that by (cases k) (auto simp: summary_answer_def accept_summary_def without_summary_def with_usage_def Let_def plain_prompts
        split: if_splits option.splits)
  show ?thesis
    using assms unfolding summary_attempt_def Let_def abind_Done split_paired_Ex
    apply (elim exE conjE)
    subgoal for i z h z' q z'' k b w by (cases k) (auto dest!: answer[OF sym])
    done
qed

context run_effect begin

lemma summary_attempt_held:
  assumes "same_run p r" "ps_tools (sm_prompt s) = []" "rs_enabled (ms_reasoning (st_model target)) = Some False"
  shows "confined H (summary_attempt v r settings target minimum ms rs s)"
proof -
  have id: "pr_run_id r = pr_run_id p" "pr_conversation_id r = pr_conversation_id p" using assms(1) by (simp_all add: same_run_def)
  show ?thesis unfolding summary_attempt_def Let_def id(1)
  proof (intro basics model_call_held)
    show "in_the_name_of p (engine_invocation r CompactionSummaryCall cid i \<lparr>mq_prompt = sm_prompt (s\<lparr>sm_attempts := n, sm_index := j\<rparr>),
        mq_model = st_model target, mq_history = h\<rparr>)" for cid i n j h
      using assms by (simp add: in_the_name_of_def engine_invocation_def same_run_def asks_def asks_summary_def)
  qed (auto split: call_end.split intro!: basics)
qed

lemma summary_loop_held:
  "same_run p r \<Longrightarrow> rs_enabled (ms_reasoning (st_model target)) = Some False \<Longrightarrow> ps_tools (sm_prompt s) = []
   \<Longrightarrow> confined H (summary_loop v r settings target minimum ms rss s)"
proof (induction rss arbitrary: s)
  case (Cons rs rss)
  show ?case unfolding summary_loop.simps
  proof (rule bind_values)
    show "confined H (summary_attempt v r settings target minimum ms rs s)" by (rule summary_attempt_held) (use Cons.prems in auto)
    show "confined H (case k of AskAgain s' \<Rightarrow> summary_loop v r settings target minimum ms rss s'
        | Summarized summary s' \<Rightarrow> areturn (summary, s'))"
      if "summary_attempt v r settings target minimum ms rs s x = (Done k, y)" for k x y
    proof (cases k)
      case (AskAgain s')
      then have "ps_tools (sm_prompt s') = []" using summary_attempt_prompt[of v r settings target minimum ms rs s x s' y] that Cons.prems(3) by simp
      then show ?thesis using Cons.IH[OF Cons.prems(1,2)] AskAgain by simp
    qed (simp add: basics)
  qed
qed (simp add: basics)

lemma asked_summary_held: "same_run p r \<Longrightarrow> confined H (asked_summary v r settings cal ms com rss)"
  unfolding asked_summary_def Let_def
  by (intro basics summary_loop_held summary_target_quiet) (simp_all add: summary_start_def plain_prompts)

lemma validated_held: "confined H (validated v r settings cal projected)"
  unfolding validated_def by (intro basics)

lemma commit_compaction_held:
  assumes "same_run p r" shows "confined H (commit_compaction v r settings q ms summary ev)"
proof -
  have id: "pr_run_id r = pr_run_id p" "pr_conversation_id r = pr_conversation_id p" using assms by (simp_all add: same_run_def)
  show ?thesis unfolding commit_compaction_def Let_def id
    by (intro basics validated_held commit_and_wait_held)
qed

lemma nothing_held: "confined H (nothing_to_compact v r settings cal ms)"
  unfolding nothing_to_compact_def by (intro basics)

lemma auto_compact_held:
  assumes "same_run p r" shows "confined H (auto_compact v r settings q ms inp)"
  unfolding auto_compact_def Let_def
  by (intro basics nothing_held asked_summary_held commit_compaction_held insert_batches_held assms)

end

section \<open>Turns\<close>

lemma ask_for_detail_asks:
  assumes "ask_for_detail v settings f cycle st x = (Done (RetryCall st'), y)" "asks_summary (as_request st)"
  shows "asks_summary (as_request st')"
  using assms by (auto simp: ask_for_detail_def Let_def asks_summary_def split: option.splits)

lemma call_succeeded_asks:
  assumes "call_succeeded v p settings f cycle st x = (Done (RetryCall st'), y)" "asks p (purpose_of p) (as_request st)"
  shows "asks p (purpose_of p) (as_request st')"
proof -
  have "\<exists>x y. pr_action p = CompactAction \<and> ask_for_detail v settings f cycle st x = (Done (RetryCall st'), y)"
    using assms(1) by (auto simp: call_succeeded_def split: if_splits)
  then show ?thesis
    using ask_for_detail_asks assms(2) by (fastforce simp: asks_def purpose_of_def)
qed

lemma break_in_again: "break_in v p pending b x \<noteq> (Done (RetryCall st'), y)"
  by (auto simp: break_in_def)

lemma compact_and_retry_again: "compact_and_retry v p settings retention inp st x \<noteq> (Done (RetryCall st'), y)"
  by (auto simp: compact_and_retry_def)

lemma give_up_again: "give_up v p f problem st x \<noteq> (Done (RetryCall st'), y)"
  by (auto simp: give_up_def split: if_splits)

lemma retry_after_delay_again:
  assumes "retry_after_delay v p problem delay st x = (Done (RetryCall st'), y)"
  shows "as_request st' = as_request st \<and> as_sequence st' = as_sequence st \<and> as_retries st' = as_retries st + 1"
proof -
  obtain acc z where z: "(case retry_delay acc delay (as_pending st) of
       None \<Rightarrow> awaiting
     | Some (RetryNow, pending) \<Rightarrow> areturn (RetryCall (st\<lparr>as_retries := as_retries st + 1, as_pending := pending\<rparr>))
     | Some (DelayBroken b, pending) \<Rightarrow> break_in v p pending b
     | Some (DelayStopped told out, _) \<Rightarrow> abind (if told then tell_quietly CycleInterrupted else areturn ()) (\<lambda>_. astop out)) z
     = (Done (RetryCall st'), y)"
    using assms unfolding retry_after_delay_def Let_def abind_Done by blast
  show ?thesis
  proof (cases "retry_delay acc delay (as_pending st)")
    case (Some q)
    then show ?thesis using z by (cases q; cases "fst q") (auto simp: break_in_again)
  qed (use z in simp)
qed

lemma call_failed_again:
  assumes "call_failed v p settings f a problem st x = (Done (RetryCall st'), y)"
  shows "as_request st' = as_request st \<and> as_sequence st' = as_sequence st \<and> as_retries st' = as_retries st + 1
     \<and> should_retry (cycle_failure.truncate problem) (as_retries st)"
proof -
  obtain refusal episode z where z:
    "(case decide episode (as_retries st) \<lparr>fa_failure = cycle_failure.truncate problem, fa_refusal = refusal\<rparr> of
        CompactAndRetry retention \<Rightarrow> compact_and_retry v p settings retention (ai_compaction a) st
      | RetryAfterDelay \<Rightarrow> retry_after_delay v p (cf_failure problem) (ai_delay a) st
      | GiveUp \<Rightarrow> give_up v p f problem st) z = (Done (RetryCall st'), y)"
    using assms by (auto simp: call_failed_def split: if_split_asm)
  show ?thesis
  proof (cases "decide episode (as_retries st) \<lparr>fa_failure = cycle_failure.truncate problem, fa_refusal = refusal\<rparr>")
    case RetryAfterDelay
    then have "should_retry (cycle_failure.truncate problem) (as_retries st)" by (simp add: decide_cases)
    then show ?thesis using z RetryAfterDelay retry_after_delay_again by simp
  qed (use z in \<open>simp_all add: compact_and_retry_again give_up_again\<close>)
qed

text \<open>An attempt that asks for another one: its request asks the same, and it is a retry or the detail request.\<close>

lemma attempt_again:
  assumes "attempt v p settings f a st x = (Done (RetryCall st'), y)" "asks p (purpose_of p) (as_request st)"
  shows "asks p (purpose_of p) (as_request st')"
proof -
  obtain k pending z where z: "(case k of
                CallStopped out \<Rightarrow> abind (tell_quietly CycleInterrupted) (\<lambda>_. astop out)
              | CallBroken b r \<Rightarrow>
                  abind (report_usage (outcome_usage r) (tf_anchored f)) (\<lambda>_. break_in v p pending b)
              | CallOver (Inr cycle) \<Rightarrow> call_succeeded v p settings f cycle
                  (st\<lparr>as_sequence := min (as_sequence st + 1) u32_limit, as_pending := pending\<rparr>)
              | CallOver (Inl problem) \<Rightarrow> call_failed v p settings f a problem
                  (st\<lparr>as_sequence := min (as_sequence st + 1) u32_limit, as_pending := pending\<rparr>)) z
      = (Done (RetryCall st'), y)"
    using assms(1) unfolding attempt_def Let_def abind_Done split_paired_Ex prod.case by blast
  show ?thesis
  proof (cases k)
    case (CallOver r)
    show ?thesis
    proof (cases r)
      case (Inl problem)
      then have "as_request st' = as_request st" using z CallOver by (auto dest: call_failed_again)
      then show ?thesis using assms(2) by simp
    next
      case (Inr cycle)
      then show ?thesis using z CallOver assms(2) by (auto dest: call_succeeded_asks)
    qed
  next
    case (CallBroken b r)
    then show ?thesis using z by (auto simp: break_in_again)
  qed (use z in simp)
qed

lemma user_terminated_end [simp]:
  "user_terminated h i t \<noteq> [] \<Longrightarrow> pm_role (last (user_terminated h i t)) \<noteq> RAssistant"
  by (cases "h = []") (simp_all add: user_terminated_def)

lemma turn_request_asks:
  assumes "turn_request v p settings ms h i x = (Done (f, q), y)"
  shows "asks p (purpose_of p) q"
proof (cases "pr_action p = CompactAction")
  case True
  then show ?thesis
    using assms by (auto simp: turn_request_def Let_def asks_def purpose_of_def asks_summary_def plain_prompts summary_target_quiet)
next
  case False
  then show ?thesis
    using assms
    by (auto simp: turn_request_def Let_def asks_def purpose_of_def asks_answer_def cycle_model_def split: run_action.splits)
qed

context run_effect begin

lemma break_in_held: "confined H (break_in v p pending b)"
  unfolding break_in_def by (intro basics insert_batches_held) (simp_all add: same_run_def)

lemma modify_engine_held:
  "confined H (modify (\<lambda>e. e\<lparr>en_overflow := g e\<rparr>))" "confined H (modify (\<lambda>e. e\<lparr>en_anchor := a\<rparr>))"
  "confined H (modify (\<lambda>e. e\<lparr>en_anchor := a, en_overflow := g e\<rparr>))"
  "confined H (modify (\<lambda>e. e\<lparr>en_short_summary := s, en_detail_retry := b\<rparr>))"
  "confined H (modify (learn_window settings refusal problem))"
  by (rule modify_held; simp add: quiet_def same_run_def learn_window_def)+

lemma compact_and_retry_held: "confined H (compact_and_retry v p settings retention inp st)"
proof -
  have p: "same_run p p" by (simp add: same_run_def)
  show ?thesis unfolding compact_and_retry_def
    by (intro with_run_and basics modify_engine_held insert_batches_held current_messages_held auto_compact_held p) simp
qed

lemma retry_after_delay_held: "confined H (retry_after_delay v p problem delay st)"
  unfolding retry_after_delay_def Let_def
  by (intro basics) (auto split: delay_end.split intro!: basics break_in_held)

lemma append_assistant_held: "confined H (append_assistant v p m)"
  unfolding append_assistant_def by (intro basics)

lemma give_up_held: "confined H (give_up v p f problem st)"
  unfolding give_up_def persist_truncated_assistant_def by (intro basics append_assistant_held commit_and_wait_held)

lemma call_failed_held: "confined H (call_failed v p settings f a problem st)"
  unfolding call_failed_def
  by (intro basics modify_engine_held)
    (auto split: decision.split intro!: compact_and_retry_held retry_after_delay_held give_up_held)

lemma call_succeeded_held: "confined H (call_succeeded v p settings f cycle st)"
  unfolding call_succeeded_def ask_for_detail_def Let_def by (intro basics modify_engine_held)

lemma attempt_held:
  assumes "asks p (purpose_of p) (as_request st)"
  shows "confined H (attempt v p settings f a st)"
proof -
  have "in_the_name_of p (engine_invocation p (purpose_of p) cid i (as_request st))" for cid i
    using assms by (simp add: in_the_name_of_def engine_invocation_def)
  then show ?thesis unfolding attempt_def Let_def purpose_of_def[symmetric]
    by (intro basics model_call_held)
      (auto split: call_end.split intro!: basics break_in_held call_failed_held call_succeeded_held)
qed

lemma attempts_held: "asks p (purpose_of p) (as_request st) \<Longrightarrow> confined H (attempts v p settings f as st)"
proof (induction "as" arbitrary: st)
  case (Cons a as)
  show ?case unfolding attempts.simps
  proof (rule bind_values[OF attempt_held[OF Cons.prems]])
    fix r x y assume r: "attempt v p settings f a st x = (Done r, y)"
    show "confined H (case r of TurnAgain \<Rightarrow> areturn None | GotCycle cycle pending \<Rightarrow> areturn (Some (cycle, pending))
        | RetryCall st' \<Rightarrow> attempts v p settings f as st')"
    proof (cases r)
      case (RetryCall st')
      then show ?thesis using Cons.IH attempt_again[OF _ Cons.prems] r by simp
    qed (simp_all add: basics)
  qed
qed (simp add: basics)

lemma closing_held: "confined H (closing_insertions drain)"
  unfolding closing_insertions_def by (intro basics)

lemma finish_compaction_held: "confined H (finish_compaction v p settings ti f cycle pending)"
  unfolding finish_compaction_def manual_summary_def Let_def
  by (intro with_run basics closing_held insert_some_held commit_and_wait_held)

lemma await_background_held: "confined H (await_background v p started ts s)"
proof (induction ts arbitrary: s)
  case (Cons t ts)
  show ?case unfolding await_background.simps Let_def
    by (intro basics insert_some_held)
      (auto split: wait_event.split option.split run_command.split intro!: basics Cons)
qed (simp add: basics)

lemma finish_turn_held: "confined H (finish_turn v p ti f cycle pending)"
  unfolding finish_turn_def wait_for_children_def
  by (intro basics append_assistant_held insert_some_held closing_held commit_and_wait_held await_background_held)

lemma run_round_held: "confined H (run_round v p rd bs inp)"
  unfolding run_round_def by (intro basics)

lemma turn_request_held: "confined H (turn_request v p settings ms h i)"
  unfolding turn_request_def Let_def by (intro basics)

lemma preflight_held: "confined H (preflight_compact v settings est ms inp)"
  unfolding preflight_compact_def by (intro with_run basics auto_compact_held modify_engine_held)

lemma model_turn_held: "confined H (model_turn v p settings ti)"
proof -
  have called: "confined H (abind (turn_request v p settings messages history index) (\<lambda>(f, request).
              abind (attempts v p settings f (ti_attempts ti)
                       \<lparr>as_retries = 0, as_sequence = 0, as_pending = [], as_request = request\<rparr>) (\<lambda>r.
                case r of
                  None \<Rightarrow> areturn ()
                | Some (cycle, pending) \<Rightarrow>
                    abind (report_usage (cr_usage cycle) (tf_anchored f)) (\<lambda>_.
                      if pr_action p = CompactAction then finish_compaction v p settings ti f cycle pending
                      else if cr_calls cycle = [] then finish_turn v p ti f cycle pending
                      else run_round v p (round_of_cycle p f cycle) pending (ti_round ti)))))"
    for messages history index
  proof (rule bind_values[OF turn_request_held])
    fix a x y assume "turn_request v p settings messages history index x = (Done a, y)"
    then have "asks p (purpose_of p) (snd a)" using turn_request_asks by (cases a) simp
    then show "confined H (case a of (f, request) \<Rightarrow>
              abind (attempts v p settings f (ti_attempts ti)
                       \<lparr>as_retries = 0, as_sequence = 0, as_pending = [], as_request = request\<rparr>) (\<lambda>r.
                case r of
                  None \<Rightarrow> areturn ()
                | Some (cycle, pending) \<Rightarrow>
                    abind (report_usage (cr_usage cycle) (tf_anchored f)) (\<lambda>_.
                      if pr_action p = CompactAction then finish_compaction v p settings ti f cycle pending
                      else if cr_calls cycle = [] then finish_turn v p ti f cycle pending
                      else run_round v p (round_of_cycle p f cycle) pending (ti_round ti))))"
      by (intro basics attempts_held finish_compaction_held finish_turn_held run_round_held) simp
  qed
  show ?thesis unfolding model_turn_def by (intro basics current_messages_held preflight_held called)
qed

lemma model_loop_held: "confined H (model_loop v p settings tis)"
  by (induction tis) (auto intro!: basics model_turn_held)

lemma collect_initial_held: "confined H (collect_initial v p ms pending)"
  by (induction ms arbitrary: pending) (auto intro!: basics)

lemma commit_initial_held: "confined H (commit_initial v p)"
  unfolding commit_initial_def append_initial_def
  by (intro basics collect_initial_held commit_and_wait_held)

lemma resume_round_held: "confined H (resume_round v p inp)"
  unfolding resume_round_def by (auto split: run_action.split option.split intro!: basics run_round_held)

theorem run_claimed_held: "confined H (run_claimed v p inp)"
  unfolding run_claimed_def
  by (intro basics commit_initial_held resume_round_held model_loop_held modify_engine_held)

end

end
