(* ===== verification/EngineLaws.thy ===== *)
theory EngineLaws
  imports EngineEffects RunProperties
begin

text \<open>
  What a run of the engine does: to the store only transactions of its own run on its own conversation, to the
  provider only requests in its own name; and how it ends.
\<close>

section \<open>What a run does to the store\<close>

fun of_run :: "string \<Rightarrow> string \<Rightarrow> store_event \<Rightarrow> bool" where
  "of_run conv run (AppendCheckpoint k r _ _) \<longleftrightarrow> k = conv \<and> r = run"
| "of_run conv run (ReplaceCheckpoint k r _ _) \<longleftrightarrow> k = conv \<and> r = run"
| "of_run conv run (AppendOnce k r _ _) \<longleftrightarrow> k = conv \<and> r = run"
| "of_run conv run (BeginCall _ r) \<longleftrightarrow> r = run"
| "of_run conv run (CreateRound _ _ r _ _ _ _) \<longleftrightarrow> r = run"
| "of_run conv run (CommitResult _ k r _ _) \<longleftrightarrow> k = conv \<and> r = run"
| "of_run conv run _ \<longleftrightarrow> False"

definition acts :: "codec \<Rightarrow> string \<Rightarrow> string \<Rightarrow> db \<Rightarrow> db \<Rightarrow> bool" where
  "acts c conv run s s' \<longleftrightarrow> (\<exists>es. list_all (of_run conv run) es \<and> s' = fold (store_step c) es s)"

lemma acts_refl: "acts c conv run s s"
  unfolding acts_def by (intro exI[of _ "[]"]) simp

lemma acts_trans: "acts c conv run s t \<Longrightarrow> acts c conv run t u \<Longrightarrow> acts c conv run s u"
  unfolding acts_def
proof (elim exE conjE)
  fix es fs assume "list_all (of_run conv run) es" "t = fold (store_step c) es s" "list_all (of_run conv run) fs" "u = fold (store_step c) fs t"
  then show "\<exists>es. list_all (of_run conv run) es \<and> u = fold (store_step c) es s" by (intro exI[of _ "es @ fs"]) simp
qed

lemma acts_step: "of_run conv run e \<Longrightarrow> acts c conv run s (store_step c e s)"
  unfolding acts_def by (intro exI[of _ "[e]"]) simp

definition exec_acts :: "codec \<Rightarrow> string \<Rightarrow> string \<Rightarrow> exec \<Rightarrow> exec \<Rightarrow> bool" where
  "exec_acts c conv run x y \<longleftrightarrow> acts c conv run (x_db x) (x_db y)"

interpretation exec_order: effect_order "exec_acts c conv run" for c conv run
  by unfold_locales (auto simp: exec_acts_def acts_refl intro: acts_trans)

lemma in_store_acts:
  "(\<And>now. of_run conv run (ev now)) \<Longrightarrow> (\<And>now s. state_of (f now s) s = store_step c (ev now) s)
    \<Longrightarrow> confined (exec_acts c conv run) (in_store clock f)"
  unfolding confined_def
proof
  fix x assume a: "\<And>now. of_run conv run (ev now)" "\<And>now s. state_of (f now s) s = store_step c (ev now) s"
  have "x_db (snd (in_store clock f x)) = state_of (f (clock (length (x_sent x))) (x_db x)) (x_db x)"
    by (simp add: in_store_def state_of_def split: sum.splits prod.splits)
  then show "exec_acts c conv run x (snd (in_store clock f x))"
    unfolding exec_acts_def a(2) using acts_step[OF a(1)] by simp
qed

lemma in_store_begin: "confined (exec_acts c conv run) (in_store clock (\<lambda>now. begin_provider_call now run))"
  by (rule in_store_acts[where ev = "\<lambda>now. BeginCall now run"]) simp_all

lemma in_store_append: "confined (exec_acts c conv run) (in_store clock (\<lambda>_. append_checkpoint c conv run cp ms))"
  by (rule in_store_acts[where ev = "\<lambda>_. AppendCheckpoint conv run cp ms"]) simp_all

lemma in_store_replace: "confined (exec_acts c conv run) (in_store clock (\<lambda>_. replace_checkpoint c conv run cp ms))"
  by (rule in_store_acts[where ev = "\<lambda>_. ReplaceCheckpoint conv run cp ms"]) simp_all

lemma in_store_once: "confined (exec_acts c conv run) (in_store clock (\<lambda>_. append_messages_once c conv run cp ms))"
  by (rule in_store_acts[where ev = "\<lambda>_. AppendOnce conv run cp ms"]) simp_all

lemma in_store_round: "confined (exec_acts c conv run) (in_store clock (\<lambda>now. create_tool_round now rid run cp a calls created))"
  by (rule in_store_acts[where ev = "\<lambda>now. CreateRound now rid run cp a calls created"]) simp_all

lemma in_store_result: "confined (exec_acts c conv run) (in_store clock (\<lambda>now. commit_tool_result c now conv run rid r))"
  by (rule in_store_acts[where ev = "\<lambda>now. CommitResult now conv run rid r"]) simp_all

lemma same_db_acts: "(\<And>x. x_db (snd (m x)) = x_db x) \<Longrightarrow> confined (exec_acts c conv run) m"
  by (simp add: confined_def exec_acts_def acts_refl)

lemma plain_acts:
  "confined (exec_acts c conv run) (emit_event ev)" "confined (exec_acts c conv run) wait_ready"
  "confined (exec_acts c conv run) (account cid)" "confined (exec_acts c conv run) (reply i r)"
  by (auto intro!: same_db_acts simp: emit_event_def wait_ready_def account_def reply_def
      split: option.splits nat.splits list.splits sum.splits)

interpretation round_acts: round_effect "exec_acts c conv run" c clock conv run for c clock conv run
  by unfold_locales (auto simp: exec_acts_def acts_refl intro: acts_trans in_store_once in_store_round in_store_result plain_acts)

definition engine_acts :: "engine_env \<Rightarrow> prompted_run \<Rightarrow> engine \<Rightarrow> engine \<Rightarrow> bool" where
  "engine_acts v p e e' \<longleftrightarrow> exec_acts (ev_codec v) (pr_conversation_id p) (pr_run_id p) (en_exec e) (en_exec e')"

lemma lift_acts:
  "confined (exec_acts (ev_codec v) (pr_conversation_id p) (pr_run_id p)) m \<Longrightarrow> confined (engine_acts v p) (lift_exec m)"
  unfolding confined_def
proof
  fix e :: engine assume "\<forall>x. exec_acts (ev_codec v) (pr_conversation_id p) (pr_run_id p) x (snd (m x))"
  then have "exec_acts (ev_codec v) (pr_conversation_id p) (pr_run_id p) (en_exec e) (snd (m (en_exec e)))" by blast
  then show "engine_acts v p e (snd (lift_exec m e))" by (auto simp: engine_acts_def lift_exec_def split: prod.split)
qed

interpretation engine_acts: run_effect "engine_acts v p" v p for v p
proof
  show "engine_acts v p e e" for e by (simp add: engine_acts_def exec_acts_def acts_refl)
  show "engine_acts v p a b \<Longrightarrow> engine_acts v p b d \<Longrightarrow> engine_acts v p a d" for a b d
    by (auto simp: engine_acts_def exec_acts_def intro: acts_trans)
  show "quiet e e' \<Longrightarrow> engine_acts v p e e'" for e e' by (simp add: quiet_def engine_acts_def exec_acts_def acts_refl)
  show "in_the_name_of p call \<Longrightarrow> engine_acts v p e
      (e\<lparr>en_requests := en_requests e @ [call], en_exec := (en_exec e)\<lparr>x_sent := x_sent (en_exec e) @ l\<rparr>\<rparr>)" for e call l
    by (simp add: engine_acts_def exec_acts_def acts_refl)
qed (simp_all only: tell_def transact_def, (intro lift_acts plain_acts in_store_begin in_store_append in_store_replace in_store_once
  round_acts.append_batches_effect round_acts.execute_effect)+)

text \<open>Whatever becomes of a claimed run, what it did to the store are transactions of the run on its conversation.\<close>

lemma run_claimed_acts:
  assumes "run_claimed v p inp e = (r, e')" "same_run p (en_run e)"
  shows "acts (ev_codec v) (pr_conversation_id p) (pr_run_id p) (x_db (en_exec e)) (x_db (en_exec e'))"
  using engine_acts.run_claimed_held[of p v inp] assms
  by (force simp: confined_def held_def engine_acts_def exec_acts_def)


section \<open>The conversation of a run\<close>

text \<open>A transaction of a run touches no other conversation and leaves the owner as it is.\<close>

lemma state_of_other:
  "(\<And>a s'. r = Inr (a, s') \<Longrightarrow> find_conversation k s' = find_conversation k s)
   \<Longrightarrow> find_conversation k (state_of r s) = find_conversation k s"
  by (auto simp: state_of_def split: sum.splits)

lemma of_run_other:
  assumes c: "codec_ok c" and ok: "store_ok c s" and e: "of_run conv run e" and k: "k \<noteq> conv"
  shows "find_conversation k (store_step c e s) = find_conversation k s"
proof (cases e)
  case (AppendCheckpoint k' r cp ms)
  then show ?thesis unfolding AppendCheckpoint store_step.simps using e[unfolded AppendCheckpoint] k
      append_checkpoint_tx_spec[OF c ok, of conv run "checkpoint_int cp" ms]
    by (intro state_of_other) (auto simp: append_checkpoint_def moved_head_def split: if_splits)
next
  case (ReplaceCheckpoint k' r cp ms)
  then show ?thesis unfolding ReplaceCheckpoint store_step.simps using e[unfolded ReplaceCheckpoint] k replace_checkpoint_spec[OF c ok]
    by (intro state_of_other) (fastforce simp: moved_head_def)
next
  case (AppendOnce k' r cp ms)
  then have "append_messages_once c conv run cp ms s = Inr (a, s') \<Longrightarrow> find_conversation k s' = find_conversation k s" for a s'
    using append_messages_once_spec[OF c ok, of ms conv run "checkpoint_int cp" a s'] k
    by (cases "ms = []") (auto simp: append_messages_once_def)
  then show ?thesis unfolding AppendOnce store_step.simps using e AppendOnce by (intro state_of_other) auto
next
  case (BeginCall now r)
  then show ?thesis unfolding BeginCall store_step.simps
    by (intro state_of_other) (auto simp: begin_provider_call_def Let_def find_conversation_def split: option.splits)
next
  case (CreateRound now rid r cp a calls created)
  then show ?thesis unfolding CreateRound store_step.simps
    by (intro state_of_other) (auto simp: create_tool_round_def find_conversation_def split: if_splits)
next
  case (CommitResult now k' r rid res)
  show ?thesis unfolding CommitResult store_step.simps
  proof (rule state_of_other)
    fix a s' assume a: "commit_tool_result c now k' r rid res s = Inr (a, s')"
    have "rounds_ok s" using ok by (simp add: store_ok_def)
    then obtain s1 h ms cp where s1: "conversations_t s' = conversations_t s1"
        "append_checkpoint_tx c k' r (CheckpointId h) ms s = Inr (cp, s1)"
      using commit_tool_result_parts[OF _ a] by blast
    then have "find_conversation k s1 = find_conversation k s"
      using append_checkpoint_tx_spec[OF c ok, of k' r h ms cp s1] e k CommitResult by (auto simp: moved_head_def)
    then show "find_conversation k s' = find_conversation k s" using s1(1) by (simp add: find_conversation_def)
  qed
qed (use e in simp_all)

lemma of_run_keeps: "of_run conv run e \<Longrightarrow> \<not> ends_ownership k run e"
  by (cases e) simp_all

lemma acts_frame:
  assumes c: "codec_ok c" and ok: "store_ok c s" and a: "acts c conv run s s'"
  shows "store_ok c s' \<and> extends_db s s' \<and> (\<forall>k. k \<noteq> conv \<longrightarrow> find_conversation k s' = find_conversation k s)
    \<and> (\<forall>k. owns k run s \<longrightarrow> owns k run s')"
proof -
  obtain es where es: "list_all (of_run conv run) es" "s' = fold (store_step c) es s" using a unfolding acts_def by blast
  have "store_ok c (fold (store_step c) es s) \<and> extends_db s (fold (store_step c) es s)
    \<and> (\<forall>k. k \<noteq> conv \<longrightarrow> find_conversation k (fold (store_step c) es s) = find_conversation k s)
    \<and> (\<forall>k. owns k run s \<longrightarrow> owns k run (fold (store_step c) es s))"
    using es(1) ok
  proof (induction es arbitrary: s)
    case (Cons e es)
    have e: "of_run conv run e" "list_all (of_run conv run) es" using Cons.prems(1) by simp_all
    note st = store_step_ok[OF c Cons.prems(2), of e]
    then have "store_ok c (store_step c e s)" by blast
    note ih = Cons.IH[OF e(2) this]
    have "find_conversation k (store_step c e s) = find_conversation k s" if "k \<noteq> conv" for k
      using of_run_other[OF c Cons.prems(2) e(1) that] .
    moreover have "owns k run s \<Longrightarrow> owns k run (store_step c e s)" for k
      using owner_kept[OF c Cons.prems(2) _ of_run_keeps[OF e(1)]] .
    ultimately show ?case using ih st extends_db_trans by simp blast
  qed simp
  then show ?thesis using es(2) by blast
qed

text \<open>A run that owns its conversation is on record as running.\<close>

lemma owner_running: "store_ok c s \<Longrightarrow> owns conv run s \<Longrightarrow> \<exists>row. find_run run s = Some row \<and> run_status row = RunRunning"
  using active_run_exists[of c s conv run] by (auto simp: owns_def)

lemma write_outcome_spec:
  assumes ok: "store_ok c (x_db (en_exec e))" and o: "owns k (pr_run_id p) (x_db (en_exec e))" and st: "st \<noteq> RunRunning"
  shows "if refused then write_outcome v p st f refused e = None
    else \<exists>now s'. finish_run now (pr_run_id p) st f (x_db (en_exec e)) = Inr (True, s')
       \<and> write_outcome v p st f refused e = Some (e\<lparr>en_exec := (en_exec e)\<lparr>x_db := s'\<rparr>\<rparr>)
       \<and> store_ok c s' \<and> extends_db (x_db (en_exec e)) s' \<and> (\<forall>k. \<not> owns k (pr_run_id p) s')
       \<and> (\<forall>k. \<not> owns k (pr_run_id p) (x_db (en_exec e)) \<longrightarrow> find_conversation k s' = find_conversation k (x_db (en_exec e)))
       \<and> (\<exists>row. find_run (pr_run_id p) s' = Some row \<and> run_status row = st
            \<and> run_failure_category row = map_option fst f \<and> run_failure_summary row = map_option snd f)"
proof (cases refused)
  case False
  define now where "now = ev_clock v (length (x_sent (en_exec e)))"
  let ?s = "x_db (en_exec e)"
  obtain row where row: "find_run (pr_run_id p) ?s = Some row" "run_status row = RunRunning"
    using owner_running[OF ok o] by blast
  obtain b s' where fin: "finish_run now (pr_run_id p) st f ?s = Inr (b, s')"
    using row st by (cases st) (auto simp: finish_run_def Let_def)
  note sp = finish_run_spec[OF ok fin]
  have "b" using sp o by (auto simp: owns_def dest!: find_conversation_mem)
  moreover have "write_outcome v p st f refused e = Some (e\<lparr>en_exec := (en_exec e)\<lparr>x_db := s'\<rparr>\<rparr>)"
    using False fin by (simp add: write_outcome_def now_def[symmetric])
  moreover have "\<not> owns k (pr_run_id p) s'" for k using sp released_none by blast
  moreover have "\<not> owns k (pr_run_id p) ?s \<longrightarrow> find_conversation k s' = find_conversation k ?s" for k
    using sp released_same by blast
  moreover have "\<exists>row. find_run (pr_run_id p) s' = Some row \<and> run_status row = st
            \<and> run_failure_category row = map_option fst f \<and> run_failure_summary row = map_option snd f"
    using sp row by auto
  ultimately show ?thesis using False fin sp same_checkpoints_extends by (auto intro!: exI[of _ now] exI[of _ s'])
qed (simp add: write_outcome_def)


section \<open>The whole run\<close>

definition recorded :: "engine_env \<Rightarrow> prompted_run \<Rightarrow> run_outcome \<Rightarrow> bool \<times> bool \<times> bool \<Rightarrow> engine \<Rightarrow> engine \<Rightarrow> bool" where
  "recorded v p out fails e e' \<longleftrightarrow>
     (\<exists>es. x_db (en_exec e') = fold (store_step (ev_codec v)) es (x_db (en_exec e))
        \<and> list_all (\<lambda>ev. \<exists>now st f. ev = FinishRun now (pr_run_id p) st f) es)
     \<and> store_ok (ev_codec v) (x_db (en_exec e')) \<and> extends_db (x_db (en_exec e)) (x_db (en_exec e'))
     \<and> (\<forall>k. \<not> owns k (pr_run_id p) (x_db (en_exec e)) \<longrightarrow> find_conversation k (x_db (en_exec e')) = find_conversation k (x_db (en_exec e)))
     \<and> (if fst fails \<and> fst (snd fails) \<and> snd (snd fails) then e' = e
        else (\<forall>k. \<not> owns k (pr_run_id p) (x_db (en_exec e')))
          \<and> (\<exists>row. find_run (pr_run_id p) (x_db (en_exec e')) = Some row
               \<and> (if fst fails \<and> fst (snd fails) then run_status row = RunFailed
                  else run_status row = run_status_of out
                    \<and> run_failure_category row = map_option fst (run_failure_of out)
                    \<and> run_failure_summary row = map_option snd (run_failure_of out))))"

lemma run_status_terminal: "run_status_of out \<noteq> RunRunning"
  by (cases out) (simp_all add: run_status_of_def)

lemma record_outcome_spec:
  assumes ok: "store_ok (ev_codec v) (x_db (en_exec e))" and o: "owns k (pr_run_id p) (x_db (en_exec e))"
  shows "recorded v p out fails e (record_outcome v p out fails e)"
proof -
  obtain a b d where fails: "fails = (a, b, d)" by (cases fails)
  have written: "recorded v p out fails e e'"
    if w: "write_outcome v p st f False e = Some e'" and st: "st \<noteq> RunRunning"
      and r: "if a \<and> b then \<not> d \<and> st = RunFailed else st = run_status_of out \<and> f = run_failure_of out" for e' st f
  proof -
    obtain now s' where q: "finish_run now (pr_run_id p) st f (x_db (en_exec e)) = Inr (True, s')"
      "write_outcome v p st f False e = Some (e\<lparr>en_exec := (en_exec e)\<lparr>x_db := s'\<rparr>\<rparr>)"
      "store_ok (ev_codec v) s'" "extends_db (x_db (en_exec e)) s'" "\<forall>k. \<not> owns k (pr_run_id p) s'"
      "\<forall>k. \<not> owns k (pr_run_id p) (x_db (en_exec e)) \<longrightarrow> find_conversation k s' = find_conversation k (x_db (en_exec e))"
      "\<exists>row. find_run (pr_run_id p) s' = Some row \<and> run_status row = st
            \<and> run_failure_category row = map_option fst f \<and> run_failure_summary row = map_option snd f"
      using write_outcome_spec[OF ok o st, where refused = False and v = v and f = f] by (simp only: if_False) blast
    have e': "x_db (en_exec e') = s'" using w q(2) by auto
    have "s' = fold (store_step (ev_codec v)) [FinishRun now (pr_run_id p) st f] (x_db (en_exec e))" using q(1) by simp
    then have "\<exists>es. s' = fold (store_step (ev_codec v)) es (x_db (en_exec e))
        \<and> list_all (\<lambda>ev. \<exists>now st f. ev = FinishRun now (pr_run_id p) st f) es"
      by (intro exI[of _ "[FinishRun now (pr_run_id p) st f]"]) simp
    then show ?thesis unfolding recorded_def e' fails using q(3-7) r by (auto split: if_splits)
  qed
  have w: "if refused then write_outcome v p st f refused e = None else write_outcome v p st f refused e = write_outcome v p st f False e
      \<and> (\<exists>e'. write_outcome v p st f False e = Some e')" if "st \<noteq> RunRunning" for st f refused
    using write_outcome_spec[OF ok o that, where refused = refused and v = v and f = f] by (cases refused) auto
  note w1 = w[OF run_status_terminal, of a out "run_failure_of out"] w[OF run_status_terminal, of b out "run_failure_of out"]
    w[of RunFailed d None]
  show ?thesis
  proof (cases "a \<and> b \<and> d")
    case True
    then have "record_outcome v p out fails e = e" using w1 fails by (simp add: record_outcome_def)
    moreover have "\<exists>es. x_db (en_exec e) = fold (store_step (ev_codec v)) es (x_db (en_exec e))
        \<and> list_all (\<lambda>ev. \<exists>now st f. ev = FinishRun now (pr_run_id p) st f) es" by (intro exI[of _ "[]"]) simp
    ultimately show ?thesis using True fails ok by (simp add: recorded_def)
  next
    case False
    then show ?thesis
      using w1 fails written[OF _ run_status_terminal, of out "run_failure_of out"] written[of RunFailed None]
      by (cases a; cases b) (auto simp: record_outcome_def)
  qed
qed


definition of_engine :: "string \<Rightarrow> string \<Rightarrow> store_event \<Rightarrow> bool" where
  "of_engine conv run ev \<longleftrightarrow> of_run conv run ev \<or> (\<exists>now st f. ev = FinishRun now run st f)
     \<or> (\<exists>now q. ev = ClaimRun now q \<and> pr_run_id q = run \<and> pr_conversation_id q = conv)"

text \<open>The end of a run touches the phase and what the client is told.\<close>

lemma end_run_Done: "\<exists>e'. end_run out e = (Done out, e') \<and> en_phase e' = Ended \<and> x_db (en_exec e') = x_db (en_exec e)
    \<and> en_requests e' = en_requests e \<and> (x_closes (en_exec e') = Some 0 \<or> (\<exists>l. x_sent (en_exec e') = l @ [RunEndedEvent out]))
    \<and> prefix (x_sent (en_exec e)) (x_sent (en_exec e'))"
  by (auto simp: end_run_def abind_def port_finish_def modify_def tell_quietly_def tell_def lift_exec_def emit_event_def
      areturn_def split: option.split nat.split prod.split)

lemma truncated_run [simp]:
  "pr_run_id (prepared_run.truncate p) = pr_run_id p" "pr_conversation_id (prepared_run.truncate p) = pr_conversation_id p"
  "pr_base_checkpoint (prepared_run.truncate p) = pr_base_checkpoint p"
  by (simp_all add: prepared_run.defs)

text \<open>How a run goes, in three stages: claim, work, record.\<close>

lemma engine_run_stages:
  assumes "engine_run v p inp e = (r, e')"
  defines "now \<equiv> ev_clock v (length (x_sent (en_exec e)))"
  obtains (refused) err where "claim_run (ev_codec v) now (prepared_run.truncate p) (x_db (en_exec e)) = Inl err"
      "end_run (failed err) e = (r, e')"
  | (waiting) cl s where "claim_run (ev_codec v) now (prepared_run.truncate p) (x_db (en_exec e)) = Inr (cl, s)"
      "fst (run_claimed v p inp (engine_start p (cl_head cl) (e\<lparr>en_exec := (en_exec e)\<lparr>x_db := s\<rparr>\<rparr>))) \<in> {Waiting, Done ()}"
      "snd (run_claimed v p inp (engine_start p (cl_head cl) (e\<lparr>en_exec := (en_exec e)\<lparr>x_db := s\<rparr>\<rparr>))) = e'" "r = Waiting"
  | (ended) cl s e1 out where "claim_run (ev_codec v) now (prepared_run.truncate p) (x_db (en_exec e)) = Inr (cl, s)"
      "run_claimed v p inp (engine_start p (cl_head cl) (e\<lparr>en_exec := (en_exec e)\<lparr>x_db := s\<rparr>\<rparr>)) = (Stop out, e1)"
      "end_run out (record_outcome v p out (ri_write_fails inp) e1) = (r, e')"
proof (cases "claim_run (ev_codec v) now (prepared_run.truncate p) (x_db (en_exec e))")
  case (Inl err)
  then show ?thesis using refused assms by (simp add: engine_run_def)
next
  case (Inr q)
  obtain cl s where q: "q = (cl, s)" by force
  obtain k e1 where k: "run_claimed v p inp (engine_start p (cl_head cl) (e\<lparr>en_exec := (en_exec e)\<lparr>x_db := s\<rparr>\<rparr>)) = (k, e1)" by force
  show ?thesis
  proof (cases k)
    case (Stop out)
    then show ?thesis using ended Inr k q assms by (simp add: engine_run_def)
  qed (use waiting[of cl s] Inr k q assms in \<open>simp_all add: engine_run_def\<close>)
qed

text \<open>The work of a claimed run, on the store.\<close>

lemma claimed_work:
  assumes c: "codec_ok (ev_codec v)" and ok: "store_ok (ev_codec v) (x_db (en_exec e))"
    and cl: "claim_run (ev_codec v) now (prepared_run.truncate p) (x_db (en_exec e)) = Inr (cl, s)"
    and w: "run_claimed v p inp (engine_start p (cl_head cl) (e\<lparr>en_exec := (en_exec e)\<lparr>x_db := s\<rparr>\<rparr>)) = (k, e1)"
  shows "\<exists>es. x_db (en_exec e1) = fold (store_step (ev_codec v)) (ClaimRun now (prepared_run.truncate p) # es) (x_db (en_exec e))
      \<and> list_all (of_run (pr_conversation_id p) (pr_run_id p)) es"
    "store_ok (ev_codec v) (x_db (en_exec e1))" "extends_db (x_db (en_exec e)) (x_db (en_exec e1))"
    "\<forall>k. k \<noteq> pr_conversation_id p \<longrightarrow> find_conversation k (x_db (en_exec e1)) = find_conversation k (x_db (en_exec e))"
    "owns (pr_conversation_id p) (pr_run_id p) (x_db (en_exec e1))"
proof -
  note sp = claim_run_spec[OF ok cl, unfolded truncated_run]
  have o: "owns (pr_conversation_id p) (pr_run_id p) s" using sp by (auto simp: owns_def)
  have a: "acts (ev_codec v) (pr_conversation_id p) (pr_run_id p) s (x_db (en_exec e1))"
    using run_claimed_acts[OF w] by (simp add: engine_start_def same_run_def)
  have "store_ok (ev_codec v) s" using sp by blast
  note fr = acts_frame[OF c this a]
  obtain es where es: "list_all (of_run (pr_conversation_id p) (pr_run_id p)) es"
      "x_db (en_exec e1) = fold (store_step (ev_codec v)) es s" using a unfolding acts_def by blast
  then show "\<exists>es. x_db (en_exec e1) = fold (store_step (ev_codec v)) (ClaimRun now (prepared_run.truncate p) # es) (x_db (en_exec e))
      \<and> list_all (of_run (pr_conversation_id p) (pr_run_id p)) es" using cl by (intro exI[of _ es]) simp
  show "store_ok (ev_codec v) (x_db (en_exec e1))" "owns (pr_conversation_id p) (pr_run_id p) (x_db (en_exec e1))"
    using fr o by blast+
  show "extends_db (x_db (en_exec e)) (x_db (en_exec e1))" using fr sp extends_db_trans by blast
  show "\<forall>k. k \<noteq> pr_conversation_id p \<longrightarrow> find_conversation k (x_db (en_exec e1)) = find_conversation k (x_db (en_exec e))"
    using fr sp by simp
qed

lemma owned_elsewhere:
  "store_ok c s \<Longrightarrow> owns conv run s \<Longrightarrow> k \<noteq> conv \<Longrightarrow> \<not> owns k run s"
  using active_run_exists[of c s conv run] active_run_exists[of c s k run] by (force simp: owns_def)

text \<open>
  C3: the engine works on one conversation, in the name of one run. Whatever is fed to a run and however far it
  gets, all it does to the store is a sequence of transactions of that run on its conversation: the claim, its
  own writes, the record of its end. So the store stays consistent, earlier checkpoints stay as they are, and no
  other conversation's head or owner changes.
\<close>
theorem engine_keeps_to_its_conversation:
  assumes "codec_ok (ev_codec v)" "store_ok (ev_codec v) (x_db (en_exec e))" "engine_run v p inp e = (r, e')"
  shows "(\<exists>es. x_db (en_exec e') = fold (store_step (ev_codec v)) es (x_db (en_exec e))
           \<and> list_all (of_engine (pr_conversation_id p) (pr_run_id p)) es)
    \<and> store_ok (ev_codec v) (x_db (en_exec e')) \<and> extends_db (x_db (en_exec e)) (x_db (en_exec e'))
    \<and> (\<forall>k. k = pr_conversation_id p \<or> find_conversation k (x_db (en_exec e')) = find_conversation k (x_db (en_exec e)))"
  using assms(3)
proof (cases rule: engine_run_stages)
  case (refused err)
  then have "x_db (en_exec e') = x_db (en_exec e)" using end_run_Done[of "failed err" e] by auto
  then show ?thesis using assms(2) by (intro conjI exI[of _ "[]"]) simp_all
next
  case (waiting cl s)
  obtain k where "run_claimed v p inp (engine_start p (cl_head cl) (e\<lparr>en_exec := (en_exec e)\<lparr>x_db := s\<rparr>\<rparr>)) = (k, e')"
    using waiting(3) by (metis prod.collapse)
  note w = claimed_work[OF assms(1,2) waiting(1) this]
  obtain es where es: "x_db (en_exec e') = fold (store_step (ev_codec v))
      (ClaimRun (ev_clock v (length (x_sent (en_exec e)))) (prepared_run.truncate p) # es) (x_db (en_exec e))"
      "list_all (of_run (pr_conversation_id p) (pr_run_id p)) es" using w(1) by blast
  have "list_all (of_engine (pr_conversation_id p) (pr_run_id p))
      (ClaimRun (ev_clock v (length (x_sent (en_exec e)))) (prepared_run.truncate p) # es)"
    using es(2) by (auto simp: of_engine_def list_all_iff)
  then show ?thesis using es(1) w(2-4) by blast
next
  case (ended cl s e1 out)
  note w = claimed_work[OF assms(1,2) ended(1,2)]
  let ?e2 = "record_outcome v p out (ri_write_fails inp) e1"
  note r = record_outcome_spec[OF w(2,5), of out "ri_write_fails inp", unfolded recorded_def]
  have e': "x_db (en_exec e') = x_db (en_exec ?e2)" using end_run_Done[of out ?e2] ended(3) by auto
  obtain es where es: "x_db (en_exec e1) = fold (store_step (ev_codec v))
      (ClaimRun (ev_clock v (length (x_sent (en_exec e)))) (prepared_run.truncate p) # es) (x_db (en_exec e))"
      "list_all (of_run (pr_conversation_id p) (pr_run_id p)) es" using w(1) by blast
  obtain fs where fs: "x_db (en_exec ?e2) = fold (store_step (ev_codec v)) fs (x_db (en_exec e1))"
      "list_all (\<lambda>ev. \<exists>now st f. ev = FinishRun now (pr_run_id p) st f) fs" using r by blast
  let ?all = "(ClaimRun (ev_clock v (length (x_sent (en_exec e)))) (prepared_run.truncate p) # es) @ fs"
  have "x_db (en_exec e') = fold (store_step (ev_codec v)) ?all (x_db (en_exec e))" using es(1) fs(1) e' by simp
  moreover have "list_all (of_engine (pr_conversation_id p) (pr_run_id p)) ?all"
    using es(2) fs(2) by (auto simp: of_engine_def list_all_iff)
  moreover have "find_conversation k (x_db (en_exec e')) = find_conversation k (x_db (en_exec e))" if "k \<noteq> pr_conversation_id p" for k
    using r e' w(4) that owned_elsewhere[OF w(2,5) that] by simp
  ultimately show ?thesis using r e' w(3) extends_db_trans by metis
qed

text \<open>
  C4: a run that ends is on record. When the run could not be claimed the store is untouched and the failure is
  the outcome; otherwise, unless the database refuses all three writes, its row has the outcome as its status and failure
  (a bare failure when only the last write goes through) and it owns no conversation any more. The handle's phase is
  Ended, and the last thing the client is told is the outcome, unless it stopped listening.
\<close>
theorem ended_run_is_on_record:
  assumes "codec_ok (ev_codec v)" "store_ok (ev_codec v) (x_db (en_exec e))" "engine_run v p inp e = (Done out, e')"
  shows "en_phase e' = Ended
    \<and> (x_closes (en_exec e') = Some 0 \<or> (\<exists>l. x_sent (en_exec e') = l @ [RunEndedEvent out]))
    \<and> (case (claim_run (ev_codec v) (ev_clock v (length (x_sent (en_exec e)))) (prepared_run.truncate p) (x_db (en_exec e)),
             ri_write_fails inp) of
         (Inl err, _) \<Rightarrow> out = failed err \<and> x_db (en_exec e') = x_db (en_exec e)
       | (Inr _, (True, True, True)) \<Rightarrow>
           (\<exists>row. find_run (pr_run_id p) (x_db (en_exec e')) = Some row \<and> run_status row = RunRunning)
       | (Inr _, (first, second, third)) \<Rightarrow>
           (\<exists>row. find_run (pr_run_id p) (x_db (en_exec e')) = Some row
              \<and> (if first \<and> second then run_status row = RunFailed
                 else run_status row = run_status_of out
                   \<and> run_failure_category row = map_option fst (run_failure_of out)
                   \<and> run_failure_summary row = map_option snd (run_failure_of out)))
           \<and> (\<forall>k. \<not> owns k (pr_run_id p) (x_db (en_exec e'))))"
  using assms(3)
proof (cases rule: engine_run_stages)
  case (refused err)
  then show ?thesis using end_run_Done[of "failed err" e] by auto
next
  case (ended cl s e1 out')
  note w = claimed_work[OF assms(1,2) ended(1,2)]
  obtain a b d where f: "ri_write_fails inp = (a, b, d)" by (cases "ri_write_fails inp")
  let ?e2 = "record_outcome v p out' (ri_write_fails inp) e1"
  note r = record_outcome_spec[OF w(2,5), of out' "ri_write_fails inp", unfolded recorded_def]
  have e': "x_db (en_exec e') = x_db (en_exec ?e2)" "out' = out" "en_phase e' = Ended"
      "x_closes (en_exec e') = Some 0 \<or> (\<exists>l. x_sent (en_exec e') = l @ [RunEndedEvent out])"
    using end_run_Done[of out' ?e2] ended(3) by auto
  show ?thesis
  proof (cases "a \<and> b \<and> d")
    case True
    then have "x_db (en_exec e') = x_db (en_exec e1)" using r e' f by simp
    then show ?thesis using True e' f ended(1) owner_running[OF w(2,5)] by simp
  next
    case False
    then show ?thesis using r e' f ended(1) by (cases a; cases b; cases d) auto
  qed
qed simp


section \<open>What the provider and the client see\<close>

definition grows :: "exec \<Rightarrow> exec \<Rightarrow> bool" where "grows x y \<longleftrightarrow> prefix (x_sent x) (x_sent y)"

interpretation round_grows: round_effect grows c clock conv run for c clock conv run
proof
  show "grows x y \<Longrightarrow> grows y z \<Longrightarrow> grows x z" for x y z unfolding grows_def by (rule prefix_order.trans)
qed (auto intro!: frame_confined simp: grows_def emit_event_def wait_ready_def account_def reply_def in_store_def
    split: option.splits nat.splits list.splits sum.splits prod.splits)

definition made_calls :: "prompted_run \<Rightarrow> engine \<Rightarrow> engine \<Rightarrow> bool" where
  "made_calls p e e' \<longleftrightarrow> grows (en_exec e) (en_exec e') \<and> (en_phase e' = Ended \<longleftrightarrow> en_phase e = Ended)
     \<and> (\<exists>calls. en_requests e' = en_requests e @ calls \<and> list_all (in_the_name_of p) calls)"

lemma made_no_calls: "grows (en_exec e) (en_exec e') \<Longrightarrow> en_phase e' = en_phase e \<Longrightarrow> en_requests e' = en_requests e \<Longrightarrow> made_calls p e e'"
  by (simp add: made_calls_def)

lemma lift_grows: "confined grows m \<Longrightarrow> confined (made_calls p) (lift_exec m)"
  unfolding confined_def
proof
  fix e :: engine assume "\<forall>x. grows x (snd (m x))"
  then have "grows (en_exec e) (snd (m (en_exec e)))" by blast
  then show "made_calls p e (snd (lift_exec m e))"
    by (cases "m (en_exec e)") (auto simp: lift_exec_def intro!: made_no_calls)
qed

lemma in_store_grows: "confined grows (in_store clock f)"
  by (rule frame_confined) (simp add: in_store_def grows_def split: sum.split prod.split)

interpretation engine_calls: run_effect "made_calls p" v p for p v
proof
  show "made_calls p a b \<Longrightarrow> made_calls p b d \<Longrightarrow> made_calls p a d" for a b d
    unfolding made_calls_def grows_def by (elim conjE exE) (auto intro: prefix_order.trans)
  show "in_the_name_of p call \<Longrightarrow> made_calls p e
      (e\<lparr>en_requests := en_requests e @ [call], en_exec := (en_exec e)\<lparr>x_sent := x_sent (en_exec e) @ l\<rparr>\<rparr>)" for e call l
    by (simp add: made_calls_def grows_def)
qed (simp_all only: tell_def transact_def, (auto simp: made_calls_def grows_def quiet_def; fail)?,
  (intro lift_grows in_store_grows round_grows.emits round_grows.waits
     round_grows.append_batches_effect round_grows.execute_effect | simp add: made_calls_def grows_def quiet_def)+)

lemma record_outcome_calls:
  "en_requests (record_outcome v p out fails e) = en_requests e \<and> x_sent (en_exec (record_outcome v p out fails e)) = x_sent (en_exec e)"
  by (auto simp: record_outcome_def write_outcome_def split: option.splits sum.splits if_splits)

lemma last_of_history:
  "h = [] \<or> pm_role (last h) \<noteq> RAssistant \<longleftrightarrow> (case rev h of [] \<Rightarrow> True | m # _ \<Rightarrow> pm_role m \<noteq> RAssistant)"
  by (cases h rule: rev_cases) simp_all

text \<open>
  C16: what a run asks of the provider. Every call it makes is in its own name; a chat call has the run's
  prompt, tools and model and a history that does not end with an assistant message, and is made only by a run
  that is not a compaction; a summary call offers no tools and switches thinking off. What the client was sent is never
  taken back.
\<close>
theorem engine_asks_in_its_own_name:
  "case engine_run v p inp e of (r, e') \<Rightarrow>
     prefix (x_sent (en_exec e)) (x_sent (en_exec e'))
     \<and> (\<exists>calls. en_requests e' = en_requests e @ calls
          \<and> list_all (\<lambda>call. mv_run call = pr_run_id p \<and> mv_conversation call = pr_conversation_id p
               \<and> (case mv_purpose call of
                    ChatCall \<Rightarrow> pr_action p \<noteq> CompactAction
                      \<and> mq_prompt (mv_request call) = pr_prompt p \<and> mq_model (mv_request call) = pr_model p
                      \<and> (case rev (mq_history (mv_request call)) of [] \<Rightarrow> True | m # _ \<Rightarrow> pm_role m \<noteq> RAssistant)
                  | CompactionSummaryCall \<Rightarrow> ps_tools (mq_prompt (mv_request call)) = []
                      \<and> rs_enabled (ms_reasoning (mq_model (mv_request call))) = Some False)) calls)"
proof -
  obtain r e' where run: "engine_run v p inp e = (r, e')" by force
  have start: "made_calls p (engine_start p h (e\<lparr>en_exec := (en_exec e)\<lparr>x_db := s\<rparr>\<rparr>)) e1 \<Longrightarrow>
      prefix (x_sent (en_exec e)) (x_sent (en_exec e1)) \<and> (\<exists>calls. en_requests e1 = en_requests e @ calls \<and> list_all (in_the_name_of p) calls)"
    for h s e1 by (auto simp: made_calls_def grows_def engine_start_def)
  have work: "made_calls p (engine_start p h e0) (snd (run_claimed v p inp (engine_start p h e0)))" for h e0
    using engine_calls.run_claimed_held[of p v inp]
    by (auto simp: confined_def held_def engine_start_def same_run_def)
  have "prefix (x_sent (en_exec e)) (x_sent (en_exec e'))
      \<and> (\<exists>calls. en_requests e' = en_requests e @ calls \<and> list_all (in_the_name_of p) calls)"
    using run
  proof (cases rule: engine_run_stages)
    case (refused err)
    then show ?thesis using end_run_Done[of "failed err" e] by auto
  next
    case (waiting cl s)
    then show ?thesis using start work by metis
  next
    case (ended cl s e1 out)
    have "made_calls p (engine_start p (cl_head cl) (e\<lparr>en_exec := (en_exec e)\<lparr>x_db := s\<rparr>\<rparr>)) e1"
      using work[of "cl_head cl" "e\<lparr>en_exec := (en_exec e)\<lparr>x_db := s\<rparr>\<rparr>"] ended(2) by simp
    note st = start[OF this]
    let ?e2 = "record_outcome v p out (ri_write_fails inp) e1"
    have "en_requests e' = en_requests e1" "prefix (x_sent (en_exec e1)) (x_sent (en_exec e'))"
      using end_run_Done[of out ?e2] ended(3) record_outcome_calls[of v p out "ri_write_fails inp" e1] by auto
    then show ?thesis using st prefix_order.trans by metis
  qed
  then show ?thesis
    unfolding run prod.case in_the_name_of_def asks_def asks_summary_def asks_answer_def last_of_history
    by (elim conjE exE) (auto simp: list_all_iff split: call_purpose.splits)
qed

end
