(* ===== verification/EngineDemo.thy ===== *)
theory EngineDemo
  imports EngineLaws
begin

text \<open>
  A small run worked out: claimed on a fresh conversation, one call answered with a text, finished; and the
  properties of runs at it.
\<close>

section \<open>A small run\<close>

definition demo_prompted :: prompted_run where
  "demo_prompted =
     \<lparr>pr_run_id = ''r'', pr_cursor_request_id = None, pr_conversation_id = ''c'', pr_kind = RootRun,
      pr_model = \<lparr>ms_model_id = ''m'', ms_display_name = None,
        ms_reasoning = \<lparr>rs_enabled = None, rs_effort = None, rs_thinking_budget = None\<rparr>,
        ms_max_output_tokens = None, ms_context_window_tokens = None\<rparr>,
      pr_initial_messages = [], pr_action = StartAction,
      pr_base_checkpoint = CheckpointId 1, pr_prompt = \<lparr>ps_instructions = [], ps_tools = []\<rparr>\<rparr>"

definition demo_env :: engine_env where
  "demo_env = \<lparr>ev_codec = unary_codec, ev_clock = int, ev_parse = (\<lambda>t. Inr (JObj [])), ev_render = (\<lambda>j. []),
     ev_instructions = [], ev_model = (\<lambda>h. Inr None),
     ev_blobs = \<lparr>decode64 = (\<lambda>t. Inr []), encode64 = (\<lambda>b. []), get_blob = (\<lambda>b. Inr None)\<rparr>,
     ev_policy = \<lparr>bw_poll = 1, bw_completion_grace = 5, bw_idle_timeout = 100, bw_ceiling = 1000, bw_heartbeat = 2, bw_progress_log = 10\<rparr>\<rparr>"

definition item :: "model_event \<Rightarrow> call_reading" where
  "item ev = ItemArrives \<lparr>rd_input = CItem (Inr ev), rd_now = 0, rd_open = True\<rparr>"

definition no_compaction :: compaction_input where "no_compaction = \<lparr>ci_archive = None, ci_calls = []\<rparr>"

definition demo_attempt :: attempt_input where
  "demo_attempt = \<lparr>ai_call = [item (EStart ''x''), item ETextStart, item (ETextDelta ''ok''), item ETextEnd, item (EDone FStop), ItemArrives \<lparr>rd_input = CEnd False, rd_now = 0, rd_open = True\<rparr>],
     ai_cancelled = False, ai_compaction = no_compaction, ai_delay = []\<rparr>"

definition demo_turn :: turn_input where
  "demo_turn = \<lparr>ti_cancelled = False, ti_preflight = no_compaction, ti_attempts = [demo_attempt], ti_archive = None,
     ti_children = Inr False, ti_wait_start = (0, 0), ti_wait = [], ti_drain = ([], True), ti_round = (0, [])\<rparr>"

definition demo_input :: run_input where
  "demo_input = \<lparr>ri_anchor = Inr None, ri_settings = Inr (compaction_defaults\<lparr>cs_auto := False\<rparr>), ri_resume = (0, []),
     ri_turns = [demo_turn], ri_write_fails = (False, False, False)\<rparr>"

definition demo_db :: db where "demo_db = store_step unary_codec (EnsureConversation ''c'') db_empty"

definition demo_engine :: engine where
  "demo_engine = \<lparr>en_exec = \<lparr>x_db = demo_db, x_sent = [], x_closes = None, x_ready = [ReadyOk], x_replies = [], x_accounted = {}\<rparr>,
     en_phase = Running, en_requests = [], en_images = Map.empty, en_checkpoint = CheckpointId 0, en_usage = None,
     en_anchor = None, en_run = demo_prompted, en_overflow = 0, en_detail_retry = False, en_short_summary = None\<rparr>"

lemmas engine_eval = act_defs gets_def modify_def must_def query_def transact_def lift_exec_def tell_def tell_quietly_def
  commit_and_wait_def move_to_def insert_batches_def current_messages_def add_usage_def report_usage_def
  port_begin_finalizing_def port_resume_running_def port_finish_def insert_some_def

lemma demo_claim:
  "claim_run unary_codec 0 (prepared_run.truncate demo_prompted) demo_db =
     Inr (\<lparr>cl_run = ''r'', cl_conversation = ''c'', cl_head = CheckpointId 1, cl_replaced = None\<rparr>, claimed_db\<lparr>runs_t := [new_run_row 0 (start_run ''r'' ''c'' 1)]\<rparr>)"
  by (simp add: demo_db_def demo_prompted_def prepared_run.defs db_empty_def claimed_db_value store_eval Let_def)

lemma demo_call:
  "model_call demo_env True running_refusal call (ai_call demo_attempt) [] e
   = (Done (CallOver (Inr \<lparr>cr_model_call_id = ''x'', cr_text = ''ok'', cr_reasoning = [], cr_replay = None, cr_calls = [],
        cr_usage = None, cr_finish = FStop\<rparr>), []),
      e\<lparr>en_requests := en_requests e @ [call],
        en_exec := (en_exec e)\<lparr>x_sent := x_sent (en_exec e) @ [RTextStart, RTextDelta ''ok'', RTextEnd]\<rparr>\<rparr>)"
  by (simp add: model_call_def demo_env_def demo_attempt_def item_def Let_def cycle_turn_def on_event_def cycle_new_def send_def finish_cycle_def)


definition demo_answer :: message where
  "demo_answer = assistant_message demo_prompted 0 ''ok'' [] None"

lemma demo_db_steps:
  defines "row \<equiv> new_run_row 0 (start_run ''r'' ''c'' 1)"
  shows "load_checkpoint_messages unary_codec (CheckpointId 1) (claimed_db\<lparr>runs_t := [row]\<rparr>) = Inr []"
    "begin_provider_call now ''r'' (claimed_db\<lparr>runs_t := [row]\<rparr>)
       = Inr (0, claimed_db\<lparr>runs_t := [row\<lparr>run_call_index := 0, run_updated := now\<rparr>]\<rparr>)"
  by (simp_all add: row_def claimed_db_value load_checkpoint_messages_def checkpoint_rows_def lineage_def joined_messages_def
      checkpoint_own_rows_def begin_provider_call_def new_run_row_def start_run_def run_kind_columns_def)

lemma demo_append:
  "\<exists>s'. append_checkpoint unary_codec ''c'' ''r'' (CheckpointId 1) [demo_answer]
     (claimed_db\<lparr>runs_t := [(new_run_row 0 (start_run ''r'' ''c'' 1))\<lparr>run_call_index := 0, run_updated := now\<rparr>]\<rparr>) = Inr (CheckpointId 2, s')
     \<and> find_run ''r'' s' = Some ((new_run_row 0 (start_run ''r'' ''c'' 1))\<lparr>run_call_index := 0, run_updated := now, run_head := 2\<rparr>)"
  by (simp add: claimed_db_value store_eval Let_def demo_answer_def assistant_message_def)


lemma demo_request:
  "turn_request demo_env demo_prompted settings [] [] 0 e
   = (Done (\<lparr>tf_index = 0, tf_messages = [], tf_anchored = 0, tf_calibration = 1, tf_target = None, tf_minimum = 0\<rparr>,
        \<lparr>mq_prompt = pr_prompt demo_prompted, mq_model = pr_model demo_prompted, mq_history = []\<rparr>), e)"
  if "en_images e = Map.empty"
  using that
  by (simp add: turn_request_def demo_prompted_def engine_eval Let_def hydrate_request_def user_terminated_def
      cycle_model_def)

definition demo_cycle :: model_cycle_result where
  "demo_cycle = \<lparr>cr_model_call_id = ''x'', cr_text = ''ok'', cr_reasoning = [], cr_replay = None, cr_calls = [],
        cr_usage = None, cr_finish = FStop\<rparr>"

definition demo_invocation :: model_invocation where
  "demo_invocation = engine_invocation demo_prompted ChatCall ''r:0'' 0
     \<lparr>mq_prompt = pr_prompt demo_prompted, mq_model = pr_model demo_prompted, mq_history = []\<rparr>"

lemma demo_attempts:
  "attempts demo_env demo_prompted settings f [demo_attempt]
     \<lparr>as_retries = 0, as_sequence = 0, as_pending = [], as_request =
       \<lparr>mq_prompt = pr_prompt demo_prompted, mq_model = pr_model demo_prompted, mq_history = []\<rparr>\<rparr> e
   = (Done (Some (demo_cycle, [])),
       (e\<lparr>en_requests := en_requests e @ [demo_invocation],
        en_exec := (en_exec e)\<lparr>x_sent := x_sent (en_exec e) @ [RTextStart, RTextDelta ''ok'', RTextEnd]\<rparr>\<rparr>)\<lparr>en_overflow := model_call_succeeded (en_overflow e)\<rparr>)"
  if "tf_index f = 0"
proof -
  have c: "(pr_action demo_prompted = CompactAction) = False" "pr_run_id demo_prompted = ''r''" by (simp_all add: demo_prompted_def)
  have zero: "show_nat 0 = ''0''" by code_simp
  show ?thesis using that
    by (simp add: attempt_def attempts.simps c Let_def u32_limit_def attempt_call_id_def zero
       call_succeeded_def demo_call abind_def gets_def modify_def areturn_def demo_cycle_def demo_invocation_def)
qed


lemma demo_run_completes:
  "\<exists>e'. engine_run demo_env demo_prompted demo_input demo_engine = (Done Completed, e')
     \<and> en_requests e' = [demo_invocation]"
proof -
  obtain s' where ap: "append_checkpoint unary_codec ''c'' ''r'' (CheckpointId 1) [demo_answer]
     (claimed_db\<lparr>runs_t := [(new_run_row 0 (start_run ''r'' ''c'' 1))\<lparr>run_call_index := 0, run_updated := 0\<rparr>]\<rparr>) = Inr (CheckpointId 2, s')"
     and row: "find_run ''r'' s' = Some ((new_run_row 0 (start_run ''r'' ''c'' 1))\<lparr>run_call_index := 0, run_updated := 0, run_head := 2\<rparr>)"
    using demo_append[of 0] by blast
  obtain b s'' where fin: "finish_run 4 ''r'' RunCompleted None s' = Inr (b, s'')"
    using row by (simp add: finish_run_def Let_def)
  have p: "pr_run_id demo_prompted = ''r''" "pr_conversation_id demo_prompted = ''c''" "pr_action demo_prompted = StartAction"
      "pr_initial_messages demo_prompted = []"
    by (simp_all add: demo_prompted_def)
  have v: "ev_codec demo_env = unary_codec" "ev_clock demo_env = int" by (simp_all add: demo_env_def)
  have inp: "ri_anchor demo_input = Inr None" "ri_settings demo_input = Inr (compaction_defaults\<lparr>cs_auto := False\<rparr>)"
      "ri_turns demo_input = [demo_turn]" "ri_write_fails demo_input = (False, False, False)"
    by (simp_all add: demo_input_def)
  have t: "ti_cancelled demo_turn = False" "ti_attempts demo_turn = [demo_attempt]" "ti_children demo_turn = Inr False"
      "ti_drain demo_turn = ([], True)"
    by (simp_all add: demo_turn_def)
  have cyc: "cr_usage demo_cycle = None" "cr_calls demo_cycle = []" "cr_text demo_cycle = ''ok''" "cr_reasoning demo_cycle = []"
      "cr_replay demo_cycle = None" by (simp_all add: demo_cycle_def)
  show ?thesis
    by (simp add: engine_run_def v demo_engine_def demo_claim p inp t engine_start_def run_claimed_def commit_initial_def
      append_initial_def resume_round_def engine_eval demo_db_steps model_turn_def preflight_estimate_def
      demo_request demo_attempts cyc finish_turn_def append_assistant_def ap[unfolded demo_answer_def]
      wait_for_children_def closing_insertions_def commit_event_def run_status_of_def run_failure_of_def
      record_outcome_def write_outcome_def fin end_run_def del: attempts.simps)
qed

section \<open>Witnesses\<close>

lemma demo_engine_ok: "codec_ok (ev_codec demo_env)" "store_ok (ev_codec demo_env) (x_db (en_exec demo_engine))"
proof -
  have v: "ev_codec demo_env = unary_codec" "x_db (en_exec demo_engine) = demo_db" by (simp_all add: demo_env_def demo_engine_def)
  show "codec_ok (ev_codec demo_env)" "store_ok (ev_codec demo_env) (x_db (en_exec demo_engine))"
    using store_step_ok[OF unary_codec_ok db_empty_ok] unary_codec_ok unfolding v demo_db_def by blast+
qed

lemma engine_keeps_to_its_conversation_witness:
  "\<exists>r e'. engine_run demo_env demo_prompted demo_input demo_engine = (r, e') \<and> r = Done Completed
     \<and> store_ok unary_codec (x_db (en_exec e')) \<and> find_conversation ''d'' (x_db (en_exec e')) = find_conversation ''d'' demo_db"
proof -
  obtain e' where e: "engine_run demo_env demo_prompted demo_input demo_engine = (Done Completed, e')"
    using demo_run_completes by blast
  have v: "ev_codec demo_env = unary_codec" "x_db (en_exec demo_engine) = demo_db" "pr_conversation_id demo_prompted = ''c''"
    by (simp_all add: demo_env_def demo_engine_def demo_prompted_def)
  have k: "store_ok unary_codec (x_db (en_exec e'))"
      "\<forall>k. k = ''c'' \<or> find_conversation k (x_db (en_exec e')) = find_conversation k demo_db"
    using engine_keeps_to_its_conversation[OF demo_engine_ok e] unfolding v by blast+
  then have "find_conversation ''d'' (x_db (en_exec e')) = find_conversation ''d'' demo_db"
    using spec[OF k(2), of "''d''"] by simp
  then show ?thesis using k(1) e by blast
qed

lemma ended_run_is_on_record_witness:
  "\<exists>e' row. engine_run demo_env demo_prompted demo_input demo_engine = (Done Completed, e')
     \<and> find_run ''r'' (x_db (en_exec e')) = Some row \<and> run_status row = RunCompleted \<and> \<not> owns ''c'' ''r'' (x_db (en_exec e'))
     \<and> en_phase e' = Ended"
proof -
  obtain e' where e: "engine_run demo_env demo_prompted demo_input demo_engine = (Done Completed, e')"
    using demo_run_completes by blast
  have v: "ev_codec demo_env = unary_codec" "ev_clock demo_env = int" "x_db (en_exec demo_engine) = demo_db"
    "x_sent (en_exec demo_engine) = []" "ri_write_fails demo_input = (False, False, False)" "pr_run_id demo_prompted = ''r''"
    by (simp_all add: demo_env_def demo_engine_def demo_input_def demo_prompted_def)
  then show ?thesis
    using ended_run_is_on_record[OF demo_engine_ok e] e demo_claim by (auto simp: run_status_of_def)
qed

end
