(* ===== verification/EngineHistory.thy ===== *)
theory EngineHistory
  imports EngineDemo
begin

text \<open>
  What holds between the engine's actions: the checkpoint it holds is the current one of its conversation. A Hoare logic
  of actions (\<open>leads\<close>) carries this through every turn, up to how a completed run leaves its conversation.
\<close>

section \<open>No part of a round completes the run\<close>

definition goes_on :: "('s, 'a) action \<Rightarrow> bool" where
  "goes_on m \<longleftrightarrow> (\<forall>x. fst (m x) \<noteq> Stop Completed)"

lemma goes_on_basics:
  "goes_on (areturn a)" "out \<noteq> Completed \<Longrightarrow> goes_on (astop out)" "goes_on awaiting"
  by (simp_all add: goes_on_def areturn_def astop_def awaiting_def)

lemma goes_on_bind: "goes_on m \<Longrightarrow> (\<And>a. goes_on (f a)) \<Longrightarrow> goes_on (abind m f)"
  unfolding goes_on_def
proof
  fix x assume m: "\<forall>x. fst (m x) \<noteq> Stop Completed" and f: "\<And>a. \<forall>x. fst (f a x) \<noteq> Stop Completed"
  obtain r y where "m x = (r, y)" by force
  then show "fst (abind m f x) \<noteq> Stop Completed" using m f by (cases r) (auto simp: abind_def dest: spec[of _ x])
qed

lemma goes_on_cases:
  "(b \<Longrightarrow> goes_on m) \<Longrightarrow> (\<not> b \<Longrightarrow> goes_on n) \<Longrightarrow> goes_on (if b then m else n)"
  "(o' = None \<Longrightarrow> goes_on m) \<Longrightarrow> (\<And>a. o' = Some a \<Longrightarrow> goes_on (f a)) \<Longrightarrow> goes_on (case o' of None \<Rightarrow> m | Some a \<Rightarrow> f a)"
  "(\<And>a b. q = (a, b) \<Longrightarrow> goes_on (g a b)) \<Longrightarrow> goes_on (case q of (a, b) \<Rightarrow> g a b)"
  by (simp_all split: option.split prod.split)

lemma client_failure_not_completed [simp]: "client_failure \<noteq> Completed" "failed err \<noteq> Completed"
  by (simp_all add: client_failure_def failed_def)

lemma wait_for_state_ready_out: "wait_for_state_ready s = Inl out \<Longrightarrow> out \<noteq> Completed"
  by (cases s) auto

lemma goes_on_elements:
  "goes_on (emit_event ev)" "goes_on wait_ready" "goes_on (account cid)" "goes_on (reply i r)" "goes_on (in_store clock f)"
  by (auto simp: goes_on_def emit_event_def wait_ready_def account_def reply_def in_store_def dest: wait_for_state_ready_out
      split: option.split nat.split list.split sum.split prod.split)

lemmas goes = goes_on_basics goes_on_bind goes_on_cases goes_on_elements

lemma announce_goes: "goes_on (announce ms)"
  by (induction ms rule: announce.induct) (auto intro!: goes)

lemma append_batch_goes: "goes_on (append_batch c clock conv run cp b)"
  unfolding append_batch_def Let_def by (intro goes announce_goes) simp_all

lemma append_batches_goes: "goes_on (append_batches c clock conv run cp bs)"
proof (induction bs arbitrary: cp)
  case (Cons b bs)
  show ?case unfolding append_batches.simps by (intro goes append_batch_goes Cons)
qed (simp add: goes)

lemma commit_result_goes: "goes_on (commit_result c clock conv run rid i r)"
  unfolding commit_result_def by (intro goes)

lemma await_results_goes: "goes_on (await_results c clock conv run rid deadline ts l)"
proof (induction ts arbitrary: l)
  case (Cons t ts)
  show ?case unfolding await_results.simps Let_def
    by (auto split: queued.split run_command.split intro!: goes commit_result_goes Cons)
qed (simp add: goes)

lemma interrupt_calls_goes: "goes_on (interrupt_calls c clock conv run rid reason ks cp)"
  by (induction ks arbitrary: cp) (auto intro!: goes commit_result_goes)

lemma execute_goes: "goes_on (execute c clock conv run base rd insertions start ts)"
  unfolding execute_def start_round_def interrupt_remaining_def
  by (intro goes await_results_goes interrupt_calls_goes append_batches_goes)


section \<open>What holds between the engine's actions\<close>

text \<open>
  The state between two actions of a claimed run: its conversation is its own, and the checkpoint the engine
  holds is the conversation's current one, with the given history.
\<close>

definition stands_at :: "engine_env \<Rightarrow> prompted_run \<Rightarrow> message list \<Rightarrow> engine \<Rightarrow> bool" where
  "stands_at v p hist e \<longleftrightarrow> codec_ok (ev_codec v) \<and> same_run p (en_run e)
     \<and> stands (ev_codec v) (pr_conversation_id p) (pr_run_id p) (en_checkpoint e) hist (x_db (en_exec e))"

definition between :: "engine_env \<Rightarrow> prompted_run \<Rightarrow> engine \<Rightarrow> bool" where
  "between v p e \<longleftrightarrow> (\<exists>hist. stands_at v p hist e)"

text \<open>From a state in I the action returns to one in Q, or completes the run in one in C.\<close>

definition leads :: "(engine \<Rightarrow> bool) \<Rightarrow> 'a eact \<Rightarrow> ('a \<Rightarrow> engine \<Rightarrow> bool) \<Rightarrow> (engine \<Rightarrow> bool) \<Rightarrow> bool" where
  "leads I m Q C \<longleftrightarrow> (\<forall>e. I e \<longrightarrow> (case m e of
     (Waiting, _) \<Rightarrow> True | (Stop out, e') \<Rightarrow> out = Completed \<longrightarrow> C e' | (Done a, e') \<Rightarrow> Q a e'))"

abbreviation keeps :: "engine_env \<Rightarrow> prompted_run \<Rightarrow> (engine \<Rightarrow> bool) \<Rightarrow> 'a eact \<Rightarrow> bool" where
  "keeps v p C m \<equiv> leads (between v p) m (\<lambda>_. between v p) C"

lemma leadsI:
  assumes "\<And>e a e'. I e \<Longrightarrow> m e = (Done a, e') \<Longrightarrow> Q a e'" "\<And>e e'. I e \<Longrightarrow> m e = (Stop Completed, e') \<Longrightarrow> C e'"
  shows "leads I m Q C"
  unfolding leads_def
proof (intro allI impI)
  fix e assume "I e"
  obtain r y where "m e = (r, y)" by force
  then show "case m e of (Waiting, _) \<Rightarrow> True | (Stop out, e') \<Rightarrow> out = Completed \<longrightarrow> C e' | (Done a, e') \<Rightarrow> Q a e'"
    using assms \<open>I e\<close> by (cases r) auto
qed

lemma leadsD:
  assumes "leads I m Q C" "I e"
  shows "m e = (Done a, e') \<Longrightarrow> Q a e'" "m e = (Stop Completed, e') \<Longrightarrow> C e'"
  using assms(1)[unfolded leads_def, rule_format, OF assms(2)] by simp_all

lemma abind_stops: "abind m f e = (Stop out, e') \<longleftrightarrow> m e = (Stop out, e') \<or> (\<exists>a y. m e = (Done a, y) \<and> f a y = (Stop out, e'))"
  by (cases "m e"; cases "fst (m e)") (auto simp: abind_def)

lemma leads_bind:
  assumes m: "leads I m R C" and f: "\<And>a. leads (R a) (f a) Q C"
  shows "leads I (abind m f) Q C"
proof (rule leadsI)
  fix e b e' assume i: "I e" and d: "abind m f e = (Done b, e')"
  obtain a y where a: "m e = (Done a, y)" "f a y = (Done b, e')" using d by auto
  show "Q b e'" by (rule leadsD(1)[OF f leadsD(1)[OF m i a(1)] a(2)])
next
  fix e e' assume i: "I e" and d: "abind m f e = (Stop Completed, e')"
  consider "m e = (Stop Completed, e')" | a y where "m e = (Done a, y)" "f a y = (Stop Completed, e')"
    using d unfolding abind_stops by blast
  then show "C e'"
  proof cases
    case 1
    show ?thesis by (rule leadsD(2)[OF m i 1])
  next
    case 2
    show ?thesis by (rule leadsD(2)[OF f leadsD(1)[OF m i 2(1)] 2(2)])
  qed
qed

lemma leads_conseq:
  assumes "leads I m Q C" "\<And>e. I' e \<Longrightarrow> I e" "\<And>a e. Q a e \<Longrightarrow> Q' a e"
  shows "leads I' m Q' C"
  by (rule leadsI) (rule assms(3), erule leadsD(1)[OF assms(1) assms(2)], assumption, erule leadsD(2)[OF assms(1) assms(2)])

lemma leads_each:
  assumes "\<And>h. leads (I h) m Q C"
  shows "leads (\<lambda>e. \<exists>h. I h e) m Q C"
  by (rule leadsI; elim exE) (erule leadsD(1)[OF assms], assumption, erule leadsD(2)[OF assms])

lemma leads_basics:
  "leads (Q a) (areturn a) Q C" "out \<noteq> Completed \<Longrightarrow> leads I (astop out) Q C" "leads I awaiting Q C"
  by (simp_all add: leads_def areturn_def astop_def awaiting_def)

lemma leads_cases:
  "(b \<Longrightarrow> leads I m Q C) \<Longrightarrow> (\<not> b \<Longrightarrow> leads I n Q C) \<Longrightarrow> leads I (if b then m else n) Q C"
  "(o' = None \<Longrightarrow> leads I m Q C) \<Longrightarrow> (\<And>a. o' = Some a \<Longrightarrow> leads I (f a) Q C) \<Longrightarrow> leads I (case o' of None \<Rightarrow> m | Some a \<Rightarrow> f a) Q C"
  "(\<And>a. s = Inl a \<Longrightarrow> leads I (k a) Q C) \<Longrightarrow> (\<And>b. s = Inr b \<Longrightarrow> leads I (l b) Q C) \<Longrightarrow> leads I (case s of Inl a \<Rightarrow> k a | Inr b \<Rightarrow> l b) Q C"
  "(\<And>a b. q = (a, b) \<Longrightarrow> leads I (g a b) Q C) \<Longrightarrow> leads I (case q of (a, b) \<Rightarrow> g a b) Q C"
  by (simp_all split: option.split prod.split sum.split)

text \<open>Actions that leave the database, the checkpoint and the run as they are.\<close>

definition aside :: "engine \<Rightarrow> engine \<Rightarrow> bool" where
  "aside e e' \<longleftrightarrow> x_db (en_exec e') = x_db (en_exec e) \<and> en_checkpoint e' = en_checkpoint e \<and> same_run (en_run e) (en_run e')"

lemma stands_aside: "stands_at v p h e \<Longrightarrow> aside e e' \<Longrightarrow> stands_at v p h e'"
  by (simp add: stands_at_def aside_def same_run_def)

lemma leads_aside:
  "(\<And>e. aside e (snd (m e)) \<and> fst (m e) \<noteq> Stop Completed) \<Longrightarrow> leads (stands_at v p h) m (\<lambda>_. stands_at v p h) C"
proof (rule leadsI)
  fix e a e' assume m: "\<And>e. aside e (snd (m e)) \<and> fst (m e) \<noteq> Stop Completed" and e: "stands_at v p h e"
  show "m e = (Done a, e') \<Longrightarrow> stands_at v p h e'" using stands_aside[OF e, of e'] m[of e] by simp
  show "m e = (Stop Completed, e') \<Longrightarrow> C e'" using m[of e] by simp
qed

lemma keeps_hist:
  assumes "\<And>h. leads (stands_at v p h) m (\<lambda>_. stands_at v p h) C"
  shows "keeps v p C m"
proof (rule leads_conseq)
  show "leads (\<lambda>e. \<exists>h. stands_at v p h e) m (\<lambda>_ e. \<exists>h. stands_at v p h e) C"
    by (rule leads_each, rule leads_conseq[OF assms]) blast+
qed (simp_all add: between_def)


section \<open>Elementary actions\<close>

lemma keeps_aside: "(\<And>e. aside e (snd (m e)) \<and> fst (m e) \<noteq> Stop Completed) \<Longrightarrow> keeps v p C m"
  by (rule keeps_hist, rule leads_aside)

lemma aside_refl [simp]: "aside e e"
  by (simp add: aside_def same_run_def)

lemma aside_exec: "x_db x = x_db (en_exec e) \<Longrightarrow> aside e (e\<lparr>en_exec := x\<rparr>)"
  by (simp add: aside_def same_run_def)

lemma lift_frame:
  assumes "\<And>x. x_db (snd (m x)) = x_db x" "goes_on m"
  shows "aside e (snd (lift_exec m e)) \<and> fst (lift_exec m e) \<noteq> Stop Completed"
  using assms(2) assms(1)[of "en_exec e"] by (auto simp: lift_exec_def goes_on_def intro!: aside_exec split: prod.split)
    (metis fst_conv)

lemma aside_actions:
  "aside e (snd (gets g e)) \<and> fst (gets g e) \<noteq> Stop Completed"
  "aside e (snd (must r e)) \<and> fst (must r e) \<noteq> Stop Completed"
  "aside e (snd (unless_it_spins q e)) \<and> fst (unless_it_spins q e) \<noteq> Stop Completed"
  "aside e (snd (tell ev e)) \<and> fst (tell ev e) \<noteq> Stop Completed"
  "aside e (snd (tell_quietly ev e)) \<and> fst (tell_quietly ev e) \<noteq> Stop Completed"
  "aside e (snd (lift_exec wait_ready e)) \<and> fst (lift_exec wait_ready e) \<noteq> Stop Completed"
proof -
  show t: "aside e (snd (tell ev e)) \<and> fst (tell ev e) \<noteq> Stop Completed"
    unfolding tell_def by (rule lift_frame) (auto simp: emit_event_def goes_on_elements split: option.split nat.split)
  show "aside e (snd (tell_quietly ev e)) \<and> fst (tell_quietly ev e) \<noteq> Stop Completed"
    using t by (simp add: tell_quietly_def)
  show "aside e (snd (lift_exec wait_ready e)) \<and> fst (lift_exec wait_ready e) \<noteq> Stop Completed"
    by (rule lift_frame) (auto simp: wait_ready_def goes_on_elements split: list.split sum.split)
qed (simp_all add: gets_def must_def unless_it_spins_def astop_def areturn_def awaiting_def split: sum.split option.split)

lemma aside_modify: "(\<And>e. aside e (f e)) \<Longrightarrow> aside e (snd (modify f e)) \<and> fst (modify f e) \<noteq> Stop Completed"
  by (simp add: modify_def)

lemma aside_hydrate: "aside e (snd (hydrate_request v h e)) \<and> fst (hydrate_request v h e) \<noteq> Stop Completed"
  by (auto simp: hydrate_request_def must_def astop_def areturn_def aside_def same_run_def split: prod.split sum.split)

lemma aside_model_call:
  "aside e (snd (model_call v client refusal call rs pending e)) \<and> fst (model_call v client refusal call rs pending e) \<noteq> Stop Completed"
  by (auto simp: model_call_def Let_def aside_def same_run_def split: prod.split option.split)

lemma run_call_stops: "run_call parse client acc refusal rs s pending = (Some (CallStopped out), s', pending') \<Longrightarrow> out \<noteq> Completed"
  by (induction parse client acc refusal rs s pending rule: run_call.induct)
    (auto simp: await_cancelled_def split: option.splits run_command.splits prod.splits if_splits)

lemma model_call_stops: "model_call v client refusal call rs pending e = (Done (CallStopped out, pending'), e') \<Longrightarrow> out \<noteq> Completed"
  by (auto simp: model_call_def Let_def dest: run_call_stops split: prod.splits option.splits)

lemma retry_delay_stops: "retry_delay acc rs pending = Some (DelayStopped told out, pending') \<Longrightarrow> out \<noteq> Completed"
  by (induction acc rs pending rule: retry_delay.induct) (auto split: option.splits run_command.splits if_splits)

lemma drain_stops: "drain_accepted cs q = Inl out \<Longrightarrow> out \<noteq> Completed"
  by (induction cs q rule: drain_accepted.induct) (auto split: if_splits elim!: rbind.elims)

lemma aside_states:
  "aside e (e\<lparr>en_overflow := n\<rparr>)" "aside e (e\<lparr>en_anchor := a\<rparr>)" "aside e (e\<lparr>en_anchor := a, en_overflow := n\<rparr>)"
  "aside e (e\<lparr>en_short_summary := s, en_detail_retry := b\<rparr>)" "aside e (learn_window settings refusal problem e)"
  "aside e (case u of None \<Rightarrow> e | Some u \<Rightarrow> e\<lparr>en_usage := g u\<rparr>)" "aside e (case u of None \<Rightarrow> e | Some u \<Rightarrow> e\<lparr>en_anchor := g' u\<rparr>)"
  "aside e (e\<lparr>en_phase := ph\<rparr>)"
  by (auto simp: aside_def same_run_def learn_window_def split: option.split)

text \<open>A rule for each elementary action, with the history kept.\<close>

lemmas stays_actions = aside_actions[THEN leads_aside] aside_hydrate[THEN leads_aside] aside_model_call[THEN leads_aside]
  aside_modify[OF aside_states(1), THEN leads_aside] aside_modify[OF aside_states(2), THEN leads_aside]
  aside_modify[OF aside_states(3), THEN leads_aside] aside_modify[OF aside_states(4), THEN leads_aside]
  aside_modify[OF aside_states(5), THEN leads_aside] aside_modify[OF aside_states(6), THEN leads_aside]
  aside_modify[OF aside_states(7), THEN leads_aside] aside_modify[OF aside_states(8), THEN leads_aside]

lemmas keeps_actions = stays_actions[THEN keeps_hist]


section \<open>Writing to the store\<close>

lemma transact_goes: "fst (transact v f e) \<noteq> Stop Completed"
  by (simp add: transact_def lift_exec_def in_store_def failed_def split: prod.split sum.split)

lemma transact_Done: "transact v f e = (Done a, e') \<longleftrightarrow>
    (\<exists>s. f (ev_clock v (length (x_sent (en_exec e)))) (x_db (en_exec e)) = Inr (a, s) \<and> e' = e\<lparr>en_exec := (en_exec e)\<lparr>x_db := s\<rparr>\<rparr>)"
  by (auto simp: transact_def lift_exec_def in_store_def split: sum.splits prod.splits)

lemma stands_same: "stands c conv run cp h s \<Longrightarrow> store_ok c s' \<Longrightarrow> same_checkpoints s s' \<Longrightarrow> conversations_t s' = conversations_t s
   \<Longrightarrow> stands c conv run cp h s'"
  using same_checkpoints_reads[of s s'] by (simp add: stands_def history_def history_bytes_def find_conversation_def)

lemma begin_stays:
  "leads (stands_at v p h) (transact v (\<lambda>now. begin_provider_call now run)) (\<lambda>_. stands_at v p h) C"
proof (rule leadsI)
  fix e n e' assume s: "stands_at v p h e" and d: "transact v (\<lambda>now. begin_provider_call now run) e = (Done n, e')"
  obtain now s' where b: "begin_provider_call now run (x_db (en_exec e)) = Inr (n, s')" "e' = e\<lparr>en_exec := (en_exec e)\<lparr>x_db := s'\<rparr>\<rparr>"
    using d by (auto simp: transact_Done)
  have ok: "store_ok (ev_codec v) (x_db (en_exec e))" using s by (simp add: stands_at_def stands_def)
  have cv: "conversations_t s' = conversations_t (x_db (en_exec e))"
    using b(1) by (auto simp: begin_provider_call_def Let_def split: option.splits)
  have st: "stands (ev_codec v) (pr_conversation_id p) (pr_run_id p) (en_checkpoint e) h (x_db (en_exec e))"
    using s by (simp add: stands_at_def)
  have "store_ok (ev_codec v) s'" "same_checkpoints (x_db (en_exec e)) s'" using begin_provider_call_spec[OF ok b(1)] by blast+
  then have "stands (ev_codec v) (pr_conversation_id p) (pr_run_id p) (en_checkpoint e) h s'" by (rule stands_same[OF st _ _ cv])
  then show "stands_at v p h e'" using s b(2) by (simp add: stands_at_def)
qed (use transact_goes in \<open>metis fst_conv\<close>)

lemma stands_appended:
  assumes "codec_ok c" "stands c conv run cp h s" "append_checkpoint c conv run cp ms s = Inr (cp', s')"
  shows "stands c conv run cp' (h @ map skip_parts ms) s'"
proof (cases "ms = []")
  case True
  then show ?thesis using assms by (simp add: append_checkpoint_def)
next
  case False
  then have a: "append_checkpoint_tx c conv run (CheckpointId (checkpoint_int cp)) ms s = Inr (cp', s')"
    using assms(3) by (simp add: append_checkpoint_def)
  have ok: "store_ok c s" using assms(2) by (simp add: stands_def)
  show ?thesis using append_checkpoint_tx_spec[OF assms(1) ok a] assms(1,2)
    by (auto simp: stands_def moved_head_def history_def)
qed

lemma stands_replaced:
  assumes "codec_ok c" "stands c conv run cp h s" "replace_checkpoint c conv run cp ms s = Inr (cp', s')"
  shows "stands c conv run cp' (map skip_parts ms) s'"
proof -
  have ok: "store_ok c s" using assms(2) by (simp add: stands_def)
  show ?thesis using replace_checkpoint_spec[OF assms(1) ok assms(3)] assms(1)
    by (auto simp: stands_def moved_head_def history_def)
qed

lemma stands_inserted:
  assumes "codec_ok c" "stands c conv run cp h s" "append_messages_once c conv run cp ms s = Inr (out, s')" "ms \<noteq> []"
  shows "out \<noteq> [] \<and> (\<exists>hist. stands c conv run (fst (last out)) hist s')"
proof -
  have ok: "store_ok c s" using assms(2) by (simp add: stands_def)
  have i: "append_messages_once c conv run (CheckpointId (checkpoint_int cp)) ms s = Inr (out, s')" using assms(3) by simp
  show ?thesis using append_messages_once_spec[OF assms(1) ok assms(4) i] assms(4) by (auto simp: stands_def batch_left_def)
qed

text \<open>Reading the checkpoint, writing from it, and holding the new one are one step.\<close>

lemma leads_write:
  assumes w: "\<And>cp now s a s'. codec_ok (ev_codec v) \<Longrightarrow> stands (ev_codec v) (pr_conversation_id p) (pr_run_id p) cp h s
       \<Longrightarrow> f cp now s = Inr (a, s')
       \<Longrightarrow> \<exists>hist. P a hist \<and> stands (ev_codec v) (pr_conversation_id p) (pr_run_id p) (g a cp) hist s'"
    and k: "\<And>a hist. P a hist \<Longrightarrow> leads (stands_at v p hist) (k a) Q C"
  shows "leads (stands_at v p h)
    (abind (gets en_checkpoint) (\<lambda>cp. abind (transact v (f cp)) (\<lambda>a. abind (move_to (g a cp)) (\<lambda>_. k a)))) Q C"
proof -
  have step: "\<exists>a hist e1. P a hist \<and> stands_at v p hist e1 \<and> k a e1 = r"
    if s: "stands_at v p h e" and r: "fst r = Stop Completed \<or> (\<exists>a. fst r = Done a)"
      and d: "abind (gets en_checkpoint) (\<lambda>cp. abind (transact v (f cp)) (\<lambda>a. abind (move_to (g a cp)) (\<lambda>_. k a))) e = r" for e r
  proof -
    let ?cp = "en_checkpoint e"
    obtain t e1 where t: "transact v (f ?cp) e = (t, e1)" by force
    show ?thesis
    proof (cases t)
      case (Done a)
      then obtain now s' where f: "f ?cp now (x_db (en_exec e)) = Inr (a, s')" "e1 = e\<lparr>en_exec := (en_exec e)\<lparr>x_db := s'\<rparr>\<rparr>"
        using t by (auto simp: transact_Done)
      obtain hist where "P a hist" "stands (ev_codec v) (pr_conversation_id p) (pr_run_id p) (g a ?cp) hist s'"
        using w[OF _ _ f(1)] s by (auto simp: stands_at_def)
      moreover have "k a (e1\<lparr>en_checkpoint := g a ?cp\<rparr>) = r"
        using d t Done by (simp add: abind_def gets_def move_to_def modify_def)
      ultimately show ?thesis using s f(2)
        by (intro exI[of _ a] exI[of _ hist] exI[of _ "e1\<lparr>en_checkpoint := g a ?cp\<rparr>"]) (simp add: stands_at_def)
    next
      case (Stop out)
      then have "out \<noteq> Completed" using transact_goes[of v "f ?cp" e] t by simp
      then show ?thesis using d t Stop r by (auto simp: abind_def gets_def)
    next
      case Waiting
      then show ?thesis using d t r by (auto simp: abind_def gets_def)
    qed
  qed
  show ?thesis
  proof (rule leadsI)
    fix e a e' assume "stands_at v p h e" "abind (gets en_checkpoint) (\<lambda>cp. abind (transact v (f cp)) (\<lambda>a. abind (move_to (g a cp)) (\<lambda>_. k a))) e = (Done a, e')"
    from step[OF this(1) _ this(2)] show "Q a e'" using leadsD(1)[OF k] by fastforce
  next
    fix e e' assume "stands_at v p h e" "abind (gets en_checkpoint) (\<lambda>cp. abind (transact v (f cp)) (\<lambda>a. abind (move_to (g a cp)) (\<lambda>_. k a))) e = (Stop Completed, e')"
    from step[OF this(1) _ this(2)] show "C e'" using leadsD(2)[OF k] by fastforce
  qed
qed

lemma then_move: "abind m move_to = abind m (\<lambda>a. abind (move_to a) (\<lambda>_. areturn ()))"
  by (rule ext) (simp add: abind_def move_to_def modify_def areturn_def split: prod.split progress.split)

lemma append_assistant_leads:
  "leads (stands_at v p h) (append_assistant v p m) (\<lambda>_. stands_at v p (h @ [skip_parts m])) C"
  unfolding append_assistant_def then_move
  by (rule leads_write[where P = "\<lambda>_ hist. hist = h @ [skip_parts m]" and g = "\<lambda>a cp. a"])
    (auto dest: stands_appended intro!: leads_basics(1)[of "\<lambda>_. stands_at v p (h @ [skip_parts m])"])

lemma lift_goes: "goes_on m \<Longrightarrow> fst (lift_exec m e) \<noteq> Stop Completed"
  by (auto simp: lift_exec_def goes_on_def split: prod.split) (metis fst_conv)

lemma lift_Done: "lift_exec m e = (Done a, e') \<longleftrightarrow> (\<exists>x. m (en_exec e) = (Done a, x) \<and> e' = e\<lparr>en_exec := x\<rparr>)"
  by (auto simp: lift_exec_def split: prod.splits)

lemma insert_batches_leads:
  assumes r: "same_run p r"
  shows "leads (stands_at v p h) (insert_batches v r bs) (\<lambda>ins e. \<exists>ms. stands_at v p (h @ ms) e \<and> (ins \<longleftrightarrow> ms \<noteq> [])) C"
proof (rule leadsI)
  fix e ins e' assume s: "stands_at v p h e" and d: "insert_batches v r bs e = (Done ins, e')"
  have id: "pr_run_id r = pr_run_id p" "pr_conversation_id r = pr_conversation_id p" using r by (simp_all add: same_run_def)
  obtain cp' x where a: "append_batches (ev_codec v) (ev_clock v) (pr_conversation_id p) (pr_run_id p) (en_checkpoint e) bs (en_exec e)
      = (Done (cp', ins), x)" "e' = e\<lparr>en_exec := x, en_checkpoint := cp'\<rparr>"
    using d by (auto simp: insert_batches_def id gets_def lift_Done move_to_def modify_def split: prod.splits)
  obtain ms where "messages_added (ev_codec v) (pr_conversation_id p) (pr_run_id p) h (en_exec e) cp' x ms" "ins \<longleftrightarrow> ms \<noteq> []"
    using append_batches_Done[OF _ a(1)] s by (auto simp: stands_at_def)
  then have "stands_at v p (h @ map skip_parts ms) e'" "ins \<longleftrightarrow> ms \<noteq> []" using a(2) s by (auto simp: stands_at_def messages_added_def)
  then show "\<exists>ms. stands_at v p (h @ ms) e' \<and> (ins \<longleftrightarrow> ms \<noteq> [])" by (intro exI[of _ "map skip_parts ms"]) simp
next
  fix e e' assume d: "insert_batches v r bs e = (Stop Completed, e')"
  show "C e'"
    using d lift_goes[OF append_batches_goes, of "ev_codec v" "ev_clock v" "pr_conversation_id r" "pr_run_id r" "en_checkpoint e" bs e]
    by (auto simp: insert_batches_def abind_stops gets_def move_to_def modify_def areturn_def split: prod.splits)
qed

lemma insert_batches_keeps: "same_run p r \<Longrightarrow> keeps v p C (insert_batches v r bs)"
  unfolding between_def
  by (rule leads_each, rule leads_conseq[OF insert_batches_leads]) (auto simp: between_def split: if_splits)

lemma insert_some_leads:
  "leads (stands_at v p h) (insert_some v p bs) (\<lambda>ins e. \<exists>ms. stands_at v p (h @ ms) e \<and> (ins \<longleftrightarrow> ms \<noteq> [])) C"
  unfolding insert_some_def
proof (rule leads_cases(1))
  show "leads (stands_at v p h) (areturn False) (\<lambda>ins e. \<exists>ms. stands_at v p (h @ ms) e \<and> (ins \<longleftrightarrow> ms \<noteq> [])) C"
    by (rule leadsI) (auto simp: areturn_def intro: exI[of _ "[]"])
qed (simp add: insert_batches_leads same_run_def)

lemma insert_some_keeps: "keeps v p C (insert_some v p bs)"
  unfolding between_def
  by (rule leads_each, rule leads_conseq[OF insert_some_leads]) (auto simp: between_def split: if_splits)

lemma run_round_keeps: "keeps v p C (run_round v p rd bs inp)"
proof (rule leadsI)
  fix e u e' assume b: "between v p e" and d: "run_round v p rd bs inp e = (Done u, e')"
  obtain h where s: "stands_at v p h e" using b by (auto simp: between_def)
  obtain cp' x where a: "execute (ev_codec v) (ev_clock v) (pr_conversation_id p) (pr_run_id p) (en_checkpoint e) rd bs (fst inp) (snd inp) (en_exec e)
      = (Done cp', x)" "e' = e\<lparr>en_exec := x, en_checkpoint := cp'\<rparr>"
    using d by (auto simp: run_round_def gets_def lift_Done move_to_def modify_def)
  have c: "codec_ok (ev_codec v)" "store_ok (ev_codec v) (x_db (en_exec e))" "owns (pr_conversation_id p) (pr_run_id p) (x_db (en_exec e))"
    using s by (auto simp: stands_at_def stands_def owns_def)
  have "load_current_messages (ev_codec v) (pr_conversation_id p) (x_db (en_exec e)) = Inr h"
    using s load_current_iff[OF c(1,2)] by (auto simp: stands_at_def stands_def)
  then obtain hist where "stands (ev_codec v) (pr_conversation_id p) (pr_run_id p) cp' hist (x_db x)"
    using execute_Done[OF c _ a(1)] unfolding messages_added_def by blast
  then show "between v p e'" using s a(2) by (auto simp: between_def stands_at_def)
next
  fix e e' assume d: "run_round v p rd bs inp e = (Stop Completed, e')"
  show "C e'"
    using d lift_goes[OF execute_goes, of "ev_codec v" "ev_clock v" "pr_conversation_id p" "pr_run_id p" "en_checkpoint e" rd bs "fst inp" "snd inp" e]
    by (auto simp: run_round_def abind_stops gets_def move_to_def modify_def)
qed


section \<open>Turns that go on\<close>

lemma keeps_basics:
  "keeps v p C (areturn a)" "out \<noteq> Completed \<Longrightarrow> keeps v p C (astop out)" "keeps v p C awaiting"
  "keeps v p C m \<Longrightarrow> (\<And>a. keeps v p C (f a)) \<Longrightarrow> keeps v p C (abind m f)"
  by (simp_all add: leads_basics leads_bind) (rule leads_basics(1)[of "\<lambda>_. between v p"])

lemma keeps_run:
  "(\<And>r. same_run p r \<Longrightarrow> keeps v p C (f r)) \<Longrightarrow> keeps v p C (abind (gets en_run) f)"
  "(\<And>r a. same_run p r \<Longrightarrow> keeps v p C (f' (r, a))) \<Longrightarrow> keeps v p C (abind (gets (\<lambda>e. (en_run e, g e))) f')"
  by (auto simp: leads_def abind_def gets_def between_def stands_at_def)

lemma keeps_write:
  assumes "\<And>cp now s a s' h. codec_ok (ev_codec v) \<Longrightarrow> stands (ev_codec v) (pr_conversation_id p) (pr_run_id p) cp h s
       \<Longrightarrow> f cp now s = Inr (a, s') \<Longrightarrow> \<exists>hist. stands (ev_codec v) (pr_conversation_id p) (pr_run_id p) (g a cp) hist s'"
    and "\<And>a. keeps v p C (k a)"
  shows "keeps v p C (abind (gets en_checkpoint) (\<lambda>cp. abind (transact v (f cp)) (\<lambda>a. abind (move_to (g a cp)) (\<lambda>_. k a))))"
proof -
  have "leads (stands_at v p h) (abind (gets en_checkpoint) (\<lambda>cp. abind (transact v (f cp)) (\<lambda>a. abind (move_to (g a cp)) (\<lambda>_. k a))))
      (\<lambda>_. between v p) C" for h
  proof (rule leads_write[where P = "\<lambda>_ _. True"])
    show "leads (stands_at v p hist) (k a) (\<lambda>_. between v p) C" for a hist
      by (rule leads_conseq[OF assms(2)]) (auto simp: between_def)
  qed (use assms(1) in blast)
  then have "leads (\<lambda>e. \<exists>h. stands_at v p h e)
      (abind (gets en_checkpoint) (\<lambda>cp. abind (transact v (f cp)) (\<lambda>a. abind (move_to (g a cp)) (\<lambda>_. k a)))) (\<lambda>_. between v p) C"
    by (rule leads_each)
  then show ?thesis by (rule leads_conseq) (auto simp: between_def)
qed

lemmas keeping = keeps_basics leads_cases keeps_actions begin_stays[THEN keeps_hist]

lemma keeps_reads:
  "keeps v p C (query f)" "keeps v p C (current_messages v)" "keeps v p C (add_usage u)" "keeps v p C (report_usage u n)"
  "keeps v p C (commit_and_wait cause)" "keeps v p C port_begin_finalizing" "keeps v p C port_resume_running"
  unfolding query_def current_messages_def add_usage_def report_usage_def commit_and_wait_def port_begin_finalizing_def
    port_resume_running_def
  by (intro keeping)+

lemma keeps_call:
  assumes "\<And>k pending'. (\<And>out. k = CallStopped out \<Longrightarrow> out \<noteq> Completed) \<Longrightarrow> keeps v p C (g k pending')"
  shows "keeps v p C (abind (model_call v client refusal call rs pending) (\<lambda>(k, pending'). g k pending'))"
proof (rule leads_bind)
  let ?R = "\<lambda>(a :: call_end \<times> batch list) e. between v p e \<and> (\<forall>out. fst a = CallStopped out \<longrightarrow> out \<noteq> Completed)"
  have m: "keeps v p C (model_call v client refusal call rs pending)" by (intro keeping)
  show "leads (between v p) (model_call v client refusal call rs pending) ?R C"
  proof (rule leadsI)
    fix e a e' assume b: "between v p e" and d: "model_call v client refusal call rs pending e = (Done a, e')"
    show "?R a e'" using leadsD(1)[OF m b d] d by (cases a) (auto dest: model_call_stops)
  qed (rule leadsD(2)[OF m])
  show "leads (?R a) (case a of (k, pending') \<Rightarrow> g k pending') (\<lambda>_. between v p) C" for a
  proof (cases "\<forall>out. fst a = CallStopped out \<longrightarrow> out \<noteq> Completed")
    case True
    then have "keeps v p C (case a of (k, pending') \<Rightarrow> g k pending')" using assms[of "fst a" "snd a"] by (simp add: case_prod_beta)
    then show ?thesis by (rule leads_conseq) auto
  next
    case False
    then show ?thesis by (simp add: leads_def)
  qed
qed

lemma keeps_call_end:
  "(\<And>out. k = CallStopped out \<Longrightarrow> out \<noteq> Completed) \<Longrightarrow>
   (\<And>r. k = CallOver r \<Longrightarrow> keeps v p C (a r)) \<Longrightarrow> (\<And>b r. k = CallBroken b r \<Longrightarrow> keeps v p C (d b r)) \<Longrightarrow>
   (\<And>out. k = CallStopped out \<Longrightarrow> out \<noteq> Completed \<Longrightarrow> keeps v p C (s out)) \<Longrightarrow>
   keeps v p C (case k of CallOver r \<Rightarrow> a r | CallBroken b r \<Rightarrow> d b r | CallStopped out \<Rightarrow> s out)"
  by (cases k) simp_all

lemma summary_attempt_keeps: "same_run p r \<Longrightarrow> keeps v p C (summary_attempt v r settings target minimum ms rs s)"
  unfolding summary_attempt_def Let_def by (intro keeps_call keeps_call_end keeping; blast)

lemma summary_loop_keeps: "same_run p r \<Longrightarrow> keeps v p C (summary_loop v r settings target minimum ms rss s)"
proof (induction rss arbitrary: s)
  case (Cons rs rss)
  show ?case unfolding summary_loop.simps
    by (intro keeping summary_attempt_keeps Cons.prems) (auto split: summary_end.split intro!: keeping Cons)
qed (simp add: keeping)

lemma asked_summary_keeps: "same_run p r \<Longrightarrow> keeps v p C (asked_summary v r settings cal ms com rss)"
  unfolding asked_summary_def Let_def by (intro keeping summary_loop_keeps)

lemma commit_compaction_keeps:
  assumes "same_run p r" shows "keeps v p C (commit_compaction v r settings q ms summary ev)"
proof -
  have id: "pr_run_id r = pr_run_id p" "pr_conversation_id r = pr_conversation_id p" using assms by (simp_all add: same_run_def)
  show ?thesis unfolding commit_compaction_def Let_def id validated_def
    by (intro keeps_write keeping keeps_reads) (auto dest: stands_replaced)
qed

lemma auto_compact_keeps:
  assumes "same_run p r" shows "keeps v p C (auto_compact v r settings q ms inp)"
  unfolding auto_compact_def nothing_to_compact_def Let_def
  by (intro keeping asked_summary_keeps commit_compaction_keeps insert_batches_keeps assms) simp

lemma break_in_keeps: "keeps v p C (break_in v p pending b)"
  unfolding break_in_def by (intro keeping insert_batches_keeps) (simp_all add: same_run_def)

lemma compact_and_retry_keeps: "keeps v p C (compact_and_retry v p settings retention inp st)"
proof -
  have p: "same_run p p" by (simp add: same_run_def)
  show ?thesis unfolding compact_and_retry_def
    by (intro keeps_run keeping keeps_reads insert_batches_keeps auto_compact_keeps p) simp
qed

lemma retry_after_delay_keeps: "keeps v p C (retry_after_delay v p problem delay st)"
  unfolding retry_after_delay_def Let_def
proof (intro keeping)
  fix acc q e pending assume q: "retry_delay acc delay (as_pending st) = Some q" "q = (e, pending)"
  show "keeps v p C (case e of RetryNow \<Rightarrow> areturn (RetryCall (st\<lparr>as_retries := as_retries st + 1, as_pending := pending\<rparr>))
     | DelayBroken b \<Rightarrow> break_in v p pending b
     | DelayStopped told out \<Rightarrow> abind (if told then tell_quietly CycleInterrupted else areturn ()) (\<lambda>_. astop out))"
    using q by (cases e) (auto intro!: keeping break_in_keeps dest: retry_delay_stops)
qed

lemma append_assistant_keeps: "keeps v p C (append_assistant v p m)"
  unfolding append_assistant_def then_move by (intro keeps_write keeping) (auto dest: stands_appended)

lemma give_up_keeps: "keeps v p C (give_up v p f problem st)"
  unfolding give_up_def persist_truncated_assistant_def by (intro keeping append_assistant_keeps keeps_reads) simp

lemma call_failed_keeps: "keeps v p C (call_failed v p settings f a problem st)"
  unfolding call_failed_def
  by (intro keeping keeps_reads)
    (auto split: decision.split intro!: compact_and_retry_keeps retry_after_delay_keeps give_up_keeps)

lemma call_succeeded_keeps: "keeps v p C (call_succeeded v p settings f cycle st)"
  unfolding call_succeeded_def ask_for_detail_def Let_def by (intro keeping keeps_reads)

lemma attempt_keeps: "keeps v p C (attempt v p settings f a st)"
  unfolding attempt_def Let_def
  by (intro keeps_call keeps_call_end keeping keeps_reads break_in_keeps call_failed_keeps call_succeeded_keeps; blast)

lemma attempts_keeps: "keeps v p C (attempts v p settings f as st)"
proof (induction "as" arbitrary: st)
  case (Cons a as)
  show ?case unfolding attempts.simps
    by (intro keeping attempt_keeps) (auto split: attempt_end.split intro!: keeping Cons)
qed (simp add: keeping)

lemma turn_request_keeps: "keeps v p C (turn_request v p settings ms h i)"
  unfolding turn_request_def Let_def by (intro keeping)

lemma preflight_keeps: "keeps v p C (preflight_compact v settings est ms inp)"
  unfolding preflight_compact_def by (intro keeps_run keeping auto_compact_keeps keeps_reads)

lemma resume_round_keeps: "keeps v p C (resume_round v p inp)"
  unfolding resume_round_def by (auto split: run_action.split option.split intro!: keeping run_round_keeps)

section \<open>Turns that end the run\<close>

text \<open>
  How a run that completes leaves its conversation: a compaction with the summary in its history, any
  other run with an answer of the model, without tool calls, as the last message.
\<close>

definition concludes :: "prompted_run \<Rightarrow> message list \<Rightarrow> bool" where
  "concludes p hist \<longleftrightarrow>
     (if pr_action p = CompactAction then \<exists>summary. summary_message (''summary:'' @ pr_run_id p) summary \<in> set hist
      else \<exists>before n answer thinking replay. hist = before @ [assistant_message p n answer thinking replay])"

definition concluded :: "engine_env \<Rightarrow> prompted_run \<Rightarrow> engine \<Rightarrow> bool" where
  "concluded v p e \<longleftrightarrow> (\<exists>hist. stands_at v p hist e \<and> concludes p hist)"

lemma skip_parts_kept [simp]: "skip_parts (assistant_message p n t th r) = assistant_message p n t th r"
  "skip_parts (summary_message i s) = summary_message i s"
  by (simp_all add: skip_parts_def assistant_message_def summary_message_def)

text \<open>Whether something came in: otherwise the history is as it was.\<close>

definition decides :: "engine_env \<Rightarrow> prompted_run \<Rightarrow> message list \<Rightarrow> bool \<Rightarrow> engine \<Rightarrow> bool" where
  "decides v p h cont e \<longleftrightarrow> (if cont then between v p e else stands_at v p h e)"

lemma insert_some_decides:
  "leads (stands_at v p h) (insert_some v p bs) (decides v p h) C"
  by (rule leads_conseq[OF insert_some_leads]) (auto simp: decides_def between_def)

lemma decided:
  "leads (between v p) m Q C \<Longrightarrow> leads (stands_at v p h) n Q C \<Longrightarrow> leads (decides v p h b) (if b then m else n) Q C"
  by (cases b) (simp_all add: leads_def decides_def)

lemma decides_not: "leads (stands_at v p h) (areturn False) (decides v p h) C" "leads (between v p) (areturn True) (decides v p h) C"
  by (simp_all add: leads_def areturn_def decides_def)

text \<open>Actions that keep the history leave what is known of it, on the way to what follows.\<close>

lemma leads_stay:
  assumes "\<And>C. leads (stands_at v p h) m (\<lambda>_. stands_at v p h) C" "\<And>a. leads (stands_at v p h) (f a) Q C"
  shows "leads (stands_at v p h) (abind m f) Q C"
  by (rule leads_bind[OF assms])

lemma leads_between: "keeps v p C m \<Longrightarrow> leads (stands_at v p h) m (\<lambda>_. between v p) C"
  by (erule leads_conseq) (auto simp: between_def)

lemma closing_stays: "leads (stands_at v p h) (closing_insertions drain) (\<lambda>_. stands_at v p h) C"
  unfolding closing_insertions_def port_begin_finalizing_def
proof (rule leads_stay)
  show "leads (stands_at v p h) (case drain_accepted (fst drain) (snd drain) of Inl out \<Rightarrow> astop out | Inr bs \<Rightarrow> areturn bs)
      (\<lambda>_. stands_at v p h) C"
    by (rule leadsI) (auto simp: areturn_def astop_def dest: drain_stops split: sum.splits)
qed (rule stays_actions)

lemma commit_and_wait_stays: "leads (stands_at v p h) (commit_and_wait cause) (\<lambda>_. stands_at v p h) C"
  unfolding commit_and_wait_def by (intro leads_stay stays_actions)

lemma await_background_decides:
  "leads (stands_at v p h) (await_background v p started ts s) (decides v p h) C"
proof (induction ts arbitrary: s)
  case (Cons t ts)
  have interrupted: "leads (stands_at v p h) (abind (tell_quietly CycleInterrupted) (\<lambda>_. astop CancelledRun)) (decides v p h) C"
    by (intro leads_stay stays_actions leads_basics) simp
  have beat: "leads (stands_at v p h) (if heartbeat_due t s then tell Heartbeat else areturn ()) (\<lambda>_. stands_at v p h) C" for C
    by (intro leads_cases stays_actions leads_basics(1)[of "\<lambda>_. stands_at v p h"])
  show ?case unfolding await_background.simps Let_def
    by (rule leads_bind[OF insert_some_decides], rule decided[OF decides_not(2)], intro leads_cases decides_not leads_stay[OF beat])
      (auto split: wait_event.split option.split run_command.split intro!: interrupted Cons leads_basics)
qed (simp add: leads_basics)

lemma wait_for_children_decides:
  "leads (stands_at v p h) (wait_for_children v p ti) (decides v p h) C"
  unfolding wait_for_children_def
  by (intro leads_cases(1) await_background_decides decides_not)

lemma finish_turn_leads:
  assumes "pr_action p \<noteq> CompactAction"
  shows "leads (stands_at v p h) (finish_turn v p ti f cycle pending) (\<lambda>_. between v p) (concluded v p)"
proof -
  let ?m = "assistant_message p (tf_index f) (cr_text cycle) (cr_reasoning cycle) (cr_replay cycle)"
  have "concludes p (h @ [?m])" using assms by (auto simp: concludes_def)
  then have final: "leads (stands_at v p (h @ [?m])) (astop Completed) (\<lambda>_. between v p) (concluded v p)"
    by (intro leadsI) (auto simp: astop_def concluded_def)
  show ?thesis unfolding finish_turn_def
    apply (rule leads_bind[OF append_assistant_leads], unfold skip_parts_kept)
    apply (rule leads_bind[OF insert_some_decides], rule decided, rule keeps_basics)
    apply (rule leads_bind[OF wait_for_children_decides], rule decided, rule keeps_basics)
    apply (rule leads_bind[OF closing_stays], rule leads_cases(1))
     apply (rule leads_between, intro keeping insert_some_keeps keeps_reads)
    by (rule leads_bind[OF commit_and_wait_stays final])
qed

lemma must_leads: "leads I (must r) (\<lambda>a e. I e \<and> r = Inr a) C"
  by (rule leadsI) (auto simp: must_def areturn_def astop_def split: sum.splits)

lemma replacement_slot: "replacement render r ms slot ret cal settings = Inr hist \<Longrightarrow> slot \<in> set hist"
  by (auto simp: replacement_def compaction_head_def Let_def split: prod.splits retention.splits option.splits)

definition slotted :: "engine_env \<Rightarrow> prompted_run \<Rightarrow> engine \<Rightarrow> bool" where
  "slotted v p e \<longleftrightarrow> (\<exists>hist. stands_at v p hist e \<and> (\<exists>summary. summary_message (''summary:'' @ pr_run_id p) summary \<in> set hist))"

lemma slotted_by:
  assumes "\<And>h. leads (stands_at v p h) m (\<lambda>_ e. \<exists>ms. stands_at v p (h @ ms) e) C"
  shows "leads (slotted v p) m (\<lambda>_. slotted v p) C"
proof (rule leadsI)
  fix e a e' assume s: "slotted v p e" and d: "m e = (Done a, e')"
  obtain h where h: "stands_at v p h e" "\<exists>summary. summary_message (''summary:'' @ pr_run_id p) summary \<in> set h"
    using s by (auto simp: slotted_def)
  obtain ms where "stands_at v p (h @ ms) e'" using leadsD(1)[OF assms h(1) d] by blast
  moreover have "\<exists>summary. summary_message (''summary:'' @ pr_run_id p) summary \<in> set (h @ ms)" using h(2) by auto
  ultimately show "slotted v p e'" unfolding slotted_def by blast
next
  fix e e' assume s: "slotted v p e" and d: "m e = (Stop Completed, e')"
  then show "C e'" using leadsD(2)[OF assms _ d] by (auto simp: slotted_def)
qed

lemma stays_slotted:
  assumes "\<And>h. leads (stands_at v p h) m (\<lambda>_. stands_at v p h) C"
  shows "leads (slotted v p) m (\<lambda>_. slotted v p) C"
  by (rule slotted_by, rule leads_conseq[OF assms]) (auto intro: exI[of _ "[]"])

lemma insert_some_slotted: "leads (slotted v p) (insert_some v p bs) (\<lambda>_. slotted v p) C"
  by (rule slotted_by, rule leads_conseq[OF insert_some_leads]) auto

lemma keeps_leads_bind: "keeps v p C m \<Longrightarrow> (\<And>a. leads (between v p) (f a) Q C) \<Longrightarrow> leads (between v p) (abind m f) Q C"
  by (rule leads_bind)

lemma manual_summary_keeps: "keeps v p C (manual_summary f cycle)"
  unfolding manual_summary_def Let_def by (intro keeping) simp

lemma finish_compaction_leads:
  assumes "pr_action p = CompactAction"
  shows "keeps v p (concluded v p) (finish_compaction v p settings ti f cycle pending)"
proof -
  let ?closing = "\<lambda>cause. abind (insert_some v p pending) (\<lambda>_. abind (closing_insertions (ti_drain ti)) (\<lambda>closing.
      abind (insert_some v p closing) (\<lambda>_. abind (commit_and_wait cause) (\<lambda>_. astop Completed))))"
  let ?swap = "\<lambda>ms cause. abind (gets en_checkpoint)
      (\<lambda>cp. abind (transact v (\<lambda>_. replace_checkpoint (ev_codec v) (pr_conversation_id p) (pr_run_id p) cp ms))
        (\<lambda>cp'. abind (move_to cp') (\<lambda>_. ?closing cause)))"
  have final: "leads (slotted v p) (astop Completed) (\<lambda>_. between v p) (concluded v p)"
    using assms by (intro leadsI) (auto simp: astop_def concluded_def concludes_def slotted_def)
  have rest: "leads (slotted v p) (?closing cause) (\<lambda>_. between v p) (concluded v p)" for cause
    by (rule leads_bind[OF insert_some_slotted] leads_bind[OF stays_slotted[OF closing_stays]]
        leads_bind[OF stays_slotted[OF commit_and_wait_stays]] final)+
  have replaced: "leads (between v p)
      (?swap ms cause) (\<lambda>_. between v p) (concluded v p)"
    if "summary_message (''summary:'' @ pr_run_id p) summary \<in> set ms" for ms cause summary
  proof -
    have slot: "summary_message (''summary:'' @ pr_run_id p) summary \<in> set (map skip_parts ms)"
      using imageI[OF that, of skip_parts] by simp
    have "leads (\<lambda>e. \<exists>h. stands_at v p h e)
      (?swap ms cause) (\<lambda>_. between v p) (concluded v p)"
    proof (rule leads_each, rule leads_write[where P = "\<lambda>_ hist. hist = map skip_parts ms"])
      fix hist assume "hist = map skip_parts ms"
      then show "leads (stands_at v p hist) (?closing cause) (\<lambda>_. between v p) (concluded v p)"
        using slot by (intro leads_conseq[OF rest]) (unfold slotted_def, blast)
    qed (auto dest: stands_replaced)
    then show ?thesis by (rule leads_conseq) (auto simp: between_def)
  qed
  show ?thesis unfolding finish_compaction_def Let_def
  proof (intro leads_cases(1) keeps_leads_bind[OF manual_summary_keeps] keeps_leads_bind[OF keeps_actions(4)]
        keeps_leads_bind[OF keeps_actions(1)])
    fix written u r
    show "leads (between v p) (abind (must (replacement (ev_render v) r (tf_messages f) (summary_message (''summary:'' @ pr_run_id p) s)
          Window (tf_calibration f) settings)) (\<lambda>ms. ?swap ms cause)) (\<lambda>_. between v p) (concluded v p)" for s cause
    proof (rule leads_bind[OF must_leads])
      fix ms
      let ?r = "replacement (ev_render v) r (tf_messages f) (summary_message (''summary:'' @ pr_run_id p) s) Window (tf_calibration f) settings"
      show "leads (\<lambda>e. between v p e \<and> ?r = Inr ms) (?swap ms cause) (\<lambda>_. between v p) (concluded v p)"
      proof (cases "?r = Inr ms")
        case True
        then have "summary_message (''summary:'' @ pr_run_id p) s \<in> set ms" by (rule replacement_slot)
        from replaced[OF this] show ?thesis by (rule leads_conseq) auto
      qed (simp add: leads_def)
    qed
  qed (simp add: keeping)
qed


lemma model_turn_keeps: "keeps v p (concluded v p) (model_turn v p settings ti)"
proof (cases "pr_action p = CompactAction")
  case True
  show ?thesis unfolding model_turn_def
    by (intro keeping keeps_reads preflight_keeps turn_request_keeps attempts_keeps finish_compaction_leads[OF True]) (use True in simp_all)
next
  case False
  have "keeps v p (concluded v p) (finish_turn v p ti f cycle pending)" for f cycle pending
    unfolding between_def
    by (rule leads_each, rule leads_conseq[OF finish_turn_leads[OF False]]) (auto simp: between_def)
  then show ?thesis unfolding model_turn_def
    by (intro keeping keeps_reads preflight_keeps turn_request_keeps attempts_keeps run_round_keeps) (use False in simp_all)
qed

lemma model_loop_keeps: "keeps v p (concluded v p) (model_loop v p settings tis)"
  by (induction tis) (auto intro!: keeping model_turn_keeps)

lemma append_initial_keeps: "keeps v p C (append_initial v p pending)"
proof (cases "pending = []")
  case False
  show ?thesis unfolding append_initial_def
    by (intro keeping keeps_write[where g = "\<lambda>out cp. if out = [] then cp else fst (last out)"])
      (use stands_inserted[OF _ _ _ False] in \<open>auto simp: keeping\<close>)
qed (simp add: append_initial_def keeping)

text \<open>
  A background completion that finds one of its messages stored was delivered before: it completes without a turn.
\<close>

definition delivered_before :: "prompted_run \<Rightarrow> db \<Rightarrow> bool" where
  "delivered_before p s \<longleftrightarrow> pr_action p = BackgroundCompletionAction
     \<and> (\<exists>m\<in>set (pr_initial_messages p). find_message (pr_conversation_id p) (message_id m) s \<noteq> None)"

definition ends_well :: "engine_env \<Rightarrow> prompted_run \<Rightarrow> db \<Rightarrow> engine \<Rightarrow> bool" where
  "ends_well v p s e \<longleftrightarrow> concluded v p e \<or> delivered_before p s \<and> between v p e"

lemma leads_weaker_end: "leads I m Q C \<Longrightarrow> (\<And>e. C e \<Longrightarrow> C' e) \<Longrightarrow> leads I m Q C'"
  by (rule leadsI) (auto dest: leadsD)

lemma collect_initial_reads:
  "collect_initial v p ms pending e = (r, e') \<Longrightarrow> e' = e \<and> r \<noteq> Stop Completed
     \<and> (\<forall>ms'. r = Done (True, ms') \<longrightarrow> pr_action p = BackgroundCompletionAction
          \<and> (\<exists>m\<in>set ms. find_message (pr_conversation_id p) (message_id m) (x_db (en_exec e)) \<noteq> None))"
proof (induction ms arbitrary: pending)
  case (Cons m ms)
  show ?case
  proof (cases "pr_action p = BackgroundCompletionAction")
    case True
    show ?thesis
    proof (cases "stored_message (ev_codec v) (pr_conversation_id p) (message_id m) (x_db (en_exec e))")
      case (Inl err)
      then show ?thesis using Cons.prems True
        by (auto simp: query_def gets_def must_def abind_def astop_def areturn_def)
    next
      case (Inr found)
      then show ?thesis using Cons True
        by (cases found) (auto simp: query_def gets_def must_def abind_def astop_def areturn_def stored_message_def
            split: option.splits)
    qed
  qed (use Cons in auto)
qed (auto simp: areturn_def)

lemma commit_initial_ends:
  "leads (\<lambda>e. between v p e \<and> x_db (en_exec e) = s) (commit_initial v p) (\<lambda>_. between v p) (ends_well v p s)"
proof -
  have found: "leads (\<lambda>e. between v p e \<and> x_db (en_exec e) = s) (collect_initial v p (pr_initial_messages p) [])
      (\<lambda>(delivered, _) e. between v p e \<and> (delivered \<longrightarrow> delivered_before p s)) (ends_well v p s)"
    by (rule leadsI) (auto simp: delivered_before_def dest: collect_initial_reads)
  have over: "leads (between v p) (astop Completed) (\<lambda>_. between v p) (ends_well v p s)" if "delivered_before p s"
    using that by (intro leadsI) (auto simp: astop_def ends_well_def)
  have rest: "leads (\<lambda>e. between v p e \<and> (delivered \<longrightarrow> delivered_before p s)) (abind (append_initial v p pending) (\<lambda>changed.
        if delivered then abind (commit_and_wait InitialMessages) (\<lambda>_. astop Completed)
        else if changed then commit_and_wait InitialMessages else areturn ())) (\<lambda>_. between v p) (ends_well v p s)"
    for delivered pending
  proof (cases "delivered \<longrightarrow> delivered_before p s")
    case True
    have "leads (between v p) (abind (append_initial v p pending) (\<lambda>changed.
        if delivered then abind (commit_and_wait InitialMessages) (\<lambda>_. astop Completed)
        else if changed then commit_and_wait InitialMessages else areturn ())) (\<lambda>_. between v p) (ends_well v p s)"
      by (intro keeping append_initial_keeps keeps_reads over) (use True in simp)
    then show ?thesis by (rule leads_conseq) auto
  qed (auto simp: leads_def)
  show ?thesis unfolding commit_initial_def
    by (rule leads_bind[OF found]) (simp add: rest split: prod.split)
qed

lemma run_claimed_ends:
  "leads (\<lambda>e. between v p e \<and> x_db (en_exec e) = s) (run_claimed v p inp) (\<lambda>_. between v p) (ends_well v p s)"
proof -
  let ?I = "\<lambda>e. between v p e \<and> x_db (en_exec e) = s"
  have must: "leads ?I (must r) (\<lambda>_. ?I) (ends_well v p s)" for r :: "'a result"
    by (rule leads_conseq[OF must_leads[where I = ?I]]) auto
  have anchor: "leads ?I (modify (\<lambda>e. e\<lparr>en_anchor := a\<rparr>)) (\<lambda>_. ?I) (ends_well v p s)" for a
    by (rule leadsI) (auto simp: modify_def between_def stands_at_def)
  have loop: "keeps v p (ends_well v p s) (model_loop v p settings tis)" for settings tis
    by (rule leads_weaker_end[OF model_loop_keeps]) (simp add: ends_well_def)
  show ?thesis unfolding run_claimed_def
    by (intro leads_bind[OF must] leads_bind[OF anchor] leads_bind[OF commit_initial_ends] keeping resume_round_keeps loop)
qed

lemma claim_keeps_messages:
  assumes "store_ok c s" "claim_run c now p s = Inr (cl, s')"
  shows "messages_t s' = messages_t s"
proof -
  obtain i s1 where e: "ensure_conversation_tx c (pr_conversation_id p) s = Inr (CheckpointId i, s1)"
    and c1: "claims now p (cl_replaced cl) s1 s'"
    using claim_run_parts[OF assms] by blast
  have "messages_t s1 = messages_t s"
    using e by (auto simp: ensure_conversation_tx_def insert_checkpoint_row_def Let_def split: option.splits if_splits)
  then show ?thesis using c1 by (simp add: claims_def same_checkpoints_def)
qed

text \<open>The record of the end leaves the history.\<close>

lemma finish_keeps_current:
  assumes ok: "store_ok c s"
  shows "map_option cv_current (find_conversation k (store_step c (FinishRun now run st f) s)) = map_option cv_current (find_conversation k s)"
proof (cases "finish_run now run st f s")
  case (Inr q)
  obtain b s' where q: "q = (b, s')" by force
  then have "released run s s'" using finish_run_spec[OF ok] Inr by blast
  then have "find_conversation k s' =
        map_option (\<lambda>v. if cv_active_run v = Some run then v\<lparr>cv_active_run := None\<rparr> else v) (find_conversation k s)"
    unfolding released_def by blast
  then show ?thesis using Inr q by (cases "find_conversation k s") auto
qed simp

lemma finishes_keep_current:
  "store_ok c s \<Longrightarrow> codec_ok c \<Longrightarrow> list_all (\<lambda>ev. \<exists>now st f. ev = FinishRun now run st f) es \<Longrightarrow>
   map_option cv_current (find_conversation k (fold (store_step c) es s)) = map_option cv_current (find_conversation k s)"
proof (induction es arbitrary: s)
  case (Cons ev es)
  obtain now st f where ev: "ev = FinishRun now run st f" using Cons.prems(3) by auto
  have "store_ok c (store_step c ev s)" using store_step_ok[OF Cons.prems(2,1)] by blast
  then show ?case using Cons finish_keeps_current[OF Cons.prems(1), of k now run st f] ev by simp
qed simp

lemma recorded_history:
  assumes s: "stands_at v p hist e" and r: "recorded v p out fails e e'"
  shows "load_current_messages (ev_codec v) (pr_conversation_id p) (x_db (en_exec e')) = Inr hist"
proof -
  let ?s = "x_db (en_exec e)" and ?s' = "x_db (en_exec e')" and ?c = "ev_codec v"
  have st: "codec_ok ?c" "store_ok ?c ?s" "history ?c ?s (checkpoint_int (en_checkpoint e)) = hist" using s by (auto simp: stands_at_def stands_def)
  obtain w where w: "find_conversation (pr_conversation_id p) ?s = Some w" "cv_current w = Some (checkpoint_int (en_checkpoint e))"
    using s by (auto simp: stands_at_def stands_def)
  have r': "store_ok ?c ?s'" "extends_db ?s ?s'" using r unfolding recorded_def by blast+
  obtain es where "?s' = fold (store_step ?c) es ?s" "list_all (\<lambda>ev. \<exists>now st f. ev = FinishRun now (pr_run_id p) st f) es"
    using r unfolding recorded_def by blast
  then have "map_option cv_current (find_conversation (pr_conversation_id p) ?s') = Some (Some (checkpoint_int (en_checkpoint e)))"
    using finishes_keep_current[OF st(2,1)] w by simp
  then obtain w' where w': "find_conversation (pr_conversation_id p) ?s' = Some w'" "cv_current w' = Some (checkpoint_int (en_checkpoint e))"
    by auto
  obtain q where "find_checkpoint (checkpoint_int (en_checkpoint e)) ?s = Some q" using current_checkpoint[OF st(2) w] by blast
  then show ?thesis using load_current_iff[OF st(1) r'(1) w'] history_extends[OF r'(2)] st(3) by simp
qed

text \<open>
  C2: a run that completes has done what it was for. When a run reports completion, the conversation's current history
  can be loaded and, as the record of the end has left it, ends with an answer of the model that asks for no tool, or,
  for a compaction, holds the summary. One exception is named: a background completion one of whose messages was in
  the conversation before the run, which has nothing left to say.
\<close>
theorem completed_run_has_concluded:
  assumes "codec_ok (ev_codec v)" "store_ok (ev_codec v) (x_db (en_exec e))"
    and "engine_run v p inp e = (Done Completed, e')"
  shows "\<exists>hist. load_current_messages (ev_codec v) (pr_conversation_id p) (x_db (en_exec e')) = Inr hist
    \<and> (case pr_action p of
         CompactAction \<Rightarrow> \<exists>summary. summary_message (''summary:'' @ pr_run_id p) summary \<in> set hist
       | _ \<Rightarrow> (\<exists>before answer. hist = before @ [answer] \<and> msg_role answer = RAssistant
             \<and> (\<exists>said thought replay. msg_content answer = Assistant said thought None replay []))
           \<or> delivered_before p (x_db (en_exec e)))"
  using assms(3)
proof (cases rule: engine_run_stages)
  case (refused err)
  then show ?thesis using end_run_Done[of "failed err" e] by (auto simp: failed_def)
next
  case (ended cl s e1 out)
  let ?e0 = "engine_start p (cl_head cl) (e\<lparr>en_exec := (en_exec e)\<lparr>x_db := s\<rparr>\<rparr>)"
  let ?e2 = "record_outcome v p out (ri_write_fails inp) e1"
  have out: "out = Completed" "x_db (en_exec e') = x_db (en_exec ?e2)" using end_run_Done[of out ?e2] ended(3) by auto
  note sp = claim_run_spec[OF assms(2) ended(1), unfolded truncated_run]
  have "cl_head cl = pr_base_checkpoint p" using ended(1)
    by (auto simp: claim_run_def Let_def prepared_run.defs split: if_splits)
  then have "stands (ev_codec v) (pr_conversation_id p) (pr_run_id p) (cl_head cl)
      (history (ev_codec v) s (checkpoint_int (cl_head cl))) s"
    using sp by (auto simp: stands_def)
  then have "between v p ?e0 \<and> x_db (en_exec ?e0) = s"
    using assms(1) by (auto simp: between_def stands_at_def engine_start_def same_run_def)
  then have end1: "ends_well v p s e1" using leadsD(2)[OF run_claimed_ends] ended(2) out(1) by blast
  then obtain hist where h: "stands_at v p hist e1" "concludes p hist \<or> delivered_before p s"
    by (auto simp: ends_well_def concluded_def between_def)
  note w = claimed_work[OF assms(1,2) ended(1,2)]
  have load: "load_current_messages (ev_codec v) (pr_conversation_id p) (x_db (en_exec e')) = Inr hist"
    using recorded_history[OF h(1) record_outcome_spec[OF w(2,5)]] out(2) by simp
  have "delivered_before p s \<longleftrightarrow> delivered_before p (x_db (en_exec e))"
    using claim_keeps_messages[OF assms(2) ended(1)] by (simp add: delivered_before_def find_message_def)
  then have "concludes p hist \<or> delivered_before p (x_db (en_exec e))" using h(2) by simp
  then show ?thesis using load
    by (intro exI[of _ hist]) (cases "pr_action p"; auto simp: concludes_def assistant_message_def delivered_before_def)
qed simp

lemma completed_run_has_concluded_witness:
  "\<exists>e' before answer. engine_run demo_env demo_prompted demo_input demo_engine = (Done Completed, e')
     \<and> load_current_messages unary_codec ''c'' (x_db (en_exec e')) = Inr (before @ [answer]) \<and> msg_role answer = RAssistant"
proof -
  obtain e' where e: "engine_run demo_env demo_prompted demo_input demo_engine = (Done Completed, e')"
    using demo_run_completes by blast
  have p: "pr_action demo_prompted = StartAction" "pr_conversation_id demo_prompted = ''c''" "ev_codec demo_env = unary_codec"
    by (simp_all add: demo_prompted_def demo_env_def)
  show ?thesis using completed_run_has_concluded[OF demo_engine_ok e] e p by (auto simp: delivered_before_def)
qed

end
