(* ===== verification/EngineBounds.thy ===== *)
theory EngineBounds
  imports EngineHistory
begin

text \<open>
  How often the engine asks the provider: most actions ask nothing, a compaction asks for a summary at most twice, and
  the attempts of a turn end.
\<close>

section \<open>Actions that ask nothing\<close>

definition silent :: "engine \<Rightarrow> engine \<Rightarrow> bool" where
  "silent e e' \<longleftrightarrow> en_requests e' = en_requests e \<and> en_detail_retry e' = en_detail_retry e"

interpretation silence: effect_order silent
  by unfold_locales (simp_all add: silent_def)

lemma silent_plain:
  "confined silent (gets f)" "confined silent (must r)" "confined silent (unless_it_spins q)" "confined silent (lift_exec m)"
  "confined silent (transact v t)" "confined silent (tell ev)" "confined silent (tell_quietly ev)" "confined silent (hydrate_request v h)"
  "confined silent (move_to cp)" "confined silent (add_usage u)" "confined silent (report_usage u n)"
  "confined silent port_begin_finalizing" "confined silent port_resume_running"
  by (auto simp: confined_def silent_def gets_def must_def unless_it_spins_def lift_exec_def transact_def tell_def tell_quietly_def
      hydrate_request_def move_to_def modify_def add_usage_def report_usage_def abind_def port_begin_finalizing_def
      port_resume_running_def awaiting_def astop_def areturn_def split: sum.splits option.splits prod.splits)

lemmas silent_basics = silence.confined_basics confined_cases silent_plain

lemma silent_steps:
  "confined silent (query g)" "confined silent (current_messages v)" "confined silent (commit_and_wait cause)"
  "confined silent (insert_batches v r bs)" "confined silent (append_assistant v p m)"
  "confined silent (commit_compaction v r settings q ms summary ev)"
  "confined silent (nothing_to_compact v r settings cal ms)"
  "confined silent (persist_truncated_assistant v p i problem)"
  unfolding query_def current_messages_def commit_and_wait_def insert_batches_def append_assistant_def
    commit_compaction_def nothing_to_compact_def persist_truncated_assistant_def validated_def Let_def
  by (intro silent_basics)+


section \<open>How often an action asks\<close>

definition asked :: "engine \<Rightarrow> nat" where "asked e = length (en_requests e)"

definition asks_at_most :: "nat \<Rightarrow> 'a eact \<Rightarrow> bool" where
  "asks_at_most n m \<longleftrightarrow> (\<forall>e. asked (snd (m e)) \<le> asked e + n \<and> en_detail_retry (snd (m e)) = en_detail_retry e)"

lemma silent_asks: "confined silent m \<Longrightarrow> asks_at_most 0 m"
  by (simp add: confined_def silent_def asks_at_most_def asked_def)

lemma asks_more: "asks_at_most n m \<Longrightarrow> n \<le> k \<Longrightarrow> asks_at_most k m"
  unfolding asks_at_most_def using le_trans by (metis add_le_cancel_left)

lemma asks_bind_values:
  assumes m: "asks_at_most n m" and f: "\<And>a e y. m e = (Done a, y) \<Longrightarrow> asks_at_most k (f a)"
  shows "asks_at_most (n + k) (abind m f)"
  unfolding asks_at_most_def
proof
  fix e
  obtain r y where r: "m e = (r, y)" by force
  then have y: "asked y \<le> asked e + n" "en_detail_retry y = en_detail_retry e"
    using m[unfolded asks_at_most_def, rule_format, of e] by simp_all
  show "asked (snd (abind m f e)) \<le> asked e + (n + k) \<and> en_detail_retry (snd (abind m f e)) = en_detail_retry e"
  proof (cases r)
    case (Done a)
    then have "asked (snd (f a y)) \<le> asked y + k \<and> en_detail_retry (snd (f a y)) = en_detail_retry y"
      using f r unfolding asks_at_most_def by blast
    then show ?thesis using r Done y by (simp add: abind_def)
  qed (use r y in \<open>simp_all add: abind_def\<close>)
qed

lemma asks_after: "confined silent m \<Longrightarrow> (\<And>a. asks_at_most k (f a)) \<Longrightarrow> asks_at_most k (abind m f)"
  using asks_bind_values[OF silent_asks, of m k f] by simp

lemma asks_before:
  assumes "asks_at_most n m" "\<And>a. confined silent (f a)"
  shows "asks_at_most n (abind m f)"
  using asks_bind_values[OF assms(1) silent_asks[OF assms(2)]] by simp

lemma model_call_asks: "asks_at_most 1 (model_call v client refusal call rs pending)"
  by (auto simp: asks_at_most_def asked_def model_call_def Let_def split: prod.split option.split)

lemma summary_attempt_asks: "asks_at_most 1 (summary_attempt v r settings target minimum ms rs s)"
  unfolding summary_attempt_def Let_def
  by (intro asks_after asks_before model_call_asks silent_basics) (auto split: call_end.split intro!: silent_basics)

lemma summary_attempt_again:
  assumes "summary_attempt v r settings target minimum ms rs s x = (Done (AskAgain s'), y)"
  shows "sm_attempts s' = Suc (sm_attempts s) \<and> sm_attempts s' < 2"
proof -
  have answer: "sm_attempts s' = sm_attempts t \<and> sm_attempts t < 2" if "summary_answer v minimum ms k t = AskAgain s'" for k t
    using that by (cases k) (auto simp: summary_answer_def accept_summary_def without_summary_def with_usage_def Let_def
        split: if_splits option.splits)
  show ?thesis
    using assms unfolding summary_attempt_def Let_def abind_Done split_paired_Ex
    apply (elim exE conjE)
    subgoal for i z h z' q z'' k b w by (cases k) (auto dest!: answer[OF sym])
    done
qed

lemma summary_loop_asks: "asks_at_most (max 1 (2 - sm_attempts s)) (summary_loop v r settings target minimum ms rss s)"
proof (induction rss arbitrary: s)
  case (Cons rs rss)
  let ?m = "summary_attempt v r settings target minimum ms rs s"
  show ?case
  proof (cases "sm_attempts s = 0")
    case True
    have "asks_at_most (1 + 1) (summary_loop v r settings target minimum ms (rs # rss) s)"
      unfolding summary_loop.simps
    proof (rule asks_bind_values[OF summary_attempt_asks])
      fix k e y assume k: "?m e = (Done k, y)"
      show "asks_at_most 1 (case k of AskAgain s' \<Rightarrow> summary_loop v r settings target minimum ms rss s' | Summarized summary s' \<Rightarrow> areturn (summary, s'))"
      proof (cases k)
        case (AskAgain s')
        then have "sm_attempts s' = 1" using summary_attempt_again[of v r settings target minimum ms rs s e s' y] k True by simp
        then show ?thesis using Cons.IH[of s'] AskAgain by simp
      qed (simp add: asks_at_most_def areturn_def)
    qed
    then show ?thesis using True by (simp add: numeral_2_eq_2)
  next
    case False
    have "asks_at_most (1 + 0) (summary_loop v r settings target minimum ms (rs # rss) s)"
      unfolding summary_loop.simps
    proof (rule asks_bind_values[OF summary_attempt_asks])
      fix k e y assume k: "?m e = (Done k, y)"
      show "asks_at_most 0 (case k of AskAgain s' \<Rightarrow> summary_loop v r settings target minimum ms rss s' | Summarized summary s' \<Rightarrow> areturn (summary, s'))"
      proof (cases k)
        case (AskAgain s')
        then show ?thesis using summary_attempt_again[of v r settings target minimum ms rs s e s' y] k False by simp
      qed (simp add: asks_at_most_def areturn_def)
    qed
    then show ?thesis by (rule asks_more) simp
  qed
qed (simp add: asks_at_most_def awaiting_def)

lemma asked_summary_asks: "asks_at_most 2 (asked_summary v r settings cal ms com rss)"
proof -
  have "asks_at_most 2 (summary_loop v r settings target minimum com rss (summary_start v target cal))" for target minimum
    using summary_loop_asks[of "summary_start v target cal"] by (simp add: summary_start_def numeral_2_eq_2)
  then show ?thesis unfolding asked_summary_def Let_def by (intro asks_before) (auto intro!: silent_basics)
qed

lemma auto_compact_asks: "asks_at_most 2 (auto_compact v r settings q ms inp)"
proof -
  have none: "asks_at_most 2 (nothing_to_compact v r settings cal ms')" for cal ms'
    by (rule asks_more[OF silent_asks[OF silent_steps(7)]]) simp
  have had: "asks_at_most 2 (areturn a)" for a :: "string \<times> string \<times> summary_state"
    by (simp add: asks_at_most_def areturn_def)
  have summary: "asks_at_most 2 (case o' of Some existing \<Rightarrow> areturn (g existing) | None \<Rightarrow> asked_summary v r settings cal ms com rss)"
    for o' g cal com rss by (cases o') (simp_all add: had asked_summary_asks)
  show ?thesis
  proof (cases "fst (compaction_partition ms (message_id ` set (pr_initial_messages r))) = []")
    case True
    then show ?thesis by (simp add: auto_compact_def none)
  next
    case False
    show ?thesis unfolding auto_compact_def Let_def if_not_P[OF False]
      apply (rule asks_after, rule silent_plain)
      apply (rule asks_after, rule silent_plain)
      apply (rule asks_before, rule summary)
      by (intro silent_basics silent_steps)
  qed
qed


section \<open>A turn's calls\<close>

lemma silent_modify:
  "confined silent (modify (\<lambda>e. e\<lparr>en_overflow := g e\<rparr>))" "confined silent (modify (\<lambda>e. e\<lparr>en_anchor := a\<rparr>))"
  "confined silent (modify (\<lambda>e. e\<lparr>en_anchor := a, en_overflow := g e\<rparr>))" "confined silent (modify (learn_window settings refusal problem))"
  by (simp_all add: confined_def silent_def modify_def learn_window_def)

lemma break_in_silent: "confined silent (break_in v p pending b)"
  unfolding break_in_def by (intro silent_basics silent_steps)

lemma retry_after_delay_silent: "confined silent (retry_after_delay v p problem delay st)"
  unfolding retry_after_delay_def Let_def
  by (intro silent_basics) (auto split: delay_end.split intro!: silent_basics break_in_silent)

lemma give_up_silent: "confined silent (give_up v p f problem st)"
  unfolding give_up_def by (intro silent_basics silent_steps)

lemma compact_and_retry_asks: "asks_at_most 2 (compact_and_retry v p settings retention inp st)"
proof -
  have c: "asks_at_most 2 (case q of (r, calibration) \<Rightarrow>
      abind (auto_compact v r settings \<lparr>cq_retention = retention, cq_calibration = calibration\<rparr> messages inp) (\<lambda>u.
      abind (modify (\<lambda>e. e\<lparr>en_anchor := None\<rparr>)) (\<lambda>_. abind (add_usage u) (\<lambda>_. areturn TurnAgain))))" for q messages
    by (cases q) (simp only: prod.case, rule asks_before[OF auto_compact_asks], intro silent_basics silent_modify)
  show ?thesis unfolding compact_and_retry_def
    by (rule asks_after, (rule silent_modify silent_steps silent_plain))+ (rule c)
qed

lemma call_failed_asks: "asks_at_most 2 (call_failed v p settings f a problem st)"
proof -
  have d: "asks_at_most 2 (case d of CompactAndRetry retention \<Rightarrow> compact_and_retry v p settings retention (ai_compaction a) st
           | RetryAfterDelay \<Rightarrow> retry_after_delay v p (cf_failure problem) (ai_delay a) st
           | GiveUp \<Rightarrow> give_up v p f problem st)" for d
    by (cases d) (auto intro: asks_more[OF silent_asks] retry_after_delay_silent give_up_silent compact_and_retry_asks)
  have stop: "asks_at_most 2 (abind (tell_quietly CycleInterrupted) (\<lambda>_. astop CancelledRun) :: attempt_end eact)"
    by (rule asks_more[OF silent_asks]) (intro silent_basics, simp)
  show ?thesis unfolding call_failed_def
  proof (rule asks_after[OF silent_plain(11)])
    show "asks_at_most 2 (if ai_cancelled a then abind (tell_quietly CycleInterrupted) (\<lambda>_. astop CancelledRun)
       else abind (gets (failed_refusal p settings problem)) (\<lambda>refusal. abind (gets en_overflow) (\<lambda>episode.
         abind (modify (learn_window settings refusal problem)) (\<lambda>_.
           case decide episode (as_retries st) \<lparr>fa_failure = cycle_failure.truncate problem, fa_refusal = refusal\<rparr> of
             CompactAndRetry retention \<Rightarrow> compact_and_retry v p settings retention (ai_compaction a) st
           | RetryAfterDelay \<Rightarrow> retry_after_delay v p (cf_failure problem) (ai_delay a) st
           | GiveUp \<Rightarrow> give_up v p f problem st))))"
      by (cases "ai_cancelled a"; simp only: if_True if_False)
        (rule stop, (rule asks_after, (rule silent_modify silent_plain))+, rule d)
  qed
qed

text \<open>A failure that leads to another attempt has asked nothing in between.\<close>

lemma call_failed_retry_silent:
  assumes "call_failed v p settings f a problem st e = (Done (RetryCall st'), e')"
  shows "asked e' \<le> asked e"
proof -
  obtain z1 z2 z3 z4 refusal episode u1 u2 where z: "report_usage (failed_usage problem) (tf_anchored f) e = (Done u1, z1)"
      "gets (failed_refusal p settings problem) z1 = (Done refusal, z2)" "gets en_overflow z2 = (Done episode, z3)"
      "modify (learn_window settings refusal problem) z3 = (Done u2, z4)"
    and d: "(case decide episode (as_retries st) \<lparr>fa_failure = cycle_failure.truncate problem, fa_refusal = refusal\<rparr> of
        CompactAndRetry retention \<Rightarrow> compact_and_retry v p settings retention (ai_compaction a) st
      | RetryAfterDelay \<Rightarrow> retry_after_delay v p (cf_failure problem) (ai_delay a) st
      | GiveUp \<Rightarrow> give_up v p f problem st) z4 = (Done (RetryCall st'), e')"
    using assms by (auto simp: call_failed_def split: if_split_asm)
  have "silent e z1" using silent_plain(11)[of "failed_usage problem" "tf_anchored f"] z(1) by (auto simp: confined_def dest: spec[of _ e])
  moreover have "silent z3 z4" using silent_modify(4)[of settings refusal problem] z(4) by (auto simp: confined_def dest: spec[of _ z3])
  moreover have "z2 = z1" "z3 = z2" using z(2,3) by (simp_all add: gets_def)
  ultimately have z4: "asked z4 = asked e" by (simp add: silent_def asked_def)
  show ?thesis
  proof (cases "decide episode (as_retries st) \<lparr>fa_failure = cycle_failure.truncate problem, fa_refusal = refusal\<rparr>")
    case RetryAfterDelay
    then have "silent z4 e'" using retry_after_delay_silent[of v p "cf_failure problem" "ai_delay a" st] d
      by (auto simp: confined_def dest: spec[of _ z4])
    then show ?thesis using z4 by (simp add: silent_def asked_def)
  qed (use d in \<open>simp_all add: compact_and_retry_again give_up_again\<close>)
qed

text \<open>A success asks nothing; it wants more detail at most once.\<close>

lemma call_succeeded_asks_nothing: "en_requests (snd (call_succeeded v p settings f cycle st e)) = en_requests e"
  by (auto simp: call_succeeded_def ask_for_detail_def Let_def abind_def modify_def gets_def report_usage_def add_usage_def
      areturn_def unless_it_spins_def awaiting_def split: option.split prod.split progress.split)

lemma call_succeeded_again_detail:
  assumes "call_succeeded v p settings f cycle st e = (Done (RetryCall st'), e')"
  shows "pr_action p = CompactAction \<and> \<not> en_detail_retry e \<and> en_detail_retry e' \<and> as_retries st' = as_retries st"
  using assms by (auto simp: call_succeeded_def ask_for_detail_def Let_def modify_def gets_def report_usage_def add_usage_def
      unless_it_spins_def areturn_def awaiting_def split: if_splits option.splits)

lemma attempt_asks:
  assumes "attempt v p settings f a st e = (r, e')"
  shows "asked e' \<le> asked e + 3"
    "r = Done (RetryCall st') \<Longrightarrow> asked e' \<le> asked e + 1 \<and>
       (as_retries st < 8 \<and> as_retries st' = Suc (as_retries st) \<and> en_detail_retry e' = en_detail_retry e
        \<or> pr_action p = CompactAction \<and> \<not> en_detail_retry e \<and> en_detail_retry e' \<and> as_retries st' = as_retries st)"
proof -
  let ?seq = "min (as_sequence st + 1) u32_limit" and ?cp = "pr_action p = CompactAction"
  let ?call = "engine_invocation p (if ?cp then CompactionSummaryCall else ChatCall) (attempt_call_id p (tf_index f) ?seq)
      (tf_index f) (as_request st)"
  define rest where "rest = (\<lambda>q :: call_end \<times> batch list. case q of (k, pending) \<Rightarrow>
      (case k of CallStopped out \<Rightarrow> abind (tell_quietly CycleInterrupted) (\<lambda>_. astop out)
       | CallBroken b r \<Rightarrow> abind (report_usage (outcome_usage r) (tf_anchored f)) (\<lambda>_. break_in v p pending b)
       | CallOver (Inr cycle) \<Rightarrow> call_succeeded v p settings f cycle (st\<lparr>as_sequence := ?seq, as_pending := pending\<rparr>)
       | CallOver (Inl problem) \<Rightarrow> call_failed v p settings f a problem (st\<lparr>as_sequence := ?seq, as_pending := pending\<rparr>)))"
  obtain t y where t: "model_call v (\<not> ?cp) running_refusal ?call (ai_call a) (as_pending st) e = (t, y)" by force
  have y: "asked y \<le> asked e + 1" "en_detail_retry y = en_detail_retry e"
    using model_call_asks[of v "\<not> ?cp" running_refusal ?call "ai_call a" "as_pending st", unfolded asks_at_most_def, rule_format, of e] t
    by simp_all
  have run: "abind (model_call v (\<not> ?cp) running_refusal ?call (ai_call a) (as_pending st)) rest e = (r, e')"
    using assms unfolding attempt_def rest_def Let_def .
  have bound: "asked e' \<le> asked y + 2 \<and> (r = Done (RetryCall st') \<longrightarrow> asked e' \<le> asked y
      \<and> (as_retries st < 8 \<and> as_retries st' = Suc (as_retries st) \<and> en_detail_retry e' = en_detail_retry y
        \<or> ?cp \<and> \<not> en_detail_retry y \<and> en_detail_retry e' \<and> as_retries st' = as_retries st))"
  proof (cases t)
    case (Done q)
    obtain k pending where q: "q = (k, pending)" by force
    have g: "rest (k, pending) y = (r, e')" using run t Done q by (simp add: abind_def)
    show ?thesis
    proof (cases k)
      case (CallOver o')
      show ?thesis
      proof (cases o')
        case (Inl problem)
        have c: "call_failed v p settings f a problem (st\<lparr>as_sequence := ?seq, as_pending := pending\<rparr>) y = (r, e')"
          using g CallOver Inl by (simp add: rest_def)
        have "asked e' \<le> asked y + 2" "en_detail_retry e' = en_detail_retry y"
          using call_failed_asks[of v p settings f a problem "st\<lparr>as_sequence := ?seq, as_pending := pending\<rparr>",
              unfolded asks_at_most_def, rule_format, of y] c by simp_all
        moreover have "asked e' \<le> asked y \<and> as_retries st < 8 \<and> as_retries st' = Suc (as_retries st)" if "r = Done (RetryCall st')"
          using call_failed_again[of v p settings f a problem "st\<lparr>as_sequence := ?seq, as_pending := pending\<rparr>" y st' e'] c that
            should_retry_limit call_failed_retry_silent by auto
        ultimately show ?thesis by blast
      next
        case (Inr cycle)
        have c: "call_succeeded v p settings f cycle (st\<lparr>as_sequence := ?seq, as_pending := pending\<rparr>) y = (r, e')"
          using g CallOver Inr by (simp add: rest_def)
        then have "asked e' = asked y"
          using call_succeeded_asks_nothing[of v p settings f cycle "st\<lparr>as_sequence := ?seq, as_pending := pending\<rparr>" y] by (simp add: asked_def)
        then show ?thesis using call_succeeded_again_detail[of v p settings f cycle "st\<lparr>as_sequence := ?seq, as_pending := pending\<rparr>" y st' e'] c
          by auto
      qed
    next
      case (CallBroken b o')
      have "confined silent (rest (k, pending))" unfolding CallBroken rest_def prod.case call_end.case
        by (intro silent_basics break_in_silent)
      then have "asked e' = asked y" using g by (auto simp: confined_def silent_def asked_def dest: spec[of _ y])
      moreover have "r \<noteq> Done (RetryCall st')"
        using g CallBroken break_in_again[where b = b] by (cases b) (auto simp: rest_def)
      ultimately show ?thesis by simp
    next
      case (CallStopped out)
      have "confined silent (rest (k, pending))" unfolding CallStopped rest_def prod.case call_end.case
        by (intro silent_basics)
      then have "asked e' = asked y" using g by (auto simp: confined_def silent_def asked_def dest: spec[of _ y])
      then show ?thesis using g CallStopped by (auto simp: rest_def)
    qed
  qed (use run t in \<open>auto simp: abind_def\<close>)
  show "asked e' \<le> asked e + 3" using bound y by linarith
  show "r = Done (RetryCall st') \<Longrightarrow> asked e' \<le> asked e + 1 \<and>
       (as_retries st < 8 \<and> as_retries st' = Suc (as_retries st) \<and> en_detail_retry e' = en_detail_retry e
        \<or> pr_action p = CompactAction \<and> \<not> en_detail_retry e \<and> en_detail_retry e' \<and> as_retries st' = as_retries st)"
    using bound y by auto
qed

lemma attempts_ask:
  assumes "as_retries st \<le> 8"
  shows "asked (snd (attempts v p settings f as st e))
    \<le> asked e + (9 - as_retries st) + 2 + of_bool (pr_action p = CompactAction \<and> \<not> en_detail_retry e)"
  using assms
proof (induction "as" arbitrary: st e)
  case (Cons a as)
  obtain r e1 where r: "attempt v p settings f a st e = (r, e1)" by force
  show ?case
  proof (cases "\<exists>st'. r = Done (RetryCall st')")
    case True
    then obtain st' where st: "r = Done (RetryCall st')" by blast
    note c = attempt_asks(2)[OF r st]
    have "as_retries st' \<le> 8" using c Cons.prems by auto
    note ih = Cons.IH[OF this, of e1]
    have "attempts v p settings f (a # as) st e = attempts v p settings f as st' e1" using r st by (simp add: abind_def)
    then show ?thesis using ih c Cons.prems by (elim conjE disjE) (auto split: if_splits)
  next
    case False
    then have "snd (attempts v p settings f (a # as) st e) = e1"
      using r by (auto simp: abind_def areturn_def split: progress.split attempt_end.split)
    then show ?thesis using attempt_asks(1)[OF r] Cons.prems by simp
  qed
qed (simp add: awaiting_def)


section \<open>A turn asks a bounded number of times\<close>

definition turn_bound :: "prompted_run \<Rightarrow> nat" where
  "turn_bound p = (if pr_action p = CompactAction then 12 else 11)"

definition requests_at_most :: "nat \<Rightarrow> 'a eact \<Rightarrow> bool" where
  "requests_at_most n m \<longleftrightarrow> (\<forall>e. asked (snd (m e)) \<le> asked e + n)"

lemma requests_bind: "requests_at_most n m \<Longrightarrow> (\<And>a. requests_at_most k (f a)) \<Longrightarrow> requests_at_most (n + k) (abind m f)"
  unfolding requests_at_most_def
proof
  fix e assume m: "\<forall>e. asked (snd (m e)) \<le> asked e + n" and f: "\<And>a. \<forall>e. asked (snd (f a e)) \<le> asked e + k"
  obtain r y where r: "m e = (r, y)" by force
  then have y: "asked y \<le> asked e + n" using m[rule_format, of e] by simp
  show "asked (snd (abind m f e)) \<le> asked e + (n + k)"
  proof (cases r)
    case (Done a)
    then show ?thesis using f[of a, rule_format, of y] r y by (simp add: abind_def)
  qed (use r y in \<open>simp_all add: abind_def\<close>)
qed

lemma silent_requests: "confined silent m \<Longrightarrow> requests_at_most n m"
  using silent_asks[of m] unfolding asks_at_most_def requests_at_most_def by (metis add_0_right le_add1 order_trans)

lemma requests_after:
  assumes "confined silent m" "\<And>a. requests_at_most k (f a)" shows "requests_at_most k (abind m f)"
  using requests_bind[OF silent_requests[OF assms(1), where n = 0] assms(2)] by simp

lemma requests_before:
  assumes "requests_at_most n m" "\<And>a. confined silent (f a)" shows "requests_at_most n (abind m f)"
  using requests_bind[OF assms(1) silent_requests[OF assms(2), where n = 0]] by simp

lemma insert_some_silent: "confined silent (insert_some v p bs)"
  unfolding insert_some_def by (intro silent_basics silent_steps)

lemma closing_silent: "confined silent (closing_insertions drain)"
  unfolding closing_insertions_def by (intro silent_basics)

lemma await_background_silent: "confined silent (await_background v p started ts s)"
proof (induction ts arbitrary: s)
  case (Cons t ts)
  show ?case unfolding await_background.simps Let_def
    by (intro silent_basics insert_some_silent)
      (auto split: wait_event.split option.split run_command.split intro!: silent_basics Cons)
qed (simp add: silent_basics)

lemma turn_ends_silent:
  "confined silent (finish_turn v p ti f cycle pending)" "confined silent (finish_compaction v p settings ti f cycle pending)"
  "confined silent (run_round v p rd bs inp)" "confined silent (turn_request v p settings ms h i)"
  unfolding finish_turn_def wait_for_children_def finish_compaction_def manual_summary_def run_round_def turn_request_def Let_def
  by (intro silent_basics silent_steps insert_some_silent closing_silent await_background_silent)+

lemma attempts_requests:
  "requests_at_most (turn_bound p) (attempts v p settings f as \<lparr>as_retries = 0, as_sequence = 0, as_pending = [], as_request = q\<rparr>)"
  unfolding requests_at_most_def
proof
  fix e
  show "asked (snd (attempts v p settings f as \<lparr>as_retries = 0, as_sequence = 0, as_pending = [], as_request = q\<rparr> e)) \<le> asked e + turn_bound p"
    using attempts_ask[of "\<lparr>as_retries = 0, as_sequence = 0, as_pending = [], as_request = q\<rparr>" v p settings f "as" e]
    by (cases "pr_action p = CompactAction"; cases "en_detail_retry e") (simp_all add: turn_bound_def)
qed

lemma preflight_requests: "requests_at_most (turn_bound p) (preflight_compact v settings est ms inp)"
proof -
  have c: "requests_at_most (turn_bound p) (auto_compact v r settings q ms inp)" for r q
    using auto_compact_asks[of v r settings q ms inp] unfolding asks_at_most_def requests_at_most_def turn_bound_def
    by (auto intro: order_trans)
  show ?thesis unfolding preflight_compact_def
    apply (rule requests_after, rule silent_plain)
    apply (rule requests_after, rule silent_plain)
    apply (rule requests_before, rule c)
    by (intro silent_basics silent_modify)
qed

lemma answered_requests:
  "requests_at_most (turn_bound p)
      (abind (attempts v p settings f (ti_attempts ti) \<lparr>as_retries = 0, as_sequence = 0, as_pending = [], as_request = request\<rparr>) (\<lambda>r.
                case r of
                  None \<Rightarrow> areturn ()
                | Some (cycle, pending) \<Rightarrow>
                    abind (report_usage (cr_usage cycle) (tf_anchored f)) (\<lambda>_.
                      if pr_action p = CompactAction then finish_compaction v p settings ti f cycle pending
                      else if cr_calls cycle = [] then finish_turn v p ti f cycle pending
                      else run_round v p (round_of_cycle p f cycle) pending (ti_round ti))))"
  by (rule requests_before[OF attempts_requests]) (intro silent_basics turn_ends_silent)

lemma estimated_requests:
  "requests_at_most (turn_bound p) (case o' of Some est \<Rightarrow> preflight_compact v settings est ms (ti_preflight ti)
          | None \<Rightarrow> abind (transact v (\<lambda>now. begin_provider_call now (pr_run_id p))) (\<lambda>index.
              abind (turn_request v p settings ms projected index) (\<lambda>(f, request).
              abind (attempts v p settings f (ti_attempts ti)
                       \<lparr>as_retries = 0, as_sequence = 0, as_pending = [], as_request = request\<rparr>) (\<lambda>r.
                case r of
                  None \<Rightarrow> areturn ()
                | Some (cycle, pending) \<Rightarrow>
                    abind (report_usage (cr_usage cycle) (tf_anchored f)) (\<lambda>_.
                      if pr_action p = CompactAction then finish_compaction v p settings ti f cycle pending
                      else if cr_calls cycle = [] then finish_turn v p ti f cycle pending
                      else run_round v p (round_of_cycle p f cycle) pending (ti_round ti))))))"
proof (cases o')
  case None
  show ?thesis unfolding None option.case
    apply (rule requests_after, rule silent_plain)
    apply (rule requests_after, rule turn_ends_silent)
    subgoal for i q by (cases q) (simp only: prod.case, rule answered_requests)
    done
qed (simp add: preflight_requests)

lemma model_turn_requests: "requests_at_most (turn_bound p) (model_turn v p settings ti)"
proof (cases "ti_cancelled ti")
  case True
  then show ?thesis by (simp add: model_turn_def requests_at_most_def astop_def)
next
  case False
  show ?thesis unfolding model_turn_def if_not_P[OF False]
    apply (rule requests_after, rule silent_steps)
    apply (rule requests_after, rule silent_plain)
    apply (rule requests_after, rule silent_plain)
    by (rule estimated_requests)
qed

text \<open>
  C17: one turn of the engine asks the provider a bounded number of times, whatever fails and however long its inputs: at most
  nine attempts and the two summary calls of a compaction, and for a compaction run one more request for a longer summary.
\<close>
theorem turn_asks_boundedly:
  "length (en_requests (snd (model_turn v p settings ti e)))
    \<le> length (en_requests e) + (if pr_action p = CompactAction then 12 else 11)"
  using model_turn_requests[of p v settings ti, unfolded requests_at_most_def, rule_format, of e]
  by (simp add: turn_bound_def asked_def)

end
