(* ===== verification/Providers.thy ===== *)
theory Providers
  imports ModelCycle ModelConfig EditTools
begin

text \<open>
  What the provider adapters share (src/server/src/provider/mod.rs, request_template.rs, router.rs and the sending of
  src/server/src/upstream.rs as they see it): access to JSON values, errors inside a stream, the parameters of a
  request body, and the loop of an adapter over server-sent events. An adapter's stream is the list of items it
  yields, with whether it has ended. The recorder, the HTTP client and the parser of server-sent events are outside:
  what they deliver or refuse is input.
\<close>

section \<open>JSON values\<close>

text \<open>\<open>Value::pointer\<close> on the names of members; \<open>as_str\<close>, \<open>as_u64\<close> and \<open>as_array\<close>.\<close>

fun json_at :: "json \<Rightarrow> string list \<Rightarrow> json option" where
  "json_at v [] = Some v"
| "json_at v (k # ks) = (case json_member v k of None \<Rightarrow> None | Some w \<Rightarrow> json_at w ks)"

definition as_str :: "json \<Rightarrow> string option" where
  "as_str v = (case v of JStr s \<Rightarrow> Some s | _ \<Rightarrow> None)"

definition as_u64 :: "json \<Rightarrow> nat option" where
  "as_u64 v = (case v of JNum t \<Rightarrow> parse_u64 t | _ \<Rightarrow> None)"

definition as_array :: "json \<Rightarrow> json list option" where
  "as_array v = (case v of JArr vs \<Rightarrow> Some vs | _ \<Rightarrow> None)"

definition string_at :: "json \<Rightarrow> string list \<Rightarrow> string option" where
  "string_at v ks = Option.bind (json_at v ks) as_str"

definition u64_at :: "json \<Rightarrow> string list \<Rightarrow> nat option" where
  "u64_at v ks = Option.bind (json_at v ks) as_u64"

definition member_or_null :: "json \<Rightarrow> string \<Rightarrow> json" where
  "member_or_null v k = (case json_member v k of Some w \<Rightarrow> w | None \<Rightarrow> JNull)"

definition not_null :: "json option \<Rightarrow> json option" where
  "not_null v = (if v = Some JNull then None else v)"

definition not_empty :: "string option \<Rightarrow> string option" where
  "not_empty s = (if s = Some [] then None else s)"

text \<open>Fallible conversion of a list, up to the first error.\<close>

fun all_ok :: "('a \<Rightarrow> 'b result) \<Rightarrow> 'a list \<Rightarrow> 'b list result" where
  "all_ok f [] = Inr []"
| "all_ok f (x # xs) = rbind (f x) (\<lambda>y. rbind (all_ok f xs) (\<lambda>ys. Inr (y # ys)))"

text \<open>An object literal: its members in the order of their keys.\<close>

definition json_object :: "(string \<times> json) list \<Rightarrow> json" where
  "json_object kvs = fold (\<lambda>(k, v). set_member k v) kvs (JObj [])"

text \<open>Every string of a value rewritten; names of members are left alone.\<close>

definition session_id_placeholder :: string where "session_id_placeholder = ''{{SessionId}}''"

fun render_json_strings :: "string \<Rightarrow> json \<Rightarrow> json" where
  "render_json_strings conversation (JStr v) = JStr (replace_all session_id_placeholder conversation v)"
| "render_json_strings conversation (JArr vs) = JArr (map (render_json_strings conversation) vs)"
| "render_json_strings conversation (JObj kvs) = JObj (map (\<lambda>(k, v). (k, render_json_strings conversation v)) kvs)"
| "render_json_strings conversation v = v"


section \<open>Errors in a stream\<close>

definition provider_event_error :: "string \<Rightarrow> json \<Rightarrow> error option" where
  "provider_event_error label v =
     (let kind = string_arg v ''type'';
          direct = not_null (json_member v ''error'')
      in if kind \<noteq> Some ''error'' \<and> kind \<noteq> Some ''response.failed'' \<and> direct = None then None
         else Some (Provider (label @ '' error: '' @
           (case first_of (string_arg v ''message'')
                 (first_of (string_at v [''error'', ''message''])
                 (first_of (string_at v [''response'', ''error'', ''message''])
                 (first_of (Option.bind direct as_str)
                           (string_at v [''response'', ''error''])))) of
              Some m \<Rightarrow> m
            | None \<Rightarrow> ''provider returned an error event without a message''))))"

datatype stream_error = Transport error | Utf8Error string | ParserError string

fun map_sse_error :: "string \<Rightarrow> stream_error \<Rightarrow> error" where
  "map_sse_error label (Transport e) = e"
| "map_sse_error label (Utf8Error m) = Provider (label @ '' SSE UTF-8 error: '' @ m)"
| "map_sse_error label (ParserError m) = Provider (label @ '' SSE parse error: '' @ m)"


section \<open>Request bodies\<close>

text \<open>The members of the model of a request that the adapters send but the engine does not look at.\<close>

record wire_spec = model_spec +
  ws_fast :: bool
  ws_extra :: json
  ws_stops :: "string list"

definition reserved_params :: "string list" where
  "reserved_params =
     [''model'', ''stream'', ''messages'', ''input'', ''tools'', ''system'', ''instructions'', ''prompt_cache_key'']"

definition merge_extra_params :: "json \<Rightarrow> json \<Rightarrow> json result" where
  "merge_extra_params body extra =
     (case extra of
        JObj kvs \<Rightarrow>
          (if \<not> is_object body then Inl (Provider ''provider request body must be an object'')
           else fold_ok (\<lambda>(name, v) body.
                  if name \<in> set reserved_params then Inl (Config (''model extra params cannot replace '' @ name))
                  else Inr (set_member name v body)) kvs body)
      | _ \<Rightarrow> Inl (Config ''model extra params must be an object''))"

definition apply_openai_prompt_cache_key :: "json \<Rightarrow> string \<Rightarrow> json result" where
  "apply_openai_prompt_cache_key body model_id =
     (if \<not> contains (to_ascii_lowercase model_id) ''gpt'' then Inr body
      else if \<not> is_object body then Inl (Provider ''provider request body must be an object'')
      else Inr (set_member ''prompt_cache_key'' (JStr ''cursor-byok'') body))"

definition openai_body :: "wire_spec \<Rightarrow> json \<Rightarrow> json result" where
  "openai_body spec body =
     rbind (merge_extra_params body (ws_extra spec)) (\<lambda>body. apply_openai_prompt_cache_key body (ms_model_id spec))"

text \<open>\<open>data:{mime_type};base64,{..}\<close>.\<close>

definition data_url :: "(bytes \<Rightarrow> string) \<Rightarrow> string \<Rightarrow> bytes \<Rightarrow> string" where
  "data_url b64 mime data = ''data:'' @ mime @ '';base64,'' @ b64 data"

definition image_url :: "(bytes \<Rightarrow> string) \<Rightarrow> content_part \<Rightarrow> string" where
  "image_url b64 p = (case p of PImage mime data \<Rightarrow> data_url b64 mime data | PText _ \<Rightarrow> [])"


section \<open>The loop of an adapter\<close>

record sse_event =
  sse_name :: string
  sse_data :: string

text \<open>What an adapter waits for, and what it does with an event: go on, leave the loop, or fail.\<close>

datatype sse_input = SseEvent sse_event | SseFailed stream_error | SseCancelled | SseClosed

datatype 's flow = GoesOn 's | Leaves 's | Fails error

type_synonym 's step = "model_event list \<times> 's flow"

definition followed_by :: "model_event list \<times> 's \<Rightarrow> ('s \<Rightarrow> 's step) \<Rightarrow> 's step" where
  "followed_by p f = (let (out', flow) = f (snd p) in (fst p @ out', flow))"

definition step_on :: "'s \<Rightarrow> 's step" where
  "step_on s = ([], GoesOn s)"

text \<open>A value that an event must have.\<close>

definition with_value :: "'a result \<Rightarrow> ('a \<Rightarrow> 's step) \<Rightarrow> 's step" where
  "with_value v f = (case v of Inl e \<Rightarrow> ([], Fails e) | Inr x \<Rightarrow> f x)"

type_synonym items = "(error + model_event) list \<times> bool"

definition yields :: "model_event list \<Rightarrow> items \<Rightarrow> items" where
  "yields out rest = (map Inr out @ fst rest, snd rest)"

definition ends_with :: "model_event list \<times> error option \<Rightarrow> items" where
  "ends_with c = (map Inr (fst c) @ (case snd c of None \<Rightarrow> [] | Some e \<Rightarrow> [Inl e]), True)"

fun adapter_loop ::
    "string \<Rightarrow> (sse_event \<Rightarrow> 's \<Rightarrow> model_event list \<times> 's flow) \<Rightarrow> ('s \<Rightarrow> model_event list \<times> error option)
     \<Rightarrow> sse_input list \<Rightarrow> 's \<Rightarrow> items" where
  "adapter_loop label event close [] s = ([], False)"
| "adapter_loop label event close (SseCancelled # inputs) s = ([], True)"
| "adapter_loop label event close (SseClosed # inputs) s = ends_with (close s)"
| "adapter_loop label event close (SseFailed e # inputs) s = ends_with ([], Some (map_sse_error label e))"
| "adapter_loop label event close (SseEvent e # inputs) s =
     (case event e s of
        (out, GoesOn s') \<Rightarrow> yields out (adapter_loop label event close inputs s')
      | (out, Leaves s') \<Rightarrow> yields out (ends_with (close s'))
      | (out, Fails err) \<Rightarrow> ends_with (out, Some err))"

text \<open>
  The stream of an adapter: a body that cannot be built and a request that fails end it at once, a cancellation
  while sending ends it silently; after that it starts.
\<close>

datatype sending = Accepted | SendCancelled | Refused error

definition adapter_stream :: "json result \<Rightarrow> sending \<Rightarrow> string \<Rightarrow> items \<Rightarrow> items" where
  "adapter_stream body sent cid loop =
     (case body of
        Inl e \<Rightarrow> ([Inl e], True)
      | Inr _ \<Rightarrow>
          (case sent of
             Refused e \<Rightarrow> ([Inl e], True)
           | SendCancelled \<Rightarrow> ([], True)
           | Accepted \<Rightarrow> yields [EStart cid] loop))"

end
