(* ===== verification/OpenAiChat.thy ===== *)
theory OpenAiChat
  imports Providers
begin

text \<open>
  The OpenAI Chat Completions adapter (src/server/src/provider/openai_chat.rs): the request it sends, and how it
  turns the chunks of the answer into model events. The state is that of the loop in \<open>stream\<close>; the parser of
  JSON, its printer and base64 are arguments.
\<close>

section \<open>The request\<close>

fun chat_role_name :: "role \<Rightarrow> string" where
  "chat_role_name RSystem = ''system''"
| "chat_role_name RUser = ''user''"
| "chat_role_name RAssistant = ''assistant''"
| "chat_role_name RTool = ''tool''"

definition is_text_part :: "content_part \<Rightarrow> bool" where
  "is_text_part p = (case p of PText _ \<Rightarrow> True | PImage _ _ \<Rightarrow> False)"

definition part_text :: "content_part \<Rightarrow> string" where
  "part_text p = (case p of PText t \<Rightarrow> t | PImage _ _ \<Rightarrow> [])"

definition chat_part :: "(bytes \<Rightarrow> string) \<Rightarrow> content_part \<Rightarrow> json" where
  "chat_part b64 p =
     (case p of
        PText t \<Rightarrow> json_object [(''type'', JStr ''text''), (''text'', JStr t)]
      | PImage _ _ \<Rightarrow>
          json_object [(''type'', JStr ''image_url''), (''image_url'', json_object [(''url'', JStr (image_url b64 p))])])"

definition chat_content :: "(bytes \<Rightarrow> string) \<Rightarrow> content_part list \<Rightarrow> json" where
  "chat_content b64 ps =
     (if list_all is_text_part ps then JStr (concat (map part_text ps)) else JArr (map (chat_part b64) ps))"

definition openai_tool_call :: "(json \<Rightarrow> string) \<Rightarrow> tool_call_content \<Rightarrow> json" where
  "openai_tool_call render k =
     json_object [(''id'', JStr (tc_call_id k)), (''type'', JStr ''function''),
       (''function'', json_object [(''name'', JStr (tc_name k)), (''arguments'', JStr (render (tc_arguments k)))])]"

definition chat_replay_reasoning :: "provider_replay_state option \<Rightarrow> string option" where
  "chat_replay_reasoning state =
     (case state of
        None \<Rightarrow> None
      | Some st \<Rightarrow>
          (if rp_provider_kind st = ''openai_chat'' then not_empty (string_arg (rp_value st) ''reasoning_content'') else None))"

text \<open>One message; None where the loop goes on without one.\<close>

definition chat_message :: "(json \<Rightarrow> string) \<Rightarrow> (bytes \<Rightarrow> string) \<Rightarrow> projected \<Rightarrow> json option" where
  "chat_message render b64 m =
     (let role = (''role'', JStr (chat_role_name (pm_role m)))
      in case pm_content m of
        ProjParts ps \<Rightarrow>
          (let content = chat_content b64 ps
           in if content = JStr [] \<or> content = JArr [] then None else Some (json_object [role, (''content'', content)]))
      | ProjAssistant t _ replay calls \<Rightarrow>
          (if t = [] \<and> calls = [] then None
           else Some (json_object
             ([role, (''content'', if t = [] then JNull else JStr t)]
              @ (case chat_replay_reasoning replay of None \<Rightarrow> [] | Some r \<Rightarrow> [(''reasoning_content'', JStr r)])
              @ (if calls = [] then [] else [(''tool_calls'', JArr (map (openai_tool_call render) calls))]))))
      | ProjToolResult r \<Rightarrow>
          Some (json_object
            [role,
             (''content'', if tr_provider_parts r = [] then JStr (tr_content r) else chat_content b64 (tr_provider_parts r)),
             (''tool_call_id'', JStr (tr_call_id r))]))"

definition openai_chat_messages ::
    "(json \<Rightarrow> string) \<Rightarrow> (bytes \<Rightarrow> string) \<Rightarrow> string \<Rightarrow> projected list \<Rightarrow> json list" where
  "openai_chat_messages render b64 instructions messages =
     (if instructions = [] then []
      else [json_object [(''role'', JStr ''system''), (''content'', JStr instructions)]])
     @ List.map_filter (chat_message render b64) messages"

definition chat_tool :: "tool_definition \<Rightarrow> json" where
  "chat_tool t =
     json_object [(''type'', JStr ''function''),
       (''function'', json_object
          [(''name'', JStr (td_name t)), (''description'', JStr (td_description t)), (''parameters'', td_parameters t)])]"

definition optional_member :: "string \<Rightarrow> json option \<Rightarrow> json \<Rightarrow> json" where
  "optional_member key v body = (case v of None \<Rightarrow> body | Some w \<Rightarrow> set_member key w body)"

definition chat_apply_model :: "wire_spec \<Rightarrow> nat option \<Rightarrow> json \<Rightarrow> json result" where
  "chat_apply_model spec route_max body =
     (if \<not> is_object body then Inl (Provider ''OpenAI Chat request body is not an object'')
      else Inr
        (optional_member ''service_tier'' (if ws_fast spec then Some (JStr ''fast'') else None)
        (optional_member ''reasoning_effort'' (map_option JStr (rs_effort (ms_reasoning spec)))
        (optional_member ''max_completion_tokens''
           (map_option (\<lambda>n. JNum (show_nat n)) (first_of (ms_max_output_tokens spec) route_max)) body))))"

definition chat_body ::
    "(json \<Rightarrow> string) \<Rightarrow> (bytes \<Rightarrow> string) \<Rightarrow> prompt_spec \<Rightarrow> wire_spec \<Rightarrow> nat option \<Rightarrow> projected list \<Rightarrow> json result" where
  "chat_body render b64 prompt spec route_max history =
     (let messages = openai_chat_messages render b64 (ps_instructions prompt) history;
          body = json_object [(''model'', JStr (ms_model_id spec)), (''messages'', JArr messages), (''stream'', JBool True),
                              (''stream_options'', json_object [(''include_usage'', JBool True)])];
          body = optional_member ''tools''
                   (if ps_tools prompt = [] then None else Some (JArr (map chat_tool (ps_tools prompt)))) body;
          body = optional_member ''stop''
                   (if ws_stops spec = [] then None else Some (JArr (map JStr (take 4 (ws_stops spec))))) body
      in rbind (chat_apply_model spec route_max body) (openai_body spec))"


section \<open>The answer\<close>

record chat_tool_state =
  ct_id :: string
  ct_name :: string
  ct_arguments :: string
  ct_emitted :: nat
  ct_started :: bool

definition chat_tool_new :: chat_tool_state where
  "chat_tool_new = \<lparr>ct_id = [], ct_name = [], ct_arguments = [], ct_emitted = 0, ct_started = False\<rparr>"

record chat_stream =
  ch_text_open :: bool
  ch_thinking_open :: bool
  ch_reasoning :: string
  ch_tools :: "(nat \<times> chat_tool_state) list"
  ch_usage :: "usage option"
  ch_finish :: "finish_reason option"
  ch_done :: bool

definition chat_new :: chat_stream where
  "chat_new =
     \<lparr>ch_text_open = False, ch_thinking_open = False, ch_reasoning = [], ch_tools = [], ch_usage = None,
      ch_finish = None, ch_done = False\<rparr>"

definition merge_chat_fragment :: "string \<Rightarrow> string \<Rightarrow> string" where
  "merge_chat_fragment target fragment =
     (if starts_with target fragment then target
      else if starts_with fragment target then fragment
      else target @ fragment)"

definition merge_optional :: "string \<Rightarrow> string option \<Rightarrow> string" where
  "merge_optional target fragment = (case fragment of None \<Rightarrow> target | Some f \<Rightarrow> merge_chat_fragment target f)"

definition openai_usage :: "json \<Rightarrow> usage" where
  "openai_usage v =
     (let input = u64_at v [''prompt_tokens'']
      in \<lparr>input_tokens = input, context_input_tokens = input, output_tokens = u64_at v [''completion_tokens''],
          total_tokens = u64_at v [''total_tokens''],
          cache_read_tokens = u64_at v [''prompt_tokens_details'', ''cached_tokens''], cache_write_tokens = None,
          reasoning_tokens = u64_at v [''completion_tokens_details'', ''reasoning_tokens'']\<rparr>)"

definition map_finish :: "string \<Rightarrow> bool \<Rightarrow> finish_reason" where
  "map_finish v has_tools =
     (if v = ''tool_calls'' \<or> v = ''function_call'' then FToolUse
      else if v = ''length'' then FLength
      else if v = ''content_filter'' then FStop
      else if has_tools then FToolUse
      else FStop)"

text \<open>What a fragment adds to the tool at an index, then what of it can be told.\<close>

definition merged_tool :: "string option \<Rightarrow> string option \<Rightarrow> string option \<Rightarrow> chat_tool_state \<Rightarrow> chat_tool_state" where
  "merged_tool i n a t =
     t\<lparr>ct_id := merge_optional (ct_id t) i, ct_name := merge_optional (ct_name t) n,
       ct_arguments := merge_optional (ct_arguments t) a\<rparr>"

definition told_tool :: "nat \<Rightarrow> chat_tool_state \<Rightarrow> model_event list \<times> chat_tool_state" where
  "told_tool index t =
     (let starts = \<not> ct_started t \<and> ct_id t \<noteq> [] \<and> ct_name t \<noteq> [];
          t = (if starts then t\<lparr>ct_started := True\<rparr> else t);
          more = ct_started t \<and> ct_emitted t < length (ct_arguments t)
      in ((if starts then [EToolCallStart index (ct_id t) (ct_name t)] else [])
          @ (if more then [EToolCallArgumentsDelta index (drop (ct_emitted t) (ct_arguments t))] else []),
          if more then t\<lparr>ct_emitted := length (ct_arguments t)\<rparr> else t))"

definition update_chat_tool ::
    "nat \<Rightarrow> string option \<Rightarrow> string option \<Rightarrow> string option \<Rightarrow> (nat \<times> chat_tool_state) list
     \<Rightarrow> model_event list \<times> (nat \<times> chat_tool_state) list" where
  "update_chat_tool index i n a tools =
     (let t = (case map_of tools index of None \<Rightarrow> chat_tool_new | Some t \<Rightarrow> t);
          (out, t') = told_tool index (merged_tool i n a t)
      in (out, smap_put index t' tools))"

fun chat_tool_deltas ::
    "nat \<Rightarrow> json list \<Rightarrow> (nat \<times> chat_tool_state) list \<Rightarrow> model_event list \<times> (nat \<times> chat_tool_state) list" where
  "chat_tool_deltas position [] tools = ([], tools)"
| "chat_tool_deltas position (tool # rest) tools =
     (let index = (case u64_arg tool ''index'' of None \<Rightarrow> position | Some i \<Rightarrow> i);
          function = member_or_null tool ''function'';
          (out, tools') = update_chat_tool index (string_arg tool ''id'') (string_arg function ''name'')
                            (string_arg function ''arguments'') tools;
          (out', tools'') = chat_tool_deltas (Suc position) rest tools'
      in (out @ out', tools''))"

text \<open>The parts of a delta: reasoning, content, tool calls, and the reason to finish.\<close>

definition delta_reasoning :: "json \<Rightarrow> string option" where
  "delta_reasoning delta =
     not_empty (Option.bind (first_of (json_member delta ''reasoning_content'') (json_member delta ''reasoning'')) as_str)"

definition chat_reasoning :: "json \<Rightarrow> chat_stream \<Rightarrow> model_event list \<times> chat_stream" where
  "chat_reasoning delta s =
     (case delta_reasoning delta of
        None \<Rightarrow> ([], s)
      | Some t \<Rightarrow>
          ((if ch_thinking_open s then [] else [EThinkingStart]) @ [EThinkingDelta t],
           s\<lparr>ch_thinking_open := True, ch_reasoning := ch_reasoning s @ t\<rparr>))"

definition chat_text :: "json \<Rightarrow> chat_stream \<Rightarrow> model_event list \<times> chat_stream" where
  "chat_text delta s =
     (case not_empty (string_arg delta ''content'') of
        None \<Rightarrow> ([], s)
      | Some t \<Rightarrow>
          ((if ch_thinking_open s then [EThinkingEnd] else []) @ (if ch_text_open s then [] else [ETextStart]) @ [ETextDelta t],
           s\<lparr>ch_thinking_open := False, ch_text_open := True\<rparr>))"

definition chat_tool_calls :: "json \<Rightarrow> chat_stream \<Rightarrow> model_event list \<times> chat_stream" where
  "chat_tool_calls delta s =
     (case Option.bind (json_member delta ''tool_calls'') as_array of
        None \<Rightarrow> ([], s)
      | Some deltas \<Rightarrow> (let (out, tools) = chat_tool_deltas 0 deltas (ch_tools s) in (out, s\<lparr>ch_tools := tools\<rparr>)))"

definition chat_finish :: "json \<Rightarrow> chat_stream \<Rightarrow> chat_stream" where
  "chat_finish choice s =
     (case string_arg choice ''finish_reason'' of
        None \<Rightarrow> s
      | Some r \<Rightarrow> s\<lparr>ch_finish := Some (map_finish r (ch_tools s \<noteq> []))\<rparr>)"

definition chat_chunk :: "json \<Rightarrow> chat_stream \<Rightarrow> model_event list \<times> chat_stream" where
  "chat_chunk v s =
     (let s = (case not_null (json_member v ''usage'') of None \<Rightarrow> s | Some u \<Rightarrow> s\<lparr>ch_usage := Some (openai_usage u)\<rparr>)
      in case Option.bind (json_member v ''choices'') as_array of
        Some (choice # _) \<Rightarrow>
          (let delta = member_or_null choice ''delta'';
               (out1, s) = chat_reasoning delta s;
               (out2, s) = chat_text delta s;
               (out3, s) = chat_tool_calls delta s
           in (out1 @ out2 @ out3, chat_finish choice s))
      | _ \<Rightarrow> ([], s))"

definition chat_event ::
    "(string \<Rightarrow> string + json) \<Rightarrow> sse_event \<Rightarrow> chat_stream \<Rightarrow> model_event list \<times> chat_stream flow" where
  "chat_event parse e s =
     (if sse_data e = ''[DONE]'' then ([], Leaves (s\<lparr>ch_done := True\<rparr>))
      else case parse (sse_data e) of
        Inl m \<Rightarrow> ([], Fails (Json m))
      | Inr v \<Rightarrow>
          (case provider_event_error ''OpenAI Chat'' v of
             Some err \<Rightarrow> ([], Fails err)
           | None \<Rightarrow> (let (out, s') = chat_chunk v s in (out, GoesOn s'))))"

text \<open>After the loop: every block is closed, tools that could not start yet are started.\<close>

definition close_tool :: "nat \<Rightarrow> chat_tool_state \<Rightarrow> error + model_event list" where
  "close_tool index t =
     (if ct_started t then Inr [EToolCallEnd index]
      else if ct_name t = [] then Inl (Provider ''OpenAI Chat tool call is missing name'')
      else
        (let i = (if ct_id t = [] then ''call-'' @ show_nat index else ct_id t)
         in Inr ([EToolCallStart index i (ct_name t)]
                 @ (if ct_arguments t = [] then [] else [EToolCallArgumentsDelta index (ct_arguments t)])
                 @ [EToolCallEnd index])))"

fun close_tools :: "(nat \<times> chat_tool_state) list \<Rightarrow> model_event list \<times> error option" where
  "close_tools [] = ([], None)"
| "close_tools ((index, t) # rest) =
     (case close_tool index t of
        Inl e \<Rightarrow> ([], Some e)
      | Inr out \<Rightarrow> (let (out', err) = close_tools rest in (out @ out', err)))"

definition chat_replay :: "chat_stream \<Rightarrow> model_event list" where
  "chat_replay s =
     (if ch_reasoning s = [] then []
      else [EReplayState \<lparr>rp_provider_kind = ''openai_chat'',
              rp_value = json_object [(''reasoning_content'', JStr (ch_reasoning s))]\<rparr>])"

definition chat_reason :: "chat_stream \<Rightarrow> finish_reason option" where
  "chat_reason s =
     first_of (ch_finish s) (if ch_done s then Some (if ch_tools s = [] then FStop else FToolUse) else None)"

definition chat_close :: "chat_stream \<Rightarrow> model_event list \<times> error option" where
  "chat_close s =
     (let open_blocks = (if ch_thinking_open s then [EThinkingEnd] else []) @ (if ch_text_open s then [ETextEnd] else []);
          (out, err) = close_tools (ch_tools s)
      in case err of
        Some e \<Rightarrow> (open_blocks @ out, Some e)
      | None \<Rightarrow>
          (let rest = open_blocks @ out @ (case ch_usage s of None \<Rightarrow> [] | Some u \<Rightarrow> [EUsage u]) @ chat_replay s
           in case chat_reason s of
                None \<Rightarrow> (rest, Some (Provider ''OpenAI Chat stream ended without finish_reason''))
              | Some r \<Rightarrow> (rest @ [EDone r], None)))"

definition openai_chat_loop :: "(string \<Rightarrow> string + json) \<Rightarrow> sse_input list \<Rightarrow> chat_stream \<Rightarrow> items" where
  "openai_chat_loop parse = adapter_loop ''OpenAI Chat'' (chat_event parse) chat_close"

definition openai_chat_stream ::
    "(string \<Rightarrow> string + json) \<Rightarrow> json result \<Rightarrow> sending \<Rightarrow> string \<Rightarrow> sse_input list \<Rightarrow> items" where
  "openai_chat_stream parse body sent cid inputs = adapter_stream body sent cid (openai_chat_loop parse inputs chat_new)"

end
