(* ===== verification/ProviderLaws.thy ===== *)
theory ProviderLaws
  imports Providers ModelCycleStreams
begin

text \<open>
  The protocol between the provider adapters and the consumer of a model call: which events may follow which, that the
  consumer takes every stream that keeps to it, and the interface of an adapter whose loop keeps to it.
\<close>

section \<open>The protocol\<close>

text \<open>The blocks that are open, the tool indices used with whether they have ended, what comes once only.\<close>

record blocks =
  bl_text :: bool
  bl_thinking :: bool
  bl_tools :: "nat \<Rightarrow> bool option"
  bl_usage :: bool
  bl_replay :: bool
  bl_finish :: "finish_reason option"

definition no_blocks :: blocks where
  "no_blocks =
     \<lparr>bl_text = False, bl_thinking = False, bl_tools = Map.empty, bl_usage = False, bl_replay = False, bl_finish = None\<rparr>"

text \<open>
  A legal event, after the start. Two things are tolerated of a loose adapter: arguments of a tool that has ended,
  and anything after Done.
\<close>

definition legal :: "bool \<Rightarrow> model_event \<Rightarrow> blocks \<Rightarrow> blocks option" where
  "legal loose e v =
     (if bl_finish v \<noteq> None then (if loose then Some v else None)
      else case e of
        EStart _ \<Rightarrow> None
      | ETextStart \<Rightarrow> (if bl_text v then None else Some (v\<lparr>bl_text := True\<rparr>))
      | ETextDelta _ \<Rightarrow> (if bl_text v then Some v else None)
      | ETextEnd \<Rightarrow> (if bl_text v then Some (v\<lparr>bl_text := False\<rparr>) else None)
      | EThinkingStart \<Rightarrow> (if bl_thinking v then None else Some (v\<lparr>bl_thinking := True\<rparr>))
      | EThinkingDelta _ \<Rightarrow> (if bl_thinking v then Some v else None)
      | EThinkingSignature _ \<Rightarrow> Some v
      | EThinkingEnd \<Rightarrow> (if bl_thinking v then Some (v\<lparr>bl_thinking := False\<rparr>) else None)
      | EToolCallStart i _ _ \<Rightarrow> (if bl_tools v i = None then Some (v\<lparr>bl_tools := (bl_tools v)(i \<mapsto> False)\<rparr>) else None)
      | EToolCallArgumentsDelta i _ \<Rightarrow> (if bl_tools v i = Some False \<or> loose \<and> bl_tools v i = Some True then Some v else None)
      | EToolCallEnd i \<Rightarrow> (if bl_tools v i = Some False then Some (v\<lparr>bl_tools := (bl_tools v)(i \<mapsto> True)\<rparr>) else None)
      | EReplayState _ \<Rightarrow> (if bl_replay v then None else Some (v\<lparr>bl_replay := True\<rparr>))
      | EUsage _ \<Rightarrow> (if bl_usage v then None else Some (v\<lparr>bl_usage := True\<rparr>))
      | EStopSequence _ \<Rightarrow> Some v
      | EDone r \<Rightarrow>
          (if bl_text v \<or> bl_thinking v \<or> Some False \<in> range (bl_tools v) then None else Some (v\<lparr>bl_finish := Some r\<rparr>)))"

fun legals :: "bool \<Rightarrow> model_event list \<Rightarrow> blocks \<Rightarrow> blocks option" where
  "legals loose [] v = Some v"
| "legals loose (e # es) v = (case legal loose e v of None \<Rightarrow> None | Some v' \<Rightarrow> legals loose es v')"

lemma legals_append:
  "legals loose (es @ es') v = (case legals loose es v of None \<Rightarrow> None | Some v' \<Rightarrow> legals loose es' v')"
  by (induction es arbitrary: v) (auto split: option.splits)

lemma legals_appendI:
  "legals loose es v = Some v' \<Longrightarrow> legals loose es' v' = Some v'' \<Longrightarrow> legals loose (es @ es') v = Some v''"
  by (simp add: legals_append)

lemma legals_finished: "bl_finish v \<noteq> None \<Longrightarrow> legals True es v = Some v"
  by (induction es) (simp_all add: legal_def)

text \<open>The reason given at the end fits the tools that were started.\<close>

definition fitting :: "blocks \<Rightarrow> bool" where
  "fitting v \<longleftrightarrow>
     (case bl_finish v of None \<Rightarrow> True | Some r \<Rightarrow> r = FLength \<or> ((r = FToolUse) = (bl_tools v \<noteq> Map.empty)))"


section \<open>The consumer takes legal streams\<close>

definition blocks_of :: "cycle_state \<Rightarrow> blocks" where
  "blocks_of s =
     \<lparr>bl_text = cy_text_open s, bl_thinking = (cy_thinking s \<noteq> None),
      bl_tools = (\<lambda>i. map_option ot_ended (map_of (cy_tools s) i)),
      bl_usage = (cy_usage s \<noteq> None), bl_replay = (cy_replay s \<noteq> None), bl_finish = cy_finish s\<rparr>"

definition started :: "cycle_state \<Rightarrow> bool" where
  "started s \<longleftrightarrow> cy_id s \<noteq> None \<and> smap_ok (cy_tools s)"

definition reused_id :: run_failure where "reused_id = FProtocol ''provider reused a tool call_id''"
definition after_done :: run_failure where "after_done = FProtocol ''provider emitted an event after Done''"

definition late_arguments :: run_failure where
  "late_arguments = FProtocol ''provider emitted tool arguments after ToolCallEnd''"

definition late :: "model_event \<Rightarrow> blocks \<Rightarrow> bool" where
  "late e v = (case e of EToolCallArgumentsDelta i _ \<Rightarrow> bl_tools v i = Some True | _ \<Rightarrow> False)"

definition starts_of :: "model_event \<Rightarrow> string list" where
  "starts_of e = (case e of EToolCallStart _ c _ \<Rightarrow> [c] | _ \<Rightarrow> [])"

lemma open_tool_in_range:
  assumes "smap_ok m"
  shows "(\<exists>t\<in>set m. \<not> ot_ended (snd t)) \<longleftrightarrow> Some False \<in> range (\<lambda>i. map_option ot_ended (map_of m i))"
proof
  assume "\<exists>t\<in>set m. \<not> ot_ended (snd t)"
  then obtain i t where t: "(i, t) \<in> set m" "\<not> ot_ended t" by auto
  then have "map_of m i = Some t" using smap_ok_map_of_mem[OF assms] by blast
  then have "Some False = map_option ot_ended (map_of m i)" using t(2) by simp
  then show "Some False \<in> range (\<lambda>i. map_option ot_ended (map_of m i))" by (rule image_eqI) simp
next
  assume "Some False \<in> range (\<lambda>i. map_option ot_ended (map_of m i))"
  then obtain i where "map_option ot_ended (map_of m i) = Some False" by (metis imageE)
  then obtain t where "map_of m i = Some t" "\<not> ot_ended t" by auto
  then show "\<exists>t\<in>set m. \<not> ot_ended (snd t)" by (force dest: map_of_SomeD)
qed

text \<open>A legal event is taken, or it starts a tool under an id that was used.\<close>

lemma on_event_legal:
  assumes v': "legal loose e (blocks_of s) = Some v'" and s: "started s" "cy_finish s = None"
    and fresh: "set (starts_of e) \<inter> cy_call_ids s = {}" "\<not> late e (blocks_of s)"
  shows "\<exists>s'. on_event parse client True now e s = (Inr (), s') \<and> blocks_of s' = v' \<and> started s'
    \<and> cy_call_ids s' = set (starts_of e) \<union> cy_call_ids s"
proof -
  have ok: "smap_ok (cy_tools s)" and i: "\<exists>i. cy_id s = Some i" using s(1) by (auto simp: started_def)
  obtain i where i: "cy_id s = Some i" using i by blast
  show ?thesis
  proof (cases e)
    case (EDone r)
    then show ?thesis
      using assms i open_tool_in_range[OF ok]
      by (auto simp: legal_def blocks_of_def on_event_def Let_def started_def starts_of_def split: if_splits)
  next
    case (EToolCallStart j c n)
    then have j: "map_of (cy_tools s) j = None" "v' = (blocks_of s)\<lparr>bl_tools := (bl_tools (blocks_of s))(j \<mapsto> False)\<rparr>"
      using v' s(2) by (auto simp: legal_def blocks_of_def split: if_splits)
    then show ?thesis using EToolCallStart s i ok fresh
      by (cases client) (auto simp: blocks_of_def on_event_def send_def Let_def started_def starts_of_def)
  next
    case (EToolCallArgumentsDelta j d)
    then obtain t where "map_of (cy_tools s) j = Some t" "\<not> ot_ended t" "v' = blocks_of s"
      using v' s(2) fresh(2) by (auto simp: legal_def blocks_of_def late_def split: if_splits)
    then show ?thesis using EToolCallArgumentsDelta s i ok
      by (cases client) (auto simp: blocks_of_def on_event_def send_def Let_def started_def starts_of_def)
  next
    case (EToolCallEnd j)
    then obtain t where "map_of (cy_tools s) j = Some t" "\<not> ot_ended t"
        "v' = (blocks_of s)\<lparr>bl_tools := (bl_tools (blocks_of s))(j \<mapsto> True)\<rparr>"
      using v' s(2) by (auto simp: legal_def blocks_of_def split: if_splits)
    then show ?thesis using EToolCallEnd s i ok
      by (cases client) (auto simp: blocks_of_def on_event_def send_def Let_def started_def starts_of_def)
  next
    case EThinkingEnd
    then obtain t where "cy_thinking s = Some t" using v' s(2) by (auto simp: legal_def blocks_of_def split: if_splits)
    then show ?thesis using EThinkingEnd assms i
      by (cases client) (auto simp: legal_def blocks_of_def on_event_def send_def Let_def started_def starts_of_def)
  qed (use assms i in \<open>cases client; auto simp: legal_def blocks_of_def on_event_def send_def Let_def started_def starts_of_def
      split: if_splits\<close>)+
qed

lemma on_event_late:
  assumes "legal loose e (blocks_of s) = Some v'" "cy_finish s = None" "late e (blocks_of s)"
  shows "on_event parse client opn now e s = (Inl late_arguments, s) \<and> loose"
proof -
  obtain j d where e: "e = EToolCallArgumentsDelta j d" "bl_tools (blocks_of s) j = Some True"
    using assms(3) by (cases e) (auto simp: late_def)
  then obtain t where "map_of (cy_tools s) j = Some t" "ot_ended t" by (auto simp: blocks_of_def)
  then show ?thesis using assms(1,2) e
    by (auto simp: legal_def on_event_def Let_def late_arguments_def split: if_splits)
qed

lemma on_event_reused:
  assumes "legal loose e (blocks_of s) = Some v'" "started s" "cy_finish s = None" "set (starts_of e) \<inter> cy_call_ids s \<noteq> {}"
  shows "on_event parse client opn now e s = (Inl reused_id, s)"
proof -
  obtain i where i: "cy_id s = Some i" using assms(2) by (auto simp: started_def)
  obtain j c n where e: "e = EToolCallStart j c n" "c \<in> cy_call_ids s"
    using assms(4) by (cases e) (auto simp: starts_of_def)
  then show ?thesis using assms(1,3) i
    by (auto simp: legal_def blocks_of_def on_event_def Let_def reused_id_def split: if_splits)
qed

text \<open>Readings of events while the channel takes events.\<close>

definition readings_of :: "cycle_input list \<Rightarrow> reading list \<Rightarrow> bool" where
  "readings_of xs rs \<longleftrightarrow> map rd_input rs = xs \<and> list_all rd_open rs"

lemma readings_of_Cons:
  "readings_of (x # xs) rs \<longleftrightarrow> (\<exists>r rs'. rs = r # rs' \<and> rd_input r = x \<and> rd_open r \<and> readings_of xs rs')"
  by (auto simp: readings_of_def Cons_eq_map_conv)

lemma readings_of_append:
  "readings_of (xs @ ys) rs \<longleftrightarrow> (\<exists>a b. rs = a @ b \<and> readings_of xs a \<and> readings_of ys b)"
proof
  assume "readings_of (xs @ ys) rs"
  then have "map rd_input (take (length xs) rs) = xs" "map rd_input (drop (length xs) rs) = ys" "list_all rd_open rs"
    by (auto simp: readings_of_def take_map[symmetric] drop_map[symmetric])
  then show "\<exists>a b. rs = a @ b \<and> readings_of xs a \<and> readings_of ys b"
    by (intro exI[of _ "take (length xs) rs"] exI[of _ "drop (length xs) rs"])
      (auto simp: readings_of_def list_all_iff dest: in_set_takeD in_set_dropD)
qed (auto simp: readings_of_def)

abbreviation events :: "model_event list \<Rightarrow> cycle_input list" where
  "events es \<equiv> map (\<lambda>e. CItem (Inr e)) es"

text \<open>
  A legal stretch of events is taken whole, or the call fails at an id used twice or at what is only tolerated; with
  distinct ids and nothing tolerated it is taken.
\<close>

definition fails_with :: "run_failure set \<Rightarrow> (model_cycle_failure + model_cycle_result) option \<times> cycle_state \<Rightarrow> bool" where
  "fails_with F out \<longleftrightarrow> (\<exists>f. fst out = Some (Inl f) \<and> cf_failure f \<in> F)"

definition complaints :: "bool \<Rightarrow> bool \<Rightarrow> run_failure set" where
  "complaints loose fresh = (if fresh then {} else {reused_id}) \<union> (if loose then {after_done, late_arguments} else {})"

definition started_ids :: "model_event list \<Rightarrow> string list" where
  "started_ids es = concat (map starts_of es)"

lemma started_ids_simps [simp]:
  "started_ids [] = []" "started_ids (e # es) = starts_of e @ started_ids es" "started_ids (es @ es') = started_ids es @ started_ids es'"
  by (simp_all add: started_ids_def)

definition fresh_ids :: "model_event list \<Rightarrow> cycle_state \<Rightarrow> bool" where
  "fresh_ids es s \<longleftrightarrow> distinct (started_ids es) \<and> set (started_ids es) \<inter> cy_call_ids s = {}"

lemma consume_legal:
  assumes "legals loose es (blocks_of s) = Some v" "started s" "readings_of (events es) rs"
  shows "(\<exists>s'. consume_model_cycle parse client rs s = (None, s') \<and> blocks_of s' = v \<and> started s')
    \<or> fails_with (complaints loose (fresh_ids es s)) (consume_model_cycle parse client rs s)"
  using assms
proof (induction es arbitrary: s rs)
  case (Cons e es)
  obtain r rs' where r: "rs = r # rs'" "rd_input r = CItem (Inr e)" "rd_open r" "readings_of (events es) rs'"
    using Cons.prems(3) by (auto simp: readings_of_Cons)
  obtain v1 where v1: "legal loose e (blocks_of s) = Some v1" "legals loose es v1 = Some v"
    using Cons.prems(1) by (auto split: option.splits)
  show ?case
  proof (cases "cy_finish s = None \<and> set (starts_of e) \<inter> cy_call_ids s = {} \<and> \<not> late e (blocks_of s)")
    case True
    then obtain s' where s': "on_event parse client True (rd_now r) e s = (Inr (), s')" "blocks_of s' = v1" "started s'"
        "cy_call_ids s' = set (starts_of e) \<union> cy_call_ids s"
      using on_event_legal[OF v1(1) Cons.prems(2)] by blast
    have "fresh_ids (e # es) s \<longrightarrow> fresh_ids es s'"
      using s'(4) by (auto simp: fresh_ids_def)
    then have "complaints loose (fresh_ids es s') \<subseteq> complaints loose (fresh_ids (e # es) s)" by (auto simp: complaints_def)
    then show ?thesis using Cons.IH[OF _ s'(3) r(4)] v1(2) s'(1,2) r True
      by (auto simp: cycle_turn_def fails_with_def)
  next
    case False
    have "fails_with (complaints loose (fresh_ids (e # es) s)) (consume_model_cycle parse client (r # rs') s)"
    proof (cases "cy_finish s")
      case None
      then consider (reused) "set (starts_of e) \<inter> cy_call_ids s \<noteq> {}"
          "on_event parse client True (rd_now r) e s = (Inl reused_id, s)"
        | (late) "on_event parse client True (rd_now r) e s = (Inl late_arguments, s) \<and> loose"
        using on_event_reused[OF v1(1) Cons.prems(2)] on_event_late[OF v1(1)] False by blast
      then show ?thesis
      proof cases
        case reused
        then have "\<not> fresh_ids (e # es) s" by (auto simp: fresh_ids_def)
        then show ?thesis using reused(2) r(2,3) None by (simp add: cycle_turn_def fails_with_def failure_def complaints_def)
      qed (use r(2,3) None in \<open>simp add: cycle_turn_def fails_with_def failure_def complaints_def\<close>)
    qed (use r(2) v1(1) in \<open>auto simp: cycle_turn_def fails_with_def failure_def after_done_def complaints_def
        legal_def blocks_of_def split: if_splits\<close>)
    then show ?thesis using r(1) by blast
  qed
qed (simp add: readings_of_def)

lemma consume_legal_distinct:
  assumes "legals False es (blocks_of s) = Some v" "started s" "readings_of (events es) rs" "fresh_ids es s"
  shows "\<exists>s'. consume_model_cycle parse client rs s = (None, s') \<and> blocks_of s' = v \<and> started s'"
  using consume_legal[OF assms(1,2,3), of parse client] assms(4) by (auto simp: complaints_def fails_with_def)

text \<open>The end of a stream, once everything before it was taken.\<close>

definition disagreeing :: run_failure where "disagreeing = FProtocol ''finish reason and tool calls disagree''"
definition truncated :: run_failure where "truncated = FTruncated ''model stopped before completing the response''"
definition ended_early :: run_failure where "ended_early = FProvider ''provider stream reached EOF before Done''"
definition was_cancelled :: run_failure where "was_cancelled = FClient ''run was cancelled''"

lemma finish_taken:
  assumes "started s" "finish_cycle s = Inl f"
  shows "cf_failure f \<in> {truncated, ended_early} \<or> cf_failure f = disagreeing \<and> \<not> fitting (blocks_of s)"
proof (cases "cy_finish s")
  case (Some r)
  have "(\<lambda>i. map_option ot_ended (map_of (cy_tools s) i)) \<noteq> Map.empty \<longleftrightarrow> cy_tools s \<noteq> []"
  proof (cases "cy_tools s")
    case (Cons x xs)
    then have "map_option ot_ended (map_of (cy_tools s) (fst x)) \<noteq> None" by (cases x) simp
    then show ?thesis using Cons by (metis list.distinct(1))
  qed simp
  then show ?thesis
    using assms Some
    by (auto simp: finish_cycle_def Let_def failure_def terminal_failure_def truncated_def disagreeing_def started_def fitting_def
        blocks_of_def split: if_splits option.splits)
qed (use assms in \<open>auto simp: finish_cycle_def failure_def ended_early_def\<close>)


section \<open>Adapters that keep to the protocol\<close>

text \<open>What the consumer hears of the items of a stream: each at some time, while the channel takes events.\<close>

definition heard :: "(nat \<Rightarrow> nat) \<Rightarrow> bool \<Rightarrow> items \<Rightarrow> reading list" where
  "heard clock cancelled items =
     map (\<lambda>(n, x). \<lparr>rd_input = x, rd_now = clock n, rd_open = True\<rparr>)
       (enumerate 0 (map CItem (fst items) @ (if snd items then [CEnd cancelled] else [])))"

lemma readings_heard:
  "readings_of (map CItem (fst items) @ (if snd items then [CEnd cancelled] else [])) (heard clock cancelled items)"
proof -
  have "map rd_input (map (\<lambda>(n, x). \<lparr>rd_input = x, rd_now = clock n, rd_open = True\<rparr>) (enumerate m xs)) = xs" for m xs
    by (induction xs arbitrary: m) simp_all
  moreover have "list_all rd_open (map (\<lambda>(n, x). \<lparr>rd_input = x, rd_now = clock n, rd_open = True\<rparr>) (enumerate m xs))" for m xs
    by (induction xs arbitrary: m) simp_all
  ultimately show ?thesis unfolding heard_def readings_of_def by simp
qed

text \<open>What legal events leave of the reason to finish and of the tools.\<close>

lemma legal_finish: "legal loose e v = Some w \<Longrightarrow> bl_finish w = bl_finish v \<or> (\<exists>r. e = EDone r \<and> bl_finish w = Some r)"
  by (cases e) (auto simp: legal_def split: if_splits)

lemma legals_finish: "legals loose es v = Some w \<Longrightarrow> bl_finish w = Some r \<Longrightarrow> bl_finish v = Some r \<or> EDone r \<in> set es"
proof (induction es arbitrary: v)
  case (Cons e es)
  obtain u where u: "legal loose e v = Some u" "legals loose es u = Some w" using Cons.prems(1) by (auto split: option.splits)
  show ?case using Cons.IH[OF u(2) Cons.prems(2)] legal_finish[OF u(1)] by auto
qed simp

lemma legal_tools: "legal False e v = Some w \<Longrightarrow> bl_tools w = Map.empty \<longleftrightarrow> bl_tools v = Map.empty \<and> starts_of e = []"
  by (cases e) (auto simp: legal_def starts_of_def split: if_splits)

lemma legals_tools: "legals False es v = Some w \<Longrightarrow> bl_tools w = Map.empty \<longleftrightarrow> bl_tools v = Map.empty \<and> started_ids es = []"
proof (induction es arbitrary: v)
  case (Cons e es)
  then show ?case using legal_tools by (auto split: option.splits)
qed simp

text \<open>
  Lawful items: legal events, then possibly an error; without one the stream was finished by a Done, unless it is
  not over or was left silently (\<open>quiet\<close>).
\<close>

definition lawful :: "bool \<Rightarrow> bool \<Rightarrow> bool \<Rightarrow> blocks \<Rightarrow> (error + model_event) list \<Rightarrow> bool" where
  "lawful loose fits quiet v xs \<longleftrightarrow> (\<exists>es w tail. xs = map Inr es @ tail \<and> legals loose es v = Some w
     \<and> ((\<exists>e. tail = [Inl e]) \<or> tail = [] \<and> (fits \<longrightarrow> fitting w) \<and> (quiet \<or> bl_finish w \<noteq> None)))"

lemma lawful_end: "legals loose out v = Some w \<Longrightarrow> (fits \<Longrightarrow> fitting w) \<Longrightarrow> quiet \<or> bl_finish w \<noteq> None
    \<Longrightarrow> lawful loose fits quiet v (map Inr out)"
  unfolding lawful_def by (rule exI[of _ out], rule exI[of _ w], rule exI[of _ "[]"]) simp

lemma lawful_error: "legals loose out v = Some w \<Longrightarrow> lawful loose fits quiet v (map Inr out @ [Inl e])"
  unfolding lawful_def by (rule exI[of _ out], rule exI[of _ w], rule exI[of _ "[Inl e]"]) simp

lemma lawful_more:
  assumes "legals loose out v = Some w" "lawful loose fits quiet w xs"
  shows "lawful loose fits quiet v (map Inr out @ xs)"
proof -
  obtain es u tail where es: "xs = map Inr es @ tail" "legals loose es w = Some u"
      "(\<exists>e. tail = [Inl e]) \<or> tail = [] \<and> (fits \<longrightarrow> fitting u) \<and> (quiet \<or> bl_finish u \<noteq> None)"
    using assms(2) unfolding lawful_def by blast
  show ?thesis
    unfolding lawful_def
    by (rule exI[of _ "out @ es"], rule exI[of _ u], rule exI[of _ tail])
      (use es legals_appendI[OF assms(1) es(2)] in simp)
qed

text \<open>
  Why a call may fail all the same: an error among the items, a Done for length, an id started twice, a reason that does
  not agree with the tools started (unless the adapter excludes it), an adapter that left silently, a consumer that
  was cancelled, what is tolerated of a loose adapter.
\<close>

fun events_of :: "(error + model_event) list \<Rightarrow> model_event list" where
  "events_of [] = []"
| "events_of (Inl e # xs) = events_of xs"
| "events_of (Inr e # xs) = e # events_of xs"

lemma events_of_simps [simp]: "events_of (xs @ ys) = events_of xs @ events_of ys" "events_of (map Inr es) = es"
proof -
  show "events_of (xs @ ys) = events_of xs @ events_of ys" by (induction xs rule: events_of.induct) simp_all
  show "events_of (map Inr es) = es" by (induction es) simp_all
qed

definition agreeing :: "model_event list \<Rightarrow> bool" where
  "agreeing es \<longleftrightarrow> (\<forall>r. EDone r \<in> set es \<longrightarrow> r = FLength \<or> ((r = FToolUse) = (started_ids es \<noteq> [])))"

definition excuses :: "bool \<Rightarrow> bool \<Rightarrow> bool \<Rightarrow> bool \<Rightarrow> (error + model_event) list \<Rightarrow> run_failure set" where
  "excuses loose fits quiet cancelled xs =
     failure_of_error ` {e. Inl e \<in> set xs}
     \<union> (if EDone FLength \<in> set (events_of xs) then {truncated} else {})
     \<union> (if distinct (started_ids (events_of xs)) then {} else {reused_id})
     \<union> (if fits \<or> agreeing (events_of xs) then {} else {disagreeing})
     \<union> (if quiet then {ended_early} else {})
     \<union> (if cancelled then {was_cancelled} else {})
     \<union> (if loose then {after_done, late_arguments} else {})"

definition accepted :: "run_failure set \<Rightarrow> bool \<Rightarrow> (model_cycle_failure + model_cycle_result) option \<Rightarrow> bool" where
  "accepted F ended verdict =
     (case verdict of
        None \<Rightarrow> \<not> ended
      | Some (Inr r) \<Rightarrow> True
      | Some (Inl f) \<Rightarrow> cf_failure f \<in> F)"

lemma lawful_accepted:
  assumes "lawful loose fits (quiet \<or> \<not> ended) (blocks_of s) xs" "started s" "loose \<longrightarrow> fits"
    and s: "cy_call_ids s = {}" "bl_finish (blocks_of s) = None" "bl_tools (blocks_of s) = Map.empty"
    and rs: "readings_of (map CItem xs @ (if ended then [CEnd cancelled] else [])) rs"
  shows "accepted (excuses loose fits quiet cancelled xs) ended (fst (consume_model_cycle parse client rs s))"
proof -
  obtain es w tail where es: "xs = map Inr es @ tail" "legals loose es (blocks_of s) = Some w"
      "(\<exists>e. tail = [Inl e]) \<or> tail = [] \<and> (fits \<longrightarrow> fitting w) \<and> ((quiet \<or> \<not> ended) \<or> bl_finish w \<noteq> None)"
    using assms(1) unfolding lawful_def by blast
  have ev: "events_of xs = es" using es(1,3) by auto
  let ?rest = "map CItem tail @ (if ended then [CEnd cancelled] else [])"
  have "readings_of (events es @ ?rest) rs" using rs es(1) by (simp add: comp_def)
  then obtain a b where ab: "rs = a @ b" "readings_of (events es) a" "readings_of ?rest b"
    by (auto simp: readings_of_append)
  show ?thesis
  proof (cases "fails_with (complaints loose (fresh_ids es s)) (consume_model_cycle parse client a s)")
    case True
    then obtain f s' where f: "consume_model_cycle parse client a s = (Some (Inl f), s')"
        "cf_failure f \<in> complaints loose (distinct (started_ids es))"
      by (cases "consume_model_cycle parse client a s") (auto simp: fails_with_def fresh_ids_def s(1))
    then show ?thesis using ab(1) ev
      by (auto simp: consume_append accepted_def excuses_def complaints_def split: if_splits)
  next
    case False
    then obtain s' where s': "consume_model_cycle parse client a s = (None, s')" "blocks_of s' = w" "started s'"
      using consume_legal[OF es(2) assms(2) ab(2)] by blast
    then have eq: "consume_model_cycle parse client rs s = consume_model_cycle parse client b s'"
      using ab(1) by (simp add: consume_append)
    from es(3) show ?thesis
    proof
      assume "\<exists>e. tail = [Inl e]"
      then obtain e r b' where "tail = [Inl e]" "b = r # b'" "rd_input r = CItem (Inl e)"
        using ab(3) by (auto simp: readings_of_Cons)
      then show ?thesis unfolding eq by (auto simp: accepted_def cycle_turn_def failure_def excuses_def es(1))
    next
      assume t: "tail = [] \<and> (fits \<longrightarrow> fitting w) \<and> ((quiet \<or> \<not> ended) \<or> bl_finish w \<noteq> None)"
      show ?thesis
      proof (cases ended)
        case True
        then obtain r where r: "b = [r]" "rd_input r = CEnd cancelled"
          using ab(3) t by (auto simp: readings_of_def Cons_eq_map_conv)
        have fits: "fits \<or> agreeing es \<Longrightarrow> fitting w"
        proof (cases fits)
          case False
          then have "bl_tools w = Map.empty \<longleftrightarrow> started_ids es = []"
            using legals_tools[of es "blocks_of s" w] es(2) assms(3) s(3) by simp
          moreover have "bl_finish w = Some r \<Longrightarrow> EDone r \<in> set es" for r using legals_finish[OF es(2)] s(2) by simp
          moreover assume "fits \<or> agreeing es"
          ultimately show ?thesis
            using False by (cases "bl_finish w") (simp_all add: fitting_def agreeing_def)
        qed (use t in simp)
        have "cf_failure f \<in> excuses loose fits quiet cancelled xs" if "finish_cycle s' = Inl f" "\<not> cancelled" for f
        proof -
          have early: "quiet" if "cf_failure f = ended_early"
          proof -
            have "bl_finish w = None \<or> cf_failure f \<noteq> ended_early"
              using \<open>finish_cycle s' = Inl f\<close> s'(2,3)
              by (auto simp: finish_cycle_def Let_def failure_def terminal_failure_def ended_early_def blocks_of_def started_def
                  split: option.splits if_splits)
            then show ?thesis using that t True by blast
          qed
          have cut: "EDone FLength \<in> set es" if "cf_failure f = truncated"
          proof -
            have "bl_finish w = Some FLength"
              using \<open>finish_cycle s' = Inl f\<close> that s'(2,3)
              by (auto simp: finish_cycle_def Let_def failure_def terminal_failure_def truncated_def blocks_of_def started_def
                  split: option.splits if_splits)
            then show ?thesis using legals_finish[OF es(2)] s(2) by auto
          qed
          show ?thesis using finish_taken[OF s'(3) that(1)] early cut fits s'(2) ev
            by (auto simp: excuses_def)
        qed
        then show ?thesis
          unfolding eq using r
          by (cases "finish_cycle s'")
            (auto simp: accepted_def cycle_turn_def cancelled_cycle_def failure_def excuses_def was_cancelled_def)
      qed (use ab(3) t eq in \<open>simp add: readings_of_def accepted_def\<close>)
    qed
  qed
qed

text \<open>
  The interface of an adapter: a relation between its state and the blocks it has open, kept by every event and
  met by what it does after its loop, which tells how the stream finished or gives an error.
\<close>

locale lawful_adapter =
  fixes label :: string and event :: "sse_event \<Rightarrow> 's \<Rightarrow> model_event list \<times> 's flow"
    and close :: "'s \<Rightarrow> model_event list \<times> error option"
    and loose :: bool and fits :: bool and sim :: "'s \<Rightarrow> blocks \<Rightarrow> bool"
  assumes event_ok: "sim s v \<Longrightarrow> event e s = (out, flow) \<Longrightarrow> \<exists>w. legals loose out v = Some w
      \<and> (case flow of GoesOn s' \<Rightarrow> sim s' w | Leaves s' \<Rightarrow> sim s' w | Fails _ \<Rightarrow> True)"
    and close_ok: "sim s v \<Longrightarrow> close s = (out, err) \<Longrightarrow> \<exists>w. legals loose out v = Some w
      \<and> (err = None \<longrightarrow> (fits \<longrightarrow> fitting w) \<and> bl_finish w \<noteq> None)"
    and sim_fits: "sim s v \<Longrightarrow> fits \<Longrightarrow> fitting v"
    and loose_fits: "loose \<longrightarrow> fits"
begin

lemma close_lawful: "sim s v \<Longrightarrow> lawful loose fits quiet v (fst (ends_with (close s)))"
proof -
  assume "sim s v"
  moreover obtain out err where c: "close s = (out, err)" by force
  ultimately obtain w where "legals loose out v = Some w" "err = None \<longrightarrow> (fits \<longrightarrow> fitting w) \<and> bl_finish w \<noteq> None"
    using close_ok by blast
  then show ?thesis using c by (cases err) (auto simp: ends_with_def intro: lawful_end lawful_error)
qed

lemma loop_lawful:
  "sim s v \<Longrightarrow> lawful loose fits (SseCancelled \<in> set inputs \<or> \<not> snd (adapter_loop label event close inputs s)) v
     (fst (adapter_loop label event close inputs s))"
proof (induction inputs arbitrary: s v)
  case Nil
  then show ?case using sim_fits lawful_end[of loose "[]"] by simp
next
  case (Cons i inputs)
  have stops: "lawful loose fits True v []" using lawful_end[of loose "[]"] sim_fits[OF Cons.prems] by simp
  have breaks: "lawful loose fits q v [Inl x]" for q x using lawful_error[of loose "[]"] by simp
  show ?case
  proof (cases i)
    case (SseEvent e)
    obtain out flow where e: "event e s = (out, flow)" by force
    obtain w where w: "legals loose out v = Some w"
        "case flow of GoesOn s' \<Rightarrow> sim s' w | Leaves s' \<Rightarrow> sim s' w | Fails _ \<Rightarrow> True"
      using event_ok[OF Cons.prems e] by blast
    show ?thesis
      using SseEvent e w(2) lawful_more[OF w(1)] Cons.IH close_lawful lawful_error[OF w(1)]
      by (cases flow) (auto simp: yields_def ends_with_def)
  qed (use stops breaks close_lawful[OF Cons.prems] in \<open>simp_all add: ends_with_def\<close>)
qed

text \<open>The consumer's verdict on a stream of the adapter.\<close>

lemma stream_accepted:
  assumes s: "sim s0 no_blocks"
    and items: "items = adapter_stream body sent cid (adapter_loop label event close inputs s0)"
  shows "accepted (excuses loose fits (sent = SendCancelled \<or> SseCancelled \<in> set inputs) cancelled (fst items)) (snd items)
    (fst (consume_model_cycle parse client (heard clock cancelled items) cycle_new))"
proof -
  let ?rs = "heard clock cancelled items" and ?quiet = "sent = SendCancelled \<or> SseCancelled \<in> set inputs"
  note rs = readings_heard[of items cancelled clock]
  consider (silent) "items = ([], True)" "sent = SendCancelled" | (refused) e where "items = ([Inl e], True)"
    | (sent) "items = yields [EStart cid] (adapter_loop label event close inputs s0)"
    using items by (auto simp: adapter_stream_def split: sum.splits sending.splits)
  then show ?thesis
  proof cases
    case silent
    then obtain r where "?rs = [r]" "rd_input r = CEnd cancelled" using rs by (auto simp: readings_of_def Cons_eq_map_conv)
    then show ?thesis using silent
      by (auto simp: accepted_def excuses_def cycle_turn_def finish_cycle_def cycle_new_def cancelled_cycle_def failure_def
          was_cancelled_def ended_early_def)
  next
    case (refused e)
    then obtain r r' where "?rs = [r, r']" "rd_input r = CItem (Inl e)" using rs by (auto simp: readings_of_def Cons_eq_map_conv)
    then show ?thesis using refused by (auto simp: accepted_def excuses_def cycle_turn_def failure_def)
  next
    case sent
    let ?xs = "fst (adapter_loop label event close inputs s0)"
    obtain r rs' where r: "?rs = r # rs'" "rd_input r = CItem (Inr (EStart cid))"
        "readings_of (map CItem ?xs @ (if snd items then [CEnd cancelled] else [])) rs'"
      using rs sent by (auto simp: yields_def readings_of_Cons)
    let ?s = "cycle_new\<lparr>cy_id := Some cid\<rparr>"
    have new: "blocks_of ?s = no_blocks" "started ?s" "cy_call_ids ?s = {}"
      by (simp_all add: blocks_of_def no_blocks_def started_def cycle_new_def)
    have "snd items = snd (adapter_loop label event close inputs s0)" using sent by (simp add: yields_def)
    then have "lawful loose fits (?quiet \<or> \<not> snd items) no_blocks ?xs"
      using loop_lawful[OF s, of inputs] unfolding lawful_def by blast
    then have "accepted (excuses loose fits ?quiet cancelled ?xs) (snd items) (fst (consume_model_cycle parse client rs' ?s))"
      using lawful_accepted[of loose fits ?quiet "snd items" ?s ?xs] r(3) loose_fits new by (simp add: no_blocks_def)
    moreover have "consume_model_cycle parse client ?rs cycle_new = consume_model_cycle parse client rs' ?s"
      using r(1,2) by (simp add: cycle_turn_def on_event_def cycle_new_def Let_def)
    moreover have "excuses loose fits ?quiet cancelled ?xs = excuses loose fits ?quiet cancelled (fst items)"
      using sent by (auto simp: excuses_def yields_def agreeing_def starts_of_def)
    ultimately show ?thesis by (auto simp: accepted_def split: option.splits sum.splits)
  qed
qed

end


section \<open>Streams that are taken whole\<close>

text \<open>A legal stream with distinct ids and a fitting reason becomes a result that says what the stream says.\<close>

lemma events_before_end:
  "events es @ CEnd False # rest = events es' @ CEnd False # rest' \<Longrightarrow> es = es'"
proof (induction es arbitrary: es')
  case (Cons e es)
  then show ?case by (cases es') auto
next
  case Nil
  then show ?case by (cases es') auto
qed

lemma legal_stream_taken:
  assumes es: "legals False es no_blocks = Some w" and w: "fitting w" "bl_finish w = Some reason" "reason \<noteq> FLength"
    and ids: "distinct (concat (map starts_of es))"
    and rs: "readings_of (events (EStart i # es) @ [CEnd False]) rs"
  shows "\<exists>r s. consume_model_cycle parse client rs cycle_new = (Some (Inr r), s) \<and> cr_finish r = reason
    \<and> cr_text r = said text_of es \<and> cr_reasoning r = said reasoning_of es
    \<and> list_all (\<lambda>k. arguments_text k = said (arguments_of (call_index k)) es) (cr_calls r)
    \<and> set (map call_index (cr_calls r)) = dom (bl_tools w)
    \<and> cr_calls r = map (call_said parse es i) (sort_key fst (concat (map tool_said es)))"
proof -
  obtain r0 a e where r: "rs = r0 # a @ [e]" "rd_input r0 = CItem (Inr (EStart i))" "readings_of (events es) a"
      "rd_input e = CEnd False"
    using rs by (auto simp: readings_of_Cons readings_of_append) (auto simp: readings_of_def)
  let ?s = "cycle_new\<lparr>cy_id := Some i\<rparr>"
  have s0: "blocks_of ?s = no_blocks" "started ?s" "cy_call_ids ?s = {}"
    by (simp_all add: blocks_of_def no_blocks_def started_def cycle_new_def)
  obtain s where s: "consume_model_cycle parse client a ?s = (None, s)" "blocks_of s = w" "started s"
    using consume_legal_distinct[of es ?s w a parse client] es ids r(3) s0 by (auto simp: fresh_ids_def started_ids_def)
  have first: "consume_model_cycle parse client (r0 # a) cycle_new = (None, s)"
    using s(1) r(2) by (simp add: cycle_turn_def on_event_def cycle_new_def Let_def)
  obtain es' where es': "map rd_input (r0 # a) = events es'" "cycle_inv client es' s"
    using consume_waiting[OF first cycle_inv_new] by (metis append_Nil)
  have "map rd_input (r0 # a) = events (EStart i # es)" using r(2,3) by (simp add: readings_of_def)
  then have "events es' = events (EStart i # es)" using es'(1) by (rule trans[OF sym, rotated])
  moreover have "inj (\<lambda>e. CItem (Inr e))" by (simp add: inj_def)
  ultimately have "es' = EStart i # es" by (metis inj_map_eq_map)
  then have inv: "cycle_inv client (EStart i # es) s" using es'(2) by simp
  have fin: "cy_finish s = Some reason" using w(2) unfolding s(2)[symmetric] by (simp add: blocks_of_def)
  obtain x where x: "finish_cycle s = Inr x"
    using finish_taken[OF s(3)] s(2) w(1,3) fin by (cases "finish_cycle s")
      (auto simp: finish_cycle_def Let_def failure_def terminal_failure_def truncated_def disagreeing_def ended_early_def
          split: if_splits option.splits)
  note x' = finish_cycle_Inr[OF x]
  have taken: "consume_model_cycle parse client rs cycle_new = (Some (Inr x), s)"
    using first r(1,4) x consume_append[of parse client "r0 # a" "[e]" cycle_new] by (simp add: cycle_turn_def)
  obtain es2 rest where es2: "map rd_input rs = map (\<lambda>e. CItem (Inr e)) es2 @ CEnd False # rest"
      "cycle_inv client es2 s" "heard_inv parse es2 s" "finish_cycle s = Inr x"
    using result_run[OF taken] by blast
  have "events es2 @ CEnd False # rest = events (EStart i # es) @ [CEnd False]" using es2(1) rs by (simp add: readings_of_def)
  then have "es2 = EStart i # es" by (rule events_before_end)
  then have calls: "cr_calls x = map (call_said parse (EStart i # es) (cr_model_call_id x)) (sort_key fst (concat (map tool_said (EStart i # es))))"
      and "[cr_model_call_id x] = concat (map call_id_said (EStart i # es))"
    using heard_calls(1)[OF es2(2,3,4)] es2(3) x' by (auto simp: heard_inv_def)
  then have mid: "cr_model_call_id x = i" by simp
  have "call_said parse (EStart i # es) m k = call_said parse es m k" for m k by (cases k) (simp add: call_said_def)
  then have calls': "cr_calls x = map (call_said parse es i) (sort_key fst (concat (map tool_said es)))"
    using calls mid by simp
  have "cr_text x = said text_of es" "cr_reasoning x = said reasoning_of es"
    using x' inv by (auto simp: cycle_inv_def said_inv_def)
  moreover have idx: "call_index (ot_call t) = j" "arguments_text (ot_call t) = said (arguments_of j) es"
    if "(j, t) \<in> set (cy_tools s)" for j t
    using inv that by (auto simp: cycle_inv_def tools_inv_def tool_ok_def)
  then have "list_all (\<lambda>k. arguments_text k = said (arguments_of (call_index k)) es) (cr_calls x)"
    using x' by (auto simp: list_all_iff)
  moreover have "set (map call_index (cr_calls x)) = fst ` set (cy_tools s)"
    using x' idx(1) by (force simp: image_iff)
  moreover have "dom (bl_tools w) = fst ` set (cy_tools s)"
    unfolding s(2)[symmetric] dom_map_of_conv_image_fst[symmetric] by (auto simp: blocks_of_def dom_def)
  moreover have "cr_finish x = reason" using x' fin by simp
  ultimately show ?thesis using taken calls' by blast
qed

end
