(* ===== verification/OpenAiChatLaws.thy ===== *)
theory OpenAiChatLaws
  imports OpenAiChat ProviderLaws
begin

text \<open>
  What the OpenAI Chat adapter guarantees: its streams keep to the protocol, and a whole answer reaches the consumer
  with its text, its reasoning and the arguments of every tool call.
\<close>

section \<open>The blocks of the adapter\<close>

definition chat_blocks :: "chat_stream \<Rightarrow> blocks" where
  "chat_blocks s =
     \<lparr>bl_text = ch_text_open s, bl_thinking = ch_thinking_open s,
      bl_tools = (\<lambda>i. case map_of (ch_tools s) i of
        None \<Rightarrow> None | Some t \<Rightarrow> (if ct_started t then Some False else None)),
      bl_usage = False, bl_replay = False, bl_finish = None\<rparr>"

definition told :: "chat_tool_state \<Rightarrow> bool" where
  "told t \<longleftrightarrow> ct_emitted t = (if ct_started t then length (ct_arguments t) else 0)"

definition chat_inv :: "chat_stream \<Rightarrow> bool" where
  "chat_inv s \<longleftrightarrow> smap_ok (ch_tools s) \<and> (\<forall>i t. map_of (ch_tools s) i = Some t \<longrightarrow> told t)"

text \<open>A step of the adapter: legal events, the invariant kept.\<close>

definition chat_ok :: "chat_stream \<Rightarrow> model_event list \<times> chat_stream \<Rightarrow> bool" where
  "chat_ok s r \<longleftrightarrow> legals False (fst r) (chat_blocks s) = Some (chat_blocks (snd r)) \<and> chat_inv (snd r)"

lemma chat_ok_same:
  "chat_inv s \<Longrightarrow> chat_blocks s' = chat_blocks s \<Longrightarrow> ch_tools s' = ch_tools s \<Longrightarrow> chat_ok s ([], s')"
  by (simp add: chat_ok_def chat_inv_def)

lemma chat_ok_append:
  "chat_ok s (a, s1) \<Longrightarrow> (chat_inv s1 \<Longrightarrow> chat_ok s1 (b, s2)) \<Longrightarrow> chat_ok s (a @ b, s2)"
  by (simp add: chat_ok_def legals_append)

lemma chat_reasoning_ok: "chat_inv s \<Longrightarrow> chat_ok s (chat_reasoning delta s)"
  by (auto simp: chat_ok_def chat_reasoning_def chat_blocks_def chat_inv_def legal_def split: option.splits)

lemma chat_text_ok: "chat_inv s \<Longrightarrow> chat_ok s (chat_text delta s)"
  by (auto simp: chat_ok_def chat_text_def chat_blocks_def chat_inv_def legal_def split: option.splits)

lemma merge_keeps: "prefix target (merge_chat_fragment target fragment)"
  by (auto simp: merge_chat_fragment_def starts_with_def prefix_def) (metis append_take_drop_id)

lemma merge_optional_keeps: "prefix target (merge_optional target fragment)"
  by (simp add: merge_optional_def merge_keeps split: option.splits)

lemma merged_tool_told:
  assumes "told t"
  shows "told (snd (told_tool i (merged_tool a b c t)))"
proof -
  have "length (ct_arguments t) \<le> length (merge_optional (ct_arguments t) c)"
    using merge_optional_keeps by (rule prefix_length_le)
  then show ?thesis using assms by (auto simp: told_def told_tool_def merged_tool_def Let_def)
qed

lemma update_chat_tool_ok:
  assumes "chat_inv s" "update_chat_tool i a b c (ch_tools s) = (out, tools)"
  shows "chat_ok s (out, s\<lparr>ch_tools := tools\<rparr>)"
proof -
  let ?t = "case map_of (ch_tools s) i of None \<Rightarrow> chat_tool_new | Some t \<Rightarrow> t"
  let ?m = "merged_tool a b c ?t"
  have m: "smap_ok (ch_tools s)" "told ?t"
    using assms(1) by (auto simp: chat_inv_def told_def chat_tool_new_def split: option.splits)
  have out: "out = fst (told_tool i ?m)" "tools = smap_put i (snd (told_tool i ?m)) (ch_tools s)"
    using assms(2) by (auto simp: update_chat_tool_def Let_def split: prod.splits)
  have inv: "chat_inv (s\<lparr>ch_tools := tools\<rparr>)"
    using assms(1) m(1) merged_tool_told[OF m(2)] out(2) by (auto simp: chat_inv_def)
  have st: "ct_started ?m = ct_started ?t" by (simp add: merged_tool_def)
  have b: "bl_tools (chat_blocks s) i = (if ct_started ?t then Some False else None)"
    by (auto simp: chat_blocks_def chat_tool_new_def split: option.splits)
  have b': "chat_blocks (s\<lparr>ch_tools := tools\<rparr>)
      = (chat_blocks s)\<lparr>bl_tools := (bl_tools (chat_blocks s))(i := if ct_started (snd (told_tool i ?m)) then Some False else None)\<rparr>"
    using m(1) out(2) by (auto simp: chat_blocks_def)
  have f: "bl_finish (chat_blocks s) = None" by (simp add: chat_blocks_def)
  have "legals False (fst (told_tool i ?m)) (chat_blocks s) = Some (chat_blocks (s\<lparr>ch_tools := tools\<rparr>))"
    unfolding b' using b f st by (auto simp: told_tool_def Let_def legal_def fun_upd_idem)
  then show ?thesis using inv out(1) by (simp add: chat_ok_def)
qed

lemma chat_tool_deltas_ok:
  assumes "chat_inv s" "chat_tool_deltas n ds (ch_tools s) = (out, tools)"
  shows "chat_ok s (out, s\<lparr>ch_tools := tools\<rparr>)"
  using assms
proof (induction ds arbitrary: n s out tools)
  case Nil
  then show ?case by (auto intro!: chat_ok_same)
next
  case (Cons d ds)
  let ?f = "member_or_null d ''function''" and ?i = "case u64_arg d ''index'' of None \<Rightarrow> n | Some i \<Rightarrow> i"
  obtain out1 tools1 where u: "update_chat_tool ?i (string_arg d ''id'') (string_arg ?f ''name'')
      (string_arg ?f ''arguments'') (ch_tools s) = (out1, tools1)" by force
  obtain out2 where r: "chat_tool_deltas (Suc n) ds tools1 = (out2, tools)" "out = out1 @ out2"
    using Cons.prems(2) u by (auto simp: Let_def split: prod.splits)
  let ?s = "s\<lparr>ch_tools := tools1\<rparr>"
  have "chat_ok ?s (out2, ?s\<lparr>ch_tools := tools\<rparr>)" if "chat_inv ?s"
    using Cons.IH[OF that] r(1) by simp
  then show ?case using chat_ok_append[OF update_chat_tool_ok[OF Cons.prems(1) u]] r(2) by simp
qed

lemma chat_tool_calls_ok: "chat_inv s \<Longrightarrow> chat_ok s (chat_tool_calls delta s)"
  by (auto simp: chat_tool_calls_def intro!: chat_ok_same chat_tool_deltas_ok split: option.splits prod.splits)

lemma chat_chunk_ok: "chat_inv s \<Longrightarrow> chat_ok s (chat_chunk v s)"
proof -
  assume inv: "chat_inv s"
  let ?s = "case not_null (json_member v ''usage'') of None \<Rightarrow> s | Some u \<Rightarrow> s\<lparr>ch_usage := Some (openai_usage u)\<rparr>"
  have same: "chat_blocks ?s = chat_blocks s" "ch_tools ?s = ch_tools s" by (simp_all add: chat_blocks_def split: option.splits)
  have inv': "chat_inv ?s" using inv same(2) by (simp add: chat_inv_def)
  have *: "chat_ok ?s (let delta = member_or_null choice ''delta''; (out1, s) = chat_reasoning delta ?s;
      (out2, s) = chat_text delta s; (out3, s) = chat_tool_calls delta s in (out1 @ out2 @ out3, chat_finish choice s))" for choice
  proof -
    let ?d = "member_or_null choice ''delta''"
    obtain o1 s1 where 1: "chat_reasoning ?d ?s = (o1, s1)" by force
    obtain o2 s2 where 2: "chat_text ?d s1 = (o2, s2)" by force
    obtain o3 s3 where 3: "chat_tool_calls ?d s2 = (o3, s3)" by force
    have fin: "chat_ok s (p, chat_finish choice t)" if "chat_ok s (p, t)" for s p t
      using that by (auto simp: chat_ok_def chat_finish_def chat_blocks_def chat_inv_def split: option.splits)
    have "chat_ok ?s (o1 @ o2 @ o3, chat_finish choice s3)"
      by (rule chat_ok_append[OF _ chat_ok_append[OF _ fin]])
        (use chat_reasoning_ok[OF inv', of ?d] chat_text_ok[of s1 ?d] chat_tool_calls_ok[of s2 ?d] 1 2 3 in simp_all)
    then show ?thesis using 1 2 3 by simp
  qed
  have eq: "chat_ok ?s r \<Longrightarrow> chat_ok s r" for r using same(1) by (simp add: chat_ok_def)
  show ?thesis
    unfolding chat_chunk_def Let_def
    by (rule eq) (use * chat_ok_same[OF inv' refl refl] in \<open>simp add: Let_def split: option.splits list.splits\<close>)
qed


section \<open>Closing\<close>

lemma close_tools_legal:
  assumes "close_tools m = (out, err)" "distinct (map fst m)" "bl_finish v = None"
    and "\<And>i t. map_of m i = Some t \<Longrightarrow> bl_tools v i = (if ct_started t then Some False else None)"
  shows "\<exists>ts. legals False out v = Some (v\<lparr>bl_tools := ts\<rparr>)
    \<and> (err = None \<longrightarrow> (\<forall>i. ts i = (if map_of m i \<noteq> None then Some True else bl_tools v i)))"
  using assms
proof (induction m arbitrary: v out err)
  case Nil
  then show ?case by (intro exI[of _ "bl_tools v"]) simp
next
  case (Cons x m)
  obtain i t where x: "x = (i, t)" by force
  have t: "bl_tools v i = (if ct_started t then Some False else None)" using Cons.prems(4)[of i t] x by simp
  show ?case
  proof (cases "close_tool i t")
    case (Inl e)
    then show ?thesis using Cons.prems(1) x by (intro exI[of _ "bl_tools v"]) auto
  next
    case (Inr out1)
    obtain out2 where r: "close_tools m = (out2, err)" "out = out1 @ out2"
      using Cons.prems(1) x Inr by (auto split: prod.splits)
    let ?v = "v\<lparr>bl_tools := (bl_tools v)(i \<mapsto> True)\<rparr>"
    have one: "legals False out1 v = Some ?v"
      using Inr t Cons.prems(3) by (auto simp: close_tool_def legal_def Let_def split: if_splits)
    have "bl_tools ?v j = (if ct_started u then Some False else None)" if "map_of m j = Some u" for j u
    proof -
      have "j \<noteq> i" using that Cons.prems(2) x by (force dest: map_of_SomeD)
      then show ?thesis using Cons.prems(4)[of j u] x that by simp
    qed
    then obtain ts where ts: "legals False out2 ?v = Some (?v\<lparr>bl_tools := ts\<rparr>)"
        "err = None \<longrightarrow> (\<forall>j. ts j = (if map_of m j \<noteq> None then Some True else bl_tools ?v j))"
      using Cons.IH[OF r(1), of ?v] Cons.prems(2,3) x by auto
    show ?thesis
      by (rule exI[of _ ts]) (use legals_appendI[OF one ts(1)] ts(2) r(2) x in auto)
  qed
qed

lemma chat_close_ok:
  assumes "chat_inv s" "chat_close s = (out, err)"
  shows "\<exists>v. legals False out (chat_blocks s) = Some v
    \<and> (err = None \<longrightarrow> bl_finish v = chat_reason s \<and> chat_reason s \<noteq> None
          \<and> bl_tools v = (\<lambda>i. if map_of (ch_tools s) i = None then None else Some True))"
proof -
  let ?v = "(chat_blocks s)\<lparr>bl_text := False, bl_thinking := False\<rparr>"
  let ?blocks = "(if ch_thinking_open s then [EThinkingEnd] else []) @ (if ch_text_open s then [ETextEnd] else [])"
  have m: "smap_ok (ch_tools s)" using assms(1) by (simp add: chat_inv_def)
  have opened: "legals False ?blocks (chat_blocks s) = Some ?v"
    by (auto simp: chat_blocks_def legal_def)
  obtain out1 err1 where c: "close_tools (ch_tools s) = (out1, err1)" by force
  obtain ts where ts: "legals False out1 ?v = Some (?v\<lparr>bl_tools := ts\<rparr>)"
      "err1 = None \<longrightarrow> (\<forall>i. ts i = (if map_of (ch_tools s) i \<noteq> None then Some True else bl_tools ?v i))"
    using close_tools_legal[OF c smap_ok_distinct[OF m], of ?v] by (auto simp: chat_blocks_def)
  have two: "legals False (?blocks @ out1) (chat_blocks s) = Some (?v\<lparr>bl_tools := ts\<rparr>)"
    by (rule legals_appendI[OF opened ts(1)])
  show ?thesis
  proof (cases err1)
    case (Some e)
    then show ?thesis using assms(2) c two by (auto simp: chat_close_def Let_def)
  next
    case None
    let ?rest = "(case ch_usage s of None \<Rightarrow> [] | Some u \<Rightarrow> [EUsage u]) @ chat_replay s"
    let ?w = "?v\<lparr>bl_tools := ts, bl_usage := (ch_usage s \<noteq> None), bl_replay := (ch_reasoning s \<noteq> [])\<rparr>"
    have "ts i \<noteq> Some False" for i
      using ts(2) None by (cases "map_of (ch_tools s) i") (auto simp: chat_blocks_def)
    then have r: "Some False \<notin> range ts" by (metis imageE)
    have ts': "ts = (\<lambda>i. if map_of (ch_tools s) i = None then None else Some True)"
      using ts(2) None by (auto simp: chat_blocks_def fun_eq_iff)
    have "legals False ?rest (?v\<lparr>bl_tools := ts\<rparr>) = Some ?w"
      by (auto simp: chat_replay_def legal_def chat_blocks_def split: option.splits)
    then have three: "legals False ((?blocks @ out1) @ ?rest) (chat_blocks s) = Some ?w" by (rule legals_appendI[OF two])
    have "legals False [EDone q] ?w = Some (?w\<lparr>bl_finish := Some q\<rparr>)" for q
      using r by (simp add: legal_def chat_blocks_def)
    then have four: "legals False (((?blocks @ out1) @ ?rest) @ [EDone q]) (chat_blocks s) = Some (?w\<lparr>bl_finish := Some q\<rparr>)" for q
      by (rule legals_appendI[OF three])
    show ?thesis
      using assms(2) c None three four ts' by (cases "chat_reason s") (auto simp: chat_close_def Let_def)
  qed
qed

definition chat_sim :: "chat_stream \<Rightarrow> blocks \<Rightarrow> bool" where
  "chat_sim s v \<longleftrightarrow> chat_inv s \<and> v = chat_blocks s"

interpretation chat: lawful_adapter "''OpenAI Chat''" "chat_event parse" chat_close False False chat_sim
proof unfold_locales
  fix s v e out flow
  assume s: "chat_sim s v" and e: "chat_event parse e s = (out, flow)"
  then have inv: "chat_inv s" "v = chat_blocks s" by (simp_all add: chat_sim_def)
  show "\<exists>w. legals False out v = Some w
      \<and> (case flow of GoesOn s' \<Rightarrow> chat_sim s' w | Leaves s' \<Rightarrow> chat_sim s' w | Fails _ \<Rightarrow> True)"
  proof (cases "out = [] \<and> (\<forall>s'. flow \<noteq> GoesOn s')")
    case True
    then show ?thesis using e inv
      by (auto simp: chat_event_def chat_sim_def chat_inv_def chat_blocks_def split: if_splits sum.splits option.splits prod.splits)
  next
    case False
    then obtain u s' where "chat_chunk u s = (out, s')" "flow = GoesOn s'"
      using e by (auto simp: chat_event_def split: if_splits sum.splits option.splits prod.splits)
    then show ?thesis using chat_chunk_ok[OF inv(1), of u] inv(2) by (auto simp: chat_ok_def chat_sim_def)
  qed
next
  fix s v out err
  assume "chat_sim s v" and c: "chat_close s = (out, err)"
  then have inv: "chat_inv s" "v = chat_blocks s" by (simp_all add: chat_sim_def)
  obtain w where "legals False out (chat_blocks s) = Some w" "err = None \<longrightarrow> bl_finish w = chat_reason s \<and> chat_reason s \<noteq> None"
    using chat_close_ok[OF inv(1) c] by blast
  then show "\<exists>w. legals False out v = Some w \<and> (err = None \<longrightarrow> (False \<longrightarrow> fitting w) \<and> bl_finish w \<noteq> None)"
    using inv(2) by (intro exI[of _ w]) simp
qed simp_all

lemma chat_new_inv: "chat_inv chat_new" "chat_blocks chat_new = no_blocks"
  by (simp_all add: chat_inv_def chat_new_def chat_blocks_def no_blocks_def)

lemma chat_new_sim: "chat_sim chat_new no_blocks"
  by (simp add: chat_sim_def chat_new_inv)

text \<open>
  C30: no stream of the OpenAI Chat adapter breaks the protocol of a model call. Whatever the server sends, the consumer
  reaches a verdict when the stream ends, and the call fails only for a reason the stream itself shows: an error among
  its items, a Done for length, a tool id started twice, a reason to finish that does not agree with the tools
  started, or a cancellation (of the consumer, or of the adapter, which then leaves the stream without a Done). It never
  fails for blocks opened, filled or closed out of turn, for events after Done, or for a stream that ends without a
  Done or an error although nothing was cancelled.
\<close>
theorem openai_chat_stream_is_accepted:
  "accepted (excuses False False (sent = SendCancelled \<or> SseCancelled \<in> set inputs) cancelled
       (fst (openai_chat_stream parse body sent cid inputs)))
     (snd (openai_chat_stream parse body sent cid inputs))
     (fst (consume_model_cycle parse_arguments client
       (heard clock cancelled (openai_chat_stream parse body sent cid inputs)) cycle_new))"
  unfolding openai_chat_stream_def openai_chat_loop_def by (rule chat.stream_accepted[OF chat_new_sim refl])


section \<open>What an answer says\<close>

text \<open>The values of a whole answer; None when it is cut off, cannot be read, or reports an error.\<close>

fun chat_values :: "(string \<Rightarrow> string + json) \<Rightarrow> sse_input list \<Rightarrow> json list option" where
  "chat_values parse (SseClosed # inputs) = Some []"
| "chat_values parse (SseEvent e # inputs) =
     (if sse_data e = ''[DONE]'' then Some []
      else case parse (sse_data e) of
        Inl m \<Rightarrow> None
      | Inr v \<Rightarrow>
          (if provider_event_error ''OpenAI Chat'' v \<noteq> None then None
           else map_option (\<lambda>vs. v # vs) (chat_values parse inputs)))"
| "chat_values parse inputs = None"

definition chunk_delta :: "json \<Rightarrow> json" where
  "chunk_delta v =
     (case Option.bind (json_member v ''choices'') as_array of
        Some (choice # _) \<Rightarrow> member_or_null choice ''delta''
      | _ \<Rightarrow> JNull)"

definition text_or_empty :: "string option \<Rightarrow> string" where
  "text_or_empty t = (case t of None \<Rightarrow> [] | Some s \<Rightarrow> s)"

definition answer_text :: "json list \<Rightarrow> string" where
  "answer_text vs = concat (map (\<lambda>v. text_or_empty (string_arg (chunk_delta v) ''content'')) vs)"

definition answer_reasoning :: "json list \<Rightarrow> string" where
  "answer_reasoning vs = concat (map (\<lambda>v. text_or_empty (delta_reasoning (chunk_delta v))) vs)"

text \<open>The fragments of tool arguments, each with the index of its tool, and what they come to.\<close>

fun delta_fragments :: "nat \<Rightarrow> json list \<Rightarrow> (nat \<times> string option) list" where
  "delta_fragments position [] = []"
| "delta_fragments position (tool # rest) =
     (case u64_arg tool ''index'' of None \<Rightarrow> position | Some i \<Rightarrow> i,
      string_arg (member_or_null tool ''function'') ''arguments'') # delta_fragments (Suc position) rest"

definition answer_fragments :: "json list \<Rightarrow> (nat \<times> string option) list" where
  "answer_fragments vs =
     concat (map (\<lambda>v. case Option.bind (json_member (chunk_delta v) ''tool_calls'') as_array of
        None \<Rightarrow> [] | Some ds \<Rightarrow> delta_fragments 0 ds) vs)"

definition fragments_of :: "nat \<Rightarrow> (nat \<times> string option) list \<Rightarrow> string option list" where
  "fragments_of i fs = map snd (filter (\<lambda>f. fst f = i) fs)"

definition merged :: "string option list \<Rightarrow> string" where
  "merged fs = foldl merge_optional [] fs"

text \<open>What the adapter has said and collected after some of an answer.\<close>

definition tools_said :: "(nat \<times> string option) list \<Rightarrow> model_event list \<Rightarrow> (nat \<times> chat_tool_state) list \<Rightarrow> bool" where
  "tools_said fs es tools \<longleftrightarrow> (\<forall>i. case map_of tools i of
       None \<Rightarrow> i \<notin> fst ` set fs \<and> said (arguments_of i) es = []
     | Some t \<Rightarrow> i \<in> fst ` set fs \<and> ct_arguments t = merged (fragments_of i fs)
         \<and> said (arguments_of i) es = (if ct_started t then ct_arguments t else []))"

definition chat_said :: "json list \<Rightarrow> model_event list \<Rightarrow> chat_stream \<Rightarrow> bool" where
  "chat_said vs es s \<longleftrightarrow> said text_of es = answer_text vs \<and> said reasoning_of es = answer_reasoning vs
     \<and> tools_said (answer_fragments vs) es (ch_tools s)"

lemma merged_snoc: "merged (fs @ [f]) = merge_optional (merged fs) f"
  by (simp add: merged_def)

lemma fragments_of_snoc: "fragments_of i (fs @ [(j, f)]) = (if i = j then fragments_of i fs @ [f] else fragments_of i fs)"
  by (simp add: fragments_of_def)

lemma told_tool_said:
  assumes t: "told t" and m: "m = merged_tool a b c t"
  shows "(if ct_started t then ct_arguments t else []) @ said (arguments_of i) (fst (told_tool i m))
      = (if ct_started (snd (told_tool i m)) then ct_arguments m else [])"
    and "ct_arguments (snd (told_tool i m)) = ct_arguments m"
    and "j \<noteq> i \<Longrightarrow> said (arguments_of j) (fst (told_tool i m)) = []"
    and "said text_of (fst (told_tool i m)) = []" "said reasoning_of (fst (told_tool i m)) = []"
proof -
  have p: "prefix (ct_arguments t) (ct_arguments m)" using m merge_optional_keeps by (simp add: merged_tool_def)
  then obtain z where z: "ct_arguments m = ct_arguments t @ z" by (auto simp: prefix_def)
  have e: "ct_emitted m = ct_emitted t" "ct_started m = ct_started t" using m by (simp_all add: merged_tool_def)
  show "(if ct_started t then ct_arguments t else []) @ said (arguments_of i) (fst (told_tool i m))
      = (if ct_started (snd (told_tool i m)) then ct_arguments m else [])"
    using t z e by (cases "ct_started t") (auto simp: told_def told_tool_def Let_def said_def)
qed (auto simp: told_tool_def Let_def said_def)

lemma update_chat_tool_said:
  assumes "chat_inv s" "tools_said fs es (ch_tools s)" "update_chat_tool i a b c (ch_tools s) = (out, tools)"
  shows "tools_said (fs @ [(i, c)]) (es @ out) tools \<and> said text_of out = [] \<and> said reasoning_of out = []"
proof -
  let ?t = "case map_of (ch_tools s) i of None \<Rightarrow> chat_tool_new | Some t \<Rightarrow> t"
  let ?m = "merged_tool a b c ?t"
  have m: "smap_ok (ch_tools s)" "told ?t"
    using assms(1) by (auto simp: chat_inv_def told_def chat_tool_new_def split: option.splits)
  have out: "out = fst (told_tool i ?m)" "tools = smap_put i (snd (told_tool i ?m)) (ch_tools s)"
    using assms(3) by (auto simp: update_chat_tool_def Let_def split: prod.splits)
  note told = told_tool_said[OF m(2) refl, where a = a and b = b and c = c and i = i]
  have old: "ct_arguments ?t = merged (fragments_of i fs)" "said (arguments_of i) es = (if ct_started ?t then ct_arguments ?t else [])"
  proof -
    have "fragments_of i fs = []" if "i \<notin> fst ` set fs"
      using that by (force simp: fragments_of_def filter_empty_conv)
    then show "ct_arguments ?t = merged (fragments_of i fs)"
      "said (arguments_of i) es = (if ct_started ?t then ct_arguments ?t else [])"
      using assms(2)[unfolded tools_said_def, rule_format, of i]
      by (cases "map_of (ch_tools s) i"; simp add: chat_tool_new_def merged_def)+
  qed
  have new: "ct_arguments ?m = merged (fragments_of i (fs @ [(i, c)]))"
    using old(1) by (simp add: merged_tool_def fragments_of_snoc merged_snoc)
  have "tools_said (fs @ [(i, c)]) (es @ out) tools"
    unfolding tools_said_def
  proof
    fix j
    show "case map_of tools j of None \<Rightarrow> j \<notin> fst ` set (fs @ [(i, c)]) \<and> said (arguments_of j) (es @ out) = []
      | Some t \<Rightarrow> j \<in> fst ` set (fs @ [(i, c)]) \<and> ct_arguments t = merged (fragments_of j (fs @ [(i, c)]))
        \<and> said (arguments_of j) (es @ out) = (if ct_started t then ct_arguments t else [])"
    proof (cases "j = i")
      case True
      then show ?thesis using out m(1) told(1,2) old(2) new by simp
    next
      case False
      then show ?thesis
        using out m(1) told(3)[of j] assms(2)[unfolded tools_said_def, rule_format, of j]
        by (auto simp: fragments_of_snoc split: option.splits)
    qed
  qed
  then show ?thesis using told(4,5) out(1) by simp
qed

lemma chat_tool_deltas_said:
  assumes "chat_inv s" "tools_said fs es (ch_tools s)" "chat_tool_deltas n ds (ch_tools s) = (out, tools)"
  shows "tools_said (fs @ delta_fragments n ds) (es @ out) tools \<and> said text_of out = [] \<and> said reasoning_of out = []"
  using assms
proof (induction ds arbitrary: n s fs es out tools)
  case Nil
  then show ?case by simp
next
  case (Cons d ds)
  let ?f = "member_or_null d ''function''" and ?i = "case u64_arg d ''index'' of None \<Rightarrow> n | Some i \<Rightarrow> i"
  obtain out1 tools1 where u: "update_chat_tool ?i (string_arg d ''id'') (string_arg ?f ''name'')
      (string_arg ?f ''arguments'') (ch_tools s) = (out1, tools1)" by force
  obtain out2 where r: "chat_tool_deltas (Suc n) ds tools1 = (out2, tools)" "out = out1 @ out2"
    using Cons.prems(3) u by (auto simp: Let_def split: prod.splits)
  let ?s = "s\<lparr>ch_tools := tools1\<rparr>"
  have inv: "chat_inv ?s" using update_chat_tool_ok[OF Cons.prems(1) u] by (simp add: chat_ok_def)
  note one = update_chat_tool_said[OF Cons.prems(1,2) u]
  show ?case using Cons.IH[OF inv, of "fs @ [(?i, string_arg ?f ''arguments'')]" "es @ out1" "Suc n" out2 tools] one r by simp
qed


lemma chat_chunk_said:
  assumes inv: "chat_inv s" and es: "chat_said vs es s" and v: "chat_chunk v s = (out, s')"
  shows "chat_said (vs @ [v]) (es @ out) s'"
proof -
  let ?s = "case not_null (json_member v ''usage'') of None \<Rightarrow> s | Some u \<Rightarrow> s\<lparr>ch_usage := Some (openai_usage u)\<rparr>"
  let ?d = "chunk_delta v"
  have tools: "ch_tools ?s = ch_tools s" by (simp split: option.splits)
  obtain o1 s1 where 1: "chat_reasoning ?d ?s = (o1, s1)" by force
  obtain o2 s2 where 2: "chat_text ?d s1 = (o2, s2)" by force
  obtain o3 s3 where 3: "chat_tool_calls ?d s2 = (o3, s3)" by force
  have r: "said text_of o1 = []" "said reasoning_of o1 = text_or_empty (delta_reasoning ?d)" "\<And>i. said (arguments_of i) o1 = []"
      "ch_tools s1 = ch_tools s"
    using 1 tools by (auto simp: chat_reasoning_def said_def text_or_empty_def split: option.splits if_splits)
  have c: "said text_of o2 = text_or_empty (string_arg ?d ''content'')" "said reasoning_of o2 = []" "\<And>i. said (arguments_of i) o2 = []"
      "ch_tools s2 = ch_tools s"
    using 2 r(4) by (auto simp: chat_text_def said_def text_or_empty_def not_empty_def split: option.splits if_splits)
  let ?fs = "case Option.bind (json_member ?d ''tool_calls'') as_array of None \<Rightarrow> [] | Some ds \<Rightarrow> delta_fragments 0 ds"
  have "tools_said (answer_fragments vs) (es @ o1 @ o2) (ch_tools s2)"
    using es r(3) c(3,4) by (simp add: chat_said_def tools_said_def cong: option.case_cong)
  moreover have "chat_inv s2" using inv c(4) by (simp add: chat_inv_def)
  ultimately have k: "tools_said (answer_fragments vs @ ?fs) ((es @ o1 @ o2) @ o3) (ch_tools s3)
      \<and> said text_of o3 = [] \<and> said reasoning_of o3 = []"
    using 3 chat_tool_deltas_said[of s2 "answer_fragments vs" "es @ o1 @ o2" 0]
    by (auto simp: chat_tool_calls_def split: option.splits prod.splits)
  have all: "chat_said (vs @ [v]) (es @ o1 @ o2 @ o3) s3"
    using es r c k by (simp add: chat_said_def answer_text_def answer_reasoning_def answer_fragments_def)
  show ?thesis
  proof (cases "\<exists>choice rest. Option.bind (json_member v ''choices'') as_array = Some (choice # rest)")
    case True
    then obtain choice rest where ch: "Option.bind (json_member v ''choices'') as_array = Some (choice # rest)" by blast
    then have d: "?d = member_or_null choice ''delta''" by (simp add: chunk_delta_def)
    have "out = o1 @ o2 @ o3" "ch_tools s' = ch_tools s3"
      using v ch 1[unfolded d] 2[unfolded d] 3[unfolded d] by (auto simp: chat_chunk_def chat_finish_def Let_def split: option.splits)
    then show ?thesis using all by (simp add: chat_said_def)
  next
    case False
    then have d: "?d = JNull" and out: "out = []" "s' = ?s"
      using v by (auto simp: chat_chunk_def chunk_delta_def Let_def split: option.splits list.splits)
    have "o1 = [] \<and> o2 = [] \<and> o3 = []"
      using 1 2 3 d by (simp add: chat_reasoning_def chat_text_def chat_tool_calls_def delta_reasoning_def first_of_def
          json_member_def not_empty_def string_arg_def)
    moreover have "ch_tools s3 = ch_tools ?s"
      using 3 c(4) tools d by (simp add: chat_tool_calls_def json_member_def)
    ultimately show ?thesis using all out by (simp add: chat_said_def)
  qed
qed

lemma close_tools_said:
  assumes "close_tools m = (out, None)" "distinct (map fst m)"
  shows "said (arguments_of i) out = (case map_of m i of Some t \<Rightarrow> if ct_started t then [] else ct_arguments t | None \<Rightarrow> [])
    \<and> said text_of out = [] \<and> said reasoning_of out = []"
  using assms
proof (induction m arbitrary: out)
  case (Cons x m)
  obtain j t where x: "x = (j, t)" by force
  obtain out1 out2 where r: "close_tool j t = Inr out1" "close_tools m = (out2, None)" "out = out1 @ out2"
    using Cons.prems(1) x by (auto split: sum.splits prod.splits)
  have one: "said (arguments_of i) out1 = (if i = j then if ct_started t then [] else ct_arguments t else [])"
      "said text_of out1 = []" "said reasoning_of out1 = []"
    using r(1) by (auto simp: close_tool_def said_def Let_def split: if_splits)
  have "i = j \<Longrightarrow> map_of m i = None" using Cons.prems(2) x by (auto simp: map_of_eq_None_iff)
  then show ?case using Cons.IH[OF r(2)] Cons.prems(2) one r(3) x by auto
qed (simp add: said_def)

text \<open>The whole answer, from any point of it.\<close>

definition whole_answer :: "json list \<Rightarrow> model_event list \<Rightarrow> bool" where
  "whole_answer vs es \<longleftrightarrow> said text_of es = answer_text vs \<and> said reasoning_of es = answer_reasoning vs
     \<and> (\<forall>i. said (arguments_of i) es = merged (fragments_of i (answer_fragments vs)))"

lemma chat_close_said:
  assumes "chat_inv s" "chat_said vs es s" "chat_close s = (out, None)"
  shows "whole_answer vs (es @ out)"
proof -
  have m: "distinct (map fst (ch_tools s))" using assms(1) smap_ok_distinct by (auto simp: chat_inv_def)
  obtain out1 where c: "close_tools (ch_tools s) = (out1, None)"
    using assms(3) by (auto simp: chat_close_def Let_def split: prod.splits option.splits)
  have out: "said text_of out = []" "said reasoning_of out = []" "\<And>i. said (arguments_of i) out = said (arguments_of i) out1"
  proof -
    let ?a = "(if ch_thinking_open s then [EThinkingEnd] else []) @ (if ch_text_open s then [ETextEnd] else [])"
    obtain x where x: "out = ?a @ out1 @ (case ch_usage s of None \<Rightarrow> [] | Some u \<Rightarrow> [EUsage u]) @ chat_replay s @ [EDone x]"
      using assms(3) c by (auto simp: chat_close_def Let_def split: option.splits)
    have "said f ?a = []" "said f ((case ch_usage s of None \<Rightarrow> [] | Some u \<Rightarrow> [EUsage u]) @ chat_replay s @ [EDone x]) = []"
      if "f \<in> {text_of, reasoning_of} \<union> range arguments_of" for f
      using that by (auto simp: said_def chat_replay_def split: option.splits)
    then have "said f out = said f out1" if "f \<in> {text_of, reasoning_of} \<union> range arguments_of" for f
      using that unfolding x by simp
    then show "said text_of out = []" "said reasoning_of out = []" "said (arguments_of i) out = said (arguments_of i) out1" for i
      using close_tools_said[OF c m] by simp_all
  qed
  have "said (arguments_of i) (es @ out) = merged (fragments_of i (answer_fragments vs))" for i
  proof -
    have "fragments_of i fs = []" if "i \<notin> fst ` set fs" for fs
      using that by (force simp: fragments_of_def filter_empty_conv)
    then show ?thesis
      using assms(2) close_tools_said[OF c m, of i] out(3)[of i]
      by (cases "map_of (ch_tools s) i") (auto simp: chat_said_def tools_said_def merged_def dest: spec[of _ i] split: if_splits)
  qed
  then show ?thesis using assms(2) out(1,2) by (simp add: whole_answer_def chat_said_def)
qed


lemma yields_events: "fst (yields out rest) = map Inr es \<Longrightarrow> \<exists>es'. es = out @ es' \<and> fst rest = map Inr es'"
proof -
  assume "fst (yields out rest) = map Inr es"
  then have "map Inr es = map Inr out @ fst rest" by (simp add: yields_def)
  then obtain us vs where "es = us @ vs" "map Inr us = (map Inr out :: (error + model_event) list)" "map Inr vs = fst rest"
    by (auto simp: map_eq_append_conv)
  then show ?thesis by (intro exI[of _ vs]) (simp add: inj_map_eq_map)
qed

lemma ends_events: "fst (ends_with c) = map Inr es \<Longrightarrow> c = (es, None)"
proof -
  assume a: "fst (ends_with c) = map Inr es"
  have "snd c = None"
  proof (rule ccontr)
    assume "snd c \<noteq> None"
    then obtain e where "snd c = Some e" by blast
    then have "Inl e \<in> set (fst (ends_with c))" by (simp add: ends_with_def)
    then show False unfolding a by auto
  qed
  then show ?thesis using a by (cases c) (simp add: ends_with_def inj_map_eq_map)
qed

definition answered :: "json list \<Rightarrow> model_event list \<Rightarrow> blocks \<Rightarrow> model_event list \<Rightarrow> bool" where
  "answered vs es v out \<longleftrightarrow> whole_answer vs (es @ out)
     \<and> (\<exists>w. legals False out v = Some w \<and> bl_finish w \<noteq> None \<and> dom (bl_tools w) = fst ` set (answer_fragments vs))"

lemma chat_close_answered:
  assumes "chat_inv s" "chat_said vs es s" "chat_close s = (out, None)"
  shows "answered vs es (chat_blocks s) out"
proof -
  obtain w where w: "legals False out (chat_blocks s) = Some w" "bl_finish w = chat_reason s" "chat_reason s \<noteq> None"
      "bl_tools w = (\<lambda>i. if map_of (ch_tools s) i = None then None else Some True)"
    using chat_close_ok[OF assms(1,3)] by blast
  have "i \<in> fst ` set (answer_fragments vs) \<longleftrightarrow> map_of (ch_tools s) i \<noteq> None" for i
    using assms(2)[unfolded chat_said_def tools_said_def, THEN conjunct2, THEN conjunct2, rule_format, of i]
    by (cases "map_of (ch_tools s) i") simp_all
  then have "dom (bl_tools w) = fst ` set (answer_fragments vs)" using w(4) by (auto simp: dom_def split: if_splits)
  then show ?thesis using w(1,2,3) chat_close_said[OF assms] by (auto simp: answered_def)
qed

lemma chat_loop_answered:
  assumes "chat_values parse inputs = Some vs" "chat_inv s" "chat_said vs0 es0 s"
    and "fst (openai_chat_loop parse inputs s) = map Inr out"
  shows "answered (vs0 @ vs) es0 (chat_blocks s) out \<and> snd (openai_chat_loop parse inputs s)"
  using assms
proof (induction parse inputs arbitrary: s vs vs0 es0 out rule: chat_values.induct)
  case (1 parse inputs)
  then have "chat_close s = (out, None)" by (auto simp: openai_chat_loop_def intro: ends_events)
  then show ?case using chat_close_answered[OF "1.prems"(2,3)] "1.prems"(1) by (simp add: openai_chat_loop_def ends_with_def)
next
  case (2 parse e inputs)
  show ?case
  proof (cases "sse_data e = ''[DONE]''")
    case True
    let ?s = "s\<lparr>ch_done := True\<rparr>"
    have same: "chat_inv ?s" "chat_said vs0 es0 ?s" "chat_blocks ?s = chat_blocks s"
      using "2.prems"(2,3) by (simp_all add: chat_inv_def chat_said_def chat_blocks_def)
    have loop: "openai_chat_loop parse (SseEvent e # inputs) s = yields [] (ends_with (chat_close ?s))"
      using True by (simp add: openai_chat_loop_def chat_event_def)
    then have "chat_close ?s = (out, None)" using "2.prems"(4) by (intro ends_events) (simp add: yields_def)
    then show ?thesis
      using chat_close_answered[OF same(1,2)] same(3) loop True "2.prems"(1) by (simp add: yields_def ends_with_def)
  next
    case False
    then obtain v vs' where v: "parse (sse_data e) = Inr v" "provider_event_error ''OpenAI Chat'' v = None"
        "chat_values parse inputs = Some vs'" "vs = v # vs'"
      using "2.prems"(1) by (auto split: sum.splits if_splits)
    obtain out1 s1 where c: "chat_chunk v s = (out1, s1)" by force
    have loop: "openai_chat_loop parse (SseEvent e # inputs) s = yields out1 (openai_chat_loop parse inputs s1)"
      using False v(1,2) c by (simp add: openai_chat_loop_def chat_event_def)
    obtain out2 where out: "out = out1 @ out2" "fst (openai_chat_loop parse inputs s1) = map Inr out2"
      using yields_events "2.prems"(4) loop by metis
    have ok: "legals False out1 (chat_blocks s) = Some (chat_blocks s1)" "chat_inv s1"
      using chat_chunk_ok[OF "2.prems"(2), of v] c by (simp_all add: chat_ok_def)
    have "answered ((vs0 @ [v]) @ vs') (es0 @ out1) (chat_blocks s1) out2 \<and> snd (openai_chat_loop parse inputs s1)"
      by (rule "2.IH"[OF False v(1) _ v(3) ok(2) chat_chunk_said[OF "2.prems"(2,3) c] out(2)]) (simp add: v(2))
    then show ?thesis
      using out(1) ok(1) v(4) loop by (auto simp: answered_def yields_def legals_append)
  qed
qed simp_all



text \<open>A text, then a tool call in two fragments.\<close>

definition demo_delta :: "(string \<times> json) list \<Rightarrow> json" where
  "demo_delta kvs = JObj [(''choices'', JArr [JObj [(''delta'', JObj kvs)]])]"

definition demo_call :: "(string \<times> json) list \<Rightarrow> string \<Rightarrow> (string \<times> json) list \<Rightarrow> json" where
  "demo_call tool arguments name =
     demo_delta [(''tool_calls'', JArr [JObj (tool @ [(''function'', JObj (name @ [(''arguments'', JStr arguments)]))])])]"

definition demo_chat_parse :: "string \<Rightarrow> string + json" where
  "demo_chat_parse d =
     (if d = ''1'' then Inr (demo_delta [(''content'', JStr ''hi'')])
      else if d = ''2'' then Inr (demo_call [(''id'', JStr ''k'')] ''{'' [(''name'', JStr ''ls'')])
      else if d = ''3'' then Inr (demo_call [] ''}'' [])
      else Inl ''unreadable'')"

definition demo_chat_inputs :: "sse_input list" where
  "demo_chat_inputs = map (\<lambda>d. SseEvent \<lparr>sse_name = [], sse_data = d\<rparr>) [''1'', ''2'', ''3'', ''[DONE]'']"

definition demo_state :: "bool \<Rightarrow> (nat \<times> chat_tool_state) list \<Rightarrow> chat_stream" where
  "demo_state done tools =
     chat_new\<lparr>ch_text_open := True, ch_tools := tools, ch_done := done\<rparr>"

definition demo_tool :: "string \<Rightarrow> chat_tool_state" where
  "demo_tool a = \<lparr>ct_id = ''k'', ct_name = ''ls'', ct_arguments = a, ct_emitted = length a, ct_started = True\<rparr>"

lemmas chunk_eval = chat_chunk_def member_or_null_def chat_reasoning_def delta_reasoning_def first_of_def not_empty_def
  chat_text_def chat_tool_calls_def chat_finish_def demo_call_def demo_delta_def not_null_def string_arg_def json_member_def
  as_array_def u64_arg_def

lemma demo_text_chunk: "chat_chunk (demo_delta [(''content'', JStr ''hi'')]) chat_new = ([ETextStart, ETextDelta ''hi''], demo_state False [])"
  by (simp add: chunk_eval chat_new_def demo_state_def)

lemma demo_call_chunk: "chat_chunk (demo_call [(''id'', JStr ''k'')] ''{'' [(''name'', JStr ''ls'')]) (demo_state False [])
    = ([EToolCallStart 0 ''k'' ''ls'', EToolCallArgumentsDelta 0 ''{''], demo_state False [(0, demo_tool ''{'')])"
  by (simp add: chunk_eval chat_new_def demo_state_def update_chat_tool_def merged_tool_def told_tool_def merge_optional_def
      merge_chat_fragment_def starts_with_def chat_tool_new_def demo_tool_def)

lemma demo_more_chunk: "chat_chunk (demo_call [] ''}'' []) (demo_state False [(0, demo_tool ''{'')])
    = ([EToolCallArgumentsDelta 0 ''}''], demo_state False [(0, demo_tool ''{}'')])"
  by (simp add: chunk_eval chat_new_def demo_state_def update_chat_tool_def merged_tool_def told_tool_def merge_optional_def
      merge_chat_fragment_def starts_with_def demo_tool_def)

lemma demo_close: "chat_close ((demo_state False [(0, demo_tool ''{}'')])\<lparr>ch_done := True\<rparr>) = ([ETextEnd, EToolCallEnd 0, EDone FToolUse], None)"
  by (simp add: chat_close_def demo_state_def chat_new_def close_tool_def demo_tool_def chat_replay_def chat_reason_def first_of_def)

lemma demo_no_error:
  "provider_event_error ''OpenAI Chat'' (demo_delta kvs) = None" "provider_event_error ''OpenAI Chat'' (demo_call a b c) = None"
  by (simp_all add: provider_event_error_def demo_call_def demo_delta_def string_arg_def json_member_def not_null_def)

lemma demo_chat_values:
  "chat_values demo_chat_parse demo_chat_inputs = Some [demo_delta [(''content'', JStr ''hi'')],
     demo_call [(''id'', JStr ''k'')] ''{'' [(''name'', JStr ''ls'')], demo_call [] ''}'' []]"
  by (simp add: demo_chat_inputs_def demo_chat_parse_def demo_no_error)

lemma demo_chunk_delta:
  "chunk_delta (demo_delta kvs) = JObj kvs"
  "chunk_delta (demo_call tool a name) =
     JObj [(''tool_calls'', JArr [JObj (tool @ [(''function'', JObj (name @ [(''arguments'', JStr a)]))])])]"
  by (simp_all add: chunk_delta_def demo_call_def demo_delta_def json_member_def as_array_def member_or_null_def)

lemma demo_chat_answer:
  assumes "vs = [demo_delta [(''content'', JStr ''hi'')], demo_call [(''id'', JStr ''k'')] ''{'' [(''name'', JStr ''ls'')], demo_call [] ''}'' []]"
  shows "answer_text vs = ''hi''" "answer_fragments vs = [(0, Some ''{''), (0, Some ''}'')]"
  by (simp_all add: assms answer_text_def answer_fragments_def demo_chunk_delta text_or_empty_def string_arg_def json_member_def
      as_array_def u64_arg_def member_or_null_def)

lemma demo_chat_items:
  "fst (openai_chat_stream demo_chat_parse (Inr JNull) Accepted ''m'' demo_chat_inputs) =
     map Inr (EStart ''m'' # [ETextStart, ETextDelta ''hi'', EToolCallStart 0 ''k'' ''ls'', EToolCallArgumentsDelta 0 ''{'',
       EToolCallArgumentsDelta 0 ''}'', ETextEnd, EToolCallEnd 0] @ [EDone FToolUse])"
proof -
  note chunks = demo_text_chunk demo_call_chunk demo_more_chunk
  have "chat_event demo_chat_parse \<lparr>sse_name = [], sse_data = ''1''\<rparr> chat_new = ([ETextStart, ETextDelta ''hi''], GoesOn (demo_state False []))"
    by (simp add: chat_event_def demo_chat_parse_def demo_no_error chunks)
  moreover have "chat_event demo_chat_parse \<lparr>sse_name = [], sse_data = ''2''\<rparr> (demo_state False [])
      = ([EToolCallStart 0 ''k'' ''ls'', EToolCallArgumentsDelta 0 ''{''], GoesOn (demo_state False [(0, demo_tool ''{'')]))"
    by (simp add: chat_event_def demo_chat_parse_def demo_no_error chunks)
  moreover have "chat_event demo_chat_parse \<lparr>sse_name = [], sse_data = ''3''\<rparr> (demo_state False [(0, demo_tool ''{'')])
      = ([EToolCallArgumentsDelta 0 ''}''], GoesOn (demo_state False [(0, demo_tool ''{}'')]))"
    by (simp add: chat_event_def demo_chat_parse_def demo_no_error chunks)
  moreover have "chat_event demo_chat_parse \<lparr>sse_name = [], sse_data = ''[DONE]''\<rparr> s = ([], Leaves (s\<lparr>ch_done := True\<rparr>))" for s
    by (simp add: chat_event_def)
  ultimately show ?thesis
    by (simp add: openai_chat_stream_def openai_chat_loop_def adapter_stream_def demo_chat_inputs_def yields_def ends_with_def demo_close)
qed


section \<open>Fragments\<close>

text \<open>
  Fragments that repeat the value so far, each longer than the one before, come to the last of them; increments are put
  together when none is a beginning of what is there or begins with it.
\<close>

fun increments :: "string \<Rightarrow> string list \<Rightarrow> bool" where
  "increments acc [] = True"
| "increments acc (f # fs) = (\<not> prefix f acc \<and> (acc = [] \<or> \<not> prefix acc f) \<and> increments (acc @ f) fs)"

lemma starts_with_prefix: "starts_with s p \<longleftrightarrow> prefix p s"
  by (auto simp: starts_with_def prefix_def) (metis append_take_drop_id)

lemma merge_chat_fragment_prefix: "prefix t f \<Longrightarrow> merge_chat_fragment t f = f"
  by (auto simp: merge_chat_fragment_def starts_with_prefix prefix_order.eq_iff)

lemma repeated_values_merge: "sorted_wrt prefix (t # fs) \<Longrightarrow> foldl merge_chat_fragment t fs = last (t # fs)"
proof (induction fs arbitrary: t)
  case (Cons f fs)
  have "merge_chat_fragment t f = f" using Cons.prems by (intro merge_chat_fragment_prefix) simp
  then show ?case using Cons.IH[of f] Cons.prems by simp
qed simp

lemma increments_merge: "increments t fs \<Longrightarrow> foldl merge_chat_fragment t fs = t @ concat fs"
proof (induction fs arbitrary: t)
  case (Cons f fs)
  have "merge_chat_fragment t f = t @ f" using Cons.prems by (auto simp: merge_chat_fragment_def starts_with_prefix)
  then show ?case using Cons.IH[of "t @ f"] Cons.prems by simp
qed simp

text \<open>Not so otherwise: the second opening brace of a nested object is dropped.\<close>

lemma increment_swallowed:
  "foldl merge_chat_fragment [] [''{a:'', ''{'', ''b:1}}''] = ''{a:b:1}}''"
  by (simp add: merge_chat_fragment_def starts_with_def)

end
