(* ===== verification/OpenAiResponses.thy ===== *)
theory OpenAiResponses
  imports Providers
begin

text \<open>
  The OpenAI Responses adapter (src/server/src/provider/openai_responses.rs): its request and how it turns the events
  of a response into model events. Parsing and printing of JSON, base64, the origin of a URL and the integer that a
  JSON number is are arguments.
\<close>

section \<open>The request\<close>

fun responses_role_name :: "role \<Rightarrow> string" where
  "responses_role_name RSystem = ''system''"
| "responses_role_name RUser = ''user''"
| "responses_role_name RAssistant = ''assistant''"
| "responses_role_name RTool = ''tool''"

definition responses_content :: "(bytes \<Rightarrow> string) \<Rightarrow> string \<Rightarrow> content_part list \<Rightarrow> json list" where
  "responses_content b64 text_type ps =
     List.map_filter (\<lambda>p.
       case p of
         PText t \<Rightarrow> (if t = [] then None else Some (json_object [(''type'', JStr text_type), (''text'', JStr t)]))
       | PImage _ _ \<Rightarrow> Some (json_object
           [(''type'', JStr ''input_image''), (''detail'', JStr ''auto''), (''image_url'', JStr (image_url b64 p))])) ps"

definition responses_text_type :: "role \<Rightarrow> string" where
  "responses_text_type r = (if r = RAssistant then ''output_text'' else ''input_text'')"

definition responses_parts :: "(bytes \<Rightarrow> string) \<Rightarrow> role \<Rightarrow> content_part list \<Rightarrow> json list" where
  "responses_parts b64 r ps =
     (let content = responses_content b64 (responses_text_type r) ps
      in if content = [] then []
         else [json_object [(''type'', JStr ''message''), (''role'', JStr (responses_role_name r)), (''content'', JArr content)]])"

definition responses_text :: "role \<Rightarrow> string \<Rightarrow> json list" where
  "responses_text r t =
     (if t = [] then []
      else [json_object [(''type'', JStr ''message''), (''role'', JStr (responses_role_name r)),
              (''content'', JArr [json_object [(''type'', JStr (responses_text_type r)), (''text'', JStr t)]])]])"

definition response_reasoning_input :: "json \<Rightarrow> json result" where
  "response_reasoning_input item =
     (if string_arg item ''type'' \<noteq> Some ''reasoning''
      then Inl (Protocol ''OpenAI Responses replay state contains a non-reasoning item'')
      else Inr (fold (\<lambda>field v. case json_member item field of None \<Rightarrow> v | Some w \<Rightarrow> set_member field w v)
             [''id'', ''summary'', ''content'', ''encrypted_content'']
             (json_object [(''type'', JStr ''reasoning'')])))"

definition replay_owner :: "(string \<Rightarrow> string option) \<Rightarrow> string \<Rightarrow> string \<Rightarrow> json" where
  "replay_owner origin url model_id =
     json_object [(''upstream'', JStr (case origin url of Some u \<Rightarrow> u | None \<Rightarrow> url)), (''model'', JStr model_id)]"

text \<open>What is replayed of an assistant message: the reasoning of the same upstream and model.\<close>

definition responses_replay :: "json \<Rightarrow> provider_replay_state option \<Rightarrow> json list result" where
  "responses_replay owner state =
     (case state of
        None \<Rightarrow> Inr []
      | Some st \<Rightarrow>
          (if rp_provider_kind st \<noteq> ''openai_responses'' \<or> json_member (rp_value st) ''owner'' \<noteq> Some owner then Inr []
           else case Option.bind (json_member (rp_value st) ''items'') as_array of
             None \<Rightarrow> Inl (Protocol ''OpenAI Responses replay state is missing items'')
           | Some items \<Rightarrow> all_ok response_reasoning_input items))"

definition responses_call :: "(json \<Rightarrow> string) \<Rightarrow> tool_call_content \<Rightarrow> json" where
  "responses_call render k =
     json_object [(''type'', JStr ''function_call''), (''call_id'', JStr (tc_call_id k)), (''name'', JStr (tc_name k)),
                  (''arguments'', JStr (render (tc_arguments k)))]"

definition responses_message ::
    "(json \<Rightarrow> string) \<Rightarrow> (bytes \<Rightarrow> string) \<Rightarrow> json \<Rightarrow> projected \<Rightarrow> json list result" where
  "responses_message render b64 owner m =
     (case pm_content m of
        ProjParts ps \<Rightarrow> Inr (responses_parts b64 (pm_role m) ps)
      | ProjToolResult r \<Rightarrow>
          Inr [json_object
            [(''type'', JStr ''function_call_output''), (''call_id'', JStr (tr_call_id r)),
             (''output'', if tr_provider_parts r = [] then JStr (tr_content r)
                          else JArr (responses_content b64 ''input_text'' (tr_provider_parts r)))]]
      | ProjAssistant t _ replay calls \<Rightarrow>
          rbind (responses_replay owner replay) (\<lambda>items.
            Inr (items @ responses_text (pm_role m) t @ map (responses_call render) calls)))"

definition responses_input ::
    "(json \<Rightarrow> string) \<Rightarrow> (bytes \<Rightarrow> string) \<Rightarrow> json \<Rightarrow> projected list \<Rightarrow> json list result" where
  "responses_input render b64 owner messages =
     rbind (all_ok (responses_message render b64 owner) messages) (\<lambda>xs. Inr (concat xs))"

definition integer_schema_keywords :: "string list" where
  "integer_schema_keywords =
     [''minLength'', ''maxLength'', ''minItems'', ''maxItems'', ''minProperties'', ''maxProperties'',
      ''minContains'', ''maxContains'']"

text \<open>\<open>whole\<close> gives the integer text of a number below 9e15 in size that is whole.\<close>

fun normalize_schema_integers :: "(string \<Rightarrow> string option) \<Rightarrow> json \<Rightarrow> json" where
  "normalize_schema_integers whole (JObj kvs) =
     JObj (map (\<lambda>(k, v).
       (k, case normalize_schema_integers whole v of
             JNum t \<Rightarrow> JNum (if k \<in> set integer_schema_keywords then (case whole t of Some t' \<Rightarrow> t' | None \<Rightarrow> t) else t)
           | w \<Rightarrow> w)) kvs)"
| "normalize_schema_integers whole (JArr vs) = JArr (map (normalize_schema_integers whole) vs)"
| "normalize_schema_integers whole v = v"

definition responses_tool :: "(string \<Rightarrow> string option) \<Rightarrow> tool_definition \<Rightarrow> json" where
  "responses_tool whole t =
     json_object [(''type'', JStr ''function''), (''name'', JStr (td_name t)), (''description'', JStr (td_description t)),
                  (''parameters'', normalize_schema_integers whole (td_parameters t)), (''strict'', JBool False)]"

definition responses_apply_model :: "wire_spec \<Rightarrow> nat option \<Rightarrow> json \<Rightarrow> json result" where
  "responses_apply_model spec route_max body =
     (if \<not> is_object body then Inl (Provider ''OpenAI Responses request body is not an object'')
      else
        (let effort = rs_effort (ms_reasoning spec);
             body = (case first_of (ms_max_output_tokens spec) route_max of
                       None \<Rightarrow> body | Some n \<Rightarrow> set_member ''max_output_tokens'' (JNum (show_nat n)) body);
             body = (if reasoning_is_enabled (ms_reasoning spec) \<or> effort \<noteq> None
                     then set_member ''reasoning'' (json_object ([(''summary'', JStr ''auto'')]
                            @ (case effort of None \<Rightarrow> [] | Some e \<Rightarrow> [(''effort'', JStr e)]))) body
                     else body)
         in Inr (if ws_fast spec then set_member ''service_tier'' (JStr ''fast'') body else body)))"

definition responses_body ::
    "(json \<Rightarrow> string) \<Rightarrow> (bytes \<Rightarrow> string) \<Rightarrow> (string \<Rightarrow> string option) \<Rightarrow> json \<Rightarrow> prompt_spec \<Rightarrow> wire_spec
     \<Rightarrow> nat option \<Rightarrow> projected list \<Rightarrow> json result" where
  "responses_body render b64 whole owner prompt spec route_max history =
     rbind (responses_input render b64 owner history) (\<lambda>input.
       let body = json_object [(''model'', JStr (ms_model_id spec)), (''input'', JArr input), (''stream'', JBool True),
                    (''instructions'', JStr (ps_instructions prompt)),
                    (''include'', JArr [JStr ''reasoning.encrypted_content''])];
           body = (if ps_tools prompt = [] then body
                   else set_member ''tools'' (JArr (map (responses_tool whole) (ps_tools prompt))) body)
       in rbind (responses_apply_model spec route_max body) (openai_body spec))"


section \<open>The answer\<close>

record response_tool =
  rt_call_id :: "string option"
  rt_name :: "string option"
  rt_arguments :: string
  rt_emitted :: nat
  rt_started :: bool
  rt_ended :: bool

definition response_tool_new :: response_tool where
  "response_tool_new =
     \<lparr>rt_call_id = None, rt_name = None, rt_arguments = [], rt_emitted = 0, rt_started = False, rt_ended = False\<rparr>"

datatype tool_arguments = NoArguments | ArgumentsDelta string | ArgumentsSnapshot string

record responses_stream =
  re_text_open :: bool
  re_text :: string
  re_thinking_open :: bool
  re_tools :: "(nat \<times> response_tool) list"
  re_items :: "json list"
  re_saw_tool :: bool
  re_saw_item :: bool
  re_terminal :: bool

definition responses_new :: responses_stream where
  "responses_new =
     \<lparr>re_text_open = False, re_text = [], re_thinking_open = False, re_tools = [], re_items = [], re_saw_tool = False,
      re_saw_item = False, re_terminal = False\<rparr>"

definition responses_usage :: "json \<Rightarrow> usage" where
  "responses_usage v =
     (let input = u64_at v [''input_tokens'']
      in \<lparr>input_tokens = input, context_input_tokens = input, output_tokens = u64_at v [''output_tokens''],
          total_tokens = u64_at v [''total_tokens''],
          cache_read_tokens = u64_at v [''input_tokens_details'', ''cached_tokens''], cache_write_tokens = None,
          reasoning_tokens = u64_at v [''output_tokens_details'', ''reasoning_tokens'']\<rparr>)"

definition required_u64 :: "json \<Rightarrow> string \<Rightarrow> nat result" where
  "required_u64 v name =
     ok_or (Provider (''OpenAI Responses event is missing '' @ name)) (u64_arg v name)"

definition response_item_text :: "json \<Rightarrow> string option" where
  "response_item_text item =
     map_option (\<lambda>parts. concat (List.map_filter (\<lambda>p. string_arg p ''text'')
         (filter (\<lambda>p. string_arg p ''type'' = Some ''output_text'') parts)))
       (Option.bind (json_member item ''content'') as_array)"

definition reconcile_response_text :: "string \<Rightarrow> responses_stream \<Rightarrow> model_event list \<times> responses_stream" where
  "reconcile_response_text final_text s =
     (if starts_with final_text (re_text s) \<and> length (re_text s) < length final_text
      then ((if re_text_open s then [] else [ETextStart]) @ [ETextDelta (drop (length (re_text s)) final_text)],
            s\<lparr>re_text_open := True, re_text := final_text\<rparr>)
      else ([], s))"

text \<open>The steps of \<open>update_response_tool\<close>: what is learned, the arguments, what can be told, the end.\<close>

definition learned_tool :: "json \<Rightarrow> response_tool \<Rightarrow> response_tool" where
  "learned_tool item t =
     t\<lparr>rt_call_id := first_of (rt_call_id t) (string_arg item ''call_id''), rt_name := first_of (rt_name t) (string_arg item ''name'')\<rparr>"

definition with_arguments :: "tool_arguments \<Rightarrow> response_tool \<Rightarrow> response_tool result" where
  "with_arguments a t =
     (case a of
        NoArguments \<Rightarrow> Inr t
      | ArgumentsDelta d \<Rightarrow> Inr (t\<lparr>rt_arguments := rt_arguments t @ d\<rparr>)
      | ArgumentsSnapshot s \<Rightarrow>
          (if s = rt_arguments t then Inr t
           else if starts_with s (rt_arguments t)
           then Inr (t\<lparr>rt_arguments := rt_arguments t @ drop (length (rt_arguments t)) s\<rparr>)
           else Inl (Provider ''OpenAI Responses final tool arguments do not match streamed arguments'')))"

definition start_response_tool :: "nat \<Rightarrow> response_tool \<Rightarrow> model_event list \<times> response_tool" where
  "start_response_tool index t =
     (case (rt_call_id t, rt_name t) of
        (Some i, Some n) \<Rightarrow> (if rt_started t then ([], t) else ([EToolCallStart index i n], t\<lparr>rt_started := True\<rparr>))
      | _ \<Rightarrow> ([], t))"

definition tell_arguments :: "nat \<Rightarrow> response_tool \<Rightarrow> model_event list \<times> response_tool" where
  "tell_arguments index t =
     (if rt_started t \<and> rt_emitted t < length (rt_arguments t)
      then ([EToolCallArgumentsDelta index (drop (rt_emitted t) (rt_arguments t))], t\<lparr>rt_emitted := length (rt_arguments t)\<rparr>)
      else ([], t))"

definition end_response_tool :: "nat \<Rightarrow> bool \<Rightarrow> response_tool \<Rightarrow> (model_event list \<times> response_tool) result" where
  "end_response_tool index final t =
     (if final \<and> \<not> rt_ended t
      then (if rt_started t then Inr ([EToolCallEnd index], t\<lparr>rt_ended := True\<rparr>)
            else Inl (Provider ''OpenAI Responses function call is missing call_id or name''))
      else Inr ([], t))"

definition update_response_tool ::
    "nat \<Rightarrow> json \<Rightarrow> tool_arguments \<Rightarrow> bool \<Rightarrow> responses_stream \<Rightarrow> (model_event list \<times> responses_stream) result" where
  "update_response_tool index item a final s =
     (let t = (case map_of (re_tools s) index of None \<Rightarrow> response_tool_new | Some t \<Rightarrow> t)
      in rbind (with_arguments a (learned_tool item t)) (\<lambda>t.
           let (out1, t) = start_response_tool index t;
               (out2, t) = tell_arguments index t
           in rbind (end_response_tool index final t) (\<lambda>(out3, t).
                Inr (out1 @ out2 @ out3, s\<lparr>re_tools := smap_put index t (re_tools s)\<rparr>))))"

text \<open>Closing the blocks, and the tools that have not ended.\<close>

definition end_thinking :: "responses_stream \<Rightarrow> model_event list \<times> responses_stream" where
  "end_thinking s = (if re_thinking_open s then ([EThinkingEnd], s\<lparr>re_thinking_open := False\<rparr>) else ([], s))"

definition end_text :: "responses_stream \<Rightarrow> model_event list \<times> responses_stream" where
  "end_text s = (if re_text_open s then ([ETextEnd], s\<lparr>re_text_open := False\<rparr>) else ([], s))"

definition end_tools :: "responses_stream \<Rightarrow> model_event list \<times> responses_stream" where
  "end_tools s =
     (map (\<lambda>e. EToolCallEnd (fst e)) (filter (\<lambda>e. rt_started (snd e) \<and> \<not> rt_ended (snd e)) (re_tools s)),
      s\<lparr>re_tools := map (\<lambda>(i, t). (i, if rt_started t \<and> \<not> rt_ended t then t\<lparr>rt_ended := True\<rparr> else t)) (re_tools s)\<rparr>)"

definition responses_replay_state :: "json \<Rightarrow> json list \<Rightarrow> model_event list" where
  "responses_replay_state owner items =
     (if items = [] then []
      else [EReplayState \<lparr>rp_provider_kind = ''openai_responses'',
              rp_value = json_object [(''items'', JArr items), (''owner'', owner)]\<rparr>])"

definition tool_reason :: "responses_stream \<Rightarrow> finish_reason" where
  "tool_reason s = (if re_saw_tool s then FToolUse else FStop)"

type_synonym responses_step = "responses_stream step"

definition tool_step :: "(model_event list \<times> responses_stream) result \<Rightarrow> responses_step" where
  "tool_step r = (case r of Inl e \<Rightarrow> ([], Fails e) | Inr (out, s) \<Rightarrow> (out, GoesOn s))"

definition with_index :: "json \<Rightarrow> (nat \<Rightarrow> responses_step) \<Rightarrow> responses_step" where
  "with_index v f = with_value (required_u64 v ''output_index'') f"

text \<open>The events, by their kind.\<close>

definition on_text_delta :: "json \<Rightarrow> responses_stream \<Rightarrow> responses_step" where
  "on_text_delta v s =
     followed_by (end_thinking s) (\<lambda>s.
     followed_by (if re_text_open s then ([], s) else ([ETextStart], s\<lparr>re_text_open := True\<rparr>)) (\<lambda>s.
       case string_arg v ''delta'' of
         None \<Rightarrow> step_on s
       | Some d \<Rightarrow> ([ETextDelta d], GoesOn (s\<lparr>re_text := re_text s @ d\<rparr>))))"

definition on_final_text :: "string option \<Rightarrow> responses_stream \<Rightarrow> responses_step" where
  "on_final_text final_text s =
     followed_by (case final_text of None \<Rightarrow> ([], s) | Some t \<Rightarrow> reconcile_response_text t s) (\<lambda>s.
     followed_by (end_text s) step_on)"

definition on_thinking_delta :: "json \<Rightarrow> responses_stream \<Rightarrow> responses_step" where
  "on_thinking_delta v s =
     followed_by (if re_thinking_open s then ([], s) else ([EThinkingStart], s\<lparr>re_thinking_open := True\<rparr>)) (\<lambda>s.
       case string_arg v ''delta'' of None \<Rightarrow> step_on s | Some d \<Rightarrow> ([EThinkingDelta d], GoesOn s))"

definition on_item_added :: "json \<Rightarrow> responses_stream \<Rightarrow> responses_step" where
  "on_item_added v s =
     (let item = member_or_null v ''item''
      in if string_arg item ''type'' = Some ''function_call''
         then with_index v (\<lambda>i. tool_step (update_response_tool i item NoArguments False (s\<lparr>re_saw_tool := True\<rparr>)))
         else step_on s)"

definition on_item_done :: "json \<Rightarrow> responses_stream \<Rightarrow> responses_step" where
  "on_item_done v s =
     (let item = member_or_null v ''item'';
          kind = string_arg item ''type''
      in if kind = Some ''reasoning'' then
           followed_by (end_thinking s) (\<lambda>s. step_on (s\<lparr>re_items := re_items s @ [item]\<rparr>))
         else if kind = Some ''message'' then on_final_text (response_item_text item) (s\<lparr>re_saw_item := True\<rparr>)
         else if kind = Some ''function_call'' then
           with_index v (\<lambda>i.
             tool_step (update_response_tool i item
               (case string_arg item ''arguments'' of None \<Rightarrow> NoArguments | Some a \<Rightarrow> ArgumentsSnapshot a) True
               (s\<lparr>re_saw_tool := True, re_saw_item := True\<rparr>)))
         else step_on s)"

definition on_arguments_delta :: "json \<Rightarrow> responses_stream \<Rightarrow> responses_step" where
  "on_arguments_delta v s =
     with_index v (\<lambda>i.
       case string_arg v ''delta'' of
         None \<Rightarrow> step_on s
       | Some d \<Rightarrow> tool_step (update_response_tool i JNull (ArgumentsDelta d) False (s\<lparr>re_saw_tool := True\<rparr>)))"

definition on_arguments_done :: "json \<Rightarrow> responses_stream \<Rightarrow> responses_step" where
  "on_arguments_done v s =
     with_index v (\<lambda>i.
       case string_arg v ''arguments'' of
         None \<Rightarrow> tool_step (update_response_tool i JNull NoArguments True s)
       | Some a \<Rightarrow>
           (if a = [] then tool_step (update_response_tool i JNull NoArguments False s)
            else tool_step (update_response_tool i JNull (ArgumentsSnapshot a) True s)))"

definition on_completed :: "json \<Rightarrow> json \<Rightarrow> responses_stream \<Rightarrow> responses_step" where
  "on_completed owner v s =
     followed_by (case json_at v [''response'', ''usage''] of None \<Rightarrow> [] | Some u \<Rightarrow> [EUsage (responses_usage u)], s) (\<lambda>s.
     followed_by (end_thinking s) (\<lambda>s.
     followed_by (end_text s) (\<lambda>s.
     followed_by (end_tools s) (\<lambda>s.
       if list_ex (\<lambda>e. \<not> rt_started (snd e)) (re_tools s)
       then ([], Fails (Provider ''OpenAI Responses completed with incomplete tool metadata''))
       else (responses_replay_state owner (re_items s) @ [EDone (tool_reason s)],
             GoesOn (s\<lparr>re_terminal := True, re_items := []\<rparr>))))))"

definition on_incomplete :: "responses_stream \<Rightarrow> responses_step" where
  "on_incomplete s =
     followed_by (end_thinking s) (\<lambda>s.
     followed_by (end_text s) (\<lambda>s.
     followed_by (end_tools s) (\<lambda>s. ([EDone FLength], GoesOn (s\<lparr>re_terminal := True\<rparr>)))))"

definition responses_kind :: "json \<Rightarrow> string \<Rightarrow> json \<Rightarrow> responses_stream \<Rightarrow> responses_step" where
  "responses_kind owner kind v s =
     (if kind = ''response.output_text.delta'' then on_text_delta v s
      else if kind = ''response.output_text.done'' then on_final_text (string_arg v ''text'') s
      else if kind = ''response.reasoning_summary_text.delta'' \<or> kind = ''response.reasoning_text.delta'' then on_thinking_delta v s
      else if (kind = ''response.reasoning_summary_text.done'' \<or> kind = ''response.reasoning_text.done'') \<and> re_thinking_open s
      then followed_by (end_thinking s) step_on
      else if kind = ''response.output_item.added'' then on_item_added v s
      else if kind = ''response.output_item.done'' then on_item_done v s
      else if kind = ''response.function_call_arguments.delta'' then on_arguments_delta v s
      else if kind = ''response.function_call_arguments.done'' then on_arguments_done v s
      else if kind = ''response.completed'' then on_completed owner v s
      else if kind = ''response.incomplete'' then on_incomplete s
      else step_on s)"

definition responses_event ::
    "(string \<Rightarrow> string + json) \<Rightarrow> json \<Rightarrow> sse_event \<Rightarrow> responses_stream \<Rightarrow> responses_step" where
  "responses_event parse owner e s =
     (if sse_data e = ''[DONE]'' then ([], Leaves s)
      else case parse (sse_data e) of
        Inl m \<Rightarrow> ([], Fails (Json m))
      | Inr v \<Rightarrow>
          (case provider_event_error ''OpenAI Responses'' v of
             Some err \<Rightarrow> ([], Fails err)
           | None \<Rightarrow> responses_kind owner (case string_arg v ''type'' of Some k \<Rightarrow> k | None \<Rightarrow> sse_name e) v s))"

definition responses_close :: "json \<Rightarrow> responses_stream \<Rightarrow> model_event list \<times> error option" where
  "responses_close owner s =
     (if re_terminal s then ([], None)
      else if \<not> re_saw_item s
      then ([], Some (Provider ''OpenAI Responses stream ended without response.completed or response.incomplete''))
      else
        (let out = fst (end_thinking s) @ fst (end_text s)
         in if list_ex (\<lambda>e. \<not> rt_ended (snd e)) (re_tools s)
            then (out, Some (Provider ''OpenAI Responses stream ended with an incomplete tool call''))
            else (out @ responses_replay_state owner (re_items s) @ [EDone (tool_reason s)], None)))"

definition openai_responses_loop :: "(string \<Rightarrow> string + json) \<Rightarrow> json \<Rightarrow> sse_input list \<Rightarrow> responses_stream \<Rightarrow> items" where
  "openai_responses_loop parse owner =
     adapter_loop ''OpenAI Responses'' (responses_event parse owner) (responses_close owner)"

definition openai_responses_stream ::
    "(string \<Rightarrow> string + json) \<Rightarrow> json \<Rightarrow> json result \<Rightarrow> sending \<Rightarrow> string \<Rightarrow> sse_input list \<Rightarrow> items" where
  "openai_responses_stream parse owner body sent cid inputs =
     adapter_stream body sent cid (openai_responses_loop parse owner inputs responses_new)"

end
