(* ===== verification/OpenAiResponsesLaws.thy ===== *)
theory OpenAiResponsesLaws
  imports OpenAiResponses ProviderLaws
begin

text \<open>
  What the OpenAI Responses adapter guarantees: its streams keep to the protocol until the response is complete, and the
  reason it gives always fits the tools it started.
\<close>

section \<open>The blocks of the adapter\<close>

definition responses_blocks :: "bool \<Rightarrow> responses_stream \<Rightarrow> blocks" where
  "responses_blocks u s =
     \<lparr>bl_text = re_text_open s, bl_thinking = re_thinking_open s,
      bl_tools = (\<lambda>i. case map_of (re_tools s) i of
        None \<Rightarrow> None | Some t \<Rightarrow> (if rt_started t then Some (rt_ended t) else None)),
      bl_usage = u, bl_replay = False, bl_finish = None\<rparr>"

text \<open>A tool that has ended was started, one that was started has an id, and an id comes from a call that was seen.\<close>

definition response_tool_ok :: "bool \<Rightarrow> response_tool \<Rightarrow> bool" where
  "response_tool_ok saw t \<longleftrightarrow> (rt_ended t \<longrightarrow> rt_started t) \<and> (rt_started t \<longrightarrow> rt_call_id t \<noteq> None)
     \<and> (rt_call_id t \<noteq> None \<longrightarrow> saw)"

definition live :: "responses_stream \<Rightarrow> bool" where
  "live s \<longleftrightarrow> \<not> re_terminal s \<and> smap_ok (re_tools s)
     \<and> (\<forall>i t. map_of (re_tools s) i = Some t \<longrightarrow> response_tool_ok (re_saw_tool s) t)
     \<and> (re_saw_tool s \<longrightarrow> re_tools s \<noteq> [])"

definition responses_sim :: "responses_stream \<Rightarrow> blocks \<Rightarrow> bool" where
  "responses_sim s v \<longleftrightarrow>
     (if re_terminal s then bl_finish v \<noteq> None \<and> fitting v else live s \<and> v = responses_blocks False s)"

text \<open>Steps: within an event, and the whole of it.\<close>

definition part_ok :: "bool \<Rightarrow> responses_stream \<Rightarrow> model_event list \<times> responses_stream \<Rightarrow> bool" where
  "part_ok u s p \<longleftrightarrow> legals True (fst p) (responses_blocks u s) = Some (responses_blocks u (snd p)) \<and> live (snd p)"

definition step_ok :: "bool \<Rightarrow> responses_stream \<Rightarrow> responses_step \<Rightarrow> bool" where
  "step_ok u s r \<longleftrightarrow> (\<exists>w. legals True (fst r) (responses_blocks u s) = Some w
     \<and> (case snd r of GoesOn s' \<Rightarrow> responses_sim s' w | Leaves s' \<Rightarrow> responses_sim s' w | Fails _ \<Rightarrow> True))"

lemma followed_by_ok:
  assumes "part_ok u s p" "live (snd p) \<Longrightarrow> step_ok u (snd p) (f (snd p))"
  shows "step_ok u s (followed_by p f)"
proof -
  obtain w where w: "legals True (fst (f (snd p))) (responses_blocks u (snd p)) = Some w"
      "case snd (f (snd p)) of GoesOn s' \<Rightarrow> responses_sim s' w | Leaves s' \<Rightarrow> responses_sim s' w | Fails _ \<Rightarrow> True"
    using assms by (auto simp: part_ok_def step_ok_def)
  have "legals True (fst p @ fst (f (snd p))) (responses_blocks u s) = Some w"
    using assms(1) w(1) by (intro legals_appendI) (auto simp: part_ok_def)
  then show ?thesis using w(2) by (auto simp: step_ok_def followed_by_def split: prod.splits)
qed

lemma live_sim: "live s \<Longrightarrow> responses_sim s (responses_blocks False s)"
  by (simp add: responses_sim_def live_def)

lemma part_step: "part_ok False s (out, s') \<Longrightarrow> step_ok False s (out, GoesOn s')"
  using live_sim by (auto simp: part_ok_def step_ok_def)

lemma step_on_ok: "live s \<Longrightarrow> step_ok False s (step_on s)"
  using live_sim by (simp add: step_ok_def step_on_def)

lemma fails_ok: "step_ok u s ([], Fails e)"
  by (simp add: step_ok_def)

text \<open>Parts that leave the tools alone.\<close>

lemma live_same:
  "live s \<Longrightarrow> re_tools s' = re_tools s \<Longrightarrow> re_saw_tool s' = re_saw_tool s \<Longrightarrow> re_terminal s' = re_terminal s \<Longrightarrow> live s'"
  by (simp add: live_def)

lemma part_same:
  assumes "live s" "re_tools s' = re_tools s" "re_saw_tool s' = re_saw_tool s" "re_terminal s' = re_terminal s"
    and "legals True out (responses_blocks u s) = Some ((responses_blocks u s)\<lparr>bl_text := re_text_open s', bl_thinking := re_thinking_open s'\<rparr>)"
  shows "part_ok u s (out, s')"
  using assms live_same[OF assms(1-4)] by (simp add: part_ok_def responses_blocks_def)

lemma end_thinking_ok: "live s \<Longrightarrow> part_ok u s (end_thinking s)"
  by (auto simp: end_thinking_def legal_def responses_blocks_def intro!: part_same)

lemma end_text_ok: "live s \<Longrightarrow> part_ok u s (end_text s)"
  by (auto simp: end_text_def legal_def responses_blocks_def intro!: part_same)

lemma start_text_ok: "live s \<Longrightarrow> part_ok u s (if re_text_open s then ([], s) else ([ETextStart], s\<lparr>re_text_open := True\<rparr>))"
  by (auto simp: legal_def responses_blocks_def intro!: part_same)

lemma start_thinking_ok:
  "live s \<Longrightarrow> part_ok u s (if re_thinking_open s then ([], s) else ([EThinkingStart], s\<lparr>re_thinking_open := True\<rparr>))"
  by (auto simp: legal_def responses_blocks_def intro!: part_same)

lemma reconcile_ok: "live s \<Longrightarrow> part_ok u s (reconcile_response_text t s)"
  by (auto simp: reconcile_response_text_def legal_def responses_blocks_def intro!: part_same)

lemma part_nothing: "live s \<Longrightarrow> part_ok u s ([], s)"
  by (simp add: part_ok_def)


section \<open>Tools\<close>

lemma learned_ok: "response_tool_ok saw t \<Longrightarrow> saw \<or> string_arg item ''call_id'' = None \<Longrightarrow> response_tool_ok saw (learned_tool item t)"
  by (auto simp: response_tool_ok_def learned_tool_def first_of_def split: option.splits)

lemma with_arguments_same:
  "with_arguments a t = Inr t' \<Longrightarrow> rt_started t' = rt_started t \<and> rt_ended t' = rt_ended t \<and> rt_call_id t' = rt_call_id t"
  by (auto simp: with_arguments_def split: tool_arguments.splits if_splits)

definition tool_block :: "response_tool \<Rightarrow> bool option" where
  "tool_block t = (if rt_started t then Some (rt_ended t) else None)"

text \<open>A tool's own part of the blocks moves as its events say.\<close>

definition tool_moves :: "nat \<Rightarrow> bool \<Rightarrow> response_tool \<Rightarrow> model_event list \<times> response_tool \<Rightarrow> bool" where
  "tool_moves i saw t p \<longleftrightarrow> response_tool_ok saw (snd p)
     \<and> (\<forall>v. bl_finish v = None \<longrightarrow> bl_tools v i = tool_block t \<longrightarrow>
          legals True (fst p) v = Some (v\<lparr>bl_tools := (bl_tools v)(i := tool_block (snd p))\<rparr>))"

lemma tool_moves_append:
  assumes "tool_moves i saw t (a, t1)" "tool_moves i saw t1 (b, t2)"
  shows "tool_moves i saw t (a @ b, t2)"
  using assms by (auto simp: tool_moves_def legals_append)

lemma start_moves: "response_tool_ok saw t \<Longrightarrow> tool_moves i saw t (start_response_tool i t)"
  by (auto simp: tool_moves_def start_response_tool_def response_tool_ok_def legal_def tool_block_def fun_upd_idem
      split: option.splits)

lemma tell_moves: "response_tool_ok saw t \<Longrightarrow> tool_moves i saw t (tell_arguments i t)"
  by (auto simp: tool_moves_def tell_arguments_def response_tool_ok_def legal_def tool_block_def fun_upd_idem)

lemma end_moves: "response_tool_ok saw t \<Longrightarrow> end_response_tool i final t = Inr p \<Longrightarrow> tool_moves i saw t p"
  by (auto simp: tool_moves_def end_response_tool_def response_tool_ok_def legal_def tool_block_def fun_upd_idem split: if_splits)

lemma update_response_tool_ok:
  assumes s: "live s" "saw = re_saw_tool s \<or> saw" "saw \<or> string_arg item ''call_id'' = None"
    and u: "update_response_tool i item a final (s\<lparr>re_saw_tool := saw, re_saw_item := seen\<rparr>) = Inr (out, s')"
  shows "part_ok False s (out, s')"
proof -
  let ?t = "case map_of (re_tools s) i of None \<Rightarrow> response_tool_new | Some t \<Rightarrow> t"
  have m: "smap_ok (re_tools s)" using s(1) by (simp add: live_def)
  have mono: "response_tool_ok (re_saw_tool s) t \<Longrightarrow> response_tool_ok saw t" for t
    using s(2) by (auto simp: response_tool_ok_def)
  have "response_tool_ok saw response_tool_new" by (simp add: response_tool_new_def response_tool_ok_def)
  then have t0: "response_tool_ok saw ?t" using s(1) mono by (auto simp: live_def split: option.splits)
  obtain t1 where t1: "with_arguments a (learned_tool item ?t) = Inr t1"
    using u by (auto simp: update_response_tool_def Let_def)
  obtain o2 t2 where t2: "start_response_tool i t1 = (o2, t2)" by force
  obtain o3 t3 where t3: "tell_arguments i t2 = (o3, t3)" by force
  obtain o4 t4 where t4: "end_response_tool i final t3 = Inr (o4, t4)" "out = o2 @ o3 @ o4"
      "s' = s\<lparr>re_saw_tool := saw, re_saw_item := seen, re_tools := smap_put i t4 (re_tools s)\<rparr>"
    using u t1 t2 t3 by (auto simp: update_response_tool_def Let_def split: prod.splits)
  have same: "rt_started t1 = rt_started ?t" "rt_ended t1 = rt_ended ?t" "rt_call_id t1 = rt_call_id (learned_tool item ?t)"
    using with_arguments_same[OF t1] by (simp_all add: learned_tool_def)
  have ok1: "response_tool_ok saw t1"
    using learned_ok[OF t0 s(3)] same by (simp add: response_tool_ok_def learned_tool_def)
  have m2: "tool_moves i saw t1 (o2, t2)" using start_moves[OF ok1, of i] t2 by simp
  then have m3: "tool_moves i saw t2 (o3, t3)" using tell_moves[of saw t2 i] t3 by (simp add: tool_moves_def)
  then have "response_tool_ok saw t3" by (simp add: tool_moves_def)
  then have m4: "tool_moves i saw t3 (o4, t4)" by (rule end_moves[OF _ t4(1)])
  have moves: "tool_moves i saw t1 (out, t4)"
    unfolding t4(2) by (rule tool_moves_append[OF m2 tool_moves_append[OF m3 m4]])
  have b: "bl_tools (responses_blocks False s) i = tool_block t1"
    using same by (auto simp: responses_blocks_def tool_block_def response_tool_new_def split: option.splits)
  have b': "responses_blocks False s' = (responses_blocks False s)\<lparr>bl_tools := (bl_tools (responses_blocks False s))(i := tool_block t4)\<rparr>"
    using m by (auto simp: t4(3) responses_blocks_def tool_block_def fun_eq_iff)
  have "legals True out (responses_blocks False s) = Some (responses_blocks False s')"
    using moves b b' by (simp add: tool_moves_def responses_blocks_def)
  moreover have "live s'"
    using s(1) m mono moves by (auto simp: live_def t4(3) tool_moves_def)
  ultimately show ?thesis by (simp add: part_ok_def)
qed

lemma tool_step_ok:
  assumes "live s" "saw = re_saw_tool s \<or> saw" "saw \<or> string_arg item ''call_id'' = None"
  shows "step_ok False s (tool_step (update_response_tool i item a final (s\<lparr>re_saw_tool := saw, re_saw_item := seen\<rparr>)))"
  using update_response_tool_ok[OF assms]
  by (cases "update_response_tool i item a final (s\<lparr>re_saw_tool := saw, re_saw_item := seen\<rparr>)")
    (auto simp: tool_step_def fails_ok intro: part_step)

lemma with_index_ok: "(\<And>i. step_ok u s (f i)) \<Longrightarrow> step_ok u s (with_index v f)"
  by (auto simp: with_index_def with_value_def fails_ok split: sum.splits)

lemma end_tools_ok:
  assumes "live s"
  shows "part_ok u s (end_tools s)"
proof -
  let ?f = "\<lambda>t. if rt_started t \<and> \<not> rt_ended t then t\<lparr>rt_ended := True\<rparr> else t"
  have keys: "map fst (map (\<lambda>(i, t). (i, ?f t)) m) = map fst m" and get: "map_of (map (\<lambda>(i, t). (i, ?f t)) m) j = map_option ?f (map_of m j)"
    for m :: "(nat \<times> response_tool) list" and j by (induction m) auto
  have ends: "legals True (map (\<lambda>e. EToolCallEnd (fst e)) (filter (\<lambda>e. rt_started (snd e) \<and> \<not> rt_ended (snd e)) m)) v
      = Some (v\<lparr>bl_tools := (\<lambda>i. case map_of m i of None \<Rightarrow> bl_tools v i | Some t \<Rightarrow> tool_block (?f t))\<rparr>)"
    if "distinct (map fst m)" "bl_finish v = None" "\<And>i t. map_of m i = Some t \<Longrightarrow> bl_tools v i = tool_block t" for m v
    using that
  proof (induction m arbitrary: v)
    case (Cons x m)
    obtain i t where x: "x = (i, t)" by force
    have t: "bl_tools v i = tool_block t" using Cons.prems(3)[of i t] x by simp
    have new: "map_of m i = None" using Cons.prems(1) x by (simp add: map_of_eq_None_iff)
    let ?v = "v\<lparr>bl_tools := (bl_tools v)(i := tool_block (?f t))\<rparr>"
    have "legals True (if rt_started t \<and> \<not> rt_ended t then [EToolCallEnd i] else []) v = Some ?v"
      using t Cons.prems(2) by (auto simp: legal_def tool_block_def fun_upd_idem)
    moreover have "legals True (map (\<lambda>e. EToolCallEnd (fst e)) (filter (\<lambda>e. rt_started (snd e) \<and> \<not> rt_ended (snd e)) m)) ?v
        = Some (?v\<lparr>bl_tools := (\<lambda>j. case map_of m j of None \<Rightarrow> bl_tools ?v j | Some t \<Rightarrow> tool_block (?f t))\<rparr>)"
    proof (rule Cons.IH)
      fix j u assume "map_of m j = Some u"
      then show "bl_tools ?v j = tool_block u" using Cons.prems(3)[of j u] new x by (cases "j = i") auto
    qed (use Cons.prems in auto)
    ultimately have "legals True ((if rt_started t \<and> \<not> rt_ended t then [EToolCallEnd i] else [])
        @ map (\<lambda>e. EToolCallEnd (fst e)) (filter (\<lambda>e. rt_started (snd e) \<and> \<not> rt_ended (snd e)) m)) v
        = Some (?v\<lparr>bl_tools := (\<lambda>j. case map_of m j of None \<Rightarrow> bl_tools ?v j | Some t \<Rightarrow> tool_block (?f t))\<rparr>)"
      by (rule legals_appendI)
    moreover have "(\<lambda>j. case map_of m j of None \<Rightarrow> bl_tools ?v j | Some t \<Rightarrow> tool_block (?f t))
        = (\<lambda>j. case map_of (x # m) j of None \<Rightarrow> bl_tools v j | Some t \<Rightarrow> tool_block (?f t))"
      using new x by (auto simp: fun_eq_iff split: option.split)
    ultimately show ?case using x by (auto split: if_splits)
  qed simp
  have m: "smap_ok (re_tools s)" using assms by (simp add: live_def)
  have "legals True (fst (end_tools s)) (responses_blocks u s) = Some (responses_blocks u (snd (end_tools s)))"
    unfolding end_tools_def fst_conv snd_conv
    by (subst ends[OF smap_ok_distinct[OF m]])
      (auto simp: responses_blocks_def tool_block_def get fun_eq_iff split: option.splits)
  moreover have "live (snd (end_tools s))"
  proof -
    have ok: "response_tool_ok saw t \<Longrightarrow> response_tool_ok saw (?f t)" for saw t by (simp add: response_tool_ok_def)
    have "response_tool_ok (re_saw_tool s) t'" if t': "map_of (re_tools (snd (end_tools s))) i = Some t'" for i t'
    proof -
      obtain t where t: "map_of (re_tools s) i = Some t" "t' = ?f t" using t' by (auto simp: end_tools_def get)
      then show ?thesis using ok assms unfolding live_def by blast
    qed
    moreover have "smap_ok (re_tools (snd (end_tools s)))" using m keys by (simp add: end_tools_def smap_ok_def del: map_map)
    ultimately show ?thesis using assms by (auto simp: live_def) (auto simp: end_tools_def)
  qed
  ultimately show ?thesis by (simp add: part_ok_def)
qed


section \<open>Events\<close>

lemma on_text_delta_ok: "live s \<Longrightarrow> step_ok False s (on_text_delta v s)"
  unfolding on_text_delta_def
proof (rule followed_by_ok[OF end_thinking_ok], assumption)
  let ?s = "snd (end_thinking s)"
  let ?p = "if re_text_open ?s then ([], ?s) else ([ETextStart], ?s\<lparr>re_text_open := True\<rparr>)"
  assume "live ?s"
  then show "step_ok False ?s (followed_by ?p (\<lambda>s. case string_arg v ''delta'' of None \<Rightarrow> step_on s
      | Some d \<Rightarrow> ([ETextDelta d], GoesOn (s\<lparr>re_text := re_text s @ d\<rparr>))))"
  proof (rule followed_by_ok[OF start_text_ok])
    assume s: "live (snd ?p)"
    have "re_text_open (snd ?p)" by simp
    then have "part_ok False (snd ?p) ([ETextDelta d], (snd ?p)\<lparr>re_text := re_text (snd ?p) @ d\<rparr>)" for d
      using s by (intro part_same) (simp_all add: legal_def responses_blocks_def)
    then show "step_ok False (snd ?p) (case string_arg v ''delta'' of None \<Rightarrow> step_on (snd ?p)
        | Some d \<Rightarrow> ([ETextDelta d], GoesOn ((snd ?p)\<lparr>re_text := re_text (snd ?p) @ d\<rparr>)))"
      using s step_on_ok part_step by (auto split: option.split)
  qed
qed

lemma on_thinking_delta_ok: "live s \<Longrightarrow> step_ok False s (on_thinking_delta v s)"
  unfolding on_thinking_delta_def
proof (rule followed_by_ok[OF start_thinking_ok], assumption)
  let ?p = "if re_thinking_open s then ([], s) else ([EThinkingStart], s\<lparr>re_thinking_open := True\<rparr>)"
  assume s: "live (snd ?p)"
  have "re_thinking_open (snd ?p)" by simp
  then have "part_ok False (snd ?p) ([EThinkingDelta d], snd ?p)" for d
    using s by (intro part_same) (simp_all add: legal_def responses_blocks_def)
  then show "step_ok False (snd ?p) (case string_arg v ''delta'' of None \<Rightarrow> step_on (snd ?p) | Some d \<Rightarrow> ([EThinkingDelta d], GoesOn (snd ?p)))"
    using s step_on_ok part_step by (auto split: option.split)
qed

lemma on_final_text_ok: "live s \<Longrightarrow> step_ok False s (on_final_text t s)"
  unfolding on_final_text_def
  by (rule followed_by_ok, simp add: reconcile_ok part_nothing split: option.split)
    (rule followed_by_ok[OF end_text_ok], assumption, erule step_on_ok)

lemma saw_same: "s = s\<lparr>re_saw_tool := re_saw_tool s, re_saw_item := re_saw_item s\<rparr>"
  by simp

lemma on_item_added_ok: "live s \<Longrightarrow> step_ok False s (on_item_added v s)"
  using tool_step_ok[of s True _ _ _ _ "re_saw_item s"]
  by (auto simp: on_item_added_def Let_def intro: step_on_ok with_index_ok)

lemma on_item_done_ok:
  assumes "live s"
  shows "step_ok False s (on_item_done v s)"
proof -
  have message: "live (s\<lparr>re_saw_item := True\<rparr>)" "responses_blocks False (s\<lparr>re_saw_item := True\<rparr>) = responses_blocks False s"
    using assms live_same[of s] by (simp_all add: responses_blocks_def)
  have "step_ok False s (on_final_text t (s\<lparr>re_saw_item := True\<rparr>))" for t
    using on_final_text_ok[OF message(1), of t] message(2) by (simp add: step_ok_def)
  moreover have "step_ok False s (followed_by (end_thinking s) (\<lambda>s. step_on (s\<lparr>re_items := re_items s @ [item]\<rparr>)))" for item
  proof (rule followed_by_ok[OF end_thinking_ok[OF assms]])
    let ?s = "snd (end_thinking s)"
    assume "live ?s"
    then have "part_ok False ?s ([], ?s\<lparr>re_items := re_items ?s @ [item]\<rparr>)"
      by (intro part_same) (simp_all add: responses_blocks_def)
    then show "step_ok False ?s (step_on (?s\<lparr>re_items := re_items ?s @ [item]\<rparr>))" unfolding step_on_def by (rule part_step)
  qed
  ultimately show ?thesis
    using assms tool_step_ok[OF assms, of True _ _ _ _ True]
    by (auto simp: on_item_done_def Let_def intro: step_on_ok with_index_ok)
qed

lemma on_arguments_delta_ok: "live s \<Longrightarrow> step_ok False s (on_arguments_delta v s)"
  using tool_step_ok[of s True _ _ _ _ "re_saw_item s"]
  by (auto simp: on_arguments_delta_def intro!: with_index_ok intro: step_on_ok split: option.splits)

lemma on_arguments_done_ok: "live s \<Longrightarrow> step_ok False s (on_arguments_done v s)"
  using tool_step_ok[of s "re_saw_tool s" JNull _ _ _ "re_saw_item s"]
  by (auto simp: on_arguments_done_def string_arg_def json_member_def intro!: with_index_ok split: option.splits)

text \<open>The end of a response: every block is closed, so that Done is legal, and the reason fits.\<close>

definition all_closed :: "responses_stream \<Rightarrow> bool" where
  "all_closed s \<longleftrightarrow> \<not> re_text_open s \<and> \<not> re_thinking_open s
     \<and> (\<forall>i t. map_of (re_tools s) i = Some t \<longrightarrow> rt_started t \<longrightarrow> rt_ended t)"

lemma done_legal:
  assumes "all_closed s" "r = FLength \<or> live s \<and> r = tool_reason s \<and> (\<forall>i t. map_of (re_tools s) i = Some t \<longrightarrow> rt_started t)"
  shows "\<exists>w. legals True (responses_replay_state owner items @ [EDone r]) (responses_blocks u s) = Some w
    \<and> bl_finish w \<noteq> None \<and> fitting w"
proof -
  let ?v = "(responses_blocks u s)\<lparr>bl_replay := (items \<noteq> [])\<rparr>"
  have "legals True (responses_replay_state owner items) (responses_blocks u s) = Some ?v"
    by (simp add: responses_replay_state_def legal_def responses_blocks_def)
  moreover have "bl_tools ?v i \<noteq> Some False" for i
    using assms(1) by (auto simp: all_closed_def responses_blocks_def split: option.splits)
  then have "Some False \<notin> range (bl_tools ?v)" by (metis imageE)
  then have "legals True [EDone r] ?v = Some (?v\<lparr>bl_finish := Some r\<rparr>)"
    using assms(1) by (simp add: legal_def responses_blocks_def all_closed_def)
  ultimately have "legals True (responses_replay_state owner items @ [EDone r]) (responses_blocks u s) = Some (?v\<lparr>bl_finish := Some r\<rparr>)"
    by (rule legals_appendI)
  moreover have "fitting (?v\<lparr>bl_finish := Some r\<rparr>)"
    using assms(2)
  proof
    assume a: "live s \<and> r = tool_reason s \<and> (\<forall>i t. map_of (re_tools s) i = Some t \<longrightarrow> rt_started t)"
    have "bl_tools ?v \<noteq> Map.empty \<longleftrightarrow> re_saw_tool s"
    proof (cases "re_tools s")
      case (Cons x m)
      obtain i t where x: "x = (i, t)" by force
      then have t: "map_of (re_tools s) i = Some t" using Cons by simp
      then have "rt_started t" "response_tool_ok (re_saw_tool s) t" using a by (auto simp: live_def)
      moreover from this t have "bl_tools ?v i \<noteq> None" by (simp add: responses_blocks_def)
      ultimately show ?thesis by (auto simp: response_tool_ok_def)
    qed (use a in \<open>auto simp: responses_blocks_def live_def\<close>)
    then show ?thesis using a by (simp add: fitting_def tool_reason_def)
  qed (simp add: fitting_def)
  ultimately show ?thesis by auto
qed

text \<open>Closing everything.\<close>

lemma closing_ok:
  assumes "live s" "\<And>s'. live s' \<Longrightarrow> all_closed s' \<Longrightarrow> step_ok u s' (f s')"
  shows "step_ok u s (followed_by (end_thinking s) (\<lambda>s. followed_by (end_text s) (\<lambda>s. followed_by (end_tools s) f)))"
proof (rule followed_by_ok[OF end_thinking_ok[OF assms(1)]])
  let ?s1 = "snd (end_thinking s)" let ?s2 = "snd (end_text ?s1)" let ?s3 = "snd (end_tools ?s2)"
  assume "live ?s1"
  then show "step_ok u ?s1 (followed_by (end_text ?s1) (\<lambda>s. followed_by (end_tools s) f))"
  proof (rule followed_by_ok[OF end_text_ok])
    assume "live ?s2"
    then show "step_ok u ?s2 (followed_by (end_tools ?s2) f)"
    proof (rule followed_by_ok[OF end_tools_ok])
      assume "live ?s3"
      moreover have "all_closed ?s3"
      proof -
        have "rt_ended t" if "map_of (map (\<lambda>(i, t). (i, if rt_started t \<and> \<not> rt_ended t then t\<lparr>rt_ended := True\<rparr> else t)) m) i = Some t"
            "rt_started t" for m i t
          using that by (induction m) (auto split: if_splits)
        then show ?thesis unfolding all_closed_def by (auto simp: end_tools_def end_text_def end_thinking_def)
      qed
      ultimately show "step_ok u ?s3 (f ?s3)" by (rule assms(2))
    qed
  qed
qed

lemma terminal_ok:
  assumes "\<exists>w. legals True out (responses_blocks u s) = Some w \<and> bl_finish w \<noteq> None \<and> fitting w" "re_terminal s'"
  shows "step_ok u s (out, GoesOn s')"
  using assms by (auto simp: step_ok_def responses_sim_def)

lemma on_incomplete_ok: "live s \<Longrightarrow> step_ok False s (on_incomplete s)"
  unfolding on_incomplete_def
  by (erule closing_ok, rule terminal_ok)
    (use done_legal[where items = "[]"] in \<open>simp_all add: responses_replay_state_def\<close>)

lemma on_completed_ok:
  assumes "live s"
  shows "step_ok False s (on_completed owner v s)"
proof -
  let ?us = "case json_at v [''response'', ''usage''] of None \<Rightarrow> [] | Some u \<Rightarrow> [EUsage (responses_usage u)]"
  let ?u = "json_at v [''response'', ''usage''] \<noteq> None"
  let ?f = "\<lambda>s. if list_ex (\<lambda>e. \<not> rt_started (snd e)) (re_tools s)
       then ([], Fails (Provider ''OpenAI Responses completed with incomplete tool metadata''))
       else (responses_replay_state owner (re_items s) @ [EDone (tool_reason s)], GoesOn (s\<lparr>re_terminal := True, re_items := []\<rparr>))"
  let ?rest = "followed_by (end_thinking s) (\<lambda>s. followed_by (end_text s) (\<lambda>s. followed_by (end_tools s) ?f))"
  have "step_ok ?u s ?rest"
  proof (rule closing_ok[OF assms])
    fix s' assume s': "live s'" "all_closed s'"
    have "rt_started t" if "\<not> list_ex (\<lambda>e. \<not> rt_started (snd e)) (re_tools s')" "map_of (re_tools s') i = Some t" for i t
      using that by (force simp: list_ex_iff dest: map_of_SomeD)
    then show "step_ok ?u s' (?f s')" using s' fails_ok by (auto intro!: terminal_ok done_legal)
  qed
  then obtain w where w: "legals True (fst ?rest) (responses_blocks ?u s) = Some w"
      "case snd ?rest of GoesOn s' \<Rightarrow> responses_sim s' w | Leaves s' \<Rightarrow> responses_sim s' w | Fails _ \<Rightarrow> True"
    by (auto simp: step_ok_def)
  have "legals True ?us (responses_blocks False s) = Some (responses_blocks ?u s)"
    by (simp add: legal_def responses_blocks_def split: option.split)
  then have "legals True (?us @ fst ?rest) (responses_blocks False s) = Some w" using w(1) by (rule legals_appendI)
  moreover have "on_completed owner v s = (?us @ fst ?rest, snd ?rest)"
    unfolding on_completed_def followed_by_def[of "(?us, s)"] by (simp add: case_prod_beta)
  ultimately show ?thesis using w(2) by (simp add: step_ok_def)
qed

lemma responses_kind_ok: "live s \<Longrightarrow> step_ok False s (responses_kind owner k v s)"
  by (simp add: responses_kind_def on_text_delta_ok on_final_text_ok on_thinking_delta_ok on_item_added_ok on_item_done_ok
      on_arguments_delta_ok on_arguments_done_ok on_completed_ok on_incomplete_ok step_on_ok followed_by_ok[OF end_thinking_ok])


section \<open>After the end of the response\<close>

text \<open>Nothing takes the end back.\<close>

definition stays :: "responses_step \<Rightarrow> bool" where
  "stays r \<longleftrightarrow> (case snd r of GoesOn s \<Rightarrow> re_terminal s | Leaves s \<Rightarrow> re_terminal s | Fails _ \<Rightarrow> True)"

lemma stays_followed_by: "re_terminal (snd p) \<Longrightarrow> (\<And>s. re_terminal s \<Longrightarrow> stays (f s)) \<Longrightarrow> stays (followed_by p f)"
  by (simp add: stays_def followed_by_def case_prod_beta)

lemma parts_terminal [simp]:
  "re_terminal (snd (end_thinking s)) = re_terminal s" "re_terminal (snd (end_text s)) = re_terminal s"
  "re_terminal (snd (end_tools s)) = re_terminal s" "re_terminal (snd (reconcile_response_text t s)) = re_terminal s"
  by (simp_all add: end_thinking_def end_text_def end_tools_def reconcile_response_text_def)

lemma update_response_tool_terminal:
  "update_response_tool i item a final s = Inr (out, s') \<Longrightarrow> re_terminal s' = re_terminal s"
  by (auto simp: update_response_tool_def Let_def case_prod_beta)

lemma stays_tool_step: "re_terminal s \<Longrightarrow> stays (tool_step (update_response_tool i item a final s))"
  by (auto simp: stays_def tool_step_def dest: update_response_tool_terminal split: sum.split)

lemma stays_simps [simp]: "stays (out, GoesOn s) = re_terminal s" "stays (out, Leaves s) = re_terminal s" "stays (out, Fails e)" "stays (step_on s) = re_terminal s"
  by (simp_all add: stays_def step_on_def)

lemma stays_with_index: "(\<And>i. stays (f i)) \<Longrightarrow> stays (with_index v f)"
  by (simp add: with_index_def with_value_def split: sum.splits)

lemma stays_texts:
  "re_terminal s \<Longrightarrow> stays (on_text_delta v s)" "re_terminal s \<Longrightarrow> stays (on_thinking_delta v s)"
  "re_terminal s \<Longrightarrow> stays (on_final_text t s)"
  unfolding on_text_delta_def on_thinking_delta_def on_final_text_def
  by (rule stays_followed_by; (rule stays_followed_by)?; simp split: option.split)+

lemma stays_ends: "re_terminal s \<Longrightarrow> stays (on_completed owner v s)" "re_terminal s \<Longrightarrow> stays (on_incomplete s)"
  unfolding on_completed_def on_incomplete_def
  by ((rule stays_followed_by; (rule stays_followed_by; (rule stays_followed_by; (rule stays_followed_by)?)?)?; simp)+)

lemma stays_items: "re_terminal s \<Longrightarrow> stays (on_item_added v s)" "re_terminal s \<Longrightarrow> stays (on_item_done v s)"
  unfolding on_item_added_def on_item_done_def Let_def
  by (simp_all add: stays_with_index stays_tool_step stays_texts(3) stays_followed_by)

lemma stays_arguments: "re_terminal s \<Longrightarrow> stays (on_arguments_delta v s)" "re_terminal s \<Longrightarrow> stays (on_arguments_done v s)"
  unfolding on_arguments_delta_def on_arguments_done_def
  by (rule stays_with_index, simp add: stays_tool_step split: option.split)+

lemma responses_kind_stays: "re_terminal s \<Longrightarrow> stays (responses_kind owner k v s)"
  by (simp add: responses_kind_def stays_texts stays_ends stays_items stays_arguments stays_followed_by)

lemma responses_event_ok:
  assumes "responses_sim s v" "responses_event parse owner e s = (out, flow)"
  shows "\<exists>w. legals True out v = Some w
    \<and> (case flow of GoesOn s' \<Rightarrow> responses_sim s' w | Leaves s' \<Rightarrow> responses_sim s' w | Fails _ \<Rightarrow> True)"
proof (cases "re_terminal s")
  case True
  then have v: "bl_finish v \<noteq> None" "fitting v" using assms(1) by (simp_all add: responses_sim_def)
  have "stays (responses_event parse owner e s)"
    using True responses_kind_stays[OF True] by (simp add: responses_event_def split: sum.split option.split)
  then have "stays (out, flow)" using assms(2) by simp
  then show ?thesis using v legals_finished[OF v(1)] by (auto simp: stays_def responses_sim_def split: flow.splits)
next
  case False
  then have s: "live s" "v = responses_blocks False s" using assms(1) by (simp_all add: responses_sim_def)
  have "step_ok False s ([], Leaves s)" using live_sim[OF s(1)] by (simp add: step_ok_def)
  then have "step_ok False s (responses_event parse owner e s)"
    using responses_kind_ok[OF s(1)] fails_ok by (simp add: responses_event_def split: sum.split option.split)
  then show ?thesis using assms(2) s(2) by (simp add: step_ok_def)
qed

lemma responses_close_ok:
  assumes "responses_sim s v" "responses_close owner s = (out, err)"
  shows "\<exists>w. legals True out v = Some w \<and> (err = None \<longrightarrow> fitting w \<and> bl_finish w \<noteq> None)"
proof (cases "re_terminal s")
  case True
  then show ?thesis using assms by (auto simp: responses_sim_def responses_close_def)
next
  case False
  then have s: "live s" "v = responses_blocks False s" using assms(1) by (simp_all add: responses_sim_def)
  let ?blocks = "fst (end_thinking s) @ fst (end_text s)" and ?s = "s\<lparr>re_thinking_open := False, re_text_open := False\<rparr>"
  have b: "legals True ?blocks v = Some (responses_blocks False ?s)"
    using s(2) by (auto simp: end_thinking_def end_text_def legal_def responses_blocks_def)
  have live: "live ?s" by (rule live_same[OF s(1)]) simp_all
  show ?thesis
  proof (cases "re_saw_item s \<and> \<not> list_ex (\<lambda>e. \<not> rt_ended (snd e)) (re_tools s)")
    case True
    then have ended: "rt_ended t" if "map_of (re_tools ?s) i = Some t" for i t
      using that by (force simp: list_ex_iff dest: map_of_SomeD)
    moreover have "rt_ended t \<longrightarrow> rt_started t" if "map_of (re_tools ?s) i = Some t" for i t
      using live that by (auto simp: live_def response_tool_ok_def)
    ultimately obtain w where w: "legals True (responses_replay_state owner (re_items s) @ [EDone (tool_reason ?s)]) (responses_blocks False ?s) = Some w"
        "fitting w" "bl_finish w \<noteq> None"
      using done_legal[of ?s "tool_reason ?s" owner "re_items s" False] live unfolding all_closed_def by auto
    have "out = ?blocks @ responses_replay_state owner (re_items s) @ [EDone (tool_reason ?s)]"
      using assms(2) True False by (simp add: responses_close_def tool_reason_def)
    then show ?thesis using legals_appendI[OF b w(1)] w(2,3) by blast
  next
    case no: False
    then show ?thesis using assms(2) False b by (cases "re_saw_item s") (auto simp: responses_close_def Let_def)
  qed
qed

interpretation responses: lawful_adapter "''OpenAI Responses''" "responses_event parse owner" "responses_close owner" True True
    responses_sim
proof unfold_locales
  fix s v e out flow
  assume "responses_sim s v" "responses_event parse owner e s = (out, flow)"
  then show "\<exists>w. legals True out v = Some w
      \<and> (case flow of GoesOn s' \<Rightarrow> responses_sim s' w | Leaves s' \<Rightarrow> responses_sim s' w | Fails _ \<Rightarrow> True)"
    by (rule responses_event_ok)
next
  fix s v out err
  assume "responses_sim s v" "responses_close owner s = (out, err)"
  then show "\<exists>w. legals True out v = Some w \<and> (err = None \<longrightarrow> (True \<longrightarrow> fitting w) \<and> bl_finish w \<noteq> None)"
    using responses_close_ok by simp
next
  fix s v
  assume "responses_sim s v"
  then show "fitting v" by (auto simp: responses_sim_def responses_blocks_def fitting_def split: if_splits)
qed simp

lemma responses_new_sim: "responses_sim responses_new no_blocks"
  by (simp add: responses_sim_def responses_new_def live_def responses_blocks_def no_blocks_def)

text \<open>
  C32: what a call on the OpenAI Responses adapter can fail for. Whatever the server sends, the consumer reaches a
  verdict when the stream ends, and the call fails only for an error among the items of the stream, a Done for length, a
  tool id started twice, a cancellation (of the consumer, or of the adapter, which then leaves the stream without a
  Done), and two things the adapter lets pass from the server: arguments added to a tool that had ended, and events
  after the response was complete. It never fails for blocks opened or closed out of turn, for a reason to finish
  that does not agree with the tools, or for a stream that ends without a Done or an error although nothing was
  cancelled.
\<close>
theorem openai_responses_stream_is_accepted:
  "accepted (excuses True True (sent = SendCancelled \<or> SseCancelled \<in> set inputs) cancelled
       (fst (openai_responses_stream parse owner body sent cid inputs)))
     (snd (openai_responses_stream parse owner body sent cid inputs))
     (fst (consume_model_cycle parse_arguments client
       (heard clock cancelled (openai_responses_stream parse owner body sent cid inputs)) cycle_new))"
  unfolding openai_responses_stream_def openai_responses_loop_def
  by (rule responses.stream_accepted[OF responses_new_sim refl])

text \<open>
  The text of the whole response is collected in one place, so that the final text of a second message that was not
  streamed is compared with it and dropped.
\<close>

lemma second_message_lost:
  "re_text s = ''one'' \<Longrightarrow> \<not> re_text_open s \<Longrightarrow> on_final_text (Some ''two'') s = ([], GoesOn s)"
  by (simp add: on_final_text_def reconcile_response_text_def starts_with_def followed_by_def end_text_def step_on_def)

end
