(* ===== verification/Anthropic.thy ===== *)
theory Anthropic
  imports Providers
begin

text \<open>
  The Anthropic adapter (src/server/src/provider/anthropic.rs): the request with its merged messages, cache marks and
  thinking, and how the events of a message become model events. Parsing of JSON and base64 are arguments.
\<close>

section \<open>The request\<close>

definition default_max_output_tokens :: nat where "default_max_output_tokens = 4096"
definition min_thinking_budget :: nat where "min_thinking_budget = 1024"

definition resolve_max_output_tokens :: "model_spec \<Rightarrow> nat option \<Rightarrow> nat" where
  "resolve_max_output_tokens spec route_max =
     (case first_of (ms_max_output_tokens spec) route_max of Some n \<Rightarrow> n | None \<Rightarrow> default_max_output_tokens)"

fun anthropic_role_name :: "role \<Rightarrow> string" where
  "anthropic_role_name RSystem = ''user''"
| "anthropic_role_name RUser = ''user''"
| "anthropic_role_name RAssistant = ''assistant''"
| "anthropic_role_name RTool = ''user''"

definition anthropic_part :: "(bytes \<Rightarrow> string) \<Rightarrow> role \<Rightarrow> content_part \<Rightarrow> json result" where
  "anthropic_part b64 r p =
     (case p of
        PText t \<Rightarrow> Inr (json_object [(''type'', JStr ''text''), (''text'', JStr t)])
      | PImage mime data \<Rightarrow>
          (if r = RUser
           then Inr (json_object [(''type'', JStr ''image''),
                  (''source'', json_object [(''type'', JStr ''base64''), (''media_type'', JStr mime), (''data'', JStr (b64 data))])])
           else Inl (Protocol ''Anthropic only accepts images in user messages'')))"

definition anthropic_parts :: "(bytes \<Rightarrow> string) \<Rightarrow> role \<Rightarrow> content_part list \<Rightarrow> json list result" where
  "anthropic_parts b64 r ps = all_ok (anthropic_part b64 r) (filter (\<lambda>p. p \<noteq> PText []) ps)"

text \<open>Adjacent messages of one role are one message.\<close>

definition push_anthropic :: "json list \<Rightarrow> string \<Rightarrow> json list \<Rightarrow> json list" where
  "push_anthropic output r content =
     (let fresh = output @ [json_object [(''role'', JStr r), (''content'', JArr content)]]
      in if output \<noteq> [] \<and> string_arg (last output) ''role'' = Some r
         then case Option.bind (json_member (last output) ''content'') as_array of
                Some existing \<Rightarrow> butlast output @ [set_member ''content'' (JArr (existing @ content)) (last output)]
              | None \<Rightarrow> fresh
         else fresh)"

definition anthropic_replay :: "provider_replay_state option \<Rightarrow> json list" where
  "anthropic_replay state =
     (case state of
        None \<Rightarrow> []
      | Some st \<Rightarrow>
          (if rp_provider_kind st \<noteq> ''anthropic'' then []
           else case Option.bind (json_member (rp_value st) ''blocks'') as_array of None \<Rightarrow> [] | Some bs \<Rightarrow> bs))"

definition anthropic_tool_use :: "tool_call_content \<Rightarrow> json" where
  "anthropic_tool_use k =
     json_object [(''type'', JStr ''tool_use''), (''id'', JStr (tc_call_id k)), (''name'', JStr (tc_name k)),
                  (''input'', tc_arguments k)]"

definition anthropic_message :: "(bytes \<Rightarrow> string) \<Rightarrow> projected \<Rightarrow> json list \<Rightarrow> json list result" where
  "anthropic_message b64 m output =
     (case pm_content m of
        ProjParts ps \<Rightarrow>
          rbind (anthropic_parts b64 (pm_role m) ps) (\<lambda>content.
            Inr (if content = [] then output else push_anthropic output (anthropic_role_name (pm_role m)) content))
      | ProjToolResult r \<Rightarrow>
          rbind (if tr_provider_parts r = [] then Inr (JStr (tr_content r))
                 else rbind (anthropic_parts b64 RUser (tr_provider_parts r)) (\<lambda>ps. Inr (JArr ps))) (\<lambda>content.
            let block = json_object [(''type'', JStr ''tool_result''), (''tool_use_id'', JStr (tr_call_id r)), (''content'', content)];
                block = (if tr_is_error r then set_member ''is_error'' (JBool True) block else block)
            in Inr (push_anthropic output ''user'' [block]))
      | ProjAssistant t _ replay calls \<Rightarrow>
          (let content = anthropic_replay replay
                 @ (if t = [] then [] else [json_object [(''type'', JStr ''text''), (''text'', JStr t)]])
                 @ map anthropic_tool_use calls
           in Inr (if content = [] then output else push_anthropic output ''assistant'' content)))"

definition anthropic_messages :: "(bytes \<Rightarrow> string) \<Rightarrow> projected list \<Rightarrow> json list result" where
  "anthropic_messages b64 messages = fold_ok (anthropic_message b64) messages []"

text \<open>The last block of the last user message that can carry a cache mark.\<close>

fun on_first :: "('a \<Rightarrow> bool) \<Rightarrow> ('a \<Rightarrow> 'a) \<Rightarrow> 'a list \<Rightarrow> 'a list" where
  "on_first P f [] = []"
| "on_first P f (x # xs) = (if P x then f x # xs else x # on_first P f xs)"

definition on_last :: "('a \<Rightarrow> bool) \<Rightarrow> ('a \<Rightarrow> 'a) \<Rightarrow> 'a list \<Rightarrow> 'a list" where
  "on_last P f xs = rev (on_first P f (rev xs))"

definition ephemeral :: json where "ephemeral = json_object [(''type'', JStr ''ephemeral'')]"

definition cacheable :: "json \<Rightarrow> bool" where
  "cacheable block \<longleftrightarrow> string_arg block ''type'' \<in> {Some ''text'', Some ''image'', Some ''tool_result''}"

definition mark_cache_breakpoint :: "json list \<Rightarrow> json list" where
  "mark_cache_breakpoint messages =
     on_last (\<lambda>m. string_arg m ''role'' = Some ''user'')
       (\<lambda>m. case Option.bind (json_member m ''content'') as_array of
              None \<Rightarrow> m
            | Some blocks \<Rightarrow>
                set_member ''content'' (JArr (on_last cacheable (set_member ''cache_control'' ephemeral) blocks)) m)
       messages"

text \<open>No thinking when the last assistant turn calls tools without the thinking that led to them.\<close>

definition trailing_turn_supports_thinking :: "json list \<Rightarrow> bool" where
  "trailing_turn_supports_thinking messages =
     (case Option.bind (Option.bind (find (\<lambda>m. string_arg m ''role'' = Some ''assistant'') (rev messages))
             (\<lambda>m. json_member m ''content'')) as_array of
        None \<Rightarrow> True
      | Some blocks \<Rightarrow>
          \<not> list_ex (\<lambda>b. string_arg b ''type'' = Some ''tool_use'') blocks
          \<or> list_ex (\<lambda>b. string_arg b ''type'' \<in> {Some ''thinking'', Some ''redacted_thinking''}) blocks)"

definition thinking_budget :: "nat \<Rightarrow> nat \<Rightarrow> nat" where
  "thinking_budget budget max_tokens = min (max budget min_thinking_budget) (max_tokens - 1)"

definition thinking_config :: "reasoning_spec \<Rightarrow> nat \<Rightarrow> json" where
  "thinking_config r max_tokens =
     (case rs_thinking_budget r of
        Some budget \<Rightarrow>
          json_object [(''type'', JStr ''enabled''), (''budget_tokens'', JNum (show_nat (thinking_budget budget max_tokens)))]
      | None \<Rightarrow> json_object [(''type'', JStr ''adaptive''), (''display'', JStr ''summarized'')])"

definition anthropic_apply_model :: "model_spec \<Rightarrow> nat \<Rightarrow> json \<Rightarrow> json result" where
  "anthropic_apply_model spec max_tokens body =
     (let r = ms_reasoning spec;
          supports = (case Option.bind (json_member body ''messages'') as_array of
                        Some ms \<Rightarrow> trailing_turn_supports_thinking ms | None \<Rightarrow> True)
      in if \<not> is_object body then Inl (Provider ''Anthropic request body is not an object'')
         else
           let body = (if reasoning_is_enabled r \<and> supports
                       then set_member ''thinking'' (thinking_config r max_tokens) body else body)
           in Inr (if supports \<and> rs_thinking_budget r = None
                   then case rs_effort r of
                          Some e \<Rightarrow> set_member ''output_config'' (json_object [(''effort'', JStr e)]) body
                        | None \<Rightarrow> body
                   else body))"

definition anthropic_tool :: "tool_definition \<Rightarrow> json" where
  "anthropic_tool t =
     json_object [(''name'', JStr (td_name t)), (''description'', JStr (td_description t)), (''input_schema'', td_parameters t)]"

definition anthropic_tools :: "tool_definition list \<Rightarrow> json list" where
  "anthropic_tools ts = on_last (\<lambda>_. True) (set_member ''cache_control'' ephemeral) (map anthropic_tool ts)"

definition anthropic_system :: "string \<Rightarrow> json" where
  "anthropic_system instructions =
     (if instructions = [] then JStr []
      else JArr [json_object [(''type'', JStr ''text''), (''text'', JStr instructions), (''cache_control'', ephemeral)]])"

definition anthropic_body ::
    "(bytes \<Rightarrow> string) \<Rightarrow> prompt_spec \<Rightarrow> wire_spec \<Rightarrow> nat option \<Rightarrow> projected list \<Rightarrow> json result" where
  "anthropic_body b64 prompt spec route_max history =
     rbind (anthropic_messages b64 history) (\<lambda>messages.
       let max_tokens = resolve_max_output_tokens (model_spec.truncate spec) route_max;
           body = json_object [(''model'', JStr (ms_model_id spec)), (''system'', anthropic_system (ps_instructions prompt)),
                    (''messages'', JArr (mark_cache_breakpoint messages)), (''max_tokens'', JNum (show_nat max_tokens)),
                    (''stream'', JBool True)];
           body = (if ps_tools prompt = [] then body else set_member ''tools'' (JArr (anthropic_tools (ps_tools prompt))) body);
           body = (if ws_stops spec = [] then body else set_member ''stop_sequences'' (JArr (map JStr (ws_stops spec))) body)
       in rbind (anthropic_apply_model (model_spec.truncate spec) max_tokens body) (\<lambda>body.
            merge_extra_params body (ws_extra spec)))"


section \<open>The answer\<close>

record anthropic_stream =
  an_blocks :: "(nat \<times> string) list"
  an_thinking :: "nat \<Rightarrow> string option"
  an_signatures :: "nat \<Rightarrow> string option"
  an_replay :: "json list"
  an_finish :: "finish_reason option"
  an_saw_tool :: bool
  an_terminal :: bool
  an_usage :: "usage option"

definition anthropic_new :: anthropic_stream where
  "anthropic_new =
     \<lparr>an_blocks = [], an_thinking = Map.empty, an_signatures = Map.empty, an_replay = [], an_finish = None,
      an_saw_tool = False, an_terminal = False, an_usage = None\<rparr>"

definition required_string :: "json \<Rightarrow> string \<Rightarrow> string result" where
  "required_string v name = ok_or (Provider (''Anthropic event is missing '' @ name)) (string_arg v name)"

text \<open>An index may come as a number or as its text (\<open>u64::from_str\<close> takes a leading plus).\<close>

definition index_value :: "json \<Rightarrow> nat option" where
  "index_value v = (case v of JNum t \<Rightarrow> parse_u64 t | JStr t \<Rightarrow> parse_u64 (strip_prefix ''+'' t) | _ \<Rightarrow> None)"

definition anthropic_index :: "json \<Rightarrow> nat result" where
  "anthropic_index v =
     ok_or (Provider ''Anthropic event is missing index'') (Option.bind (json_member v ''index'') index_value)"

definition anthropic_usage :: "json \<Rightarrow> usage" where
  "anthropic_usage v =
     (let input = u64_arg v ''input_tokens'';
          cache_read = u64_arg v ''cache_read_input_tokens'';
          cache_write = u64_arg v ''cache_creation_input_tokens'';
          or_zero = (\<lambda>n. case n of None \<Rightarrow> 0 | Some k \<Rightarrow> k)
      in \<lparr>input_tokens = input,
          context_input_tokens = map_option (\<lambda>n. sat_add_u64 (sat_add_u64 n (or_zero cache_read)) (or_zero cache_write)) input,
          output_tokens = u64_arg v ''output_tokens'', total_tokens = u64_arg v ''total_tokens'',
          cache_read_tokens = cache_read, cache_write_tokens = cache_write, reasoning_tokens = None\<rparr>)"

definition merge_usage_field :: "nat option \<Rightarrow> nat option \<Rightarrow> nat option" where
  "merge_usage_field known update =
     (case update of None \<Rightarrow> known | Some u \<Rightarrow> Some (case known of None \<Rightarrow> u | Some n \<Rightarrow> max n u))"

definition merge_usage :: "usage \<Rightarrow> usage \<Rightarrow> usage" where
  "merge_usage a b =
     (let merged = \<lparr>input_tokens = merge_usage_field (input_tokens a) (input_tokens b),
            context_input_tokens = merge_usage_field (context_input_tokens a) (context_input_tokens b),
            output_tokens = merge_usage_field (output_tokens a) (output_tokens b),
            total_tokens = merge_usage_field (total_tokens a) (total_tokens b),
            cache_read_tokens = merge_usage_field (cache_read_tokens a) (cache_read_tokens b),
            cache_write_tokens = merge_usage_field (cache_write_tokens a) (cache_write_tokens b),
            reasoning_tokens = merge_usage_field (reasoning_tokens a) (reasoning_tokens b)\<rparr>
      in case (context_input_tokens merged, output_tokens merged) of
           (Some i, Some n) \<Rightarrow> (if i + n \<le> u64_max then merged\<lparr>total_tokens := Some (i + n)\<rparr> else merged)
         | _ \<Rightarrow> merged)"

definition no_usage :: usage where
  "no_usage =
     \<lparr>input_tokens = None, context_input_tokens = None, output_tokens = None, total_tokens = None,
      cache_read_tokens = None, cache_write_tokens = None, reasoning_tokens = None\<rparr>"

definition add_usage_of :: "json option \<Rightarrow> anthropic_stream \<Rightarrow> anthropic_stream" where
  "add_usage_of v s =
     (case v of
        None \<Rightarrow> s
      | Some u \<Rightarrow>
          s\<lparr>an_usage := Some (merge_usage (case an_usage s of None \<Rightarrow> no_usage | Some t \<Rightarrow> t) (anthropic_usage u))\<rparr>)"

definition text_of_block :: "(nat \<Rightarrow> string option) \<Rightarrow> nat \<Rightarrow> string" where
  "text_of_block m i = (case m i of None \<Rightarrow> [] | Some t \<Rightarrow> t)"

definition signed_block :: "string \<Rightarrow> string \<Rightarrow> json" where
  "signed_block thinking signature =
     json_object [(''type'', JStr ''thinking''), (''thinking'', JStr thinking), (''signature'', JStr signature)]"

definition close_anthropic_block :: "nat \<Rightarrow> string \<Rightarrow> anthropic_stream \<Rightarrow> model_event list \<times> anthropic_stream" where
  "close_anthropic_block i kind s =
     (if kind = ''text'' then ([ETextEnd], s)
      else if kind = ''thinking'' then
        (let thinking = text_of_block (an_thinking s) i;
             signature = text_of_block (an_signatures s) i;
             s = s\<lparr>an_thinking := (an_thinking s)(i := None), an_signatures := (an_signatures s)(i := None)\<rparr>
         in if signature = [] then ([EThinkingEnd], s)
            else ([EThinkingSignature signature, EThinkingEnd],
                  s\<lparr>an_replay := an_replay s @ [signed_block thinking signature]\<rparr>))
      else if kind = ''tool_use'' then ([EToolCallEnd i], s)
      else ([], s))"

fun close_anthropic_blocks :: "(nat \<times> string) list \<Rightarrow> anthropic_stream \<Rightarrow> model_event list \<times> anthropic_stream" where
  "close_anthropic_blocks [] s = ([], s)"
| "close_anthropic_blocks ((i, kind) # rest) s =
     (let (out, s) = close_anthropic_block i kind s;
          (out', s) = close_anthropic_blocks rest s
      in (out @ out', s))"

definition open_thinking :: "nat \<Rightarrow> anthropic_stream \<Rightarrow> anthropic_stream" where
  "open_thinking i s =
     s\<lparr>an_thinking := (an_thinking s)(i \<mapsto> []), an_signatures := (an_signatures s)(i \<mapsto> [])\<rparr>"

definition block_start :: "json \<Rightarrow> anthropic_stream \<Rightarrow> anthropic_stream step" where
  "block_start v s =
     with_value (anthropic_index v) (\<lambda>i.
       let block = member_or_null v ''content_block''
       in with_value (required_string block ''type'') (\<lambda>kind.
         let s = s\<lparr>an_blocks := smap_put i kind (an_blocks s)\<rparr>
         in if kind = ''text'' then ([ETextStart], GoesOn s)
            else if kind = ''thinking'' then ([EThinkingStart], GoesOn (open_thinking i s))
            else if kind = ''redacted_thinking'' then step_on (s\<lparr>an_replay := an_replay s @ [block]\<rparr>)
            else if kind = ''tool_use'' then
              with_value (required_string block ''id'') (\<lambda>cid.
              with_value (required_string block ''name'') (\<lambda>name.
                ([EToolCallStart i cid name], GoesOn (s\<lparr>an_saw_tool := True\<rparr>))))
            else step_on s))"

text \<open>A delta for a block that was not announced opens it.\<close>

definition open_unannounced :: "nat \<Rightarrow> string \<Rightarrow> anthropic_stream \<Rightarrow> model_event list \<times> anthropic_stream" where
  "open_unannounced i kind s =
     (if map_of (an_blocks s) i \<noteq> None then ([], s)
      else if kind = ''text_delta'' then ([ETextStart], s\<lparr>an_blocks := smap_put i ''text'' (an_blocks s)\<rparr>)
      else if kind = ''thinking_delta'' \<or> kind = ''signature_delta''
      then ([EThinkingStart], open_thinking i (s\<lparr>an_blocks := smap_put i ''thinking'' (an_blocks s)\<rparr>))
      else ([], s))"

definition block_delta :: "json \<Rightarrow> anthropic_stream \<Rightarrow> anthropic_stream step" where
  "block_delta v s =
     with_value (anthropic_index v) (\<lambda>i.
       let delta = member_or_null v ''delta''
       in with_value (required_string delta ''type'') (\<lambda>kind.
         followed_by (open_unannounced i kind s) (\<lambda>s.
           if kind = ''text_delta'' then
             (case string_arg delta ''text'' of None \<Rightarrow> step_on s | Some t \<Rightarrow> ([ETextDelta t], GoesOn s))
           else if kind = ''thinking_delta'' then
             (case string_arg delta ''thinking'' of
                None \<Rightarrow> step_on s
              | Some t \<Rightarrow>
                  ([EThinkingDelta t],
                   GoesOn (s\<lparr>an_thinking := (an_thinking s)(i \<mapsto> text_of_block (an_thinking s) i @ t)\<rparr>)))
           else if kind = ''signature_delta'' then
             (case string_arg delta ''signature'' of
                None \<Rightarrow> step_on s
              | Some t \<Rightarrow>
                  step_on (s\<lparr>an_signatures := (an_signatures s)(i \<mapsto> text_of_block (an_signatures s) i @ t)\<rparr>))
           else if kind = ''input_json_delta'' then
             (case string_arg delta ''partial_json'' of
                None \<Rightarrow> step_on s | Some t \<Rightarrow> ([EToolCallArgumentsDelta i t], GoesOn s))
           else step_on s)))"

definition block_stop :: "json \<Rightarrow> anthropic_stream \<Rightarrow> anthropic_stream step" where
  "block_stop v s =
     with_value (anthropic_index v) (\<lambda>i.
       case map_of (an_blocks s) i of
         None \<Rightarrow> step_on s
       | Some kind \<Rightarrow> followed_by (close_anthropic_block i kind (s\<lparr>an_blocks := smap_del i (an_blocks s)\<rparr>)) step_on)"

definition anthropic_reason :: "string option \<Rightarrow> anthropic_stream \<Rightarrow> finish_reason option" where
  "anthropic_reason reason s =
     (case reason of
        None \<Rightarrow> an_finish s
      | Some r \<Rightarrow> Some
          (if r = ''tool_use'' then FToolUse
           else if r = ''max_tokens'' \<or> r = ''model_context_window_exceeded'' then FLength
           else if r \<in> {''end_turn'', ''stop_sequence'', ''pause_turn'', ''refusal''} then FStop
           else if an_saw_tool s then FToolUse
           else FStop))"

definition message_delta :: "json \<Rightarrow> anthropic_stream \<Rightarrow> anthropic_stream step" where
  "message_delta v s =
     (let s = add_usage_of (json_member v ''usage'') s
      in ((case not_empty (string_at v [''delta'', ''stop_sequence'']) of None \<Rightarrow> [] | Some t \<Rightarrow> [EStopSequence t]),
          GoesOn (s\<lparr>an_finish := anthropic_reason (string_at v [''delta'', ''stop_reason'']) s\<rparr>)))"

definition last_reason :: "anthropic_stream \<Rightarrow> finish_reason" where
  "last_reason s =
     (if an_finish s = Some FLength then FLength
      else if an_saw_tool s then FToolUse
      else case an_finish s of Some r \<Rightarrow> r | None \<Rightarrow> FStop)"

text \<open>The end of a message, announced or not.\<close>

definition message_end :: "anthropic_stream \<Rightarrow> model_event list \<times> anthropic_stream" where
  "message_end s =
     (let (out, s) = close_anthropic_blocks (an_blocks s) (s\<lparr>an_blocks := []\<rparr>)
      in (out
          @ (if an_replay s = [] then []
             else [EReplayState \<lparr>rp_provider_kind = ''anthropic'', rp_value = json_object [(''blocks'', JArr (an_replay s))]\<rparr>])
          @ (case an_usage s of None \<Rightarrow> [] | Some u \<Rightarrow> [EUsage u])
          @ [EDone (last_reason s)],
          s\<lparr>an_terminal := True, an_replay := []\<rparr>))"

definition anthropic_kind :: "string \<Rightarrow> json \<Rightarrow> anthropic_stream \<Rightarrow> anthropic_stream step" where
  "anthropic_kind kind v s =
     (if kind = ''message_start'' then step_on (add_usage_of (json_at v [''message'', ''usage'']) s)
      else if kind = ''content_block_start'' then block_start v s
      else if kind = ''content_block_delta'' then block_delta v s
      else if kind = ''content_block_stop'' then block_stop v s
      else if kind = ''message_delta'' then message_delta v s
      else if kind = ''message_stop'' then followed_by (message_end s) step_on
      else step_on s)"

definition anthropic_event :: "(string \<Rightarrow> string + json) \<Rightarrow> sse_event \<Rightarrow> anthropic_stream \<Rightarrow> anthropic_stream step" where
  "anthropic_event parse e s =
     (case parse (sse_data e) of
        Inl m \<Rightarrow> ([], Fails (Json m))
      | Inr v \<Rightarrow>
          (case provider_event_error ''Anthropic'' v of
             Some err \<Rightarrow> ([], Fails err)
           | None \<Rightarrow>
               anthropic_kind
                 (if sse_name e = [] \<or> sse_name e = ''message''
                  then case string_arg v ''type'' of Some k \<Rightarrow> k | None \<Rightarrow> sse_name e
                  else sse_name e) v s))"

definition anthropic_close :: "anthropic_stream \<Rightarrow> model_event list \<times> error option" where
  "anthropic_close s =
     (if an_terminal s then ([], None)
      else if an_finish s \<noteq> None then (fst (message_end s), None)
      else ([], Some (Provider ''Anthropic stream ended without message_stop'')))"

definition anthropic_loop :: "(string \<Rightarrow> string + json) \<Rightarrow> sse_input list \<Rightarrow> anthropic_stream \<Rightarrow> items" where
  "anthropic_loop parse = adapter_loop ''Anthropic'' (anthropic_event parse) anthropic_close"

definition anthropic_provider_stream ::
    "(string \<Rightarrow> string + json) \<Rightarrow> json result \<Rightarrow> sending \<Rightarrow> string \<Rightarrow> sse_input list \<Rightarrow> items" where
  "anthropic_provider_stream parse body sent cid inputs = adapter_stream body sent cid (anthropic_loop parse inputs anthropic_new)"

end
