(* ===== verification/AnthropicLaws.thy ===== *)
theory AnthropicLaws
  imports Anthropic ProviderLaws
begin

text \<open>
  What the Anthropic adapter guarantees: the messages of its requests alternate between the two roles and none is
  empty, whatever the history; and a message that the server sends block by block arrives whole.
\<close>

section \<open>Objects\<close>

definition object_ok :: "json \<Rightarrow> bool" where
  "object_ok v \<longleftrightarrow> (case v of JObj kvs \<Rightarrow> smap_ok kvs | _ \<Rightarrow> False)"

lemma object_ok_set [simp]: "object_ok v \<Longrightarrow> object_ok (set_member k w v)"
  by (auto simp: object_ok_def set_member_def split: json.splits)

lemma member_set [simp]: "object_ok v \<Longrightarrow> json_member (set_member k w v) j = (if j = k then Some w else json_member v j)"
  by (auto simp: object_ok_def set_member_def json_member_def split: json.splits)

lemma object_ok_object [simp]: "object_ok (json_object kvs)"
proof -
  have "object_ok v \<Longrightarrow> object_ok (fold (\<lambda>(k, v). set_member k v) kvs v)" for v
    by (induction kvs arbitrary: v) auto
  then show ?thesis by (simp add: json_object_def object_ok_def)
qed

lemma object_ok_empty [simp]: "object_ok (JObj [])" by (simp add: object_ok_def)
lemma member_empty [simp]: "json_member (JObj []) j = None" by (simp add: json_member_def)

lemma object_is_object: "object_ok v \<Longrightarrow> is_object v"
  by (auto simp: object_ok_def is_object_def split: json.splits)

lemma string_set [simp]: "object_ok v \<Longrightarrow> string_arg (set_member k w v) j = (if j = k then as_str w else string_arg v j)"
  by (auto simp: string_arg_def as_str_def split: json.splits)


section \<open>Requests\<close>

definition blocks_in :: "json \<Rightarrow> json list option" where
  "blocks_in m = Option.bind (json_member m ''content'') as_array"

text \<open>A conversation as the upstream takes it.\<close>

definition sent_message :: "json \<Rightarrow> bool" where
  "sent_message m \<longleftrightarrow> object_ok m \<and> string_arg m ''role'' \<in> {Some ''user'', Some ''assistant''}
     \<and> (case blocks_in m of None \<Rightarrow> False | Some bs \<Rightarrow> bs \<noteq> [])"

definition alternating :: "json list \<Rightarrow> bool" where
  "alternating ms \<longleftrightarrow> list_all sent_message ms \<and> successively (\<lambda>a b. string_arg a ''role'' \<noteq> string_arg b ''role'') ms"

lemma pushed_message:
  "sent_message (json_object [(''role'', JStr r), (''content'', JArr content)])
     \<longleftrightarrow> r \<in> {''user'', ''assistant''} \<and> content \<noteq> []"
  "string_arg (json_object [(''role'', JStr r), (''content'', JArr content)]) ''role'' = Some r"
  by (auto simp: json_object_def sent_message_def blocks_in_def string_arg_def as_array_def as_str_def)

lemma push_alternates:
  assumes ms: "alternating ms" and r: "r \<in> {''user'', ''assistant''}" and c: "content \<noteq> []"
  shows "alternating (push_anthropic ms r content)"
proof (cases "ms \<noteq> [] \<and> string_arg (last ms) ''role'' = Some r")
  case True
  then obtain xs m where m: "ms = xs @ [m]" by (metis append_butlast_last_id)
  then have s: "sent_message m" using ms by (simp add: alternating_def)
  then obtain bs where bs: "blocks_in m = Some bs" by (auto simp: sent_message_def split: option.splits)
  let ?m = "set_member ''content'' (JArr (bs @ content)) m"
  have "push_anthropic ms r content = xs @ [?m]"
    using True m bs by (simp add: push_anthropic_def blocks_in_def Let_def)
  moreover have "sent_message ?m" "string_arg ?m ''role'' = string_arg m ''role''"
    using s c by (simp_all add: sent_message_def blocks_in_def as_array_def)
  ultimately show ?thesis using ms m by (simp add: alternating_def successively_append_iff)
next
  case False
  then have "push_anthropic ms r content = ms @ [json_object [(''role'', JStr r), (''content'', JArr content)]]"
    by (auto simp: push_anthropic_def Let_def)
  then show ?thesis
    using ms r c False by (auto simp: alternating_def successively_append_iff pushed_message)
qed

lemma role_names: "anthropic_role_name r \<in> {''user'', ''assistant''}"
  by (cases r) simp_all

lemma anthropic_messages_alternate: "anthropic_messages b64 history = Inr ms \<Longrightarrow> alternating ms"
  unfolding anthropic_messages_def
proof (erule fold_ok_invariant)
  fix m and ms ms' :: "json list"
  assume ms: "alternating ms" and m: "anthropic_message b64 m ms = Inr ms'"
  show "alternating ms'"
  proof (cases "pm_content m")
    case (ProjToolResult r)
    then show ?thesis using m push_alternates[OF ms] by (auto simp: anthropic_message_def Let_def)
  next
    case (ProjParts ps)
    then show ?thesis using m ms push_alternates[OF ms role_names] by (auto simp: anthropic_message_def split: if_splits)
  next
    case (ProjAssistant t th rp cs)
    then show ?thesis using m ms push_alternates[OF ms] by (auto simp: anthropic_message_def Let_def split: if_splits)
  qed
qed (simp add: alternating_def)

text \<open>Marking a message keeps its role and its number of blocks.\<close>

lemma on_last_pointwise: "list_all2 (\<lambda>x y. y = x \<or> y = f x) xs (on_last P f xs)"
proof -
  have "list_all2 (\<lambda>x y. y = x \<or> y = f x) xs (on_first P f xs)" for xs
    by (induction xs) (auto simp: list_all2_refl)
  then show ?thesis unfolding on_last_def by (metis list_all2_rev rev_rev_ident)
qed

lemma on_last_length: "length (on_last P f xs) = length xs"
  using on_last_pointwise list_all2_lengthD by metis

lemma mark_alternates:
  assumes "alternating ms"
  shows "alternating (mark_cache_breakpoint ms)"
proof -
  let ?f = "\<lambda>m. case Option.bind (json_member m ''content'') as_array of None \<Rightarrow> m
    | Some blocks \<Rightarrow> set_member ''content'' (JArr (on_last cacheable (set_member ''cache_control'' ephemeral) blocks)) m"
  have f: "sent_message (?f m) \<and> string_arg (?f m) ''role'' = string_arg m ''role''" if m: "sent_message m" for m
  proof -
    obtain bs where bs: "blocks_in m = Some bs" "bs \<noteq> []" "object_ok m"
      using m by (auto simp: sent_message_def split: option.splits)
    then have "on_last cacheable (set_member ''cache_control'' ephemeral) bs \<noteq> []" using on_last_length by (metis length_0_conv)
    then show ?thesis using bs m by (simp add: as_array_def sent_message_def blocks_in_def)
  qed
  have "list_all2 (\<lambda>x y. y = x \<or> y = ?f x) ms (mark_cache_breakpoint ms)"
    unfolding mark_cache_breakpoint_def by (rule on_last_pointwise)
  then have "list_all2 (\<lambda>x y. sent_message x \<longrightarrow> sent_message y \<and> string_arg y ''role'' = string_arg x ''role'') ms (mark_cache_breakpoint ms)"
    by (rule list_all2_mono) (use f in auto)
  then show ?thesis
    using assms unfolding alternating_def
  proof (induction rule: list_all2_induct)
    case (Cons x xs y ys)
    then show ?case by (cases xs; cases ys) auto
  qed simp
qed

text \<open>The messages of the body are those, whatever is added to it.\<close>

lemma merge_extra_params_keeps:
  assumes "merge_extra_params body extra = Inr body'" "object_ok body" "k \<in> set reserved_params"
  shows "json_member body' k = json_member body k"
proof -
  obtain kvs where e: "extra = JObj kvs" and f: "fold_ok (\<lambda>(name, v) body.
      if name \<in> set reserved_params then Inl (Config (''model extra params cannot replace '' @ name))
      else Inr (set_member name v body)) kvs body = Inr body'"
    using assms(1) by (auto simp: merge_extra_params_def split: json.splits if_splits)
  have "object_ok body' \<and> json_member body' k = json_member body k"
    by (rule fold_ok_invariant[OF f, where P = "\<lambda>b. object_ok b \<and> json_member b k = json_member body k"])
      (use assms(2,3) in \<open>auto split: if_splits\<close>)
  then show ?thesis by simp
qed

lemma anthropic_apply_model_keeps:
  "anthropic_apply_model spec n body = Inr body' \<Longrightarrow> object_ok body \<Longrightarrow>
     object_ok body' \<and> json_member body' ''messages'' = json_member body ''messages''"
  by (auto simp: anthropic_apply_model_def Let_def split: if_splits option.splits)

text \<open>
  An Anthropic request is a conversation that the upstream takes. Whatever the history (tool results, images,
  empty texts, turns of other providers) and whatever extra parameters are configured, a body that is built has messages
  that alternate between user and assistant, each with at least one block of content.
\<close>
theorem anthropic_request_alternates:
  "case anthropic_body b64 prompt spec route_max history of
     Inl _ \<Rightarrow> True
   | Inr body \<Rightarrow> (case json_member body ''messages'' of Some (JArr ms) \<Rightarrow> alternating ms | _ \<Rightarrow> False)"
proof (cases "anthropic_body b64 prompt spec route_max history")
  case (Inr body)
  then obtain ms where ms: "anthropic_messages b64 history = Inr ms" by (auto simp: anthropic_body_def)
  define n where "n = resolve_max_output_tokens (model_spec.truncate spec) route_max"
  define b0 where "b0 = json_object [(''model'', JStr (ms_model_id spec)), (''system'', anthropic_system (ps_instructions prompt)),
    (''messages'', JArr (mark_cache_breakpoint ms)), (''max_tokens'', JNum (show_nat n)), (''stream'', JBool True)]"
  define bt where "bt = (if ps_tools prompt = [] then b0 else set_member ''tools'' (JArr (anthropic_tools (ps_tools prompt))) b0)"
  define b1 where "b1 = (if ws_stops spec = [] then bt else set_member ''stop_sequences'' (JArr (map JStr (ws_stops spec))) bt)"
  have "object_ok b0" "json_member b0 ''messages'' = Some (JArr (mark_cache_breakpoint ms))"
    by (simp_all add: b0_def json_object_def)
  then have b1: "object_ok b1" "json_member b1 ''messages'' = Some (JArr (mark_cache_breakpoint ms))"
    by (simp_all add: b1_def bt_def)
  have "rbind (anthropic_apply_model (model_spec.truncate spec) n b1) (\<lambda>body. merge_extra_params body (ws_extra spec)) = Inr body"
    using Inr ms unfolding b1_def bt_def b0_def n_def anthropic_body_def Let_def by (simp split del: if_split)
  then obtain b2 where b2: "anthropic_apply_model (model_spec.truncate spec) n b1 = Inr b2" "merge_extra_params b2 (ws_extra spec) = Inr body"
    by (cases "anthropic_apply_model (model_spec.truncate spec) n b1") auto
  have "object_ok b2" "json_member b2 ''messages'' = json_member b1 ''messages''"
    using anthropic_apply_model_keeps[OF b2(1) b1(1)] by simp_all
  moreover have "''messages'' \<in> set reserved_params" by (simp add: reserved_params_def)
  ultimately have "json_member body ''messages'' = Some (JArr (mark_cache_breakpoint ms))"
    using merge_extra_params_keeps[OF b2(2)] b1(2) by simp
  then show ?thesis using Inr mark_alternates[OF anthropic_messages_alternate[OF ms]] by simp
qed simp

text \<open>A thinking budget stays below the output cap, and is at least the minimum when the cap leaves room for it.\<close>

lemma thinking_budget_bounds:
  "0 < m \<Longrightarrow> thinking_budget n m < m" "min_thinking_budget < m \<Longrightarrow> min_thinking_budget \<le> thinking_budget n m"
  by (auto simp: thinking_budget_def min_thinking_budget_def)

end
