(* ===== verification/AnthropicStreams.thy ===== *)
theory AnthropicStreams
  imports AnthropicLaws TokenLaws
begin

text \<open>
  What the Anthropic adapter makes of a message that the server sends block by block: the wire values of such a
  message, the walk of the loop over them, and the result of the call.
\<close>

section \<open>Messages on the wire\<close>

datatype wire_block =
    WText "string list"
  | WThinking "string list" "string list"
  | WTool string string "string list"

definition wire :: "string \<Rightarrow> (string \<times> json) list \<Rightarrow> json" where
  "wire kind kvs = JObj ((''type'', JStr kind) # kvs)"

definition wire_start :: "nat \<Rightarrow> json \<Rightarrow> json" where
  "wire_start i b = wire ''content_block_start'' [(''index'', JNum (show_nat i)), (''content_block'', b)]"

definition wire_delta :: "nat \<Rightarrow> string \<Rightarrow> string \<Rightarrow> string \<Rightarrow> json" where
  "wire_delta i kind name t =
     wire ''content_block_delta'' [(''index'', JNum (show_nat i)), (''delta'', JObj [(''type'', JStr kind), (name, JStr t)])]"

definition wire_stop :: "nat \<Rightarrow> json" where
  "wire_stop i = wire ''content_block_stop'' [(''index'', JNum (show_nat i))]"

fun block_values :: "nat \<Rightarrow> wire_block \<Rightarrow> json list" where
  "block_values i (WText ts) =
     wire_start i (JObj [(''type'', JStr ''text''), (''text'', JStr [])])
     # map (wire_delta i ''text_delta'' ''text'') ts @ [wire_stop i]"
| "block_values i (WThinking ts gs) =
     wire_start i (JObj [(''type'', JStr ''thinking''), (''thinking'', JStr []), (''signature'', JStr [])])
     # map (wire_delta i ''thinking_delta'' ''thinking'') ts
     @ map (wire_delta i ''signature_delta'' ''signature'') gs @ [wire_stop i]"
| "block_values i (WTool cid name ts) =
     wire_start i (JObj [(''type'', JStr ''tool_use''), (''id'', JStr cid), (''name'', JStr name), (''input'', JObj [])])
     # map (wire_delta i ''input_json_delta'' ''partial_json'') ts @ [wire_stop i]"

fun blocks_values :: "nat \<Rightarrow> wire_block list \<Rightarrow> json list" where
  "blocks_values i [] = []"
| "blocks_values i (b # bs) = block_values i b @ blocks_values (Suc i) bs"

definition message_values :: "json \<Rightarrow> wire_block list \<Rightarrow> string \<Rightarrow> json \<Rightarrow> json list" where
  "message_values usage bs reason usage' =
     wire ''message_start'' [(''message'', JObj [(''usage'', usage)])]
     # blocks_values 0 bs
     @ [wire ''message_delta'' [(''delta'', JObj [(''stop_reason'', JStr reason)]), (''usage'', usage')],
        wire ''message_stop'' []]"

text \<open>The server-sent events that carry values; an event is named after the type of its value or not at all.\<close>

definition carries :: "(string \<Rightarrow> string + json) \<Rightarrow> json \<Rightarrow> sse_input \<Rightarrow> bool" where
  "carries parse v x \<longleftrightarrow>
     (case x of
        SseEvent e \<Rightarrow> parse (sse_data e) = Inr v \<and> (sse_name e \<in> {[], ''message''} \<or> string_arg v ''type'' = Some (sse_name e))
      | _ \<Rightarrow> False)"

text \<open>The block of the consumer that a block of the wire becomes.\<close>

fun block_at :: "nat \<Rightarrow> wire_block \<Rightarrow> block" where
  "block_at i (WText ts) = TextBlock ts"
| "block_at i (WThinking ts gs) = ThinkBlock ts (if concat gs = [] then [] else [concat gs])"
| "block_at i (WTool cid name ts) = ToolBlock i cid name ts"

fun is_tool :: "wire_block \<Rightarrow> bool" where
  "is_tool (WTool cid name ts) = True"
| "is_tool _ = False"

fun blocks_events :: "nat \<Rightarrow> wire_block list \<Rightarrow> model_event list" where
  "blocks_events i [] = []"
| "blocks_events i (b # bs) = block_events (block_at i b) @ blocks_events (Suc i) bs"


section \<open>The walk over a message\<close>

definition value_event :: "json \<Rightarrow> anthropic_stream \<Rightarrow> anthropic_stream step" where
  "value_event v s =
     (case provider_event_error ''Anthropic'' v of
        Some e \<Rightarrow> ([], Fails e)
      | None \<Rightarrow> anthropic_kind (case string_arg v ''type'' of Some k \<Rightarrow> k | None \<Rightarrow> []) v s)"

inductive walk :: "anthropic_stream \<Rightarrow> json list \<Rightarrow> model_event list \<Rightarrow> anthropic_stream \<Rightarrow> bool" where
  walk_Nil: "walk s [] [] s"
| walk_Cons: "string_arg v ''type'' \<noteq> None \<Longrightarrow> value_event v s = (out, GoesOn s1) \<Longrightarrow> walk s1 vs out' s'
     \<Longrightarrow> walk s (v # vs) (out @ out') s'"

lemma walk_append: "walk s vs out s1 \<Longrightarrow> walk s1 vs' out' s' \<Longrightarrow> walk s (vs @ vs') (out @ out') s'"
  by (induction rule: walk.induct) (auto intro: walk.intros)

lemma walk_step: "string_arg v ''type'' \<noteq> None \<Longrightarrow> value_event v s = (out, GoesOn s') \<Longrightarrow> walk s [v] out s'"
  using walk_Cons[OF _ _ walk_Nil] by fastforce

lemma walk_loop:
  "walk s vs out s' \<Longrightarrow> list_all2 (carries parse) vs xs \<Longrightarrow>
     anthropic_loop parse (xs @ ys) s = yields out (anthropic_loop parse ys s')"
proof (induction arbitrary: xs rule: walk.induct)
  case (walk_Cons v s out s1 vs out' s')
  obtain x xs' where x: "xs = x # xs'" "carries parse v x" "list_all2 (carries parse) vs xs'"
    using walk_Cons.prems by (auto simp: list_all2_Cons1)
  then obtain e where e: "x = SseEvent e" by (cases x) (auto simp: carries_def)
  note xs = x(1,2)[unfolded e] x(3)
  then have "anthropic_event parse e s = value_event v s"
    using walk_Cons.hyps(1) by (auto simp: anthropic_event_def value_event_def carries_def split: option.splits)
  then show ?case using walk_Cons.IH[OF xs(3)] walk_Cons.hyps(2) xs(1) by (simp add: anthropic_loop_def yields_def)
qed (simp add: yields_def)

lemma wire_lookups [simp]:
  "string_arg (wire k kvs) ''type'' = Some k"
  "json_member (wire k kvs) j = (if j = ''type'' then Some (JStr k) else map_of kvs j)"
  by (simp_all add: wire_def string_arg_def json_member_def)

lemma value_event_wire:
  "k \<notin> {''error'', ''response.failed''} \<Longrightarrow> map_of kvs ''error'' = None \<Longrightarrow>
     value_event (wire k kvs) s = anthropic_kind k (wire k kvs) s"
  by (simp add: value_event_def provider_event_error_def not_null_def)

lemma wire_index: "i \<le> u64_max \<Longrightarrow> map_of kvs ''index'' = Some (JNum (show_nat i)) \<Longrightarrow> anthropic_index (wire k kvs) = Inr i"
proof -
  assume i: "i \<le> u64_max" and m: "map_of kvs ''index'' = Some (JNum (show_nat i))"
  have "parse_u64 (show_nat i) = Some i" using show_nat_digits[of i] i by (simp add: parse_u64_def)
  then show ?thesis using m by (simp add: anthropic_index_def index_value_def)
qed

text \<open>The elementary values, one lemma each.\<close>

lemma value_start:
  "i \<le> u64_max \<Longrightarrow> value_event (wire_start i b) s = with_value (required_string b ''type'') (\<lambda>kind.
     let s = s\<lparr>an_blocks := smap_put i kind (an_blocks s)\<rparr>
     in if kind = ''text'' then ([ETextStart], GoesOn s)
        else if kind = ''thinking'' then ([EThinkingStart], GoesOn (open_thinking i s))
        else if kind = ''redacted_thinking'' then step_on (s\<lparr>an_replay := an_replay s @ [b]\<rparr>)
        else if kind = ''tool_use'' then
          with_value (required_string b ''id'') (\<lambda>cid.
          with_value (required_string b ''name'') (\<lambda>name.
            ([EToolCallStart i cid name], GoesOn (s\<lparr>an_saw_tool := True\<rparr>))))
        else step_on s)"
  unfolding wire_start_def
  by (subst value_event_wire) (simp_all add: anthropic_kind_def block_start_def wire_index member_or_null_def with_value_def)

lemma open_known: "map_of (an_blocks s) i \<noteq> None \<Longrightarrow> open_unannounced i k s = ([], s)"
  by (simp add: open_unannounced_def)

lemma value_delta_known:
  assumes "i \<le> u64_max" "map_of (an_blocks s) i \<noteq> None"
  shows "value_event (wire_delta i k n t) s =
     (let delta = JObj [(''type'', JStr k), (n, JStr t)]
      in if k = ''text_delta'' then
           (case string_arg delta ''text'' of None \<Rightarrow> step_on s | Some t \<Rightarrow> ([ETextDelta t], GoesOn s))
         else if k = ''thinking_delta'' then
           (case string_arg delta ''thinking'' of
              None \<Rightarrow> step_on s
            | Some t \<Rightarrow>
                ([EThinkingDelta t],
                 GoesOn (s\<lparr>an_thinking := (an_thinking s)(i \<mapsto> text_of_block (an_thinking s) i @ t)\<rparr>)))
         else if k = ''signature_delta'' then
           (case string_arg delta ''signature'' of
              None \<Rightarrow> step_on s
            | Some t \<Rightarrow>
                step_on (s\<lparr>an_signatures := (an_signatures s)(i \<mapsto> text_of_block (an_signatures s) i @ t)\<rparr>))
         else if k = ''input_json_delta'' then
           (case string_arg delta ''partial_json'' of
              None \<Rightarrow> step_on s | Some t \<Rightarrow> ([EToolCallArgumentsDelta i t], GoesOn s))
         else step_on s)"
proof -
  let ?delta = "JObj [(''type'', JStr k), (n, JStr t)]"
  let ?v = "wire ''content_block_delta'' [(''index'', JNum (show_nat i)), (''delta'', ?delta)]"
  have i: "anthropic_index ?v = Inr i" by (rule wire_index) (simp_all add: assms)
  have d: "member_or_null ?v ''delta'' = ?delta" by (simp add: member_or_null_def)
  have k: "required_string ?delta ''type'' = Inr k" by (simp add: required_string_def ok_or_def string_arg_def json_member_def)
  have f: "followed_by ([], s) g = g s" for g :: "anthropic_stream \<Rightarrow> anthropic_stream step"
    by (simp add: followed_by_def split: prod.split)
  have "value_event ?v s = anthropic_kind ''content_block_delta'' ?v s" by (rule value_event_wire) simp_all
  also have "\<dots> = block_delta ?v s" by (simp add: anthropic_kind_def)
  finally show ?thesis
    unfolding wire_delta_def block_delta_def i d k with_value_def sum.case Let_def open_known[OF assms(2)] f .
qed

lemma value_delta:
  assumes "i \<le> u64_max" "map_of (an_blocks s) i \<noteq> None"
  shows "value_event (wire_delta i ''text_delta'' ''text'' t) s = ([ETextDelta t], GoesOn s)"
    "value_event (wire_delta i ''thinking_delta'' ''thinking'' t) s =
       ([EThinkingDelta t], GoesOn (s\<lparr>an_thinking := (an_thinking s)(i \<mapsto> text_of_block (an_thinking s) i @ t)\<rparr>))"
    "value_event (wire_delta i ''signature_delta'' ''signature'' t) s =
       ([], GoesOn (s\<lparr>an_signatures := (an_signatures s)(i \<mapsto> text_of_block (an_signatures s) i @ t)\<rparr>))"
    "value_event (wire_delta i ''input_json_delta'' ''partial_json'' t) s = ([EToolCallArgumentsDelta i t], GoesOn s)"
  by (simp_all add: value_delta_known[OF assms] string_arg_def json_member_def step_on_def)

lemma value_stop:
  assumes "i \<le> u64_max" "map_of (an_blocks s) i = Some kind"
  shows "value_event (wire_stop i) s =
     followed_by (close_anthropic_block i kind (s\<lparr>an_blocks := smap_del i (an_blocks s)\<rparr>)) step_on"
  using assms unfolding wire_stop_def
  by (subst value_event_wire) (simp_all add: anthropic_kind_def block_stop_def wire_index with_value_def)

lemma wire_types [simp]:
  "string_arg (wire_start i b) ''type'' = Some ''content_block_start''"
  "string_arg (wire_delta i k n t) ''type'' = Some ''content_block_delta''"
  "string_arg (wire_stop i) ''type'' = Some ''content_block_stop''"
  by (simp_all add: wire_start_def wire_delta_def wire_stop_def)

text \<open>A block, with none open before and none after.\<close>

definition quiet :: "anthropic_stream \<Rightarrow> bool" where
  "quiet s \<longleftrightarrow> an_blocks s = []"

definition follows :: "wire_block list \<Rightarrow> anthropic_stream \<Rightarrow> anthropic_stream \<Rightarrow> bool" where
  "follows bs s s' \<longleftrightarrow> quiet s' \<and> an_saw_tool s' = (an_saw_tool s \<or> list_ex is_tool bs) \<and> an_finish s' = an_finish s"

lemma required_object: "map_of kvs k = Some (JStr t) \<Longrightarrow> required_string (JObj kvs) k = Inr t"
  by (simp add: required_string_def ok_or_def string_arg_def json_member_def)

lemma text_of_block_upd [simp]: "text_of_block (f(i \<mapsto> t)) i = t"
  by (simp add: text_of_block_def)

lemma walk_texts:
  "i \<le> u64_max \<Longrightarrow> map_of (an_blocks s) i \<noteq> None \<Longrightarrow>
     walk s (map (wire_delta i ''text_delta'' ''text'') ts) (map ETextDelta ts) s"
  by (induction ts) (auto intro: walk_Nil walk_Cons[of _ _ "[e]" for e, simplified] simp: value_delta)

lemma walk_arguments:
  "i \<le> u64_max \<Longrightarrow> map_of (an_blocks s) i \<noteq> None \<Longrightarrow>
     walk s (map (wire_delta i ''input_json_delta'' ''partial_json'') ts) (map (EToolCallArgumentsDelta i) ts) s"
  by (induction ts) (auto intro: walk_Nil walk_Cons[of _ _ "[e]" for e, simplified] simp: value_delta)

lemma walk_thoughts:
  "i \<le> u64_max \<Longrightarrow> map_of (an_blocks s) i \<noteq> None \<Longrightarrow>
     \<exists>m. walk s (map (wire_delta i ''thinking_delta'' ''thinking'') ts) (map EThinkingDelta ts) (s\<lparr>an_thinking := m\<rparr>)"
proof (induction ts arbitrary: s)
  case Nil
  show ?case by (rule exI[of _ "an_thinking s"]) (simp add: walk_Nil)
next
  case (Cons t ts)
  let ?s = "s\<lparr>an_thinking := (an_thinking s)(i \<mapsto> text_of_block (an_thinking s) i @ t)\<rparr>"
  obtain m where m: "walk ?s (map (wire_delta i ''thinking_delta'' ''thinking'') ts) (map EThinkingDelta ts) (?s\<lparr>an_thinking := m\<rparr>)"
    using Cons.IH[of ?s] Cons.prems by auto
  have "walk s (wire_delta i ''thinking_delta'' ''thinking'' t # map (wire_delta i ''thinking_delta'' ''thinking'') ts)
      ([EThinkingDelta t] @ map EThinkingDelta ts) (?s\<lparr>an_thinking := m\<rparr>)"
    by (rule walk_Cons[OF _ _ m]) (simp_all add: value_delta Cons.prems)
  then show ?case by (intro exI[of _ m]) simp
qed

lemma walk_signatures:
  "i \<le> u64_max \<Longrightarrow> map_of (an_blocks s) i \<noteq> None \<Longrightarrow>
     \<exists>m. walk s (map (wire_delta i ''signature_delta'' ''signature'') gs) [] (s\<lparr>an_signatures := m\<rparr>)
       \<and> text_of_block m i = text_of_block (an_signatures s) i @ concat gs"
proof (induction gs arbitrary: s)
  case Nil
  show ?case by (rule exI[of _ "an_signatures s"]) (simp add: walk_Nil)
next
  case (Cons t ts)
  let ?s = "s\<lparr>an_signatures := (an_signatures s)(i \<mapsto> text_of_block (an_signatures s) i @ t)\<rparr>"
  obtain m where m: "walk ?s (map (wire_delta i ''signature_delta'' ''signature'') ts) [] (?s\<lparr>an_signatures := m\<rparr>)"
      "text_of_block m i = text_of_block (an_signatures ?s) i @ concat ts"
    using Cons.IH[of ?s] Cons.prems by fastforce
  have "walk s (wire_delta i ''signature_delta'' ''signature'' t # map (wire_delta i ''signature_delta'' ''signature'') ts)
      ([] @ []) (?s\<lparr>an_signatures := m\<rparr>)"
    by (rule walk_Cons[OF _ _ m(1)]) (simp_all add: value_delta Cons.prems)
  then show ?case using m(2) by (intro exI[of _ m]) (simp add: text_of_block_def)
qed

lemma smap_one [simp]: "smap_del i [(i, k)] = []" by (simp add: smap_del_def)

lemma walk_block:
  assumes i: "i \<le> u64_max" and s: "quiet s"
  shows "\<exists>s'. walk s (block_values i b) (block_events (block_at i b)) s' \<and> follows [b] s s'"
proof (cases b)
  case (WText ts)
  let ?s = "s\<lparr>an_blocks := [(i, ''text'')]\<rparr>"
  have 1: "walk s [wire_start i (JObj [(''type'', JStr ''text''), (''text'', JStr [])])] [ETextStart] ?s"
    by (rule walk_step) (use s in \<open>simp_all add: value_start[OF i] with_value_def required_object quiet_def\<close>)
  have 2: "walk ?s (map (wire_delta i ''text_delta'' ''text'') ts) (map ETextDelta ts) ?s" by (rule walk_texts[OF i]) simp
  have 3: "walk ?s [wire_stop i] [ETextEnd] (?s\<lparr>an_blocks := []\<rparr>)"
    by (rule walk_step) (simp_all add: value_stop[OF i] close_anthropic_block_def followed_by_def step_on_def)
  show ?thesis using walk_append[OF 1 walk_append[OF 2 3]] WText
    by (intro exI[of _ "?s\<lparr>an_blocks := []\<rparr>"]) (simp add: follows_def quiet_def)
next
  case (WThinking ts gs)
  let ?s = "open_thinking i (s\<lparr>an_blocks := [(i, ''thinking'')]\<rparr>)"
  have 1: "walk s [wire_start i (JObj [(''type'', JStr ''thinking''), (''thinking'', JStr []), (''signature'', JStr [])])] [EThinkingStart] ?s"
    by (rule walk_step) (use s in \<open>simp_all add: value_start[OF i] with_value_def required_object quiet_def\<close>)
  obtain m where 2: "walk ?s (map (wire_delta i ''thinking_delta'' ''thinking'') ts) (map EThinkingDelta ts) (?s\<lparr>an_thinking := m\<rparr>)"
    using walk_thoughts[OF i, of ?s ts] by (auto simp: open_thinking_def)
  let ?s2 = "?s\<lparr>an_thinking := m\<rparr>"
  obtain n where 3: "walk ?s2 (map (wire_delta i ''signature_delta'' ''signature'') gs) [] (?s2\<lparr>an_signatures := n\<rparr>)"
      "text_of_block n i = concat gs"
    using walk_signatures[OF i, of ?s2 gs] by (auto simp: open_thinking_def text_of_block_def)
  let ?s3 = "?s2\<lparr>an_signatures := n\<rparr>"
  let ?close = "close_anthropic_block i ''thinking'' (?s3\<lparr>an_blocks := []\<rparr>)"
  have "value_event (wire_stop i) ?s3 = followed_by ?close step_on"
    by (simp add: value_stop[OF i] open_thinking_def)
  then have 4: "walk ?s3 [wire_stop i] (fst ?close) (snd ?close)"
    by (intro walk_step) (simp_all add: followed_by_def step_on_def)
  have c: "fst ?close = map EThinkingSignature (if concat gs = [] then [] else [concat gs]) @ [EThinkingEnd]"
    using 3(2) by (simp add: close_anthropic_block_def Let_def)
  have f: "follows [b] s (snd ?close)"
    using WThinking by (simp add: follows_def quiet_def close_anthropic_block_def Let_def open_thinking_def)
  show ?thesis using walk_append[OF 1 walk_append[OF 2 walk_append[OF 3(1) 4[unfolded c]]]] WThinking f
    by (intro exI[of _ "snd ?close"]) simp
next
  case (WTool cid name ts)
  let ?s = "s\<lparr>an_blocks := [(i, ''tool_use'')], an_saw_tool := True\<rparr>"
  have 1: "walk s [wire_start i (JObj [(''type'', JStr ''tool_use''), (''id'', JStr cid), (''name'', JStr name), (''input'', JObj [])])]
      [EToolCallStart i cid name] ?s"
    by (rule walk_step) (use s in \<open>simp_all add: value_start[OF i] with_value_def required_object quiet_def\<close>)
  have 2: "walk ?s (map (wire_delta i ''input_json_delta'' ''partial_json'') ts) (map (EToolCallArgumentsDelta i) ts) ?s"
    by (rule walk_arguments[OF i]) simp
  have 3: "walk ?s [wire_stop i] [EToolCallEnd i] (?s\<lparr>an_blocks := []\<rparr>)"
    by (rule walk_step) (simp_all add: value_stop[OF i] close_anthropic_block_def followed_by_def step_on_def)
  show ?thesis using walk_append[OF 1 walk_append[OF 2 3]] WTool
    by (intro exI[of _ "?s\<lparr>an_blocks := []\<rparr>"]) (simp add: follows_def quiet_def)
qed

lemma walk_blocks:
  "i + length bs \<le> u64_max \<Longrightarrow> quiet s \<Longrightarrow> \<exists>s'. walk s (blocks_values i bs) (blocks_events i bs) s' \<and> follows bs s s'"
proof (induction bs arbitrary: i s)
  case Nil
  then show ?case by (intro exI[of _ s]) (simp add: walk_Nil follows_def)
next
  case (Cons b bs)
  obtain s1 where 1: "walk s (block_values i b) (block_events (block_at i b)) s1" "follows [b] s s1"
    using walk_block[of i s b] Cons.prems by auto
  obtain s2 where 2: "walk s1 (blocks_values (Suc i) bs) (blocks_events (Suc i) bs) s2" "follows bs s1 s2"
    using Cons.IH[of "Suc i" s1] Cons.prems(1) 1(2) by (auto simp: follows_def)
  show ?case using walk_append[OF 1(1) 2(1)] 1(2) 2(2) by (intro exI[of _ s2]) (auto simp: follows_def)
qed


section \<open>The events of a message\<close>

definition ends_of :: "anthropic_stream \<Rightarrow> finish_reason \<Rightarrow> model_event list" where
  "ends_of s r =
     (if an_replay s = [] then []
      else [EReplayState \<lparr>rp_provider_kind = ''anthropic'', rp_value = json_object [(''blocks'', JArr (an_replay s))]\<rparr>])
     @ (case an_usage s of None \<Rightarrow> [] | Some u \<Rightarrow> [EUsage u]) @ [EDone r]"

lemma walk_message:
  assumes "length bs \<le> u64_max" "reason \<notin> {''max_tokens'', ''model_context_window_exceeded''}"
    and "reason = ''tool_use'' \<Longrightarrow> list_ex is_tool bs"
  shows "\<exists>s s'. walk anthropic_new (message_values usage bs reason usage')
      (blocks_events 0 bs @ ends_of s (if list_ex is_tool bs then FToolUse else FStop)) s' \<and> an_terminal s'"
proof -
  let ?start = "wire ''message_start'' [(''message'', JObj [(''usage'', usage)])]"
    and ?delta = "wire ''message_delta'' [(''delta'', JObj [(''stop_reason'', JStr reason)]), (''usage'', usage')]"
    and ?stop = "wire ''message_stop'' []"
  define s1 where "s1 = add_usage_of (Some usage) anthropic_new"
  have m: "json_at ?start [''message'', ''usage''] = Some usage" by (simp add: wire_def json_member_def)
  have "value_event ?start anthropic_new = ([], GoesOn s1)"
    by (subst value_event_wire) (simp_all add: anthropic_kind_def step_on_def s1_def m del: json_at.simps)
  then have 1: "walk anthropic_new [?start] [] s1" by (intro walk_step) simp_all
  have "quiet s1" "an_saw_tool s1 = False" "an_finish s1 = None"
    by (simp_all add: s1_def add_usage_of_def anthropic_new_def quiet_def)
  then obtain s2 where 2: "walk s1 (blocks_values 0 bs) (blocks_events 0 bs) s2" "quiet s2"
      "an_saw_tool s2 = list_ex is_tool bs" "an_finish s2 = None"
    using walk_blocks[of 0 bs s1] assms(1) by (auto simp: follows_def)
  define s3 where "s3 = (add_usage_of (Some usage') s2)\<lparr>an_finish := anthropic_reason (Some reason) (add_usage_of (Some usage') s2)\<rparr>"
  have d: "string_at ?delta [''delta'', ''stop_sequence''] = None" "string_at ?delta [''delta'', ''stop_reason''] = Some reason"
    by (simp_all add: wire_def string_at_def json_member_def as_str_def)
  have "value_event ?delta s2 = ([], GoesOn s3)"
    by (subst value_event_wire) (simp_all add: anthropic_kind_def message_delta_def d not_empty_def s3_def Let_def)
  then have 3: "walk s2 [?delta] [] s3" by (intro walk_step) simp_all
  have s3: "quiet s3" "last_reason s3 = (if list_ex is_tool bs then FToolUse else FStop)"
    using 2(2,3) assms(2,3)
    by (auto simp: s3_def quiet_def add_usage_of_def last_reason_def anthropic_reason_def)
  have "value_event ?stop s3 = followed_by (message_end s3) step_on"
    by (subst value_event_wire) (simp_all add: anthropic_kind_def)
  moreover have "message_end s3 = (ends_of s3 (last_reason s3), s3\<lparr>an_blocks := [], an_terminal := True, an_replay := []\<rparr>)"
    using s3(1) by (simp add: message_end_def ends_of_def quiet_def last_reason_def)
  ultimately have 4: "walk s3 [?stop] (ends_of s3 (if list_ex is_tool bs then FToolUse else FStop))
      (s3\<lparr>an_blocks := [], an_terminal := True, an_replay := []\<rparr>)"
    using s3(2) by (intro walk_step) (simp_all add: followed_by_def step_on_def)
  show ?thesis
    using walk_append[OF 1 walk_append[OF 2(1) walk_append[OF 3 4]]]
    by (intro exI[of _ s3] exI[of _ "s3\<lparr>an_blocks := [], an_terminal := True, an_replay := []\<rparr>"]) (simp add: message_values_def)
qed

text \<open>Those events are legal.\<close>

fun tools_from :: "nat \<Rightarrow> wire_block list \<Rightarrow> (nat \<Rightarrow> bool option) \<Rightarrow> nat \<Rightarrow> bool option" where
  "tools_from i [] m = m"
| "tools_from i (b # bs) m = tools_from (Suc i) bs (if is_tool b then m(i \<mapsto> True) else m)"

lemma legals_repeat: "(\<And>t. legal l (f t) v = Some v) \<Longrightarrow> legals l (map f ts) v = Some v"
  by (induction ts) simp_all

lemma block_legal:
  assumes "\<not> bl_text v" "\<not> bl_thinking v" "bl_finish v = None" "bl_tools v i = None"
  shows "legals False (block_events (block_at i b)) v
    = Some (v\<lparr>bl_tools := (if is_tool b then (bl_tools v)(i \<mapsto> True) else bl_tools v)\<rparr>)"
proof (cases b)
  case (WText ts)
  have "legals False (map ETextDelta ts) (v\<lparr>bl_text := True\<rparr>) = Some (v\<lparr>bl_text := True\<rparr>)"
    by (rule legals_repeat) (simp add: legal_def assms)
  then show ?thesis using WText assms by (simp add: legal_def legals_append)
next
  case (WThinking ts gs)
  have "legals False (map EThinkingDelta ts) (v\<lparr>bl_thinking := True\<rparr>) = Some (v\<lparr>bl_thinking := True\<rparr>)"
    by (rule legals_repeat) (simp add: legal_def assms)
  then show ?thesis using WThinking assms by (simp add: legal_def legals_append)
next
  case (WTool cid name ts)
  let ?v = "v\<lparr>bl_tools := (bl_tools v)(i \<mapsto> False)\<rparr>"
  have "legals False (map (EToolCallArgumentsDelta i) ts) ?v = Some ?v"
    by (rule legals_repeat) (simp add: legal_def assms)
  then show ?thesis using WTool assms by (simp add: legal_def legals_append)
qed

lemma blocks_legal:
  "\<not> bl_text v \<Longrightarrow> \<not> bl_thinking v \<Longrightarrow> bl_finish v = None \<Longrightarrow> (\<And>j. i \<le> j \<Longrightarrow> bl_tools v j = None) \<Longrightarrow>
     legals False (blocks_events i bs) v = Some (v\<lparr>bl_tools := tools_from i bs (bl_tools v)\<rparr>)"
proof (induction bs arbitrary: i v)
  case (Cons b bs)
  let ?v = "v\<lparr>bl_tools := (if is_tool b then (bl_tools v)(i \<mapsto> True) else bl_tools v)\<rparr>"
  have "legals False (block_events (block_at i b)) v = Some ?v" by (rule block_legal) (use Cons.prems in auto)
  moreover have "legals False (blocks_events (Suc i) bs) ?v = Some (?v\<lparr>bl_tools := tools_from (Suc i) bs (bl_tools ?v)\<rparr>)"
    by (rule Cons.IH) (use Cons.prems in auto)
  ultimately show ?case by (simp add: legals_append)
qed simp

lemma tools_from_ended: "Some False \<in> range (tools_from i bs m) \<Longrightarrow> Some False \<in> range m"
proof (induction i bs m rule: tools_from.induct)
  case (2 i b bs m)
  then have "Some False \<in> range (if is_tool b then m(i \<mapsto> True) else m)" by simp
  then show ?case by (auto split: if_splits)
qed simp

lemma tools_from_empty: "tools_from i bs m = Map.empty \<longleftrightarrow> m = Map.empty \<and> \<not> list_ex is_tool bs"
  by (induction i bs m rule: tools_from.induct) auto

lemma message_legal:
  assumes "r = (if list_ex is_tool bs then FToolUse else FStop)"
  shows "\<exists>w. legals False (blocks_events 0 bs @ ends_of s r) no_blocks = Some w \<and> fitting w \<and> bl_finish w = Some r"
proof -
  let ?v = "no_blocks\<lparr>bl_tools := tools_from 0 bs Map.empty\<rparr>"
  let ?w = "?v\<lparr>bl_replay := (an_replay s \<noteq> []), bl_usage := (an_usage s \<noteq> None), bl_finish := Some r\<rparr>"
  have b: "legals False (blocks_events 0 bs) no_blocks = Some ?v"
    using blocks_legal[of no_blocks 0 bs] by (simp add: no_blocks_def)
  have n: "Some False \<notin> range (tools_from 0 bs Map.empty)" using tools_from_ended[of 0 bs Map.empty] by auto
  have "legals False (ends_of s r) ?v = Some ?w"
    using n by (cases "an_usage s") (auto simp: ends_of_def legal_def no_blocks_def)
  moreover have "fitting ?w" using assms tools_from_empty[of 0 bs Map.empty] by (simp add: fitting_def)
  ultimately show ?thesis using legals_appendI[OF b] by fastforce
qed


section \<open>What a message says\<close>

fun wire_text :: "wire_block \<Rightarrow> string" where
  "wire_text (WText ts) = concat ts"
| "wire_text _ = []"

fun wire_thinking :: "wire_block \<Rightarrow> string" where
  "wire_thinking (WThinking ts gs) = concat ts"
| "wire_thinking _ = []"

text \<open>The calls of a message: position, id, name and arguments.\<close>

fun wire_calls :: "nat \<Rightarrow> wire_block list \<Rightarrow> (nat \<times> string \<times> string \<times> string) list" where
  "wire_calls i [] = []"
| "wire_calls i (WTool cid name ts # bs) = (i, cid, normalize_tool_name name, concat ts) # wire_calls (Suc i) bs"
| "wire_calls i (b # bs) = wire_calls (Suc i) bs"

fun wire_ids :: "wire_block \<Rightarrow> string list" where
  "wire_ids (WTool cid name ts) = [cid]"
| "wire_ids _ = []"

lemma said_pieces:
  "said text_of (map ETextDelta ts) = concat ts" "said reasoning_of (map ETextDelta ts) = []"
  "said text_of (map EThinkingDelta ts) = []" "said reasoning_of (map EThinkingDelta ts) = concat ts"
  "said text_of (map (EToolCallArgumentsDelta i) ts) = []" "said reasoning_of (map (EToolCallArgumentsDelta i) ts) = []"
  "said (arguments_of j) (map ETextDelta ts) = []" "said (arguments_of j) (map EThinkingDelta ts) = []"
  "said (arguments_of j) (map (EToolCallArgumentsDelta i) ts) = (if j = i then concat ts else [])"
  by (induction ts) simp_all

lemma said_block_at:
  "said text_of (block_events (block_at i b)) = wire_text b" "said reasoning_of (block_events (block_at i b)) = wire_thinking b"
  by (cases b; simp add: said_pieces)+

lemma said_blocks:
  "said text_of (blocks_events i bs) = concat (map wire_text bs)"
  "said reasoning_of (blocks_events i bs) = concat (map wire_thinking bs)"
  by (induction bs arbitrary: i) (simp_all add: said_block_at)

lemma said_ends: "said text_of (ends_of s r) = []" "said reasoning_of (ends_of s r) = []" "said (arguments_of j) (ends_of s r) = []"
  by (auto simp: ends_of_def split: option.split)

lemma said_arguments:
  "said (arguments_of j) (block_events (block_at i b)) = (case b of WTool cid name ts \<Rightarrow> if j = i then concat ts else [] | _ \<Rightarrow> [])"
  by (cases b) (simp_all add: said_pieces)

lemma said_arguments_later: "j < i \<Longrightarrow> said (arguments_of j) (blocks_events i bs) = []"
  by (induction bs arbitrary: i) (simp_all add: said_arguments split: wire_block.split)

lemma tool_said_pieces [simp]:
  "concat (map (\<lambda>x. tool_said (ETextDelta x)) ts) = []" "concat (map (\<lambda>x. tool_said (EThinkingDelta x)) ts) = []"
  "concat (map (\<lambda>x. tool_said (EToolCallArgumentsDelta i x)) ts) = []"
  by simp_all

lemma tool_said_blocks: "concat (map tool_said (blocks_events i bs)) = map (\<lambda>(j, c, n, a). (j, c, n)) (wire_calls i bs)"
proof (induction bs arbitrary: i)
  case (Cons b bs)
  then show ?case by (cases b) (simp_all add: comp_def)
qed simp

lemma tool_said_ends: "concat (map tool_said (ends_of s r)) = []"
  by (auto simp: ends_of_def split: option.split)

lemma starts_blocks: "started_ids (blocks_events i bs) = concat (map wire_ids bs)" "started_ids (ends_of s r) = []"
proof -
  have p: "started_ids (map ETextDelta ts) = []" "started_ids (map EThinkingDelta ts) = []"
    "started_ids (map (EToolCallArgumentsDelta j) ts) = []" for ts j
    by (induction ts) (simp_all add: starts_of_def)
  have "started_ids (block_events (block_at i b)) = wire_ids b" for i b
    by (cases b) (simp_all add: p starts_of_def)
  then show "started_ids (blocks_events i bs) = concat (map wire_ids bs)" by (induction bs arbitrary: i) simp_all
  show "started_ids (ends_of s r) = []" by (auto simp: ends_of_def starts_of_def split: option.split)
qed

lemma wire_calls_from: "x \<in> set (wire_calls i bs) \<Longrightarrow> i \<le> fst x"
  by (induction i bs rule: wire_calls.induct) auto

lemma wire_calls_sorted: "sorted_wrt (<) (map fst (wire_calls i bs))"
  by (induction i bs rule: wire_calls.induct) (auto dest: wire_calls_from)

lemma wire_calls_arguments: "(j, c, n, a) \<in> set (wire_calls i bs) \<Longrightarrow> said (arguments_of j) (blocks_events i bs) = a"
proof (induction i bs rule: wire_calls.induct)
  case (2 i cid name ts bs)
  then show ?case using wire_calls_from[of "(j, c, n, a)" "Suc i" bs]
    by (auto simp: said_pieces said_arguments_later)
qed (auto simp: said_pieces)

definition call_told :: "tool_call \<Rightarrow> nat \<times> string \<times> string \<times> string" where
  "call_told k = (call_index k, call_id k, call_name k, arguments_text k)"

lemma calls_told:
  fixes s r parse mid bs
  defines "es \<equiv> blocks_events 0 bs @ ends_of s r"
  shows "map call_told (map (call_said parse es mid) (sort_key fst (concat (map tool_said es)))) = wire_calls 0 bs"
proof -
  let ?keys = "map (\<lambda>(j, c, n, a). (j, c, n)) (wire_calls 0 bs)"
  have k: "concat (map tool_said es) = ?keys" by (simp add: es_def tool_said_blocks tool_said_ends)
  have "map fst ?keys = map fst (wire_calls 0 bs)" by (simp add: case_prod_beta)
  then have "sorted (map fst ?keys)" using wire_calls_sorted[of 0 bs] by (metis strict_sorted_imp_sorted)
  then have "sort_key fst ?keys = ?keys" by (rule sort_key_id_if_sorted)
  moreover have "map (\<lambda>x. call_told (call_said parse es mid (case x of (j, c, n, a) \<Rightarrow> (j, c, n)))) (wire_calls 0 bs) = wire_calls 0 bs"
    by (rule map_idI) (auto simp: call_told_def call_said_def Let_def es_def said_ends dest: wire_calls_arguments)
  ultimately show ?thesis unfolding k by (simp add: comp_def)
qed


text \<open>A thought with its signature, a text in two pieces, a tool call in two fragments.\<close>

definition demo_wire_blocks :: "wire_block list" where
  "demo_wire_blocks = [WThinking [''t''] [''s'', ''g''], WText [''h'', ''i''], WTool ''k'' ''ls'' [''{'', ''}'']]"

definition demo_wire_values :: "json list" where
  "demo_wire_values = message_values (JObj []) demo_wire_blocks ''tool_use'' (JObj [])"

definition demo_wire_parse :: "string \<Rightarrow> string + json" where
  "demo_wire_parse d = Inr (demo_wire_values ! length d)"

definition demo_wire_inputs :: "sse_input list" where
  "demo_wire_inputs = map (\<lambda>n. SseEvent \<lparr>sse_name = [], sse_data = replicate n CHR ''x''\<rparr>) [0..<length demo_wire_values]"


end
