(* ===== verification/Spec2Isabelle.thy ===== *)
theory Spec2Isabelle
  imports TransportRegistry Inbox Model RunHandle EnginePolicy Conversations CheckpointLemmas ToolRounds
    RunProperties ImportProperties
    Connect Wire JsonStreamLaws ModelCycleStreams RoundProgress StepTracking CompactionWitnesses EditLaws
    ToolDispatch ModelConfig EngineBounds OpenAiChatLaws OpenAiResponsesLaws AnthropicStreams
begin

text \<open>
  A development about the run core of the HAXSD server (src/server/src, Rust): a Cursor client's requests arrive
  over a transport, become runs of a conversation, each run alternates model calls and tool rounds over a
  transactional store, and what it produces goes back to the client as a stream of frames.

  \<^bold>\<open>How the parts interact.\<close> A request id is routed to a transport (registry), whose appends pass an
  admission (lifecycle) and an inbox that restores their order; they carry user messages, tool results and
  cancellations to the conversation's active run (conversation registry, run handle). The run engine claims the
  conversation in the store, commits the initial messages, and then takes turns: it builds a request from the
  current history, consumes one streaming provider call (model cycle), commits the assistant message or executes a
  tool round, retries or compacts when a call fails, and at the end records the outcome. Run events go to the
  client through the output hub, the tool dispatch and the edit schedule.

  \<^bold>\<open>Theories and the code they model\<close> (files under src/server/src). The theory order is the
  order of use.

  \<^item> Prelude: error.rs; saturating integers, ordered maps, and the interface locales (state machine, emitter,
    simulation, store of histories) that later theories interpret on their own operations.
  \<^item> Transport: Inbox (cursor/transport/inbox.rs), Lifecycle (lifecycle.rs), Output (output.rs), Handle
    (handle.rs), TransportRegistry (registry.rs). Methods under one lock are one function; the waiting methods
    are cut where the source releases the lock, and interleavings are lists of steps.
  \<^item> Data: Model (model/message.rs, tool.rs, projection.rs, inference.rs, run/history.rs), Text and Utf8 (what the
    code uses of \<open>str\<close> and \<open>char\<close>), Bytes (byte strings and codecs), RunEvents (run/event.rs,
    provider/event.rs), ModelConfig (model/configuration.rs).
  \<^item> Store: Db (tables, queries, lineage: store/conversations.rs, messages.rs), Checkpoints (checkpoints.rs),
    Runs (runs.rs), ToolRounds (tool_rounds.rs). A transaction maps the database to an error or a value with the
    new database. Codec gives an instance of the codec parameter. CheckpointLemmas, StoreLaws, RunLaws, RoundLaws,
    BatchLaws and DigestLaws hold what each transaction does; StoreMachine makes the store a machine over its
    transactions; StoreProperties, RunProperties and ImportProperties state what the engine relies on.
  \<^item> Conversations: cursor/conversation/registry.rs, pending.rs, subagents.rs. RunHandle: run/handle.rs,
    command.rs, model_retry.rs.
  \<^item> Wire formats: Connect (cursor/protocol/connect.rs), JsonStream and JsonStreamLaws (json_stream.rs), Wire
    (devin/wire.rs).
  \<^item> Engine: ModelCycle with ModelCycleLaws and ModelCycleStreams (run/model_cycle.rs); RoundExec with
    RoundExecLaws and RoundProgress (run/tool_round.rs, run/messages.rs); EnginePolicy (the decisions of
    run/engine.rs); ImageCache, EngineState, AutoCompact and RunLoop (run/engine.rs itself). The engine is
    written in a monad of actions that wait, stop the run, or return (RoundExec); what it waits for is explicit
    input: commands, stream items, barrier answers and clock readings. EngineEffects has the interfaces of relations
    that every action keeps and the proof that a claimed run keeps them; EngineLaws, EngineHistory and
    EngineBounds interpret them, and EngineDemo evaluates one run from end to end.
  \<^item> Providers: Providers (provider/mod.rs, request_template.rs and the loop that the adapters share), OpenAiChat
    (provider/openai_chat.rs), OpenAiResponses (openai_responses.rs), Anthropic (anthropic.rs). ProviderLaws has the
    protocol between an adapter and the model cycle as an interface (\<open>lawful_adapter\<close>); OpenAiChatLaws,
    OpenAiResponsesLaws and AnthropicLaws interpret it on the three adapters, and AnthropicStreams follows a whole
    message.
  \<^item> Compaction with CompactionLaws, SummaryLaws and CompactionWitnesses (run/compaction.rs); TokenCount with
    TokenLaws (model/token_count.rs).
  \<^item> Tools: EditSchedule (cursor/tools/schedule.rs), EditTools (edit.rs), ToolStream (stream.rs), EditLaws,
    ToolDispatch (mod.rs), TurnSteps (turn_steps.rs) and StepTracking (the count kept in
    cursor/conversation/output.rs).

  \<^bold>\<open>What the lemmas show.\<close> The store: an invariant of all tables (digests chain over ancestry,
  heads exist, one live owner per conversation, settled rounds have all results) kept by every transaction, with
  histories immutable; the effect of each transaction on the current history; idempotent batches; import and prefix
  matching. Runs: ownership and its transfer, first end wins; a command is accepted exactly when the run is in its
  Running phase and its receiver lives, accepted commands are taken in order, and a batch is answered with the
  engine's reply. Model calls: results say exactly what the stream said, a cancelled call closes its text and
  thinking (a tool call that is open stays open), well-formed streams succeed. Tool rounds: every call is answered
  once; after cancellation or thirty minutes a round ends unless nobody answers the barrier of one of its commits,
  which has no deadline. The engine: a run acts on its own conversation only, through the store's transactions; its
  end is on record; a completed run has concluded its history, unless it is a background completion that had been
  delivered before; it asks the provider in its own name and boundedly often in a turn. Providers: whatever the
  upstream sends, the model cycle refuses a stream of an adapter only for one of a list of reasons, each tied to
  what happened (the sender was cancelled, the output ran out, the upstream repeated an id or contradicted itself);
  a whole Chat completion or Anthropic message reaches the run whole; an Anthropic request alternates its roles.
  Compaction: the kept turns form a valid history within the budget, texts stay in their bounds, and the newest
  summary is carried up to its limit. Transport: order of delivery, admissions, prefixes of frames. Tools:
  equivalence of streamed and final edits, the schedule refines one log. Codecs: round trips.

  \<^bold>\<open>Bounds and fuel.\<close> The recursive query of a lineage takes one unit of fuel per turn and gets
  as many as the table has rows, which is enough because a parent is created before its child (CheckpointLemmas,
  \<open>ancestry_fuel\<close>). The search for the notice of a pruned result is \<open>partial_function
  (option)\<close>: it is proved to end for tool names of up to 7000 bytes (\<open>pruned_result_ends\<close>), and
  need not end for longer ones (\<open>prune_may_spin\<close>). The engine's loops recurse on their explicit inputs,
  one element a turn; running out of them is a value of its own (still waiting), never a result. Every other
  recursion is structural or has a measure.

  \<^bold>\<open>Parameters.\<close> Code that is not in the repository is an argument: serde_json, prost, SHA-256,
  base64, the URL parser, gzip, tokio channels, SQLite's atomicity, clocks. Laws are stated where a proof needs them
  and met by concrete instances in the witnesses.

  \<^bold>\<open>Not modelled.\<close> The provider router and the recorder (the items they pass on are the model
  cycle's input), HTTP itself, the Codex and Anthropic gateways, the Claude Code integration, Devin host detection
  and patching, the plugin subsystem, the control API, the local application and proxy, network set-up, the Cursor
  services, prompt compilation, the projection of checkpoints into protobuf, the conversation's actor loop,
  execution and rendering of client tools, settings, retention, overview and migrations of the store, web and
  semantic search, the desktop shell. They are adapters to other processes, user-interface state, or depend on
  protobuf types that the build generates. Inside modelled files: tracing and observation rows, usage columns, the
  diff shown for an edit, printing with masked credentials. Some boundaries inside the model: the store's foreign
  keys are not checked, and the deletions of retention.rs are not among the store's events; the stored image blobs
  do not change while a run lasts; a send on the bounded channel of run events returns at once, so it is never raced
  against a cancellation, and the closing of that channel is met by the engine's own sends, not by those of a model
  cycle. \<close>

end
